(* ===== verification/Prelude.thy ===== *)
theory Prelude
  imports Complex_Main "HOL-Library.AList" "HOL-Library.List_Lexorder" "HOL-Library.Char_ord"
    "HOL-Library.Product_Lexorder" "HOL-Library.Log_Nat" "HOL-Library.Multiset"
begin

text \<open>
  Shared vocabulary of the development: the Python values the server code computes with
  (JSON values with Python's cross-type equality, insertion-ordered dictionaries, the
  conversion functions \<open>int\<close> and \<open>float\<close>, the exceptions it raises), and the
  generic lemmas on association lists, sorting and lists of records that the components use.

  Conventions. A Python \<open>dict\<close> is an association list with distinct keys in insertion
  order: \<open>d[k] = v\<close> is \<^const>\<open>AList.update\<close> (in place when the key exists, appended
  otherwise), \<open>del d[k]\<close> and \<open>d.pop(k)\<close> are \<^const>\<open>AList.delete\<close>, \<open>d.get(k)\<close>
  is \<^const>\<open>map_of\<close>. A Python exception is the left summand of a sum type.
\<close>

section \<open>Collections of facts\<close>

named_theorems dict_simps \<open>lookups, keys and distinctness of insertion-ordered dictionaries\<close>
named_theorems store_defs \<open>definitions of the store's accessors and row updates\<close>
named_theorems inv_intros \<open>introduction rules for the invariants of the components\<close>

text \<open>Quantifiers over records of several fields stay quantifiers over the whole value.\<close>

declare split_paired_All [simp del] split_paired_Ex [simp del]

text \<open>Dictionary lookups stay lookups.\<close>

declare map_of_eq_Some_iff [simp del] Some_eq_map_of_iff [simp del]

section \<open>Python exceptions\<close>

datatype py_error =
    ValueError string
  | KeyError string
  | TypeError string
  | AttributeError string
  | RuntimeError string
  | IndexError string

section \<open>JSON values and Python equality\<close>

text \<open>
  The values \<open>json.loads\<close> produces. A finite double is a rational number, so a JSON
  float is a \<^typ>\<open>rat\<close> (the request model refuses infinities and NaN).
\<close>

datatype json =
    JNull
  | JBool bool
  | JInt int
  | JFloat rat
  | JStr string
  | JArr "json list"
  | JObj "(string \<times> json) list"

type_synonym 'v dict = "(string \<times> 'v) list"

text \<open>
  Python's \<open>==\<close> on these values compares numbers across \<open>bool\<close>, \<open>int\<close> and
  \<open>float\<close> by value and dictionaries regardless of insertion order. Two values are equal
  in this sense exactly when their normal forms are the same.
\<close>

primrec py_norm :: "json \<Rightarrow> json" where
  "py_norm JNull = JNull"
| "py_norm (JBool b) = JFloat (if b then 1 else 0)"
| "py_norm (JInt i) = JFloat (of_int i)"
| "py_norm (JFloat r) = JFloat r"
| "py_norm (JStr s) = JStr s"
| "py_norm (JArr xs) = JArr (map py_norm xs)"
| "py_norm (JObj kvs) = JObj (sort_key fst (map (map_prod id py_norm) kvs))"

definition py_eq :: "json \<Rightarrow> json \<Rightarrow> bool" where
  "py_eq a b \<longleftrightarrow> py_norm a = py_norm b"

lemma py_eq_refl [simp]: "py_eq a a"
  by (simp add: py_eq_def)

lemma py_eq_sym: "py_eq a b \<Longrightarrow> py_eq b a"
  by (simp add: py_eq_def)

lemma py_eq_trans [trans]: "py_eq a b \<Longrightarrow> py_eq b c \<Longrightarrow> py_eq a c"
  by (simp add: py_eq_def)

text \<open>Equality of optional values (\<open>dict.get\<close> results) and of dictionaries.\<close>

definition opt_eq :: "json option \<Rightarrow> json option \<Rightarrow> bool" where
  "opt_eq a b \<longleftrightarrow> map_option py_norm a = map_option py_norm b"

lemma opt_eq_simps [simp]:
  "opt_eq None None"
  "\<not> opt_eq (Some a) None"
  "\<not> opt_eq None (Some a)"
  "opt_eq (Some a) (Some b) \<longleftrightarrow> py_eq a b"
  by (simp_all add: opt_eq_def py_eq_def)

lemma opt_eq_refl [simp]: "opt_eq a a"
  by (simp add: opt_eq_def)

lemma opt_eq_sym: "opt_eq a b \<Longrightarrow> opt_eq b a"
  by (simp add: opt_eq_def)

lemma opt_eq_trans [trans]: "opt_eq a b \<Longrightarrow> opt_eq b c \<Longrightarrow> opt_eq a c"
  by (simp add: opt_eq_def)

lemma opt_eq_None_iff [simp]: "opt_eq a None \<longleftrightarrow> a = None" "opt_eq None a \<longleftrightarrow> a = None"
  by (cases a; simp)+

definition dict_eq :: "json dict \<Rightarrow> json dict \<Rightarrow> bool" where
  "dict_eq a b \<longleftrightarrow> py_eq (JObj a) (JObj b)"

section \<open>Conversions of the standard library\<close>

text \<open>
  \<open>isinstance(v, int) and not isinstance(v, bool)\<close>: JSON integers are a constructor of
  their own. \<open>int(v)\<close> truncates a float towards zero, parses a string and refuses the
  other values.
\<close>

definition is_index :: "json option \<Rightarrow> bool" where
  "is_index v = (case v of Some (JInt _) \<Rightarrow> True | _ \<Rightarrow> False)"

definition is_space :: "char \<Rightarrow> bool" where
  "is_space c \<longleftrightarrow> of_char c \<in> {9, 10, 11, 12, 13, 28, 29, 30, 31, 32 :: nat}"

definition strip_str :: "string \<Rightarrow> string" where
  "strip_str s = rev (dropWhile is_space (rev (dropWhile is_space s)))"

definition digit_value :: "char \<Rightarrow> nat option" where
  "digit_value c =
     (let n = of_char c :: nat in if 48 \<le> n \<and> n \<le> 57 then Some (n - 48) else None)"

text \<open>Decimal digits with single underscores between digits, as \<open>int(str)\<close> accepts.\<close>

fun parse_digits :: "nat \<Rightarrow> bool \<Rightarrow> string \<Rightarrow> nat option" where
  "parse_digits acc after_digit [] = (if after_digit then Some acc else None)"
| "parse_digits acc after_digit (c # cs) =
     (case digit_value c of
        Some d \<Rightarrow> parse_digits (10 * acc + d) True cs
      | None \<Rightarrow> if c = CHR ''_'' \<and> after_digit then parse_digits acc False cs else None)"

definition parse_int :: "string \<Rightarrow> int option" where
  "parse_int s =
     (case strip_str s of
        [] \<Rightarrow> None
      | c # cs \<Rightarrow>
          if c = CHR ''-'' then map_option (\<lambda>n. - int n) (parse_digits 0 False cs)
          else if c = CHR ''+'' then map_option int (parse_digits 0 False cs)
          else map_option int (parse_digits 0 False (c # cs)))"

definition trunc_rat :: "rat \<Rightarrow> int" where
  "trunc_rat r = (if r < 0 then \<lceil>r\<rceil> else \<lfloor>r\<rfloor>)"

definition py_int :: "json \<Rightarrow> py_error + int" where
  "py_int v =
     (case v of
        JBool b \<Rightarrow> Inr (if b then 1 else 0)
      | JInt i \<Rightarrow> Inr i
      | JFloat r \<Rightarrow> Inr (trunc_rat r)
      | JStr s \<Rightarrow> (case parse_int s of Some i \<Rightarrow> Inr i | None \<Rightarrow> Inl (ValueError s))
      | _ \<Rightarrow> Inl (TypeError ''int''))"

text \<open>
  \<open>float(i)\<close> of an integer: exact up to \<open>2 ^ 53\<close>, otherwise rounded to 53 significant
  bits, ties to even. The value of the resulting double is an integer.
\<close>

definition float_of_int :: "int \<Rightarrow> int" where
  "float_of_int i =
     (if \<bar>i\<bar> \<le> 2 ^ 53 then i
      else let n = nat \<bar>i\<bar>; e = floorlog 2 n - 53;
               q = n div 2 ^ e; r = n mod 2 ^ e; half = 2 ^ (e - 1);
               m = (if half < r \<or> (r = half \<and> odd q) then q + 1 else q)
           in sgn i * int (m * 2 ^ e))"

lemma float_of_int_exact [simp]: "\<bar>i\<bar> \<le> 2 ^ 53 \<Longrightarrow> float_of_int i = i"
  by (simp add: float_of_int_def)

text \<open>\<open>str(i)\<close> of an integer and the pair key \<open>f"{a}:{b}"\<close> with its two readers.\<close>

definition digit_char :: "nat \<Rightarrow> char" where
  "digit_char d = char_of (48 + d)"

fun show_nat :: "nat \<Rightarrow> string" where
  "show_nat n = (if n < 10 then [digit_char n] else show_nat (n div 10) @ [digit_char (n mod 10)])"

declare show_nat.simps [simp del]

definition show_int :: "int \<Rightarrow> string" where
  "show_int i = (if i < 0 then CHR ''-'' # show_nat (nat (- i)) else show_nat (nat i))"

definition pair_key :: "int \<Rightarrow> int \<Rightarrow> string" where
  "pair_key a b = show_int a @ CHR '':'' # show_int b"

definition partition_colon :: "string \<Rightarrow> string \<times> string" where
  "partition_colon s =
     (takeWhile (\<lambda>c. c \<noteq> CHR '':'') s, drop 1 (dropWhile (\<lambda>c. c \<noteq> CHR '':'') s))"

definition pair_of_key :: "string \<Rightarrow> py_error + int \<times> int" where
  "pair_of_key s =
     (let (a, b) = partition_colon s in
      case py_int (JStr a) of
        Inl e \<Rightarrow> Inl e
      | Inr i \<Rightarrow> (case py_int (JStr b) of Inl e \<Rightarrow> Inl e | Inr j \<Rightarrow> Inr (i, j)))"

lemma digit_value_char: "d < 10 \<Longrightarrow> digit_value (digit_char d) = Some d"
  by (simp add: digit_value_def digit_char_def)

lemma digit_char_neq:
  assumes "d < 10"
  shows "digit_char d \<noteq> CHR '':''" "digit_char d \<noteq> CHR ''-''" "digit_char d \<noteq> CHR ''+''"
    "\<not> is_space (digit_char d)"
proof -
  have n: "of_char (digit_char d) = (48 + d :: nat)" using assms by (simp add: digit_char_def)
  show "digit_char d \<noteq> CHR '':''" "digit_char d \<noteq> CHR ''-''" "digit_char d \<noteq> CHR ''+''"
    using n assms by auto
  show "\<not> is_space (digit_char d)" using n assms by (simp add: is_space_def)
qed

lemma show_nat_digits: "c \<in> set (show_nat n) \<Longrightarrow> \<exists>d<10. c = digit_char d"
proof (induction n rule: show_nat.induct)
  case (1 n)
  then show ?case
    by (subst (asm) (2) show_nat.simps) (auto split: if_splits, metis mod_less_divisor zero_less_numeral)
qed

lemma show_nat_nonempty: "show_nat n \<noteq> []"
  by (subst show_nat.simps) simp

lemma parse_digits_append:
  "\<forall>c\<in>set xs. \<exists>d<10. c = digit_char d \<Longrightarrow> xs \<noteq> [] \<Longrightarrow>
   parse_digits acc b (xs @ ys) =
     (case parse_digits acc b xs of None \<Rightarrow> None | Some m \<Rightarrow> parse_digits m True ys)"
proof (induction xs arbitrary: acc b)
  case (Cons c cs)
  then obtain d where "d < 10" "c = digit_char d" by auto
  then show ?case using Cons by (cases cs) (auto simp: digit_value_char)
qed simp

lemma parse_show_nat: "parse_digits 0 False (show_nat n) = Some n"
proof (induction n rule: show_nat.induct)
  case (1 n)
  show ?case
  proof (cases "n < 10")
    case True
    then show ?thesis by (subst show_nat.simps) (simp add: digit_value_char)
  next
    case False
    have "\<forall>c\<in>set (show_nat (n div 10)). \<exists>d<10. c = digit_char d"
      using show_nat_digits by blast
    then show ?thesis
      using False "1" show_nat_nonempty
      by (subst show_nat.simps) (simp add: parse_digits_append digit_value_char)
  qed
qed

lemma strip_no_space: "\<forall>c\<in>set xs. \<not> is_space c \<Longrightarrow> strip_str xs = xs"
proof -
  assume "\<forall>c\<in>set xs. \<not> is_space c"
  then have "dropWhile is_space ys = ys" if "set ys = set xs" for ys
    using that by (cases ys) auto
  then show ?thesis by (simp add: strip_str_def)
qed

lemma show_nat_no_space: "c \<in> set (show_nat n) \<Longrightarrow> \<not> is_space c"
  using show_nat_digits digit_char_neq(4) by blast

lemma show_nat_no_colon: "c \<in> set (show_nat n) \<Longrightarrow> c \<noteq> CHR '':''"
  using show_nat_digits digit_char_neq(1) by metis

lemma parse_int_show_nat: "parse_int (show_nat n) = Some (int n)"
proof -
  obtain c cs where c: "show_nat n = c # cs" using show_nat_nonempty by (cases "show_nat n") auto
  then obtain d where "d < 10" "c = digit_char d" using show_nat_digits [of c n] by auto
  then have "c \<noteq> CHR ''-''" "c \<noteq> CHR ''+''" using digit_char_neq by auto
  moreover have "strip_str (show_nat n) = show_nat n"
    using strip_no_space show_nat_no_space by blast
  then have "strip_str (c # cs) = c # cs" "parse_digits 0 False (c # cs) = Some n"
    using parse_show_nat [of n] by (simp_all only: c)
  ultimately show ?thesis by (simp add: parse_int_def c)
qed

lemma parse_int_show_int: "parse_int (show_int i) = Some i"
proof (cases "i < 0")
  case True
  let ?n = "nat (- i)"
  have "strip_str (CHR ''-'' # show_nat ?n) = CHR ''-'' # show_nat ?n"
    by (rule strip_no_space) (auto simp: is_space_def dest: show_nat_no_space)
  then show ?thesis using True by (simp add: show_int_def parse_int_def parse_show_nat)
next
  case False
  then show ?thesis by (simp add: show_int_def parse_int_show_nat)
qed

lemma show_int_no_colon: "c \<in> set (show_int i) \<Longrightarrow> c \<noteq> CHR '':''"
  by (auto simp: show_int_def dest: show_nat_no_colon split: if_splits)

text \<open>Reading a pair key back gives the pair; the keys of distinct pairs are distinct.\<close>

lemma partition_pair_key: "partition_colon (pair_key a b) = (show_int a, show_int b)"
  by (simp add: partition_colon_def pair_key_def takeWhile_append2 dropWhile_append2
      show_int_no_colon)

lemma pair_of_pair_key [simp]: "pair_of_key (pair_key a b) = Inr (a, b)"
  by (simp add: pair_of_key_def partition_pair_key py_int_def parse_int_show_int)

lemma pair_key_inject [simp]: "pair_key a b = pair_key c d \<longleftrightarrow> a = c \<and> b = d"
  by (metis Inr_inject Pair_inject pair_of_pair_key)

text \<open>A list comprehension whose element expression may raise: the first error wins.\<close>

fun traverse :: "('a \<Rightarrow> 'e + 'b) \<Rightarrow> 'a list \<Rightarrow> 'e + 'b list" where
  "traverse f [] = Inr []"
| "traverse f (x # xs) =
     (case f x of
        Inl e \<Rightarrow> Inl e
      | Inr y \<Rightarrow> (case traverse f xs of Inl e \<Rightarrow> Inl e | Inr ys \<Rightarrow> Inr (y # ys)))"

text \<open>Sequencing of two computations that may raise.\<close>

definition bind_exc :: "'e + 'a \<Rightarrow> ('a \<Rightarrow> 'e + 'b) \<Rightarrow> 'e + 'b" where
  "bind_exc x f = (case x of Inl e \<Rightarrow> Inl e | Inr a \<Rightarrow> f a)"

lemma bind_exc_simps [simp]: "bind_exc (Inl e) f = Inl e" "bind_exc (Inr a) f = f a"
  by (simp_all add: bind_exc_def)

lemma bind_exc_Inr: "bind_exc x f = Inr b \<longleftrightarrow> (\<exists>a. x = Inr a \<and> f a = Inr b)"
  by (cases x) simp_all

lemma map_sum_Inr: "map_sum id h x = Inr y \<Longrightarrow> \<exists>z. x = Inr z \<and> y = h z"
  by (cases x) auto

text \<open>A loop over a list that threads a state and stops at the first exception.\<close>

fun fold_exc :: "('s \<Rightarrow> 'a \<Rightarrow> 'e + 's) \<Rightarrow> 's \<Rightarrow> 'a list \<Rightarrow> 'e + 's" where
  "fold_exc f s [] = Inr s"
| "fold_exc f s (x # xs) = (case f s x of Inl e \<Rightarrow> Inl e | Inr s' \<Rightarrow> fold_exc f s' xs)"

lemma traverse_total: "(\<And>x. x \<in> set xs \<Longrightarrow> f x = Inr (g x)) \<Longrightarrow> traverse f xs = Inr (map g xs)"
  by (induction xs) auto

lemma traverse_length: "traverse f xs = Inr ys \<Longrightarrow> length ys = length xs"
  by (induction xs arbitrary: ys) (auto split: sum.splits)

lemma fold_exc_append:
  "fold_exc f s (xs @ ys) = (case fold_exc f s xs of Inl e \<Rightarrow> Inl e | Inr s' \<Rightarrow> fold_exc f s' ys)"
  by (induction xs arbitrary: s) (auto split: sum.splits)

lemma fold_exc_inv:
  assumes "fold_exc f s xs = Inr s'" "P s"
    and "\<And>s x s'. x \<in> set xs \<Longrightarrow> P s \<Longrightarrow> f s x = Inr s' \<Longrightarrow> P s'"
  shows "P s'"
  using assms
proof (induction xs arbitrary: s)
  case (Cons x xs)
  then obtain t where t: "f s x = Inr t" "fold_exc f t xs = Inr s'"
    by (auto split: sum.splits)
  then have "P t" using Cons.prems by auto
  with t(2) show ?case using Cons.IH Cons.prems(3) by (metis list.set_intros(2))
qed simp

lemma fold_exc_total:
  assumes "P s" and "\<And>s x. x \<in> set xs \<Longrightarrow> P s \<Longrightarrow> \<exists>s'. f s x = Inr s' \<and> P s'"
  shows "\<exists>s'. fold_exc f s xs = Inr s' \<and> P s'"
  using assms
proof (induction xs arbitrary: s)
  case (Cons x xs)
  then obtain s' where "f s x = Inr s'" "P s'" by (meson list.set_intros(1))
  with Cons show ?case by auto
qed simp

text \<open>Forward simulation of such a loop by a pure fold.\<close>

lemma fold_exc_sim:
  assumes "fold_exc f s xs = Inr s'" "R s a"
    and "\<And>s x s' a. x \<in> set xs \<Longrightarrow> R s a \<Longrightarrow> f s x = Inr s' \<Longrightarrow> R s' (g x a)"
  shows "R s' (fold g xs a)"
  using assms
proof (induction xs arbitrary: s a)
  case (Cons x xs)
  then obtain t where t: "f s x = Inr t" "fold_exc f t xs = Inr s'"
    by (auto split: sum.splits)
  then have "R t (g x a)" using Cons.prems by auto
  with t(2) show ?case using Cons.IH Cons.prems(3) by (auto simp: fold_Cons)
qed simp

section \<open>Insertion-ordered dictionaries\<close>

abbreviation dict_keys :: "('k \<times> 'v) list \<Rightarrow> 'k list" where
  "dict_keys d \<equiv> map fst d"

definition dict_get :: "('k \<times> 'v) list \<Rightarrow> 'k \<Rightarrow> 'v \<Rightarrow> 'v" where
  "dict_get d k dflt = (case map_of d k of Some v \<Rightarrow> v | None \<Rightarrow> dflt)"

definition dict_setdefault :: "('k \<times> 'v) list \<Rightarrow> 'k \<Rightarrow> 'v \<Rightarrow> ('k \<times> 'v) list" where
  "dict_setdefault d k v = (if map_of d k = None then AList.update k v d else d)"

text \<open>\<open>d.setdefault(k, []).append(x)\<close>.\<close>

definition dict_append :: "('k \<times> 'v list) list \<Rightarrow> 'k \<Rightarrow> 'v \<Rightarrow> ('k \<times> 'v list) list" where
  "dict_append d k x = AList.update k (dict_get d k [] @ [x]) d"

text \<open>The sorted item view \<open>sorted(d.items())\<close> of a dictionary (keys are distinct).\<close>

definition sorted_items :: "('k::linorder \<times> 'v) list \<Rightarrow> ('k \<times> 'v) list" where
  "sorted_items d = sort_key fst d"

lemma map_of_update [dict_simps, simp]:
  "map_of (AList.update k v d) = (map_of d)(k \<mapsto> v)"
  by (simp add: update_conv')

lemma map_of_None_keys: "map_of d k = None \<longleftrightarrow> k \<notin> set (dict_keys d)"
  by (simp add: map_of_eq_None_iff)

lemma map_of_Some_keys: "map_of d k = Some v \<Longrightarrow> k \<in> set (dict_keys d)"
  by (metis map_of_None_keys option.distinct(1))

lemma map_of_delete [dict_simps, simp]:
  "map_of (AList.delete k d) = (map_of d)(k := None)"
  by (simp add: delete_conv')

lemma dict_get_update [dict_simps, simp]:
  "dict_get (AList.update k v d) k' w = (if k' = k then v else dict_get d k' w)"
  by (simp add: dict_get_def)

lemma distinct_dict_update [dict_simps, simp]:
  "distinct (dict_keys d) \<Longrightarrow> distinct (dict_keys (AList.update k v d))"
  by (rule distinct_update)

lemma distinct_dict_delete [dict_simps, simp]:
  "distinct (dict_keys d) \<Longrightarrow> distinct (dict_keys (AList.delete k d))"
  by (rule distinct_delete)

lemma set_dict_keys_update [dict_simps, simp]:
  "set (dict_keys (AList.update k v d)) = insert k (set (dict_keys d))"
  by (simp add: dom_update)

lemma set_dict_keys_delete [dict_simps, simp]:
  "set (dict_keys (AList.delete k d)) = set (dict_keys d) - {k}"
  by (simp add: delete_keys)

lemma map_of_sorted_items [dict_simps, simp]:
  assumes "distinct (dict_keys d)"
  shows "map_of (sorted_items d) = map_of d"
proof (rule map_of_eqI)
  show "set (dict_keys (sorted_items d)) = set (dict_keys d)"
    by (simp add: sorted_items_def)
  show "\<forall>k\<in>set (dict_keys (sorted_items d)). map_of (sorted_items d) k = map_of d k"
  proof
    fix k
    assume "k \<in> set (dict_keys (sorted_items d))"
    then obtain v where v: "map_of d k = Some v"
      by (auto simp: sorted_items_def dest: weak_map_of_SomeI)
    have "distinct (dict_keys (sorted_items d))"
      using assms by (simp add: sorted_items_def distinct_map)
    moreover have "(k, v) \<in> set (sorted_items d)"
      using v by (auto simp: sorted_items_def dest: map_of_SomeD)
    ultimately show "map_of (sorted_items d) k = map_of d k"
      using v by simp
  qed
qed

lemma distinct_sorted_items [dict_simps, simp]:
  "distinct (dict_keys (sorted_items d)) \<longleftrightarrow> distinct (dict_keys d)"
  by (simp add: sorted_items_def distinct_map)

lemma set_sorted_items [dict_simps, simp]: "set (sorted_items d) = set d"
  by (simp add: sorted_items_def)

text \<open>Dictionary comprehensions \<open>{k: f(v) for k, v in d.items()}\<close>.\<close>

lemma map_of_map_values [dict_simps]:
  "map_of (map (\<lambda>(k, v). (k, f v)) d) k = map_option f (map_of d k)"
  by (induction d) auto

lemma dict_keys_map_values [dict_simps, simp]:
  "dict_keys (map (\<lambda>(k, v). (k, f v)) d) = dict_keys d"
  by (induction d) auto

section \<open>Lists of rows\<close>

text \<open>
  A database table is the list of its rows in rowid order. \<open>update_rows p f\<close> is
  \<open>UPDATE ... WHERE p\<close>; \<open>order_by k\<close> is \<open>ORDER BY k\<close>.
\<close>

definition update_rows :: "('r \<Rightarrow> bool) \<Rightarrow> ('r \<Rightarrow> 'r) \<Rightarrow> 'r list \<Rightarrow> 'r list" where
  "update_rows p f rows = map (\<lambda>r. if p r then f r else r) rows"

abbreviation order_by :: "('r \<Rightarrow> 'k::linorder) \<Rightarrow> 'r list \<Rightarrow> 'r list" where
  "order_by \<equiv> sort_key"

definition max_or :: "'k::linorder \<Rightarrow> 'k list \<Rightarrow> 'k" where
  "max_or z ks = foldr max ks z"

lemma set_update_rows: "set (update_rows p f rows) = (\<lambda>r. if p r then f r else r) ` set rows"
  by (simp add: update_rows_def)

lemma length_update_rows [simp]: "length (update_rows p f rows) = length rows"
  by (simp add: update_rows_def)

lemma map_update_rows_frame:
  "(\<And>r. p r \<Longrightarrow> g (f r) = g r) \<Longrightarrow> map g (update_rows p f rows) = map g rows"
  by (auto simp: update_rows_def)

lemma filter_update_rows_frame:
  assumes "\<And>r. p r \<Longrightarrow> q (f r) = q r"
  shows "filter q (update_rows p f rows) = update_rows p f (filter q rows)"
  using assms by (induction rows) (auto simp: update_rows_def)

lemma max_or_ge: "z \<le> max_or z ks" "k \<in> set ks \<Longrightarrow> k \<le> max_or z ks"
  by (induction ks) (auto simp: max_or_def le_max_iff_disj)

lemma max_or_in: "max_or z ks = z \<or> max_or z ks \<in> set ks"
  by (induction ks) (auto simp: max_or_def max_def)

lemma max_or_least: "z \<le> b \<Longrightarrow> (\<And>k. k \<in> set ks \<Longrightarrow> k \<le> b) \<Longrightarrow> max_or z ks \<le> b"
  by (induction ks) (auto simp: max_or_def)

lemma find_Some_in: "find p xs = Some x \<Longrightarrow> x \<in> set xs \<and> p x"
  by (auto simp: find_Some_iff)

lemma distinct_map_inj_row:
  "distinct (map f xs) \<Longrightarrow> x \<in> set xs \<Longrightarrow> y \<in> set xs \<Longrightarrow> f x = f y \<Longrightarrow> x = y"
  by (auto simp: distinct_map dest: inj_onD)

lemma find_by_key:
  assumes "distinct (map f xs)" "x \<in> set xs"
  shows "find (\<lambda>r. f r = f x) xs = Some x"
  using assms by (induction xs) (auto dest: imageI)

lemma sorted_wrt_less_strict:
  fixes xs :: "'a::linorder list"
  shows "sorted_wrt (<) xs \<longleftrightarrow> sorted xs \<and> distinct xs"
  by (rule strict_sorted_iff)

lemma sorted_key_id: "sorted (map f xs) \<Longrightarrow> sort_key f xs = xs"
  by (induction xs) (auto simp: insort_is_Cons)

section \<open>Slices\<close>

text \<open>Bounds of a slice without a step, clipped to the sequence as Python clips them.\<close>

definition slice_index :: "int \<Rightarrow> int \<Rightarrow> nat" where
  "slice_index len i = nat (if i < 0 then max 0 (len + i) else min len i)"

definition py_slice :: "'b list \<Rightarrow> int \<Rightarrow> int \<Rightarrow> 'b list" where
  "py_slice xs a b =
     (let i = slice_index (int (length xs)) a; j = slice_index (int (length xs)) b in take (j - i) (drop i xs))"

end
