(* ===== verification/Realtime_Types.thy ===== *)
theory Realtime_Types
  imports Prelude
begin

text \<open>
  The frozen contracts of the collaborative operation plane
  (\<open>solweig_gpu/server/realtime/types.py\<close>) and the transport layer on top of them
  (\<open>operations.py\<close>): vocabularies, the durable operation and epoch records, conflict
  records, family deltas, the canonical per-family state, and the shape validation of one
  submitted operation.

  Wall-clock stamps are kept as parsed instants in milliseconds, the precision of the
  store's own clock; a stamp that \<open>datetime.strptime\<close> refuses is a separate constructor,
  so that the code's \<open>ValueError\<close> branches stay in the model.
\<close>

section \<open>Vocabularies\<close>

definition SourceFamily :: "string list" where
  "SourceFamily =
     [''building_geometry'', ''vegetation_geometry'', ''landcover_surface'',
      ''meteorological_forcing'', ''model_receptor_parameters'', ''selected_date_time'',
      ''output_view'']"

definition OperationVerb :: "string list" where
  "OperationVerb = [''add'', ''replace'', ''move'', ''delete'', ''paint'', ''set'', ''select'']"

definition EpochStatus :: "string list" where
  "EpochStatus =
     [''open'', ''closed'', ''reducing'', ''fast_planned'', ''fast_published'',
      ''exact_targeted'']"

definition TERMINAL_EPOCH_STATUSES :: "string list" where
  "TERMINAL_EPOCH_STATUSES = [''fast_published'', ''exact_targeted'']"

definition MAX_OPERATIONS_PER_BATCH :: nat where
  "MAX_OPERATIONS_PER_BATCH = 128"

section \<open>Stamps\<close>

datatype stamp = Stamp int | Malformed string

definition parse_stamp :: "stamp \<Rightarrow> py_error + int" where
  "parse_stamp s = (case s of Stamp t \<Rightarrow> Inr t | Malformed x \<Rightarrow> Inl (ValueError x))"

lemma parse_stamp_simps [simp]:
  "parse_stamp (Stamp t) = Inr t"
  "parse_stamp (Malformed x) = Inl (ValueError x)"
  by (simp_all add: parse_stamp_def)

section \<open>Operations and epochs\<close>

record operation =
  op_workspace_id :: string
  op_operation_id :: string
  op_actor_id :: string
  op_client_sequence :: "int option"
  op_base_revision :: "int option"
  op_source_family :: string
  op_entity_id :: "string option"
  op_verb :: string
  op_payload :: json
  op_received_at :: stamp
  op_accepted_at :: stamp
  op_server_sequence :: int
  op_epoch_id :: int

text \<open>
  The durable row as the store returns it: an operation with the replay flag. Lifting a
  record into the reducer's input drops the flag, and so does the API rendering.
\<close>

record operation_record = operation +
  op_duplicate :: bool

definition operation_from_record :: "operation_record \<Rightarrow> operation" where
  "operation_from_record r = operation.truncate r"

definition operation_body :: "operation_record \<Rightarrow> operation" where
  "operation_body r = operation.truncate r"

record epoch_record =
  ep_workspace_id :: string
  ep_epoch_id :: int
  ep_status :: string
  ep_first_sequence :: "int option"
  ep_last_sequence :: "int option"
  ep_workspace_revision :: "int option"
  ep_opened_at :: stamp
  ep_closed_at :: "stamp option"

record epoch_view = epoch_record +
  ep_terminal :: bool

definition epoch_body :: "epoch_record \<Rightarrow> epoch_view" where
  "epoch_body e =
     epoch_record.extend e (epoch_view.fields (ep_status e \<in> set TERMINAL_EPOCH_STATUSES))"

section \<open>Reduction results\<close>

record conflict_record =
  cf_kind :: string
  cf_source_family :: string
  cf_entity_id :: "string option"
  cf_winner_operation_id :: string
  cf_loser_operation_ids :: "string list"
  cf_detail :: "json dict"

record command =
  cmd_adapter :: string
  cmd_operation :: string
  cmd_target :: json
  cmd_values :: "json dict"
  cmd_old_values :: "json dict option"
  cmd_time_index :: "int option"

record family_delta =
  fd_family :: string
  fd_is_noop :: bool
  fd_commands :: "command list"
  fd_summary :: "int dict"

text \<open>One closed interval of timesteps with its value; no stop means unbounded.\<close>

type_synonym segment = "int \<times> int option \<times> json"

text \<open>
  The canonical state of one family. Object entries carry their \<open>generation\<close> among
  their fields, as the code stores them. A family the reducer does not know keeps an opaque
  mapping.
\<close>

datatype family_state =
    ObjectState "json dict dict" "int dict"
  | PaintState "int dict dict"
  | SegmentState "segment list dict"
  | ViewState "json dict" "json dict dict"
  | OtherState "json dict"

record canonical_state =
  cs_workspace_id :: string
  cs_workspace_revision :: int
  cs_families :: "family_state dict"

record reduced_epoch =
  re_workspace_id :: string
  re_epoch_id :: int
  re_workspace_revision :: int
  re_family_deltas :: "family_delta dict"
  re_audit_operations :: "operation list"
  re_conflicts :: "conflict_record list"

definition reduced_is_noop :: "reduced_epoch \<Rightarrow> bool" where
  "reduced_is_noop r = list_all (\<lambda>(_, delta). fd_is_noop delta) (re_family_deltas r)"

record epoch_reduction =
  er_reduced :: reduced_epoch
  er_state :: canonical_state

section \<open>Transport validation\<close>

text \<open>One submitted item as the request model dumps it, with the actor and receive stamp
  the route adds.\<close>

record operation_item =
  it_operation_id :: string
  it_client_sequence :: "int option"
  it_base_revision :: "int option"
  it_source_family :: string
  it_entity_id :: "string option"
  it_verb :: string
  it_payload :: json
  it_actor_id :: string
  it_received_at :: stamp

record api_error =
  ae_code :: string
  ae_status :: int
  ae_field :: "(nat \<times> string) option"

definition validate_operation_shape :: "operation_item \<Rightarrow> nat \<Rightarrow> api_error + unit" where
  "validate_operation_shape item index =
     (if it_source_family item \<notin> set SourceFamily then
        Inl \<lparr>ae_code = ''unknown_source_family'', ae_status = 400,
             ae_field = Some (index, ''source_family'')\<rparr>
      else if it_verb item \<notin> set OperationVerb then
        Inl \<lparr>ae_code = ''unknown_operation_verb'', ae_status = 400,
             ae_field = Some (index, ''verb'')\<rparr>
      else case it_payload item of
             JObj (_ # _) \<Rightarrow> Inr ()
           | _ \<Rightarrow> Inl \<lparr>ae_code = ''invalid_operation_payload'', ae_status = 400,
                       ae_field = Some (index, ''payload'')\<rparr>)"

lemma operation_from_record_sel [simp]:
  "op_server_sequence (operation_from_record r) = op_server_sequence r"
  "op_operation_id (operation_from_record r) = op_operation_id r"
  "op_source_family (operation_from_record r) = op_source_family r"
  "op_epoch_id (operation_from_record r) = op_epoch_id r"
  "op_payload (operation_from_record r) = op_payload r"
  "op_operation_id (operation_body r) = op_operation_id r"
  by (simp_all add: operation_from_record_def operation_body_def operation.truncate_def)

lemma validate_operation_shape_ok_iff:
  "validate_operation_shape item i = Inr () \<longleftrightarrow>
     it_source_family item \<in> set SourceFamily \<and> it_verb item \<in> set OperationVerb \<and>
     (\<exists>kv kvs. it_payload item = JObj (kv # kvs))"
  by (auto simp: validate_operation_shape_def split: json.splits list.splits)

section \<open>The reducer contract\<close>

text \<open>
  The abstract class \<open>EpochReducer\<close> of \<open>types.py\<close>: an initial state and a pure
  function from a baseline and the operations of one epoch. The laws are the ones its
  docstring lists: operations are consumed in server order whatever order they arrive in,
  every operation is audited, and semantically valid input never raises. \<open>state_ok\<close> and
  \<open>op_ok\<close> are what an implementation calls semantically valid.
\<close>

locale epoch_reducer =
  fixes initial :: "string \<Rightarrow> canonical_state"
    and reduce :: "canonical_state \<Rightarrow> operation list \<Rightarrow> py_error + epoch_reduction"
    and state_ok :: "canonical_state \<Rightarrow> bool"
    and op_ok :: "operation \<Rightarrow> bool"
  assumes initial_ok: "state_ok (initial w)"
    and initial_revision: "cs_workspace_revision (initial w) = 0"
    and initial_workspace: "cs_workspace_id (initial w) = w"
    and reduce_total: "state_ok b \<Longrightarrow> \<forall>op\<in>set ops. op_ok op \<Longrightarrow>
      distinct (map op_server_sequence ops) \<Longrightarrow> \<exists>r. reduce b ops = Inr r"
    and reduce_ok: "reduce b ops = Inr r \<Longrightarrow> state_ok b \<Longrightarrow> \<forall>op\<in>set ops. op_ok op \<Longrightarrow>
      state_ok (er_state r)"
    and reduce_order_free: "mset ops = mset ops' \<Longrightarrow> reduce b ops = reduce b ops'"
    and reduce_audit: "reduce b ops = Inr r \<Longrightarrow>
      re_audit_operations (er_reduced r) = sort_key op_server_sequence ops"
    and reduce_revision: "reduce b ops = Inr r \<Longrightarrow>
      re_workspace_revision (er_reduced r) = cs_workspace_revision b + (if ops = [] then 0 else 1) \<and>
      cs_workspace_revision (er_state r) = re_workspace_revision (er_reduced r)"
    and reduce_workspace: "reduce b ops = Inr r \<Longrightarrow>
      re_workspace_id (er_reduced r) = cs_workspace_id b \<and>
      cs_workspace_id (er_state r) = cs_workspace_id b"
begin

text \<open>A history is a sequence of epochs, each reduced against the state the previous one
  left. It runs through on valid input, and counts its non-empty epochs.\<close>

definition history :: "canonical_state \<Rightarrow> operation list list \<Rightarrow> py_error + canonical_state" where
  "history = fold_exc (\<lambda>b ops. map_sum id er_state (reduce b ops))"

lemma history_step:
  "map_sum id er_state (reduce b ops) = Inr s \<longleftrightarrow> (\<exists>r. reduce b ops = Inr r \<and> s = er_state r)"
  by (cases "reduce b ops") auto

lemma history_total:
  assumes "state_ok b" "\<forall>ops\<in>set epochs. (\<forall>op\<in>set ops. op_ok op) \<and> distinct (map op_server_sequence ops)"
  shows "\<exists>s. history b epochs = Inr s \<and> state_ok s"
  unfolding history_def
proof (rule fold_exc_total [where P = state_ok])
  fix s ops assume "ops \<in> set epochs" "state_ok s"
  then show "\<exists>s'. map_sum id er_state (reduce s ops) = Inr s' \<and> state_ok s'"
    using assms(2) reduce_total reduce_ok unfolding history_step by blast
qed (rule assms(1))

lemma history_Cons:
  "history b (ops # epochs) = Inr s \<Longrightarrow>
   \<exists>r. reduce b ops = Inr r \<and> history (er_state r) epochs = Inr s"
  by (cases "reduce b ops") (simp_all add: history_def)

lemma history_revision:
  "history b epochs = Inr s \<Longrightarrow>
   cs_workspace_revision s =
     cs_workspace_revision b + int (length (filter (\<lambda>ops. ops \<noteq> []) epochs)) \<and>
   cs_workspace_id s = cs_workspace_id b"
proof (induction epochs arbitrary: b)
  case (Cons ops epochs)
  obtain r where r: "reduce b ops = Inr r" "history (er_state r) epochs = Inr s"
    using history_Cons [OF Cons.prems] by blast
  then show ?case using Cons.IH [OF r(2)] reduce_revision [OF r(1)] reduce_workspace [OF r(1)] by simp
qed (simp add: history_def)

end

end
