(* ===== verification/Segments.thy ===== *)
theory Segments
  imports Realtime_Types
begin

text \<open>
  The segment algebra of \<open>realtime/reducer.py\<close>: scalar and range edits of a field are kept
  as a sorted list of disjoint closed timestep intervals. \<open>insert_segment\<close> carves the new
  range out of the existing coverage, inserts it, sorts, and merges adjacent segments with
  equal values, recording a conflict for every overlapped segment another actor wrote in the
  same epoch.

  Shown here: on a well-formed field the result is well-formed and canonical, it denotes the
  old timestep function overwritten on the inserted range, and a canonical list is determined
  by the function it denotes.
\<close>

section \<open>The operations of the source\<close>

text \<open>The stop of a segment as a float; \<^const>\<open>None\<close> is infinity.\<close>

definition seg_stop :: "int option \<Rightarrow> int option" where
  "seg_stop stop = map_option float_of_int stop"

definition le_stop :: "int \<Rightarrow> int option \<Rightarrow> bool" where
  "le_stop t stop = (case stop of None \<Rightarrow> True | Some e \<Rightarrow> t \<le> e)"

definition overlaps :: "int \<Rightarrow> int option \<Rightarrow> int \<Rightarrow> int option \<Rightarrow> bool" where
  "overlaps start_a stop_a start_b stop_b \<longleftrightarrow>
     le_stop start_a (seg_stop stop_b) \<and> le_stop start_b (seg_stop stop_a)"

type_synonym owned = "segment \<times> operation option"

definition json_opt_int :: "int option \<Rightarrow> json" where
  "json_opt_int i = (case i of None \<Rightarrow> JNull | Some n \<Rightarrow> JInt n)"

definition ranged :: "int \<Rightarrow> int option \<Rightarrow> bool" where
  "ranged start stop = (case stop of Some e \<Rightarrow> start < e | None \<Rightarrow> True)"

text \<open>The conflict the loop body records for one existing segment, if any.\<close>

definition overlap_conflicts ::
  "string \<Rightarrow> string \<Rightarrow> int \<Rightarrow> int option \<Rightarrow> operation \<Rightarrow> owned \<Rightarrow> conflict_record list" where
  "overlap_conflicts family field start stop op z =
     (case z of ((seg_start, seg_stp, _), owner) \<Rightarrow>
        if \<not> overlaps start stop seg_start seg_stp then []
        else case owner of
          None \<Rightarrow> []
        | Some prev \<Rightarrow>
            if op_actor_id prev = op_actor_id op then []
            else [\<lparr>cf_kind = (if ranged start stop \<or> ranged seg_start seg_stp
                             then ''range_segmented'' else ''last_write_wins''),
                   cf_source_family = family,
                   cf_entity_id = Some field,
                   cf_winner_operation_id = op_operation_id op,
                   cf_loser_operation_ids = [op_operation_id prev],
                   cf_detail =
                     [(''field'', JStr field),
                      (''inserted'', JArr [JInt start, json_opt_int stop]),
                      (''overlapped'', JArr [JInt seg_start, json_opt_int seg_stp])]\<rparr>])"

text \<open>The pieces of one existing segment the loop body keeps.\<close>

definition carve :: "int \<Rightarrow> int option \<Rightarrow> owned \<Rightarrow> owned list" where
  "carve start stop z =
     (case z of ((seg_start, seg_stp, seg_value), owner) \<Rightarrow>
        if \<not> overlaps start stop seg_start seg_stp then [z]
        else (if seg_start < start then [((seg_start, Some (start - 1), seg_value), owner)] else [])
           @ (case stop of
                None \<Rightarrow> []
              | Some e \<Rightarrow>
                  (case seg_stp of
                     None \<Rightarrow> [((e + 1, seg_stp, seg_value), owner)]
                   | Some x \<Rightarrow> if e < x then [((e + 1, seg_stp, seg_value), owner)] else [])))"

text \<open>
  The merge loop: \<open>merged[-1]\<close> is the first argument; the segment in hand is fused into
  it when it starts right after it with an equal value. The later value is stored, the
  earlier owner is kept unless it is the baseline.
\<close>

fun merge_run :: "owned \<Rightarrow> owned list \<Rightarrow> owned list" where
  "merge_run p [] = [p]"
| "merge_run ((s1, e1, v1), o1) (((s2, e2, v2), o2) # rest) =
     (if py_eq v1 v2 \<and> e1 = Some (s2 - 1)
      then merge_run ((s1, e2, v2), (if o1 = None then o2 else o1)) rest
      else ((s1, e1, v1), o1) # merge_run ((s2, e2, v2), o2) rest)"

definition merge_adjacent :: "owned list \<Rightarrow> owned list" where
  "merge_adjacent zs = (case zs of [] \<Rightarrow> [] | z # zs' \<Rightarrow> merge_run z zs')"

definition insert_owned ::
  "int \<Rightarrow> int option \<Rightarrow> json \<Rightarrow> operation \<Rightarrow> owned list \<Rightarrow> owned list" where
  "insert_owned start stop value op zs =
     merge_adjacent
       (sort_key (\<lambda>z. fst (fst z))
         (concat (map (carve start stop) zs) @ [((start, stop, value), Some op)]))"

definition insert_segment ::
  "string \<Rightarrow> segment list dict \<Rightarrow> operation option list dict \<Rightarrow> string \<Rightarrow> int \<Rightarrow> int option \<Rightarrow>
   json \<Rightarrow> operation \<Rightarrow> conflict_record list \<Rightarrow>
   segment list dict \<times> operation option list dict \<times> conflict_record list" where
  "insert_segment family segments_map owners field start stop value op conflicts =
     (let segments = dict_get segments_map field [];
          field_owners = dict_get owners field (replicate (length segments) None);
          zs = zip segments field_owners;
          merged = insert_owned start stop value op zs
      in (AList.update field (map fst merged) segments_map,
          AList.update field (map snd merged) owners,
          conflicts @ concat (map (overlap_conflicts family field start stop op) zs)))"

section \<open>Well-formed segment lists and what they denote\<close>

definition covers :: "int \<Rightarrow> segment \<Rightarrow> bool" where
  "covers t x \<longleftrightarrow> fst x \<le> t \<and> le_stop t (fst (snd x))"

definition seg_at :: "segment list \<Rightarrow> int \<Rightarrow> json option" where
  "seg_at xs t = map_option (\<lambda>x. snd (snd x)) (find (covers t) xs)"

text \<open>
  Stops are compared as doubles, which are exact up to \<open>2 ^ 53\<close>. A stored range has its
  bounds in that window (the start from below, the stop from above); an inserted range also
  has its start in it.
\<close>

definition exact_bound :: int where
  "exact_bound = 2 ^ 53"

definition wf_range :: "int \<Rightarrow> int option \<Rightarrow> bool" where
  "wf_range s e \<longleftrightarrow> - exact_bound \<le> s \<and>
     (case e of None \<Rightarrow> True | Some x \<Rightarrow> s \<le> x \<and> x \<le> exact_bound)"

definition insertable :: "int \<Rightarrow> int option \<Rightarrow> bool" where
  "insertable s e \<longleftrightarrow> wf_range s e \<and> s \<le> exact_bound"

definition wf_seg :: "segment \<Rightarrow> bool" where
  "wf_seg x \<longleftrightarrow> wf_range (fst x) (fst (snd x))"

definition before :: "segment \<Rightarrow> segment \<Rightarrow> bool" where
  "before x y \<longleftrightarrow> (case fst (snd x) of None \<Rightarrow> False | Some e \<Rightarrow> e < fst y)"

definition segs_ok :: "segment list \<Rightarrow> bool" where
  "segs_ok xs \<longleftrightarrow> list_all wf_seg xs \<and> sorted_wrt before xs"

definition mergeable :: "segment \<Rightarrow> segment \<Rightarrow> bool" where
  "mergeable x y \<longleftrightarrow> py_eq (snd (snd x)) (snd (snd y)) \<and> fst (snd x) = Some (fst y - 1)"

fun canonical :: "segment list \<Rightarrow> bool" where
  "canonical (x # y # r) \<longleftrightarrow> \<not> mergeable x y \<and> canonical (y # r)"
| "canonical _ \<longleftrightarrow> True"

definition apart :: "segment \<Rightarrow> segment \<Rightarrow> bool" where
  "apart x y \<longleftrightarrow> before x y \<or> before y x"

lemmas seg_defs = covers_def wf_seg_def wf_range_def before_def apart_def insertable_def

lemma le_stop_simps [simp]: "le_stop t None" "le_stop t (Some e) \<longleftrightarrow> t \<le> e"
  by (simp_all add: le_stop_def)

lemma before_irrefl: "wf_seg x \<Longrightarrow> \<not> before x x"
  by (auto simp: seg_defs split: option.splits)

lemma before_start: "wf_seg x \<Longrightarrow> before x y \<Longrightarrow> fst x < fst y"
  by (auto simp: seg_defs split: option.splits)

lemma apart_sym: "apart x y \<Longrightarrow> apart y x"
  by (auto simp: apart_def)

lemma apart_not_both: "apart x y \<Longrightarrow> covers t x \<Longrightarrow> \<not> covers t y"
  by (auto simp: seg_defs split: option.splits)

lemma segs_ok_Nil [simp]: "segs_ok []"
  by (simp add: segs_ok_def)

lemma segs_ok_Cons:
  "segs_ok (x # xs) \<longleftrightarrow> wf_seg x \<and> (\<forall>y\<in>set xs. before x y) \<and> segs_ok xs"
  by (auto simp: segs_ok_def)

lemma segs_ok_append:
  "segs_ok (xs @ ys) \<longleftrightarrow>
     segs_ok xs \<and> segs_ok ys \<and> (\<forall>x\<in>set xs. \<forall>y\<in>set ys. before x y)"
  by (auto simp: segs_ok_def sorted_wrt_append)

lemma segs_ok_distinct: "segs_ok xs \<Longrightarrow> distinct xs"
  by (induction xs) (auto simp: segs_ok_Cons before_irrefl)

lemma segs_ok_apart:
  "segs_ok xs \<Longrightarrow> x \<in> set xs \<Longrightarrow> y \<in> set xs \<Longrightarrow> x \<noteq> y \<Longrightarrow> apart x y"
  by (induction xs) (auto simp: segs_ok_Cons apart_def)

lemma segs_ok_wf: "segs_ok xs \<Longrightarrow> x \<in> set xs \<Longrightarrow> wf_seg x"
  by (auto simp: segs_ok_def list_all_iff)

lemma uncovered_tail: "segs_ok (x # xs) \<Longrightarrow> covers t x \<Longrightarrow> \<forall>y\<in>set xs. \<not> covers t y"
  using apart_not_both by (metis apart_def segs_ok_Cons)

text \<open>On a well-formed list the first covering segment is the only one.\<close>

lemma seg_at_iff:
  assumes "segs_ok xs"
  shows "seg_at xs t = Some v \<longleftrightarrow> (\<exists>x\<in>set xs. covers t x \<and> snd (snd x) = v)"
  using assms
proof (induction xs)
  case (Cons x xs)
  show ?case
    using Cons uncovered_tail [of x xs t] by (cases "covers t x") (auto simp: seg_at_def segs_ok_Cons)
qed (simp add: seg_at_def)

lemma seg_at_None_iff: "seg_at xs t = None \<longleftrightarrow> (\<forall>x\<in>set xs. \<not> covers t x)"
  by (auto simp: seg_at_def find_None_iff)

text \<open>Sorting pairwise disjoint segments by their start yields a well-formed list.\<close>

lemma segs_ok_sorted_apart:
  assumes "sorted (map fst xs)" "distinct xs" "\<forall>x\<in>set xs. wf_seg x"
    and "\<forall>x\<in>set xs. \<forall>y\<in>set xs. x \<noteq> y \<longrightarrow> apart x y"
  shows "segs_ok xs"
  using assms
proof (induction xs)
  case (Cons x xs)
  have "before x y" if "y \<in> set xs" for y
  proof -
    have "x \<noteq> y" "fst x \<le> fst y" "wf_seg y"
      using Cons.prems that by auto
    moreover have "apart x y"
      using Cons.prems that \<open>x \<noteq> y\<close> by auto
    ultimately show ?thesis using before_start [of y x] by (auto simp: apart_def)
  qed
  with Cons show ?case by (simp add: segs_ok_Cons)
qed simp

section \<open>Carving\<close>

lemma set_map_concat: "set (map g (concat (map f zs))) = (\<Union>z\<in>set zs. set (map g (f z)))"
  by (induction zs) auto

definition piece_of :: "segment \<Rightarrow> segment \<Rightarrow> bool" where
  "piece_of p x \<longleftrightarrow> wf_seg p \<and> snd (snd p) = snd (snd x) \<and> fst x \<le> fst p \<and>
     (case fst (snd x) of None \<Rightarrow> True
      | Some e \<Rightarrow> (case fst (snd p) of None \<Rightarrow> False | Some e' \<Rightarrow> e' \<le> e))"

lemma before_pieces:
  assumes "before x y" "piece_of p x" "piece_of q y"
  shows "before p q"
  using assms by (auto simp: piece_of_def before_def split: option.splits)

lemma wf_range_stop_exact: "wf_range s (Some x) \<Longrightarrow> float_of_int x = x"
  by (rule float_of_int_exact) (auto simp: wf_range_def exact_bound_def)

lemma overlaps_plain:
  assumes "wf_range s e" "wf_range s' e'"
  shows "overlaps s e s' e' \<longleftrightarrow> le_stop s e' \<and> le_stop s' e"
  using assms wf_range_stop_exact by (cases e; cases e') (auto simp: overlaps_def seg_stop_def)

text \<open>Carving by the four shapes of an inserted range and a stored segment.\<close>

lemma carve_eq:
  assumes "wf_range s e" "wf_range s' e'"
  shows "carve s e ((s', e', v'), ow) =
     (if \<not> (le_stop s e' \<and> le_stop s' e) then [((s', e', v'), ow)]
      else (if s' < s then [((s', Some (s - 1), v'), ow)] else [])
         @ (case e of None \<Rightarrow> []
            | Some x \<Rightarrow> if e' \<noteq> None \<and> le_stop (the e') e then []
                        else [((x + 1, e', v'), ow)]))"
  using assms by (auto simp: carve_def overlaps_plain split: option.splits)

lemma carve_piece:
  assumes "insertable s e" "wf_range s' e'" "p \<in> set (map fst (carve s e ((s', e', v'), ow)))"
  shows "piece_of p (s', e', v') \<and> apart (s, e, v) p"
  using assms
  by (cases e; cases e')
    (auto simp: carve_eq piece_of_def seg_defs split: if_splits)

lemma carve_pieces:
  assumes "insertable s e" "wf_seg (fst z)" "p \<in> set (map fst (carve s e z))"
  shows "piece_of p (fst z)" "apart (s, e, v) p"
proof -
  obtain s' e' v' ow where z: "z = ((s', e', v'), ow)" by (metis prod.exhaust)
  with assms carve_piece [of s e s' e' p v' ow v]
  show "piece_of p (fst z)" "apart (s, e, v) p"
    by (simp_all add: wf_seg_def)
qed

lemma carve_sorted:
  assumes "insertable s e" "wf_seg (fst z)"
  shows "sorted_wrt before (map fst (carve s e z))"
proof -
  obtain s' e' v' ow where "z = ((s', e', v'), ow)" by (metis prod.exhaust)
  with assms show ?thesis
    by (cases e; cases e') (auto simp: carve_eq seg_defs)
qed

lemma carve_covers:
  assumes "insertable s e" "wf_seg (fst z)"
  shows "(\<exists>p\<in>set (map fst (carve s e z)). covers t p \<and> snd (snd p) = v) \<longleftrightarrow>
         \<not> covers t (s, e, w) \<and> covers t (fst z) \<and> snd (snd (fst z)) = v"
proof -
  obtain s' e' v' ow where "z = ((s', e', v'), ow)" by (metis prod.exhaust)
  with assms show ?thesis
    by (cases e; cases e') (auto simp: carve_eq seg_defs)
qed

lemma carved_ok:
  assumes r: "insertable s e" and "segs_ok (map fst zs)"
  shows "segs_ok (map fst (concat (map (carve s e) zs)))"
  using assms(2)
proof (induction zs)
  case (Cons z zs)
  have wz: "wf_seg (fst z)" and bz: "\<forall>y\<in>set (map fst zs). before (fst z) y"
    and ok: "segs_ok (map fst zs)"
    using Cons.prems by (simp_all add: segs_ok_Cons)
  have pz: "piece_of p (fst z)" if "p \<in> set (map fst (carve s e z))" for p
    using carve_pieces(1) [OF r wz that] .
  have "before p q" if p: "p \<in> set (map fst (carve s e z))"
    and q: "q \<in> set (map fst (concat (map (carve s e) zs)))" for p q
  proof -
    from q obtain z' where z': "z' \<in> set zs" "q \<in> set (map fst (carve s e z'))"
      unfolding set_map_concat by blast
    have "wf_seg (fst z')" using ok z' by (auto simp: segs_ok_def list_all_iff)
    then have "piece_of q (fst z')" using carve_pieces(1) [OF r _ z'(2)] by blast
    with pz [OF p] bz z' show ?thesis by (auto intro: before_pieces)
  qed
  moreover have "\<forall>p\<in>set (map fst (carve s e z)). wf_seg p"
    using pz by (auto simp: piece_of_def)
  ultimately have "segs_ok (map fst (carve s e z) @ map fst (concat (map (carve s e) zs)))"
    unfolding segs_ok_append using Cons.IH [OF ok] carve_sorted [OF r wz]
    by (simp add: segs_ok_def list_all_iff)
  then show ?case by simp
qed simp

text \<open>The list just before the merge loop: well-formed, and the intended function.\<close>

definition placed :: "int \<Rightarrow> int option \<Rightarrow> json \<Rightarrow> operation \<Rightarrow> owned list \<Rightarrow> owned list" where
  "placed start stop value op zs =
     sort_key (\<lambda>z. fst (fst z))
       (concat (map (carve start stop) zs) @ [((start, stop, value), Some op)])"

lemma placed_ok:
  assumes r: "insertable s e" and ok: "segs_ok (map fst zs)"
  shows "segs_ok (map fst (placed s e v op zs))"
proof (rule segs_ok_sorted_apart)
  let ?k = "map fst (concat (map (carve s e) zs))"
  let ?n = "(s, e, v)"
  have set_eq: "set (map fst (placed s e v op zs)) = insert ?n (set ?k)"
    by (auto simp: placed_def)
  have k_ok: "segs_ok ?k" by (rule carved_ok [OF r ok])
  have nw: "wf_seg ?n" using r by (simp add: wf_seg_def insertable_def)
  have n_apart: "apart ?n p" if "p \<in> set ?k" for p
  proof -
    from that obtain z where z: "z \<in> set zs" "p \<in> set (map fst (carve s e z))"
      unfolding set_map_concat by blast
    then have "wf_seg (fst z)" using ok by (auto simp: segs_ok_def list_all_iff)
    from carve_pieces(2) [OF r this z(2)] show ?thesis .
  qed
  have n_new: "?n \<notin> set ?k"
    using n_apart [of ?n] before_irrefl [OF nw] by (auto simp: apart_def)
  show "sorted (map fst (map fst (placed s e v op zs)))"
    by (simp add: placed_def comp_def)
  have "mset (map fst (placed s e v op zs)) = mset (?k @ [?n])"
    by (simp add: placed_def)
  then show "distinct (map fst (placed s e v op zs))"
    using segs_ok_distinct [OF k_ok] n_new by (metis distinct_append distinct_singleton
        disjoint_insert(1) inf_bot_right list.set(1) list.simps(15) mset_eq_imp_distinct_iff)
  show "\<forall>x\<in>set (map fst (placed s e v op zs)). wf_seg x"
    unfolding set_eq using segs_ok_wf [OF k_ok] nw by auto
  show "\<forall>x\<in>set (map fst (placed s e v op zs)). \<forall>y\<in>set (map fst (placed s e v op zs)).
      x \<noteq> y \<longrightarrow> apart x y"
    unfolding set_eq using segs_ok_apart [OF k_ok] n_apart apart_sym by blast
qed

lemma placed_covers:
  assumes r: "insertable s e" and ok: "segs_ok (map fst zs)"
  shows "(\<exists>x\<in>set (map fst (placed s e v op zs)). covers t x \<and> snd (snd x) = u) \<longleftrightarrow>
         (if covers t (s, e, v) then v = u
          else \<exists>x\<in>set (map fst zs). covers t x \<and> snd (snd x) = u)"
proof -
  have "wf_seg (fst z)" if "z \<in> set zs" for z
    using ok that by (simp add: segs_ok_def list_all_iff)
  note c = carve_covers [OF r this, where w = v and t = t and v = u]
  have set_eq: "set (map fst (placed s e v op zs)) =
      insert (s, e, v) (\<Union>z\<in>set zs. set (map fst (carve s e z)))"
    unfolding set_map_concat [symmetric] by (simp add: placed_def)
  have "(\<exists>x\<in>insert n (\<Union>z\<in>set zs. set (map fst (carve s e z))). P x) \<longleftrightarrow>
      P n \<or> (\<exists>z\<in>set zs. \<exists>p\<in>set (map fst (carve s e z)). P p)" for n and P :: "segment \<Rightarrow> bool"
    by blast
  then have "(\<exists>x\<in>set (map fst (placed s e v op zs)). covers t x \<and> snd (snd x) = u) \<longleftrightarrow>
      (covers t (s, e, v) \<and> snd (snd (s, e, v)) = u) \<or>
      (\<exists>z\<in>set zs. \<exists>p\<in>set (map fst (carve s e z)). covers t p \<and> snd (snd p) = u)"
    unfolding set_eq by blast
  also have "\<dots> \<longleftrightarrow> (covers t (s, e, v) \<and> snd (snd (s, e, v)) = u) \<or>
      (\<exists>z\<in>set zs. \<not> covers t (s, e, v) \<and> covers t (fst z) \<and> snd (snd (fst z)) = u)"
    using c by meson
  also have "\<dots> \<longleftrightarrow> (if covers t (s, e, v) then v = u
      else \<exists>x\<in>set (map fst zs). covers t x \<and> snd (snd x) = u)"
    by simp
  finally show ?thesis .
qed

lemma placed_at:
  assumes r: "insertable s e" and ok: "segs_ok (map fst zs)"
  shows "seg_at (map fst (placed s e v op zs)) t =
         (if covers t (s, e, v) then Some v else seg_at (map fst zs) t)"
proof -
  have "seg_at (map fst (placed s e v op zs)) t = Some u \<longleftrightarrow>
      (if covers t (s, e, v) then v = u else seg_at (map fst zs) t = Some u)" for u
    unfolding seg_at_iff [OF placed_ok [OF r ok]] seg_at_iff [OF ok]
    by (rule placed_covers [OF r ok])
  then show ?thesis
    by (metis not_Some_eq)
qed

section \<open>Merging\<close>

lemma seg_at_Cons: "seg_at (x # xs) t = (if covers t x then Some (snd (snd x)) else seg_at xs t)"
  by (simp add: seg_at_def)

lemma segs_ok_hd_le: "segs_ok ys \<Longrightarrow> y \<in> set ys \<Longrightarrow> fst (hd ys) \<le> fst y"
  by (cases ys) (auto simp: segs_ok_Cons dest: before_start)

text \<open>Fusing two adjacent segments with equal values keeps the list and the function.\<close>

lemma fuse_ok:
  assumes "segs_ok ((s1, Some (s2 - 1), v1) # (s2, e2, v2) # r)"
  shows "segs_ok ((s1, e2, v2) # r)"
  using assms by (auto simp: segs_ok_Cons seg_defs split: option.splits)

lemma fuse_at:
  assumes "segs_ok ((s1, Some (s2 - 1), v1) # (s2, e2, v2) # r)" "py_eq v1 v2"
  shows "opt_eq (seg_at ((s1, e2, v2) # r) t)
           (seg_at ((s1, Some (s2 - 1), v1) # (s2, e2, v2) # r) t)"
  using assms
  by (auto simp: seg_at_Cons segs_ok_Cons seg_defs py_eq_sym split: option.splits)

definition merged_from :: "segment list \<Rightarrow> segment list \<Rightarrow> bool" where
  "merged_from ys xs \<longleftrightarrow> segs_ok ys \<and> canonical ys \<and> ys \<noteq> [] \<and>
     fst (hd ys) = fst (hd xs) \<and> py_eq (snd (snd (hd ys))) (snd (snd (hd xs))) \<and>
     (\<forall>t. opt_eq (seg_at ys t) (seg_at xs t))"

lemma merged_fromD:
  assumes "merged_from ys xs"
  shows "segs_ok ys" "canonical ys" "ys \<noteq> []" "fst (hd ys) = fst (hd xs)"
    "py_eq (snd (snd (hd ys))) (snd (snd (hd xs)))" "opt_eq (seg_at ys t) (seg_at xs t)"
  using assms unfolding merged_from_def by blast+

lemma merged_fuse:
  assumes old: "segs_ok ((s1, Some (s2 - 1), v1) # (s2, e2, v2) # r)" and eq: "py_eq v1 v2"
    and m: "merged_from m ((s1, e2, v2) # r)"
  shows "merged_from m ((s1, Some (s2 - 1), v1) # (s2, e2, v2) # r)"
  unfolding merged_from_def
proof (intro conjI allI)
  show "py_eq (snd (snd (hd m))) (snd (snd (hd ((s1, Some (s2 - 1), v1) # (s2, e2, v2) # r))))"
    using py_eq_trans [OF merged_fromD(5) [OF m]] py_eq_sym [OF eq] by simp
  show "opt_eq (seg_at m t) (seg_at ((s1, Some (s2 - 1), v1) # (s2, e2, v2) # r) t)" for t
    by (rule opt_eq_trans [OF merged_fromD(6) [OF m] fuse_at [OF old eq]])
qed (use merged_fromD(1-4) [OF m] in simp_all)

lemma merged_keep:
  assumes old: "segs_ok (x # y # r)" and ne: "\<not> mergeable x y"
    and m: "merged_from m (y # r)"
  shows "merged_from (x # m) (x # y # r)"
  unfolding merged_from_def
proof (intro conjI allI)
  obtain z zs where z: "m = z # zs" using merged_fromD(3) [OF m] by (cases m) simp_all
  note hd_z = merged_fromD(4,5) [OF m, unfolded z, simplified]
  have xy: "before x y" and wx: "wf_seg x" using old by (simp_all add: segs_ok_Cons)
  have "before x u" if "u \<in> set m" for u
  proof -
    have "fst y \<le> fst u"
      using segs_ok_hd_le [OF merged_fromD(1) [OF m] that] hd_z(1) z by simp
    with xy show ?thesis by (simp add: before_def split: option.splits)
  qed
  then show "segs_ok (x # m)" using wx merged_fromD(1) [OF m] by (simp add: segs_ok_Cons)
  have "\<not> mergeable x z"
    using ne hd_z py_eq_trans [of "snd (snd x)" "snd (snd z)" "snd (snd y)"]
    by (auto simp: mergeable_def)
  then show "canonical (x # m)" using merged_fromD(2) [OF m] z by simp
  show "opt_eq (seg_at (x # m) t) (seg_at (x # y # r) t)" for t
    using merged_fromD(6) [OF m, of t] by (simp add: seg_at_Cons [of x])
qed simp_all

lemma merge_run_spec:
  "segs_ok (map fst (p # ps)) \<Longrightarrow> merged_from (map fst (merge_run p ps)) (map fst (p # ps))"
proof (induction p ps rule: merge_run.induct)
  case (1 p)
  then show ?case by (simp add: merged_from_def)
next
  case (2 s1 e1 v1 o1 s2 e2 v2 o2 rest)
  show ?case
  proof (cases "py_eq v1 v2 \<and> e1 = Some (s2 - 1)")
    case True
    then have old: "segs_ok ((s1, Some (s2 - 1), v1) # (s2, e2, v2) # map fst rest)"
      using "2.prems" by simp
    show ?thesis
      using merged_fuse [OF old] "2.IH"(1) [OF True] fuse_ok [OF old] True by simp
  next
    case False
    then have "\<not> mergeable (s1, e1, v1) (s2, e2, v2)" by (auto simp: mergeable_def)
    moreover have "segs_ok (map fst (((s2, e2, v2), o2) # rest))"
      using "2.prems" by (simp add: segs_ok_Cons)
    ultimately show ?thesis
      using merged_keep "2.IH"(2) [OF False] "2.prems" False by auto
  qed
qed

lemma placed_nonempty: "placed s e v op zs \<noteq> []"
  using length_sort [of "\<lambda>z. fst (fst z)"
      "concat (map (carve s e) zs) @ [((s, e, v), Some op)]"]
  by (auto simp: placed_def simp del: length_sort)

lemma insert_owned_merged:
  assumes "insertable s e" "segs_ok (map fst zs)"
  shows "merged_from (map fst (insert_owned s e v op zs)) (map fst (placed s e v op zs))"
proof -
  obtain p ps where p: "placed s e v op zs = p # ps"
    using placed_nonempty by (cases "placed s e v op zs") blast+
  have "insert_owned s e v op zs = merge_run p ps"
    using p by (simp add: insert_owned_def merge_adjacent_def placed_def)
  moreover have "segs_ok (map fst (p # ps))"
    using placed_ok [OF assms, of v op] unfolding p .
  ultimately show ?thesis using merge_run_spec [of p ps] p by simp
qed

text \<open>The three facts clients use about inserting into a well-formed field.\<close>

lemma insert_owned_ok:
  "insertable s e \<Longrightarrow> segs_ok (map fst zs) \<Longrightarrow> segs_ok (map fst (insert_owned s e v op zs))"
  using insert_owned_merged by (simp add: merged_from_def)

lemma insert_owned_canonical:
  "insertable s e \<Longrightarrow> segs_ok (map fst zs) \<Longrightarrow> canonical (map fst (insert_owned s e v op zs))"
  using insert_owned_merged by (simp add: merged_from_def)

lemma insert_owned_at:
  assumes "insertable s e" "segs_ok (map fst zs)"
  shows "opt_eq (seg_at (map fst (insert_owned s e v op zs)) t)
           (if covers t (s, e, v) then Some v else seg_at (map fst zs) t)"
  using insert_owned_merged [OF assms] unfolding placed_at [OF assms, symmetric, where op = op]
  by (simp add: merged_from_def)

section \<open>A canonical list is determined by its timestep function\<close>

definition seg_eq :: "segment \<Rightarrow> segment \<Rightarrow> bool" where
  "seg_eq x y \<longleftrightarrow> fst x = fst y \<and> fst (snd x) = fst (snd y) \<and> py_eq (snd (snd x)) (snd (snd y))"

lemma covers_start: "wf_seg x \<Longrightarrow> covers (fst x) x"
  by (auto simp: seg_defs split: option.splits)

lemma seg_at_hd: "segs_ok (x # xs) \<Longrightarrow> seg_at (x # xs) (fst x) = Some (snd (snd x))"
  by (simp add: seg_at_Cons segs_ok_Cons covers_start)

lemma seg_at_before_hd:
  assumes "segs_ok (x # xs)" "t < fst x"
  shows "seg_at (x # xs) t = None"
proof -
  have "\<not> covers t y" if "y \<in> set (x # xs)" for y
    using segs_ok_hd_le [OF assms(1) that] assms(2) by (simp add: covers_def)
  then show ?thesis unfolding seg_at_None_iff by blast
qed

lemma same_start:
  assumes "segs_ok (x # xs)" "segs_ok (y # ys)"
    and eq: "\<And>t. opt_eq (seg_at (x # xs) t) (seg_at (y # ys) t)"
  shows "fst x = fst y" "py_eq (snd (snd x)) (snd (snd y))"
proof -
  show st: "fst x = fst y"
  proof (rule antisym; rule ccontr)
    assume "\<not> fst x \<le> fst y"
    then show False using eq [of "fst y"] assms(1,2) by (simp add: seg_at_hd seg_at_before_hd)
  next
    assume "\<not> fst y \<le> fst x"
    then show False using eq [of "fst x"] assms(1,2) by (simp add: seg_at_hd seg_at_before_hd)
  qed
  show "py_eq (snd (snd x)) (snd (snd y))"
    using eq [of "fst x"] seg_at_hd [OF assms(1)] seg_at_hd [OF assms(2)] st by simp
qed

text \<open>The end of the first segment cannot lie inside the first segment of the other list:
  the next timestep would carry an equal value and the two segments would have been merged.\<close>

lemma stop_not_inside:
  assumes ok: "segs_ok (x # xs)" "segs_ok (y # ys)" and can: "canonical (x # xs)"
    and eq: "\<And>t. opt_eq (seg_at (x # xs) t) (seg_at (y # ys) t)"
    and e: "fst (snd x) = Some e" and inside: "le_stop (e + 1) (fst (snd y))"
  shows False
proof -
  note same = same_start [OF ok eq]
  have "fst x \<le> e" using ok(1) e by (auto simp: segs_ok_Cons seg_defs)
  then have cy: "covers (e + 1) y" using same(1) inside by (simp add: covers_def)
  have ncx: "\<not> covers (e + 1) x" using e by (simp add: covers_def)
  from eq [of "e + 1"] cy ncx obtain w where w: "seg_at xs (e + 1) = Some w"
    and wy: "py_eq w (snd (snd y))"
    by (cases "seg_at xs (e + 1)") (auto simp: seg_at_Cons)
  then obtain z where z: "z \<in> set xs" "covers (e + 1) z" "snd (snd z) = w"
    using seg_at_iff ok(1) by (auto simp: segs_ok_Cons)
  then obtain n ns where xs: "xs = n # ns" by (cases xs) auto
  have "before x n" "before x z" "segs_ok xs" using ok(1) z xs by (auto simp: segs_ok_Cons)
  then have "e < fst n" "fst n \<le> fst z"
    using e segs_ok_hd_le [of xs z] z(1) xs by (auto simp: before_def)
  then have "fst n = e + 1" using z(2) by (simp add: covers_def)
  moreover have "wf_seg n" using \<open>segs_ok xs\<close> xs by (simp add: segs_ok_Cons)
  ultimately have "seg_at xs (e + 1) = Some (snd (snd n))"
    using seg_at_hd [of n ns] \<open>segs_ok xs\<close> xs by simp
  then have "py_eq (snd (snd x)) (snd (snd n))"
    using w wy same(2) py_eq_sym py_eq_trans by (metis option.inject)
  then have "mergeable x n" using e \<open>fst n = e + 1\<close> by (simp add: mergeable_def)
  then show False using can xs by simp
qed

lemma same_stop:
  assumes "segs_ok (x # xs)" "segs_ok (y # ys)" "canonical (x # xs)" "canonical (y # ys)"
    and eq: "\<And>t. opt_eq (seg_at (x # xs) t) (seg_at (y # ys) t)"
  shows "fst (snd x) = fst (snd y)"
proof (rule ccontr)
  assume ne: "fst (snd x) \<noteq> fst (snd y)"
  have eq': "opt_eq (seg_at (y # ys) t) (seg_at (x # xs) t)" for t
    using eq opt_eq_sym by blast
  show False
  proof (cases "fst (snd x)")
    case None
    then obtain e where "fst (snd y) = Some e" using ne by (cases "fst (snd y)") auto
    then show False using stop_not_inside [OF assms(2,1,4) eq'] None by simp
  next
    case (Some e)
    show False
    proof (cases "le_stop (e + 1) (fst (snd y))")
      case True
      then show False using stop_not_inside [OF assms(1,2,3) eq Some] by simp
    next
      case False
      then obtain e' where e': "fst (snd y) = Some e'" "e' < e"
        using Some ne by (cases "fst (snd y)") auto
      then show False using stop_not_inside [OF assms(2,1,4) eq'] Some by simp
    qed
  qed
qed

lemma canonical_tl: "canonical (x # xs) \<Longrightarrow> canonical xs"
  by (cases xs) auto

lemma canonical_unique:
  "segs_ok xs \<Longrightarrow> segs_ok ys \<Longrightarrow> canonical xs \<Longrightarrow> canonical ys \<Longrightarrow>
   (\<And>t. opt_eq (seg_at xs t) (seg_at ys t)) \<Longrightarrow> list_all2 seg_eq xs ys"
proof (induction xs arbitrary: ys)
  case Nil
  show ?case
  proof (cases ys)
    case (Cons y ys')
    then show ?thesis using Nil.prems(2) Nil.prems(5) [of "fst y"] seg_at_hd [of y ys']
      by (simp add: seg_at_def [of "[]"])
  qed simp
next
  case (Cons x xs)
  show ?case
  proof (cases ys)
    case Nil
    then show ?thesis using Cons.prems(1) Cons.prems(5) [of "fst x"] seg_at_hd [of x xs]
      by (simp add: seg_at_def [of "[]"])
  next
    case (Cons y ys')
    note prems = Cons.prems [unfolded Cons]
    have xy: "seg_eq x y"
      using same_start [OF prems(1,2,5)] same_stop [OF prems(1-5)] by (simp add: seg_eq_def)
    have cov: "covers t y = covers t x" for t
      using xy by (simp add: seg_eq_def covers_def)
    have "opt_eq (seg_at xs t) (seg_at ys' t)" for t
    proof (cases "covers t x")
      case True
      have "\<forall>z\<in>set xs. \<not> covers t z" "\<forall>z\<in>set ys'. \<not> covers t z"
        using uncovered_tail [OF prems(1) True] uncovered_tail [OF prems(2), of t] True cov by auto
      then have "seg_at xs t = None" "seg_at ys' t = None"
        by (simp_all add: seg_at_None_iff)
      then show ?thesis by simp
    next
      case False
      then show ?thesis using prems(5) [of t] cov by (simp add: seg_at_Cons)
    qed
    moreover have "segs_ok xs" "segs_ok ys'" "canonical xs" "canonical ys'"
      using prems(1-4) canonical_tl by (auto simp: segs_ok_Cons)
    ultimately have "list_all2 seg_eq xs ys'" by (intro Cons.IH) auto
    then show ?thesis using xy Cons by simp
  qed
qed

end
