(* ===== verification/Reducer.thy ===== *)
theory Reducer
  imports Segments
begin

text \<open>
  The deterministic epoch reducer, \<open>solweig_gpu/server/realtime/reducer.py\<close>: payload
  accessors, the four family folds (objects, land-cover paint, segments, view), the family
  deltas against the baseline, the aggregated conflicts, and \<open>reduce_epoch\<close>. Every
  function that can raise returns a sum; mutated dictionaries are returned.
\<close>

section \<open>Constants\<close>

definition CHUNK_SIZE_PX :: int where
  "CHUNK_SIZE_PX = 64"

definition OBJECT_FAMILIES :: "string list" where
  "OBJECT_FAMILIES = [''building_geometry'', ''vegetation_geometry'']"

definition SEGMENT_FAMILIES :: "string list" where
  "SEGMENT_FAMILIES =
     [''meteorological_forcing'', ''model_receptor_parameters'', ''selected_date_time'']"

definition ALL_FAMILIES :: "string list" where
  "ALL_FAMILIES = OBJECT_FAMILIES @ [''landcover_surface''] @ SEGMENT_FAMILIES @ [''output_view'']"

definition identity_key :: "string \<Rightarrow> string option" where
  "identity_key family =
     (if family = ''building_geometry'' then Some ''building_id''
      else if family = ''vegetation_geometry'' then Some ''tree_id'' else None)"

definition position_fields :: "string \<Rightarrow> string list" where
  "position_fields family =
     (if family = ''vegetation_geometry'' then [''u'', ''v'', ''x_m'', ''y_m'']
      else if family = ''building_geometry'' then [''footprint_m''] else [])"

definition FLAT_PAYLOAD_SKIP :: "string list" where
  "FLAT_PAYLOAD_SKIP =
     [''values'', ''target'', ''old_values'', ''time_index'', ''time_start'', ''time_stop'',
      ''scope'', ''window'', ''cells'', ''class'', ''value'']"

section \<open>Family state shapes\<close>

definition empty_family_state :: "string \<Rightarrow> family_state" where
  "empty_family_state family =
     (if family \<in> set OBJECT_FAMILIES then ObjectState [] []
      else if family = ''landcover_surface'' then PaintState []
      else if family \<in> set SEGMENT_FAMILIES then SegmentState []
      else if family = ''output_view'' then ViewState [] []
      else OtherState [])"

text \<open>\<open>state.get(key, {})\<close> on a family state.\<close>

fun st_objects :: "family_state \<Rightarrow> json dict dict" where
  "st_objects (ObjectState objects tombstones) = objects"
| "st_objects _ = []"

fun st_tombstones :: "family_state \<Rightarrow> int dict" where
  "st_tombstones (ObjectState objects tombstones) = tombstones"
| "st_tombstones _ = []"

fun st_chunks :: "family_state \<Rightarrow> int dict dict" where
  "st_chunks (PaintState chunks) = chunks"
| "st_chunks _ = []"

fun st_segments :: "family_state \<Rightarrow> segment list dict" where
  "st_segments (SegmentState segments) = segments"
| "st_segments _ = []"

fun st_view :: "family_state \<Rightarrow> json dict" where
  "st_view (ViewState view per_user) = view"
| "st_view _ = []"

fun st_per_user :: "family_state \<Rightarrow> json dict dict" where
  "st_per_user (ViewState view per_user) = per_user"
| "st_per_user _ = []"

definition copy_family :: "string \<Rightarrow> family_state \<Rightarrow> family_state" where
  "copy_family family state =
     (if family \<in> set OBJECT_FAMILIES
      then ObjectState (sorted_items (st_objects state)) (st_tombstones state)
      else if family = ''landcover_surface'' then PaintState (sorted_items (st_chunks state))
      else if family \<in> set SEGMENT_FAMILIES then SegmentState (sorted_items (st_segments state))
      else if family = ''output_view''
      then ViewState (st_view state) (sorted_items (st_per_user state))
      else state)"

definition copy_families :: "family_state dict \<Rightarrow> family_state dict" where
  "copy_families families =
     fold (\<lambda>family work. dict_setdefault work family (empty_family_state family)) ALL_FAMILIES
       (map (\<lambda>(family, state). (family, copy_family family state)) (sorted_items families))"

section \<open>Payload accessors\<close>

definition mapping :: "json \<Rightarrow> json dict" where
  "mapping v = (case v of JObj d \<Rightarrow> d | _ \<Rightarrow> [])"

definition opt_mapping :: "json option \<Rightarrow> json dict" where
  "opt_mapping v = (case v of Some x \<Rightarrow> mapping x | None \<Rightarrow> [])"

definition item_values :: "json dict \<Rightarrow> json dict" where
  "item_values payload =
     (case map_of payload ''values'' of
        Some (JObj nested) \<Rightarrow> nested
      | _ \<Rightarrow> filter (\<lambda>(k, _). k \<notin> set FLAT_PAYLOAD_SKIP) payload)"

definition object_fields :: "string \<Rightarrow> json dict \<Rightarrow> json dict" where
  "object_fields family payload =
     (let flds = item_values payload in
      case identity_key family of
        Some identity \<Rightarrow> filter (\<lambda>(k, _). k \<noteq> identity) flds
      | None \<Rightarrow> flds)"

definition paint_class :: "json dict \<Rightarrow> int option" where
  "paint_class payload =
     (case filter is_index
             [map_of payload ''class'', map_of payload ''value'',
              map_of (opt_mapping (map_of payload ''values'')) ''class''] of
        Some (JInt c) # _ \<Rightarrow> Some c
      | _ \<Rightarrow> None)"

definition cell_key :: "int \<Rightarrow> int \<Rightarrow> string \<times> string" where
  "cell_key row col = (pair_key (row div CHUNK_SIZE_PX) (col div CHUNK_SIZE_PX), pair_key row col)"

definition chunk_sort_key :: "string \<Rightarrow> py_error + int \<times> int" where
  "chunk_sort_key chunk = pair_of_key chunk"

definition cell_sort_key :: "string \<Rightarrow> py_error + int \<times> int" where
  "cell_sort_key cell = pair_of_key cell"

definition get_int :: "json dict \<Rightarrow> string \<Rightarrow> int" where
  "get_int d k = (case map_of d k of Some (JInt i) \<Rightarrow> i | _ \<Rightarrow> 0)"

definition paint_window :: "json dict \<Rightarrow> json dict option" where
  "paint_window payload =
     (case map_of payload ''window'' of
        Some (JObj window) \<Rightarrow> Some window
      | _ \<Rightarrow>
          (case map_of payload ''target'' of
             Some (JObj target) \<Rightarrow>
               if map_of target ''row_start'' \<noteq> None then Some target else None
           | _ \<Rightarrow> None))"

definition window_cells :: "json dict \<Rightarrow> (int \<times> int) list" where
  "window_cells window =
     (if list_all (\<lambda>k. is_index (map_of window k))
           [''row_start'', ''row_stop'', ''col_start'', ''col_stop'']
      then [(row, col). row \<leftarrow> [get_int window ''row_start'' .. get_int window ''row_stop'' - 1],
                        col \<leftarrow> [get_int window ''col_start'' .. get_int window ''col_stop'' - 1]]
      else [])"

fun cell_item :: "json \<Rightarrow> (int \<times> int) list" where
  "cell_item (JArr [JInt row, JInt col]) = [(row, col)]"
| "cell_item _ = []"

definition listed_cells :: "json dict \<Rightarrow> (int \<times> int) list" where
  "listed_cells payload =
     (let direct = map_of payload ''cells'';
          raw = (if direct = None \<or> direct = Some JNull
                 then map_of (opt_mapping (map_of payload ''target'')) ''cells'' else direct)
      in case raw of Some (JArr items) \<Rightarrow> concat (map cell_item items) | _ \<Rightarrow> [])"

definition paint_cells :: "json dict \<Rightarrow> (int \<times> int) list" where
  "paint_cells payload =
     sort (remdups
       ((case paint_window payload of Some window \<Rightarrow> window_cells window | None \<Rightarrow> [])
        @ listed_cells payload))"

definition get_or :: "json dict \<Rightarrow> string \<Rightarrow> json option \<Rightarrow> json option" where
  "get_or d k dflt = (case map_of d k of Some v \<Rightarrow> Some v | None \<Rightarrow> dflt)"

definition is_none :: "json option \<Rightarrow> bool" where
  "is_none v \<longleftrightarrow> v = None \<or> v = Some JNull"

definition time_bounds :: "json dict \<Rightarrow> (int \<times> int option) option" where
  "time_bounds payload =
     (let values = opt_mapping (map_of payload ''values'');
          start = get_or payload ''time_start'' (map_of values ''time_start'');
          stop = get_or payload ''time_stop'' (map_of values ''time_stop'');
          index = get_or payload ''time_index'' (map_of values ''time_index'')
      in if \<not> is_none start \<or> \<not> is_none stop then
           (case (start, stop) of
              (Some (JInt a), Some (JInt b)) \<Rightarrow> if b < a then None else Some (a, Some b)
            | _ \<Rightarrow> None)
         else if \<not> is_none index then
           (case index of Some (JInt i) \<Rightarrow> Some (i, Some i) | _ \<Rightarrow> None)
         else Some (0, None))"

section \<open>Epoch fold bookkeeping\<close>

record fold_state =
  fo_conflicts :: "conflict_record list"
  fo_add_ops :: "operation list dict"
  fo_delete_ops :: "operation dict"
  fo_field_writers :: "((string \<times> string \<times> string) \<times> operation list) list"
  fo_chunk_ops :: "operation list dict"
  fo_chunk_cell_actors :: "((string \<times> string) \<times> string list) list"
  fo_segment_owners :: "operation option list dict"
  fo_view_writers :: "operation list"
  fo_per_user_updates :: int

definition empty_fold :: fold_state where
  "empty_fold =
     \<lparr>fo_conflicts = [], fo_add_ops = [], fo_delete_ops = [], fo_field_writers = [],
      fo_chunk_ops = [], fo_chunk_cell_actors = [], fo_segment_owners = [],
      fo_view_writers = [], fo_per_user_updates = 0\<rparr>"

definition entry_generation :: "json dict \<Rightarrow> py_error + int" where
  "entry_generation live =
     (case map_of live ''generation'' of
        None \<Rightarrow> Inl (KeyError ''generation'') | Some g \<Rightarrow> py_int g)"

definition write_fields ::
  "string \<Rightarrow> string \<Rightarrow> json dict \<Rightarrow> operation \<Rightarrow> fold_state \<Rightarrow> fold_state" where
  "write_fields family entity flds op fo =
     fo\<lparr>fo_field_writers :=
          fold (\<lambda>name d. dict_append d (family, entity, name) op) (sort (dict_keys flds))
            (fo_field_writers fo)\<rparr>"

text \<open>\<open>for name in sorted(fields): live[name] = fields[name]\<close>.\<close>

definition overwrite :: "json dict \<Rightarrow> json dict \<Rightarrow> json dict" where
  "overwrite flds live =
     fold (\<lambda>name d. AList.update name (dict_get flds name JNull) d) (sort (dict_keys flds)) live"

definition recreated_conflict ::
  "string \<Rightarrow> string \<Rightarrow> operation \<Rightarrow> operation list \<Rightarrow> int \<Rightarrow> int \<Rightarrow> bool \<Rightarrow> conflict_record" where
  "recreated_conflict family entity op prior_adds previous generation resurrected =
     \<lparr>cf_kind = ''generation_recreated'', cf_source_family = family, cf_entity_id = Some entity,
      cf_winner_operation_id = op_operation_id op,
      cf_loser_operation_ids =
        (if prior_adds = [] then [] else [op_operation_id (last prior_adds)]),
      cf_detail = [(''from_generation'', JInt previous), (''to_generation'', JInt generation),
                   (''resurrected'', JBool resurrected)]\<rparr>"

definition tombstone_conflict ::
  "string \<Rightarrow> string \<Rightarrow> operation \<Rightarrow> operation option \<Rightarrow> int \<Rightarrow> conflict_record" where
  "tombstone_conflict family entity op delete_op generation =
     \<lparr>cf_kind = ''tombstone_rejected_update'', cf_source_family = family,
      cf_entity_id = Some entity,
      cf_winner_operation_id =
        (case delete_op of Some d \<Rightarrow> op_operation_id d | None \<Rightarrow> op_operation_id op),
      cf_loser_operation_ids = [op_operation_id op],
      cf_detail = [(''targeting_generation'', JInt generation),
                   (''winner_is_epoch_delete'', JBool (delete_op \<noteq> None))]\<rparr>"

type_synonym object_state = "json dict dict \<times> int dict"

definition fold_add ::
  "string \<Rightarrow> string \<Rightarrow> json dict \<Rightarrow> object_state \<Rightarrow> operation \<Rightarrow> fold_state \<Rightarrow>
   py_error + object_state \<times> fold_state" where
  "fold_add family entity flds st op fo =
     (let (objects, tombstones) = st;
          was_tombstoned = map_of tombstones entity \<noteq> None;
          land = (\<lambda>previous tombs.
            let generation = (case previous of Some p \<Rightarrow> p + 1 | None \<Rightarrow> 0);
                conflicts = (case previous of
                    Some p \<Rightarrow> [recreated_conflict family entity op
                                (dict_get (fo_add_ops fo) entity []) p generation was_tombstoned]
                  | None \<Rightarrow> []);
                fo' = fo\<lparr>fo_conflicts := fo_conflicts fo @ conflicts,
                         fo_add_ops := dict_append (fo_add_ops fo) entity op\<rparr>
            in ((AList.update entity (AList.update ''generation'' (JInt generation) flds) objects,
                 tombs),
                write_fields family entity flds op fo'))
      in case map_of objects entity of
           Some live \<Rightarrow>
             (case entry_generation live of
                Inl e \<Rightarrow> Inl e | Inr previous \<Rightarrow> Inr (land (Some previous) tombstones))
         | None \<Rightarrow>
             (case map_of tombstones entity of
                Some previous \<Rightarrow> Inr (land (Some previous) (AList.delete entity tombstones))
              | None \<Rightarrow> Inr (land None tombstones)))"

definition fold_replace ::
  "string \<Rightarrow> string \<Rightarrow> json dict \<Rightarrow> object_state \<Rightarrow> operation \<Rightarrow> fold_state \<Rightarrow>
   object_state \<times> fold_state" where
  "fold_replace family entity flds st op fo =
     (let (objects, tombstones) = st in
      case map_of objects entity of
        None \<Rightarrow>
          (case map_of tombstones entity of
             Some g \<Rightarrow>
               (st, fo\<lparr>fo_conflicts := fo_conflicts fo @
                  [tombstone_conflict family entity op (map_of (fo_delete_ops fo) entity) g]\<rparr>)
           | None \<Rightarrow> (st, fo))
      | Some live \<Rightarrow>
          (let written = (if op_verb op = ''move''
                          then filter (\<lambda>(k, _). k \<in> set (position_fields family)) flds
                          else flds)
           in ((AList.update entity (overwrite written live) objects, tombstones),
               write_fields family entity written op fo)))"

definition fold_delete ::
  "string \<Rightarrow> object_state \<Rightarrow> operation \<Rightarrow> fold_state \<Rightarrow> py_error + object_state \<times> fold_state" where
  "fold_delete entity st op fo =
     (let (objects, tombstones) = st in
      case map_of objects entity of
        None \<Rightarrow> Inr (st, fo)
      | Some live \<Rightarrow>
          (case entry_generation live of
             Inl e \<Rightarrow> Inl e
           | Inr g \<Rightarrow> Inr ((AList.delete entity objects, AList.update entity g tombstones),
                          fo\<lparr>fo_delete_ops := AList.update entity op (fo_delete_ops fo)\<rparr>)))"

definition fold_object ::
  "string \<Rightarrow> object_state \<Rightarrow> operation \<Rightarrow> fold_state \<Rightarrow> py_error + object_state \<times> fold_state" where
  "fold_object family st op fo =
     (case op_entity_id op of
        None \<Rightarrow> Inr (st, fo)
      | Some entity \<Rightarrow>
          if entity = [] then Inr (st, fo)
          else
            let flds = object_fields family (mapping (op_payload op)) in
            if op_verb op = ''add'' then fold_add family entity flds st op fo
            else if op_verb op \<in> {''replace'', ''update'', ''move''}
            then Inr (fold_replace family entity flds st op fo)
            else if op_verb op = ''delete'' then fold_delete entity st op fo
            else Inr (st, fo))"

definition paint_cell ::
  "int \<Rightarrow> operation \<Rightarrow> int \<times> int \<Rightarrow> int dict dict \<times> fold_state \<Rightarrow> int dict dict \<times> fold_state" where
  "paint_cell code op rc cf =
     (let (chunks, fo) = cf;
          (chunk, cell) = cell_key (fst rc) (snd rc);
          bucket = dict_get chunks chunk [];
          actors = dict_get (fo_chunk_cell_actors fo) (chunk, cell) []
      in (AList.update chunk (AList.update cell code bucket) chunks,
          fo\<lparr>fo_chunk_ops := dict_append (fo_chunk_ops fo) chunk op,
             fo_chunk_cell_actors :=
               AList.update (chunk, cell) (List.insert (op_actor_id op) actors)
                 (fo_chunk_cell_actors fo)\<rparr>))"

definition fold_paint ::
  "int dict dict \<Rightarrow> operation \<Rightarrow> fold_state \<Rightarrow> int dict dict \<times> fold_state" where
  "fold_paint chunks op fo =
     (let payload = mapping (op_payload op) in
      case paint_class payload of
        None \<Rightarrow> (chunks, fo)
      | Some code \<Rightarrow> fold (paint_cell code op) (paint_cells payload) (chunks, fo))"

definition fold_segments ::
  "string \<Rightarrow> segment list dict \<Rightarrow> operation \<Rightarrow> fold_state \<Rightarrow> segment list dict \<times> fold_state" where
  "fold_segments family segments_map op fo =
     (let payload = mapping (op_payload op);
          bounds = (if family = ''selected_date_time'' then Some (0, None) else time_bounds payload)
      in case bounds of
           None \<Rightarrow> (segments_map, fo)
         | Some (start, stop) \<Rightarrow>
             (let values = item_values payload;
                  (segs, owners, conflicts) =
                    fold (\<lambda>field (segs, owners, conflicts).
                            insert_segment family segs owners field start stop
                              (dict_get values field JNull) op conflicts)
                      (sort (dict_keys values))
                      (segments_map, fo_segment_owners fo, fo_conflicts fo)
              in (segs, fo\<lparr>fo_segment_owners := owners, fo_conflicts := conflicts\<rparr>)))"

definition fold_view ::
  "json dict \<times> json dict dict \<Rightarrow> operation \<Rightarrow> fold_state \<Rightarrow>
   (json dict \<times> json dict dict) \<times> fold_state" where
  "fold_view st op fo =
     (let (view, per_user) = st;
          payload = mapping (op_payload op);
          selection = (case map_of payload ''values'' of
                         Some (JObj nested) \<Rightarrow> nested
                       | _ \<Rightarrow> filter (\<lambda>(k, _). k \<noteq> ''scope'') payload);
          ordered = sorted_items selection
      in if map_of payload ''scope'' = Some (JStr ''user'')
         then ((view, AList.update (op_actor_id op) ordered per_user),
               fo\<lparr>fo_per_user_updates := fo_per_user_updates fo + 1\<rparr>)
         else ((ordered, per_user), fo\<lparr>fo_view_writers := fo_view_writers fo @ [op]\<rparr>))"

text \<open>One iteration of the fold loop of \<open>reduce_epoch\<close>.\<close>

definition fold_op ::
  "family_state dict \<times> fold_state \<Rightarrow> operation \<Rightarrow> py_error + family_state dict \<times> fold_state" where
  "fold_op wk op =
     (let (work, fo) = wk; family = op_source_family op in
      if family \<in> set OBJECT_FAMILIES then
        (case map_of work family of
           Some (ObjectState objects tombstones) \<Rightarrow>
             (case fold_object family (objects, tombstones) op fo of
                Inl e \<Rightarrow> Inl e
              | Inr ((objects', tombstones'), fo') \<Rightarrow>
                  Inr (AList.update family (ObjectState objects' tombstones') work, fo'))
         | _ \<Rightarrow> Inl (KeyError family))
      else if family = ''landcover_surface'' then
        (if op_verb op = ''paint'' then
           (case map_of work family of
              Some (PaintState chunks) \<Rightarrow>
                (let (chunks', fo') = fold_paint chunks op fo
                 in Inr (AList.update family (PaintState chunks') work, fo'))
            | _ \<Rightarrow> Inl (KeyError family))
         else Inr wk)
      else if family \<in> set SEGMENT_FAMILIES then
        (if op_verb op \<in> {''set'', ''select'', ''update''} then
           (case map_of work family of
              Some (SegmentState segs) \<Rightarrow>
                (let (segs', fo') = fold_segments family segs op fo
                 in Inr (AList.update family (SegmentState segs') work, fo'))
            | _ \<Rightarrow> Inl (KeyError family))
         else Inr wk)
      else if family = ''output_view'' then
        (if op_verb op = ''select'' then
           (case map_of work family of
              Some (ViewState view per_user) \<Rightarrow>
                (let ((view', per_user'), fo') = fold_view (view, per_user) op fo
                 in Inr (AList.update family (ViewState view' per_user') work, fo'))
            | _ \<Rightarrow> Inl (KeyError family))
         else Inr wk)
      else Inr wk)"

section \<open>Family deltas\<close>

definition physical_fields :: "json dict \<Rightarrow> json dict" where
  "physical_fields entry = filter (\<lambda>(k, _). k \<noteq> ''generation'') (sorted_items entry)"

definition changed_fields :: "json dict \<Rightarrow> json dict \<Rightarrow> string list" where
  "changed_fields base final =
     filter (\<lambda>name. \<not> opt_eq (map_of base name) (map_of final name))
       (remdups (dict_keys base @ dict_keys final))"

text \<open>The net operation on one entity, \<^const>\<open>None\<close> when it is physically unchanged.\<close>

definition object_net :: "string list \<Rightarrow> json dict option \<Rightarrow> json dict option \<Rightarrow> string option" where
  "object_net position base_fields final_fields =
     (case (base_fields, final_fields) of
        (None, Some _) \<Rightarrow> Some ''add''
      | (Some _, None) \<Rightarrow> Some ''delete''
      | (Some b, Some f) \<Rightarrow>
          if dict_eq f b then None
          else if set (changed_fields b f) \<subseteq> set position then Some ''move''
          else Some ''replace''
      | (None, None) \<Rightarrow> None)"

definition object_commands ::
  "string \<Rightarrow> json dict dict \<Rightarrow> json dict dict \<Rightarrow> command list" where
  "object_commands family base_objects final_objects =
     concat (map (\<lambda>entity.
       let base_fields = map_option physical_fields (map_of base_objects entity);
           final_fields = map_option physical_fields (map_of final_objects entity)
       in case object_net (position_fields family) base_fields final_fields of
            None \<Rightarrow> []
          | Some operation \<Rightarrow>
              [\<lparr>cmd_adapter = family, cmd_operation = operation, cmd_target = JStr entity,
                cmd_values = (case final_fields of Some f \<Rightarrow> f | None \<Rightarrow> []),
                cmd_old_values = base_fields, cmd_time_index = None\<rparr>])
       (sort (remdups (dict_keys base_objects @ dict_keys final_objects))))"

definition count_ops :: "string \<Rightarrow> command list \<Rightarrow> int" where
  "count_ops operation commands = int (length (filter (\<lambda>c. cmd_operation c = operation) commands))"

definition object_delta :: "string \<Rightarrow> family_state \<Rightarrow> family_state \<Rightarrow> family_delta" where
  "object_delta family baseline final =
     (let commands = object_commands family (st_objects baseline) (st_objects final)
      in \<lparr>fd_family = family, fd_is_noop = (commands = []), fd_commands = commands,
          fd_summary =
            [(''objects_added'', count_ops ''add'' commands),
             (''objects_deleted'', count_ops ''delete'' commands),
             (''objects_moved'', count_ops ''move'' commands),
             (''objects_replaced'', count_ops ''replace'' commands)]\<rparr>)"

definition cell_diff :: "int dict \<Rightarrow> int dict \<Rightarrow> int dict" where
  "cell_diff base_cells final_cells =
     filter (\<lambda>(cell, code). map_of base_cells cell \<noteq> Some code) final_cells"

definition with_keys :: "(string \<Rightarrow> py_error + int \<times> int) \<Rightarrow> (string \<times> 'v) list \<Rightarrow>
    py_error + ((int \<times> int) \<times> string \<times> 'v) list" where
  "with_keys key d =
     traverse (\<lambda>(k, v). case key k of Inl e \<Rightarrow> Inl e | Inr rc \<Rightarrow> Inr (rc, k, v)) d"

text \<open>The \<open>by_class\<close> dictionary of one chunk: class code to its cells in cell order.\<close>

definition by_class :: "((int \<times> int) \<times> string \<times> int) list \<Rightarrow> (int \<times> (int \<times> int) list) list" where
  "by_class cells = fold (\<lambda>(rc, _, code) d. dict_append d code rc) (sort_key fst cells) []"

definition paint_command :: "string \<Rightarrow> string \<Rightarrow> int \<times> (int \<times> int) list \<Rightarrow> command" where
  "paint_command family chunk entry =
     \<lparr>cmd_adapter = family, cmd_operation = ''paint'',
      cmd_target =
        JObj [(''chunk'', JStr chunk),
              (''cells'', JArr (map (\<lambda>(row, col). JArr [JInt row, JInt col]) (snd entry)))],
      cmd_values = [(''class'', JInt (fst entry))], cmd_old_values = None, cmd_time_index = None\<rparr>"

definition chunk_commands ::
  "string \<Rightarrow> int dict dict \<Rightarrow> string \<times> int dict \<Rightarrow> py_error + int \<times> command list" where
  "chunk_commands family base_chunks chunk_cells =
     (let (chunk, final_cells) = chunk_cells;
          diff = cell_diff (dict_get base_chunks chunk []) final_cells
      in case with_keys cell_sort_key diff of
           Inl e \<Rightarrow> Inl e
         | Inr cells \<Rightarrow>
             Inr (int (length diff),
                  map (paint_command family chunk) (sort_key fst (by_class cells))))"

definition landcover_delta ::
  "string \<Rightarrow> family_state \<Rightarrow> family_state \<Rightarrow> py_error + family_delta" where
  "landcover_delta family baseline final =
     (case with_keys chunk_sort_key (st_chunks final) of
        Inl e \<Rightarrow> Inl e
      | Inr keyed \<Rightarrow>
          (case traverse (chunk_commands family (st_chunks baseline)) (map snd (sort_key fst keyed)) of
             Inl e \<Rightarrow> Inl e
           | Inr per_chunk \<Rightarrow>
               (let commands = concat (map snd per_chunk)
                in Inr \<lparr>fd_family = family, fd_is_noop = (commands = []), fd_commands = commands,
                        fd_summary =
                          [(''cells_changed'', sum_list (map fst per_chunk)),
                           (''chunks_changed'', int (length (filter (\<lambda>p. fst p \<noteq> 0) per_chunk)))]\<rparr>)))"

definition json_segments :: "segment list \<Rightarrow> json" where
  "json_segments segs =
     JArr (map (\<lambda>(start, stop, value). JArr [JInt start, json_opt_int stop, value]) segs)"

definition segment_commands ::
  "string \<Rightarrow> segment list dict \<Rightarrow> string \<times> segment list \<Rightarrow> command list" where
  "segment_commands family base_segments fs =
     (let (field, segments) = fs; old = dict_get base_segments field []
      in if list_all2 seg_eq segments old then []
         else [\<lparr>cmd_adapter = family, cmd_operation = ''set'', cmd_target = JStr field,
                cmd_values = [(''segments'', json_segments segments)],
                cmd_old_values = Some [(''segments'', json_segments old)],
                cmd_time_index = None\<rparr>])"

definition segment_delta :: "string \<Rightarrow> family_state \<Rightarrow> family_state \<Rightarrow> family_delta" where
  "segment_delta family baseline final =
     (let base_segments = st_segments baseline;
          changed = filter (\<lambda>(field, segs). \<not> list_all2 seg_eq segs (dict_get base_segments field []))
                      (sorted_items (st_segments final));
          commands = concat (map (segment_commands family base_segments)
                               (sorted_items (st_segments final)))
      in \<lparr>fd_family = family, fd_is_noop = (commands = []), fd_commands = commands,
          fd_summary =
            [(''fields_changed'', int (length changed)),
             (''segments_changed'', sum_list (map (\<lambda>(_, segs). int (length segs)) changed))]\<rparr>)"

definition view_delta ::
  "string \<Rightarrow> family_state \<Rightarrow> family_state \<Rightarrow> fold_state \<Rightarrow> family_delta" where
  "view_delta family baseline final fo =
     (let base_view = st_view baseline; final_view = st_view final;
          changed = (\<not> dict_eq final_view base_view)
      in \<lparr>fd_family = family, fd_is_noop = (\<not> changed),
          fd_commands =
            (if changed then
               [\<lparr>cmd_adapter = family, cmd_operation = ''select'', cmd_target = JNull,
                 cmd_values = final_view,
                 cmd_old_values = (if base_view = [] then None else Some base_view),
                 cmd_time_index = None\<rparr>]
             else []),
          fd_summary =
            [(''workspace_view_changed'', if changed then 1 else 0),
             (''per_user_updates'', fo_per_user_updates fo)]\<rparr>)"

text \<open>\<open>builders[family](family, baseline.families.get(family) or {}, work[family], fold)\<close>.\<close>

definition build_delta ::
  "family_state dict \<Rightarrow> family_state dict \<Rightarrow> fold_state \<Rightarrow> string \<Rightarrow> py_error + string \<times> family_delta"
  where
  "build_delta base work fo family =
     (if family \<notin> set ALL_FAMILIES then Inl (KeyError family)
      else case map_of work family of
        None \<Rightarrow> Inl (KeyError family)
      | Some final \<Rightarrow>
          (let baseline = dict_get base family (OtherState []) in
           if family \<in> set OBJECT_FAMILIES then Inr (family, object_delta family baseline final)
           else if family = ''landcover_surface'' then
             map_sum id (\<lambda>d. (family, d)) (landcover_delta family baseline final)
           else if family \<in> set SEGMENT_FAMILIES
           then Inr (family, segment_delta family baseline final)
           else Inr (family, view_delta family baseline final fo)))"

section \<open>Aggregated conflicts\<close>

definition actors_of :: "operation list \<Rightarrow> string list" where
  "actors_of ops = remdups (map op_actor_id ops)"

definition field_conflicts ::
  "(string \<times> string \<times> string) \<times> operation list \<Rightarrow> conflict_record list" where
  "field_conflicts entry =
     (case entry of ((family, entity, field), writers) \<Rightarrow>
        if length (actors_of writers) < 2 then []
        else [\<lparr>cf_kind = ''last_write_wins'', cf_source_family = family,
               cf_entity_id = Some entity,
               cf_winner_operation_id = op_operation_id (last writers),
               cf_loser_operation_ids = map op_operation_id (butlast writers),
               cf_detail = [(''field'', JStr field)]\<rparr>])"

text \<open>Deduplication by operation id in first-touch order.\<close>

fun dedup_ops :: "string list \<Rightarrow> operation list \<Rightarrow> operation list" where
  "dedup_ops seen [] = []"
| "dedup_ops seen (op # ops) =
     (if op_operation_id op \<in> set seen then dedup_ops seen ops
      else op # dedup_ops (op_operation_id op # seen) ops)"

definition chunk_conflicts :: "fold_state \<Rightarrow> string \<times> operation list \<Rightarrow> conflict_record list" where
  "chunk_conflicts fo entry =
     (let (chunk, touched) = entry; ops = dedup_ops [] touched in
      if length (actors_of ops) < 2 then []
      else [\<lparr>cf_kind = ''raster_chunk_overwritten'', cf_source_family = ''landcover_surface'',
             cf_entity_id = Some chunk,
             cf_winner_operation_id = op_operation_id (last ops),
             cf_loser_operation_ids = map op_operation_id (butlast ops),
             cf_detail =
               [(''chunk'', JStr chunk),
                (''cells_conflicted'',
                 JInt (int (length (filter (\<lambda>((c, _), actors). c = chunk \<and> 2 \<le> length actors)
                                     (fo_chunk_cell_actors fo)))))]\<rparr>])"

definition view_conflicts :: "operation list \<Rightarrow> conflict_record list" where
  "view_conflicts writers =
     (if length (actors_of writers) < 2 then []
      else [\<lparr>cf_kind = ''last_write_wins'', cf_source_family = ''output_view'',
             cf_entity_id = None,
             cf_winner_operation_id = op_operation_id (last writers),
             cf_loser_operation_ids = map op_operation_id (butlast writers),
             cf_detail = [(''scope'', JStr ''workspace'')]\<rparr>])"

definition aggregate_conflicts :: "fold_state \<Rightarrow> py_error + conflict_record list" where
  "aggregate_conflicts fo =
     (case with_keys chunk_sort_key (fo_chunk_ops fo) of
        Inl e \<Rightarrow> Inl e
      | Inr keyed \<Rightarrow>
          Inr (concat (map field_conflicts (sort_key fst (fo_field_writers fo)))
               @ concat (map (chunk_conflicts fo) (map snd (sort_key fst keyed)))
               @ view_conflicts (fo_view_writers fo)))"

section \<open>The reducer\<close>

definition initial_state :: "string \<Rightarrow> canonical_state" where
  "initial_state workspace =
     \<lparr>cs_workspace_id = workspace, cs_workspace_revision = 0,
      cs_families = map (\<lambda>family. (family, empty_family_state family)) ALL_FAMILIES\<rparr>"

definition present_families :: "operation list \<Rightarrow> string list" where
  "present_families ops = remdups (map op_source_family ops)"

definition reduce_epoch ::
  "canonical_state \<Rightarrow> operation list \<Rightarrow> py_error + epoch_reduction" where
  "reduce_epoch baseline ops =
     (if \<not> distinct (map op_server_sequence ops) then Inl (ValueError ''server_sequence'')
      else
        let ordered = sort_key op_server_sequence ops in
        case fold_exc fold_op (copy_families (cs_families baseline), empty_fold) ordered of
          Inl e \<Rightarrow> Inl e
        | Inr (work, fo) \<Rightarrow>
            (case traverse (build_delta (cs_families baseline) work fo)
                    (sort (present_families ordered)) of
               Inl e \<Rightarrow> Inl e
             | Inr family_deltas \<Rightarrow>
                 (case aggregate_conflicts fo of
                    Inl e \<Rightarrow> Inl e
                  | Inr aggregated \<Rightarrow>
                      (let revision = cs_workspace_revision baseline
                                        + (if ordered = [] then 0 else 1)
                       in Inr \<lparr>er_reduced =
                                \<lparr>re_workspace_id = cs_workspace_id baseline,
                                 re_epoch_id =
                                   (if ordered = [] then 0 else op_epoch_id (last ordered)),
                                 re_workspace_revision = revision,
                                 re_family_deltas = family_deltas,
                                 re_audit_operations = ordered,
                                 re_conflicts = fo_conflicts fo @ aggregated\<rparr>,
                              er_state =
                                \<lparr>cs_workspace_id = cs_workspace_id baseline,
                                 cs_workspace_revision = revision,
                                 cs_families = work\<rparr>\<rparr>))))"

end
