(* ===== verification/Reducer_Objects.thy ===== *)
theory Reducer_Objects
  imports Reducer
begin

text \<open>
  Object families of the reducer (buildings and trees). The abstract specification is a life
  cycle per entity: unknown, live in some generation with a field map, or tombstoned in some
  generation. The fold of one operation implements one step of that life cycle, keeps the
  representation invariant, and never raises on a well-formed state unless the operation
  writes a field called \<open>generation\<close>.
\<close>

section \<open>Representation invariant\<close>

definition entry_ok :: "json dict \<Rightarrow> bool" where
  "entry_ok live \<longleftrightarrow> (\<exists>g\<ge>0. map_of live ''generation'' = Some (JInt g))"

definition objects_ok :: "object_state \<Rightarrow> bool" where
  "objects_ok st \<longleftrightarrow>
     distinct (dict_keys (fst st)) \<and> distinct (dict_keys (snd st)) \<and>
     (\<forall>e. map_of (fst st) e = None \<or> map_of (snd st) e = None) \<and>
     (\<forall>e live. map_of (fst st) e = Some live \<longrightarrow> entry_ok live) \<and>
     (\<forall>e g. map_of (snd st) e = Some g \<longrightarrow> 0 \<le> g)"

text \<open>An update operation that does not write the reserved \<open>generation\<close> field.\<close>

definition keeps_generation :: "operation \<Rightarrow> bool" where
  "keeps_generation op \<longleftrightarrow>
     op_verb op \<in> {''replace'', ''update''} \<longrightarrow>
       ''generation'' \<notin> set (dict_keys (object_fields (op_source_family op) (mapping (op_payload op))))"

section \<open>The life cycle specification\<close>

datatype life = Unknown | Live int "string \<rightharpoonup> json" | Dead int

definition life_of :: "object_state \<Rightarrow> string \<Rightarrow> life" where
  "life_of st e =
     (case map_of (fst st) e of
        Some live \<Rightarrow>
          Live (case entry_generation live of Inr g \<Rightarrow> g | Inl _ \<Rightarrow> 0)
            ((map_of live)(''generation'' := None))
      | None \<Rightarrow> (case map_of (snd st) e of Some g \<Rightarrow> Dead g | None \<Rightarrow> Unknown))"

definition life_add :: "(string \<rightharpoonup> json) \<Rightarrow> life \<Rightarrow> life" where
  "life_add flds l =
     (case l of Unknown \<Rightarrow> Live 0 flds | Live g _ \<Rightarrow> Live (g + 1) flds | Dead g \<Rightarrow> Live (g + 1) flds)"

definition life_write :: "(string \<rightharpoonup> json) \<Rightarrow> life \<Rightarrow> life" where
  "life_write w l = (case l of Live g f \<Rightarrow> Live g (f ++ w) | _ \<Rightarrow> l)"

definition life_delete :: "life \<Rightarrow> life" where
  "life_delete l = (case l of Live g _ \<Rightarrow> Dead g | _ \<Rightarrow> l)"

text \<open>What one operation of an object family does to one entity.\<close>

definition life_step :: "string \<Rightarrow> operation \<Rightarrow> string \<Rightarrow> life \<Rightarrow> life" where
  "life_step family op e l =
     (let flds = map_of (object_fields family (mapping (op_payload op))) in
      if op_entity_id op \<noteq> Some e \<or> e = [] then l
      else if op_verb op = ''add'' then life_add (flds(''generation'' := None)) l
      else if op_verb op = ''move'' then life_write (flds |` set (position_fields family)) l
      else if op_verb op \<in> {''replace'', ''update''} then life_write flds l
      else if op_verb op = ''delete'' then life_delete l
      else l)"

section \<open>Field writes\<close>

lemma map_of_fold_update:
  "map_of (fold (\<lambda>k d. AList.update k (f k) d) ks d) =
     map_of d ++ (\<lambda>k. if k \<in> set ks then Some (f k) else None)"
proof (induction ks arbitrary: d)
  case (Cons k ks)
  then show ?case by (auto simp: map_add_def fun_eq_iff split: option.splits)
qed (simp add: map_add_def)

lemma map_of_overwrite: "map_of (overwrite flds live) = map_of live ++ map_of flds"
proof -
  have "(\<lambda>k. if k \<in> set (sort (dict_keys flds)) then Some (dict_get flds k JNull) else None) =
      map_of flds"
  proof (rule ext)
    fix k
    show "(if k \<in> set (sort (dict_keys flds)) then Some (dict_get flds k JNull) else None) =
        map_of flds k"
    proof (cases "map_of flds k")
      case None
      then show ?thesis using map_of_None_keys [of flds k] by (simp del: set_map)
    next
      case (Some v)
      then show ?thesis using map_of_Some_keys [OF Some] by (simp del: set_map add: dict_get_def)
    qed
  qed
  then show ?thesis by (simp add: overwrite_def map_of_fold_update)
qed

lemma distinct_overwrite:
  "distinct (dict_keys live) \<Longrightarrow> distinct (dict_keys (overwrite flds live))"
proof -
  have "distinct (dict_keys d) \<Longrightarrow>
      distinct (dict_keys (fold (\<lambda>k d. AList.update k (f k) d) ks d))" for d ks and f :: "string \<Rightarrow> json"
    by (induction ks arbitrary: d) auto
  then show "distinct (dict_keys live) \<Longrightarrow> ?thesis" by (simp add: overwrite_def)
qed

lemma map_of_filter_keys: "map_of (filter (\<lambda>(k, _). P k) d) = map_of d |` {k. P k}"
  by (induction d) (auto simp: restrict_map_def fun_eq_iff)

lemma entry_ok_generation: "entry_ok live \<Longrightarrow> \<exists>g\<ge>0. entry_generation live = Inr g"
  by (auto simp: entry_ok_def entry_generation_def py_int_def)

lemma entry_generation_cong:
  "map_of a ''generation'' = map_of b ''generation'' \<Longrightarrow> entry_generation a = entry_generation b"
  by (simp add: entry_generation_def)

lemma generation_not_position: "''generation'' \<notin> set (position_fields family)"
  by (simp add: position_fields_def)

lemma entry_ok_new: "0 \<le> g \<Longrightarrow> entry_ok (AList.update ''generation'' (JInt g) flds)"
  by (simp add: entry_ok_def)

lemma entry_generation_new [simp]:
  "entry_generation (AList.update ''generation'' (JInt g) flds) = Inr g"
  by (simp add: entry_generation_def py_int_def)

lemma objects_ok_update [inv_intros]:
  "objects_ok (objects, tombs) \<Longrightarrow> map_of tombs e = None \<Longrightarrow> entry_ok x \<Longrightarrow>
   objects_ok (AList.update e x objects, tombs)"
  by (auto simp: objects_ok_def)

lemma objects_ok_revive [inv_intros]:
  "objects_ok (objects, tombs) \<Longrightarrow> entry_ok x \<Longrightarrow>
   objects_ok (AList.update e x objects, AList.delete e tombs)"
  by (auto simp: objects_ok_def)

lemma objects_ok_bury [inv_intros]:
  "objects_ok (objects, tombs) \<Longrightarrow> 0 \<le> g \<Longrightarrow>
   objects_ok (AList.delete e objects, AList.update e g tombs)"
  by (auto simp: objects_ok_def)

lemma objects_okD:
  assumes "objects_ok (objects, tombs)"
  shows "map_of objects e = Some live \<Longrightarrow> \<exists>g\<ge>0. entry_generation live = Inr g"
    "map_of objects e = Some live \<Longrightarrow> map_of tombs e = None"
    "map_of tombs e = Some g \<Longrightarrow> 0 \<le> g"
    "map_of objects e = Some live \<Longrightarrow> entry_ok live"
  using assms entry_ok_generation by (auto simp: objects_ok_def) (metis option.distinct(1))

section \<open>The verbs keep the invariant and implement the life cycle\<close>

lemma life_of_Live:
  "map_of (fst st) e = Some live \<Longrightarrow> entry_generation live = Inr g \<Longrightarrow>
   life_of st e = Live g ((map_of live)(''generation'' := None))"
  by (simp add: life_of_def)

lemma life_of_frame:
  "map_of (fst st') e = map_of (fst st) e \<Longrightarrow> map_of (snd st') e = map_of (snd st) e \<Longrightarrow>
   life_of st' e = life_of st e"
  by (simp add: life_of_def split: option.split)

lemma life_of_new:
  "life_of (AList.update e (AList.update ''generation'' (JInt g) flds) objects, tombs) e =
   Live g ((map_of flds)(''generation'' := None))"
  by (simp add: life_of_def)

lemma fold_add_spec:
  assumes ok: "objects_ok st"
  shows "\<exists>st' fo'. fold_add family e flds st op fo = Inr (st', fo') \<and> objects_ok st' \<and>
    (\<forall>x. life_of st' x =
       (if x = e then life_add ((map_of flds)(''generation'' := None)) (life_of st x)
        else life_of st x))"
proof -
  obtain objects tombs where st: "st = (objects, tombs)" by (cases st)
  note ok' = ok [unfolded st]
  let ?new = "\<lambda>g. AList.update e (AList.update ''generation'' (JInt g) flds) objects"
  consider (live) live g where "map_of objects e = Some live" "0 \<le> g" "entry_generation live = Inr g"
    | (dead) g where "map_of objects e = None" "map_of tombs e = Some g" "0 \<le> g"
    | (unknown) "map_of objects e = None" "map_of tombs e = None"
    using objects_okD(1,3) [OF ok', of e] by (metis option.exhaust)
  then obtain g' tombs' where r:
    "\<exists>fo'. fold_add family e flds st op fo = Inr ((?new g', tombs'), fo')"
    "objects_ok (?new g', tombs')" "\<forall>x. x \<noteq> e \<longrightarrow> map_of tombs' x = map_of tombs x"
    "Live g' ((map_of flds)(''generation'' := None)) =
       life_add ((map_of flds)(''generation'' := None)) (life_of st e)"
  proof cases
    case live
    show thesis
    proof (rule that [of "g + 1" tombs])
      show "objects_ok (?new (g + 1), tombs)"
        using ok' objects_okD(2) [OF ok' live(1)] live by (intro inv_intros entry_ok_new) auto
    qed (use live st in \<open>simp_all add: fold_add_def Let_def life_of_def life_add_def\<close>)
  next
    case dead
    show thesis
    proof (rule that [of "g + 1" "AList.delete e tombs"])
      show "objects_ok (?new (g + 1), AList.delete e tombs)"
        using ok' dead by (intro inv_intros entry_ok_new) auto
    qed (use dead st in \<open>simp_all add: fold_add_def Let_def life_of_def life_add_def\<close>)
  next
    case unknown
    show thesis
    proof (rule that [of 0 tombs])
      show "objects_ok (?new 0, tombs)"
        using ok' unknown by (intro inv_intros entry_ok_new) auto
    qed (use unknown st in \<open>simp_all add: fold_add_def Let_def life_of_def life_add_def\<close>)
  qed
  have "life_of (?new g', tombs') x = life_of st x" if "x \<noteq> e" for x
    using r(3) that st by (intro life_of_frame) simp_all
  moreover obtain fo' where "fold_add family e flds st op fo = Inr ((?new g', tombs'), fo')"
    using r(1) by blast
  moreover have "life_of (?new g', tombs') e =
      life_add ((map_of flds)(''generation'' := None)) (life_of st e)"
    using r(4) by (simp only: life_of_new)
  ultimately show ?thesis using r(2) by (intro exI conjI) auto
qed

lemma fold_delete_spec:
  assumes ok: "objects_ok st"
  shows "\<exists>st' fo'. fold_delete e st op fo = Inr (st', fo') \<and> objects_ok st' \<and>
    (\<forall>x. life_of st' x = (if x = e then life_delete (life_of st x) else life_of st x))"
proof -
  obtain objects tombs where st: "st = (objects, tombs)" by (cases st)
  note ok' = ok [unfolded st]
  show ?thesis
  proof (cases "map_of objects e")
    case None
    then have "fold_delete e st op fo = Inr (st, fo)" "life_delete (life_of st e) = life_of st e"
      using st by (simp_all add: fold_delete_def life_of_def life_delete_def split: option.splits)
    then show ?thesis using ok by metis
  next
    case (Some live)
    obtain g where g: "0 \<le> g" "entry_generation live = Inr g"
      using objects_okD(1) [OF ok' Some] by blast
    let ?st = "(AList.delete e objects, AList.update e g tombs)"
    have "objects_ok ?st" using ok' g by (intro inv_intros)
    moreover have "\<exists>fo'. fold_delete e st op fo = Inr (?st, fo')"
      using st Some g by (simp add: fold_delete_def)
    moreover have "life_of ?st e = life_delete (life_of st e)"
      using st Some g by (simp add: life_of_def life_delete_def)
    moreover have "life_of ?st x = life_of st x" if "x \<noteq> e" for x
      using that st by (intro life_of_frame) simp_all
    ultimately show ?thesis by fastforce
  qed
qed

lemma fold_replace_spec:
  assumes ok: "objects_ok st"
    and keep: "op_verb op \<noteq> ''move'' \<Longrightarrow> ''generation'' \<notin> set (dict_keys flds)"
    and fr: "fold_replace family e flds st op fo = (st', fo')"
  shows "objects_ok st'"
    "life_of st' x =
       (if x = e then life_write (if op_verb op = ''move''
            then map_of flds |` set (position_fields family) else map_of flds) (life_of st x)
        else life_of st x)"
proof -
  obtain objects tombs where st: "st = (objects, tombs)" by (cases st)
  let ?w = "if op_verb op = ''move''
      then filter (\<lambda>(k, _). k \<in> set (position_fields family)) flds else flds"
  have w: "map_of ?w = (if op_verb op = ''move''
      then map_of flds |` set (position_fields family) else map_of flds)"
    by (simp add: map_of_filter_keys)
  have gen: "map_of ?w ''generation'' = None"
    using keep generation_not_position by (auto simp: w map_of_eq_None_iff restrict_map_def)
  have "objects_ok st' \<and> life_of st' x =
      (if x = e then life_write (map_of ?w) (life_of st x) else life_of st x)"
  proof (cases "map_of objects e")
    case None
    then show ?thesis
      using fr st ok
      by (auto simp: fold_replace_def life_of_def life_write_def split: option.splits)
  next
    case (Some live)
    let ?new = "overwrite ?w live"
    have st': "st' = (AList.update e ?new objects, tombs)"
      using fr st Some by (auto simp: fold_replace_def Let_def)
    have same: "map_of ?new ''generation'' = map_of live ''generation''"
      using gen by (simp add: map_of_overwrite map_add_def)
    have "entry_ok ?new"
      using objects_okD(4) [OF ok [unfolded st] Some] same by (simp add: entry_ok_def)
    then have "objects_ok st'"
      using objects_ok_update ok objects_okD(2) [OF ok [unfolded st] Some] st st' by blast
    moreover have "(map_of ?new)(''generation'' := None)
        = (map_of live)(''generation'' := None) ++ map_of ?w"
      using gen unfolding map_of_overwrite by (intro ext) (simp add: map_add_def split: option.splits)
    moreover have "life_of st' x = life_of st x" if "x \<noteq> e"
      using that st st' by (intro life_of_frame) simp_all
    ultimately show ?thesis
      using st st' Some entry_generation_cong [OF same]
      by (simp add: life_of_def life_write_def)
  qed
  then show "objects_ok st'" "life_of st' x =
       (if x = e then life_write (if op_verb op = ''move''
            then map_of flds |` set (position_fields family) else map_of flds) (life_of st x)
        else life_of st x)"
    by (auto simp: w)
qed

lemma fold_object_spec:
  assumes ok: "objects_ok st" and keep: "keeps_generation op" and fam: "family = op_source_family op"
  obtains st' fo' where "fold_object family st op fo = Inr (st', fo')" "objects_ok st'"
    "\<And>e. life_of st' e = life_step family op e (life_of st e)"
proof (cases "op_entity_id op")
  case None
  then show thesis by (intro that [of st fo]) (auto simp: fold_object_def ok life_step_def)
next
  case (Some e)
  let ?flds = "object_fields family (mapping (op_payload op))"
  consider "e = []" | "e \<noteq> []" "op_verb op = ''add''" | "e \<noteq> []" "op_verb op = ''delete''"
    | "e \<noteq> []" "op_verb op \<in> {''replace'', ''update'', ''move''}"
    | "e \<noteq> []" "op_verb op \<notin> {''add'', ''replace'', ''update'', ''move'', ''delete''}"
    by blast
  then show thesis
  proof cases
    case 1
    then show thesis using Some
      by (intro that [of st fo]) (auto simp: fold_object_def ok life_step_def)
  next
    case 2
    obtain st' fo' where r: "fold_add family e ?flds st op fo = Inr (st', fo')" "objects_ok st'"
      "\<And>x. life_of st' x = (if x = e then life_add ((map_of ?flds)(''generation'' := None))
          (life_of st x) else life_of st x)"
      using fold_add_spec [OF ok] by blast
    show thesis
      by (rule that [of st' fo']) (use r 2 Some in \<open>auto simp: fold_object_def life_step_def\<close>)
  next
    case 3
    obtain st' fo' where r: "fold_delete e st op fo = Inr (st', fo')" "objects_ok st'"
      "\<And>x. life_of st' x = (if x = e then life_delete (life_of st x) else life_of st x)"
      using fold_delete_spec [OF ok] by blast
    show thesis
      by (rule that [of st' fo']) (use r 3 Some in \<open>auto simp: fold_object_def life_step_def\<close>)
  next
    case 4
    obtain st' fo' where r: "fold_replace family e ?flds st op fo = (st', fo')" by fastforce
    have k: "op_verb op \<noteq> ''move'' \<Longrightarrow> ''generation'' \<notin> set (dict_keys ?flds)"
      using keep 4 fam by (auto simp: keeps_generation_def)
    note s = fold_replace_spec [OF ok k r]
    show thesis
      by (rule that [of st' fo']) (use r s 4 Some in \<open>auto simp: fold_object_def life_step_def\<close>)
  next
    case 5
    then show thesis using Some
      by (intro that [of st fo]) (auto simp: fold_object_def ok life_step_def Let_def)
  qed
qed

end
