(* ===== verification/Reducer_Paint.thy ===== *)
theory Reducer_Paint
  imports Reducer
begin

text \<open>
  The land-cover family of the reducer. The abstract view of the two-level chunk dictionary is
  a partial map from cells to class codes. One paint operation overwrites that map on the cells
  it names; the emitted delta, replayed as paint commands on the baseline map, gives the final
  map again.
\<close>

section \<open>The cell map of a chunk dictionary\<close>

definition cell_at :: "int dict dict \<Rightarrow> int \<times> int \<Rightarrow> int option" where
  "cell_at chunks rc =
     (let (chunk, cell) = cell_key (fst rc) (snd rc)
      in map_of (dict_get chunks chunk []) cell)"

definition bucket_ok :: "string \<Rightarrow> int dict \<Rightarrow> bool" where
  "bucket_ok chunk bucket \<longleftrightarrow>
     distinct (dict_keys bucket) \<and>
     (\<forall>cell\<in>dom (map_of bucket). \<exists>r c. cell_key r c = (chunk, cell))"

definition chunks_ok :: "int dict dict \<Rightarrow> bool" where
  "chunks_ok chunks \<longleftrightarrow>
     distinct (dict_keys chunks) \<and> (\<forall>k\<in>dom (map_of chunks). \<exists>a b. k = pair_key a b) \<and>
     (\<forall>k b. map_of chunks k = Some b \<longrightarrow> bucket_ok k b)"

lemma cell_key_inject: "cell_key r c = cell_key r' c' \<longleftrightarrow> r = r' \<and> c = c'"
  by (auto simp: cell_key_def)

lemma snd_cell_key: "snd (cell_key r c) = pair_key r c"
  by (simp add: cell_key_def)

lemma bucket_ok_Nil [simp]: "bucket_ok chunk []"
  by (simp add: bucket_ok_def)

lemma chunks_ok_get: "chunks_ok chunks \<Longrightarrow> bucket_ok k (dict_get chunks k [])"
  by (auto simp: chunks_ok_def dict_get_def split: option.splits)

lemma bucket_ok_update:
  "bucket_ok chunk b \<Longrightarrow> cell_key r c = (chunk, cell) \<Longrightarrow> bucket_ok chunk (AList.update cell v b)"
  by (auto simp: bucket_ok_def)

lemma chunks_ok_update:
  assumes "chunks_ok chunks" "cell_key r c = (k, cell)" "bucket_ok k b"
  shows "chunks_ok (AList.update k b chunks)"
  using assms unfolding chunks_ok_def by (auto simp: cell_key_def split: if_splits)

section \<open>Painting\<close>

definition fold_chunks_ok :: "fold_state \<Rightarrow> bool" where
  "fold_chunks_ok fo \<longleftrightarrow> (\<forall>k\<in>dom (map_of (fo_chunk_ops fo)). \<exists>a b. k = pair_key a b)"

lemma paint_cell_spec:
  assumes "chunks_ok chunks" "fold_chunks_ok fo" "paint_cell code op rc (chunks, fo) = (chunks', fo')"
  shows "chunks_ok chunks'" "fold_chunks_ok fo'"
    "cell_at chunks' = (cell_at chunks)(rc \<mapsto> code)"
proof -
  obtain k cell where key: "cell_key (fst rc) (snd rc) = (k, cell)" by fastforce
  have c': "chunks' = AList.update k (AList.update cell code (dict_get chunks k [])) chunks"
    and f': "fo_chunk_ops fo' = dict_append (fo_chunk_ops fo) k op"
    using assms(3) key by (auto simp: paint_cell_def)
  show "chunks_ok chunks'"
    unfolding c' using assms(1) key by (intro chunks_ok_update bucket_ok_update chunks_ok_get)
  show "fold_chunks_ok fo'"
    using assms(2) f' key by (auto simp: fold_chunks_ok_def dict_append_def cell_key_def)
  show "cell_at chunks' = (cell_at chunks)(rc \<mapsto> code)"
  proof
    fix x
    obtain k' cell' where key': "cell_key (fst x) (snd x) = (k', cell')" by fastforce
    have "x = rc \<longleftrightarrow> k = k' \<and> cell = cell'"
      using key key' cell_key_inject [of "fst x" "snd x" "fst rc" "snd rc"] by (auto simp: prod_eq_iff)
    then show "cell_at chunks' x = ((cell_at chunks)(rc \<mapsto> code)) x"
      using key key' by (auto simp: cell_at_def c')
  qed
qed

definition paint_payload :: "json dict \<Rightarrow> (int \<times> int \<rightharpoonup> int) \<Rightarrow> (int \<times> int \<rightharpoonup> int)" where
  "paint_payload payload m =
     (case paint_class payload of
        None \<Rightarrow> m
      | Some code \<Rightarrow> (\<lambda>rc. if rc \<in> set (paint_cells payload) then Some code else m rc))"

definition paint_step :: "operation \<Rightarrow> (int \<times> int \<rightharpoonup> int) \<Rightarrow> (int \<times> int \<rightharpoonup> int)" where
  "paint_step op = paint_payload (mapping (op_payload op))"

lemma paint_fold_spec:
  assumes "chunks_ok chunks" "fold_chunks_ok fo"
    "fold (paint_cell code op) cells (chunks, fo) = (chunks', fo')"
  shows "chunks_ok chunks' \<and> fold_chunks_ok fo' \<and>
    cell_at chunks' = (\<lambda>rc. if rc \<in> set cells then Some code else cell_at chunks rc)"
  using assms
proof (induction cells arbitrary: chunks fo)
  case (Cons rc cells)
  obtain c f where step: "paint_cell code op rc (chunks, fo) = (c, f)" by fastforce
  note s = paint_cell_spec [OF Cons.prems(1,2) step]
  have "fold (paint_cell code op) cells (c, f) = (chunks', fo')" using Cons.prems(3) step by simp
  from Cons.IH [OF s(1,2) this] show ?case by (auto simp: s(3) fun_eq_iff)
qed simp

lemma fold_paint_spec:
  assumes "chunks_ok chunks" "fold_chunks_ok fo" "fold_paint chunks op fo = (chunks', fo')"
  shows "chunks_ok chunks'" "fold_chunks_ok fo'" "cell_at chunks' = paint_step op (cell_at chunks)"
  using assms paint_fold_spec [of chunks fo]
  by (fastforce simp: fold_paint_def paint_step_def paint_payload_def Let_def split: option.splits)+

lemma paint_step_dom: "dom m \<subseteq> dom (paint_step op m)"
  by (auto simp: paint_step_def paint_payload_def split: option.splits)

section \<open>The land-cover delta\<close>

lemma chunks_keyed:
  assumes "chunks_ok chunks"
  shows "\<exists>keyed. with_keys chunk_sort_key chunks = Inr keyed \<and> map snd keyed = chunks"
proof -
  let ?g = "\<lambda>(k, v). (case pair_of_key k of Inr rc \<Rightarrow> rc | Inl _ \<Rightarrow> undefined, k, v)"
  have "with_keys chunk_sort_key chunks = Inr (map ?g chunks)"
    unfolding with_keys_def
  proof (rule traverse_total)
    fix x assume x: "x \<in> set chunks"
    obtain k v where kv: "x = (k, v)" by fastforce
    with x assms have "\<exists>a b. k = pair_key a b" by (force simp: chunks_ok_def dom_map_of_conv_image_fst)
    then show "(case x of (k, v) \<Rightarrow> case chunk_sort_key k of Inl e \<Rightarrow> Inl e | Inr rc \<Rightarrow> Inr (rc, k, v)) = Inr (?g x)"
      by (auto simp: kv chunk_sort_key_def)
  qed
  then show ?thesis by (auto simp: comp_def case_prod_unfold)
qed

text \<open>Cells of a well-formed bucket carry their coordinates as sort keys.\<close>

lemma cells_keyed:
  assumes "bucket_ok chunk b" "set diff \<subseteq> set b"
  shows "\<exists>keyed. with_keys cell_sort_key diff = Inr keyed \<and> map snd keyed = diff \<and>
    (\<forall>x\<in>set keyed. cell_key (fst (fst x)) (snd (fst x)) = (chunk, fst (snd x)))"
proof -
  let ?g = "\<lambda>(k, v). (case pair_of_key k of Inr rc \<Rightarrow> rc | Inl _ \<Rightarrow> undefined, k, v)"
  have key: "\<exists>r c. cell_key r c = (chunk, fst x) \<and> pair_of_key (fst x) = Inr (r, c)"
    if "x \<in> set diff" for x
  proof -
    have "fst x \<in> dom (map_of b)" using that assms(2) by (auto simp: dom_map_of_conv_image_fst)
    then obtain r c where "cell_key r c = (chunk, fst x)" using assms(1) unfolding bucket_ok_def by blast
    moreover from this have "fst x = pair_key r c" using snd_cell_key [of r c] by simp
    ultimately show ?thesis by auto
  qed
  have "with_keys cell_sort_key diff = Inr (map ?g diff)"
    unfolding with_keys_def
    by (rule traverse_total) (use key in \<open>fastforce simp: cell_sort_key_def\<close>)
  moreover have "\<forall>x\<in>set (map ?g diff). cell_key (fst (fst x)) (snd (fst x)) = (chunk, fst (snd x))"
    using key by fastforce
  ultimately show ?thesis by (auto simp: comp_def case_prod_unfold)
qed

text \<open>An entry of \<open>by_class\<close> lists exactly the cells that carry its class.\<close>

lemma dict_append_get:
  "dict_get (dict_append d k x) k' [] = (if k' = k then dict_get d k [] @ [x] else dict_get d k' [])"
  by (simp add: dict_append_def)

lemma by_class_get:
  "rc \<in> set (dict_get (by_class cells) code []) \<longleftrightarrow> (\<exists>k. (rc, k, code) \<in> set cells)"
proof -
  have "rc \<in> set (dict_get (fold (\<lambda>(rc, _, code) d. dict_append d code rc) xs d) code []) \<longleftrightarrow>
      rc \<in> set (dict_get d code []) \<or> (\<exists>k. (rc, k, code) \<in> set xs)"
    for xs :: "((int \<times> int) \<times> string \<times> int) list" and d
    by (induction xs arbitrary: d) (auto simp: dict_append_get split: if_splits)
  from this [of "sort_key fst cells" "[]"] show ?thesis
    by (simp add: by_class_def dict_get_def)
qed

lemma by_class_distinct: "distinct (dict_keys (by_class cells))"
proof -
  have "distinct (dict_keys d) \<Longrightarrow>
      distinct (dict_keys (fold (\<lambda>(rc, _, code) d. dict_append d code rc) xs d))"
    for xs :: "((int \<times> int) \<times> string \<times> int) list" and d
    by (induction xs arbitrary: d) (auto simp: dict_append_def)
  then show ?thesis by (simp add: by_class_def)
qed

lemma by_class_mem: "e \<in> set (by_class cells) \<longleftrightarrow> map_of (by_class cells) (fst e) = Some (snd e)"
  using by_class_distinct [of cells] by (simp add: map_of_eq_Some_iff)

lemma by_class_nonempty: "e \<in> set (by_class cells) \<Longrightarrow> snd e \<noteq> []"
proof -
  have "\<forall>c. map_of d c \<noteq> Some [] \<Longrightarrow>
      \<forall>c. map_of (fold (\<lambda>(rc, _, code) d. dict_append d code rc) xs d) c \<noteq> Some []"
    for xs :: "((int \<times> int) \<times> string \<times> int) list" and d
    by (induction xs arbitrary: d) (auto simp: dict_append_def)
  from this [of "[]" "sort_key fst cells"]
  have "map_of (by_class cells) c \<noteq> Some []" for c by (simp add: by_class_def)
  then show "e \<in> set (by_class cells) \<Longrightarrow> ?thesis" by (auto simp: by_class_mem)
qed

lemma by_class_entry:
  "(\<exists>cs. (code, cs) \<in> set (by_class cells) \<and> rc \<in> set cs) \<longleftrightarrow> (\<exists>k. (rc, k, code) \<in> set cells)"
proof -
  have "(\<exists>cs. (code, cs) \<in> set (by_class cells) \<and> rc \<in> set cs) \<longleftrightarrow>
      rc \<in> set (dict_get (by_class cells) code [])"
    by (cases "map_of (by_class cells) code") (simp_all add: by_class_mem dict_get_def)
  then show ?thesis by (simp add: by_class_get)
qed

section \<open>Replaying the delta\<close>

text \<open>A paint command read back as the payload of a paint operation.\<close>

definition command_payload :: "command \<Rightarrow> json dict" where
  "command_payload c = [(''target'', cmd_target c), (''values'', JObj (cmd_values c))]"

definition replay_paint :: "command list \<Rightarrow> (int \<times> int \<rightharpoonup> int) \<Rightarrow> (int \<times> int \<rightharpoonup> int)" where
  "replay_paint commands = fold (\<lambda>c. paint_payload (command_payload c)) commands"

lemma paint_payload_command:
  "paint_payload (command_payload (paint_command family chunk (code, cells))) m =
     (\<lambda>rc. if rc \<in> set cells then Some code else m rc)"
proof -
  let ?p = "command_payload (paint_command family chunk (code, cells))"
  have "paint_class ?p = Some code"
    by (simp add: paint_class_def command_payload_def paint_command_def is_index_def
        opt_mapping_def mapping_def)
  moreover have "concat (map cell_item (map (\<lambda>(row, col). JArr [JInt row, JInt col]) cells)) = cells"
    by (induction cells) auto
  then have "listed_cells ?p = cells"
    by (simp add: listed_cells_def command_payload_def paint_command_def opt_mapping_def mapping_def)
  then have "set (paint_cells ?p) = set cells"
    by (simp add: paint_cells_def paint_window_def command_payload_def paint_command_def)
  ultimately show ?thesis by (simp add: paint_payload_def)
qed

text \<open>Painting a list of class entries, no two of which give one cell different classes.\<close>

lemma replay_entries:
  assumes "\<forall>e\<in>set es. rc \<in> set (snd (snd e)) \<longrightarrow> fst (snd e) = code"
  shows "replay_paint (map (\<lambda>(chunk, e). paint_command family chunk e) es) m rc =
    (if \<exists>e\<in>set es. rc \<in> set (snd (snd e)) then Some code else m rc)"
  using assms
proof (induction es arbitrary: m)
  case (Cons e es)
  obtain chunk c cells where "e = (chunk, c, cells)" by (metis prod.exhaust)
  then show ?case
    using Cons.IH [of "\<lambda>rc. if rc \<in> set cells then Some c else m rc"] Cons.prems
    by (auto simp: replay_paint_def paint_payload_command)
qed (simp add: replay_paint_def)

lemma chunk_commands_spec:
  assumes ok: "bucket_ok k cells"
  shows "\<exists>n es. chunk_commands family base (k, cells) = Inr (n, map (paint_command family k) es) \<and>
    (\<forall>e\<in>set es. snd e \<noteq> []) \<and>
    (\<forall>rc code. (\<exists>cs. (code, cs) \<in> set es \<and> rc \<in> set cs) \<longleftrightarrow>
       (\<exists>cell. cell_key (fst rc) (snd rc) = (k, cell) \<and> map_of cells cell = Some code \<and>
          map_of (dict_get base k []) cell \<noteq> Some code))"
proof -
  let ?diff = "cell_diff (dict_get base k []) cells"
  obtain keyed where keyed: "with_keys cell_sort_key ?diff = Inr keyed" "map snd keyed = ?diff"
    "\<forall>x\<in>set keyed. cell_key (fst (fst x)) (snd (fst x)) = (k, fst (snd x))"
    using cells_keyed [OF ok, of ?diff] by (auto simp: cell_diff_def)
  have diff: "(cell, code) \<in> set ?diff \<longleftrightarrow>
      map_of cells cell = Some code \<and> map_of (dict_get base k []) cell \<noteq> Some code" for cell code
    using ok by (auto simp: cell_diff_def bucket_ok_def map_of_eq_Some_iff)
  have mem: "(rc, cell, code) \<in> set keyed \<longleftrightarrow>
      cell_key (fst rc) (snd rc) = (k, cell) \<and> (cell, code) \<in> set ?diff" for rc cell code
  proof
    assume x: "(rc, cell, code) \<in> set keyed"
    then have "snd (rc, cell, code) \<in> set (map snd keyed)" by (simp add: rev_image_eqI)
    then show "cell_key (fst rc) (snd rc) = (k, cell) \<and> (cell, code) \<in> set ?diff"
      using keyed(2,3) x by force
  next
    assume a: "cell_key (fst rc) (snd rc) = (k, cell) \<and> (cell, code) \<in> set ?diff"
    then obtain rc' where rc': "(rc', cell, code) \<in> set keyed" by (auto simp flip: keyed(2))
    then have "cell_key (fst rc') (snd rc') = cell_key (fst rc) (snd rc)" using keyed(3) a by force
    then have "rc' = rc" using cell_key_inject by (metis prod.collapse)
    then show "(rc, cell, code) \<in> set keyed" using rc' by simp
  qed
  let ?es = "sort_key fst (by_class keyed)"
  have "chunk_commands family base (k, cells) =
      Inr (int (length ?diff), map (paint_command family k) ?es)"
    using keyed(1) by (simp add: chunk_commands_def)
  moreover have "\<forall>e\<in>set ?es. snd e \<noteq> []" using by_class_nonempty by simp
  moreover have "(\<exists>cs. (code, cs) \<in> set ?es \<and> rc \<in> set cs) \<longleftrightarrow>
      (\<exists>cell. cell_key (fst rc) (snd rc) = (k, cell) \<and> map_of cells cell = Some code \<and>
          map_of (dict_get base k []) cell \<noteq> Some code)" for rc code
    using by_class_entry [of code keyed rc] by (simp add: mem diff)
  ultimately show ?thesis by blast
qed

text \<open>The cells whose final class differs from the baseline class.\<close>

definition repainted :: "int dict dict \<Rightarrow> int dict dict \<Rightarrow> int \<times> int \<Rightarrow> int \<Rightarrow> bool" where
  "repainted base final rc code \<longleftrightarrow> cell_at final rc = Some code \<and> cell_at base rc \<noteq> Some code"

lemma traverse_chunk_commands:
  assumes "distinct (dict_keys kvs)" "\<forall>kv\<in>set kvs. bucket_ok (fst kv) (snd kv)"
  shows "\<exists>per es. traverse (chunk_commands family base) kvs = Inr per \<and>
    concat (map snd per) = map (\<lambda>(chunk, e). paint_command family chunk e) es \<and>
    (\<forall>e\<in>set es. snd (snd e) \<noteq> []) \<and>
    (\<forall>rc code. (\<exists>e\<in>set es. fst (snd e) = code \<and> rc \<in> set (snd (snd e))) \<longleftrightarrow>
       repainted base kvs rc code)"
  using assms
proof (induction kvs)
  case Nil
  then show ?case by (simp add: repainted_def cell_at_def dict_get_def Let_def case_prod_unfold)
next
  case (Cons kv kvs)
  obtain k cells where kv: "kv = (k, cells)" by fastforce
  obtain per es where ih: "traverse (chunk_commands family base) kvs = Inr per"
    "concat (map snd per) = map (\<lambda>(chunk, e). paint_command family chunk e) es"
    "\<forall>e\<in>set es. snd (snd e) \<noteq> []"
    "\<And>rc code. (\<exists>e\<in>set es. fst (snd e) = code \<and> rc \<in> set (snd (snd e))) \<longleftrightarrow>
       repainted base kvs rc code"
    using Cons by auto
  obtain n es' where hd: "chunk_commands family base (k, cells) =
      Inr (n, map (paint_command family k) es')" "\<forall>e\<in>set es'. snd e \<noteq> []"
    "\<And>rc code. (\<exists>cs. (code, cs) \<in> set es' \<and> rc \<in> set cs) \<longleftrightarrow>
       (\<exists>cell. cell_key (fst rc) (snd rc) = (k, cell) \<and> map_of cells cell = Some code \<and>
          map_of (dict_get base k []) cell \<noteq> Some code)"
    using chunk_commands_spec [of k cells family base] Cons.prems(2) kv by auto
  let ?es = "map (Pair k) es' @ es"
  have "map_of kvs k = None" using Cons.prems(1) kv by (simp add: map_of_eq_None_iff)
  then have "repainted base (kv # kvs) rc code \<longleftrightarrow>
      (\<exists>cell. cell_key (fst rc) (snd rc) = (k, cell) \<and> map_of cells cell = Some code \<and>
          map_of (dict_get base k []) cell \<noteq> Some code) \<or> repainted base kvs rc code" for rc code
    by (auto simp: repainted_def cell_at_def kv dict_get_def split: prod.splits)
  moreover have "(\<exists>e\<in>set ?es. fst (snd e) = code \<and> rc \<in> set (snd (snd e))) \<longleftrightarrow>
      (\<exists>cs. (code, cs) \<in> set es' \<and> rc \<in> set cs) \<or> repainted base kvs rc code" for rc code
    unfolding set_append bex_Un ih(4) by force
  ultimately have "\<forall>rc code. (\<exists>e\<in>set ?es. fst (snd e) = code \<and> rc \<in> set (snd (snd e))) \<longleftrightarrow>
      repainted base (kv # kvs) rc code" by (simp add: hd(3))
  moreover have "traverse (chunk_commands family base) (kv # kvs) =
      Inr ((n, map (paint_command family k) es') # per)" using ih(1) hd(1) kv by simp
  moreover have "concat (map snd ((n, map (paint_command family k) es') # per)) =
      map (\<lambda>(chunk, e). paint_command family chunk e) ?es" by (simp add: ih(2) comp_def)
  moreover have "\<forall>e\<in>set ?es. snd (snd e) \<noteq> []" using ih(3) hd(2) by auto
  ultimately show ?case by blast
qed

lemma landcover_delta_spec:
  assumes ok: "chunks_ok (st_chunks final)"
    and dom: "dom (cell_at (st_chunks base)) \<subseteq> dom (cell_at (st_chunks final))"
  shows "\<exists>d. landcover_delta family base final = Inr d \<and>
    replay_paint (fd_commands d) (cell_at (st_chunks base)) = cell_at (st_chunks final) \<and>
    (fd_is_noop d \<longleftrightarrow> cell_at (st_chunks base) = cell_at (st_chunks final))"
proof -
  let ?b = "st_chunks base" and ?f = "st_chunks final"
  obtain keyed where keyed: "with_keys chunk_sort_key ?f = Inr keyed" "map snd keyed = ?f"
    using chunks_keyed [OF ok] by blast
  let ?kvs = "map snd (sort_key fst keyed)"
  have mset: "mset ?kvs = mset ?f" by (simp flip: keyed(2))
  then have set: "set ?kvs = set ?f" by (metis set_mset_mset)
  have dist: "distinct (dict_keys ?f)" using ok by (simp add: chunks_ok_def)
  then have dist': "distinct (dict_keys ?kvs)" 
    using mset_eq_imp_distinct_iff [OF arg_cong [OF mset, of "image_mset fst", folded mset_map]]
    by blast
  have "map_of ?kvs = map_of ?f" using map_of_inject_set [OF dist' dist] set by blast
  then have same: "cell_at ?kvs = cell_at ?f" by (simp add: cell_at_def dict_get_def fun_eq_iff)
  have "\<forall>kv\<in>set ?kvs. bucket_ok (fst kv) (snd kv)"
    using ok dist by (simp only: set) (simp add: chunks_ok_def map_of_eq_Some_iff)
  from traverse_chunk_commands [OF dist' this, of family ?b]
  obtain per es where es: "traverse (chunk_commands family ?b) ?kvs = Inr per"
    "concat (map snd per) = map (\<lambda>(chunk, e). paint_command family chunk e) es"
    "\<forall>e\<in>set es. snd (snd e) \<noteq> []"
    "\<forall>rc code. (\<exists>e\<in>set es. fst (snd e) = code \<and> rc \<in> set (snd (snd e))) \<longleftrightarrow>
       repainted ?b ?kvs rc code"
    by blast
  obtain d where d: "landcover_delta family base final = Inr d"
    "fd_commands d = map (\<lambda>(chunk, e). paint_command family chunk e) es"
    "fd_is_noop d \<longleftrightarrow> es = []"
    using keyed(1) es(1,2) by (simp add: landcover_delta_def)
  note rep = es(4) [unfolded repainted_def same, rule_format]
  have "replay_paint (fd_commands d) (cell_at ?b) rc = cell_at ?f rc" for rc
  proof (cases "cell_at ?f rc")
    case None
    then have "\<forall>e\<in>set es. rc \<notin> set (snd (snd e))" using rep [of _ rc] by (metis option.distinct(1))
    moreover have "cell_at ?b rc = None" using dom None by blast
    ultimately show ?thesis using None by (simp add: d(2) replay_entries)
  next
    case (Some code)
    then have "\<forall>e\<in>set es. rc \<in> set (snd (snd e)) \<longrightarrow> fst (snd e) = code" using rep [of _ rc] by (metis option.inject)
    from replay_entries [OF this] show ?thesis using Some rep [of code rc] d(2) by metis
  qed
  then have "replay_paint (fd_commands d) (cell_at ?b) = cell_at ?f" by blast
  moreover have "es = []" if "cell_at ?b = cell_at ?f"
  proof (rule ccontr)
    assume "es \<noteq> []"
    then obtain rc where "rc \<in> set (snd (snd (hd es)))" using es(3) by (metis hd_in_set last_in_set)
    then have "\<exists>e\<in>set es. fst (snd e) = fst (snd (hd es)) \<and> rc \<in> set (snd (snd e))"
      using \<open>es \<noteq> []\<close> hd_in_set by blast
    then show False using that by (simp add: rep)
  qed
  moreover have "cell_at ?b = cell_at ?f" if "es = []"
    using that calculation(1) by (simp add: d(2) replay_paint_def)
  ultimately show ?thesis using d by blast
qed

end
