(* ===== verification/Reducer_Segments.thy ===== *)
theory Reducer_Segments
  imports Reducer
begin

text \<open>
  The segment families of the reducer. A field denotes a partial function from timesteps to
  values; an operation overwrites that function on the range it names. The bookkeeping of
  segment owners is shared by all segment families of an epoch and keyed by the field name
  alone, so the invariant asks that each field written in the epoch has one home family.
\<close>

section \<open>What one operation writes\<close>

definition seg_bounds :: "string \<Rightarrow> operation \<Rightarrow> (int \<times> int option) option" where
  "seg_bounds family op =
     (if family = ''selected_date_time'' then Some (0, None)
      else time_bounds (mapping (op_payload op)))"

definition seg_writes :: "operation \<Rightarrow> string set" where
  "seg_writes op = set (dict_keys (item_values (mapping (op_payload op))))"

definition seg_step :: "string \<Rightarrow> operation \<Rightarrow> string \<Rightarrow> int \<Rightarrow> json option \<Rightarrow> json option" where
  "seg_step family op field t v =
     (case seg_bounds family op of
        None \<Rightarrow> v
      | Some (s, e) \<Rightarrow>
          if field \<in> seg_writes op \<and> covers t (s, e, JNull)
          then map_of (item_values (mapping (op_payload op))) field else v)"

definition writes_exactly :: "string \<Rightarrow> operation \<Rightarrow> bool" where
  "writes_exactly family op \<longleftrightarrow>
     (case seg_bounds family op of None \<Rightarrow> True | Some (s, e) \<Rightarrow> insertable s e)"

section \<open>Alignment of segments and owners\<close>

definition aligned :: "segment list dict \<Rightarrow> operation option list dict \<Rightarrow> string \<Rightarrow> bool" where
  "aligned segs owners field \<longleftrightarrow>
     (case map_of owners field of
        None \<Rightarrow> True | Some os \<Rightarrow> length os = length (dict_get segs field []))"

definition all_segs_ok :: "segment list dict \<Rightarrow> bool" where
  "all_segs_ok segs \<longleftrightarrow> (\<forall>field. segs_ok (dict_get segs field []) \<and> canonical (dict_get segs field []))"

lemma insert_segment_field:
  assumes "insertable s e" "segs_ok (dict_get segs field [])" "aligned segs owners field"
    and ins: "insert_segment family segs owners field s e v op cf = (segs', owners', cf')"
  shows "segs_ok (dict_get segs' field [])" "canonical (dict_get segs' field [])"
    "opt_eq (seg_at (dict_get segs' field []) t)
       (if covers t (s, e, v) then Some v else seg_at (dict_get segs field []) t)"
    "aligned segs' owners' field"
proof -
  let ?old = "dict_get segs field []"
  let ?zs = "zip ?old (dict_get owners field (replicate (length ?old) None))"
  let ?m = "insert_owned s e v op ?zs"
  have segs': "segs' = AList.update field (map fst ?m) segs"
    and owners': "owners' = AList.update field (map snd ?m) owners"
    using ins by (simp_all add: insert_segment_def Let_def)
  have zs: "map fst ?zs = ?old"
    using assms(3) by (auto simp: aligned_def dict_get_def split: option.splits)
  then have ok: "segs_ok (map fst ?zs)" using assms(2) by simp
  show "segs_ok (dict_get segs' field [])" "canonical (dict_get segs' field [])"
    using insert_owned_ok [OF assms(1) ok] insert_owned_canonical [OF assms(1) ok] by (simp_all add: segs')
  show "opt_eq (seg_at (dict_get segs' field []) t)
       (if covers t (s, e, v) then Some v else seg_at ?old t)"
    using insert_owned_at [OF assms(1) ok, of v op t, unfolded zs] by (simp add: segs' zs)
  show "aligned segs' owners' field" by (simp add: aligned_def segs' owners')
qed

lemma insert_segment_spec:
  assumes "insertable s e" "all_segs_ok segs" "aligned segs owners field"
    and ins: "insert_segment family segs owners field s e v op cf = (segs', owners', cf')"
  shows "all_segs_ok segs'" "aligned segs' owners' field"
    "opt_eq (seg_at (dict_get segs' field []) t)
       (if covers t (s, e, v) then Some v else seg_at (dict_get segs field []) t)"
    "f \<noteq> field \<Longrightarrow> dict_get segs' f [] = dict_get segs f []"
    "f \<noteq> field \<Longrightarrow> map_of owners' f = map_of owners f"
proof -
  have "segs_ok (dict_get segs field [])" using assms(2) by (simp add: all_segs_ok_def)
  note f = insert_segment_field [OF assms(1) this assms(3) ins]
  show other: "f \<noteq> field \<Longrightarrow> dict_get segs' f [] = dict_get segs f []" for f
    using ins by (auto simp: insert_segment_def Let_def)
  show "f \<noteq> field \<Longrightarrow> map_of owners' f = map_of owners f"
    using ins by (auto simp: insert_segment_def Let_def)
  show "all_segs_ok segs'"
    unfolding all_segs_ok_def
  proof
    fix g show "segs_ok (dict_get segs' g []) \<and> canonical (dict_get segs' g [])"
      using f(1,2) other [of g] assms(2) by (cases "g = field") (auto simp: all_segs_ok_def)
  qed
  show "aligned segs' owners' field"
    "opt_eq (seg_at (dict_get segs' field []) t)
       (if covers t (s, e, v) then Some v else seg_at (dict_get segs field []) t)" using f by blast+
qed

lemma aligned_frame:
  "dict_get segs' f [] = dict_get segs f [] \<Longrightarrow> map_of owners' f = map_of owners f \<Longrightarrow>
   aligned segs owners f \<Longrightarrow> aligned segs' owners' f"
  by (simp add: aligned_def split: option.splits)

definition insert_fields ::
  "string \<Rightarrow> int \<Rightarrow> int option \<Rightarrow> json dict \<Rightarrow> operation \<Rightarrow> string list \<Rightarrow>
   segment list dict \<times> operation option list dict \<times> conflict_record list \<Rightarrow>
   segment list dict \<times> operation option list dict \<times> conflict_record list" where
  "insert_fields family s e values op =
     fold (\<lambda>field (segs, owners, conflicts).
       insert_segment family segs owners field s e (dict_get values field JNull) op conflicts)"

lemma fold_segments_eq:
  "fold_segments family segs op fo =
     (case seg_bounds family op of
        None \<Rightarrow> (segs, fo)
      | Some (s, e) \<Rightarrow>
          (let v = item_values (mapping (op_payload op));
               (segs', ow, cf) = insert_fields family s e v op (sort (dict_keys v))
                 (segs, fo_segment_owners fo, fo_conflicts fo)
           in (segs', fo\<lparr>fo_segment_owners := ow, fo_conflicts := cf\<rparr>)))"
  by (simp only: fold_segments_def seg_bounds_def insert_fields_def Let_def)

lemma insert_fields_spec:
  assumes "insertable s e" "all_segs_ok segs" "\<forall>f. f \<in> set fs \<or> g f \<longrightarrow> aligned segs owners f"
    and "insert_fields family s e values op fs (segs, owners, cf) = (segs', owners', cf')"
  shows "all_segs_ok segs' \<and> (\<forall>f. f \<in> set fs \<or> g f \<longrightarrow> aligned segs' owners' f) \<and>
    (\<forall>f t. opt_eq (seg_at (dict_get segs' f []) t)
       (if f \<in> set fs \<and> covers t (s, e, JNull) then Some (dict_get values f JNull)
        else seg_at (dict_get segs f []) t)) \<and>
    (\<forall>f. f \<notin> set fs \<longrightarrow> dict_get segs' f [] = dict_get segs f [] \<and> map_of owners' f = map_of owners f)"
  using assms(2-)
proof (induction fs arbitrary: segs owners cf g)
  case Nil
  then show ?case by (simp add: insert_fields_def)
next
  case (Cons x fs)
  obtain sg ow c where step: "insert_segment family segs owners x s e (dict_get values x JNull) op cf
      = (sg, ow, c)" by (metis prod.exhaust)
  have "aligned segs owners x" using Cons.prems(2) by simp
  note i = insert_segment_spec [OF assms(1) Cons.prems(1) this step]
  have "\<forall>f. f \<in> set fs \<or> (f = x \<or> g f) \<longrightarrow> aligned sg ow f"
  proof (intro allI impI)
    fix f assume "f \<in> set fs \<or> (f = x \<or> g f)"
    then show "aligned sg ow f"
      using Cons.prems(2) i(2) aligned_frame [OF i(4,5), of f] by (cases "f = x") auto
  qed
  moreover have "insert_fields family s e values op fs (sg, ow, c) = (segs', owners', cf')"
    using Cons.prems(3) step by (simp add: insert_fields_def)
  ultimately have ih: "all_segs_ok segs'" "\<forall>f. f \<in> set fs \<or> (f = x \<or> g f) \<longrightarrow> aligned segs' owners' f"
    "\<And>f t. opt_eq (seg_at (dict_get segs' f []) t)
       (if f \<in> set fs \<and> covers t (s, e, JNull) then Some (dict_get values f JNull)
        else seg_at (dict_get sg f []) t)"
    "\<forall>f. f \<notin> set fs \<longrightarrow> dict_get segs' f [] = dict_get sg f [] \<and> map_of owners' f = map_of ow f"
    using Cons.IH [OF i(1), of "\<lambda>f. f = x \<or> g f" ow c] by blast+
  have "opt_eq (seg_at (dict_get segs' f []) t)
      (if f \<in> set (x # fs) \<and> covers t (s, e, JNull) then Some (dict_get values f JNull)
       else seg_at (dict_get segs f []) t)" for f t
  proof (cases "f = x \<and> f \<notin> set fs")
    case True
    then have "opt_eq (seg_at (dict_get segs' f []) t) (seg_at (dict_get sg f []) t)"
      using ih(3) [of f t] by (auto split: if_splits)
    from opt_eq_trans [OF this] show ?thesis using i(3) [of t] True by (auto simp: covers_def split: if_splits)
  next
    case False
    show ?thesis
    proof (cases "f = x \<and> \<not> covers t (s, e, JNull)")
      case x: True
      then have "opt_eq (seg_at (dict_get segs' f []) t) (seg_at (dict_get sg f []) t)"
        using ih(3) [of f t] by (auto split: if_splits)
      from opt_eq_trans [OF this] show ?thesis using i(3) [of t] x by (auto simp: covers_def split: if_splits)
    next
      case False': False
      then show ?thesis using ih(3) [of f t] i(4) [of f] False by (cases "f = x") auto
    qed
  qed
  moreover have "\<forall>f. f \<notin> set (x # fs) \<longrightarrow>
      dict_get segs' f [] = dict_get segs f [] \<and> map_of owners' f = map_of owners f"
    using ih(4) i(4,5) by simp
  moreover have "\<forall>f. f \<in> set (x # fs) \<or> g f \<longrightarrow> aligned segs' owners' f" using ih(2) by auto
  ultimately show ?case using ih(1) by blast
qed

lemma fold_segments_spec:
  assumes "writes_exactly family op" "all_segs_ok segs"
    "\<forall>f. f \<in> seg_writes op \<or> g f \<longrightarrow> aligned segs (fo_segment_owners fo) f"
    and fs: "fold_segments family segs op fo = (segs', fo')"
  shows "all_segs_ok segs'"
    "\<forall>f. f \<in> seg_writes op \<or> g f \<longrightarrow> aligned segs' (fo_segment_owners fo') f"
    "opt_eq (seg_at (dict_get segs' f []) t) (seg_step family op f t (seg_at (dict_get segs f []) t))"
    "f \<notin> seg_writes op \<Longrightarrow> map_of (fo_segment_owners fo') f = map_of (fo_segment_owners fo) f"
    "fo_chunk_ops fo' = fo_chunk_ops fo"
proof -
  let ?v = "item_values (mapping (op_payload op))"
  have "all_segs_ok segs' \<and>
    (\<forall>f. f \<in> seg_writes op \<or> g f \<longrightarrow> aligned segs' (fo_segment_owners fo') f) \<and>
    (\<forall>f t. opt_eq (seg_at (dict_get segs' f []) t)
       (seg_step family op f t (seg_at (dict_get segs f []) t))) \<and>
    (\<forall>f. f \<notin> seg_writes op \<longrightarrow> map_of (fo_segment_owners fo') f = map_of (fo_segment_owners fo) f) \<and>
    fo_chunk_ops fo' = fo_chunk_ops fo"
  proof (cases "seg_bounds family op")
    case None
    then have "segs' = segs" "fo' = fo"
      using fs by (auto simp: fold_segments_eq)
    then show ?thesis using assms None by (simp add: seg_step_def)
  next
    case (Some se)
    obtain s e where se: "se = (s, e)" by fastforce
    let ?fields = "sort (dict_keys ?v)"
    obtain ow cf where ins: "insert_fields family s e ?v op ?fields
        (segs, fo_segment_owners fo, fo_conflicts fo) = (segs', ow, cf)"
      and fo': "fo' = fo\<lparr>fo_segment_owners := ow, fo_conflicts := cf\<rparr>"
      using fs Some se
      by (auto simp: fold_segments_eq Let_def split: prod.splits)
    have set: "set ?fields = seg_writes op" by (simp add: seg_writes_def)
    have "insertable s e" using assms(1) Some se by (simp add: writes_exactly_def)
    note r = insert_fields_spec [OF this assms(2) _ ins, of g, unfolded set, OF assms(3)]
    have "dict_get ?v f JNull = v" if "map_of ?v f = Some v" for f v
      using that by (simp add: dict_get_def)
    moreover have "\<exists>v. map_of ?v f = Some v" if "f \<in> seg_writes op" for f
      using that by (metis seg_writes_def map_of_None_keys not_None_eq)
    ultimately have "Some (dict_get ?v f JNull) = map_of ?v f" if "f \<in> seg_writes op" for f
      using that by fastforce
    then have step: "seg_step family op f t x =
        (if f \<in> seg_writes op \<and> covers t (s, e, JNull) then Some (dict_get ?v f JNull) else x)" for f t x
      using Some se by (simp add: seg_step_def)
    show ?thesis using r unfolding step by (simp add: fo')
  qed
  then show "all_segs_ok segs'"
    "\<forall>f. f \<in> seg_writes op \<or> g f \<longrightarrow> aligned segs' (fo_segment_owners fo') f"
    "opt_eq (seg_at (dict_get segs' f []) t) (seg_step family op f t (seg_at (dict_get segs f []) t))"
    "f \<notin> seg_writes op \<Longrightarrow> map_of (fo_segment_owners fo') f = map_of (fo_segment_owners fo) f"
    "fo_chunk_ops fo' = fo_chunk_ops fo"
    by blast+
qed

end
