(* ===== verification/Reducer_Laws.thy ===== *)
theory Reducer_Laws
  imports Reducer_Objects Reducer_Paint Reducer_Segments
begin

text \<open>
  The laws of the whole reducer: it accepts every well-formed input without raising, keeps the
  canonical state well-formed, does not depend on the order in which operations are handed
  over, audits every operation, and implements the abstract per-family specifications.
\<close>

section \<open>Well-formed family states\<close>

definition family_ok :: "string \<Rightarrow> family_state \<Rightarrow> bool" where
  "family_ok family st \<longleftrightarrow>
     (if family \<in> set OBJECT_FAMILIES then \<exists>ob t. st = ObjectState ob t \<and> objects_ok (ob, t)
      else if family = ''landcover_surface'' then \<exists>c. st = PaintState c \<and> chunks_ok c
      else if family \<in> set SEGMENT_FAMILIES
      then \<exists>s. st = SegmentState s \<and> distinct (dict_keys s)
      else if family = ''output_view'' then \<exists>v p. st = ViewState v p
      else True)"

definition families_ok :: "family_state dict \<Rightarrow> bool" where
  "families_ok fams \<longleftrightarrow>
     distinct (dict_keys fams) \<and> (\<forall>f st. map_of fams f = Some st \<longrightarrow> family_ok f st)"

definition work_ok :: "family_state dict \<Rightarrow> bool" where
  "work_ok work \<longleftrightarrow> families_ok work \<and> (\<forall>f\<in>set ALL_FAMILIES. map_of work f \<noteq> None)"

definition operation_ok :: "operation \<Rightarrow> bool" where
  "operation_ok op \<longleftrightarrow> op_source_family op \<in> set ALL_FAMILIES \<and> keeps_generation op"

text \<open>The abstract content of a family dictionary.\<close>

definition life_in :: "family_state dict \<Rightarrow> string \<Rightarrow> string \<Rightarrow> life" where
  "life_in fams family e =
     (case map_of fams family of
        Some st \<Rightarrow> life_of (st_objects st, st_tombstones st) e | None \<Rightarrow> Unknown)"

definition cell_in :: "family_state dict \<Rightarrow> int \<times> int \<Rightarrow> int option" where
  "cell_in fams rc =
     (case map_of fams ''landcover_surface'' of Some st \<Rightarrow> cell_at (st_chunks st) rc | None \<Rightarrow> None)"

definition segments_in :: "family_state dict \<Rightarrow> string \<Rightarrow> string \<Rightarrow> segment list" where
  "segments_in fams family field =
     (case map_of fams family of Some st \<Rightarrow> dict_get (st_segments st) field [] | None \<Rightarrow> [])"

definition view_in :: "family_state dict \<Rightarrow> json dict" where
  "view_in fams = (case map_of fams ''output_view'' of Some st \<Rightarrow> st_view st | None \<Rightarrow> [])"

lemmas family_names = OBJECT_FAMILIES_def SEGMENT_FAMILIES_def ALL_FAMILIES_def

lemma family_ok_empty: "family_ok f (empty_family_state f)"
  by (auto simp: family_ok_def empty_family_state_def objects_ok_def chunks_ok_def)

lemma family_ok_cases:
  assumes "family_ok f st"
  obtains (object) ob t where "f \<in> set OBJECT_FAMILIES" "st = ObjectState ob t" "objects_ok (ob, t)"
    | (land) c where "f = ''landcover_surface''" "st = PaintState c" "chunks_ok c"
    | (segment) s where "f \<in> set SEGMENT_FAMILIES" "st = SegmentState s" "distinct (dict_keys s)"
    | (view) v p where "f = ''output_view''" "st = ViewState v p"
    | (other) "f \<notin> set ALL_FAMILIES"
proof -
  consider "f \<in> set OBJECT_FAMILIES"
    | "f \<notin> set OBJECT_FAMILIES" "f = ''landcover_surface''"
    | "f \<notin> set OBJECT_FAMILIES" "f \<noteq> ''landcover_surface''" "f \<in> set SEGMENT_FAMILIES"
    | "f \<notin> set OBJECT_FAMILIES" "f \<noteq> ''landcover_surface''" "f \<notin> set SEGMENT_FAMILIES"
      "f = ''output_view''"
    | "f \<notin> set ALL_FAMILIES"
    by (simp only: ALL_FAMILIES_def set_append Un_iff list.set empty_iff insert_iff) blast
  then show thesis
    using assms unfolding family_ok_def by cases (simp_all, (use object land segment view other in blast)+)
qed

section \<open>Copying the baseline\<close>

lemma objects_ok_sorted: "objects_ok (ob, t) \<Longrightarrow> objects_ok (sorted_items ob, t)"
  by (simp add: objects_ok_def)

lemma chunks_ok_sorted: "chunks_ok c \<Longrightarrow> chunks_ok (sorted_items c)"
  by (simp add: chunks_ok_def)

lemma family_ok_copy: "family_ok f st \<Longrightarrow> family_ok f (copy_family f st)"
  by (auto simp: family_ok_def copy_family_def objects_ok_sorted chunks_ok_sorted)

definition content_agrees :: "family_state \<Rightarrow> family_state \<Rightarrow> bool" where
  "content_agrees st st' \<longleftrightarrow>
     life_of (st_objects st, st_tombstones st) = life_of (st_objects st', st_tombstones st') \<and>
     cell_at (st_chunks st) = cell_at (st_chunks st') \<and>
     (\<forall>f. dict_get (st_segments st) f [] = dict_get (st_segments st') f []) \<and>
     st_view st = st_view st'"

lemma content_agrees_refl: "content_agrees st st"
  by (simp add: content_agrees_def)

lemma copy_content_agrees: "family_ok f st \<Longrightarrow> content_agrees (copy_family f st) st"
  by (erule family_ok_cases)
    (auto simp: content_agrees_def copy_family_def life_of_def cell_at_def dict_get_def objects_ok_def
      chunks_ok_def family_names fun_eq_iff split: option.split)

lemma fold_setdefault:
  "map_of (fold (\<lambda>f w. dict_setdefault w f (g f)) fs w) x =
     (case map_of w x of Some v \<Rightarrow> Some v | None \<Rightarrow> if x \<in> set fs then Some (g x) else None)"
  "distinct (dict_keys w) \<Longrightarrow> distinct (dict_keys (fold (\<lambda>f w. dict_setdefault w f (g f)) fs w))"
  by (induction fs arbitrary: w) (auto simp: dict_setdefault_def split: option.splits)

lemma map_of_copy_families:
  assumes "distinct (dict_keys fams)"
  shows "map_of (copy_families fams) f =
    (case map_of fams f of
       Some st \<Rightarrow> Some (copy_family f st)
     | None \<Rightarrow> if f \<in> set ALL_FAMILIES then Some (empty_family_state f) else None)"
proof -
  have "map_of (map (\<lambda>(f, st). (f, copy_family f st)) xs) f = map_option (copy_family f) (map_of xs f)"
    for xs by (induction xs) auto
  then show ?thesis
    using assms by (simp add: copy_families_def fold_setdefault split: option.splits)
qed

lemma copy_families_ok:
  assumes "families_ok fams"
  shows "work_ok (copy_families fams)"
proof -
  have d: "distinct (dict_keys fams)" using assms by (simp add: families_ok_def)
  have "dict_keys (map (\<lambda>(f, st). (f, copy_family f st)) xs) = dict_keys xs" for xs
    by (induction xs) auto
  then have "distinct (dict_keys (copy_families fams))"
    using d unfolding copy_families_def by (intro fold_setdefault(2)) (simp only: distinct_sorted_items)
  moreover have "map_of (copy_families fams) f = Some st \<Longrightarrow> family_ok f st" for f st
    using assms family_ok_copy family_ok_empty
    by (auto simp: families_ok_def map_of_copy_families [OF d] split: option.splits if_splits)
  moreover have "f \<in> set ALL_FAMILIES \<Longrightarrow> map_of (copy_families fams) f \<noteq> None" for f
    by (simp add: map_of_copy_families [OF d] split: option.splits)
  ultimately show ?thesis by (auto simp: work_ok_def families_ok_def)
qed

lemma empty_content:
  "life_of (st_objects (empty_family_state f), st_tombstones (empty_family_state f)) = (\<lambda>_. Unknown)"
  "cell_at (st_chunks (empty_family_state f)) = (\<lambda>_. None)"
  "dict_get (st_segments (empty_family_state f)) x [] = []"
  "st_view (empty_family_state f) = []"
  by (auto simp: empty_family_state_def life_of_def cell_at_def dict_get_def case_prod_unfold)

lemma copy_families_content:
  assumes "families_ok fams"
  shows "life_in (copy_families fams) = life_in fams" "cell_in (copy_families fams) = cell_in fams"
    "segments_in (copy_families fams) = segments_in fams" "view_in (copy_families fams) = view_in fams"
proof -
  note d = assms [unfolded families_ok_def, THEN conjunct1]
  have c: "content_agrees (copy_family f st) st" if "map_of fams f = Some st" for f st
    using assms that copy_content_agrees by (simp add: families_ok_def)
  show "life_in (copy_families fams) = life_in fams"
    by (auto simp: fun_eq_iff life_in_def map_of_copy_families [OF d] empty_content
        c [unfolded content_agrees_def] split: option.split)
  show "cell_in (copy_families fams) = cell_in fams"
    by (auto simp: fun_eq_iff cell_in_def map_of_copy_families [OF d] empty_content
        c [unfolded content_agrees_def] split: option.split)
  show "segments_in (copy_families fams) = segments_in fams"
    by (auto simp: fun_eq_iff segments_in_def map_of_copy_families [OF d] empty_content
        c [unfolded content_agrees_def] split: option.split)
  show "view_in (copy_families fams) = view_in fams"
    by (auto simp: view_in_def map_of_copy_families [OF d] empty_content
        c [unfolded content_agrees_def] split: option.split)
qed

section \<open>One operation\<close>

definition fold_frame :: "fold_state \<Rightarrow> fold_state \<Rightarrow> bool" where
  "fold_frame fo fo' \<longleftrightarrow>
     fo_chunk_ops fo' = fo_chunk_ops fo \<and> fo_segment_owners fo' = fo_segment_owners fo"

lemma fold_object_frame: "fold_object family st op fo = Inr (st', fo') \<Longrightarrow> fold_frame fo fo'"
  by (auto simp: fold_object_def fold_add_def fold_replace_def fold_delete_def write_fields_def
      fold_frame_def Let_def split: option.splits if_splits sum.splits prod.splits)

lemma fold_view_frame: "fold_view st op fo = (st', fo') \<Longrightarrow> fold_frame fo fo'"
  by (auto simp: fold_view_def fold_frame_def Let_def split: if_splits prod.splits)

lemma fold_paint_owners:
  "fold_paint chunks op fo = (c, fo') \<Longrightarrow> fo_segment_owners fo' = fo_segment_owners fo"
proof -
  have "fo_segment_owners (snd (fold (paint_cell code op) cells (chunks, fo))) = fo_segment_owners fo"
    for code cells
  proof (induction cells arbitrary: chunks fo)
    case (Cons x xs)
    obtain c f where "paint_cell code op x (chunks, fo) = (c, f)" by fastforce
    moreover from this have "fo_segment_owners f = fo_segment_owners fo"
      by (auto simp: paint_cell_def split: prod.splits)
    ultimately show ?case using Cons [of c f] by simp
  qed simp
  then show "fold_paint chunks op fo = (c, fo') \<Longrightarrow> ?thesis"
    by (auto simp: fold_paint_def Let_def split: option.splits) (metis snd_conv)
qed

lemma insert_fields_distinct:
  "insert_fields family s e v op fs (segs, ow, cf) = (segs', ow', cf') \<Longrightarrow>
   distinct (dict_keys segs) \<Longrightarrow> distinct (dict_keys segs')"
proof (induction fs arbitrary: segs ow cf)
  case (Cons f fs)
  obtain a b c where step: "insert_segment family segs ow f s e (dict_get v f JNull) op cf = (a, b, c)"
    by (metis prod.exhaust)
  then have "distinct (dict_keys a)"
    using Cons.prems(2) by (auto simp: insert_segment_def Let_def)
  with Cons.IH [of a b c] Cons.prems(1) show ?case by (simp add: step insert_fields_def)
qed (simp add: insert_fields_def)

lemma fold_segments_frame:
  assumes "fold_segments family segs op fo = (segs', fo')"
  shows "fo_chunk_ops fo' = fo_chunk_ops fo" "distinct (dict_keys segs) \<Longrightarrow> distinct (dict_keys segs')"
  using assms insert_fields_distinct
  by (auto simp: fold_segments_eq Let_def split: option.splits prod.splits)

text \<open>The content of the operation's own family after one step.\<close>

definition family_step :: "operation \<Rightarrow> fold_state \<Rightarrow> family_state \<Rightarrow> fold_state \<Rightarrow> family_state \<Rightarrow> bool" where
  "family_step op fo st fo' st' \<longleftrightarrow>
     (let family = op_source_family op in
      (family \<in> set OBJECT_FAMILIES \<longrightarrow>
         life_of (st_objects st', st_tombstones st') =
           (\<lambda>e. life_step family op e (life_of (st_objects st, st_tombstones st) e))) \<and>
      (family = ''landcover_surface'' \<longrightarrow>
         cell_at (st_chunks st') =
           (if op_verb op = ''paint'' then paint_step op (cell_at (st_chunks st))
            else cell_at (st_chunks st))) \<and>
      (family \<in> set SEGMENT_FAMILIES \<longrightarrow>
         (if op_verb op \<in> {''set'', ''select'', ''update''}
          then fold_segments family (st_segments st) op fo = (st_segments st', fo')
          else st' = st \<and> fo' = fo)) \<and>
      (family = ''output_view'' \<longrightarrow>
         (if op_verb op = ''select''
          then fold_view (st_view st, st_per_user st) op fo = ((st_view st', st_per_user st'), fo')
          else st' = st)))"

lemma work_ok_update:
  "work_ok work \<Longrightarrow> family_ok f st \<Longrightarrow> work_ok (AList.update f st work)"
  by (auto simp: work_ok_def families_ok_def)

lemma families_disjoint:
  "f \<in> set OBJECT_FAMILIES \<Longrightarrow>
     f \<noteq> ''landcover_surface'' \<and> f \<notin> set SEGMENT_FAMILIES \<and> f \<noteq> ''output_view''"
  "f \<in> set SEGMENT_FAMILIES \<Longrightarrow>
     f \<notin> set OBJECT_FAMILIES \<and> f \<noteq> ''landcover_surface'' \<and> f \<noteq> ''output_view''"
  "''landcover_surface'' \<notin> set OBJECT_FAMILIES" "''landcover_surface'' \<notin> set SEGMENT_FAMILIES"
  "''output_view'' \<notin> set OBJECT_FAMILIES" "''output_view'' \<notin> set SEGMENT_FAMILIES"
  by (auto simp: OBJECT_FAMILIES_def SEGMENT_FAMILIES_def)

definition op_effect :: "family_state dict \<times> fold_state \<Rightarrow> operation \<Rightarrow> family_state dict \<times> fold_state \<Rightarrow> bool"
  where
  "op_effect wk op wk' \<longleftrightarrow>
     work_ok (fst wk') \<and> fold_chunks_ok (snd wk') \<and>
     (\<exists>st st'. map_of (fst wk) (op_source_family op) = Some st \<and>
        map_of (fst wk') = (map_of (fst wk))(op_source_family op \<mapsto> st') \<and>
        family_step op (snd wk) st (snd wk') st') \<and>
     (op_source_family op \<notin> set SEGMENT_FAMILIES \<longrightarrow>
        fo_segment_owners (snd wk') = fo_segment_owners (snd wk))"

lemma op_effect_update:
  assumes "work_ok work" "map_of work (op_source_family op) = Some st"
    "family_ok (op_source_family op) st'" "fold_chunks_ok fo'" "family_step op fo st fo' st'"
    "op_source_family op \<notin> set SEGMENT_FAMILIES \<longrightarrow> fo_segment_owners fo' = fo_segment_owners fo"
  shows "op_effect (work, fo) op (AList.update (op_source_family op) st' work, fo')"
  using assms work_ok_update [OF assms(1,3)] unfolding op_effect_def by auto

lemma op_effect_idle:
  assumes "work_ok work" "fold_chunks_ok fo" "map_of work (op_source_family op) = Some st"
    "family_step op fo st fo st"
  shows "op_effect (work, fo) op (work, fo)"
proof -
  have "map_of work = (map_of work)(op_source_family op \<mapsto> st)" using assms(3) by auto
  then show ?thesis using assms unfolding op_effect_def by auto
qed

lemma fold_op_spec:
  assumes ok: "work_ok work" "fold_chunks_ok fo" and op: "operation_ok op"
  shows "\<exists>wk'. fold_op (work, fo) op = Inr wk' \<and> op_effect (work, fo) op wk'"
proof -
  let ?f = "op_source_family op"
  obtain st where st: "map_of work ?f = Some st" "family_ok ?f st"
    using ok(1) op by (fastforce simp: work_ok_def families_ok_def operation_ok_def)
  note upd = op_effect_update [OF ok(1) st(1)] and idle = op_effect_idle [OF ok st(1)]
  from st(2) show ?thesis
  proof (cases rule: family_ok_cases)
    case (object ob t)
    obtain ob' t' fo' where r: "fold_object ?f (ob, t) op fo = Inr ((ob', t'), fo')"
      "objects_ok (ob', t')" "\<And>e. life_of (ob', t') e = life_step ?f op e (life_of (ob, t) e)"
      using fold_object_spec [OF object(3) _ refl] op by (metis operation_ok_def prod.exhaust)
    have "op_effect (work, fo) op (AList.update ?f (ObjectState ob' t') work, fo')"
      using r object families_disjoint(1) [OF object(1)] fold_object_frame [OF r(1)] ok(2)
      by (intro upd) (auto simp: family_ok_def family_step_def fold_frame_def fold_chunks_ok_def Let_def)
    then show ?thesis using object st(1) r(1) by (simp add: fold_op_def)
  next
    case (land c)
    show ?thesis
    proof (cases "op_verb op = ''paint''")
      case True
      obtain c' fo' where r: "fold_paint c op fo = (c', fo')" by fastforce
      have "op_effect (work, fo) op (AList.update ?f (PaintState c') work, fo')"
        using fold_paint_spec [OF land(3) ok(2) r] fold_paint_owners [OF r] land True families_disjoint(3,4)
        by (intro upd) (simp_all add: family_ok_def family_step_def)
      then show ?thesis using land st(1) r True families_disjoint(3) by (simp add: fold_op_def)
    next
      case False
      then have "op_effect (work, fo) op (work, fo)"
        using land families_disjoint(3,4) by (intro idle) (simp add: family_step_def)
      then show ?thesis using False land families_disjoint(3) by (simp add: fold_op_def)
    qed
  next
    case (segment s)
    note dis = families_disjoint(2) [OF segment(1)]
    show ?thesis
    proof (cases "op_verb op \<in> {''set'', ''select'', ''update''}")
      case True
      obtain s' fo' where r: "fold_segments ?f s op fo = (s', fo')" by fastforce
      have "op_effect (work, fo) op (AList.update ?f (SegmentState s') work, fo')"
        using fold_segments_frame [OF r] r segment True dis ok(2)
        by (intro upd) (simp_all add: family_ok_def family_step_def fold_chunks_ok_def)
      then show ?thesis using segment st(1) r True dis by (simp add: fold_op_def)
    next
      case False
      then have "op_effect (work, fo) op (work, fo)"
        using dis by (intro idle) (simp add: family_step_def)
      then show ?thesis using False segment dis by (simp add: fold_op_def)
    qed
  next
    case (view v p)
    show ?thesis
    proof (cases "op_verb op = ''select''")
      case True
      obtain v' p' fo' where r: "fold_view (v, p) op fo = ((v', p'), fo')" by (metis prod.exhaust)
      have "op_effect (work, fo) op (AList.update ?f (ViewState v' p') work, fo')"
        using fold_view_frame [OF r] r view True ok(2) families_disjoint(5,6)
        by (intro upd)
          (simp_all add: family_ok_def family_step_def fold_chunks_ok_def fold_frame_def)
      then show ?thesis using view st(1) r True families_disjoint(5,6) by (simp add: fold_op_def)
    next
      case False
      then have "op_effect (work, fo) op (work, fo)"
        using view families_disjoint(5,6) by (intro idle) (simp add: family_step_def)
      then show ?thesis using False view families_disjoint(5,6) by (simp add: fold_op_def)
    qed
  next
    case other
    then show ?thesis using op by (simp add: operation_ok_def)
  qed
qed

section \<open>The whole epoch\<close>

abbreviation in_order :: "operation list \<Rightarrow> operation list" where
  "in_order ops \<equiv> sort_key op_server_sequence ops"

lemma reduce_epochE:
  assumes "reduce_epoch b ops = Inr r"
  obtains work fo deltas where "distinct (map op_server_sequence ops)"
    "fold_exc fold_op (copy_families (cs_families b), empty_fold) (in_order ops) = Inr (work, fo)"
    "traverse (build_delta (cs_families b) work fo) (sort (present_families (in_order ops))) = Inr deltas"
    "cs_families (er_state r) = work" "re_family_deltas (er_reduced r) = deltas"
    "re_audit_operations (er_reduced r) = in_order ops"
    "cs_workspace_revision (er_state r) = cs_workspace_revision b + (if ops = [] then 0 else 1)"
    "re_workspace_revision (er_reduced r) = cs_workspace_revision (er_state r)"
    "cs_workspace_id (er_state r) = cs_workspace_id b" "re_workspace_id (er_reduced r) = cs_workspace_id b"
    "re_epoch_id (er_reduced r) = (if ops = [] then 0 else op_epoch_id (last (in_order ops)))"
proof -
  have "in_order ops = [] \<longleftrightarrow> ops = []" by (metis length_0_conv length_sort)
  then show thesis
    using assms that by (simp add: reduce_epoch_def Let_def split: if_splits sum.splits prod.splits) auto
qed

lemma reduce_epoch_result:
  assumes "reduce_epoch b ops = Inr r"
  shows "re_audit_operations (er_reduced r) = in_order ops"
    "cs_workspace_revision (er_state r) = cs_workspace_revision b + (if ops = [] then 0 else 1)"
    "re_workspace_revision (er_reduced r) = cs_workspace_revision (er_state r)"
    "cs_workspace_id (er_state r) = cs_workspace_id b" "re_workspace_id (er_reduced r) = cs_workspace_id b"
    "re_epoch_id (er_reduced r) = (if ops = [] then 0 else op_epoch_id (last (in_order ops)))"
    "distinct (map op_server_sequence ops)"
  by (rule reduce_epochE [OF assms], assumption)+

lemma sort_key_mset_unique:
  assumes "mset xs = mset ys" "distinct (map f xs)"
  shows "sort_key f xs = sort_key f ys"
proof (rule properties_for_sort_key)
  show "mset (sort_key f ys) = mset xs" using assms(1) by simp
  show "sorted (map f (sort_key f ys))" by simp
  fix k assume "k \<in> set (sort_key f ys)"
  have "filter (\<lambda>x. f k = f x) zs = [k]" if m: "mset zs = mset xs" and k: "k \<in> set zs" for zs
  proof -
    have d: "distinct (map f zs)"
      using assms(2) m by (metis mset_map mset_eq_imp_distinct_iff)
    obtain as bs where zs: "zs = as @ k # bs" using k by (meson split_list)
    have "filter (\<lambda>x. f k = f x) as = []" "filter (\<lambda>x. f k = f x) bs = []"
      using d by (auto simp: zs filter_empty_conv)
    then show ?thesis by (simp add: zs)
  qed
  note single = this
  have "k \<in> set xs" using \<open>k \<in> set (sort_key f ys)\<close> assms(1) by (metis mset_eq_setD set_sort)
  then show "filter (\<lambda>x. f k = f x) (sort_key f ys) = filter (\<lambda>x. f k = f x) xs"
    using single [of xs] single [of "sort_key f ys"] assms(1) \<open>k \<in> set (sort_key f ys)\<close> by simp
qed

lemma reduce_epoch_mset:
  assumes "mset ops = mset ops'"
  shows "reduce_epoch b ops = reduce_epoch b ops'"
proof -
  have d: "distinct (map op_server_sequence ops') \<longleftrightarrow> distinct (map op_server_sequence ops)"
    using assms by (metis mset_map mset_eq_imp_distinct_iff)
  show ?thesis
  proof (cases "distinct (map op_server_sequence ops)")
    case True
    show ?thesis unfolding reduce_epoch_def d sort_key_mset_unique [OF assms True] ..
  qed (simp add: reduce_epoch_def d)
qed

text \<open>The loop runs through on well-formed input, and its invariant.\<close>

definition fold_inv :: "family_state dict \<times> fold_state \<Rightarrow> bool" where
  "fold_inv wk \<longleftrightarrow> work_ok (fst wk) \<and> fold_chunks_ok (snd wk)"

lemma fold_inv_start: "families_ok fams \<Longrightarrow> fold_inv (copy_families fams, empty_fold)"
  by (simp add: fold_inv_def copy_families_ok fold_chunks_ok_def empty_fold_def)

lemma fold_op_step:
  assumes "fold_inv wk" "operation_ok op"
  shows "\<exists>wk'. fold_op wk op = Inr wk' \<and> op_effect wk op wk'"
  using fold_op_spec assms by (cases wk) (simp add: fold_inv_def)

lemma op_effect_inv: "op_effect wk op wk' \<Longrightarrow> fold_inv wk'"
  by (simp add: op_effect_def fold_inv_def)

lemma fold_ops_total:
  assumes "fold_inv wk" "\<forall>op\<in>set ops. operation_ok op"
  shows "\<exists>wk'. fold_exc fold_op wk ops = Inr wk' \<and> fold_inv wk'"
  by (rule fold_exc_total) (use assms fold_op_step op_effect_inv in blast)+

lemma fold_op_effect:
  "fold_inv wk \<Longrightarrow> operation_ok op \<Longrightarrow> fold_op wk op = Inr wk' \<Longrightarrow> op_effect wk op wk'"
  using fold_op_step by fastforce

section \<open>Abstract content of the folded state\<close>

lemma op_effect_own:
  assumes "op_effect wk op wk'"
  obtains st st' where "map_of (fst wk) (op_source_family op) = Some st"
    "map_of (fst wk') (op_source_family op) = Some st'" "family_step op (snd wk) st (snd wk') st'"
  using assms unfolding op_effect_def by (metis fun_upd_same)

lemma op_effect_other:
  "op_effect wk op wk' \<Longrightarrow> f \<noteq> op_source_family op \<Longrightarrow> map_of (fst wk') f = map_of (fst wk) f"
  by (auto simp: op_effect_def)

lemma op_effect_life:
  assumes "op_effect wk op wk'" "family \<in> set OBJECT_FAMILIES"
  shows "life_in (fst wk') family e =
    (if op_source_family op = family then life_step family op e (life_in (fst wk) family e)
     else life_in (fst wk) family e)"
proof (cases "op_source_family op = family")
  case True
  from assms(1) show ?thesis by (rule op_effect_own) (use True assms(2) in \<open>simp add: life_in_def family_step_def\<close>)
next
  case False
  then show ?thesis using op_effect_other [OF assms(1), of family] by (simp add: life_in_def)
qed

lemma op_effect_cell:
  assumes "op_effect wk op wk'"
  shows "cell_in (fst wk') =
    (if op_source_family op = ''landcover_surface'' \<and> op_verb op = ''paint''
     then paint_step op (cell_in (fst wk)) else cell_in (fst wk))"
proof (cases "op_source_family op = ''landcover_surface''")
  case True
  from assms show ?thesis
    by (rule op_effect_own) (use True in \<open>simp add: cell_in_def [abs_def] family_step_def Let_def\<close>)
next
  case False
  then show ?thesis using op_effect_other [OF assms, of "''landcover_surface''"]
    by (simp add: cell_in_def [abs_def])
qed

text \<open>The selection a workspace-scoped select operation writes.\<close>

definition view_step :: "operation \<Rightarrow> json dict \<Rightarrow> json dict" where
  "view_step op view =
     (let payload = mapping (op_payload op) in
      if op_source_family op \<noteq> ''output_view'' \<or> op_verb op \<noteq> ''select''
         \<or> map_of payload ''scope'' = Some (JStr ''user'') then view
      else sorted_items (case map_of payload ''values'' of
             Some (JObj nested) \<Rightarrow> nested | _ \<Rightarrow> filter (\<lambda>(k, _). k \<noteq> ''scope'') payload))"

lemma op_effect_view:
  assumes "op_effect wk op wk'"
  shows "view_in (fst wk') = view_step op (view_in (fst wk))"
proof (cases "op_source_family op = ''output_view''")
  case True
  obtain st st' where st: "map_of (fst wk) ''output_view'' = Some st"
    "map_of (fst wk') ''output_view'' = Some st'" "family_step op (snd wk) st (snd wk') st'"
    using op_effect_own [OF assms] True by metis
  have "if op_verb op = ''select''
     then fold_view (st_view st, st_per_user st) op (snd wk) = ((st_view st', st_per_user st'), snd wk')
     else st' = st"
    using st(3) True families_disjoint(5,6) by (simp add: family_step_def Let_def split: if_splits)
  then show ?thesis using st(1,2) True
    by (auto simp: view_in_def view_step_def fold_view_def Let_def split: if_splits)
next
  case False
  then show ?thesis using op_effect_other [OF assms, of "''output_view''"]
    by (simp add: view_in_def view_step_def)
qed

section \<open>Segments of one home family\<close>

text \<open>Operations the segment specification covers: fields stay in their home family and the
  bounds are exact as doubles.\<close>

definition seg_active :: "string \<Rightarrow> operation \<Rightarrow> bool" where
  "seg_active family op \<longleftrightarrow>
     op_source_family op = family \<and> op_verb op \<in> {''set'', ''select'', ''update''}"

definition at_home :: "(string \<Rightarrow> string) \<Rightarrow> operation \<Rightarrow> bool" where
  "at_home home op \<longleftrightarrow>
     op_source_family op \<in> set SEGMENT_FAMILIES \<longrightarrow>
       writes_exactly (op_source_family op) op \<and> (\<forall>f\<in>seg_writes op. home f = op_source_family op)"

definition segments_ok :: "family_state dict \<Rightarrow> bool" where
  "segments_ok fams \<longleftrightarrow>
     (\<forall>family\<in>set SEGMENT_FAMILIES. \<forall>field.
        segs_ok (segments_in fams family field) \<and> canonical (segments_in fams family field))"

definition seg_inv :: "(string \<Rightarrow> string) \<Rightarrow> family_state dict \<times> fold_state \<Rightarrow> bool" where
  "seg_inv home wk \<longleftrightarrow>
     (\<forall>family\<in>set SEGMENT_FAMILIES. \<forall>st. map_of (fst wk) family = Some st \<longrightarrow>
        all_segs_ok (st_segments st) \<and>
        (\<forall>field. home field = family \<longrightarrow> aligned (st_segments st) (fo_segment_owners (snd wk)) field))"

lemma seg_inv_start:
  assumes "families_ok fams" "segments_ok fams"
  shows "seg_inv home (copy_families fams, empty_fold)"
proof -
  have "all_segs_ok (st_segments st)"
    if "family \<in> set SEGMENT_FAMILIES" "map_of (copy_families fams) family = Some st" for family st
  proof -
    have "dict_get (st_segments st) field [] = segments_in fams family field" for field
      using that copy_families_content(3) [OF assms(1)] by (simp add: segments_in_def fun_eq_iff)
        (metis option.simps(5))
    then show ?thesis using assms(2) that(1) by (simp add: all_segs_ok_def segments_ok_def)
  qed
  then show ?thesis by (simp add: seg_inv_def aligned_def empty_fold_def)
qed

lemma op_effect_seg:
  assumes eff: "op_effect wk op wk'" and inv: "seg_inv home wk" and home: "at_home home op"
    and fam: "family \<in> set SEGMENT_FAMILIES"
  shows "seg_inv home wk'"
    "opt_eq (seg_at (segments_in (fst wk') family field) t)
       (if seg_active family op
        then seg_step family op field t (seg_at (segments_in (fst wk) family field) t)
        else seg_at (segments_in (fst wk) family field) t)"
proof -
  let ?f = "op_source_family op"
  obtain st st' where st: "map_of (fst wk) ?f = Some st" "map_of (fst wk') ?f = Some st'"
    "family_step op (snd wk) st (snd wk') st'"
    using op_effect_own [OF eff] by metis
  note other = op_effect_other [OF eff]
  have "seg_inv home wk' \<and>
    opt_eq (seg_at (segments_in (fst wk') family field) t)
       (if seg_active family op
        then seg_step family op field t (seg_at (segments_in (fst wk) family field) t)
        else seg_at (segments_in (fst wk) family field) t)"
  proof (cases "?f \<in> set SEGMENT_FAMILIES \<and> op_verb op \<in> {''set'', ''select'', ''update''}")
    case True
    then have r: "fold_segments ?f (st_segments st) op (snd wk) = (st_segments st', snd wk')"
      using st(3) by (simp add: family_step_def Let_def)
    have we: "writes_exactly ?f op" and hm: "\<forall>f\<in>seg_writes op. home f = ?f"
      using home True by (simp_all add: at_home_def)
    have ok: "all_segs_ok (st_segments st)" and al: "\<forall>field. home field = ?f \<longrightarrow>
        aligned (st_segments st) (fo_segment_owners (snd wk)) field"
      using inv True st(1) unfolding seg_inv_def by blast+
    have "\<forall>f. f \<in> seg_writes op \<or> home f = ?f \<longrightarrow>
        aligned (st_segments st) (fo_segment_owners (snd wk)) f" using al hm by blast
    note s = fold_segments_spec [OF we ok this r]
    have "seg_inv home wk'"
      unfolding seg_inv_def
    proof (intro ballI allI impI)
      fix g x assume g: "g \<in> set SEGMENT_FAMILIES" "map_of (fst wk') g = Some x"
      show "all_segs_ok (st_segments x) \<and> (\<forall>field. home field = g \<longrightarrow>
          aligned (st_segments x) (fo_segment_owners (snd wk')) field)"
      proof (cases "g = ?f")
        case True
        then show ?thesis using g(2) st(2) s(1,2) by auto
      next
        case False
        then have x: "map_of (fst wk) g = Some x" using other g(2) by metis
        have "map_of (fo_segment_owners (snd wk')) field = map_of (fo_segment_owners (snd wk)) field"
          if "home field = g" for field
          using s(4) hm that False by blast
        then show ?thesis using inv g(1) x by (simp add: seg_inv_def aligned_def)
      qed
    qed
    moreover have "seg_at (segments_in (fst wk') ?f field) t = seg_at (dict_get (st_segments st') field []) t"
      "seg_at (segments_in (fst wk) ?f field) t = seg_at (dict_get (st_segments st) field []) t"
      using st(1,2) by (simp_all add: segments_in_def)
    then have "opt_eq (seg_at (segments_in (fst wk') ?f field) t)
        (seg_step ?f op field t (seg_at (segments_in (fst wk) ?f field) t))"
      using s(3) [of field t] by simp
    moreover have "segments_in (fst wk') family field = segments_in (fst wk) family field"
      if "family \<noteq> ?f" using other [OF that] by (simp add: segments_in_def)
    ultimately show ?thesis using True by (cases "family = ?f") (auto simp: seg_active_def)
  next
    case False
    have own: "fo_segment_owners (snd wk') = fo_segment_owners (snd wk)"
      using False eff st(3) by (cases "?f \<in> set SEGMENT_FAMILIES") (auto simp: op_effect_def family_step_def Let_def)
    have same: "map_of (fst wk') g = map_of (fst wk) g" if "g \<in> set SEGMENT_FAMILIES" for g
      using that False st other [of g] by (cases "g = ?f") (auto simp: family_step_def Let_def)
    show ?thesis
      using inv False fam by (auto simp: seg_inv_def own same seg_active_def segments_in_def)
  qed
  then show "seg_inv home wk'" "opt_eq (seg_at (segments_in (fst wk') family field) t)
       (if seg_active family op
        then seg_step family op field t (seg_at (segments_in (fst wk) family field) t)
        else seg_at (segments_in (fst wk) family field) t)" by blast+
qed

section \<open>Deltas and conflicts never raise\<close>

lemma cell_in_landcover:
  "map_of fams ''landcover_surface'' = Some st \<Longrightarrow> cell_in fams = cell_at (st_chunks st)"
  by (simp add: cell_in_def [abs_def])

lemma cell_in_baseline:
  "cell_in fams = cell_at (st_chunks (dict_get fams ''landcover_surface'' (OtherState [])))"
  by (auto simp: cell_in_def fun_eq_iff dict_get_def cell_at_def split: option.splits prod.splits)

lemma build_delta_land:
  assumes "work_ok work" "dom (cell_in fams) \<subseteq> dom (cell_in work)"
  shows "\<exists>d. build_delta fams work fo ''landcover_surface'' = Inr (''landcover_surface'', d) \<and>
    replay_paint (fd_commands d) (cell_in fams) = cell_in work \<and>
    (fd_is_noop d \<longleftrightarrow> cell_in fams = cell_in work)"
proof -
  let ?l = "''landcover_surface''"
  have "?l \<in> set ALL_FAMILIES" by (simp add: family_names)
  then obtain st where st: "map_of work ?l = Some st" "family_ok ?l st"
    using assms(1) by (fastforce simp: work_ok_def families_ok_def)
  then have ok: "chunks_ok (st_chunks st)"
    using families_disjoint(3) by (auto simp: family_ok_def)
  obtain d where d: "landcover_delta ?l (dict_get fams ?l (OtherState [])) st = Inr d"
    "replay_paint (fd_commands d) (cell_in fams) = cell_in work"
    "fd_is_noop d \<longleftrightarrow> cell_in fams = cell_in work"
    using landcover_delta_spec [OF ok, of "dict_get fams ?l (OtherState [])" ?l] assms(2)
    by (auto simp: cell_in_landcover [OF st(1)] cell_in_baseline [of fams])
  then show ?thesis using st(1) \<open>?l \<in> set ALL_FAMILIES\<close> families_disjoint(3)
    by (simp add: build_delta_def)
qed

lemma build_delta_total:
  assumes "work_ok work" "dom (cell_in fams) \<subseteq> dom (cell_in work)" "f \<in> set ALL_FAMILIES"
  shows "\<exists>d. build_delta fams work fo f = Inr (f, d)"
proof (cases "f = ''landcover_surface''")
  case True
  then show ?thesis using build_delta_land [OF assms(1,2)] by blast
next
  case False
  obtain st where "map_of work f = Some st" using assms(1,3) by (fastforce simp: work_ok_def)
  then show ?thesis using False assms(3) by (simp add: build_delta_def Let_def)
qed

lemma traverse_keyed_total:
  assumes "\<And>x. x \<in> set xs \<Longrightarrow> \<exists>d. f x = Inr (x, d)"
  shows "\<exists>ds. traverse f xs = Inr ds \<and> map fst ds = xs \<and> (\<forall>x d. (x, d) \<in> set ds \<longrightarrow> f x = Inr (x, d))"
  using assms
proof (induction xs)
  case (Cons x xs)
  obtain d where d: "f x = Inr (x, d)" using Cons.prems by auto
  obtain ds where "traverse f xs = Inr ds" "map fst ds = xs"
    "\<forall>x d. (x, d) \<in> set ds \<longrightarrow> f x = Inr (x, d)" using Cons by auto
  then show ?case using d by auto
qed simp

lemma aggregate_conflicts_total:
  assumes "fold_chunks_ok fo"
  shows "\<exists>cs. aggregate_conflicts fo = Inr cs"
proof -
  let ?g = "\<lambda>(k, v). (case pair_of_key k of Inr rc \<Rightarrow> rc | Inl _ \<Rightarrow> undefined, k, v)"
  have "with_keys chunk_sort_key (fo_chunk_ops fo) = Inr (map ?g (fo_chunk_ops fo))"
    unfolding with_keys_def
  proof (rule traverse_total)
    fix x assume x: "x \<in> set (fo_chunk_ops fo)"
    obtain k v where kv: "x = (k, v)" by fastforce
    then have "k \<in> dom (map_of (fo_chunk_ops fo))"
      using x by (simp add: dom_map_of_conv_image_fst rev_image_eqI)
    then obtain a b where "k = pair_key a b" using assms unfolding fold_chunks_ok_def by blast
    then show "(case x of (k, v) \<Rightarrow> case chunk_sort_key k of Inl e \<Rightarrow> Inl e | Inr rc \<Rightarrow> Inr (rc, k, v)) = Inr (?g x)"
      by (simp add: kv chunk_sort_key_def)
  qed
  then show ?thesis by (simp add: aggregate_conflicts_def)
qed

section \<open>Epoch laws\<close>

lemma fold_ops_sim:
  assumes f: "fold_exc fold_op wk ops = Inr wk'" "fold_inv wk" "\<forall>op\<in>set ops. operation_ok op"
    and start: "R wk a"
    and step: "\<And>wk op wk' a. op \<in> set ops \<Longrightarrow> op_effect wk op wk' \<Longrightarrow> R wk a \<Longrightarrow> R wk' (g op a)"
  shows "R wk' (fold g ops a)"
proof -
  have "fold_inv wk' \<and> R wk' (fold g ops a)"
  proof (rule fold_exc_sim [OF f(1), where R = "\<lambda>wk a. fold_inv wk \<and> R wk a"])
    show "fold_inv wk \<and> R wk a" using start f(2) by simp
    fix wk op wk' a
    assume a: "op \<in> set ops" "fold_inv wk \<and> R wk a" "fold_op wk op = Inr wk'"
    then have "op_effect wk op wk'" using fold_op_effect f(3) by blast
    then show "fold_inv wk' \<and> R wk' (g op a)" using step op_effect_inv a by blast
  qed
  then show ?thesis ..
qed

lemma epoch_sim:
  assumes r: "reduce_epoch b ops = Inr r" and b: "families_ok (cs_families b)"
    and ops: "\<forall>op\<in>set ops. operation_ok op"
    and start: "R (copy_families (cs_families b), empty_fold) a"
    and step: "\<And>wk op wk' a. op \<in> set ops \<Longrightarrow> op_effect wk op wk' \<Longrightarrow> R wk a \<Longrightarrow> R wk' (g op a)"
  shows "\<exists>fo. R (cs_families (er_state r), fo) (fold g (in_order ops) a)"
proof -
  obtain work fo where wf: "fold_exc fold_op (copy_families (cs_families b), empty_fold) (in_order ops)
      = Inr (work, fo)" "cs_families (er_state r) = work"
    using reduce_epochE [OF r] by metis
  have "R (work, fo) (fold g (in_order ops) a)"
    by (rule fold_ops_sim [where R = R, OF wf(1) fold_inv_start [OF b] _ start]) (use ops step in auto)
  then show ?thesis using wf(2) by blast
qed

lemma epoch_work_ok:
  assumes "reduce_epoch b ops = Inr r" "families_ok (cs_families b)" "\<forall>op\<in>set ops. operation_ok op"
  shows "work_ok (cs_families (er_state r))"
  using epoch_sim [OF assms, where R = "\<lambda>wk _. work_ok (fst wk)" and g = "\<lambda>_ _. ()" and a = "()"]
  by (auto simp: op_effect_def copy_families_ok assms(2))

definition life_op :: "string \<Rightarrow> string \<Rightarrow> operation \<Rightarrow> life \<Rightarrow> life" where
  "life_op family e op l = (if op_source_family op = family then life_step family op e l else l)"

lemma epoch_life:
  assumes "reduce_epoch b ops = Inr r" "families_ok (cs_families b)" "\<forall>op\<in>set ops. operation_ok op"
    "family \<in> set OBJECT_FAMILIES"
  shows "life_in (cs_families (er_state r)) family e =
    fold (life_op family e) (in_order ops) (life_in (cs_families b) family e)"
proof -
  have "\<exists>fo. life_in (fst (cs_families (er_state r), fo :: fold_state)) family e =
      fold (life_op family e) (in_order ops) (life_in (cs_families b) family e)"
    by (rule epoch_sim [OF assms(1-3), where g = "life_op family e"])
      (simp_all add: copy_families_content [OF assms(2)] op_effect_life assms(4) life_op_def)
  then show ?thesis by simp
qed

definition paint_op :: "operation \<Rightarrow> (int \<times> int \<rightharpoonup> int) \<Rightarrow> (int \<times> int \<rightharpoonup> int)" where
  "paint_op op m =
     (if op_source_family op = ''landcover_surface'' \<and> op_verb op = ''paint''
      then paint_step op m else m)"

lemma epoch_paint:
  assumes "reduce_epoch b ops = Inr r" "families_ok (cs_families b)" "\<forall>op\<in>set ops. operation_ok op"
  shows "cell_in (cs_families (er_state r)) = fold paint_op (in_order ops) (cell_in (cs_families b))"
proof -
  have "\<exists>fo. cell_in (fst (cs_families (er_state r), fo :: fold_state)) =
      fold paint_op (in_order ops) (cell_in (cs_families b))"
    by (rule epoch_sim [OF assms, where g = paint_op])
      (simp_all add: copy_families_content [OF assms(2)] op_effect_cell paint_op_def)
  then show ?thesis by simp
qed

lemma fold_paint_dom: "dom m \<subseteq> dom (fold paint_op ops m)"
proof (induction ops arbitrary: m)
  case (Cons op ops)
  have "dom m \<subseteq> dom (paint_op op m)" using paint_step_dom by (simp add: paint_op_def)
  then show ?case using Cons [of "paint_op op m"] by auto
qed simp

lemma epoch_view:
  assumes "reduce_epoch b ops = Inr r" "families_ok (cs_families b)" "\<forall>op\<in>set ops. operation_ok op"
  shows "view_in (cs_families (er_state r)) = fold view_step (in_order ops) (view_in (cs_families b))"
proof -
  have "\<exists>fo. view_in (fst (cs_families (er_state r), fo :: fold_state)) =
      fold view_step (in_order ops) (view_in (cs_families b))"
    by (rule epoch_sim [OF assms, where g = view_step])
      (simp_all add: copy_families_content [OF assms(2)] op_effect_view)
  then show ?thesis by simp
qed

definition seg_op :: "string \<Rightarrow> string \<Rightarrow> int \<Rightarrow> operation \<Rightarrow> json option \<Rightarrow> json option" where
  "seg_op family field t op v =
     (if seg_active family op then seg_step family op field t v else v)"

lemma seg_op_cong: "opt_eq v w \<Longrightarrow> opt_eq (seg_op family field t op v) (seg_op family field t op w)"
  by (auto simp: seg_op_def seg_step_def split: option.splits prod.splits)

lemma epoch_segments:
  assumes "reduce_epoch b ops = Inr r" "families_ok (cs_families b)" "\<forall>op\<in>set ops. operation_ok op"
    and "segments_ok (cs_families b)" "\<forall>op\<in>set ops. at_home home op" "family \<in> set SEGMENT_FAMILIES"
  shows "opt_eq (seg_at (segments_in (cs_families (er_state r)) family field) t)
      (fold (seg_op family field t) (in_order ops)
        (seg_at (segments_in (cs_families b) family field) t))"
    "segments_ok (cs_families (er_state r))"
proof -
  have "\<exists>fo. seg_inv home (cs_families (er_state r), fo) \<and>
    opt_eq (seg_at (segments_in (fst (cs_families (er_state r), fo)) family field) t)
      (fold (seg_op family field t) (in_order ops)
        (seg_at (segments_in (cs_families b) family field) t))"
  proof (rule epoch_sim [OF assms(1-3), where g = "seg_op family field t"])
    fix wk op wk' a
    assume a: "op \<in> set ops" "op_effect wk op wk'" "seg_inv home wk \<and>
      opt_eq (seg_at (segments_in (fst wk) family field) t) a"
    note e = op_effect_seg [OF a(2) _ _ assms(6), of home]
    have "opt_eq (seg_at (segments_in (fst wk') family field) t)
        (seg_op family field t op (seg_at (segments_in (fst wk) family field) t))"
      using e(2) a(1,3) assms(5) by (simp add: seg_op_def)
    then show "seg_inv home wk' \<and> opt_eq (seg_at (segments_in (fst wk') family field) t)
        (seg_op family field t op a)"
      using e(1) a(1,3) assms(5) seg_op_cong opt_eq_trans by blast
  qed (use assms(4) seg_inv_start [OF assms(2,4)] copy_families_content [OF assms(2)] in simp)
  then show "opt_eq (seg_at (segments_in (cs_families (er_state r)) family field) t)
      (fold (seg_op family field t) (in_order ops)
        (seg_at (segments_in (cs_families b) family field) t))"
    "segments_ok (cs_families (er_state r))"
    by (auto simp: seg_inv_def segments_ok_def segments_in_def all_segs_ok_def split: option.splits)
qed

lemma epoch_total:
  assumes b: "families_ok (cs_families b)" and ops: "\<forall>op\<in>set ops. operation_ok op"
    and seq: "distinct (map op_server_sequence ops)"
  shows "\<exists>r. reduce_epoch b ops = Inr r"
proof -
  obtain work fo where wf: "fold_exc fold_op (copy_families (cs_families b), empty_fold) (in_order ops)
      = Inr (work, fo)" "fold_inv (work, fo)"
    using fold_ops_total [OF fold_inv_start [OF b], of "in_order ops"] ops by auto
  have "cell_in (fst (work, fo)) = fold paint_op (in_order ops) (cell_in (cs_families b))"
    by (rule fold_ops_sim [OF wf(1) fold_inv_start [OF b], where g = paint_op])
      (use ops in \<open>simp_all add: copy_families_content(2) [OF b] op_effect_cell paint_op_def\<close>)
  then have dom: "dom (cell_in (cs_families b)) \<subseteq> dom (cell_in work)" and ok: "work_ok work"
    using fold_paint_dom wf(2) by (auto simp: fold_inv_def)
  have "\<exists>d. build_delta (cs_families b) work fo f = Inr (f, d)"
    if "f \<in> set (sort (present_families (in_order ops)))" for f
    using build_delta_total [OF ok dom, of f fo] that ops by (auto simp: present_families_def operation_ok_def)
  then obtain ds where "traverse (build_delta (cs_families b) work fo)
      (sort (present_families (in_order ops))) = Inr ds"
    using traverse_keyed_total by metis
  moreover obtain cs where "aggregate_conflicts fo = Inr cs"
    using aggregate_conflicts_total wf(2) by (auto simp: fold_inv_def)
  ultimately show ?thesis using seq wf(1) by (simp add: reduce_epoch_def Let_def)
qed

end
