(* ===== verification/Reducer_Contract.thy ===== *)
theory Reducer_Contract
  imports Reducer_Laws
begin

text \<open>
  The deterministic reducer meets the \<open>EpochReducer\<close> contract, and its properties, stated
  over the definitions of \<open>reducer.py\<close>. The last section shows where the code leaves its
  own documentation.
\<close>

section \<open>Interpretation of the contract\<close>

definition canonical_ok :: "canonical_state \<Rightarrow> bool" where
  "canonical_ok s \<longleftrightarrow> families_ok (cs_families s)"

lemma initial_families_ok: "families_ok (cs_families (initial_state w))"
proof -
  have "distinct ALL_FAMILIES" by (simp add: family_names)
  moreover have "family_ok f st" if "map_of (cs_families (initial_state w)) f = Some st" for f st
    using that family_ok_empty
    by (auto simp: initial_state_def map_of_map_restrict restrict_map_def split: if_splits)
  ultimately show ?thesis by (simp add: families_ok_def initial_state_def comp_def)
qed

interpretation reducer: epoch_reducer initial_state reduce_epoch canonical_ok operation_ok
proof unfold_locales
  show "canonical_ok (initial_state w)" for w
    by (simp add: canonical_ok_def initial_families_ok)
  show "cs_workspace_revision (initial_state w) = 0" "cs_workspace_id (initial_state w) = w" for w
    by (simp_all add: initial_state_def)
  show "\<exists>r. reduce_epoch b ops = Inr r"
    if "canonical_ok b" "\<forall>op\<in>set ops. operation_ok op" "distinct (map op_server_sequence ops)" for b ops
    using that epoch_total by (simp add: canonical_ok_def)
  show "canonical_ok (er_state r)"
    if "reduce_epoch b ops = Inr r" "canonical_ok b" "\<forall>op\<in>set ops. operation_ok op" for b ops r
    using that epoch_work_ok by (simp add: canonical_ok_def work_ok_def)
  show "reduce_epoch b ops = reduce_epoch b ops'" if "mset ops = mset ops'" for b ops ops'
    using that by (rule reduce_epoch_mset)
  fix b ops r
  assume "reduce_epoch b ops = Inr r"
  note r = reduce_epoch_result [OF this]
  show "re_audit_operations (er_reduced r) = sort_key op_server_sequence ops"
    "re_workspace_revision (er_reduced r) = cs_workspace_revision b + (if ops = [] then 0 else 1) \<and>
      cs_workspace_revision (er_state r) = re_workspace_revision (er_reduced r)"
    "re_workspace_id (er_reduced r) = cs_workspace_id b \<and> cs_workspace_id (er_state r) = cs_workspace_id b"
    by (simp_all add: r)
qed

section \<open>A sample epoch\<close>

text \<open>Operations for the concrete applications below.\<close>

definition sample_op :: "int \<Rightarrow> string \<Rightarrow> string \<Rightarrow> string option \<Rightarrow> string \<Rightarrow> json dict \<Rightarrow> operation" where
  "sample_op seq actor family entity verb payload =
     \<lparr>op_workspace_id = ''w'', op_operation_id = show_int seq, op_actor_id = actor,
      op_client_sequence = None, op_base_revision = None, op_source_family = family,
      op_entity_id = entity, op_verb = verb, op_payload = JObj payload,
      op_received_at = Stamp seq, op_accepted_at = Stamp seq, op_server_sequence = seq,
      op_epoch_id = 1\<rparr>"

definition sample_add :: operation where
  "sample_add = sample_op 1 ''ann'' ''building_geometry'' (Some ''b1'') ''add'' [(''height_m'', JInt 10)]"

definition sample_raise :: operation where
  "sample_raise =
     sample_op 2 ''bob'' ''building_geometry'' (Some ''b1'') ''replace'' [(''height_m'', JInt 12)]"

definition sample_delete :: operation where
  "sample_delete = sample_op 3 ''ann'' ''building_geometry'' (Some ''b1'') ''delete'' [(''values'', JObj [])]"

definition sample_paint :: operation where
  "sample_paint =
     sample_op 4 ''ann'' ''landcover_surface'' None ''paint''
       [(''class'', JInt 5), (''cells'', JArr [JArr [JInt 3, JInt 70]])]"

definition sample_met :: operation where
  "sample_met =
     sample_op 5 ''bob'' ''meteorological_forcing'' None ''set''
       [(''time_start'', JInt 2), (''time_stop'', JInt 4), (''values'', JObj [(''Ta'', JInt 30)])]"

lemmas sample_defs = sample_op_def sample_add_def sample_raise_def sample_delete_def sample_paint_def
  sample_met_def

lemma sample_ok [simp]:
  "operation_ok sample_add" "operation_ok sample_raise" "operation_ok sample_delete"
  "operation_ok sample_paint" "operation_ok sample_met"
  by (simp_all add: operation_ok_def sample_defs keeps_generation_def object_fields_def item_values_def
      mapping_def identity_key_def family_names FLAT_PAYLOAD_SKIP_def)

lemma sample_seq [simp]:
  "op_server_sequence sample_add = 1" "op_server_sequence sample_raise = 2"
  "op_server_sequence sample_delete = 3" "op_server_sequence sample_paint = 4"
  "op_server_sequence sample_met = 5"
  by (simp_all add: sample_defs)

section \<open>Last writer of a cell and of a timestep\<close>

definition paints :: "int \<times> int \<Rightarrow> operation \<Rightarrow> bool" where
  "paints rc op \<longleftrightarrow>
     op_source_family op = ''landcover_surface'' \<and> op_verb op = ''paint'' \<and>
     paint_class (mapping (op_payload op)) \<noteq> None \<and> rc \<in> set (paint_cells (mapping (op_payload op)))"

lemma paint_op_at:
  "paint_op op m rc = (if paints rc op then paint_class (mapping (op_payload op)) else m rc)"
  by (auto simp: paint_op_def paints_def paint_step_def paint_payload_def split: option.splits)

lemma fold_paint_last:
  "fold paint_op ops m rc =
     (case find (paints rc) (rev ops) of
        Some op \<Rightarrow> paint_class (mapping (op_payload op)) | None \<Rightarrow> m rc)"
proof (induction ops rule: rev_induct)
  case (snoc op ops)
  then show ?case by (auto simp: paint_op_at)
qed simp

definition sets_field :: "string \<Rightarrow> string \<Rightarrow> int \<Rightarrow> operation \<Rightarrow> bool" where
  "sets_field family field t op \<longleftrightarrow>
     seg_active family op \<and> field \<in> seg_writes op \<and>
     (case seg_bounds family op of None \<Rightarrow> False | Some (s, e) \<Rightarrow> covers t (s, e, JNull))"

lemma seg_op_at:
  "seg_op family field t op v =
     (if sets_field family field t op then map_of (item_values (mapping (op_payload op))) field else v)"
  by (auto simp: seg_op_def seg_step_def sets_field_def split: option.splits)

lemma fold_seg_last:
  "fold (seg_op family field t) ops v =
     (case find (sets_field family field t) (rev ops) of
        Some op \<Rightarrow> map_of (item_values (mapping (op_payload op))) field | None \<Rightarrow> v)"
  by (induction ops rule: rev_induct) (simp_all add: seg_op_at)

lemma build_delta_fst: "build_delta base work fo f = Inr (g, d) \<Longrightarrow> g = f"
  by (auto simp: build_delta_def Let_def dest: map_sum_Inr split: if_splits option.splits)

section \<open>Tombstones\<close>

lemma life_op_dead:
  "life_op family e op (Dead g) =
     (if op_source_family op = family \<and> op_entity_id op = Some e \<and> e \<noteq> [] \<and> op_verb op = ''add''
      then Live (g + 1) ((map_of (object_fields family (mapping (op_payload op))))(''generation'' := None))
      else Dead g)"
  by (simp add: life_op_def life_step_def life_add_def life_write_def life_delete_def Let_def)

lemma fold_life_dead:
  "\<forall>op\<in>set ops. op_source_family op = family \<and> op_entity_id op = Some e \<longrightarrow> op_verb op \<noteq> ''add'' \<Longrightarrow>
   fold (life_op family e) ops (Dead g) = Dead g"
  by (induction ops) (auto simp: life_op_dead)

section \<open>Properties\<close>



text \<open>C4: replay determinism. The outcome (state, deltas, conflicts, audit, or the exception)
  depends only on which operations the epoch holds, not on the order they are handed over.\<close>

theorem reduce_epoch_order_independent:
  "mset ops = mset ops' \<Longrightarrow> reduce_epoch b ops = reduce_epoch b ops'"
  by (rule reducer.reduce_order_free)

theorem reduce_epoch_order_independent_witness:
  "reduce_epoch (initial_state ''w'') [sample_raise, sample_add] =
   reduce_epoch (initial_state ''w'') [sample_add, sample_raise]"
  by (rule reduce_epoch_order_independent) simp

text \<open>C23: zero loss. Every operation of the epoch is audited, once, in strictly increasing
  server order, also the ones that cancelled out or were rejected by a tombstone.\<close>

theorem reduce_epoch_audits_all:
  assumes "reduce_epoch b ops = Inr r"
  shows "mset (re_audit_operations (er_reduced r)) = mset ops \<and>
    sorted_wrt (<) (map op_server_sequence (re_audit_operations (er_reduced r)))"
  using reduce_epoch_result(1,7) [OF assms]
  by (simp add: sorted_wrt_less_strict) (metis mset_map mset_sort mset_eq_imp_distinct_iff)

theorem reduce_epoch_audits_all_witness:
  "\<exists>r. reduce_epoch (initial_state ''w'') [sample_delete, sample_add] = Inr r \<and>
     (mset (re_audit_operations (er_reduced r)) = mset [sample_delete, sample_add] \<and>
      sorted_wrt (<) (map op_server_sequence (re_audit_operations (er_reduced r))))"
  using epoch_total [OF initial_families_ok, of "[sample_delete, sample_add]" "''w''"]
    reduce_epoch_audits_all [of "initial_state ''w''" "[sample_delete, sample_add]"] by auto

text \<open>C5: refinement of the object families. The life of every building and tree after an
  epoch is its life before, taken through one life-cycle step per operation in server order:
  an add starts a new generation, an update or move writes fields of a live entity only, a
  delete buries it.\<close>

theorem reduce_epoch_refines_life_cycle:
  assumes "reduce_epoch b ops = Inr r" "families_ok (cs_families b)" "\<forall>op\<in>set ops. operation_ok op"
    "family \<in> set OBJECT_FAMILIES"
  shows "life_in (cs_families (er_state r)) family e =
    fold (life_op family e) (sort_key op_server_sequence ops) (life_in (cs_families b) family e)"
  using assms by (rule epoch_life)

lemma life_in_initial: "life_in (cs_families (initial_state w)) family e = Unknown"
  using empty_content(1)
  by (auto simp: life_in_def initial_state_def map_of_map_restrict restrict_map_def split: option.splits)

theorem reduce_epoch_refines_life_cycle_witness:
  "\<exists>r. reduce_epoch (initial_state ''w'') [sample_raise, sample_add] = Inr r \<and>
     life_in (cs_families (er_state r)) ''building_geometry'' ''b1'' = Live 0 [''height_m'' \<mapsto> JInt 12]"
proof -
  obtain r where r: "reduce_epoch (initial_state ''w'') [sample_raise, sample_add] = Inr r"
    using epoch_total [OF initial_families_ok, of "[sample_raise, sample_add]" "''w''"] by auto
  have "life_in (cs_families (er_state r)) ''building_geometry'' ''b1'' = Live 0 [''height_m'' \<mapsto> JInt 12]"
    using reduce_epoch_refines_life_cycle [OF r, of "''building_geometry''" "''b1''"]
    by (simp add: initial_families_ok OBJECT_FAMILIES_def life_in_initial life_op_def)
      (simp add: sample_defs life_step_def life_add_def life_write_def object_fields_def item_values_def
        mapping_def identity_key_def FLAT_PAYLOAD_SKIP_def fun_eq_iff)
  then show ?thesis using r by blast
qed

text \<open>A tombstone is never resurrected by an update: a deleted entity stays deleted, in the
  same generation, through any epoch that does not add it again.\<close>

lemma reduce_epoch_tombstone_sticky:
  assumes "reduce_epoch b ops = Inr r" "families_ok (cs_families b)" "\<forall>op\<in>set ops. operation_ok op"
    "family \<in> set OBJECT_FAMILIES" "life_in (cs_families b) family e = Dead g"
    "\<forall>op\<in>set ops. op_source_family op = family \<and> op_entity_id op = Some e \<longrightarrow> op_verb op \<noteq> ''add''"
  shows "life_in (cs_families (er_state r)) family e = Dead g"
  using epoch_life [OF assms(1-4), of e] fold_life_dead [of "in_order ops" family e g] assms(5,6) by simp

definition sample_buried :: canonical_state where
  "sample_buried =
     \<lparr>cs_workspace_id = ''w'', cs_workspace_revision = 3,
      cs_families = [(''building_geometry'', ObjectState [] [(''b1'', 2)])]\<rparr>"

lemma sample_buried_ok: "families_ok (cs_families sample_buried)"
  by (simp add: sample_buried_def families_ok_def family_ok_def objects_ok_def OBJECT_FAMILIES_def)

lemma reduce_epoch_tombstone_sticky_witness:
  "\<exists>r. reduce_epoch sample_buried [sample_raise] = Inr r \<and>
     life_in (cs_families (er_state r)) ''building_geometry'' ''b1'' = Dead 2"
proof -
  obtain r where r: "reduce_epoch sample_buried [sample_raise] = Inr r"
    using epoch_total [OF sample_buried_ok, of "[sample_raise]"] by auto
  have "life_in (cs_families (er_state r)) ''building_geometry'' ''b1'' = Dead 2"
    by (rule reduce_epoch_tombstone_sticky [OF r sample_buried_ok])
      (simp_all add: OBJECT_FAMILIES_def life_in_def sample_buried_def life_of_def,
        simp add: sample_defs)
  then show ?thesis using r by blast
qed

text \<open>C24: land-cover cells are last-write-wins in server order: a cell has the class of the last
  paint operation of the epoch that covers it, and its baseline class if there is none.\<close>

theorem reduce_epoch_paint_last_write_wins:
  assumes "reduce_epoch b ops = Inr r" "families_ok (cs_families b)" "\<forall>op\<in>set ops. operation_ok op"
  shows "cell_in (cs_families (er_state r)) rc =
    (case find (paints rc) (rev (sort_key op_server_sequence ops)) of
       Some op \<Rightarrow> paint_class (mapping (op_payload op)) | None \<Rightarrow> cell_in (cs_families b) rc)"
  by (simp add: epoch_paint [OF assms] fold_paint_last)

theorem reduce_epoch_paint_last_write_wins_witness:
  "\<exists>r. reduce_epoch (initial_state ''w'') [sample_paint] = Inr r \<and>
     cell_in (cs_families (er_state r)) (3, 70) = Some 5"
proof -
  obtain r where r: "reduce_epoch (initial_state ''w'') [sample_paint] = Inr r"
    using epoch_total [OF initial_families_ok, of "[sample_paint]" "''w''"] by auto
  have "cell_in (cs_families (er_state r)) (3, 70) = Some 5"
    using reduce_epoch_paint_last_write_wins [OF r initial_families_ok, of "(3, 70)"]
    by (simp add: paints_def) (simp add: sample_defs mapping_def paint_class_def is_index_def
        paint_cells_def paint_window_def listed_cells_def opt_mapping_def)
  then show ?thesis using r by blast
qed

text \<open>The land-cover delta is complete: replaying its paint commands on the baseline cells
  gives the final cells, and it is a no-op exactly when no cell changed class.\<close>

lemma reduce_epoch_paint_delta_replays:
  assumes "reduce_epoch b ops = Inr r" "families_ok (cs_families b)" "\<forall>op\<in>set ops. operation_ok op"
    "(''landcover_surface'', d) \<in> set (re_family_deltas (er_reduced r))"
  shows "replay_paint (fd_commands d) (cell_in (cs_families b)) = cell_in (cs_families (er_state r)) \<and>
    (fd_is_noop d \<longleftrightarrow> cell_in (cs_families b) = cell_in (cs_families (er_state r)))"
proof -
  obtain work fo deltas where w: "cs_families (er_state r) = work"
    "traverse (build_delta (cs_families b) work fo) (sort (present_families (in_order ops))) = Inr deltas"
    "re_family_deltas (er_reduced r) = deltas"
    by (rule reduce_epochE [OF assms(1)]) (rule that)
  have ok: "work_ok work" using epoch_work_ok [OF assms(1-3)] w(1) by simp
  have dom: "dom (cell_in (cs_families b)) \<subseteq> dom (cell_in work)"
    using epoch_paint [OF assms(1-3)] fold_paint_dom w(1) by metis
  have "\<exists>d. build_delta (cs_families b) work fo f = Inr (f, d)"
    if "f \<in> set (sort (present_families (in_order ops)))" for f
    using build_delta_total [OF ok dom, of f fo] that assms(3)
    by (auto simp: present_families_def operation_ok_def)
  from traverse_keyed_total [of "sort (present_families (in_order ops))", OF this]
  have "build_delta (cs_families b) work fo ''landcover_surface'' = Inr (''landcover_surface'', d)"
    using w(2,3) assms(4) by auto
  then show ?thesis using build_delta_land [OF ok dom, of fo] w(1) by auto
qed

lemma reduce_epoch_paint_delta_replays_witness:
  "\<exists>r d. reduce_epoch (initial_state ''w'') [sample_paint] = Inr r \<and>
     re_family_deltas (er_reduced r) = [(''landcover_surface'', d)] \<and>
     replay_paint (fd_commands d) (cell_in (cs_families (initial_state ''w''))) =
       cell_in (cs_families (er_state r)) \<and>
     (fd_is_noop d \<longleftrightarrow>
       cell_in (cs_families (initial_state ''w'')) = cell_in (cs_families (er_state r)))"
proof -
  obtain r where r: "reduce_epoch (initial_state ''w'') [sample_paint] = Inr r"
    using epoch_total [OF initial_families_ok, of "[sample_paint]" "''w''"] by auto
  obtain work fo deltas where t: "traverse (build_delta (cs_families (initial_state ''w'')) work fo)
      (sort (present_families (in_order [sample_paint]))) = Inr deltas"
    "re_family_deltas (er_reduced r) = deltas"
    by (rule reduce_epochE [OF r]) (rule that)
  have fam: "sort (present_families (in_order [sample_paint])) = [''landcover_surface'']"
    by (simp add: present_families_def sample_defs)
  obtain d where d: "deltas = [(''landcover_surface'', d)]"
    using t(1) build_delta_fst unfolding fam by (auto split: sum.splits)
  have "(''landcover_surface'', d) \<in> set (re_family_deltas (er_reduced r))" using t(2) d by simp
  from reduce_epoch_paint_delta_replays [OF r initial_families_ok _ this]
  show ?thesis using r t(2) d by auto
qed

text \<open>C6: a field of a segment family is last-write-wins per timestep: its value at a timestep is
  the one of the last operation of the epoch whose range covers the timestep, and the baseline
  value if there is none. The segment lists stay sorted, disjoint and merged. This needs each
  written field to belong to one segment family and the bounds to be exact doubles.\<close>

theorem reduce_epoch_segments_last_write_wins:
  assumes "reduce_epoch b ops = Inr r" "families_ok (cs_families b)" "\<forall>op\<in>set ops. operation_ok op"
    "segments_ok (cs_families b)" "\<forall>op\<in>set ops. at_home home op" "family \<in> set SEGMENT_FAMILIES"
  shows "opt_eq (seg_at (segments_in (cs_families (er_state r)) family field) t)
      (case find (sets_field family field t) (rev (sort_key op_server_sequence ops)) of
         Some op \<Rightarrow> map_of (item_values (mapping (op_payload op))) field
       | None \<Rightarrow> seg_at (segments_in (cs_families b) family field) t) \<and>
    segments_ok (cs_families (er_state r))"
  using epoch_segments(1) [OF assms, of field t] epoch_segments(2) [OF assms] by (simp add: fold_seg_last)

lemma segments_in_initial: "segments_in (cs_families (initial_state w)) family field = []"
  using empty_content(3)
  by (auto simp: segments_in_def initial_state_def map_of_map_restrict restrict_map_def split: option.splits)

theorem reduce_epoch_segments_last_write_wins_witness:
  "\<exists>r. reduce_epoch (initial_state ''w'') [sample_met] = Inr r \<and>
     opt_eq (seg_at (segments_in (cs_families (er_state r)) ''meteorological_forcing'' ''Ta'') 3)
       (Some (JInt 30)) \<and>
     seg_at (segments_in (cs_families (er_state r)) ''meteorological_forcing'' ''Ta'') 5 = None \<and>
     segments_ok (cs_families (er_state r))"
proof -
  obtain r where r: "reduce_epoch (initial_state ''w'') [sample_met] = Inr r"
    using epoch_total [OF initial_families_ok, of "[sample_met]" "''w''"] by auto
  have met: "seg_bounds ''meteorological_forcing'' sample_met = Some (2, Some 4)"
    "seg_writes sample_met = {''Ta''}" "op_source_family sample_met = ''meteorological_forcing''"
    "op_verb sample_met = ''set''" "map_of (item_values (mapping (op_payload sample_met))) ''Ta'' = Some (JInt 30)"
    by (simp_all add: sample_defs seg_bounds_def seg_writes_def time_bounds_def item_values_def mapping_def
        opt_mapping_def get_or_def is_none_def)
  have fam: "''meteorological_forcing'' \<in> set SEGMENT_FAMILIES" by (simp add: SEGMENT_FAMILIES_def)
  have ok: "segments_ok (cs_families (initial_state ''w''))" by (simp add: segments_ok_def segments_in_initial)
  have home: "\<forall>op\<in>set [sample_met]. at_home (\<lambda>_. ''meteorological_forcing'') op"
    by (simp add: at_home_def writes_exactly_def met insertable_def wf_range_def exact_bound_def)
  note l = reduce_epoch_segments_last_write_wins [OF r initial_families_ok _ ok home fam, of "''Ta''"]
  have "opt_eq (seg_at (segments_in (cs_families (er_state r)) ''meteorological_forcing'' ''Ta'') 3)
      (Some (JInt 30))"
    using l [of 3] by (simp add: sets_field_def seg_active_def met covers_def)
  moreover have "opt_eq (seg_at (segments_in (cs_families (er_state r)) ''meteorological_forcing'' ''Ta'') 5)
      None"
    using l [of 5] by (simp add: sets_field_def seg_active_def met covers_def segments_in_initial seg_at_def)
  ultimately show ?thesis using l [of 3] r by auto
qed

text \<open>Inserting a range into a well-formed field overwrites the field's timestep function on
  exactly that range and keeps the list sorted, disjoint and without adjacent equal segments,
  which makes it the only such list with that function.\<close>

lemma insert_segment_overwrites_range:
  assumes "insertable s e" "segs_ok (dict_get segs field [])" "aligned segs owners field"
    "insert_segment family segs owners field s e v op conflicts = (segs', owners', conflicts')"
  shows "segs_ok (dict_get segs' field []) \<and> canonical (dict_get segs' field []) \<and>
    opt_eq (seg_at (dict_get segs' field []) t)
      (if covers t (s, e, v) then Some v else seg_at (dict_get segs field []) t) \<and>
    (\<forall>ys. segs_ok ys \<and> canonical ys \<and>
       (\<forall>u. opt_eq (seg_at (dict_get segs' field []) u) (seg_at ys u)) \<longrightarrow>
       list_all2 seg_eq (dict_get segs' field []) ys)"
  using insert_segment_field [OF assms] canonical_unique by blast

lemma insert_segment_overwrites_range_witness:
  "opt_eq (seg_at (dict_get (fst (insert_segment ''meteorological_forcing'' [(''Ta'', [(0, None, JInt 20)])]
      [] ''Ta'' 2 (Some 4) (JInt 30) sample_met [])) ''Ta'' []) 3) (Some (JInt 30))"
proof -
  obtain segs' owners' conflicts' where i: "insert_segment ''meteorological_forcing''
      [(''Ta'', [(0, None, JInt 20)])] [] ''Ta'' 2 (Some 4) (JInt 30) sample_met []
      = (segs', owners', conflicts')" by (metis prod.exhaust)
  have "opt_eq (seg_at (dict_get segs' ''Ta'' []) 3) (Some (JInt 30))"
    using insert_segment_overwrites_range [OF _ _ _ i, of 3]
    by (simp add: insertable_def wf_range_def exact_bound_def dict_get_def segs_ok_def wf_seg_def
        aligned_def covers_def)
  then show ?thesis by (simp add: i)
qed

section \<open>Replaying the object delta\<close>

definition replay_object :: "command \<Rightarrow> (string \<rightharpoonup> json dict) \<Rightarrow> (string \<rightharpoonup> json dict)" where
  "replay_object c m =
     (case cmd_target c of
        JStr e \<Rightarrow> if cmd_operation c = ''delete'' then m(e := None) else m(e \<mapsto> cmd_values c)
      | _ \<Rightarrow> m)"

definition physical_in :: "json dict dict \<Rightarrow> string \<Rightarrow> json dict option" where
  "physical_in objects e = map_option physical_fields (map_of objects e)"

lemma dict_eq_refl [simp]: "dict_eq a a"
  by (simp add: dict_eq_def)

lemma dict_eq_sym: "dict_eq a b \<Longrightarrow> dict_eq b a"
  by (simp add: dict_eq_def py_eq_sym)

definition entity_commands :: "string \<Rightarrow> json dict dict \<Rightarrow> json dict dict \<Rightarrow> string \<Rightarrow> command list" where
  "entity_commands family base final e =
     (case object_net (position_fields family) (physical_in base e) (physical_in final e) of
        None \<Rightarrow> []
      | Some operation \<Rightarrow>
          [\<lparr>cmd_adapter = family, cmd_operation = operation, cmd_target = JStr e,
            cmd_values = (case physical_in final e of Some f \<Rightarrow> f | None \<Rightarrow> []),
            cmd_old_values = physical_in base e, cmd_time_index = None\<rparr>])"

lemma object_commands_eq:
  "object_commands family base final =
     concat (map (entity_commands family base final)
       (sort (remdups (dict_keys base @ dict_keys final))))"
  by (simp only: object_commands_def entity_commands_def [abs_def] physical_in_def Let_def)

lemma replay_entity:
  "fold replay_object (entity_commands family base final e) m x =
     (if x = e \<and> entity_commands family base final e \<noteq> [] then physical_in final e else m x)"
  by (auto simp: entity_commands_def object_net_def replay_object_def split: option.splits if_splits)

lemma entity_commands_Nil_iff:
  "entity_commands family base final e = [] \<longleftrightarrow> rel_option dict_eq (physical_in final e) (physical_in base e)"
  by (auto simp: entity_commands_def object_net_def split: option.splits)

lemma replay_entities:
  "fold replay_object (concat (map (entity_commands family base final) es)) m x =
     (if x \<in> set es \<and> entity_commands family base final x \<noteq> [] then physical_in final x else m x)"
  by (induction es arbitrary: m) (auto simp: replay_entity)

text \<open>The object delta is complete and minimal: replaying its commands on the baseline gives
  every entity its final physical fields (up to Python equality), it names an entity only if its
  physical fields changed, and it is a no-op exactly when nothing physical changed.\<close>

lemma object_delta_replays:
  "rel_option dict_eq
     (fold replay_object (fd_commands (object_delta family base final)) (physical_in (st_objects base)) e)
     (physical_in (st_objects final) e) \<and>
   (fd_is_noop (object_delta family base final) \<longleftrightarrow>
     (\<forall>e. rel_option dict_eq (physical_in (st_objects final) e) (physical_in (st_objects base) e)))"
proof -
  let ?b = "st_objects base" and ?f = "st_objects final"
  let ?es = "sort (remdups (dict_keys ?b @ dict_keys ?f))"
  have cmds: "fd_commands (object_delta family base final) = concat (map (entity_commands family ?b ?f) ?es)"
    "fd_is_noop (object_delta family base final) \<longleftrightarrow> concat (map (entity_commands family ?b ?f) ?es) = []"
    by (simp_all add: object_delta_def Let_def object_commands_eq)
  have out: "physical_in ?b x = None" "physical_in ?f x = None" if "x \<notin> set ?es" for x
    using that by (simp_all add: physical_in_def map_of_eq_None_iff)
  have same: "rel_option dict_eq (physical_in ?b x) (physical_in ?f x)"
    if "x \<notin> set ?es \<or> entity_commands family ?b ?f x = []" for x
    using that out [of x] unfolding entity_commands_Nil_iff
    by (cases "physical_in ?b x"; cases "physical_in ?f x") (auto dest: dict_eq_sym)
  have "rel_option dict_eq (physical_in ?f e) (physical_in ?f e)"
    by (cases "physical_in ?f e") simp_all
  then have "rel_option dict_eq (fold replay_object (concat (map (entity_commands family ?b ?f) ?es))
      (physical_in ?b) e) (physical_in ?f e)"
    unfolding replay_entities using same [of e] by simp
  moreover have "concat (map (entity_commands family ?b ?f) ?es) = [] \<longleftrightarrow>
      (\<forall>x. rel_option dict_eq (physical_in ?f x) (physical_in ?b x))"
  proof -
    have "concat (map (entity_commands family ?b ?f) ?es) = [] \<longleftrightarrow>
        (\<forall>x. x \<in> set ?es \<longrightarrow> entity_commands family ?b ?f x = [])" by auto
    also have "\<dots> \<longleftrightarrow> (\<forall>x. entity_commands family ?b ?f x = [])"
      using out by (metis entity_commands_Nil_iff option.rel_inject(1))
    finally show ?thesis by (simp only: entity_commands_Nil_iff)
  qed
  ultimately show ?thesis unfolding cmds by blast
qed

section \<open>Where the code leaves its documentation\<close>

text \<open>An operation of a family without a family state (the store accepts the families its
  edit adapters know, such as \<open>terrain_dem\<close>) passes the fold but makes the delta builder
  lookup raise, so its whole epoch cannot be reduced.\<close>

lemma reduce_epoch_unknown_family_raises:
  assumes "op_source_family op \<notin> set ALL_FAMILIES"
  shows "reduce_epoch b [op] = Inl (KeyError (op_source_family op))"
proof -
  have "op_source_family op \<notin> set OBJECT_FAMILIES" "op_source_family op \<notin> set SEGMENT_FAMILIES"
    "op_source_family op \<noteq> ''landcover_surface''" "op_source_family op \<noteq> ''output_view''"
    using assms by (auto simp: ALL_FAMILIES_def)
  then have "fold_op (work, fo) op = Inr (work, fo)" for work fo by (simp add: fold_op_def)
  then show ?thesis using assms by (simp add: reduce_epoch_def present_families_def build_delta_def)
qed

lemma reduce_epoch_unknown_family_raises_witness:
  "reduce_epoch (initial_state ''w'') [sample_op 1 ''ann'' ''terrain_dem'' None ''set'' []] =
     Inl (KeyError ''terrain_dem'')"
  using reduce_epoch_unknown_family_raises [of "sample_op 1 ''ann'' ''terrain_dem'' None ''set'' []"]
  by (simp add: sample_op_def family_names)

text \<open>A client field called \<open>generation\<close> overwrites the entity's generation, and the next
  delete of that entity raises on it, so its whole epoch cannot be reduced.\<close>

lemma reduce_epoch_generation_field_raises:
  "reduce_epoch (initial_state ''w'')
     [sample_op 1 ''ann'' ''building_geometry'' (Some ''b'') ''add'' [(''h'', JInt 3)],
      sample_op 2 ''ann'' ''building_geometry'' (Some ''b'') ''replace'' [(''generation'', JStr ''x'')],
      sample_op 3 ''ann'' ''building_geometry'' (Some ''b'') ''delete'' [(''h'', JInt 3)]] =
   Inl (ValueError ''x'')"
  by code_simp

definition sample_forcing :: canonical_state where
  "sample_forcing =
     \<lparr>cs_workspace_id = ''w'', cs_workspace_revision = 1,
      cs_families =
        [(''meteorological_forcing'', SegmentState
            [(''time_index'', [(0, Some 2, JInt 1), (3, Some 5, JInt 2), (6, Some 20, JInt 3)])])]\<rparr>"

definition sample_select :: operation where
  "sample_select = sample_op 1 ''ann'' ''selected_date_time'' None ''set''
     [(''values'', JObj [(''time_index'', JInt 7)])]"

definition sample_overlay :: operation where
  "sample_overlay = sample_op 2 ''bob'' ''meteorological_forcing'' None ''set''
     [(''time_start'', JInt 0), (''time_stop'', JInt 0), (''values'', JObj [(''time_index'', JInt 9)])]"

text \<open>Segment owners are shared by all segment families and keyed by the field name alone.
  When two segment families write a field of the same name in one epoch, the owner list of the
  first truncates the segments of the second: timesteps the epoch never wrote lose their
  baseline value.\<close>

lemma reduce_epoch_shared_field_loses_segments:
  "seg_at (segments_in (cs_families sample_forcing) ''meteorological_forcing'' ''time_index'') 10
     = Some (JInt 3) \<and>
   (case reduce_epoch sample_forcing [sample_select, sample_overlay] of
      Inr r \<Rightarrow> seg_at (segments_in (cs_families (er_state r)) ''meteorological_forcing'' ''time_index'') 10
        = None
    | Inl _ \<Rightarrow> False)"
  by code_simp

end
