(* ===== verification/Store_Base.thy ===== *)
theory Store_Base
  imports Reducer_Contract
begin

text \<open>
  The durable store, \<open>solweig_gpu/server/store.py\<close>: its tables, row records and errors, the
  transaction discipline, and the scenario, idempotency, job and result operations.

  A table is the list of its rows in rowid order. A mutating method is a function from the
  store to a sum: \<open>Inl\<close> is the exception it raises, after which \<open>_write\<close> has rolled the
  transaction back, so the caller keeps the old store; \<open>Inr\<close> carries the committed store
  and the result. Primary-key and uniqueness constraints are checked on insertion
  (\<open>IntegrityError\<close>). The clock is read several times in one method; its readings are a
  function from the index of the call, and the fresh identifiers are arguments. JSON columns
  hold the value they decode to; a column written with sorted keys holds the sorted value.
  The payload file of a result is the \<open>rs_payload\<close> field of its row, and
  \<open>rs_checksum\<close> is the manifest entry whose text the checksum column holds.
\<close>

section \<open>Errors\<close>

record stored_response =
  sr_status_code :: int
  sr_body :: json
  sr_headers :: "string dict"

datatype store_error =
    StoreError string
  | ScenarioNotFound string
  | JobNotFound string
  | SceneVersionConflict int
  | IdempotencyConflict string
  | OperationFingerprintConflict string
  | UnsupportedFamily string
  | IdempotentReplay stored_response
  | StaleResultError int int
  | ResultAlreadyPublished
  | ResultNotPublishable string string
  | SiteIdentityMismatch "json dict" "json dict"
  | EpochBaselineStale string int int
  | ScenarioQuotaExceeded int
  | IntegrityError string

section \<open>Rows\<close>

record scenario_record =
  sc_scenario_id :: string
  sc_site_id :: string
  sc_name :: string
  sc_scene_version :: int
  sc_exact_result_version :: int
  sc_status :: string
  sc_edit_sequence :: int
  sc_acked_sequence :: int
  sc_created_at :: stamp
  sc_updated_at :: stamp
  sc_site_identity :: "json dict option"
  sc_carries_family_edits :: bool
  sc_last_reset_sequence :: int
  sc_fast_revision :: int
  sc_exact_base_revision :: int

definition scenario_exact :: "scenario_record \<Rightarrow> bool" where
  "scenario_exact r \<longleftrightarrow> sc_scene_version r \<le> sc_exact_result_version r"

record job_record =
  jb_job_id :: string
  jb_scenario_id :: string
  jb_target_scene_version :: int
  jb_status :: string
  jb_stage :: "string option"
  jb_progress :: "json option"
  jb_mode :: "string option"
  jb_window :: "json option"
  jb_request :: "json option"
  jb_edit_watermark :: int
  jb_base_edit_watermark :: int
  jb_queued_at :: stamp
  jb_started_at :: "stamp option"
  jb_finished_at :: "stamp option"
  jb_worker_revision :: "string option"
  jb_metrics :: "json option"
  jb_error :: "json option"
  jb_result_scene_version :: "int option"
  jb_plan :: "json option"

record result_record =
  rs_scenario_id :: string
  rs_scene_version :: int
  rs_exact :: bool
  rs_manifest :: "json dict"
  rs_payload :: string
  rs_checksum :: "json option"
  rs_created_at :: stamp
  rs_job_id :: "string option"

record edit_event =
  ev_scenario_id :: string
  ev_sequence :: int
  ev_event_id :: string
  ev_base_scene_version :: int
  ev_operation :: string
  ev_tree_id :: "string option"
  ev_old_tree :: "json option"
  ev_new_tree :: "json option"
  ev_submitted_at :: stamp
  ev_idempotency_key :: "string option"
  ev_family :: "json option"

record idempotency_row =
  ik_scope :: string
  ik_key :: string
  ik_fingerprint :: string
  ik_response :: stored_response
  ik_created_at :: stamp

record canonical_row = canonical_state +
  cs_created_at :: stamp

record reconcile_row =
  rc_workspace_id :: string
  rc_last_completed_date :: string
  rc_owed :: bool
  rc_updated_at :: stamp

record export_row =
  ex_export_id :: string
  ex_scenario_id :: string
  ex_scene_version :: int
  ex_format :: string
  ex_variables :: "string list option"
  ex_time_indices :: "int list option"
  ex_status :: string
  ex_created_at :: stamp

record store =
  tb_scenarios :: "scenario_record list"
  tb_trees :: "((string \<times> string) \<times> json) list"
  tb_events :: "edit_event list"
  tb_idempotency :: "idempotency_row list"
  tb_jobs :: "job_record list"
  tb_results :: "result_record list"
  tb_exports :: "export_row list"
  tb_operations :: "operation list"
  tb_epochs :: "epoch_record list"
  tb_canonical :: "canonical_row list"
  tb_reconcile :: "reconcile_row list"

definition empty_store :: store where
  "empty_store =
     \<lparr>tb_scenarios = [], tb_trees = [], tb_events = [], tb_idempotency = [], tb_jobs = [],
      tb_results = [], tb_exports = [], tb_operations = [], tb_epochs = [], tb_canonical = [],
      tb_reconcile = []\<rparr>"

type_synonym clock = "nat \<Rightarrow> stamp"
type_synonym 'a tx = "store_error + store \<times> 'a"

definition TERMINAL_JOB_STATUSES :: "string list" where
  "TERMINAL_JOB_STATUSES = [''complete'', ''superseded'', ''failed'', ''cancelled'']"

text \<open>\<open>COALESCE(?, column)\<close>.\<close>

definition coalesce :: "'a option \<Rightarrow> 'a option \<Rightarrow> 'a option" where
  "coalesce a b = (case a of Some _ \<Rightarrow> a | None \<Rightarrow> b)"

text \<open>\<open>json.dumps(..., sort_keys=True)\<close>: the value with every object's keys sorted.\<close>

primrec json_canon :: "json \<Rightarrow> json" where
  "json_canon JNull = JNull"
| "json_canon (JBool b) = JBool b"
| "json_canon (JInt i) = JInt i"
| "json_canon (JFloat r) = JFloat r"
| "json_canon (JStr s) = JStr s"
| "json_canon (JArr xs) = JArr (map json_canon xs)"
| "json_canon (JObj kvs) = JObj (sort_key fst (map (map_prod id json_canon) kvs))"

section \<open>Scenarios\<close>

definition get_scenario :: "store \<Rightarrow> string \<Rightarrow> scenario_record option" where
  "get_scenario st sid = find (\<lambda>r. sc_scenario_id r = sid) (tb_scenarios st)"

definition require_scenario :: "store \<Rightarrow> string \<Rightarrow> store_error + scenario_record" where
  "require_scenario st sid =
     (case get_scenario st sid of None \<Rightarrow> Inl (ScenarioNotFound sid) | Some r \<Rightarrow> Inr r)"

definition count_scenarios :: "store \<Rightarrow> int" where
  "count_scenarios st = int (length (tb_scenarios st))"

definition current_scene_version :: "store \<Rightarrow> string \<Rightarrow> store_error + int" where
  "current_scene_version st sid = map_sum id sc_scene_version (require_scenario st sid)"

definition update_scenario ::
  "string \<Rightarrow> (scenario_record \<Rightarrow> scenario_record) \<Rightarrow> store \<Rightarrow> store" where
  "update_scenario sid f st =
     st\<lparr>tb_scenarios := update_rows (\<lambda>r. sc_scenario_id r = sid) f (tb_scenarios st)\<rparr>"

definition list_trees :: "store \<Rightarrow> string \<Rightarrow> json list" where
  "list_trees st sid =
     map snd (sort_key (\<lambda>r. snd (fst r)) (filter (\<lambda>r. fst (fst r) = sid) (tb_trees st)))"

definition list_events :: "store \<Rightarrow> string \<Rightarrow> int \<Rightarrow> edit_event list" where
  "list_events st sid after =
     order_by ev_sequence
       (filter (\<lambda>e. ev_scenario_id e = sid \<and> after < ev_sequence e) (tb_events st))"

definition carries_family_row :: "store \<Rightarrow> string \<Rightarrow> bool" where
  "carries_family_row st sid \<longleftrightarrow>
     (case get_scenario st sid of Some r \<Rightarrow> sc_carries_family_edits r | None \<Rightarrow> False) \<or>
     list_ex (\<lambda>e. ev_scenario_id e = sid \<and> ev_family e \<noteq> None) (tb_events st)"

text \<open>The on-disk coverage documents are read by the caller: \<open>covered\<close> is the larger of the two
  watermarks, \<^const>\<open>None\<close> when the state directory does not exist.\<close>

definition executor_state_postdates_reset :: "store \<Rightarrow> string \<Rightarrow> int option \<Rightarrow> bool" where
  "executor_state_postdates_reset st sid covered =
     (case covered of
        None \<Rightarrow> False
      | Some c \<Rightarrow>
          (case get_scenario st sid of Some r \<Rightarrow> sc_last_reset_sequence r | None \<Rightarrow> 0) < max 0 c)"

definition scenario_carries_family_edits :: "store \<Rightarrow> string \<Rightarrow> int option \<Rightarrow> bool" where
  "scenario_carries_family_edits st sid covered \<longleftrightarrow>
     carries_family_row st sid \<or> executor_state_postdates_reset st sid covered"

section \<open>Site identity\<close>

definition IDENTITY_FIELDS :: "string list" where
  "IDENTITY_FIELDS =
     [''site_id'', ''rows'', ''cols'', ''pixel_size_m'', ''origin_x_m'', ''origin_y_m'',
      ''time_steps'']"

fun is_bool :: "json option \<Rightarrow> bool" where
  "is_bool (Some (JBool _)) \<longleftrightarrow> True"
| "is_bool _ \<longleftrightarrow> False"

text \<open>\<open>float(v)\<close> of a value that is an \<open>int\<close> (a \<open>bool\<close> included) or a \<open>float\<close>.\<close>

fun as_float :: "json option \<Rightarrow> rat option" where
  "as_float (Some (JBool b)) = Some (if b then 1 else 0)"
| "as_float (Some (JInt i)) = Some (of_int (float_of_int i))"
| "as_float (Some (JFloat r)) = Some r"
| "as_float _ = None"

definition field_differs :: "json option \<Rightarrow> json option \<Rightarrow> bool" where
  "field_differs expected value \<longleftrightarrow>
     \<not> is_none expected \<and>
     (is_bool expected \<noteq> is_bool value \<or>
      (case (as_float expected, as_float value) of
         (Some a, Some b) \<Rightarrow> a \<noteq> b
       | _ \<Rightarrow> (case value of
                 None \<Rightarrow> True
               | Some v \<Rightarrow> \<not> py_eq (the expected) v)))"

definition identity_differs :: "json dict \<Rightarrow> json dict \<Rightarrow> bool" where
  "identity_differs pinned current \<longleftrightarrow>
     list_ex (\<lambda>f. field_differs (map_of pinned f) (map_of current f)) IDENTITY_FIELDS"

definition verify_site_identity ::
  "clock \<Rightarrow> string \<Rightarrow> json dict \<Rightarrow> store \<Rightarrow> scenario_record tx" where
  "verify_site_identity clk sid current st =
     (case require_scenario st sid of
        Inl e \<Rightarrow> Inl e
      | Inr scenario \<Rightarrow>
          (case sc_site_identity scenario of
             Some pinned \<Rightarrow>
               if identity_differs pinned current then Inl (SiteIdentityMismatch pinned current)
               else Inr (st, scenario)
           | None \<Rightarrow>
               (let st' = update_scenario sid
                      (\<lambda>r. r\<lparr>sc_site_identity := Some (mapping (json_canon (JObj current))),
                             sc_updated_at := clk 0\<rparr>) st
                in map_sum id (\<lambda>r. (st', r)) (require_scenario st' sid))))"

section \<open>Idempotency\<close>

definition find_idempotency :: "store \<Rightarrow> string \<Rightarrow> string \<Rightarrow> idempotency_row option" where
  "find_idempotency st scope key =
     find (\<lambda>r. ik_scope r = scope \<and> ik_key r = key) (tb_idempotency st)"

definition lookup_idempotency :: "store \<Rightarrow> string \<Rightarrow> string \<Rightarrow> stored_response option" where
  "lookup_idempotency st scope key = map_option ik_response (find_idempotency st scope key)"

definition check_idempotency ::
  "store \<Rightarrow> string \<Rightarrow> string \<Rightarrow> string \<Rightarrow> store_error + stored_response option" where
  "check_idempotency st scope key fingerprint =
     (case find_idempotency st scope key of
        None \<Rightarrow> Inr None
      | Some r \<Rightarrow> if ik_fingerprint r \<noteq> fingerprint then Inl (IdempotencyConflict key)
                  else Inr (Some (ik_response r)))"

definition check_idempotency_locked ::
  "store \<Rightarrow> string \<Rightarrow> string \<Rightarrow> string \<Rightarrow> store_error + unit" where
  "check_idempotency_locked st scope key fingerprint =
     (case find_idempotency st scope key of
        None \<Rightarrow> Inr ()
      | Some r \<Rightarrow> if ik_fingerprint r \<noteq> fingerprint then Inl (IdempotencyConflict key)
                  else Inl (IdempotentReplay (ik_response r)))"

definition store_idempotency ::
  "stamp \<Rightarrow> string \<Rightarrow> string \<Rightarrow> string \<Rightarrow> stored_response \<Rightarrow> store \<Rightarrow> store_error + store" where
  "store_idempotency now scope key fingerprint response st =
     (if find_idempotency st scope key \<noteq> None then Inl (IntegrityError ''idempotency_keys'')
      else Inr (st\<lparr>tb_idempotency := tb_idempotency st @
             [\<lparr>ik_scope = scope, ik_key = key, ik_fingerprint = fingerprint,
               ik_response = response, ik_created_at = now\<rparr>]\<rparr>))"

text \<open>The optional key and fingerprint of a mutation: both must be non-empty to take part.\<close>

definition keyed :: "string option \<Rightarrow> string option \<Rightarrow> (string \<times> string) option" where
  "keyed key fingerprint =
     (case (key, fingerprint) of
        (Some k, Some f) \<Rightarrow> if k \<noteq> [] \<and> f \<noteq> [] then Some (k, f) else None
      | _ \<Rightarrow> None)"

definition guard_idempotency ::
  "store \<Rightarrow> string \<Rightarrow> (string \<times> string) option \<Rightarrow> store_error + unit" where
  "guard_idempotency st scope kf =
     (case kf of None \<Rightarrow> Inr () | Some (k, f) \<Rightarrow> check_idempotency_locked st scope k f)"

definition save_idempotency ::
  "stamp \<Rightarrow> string \<Rightarrow> (string \<times> string) option \<Rightarrow> stored_response \<Rightarrow> store \<Rightarrow> store_error + store" where
  "save_idempotency now scope kf response st =
     (case kf of None \<Rightarrow> Inr st | Some (k, f) \<Rightarrow> store_idempotency now scope k f response st)"

section \<open>Jobs\<close>

definition get_job :: "store \<Rightarrow> string \<Rightarrow> job_record option" where
  "get_job st jid = find (\<lambda>j. jb_job_id j = jid) (tb_jobs st)"

definition require_job :: "store \<Rightarrow> string \<Rightarrow> store_error + job_record" where
  "require_job st jid = (case get_job st jid of None \<Rightarrow> Inl (JobNotFound jid) | Some j \<Rightarrow> Inr j)"

definition insert_job_locked ::
  "stamp \<Rightarrow> string \<Rightarrow> string \<Rightarrow> int \<Rightarrow> json \<Rightarrow> int \<Rightarrow> int \<Rightarrow> store \<Rightarrow> store_error + store" where
  "insert_job_locked now jid sid target request watermark base_watermark st =
     (if get_job st jid \<noteq> None then Inl (IntegrityError ''jobs'')
      else Inr (st\<lparr>tb_jobs := tb_jobs st @
        [\<lparr>jb_job_id = jid, jb_scenario_id = sid, jb_target_scene_version = target,
          jb_status = ''queued'', jb_stage = None, jb_progress = None, jb_mode = None,
          jb_window = None, jb_request = Some (json_canon request), jb_edit_watermark = watermark,
          jb_base_edit_watermark = base_watermark, jb_queued_at = now, jb_started_at = None,
          jb_finished_at = None, jb_worker_revision = None, jb_metrics = None, jb_error = None,
          jb_result_scene_version = None, jb_plan = None\<rparr>]\<rparr>))"

definition update_jobs :: "(job_record \<Rightarrow> bool) \<Rightarrow> (job_record \<Rightarrow> job_record) \<Rightarrow> store \<Rightarrow> store" where
  "update_jobs p f st = st\<lparr>tb_jobs := update_rows p f (tb_jobs st)\<rparr>"

text \<open>\<open>cursor.rowcount > 0\<close> of an update.\<close>

definition any_row :: "('r \<Rightarrow> bool) \<Rightarrow> 'r list \<Rightarrow> bool" where
  "any_row p rows = list_ex p rows"

definition latest_job_for_scenario :: "store \<Rightarrow> string \<Rightarrow> job_record option" where
  "latest_job_for_scenario st sid = find (\<lambda>j. jb_scenario_id j = sid) (rev (tb_jobs st))"

definition index_of :: "string \<Rightarrow> string list \<Rightarrow> nat option" where
  "index_of x xs = map_option fst (find (\<lambda>p. snd p = x) (enumerate 0 xs))"

definition queue_position :: "store \<Rightarrow> string \<Rightarrow> int option" where
  "queue_position st jid =
     (case get_job st jid of
        None \<Rightarrow> None
      | Some j \<Rightarrow>
          if jb_status j \<noteq> ''queued'' then None
          else map_option (\<lambda>i. int i + 1)
                 (index_of jid (map jb_job_id (filter (\<lambda>j. jb_status j = ''queued'') (tb_jobs st)))))"

definition nonterminal_jobs :: "store \<Rightarrow> job_record list" where
  "nonterminal_jobs st = filter (\<lambda>j. jb_status j \<in> {''queued'', ''running''}) (tb_jobs st)"

definition supersede_queued_locked :: "stamp \<Rightarrow> string \<Rightarrow> string option \<Rightarrow> store \<Rightarrow> store" where
  "supersede_queued_locked now sid except st =
     update_jobs
       (\<lambda>j. jb_scenario_id j = sid \<and> jb_status j = ''queued''
            \<and> jb_job_id j \<noteq> (case except of Some x \<Rightarrow> x | None \<Rightarrow> []))
       (\<lambda>j. j\<lparr>jb_status := ''superseded'', jb_finished_at := Some now\<rparr>) st"

definition mark_job_running :: "clock \<Rightarrow> string \<Rightarrow> store \<Rightarrow> store" where
  "mark_job_running clk jid st =
     update_jobs (\<lambda>j. jb_job_id j = jid \<and> jb_status j = ''queued'')
       (\<lambda>j. j\<lparr>jb_status := ''running'', jb_started_at := Some (clk 0), jb_stage := Some ''starting''\<rparr>) st"

definition requeued :: "job_record \<Rightarrow> job_record" where
  "requeued j =
     j\<lparr>jb_status := ''queued'', jb_started_at := None, jb_stage := None, jb_progress := None,
       jb_mode := None, jb_window := None, jb_error := None, jb_finished_at := None\<rparr>"

definition requeue_failed_job :: "string \<Rightarrow> store \<Rightarrow> store \<times> bool" where
  "requeue_failed_job jid st =
     (let p = (\<lambda>j. jb_job_id j = jid \<and> jb_status j \<in> {''failed'', ''cancelled''})
      in (update_jobs p requeued st, any_row p (tb_jobs st)))"

definition requeue_running_job :: "string \<Rightarrow> store \<Rightarrow> store \<times> bool" where
  "requeue_running_job jid st =
     (let p = (\<lambda>j. jb_job_id j = jid \<and> jb_status j = ''running'')
      in (update_jobs p requeued st, any_row p (tb_jobs st)))"

definition update_job_progress ::
  "string \<Rightarrow> string option \<Rightarrow> json option \<Rightarrow> string option \<Rightarrow> json option \<Rightarrow> store \<Rightarrow> store" where
  "update_job_progress jid stage progress mode window st =
     update_jobs (\<lambda>j. jb_job_id j = jid \<and> jb_status j = ''running'')
       (\<lambda>j. j\<lparr>jb_stage := coalesce stage (jb_stage j),
              jb_progress := coalesce progress (jb_progress j),
              jb_mode := coalesce mode (jb_mode j),
              jb_window := coalesce window (jb_window j)\<rparr>) st"

text \<open>The optional columns a finished job writes.\<close>

record job_outcome =
  jo_mode :: "string option"
  jo_window :: "json option"
  jo_metrics :: "json option"
  jo_error :: "json option"
  jo_result_scene_version :: "int option"
  jo_worker_revision :: "string option"
  jo_plan :: "json option"

definition no_outcome :: job_outcome where
  "no_outcome =
     \<lparr>jo_mode = None, jo_window = None, jo_metrics = None, jo_error = None,
      jo_result_scene_version = None, jo_worker_revision = None, jo_plan = None\<rparr>"

definition finish_job :: "clock \<Rightarrow> string \<Rightarrow> string \<Rightarrow> job_outcome \<Rightarrow> store \<Rightarrow> bool tx" where
  "finish_job clk jid status oc st =
     (if status \<notin> set TERMINAL_JOB_STATUSES then Inl (StoreError ''invalid terminal job status'')
      else
        let p = (\<lambda>j. jb_job_id j = jid \<and> jb_status j \<in> {''queued'', ''running''})
        in Inr (update_jobs p
             (\<lambda>j. j\<lparr>jb_status := status, jb_finished_at := Some (clk 0),
                    jb_mode := coalesce (jo_mode oc) (jb_mode j),
                    jb_window := coalesce (jo_window oc) (jb_window j),
                    jb_metrics := map_option json_canon (jo_metrics oc),
                    jb_error := map_option json_canon (jo_error oc),
                    jb_result_scene_version := jo_result_scene_version oc,
                    jb_worker_revision := coalesce (jo_worker_revision oc) (jb_worker_revision j),
                    jb_plan := coalesce (map_option json_canon (jo_plan oc)) (jb_plan j)\<rparr>) st,
             any_row p (tb_jobs st)))"

section \<open>Reconciliation bookkeeping\<close>

definition find_reconcile :: "store \<Rightarrow> string \<Rightarrow> reconcile_row option" where
  "find_reconcile st ws = find (\<lambda>r. rc_workspace_id r = ws) (tb_reconcile st)"

definition mark_reconcile_owed :: "clock \<Rightarrow> string \<Rightarrow> store \<Rightarrow> store" where
  "mark_reconcile_owed clk ws st =
     (case find_reconcile st ws of
        None \<Rightarrow>
          st\<lparr>tb_reconcile := tb_reconcile st @
               [\<lparr>rc_workspace_id = ws, rc_last_completed_date = ''1970-01-01'', rc_owed = True,
                 rc_updated_at = clk 0\<rparr>]\<rparr>
      | Some _ \<Rightarrow>
          st\<lparr>tb_reconcile :=
               update_rows (\<lambda>r. rc_workspace_id r = ws \<and> \<not> rc_owed r)
                 (\<lambda>r. r\<lparr>rc_owed := True, rc_updated_at := clk 0\<rparr>) (tb_reconcile st)\<rparr>)"

definition mark_reconcile_completed :: "clock \<Rightarrow> string \<Rightarrow> string \<Rightarrow> store \<Rightarrow> store" where
  "mark_reconcile_completed clk ws date st =
     (case find_reconcile st ws of
        None \<Rightarrow>
          st\<lparr>tb_reconcile := tb_reconcile st @
               [\<lparr>rc_workspace_id = ws, rc_last_completed_date = date, rc_owed = False,
                 rc_updated_at = clk 0\<rparr>]\<rparr>
      | Some _ \<Rightarrow>
          st\<lparr>tb_reconcile :=
               update_rows (\<lambda>r. rc_workspace_id r = ws)
                 (\<lambda>r. r\<lparr>rc_last_completed_date := date, rc_owed := False, rc_updated_at := clk 0\<rparr>)
                 (tb_reconcile st)\<rparr>)"

definition clear_reconcile_owed :: "clock \<Rightarrow> string \<Rightarrow> store \<Rightarrow> store" where
  "clear_reconcile_owed clk ws st =
     st\<lparr>tb_reconcile :=
          update_rows (\<lambda>r. rc_workspace_id r = ws \<and> rc_owed r)
            (\<lambda>r. r\<lparr>rc_owed := False, rc_updated_at := clk 0\<rparr>) (tb_reconcile st)\<rparr>"

definition reconcile_state :: "store \<Rightarrow> string \<Rightarrow> string option \<times> bool" where
  "reconcile_state st ws =
     (case find_reconcile st ws of
        None \<Rightarrow> (None, False) | Some r \<Rightarrow> (Some (rc_last_completed_date r), rc_owed r))"

definition workspaces_owing_reconcile :: "store \<Rightarrow> string list" where
  "workspaces_owing_reconcile st =
     sort (map rc_workspace_id (filter rc_owed (tb_reconcile st)))"

definition last_full_result_version :: "store \<Rightarrow> string \<Rightarrow> int option" where
  "last_full_result_version st sid =
     Option.bind
       (find (\<lambda>j. jb_scenario_id j = sid \<and> jb_status j = ''complete'' \<and> jb_mode j = Some ''full''
                  \<and> jb_result_scene_version j \<noteq> None) (rev (tb_jobs st)))
       jb_result_scene_version"

section \<open>Results\<close>

definition get_result :: "store \<Rightarrow> string \<Rightarrow> int \<Rightarrow> result_record option" where
  "get_result st sid version =
     find (\<lambda>r. rs_scenario_id r = sid \<and> rs_scene_version r = version) (tb_results st)"

definition result_versions :: "store \<Rightarrow> string \<Rightarrow> int list" where
  "result_versions st sid =
     sort (map rs_scene_version (filter (\<lambda>r. rs_scenario_id r = sid) (tb_results st)))"

definition latest_result :: "store \<Rightarrow> string \<Rightarrow> result_record option" where
  "latest_result st sid =
     (case order_by (\<lambda>r. - rs_scene_version r)
             (filter (\<lambda>r. rs_scenario_id r = sid) (tb_results st)) of
        [] \<Rightarrow> None | r # _ \<Rightarrow> Some r)"

definition new_result ::
  "stamp \<Rightarrow> string \<Rightarrow> int \<Rightarrow> json dict \<Rightarrow> string \<Rightarrow> bool \<Rightarrow> string option \<Rightarrow> result_record" where
  "new_result now sid version manifest payload exact jid =
     \<lparr>rs_scenario_id = sid, rs_scene_version = version, rs_exact = exact,
      rs_manifest = mapping (json_canon (JObj manifest)), rs_payload = payload,
      rs_checksum = map_of manifest ''checksum'', rs_created_at = now, rs_job_id = jid\<rparr>"

definition mark_exact :: "stamp \<Rightarrow> int \<Rightarrow> int option \<Rightarrow> scenario_record \<Rightarrow> scenario_record" where
  "mark_exact now version acked r =
     r\<lparr>sc_exact_result_version := version, sc_status := ''exact'',
       sc_acked_sequence := max (sc_acked_sequence r) (case acked of Some a \<Rightarrow> a | None \<Rightarrow> 0),
       sc_updated_at := now\<rparr>"

definition publish_result_locked ::
  "stamp \<Rightarrow> stamp \<Rightarrow> string \<Rightarrow> int \<Rightarrow> json dict \<Rightarrow> string \<Rightarrow> bool \<Rightarrow> string option \<Rightarrow> int option \<Rightarrow> store
   \<Rightarrow> store_error + store" where
  "publish_result_locked t0 t1 sid version manifest payload exact jid acked st =
     (case require_scenario st sid of
        Inl e \<Rightarrow> Inl e
      | Inr scenario \<Rightarrow>
          if version \<noteq> sc_scene_version scenario
          then Inl (StaleResultError version (sc_scene_version scenario))
          else if get_result st sid version \<noteq> None then Inl ResultAlreadyPublished
          else
            let st' = st\<lparr>tb_results := tb_results st @
                          [new_result t0 sid version manifest payload exact jid]\<rparr>
            in Inr (if exact \<and> sc_exact_result_version scenario \<le> version
                    then update_scenario sid (mark_exact t1 version acked) st' else st'))"

definition publish_result ::
  "clock \<Rightarrow> string \<Rightarrow> int \<Rightarrow> json dict \<Rightarrow> string \<Rightarrow> bool \<Rightarrow> string option \<Rightarrow> int option \<Rightarrow> store
   \<Rightarrow> store_error + store" where
  "publish_result clk sid version manifest payload exact jid acked st =
     (case jid of
        None \<Rightarrow> publish_result_locked (clk 0) (clk 1) sid version manifest payload exact jid acked st
      | Some j \<Rightarrow>
          (case get_job st j of
             None \<Rightarrow> Inl (ResultNotPublishable j ''unknown'')
           | Some job \<Rightarrow>
               if jb_status job \<noteq> ''running'' then Inl (ResultNotPublishable j (jb_status job))
               else publish_result_locked (clk 0) (clk 1) sid version manifest payload exact jid acked st))"

definition result_payload_url :: "string \<Rightarrow> int \<Rightarrow> string" where
  "result_payload_url sid version =
     ''/api/v1/scenarios/'' @ sid @ ''/results/'' @ show_int version @ ''/payload''"

text \<open>\<open>str(item)\<close> of the override's and the source's limitation entries is a parameter.\<close>

definition merged_limitations :: "(json \<Rightarrow> string) \<Rightarrow> json option \<Rightarrow> json list \<Rightarrow> json" where
  "merged_limitations str existing added =
     (let before = (case existing of
            None \<Rightarrow> [] | Some JNull \<Rightarrow> [] | Some (JArr xs) \<Rightarrow> xs | Some v \<Rightarrow> [v])
      in JArr (map (\<lambda>v. JStr (str v)) (before @ added)))"

text \<open>An override is its plain entries and the optional list popped from its
  \<open>limitations\<close> entry.\<close>

definition overridden_manifest ::
  "(json \<Rightarrow> string) \<Rightarrow> json dict \<times> json list option \<Rightarrow> json dict \<Rightarrow> json dict" where
  "overridden_manifest str override manifest =
     (let updated = fold (\<lambda>(k, v) d. AList.update k v d) (fst override) manifest
      in case snd override of
           Some added \<Rightarrow>
             AList.update ''limitations''
               (merged_limitations str (map_of updated ''limitations'') added) updated
         | None \<Rightarrow> updated)"

definition republish_result_at_version ::
  "(json \<Rightarrow> string) \<Rightarrow> clock \<Rightarrow> string \<Rightarrow> int \<Rightarrow> int \<Rightarrow> string option
   \<Rightarrow> (json dict \<times> json list option) option \<Rightarrow> store \<Rightarrow> store_error + store" where
  "republish_result_at_version str clk sid source target jid override st =
     (case get_result st sid source of
        None \<Rightarrow> Inl (StoreError ''cannot republish'')
      | Some r \<Rightarrow>
          (let merged = (case override of
                 None \<Rightarrow> rs_manifest r | Some ov \<Rightarrow> overridden_manifest str ov (rs_manifest r));
               manifest = AList.update ''payload_url'' (JStr (result_payload_url sid target))
                            (AList.update ''scene_version'' (JInt target) merged)
           in publish_result clk sid target manifest (rs_payload r) True jid None st))"

definition record_export ::
  "clock \<Rightarrow> string \<Rightarrow> string \<Rightarrow> int \<Rightarrow> string \<Rightarrow> string list option \<Rightarrow> int list option \<Rightarrow> store
   \<Rightarrow> string tx" where
  "record_export clk eid sid version fmt variables time_indices st =
     (if list_ex (\<lambda>x. ex_export_id x = eid) (tb_exports st) then Inl (IntegrityError ''exports'')
      else Inr (st\<lparr>tb_exports := tb_exports st @
        [\<lparr>ex_export_id = eid, ex_scenario_id = sid, ex_scene_version = version, ex_format = fmt,
          ex_variables = variables, ex_time_indices = time_indices, ex_status = ''accepted'',
          ex_created_at = clk 0\<rparr>]\<rparr>, eid))"

definition list_exports :: "store \<Rightarrow> string \<Rightarrow> export_row list" where
  "list_exports st sid = filter (\<lambda>x. ex_scenario_id x = sid) (tb_exports st)"

definition result_count :: "store \<Rightarrow> int" where
  "result_count st = int (length (tb_results st))"

end
