(* ===== verification/Store_Edits.thy ===== *)
theory Store_Edits
  imports Store_Base
begin

text \<open>
  The versioned mutations of a scenario: creation, tree edits, universal (family) edits and
  reset, each one transaction with its idempotency guard, version check, ledger events, job and
  stored response; and the retention sweep over the ledgers.

  The callbacks \<open>baseline_publisher\<close> and \<open>response_builder\<close> are function arguments. Clock
  readings and fresh identifiers are arguments as in the store base.
\<close>

section \<open>Creation\<close>

definition new_scenario ::
  "stamp \<Rightarrow> string \<Rightarrow> string \<Rightarrow> string \<Rightarrow> json dict option \<Rightarrow> scenario_record" where
  "new_scenario now sid site name identity =
     \<lparr>sc_scenario_id = sid, sc_site_id = site, sc_name = name, sc_scene_version = 0,
      sc_exact_result_version = 0, sc_status = ''refining'', sc_edit_sequence = 0,
      sc_acked_sequence = 0, sc_created_at = now, sc_updated_at = now,
      sc_site_identity = map_option (\<lambda>d. mapping (json_canon (JObj d))) identity,
      sc_carries_family_edits = False, sc_last_reset_sequence = 0, sc_fast_revision = 0,
      sc_exact_base_revision = 0\<rparr>"

definition insert_scenario :: "scenario_record \<Rightarrow> store \<Rightarrow> store_error + store" where
  "insert_scenario r st =
     (if get_scenario st (sc_scenario_id r) \<noteq> None then Inl (IntegrityError ''scenarios'')
      else Inr (st\<lparr>tb_scenarios := tb_scenarios st @ [r]\<rparr>))"

record create_request =
  cr_site_id :: string
  cr_name :: string
  cr_scenario_id :: string
  cr_keyed :: "(string \<times> string) option"
  cr_max_scenarios :: "int option"
  cr_site_identity :: "json dict option"

definition create_scenario ::
  "clock \<Rightarrow> string \<Rightarrow> (string \<Rightarrow> int \<Rightarrow> json dict \<times> string) option \<Rightarrow>
   (scenario_record \<Rightarrow> string option \<Rightarrow> stored_response) \<Rightarrow> create_request \<Rightarrow> store \<Rightarrow>
   (scenario_record \<times> string option) tx" where
  "create_scenario clk jid publisher respond req st =
     (let sid = cr_scenario_id req in
      case guard_idempotency st ''_create'' (cr_keyed req) of
        Inl e \<Rightarrow> Inl e
      | Inr _ \<Rightarrow>
          if (case cr_max_scenarios req of Some n \<Rightarrow> n \<le> count_scenarios st | None \<Rightarrow> False)
          then Inl (ScenarioQuotaExceeded (the (cr_max_scenarios req)))
          else
            case insert_scenario
                   (new_scenario (clk 0) sid (cr_site_id req) (cr_name req) (cr_site_identity req)) st of
              Inl e \<Rightarrow> Inl e
            | Inr st1 \<Rightarrow>
                let landed =
                  (case publisher of
                     Some pub \<Rightarrow>
                       (let (manifest, payload) = pub sid 0 in
                        map_sum id (\<lambda>s. (s, None))
                          (publish_result_locked (clk 1) (clk 2) sid 0 manifest payload True None (Some 0) st1))
                   | None \<Rightarrow>
                       map_sum id (\<lambda>s. (s, Some jid))
                         (insert_job_locked (clk 1) jid sid 0 (JObj [(''baseline'', JBool True)]) 0 0 st1))
                in case landed of
                     Inl e \<Rightarrow> Inl e
                   | Inr (st2, job) \<Rightarrow>
                       (case require_scenario st2 sid of
                          Inl e \<Rightarrow> Inl e
                        | Inr record \<Rightarrow>
                            map_sum id (\<lambda>s. (s, (record, job)))
                              (save_idempotency (clk 3) ''_create'' (cr_keyed req) (respond record job) st2)))"

section \<open>Edit batches\<close>

record tree_edit =
  te_operation :: string
  te_tree_id :: string
  te_old_tree :: "json option"
  te_new_tree :: "json option"

record family_edit =
  fe_operation :: string
  fe_payload :: json

definition insert_event :: "edit_event \<Rightarrow> store \<Rightarrow> store_error + store" where
  "insert_event e st =
     (if list_ex (\<lambda>x. ev_scenario_id x = ev_scenario_id e \<and> ev_sequence x = ev_sequence e)
           (tb_events st)
      then Inl (IntegrityError ''edit_events'')
      else Inr (st\<lparr>tb_events := tb_events st @ [e]\<rparr>))"

definition tree_event ::
  "stamp \<Rightarrow> string \<Rightarrow> int \<Rightarrow> string \<Rightarrow> int \<Rightarrow> string option \<Rightarrow> tree_edit \<Rightarrow> edit_event" where
  "tree_event now sid sequence eid base key edit =
     \<lparr>ev_scenario_id = sid, ev_sequence = sequence, ev_event_id = eid,
      ev_base_scene_version = base, ev_operation = te_operation edit,
      ev_tree_id = Some (te_tree_id edit), ev_old_tree = te_old_tree edit,
      ev_new_tree = te_new_tree edit, ev_submitted_at = now, ev_idempotency_key = key,
      ev_family = None\<rparr>"

text \<open>\<open>json.dumps(edit["new_tree"])\<close> of an absent tree is the JSON null.\<close>

definition apply_tree_edit :: "string \<Rightarrow> tree_edit \<Rightarrow> store \<Rightarrow> store" where
  "apply_tree_edit sid edit st =
     (if te_operation edit = ''delete''
      then st\<lparr>tb_trees := AList.delete (sid, te_tree_id edit) (tb_trees st)\<rparr>
      else st\<lparr>tb_trees := AList.update (sid, te_tree_id edit)
             (case te_new_tree edit of Some t \<Rightarrow> t | None \<Rightarrow> JNull) (tb_trees st)\<rparr>)"

definition tree_edit_step ::
  "stamp \<Rightarrow> (nat \<Rightarrow> string) \<Rightarrow> string \<Rightarrow> int \<Rightarrow> string option \<Rightarrow> int \<Rightarrow>
   store \<times> int \<Rightarrow> tree_edit \<Rightarrow> store_error + store \<times> int" where
  "tree_edit_step now eids sid base key start s edit =
     (let (st, sequence) = s; next = sequence + 1 in
      map_sum id (\<lambda>st'. (apply_tree_edit sid edit st', next))
        (insert_event (tree_event now sid next (eids (nat (next - start))) base key edit) st))"

definition family_event ::
  "stamp \<Rightarrow> string \<Rightarrow> int \<Rightarrow> string \<Rightarrow> int \<Rightarrow> string option \<Rightarrow> family_edit \<Rightarrow> edit_event" where
  "family_event now sid sequence eid base key edit =
     \<lparr>ev_scenario_id = sid, ev_sequence = sequence, ev_event_id = eid,
      ev_base_scene_version = base, ev_operation = fe_operation edit, ev_tree_id = None,
      ev_old_tree = None, ev_new_tree = None, ev_submitted_at = now, ev_idempotency_key = key,
      ev_family = Some (json_canon (fe_payload edit))\<rparr>"

definition family_edit_step ::
  "stamp \<Rightarrow> (nat \<Rightarrow> string) \<Rightarrow> string \<Rightarrow> int \<Rightarrow> string option \<Rightarrow> int \<Rightarrow>
   store \<times> int \<Rightarrow> family_edit \<Rightarrow> store_error + store \<times> int" where
  "family_edit_step now eids sid base key start s edit =
     (let (st, sequence) = s; next = sequence + 1 in
      map_sum id (\<lambda>st'. (st', next))
        (insert_event (family_event now sid next (eids (nat (next - start))) base key edit) st))"

text \<open>The arguments the two edit commits share.\<close>

record edit_request =
  er_base_scene_version :: int
  er_requested :: "json dict"
  er_key :: "string option"
  er_fingerprint :: "string option"

definition edited_row :: "stamp \<Rightarrow> int \<Rightarrow> int \<Rightarrow> scenario_record \<Rightarrow> scenario_record" where
  "edited_row now version sequence r =
     r\<lparr>sc_scene_version := version, sc_status := ''refining'', sc_edit_sequence := sequence,
       sc_updated_at := now\<rparr>"

text \<open>
  The body shared by \<open>commit_edits\<close> and \<open>commit_universal_edits\<close>, which the source writes
  twice: guard, version check, ledger loop, job insertion on the published watermark,
  supersession, version bump and stored response. \<open>finish\<close> is the extra column the
  universal commit writes.
\<close>

definition commit_batch ::
  "clock \<Rightarrow> string \<Rightarrow> (scenario_record \<Rightarrow> string \<Rightarrow> stored_response) \<Rightarrow>
   (stamp \<Rightarrow> scenario_record \<Rightarrow> store \<times> int \<Rightarrow> store_error + store \<times> int) \<Rightarrow>
   (scenario_record \<Rightarrow> scenario_record) \<Rightarrow> string \<Rightarrow> edit_request \<Rightarrow> store \<Rightarrow>
   (scenario_record \<times> string) tx" where
  "commit_batch clk jid respond ledger finish sid req st =
     (let kf = keyed (er_key req) (er_fingerprint req) in
      case guard_idempotency st sid kf of
        Inl e \<Rightarrow> Inl e
      | Inr _ \<Rightarrow>
          (case require_scenario st sid of
             Inl e \<Rightarrow> Inl e
           | Inr scenario \<Rightarrow>
               if er_base_scene_version req \<noteq> sc_scene_version scenario
               then Inl (SceneVersionConflict (sc_scene_version scenario))
               else
                 let now = clk 0; new_version = sc_scene_version scenario + 1 in
                 case ledger now scenario (st, sc_edit_sequence scenario) of
                   Inl e \<Rightarrow> Inl e
                 | Inr (st1, sequence) \<Rightarrow>
                     (case insert_job_locked (clk 1) jid sid new_version (JObj (er_requested req)) sequence
                             (sc_acked_sequence scenario) st1 of
                        Inl e \<Rightarrow> Inl e
                      | Inr st2 \<Rightarrow>
                          (let st3 = supersede_queued_locked (clk 2) sid (Some jid) st2;
                               st4 = update_scenario sid (finish \<circ> edited_row now new_version sequence) st3
                           in case require_scenario st4 sid of
                                Inl e \<Rightarrow> Inl e
                              | Inr record \<Rightarrow>
                                  map_sum id (\<lambda>s. (s, (record, jid)))
                                    (save_idempotency (clk 3) sid kf (respond record jid) st4)))))"

definition commit_edits ::
  "clock \<Rightarrow> string \<Rightarrow> (nat \<Rightarrow> string) \<Rightarrow> (scenario_record \<Rightarrow> string \<Rightarrow> stored_response) \<Rightarrow> string \<Rightarrow>
   edit_request \<Rightarrow> tree_edit list \<Rightarrow> store \<Rightarrow> (scenario_record \<times> string) tx" where
  "commit_edits clk jid eids respond sid req edits =
     commit_batch clk jid respond
       (\<lambda>now scenario s.
          fold_exc (tree_edit_step now eids sid (er_base_scene_version req) (er_key req)
                      (sc_edit_sequence scenario)) s edits)
       id sid req"

definition commit_universal_edits ::
  "clock \<Rightarrow> string \<Rightarrow> (nat \<Rightarrow> string) \<Rightarrow> (scenario_record \<Rightarrow> string \<Rightarrow> stored_response) \<Rightarrow> string \<Rightarrow>
   edit_request \<Rightarrow> family_edit list \<Rightarrow> store \<Rightarrow> (scenario_record \<times> string) tx" where
  "commit_universal_edits clk jid eids respond sid req edits =
     commit_batch clk jid respond
       (\<lambda>now scenario s.
          fold_exc (family_edit_step now eids sid (er_base_scene_version req) (er_key req)
                      (sc_edit_sequence scenario)) s edits)
       (\<lambda>r. r\<lparr>sc_carries_family_edits := True\<rparr>) sid req"

section \<open>Reset\<close>

definition reset_event :: "stamp \<Rightarrow> string \<Rightarrow> int \<Rightarrow> string \<Rightarrow> int \<Rightarrow> string option \<Rightarrow> edit_event" where
  "reset_event now sid sequence eid base key =
     \<lparr>ev_scenario_id = sid, ev_sequence = sequence, ev_event_id = eid,
      ev_base_scene_version = base, ev_operation = ''reset'', ev_tree_id = None,
      ev_old_tree = None, ev_new_tree = None, ev_submitted_at = now, ev_idempotency_key = key,
      ev_family = None\<rparr>"

definition clear_scene :: "string \<Rightarrow> store \<Rightarrow> store" where
  "clear_scene sid st =
     st\<lparr>tb_trees := filter (\<lambda>r. fst (fst r) \<noteq> sid) (tb_trees st),
        tb_canonical :=
          filter (\<lambda>r. \<not> (cs_workspace_id r = sid \<and> cs_workspace_revision r = 0)) (tb_canonical st)\<rparr>"

definition reset_row :: "stamp \<Rightarrow> int \<Rightarrow> int \<Rightarrow> scenario_record \<Rightarrow> scenario_record" where
  "reset_row now version sequence r =
     r\<lparr>sc_scene_version := version, sc_exact_result_version := version, sc_status := ''exact'',
       sc_edit_sequence := sequence, sc_acked_sequence := sequence, sc_carries_family_edits := False,
       sc_last_reset_sequence := sequence, sc_updated_at := now\<rparr>"

definition reset_scenario ::
  "clock \<Rightarrow> string \<Rightarrow> (string \<Rightarrow> int \<Rightarrow> json dict \<times> string) \<Rightarrow> (scenario_record \<Rightarrow> stored_response) \<Rightarrow>
   string \<Rightarrow> int option \<Rightarrow> string option \<Rightarrow> string option \<Rightarrow> store \<Rightarrow> scenario_record tx" where
  "reset_scenario clk eid publisher respond sid base key fingerprint st =
     (let kf = keyed key fingerprint in
      case guard_idempotency st sid kf of
        Inl e \<Rightarrow> Inl e
      | Inr _ \<Rightarrow>
          (case require_scenario st sid of
             Inl e \<Rightarrow> Inl e
           | Inr scenario \<Rightarrow>
               if (case base of Some b \<Rightarrow> b \<noteq> sc_scene_version scenario | None \<Rightarrow> False)
               then Inl (SceneVersionConflict (sc_scene_version scenario))
               else
                 let now = clk 0; version = sc_scene_version scenario + 1;
                     sequence = sc_edit_sequence scenario + 1
                 in case insert_event
                           (reset_event now sid sequence eid (sc_scene_version scenario) key) st of
                      Inl e \<Rightarrow> Inl e
                    | Inr st1 \<Rightarrow>
                        (let (manifest, payload) = publisher sid version;
                             st2 = update_scenario sid (reset_row now version sequence)
                                     (clear_scene sid st1)
                         in case publish_result_locked (clk 1) (clk 2) sid version manifest payload True
                                   None (Some sequence) st2 of
                              Inl e \<Rightarrow> Inl e
                            | Inr st3 \<Rightarrow>
                                (let st4 = supersede_queued_locked (clk 3) sid None st3
                                 in case require_scenario st4 sid of
                                      Inl e \<Rightarrow> Inl e
                                    | Inr record \<Rightarrow>
                                        map_sum id (\<lambda>s. (s, record))
                                          (save_idempotency (clk 4) sid kf (respond record) st4)))))"

section \<open>Retention\<close>

text \<open>Stamps are compared as text in SQL; the store writes them in one sortable format, so the
  comparison is the one of the instants.\<close>

fun stamp_before :: "stamp \<Rightarrow> int \<Rightarrow> bool" where
  "stamp_before (Stamp t) cutoff \<longleftrightarrow> t < cutoff"
| "stamp_before (Malformed _) cutoff \<longleftrightarrow> False"

definition acked_of :: "store \<Rightarrow> string \<Rightarrow> int option" where
  "acked_of st sid = map_option sc_acked_sequence (get_scenario st sid)"

definition sweep_retention :: "int \<Rightarrow> int \<Rightarrow> store \<Rightarrow> store" where
  "sweep_retention cutoff tail st =
     st\<lparr>tb_idempotency := filter (\<lambda>r. \<not> stamp_before (ik_created_at r) cutoff) (tb_idempotency st),
        tb_events :=
          filter (\<lambda>e. case acked_of st (ev_scenario_id e) of
                        Some a \<Rightarrow> a - tail < ev_sequence e | None \<Rightarrow> True) (tb_events st)\<rparr>"

end
