(* ===== verification/Store_Realtime.thy ===== *)
theory Store_Realtime
  imports Store_Edits
begin

text \<open>
  The realtime plane of the store: the operation ledger with its per-workspace server
  sequence, the epochs, the canonical states and the fast revision.
\<close>

section \<open>Accepted families\<close>

definition BUILTIN_ADAPTER_IDS :: "string list" where
  "BUILTIN_ADAPTER_IDS =
     [''vegetation_geometry'', ''building_geometry'', ''terrain_dem'', ''landcover_surface'',
      ''meteorological_forcing'', ''selected_date_time'', ''model_receptor_parameters'',
      ''dynamic_wind_from_geometry'', ''output_view'']"

definition supported_source_families :: "string list" where
  "supported_source_families = ALL_FAMILIES @ BUILTIN_ADAPTER_IDS"

section \<open>Epoch rows\<close>

definition epochs_of :: "store \<Rightarrow> string \<Rightarrow> epoch_record list" where
  "epochs_of st ws = filter (\<lambda>e. ep_workspace_id e = ws) (tb_epochs st)"

definition get_epoch :: "store \<Rightarrow> string \<Rightarrow> int \<Rightarrow> epoch_record option" where
  "get_epoch st ws eid =
     find (\<lambda>e. ep_workspace_id e = ws \<and> ep_epoch_id e = eid) (tb_epochs st)"

definition update_epoch :: "string \<Rightarrow> int \<Rightarrow> (epoch_record \<Rightarrow> epoch_record) \<Rightarrow> store \<Rightarrow> store" where
  "update_epoch ws eid f st =
     st\<lparr>tb_epochs := update_rows (\<lambda>e. ep_workspace_id e = ws \<and> ep_epoch_id e = eid) f (tb_epochs st)\<rparr>"

text \<open>\<open>ORDER BY epoch_id DESC LIMIT 1\<close>.\<close>

definition newest_epoch :: "store \<Rightarrow> string \<Rightarrow> epoch_record option" where
  "newest_epoch st ws =
     (case order_by (\<lambda>e. - ep_epoch_id e) (epochs_of st ws) of [] \<Rightarrow> None | e # _ \<Rightarrow> Some e)"

definition new_epoch :: "stamp \<Rightarrow> string \<Rightarrow> int \<Rightarrow> epoch_record" where
  "new_epoch now ws eid =
     \<lparr>ep_workspace_id = ws, ep_epoch_id = eid, ep_status = ''open'', ep_first_sequence = None,
      ep_last_sequence = None, ep_workspace_revision = None, ep_opened_at = now,
      ep_closed_at = None\<rparr>"

definition insert_epoch :: "epoch_record \<Rightarrow> store \<Rightarrow> store_error + store" where
  "insert_epoch e st =
     (if get_epoch st (ep_workspace_id e) (ep_epoch_id e) \<noteq> None
      then Inl (IntegrityError ''realtime_epochs'')
      else Inr (st\<lparr>tb_epochs := tb_epochs st @ [e]\<rparr>))"

definition open_or_create_epoch_locked :: "stamp \<Rightarrow> string \<Rightarrow> store \<Rightarrow> int tx" where
  "open_or_create_epoch_locked now ws st =
     (case newest_epoch st ws of
        Some e \<Rightarrow>
          if ep_status e = ''open'' then Inr (st, ep_epoch_id e)
          else map_sum id (\<lambda>s. (s, ep_epoch_id e + 1))
                 (insert_epoch (new_epoch now ws (ep_epoch_id e + 1)) st)
      | None \<Rightarrow> map_sum id (\<lambda>s. (s, 0)) (insert_epoch (new_epoch now ws 0) st))"

section \<open>Operations\<close>

definition as_record :: "bool \<Rightarrow> operation \<Rightarrow> operation_record" where
  "as_record dup op = operation.extend op (operation_record.fields dup)"

definition find_operation :: "store \<Rightarrow> string \<Rightarrow> operation option" where
  "find_operation st oid = find (\<lambda>r. op_operation_id r = oid) (tb_operations st)"

definition operations_of :: "store \<Rightarrow> string \<Rightarrow> operation list" where
  "operations_of st ws = filter (\<lambda>r. op_workspace_id r = ws) (tb_operations st)"

text \<open>\<open>COALESCE(MAX(server_sequence), 0)\<close>.\<close>

definition max_sequence :: "store \<Rightarrow> string \<Rightarrow> int" where
  "max_sequence st ws =
     (case map op_server_sequence (operations_of st ws) of
        [] \<Rightarrow> 0 | s # ss \<Rightarrow> foldr max ss s)"

definition insert_operation :: "operation \<Rightarrow> store \<Rightarrow> store_error + store" where
  "insert_operation op st =
     (if list_ex (\<lambda>r. op_operation_id r = op_operation_id op \<or>
             op_workspace_id r = op_workspace_id op \<and> op_server_sequence r = op_server_sequence op)
           (tb_operations st)
      then Inl (IntegrityError ''realtime_operations'')
      else Inr (st\<lparr>tb_operations := tb_operations st @ [op]\<rparr>))"

definition accepted :: "stamp \<Rightarrow> string \<Rightarrow> int \<Rightarrow> int \<Rightarrow> operation_item \<Rightarrow> operation" where
  "accepted now ws sequence eid item =
     \<lparr>op_workspace_id = ws, op_operation_id = it_operation_id item,
      op_actor_id = it_actor_id item, op_client_sequence = it_client_sequence item,
      op_base_revision = it_base_revision item, op_source_family = it_source_family item,
      op_entity_id = it_entity_id item, op_verb = it_verb item,
      op_payload = json_canon (it_payload item), op_received_at = it_received_at item,
      op_accepted_at = now, op_server_sequence = sequence, op_epoch_id = eid\<rparr>"

definition same_content :: "string \<Rightarrow> operation_item \<Rightarrow> operation \<Rightarrow> bool" where
  "same_content ws item r \<longleftrightarrow>
     op_workspace_id r = ws \<and> op_source_family r = it_source_family item \<and>
     op_entity_id r = it_entity_id item \<and> op_verb r = it_verb item \<and>
     op_payload r = json_canon (it_payload item)"

text \<open>The local variables of the batch loop: the sequence counter, the epoch once it is known,
  and the records returned so far.\<close>

type_synonym batch_state = "store \<times> int \<times> int option \<times> operation_record list"

definition extend_span :: "int \<Rightarrow> epoch_record \<Rightarrow> epoch_record" where
  "extend_span sequence e =
     e\<lparr>ep_first_sequence := coalesce (ep_first_sequence e) (Some sequence),
       ep_last_sequence := Some sequence\<rparr>"

definition append_item :: "stamp \<Rightarrow> string \<Rightarrow> batch_state \<Rightarrow> operation_item \<Rightarrow> store_error + batch_state" where
  "append_item now ws b item =
     (case b of (st, sequence, epoch, records) \<Rightarrow>
        case find_operation st (it_operation_id item) of
          Some r \<Rightarrow>
            if same_content ws item r then Inr (st, sequence, epoch, records @ [as_record True r])
            else Inl (OperationFingerprintConflict (it_operation_id item))
        | None \<Rightarrow>
            if it_source_family item \<notin> set supported_source_families
            then Inl (UnsupportedFamily (it_source_family item))
            else
              let seq' = sequence + 1;
                  opened = (case epoch of
                      Some eid \<Rightarrow> Inr (st, eid) | None \<Rightarrow> open_or_create_epoch_locked now ws st)
              in case opened of
                   Inl e \<Rightarrow> Inl e
                 | Inr (st1, eid) \<Rightarrow>
                     (let op = accepted now ws seq' eid item
                      in case insert_operation op st1 of
                           Inl e \<Rightarrow> Inl e
                         | Inr st2 \<Rightarrow>
                             Inr (update_epoch ws eid (extend_span seq') st2, seq', Some eid,
                                  records @ [as_record False op])))"

definition append_operations ::
  "clock \<Rightarrow> string \<Rightarrow> operation_item list \<Rightarrow> store \<Rightarrow> operation_record list tx" where
  "append_operations clk ws items st =
     (case require_scenario st ws of
        Inl e \<Rightarrow> Inl e
      | Inr _ \<Rightarrow>
          (case fold_exc (append_item (clk 0) ws) (st, max_sequence st ws, None, []) items of
             Inl e \<Rightarrow> Inl e
           | Inr (st', _, _, records) \<Rightarrow> Inr (st', records)))"

section \<open>Reads\<close>

definition get_operation :: "store \<Rightarrow> string \<Rightarrow> string \<Rightarrow> operation_record option" where
  "get_operation st ws oid =
     map_option (as_record False)
       (find (\<lambda>r. op_workspace_id r = ws \<and> op_operation_id r = oid) (tb_operations st))"

definition open_epochs :: "store \<Rightarrow> string \<Rightarrow> epoch_record list" where
  "open_epochs st ws = order_by ep_epoch_id (filter (\<lambda>e. ep_status e = ''open'') (epochs_of st ws))"

definition epoch_records :: "store \<Rightarrow> string \<Rightarrow> epoch_record list" where
  "epoch_records st ws = order_by ep_epoch_id (epochs_of st ws)"

definition operations_for_epoch :: "store \<Rightarrow> string \<Rightarrow> int \<Rightarrow> operation_record list" where
  "operations_for_epoch st ws eid =
     map (as_record False)
       (order_by op_server_sequence (filter (\<lambda>r. op_epoch_id r = eid) (operations_of st ws)))"

definition operations_since :: "store \<Rightarrow> string \<Rightarrow> int \<Rightarrow> operation_record list" where
  "operations_since st ws after =
     map (as_record False)
       (order_by op_server_sequence (filter (\<lambda>r. after < op_server_sequence r) (operations_of st ws)))"

definition operations_in_span :: "store \<Rightarrow> string \<Rightarrow> int \<Rightarrow> int \<Rightarrow> operation_record list" where
  "operations_in_span st ws after through =
     map (as_record False)
       (order_by op_server_sequence
         (filter (\<lambda>r. after < op_server_sequence r \<and> op_server_sequence r \<le> through)
           (operations_of st ws)))"

definition open_epoch_workspaces :: "store \<Rightarrow> string list" where
  "open_epoch_workspaces st =
     sort (remdups (map ep_workspace_id (filter (\<lambda>e. ep_status e = ''open'') (tb_epochs st))))"

definition recoverable_epochs :: "store \<Rightarrow> epoch_record list" where
  "recoverable_epochs st =
     order_by (\<lambda>e. (ep_workspace_id e, ep_epoch_id e))
       (filter (\<lambda>e. ep_status e \<notin> {''fast_published'', ''exact_targeted''}) (tb_epochs st))"

section \<open>Epoch transitions\<close>

definition mark_row :: "stamp option \<Rightarrow> string \<Rightarrow> int option \<Rightarrow> epoch_record \<Rightarrow> epoch_record" where
  "mark_row now status revision e =
     e\<lparr>ep_status := status,
       ep_closed_at := coalesce (ep_closed_at e) (if ep_status e = ''open'' then now else None),
       ep_workspace_revision := coalesce revision (ep_workspace_revision e)\<rparr>"

definition mark_epoch_status ::
  "clock \<Rightarrow> string \<Rightarrow> int \<Rightarrow> string \<Rightarrow> int option \<Rightarrow> store \<Rightarrow> bool tx" where
  "mark_epoch_status clk ws eid status revision st =
     (if status \<notin> set EpochStatus then Inl (StoreError ''invalid epoch status'')
      else Inr (update_epoch ws eid
                  (mark_row (if status \<noteq> ''open'' then Some (clk 0) else None) status revision) st,
                get_epoch st ws eid \<noteq> None))"

section \<open>Canonical states\<close>

record committed_epoch =
  ce_workspace_id :: string
  ce_epoch_id :: int
  ce_workspace_revision :: int
  ce_first_time :: bool

definition canonical_of :: "store \<Rightarrow> string \<Rightarrow> canonical_row list" where
  "canonical_of st ws = filter (\<lambda>r. cs_workspace_id r = ws) (tb_canonical st)"

definition find_canonical :: "store \<Rightarrow> string \<Rightarrow> int \<Rightarrow> canonical_row option" where
  "find_canonical st ws revision =
     find (\<lambda>r. cs_workspace_id r = ws \<and> cs_workspace_revision r = revision) (tb_canonical st)"

definition make_canonical :: "stamp \<Rightarrow> string \<Rightarrow> int \<Rightarrow> family_state dict \<Rightarrow> canonical_row" where
  "make_canonical now ws revision fams =
     \<lparr>cs_workspace_id = ws, cs_workspace_revision = revision, cs_families = fams,
      cs_created_at = now\<rparr>"

definition insert_canonical :: "canonical_row \<Rightarrow> store \<Rightarrow> store_error + store" where
  "insert_canonical r st =
     (if find_canonical st (cs_workspace_id r) (cs_workspace_revision r) \<noteq> None
      then Inl (IntegrityError ''realtime_canonical_state'')
      else Inr (st\<lparr>tb_canonical := tb_canonical st @ [r]\<rparr>))"

text \<open>\<open>INSERT OR IGNORE\<close>.\<close>

definition insert_canonical_or_ignore :: "canonical_row \<Rightarrow> store \<Rightarrow> store" where
  "insert_canonical_or_ignore r st =
     (case insert_canonical r st of Inl _ \<Rightarrow> st | Inr st' \<Rightarrow> st')"

definition latest_canonical_row :: "store \<Rightarrow> string \<Rightarrow> canonical_row option" where
  "latest_canonical_row st ws =
     (case order_by (\<lambda>r. - cs_workspace_revision r) (canonical_of st ws) of
        [] \<Rightarrow> None | r # _ \<Rightarrow> Some r)"

definition latest_canonical_state :: "store \<Rightarrow> string \<Rightarrow> canonical_state option" where
  "latest_canonical_state st ws = map_option canonical_state.truncate (latest_canonical_row st ws)"

definition canonical_state_at :: "store \<Rightarrow> string \<Rightarrow> int \<Rightarrow> canonical_state option" where
  "canonical_state_at st ws revision =
     map_option canonical_state.truncate (find_canonical st ws revision)"

text \<open>\<open>MAX(workspace_revision)\<close>, and 0 when there is no row.\<close>

definition max_canonical :: "store \<Rightarrow> string \<Rightarrow> int" where
  "max_canonical st ws =
     (case map cs_workspace_revision (canonical_of st ws) of
        [] \<Rightarrow> 0 | r # rs \<Rightarrow> foldr max rs r)"

definition assign_revision :: "stamp \<Rightarrow> int \<Rightarrow> epoch_record \<Rightarrow> epoch_record" where
  "assign_revision now revision e =
     (if ep_status e \<in> set TERMINAL_EPOCH_STATUSES
      then e\<lparr>ep_workspace_revision := Some revision\<rparr>
      else e\<lparr>ep_status := ''reducing'', ep_closed_at := coalesce (ep_closed_at e) (Some now),
             ep_workspace_revision := Some revision\<rparr>)"

definition commit_epoch_reduction ::
  "clock \<Rightarrow> string \<Rightarrow> int \<Rightarrow> family_state dict \<Rightarrow> int option \<Rightarrow> store \<Rightarrow> committed_epoch option tx" where
  "commit_epoch_reduction clk ws eid fams baseline st =
     (let now = clk 0 in
      case get_epoch st ws eid of
        None \<Rightarrow> Inr (st, None)
      | Some epoch \<Rightarrow>
          (case ep_workspace_revision epoch of
             Some existing \<Rightarrow>
               Inr (insert_canonical_or_ignore (make_canonical now ws existing fams) st,
                    Some \<lparr>ce_workspace_id = ws, ce_epoch_id = eid, ce_workspace_revision = existing,
                          ce_first_time = False\<rparr>)
           | None \<Rightarrow>
               (case get_scenario st ws of
                  None \<Rightarrow> Inr (st, None)
                | Some scenario \<Rightarrow>
                    if (case baseline of Some b \<Rightarrow> max_canonical st ws \<noteq> b | None \<Rightarrow> False)
                    then Inl (EpochBaselineStale ws (the baseline) (max_canonical st ws))
                    else
                      let revision = sc_scene_version scenario + 1 in
                      case insert_canonical (make_canonical now ws revision fams) st of
                        Inl e \<Rightarrow> Inl e
                      | Inr st1 \<Rightarrow>
                          Inr (update_epoch ws eid (assign_revision now revision)
                                 (update_scenario ws
                                   (\<lambda>r. r\<lparr>sc_scene_version := revision, sc_updated_at := now\<rparr>) st1),
                               Some \<lparr>ce_workspace_id = ws, ce_epoch_id = eid,
                                     ce_workspace_revision = revision, ce_first_time = True\<rparr>))))"

text \<open>\<open>jobs.ensure_exact_lane_bootstrap\<close> pins the revision-0 row with \<open>INSERT OR IGNORE\<close>.\<close>

definition pin_bootstrap :: "clock \<Rightarrow> string \<Rightarrow> family_state dict \<Rightarrow> store \<Rightarrow> store" where
  "pin_bootstrap clk ws fams st = insert_canonical_or_ignore (make_canonical (clk 0) ws 0 fams) st"

section \<open>Fast revision\<close>

record fast_revision_advance =
  fa_workspace_id :: string
  fa_revision :: int
  fa_fast_revision :: int
  fa_exact_revision :: int

definition scenarios_with_fast_lag :: "store \<Rightarrow> scenario_record list" where
  "scenarios_with_fast_lag st =
     filter (\<lambda>r. sc_fast_revision r < sc_scene_version r) (tb_scenarios st)"

definition advance_fast_revision ::
  "clock \<Rightarrow> string \<Rightarrow> int \<Rightarrow> int \<Rightarrow> stamp option \<Rightarrow> store \<Rightarrow> store \<times> fast_revision_advance option" where
  "advance_fast_revision clk ws revision observed_exact updated_at st =
     (case get_scenario st ws of
        None \<Rightarrow> (st, None)
      | Some r \<Rightarrow>
          if sc_scene_version r < revision then (st, None)
          else
            let exact_now = sc_exact_result_version r;
                new_fast = max (max (max (sc_fast_revision r) revision) exact_now) observed_exact
            in (update_scenario ws
                  (\<lambda>r. r\<lparr>sc_fast_revision := new_fast,
                         sc_exact_base_revision := max (sc_exact_base_revision r) exact_now,
                         sc_updated_at := (case updated_at of Some t \<Rightarrow> t | None \<Rightarrow> clk 0)\<rparr>) st,
                Some \<lparr>fa_workspace_id = ws, fa_revision = revision, fa_fast_revision = new_fast,
                      fa_exact_revision = exact_now\<rparr>))"

end
