(* ===== verification/Store_Ledger.thy ===== *)
theory Store_Ledger
  imports Store_Realtime
begin

text \<open>
  The ledger invariant of the operation plane: operation ids are unique, the server sequence of
  a workspace is contiguous from one, epochs are numbered from zero, only the newest epoch of a
  workspace can be open, every operation sits in an existing epoch, the epochs partition the
  sequence in order, and each epoch row records the span of its operations. Appending a batch
  keeps it, never trips a uniqueness constraint, and never touches an epoch that is not open.
\<close>

section \<open>The invariant\<close>

definition epoch_ops :: "store \<Rightarrow> string \<Rightarrow> int \<Rightarrow> operation list" where
  "epoch_ops st ws eid = filter (\<lambda>r. op_epoch_id r = eid) (operations_of st ws)"

definition span_of :: "operation list \<Rightarrow> int option \<times> int option" where
  "span_of ops =
     (if ops = [] then (None, None)
      else (Some (op_server_sequence (hd ops)), Some (op_server_sequence (last ops))))"

definition ops_ok :: "store \<Rightarrow> bool" where
  "ops_ok st \<longleftrightarrow>
     distinct (map op_operation_id (tb_operations st)) \<and>
     (\<forall>ws. map op_server_sequence (operations_of st ws) = [1..int (length (operations_of st ws))]) \<and>
     (\<forall>ws. sorted (map op_epoch_id (operations_of st ws)))"

definition epochs_ok :: "store \<Rightarrow> bool" where
  "epochs_ok st \<longleftrightarrow>
     (\<forall>ws. map ep_epoch_id (epochs_of st ws) = [0..int (length (epochs_of st ws)) - 1]) \<and>
     (\<forall>ws. \<forall>e\<in>set (butlast (epochs_of st ws)). ep_status e \<noteq> ''open'')"

definition spans_ok :: "store \<Rightarrow> bool" where
  "spans_ok st \<longleftrightarrow>
     (\<forall>ws. \<forall>op\<in>set (operations_of st ws). op_epoch_id op \<in> set (map ep_epoch_id (epochs_of st ws))) \<and>
     (\<forall>ws. \<forall>e\<in>set (epochs_of st ws).
        (ep_first_sequence e, ep_last_sequence e) = span_of (epoch_ops st ws (ep_epoch_id e)))"

definition ledger_ok :: "store \<Rightarrow> bool" where
  "ledger_ok st \<longleftrightarrow> ops_ok st \<and> epochs_ok st \<and> spans_ok st"

lemmas ledger_defs = ledger_ok_def ops_ok_def epochs_ok_def spans_ok_def

lemma ledger_ok_cong:
  "tb_operations st' = tb_operations st \<Longrightarrow> tb_epochs st' = tb_epochs st \<Longrightarrow>
   ledger_ok st' = ledger_ok st"
  by (simp add: ledger_defs operations_of_def epochs_of_def epoch_ops_def)

lemma empty_ledger_ok: "ledger_ok empty_store"
  by (simp add: ledger_defs empty_store_def operations_of_def epochs_of_def)

section \<open>Sequences and epochs as integer ranges\<close>

lemma foldr_max_upto: "0 \<le> n \<Longrightarrow> (case [1..n] of [] \<Rightarrow> 0 | s # ss \<Rightarrow> foldr max ss s) = (n :: int)"
proof -
  have m: "foldr max xs s = Max (insert s (set xs))" for xs and s :: int
    by (induction xs) (auto simp: insert_commute max.commute)
  assume "0 \<le> n"
  show ?thesis
  proof (cases "n = 0")
    case False
    then have u: "[1..n] = 1 # [1 + 1..n]" using \<open>0 \<le> n\<close> by (simp add: upto.simps)
    have "Max (insert 1 (set [1 + 1..n])) = n"
      using False \<open>0 \<le> n\<close> by (intro Max_eqI) auto
    then show ?thesis by (simp add: u m del: set_upto)
  qed simp
qed

lemma max_sequence_ok: "ops_ok st \<Longrightarrow> max_sequence st ws = int (length (operations_of st ws))"
  unfolding max_sequence_def ops_ok_def using foldr_max_upto by simp

lemma upto_snoc: "0 \<le> n \<Longrightarrow> [a..a + n] = [a..a + n - 1] @ [a + n :: int]"
  by (simp add: upto_rec2)

lemma epoch_ids_distinct: "epochs_ok st \<Longrightarrow> distinct (map ep_epoch_id (epochs_of st ws))"
  unfolding epochs_ok_def by (metis distinct_upto)

lemma sort_key_neg_hd:
  assumes "map f xs = [0..int (length xs) - 1]" "xs \<noteq> []"
  shows "\<exists>rest. sort_key (\<lambda>x. - f x) xs = last xs # rest"
proof -
  let ?ys = "sort_key (\<lambda>x. - f x) xs"
  have len: "length ?ys = length xs" by simp
  then obtain y rest where y: "?ys = y # rest" using assms(2) by (cases ?ys) auto
  have "last (map f xs) = int (length xs) - 1"
    using assms by (metis last_snoc length_greater_0_conv of_nat_0_less_iff upto_rec2 zle_diff1_eq)
  then have lst: "f (last xs) = int (length xs) - 1" using assms(2) by (simp add: last_map)
  have "\<forall>z\<in>set ?ys. - f y \<le> - f z"
    using sorted_sort_key [of "\<lambda>x. - f x" xs] y by auto
  then have "- f y \<le> - f (last xs)" using assms(2) by simp
  moreover have "f y \<in> set (map f xs)" using y by (metis imageI list.set_intros(1) set_map set_sort)
  then have "f y \<le> int (length xs) - 1" using assms(1) by auto
  ultimately have "f y = f (last xs)" using lst by simp
  moreover have "distinct (map f xs)" using assms(1) by (metis distinct_upto)
  moreover have "y \<in> set xs" using y by (metis list.set_intros(1) set_sort)
  ultimately have "y = last xs" using assms(2) distinct_map_inj_row last_in_set by metis
  then show ?thesis using y by simp
qed

lemma newest_epoch_last:
  "epochs_ok st \<Longrightarrow>
   newest_epoch st ws = (if epochs_of st ws = [] then None else Some (last (epochs_of st ws)))"
  using sort_key_neg_hd [of ep_epoch_id "epochs_of st ws"]
  by (auto simp: newest_epoch_def epochs_ok_def)

lemma get_epoch_of: "get_epoch st ws eid = find (\<lambda>e. ep_epoch_id e = eid) (epochs_of st ws)"
proof -
  have "find (\<lambda>e. ep_workspace_id e = ws \<and> ep_epoch_id e = eid) xs =
      find (\<lambda>e. ep_epoch_id e = eid) (filter (\<lambda>e. ep_workspace_id e = ws) xs)" for xs
    by (induction xs) auto
  then show ?thesis by (simp add: get_epoch_def epochs_of_def)
qed

lemma get_epoch_iff:
  assumes "epochs_ok st"
  shows "get_epoch st ws eid = Some e \<longleftrightarrow> e \<in> set (epochs_of st ws) \<and> ep_epoch_id e = eid"
proof
  assume "get_epoch st ws eid = Some e"
  then show "e \<in> set (epochs_of st ws) \<and> ep_epoch_id e = eid"
    unfolding get_epoch_of by (rule find_Some_in)
next
  assume "e \<in> set (epochs_of st ws) \<and> ep_epoch_id e = eid"
  then show "get_epoch st ws eid = Some e"
    using find_by_key [OF epoch_ids_distinct [OF assms], of e ws] by (simp add: get_epoch_of)
qed

lemma get_epoch_None_iff: "get_epoch st ws eid = None \<longleftrightarrow> eid \<notin> set (map ep_epoch_id (epochs_of st ws))"
  by (auto simp: get_epoch_of find_None_iff)

lemma epoch_last_id:
  assumes "epochs_ok st" "epochs_of st ws \<noteq> []"
  shows "ep_epoch_id (last (epochs_of st ws)) = int (length (epochs_of st ws)) - 1"
proof -
  let ?es = "epochs_of st ws"
  have "map ep_epoch_id ?es = [0..int (length ?es) - 1]" using assms(1) by (simp add: epochs_ok_def)
  also have "\<dots> = [0..int (length ?es) - 2] @ [int (length ?es) - 1]"
    using assms(2) upto_snoc [of "int (length ?es) - 1" 0] by (simp add: Suc_leI algebra_simps)
  finally have "last (map ep_epoch_id ?es) = int (length ?es) - 1" by simp
  then show ?thesis using assms(2) by (simp add: last_map)
qed

section \<open>Effect of the table updates\<close>

lemma epochs_of_update:
  assumes "\<And>e. ep_workspace_id (f e) = ep_workspace_id e"
  shows "epochs_of (update_epoch ws eid f st) ws' =
    (if ws' = ws then update_rows (\<lambda>e. ep_epoch_id e = eid) f (epochs_of st ws) else epochs_of st ws')"
proof -
  have "filter (\<lambda>e. ep_workspace_id e = ws') (update_rows (\<lambda>e. ep_workspace_id e = ws \<and> ep_epoch_id e = eid) f xs)
      = (if ws' = ws then update_rows (\<lambda>e. ep_epoch_id e = eid) f (filter (\<lambda>e. ep_workspace_id e = ws) xs)
         else filter (\<lambda>e. ep_workspace_id e = ws') xs)" for xs
    using assms by (induction xs) (auto simp: update_rows_def)
  then show ?thesis by (simp add: epochs_of_def update_epoch_def)
qed

lemma update_epoch_frame [simp]:
  "tb_operations (update_epoch ws eid f st) = tb_operations st"
  "tb_scenarios (update_epoch ws eid f st) = tb_scenarios st"
  "tb_canonical (update_epoch ws eid f st) = tb_canonical st"
  "operations_of (update_epoch ws eid f st) = operations_of st"
  by (auto simp: update_epoch_def operations_of_def)

lemma epochs_of_insert:
  "epochs_of (st\<lparr>tb_epochs := tb_epochs st @ [e]\<rparr>) ws =
     epochs_of st ws @ (if ep_workspace_id e = ws then [e] else [])"
  by (simp add: epochs_of_def)

lemma operations_of_insert:
  "operations_of (st\<lparr>tb_operations := tb_operations st @ [op]\<rparr>) ws =
     operations_of st ws @ (if op_workspace_id op = ws then [op] else [])"
  by (simp add: operations_of_def)

lemma epoch_ops_cong: "operations_of st' = operations_of st \<Longrightarrow> epoch_ops st' = epoch_ops st"
  by (simp add: epoch_ops_def fun_eq_iff)

section \<open>Opening an epoch\<close>

definition open_epoch_is :: "store \<Rightarrow> string \<Rightarrow> int \<Rightarrow> bool" where
  "open_epoch_is st ws eid \<longleftrightarrow>
     epochs_of st ws \<noteq> [] \<and> ep_epoch_id (last (epochs_of st ws)) = eid \<and>
     ep_status (last (epochs_of st ws)) = ''open''"

lemma new_epoch_ops:
  assumes "spans_ok st" "epochs_ok st"
  shows "epoch_ops st ws (int (length (epochs_of st ws))) = []"
proof -
  have "op_epoch_id op < int (length (epochs_of st ws))" if "op \<in> set (operations_of st ws)" for op
  proof -
    have "op_epoch_id op \<in> set (map ep_epoch_id (epochs_of st ws))"
      using assms(1) that by (simp add: spans_ok_def del: set_map)
    then show ?thesis using assms(2) by (simp add: epochs_ok_def del: set_map)
  qed
  then show ?thesis by (fastforce simp: epoch_ops_def filter_empty_conv)
qed

lemma ledger_ok_new_epoch:
  assumes ok: "ledger_ok st" and "\<forall>e\<in>set (epochs_of st ws). ep_status e \<noteq> ''open''"
  shows "ledger_ok (st\<lparr>tb_epochs := tb_epochs st @ [new_epoch now ws (int (length (epochs_of st ws)))]\<rparr>)"
    (is "ledger_ok ?st'")
proof -
  let ?n = "int (length (epochs_of st ws))"
  have es: "epochs_of ?st' w = epochs_of st w @ (if w = ws then [new_epoch now ws ?n] else [])" for w
    by (auto simp: epochs_of_insert new_epoch_def)
  have ops: "operations_of ?st' = operations_of st" by (simp add: operations_of_def fun_eq_iff)
  have "map ep_epoch_id (epochs_of ?st' w) = [0..int (length (epochs_of ?st' w)) - 1]" for w
    unfolding es using ok upto_snoc [of ?n 0] by (simp add: ledger_defs new_epoch_def)
  moreover have "\<forall>e\<in>set (butlast (epochs_of ?st' w)). ep_status e \<noteq> ''open''" for w
    unfolding es using ok assms(2) by (simp add: ledger_defs butlast_append)
  ultimately have "epochs_ok ?st'" by (simp add: epochs_ok_def)
  moreover have "spans_ok ?st'"
    unfolding spans_ok_def ops epoch_ops_cong [OF ops] es
  proof (intro conjI allI ballI)
    fix w op assume "op \<in> set (operations_of st w)"
    then show "op_epoch_id op \<in> set (map ep_epoch_id (epochs_of st w @
        (if w = ws then [new_epoch now ws ?n] else [])))"
      using ok by (simp add: ledger_ok_def spans_ok_def)
  next
    fix w e assume e: "e \<in> set (epochs_of st w @ (if w = ws then [new_epoch now ws ?n] else []))"
    show "(ep_first_sequence e, ep_last_sequence e) = span_of (epoch_ops st w (ep_epoch_id e))"
    proof (cases "e \<in> set (epochs_of st w)")
      case True
      then show ?thesis using ok by (simp add: ledger_ok_def spans_ok_def)
    next
      case False
      then have "w = ws" "e = new_epoch now ws ?n" using e by (auto split: if_splits)
      moreover have "epoch_ops st ws ?n = []" using ok new_epoch_ops by (simp add: ledger_ok_def)
      ultimately show ?thesis by (simp add: new_epoch_def span_of_def)
    qed
  qed
  moreover have "ops_ok ?st'" using ok by (simp add: ledger_ok_def ops_ok_def ops)
  ultimately show ?thesis by (simp add: ledger_ok_def)
qed

lemma open_or_create_spec:
  assumes ok: "ledger_ok st"
  shows "\<exists>st' eid. open_or_create_epoch_locked now ws st = Inr (st', eid) \<and> ledger_ok st' \<and>
    open_epoch_is st' ws eid \<and> (\<exists>es. st' = st\<lparr>tb_epochs := tb_epochs st @ es\<rparr> \<and>
      (\<forall>e\<in>set es. ep_workspace_id e = ws \<and> ep_status e = ''open''))"
proof -
  let ?es = "epochs_of st ws" and ?n = "int (length (epochs_of st ws))"
  have eok: "epochs_ok st" using ok by (simp add: ledger_ok_def)
  show ?thesis
  proof (cases "?es \<noteq> [] \<and> ep_status (last ?es) = ''open''")
    case True
    then have "open_or_create_epoch_locked now ws st = Inr (st, ep_epoch_id (last ?es))"
      by (simp add: open_or_create_epoch_locked_def newest_epoch_last [OF eok])
    then show ?thesis using True ok
      by (intro exI [of _ st] exI [of _ "ep_epoch_id (last ?es)"] conjI exI [of _ "[]"])
        (simp_all add: open_epoch_is_def)
  next
    case False
    have closed: "\<forall>e\<in>set ?es. ep_status e \<noteq> ''open''"
    proof (cases "?es = []")
      case False
      then have "set ?es = insert (last ?es) (set (butlast ?es))"
        by (metis append_butlast_last_id list.simps(15) rotate1.simps(2) set_rotate1)
      then show ?thesis using eok \<open>\<not> (?es \<noteq> [] \<and> ep_status (last ?es) = ''open'')\<close> False
        by (auto simp: epochs_ok_def)
    qed simp
    let ?e = "new_epoch now ws ?n"
    let ?st' = "st\<lparr>tb_epochs := tb_epochs st @ [?e]\<rparr>"
    have fresh: "get_epoch st ws ?n = None"
      using eok by (simp add: get_epoch_None_iff epochs_ok_def del: set_map)
    have "open_or_create_epoch_locked now ws st = Inr (?st', ?n)"
      using False fresh epoch_last_id [OF eok, of ws]
      by (auto simp: open_or_create_epoch_locked_def newest_epoch_last [OF eok] insert_epoch_def new_epoch_def)
    moreover have "open_epoch_is ?st' ws ?n"
      by (simp add: open_epoch_is_def epochs_of_insert new_epoch_def)
    moreover have "\<forall>e\<in>set [?e]. ep_workspace_id e = ws \<and> ep_status e = ''open''" by (simp add: new_epoch_def)
    ultimately show ?thesis using ledger_ok_new_epoch [OF ok closed, of now] by blast
  qed
qed

section \<open>Appending one operation\<close>

text \<open>The two writes of one accepted operation: its row and the span of its epoch.\<close>

definition land_operation :: "operation \<Rightarrow> store \<Rightarrow> store" where
  "land_operation op st =
     update_epoch (op_workspace_id op) (op_epoch_id op) (extend_span (op_server_sequence op))
       (st\<lparr>tb_operations := tb_operations st @ [op]\<rparr>)"

lemma land_operations_of:
  "operations_of (land_operation op st) ws =
     operations_of st ws @ (if op_workspace_id op = ws then [op] else [])"
  by (simp add: land_operation_def operations_of_insert)

lemma land_epochs_of:
  "epochs_of (land_operation op st) ws =
     (if ws = op_workspace_id op
      then update_rows (\<lambda>e. ep_epoch_id e = op_epoch_id op) (extend_span (op_server_sequence op)) (epochs_of st ws)
      else epochs_of st ws)"
proof -
  have e: "epochs_of (st\<lparr>tb_operations := x\<rparr>) w = epochs_of st w" for x w by (simp add: epochs_of_def)
  have "ep_workspace_id (extend_span (op_server_sequence op) e) = ep_workspace_id e" for e
    by (simp add: extend_span_def)
  from epochs_of_update [OF this] show ?thesis by (simp add: land_operation_def e)
qed

lemma land_epoch_ops:
  "epoch_ops (land_operation op st) ws eid =
     epoch_ops st ws eid @ (if op_workspace_id op = ws \<and> op_epoch_id op = eid then [op] else [])"
  by (simp add: epoch_ops_def land_operations_of)

lemma extend_span_simps [simp]:
  "ep_workspace_id (extend_span s e) = ep_workspace_id e" "ep_epoch_id (extend_span s e) = ep_epoch_id e"
  "ep_status (extend_span s e) = ep_status e" "ep_workspace_revision (extend_span s e) = ep_workspace_revision e"
  "ep_closed_at (extend_span s e) = ep_closed_at e" "ep_opened_at (extend_span s e) = ep_opened_at e"
  by (simp_all add: extend_span_def)

lemma span_of_snoc:
  "(ep_first_sequence e, ep_last_sequence e) = span_of ops \<Longrightarrow>
   (ep_first_sequence (extend_span (op_server_sequence op) e),
    ep_last_sequence (extend_span (op_server_sequence op) e)) = span_of (ops @ [op])"
  by (auto simp: span_of_def extend_span_def coalesce_def hd_append split: if_splits option.splits)

lemma ledger_ok_land:
  assumes ok: "ledger_ok st" and op: "open_epoch_is st (op_workspace_id op) (op_epoch_id op)"
    "op_server_sequence op = int (length (operations_of st (op_workspace_id op))) + 1"
    "op_operation_id op \<notin> op_operation_id ` set (tb_operations st)"
  shows "ledger_ok (land_operation op st)"
proof -
  let ?ws = "op_workspace_id op" and ?st' = "land_operation op st"
  have eok: "epochs_ok st" and sok: "spans_ok st" and ook: "ops_ok st" using ok by (simp_all add: ledger_ok_def)
  have ids: "map ep_epoch_id (epochs_of ?st' w) = map ep_epoch_id (epochs_of st w)"
    "map ep_status (epochs_of ?st' w) = map ep_status (epochs_of st w)"
    "length (epochs_of ?st' w) = length (epochs_of st w)" for w
    by (simp_all add: land_epochs_of map_update_rows_frame)
  have "epochs_ok ?st'"
  proof -
    have "\<forall>x\<in>set (map ep_status (butlast (epochs_of ?st' w))). x \<noteq> ''open''" for w
      using eok ids(2) [of w] by (simp only: map_butlast) (simp add: epochs_ok_def flip: map_butlast)
    then show ?thesis using eok by (simp add: epochs_ok_def ids(1,3))
  qed
  moreover have "ops_ok ?st'"
  proof -
    have "op_epoch_id x \<le> op_epoch_id op" if "x \<in> set (operations_of st ?ws)" for x
    proof -
      have "op_epoch_id x \<in> set (map ep_epoch_id (epochs_of st ?ws))"
        using sok that by (simp add: spans_ok_def del: set_map)
      then have "op_epoch_id x \<le> int (length (epochs_of st ?ws)) - 1"
        using eok by (simp add: epochs_ok_def del: set_map)
      then show ?thesis using op(1) epoch_last_id [OF eok, of ?ws] by (simp add: open_epoch_is_def)
    qed
    moreover have "[1..1 + int n] = [1..int n] @ [1 + int n]" for n
      using upto_snoc [of "int n" 1] by simp
    ultimately show ?thesis using ook op(2,3)
      by (auto simp: ops_ok_def land_operations_of sorted_append add.commute)
        (simp_all add: land_operation_def)
  qed
  moreover have "spans_ok ?st'"
    unfolding spans_ok_def
  proof (intro conjI allI ballI)
    fix w x assume "x \<in> set (operations_of ?st' w)"
    then have "x \<in> set (operations_of st w) \<or> x = op \<and> w = ?ws"
      by (auto simp: land_operations_of split: if_splits)
    then show "op_epoch_id x \<in> set (map ep_epoch_id (epochs_of ?st' w))"
      unfolding ids(1) using sok op(1)
      by (auto simp: spans_ok_def open_epoch_is_def) (metis image_eqI last_in_set)
  next
    fix w e assume e: "e \<in> set (epochs_of ?st' w)"
    show "(ep_first_sequence e, ep_last_sequence e) = span_of (epoch_ops ?st' w (ep_epoch_id e))"
    proof (cases "w = ?ws \<and> ep_epoch_id e = op_epoch_id op")
      case True
      then obtain x where "x \<in> set (epochs_of st ?ws)" "ep_epoch_id x = op_epoch_id op"
        "e = extend_span (op_server_sequence op) x"
        using e by (auto simp: land_epochs_of set_update_rows split: if_splits)
      moreover from this have "(ep_first_sequence x, ep_last_sequence x) =
          span_of (epoch_ops st ?ws (op_epoch_id op))"
        using sok by (auto simp: spans_ok_def)
      ultimately show ?thesis using True span_of_snoc by (simp add: land_epoch_ops)
    next
      case False
      then have "e \<in> set (epochs_of st w)"
        using e by (auto simp: land_epochs_of set_update_rows split: if_splits)
      moreover have "epoch_ops ?st' w (ep_epoch_id e) = epoch_ops st w (ep_epoch_id e)"
        using False by (auto simp: land_epoch_ops)
      ultimately show ?thesis using sok by (simp add: spans_ok_def)
    qed
  qed
  ultimately show ?thesis by (simp add: ledger_ok_def)
qed

section \<open>Appending a batch\<close>

lemma accepted_simps [simp]:
  "op_workspace_id (accepted now ws sequence eid item) = ws"
  "op_operation_id (accepted now ws sequence eid item) = it_operation_id item"
  "op_server_sequence (accepted now ws sequence eid item) = sequence"
  "op_epoch_id (accepted now ws sequence eid item) = eid"
  by (simp_all add: accepted_def)

text \<open>The loop invariant of \<open>append_operations\<close>.\<close>

definition batch_ok :: "string \<Rightarrow> batch_state \<Rightarrow> bool" where
  "batch_ok ws b \<longleftrightarrow>
     (case b of (st, sequence, epoch, records) \<Rightarrow>
        ledger_ok st \<and> sequence = int (length (operations_of st ws)) \<and>
        (\<forall>eid. epoch = Some eid \<longrightarrow> open_epoch_is st ws eid))"

lemma find_operation_None:
  "find_operation st oid = None \<longleftrightarrow> oid \<notin> op_operation_id ` set (tb_operations st)"
  by (auto simp: find_operation_def find_None_iff)

lemma ops_ok_sequence_bound:
  "ops_ok st \<Longrightarrow> r \<in> set (operations_of st ws) \<Longrightarrow>
   1 \<le> op_server_sequence r \<and> op_server_sequence r \<le> int (length (operations_of st ws))"
proof -
  assume "ops_ok st" and r: "r \<in> set (operations_of st ws)"
  then have "map op_server_sequence (operations_of st ws) = [1..int (length (operations_of st ws))]"
    by (simp add: ops_ok_def)
  moreover have "op_server_sequence r \<in> set (map op_server_sequence (operations_of st ws))" using r by simp
  ultimately show ?thesis by (metis atLeastAtMost_iff set_upto)
qed

lemma insert_operation_fresh:
  assumes "ops_ok st" "op_operation_id op \<notin> op_operation_id ` set (tb_operations st)"
    "op_server_sequence op = int (length (operations_of st (op_workspace_id op))) + 1"
  shows "insert_operation op st = Inr (st\<lparr>tb_operations := tb_operations st @ [op]\<rparr>)"
proof -
  have "\<not> (op_workspace_id r = op_workspace_id op \<and> op_server_sequence r = op_server_sequence op)"
    if "r \<in> set (tb_operations st)" for r
    using ops_ok_sequence_bound [OF assms(1), of r "op_workspace_id op"] that assms(3)
    by (auto simp: operations_of_def)
  then have "\<not> list_ex (\<lambda>r. op_operation_id r = op_operation_id op \<or>
      op_workspace_id r = op_workspace_id op \<and> op_server_sequence r = op_server_sequence op) (tb_operations st)"
    using assms(2) unfolding list_ex_iff by (metis image_eqI)
  then show ?thesis by (simp add: insert_operation_def)
qed

text \<open>The cases of one loop iteration. A new operation lands in the open epoch; the loop never
  trips a uniqueness constraint.\<close>

lemma append_item_cases:
  assumes ok: "batch_ok ws (st, sequence, epoch, records)"
  obtains (replay) r where "find_operation st (it_operation_id item) = Some r" "same_content ws item r"
      "append_item now ws (st, sequence, epoch, records) item =
         Inr (st, sequence, epoch, records @ [as_record True r])"
    | (conflict) r where "find_operation st (it_operation_id item) = Some r" "\<not> same_content ws item r"
      "append_item now ws (st, sequence, epoch, records) item =
         Inl (OperationFingerprintConflict (it_operation_id item))"
    | (unsupported) "find_operation st (it_operation_id item) = None"
      "it_source_family item \<notin> set supported_source_families"
      "append_item now ws (st, sequence, epoch, records) item =
         Inl (UnsupportedFamily (it_source_family item))"
    | (landed) st1 es eid where "find_operation st (it_operation_id item) = None"
      "it_source_family item \<in> set supported_source_families"
      "st1 = st\<lparr>tb_epochs := tb_epochs st @ es\<rparr>" "open_epoch_is st1 ws eid"
      "\<forall>e\<in>set es. ep_workspace_id e = ws \<and> ep_status e = ''open''" "ledger_ok st1"
      "ledger_ok (land_operation (accepted now ws (sequence + 1) eid item) st1)"
      "append_item now ws (st, sequence, epoch, records) item =
         Inr (land_operation (accepted now ws (sequence + 1) eid item) st1, sequence + 1, Some eid,
              records @ [as_record False (accepted now ws (sequence + 1) eid item)])"
proof (cases "find_operation st (it_operation_id item)")
  case (Some r)
  then show thesis using replay conflict by (cases "same_content ws item r") (auto simp: append_item_def)
next
  case None
  show thesis
  proof (cases "it_source_family item \<in> set supported_source_families")
    case False
    then show thesis using None unsupported by (auto simp: append_item_def)
  next
    case True
    have lok: "ledger_ok st" and sequence: "sequence = int (length (operations_of st ws))"
      using ok by (auto simp: batch_ok_def)
    obtain st1 eid es where o: "(case epoch of Some eid \<Rightarrow> Inr (st, eid)
        | None \<Rightarrow> open_or_create_epoch_locked now ws st) = Inr (st1, eid)"
      "ledger_ok st1" "open_epoch_is st1 ws eid" "st1 = st\<lparr>tb_epochs := tb_epochs st @ es\<rparr>"
      "\<forall>e\<in>set es. ep_workspace_id e = ws \<and> ep_status e = ''open''"
    proof (cases epoch)
      case None
      then show thesis using open_or_create_spec [OF lok, of now ws] that by auto
    next
      case (Some eid)
      then show thesis using that [of st eid "[]"] ok lok by (auto simp: batch_ok_def)
    qed
    let ?op = "accepted now ws (sequence + 1) eid item"
    have f: "operations_of st1 = operations_of st" "tb_operations st1 = tb_operations st"
      by (simp_all add: o(4) operations_of_def fun_eq_iff)
    have fresh: "op_operation_id ?op \<notin> op_operation_id ` set (tb_operations st1)"
      using None by (simp add: f find_operation_None)
    have "insert_operation ?op st1 = Inr (st1\<lparr>tb_operations := tb_operations st1 @ [?op]\<rparr>)"
      using insert_operation_fresh [of st1 ?op] o(2) fresh by (simp add: f sequence ledger_ok_def)
    then have "append_item now ws (st, sequence, epoch, records) item =
        Inr (land_operation ?op st1, sequence + 1, Some eid, records @ [as_record False ?op])"
      using None True o(1) by (simp add: append_item_def Let_def land_operation_def)
    moreover have "ledger_ok (land_operation ?op st1)"
      using ledger_ok_land [OF o(2), of ?op] o(3) fresh by (simp add: f sequence)
    ultimately show thesis using landed [OF None True o(4,3,5,2)] by blast
  qed
qed

lemma append_item_ok:
  assumes ok: "batch_ok ws b" and step: "append_item now ws b item = Inr b'"
  shows "batch_ok ws b'"
proof -
  obtain st sequence epoch records where b: "b = (st, sequence, epoch, records)" by (metis prod.exhaust)
  from ok [unfolded b] show ?thesis
  proof (cases rule: append_item_cases [where item = item and now = now])
    case (landed st1 es eid)
    have "open_epoch_is (land_operation (accepted now ws (sequence + 1) eid item) st1) ws eid"
      using landed(4) by (auto simp: open_epoch_is_def land_epochs_of update_rows_def last_map)
    moreover have "length (operations_of (land_operation (accepted now ws (sequence + 1) eid item) st1) ws) =
        Suc (length (operations_of st ws))"
      by (simp add: land_operations_of landed(3)) (simp add: operations_of_def)
    ultimately show ?thesis using step ok landed(7,8) by (auto simp: b batch_ok_def)
  qed (use step ok in \<open>auto simp: b batch_ok_def\<close>)
qed

lemma batch_start: "ledger_ok st \<Longrightarrow> batch_ok ws (st, max_sequence st ws, None, [])"
  by (simp add: batch_ok_def max_sequence_ok ledger_ok_def)

lemma append_operationsE:
  assumes "append_operations clk ws items st = Inr (st', records)"
  obtains sequence epoch where
    "fold_exc (append_item (clk 0) ws) (st, max_sequence st ws, None, []) items =
       Inr (st', sequence, epoch, records)" "get_scenario st ws \<noteq> None"
  using assms by (auto simp: append_operations_def require_scenario_def split: sum.splits option.splits)

lemma append_operations_ledger:
  assumes "ledger_ok st" "append_operations clk ws items st = Inr (st', records)"
  shows "ledger_ok st'"
proof -
  obtain sequence epoch where f: "fold_exc (append_item (clk 0) ws) (st, max_sequence st ws, None, []) items =
       Inr (st', sequence, epoch, records)" using append_operationsE [OF assms(2)] by blast
  have "batch_ok ws (st', sequence, epoch, records)"
    by (rule fold_exc_inv [where P = "batch_ok ws", OF f batch_start [OF assms(1)]]) (rule append_item_ok)
  then show ?thesis by (simp add: batch_ok_def)
qed

section \<open>What a batch changes\<close>

definition append_rel :: "string \<Rightarrow> store \<Rightarrow> store \<Rightarrow> bool" where
  "append_rel ws st st' \<longleftrightarrow>
     (\<exists>ops es. st' = st\<lparr>tb_operations := tb_operations st @ ops, tb_epochs := es\<rparr> \<and>
        (\<forall>op\<in>set ops. op_workspace_id op = ws)) \<and>
     (\<forall>w eid e. get_epoch st w eid = Some e \<longrightarrow>
        (if w \<noteq> ws \<or> ep_status e \<noteq> ''open''
         then get_epoch st' w eid = Some e \<and> epoch_ops st' w eid = epoch_ops st w eid
         else \<exists>e'. get_epoch st' w eid = Some e' \<and> ep_status e' = ''open'' \<and>
                ep_workspace_revision e' = ep_workspace_revision e))"

lemma append_rel_refl: "append_rel ws st st"
proof -
  have "st = st\<lparr>tb_operations := tb_operations st @ [], tb_epochs := tb_epochs st\<rparr>" by simp
  then show ?thesis unfolding append_rel_def by (metis emptyE list.set(1))
qed

lemma append_rel_trans:
  assumes "append_rel ws st st1" "append_rel ws st1 st2"
  shows "append_rel ws st st2"
proof -
  obtain ops es where 1: "st1 = st\<lparr>tb_operations := tb_operations st @ ops, tb_epochs := es\<rparr>"
    "\<forall>op\<in>set ops. op_workspace_id op = ws" using assms(1) by (auto simp: append_rel_def)
  obtain ops' es' where 2: "st2 = st1\<lparr>tb_operations := tb_operations st1 @ ops', tb_epochs := es'\<rparr>"
    "\<forall>op\<in>set ops'. op_workspace_id op = ws" using assms(2) by (auto simp: append_rel_def)
  have "st2 = st\<lparr>tb_operations := tb_operations st @ (ops @ ops'), tb_epochs := es'\<rparr>"
    using 1(1) 2(1) by simp
  moreover have "\<forall>op\<in>set (ops @ ops'). op_workspace_id op = ws" using 1(2) 2(2) by auto
  ultimately have "\<exists>ops es. st2 = st\<lparr>tb_operations := tb_operations st @ ops, tb_epochs := es\<rparr> \<and>
      (\<forall>op\<in>set ops. op_workspace_id op = ws)" by blast
  moreover have "if w \<noteq> ws \<or> ep_status e \<noteq> ''open''
      then get_epoch st2 w eid = Some e \<and> epoch_ops st2 w eid = epoch_ops st w eid
      else \<exists>e'. get_epoch st2 w eid = Some e' \<and> ep_status e' = ''open'' \<and>
             ep_workspace_revision e' = ep_workspace_revision e"
    if e: "get_epoch st w eid = Some e" for w eid e
  proof (cases "w \<noteq> ws \<or> ep_status e \<noteq> ''open''")
    case True
    then have "get_epoch st1 w eid = Some e" "epoch_ops st1 w eid = epoch_ops st w eid"
      using assms(1) e by (auto simp: append_rel_def)
    then show ?thesis using assms(2) True unfolding append_rel_def by metis
  next
    case False
    then obtain e' where "get_epoch st1 w eid = Some e'" "ep_status e' = ''open''"
      "ep_workspace_revision e' = ep_workspace_revision e"
      using assms(1) e unfolding append_rel_def by metis
    then show ?thesis using assms(2) False unfolding append_rel_def by metis
  qed
  ultimately show ?thesis unfolding append_rel_def by blast
qed

lemma get_epoch_insert:
  "get_epoch st w eid = Some e \<Longrightarrow> get_epoch (st\<lparr>tb_epochs := tb_epochs st @ es\<rparr>) w eid = Some e"
proof -
  have "find P xs = Some y \<Longrightarrow> find P (xs @ ys) = Some y" for P :: "epoch_record \<Rightarrow> bool" and xs ys y
    by (induction xs) auto
  then show "get_epoch st w eid = Some e \<Longrightarrow> ?thesis" by (simp add: get_epoch_def)
qed

lemma get_epoch_update:
  assumes "\<And>e. ep_workspace_id (f e) = ep_workspace_id e" "\<And>e. ep_epoch_id (f e) = ep_epoch_id e"
  shows "get_epoch (update_epoch ws eid f st) w x =
    (if w = ws \<and> x = eid then map_option f (get_epoch st w x) else get_epoch st w x)"
proof -
  have "find (\<lambda>e. ep_workspace_id e = w \<and> ep_epoch_id e = x)
      (update_rows (\<lambda>e. ep_workspace_id e = ws \<and> ep_epoch_id e = eid) f xs) =
      (if w = ws \<and> x = eid then map_option f (find (\<lambda>e. ep_workspace_id e = w \<and> ep_epoch_id e = x) xs)
       else find (\<lambda>e. ep_workspace_id e = w \<and> ep_epoch_id e = x) xs)" for xs
    using assms by (induction xs) (auto simp: update_rows_def)
  then show ?thesis by (simp add: get_epoch_def update_epoch_def)
qed

lemma append_rel_epochs: "append_rel ws st (st\<lparr>tb_epochs := tb_epochs st @ es\<rparr>)"
proof -
  let ?st' = "st\<lparr>tb_epochs := tb_epochs st @ es\<rparr>"
  have ops: "operations_of ?st' = operations_of st" by (simp add: operations_of_def fun_eq_iff)
  have "?st' = st\<lparr>tb_operations := tb_operations st @ [], tb_epochs := tb_epochs st @ es\<rparr>" by simp
  moreover have "get_epoch ?st' w eid = Some e" if "get_epoch st w eid = Some e" for w eid e
    using get_epoch_insert [OF that] .
  ultimately show ?thesis
    unfolding append_rel_def epoch_ops_cong [OF ops] by (metis emptyE list.set(1))
qed

lemma append_rel_land:
  assumes "ledger_ok st" "open_epoch_is st (op_workspace_id op) (op_epoch_id op)"
  shows "append_rel (op_workspace_id op) st (land_operation op st)"
proof -
  let ?ws = "op_workspace_id op" and ?eid = "op_epoch_id op"
  let ?st' = "land_operation op st" and ?f = "extend_span (op_server_sequence op)"
  have eok: "epochs_ok st" using assms(1) by (simp add: ledger_ok_def)
  obtain x where x: "get_epoch st ?ws ?eid = Some x" "ep_status x = ''open''"
    using assms(2) get_epoch_iff [OF eok] last_in_set by (metis open_epoch_is_def)
  have g: "get_epoch ?st' w eid =
      (if w = ?ws \<and> eid = ?eid then map_option ?f (get_epoch st w eid) else get_epoch st w eid)" for w eid
    by (simp add: land_operation_def get_epoch_update) (simp add: get_epoch_def)
  have "if w \<noteq> ?ws \<or> ep_status e \<noteq> ''open''
      then get_epoch ?st' w eid = Some e \<and> epoch_ops ?st' w eid = epoch_ops st w eid
      else \<exists>e'. get_epoch ?st' w eid = Some e' \<and> ep_status e' = ''open'' \<and>
             ep_workspace_revision e' = ep_workspace_revision e"
    if e: "get_epoch st w eid = Some e" for w eid e
    using e x by (auto simp: g land_epoch_ops)
  moreover have "?st' = st\<lparr>tb_operations := tb_operations st @ [op], tb_epochs := tb_epochs ?st'\<rparr>"
    by (simp add: land_operation_def update_epoch_def)
  moreover have "\<forall>y\<in>set [op]. op_workspace_id y = ?ws" by simp
  ultimately show ?thesis unfolding append_rel_def by blast
qed

text \<open>After an iteration the item is settled: its record is the durable row of its id.\<close>

definition settled :: "string \<Rightarrow> store \<Rightarrow> operation_item \<Rightarrow> operation_record \<Rightarrow> bool" where
  "settled ws st item rec \<longleftrightarrow>
     (\<exists>r d. find_operation st (it_operation_id item) = Some r \<and> same_content ws item r \<and>
            rec = as_record d r)"

lemma find_append: "find P xs = Some y \<Longrightarrow> find P (xs @ ys) = Some y"
  by (induction xs) auto

lemma find_append_None: "find P xs = None \<Longrightarrow> find P (xs @ ys) = find P ys"
  by (induction xs) (auto split: if_splits)

lemma settled_mono: "append_rel ws st st' \<Longrightarrow> settled ws st item rec \<Longrightarrow> settled ws st' item rec"
  unfolding settled_def append_rel_def find_operation_def by (auto dest: find_append) (metis find_append)

lemma append_item_settles:
  assumes ok: "batch_ok ws (st, sequence, epoch, records)"
    and step: "append_item now ws (st, sequence, epoch, records) item = Inr (st', sequence', epoch', records')"
  shows "append_rel ws st st' \<and> (\<exists>rec. records' = records @ [rec] \<and> settled ws st' item rec)"
  using ok
proof (cases rule: append_item_cases [where item = item and now = now])
  case (replay r)
  then show ?thesis using step append_rel_refl by (auto simp: settled_def)
next
  case (landed st1 es eid)
  let ?op = "accepted now ws (sequence + 1) eid item"
  have st': "st' = land_operation ?op st1" "records' = records @ [as_record False ?op]"
    using step unfolding landed(8) by auto
  have "append_rel ws st st1" using append_rel_epochs landed(3) by simp
  moreover have "append_rel ws st1 st'" using append_rel_land [OF landed(6), of ?op] landed(4) st' by simp
  ultimately have rel: "append_rel ws st st'" by (rule append_rel_trans)
  have "tb_operations st' = tb_operations st @ [?op]" by (simp add: st' land_operation_def landed(3))
  then have "find_operation st' (it_operation_id item) = Some ?op"
    using landed(1) by (simp add: find_operation_def find_append_None)
  moreover have "same_content ws item ?op" by (simp add: same_content_def accepted_def)
  ultimately show ?thesis using rel st'(2) by (auto simp: settled_def)
qed (use step in simp_all)

lemma append_fold_settles:
  assumes "fold_exc (append_item now ws) (st, sequence, epoch, records) items =
      Inr (st', sequence', epoch', records')" "batch_ok ws (st, sequence, epoch, records)"
  shows "append_rel ws st st' \<and> (\<exists>new. records' = records @ new \<and> list_all2 (settled ws st') items new)"
  using assms
proof (induction items arbitrary: st sequence epoch records)
  case Nil
  then show ?case by (simp add: append_rel_refl)
next
  case (Cons item items)
  obtain st1 q1 e1 r1 where step: "append_item now ws (st, sequence, epoch, records) item =
      Inr (st1, q1, e1, r1)" and rest: "fold_exc (append_item now ws) (st1, q1, e1, r1) items =
      Inr (st', sequence', epoch', records')"
    using Cons.prems(1) by (auto split: sum.splits)
  have ok1: "batch_ok ws (st1, q1, e1, r1)" using append_item_ok [OF Cons.prems(2) step] .
  obtain rec where s: "append_rel ws st st1" "r1 = records @ [rec]" "settled ws st1 item rec"
    using append_item_settles [OF Cons.prems(2) step] by blast
  obtain new where n: "append_rel ws st1 st'" "records' = r1 @ new" "list_all2 (settled ws st') items new"
    using Cons.IH [OF rest ok1] by blast
  then show ?case using s settled_mono [OF n(1) s(3)] append_rel_trans
    by (intro conjI exI [of _ "rec # new"]) auto
qed

text \<open>Replaying a batch of settled items changes nothing and returns the durable rows.\<close>

lemma replay_settled:
  assumes "list_all2 (settled ws st) items recs"
  shows "fold_exc (append_item now ws) (st, sequence, epoch, records) items =
    Inr (st, sequence, epoch, records @ map (\<lambda>r. r\<lparr>op_duplicate := True\<rparr>) recs)"
  using assms
proof (induction items arbitrary: recs records)
  case (Cons item items)
  then obtain rec recs' where r: "recs = rec # recs'" "settled ws st item rec"
    "list_all2 (settled ws st) items recs'" by (auto simp: list_all2_Cons1)
  then obtain r d where "find_operation st (it_operation_id item) = Some r" "same_content ws item r"
    "rec = as_record d r" by (auto simp: settled_def)
  moreover from this have "as_record True r = rec\<lparr>op_duplicate := True\<rparr>"
    by (simp add: as_record_def operation.extend_def operation_record.fields_def)
  ultimately show ?case using Cons.IH [OF r(3)] r(1) by (simp add: append_item_def)
qed simp

section \<open>Properties of the operation ledger\<close>

definition sample_store :: store where
  "sample_store =
     empty_store\<lparr>tb_scenarios := [new_scenario (Stamp 0) ''w'' ''site'' ''demo'' None]\<rparr>"

definition sample_item :: "string \<Rightarrow> json dict \<Rightarrow> operation_item" where
  "sample_item oid payload =
     \<lparr>it_operation_id = oid, it_client_sequence = None, it_base_revision = None,
      it_source_family = ''building_geometry'', it_entity_id = Some ''b1'', it_verb = ''add'',
      it_payload = JObj payload, it_actor_id = ''ann'', it_received_at = Stamp 1\<rparr>"

definition sample_batch :: "operation_item list" where
  "sample_batch = [sample_item ''o1'' [(''height_m'', JInt 10)], sample_item ''o2'' [(''height_m'', JInt 11)]]"

lemma sample_store_ok: "ledger_ok sample_store"
  using ledger_ok_cong [of sample_store empty_store] empty_ledger_ok by (simp add: sample_store_def)

lemma not_isl_Inr: "\<not> isl x \<Longrightarrow> \<exists>a b. x = Inr (a, b)"
  by (cases x) auto

lemma sample_append: "\<exists>st' recs. append_operations (\<lambda>_. Stamp 5) ''w'' sample_batch sample_store = Inr (st', recs)"
  by (rule not_isl_Inr) code_simp

text \<open>Accepting a batch keeps the ledger well-formed: operation ids stay unique, every
  workspace's server sequence stays contiguous from one, epochs stay numbered from zero with only
  the newest possibly open, and every epoch row records exactly the span of its operations.\<close>

lemma append_operations_keeps_ledger:
  assumes "ledger_ok st" "append_operations clk ws items st = Inr (st', records)"
  shows "ledger_ok st' \<and> length records = length items"
proof -
  obtain sequence epoch where f: "fold_exc (append_item (clk 0) ws) (st, max_sequence st ws, None, []) items =
       Inr (st', sequence, epoch, records)" using append_operationsE [OF assms(2)] by blast
  show ?thesis
    using append_operations_ledger [OF assms] append_fold_settles [OF f batch_start [OF assms(1)]]
    by (auto dest: list_all2_lengthD)
qed

lemma append_operations_keeps_ledger_witness:
  "\<exists>st' records. append_operations (\<lambda>_. Stamp 5) ''w'' sample_batch sample_store = Inr (st', records) \<and>
     (ledger_ok st' \<and> length records = length sample_batch)"
  using append_operations_keeps_ledger [OF sample_store_ok] sample_append by blast

text \<open>On a well-formed ledger a batch is refused only for the documented reasons: an unknown
  workspace, an operation id reused with different content, or an unsupported family. The
  primary-key and uniqueness constraints of the tables are never what stops it.\<close>

lemma append_operations_refusals:
  assumes "ledger_ok st" "append_operations clk ws items st = Inl e"
  shows "e = ScenarioNotFound ws \<and> get_scenario st ws = None \<or>
    (\<exists>item\<in>set items. e = OperationFingerprintConflict (it_operation_id item) \<or>
       e = UnsupportedFamily (it_source_family item) \<and>
       it_source_family item \<notin> set supported_source_families)"
proof -
  have loop: "\<exists>item\<in>set items. e = OperationFingerprintConflict (it_operation_id item) \<or>
      e = UnsupportedFamily (it_source_family item) \<and> it_source_family item \<notin> set supported_source_families"
    if "fold_exc (append_item now ws) b items = Inl e" "batch_ok ws b" for now b
    using that
  proof (induction items arbitrary: b)
    case (Cons item items)
    obtain st sequence epoch records where b: "b = (st, sequence, epoch, records)" by (metis prod.exhaust)
    show ?case
    proof (cases "append_item now ws b item")
      case (Inr b')
      then show ?thesis using Cons append_item_ok [OF Cons.prems(2) Inr] by auto
    next
      case (Inl e')
      from Cons.prems(2) [unfolded b] show ?thesis
        by (cases rule: append_item_cases [where item = item and now = now])
          (use Inl Cons.prems(1) b in auto)
    qed
  qed simp
  show ?thesis
    using assms(2) loop [OF _ batch_start [OF assms(1)]]
    by (auto simp: append_operations_def require_scenario_def split: option.splits sum.splits)
qed

lemma append_operations_refusals_witness:
  "append_operations (\<lambda>_. Stamp 5) ''x'' sample_batch sample_store = Inl (ScenarioNotFound ''x'') \<and>
   (ScenarioNotFound ''x'' = ScenarioNotFound ''x'' \<and> get_scenario sample_store ''x'' = None \<or>
    (\<exists>item\<in>set sample_batch. ScenarioNotFound ''x'' = OperationFingerprintConflict (it_operation_id item) \<or>
       ScenarioNotFound ''x'' = UnsupportedFamily (it_source_family item) \<and>
       it_source_family item \<notin> set supported_source_families))"
proof -
  have "append_operations (\<lambda>_. Stamp 5) ''x'' sample_batch sample_store = Inl (ScenarioNotFound ''x'')"
    by (simp add: append_operations_def require_scenario_def get_scenario_def sample_store_def new_scenario_def)
  with append_operations_refusals [OF sample_store_ok this] show ?thesis by blast
qed

text \<open>C18: retries are idempotent. Submitting an accepted batch again changes nothing in the store
  and returns the existing durable records, flagged as duplicates.\<close>

theorem append_operations_retry:
  assumes "ledger_ok st" "append_operations clk ws items st = Inr (st', records)"
  shows "append_operations clk' ws items st' =
    Inr (st', map (\<lambda>r. r\<lparr>op_duplicate := True\<rparr>) records)"
proof -
  obtain sequence epoch where f: "fold_exc (append_item (clk 0) ws) (st, max_sequence st ws, None, []) items =
       Inr (st', sequence, epoch, records)" and ws: "get_scenario st ws \<noteq> None"
    using append_operationsE [OF assms(2)] by blast
  have s: "append_rel ws st st'" "list_all2 (settled ws st') items records"
    using append_fold_settles [OF f batch_start [OF assms(1)]] by auto
  have "get_scenario st' ws \<noteq> None" using s(1) ws by (auto simp: append_rel_def get_scenario_def)
  then show ?thesis
    using replay_settled [OF s(2), where now = "clk' 0" and sequence = "max_sequence st' ws" and epoch = None
        and records = "[]"]
    by (auto simp: append_operations_def require_scenario_def)
qed

theorem append_operations_retry_witness:
  "\<exists>st' records. append_operations (\<lambda>_. Stamp 5) ''w'' sample_batch sample_store = Inr (st', records) \<and>
     append_operations (\<lambda>_. Stamp 9) ''w'' sample_batch st' =
       Inr (st', map (\<lambda>r. r\<lparr>op_duplicate := True\<rparr>) records)"
  using append_operations_retry [OF sample_store_ok] sample_append by blast

text \<open>An epoch that is no longer open is frozen: accepting operations never changes its row or
  its operations, whatever the batch, and never changes any epoch of another workspace.\<close>

lemma append_operations_freezes_closed_epochs:
  assumes "ledger_ok st" "append_operations clk ws items st = Inr (st', records)"
    "get_epoch st w eid = Some e" "ep_status e \<noteq> ''open'' \<or> w \<noteq> ws"
  shows "get_epoch st' w eid = Some e \<and> operations_for_epoch st' w eid = operations_for_epoch st w eid"
proof -
  obtain sequence epoch where f: "fold_exc (append_item (clk 0) ws) (st, max_sequence st ws, None, []) items =
       Inr (st', sequence, epoch, records)" using append_operationsE [OF assms(2)] by blast
  have "append_rel ws st st'" using append_fold_settles [OF f batch_start [OF assms(1)]] by blast
  then have "get_epoch st' w eid = Some e" "epoch_ops st' w eid = epoch_ops st w eid"
    using assms(3,4) unfolding append_rel_def by metis+
  then show ?thesis by (simp add: operations_for_epoch_def epoch_ops_def)
qed

definition sample_closed :: store where
  "sample_closed =
     sample_store\<lparr>tb_epochs := [(new_epoch (Stamp 1) ''w'' 0)\<lparr>ep_status := ''reducing''\<rparr>]\<rparr>"

lemma sample_closed_ok: "ledger_ok sample_closed"
  by (auto simp: ledger_defs sample_closed_def sample_store_def empty_store_def operations_of_def
      epochs_of_def new_epoch_def epoch_ops_def span_of_def)

lemma sample_closed_runs: "\<not> isl (append_operations (\<lambda>_. Stamp 5) ''w'' sample_batch sample_closed)"
  by code_simp

lemma append_operations_freezes_closed_epochs_witness:
  "\<exists>st' records e. append_operations (\<lambda>_. Stamp 5) ''w'' sample_batch sample_closed = Inr (st', records) \<and>
     get_epoch sample_closed ''w'' 0 = Some e \<and>
     (get_epoch st' ''w'' 0 = Some e \<and>
      operations_for_epoch st' ''w'' 0 = operations_for_epoch sample_closed ''w'' 0)"
proof -
  obtain st' records where a:
    "append_operations (\<lambda>_. Stamp 5) ''w'' sample_batch sample_closed = Inr (st', records)"
    using not_isl_Inr [of "append_operations (\<lambda>_. Stamp 5) ''w'' sample_batch sample_closed"] sample_closed_runs
    by blast
  have e: "get_epoch sample_closed ''w'' 0 = Some ((new_epoch (Stamp 1) ''w'' 0)\<lparr>ep_status := ''reducing''\<rparr>)"
    by (simp add: sample_closed_def get_epoch_def new_epoch_def)
  have "ep_status ((new_epoch (Stamp 1) ''w'' 0)\<lparr>ep_status := ''reducing''\<rparr>) \<noteq> ''open'' \<or> ''w'' \<noteq> ''w''" by simp
  from append_operations_freezes_closed_epochs [OF sample_closed_ok a e this] show ?thesis using a e by blast
qed

end
