(* ===== verification/Store_Versions.thy ===== *)
theory Store_Versions
  imports Store_Ledger
begin

text \<open>
  Versions across the store. Every mutation moves scene versions up only; results, canonical
  states and ledger events stay keyed within the versions of their scenario; the exact and fast
  revisions never pass the scene version; a revision is assigned to at most one epoch. The
  mutating methods are collected in one step relation, and the invariants hold in every
  reachable store.
\<close>

section \<open>Scenario rows\<close>

definition scene_of :: "store \<Rightarrow> string \<Rightarrow> int option" where
  "scene_of st sid = map_option sc_scene_version (get_scenario st sid)"

definition scenes_le :: "store \<Rightarrow> store \<Rightarrow> bool" where
  "scenes_le st st' \<longleftrightarrow>
     (\<forall>sid v. scene_of st sid = Some v \<longrightarrow> (\<exists>v'\<ge>v. scene_of st' sid = Some v'))"

definition row_ok :: "scenario_record \<Rightarrow> bool" where
  "row_ok r \<longleftrightarrow>
     0 \<le> sc_exact_result_version r \<and> sc_exact_result_version r \<le> sc_scene_version r \<and>
     0 \<le> sc_fast_revision r \<and> sc_fast_revision r \<le> sc_scene_version r \<and>
     0 \<le> sc_exact_base_revision r \<and> sc_exact_base_revision r \<le> sc_exact_result_version r"

definition scenarios_ok :: "store \<Rightarrow> bool" where
  "scenarios_ok st \<longleftrightarrow>
     distinct (map sc_scenario_id (tb_scenarios st)) \<and> (\<forall>r\<in>set (tb_scenarios st). row_ok r)"

lemma scenes_le_refl: "scenes_le st st"
  by (auto simp: scenes_le_def)

lemma scenes_le_trans: "scenes_le a b \<Longrightarrow> scenes_le b c \<Longrightarrow> scenes_le a c"
  unfolding scenes_le_def by (meson order_trans)

lemma scenes_le_cong: "tb_scenarios st' = tb_scenarios st \<Longrightarrow> scenes_le st st'"
  by (auto simp: scenes_le_def scene_of_def get_scenario_def)

lemma get_scenario_update:
  assumes "\<And>r. sc_scenario_id (f r) = sc_scenario_id r"
  shows "get_scenario (update_scenario sid f st) x =
    (if x = sid then map_option f (get_scenario st x) else get_scenario st x)"
proof -
  have "find (\<lambda>r. sc_scenario_id r = x) (update_rows (\<lambda>r. sc_scenario_id r = sid) f rows) =
      (if x = sid then map_option f (find (\<lambda>r. sc_scenario_id r = x) rows)
       else find (\<lambda>r. sc_scenario_id r = x) rows)" for rows
    using assms by (induction rows) (auto simp: update_rows_def)
  then show ?thesis by (simp add: get_scenario_def update_scenario_def)
qed

lemma update_scenario_frame [simp]:
  "tb_results (update_scenario sid f st) = tb_results st"
  "tb_canonical (update_scenario sid f st) = tb_canonical st"
  "tb_events (update_scenario sid f st) = tb_events st"
  "tb_epochs (update_scenario sid f st) = tb_epochs st"
  "tb_operations (update_scenario sid f st) = tb_operations st"
  "tb_jobs (update_scenario sid f st) = tb_jobs st"
  "tb_idempotency (update_scenario sid f st) = tb_idempotency st"
  by (simp_all add: update_scenario_def)

lemma update_jobs_frame [simp]:
  "tb_results (update_jobs p f st) = tb_results st"
  "tb_canonical (update_jobs p f st) = tb_canonical st"
  "tb_events (update_jobs p f st) = tb_events st"
  "tb_epochs (update_jobs p f st) = tb_epochs st"
  "tb_operations (update_jobs p f st) = tb_operations st"
  "tb_scenarios (update_jobs p f st) = tb_scenarios st"
  "tb_idempotency (update_jobs p f st) = tb_idempotency st"
  by (simp_all add: update_jobs_def)

lemma supersede_frame [simp]:
  "tb_results (supersede_queued_locked t sid x st) = tb_results st"
  "tb_canonical (supersede_queued_locked t sid x st) = tb_canonical st"
  "tb_events (supersede_queued_locked t sid x st) = tb_events st"
  "tb_epochs (supersede_queued_locked t sid x st) = tb_epochs st"
  "tb_operations (supersede_queued_locked t sid x st) = tb_operations st"
  "tb_scenarios (supersede_queued_locked t sid x st) = tb_scenarios st"
  "tb_idempotency (supersede_queued_locked t sid x st) = tb_idempotency st"
  by (simp_all add: supersede_queued_locked_def)

lemma get_scenario_in:
  "scenarios_ok st \<Longrightarrow> get_scenario st sid = Some r \<longleftrightarrow> r \<in> set (tb_scenarios st) \<and> sc_scenario_id r = sid"
proof
  assume "scenarios_ok st" "get_scenario st sid = Some r"
  then show "r \<in> set (tb_scenarios st) \<and> sc_scenario_id r = sid"
    unfolding get_scenario_def by (blast dest: find_Some_in)
next
  assume "scenarios_ok st" "r \<in> set (tb_scenarios st) \<and> sc_scenario_id r = sid"
  then show "get_scenario st sid = Some r"
    using find_by_key [of sc_scenario_id "tb_scenarios st" r] by (auto simp: get_scenario_def scenarios_ok_def)
qed

lemma scenarios_ok_row: "scenarios_ok st \<Longrightarrow> get_scenario st sid = Some r \<Longrightarrow> row_ok r"
  by (simp add: get_scenario_in) (simp add: scenarios_ok_def)

lemma scenarios_ok_update:
  assumes ok: "scenarios_ok st" and f: "\<And>r. sc_scenario_id (f r) = sc_scenario_id r"
    "\<And>r. get_scenario st sid = Some r \<Longrightarrow> row_ok (f r)"
  shows "scenarios_ok (update_scenario sid f st)"
proof -
  have "map sc_scenario_id (tb_scenarios (update_scenario sid f st)) = map sc_scenario_id (tb_scenarios st)"
    using f(1) by (simp add: update_scenario_def map_update_rows_frame)
  moreover have "row_ok r" if r: "r \<in> set (tb_scenarios (update_scenario sid f st))" for r
  proof -
    obtain x where x: "x \<in> set (tb_scenarios st)" "r = (if sc_scenario_id x = sid then f x else x)"
      using r by (auto simp: update_scenario_def set_update_rows)
    then show ?thesis
      using ok f(2) [of x] get_scenario_in [OF ok, of sid x] by (auto simp: scenarios_ok_def)
  qed
  ultimately show ?thesis using ok by (simp add: scenarios_ok_def)
qed

lemma scenes_le_update:
  assumes "\<And>r. sc_scenario_id (f r) = sc_scenario_id r"
    "\<And>r. get_scenario st sid = Some r \<Longrightarrow> sc_scene_version r \<le> sc_scene_version (f r)"
  shows "scenes_le st (update_scenario sid f st)"
  using assms(2) by (auto simp: scenes_le_def scene_of_def get_scenario_update [of f, OF assms(1)])

section \<open>Keyed tables\<close>

definition bounded_by_scene :: "store \<Rightarrow> string \<Rightarrow> int \<Rightarrow> bool" where
  "bounded_by_scene st sid v \<longleftrightarrow> (\<exists>cur. scene_of st sid = Some cur \<and> 0 \<le> v \<and> v \<le> cur)"

definition results_ok :: "store \<Rightarrow> bool" where
  "results_ok st \<longleftrightarrow>
     distinct (map (\<lambda>r. (rs_scenario_id r, rs_scene_version r)) (tb_results st)) \<and>
     (\<forall>r\<in>set (tb_results st). bounded_by_scene st (rs_scenario_id r) (rs_scene_version r))"

definition canonical_rows_ok :: "store \<Rightarrow> bool" where
  "canonical_rows_ok st \<longleftrightarrow>
     distinct (map (\<lambda>r. (cs_workspace_id r, cs_workspace_revision r)) (tb_canonical st)) \<and>
     (\<forall>r\<in>set (tb_canonical st). bounded_by_scene st (cs_workspace_id r) (cs_workspace_revision r))"

definition edit_seq_of :: "store \<Rightarrow> string \<Rightarrow> int option" where
  "edit_seq_of st sid = map_option sc_edit_sequence (get_scenario st sid)"

text \<open>Every epoch that has a revision has a canonical row for it, and no two epochs of a
  workspace share one.\<close>

definition revisions_ok :: "store \<Rightarrow> bool" where
  "revisions_ok st \<longleftrightarrow>
     (\<forall>e\<in>set (tb_epochs st). \<forall>v. ep_workspace_revision e = Some v \<longrightarrow>
        1 \<le> v \<and> (ep_workspace_id e, v) \<in> (\<lambda>r. (cs_workspace_id r, cs_workspace_revision r)) ` set (tb_canonical st)) \<and>
     (\<forall>e\<in>set (tb_epochs st). \<forall>e'\<in>set (tb_epochs st). \<forall>v.
        ep_workspace_id e = ep_workspace_id e' \<and> ep_workspace_revision e = Some v \<and>
        ep_workspace_revision e' = Some v \<longrightarrow> ep_epoch_id e = ep_epoch_id e')"

definition versions_ok :: "store \<Rightarrow> bool" where
  "versions_ok st \<longleftrightarrow> scenarios_ok st \<and> results_ok st \<and> canonical_rows_ok st \<and> revisions_ok st"

definition canonical_keys :: "store \<Rightarrow> (string \<times> int) set" where
  "canonical_keys st = (\<lambda>r. (cs_workspace_id r, cs_workspace_revision r)) ` set (tb_canonical st)"

text \<open>No epoch row of the new store carries a revision the old store did not give it.\<close>

definition revisions_from :: "store \<Rightarrow> store \<Rightarrow> bool" where
  "revisions_from st st' \<longleftrightarrow>
     (\<forall>e'\<in>set (tb_epochs st'). ep_workspace_revision e' = None \<or>
        (\<exists>e\<in>set (tb_epochs st). ep_workspace_id e = ep_workspace_id e' \<and>
           ep_epoch_id e = ep_epoch_id e' \<and> ep_workspace_revision e = ep_workspace_revision e'))"

lemma revisions_ok_weaken:
  assumes ok: "revisions_ok st" and "revisions_from st st'"
    and keys: "\<And>w x. 1 \<le> x \<Longrightarrow> (w, x) \<in> canonical_keys st \<Longrightarrow> (w, x) \<in> canonical_keys st'"
  shows "revisions_ok st'"
  unfolding revisions_ok_def
proof (intro conjI ballI allI impI)
  have origin: "\<exists>e\<in>set (tb_epochs st). ep_workspace_id e = ep_workspace_id e' \<and>
      ep_epoch_id e = ep_epoch_id e' \<and> ep_workspace_revision e = Some v"
    if "e' \<in> set (tb_epochs st')" "ep_workspace_revision e' = Some v" for e' v
    using assms(2) that unfolding revisions_from_def by (metis option.distinct(1))
  fix e v assume e: "e \<in> set (tb_epochs st')" "ep_workspace_revision e = Some v"
  obtain x where x: "x \<in> set (tb_epochs st)" "ep_workspace_id x = ep_workspace_id e"
    "ep_workspace_revision x = Some v" using origin [OF e] by blast
  have "1 \<le> v \<and> (ep_workspace_id x, v) \<in> canonical_keys st"
    using ok x(1,3) by (simp add: revisions_ok_def canonical_keys_def)
  then show "1 \<le> v" "(ep_workspace_id e, v) \<in> (\<lambda>r. (cs_workspace_id r, cs_workspace_revision r)) ` set (tb_canonical st')"
    using keys [of v] x(2) by (simp_all add: canonical_keys_def)
next
  have origin: "\<exists>e\<in>set (tb_epochs st). ep_workspace_id e = ep_workspace_id e' \<and>
      ep_epoch_id e = ep_epoch_id e' \<and> ep_workspace_revision e = Some v"
    if "e' \<in> set (tb_epochs st')" "ep_workspace_revision e' = Some v" for e' v
    using assms(2) that unfolding revisions_from_def by (metis option.distinct(1))
  fix e e' v assume e: "e \<in> set (tb_epochs st')" "e' \<in> set (tb_epochs st')"
    "ep_workspace_id e = ep_workspace_id e' \<and> ep_workspace_revision e = Some v \<and> ep_workspace_revision e' = Some v"
  obtain x where x: "x \<in> set (tb_epochs st)" "ep_workspace_id x = ep_workspace_id e"
    "ep_epoch_id x = ep_epoch_id e" "ep_workspace_revision x = Some v" using origin [OF e(1)] e(3) by blast
  obtain y where y: "y \<in> set (tb_epochs st)" "ep_workspace_id y = ep_workspace_id e'"
    "ep_epoch_id y = ep_epoch_id e'" "ep_workspace_revision y = Some v" using origin [OF e(2)] e(3) by blast
  have "ep_epoch_id x = ep_epoch_id y" using ok x y e(3) unfolding revisions_ok_def by metis
  then show "ep_epoch_id e = ep_epoch_id e'" using x(3) y(3) by simp
qed

lemma revisions_from_same: "tb_epochs st' = tb_epochs st \<Longrightarrow> revisions_from st st'"
  by (auto simp: revisions_from_def)

lemma bounded_mono: "scenes_le st st' \<Longrightarrow> bounded_by_scene st sid v \<Longrightarrow> bounded_by_scene st' sid v"
  unfolding bounded_by_scene_def scenes_le_def by (meson order_trans)

lemma results_ok_mono:
  "results_ok st \<Longrightarrow> scenes_le st st' \<Longrightarrow> tb_results st' = tb_results st \<Longrightarrow> results_ok st'"
  using bounded_mono by (auto simp: results_ok_def)

lemma canonical_rows_ok_mono:
  "canonical_rows_ok st \<Longrightarrow> scenes_le st st' \<Longrightarrow> tb_canonical st' = tb_canonical st \<Longrightarrow> canonical_rows_ok st'"
  using bounded_mono by (auto simp: canonical_rows_ok_def)

lemma revisions_ok_cong:
  "revisions_ok st \<Longrightarrow> tb_epochs st' = tb_epochs st \<Longrightarrow> tb_canonical st' = tb_canonical st \<Longrightarrow> revisions_ok st'"
  by (simp only: revisions_ok_def)

lemma versions_ok_frame:
  assumes "versions_ok st" "tb_scenarios st' = tb_scenarios st" "tb_results st' = tb_results st"
    "tb_canonical st' = tb_canonical st" "tb_epochs st' = tb_epochs st"
  shows "versions_ok st'" "scenes_le st st'"
proof -
  show le: "scenes_le st st'" using scenes_le_cong [OF assms(2)] .
  show "versions_ok st'"
    unfolding versions_ok_def
  proof (intro conjI)
    have ok: "scenarios_ok st" "results_ok st" "canonical_rows_ok st" "revisions_ok st"
      using assms(1) unfolding versions_ok_def by blast+
    show "scenarios_ok st'" using ok(1) unfolding scenarios_ok_def assms(2) .
    show "results_ok st'" using results_ok_mono [OF ok(2) le assms(3)] .
    show "canonical_rows_ok st'" using canonical_rows_ok_mono [OF ok(3) le assms(4)] .
    show "revisions_ok st'" using revisions_ok_cong [OF ok(4) assms(5,4)] .
  qed
qed

lemma versions_ok_scenario_update:
  assumes ok: "versions_ok st" and f: "\<And>r. sc_scenario_id (f r) = sc_scenario_id r"
    "\<And>r. get_scenario st sid = Some r \<Longrightarrow> row_ok (f r)"
    "\<And>r. get_scenario st sid = Some r \<Longrightarrow> sc_scene_version r \<le> sc_scene_version (f r)"
  shows "versions_ok (update_scenario sid f st)" "scenes_le st (update_scenario sid f st)"
proof -
  show le: "scenes_le st (update_scenario sid f st)" using scenes_le_update [of f, OF f(1,3)] .
  have "scenarios_ok (update_scenario sid f st)"
    by (rule scenarios_ok_update) (use ok f in \<open>simp_all add: versions_ok_def\<close>)
  then show "versions_ok (update_scenario sid f st)"
    using ok results_ok_mono [OF _ le] canonical_rows_ok_mono [OF _ le]
      revisions_ok_cong [of st "update_scenario sid f st"]
    by (simp add: versions_ok_def)
qed

lemma empty_versions_ok: "versions_ok empty_store"
  by (simp add: versions_ok_def scenarios_ok_def results_ok_def canonical_rows_ok_def revisions_ok_def
      empty_store_def)

section \<open>Publishing results\<close>

lemma get_result_None:
  "get_result st sid v = None \<longleftrightarrow>
   (sid, v) \<notin> (\<lambda>r. (rs_scenario_id r, rs_scene_version r)) ` set (tb_results st)"
  by (auto simp: get_result_def find_None_iff)

lemma versions_ok_add_result:
  assumes ok: "versions_ok st" and r: "get_result st (rs_scenario_id r) (rs_scene_version r) = None"
    "bounded_by_scene st (rs_scenario_id r) (rs_scene_version r)"
  shows "versions_ok (st\<lparr>tb_results := tb_results st @ [r]\<rparr>)" (is "versions_ok ?st'")
proof -
  have b: "bounded_by_scene ?st' = bounded_by_scene st"
    by (simp add: bounded_by_scene_def scene_of_def get_scenario_def fun_eq_iff)
  have "results_ok ?st'"
    using ok r by (simp add: versions_ok_def results_ok_def b get_result_None)
  moreover have "revisions_ok ?st'" by (rule revisions_ok_cong [of st]) (use ok in \<open>simp_all add: versions_ok_def\<close>)
  ultimately show ?thesis
    using ok by (simp add: versions_ok_def scenarios_ok_def canonical_rows_ok_def b)
qed

lemma new_result_simps [simp]:
  "rs_scenario_id (new_result t sid v m p x j) = sid" "rs_scene_version (new_result t sid v m p x j) = v"
  "rs_exact (new_result t sid v m p x j) = x" "rs_job_id (new_result t sid v m p x j) = j"
  "rs_payload (new_result t sid v m p x j) = p"
  by (simp_all add: new_result_def)

lemma publish_result_lockedE:
  assumes "publish_result_locked t0 t1 sid v manifest payload exact jid acked st = Inr st'"
  obtains row st1 where "get_scenario st sid = Some row" "v = sc_scene_version row"
    "get_result st sid v = None"
    "st1 = st\<lparr>tb_results := tb_results st @ [new_result t0 sid v manifest payload exact jid]\<rparr>"
    "st' = (if exact \<and> sc_exact_result_version row \<le> v
        then update_scenario sid (mark_exact t1 v acked) st1 else st1)"
  using assms unfolding publish_result_locked_def require_scenario_def
  by (cases "get_scenario st sid") (auto simp: Let_def split: if_splits)

lemma publish_result_locked_ok:
  assumes ok: "versions_ok st"
    and pub: "publish_result_locked t0 t1 sid v manifest payload exact jid acked st = Inr st'"
  shows "versions_ok st' \<and> scenes_le st st' \<and> tb_canonical st' = tb_canonical st \<and>
    tb_epochs st' = tb_epochs st \<and> tb_operations st' = tb_operations st"
proof -
  obtain row st1 where r: "get_scenario st sid = Some row" "v = sc_scene_version row"
    "get_result st sid v = None"
    and st1: "st1 = st\<lparr>tb_results := tb_results st @ [new_result t0 sid v manifest payload exact jid]\<rparr>"
    and st': "st' = (if exact \<and> sc_exact_result_version row \<le> v
        then update_scenario sid (mark_exact t1 v acked) st1 else st1)"
    using publish_result_lockedE [OF pub] by metis
  have row: "row_ok row" using ok r(1) scenarios_ok_row by (auto simp: versions_ok_def)
  have "bounded_by_scene st sid v"
    using r(1,2) row by (auto simp: bounded_by_scene_def scene_of_def row_ok_def)
  then have ok1: "versions_ok st1"
    using versions_ok_add_result [OF ok, of "new_result t0 sid v manifest payload exact jid"] r
    by (simp add: st1)
  have g: "get_scenario st1 = get_scenario st" by (simp add: st1 get_scenario_def fun_eq_iff)
  have le1: "scenes_le st st1" by (rule scenes_le_cong) (simp add: st1)
  have frame: "tb_canonical st1 = tb_canonical st" "tb_epochs st1 = tb_epochs st"
    "tb_operations st1 = tb_operations st" by (simp_all add: st1)
  show ?thesis
  proof (cases "exact \<and> sc_exact_result_version row \<le> v")
    case True
    have "row_ok (mark_exact t1 v acked x)" "sc_scene_version x \<le> sc_scene_version (mark_exact t1 v acked x)"
      if "get_scenario st1 sid = Some x" for x
      using that r(1,2) row True by (auto simp: g row_ok_def mark_exact_def)
    moreover have "sc_scenario_id (mark_exact t1 v acked x) = sc_scenario_id x" for x
      by (simp add: mark_exact_def)
    ultimately have "versions_ok st'" "scenes_le st1 st'"
      using versions_ok_scenario_update [OF ok1, of "mark_exact t1 v acked" sid] True st' by simp_all
    then show ?thesis using True scenes_le_trans [OF le1] frame by (simp add: st')
  next
    case False
    then have "st' = st1" by (simp only: st' if_False)
    then show ?thesis using ok1 le1 frame by simp
  qed
qed

lemma publish_result_ok:
  assumes "versions_ok st" "publish_result clk sid v manifest payload exact jid acked st = Inr st'"
  shows "versions_ok st' \<and> scenes_le st st' \<and> tb_canonical st' = tb_canonical st \<and>
    tb_epochs st' = tb_epochs st \<and> tb_operations st' = tb_operations st"
  using assms publish_result_locked_ok [OF assms(1)]
  by (auto simp: publish_result_def split: option.splits if_splits)

section \<open>Scenario mutations\<close>

text \<open>The tables a ledger or job insertion leaves alone.\<close>

definition keeps_planes :: "store \<Rightarrow> store \<Rightarrow> bool" where
  "keeps_planes st st' \<longleftrightarrow>
     tb_scenarios st' = tb_scenarios st \<and> tb_results st' = tb_results st \<and>
     tb_canonical st' = tb_canonical st \<and> tb_epochs st' = tb_epochs st \<and>
     tb_operations st' = tb_operations st"

lemma keeps_planes_refl [simp]: "keeps_planes st st"
  by (simp add: keeps_planes_def)

lemma keeps_planes_trans: "keeps_planes a b \<Longrightarrow> keeps_planes b c \<Longrightarrow> keeps_planes a c"
  by (simp add: keeps_planes_def)

lemma keeps_planes_ok: "keeps_planes st st' \<Longrightarrow> versions_ok st \<Longrightarrow> versions_ok st' \<and> scenes_le st st'"
  using versions_ok_frame [of st st'] by (auto simp: keeps_planes_def)

lemma keeps_planes_ledger: "keeps_planes st st' \<Longrightarrow> ledger_ok st' = ledger_ok st"
  by (rule ledger_ok_cong) (simp_all add: keeps_planes_def)

lemma keeps_planes_get: "keeps_planes st st' \<Longrightarrow> get_scenario st' = get_scenario st"
  by (simp add: keeps_planes_def get_scenario_def fun_eq_iff)

lemma keeps_planes_steps:
  "insert_event e st = Inr st' \<Longrightarrow> keeps_planes st st'"
  "insert_job_locked t jid sid v q w bw st = Inr st' \<Longrightarrow> keeps_planes st st'"
  "save_idempotency t scope kf resp st = Inr st' \<Longrightarrow> keeps_planes st st'"
  "keeps_planes st (supersede_queued_locked t sid x st)"
  "keeps_planes st (apply_tree_edit sid edit st)"
  by (auto simp: keeps_planes_def insert_event_def insert_job_locked_def save_idempotency_def
      store_idempotency_def apply_tree_edit_def split: if_splits option.splits)

lemma tree_steps_keep:
  assumes "fold_exc (tree_edit_step now eids sid base key start) (st, sequence) edits = Inr (st', sequence')"
  shows "keeps_planes st st'"
proof -
  have "keeps_planes st (fst (st', sequence'))"
  proof (rule fold_exc_inv [OF assms, where P = "\<lambda>s. keeps_planes st (fst s)"])
    fix s x s' assume "keeps_planes st (fst s)" "tree_edit_step now eids sid base key start s x = Inr s'"
    then show "keeps_planes st (fst s')"
      by (cases s) (auto simp: tree_edit_step_def Let_def dest!: map_sum_Inr keeps_planes_steps(1),
          metis keeps_planes_trans keeps_planes_steps(5))
  qed simp
  then show ?thesis by simp
qed

lemma family_steps_keep:
  assumes "fold_exc (family_edit_step now eids sid base key start) (st, sequence) edits = Inr (st', sequence')"
  shows "keeps_planes st st'"
proof -
  have "keeps_planes st (fst (st', sequence'))"
  proof (rule fold_exc_inv [OF assms, where P = "\<lambda>s. keeps_planes st (fst s)"])
    fix s x s' assume "keeps_planes st (fst s)" "family_edit_step now eids sid base key start s x = Inr s'"
    then show "keeps_planes st (fst s')"
      using keeps_planes_steps(1) keeps_planes_trans
      by (cases s) (auto simp: family_edit_step_def Let_def dest!: map_sum_Inr)
  qed simp
  then show ?thesis by simp
qed

text \<open>The row an edit commit leaves.\<close>

lemma commit_batchE:
  assumes "commit_batch clk jid respond ledger finish sid req st = Inr (st', record, jid')"
  obtains row st1 sequence st2 st4 where "get_scenario st sid = Some row"
    "er_base_scene_version req = sc_scene_version row"
    "ledger (clk 0) row (st, sc_edit_sequence row) = Inr (st1, sequence)"
    "insert_job_locked (clk 1) jid sid (sc_scene_version row + 1) (JObj (er_requested req)) sequence
       (sc_acked_sequence row) st1 = Inr st2"
    "st4 = update_scenario sid (finish \<circ> edited_row (clk 0) (sc_scene_version row + 1) sequence)
       (supersede_queued_locked (clk 2) sid (Some jid) st2)"
    "keeps_planes st4 st'" "get_scenario st4 sid = Some record" "jid' = jid"
    "guard_idempotency st sid (keyed (er_key req) (er_fingerprint req)) = Inr ()"
    "save_idempotency (clk 3) sid (keyed (er_key req) (er_fingerprint req)) (respond record jid) st4 = Inr st'"
proof -
  let ?kf = "keyed (er_key req) (er_fingerprint req)"
  obtain row where row: "guard_idempotency st sid ?kf = Inr ()" "get_scenario st sid = Some row"
    "er_base_scene_version req = sc_scene_version row"
    using assms by (auto simp: commit_batch_def Let_def require_scenario_def
        split: sum.splits option.splits if_splits)
  obtain st1 sequence where l: "ledger (clk 0) row (st, sc_edit_sequence row) = Inr (st1, sequence)"
    using assms row by (auto simp: commit_batch_def Let_def require_scenario_def split: sum.splits)
  obtain st2 where j: "insert_job_locked (clk 1) jid sid (sc_scene_version row + 1)
      (JObj (er_requested req)) sequence (sc_acked_sequence row) st1 = Inr st2"
    using assms row l by (auto simp: commit_batch_def Let_def require_scenario_def split: sum.splits)
  let ?st4 = "update_scenario sid (finish \<circ> edited_row (clk 0) (sc_scene_version row + 1) sequence)
       (supersede_queued_locked (clk 2) sid (Some jid) st2)"
  obtain rec where rec: "get_scenario ?st4 sid = Some rec"
    "map_sum id (\<lambda>s. (s, (rec, jid))) (save_idempotency (clk 3) sid ?kf (respond rec jid) ?st4) =
      Inr (st', record, jid')"
    using assms row l j by (auto simp: commit_batch_def Let_def require_scenario_def split: option.splits)
  obtain s where "save_idempotency (clk 3) sid ?kf (respond rec jid) ?st4 = Inr s"
    "(st', record, jid') = (s, rec, jid)" using map_sum_Inr [OF rec(2)] by auto
  then show thesis using that [OF row(2,3) l j refl _ _ _ row(1)] rec(1) keeps_planes_steps(3) by auto
qed

lemma commit_batch_ok:
  assumes ok: "versions_ok st"
    and c: "commit_batch clk jid respond ledger finish sid req st = Inr (st', record, jid')"
    and ledger: "\<And>now row s st1 q. ledger now row s = Inr (st1, q) \<Longrightarrow> keeps_planes (fst s) st1"
    and finish: "\<And>r. sc_scenario_id (finish r) = sc_scenario_id r \<and>
      sc_scene_version (finish r) = sc_scene_version r \<and> row_ok (finish r) = row_ok r"
  shows "versions_ok st' \<and> scenes_le st st' \<and> tb_results st' = tb_results st \<and>
    tb_canonical st' = tb_canonical st \<and> tb_epochs st' = tb_epochs st \<and>
    tb_operations st' = tb_operations st \<and>
    scene_of st' sid = Some (er_base_scene_version req + 1) \<and> scene_of st sid = Some (er_base_scene_version req)"
proof -
  obtain row st1 sequence st2 st4 where s: "get_scenario st sid = Some row"
    "er_base_scene_version req = sc_scene_version row"
    "ledger (clk 0) row (st, sc_edit_sequence row) = Inr (st1, sequence)"
    "insert_job_locked (clk 1) jid sid (sc_scene_version row + 1) (JObj (er_requested req)) sequence
       (sc_acked_sequence row) st1 = Inr st2"
    "st4 = update_scenario sid (finish \<circ> edited_row (clk 0) (sc_scene_version row + 1) sequence)
       (supersede_queued_locked (clk 2) sid (Some jid) st2)"
    "keeps_planes st4 st'"
    by (rule commit_batchE [OF c]) (rule that)
  define st3 where "st3 = supersede_queued_locked (clk 2) sid (Some jid) st2"
  define f where "f = finish \<circ> edited_row (clk 0) (sc_scene_version row + 1) sequence"
  have st4: "st4 = update_scenario sid f st3" using s(5) by (simp add: st3_def f_def)
  have k: "keeps_planes st st3"
    using ledger [OF s(3)] keeps_planes_steps(2) [OF s(4)] keeps_planes_steps(4) keeps_planes_trans
    unfolding st3_def by (metis fst_conv)
  note k_ok = keeps_planes_ok [OF k ok] and k_get = keeps_planes_get [OF k]
  have row: "row_ok row" using ok s(1) scenarios_ok_row by (auto simp: versions_ok_def)
  have ids: "sc_scenario_id (f r) = sc_scenario_id r" for r
    using finish by (simp add: f_def edited_row_def)
  have version: "sc_scene_version (f row) = sc_scene_version row + 1"
    using finish by (simp add: f_def edited_row_def)
  have edited: "row_ok (edited_row (clk 0) (sc_scene_version row + 1) sequence row)"
    using row by (simp add: row_ok_def edited_row_def)
  have f: "row_ok (f r)" "sc_scene_version r \<le> sc_scene_version (f r)"
    if "get_scenario st3 sid = Some r" for r
    using that s(1) finish edited version by (auto simp: k_get f_def)
  have u: "versions_ok st4" "scenes_le st3 st4"
    using versions_ok_scenario_update [where f = f and sid = sid, OF _ ids f] k_ok st4 by auto
  have sc: "scene_of st4 sid = Some (sc_scene_version row + 1)"
    using s(1) version by (simp add: scene_of_def st4 get_scenario_update [of f, OF ids] k_get)
  have "scene_of st' = scene_of st4" using keeps_planes_get [OF s(6)] by (simp add: scene_of_def fun_eq_iff)
  moreover have "versions_ok st'" "scenes_le st4 st'" using keeps_planes_ok [OF s(6) u(1)] by simp_all
  moreover have "scenes_le st st'" using scenes_le_trans k_ok u(2) \<open>scenes_le st4 st'\<close> by blast
  moreover have "scene_of st sid = Some (sc_scene_version row)" using s(1) by (simp add: scene_of_def)
  moreover have "tb_results st' = tb_results st" "tb_canonical st' = tb_canonical st"
    "tb_epochs st' = tb_epochs st" "tb_operations st' = tb_operations st"
    using k s(6) by (simp_all add: keeps_planes_def st4)
  ultimately show ?thesis using sc s(2) by simp
qed

lemma commit_edits_ok:
  assumes "versions_ok st" "commit_edits clk jid eids respond sid req edits st = Inr (st', record, jid')"
  shows "versions_ok st' \<and> scenes_le st st' \<and> tb_results st' = tb_results st \<and>
    tb_canonical st' = tb_canonical st \<and> tb_epochs st' = tb_epochs st \<and>
    tb_operations st' = tb_operations st \<and>
    scene_of st' sid = Some (er_base_scene_version req + 1) \<and> scene_of st sid = Some (er_base_scene_version req)"
  by (rule commit_batch_ok [OF assms(1) assms(2) [unfolded commit_edits_def]])
    (auto dest: tree_steps_keep simp: prod_eq_iff)

lemma commit_universal_edits_ok:
  assumes "versions_ok st" "commit_universal_edits clk jid eids respond sid req edits st = Inr (st', record, jid')"
  shows "versions_ok st' \<and> scenes_le st st' \<and> tb_results st' = tb_results st \<and>
    tb_canonical st' = tb_canonical st \<and> tb_epochs st' = tb_epochs st \<and>
    tb_operations st' = tb_operations st \<and>
    scene_of st' sid = Some (er_base_scene_version req + 1) \<and> scene_of st sid = Some (er_base_scene_version req)"
  by (rule commit_batch_ok [OF assms(1) assms(2) [unfolded commit_universal_edits_def]])
    (auto dest: family_steps_keep simp: row_ok_def prod_eq_iff)

lemma versions_ok_add_scenario:
  assumes ok: "versions_ok st" and r: "get_scenario st (sc_scenario_id r) = None" "row_ok r"
  shows "versions_ok (st\<lparr>tb_scenarios := tb_scenarios st @ [r]\<rparr>) \<and>
    scenes_le st (st\<lparr>tb_scenarios := tb_scenarios st @ [r]\<rparr>)"
proof -
  let ?st' = "st\<lparr>tb_scenarios := tb_scenarios st @ [r]\<rparr>"
  have g: "get_scenario st sid = Some x \<Longrightarrow> get_scenario ?st' sid = Some x" for sid x
    by (simp add: get_scenario_def find_append)
  then have le: "scenes_le st ?st'" by (fastforce simp: scenes_le_def scene_of_def)
  have "sc_scenario_id r \<notin> set (map sc_scenario_id (tb_scenarios st))"
    using r(1) by (auto simp: get_scenario_def find_None_iff)
  then have "scenarios_ok ?st'" using ok r(2) by (simp add: versions_ok_def scenarios_ok_def)
  then show ?thesis
    using ok le results_ok_mono [OF _ le] canonical_rows_ok_mono [OF _ le] revisions_ok_cong [of st ?st']
    by (simp add: versions_ok_def)
qed

lemma create_scenarioE:
  assumes c: "create_scenario clk jid publisher respond req st = Inr (st', record, job)"
  obtains st1 st2 where
    "st1 = st\<lparr>tb_scenarios := tb_scenarios st @
       [new_scenario (clk 0) (cr_scenario_id req) (cr_site_id req) (cr_name req) (cr_site_identity req)]\<rparr>"
    "get_scenario st (cr_scenario_id req) = None"
    "(\<exists>m p. publish_result_locked (clk 1) (clk 2) (cr_scenario_id req) 0 m p True None (Some 0) st1 = Inr st2) \<or>
     keeps_planes st1 st2"
    "keeps_planes st2 st'"
    "\<not> (case cr_max_scenarios req of Some n \<Rightarrow> n \<le> count_scenarios st | None \<Rightarrow> False)"
proof -
  let ?sid = "cr_scenario_id req"
  let ?r = "new_scenario (clk 0) ?sid (cr_site_id req) (cr_name req) (cr_site_identity req)"
  have q: "guard_idempotency st ''_create'' (cr_keyed req) = Inr ()"
    "\<not> (case cr_max_scenarios req of Some n \<Rightarrow> n \<le> count_scenarios st | None \<Rightarrow> False)"
    using c by (auto simp: create_scenario_def Let_def split: sum.splits if_splits)
  obtain st1 where i: "insert_scenario ?r st = Inr st1"
    using c q by (auto simp: create_scenario_def Let_def split: sum.splits)
  have st1: "st1 = st\<lparr>tb_scenarios := tb_scenarios st @ [?r]\<rparr>" and fresh: "get_scenario st ?sid = None"
    using i by (auto simp: insert_scenario_def new_scenario_def split: if_splits)
  show thesis
  proof (cases publisher)
    case None
    then obtain st2 where j: "insert_job_locked (clk 1) jid ?sid 0 (JObj [(''baseline'', JBool True)]) 0 0 st1 = Inr st2"
      using c q i by (auto simp: create_scenario_def Let_def split: sum.splits dest!: map_sum_Inr)
    then have "keeps_planes st2 st'"
      using c q i None by (auto simp: create_scenario_def Let_def split: sum.splits dest!: map_sum_Inr
          keeps_planes_steps(3))
    then show thesis using that [OF st1 fresh] keeps_planes_steps(2) [OF j] q(2) by blast
  next
    case (Some pub)
    obtain m p where mp: "pub ?sid 0 = (m, p)" by fastforce
    then obtain st2 where j: "publish_result_locked (clk 1) (clk 2) ?sid 0 m p True None (Some 0) st1 = Inr st2"
      using c q i Some by (auto simp: create_scenario_def Let_def split: sum.splits dest!: map_sum_Inr)
    then have "keeps_planes st2 st'"
      using c q i Some mp by (auto simp: create_scenario_def Let_def split: sum.splits dest!: map_sum_Inr
          keeps_planes_steps(3))
    then show thesis using that [OF st1 fresh] j q(2) by blast
  qed
qed

lemma create_scenario_ok:
  assumes ok: "versions_ok st" and c: "create_scenario clk jid publisher respond req st = Inr (st', record, job)"
  shows "versions_ok st' \<and> scenes_le st st' \<and> tb_canonical st' = tb_canonical st \<and>
    tb_epochs st' = tb_epochs st \<and> tb_operations st' = tb_operations st \<and>
    scene_of st (cr_scenario_id req) = None \<and> count_scenarios st' = count_scenarios st + 1 \<and>
    (\<forall>n. cr_max_scenarios req = Some n \<longrightarrow> count_scenarios st < n)"
proof -
  let ?sid = "cr_scenario_id req"
  let ?r = "new_scenario (clk 0) ?sid (cr_site_id req) (cr_name req) (cr_site_identity req)"
  obtain st1 st2 where st1: "st1 = st\<lparr>tb_scenarios := tb_scenarios st @ [?r]\<rparr>" and fresh: "get_scenario st ?sid = None"
    and l: "(\<exists>m p. publish_result_locked (clk 1) (clk 2) ?sid 0 m p True None (Some 0) st1 = Inr st2) \<or>
      keeps_planes st1 st2" and s: "keeps_planes st2 st'"
    and q: "\<not> (case cr_max_scenarios req of Some n \<Rightarrow> n \<le> count_scenarios st | None \<Rightarrow> False)"
    by (rule create_scenarioE [OF c])
  have ok1: "versions_ok st1 \<and> scenes_le st st1"
    unfolding st1 by (rule versions_ok_add_scenario) (use ok fresh in \<open>simp_all add: new_scenario_def row_ok_def\<close>)
  have two: "versions_ok st2 \<and> scenes_le st1 st2 \<and> tb_canonical st2 = tb_canonical st1 \<and>
      tb_epochs st2 = tb_epochs st1 \<and> tb_operations st2 = tb_operations st1 \<and>
      length (tb_scenarios st2) = length (tb_scenarios st1)"
    using l
  proof (elim disjE exE)
    fix m p assume p: "publish_result_locked (clk 1) (clk 2) ?sid 0 m p True None (Some 0) st1 = Inr st2"
    have "length (tb_scenarios st2) = length (tb_scenarios st1)"
      by (rule publish_result_lockedE [OF p]) (simp add: update_scenario_def)
    then show ?thesis using publish_result_locked_ok [OF _ p] ok1 by simp
  next
    assume k: "keeps_planes st1 st2"
    show ?thesis using keeps_planes_ok [OF k] k ok1 by (simp add: keeps_planes_def)
  qed
  have "versions_ok st' \<and> scenes_le st2 st'" using keeps_planes_ok [OF s] two by simp
  moreover have "scenes_le st st'" using ok1 two calculation scenes_le_trans by blast
  moreover have "length (tb_scenarios st') = length (tb_scenarios st) + 1"
    using two s by (simp add: keeps_planes_def st1)
  ultimately show ?thesis using two s q fresh
    by (auto simp: keeps_planes_def st1 scene_of_def count_scenarios_def split: option.splits)
qed

lemma publish_scene_of:
  assumes "publish_result_locked t0 t1 sid v m p exact jid acked st = Inr st'"
  shows "scene_of st' = scene_of st"
proof (rule publish_result_lockedE [OF assms])
  fix row st1
  assume st1: "st1 = st\<lparr>tb_results := tb_results st @ [new_result t0 sid v m p exact jid]\<rparr>"
    and st': "st' = (if exact \<and> sc_exact_result_version row \<le> v
      then update_scenario sid (mark_exact t1 v acked) st1 else st1)"
  have g: "get_scenario st1 = get_scenario st" by (simp add: st1 get_scenario_def fun_eq_iff)
  have f: "sc_scenario_id (mark_exact t1 v acked r) = sc_scenario_id r"
    "sc_scene_version (mark_exact t1 v acked r) = sc_scene_version r" for r
    by (simp_all add: mark_exact_def)
  have "scene_of (update_scenario sid (mark_exact t1 v acked) st1) x = scene_of st x" for x
    using f by (cases "get_scenario st x") (auto simp: scene_of_def get_scenario_update g)
  then show ?thesis using g by (auto simp: st' scene_of_def fun_eq_iff)
qed

lemma clear_scene_ok:
  assumes ok: "versions_ok st"
  shows "versions_ok (clear_scene sid st)" "scenes_le st (clear_scene sid st)"
    "get_scenario (clear_scene sid st) = get_scenario st"
proof -
  let ?st' = "clear_scene sid st"
  let ?key = "\<lambda>r :: canonical_row. (cs_workspace_id r, cs_workspace_revision r)"
  show le: "scenes_le st ?st'" by (rule scenes_le_cong) (simp add: clear_scene_def)
  show "get_scenario ?st' = get_scenario st"
    by (simp add: clear_scene_def get_scenario_def fun_eq_iff)
  have "results_ok ?st'"
    by (rule results_ok_mono [OF _ le]) (use ok in \<open>simp_all add: versions_ok_def clear_scene_def\<close>)
  moreover have sub: "set (tb_canonical ?st') \<subseteq> set (tb_canonical st)" by (auto simp: clear_scene_def)
  have "distinct (map ?key (tb_canonical ?st'))"
    using ok by (simp add: versions_ok_def canonical_rows_ok_def clear_scene_def distinct_map_filter)
  then have "canonical_rows_ok ?st'"
    using ok bounded_mono [OF le] sub by (auto simp: versions_ok_def canonical_rows_ok_def)
  moreover have "revisions_ok ?st'"
  proof (rule revisions_ok_weaken [of st])
    show "revisions_ok st" using ok by (simp add: versions_ok_def)
    show "revisions_from st ?st'" by (rule revisions_from_same) (simp add: clear_scene_def)
    show "(w, x) \<in> canonical_keys ?st'" if "1 \<le> x" "(w, x) \<in> canonical_keys st" for w x
      using that by (auto simp: clear_scene_def canonical_keys_def)
  qed
  ultimately show "versions_ok ?st'"
    using ok by (simp add: versions_ok_def scenarios_ok_def clear_scene_def)
qed

lemma reset_scenarioE:
  assumes c: "reset_scenario clk eid publisher respond sid base key fingerprint st = Inr (st', record)"
  obtains row v q st1 m p st3 where "get_scenario st sid = Some row" "v = sc_scene_version row + 1"
    "q = sc_edit_sequence row + 1" "keeps_planes st st1"
    "publish_result_locked (clk 1) (clk 2) sid v m p True None (Some q)
       (update_scenario sid (reset_row (clk 0) v q) (clear_scene sid st1)) = Inr st3"
    "keeps_planes st3 st'"
proof -
  let ?kf = "keyed key fingerprint"
  obtain row where row: "guard_idempotency st sid ?kf = Inr ()" "get_scenario st sid = Some row"
    "\<not> (case base of Some b \<Rightarrow> b \<noteq> sc_scene_version row | None \<Rightarrow> False)"
    using c by (auto simp: reset_scenario_def Let_def require_scenario_def
        split: sum.splits option.splits if_splits)
  define v where "v = sc_scene_version row + 1"
  define q where "q = sc_edit_sequence row + 1"
  obtain st1 where i: "insert_event (reset_event (clk 0) sid q eid (sc_scene_version row) key) st = Inr st1"
    using c row by (auto simp: reset_scenario_def Let_def require_scenario_def q_def split: sum.splits)
  obtain m p where mp: "publisher sid v = (m, p)" by fastforce
  define st2 where "st2 = update_scenario sid (reset_row (clk 0) v q) (clear_scene sid st1)"
  obtain st3 where pub: "publish_result_locked (clk 1) (clk 2) sid v m p True None (Some q) st2 = Inr st3"
    using c row i mp by (auto simp: reset_scenario_def Let_def require_scenario_def q_def v_def st2_def
        split: sum.splits)
  have "keeps_planes (supersede_queued_locked (clk 3) sid None st3) st'"
    using c row i mp pub
    by (auto simp: reset_scenario_def Let_def require_scenario_def q_def v_def st2_def
        split: sum.splits option.splits dest!: map_sum_Inr keeps_planes_steps(3))
  then have "keeps_planes st3 st'" using keeps_planes_steps(4) keeps_planes_trans by blast
  then show thesis
    using that [OF row(2) v_def q_def keeps_planes_steps(1) [OF i]] pub by (simp add: st2_def)
qed

lemma reset_scenario_ok:
  assumes ok: "versions_ok st"
    and c: "reset_scenario clk eid publisher respond sid base key fingerprint st = Inr (st', record)"
  shows "versions_ok st' \<and> scenes_le st st' \<and> tb_epochs st' = tb_epochs st \<and>
    tb_operations st' = tb_operations st \<and>
    (\<exists>v. scene_of st sid = Some v \<and> scene_of st' sid = Some (v + 1))"
proof -
  obtain row v q st1 m p st3 where row: "get_scenario st sid = Some row" "v = sc_scene_version row + 1"
    and k1: "keeps_planes st st1"
    and pub: "publish_result_locked (clk 1) (clk 2) sid v m p True None (Some q)
       (update_scenario sid (reset_row (clk 0) v q) (clear_scene sid st1)) = Inr st3"
    and k4: "keeps_planes st3 st'"
    by (rule reset_scenarioE [OF c]) (rule that)
  define st2 where "st2 = update_scenario sid (reset_row (clk 0) v q) (clear_scene sid st1)"
  note pub' = pub [folded st2_def]
  have ok1: "versions_ok st1" "scenes_le st st1" using keeps_planes_ok [OF k1 ok] by simp_all
  note cl = clear_scene_ok [OF ok1(1), of sid]
  have g: "get_scenario (clear_scene sid st1) = get_scenario st" using cl(3) keeps_planes_get [OF k1] by simp
  have rw: "row_ok row" using ok row(1) scenarios_ok_row by (auto simp: versions_ok_def)
  have "row_ok (reset_row (clk 0) v q r)" "sc_scene_version r \<le> sc_scene_version (reset_row (clk 0) v q r)"
    if "get_scenario (clear_scene sid st1) sid = Some r" for r
    using that row rw by (auto simp: g reset_row_def row_ok_def)
  moreover have ids: "sc_scenario_id (reset_row (clk 0) v q r) = sc_scenario_id r" for r
    by (simp add: reset_row_def)
  ultimately have ok2: "versions_ok st2" "scenes_le (clear_scene sid st1) st2"
    unfolding st2_def using versions_ok_scenario_update [OF cl(1), of "reset_row (clk 0) v q" sid] by auto
  note ok3 = publish_result_locked_ok [OF ok2(1) pub']
  have r: "versions_ok st'" "scenes_le st3 st'" using keeps_planes_ok [OF k4] ok3 by simp_all
  have le: "scenes_le st st'"
    using ok1(2) cl(2) ok2(2) ok3 r(2) scenes_le_trans by blast
  have fr: "tb_epochs st' = tb_epochs st" "tb_operations st' = tb_operations st"
    using k1 k4 ok3 by (simp_all add: keeps_planes_def st2_def clear_scene_def)
  have "scene_of st2 sid = Some v"
    using row(1) by (simp add: scene_of_def st2_def get_scenario_update [of "reset_row (clk 0) v q", OF ids] g)
      (simp add: reset_row_def)
  then have "scene_of st' sid = Some v"
    using publish_scene_of [OF pub'] keeps_planes_get [OF k4] by (simp add: scene_of_def fun_eq_iff)
  moreover have "scene_of st sid = Some (sc_scene_version row)" using row(1) by (simp add: scene_of_def)
  ultimately show ?thesis using r(1) le fr row(2) by simp
qed

lemma verify_site_identity_ok:
  assumes "versions_ok st" "verify_site_identity clk sid current st = Inr (st', record)"
  shows "versions_ok st' \<and> scenes_le st st' \<and> tb_epochs st' = tb_epochs st \<and> tb_operations st' = tb_operations st"
proof -
  let ?f = "\<lambda>r. r\<lparr>sc_site_identity := Some (mapping (json_canon (JObj current))), sc_updated_at := clk 0\<rparr>"
  have "row_ok (?f r)" if "get_scenario st sid = Some r" for r
    using assms(1) that scenarios_ok_row by (auto simp: versions_ok_def row_ok_def)
  then have "versions_ok (update_scenario sid ?f st)" "scenes_le st (update_scenario sid ?f st)"
    using versions_ok_scenario_update [OF assms(1), of ?f sid] by simp_all
  moreover have "st' = st \<or> st' = update_scenario sid ?f st"
    using assms(2) by (auto simp: verify_site_identity_def Let_def split: sum.splits option.splits if_splits
        dest!: map_sum_Inr)
  ultimately show ?thesis using assms(1) scenes_le_refl by auto
qed

end
