(* ===== verification/Store_Revisions.thy ===== *)
theory Store_Revisions
  imports Store_Versions
begin

text \<open>
  The realtime plane against the version invariants: accepting operations, moving epochs along
  their statuses, committing a reduction, pinning the bootstrap row and advancing the fast
  revision. Then the step relation of the whole store, its reachable states, and the
  properties.
\<close>

section \<open>Epoch row updates\<close>

lemma ledger_ok_update_epoch:
  assumes ok: "ledger_ok st"
    and f: "\<And>e. ep_workspace_id (f e) = ep_workspace_id e" "\<And>e. ep_epoch_id (f e) = ep_epoch_id e"
      "\<And>e. ep_first_sequence (f e) = ep_first_sequence e" "\<And>e. ep_last_sequence (f e) = ep_last_sequence e"
      "\<And>e. ep_status (f e) = ''open'' \<Longrightarrow> ep_status e = ''open''"
  shows "ledger_ok (update_epoch ws eid f st)"
proof -
  let ?st' = "update_epoch ws eid f st"
  have ops: "operations_of ?st' = operations_of st" by simp
  have es: "\<exists>g. epochs_of ?st' w = map g (epochs_of st w) \<and> (\<forall>e. g e = f e \<or> g e = e)" for w
  proof (cases "w = ws")
    case True
    show ?thesis
      by (rule exI [of _ "\<lambda>e. if ep_epoch_id e = eid then f e else e"])
        (simp add: epochs_of_update [of f, OF f(1)] True update_rows_def)
  next
    case False
    then show ?thesis by (intro exI [of _ id]) (simp add: epochs_of_update [of f, OF f(1)])
  qed
  have "epochs_ok ?st'"
    unfolding epochs_ok_def
  proof (intro conjI allI ballI)
    fix w
    obtain g where g: "epochs_of ?st' w = map g (epochs_of st w)" "\<forall>e. g e = f e \<or> g e = e" using es by blast
    have "ep_epoch_id (g e) = ep_epoch_id e" for e using g(2) f(2) by metis
    then show "map ep_epoch_id (epochs_of ?st' w) = [0..int (length (epochs_of ?st' w)) - 1]"
      using ok by (simp add: g(1) ledger_ok_def epochs_ok_def comp_def)
    fix e assume "e \<in> set (butlast (epochs_of ?st' w))"
    then obtain x where x: "x \<in> set (butlast (epochs_of st w))" "e = g x"
      by (auto simp: g(1) map_butlast [symmetric])
    then have "ep_status x \<noteq> ''open''" using ok by (simp add: ledger_ok_def epochs_ok_def)
    then show "ep_status e \<noteq> ''open''" using x(2) g(2) f(5) by metis
  qed
  moreover have "spans_ok ?st'"
    unfolding spans_ok_def ops epoch_ops_cong [OF ops]
  proof (intro conjI allI ballI)
    fix w
    obtain g where g: "epochs_of ?st' w = map g (epochs_of st w)" "\<forall>e. g e = f e \<or> g e = e" using es by blast
    have id: "ep_epoch_id (g e) = ep_epoch_id e" for e using g(2) f(2) by metis
    have sp: "ep_first_sequence (g e) = ep_first_sequence e" "ep_last_sequence (g e) = ep_last_sequence e" for e
      using g(2) f(3,4) by metis+
    show "op_epoch_id op \<in> set (map ep_epoch_id (epochs_of ?st' w))" if "op \<in> set (operations_of st w)" for op
      using ok that by (simp add: g(1) id ledger_ok_def spans_ok_def image_image)
    show "(ep_first_sequence e, ep_last_sequence e) = span_of (epoch_ops st w (ep_epoch_id e))"
      if e: "e \<in> set (epochs_of ?st' w)" for e
    proof -
      obtain x where "x \<in> set (epochs_of st w)" "e = g x" using e by (auto simp: g(1))
      then show ?thesis using ok by (simp add: id sp ledger_ok_def spans_ok_def)
    qed
  qed
  moreover have "ops_ok ?st'" using ok by (simp add: ledger_ok_def ops_ok_def)
  ultimately show ?thesis by (simp add: ledger_ok_def)
qed

lemma get_epoch_unique:
  assumes "ledger_ok st" "get_epoch st ws eid = Some e" "x \<in> set (tb_epochs st)"
    "ep_workspace_id x = ws" "ep_epoch_id x = eid"
  shows "x = e"
proof -
  have "x \<in> set (epochs_of st ws)" using assms(3,4) by (simp add: epochs_of_def)
  then have "get_epoch st ws eid = Some x" using assms get_epoch_iff by (auto simp: ledger_ok_def)
  then show ?thesis using assms(2) by simp
qed

section \<open>Accepting operations\<close>

lemma versions_ok_epoch_update:
  assumes ok: "versions_ok st" and "revisions_from st st'" "tb_scenarios st' = tb_scenarios st"
    "tb_results st' = tb_results st" "tb_canonical st' = tb_canonical st"
  shows "versions_ok st'"
proof -
  have le: "scenes_le st st'" using scenes_le_cong [OF assms(3)] .
  have "results_ok st'" by (rule results_ok_mono [OF _ le assms(4)]) (use ok in \<open>simp add: versions_ok_def\<close>)
  moreover have "canonical_rows_ok st'"
    by (rule canonical_rows_ok_mono [OF _ le assms(5)]) (use ok in \<open>simp add: versions_ok_def\<close>)
  moreover have "revisions_ok st'"
    by (rule revisions_ok_weaken [OF _ assms(2)]) (use ok in \<open>simp_all add: versions_ok_def canonical_keys_def assms(5)\<close>)
  ultimately show ?thesis using ok assms(3) by (simp add: versions_ok_def scenarios_ok_def)
qed

lemma revisions_from_trans: "revisions_from a b \<Longrightarrow> revisions_from b c \<Longrightarrow> revisions_from a c"
  unfolding revisions_from_def by metis

lemma revisions_from_update:
  assumes "\<And>e. ep_workspace_id (f e) = ep_workspace_id e" "\<And>e. ep_epoch_id (f e) = ep_epoch_id e"
    "\<And>e. e \<in> set (tb_epochs st) \<Longrightarrow> ep_workspace_id e = ws \<Longrightarrow> ep_epoch_id e = eid \<Longrightarrow>
      ep_workspace_revision (f e) = ep_workspace_revision e"
  shows "revisions_from st (update_epoch ws eid f st)"
  unfolding revisions_from_def
proof
  fix e' assume "e' \<in> set (tb_epochs (update_epoch ws eid f st))"
  then obtain e where e: "e \<in> set (tb_epochs st)"
    "e' = (if ep_workspace_id e = ws \<and> ep_epoch_id e = eid then f e else e)"
    by (auto simp: update_epoch_def set_update_rows)
  then show "ep_workspace_revision e' = None \<or> (\<exists>e\<in>set (tb_epochs st). ep_workspace_id e = ep_workspace_id e' \<and>
      ep_epoch_id e = ep_epoch_id e' \<and> ep_workspace_revision e = ep_workspace_revision e')"
    using assms by (intro disjI2 bexI [of _ e]) auto
qed

lemma revisions_from_append:
  assumes "append_item now ws (st, sequence, epoch, records) item = Inr (st', sequence', epoch', records')"
  shows "revisions_from st st' \<and> tb_scenarios st' = tb_scenarios st \<and> tb_results st' = tb_results st \<and>
    tb_canonical st' = tb_canonical st"
proof -
  have opened: "revisions_from s s1 \<and> tb_scenarios s1 = tb_scenarios s \<and> tb_results s1 = tb_results s \<and>
      tb_canonical s1 = tb_canonical s"
    if "open_or_create_epoch_locked now ws s = Inr (s1, eid)" for s s1 eid
    using that revisions_from_same [of s s]
    by (auto simp: open_or_create_epoch_locked_def insert_epoch_def new_epoch_def revisions_from_def
        split: option.splits if_splits)
  have inserted: "revisions_from s s1 \<and> tb_scenarios s1 = tb_scenarios s \<and> tb_results s1 = tb_results s \<and>
      tb_canonical s1 = tb_canonical s" if "insert_operation op s = Inr s1" for op s s1
    using that by (auto simp: insert_operation_def revisions_from_def split: if_splits)
  have span: "revisions_from s (update_epoch ws eid (extend_span q) s)" for s eid q
    by (rule revisions_from_update) simp_all
  have up: "tb_results (update_epoch w i f s) = tb_results s" for w i f s by (simp add: update_epoch_def)
  show ?thesis
  proof (cases "find_operation st (it_operation_id item)")
    case (Some r)
    then show ?thesis
      using assms revisions_from_same [of st st] by (auto simp: append_item_def split: if_splits)
  next
    case None
    obtain st1 eid where o: "(case epoch of Some eid \<Rightarrow> Inr (st, eid)
        | None \<Rightarrow> open_or_create_epoch_locked now ws st) = Inr (st1, eid)"
      using assms None by (auto simp: append_item_def Let_def split: if_splits sum.splits)
    obtain st2 where i: "insert_operation (accepted now ws (sequence + 1) eid item) st1 = Inr st2"
      "st' = update_epoch ws eid (extend_span (sequence + 1)) st2"
      using assms None o by (auto simp: append_item_def Let_def split: if_splits sum.splits)
    have one: "revisions_from st st1 \<and> tb_scenarios st1 = tb_scenarios st \<and> tb_results st1 = tb_results st \<and>
        tb_canonical st1 = tb_canonical st"
      using o opened revisions_from_same [of st st] by (cases epoch) auto
    then show ?thesis
      using inserted [OF i(1)] span [of st2 eid] revisions_from_trans i(2) up by auto
  qed
qed

lemma append_operations_planes:
  assumes a: "append_operations clk ws items st = Inr (st', records)"
  shows "revisions_from st st'" "tb_scenarios st' = tb_scenarios st" "tb_results st' = tb_results st"
    "tb_canonical st' = tb_canonical st"
proof -
  obtain sequence epoch where f: "fold_exc (append_item (clk 0) ws) (st, max_sequence st ws, None, []) items =
       Inr (st', sequence, epoch, records)" using append_operationsE [OF a] by blast
  define P where "P = (\<lambda>b :: batch_state. revisions_from st (fst b) \<and> tb_scenarios (fst b) = tb_scenarios st \<and>
      tb_results (fst b) = tb_results st \<and> tb_canonical (fst b) = tb_canonical st)"
  have "P (st', sequence, epoch, records)"
  proof (rule fold_exc_inv [where P = P, OF f])
    show "P (st, max_sequence st ws, None, [])" by (simp add: P_def revisions_from_same)
    fix b item b' assume P: "P b" and step: "append_item (clk 0) ws b item = Inr b'"
    obtain s q e r where b: "b = (s, q, e, r)" by (metis prod.exhaust)
    obtain s' q' e' r' where b': "b' = (s', q', e', r')" by (metis prod.exhaust)
    have "revisions_from s s' \<and> tb_scenarios s' = tb_scenarios s \<and> tb_results s' = tb_results s \<and>
        tb_canonical s' = tb_canonical s"
      using revisions_from_append [OF step [unfolded b b']] .
    then show "P b'" using P revisions_from_trans [of st s s'] by (simp add: P_def b b')
  qed
  then show "revisions_from st st'" "tb_scenarios st' = tb_scenarios st" "tb_results st' = tb_results st"
    "tb_canonical st' = tb_canonical st" by (simp_all add: P_def)
qed

lemma append_operations_versions:
  assumes ok: "versions_ok st" and a: "append_operations clk ws items st = Inr (st', records)"
  shows "versions_ok st' \<and> tb_scenarios st' = tb_scenarios st \<and> tb_canonical st' = tb_canonical st"
  using versions_ok_epoch_update [OF ok append_operations_planes [OF a]] append_operations_planes [OF a] by simp

section \<open>Moving an epoch along\<close>

text \<open>How the schedulers use the status primitive: never back to open, and with no revision or
  the one the epoch already has.\<close>

definition legal_mark :: "store \<Rightarrow> string \<Rightarrow> int \<Rightarrow> string \<Rightarrow> int option \<Rightarrow> bool" where
  "legal_mark st ws eid status revision \<longleftrightarrow>
     status \<noteq> ''open'' \<and>
     (revision = None \<or> (\<exists>e. get_epoch st ws eid = Some e \<and> revision = ep_workspace_revision e))"

lemma mark_row_simps [simp]:
  "ep_workspace_id (mark_row t s r e) = ep_workspace_id e" "ep_epoch_id (mark_row t s r e) = ep_epoch_id e"
  "ep_first_sequence (mark_row t s r e) = ep_first_sequence e"
  "ep_last_sequence (mark_row t s r e) = ep_last_sequence e" "ep_status (mark_row t s r e) = s"
  "ep_workspace_revision (mark_row t s r e) = coalesce r (ep_workspace_revision e)"
  by (simp_all add: mark_row_def)

lemma mark_epoch_status_ok:
  assumes "ledger_ok st" "versions_ok st" "legal_mark st ws eid status revision"
    "mark_epoch_status clk ws eid status revision st = Inr (st', b)"
  shows "ledger_ok st' \<and> versions_ok st' \<and> tb_scenarios st' = tb_scenarios st"
proof -
  obtain t where st': "st' = update_epoch ws eid (mark_row t status revision) st"
    using assms(4) by (auto simp: mark_epoch_status_def split: if_splits)
  have "ledger_ok st'"
    unfolding st' by (rule ledger_ok_update_epoch [OF assms(1)])
      (use assms(3) in \<open>simp_all add: legal_mark_def\<close>)
  moreover have "revisions_from st st'"
    unfolding st'
  proof (rule revisions_from_update)
    fix e assume "e \<in> set (tb_epochs st)" "ep_workspace_id e = ws" "ep_epoch_id e = eid"
    then have "get_epoch st ws eid = Some x \<Longrightarrow> x = e" for x using get_epoch_unique [OF assms(1)] by blast
    then show "ep_workspace_revision (mark_row t status revision e) = ep_workspace_revision e"
      using assms(3) by (auto simp: legal_mark_def coalesce_def split: option.splits)
  qed simp_all
  moreover have "tb_scenarios st' = tb_scenarios st" "tb_results st' = tb_results st"
    "tb_canonical st' = tb_canonical st" by (simp_all add: st' update_epoch_def)
  ultimately show ?thesis using versions_ok_epoch_update [OF assms(2)] by blast
qed

section \<open>Committing a reduction\<close>

lemma find_canonical_None:
  "find_canonical st ws v = None \<longleftrightarrow> (ws, v) \<notin> canonical_keys st"
  by (auto simp: find_canonical_def find_None_iff canonical_keys_def)

definition committed_store :: "stamp \<Rightarrow> string \<Rightarrow> int \<Rightarrow> family_state dict \<Rightarrow> int \<Rightarrow> store \<Rightarrow> store" where
  "committed_store now ws eid fams v st =
     update_epoch ws eid (assign_revision now v)
       (update_scenario ws (\<lambda>r. r\<lparr>sc_scene_version := v, sc_updated_at := now\<rparr>)
         (st\<lparr>tb_canonical := tb_canonical st @ [make_canonical now ws v fams]\<rparr>))"

lemma canonical_keys_bound:
  "canonical_rows_ok st \<Longrightarrow> (ws, v) \<in> canonical_keys st \<Longrightarrow> bounded_by_scene st ws v"
  by (auto simp: canonical_rows_ok_def canonical_keys_def)

lemma commit_cases:
  assumes ok: "versions_ok st"
  obtains (absent) "get_epoch st ws eid = None" "commit_epoch_reduction clk ws eid fams baseline st = Inr (st, None)"
    | (redrive) e v where "get_epoch st ws eid = Some e" "ep_workspace_revision e = Some v"
      "commit_epoch_reduction clk ws eid fams baseline st =
         Inr (st, Some \<lparr>ce_workspace_id = ws, ce_epoch_id = eid, ce_workspace_revision = v, ce_first_time = False\<rparr>)"
    | (no_scenario) "get_scenario st ws = None" "commit_epoch_reduction clk ws eid fams baseline st = Inr (st, None)"
    | (stale) b where "baseline = Some b" "max_canonical st ws \<noteq> b"
      "commit_epoch_reduction clk ws eid fams baseline st = Inl (EpochBaselineStale ws b (max_canonical st ws))"
    | (first) e r where "get_epoch st ws eid = Some e" "ep_workspace_revision e = None"
      "get_scenario st ws = Some r" "\<And>b. baseline = Some b \<Longrightarrow> max_canonical st ws = b"
      "(ws, sc_scene_version r + 1) \<notin> canonical_keys st"
      "commit_epoch_reduction clk ws eid fams baseline st =
         Inr (committed_store (clk 0) ws eid fams (sc_scene_version r + 1) st,
              Some \<lparr>ce_workspace_id = ws, ce_epoch_id = eid, ce_workspace_revision = sc_scene_version r + 1,
                    ce_first_time = True\<rparr>)"
proof (cases "get_epoch st ws eid")
  case None
  then show thesis using absent by (simp add: commit_epoch_reduction_def Let_def)
next
  case (Some e)
  show thesis
  proof (cases "ep_workspace_revision e")
    case v: (Some v)
    have e: "e \<in> set (tb_epochs st)" "ep_workspace_id e = ws"
      using find_Some_in [OF Some [unfolded get_epoch_def]] by auto
    have "(ws, v) \<in> canonical_keys st"
      using ok e v unfolding versions_ok_def revisions_ok_def canonical_keys_def by blast
    then have "find_canonical st ws v \<noteq> None" by (simp only: find_canonical_None not_not simp_thms)
    then have "insert_canonical_or_ignore (make_canonical (clk 0) ws v fams) st = st"
      by (simp add: insert_canonical_or_ignore_def insert_canonical_def make_canonical_def)
    then show thesis using redrive [OF Some v] Some v by (simp add: commit_epoch_reduction_def Let_def)
  next
    case no_rev: None
    show thesis
    proof (cases "get_scenario st ws")
      case None
      then show thesis using no_scenario Some no_rev by (simp add: commit_epoch_reduction_def Let_def)
    next
      case r: (Some r)
      let ?v = "sc_scene_version r + 1"
      have fresh: "(ws, ?v) \<notin> canonical_keys st"
        using canonical_keys_bound [of st ws ?v] ok r
        by (auto simp: versions_ok_def bounded_by_scene_def scene_of_def)
      then have ins: "insert_canonical (make_canonical (clk 0) ws ?v fams) st =
          Inr (st\<lparr>tb_canonical := tb_canonical st @ [make_canonical (clk 0) ws ?v fams]\<rparr>)"
        using find_canonical_None [of st ws ?v] by (simp add: insert_canonical_def make_canonical_def)
      show thesis
      proof (cases "case baseline of Some b \<Rightarrow> max_canonical st ws \<noteq> b | None \<Rightarrow> False")
        case True
        then obtain b where "baseline = Some b" "max_canonical st ws \<noteq> b" by (auto split: option.splits)
        then show thesis using stale Some no_rev r by (simp add: commit_epoch_reduction_def Let_def)
      next
        case False
        then have base: "\<And>b. baseline = Some b \<Longrightarrow> max_canonical st ws = b" by auto
        have "commit_epoch_reduction clk ws eid fams baseline st =
          Inr (committed_store (clk 0) ws eid fams ?v st,
              Some \<lparr>ce_workspace_id = ws, ce_epoch_id = eid, ce_workspace_revision = ?v, ce_first_time = True\<rparr>)"
          unfolding commit_epoch_reduction_def Let_def Some no_rev r
          using False ins by (simp add: Some no_rev r committed_store_def del: not_Some_eq)
        then show thesis using first [OF Some no_rev r base fresh] by blast
      qed
    qed
  qed
qed

lemma assign_revision_simps [simp]:
  "ep_workspace_id (assign_revision t v e) = ep_workspace_id e"
  "ep_epoch_id (assign_revision t v e) = ep_epoch_id e"
  "ep_first_sequence (assign_revision t v e) = ep_first_sequence e"
  "ep_last_sequence (assign_revision t v e) = ep_last_sequence e"
  "ep_workspace_revision (assign_revision t v e) = Some v"
  "ep_status (assign_revision t v e) =
     (if ep_status e \<in> set TERMINAL_EPOCH_STATUSES then ep_status e else ''reducing'')"
  by (simp_all add: assign_revision_def)

lemma committed_store_frame:
  "tb_operations (committed_store t ws eid fams v st) = tb_operations st"
  "tb_results (committed_store t ws eid fams v st) = tb_results st"
  "tb_canonical (committed_store t ws eid fams v st) = tb_canonical st @ [make_canonical t ws v fams]"
  "get_scenario (committed_store t ws eid fams v st) x =
     (if x = ws then map_option (\<lambda>r. r\<lparr>sc_scene_version := v, sc_updated_at := t\<rparr>) (get_scenario st x)
      else get_scenario st x)"
proof -
  let ?f = "\<lambda>r. r\<lparr>sc_scene_version := v, sc_updated_at := t\<rparr>"
  have "get_scenario (update_epoch ws eid g s) = get_scenario s" for g s
    by (simp add: update_epoch_def get_scenario_def fun_eq_iff)
  moreover have "get_scenario (s\<lparr>tb_canonical := y\<rparr>) = get_scenario s" for s y
    by (simp add: get_scenario_def fun_eq_iff)
  ultimately show "get_scenario (committed_store t ws eid fams v st) x =
     (if x = ws then map_option ?f (get_scenario st x) else get_scenario st x)"
    by (simp add: committed_store_def get_scenario_update)
qed (simp_all add: committed_store_def update_epoch_def update_scenario_def)

lemma committed_ledger:
  assumes "ledger_ok st"
  shows "ledger_ok (committed_store t ws eid fams v st)"
proof -
  have "ledger_ok (update_scenario ws (\<lambda>r. r\<lparr>sc_scene_version := v, sc_updated_at := t\<rparr>)
      (st\<lparr>tb_canonical := tb_canonical st @ [make_canonical t ws v fams]\<rparr>))"
    using iffD2 [OF ledger_ok_cong [of "update_scenario ws (\<lambda>r. r\<lparr>sc_scene_version := v, sc_updated_at := t\<rparr>)
      (st\<lparr>tb_canonical := tb_canonical st @ [make_canonical t ws v fams]\<rparr>)" st] assms] by (simp add: update_scenario_def)
  then show ?thesis unfolding committed_store_def
    by (rule ledger_ok_update_epoch) (simp_all split: if_splits)
qed

lemma committed_epochs:
  "set (tb_epochs (committed_store t ws eid fams v st)) =
     (\<lambda>e. if ep_workspace_id e = ws \<and> ep_epoch_id e = eid then assign_revision t v e else e) ` set (tb_epochs st)"
  by (simp add: committed_store_def update_epoch_def update_scenario_def set_update_rows)

lemma committed_revisions:
  assumes ok: "ledger_ok st" "versions_ok st" and e: "get_epoch st ws eid = Some e" "ep_workspace_revision e = None"
    and fresh: "(ws, v) \<notin> canonical_keys st" and pos: "1 \<le> v"
  shows "revisions_ok (committed_store t ws eid fams v st)"
proof -
  let ?st' = "committed_store t ws eid fams v st"
  let ?g = "\<lambda>x. if ep_workspace_id x = ws \<and> ep_epoch_id x = eid then assign_revision t v x else x"
  have keys: "canonical_keys ?st' = insert (ws, v) (canonical_keys st)"
    by (simp add: canonical_keys_def committed_store_frame make_canonical_def)
  have old: "1 \<le> w \<and> (ep_workspace_id x, w) \<in> canonical_keys st"
    if "x \<in> set (tb_epochs st)" "ep_workspace_revision x = Some w" for x w
    using ok(2) that by (simp add: versions_ok_def revisions_ok_def canonical_keys_def)
  have uniq: "ep_epoch_id x = ep_epoch_id y"
    if "x \<in> set (tb_epochs st)" "y \<in> set (tb_epochs st)" "ep_workspace_id x = ep_workspace_id y"
      "ep_workspace_revision x = Some w" "ep_workspace_revision y = Some w" for x y w
    using ok(2) that unfolding versions_ok_def revisions_ok_def by blast
  show ?thesis
    unfolding revisions_ok_def canonical_keys_def [symmetric] keys
  proof (intro conjI ballI allI impI)
    fix x w assume "x \<in> set (tb_epochs ?st')" and w: "ep_workspace_revision x = Some w"
    then obtain y where y: "y \<in> set (tb_epochs st)" "x = ?g y" unfolding committed_epochs by blast
    show "1 \<le> w" "(ep_workspace_id x, w) \<in> insert (ws, v) (canonical_keys st)"
      using w y old [OF y(1)] pos by (auto split: if_splits)
  next
    fix x x' w assume m: "x \<in> set (tb_epochs ?st')" "x' \<in> set (tb_epochs ?st')"
      and w: "ep_workspace_id x = ep_workspace_id x' \<and> ep_workspace_revision x = Some w \<and>
        ep_workspace_revision x' = Some w"
    obtain y where y: "y \<in> set (tb_epochs st)" "x = ?g y" using m(1) unfolding committed_epochs by blast
    obtain y' where y': "y' \<in> set (tb_epochs st)" "x' = ?g y'" using m(2) unfolding committed_epochs by blast
    show "ep_epoch_id x = ep_epoch_id x'"
      using w y y' old [OF y(1), of v] old [OF y'(1), of v] fresh uniq [OF y(1) y'(1)]
      by (auto split: if_splits)
  qed
qed

lemma committed_versions:
  assumes ok: "ledger_ok st" "versions_ok st" and e: "get_epoch st ws eid = Some e" "ep_workspace_revision e = None"
    and r: "get_scenario st ws = Some r" and fresh: "(ws, sc_scene_version r + 1) \<notin> canonical_keys st"
  shows "versions_ok (committed_store t ws eid fams (sc_scene_version r + 1) st)"
    "scenes_le st (committed_store t ws eid fams (sc_scene_version r + 1) st)"
proof -
  let ?v = "sc_scene_version r + 1"
  let ?f = "\<lambda>r. r\<lparr>sc_scene_version := ?v, sc_updated_at := t\<rparr>"
  let ?st' = "committed_store t ws eid fams ?v st"
  define st2 where "st2 = update_scenario ws ?f st"
  have row: "row_ok r" using ok(2) r scenarios_ok_row by (auto simp: versions_ok_def)
  have "row_ok (?f x)" "sc_scene_version x \<le> sc_scene_version (?f x)" if "get_scenario st ws = Some x" for x
    using that r row by (auto simp: row_ok_def)
  then have st2: "versions_ok st2" "scenes_le st st2"
    unfolding st2_def using versions_ok_scenario_update [OF ok(2), of ?f ws] by simp_all
  have sc: "tb_scenarios ?st' = tb_scenarios st2"
    by (simp add: committed_store_def st2_def update_epoch_def update_scenario_def)
  have le: "scenes_le st2 ?st'" using scenes_le_cong [OF sc] .
  show le': "scenes_le st ?st'" using scenes_le_trans [OF st2(2) le] .
  have "results_ok ?st'"
    by (rule results_ok_mono [OF _ le']) (use ok(2) in \<open>simp_all add: versions_ok_def committed_store_frame\<close>)
  moreover have "canonical_rows_ok ?st'"
  proof -
    have "scene_of ?st' ws = Some ?v" using r by (simp add: scene_of_def committed_store_frame)
    then have "bounded_by_scene ?st' ws ?v" using row by (simp add: bounded_by_scene_def row_ok_def)
    moreover have "\<forall>x\<in>set (tb_canonical st). bounded_by_scene ?st' (cs_workspace_id x) (cs_workspace_revision x)"
      using ok(2) bounded_mono [OF le'] by (simp add: versions_ok_def canonical_rows_ok_def)
    ultimately show ?thesis
      using ok(2) fresh
      by (simp add: canonical_rows_ok_def versions_ok_def committed_store_frame make_canonical_def canonical_keys_def)
  qed
  moreover have "revisions_ok ?st'"
    using committed_revisions [OF ok e fresh] row by (simp add: row_ok_def)
  ultimately show "versions_ok ?st'"
    using st2(1) sc by (simp add: versions_ok_def scenarios_ok_def)
qed

end
