(* ===== verification/Store_Steps.thy ===== *)
theory Store_Steps
  imports Store_Revisions
begin

text \<open>
  The store as a state machine: one rule per mutating method, the reachable stores, and the two
  invariants (ledger and versions) by rule induction. Scene versions only grow along a run, so
  what was keyed at a version stays keyed at or below the current one.
\<close>

section \<open>The remaining realtime mutations\<close>

lemma committed_scene:
  "get_scenario st ws = Some r \<Longrightarrow> scene_of (committed_store t ws eid fams v st) ws = Some v"
  by (simp add: scene_of_def committed_store_frame)

lemma commit_epoch_reduction_ok:
  assumes ok: "ledger_ok st" "versions_ok st"
    and c: "commit_epoch_reduction clk ws eid fams baseline st = Inr (st', res)"
  shows "ledger_ok st' \<and> versions_ok st' \<and> scenes_le st st'"
  using ok(2)
proof (cases rule: commit_cases [of st ws eid clk fams baseline])
  case (first e r)
  then have "st' = committed_store (clk 0) ws eid fams (sc_scene_version r + 1) st" using c by simp
  then show ?thesis
    using committed_versions [OF ok first(1,2,3,5)] committed_ledger [OF ok(1)] by simp
qed (use c ok scenes_le_refl in auto)

lemma pin_bootstrap_ok:
  assumes ok: "ledger_ok st" "versions_ok st" and ws: "get_scenario st ws = Some r"
  shows "ledger_ok (pin_bootstrap clk ws fams st) \<and> versions_ok (pin_bootstrap clk ws fams st) \<and>
    tb_scenarios (pin_bootstrap clk ws fams st) = tb_scenarios st"
proof (cases "find_canonical st ws 0")
  case (Some x)
  then have "pin_bootstrap clk ws fams st = st"
    by (simp add: pin_bootstrap_def insert_canonical_or_ignore_def insert_canonical_def make_canonical_def)
  then show ?thesis using ok by simp
next
  case None
  let ?row = "make_canonical (clk 0) ws 0 fams"
  define st' where "st' = st\<lparr>tb_canonical := tb_canonical st @ [?row]\<rparr>"
  have eq: "pin_bootstrap clk ws fams st = st'"
    using None
    by (simp add: st'_def pin_bootstrap_def insert_canonical_or_ignore_def insert_canonical_def make_canonical_def)
  have fresh: "(ws, 0) \<notin> canonical_keys st" using iffD1 [OF find_canonical_None None] .
  have row: "row_ok r" using ok(2) ws scenarios_ok_row by (auto simp: versions_ok_def)
  have le: "scenes_le st st'" by (rule scenes_le_cong) (simp add: st'_def)
  have b: "bounded_by_scene st' = bounded_by_scene st"
    by (simp add: bounded_by_scene_def scene_of_def get_scenario_def fun_eq_iff st'_def)
  have keys: "canonical_keys st' = insert (ws, 0) (canonical_keys st)"
    by (simp add: canonical_keys_def st'_def make_canonical_def)
  have "bounded_by_scene st ws 0"
    using row ws by (auto simp: bounded_by_scene_def scene_of_def row_ok_def)
  then have "canonical_rows_ok st'"
    using ok(2) fresh
    by (simp add: canonical_rows_ok_def versions_ok_def b) (simp add: st'_def make_canonical_def canonical_keys_def)
  moreover have "revisions_from st st'" by (rule revisions_from_same) (simp add: st'_def)
  then have "revisions_ok st'"
    by (rule revisions_ok_weaken [rotated]) (use ok(2) in \<open>simp_all add: versions_ok_def keys\<close>)
  moreover have "results_ok st'"
    by (rule results_ok_mono [OF _ le]) (use ok(2) in \<open>simp_all add: versions_ok_def st'_def\<close>)
  moreover have "ledger_ok st'" using iffD2 [OF ledger_ok_cong [of st' st] ok(1)] by (simp add: st'_def)
  ultimately show ?thesis using ok(2) by (simp add: eq versions_ok_def scenarios_ok_def st'_def)
qed

definition fast_row :: "int \<Rightarrow> int \<Rightarrow> stamp \<Rightarrow> scenario_record \<Rightarrow> scenario_record" where
  "fast_row new_fast exact_now now r =
     r\<lparr>sc_fast_revision := new_fast, sc_exact_base_revision := max (sc_exact_base_revision r) exact_now,
       sc_updated_at := now\<rparr>"

lemma fast_row_simps [simp]:
  "sc_scenario_id (fast_row f x t r) = sc_scenario_id r"
  "sc_scene_version (fast_row f x t r) = sc_scene_version r"
  "sc_exact_result_version (fast_row f x t r) = sc_exact_result_version r"
  "sc_fast_revision (fast_row f x t r) = f"
  "sc_exact_base_revision (fast_row f x t r) = max (sc_exact_base_revision r) x"
  by (simp_all add: fast_row_def)

lemma advance_cases:
  obtains (skip) "advance_fast_revision clk ws revision observed upd st = (st, None)"
      "get_scenario st ws = None \<or> (\<exists>r. get_scenario st ws = Some r \<and> sc_scene_version r < revision)"
    | (advance) r f t where "get_scenario st ws = Some r" "revision \<le> sc_scene_version r"
      "f = max (max (max (sc_fast_revision r) revision) (sc_exact_result_version r)) observed"
      "advance_fast_revision clk ws revision observed upd st =
         (update_scenario ws (fast_row f (sc_exact_result_version r) t) st,
          Some \<lparr>fa_workspace_id = ws, fa_revision = revision, fa_fast_revision = f,
                fa_exact_revision = sc_exact_result_version r\<rparr>)"
proof (cases "get_scenario st ws")
  case None
  then show thesis using skip by (simp add: advance_fast_revision_def)
next
  case (Some r)
  show thesis
  proof (cases "sc_scene_version r < revision")
    case True
    then show thesis using skip Some by (simp add: advance_fast_revision_def)
  next
    case False
    then show thesis using advance [OF Some _ refl] Some
      by (simp add: advance_fast_revision_def Let_def fast_row_def [abs_def])
  qed
qed

lemma advance_fast_revision_ok:
  assumes ok: "ledger_ok st" "versions_ok st"
    and observed: "\<And>v. scene_of st ws = Some v \<Longrightarrow> observed \<le> v"
    and a: "advance_fast_revision clk ws revision observed upd st = (st', res)"
  shows "ledger_ok st' \<and> versions_ok st' \<and> scenes_le st st'"
proof (cases rule: advance_cases [of clk ws revision observed upd st])
  case skip
  then show ?thesis using a ok scenes_le_refl by simp
next
  case (advance r f t)
  then have st': "st' = update_scenario ws (fast_row f (sc_exact_result_version r) t) st" using a by simp
  have row: "row_ok r" using ok(2) advance(1) scenarios_ok_row by (auto simp: versions_ok_def)
  have "row_ok (fast_row f (sc_exact_result_version r) t x)" if "get_scenario st ws = Some x" for x
    using that advance(1,2,3) row observed by (auto simp: row_ok_def scene_of_def)
  then have "versions_ok st' \<and> scenes_le st st'"
    unfolding st' using versions_ok_scenario_update [OF ok(2), of "fast_row f (sc_exact_result_version r) t" ws]
    by simp
  moreover have "ledger_ok st'" using iffD2 [OF ledger_ok_cong [of st' st] ok(1)] by (simp add: st')
  ultimately show ?thesis by simp
qed

lemma job_steps_keep:
  "keeps_planes st (mark_job_running clk jid st)"
  "keeps_planes st (fst (requeue_failed_job jid st))"
  "keeps_planes st (fst (requeue_running_job jid st))"
  "keeps_planes st (update_job_progress jid stage prog mode window st)"
  "finish_job clk jid status oc st = Inr (st', b) \<Longrightarrow> keeps_planes st st'"
  "keeps_planes st (mark_reconcile_owed clk ws st)"
  "keeps_planes st (mark_reconcile_completed clk ws date st)"
  "keeps_planes st (clear_reconcile_owed clk ws st)"
  "record_export clk eid sid version fmt vars idx st = Inr (st', out) \<Longrightarrow> keeps_planes st st'"
  "keeps_planes st (sweep_retention cutoff tail st)"
  by (auto simp: keeps_planes_def mark_job_running_def requeue_failed_job_def requeue_running_job_def
      update_job_progress_def finish_job_def mark_reconcile_owed_def mark_reconcile_completed_def
      clear_reconcile_owed_def record_export_def sweep_retention_def Let_def
      split: if_splits option.splits)

lemma exact_job_keeps:
  "insert_job_locked t jid ws v request w bw st = Inr st1 \<Longrightarrow> keeps_planes st (supersede_queued_locked t' ws x st1)"
  using keeps_planes_steps(2,4) keeps_planes_trans by blast

lemma republish_result_publishes:
  assumes "republish_result_at_version str clk sid source target jid override st = Inr st'"
  obtains manifest payload where "publish_result clk sid target manifest payload True jid None st = Inr st'"
  using assms by (auto simp: republish_result_at_version_def Let_def split: option.splits)

section \<open>Runs of the store\<close>

text \<open>One rule per mutating method, on the calls that commit (a raised error rolls the
  transaction back and is no step). The side conditions are the ones the callers keep: the
  schedulers move an epoch forward only, the bootstrap row is pinned for an existing workspace,
  and the exact version handed to the fast revision was read from the scenario. The job of the exact
  lane is a transaction of the runner: it inserts the job and supersedes the queued ones.\<close>

inductive store_step :: "store \<Rightarrow> store \<Rightarrow> bool" where
  step_create: "create_scenario clk jid publisher respond req st = Inr (st', out) \<Longrightarrow> store_step st st'"
| step_edits: "commit_edits clk jid eids respond sid ereq edits st = Inr (st', out) \<Longrightarrow> store_step st st'"
| step_universal:
    "commit_universal_edits clk jid eids respond sid ereq fedits st = Inr (st', out) \<Longrightarrow> store_step st st'"
| step_reset:
    "reset_scenario clk evid publish0 respond0 sid base key fingerprint st = Inr (st', record) \<Longrightarrow>
     store_step st st'"
| step_identity: "verify_site_identity clk sid current st = Inr (st', record) \<Longrightarrow> store_step st st'"
| step_publish:
    "publish_result clk sid version manifest payload exact ojid acked st = Inr st' \<Longrightarrow> store_step st st'"
| step_republish:
    "republish_result_at_version str clk sid source target ojid override st = Inr st' \<Longrightarrow> store_step st st'"
| step_running: "store_step st (mark_job_running clk jid st)"
| step_requeue_failed: "store_step st (fst (requeue_failed_job jid st))"
| step_requeue_running: "store_step st (fst (requeue_running_job jid st))"
| step_progress: "store_step st (update_job_progress jid stage prog mode window st)"
| step_finish: "finish_job clk jid status oc st = Inr (st', b) \<Longrightarrow> store_step st st'"
| step_owed: "store_step st (mark_reconcile_owed clk ws st)"
| step_reconciled: "store_step st (mark_reconcile_completed clk ws date st)"
| step_cleared: "store_step st (clear_reconcile_owed clk ws st)"
| step_exact_job:
    "insert_job_locked t jid ws v request w bw st = Inr st1 \<Longrightarrow>
     store_step st (supersede_queued_locked t' ws (Some jid) st1)"
| step_export: "record_export clk xid sid version fmt vars idx st = Inr (st', eout) \<Longrightarrow> store_step st st'"
| step_sweep: "store_step st (sweep_retention cutoff tail st)"
| step_append: "append_operations clk ws items st = Inr (st', records) \<Longrightarrow> store_step st st'"
| step_mark:
    "legal_mark st ws eid status revision \<Longrightarrow>
     mark_epoch_status clk ws eid status revision st = Inr (st', b) \<Longrightarrow> store_step st st'"
| step_commit: "commit_epoch_reduction clk ws eid fams baseline st = Inr (st', res) \<Longrightarrow> store_step st st'"
| step_pin: "get_scenario st ws \<noteq> None \<Longrightarrow> store_step st (pin_bootstrap clk ws fams st)"
| step_fast:
    "(\<And>v. scene_of st ws = Some v \<Longrightarrow> observed \<le> v) \<Longrightarrow>
     advance_fast_revision clk ws revision observed upd st = (st', adv) \<Longrightarrow> store_step st st'"

inductive store_run :: "store \<Rightarrow> store \<Rightarrow> bool" where
  run_refl: "store_run st st"
| run_step: "store_run st st' \<Longrightarrow> store_step st' st'' \<Longrightarrow> store_run st st''"

definition reachable :: "store \<Rightarrow> bool" where
  "reachable = store_run empty_store"

lemma plane_step:
  "ledger_ok st \<Longrightarrow> versions_ok st' \<and> scenes_le st st' \<and> tb_epochs st' = tb_epochs st \<and>
     tb_operations st' = tb_operations st \<Longrightarrow> ledger_ok st' \<and> versions_ok st' \<and> scenes_le st st'"
  using ledger_ok_cong [of st' st] by simp

lemma job_step:
  "ledger_ok st \<Longrightarrow> versions_ok st \<Longrightarrow> keeps_planes st st' \<Longrightarrow>
   ledger_ok st' \<and> versions_ok st' \<and> scenes_le st st'"
  using keeps_planes_ok [of st st'] keeps_planes_ledger [of st st'] by simp

lemma store_step_ok:
  assumes "store_step st st'" "ledger_ok st" "versions_ok st"
  shows "ledger_ok st' \<and> versions_ok st' \<and> scenes_le st st'"
  using assms
proof cases
  case (step_create clk jid publisher respond req out)
  then show ?thesis
    using create_scenario_ok [OF assms(3), of clk jid publisher respond req st' "fst out" "snd out"]
    by (intro plane_step [OF assms(2)]) simp
next
  case (step_edits clk jid eids respond sid ereq edits out)
  then show ?thesis
    using commit_edits_ok [OF assms(3), of clk jid eids respond sid ereq edits st' "fst out" "snd out"]
    by (intro plane_step [OF assms(2)]) simp
next
  case (step_universal clk jid eids respond sid ereq fedits out)
  then show ?thesis
    using commit_universal_edits_ok [OF assms(3), of clk jid eids respond sid ereq fedits st' "fst out" "snd out"]
    by (intro plane_step [OF assms(2)]) simp
next
  case step_reset
  then show ?thesis using reset_scenario_ok [OF assms(3)] plane_step [OF assms(2)] by blast
next
  case step_identity
  then show ?thesis using verify_site_identity_ok [OF assms(3)] plane_step [OF assms(2)] by blast
next
  case step_publish
  then show ?thesis using publish_result_ok [OF assms(3)] plane_step [OF assms(2)] by blast
next
  case (step_republish str clk sid source target ojid override)
  show ?thesis
    by (rule republish_result_publishes [OF step_republish])
      (use publish_result_ok [OF assms(3)] plane_step [OF assms(2)] in blast)
next
  case step_append
  then show ?thesis
    using append_operations_versions [OF assms(3)] append_operations_ledger [OF assms(2)] scenes_le_cong by blast
next
  case step_mark
  then show ?thesis using mark_epoch_status_ok [OF assms(2,3)] scenes_le_cong by blast
next
  case step_commit
  then show ?thesis using commit_epoch_reduction_ok [OF assms(2,3)] by blast
next
  case step_pin
  then show ?thesis using pin_bootstrap_ok [OF assms(2,3)] scenes_le_cong by blast
next
  case step_fast
  then show ?thesis using advance_fast_revision_ok [OF assms(2,3)] by blast
next
  case step_finish
  then show ?thesis using job_step [OF assms(2,3)] job_steps_keep(5) by blast
next
  case step_export
  then show ?thesis using job_step [OF assms(2,3)] job_steps_keep(9) by blast
next
  case step_exact_job
  then show ?thesis using job_step [OF assms(2,3)] exact_job_keeps by blast
qed (use job_step [OF assms(2,3)] job_steps_keep(1-4,6-8,10) in \<open>simp_all only: simp_thms\<close>)

lemma store_run_ok:
  "store_run st st' \<Longrightarrow> ledger_ok st \<Longrightarrow> versions_ok st \<Longrightarrow> ledger_ok st' \<and> versions_ok st' \<and> scenes_le st st'"
proof (induction rule: store_run.induct)
  case (run_step st st' st'')
  then show ?case using store_step_ok [OF run_step.hyps(2)] scenes_le_trans by blast
qed (simp add: scenes_le_refl)

lemma reachable_ok: "reachable st \<Longrightarrow> ledger_ok st \<and> versions_ok st"
  using store_run_ok [OF _ empty_ledger_ok empty_versions_ok] by (simp add: reachable_def)

end
