(* ===== verification/Store_Jobs.thy ===== *)
theory Store_Jobs
  imports Store_Steps
begin

text \<open>
  The job life cycle across the whole store: a job that completed or was superseded is never
  touched again by any method, whoever calls it. A failed or cancelled job can only be put back
  in the queue.
\<close>

definition settled_status :: "string \<Rightarrow> bool" where
  "settled_status s \<longleftrightarrow> s = ''complete'' \<or> s = ''superseded''"

definition jobs_kept :: "store \<Rightarrow> store \<Rightarrow> bool" where
  "jobs_kept st st' \<longleftrightarrow>
     (\<forall>jid j. get_job st jid = Some j \<and> settled_status (jb_status j) \<longrightarrow> get_job st' jid = Some j)"

lemma jobs_kept_refl: "jobs_kept st st"
  by (simp add: jobs_kept_def)

lemma jobs_kept_trans: "jobs_kept a b \<Longrightarrow> jobs_kept b c \<Longrightarrow> jobs_kept a c"
  by (simp add: jobs_kept_def)

lemma jobs_kept_same: "tb_jobs st' = tb_jobs st \<Longrightarrow> jobs_kept st st'"
  by (simp add: jobs_kept_def get_job_def)

lemma jobs_kept_update:
  assumes "\<And>j. jb_job_id (f j) = jb_job_id j" "\<And>j. p j \<Longrightarrow> \<not> settled_status (jb_status j)"
  shows "jobs_kept st (update_jobs p f st)"
proof -
  have "find (\<lambda>j. jb_job_id j = jid) (update_rows p f rows) = Some j"
    if "find (\<lambda>j. jb_job_id j = jid) rows = Some j" "settled_status (jb_status j)" for rows jid j
    using that
  proof (induction rows)
    case (Cons x xs)
    show ?case
    proof (cases "jb_job_id x = jid")
      case True
      then have "j = x" using Cons.prems(1) by simp
      then show ?thesis using assms(2) [of x] Cons.prems True by (auto simp: update_rows_def)
    next
      case False
      then show ?thesis using Cons assms(1) by (auto simp: update_rows_def)
    qed
  qed simp
  then show ?thesis by (simp add: jobs_kept_def get_job_def update_jobs_def)
qed

lemma jobs_kept_insert:
  "insert_job_locked t jid sid v q w bw st = Inr st' \<Longrightarrow> jobs_kept st st'"
  by (auto simp: insert_job_locked_def jobs_kept_def get_job_def find_append split: if_splits)

lemma jobs_kept_supersede: "jobs_kept st (supersede_queued_locked t sid x st)"
  unfolding supersede_queued_locked_def
  by (rule jobs_kept_update) (auto simp: settled_status_def)

lemma job_ops_kept:
  "jobs_kept st (mark_job_running clk jid st)"
  "jobs_kept st (fst (requeue_failed_job jid st))"
  "jobs_kept st (fst (requeue_running_job jid st))"
  "jobs_kept st (update_job_progress jid stage prog mode window st)"
  "finish_job clk jid status oc st = Inr (st', b) \<Longrightarrow> jobs_kept st st'"
  unfolding mark_job_running_def requeue_failed_job_def requeue_running_job_def update_job_progress_def
    finish_job_def Let_def fst_conv
  by (auto simp: settled_status_def requeued_def split: if_splits intro!: jobs_kept_update)

text \<open>Methods that leave the job table alone.\<close>

lemma jobs_same:
  "publish_result_locked t0 t1 sid v manifest payload exact ojid acked st = Inr st' \<Longrightarrow> tb_jobs st' = tb_jobs st"
  "publish_result clk sid v manifest payload exact ojid acked st = Inr st' \<Longrightarrow> tb_jobs st' = tb_jobs st"
  "verify_site_identity clk sid current st = Inr (st', record) \<Longrightarrow> tb_jobs st' = tb_jobs st"
  "insert_event e st = Inr st' \<Longrightarrow> tb_jobs st' = tb_jobs st"
  "save_idempotency t scope kf resp st = Inr st' \<Longrightarrow> tb_jobs st' = tb_jobs st"
  "insert_scenario r st = Inr st' \<Longrightarrow> tb_jobs st' = tb_jobs st"
  "tb_jobs (apply_tree_edit sid edit st) = tb_jobs st"
  "tb_jobs (clear_scene sid st) = tb_jobs st"
  "tb_jobs (mark_reconcile_owed clk ws st) = tb_jobs st"
  "tb_jobs (mark_reconcile_completed clk ws date st) = tb_jobs st"
  "tb_jobs (clear_reconcile_owed clk ws st) = tb_jobs st"
  "record_export clk xid sid version fmt vars idx st = Inr (st', eout) \<Longrightarrow> tb_jobs st' = tb_jobs st"
  "tb_jobs (sweep_retention cutoff tail st) = tb_jobs st"
  "tb_jobs (update_epoch ws eid f st) = tb_jobs st"
  "tb_jobs (pin_bootstrap clk ws fams st) = tb_jobs st"
  by (auto simp: publish_result_locked_def publish_result_def verify_site_identity_def insert_event_def
      save_idempotency_def store_idempotency_def insert_scenario_def apply_tree_edit_def clear_scene_def
      mark_reconcile_owed_def mark_reconcile_completed_def clear_reconcile_owed_def record_export_def
      sweep_retention_def update_epoch_def pin_bootstrap_def insert_canonical_or_ignore_def
      insert_canonical_def Let_def split: sum.splits option.splits if_splits dest!: map_sum_Inr)

lemma jobs_same_realtime:
  "append_operations clk ws items st = Inr (st', records) \<Longrightarrow> tb_jobs st' = tb_jobs st"
  "mark_epoch_status clk ws eid status revision st = Inr (st', b) \<Longrightarrow> tb_jobs st' = tb_jobs st"
  "commit_epoch_reduction clk ws eid fams baseline st = Inr (st', res) \<Longrightarrow> tb_jobs st' = tb_jobs st"
  "tb_jobs (fst (advance_fast_revision clk ws frev observed upd st)) = tb_jobs st"
proof -
  have opened: "tb_jobs s1 = tb_jobs s" if "open_or_create_epoch_locked now ws s = Inr (s1, eid)" for now s s1 eid
    using that by (auto simp: open_or_create_epoch_locked_def insert_epoch_def split: option.splits if_splits)
  have item: "tb_jobs (fst b') = tb_jobs (fst b)" if "append_item now ws b item = Inr b'" for now b item b'
    using that opened by (cases b) (auto simp: append_item_def Let_def insert_operation_def jobs_same(14)
        split: option.splits sum.splits if_splits)
  show "tb_jobs st' = tb_jobs st" if a: "append_operations clk ws items st = Inr (st', records)"
  proof -
    obtain sequence epoch where f: "fold_exc (append_item (clk 0) ws) (st, max_sequence st ws, None, []) items =
       Inr (st', sequence, epoch, records)" using append_operationsE [OF a] by blast
    have "tb_jobs (fst (st', sequence, epoch, records)) = tb_jobs st"
      by (rule fold_exc_inv [OF f, where P = "\<lambda>b. tb_jobs (fst b) = tb_jobs st"]) (use item in auto)
    then show ?thesis by simp
  qed
  show "mark_epoch_status clk ws eid status revision st = Inr (st', b) \<Longrightarrow> tb_jobs st' = tb_jobs st"
    by (auto simp: mark_epoch_status_def jobs_same(14) split: if_splits)
  show "commit_epoch_reduction clk ws eid fams baseline st = Inr (st', res) \<Longrightarrow> tb_jobs st' = tb_jobs st"
    by (auto simp: commit_epoch_reduction_def Let_def insert_canonical_or_ignore_def insert_canonical_def
        jobs_same(14) split: option.splits if_splits)
  show "tb_jobs (fst (advance_fast_revision clk ws frev observed upd st)) = tb_jobs st"
    by (auto simp: advance_fast_revision_def Let_def split: option.splits)
qed

lemma edit_steps_jobs:
  "fold_exc (tree_edit_step now eids sid base key start) (st, sequence) edits = Inr (st', sequence') \<Longrightarrow>
   tb_jobs st' = tb_jobs st"
  "fold_exc (family_edit_step now eids sid base key start) (st, sequence) fedits = Inr (st', sequence') \<Longrightarrow>
   tb_jobs st' = tb_jobs st"
proof -
  let ?P = "\<lambda>s :: store \<times> int. tb_jobs (fst s) = tb_jobs st"
  show "tb_jobs st' = tb_jobs st"
    if f: "fold_exc (tree_edit_step now eids sid base key start) (st, sequence) edits = Inr (st', sequence')"
  proof -
    have "?P (st', sequence')"
      by (rule fold_exc_inv [OF f, where P = ?P])
        (auto simp: tree_edit_step_def Let_def jobs_same(7) dest!: map_sum_Inr jobs_same(4))
    then show ?thesis by simp
  qed
  show "tb_jobs st' = tb_jobs st"
    if f: "fold_exc (family_edit_step now eids sid base key start) (st, sequence) fedits = Inr (st', sequence')"
  proof -
    have "?P (st', sequence')"
      by (rule fold_exc_inv [OF f, where P = ?P])
        (auto simp: family_edit_step_def Let_def dest!: map_sum_Inr jobs_same(4))
    then show ?thesis by simp
  qed
qed

lemma commit_batch_jobs:
  assumes c: "commit_batch clk jid respond ledger finish sid req st = Inr (st', record, jid')"
    and ledger: "\<And>now row s s' q q'. ledger now row (s, q) = Inr (s', q') \<Longrightarrow> tb_jobs s' = tb_jobs s"
  shows "jobs_kept st st'"
proof -
  obtain row st1 sequence st2 st4 where l: "ledger (clk 0) row (st, sc_edit_sequence row) = Inr (st1, sequence)"
    and j: "insert_job_locked (clk 1) jid sid (sc_scene_version row + 1) (JObj (er_requested req)) sequence
       (sc_acked_sequence row) st1 = Inr st2"
    and st4: "st4 = update_scenario sid (finish \<circ> edited_row (clk 0) (sc_scene_version row + 1) sequence)
       (supersede_queued_locked (clk 2) sid (Some jid) st2)"
    and save: "save_idempotency (clk 3) sid (keyed (er_key req) (er_fingerprint req)) (respond record jid) st4 = Inr st'"
    by (rule commit_batchE [OF c]) (rule that)
  have "tb_jobs st' = tb_jobs (supersede_queued_locked (clk 2) sid (Some jid) st2)"
    using jobs_same(5) [OF save] by (simp add: st4)
  then have last: "jobs_kept (supersede_queued_locked (clk 2) sid (Some jid) st2) st'" by (rule jobs_kept_same)
  from jobs_kept_same [OF ledger [OF l]] have "jobs_kept st st2" using jobs_kept_insert [OF j] by (rule jobs_kept_trans)
  then have "jobs_kept st (supersede_queued_locked (clk 2) sid (Some jid) st2)"
    using jobs_kept_supersede by (rule jobs_kept_trans)
  then show ?thesis using last by (rule jobs_kept_trans)
qed

lemma create_scenario_jobs:
  assumes "create_scenario clk jid publisher respond req st = Inr (st', out)"
  shows "jobs_kept st st'"
proof -
  let ?sid = "cr_scenario_id req"
  obtain st1 where i: "insert_scenario (new_scenario (clk 0) ?sid (cr_site_id req) (cr_name req)
      (cr_site_identity req)) st = Inr st1"
    using assms by (auto simp: create_scenario_def Let_def split: sum.splits if_splits)
  have "jobs_kept st st1" using jobs_same(6) [OF i] by (rule jobs_kept_same)
  moreover have "jobs_kept st1 st'"
  proof (cases publisher)
    case (Some pub)
    then have "tb_jobs st' = tb_jobs st1"
      using assms i by (cases "pub ?sid 0")
        (auto simp: create_scenario_def Let_def split: sum.splits if_splits dest!: map_sum_Inr jobs_same(1,5))
    then show ?thesis by (rule jobs_kept_same)
  next
    case None
    then obtain st2 where "insert_job_locked (clk 1) jid ?sid 0 (JObj [(''baseline'', JBool True)]) 0 0 st1 = Inr st2"
      "tb_jobs st' = tb_jobs st2"
      using assms i by (auto simp: create_scenario_def Let_def split: sum.splits if_splits
          dest!: map_sum_Inr jobs_same(5))
    then show ?thesis using jobs_kept_insert jobs_kept_same jobs_kept_trans by blast
  qed
  ultimately show ?thesis by (rule jobs_kept_trans)
qed

lemma reset_scenario_jobs:
  assumes "reset_scenario clk eid publisher respond sid base key fingerprint st = Inr (st', record)"
  shows "jobs_kept st st'"
proof -
  obtain st3 where "tb_jobs st3 = tb_jobs st" "tb_jobs st' = tb_jobs (supersede_queued_locked (clk 3) sid None st3)"
    using assms by (auto simp: reset_scenario_def Let_def jobs_same(8) split: sum.splits if_splits prod.splits
        dest!: map_sum_Inr jobs_same(1,4,5))
  then show ?thesis using jobs_kept_supersede jobs_kept_same jobs_kept_trans by metis
qed

lemma store_step_jobs: "store_step st st' \<Longrightarrow> jobs_kept st st'"
proof (induction rule: store_step.induct)
  case (step_create clk jid publisher respond req st st' out)
  then show ?case by (rule create_scenario_jobs)
next
  case (step_edits clk jid eids respond sid ereq edits st st' out)
  obtain r jid' where out: "out = (r, jid')" by (cases out)
  show ?case
    by (rule commit_batch_jobs [OF step_edits [unfolded commit_edits_def out]]) (auto dest: edit_steps_jobs(1))
next
  case (step_universal clk jid eids respond sid ereq fedits st st' out)
  obtain r jid' where out: "out = (r, jid')" by (cases out)
  show ?case
    by (rule commit_batch_jobs [OF step_universal [unfolded commit_universal_edits_def out]])
      (auto dest: edit_steps_jobs(2))
next
  case (step_reset clk evid publish0 respond0 sid base key fingerprint st st' r)
  then show ?case by (rule reset_scenario_jobs)
next
  case (step_republish str clk sid source target ojid override st st')
  show ?case
    by (rule republish_result_publishes [OF step_republish]) (rule jobs_kept_same, rule jobs_same(2))
next
  case (step_fast st ws observed clk revision upd st' adv)
  then show ?case using jobs_same_realtime(4) [of clk ws revision observed upd st] jobs_kept_same by simp
next
  case (step_finish clk jid status oc st st' b)
  then show ?case by (rule job_ops_kept(5))
next
  case (step_exact_job t jid ws v request w bw st st1 t')
  then show ?case using jobs_kept_insert jobs_kept_supersede jobs_kept_trans by blast
qed (auto intro!: jobs_kept_same job_ops_kept(1-4) dest: jobs_same(2,3,12) jobs_same_realtime(1-3)
    simp: jobs_same(9-11,13,15))

lemma store_run_jobs: "store_run st st' \<Longrightarrow> jobs_kept st st'"
  by (induction rule: store_run.induct) (blast intro: jobs_kept_refl jobs_kept_trans store_step_jobs)+

end
