(* ===== verification/Store_Contract.thy ===== *)
theory Store_Contract
  imports Store_Jobs
begin

text \<open>
  What the store promises its callers, stated over the step relation and over the single methods:
  consistency of every reachable store, exactly-once commits of an epoch reduction, the gates on
  publishing a result, exactly-once edit batches under an idempotency key, finality of settled
  jobs, retention of unconsumed events, and the fast revision.
\<close>

section \<open>A sample run\<close>

definition sample_clock :: clock where
  "sample_clock n = Stamp (int n)"

definition sample_response :: stored_response where
  "sample_response = \<lparr>sr_status_code = 201, sr_body = JNull, sr_headers = []\<rparr>"

definition sample_create :: create_request where
  "sample_create =
     \<lparr>cr_site_id = ''site'', cr_name = ''demo'', cr_scenario_id = ''w'', cr_keyed = None,
      cr_max_scenarios = Some 4, cr_site_identity = None\<rparr>"

definition right_store :: "store_error + store \<times> 'a \<Rightarrow> store" where
  "right_store x = (case x of Inr (st, _) \<Rightarrow> st | Inl _ \<Rightarrow> empty_store)"

definition sample_created :: store where
  "sample_created =
     right_store (create_scenario sample_clock ''j0'' None (\<lambda>_ _. sample_response) sample_create empty_store)"

definition sample_accepted :: store where
  "sample_accepted = right_store (append_operations sample_clock ''w'' sample_batch sample_created)"

definition sample_commit :: "store_error + store \<times> committed_epoch option" where
  "sample_commit = commit_epoch_reduction sample_clock ''w'' 0 [] (Some 0) sample_accepted"

definition sample_committed :: store where
  "sample_committed = right_store sample_commit"

lemma right_store_Inr: "\<not> isl x \<Longrightarrow> \<exists>out. x = Inr (right_store x, out)"
  by (cases x) (auto simp: right_store_def)

lemma right_store_value: "map_sum id snd x = Inr v \<Longrightarrow> x = Inr (right_store x, v)"
  by (cases x) (auto simp: right_store_def)

lemma sample_created_step: "store_step empty_store sample_created"
proof -
  have "\<not> isl (create_scenario sample_clock ''j0'' None (\<lambda>_ _. sample_response) sample_create empty_store)"
    by code_simp
  then show ?thesis using right_store_Inr step_create unfolding sample_created_def by blast
qed

lemma sample_accepted_step: "store_step sample_created sample_accepted"
proof -
  have "\<not> isl (append_operations sample_clock ''w'' sample_batch sample_created)" by code_simp
  then show ?thesis using right_store_Inr step_append unfolding sample_accepted_def by blast
qed

lemma sample_commit_value:
  "sample_commit = Inr (sample_committed,
     Some \<lparr>ce_workspace_id = ''w'', ce_epoch_id = 0, ce_workspace_revision = 1, ce_first_time = True\<rparr>)"
proof -
  have "map_sum id snd sample_commit =
    Inr (Some \<lparr>ce_workspace_id = ''w'', ce_epoch_id = 0, ce_workspace_revision = 1, ce_first_time = True\<rparr>)"
    by code_simp
  then show ?thesis unfolding sample_committed_def by (rule right_store_value)
qed

lemma sample_reachable: "reachable sample_created" "reachable sample_accepted"
  using run_step [OF run_refl sample_created_step]
    run_step [OF run_step [OF run_refl sample_created_step] sample_accepted_step]
  by (simp_all add: reachable_def)

lemma sample_committed_run: "store_run sample_accepted sample_committed"
  using run_step [OF run_refl step_commit] sample_commit_value unfolding sample_commit_def by blast

section \<open>Reachable stores\<close>

text \<open>C3: every store reached from the empty one by the store's methods, in any order, keeps the
  ledger well-formed and the versions consistent: exact and fast revisions never pass the scene
  version, there is at most one result per scene version and one canonical state per revision,
  each within the scene versions reached, and no two epochs of a workspace own one revision.
  From there on, whatever methods run, no scene version decreases and no scenario disappears.\<close>

theorem reachable_stores_stay_consistent:
  assumes "reachable st" "store_run st st'"
  shows "ledger_ok st' \<and> versions_ok st' \<and> scenes_le st st'"
  using store_run_ok [OF assms(2)] reachable_ok [OF assms(1)] by blast

theorem reachable_stores_stay_consistent_witness:
  "reachable sample_accepted \<and> store_run sample_accepted sample_committed \<and>
   (ledger_ok sample_committed \<and> versions_ok sample_committed \<and> scenes_le sample_accepted sample_committed)"
  using reachable_stores_stay_consistent [OF sample_reachable(2) sample_committed_run]
    sample_reachable(2) sample_committed_run by blast

section \<open>Committing an epoch reduction\<close>

lemma committed_row:
  assumes "(ws, v) \<notin> canonical_keys st"
  shows "canonical_state_at (committed_store t ws eid fams v st) ws v =
    Some \<lparr>cs_workspace_id = ws, cs_workspace_revision = v, cs_families = fams\<rparr>"
proof -
  have "find (\<lambda>r. cs_workspace_id r = ws \<and> cs_workspace_revision r = v)
      (tb_canonical st @ [make_canonical t ws v fams]) = Some (make_canonical t ws v fams)"
    using find_append_None [OF iffD2 [OF find_canonical_None assms, unfolded find_canonical_def]]
    by (simp add: make_canonical_def)
  then show ?thesis
    by (simp add: canonical_state_at_def find_canonical_def committed_store_frame make_canonical_def
        canonical_state.truncate_def)
qed

text \<open>C8: a reduction is committed exactly once. The first commit of an epoch moves the scene
  version up by one, pins the reduced families as the canonical state of that revision and gives
  the epoch that revision; every later commit of the same epoch, with whatever families and
  baseline, returns the revision already assigned and leaves the store as it is.\<close>

theorem commit_epoch_reduction_exactly_once:
  assumes ok: "ledger_ok st" "versions_ok st"
    and c: "commit_epoch_reduction clk ws eid fams baseline st = Inr (st', Some ce)"
  shows "(ce_first_time ce \<longrightarrow>
       scene_of st ws = Some (ce_workspace_revision ce - 1) \<and> scene_of st' ws = Some (ce_workspace_revision ce) \<and>
       canonical_state_at st' ws (ce_workspace_revision ce) =
         Some \<lparr>cs_workspace_id = ws, cs_workspace_revision = ce_workspace_revision ce, cs_families = fams\<rparr>) \<and>
     (\<not> ce_first_time ce \<longrightarrow> st' = st) \<and>
     commit_epoch_reduction clk' ws eid fams' baseline' st' = Inr (st', Some (ce\<lparr>ce_first_time := False\<rparr>))"
proof -
  have again: "commit_epoch_reduction clk' ws eid fams' baseline' s =
      Inr (s, Some \<lparr>ce_workspace_id = ws, ce_epoch_id = eid, ce_workspace_revision = v, ce_first_time = False\<rparr>)"
    if "versions_ok s" "get_epoch s ws eid = Some e" "ep_workspace_revision e = Some v" for s e v
    using that(1)
    by (cases rule: commit_cases [of s ws eid clk' fams' baseline'])
      (use that(2,3) in \<open>auto simp: commit_epoch_reduction_def\<close>)
  from ok(2) show ?thesis
  proof (cases rule: commit_cases [of st ws eid clk fams baseline])
    case (redrive e v)
    then show ?thesis using c again [OF ok(2) redrive(1,2)] by auto
  next
    case (first e r)
    let ?v = "sc_scene_version r + 1"
    have st': "st' = committed_store (clk 0) ws eid fams ?v st"
      "ce = \<lparr>ce_workspace_id = ws, ce_epoch_id = eid, ce_workspace_revision = ?v, ce_first_time = True\<rparr>"
      using c first(6) by simp_all
    have "get_epoch st' ws eid = map_option (assign_revision (clk 0) ?v) (get_epoch st ws eid)"
      using get_epoch_update [of "assign_revision (clk 0) ?v" ws eid]
      by (simp add: st'(1) committed_store_def) (simp add: get_epoch_def)
    then have "get_epoch st' ws eid = Some (assign_revision (clk 0) ?v e)" using first(1) by simp
    moreover have "versions_ok st'" using committed_versions [OF ok first(1,2,3,5)] st'(1) by simp
    ultimately show ?thesis
      using again [of st'] first(3) committed_scene [OF first(3)] committed_row [OF first(5)]
      by (simp add: st' scene_of_def)
  qed (use c in auto)
qed

theorem commit_epoch_reduction_exactly_once_witness:
  "sample_commit = Inr (sample_committed,
     Some \<lparr>ce_workspace_id = ''w'', ce_epoch_id = 0, ce_workspace_revision = 1, ce_first_time = True\<rparr>) \<and>
   scene_of sample_accepted ''w'' = Some 0 \<and> scene_of sample_committed ''w'' = Some 1 \<and>
   commit_epoch_reduction sample_clock ''w'' 0 [] None sample_committed = Inr (sample_committed,
     Some \<lparr>ce_workspace_id = ''w'', ce_epoch_id = 0, ce_workspace_revision = 1, ce_first_time = False\<rparr>)"
proof -
  note ok = reachable_ok [OF sample_reachable(2)]
  show ?thesis
    using commit_epoch_reduction_exactly_once [OF _ _ sample_commit_value [unfolded sample_commit_def]] ok
      sample_commit_value by auto
qed

text \<open>The only way a commit is refused is the baseline fence: it happens exactly when the
  epoch has no revision yet and the newest canonical revision is not the baseline the reduction
  was folded from, and the error carries both revisions. No uniqueness constraint is ever hit.\<close>

lemma commit_epoch_reduction_refusal:
  assumes "versions_ok st"
  shows "commit_epoch_reduction clk ws eid fams baseline st = Inl err \<longleftrightarrow>
    (\<exists>b e. baseline = Some b \<and> max_canonical st ws \<noteq> b \<and> get_epoch st ws eid = Some e \<and>
       ep_workspace_revision e = None \<and> get_scenario st ws \<noteq> None \<and>
       err = EpochBaselineStale ws b (max_canonical st ws))"
  using assms
proof (cases rule: commit_cases [of st ws eid clk fams baseline])
  case (stale b)
  have "\<exists>e. get_epoch st ws eid = Some e \<and> ep_workspace_revision e = None \<and> get_scenario st ws \<noteq> None"
    using stale by (auto simp: commit_epoch_reduction_def Let_def split: option.splits)
  then show ?thesis using stale by auto
qed auto

lemma commit_epoch_reduction_refusal_witness:
  "versions_ok sample_accepted \<and>
   commit_epoch_reduction sample_clock ''w'' 0 [] (Some 7) sample_accepted = Inl (EpochBaselineStale ''w'' 7 0)"
proof -
  have "versions_ok sample_accepted" using reachable_ok [OF sample_reachable(2)] by blast
  moreover have "max_canonical sample_accepted ''w'' = 0" by code_simp
  moreover have "map_option ep_workspace_revision (get_epoch sample_accepted ''w'' 0) = Some None" by code_simp
  moreover have "get_scenario sample_accepted ''w'' \<noteq> None" by code_simp
  ultimately show ?thesis
    using commit_epoch_reduction_refusal [of sample_accepted sample_clock "''w''" 0 "[]" "Some 7"
        "EpochBaselineStale ''w'' 7 0"] by auto
qed

section \<open>Publishing a result\<close>

lemma get_result_published:
  assumes "publish_result_locked t0 t1 sid v manifest payload exact ojid acked st = Inr st'"
  shows "get_result st' sid v = Some (new_result t0 sid v manifest payload exact ojid)"
proof -
  obtain row st1 where "get_scenario st sid = Some row" "v = sc_scene_version row" and n: "get_result st sid v = None"
    and st1: "st1 = st\<lparr>tb_results := tb_results st @ [new_result t0 sid v manifest payload exact ojid]\<rparr>"
    and st': "st' = (if exact \<and> sc_exact_result_version row \<le> v
        then update_scenario sid (mark_exact t1 v acked) st1 else st1)"
    by (rule publish_result_lockedE [OF assms]) (rule that)
  have "tb_results st' = tb_results st @ [new_result t0 sid v manifest payload exact ojid]"
    by (simp add: st' st1)
  then show ?thesis using find_append_None [OF n [unfolded get_result_def]] by (simp add: get_result_def)
qed

lemma get_scenario_mark:
  "get_scenario (update_scenario sid (mark_exact t v acked) st) sid =
     map_option (mark_exact t v acked) (get_scenario st sid)"
  by (simp add: get_scenario_update [of "mark_exact t v acked"] mark_exact_def)

lemma mark_exact_simps [simp]:
  "sc_scene_version (mark_exact t v acked r) = sc_scene_version r"
  "sc_exact_result_version (mark_exact t v acked r) = v"
  by (simp_all add: mark_exact_def)

lemma publish_result_gate_facts:
  assumes "publish_result clk sid v manifest payload exact ojid acked st = Inr st'"
  shows "scene_of st sid = Some v \<and> get_result st sid v = None \<and>
    (\<forall>jid. ojid = Some jid \<longrightarrow> map_option jb_status (get_job st jid) = Some ''running'') \<and>
    get_result st' sid v = Some (new_result (clk 0) sid v manifest payload exact ojid) \<and>
    (exact \<and> scenarios_ok st \<longrightarrow> map_option sc_exact_result_version (get_scenario st' sid) = Some v) \<and>
    publish_result clk' sid v manifest' payload' exact' None acked' st' = Inl ResultAlreadyPublished"
proof -
  have job: "\<forall>jid. ojid = Some jid \<longrightarrow> map_option jb_status (get_job st jid) = Some ''running''"
    and p: "publish_result_locked (clk 0) (clk 1) sid v manifest payload exact ojid acked st = Inr st'"
    using assms by (auto simp: publish_result_def split: option.splits if_splits)
  obtain row st1 where r: "get_scenario st sid = Some row" "v = sc_scene_version row" "get_result st sid v = None"
    and st1: "st1 = st\<lparr>tb_results := tb_results st @ [new_result (clk 0) sid v manifest payload exact ojid]\<rparr>"
    and st': "st' = (if exact \<and> sc_exact_result_version row \<le> v
        then update_scenario sid (mark_exact (clk 1) v acked) st1 else st1)"
    by (rule publish_result_lockedE [OF p]) (rule that)
  have g: "get_scenario st1 = get_scenario st" by (simp add: st1 get_scenario_def fun_eq_iff)
  have scene: "map_option sc_scene_version (get_scenario st' sid) = Some v"
    using r(1,2) by (simp add: st' g get_scenario_mark)
  have "map_option sc_exact_result_version (get_scenario st' sid) = Some v" if "exact" "scenarios_ok st"
    using that r(1,2) scenarios_ok_row [OF that(2) r(1)] by (simp add: st' g get_scenario_mark row_ok_def)
  moreover have "publish_result clk' sid v manifest' payload' exact' None acked' st' = Inl ResultAlreadyPublished"
    using scene get_result_published [OF p]
    by (auto simp: publish_result_def publish_result_locked_def require_scenario_def)
  ultimately show ?thesis using r job get_result_published [OF p] by (simp add: scene_of_def)
qed

text \<open>C19: a result is published only against the scene version it was computed for, at most once
  per version, and (when a job publishes it) only while that job is running. Afterwards the
  result is readable at its version, an exact one has raised the exact version to it, and
  publishing that version again is refused.\<close>

theorem publish_result_gate:
  assumes "publish_result clk sid v manifest payload exact ojid acked st = Inr st'"
  shows "scene_of st sid = Some v \<and> get_result st sid v = None \<and>
    (\<forall>jid. ojid = Some jid \<longrightarrow> map_option jb_status (get_job st jid) = Some ''running'') \<and>
    get_result st' sid v = Some (new_result (clk 0) sid v manifest payload exact ojid) \<and>
    (exact \<and> scenarios_ok st \<longrightarrow> map_option sc_exact_result_version (get_scenario st' sid) = Some v) \<and>
    publish_result clk' sid v manifest' payload' exact' None acked' st' = Inl ResultAlreadyPublished"
  by (rule publish_result_gate_facts [OF assms])

theorem publish_result_gate_witness:
  "\<exists>st'. publish_result sample_clock ''w'' 0 [] ''p'' True None None sample_created = Inr st' \<and>
     scene_of sample_created ''w'' = Some 0 \<and>
     publish_result sample_clock ''w'' 0 [] ''q'' True None None st' = Inl ResultAlreadyPublished"
proof -
  have "\<not> isl (publish_result sample_clock ''w'' 0 [] ''p'' True None None sample_created)" by code_simp
  then obtain st' where "publish_result sample_clock ''w'' 0 [] ''p'' True None None sample_created = Inr st'"
    by (cases "publish_result sample_clock ''w'' 0 [] ''p'' True None None sample_created") auto
  with publish_result_gate [OF this, of sample_clock "[]" "''q''" True None] show ?thesis by blast
qed

section \<open>Edit batches under an idempotency key\<close>

lemma commit_batch_replays:
  assumes c: "commit_batch clk jid respond ledger finish sid req st = Inr (st', record, jid')"
    and k: "keyed (er_key req) (er_fingerprint req) = Some (key, fp)"
  shows "find_idempotency st' sid key = Some \<lparr>ik_scope = sid, ik_key = key, ik_fingerprint = fp,
      ik_response = respond record jid, ik_created_at = clk 3\<rparr>"
proof -
  obtain st4 where save:
    "save_idempotency (clk 3) sid (keyed (er_key req) (er_fingerprint req)) (respond record jid) st4 = Inr st'"
    by (rule commit_batchE [OF c]) (rule that)
  then have n: "find (\<lambda>r. ik_scope r = sid \<and> ik_key r = key) (tb_idempotency st4) = None"
    and t: "tb_idempotency st' = tb_idempotency st4 @ [\<lparr>ik_scope = sid, ik_key = key, ik_fingerprint = fp,
      ik_response = respond record jid, ik_created_at = clk 3\<rparr>]"
    using k by (auto simp: save_idempotency_def store_idempotency_def find_idempotency_def split: if_splits)
  then show ?thesis using find_append_None [OF n] by (simp add: find_idempotency_def)
qed

text \<open>C20: an edit batch is applied exactly once. It commits only against the scene version it was
  drawn on and moves it up by one; a retry of the same request (same key, same fingerprint) is
  answered with the stored response, the same key with another fingerprint is a conflict, and a
  batch without key that is still based on the old version is refused with the current version.
  None of these changes the store.\<close>

theorem commit_edits_exactly_once:
  assumes ok: "versions_ok st"
    and c: "commit_edits clk jid eids respond sid req edits st = Inr (st', record, jid')"
    and k: "keyed (er_key req) (er_fingerprint req) = Some (key, fp)"
  shows "scene_of st sid = Some (er_base_scene_version req) \<and>
    scene_of st' sid = Some (er_base_scene_version req + 1) \<and>
    commit_edits clk2 jid2 eids2 respond2 sid req edits2 st' = Inl (IdempotentReplay (respond record jid)) \<and>
    (fp2 \<noteq> fp \<and> fp2 \<noteq> [] \<longrightarrow>
       commit_edits clk2 jid2 eids2 respond2 sid (req\<lparr>er_fingerprint := Some fp2\<rparr>) edits2 st' =
         Inl (IdempotencyConflict key)) \<and>
    commit_edits clk2 jid2 eids2 respond2 sid (req\<lparr>er_key := None\<rparr>) edits2 st' =
      Inl (SceneVersionConflict (er_base_scene_version req + 1))"
proof -
  have scenes: "scene_of st sid = Some (er_base_scene_version req)"
    "scene_of st' sid = Some (er_base_scene_version req + 1)"
    using commit_edits_ok [OF ok c] by simp_all
  have f: "find_idempotency st' sid key = Some \<lparr>ik_scope = sid, ik_key = key, ik_fingerprint = fp,
      ik_response = respond record jid, ik_created_at = clk 3\<rparr>"
    using commit_batch_replays [OF c [unfolded commit_edits_def] k] .
  have key: "er_key req = Some key" "key \<noteq> []"
    using k by (auto simp: keyed_def split: option.splits if_splits)
  have "commit_edits clk2 jid2 eids2 respond2 sid req edits2 st' = Inl (IdempotentReplay (respond record jid))"
    by (simp add: commit_edits_def commit_batch_def guard_idempotency_def k check_idempotency_locked_def f)
  moreover have "commit_edits clk2 jid2 eids2 respond2 sid (req\<lparr>er_fingerprint := Some fp2\<rparr>) edits2 st' =
      Inl (IdempotencyConflict key)" if "fp2 \<noteq> fp" "fp2 \<noteq> []"
    using that key
    by (simp add: commit_edits_def commit_batch_def guard_idempotency_def keyed_def check_idempotency_locked_def f)
  moreover have "commit_edits clk2 jid2 eids2 respond2 sid (req\<lparr>er_key := None\<rparr>) edits2 st' =
      Inl (SceneVersionConflict (er_base_scene_version req + 1))"
    using scenes(2)
    by (auto simp: commit_edits_def commit_batch_def guard_idempotency_def keyed_def require_scenario_def scene_of_def)
  ultimately show ?thesis using scenes by simp
qed

definition sample_edit :: edit_request where
  "sample_edit = \<lparr>er_base_scene_version = 0, er_requested = [], er_key = Some ''k'', er_fingerprint = Some ''f''\<rparr>"

theorem commit_edits_exactly_once_witness:
  "\<exists>st' record jid'.
     commit_edits sample_clock ''j1'' (\<lambda>_. ''e'') (\<lambda>_ _. sample_response) ''w'' sample_edit [] sample_created =
       Inr (st', record, jid') \<and>
     scene_of st' ''w'' = Some 1 \<and>
     commit_edits sample_clock ''j2'' (\<lambda>_. ''e'') (\<lambda>_ _. sample_response) ''w'' sample_edit [] st' =
       Inl (IdempotentReplay sample_response)"
proof -
  let ?c = "commit_edits sample_clock ''j1'' (\<lambda>_. ''e'') (\<lambda>_ _. sample_response) ''w'' sample_edit [] sample_created"
  have "\<not> isl ?c" by code_simp
  then obtain st' r jid' where c: "?c = Inr (st', r, jid')" by (cases ?c) auto
  have k: "keyed (er_key sample_edit) (er_fingerprint sample_edit) = Some (''k'', ''f'')"
    by (simp add: keyed_def sample_edit_def)
  have ok: "versions_ok sample_created" using reachable_ok [OF sample_reachable(1)] by blast
  have "er_base_scene_version sample_edit + 1 = 1" by (simp add: sample_edit_def)
  with commit_edits_exactly_once [OF ok c k, of sample_clock "''j2''" "\<lambda>_. ''e''" "\<lambda>_ _. sample_response" "[]" "[]"] c
  show ?thesis by auto
qed

section \<open>Settled jobs\<close>

text \<open>A job that completed or was superseded stays exactly as it is along every run of the
  store, and no result can be published under its name any more.\<close>

lemma settled_jobs_are_final:
  assumes "store_run st st'" "get_job st jid = Some j" "settled_status (jb_status j)"
  shows "get_job st' jid = Some j \<and>
    publish_result clk sid v manifest payload exact (Some jid) acked st' =
      Inl (ResultNotPublishable jid (jb_status j))"
proof -
  have "get_job st' jid = Some j"
    using store_run_jobs [OF assms(1)] assms(2,3) unfolding jobs_kept_def by blast
  then show ?thesis using assms(3) by (auto simp: publish_result_def settled_status_def)
qed

definition sample_finished :: store where
  "sample_finished = right_store (finish_job sample_clock ''j0'' ''complete'' no_outcome sample_created)"

lemma settled_jobs_are_final_witness:
  "\<exists>j. get_job sample_finished ''j0'' = Some j \<and> settled_status (jb_status j) \<and>
     store_run sample_finished (fst (requeue_failed_job ''j0'' sample_finished)) \<and>
     get_job (fst (requeue_failed_job ''j0'' sample_finished)) ''j0'' = Some j"
proof -
  have "map_option jb_status (get_job sample_finished ''j0'') = Some ''complete''" by code_simp
  then obtain j where j: "get_job sample_finished ''j0'' = Some j" "settled_status (jb_status j)"
    by (auto simp: settled_status_def)
  have r: "store_run sample_finished (fst (requeue_failed_job ''j0'' sample_finished))"
    by (rule run_step [OF run_refl step_requeue_failed])
  show ?thesis using settled_jobs_are_final [OF r j] j r by blast
qed

section \<open>Retention\<close>

text \<open>The retention sweep never loses an edit event that is still needed: what a reader gets
  after the acknowledged sequence of a scenario is the same before and after it, and so is
  everything in the retained tail before that sequence.\<close>

lemma sweep_keeps_unconsumed_events:
  assumes "acked_of st sid = Some a" "a - tail \<le> after"
  shows "list_events (sweep_retention cutoff tail st) sid after = list_events st sid after"
proof -
  have "filter (\<lambda>e. ev_scenario_id e = sid \<and> after < ev_sequence e)
      (filter (\<lambda>e. case acked_of st (ev_scenario_id e) of Some a \<Rightarrow> a - tail < ev_sequence e | None \<Rightarrow> True)
        (tb_events st)) =
    filter (\<lambda>e. ev_scenario_id e = sid \<and> after < ev_sequence e) (tb_events st)"
    unfolding filter_filter by (rule filter_cong) (use assms in auto)
  then show ?thesis by (simp add: list_events_def sweep_retention_def)
qed

definition sample_edited :: store where
  "sample_edited =
     right_store (commit_edits sample_clock ''j1'' (\<lambda>_. ''e'') (\<lambda>_ _. sample_response) ''w'' sample_edit
       [\<lparr>te_operation = ''add'', te_tree_id = ''t1'', te_old_tree = None, te_new_tree = Some JNull\<rparr>]
       sample_created)"

lemma sweep_keeps_unconsumed_events_witness:
  "acked_of sample_edited ''w'' = Some 0 \<and> length (list_events sample_edited ''w'' 0) = 1 \<and>
   list_events (sweep_retention 100 5 sample_edited) ''w'' 0 = list_events sample_edited ''w'' 0"
proof -
  have a: "acked_of sample_edited ''w'' = Some 0" by code_simp
  have l: "length (list_events sample_edited ''w'' 0) = 1" by code_simp
  show ?thesis using sweep_keeps_unconsumed_events [OF a, of 5 0 100] a l by simp
qed

section \<open>The fast revision\<close>

lemma advance_fast_revision_facts:
  assumes ok: "versions_ok st" and sc: "get_scenario st ws = Some r" and observed: "observed \<le> sc_scene_version r"
    and a: "advance_fast_revision clk ws revision observed upd st = (st', res)"
  shows "if sc_scene_version r < revision then st' = st \<and> res = None
    else (\<exists>fa r'. res = Some fa \<and> get_scenario st' ws = Some r' \<and> sc_fast_revision r' = fa_fast_revision fa \<and>
      sc_fast_revision r \<le> fa_fast_revision fa \<and> revision \<le> fa_fast_revision fa \<and>
      sc_exact_result_version r' \<le> fa_fast_revision fa \<and> fa_fast_revision fa \<le> sc_scene_version r' \<and>
      sc_scene_version r' = sc_scene_version r)"
proof (cases rule: advance_cases [of clk ws revision observed upd st])
  case skip
  then show ?thesis using a sc by simp
next
  case (advance r0 f t)
  have r0: "r0 = r" using advance(1) sc by simp
  have row: "row_ok r" using ok sc scenarios_ok_row by (auto simp: versions_ok_def)
  have "get_scenario st' ws = Some (fast_row f (sc_exact_result_version r) t r)"
    using a advance(4) sc r0
    by (auto simp: get_scenario_update [of "fast_row f (sc_exact_result_version r) t"])
  then show ?thesis
    using a advance(2,3,4) r0 row observed by (auto simp: row_ok_def)
qed

text \<open>Advancing the fast revision is monotone and bounded: the new value is at least the old
  one, the revision just published, and the exact version, never passes the scene version, and
  the row holds it; a revision above the scene version is refused without change.\<close>

lemma advance_fast_revision_monotone:
  assumes ok: "versions_ok st" and sc: "get_scenario st ws = Some r" and observed: "observed \<le> sc_scene_version r"
    and a: "advance_fast_revision clk ws revision observed upd st = (st', res)"
  shows "if sc_scene_version r < revision then st' = st \<and> res = None
    else (\<exists>fa r'. res = Some fa \<and> get_scenario st' ws = Some r' \<and> sc_fast_revision r' = fa_fast_revision fa \<and>
      sc_fast_revision r \<le> fa_fast_revision fa \<and> revision \<le> fa_fast_revision fa \<and>
      sc_exact_result_version r' \<le> fa_fast_revision fa \<and> fa_fast_revision fa \<le> sc_scene_version r' \<and>
      sc_scene_version r' = sc_scene_version r)"
  by (rule advance_fast_revision_facts [OF assms])

lemma advance_fast_revision_monotone_witness:
  "\<exists>r st' res. get_scenario sample_committed ''w'' = Some r \<and>
     advance_fast_revision sample_clock ''w'' 1 0 None sample_committed = (st', res) \<and>
     map_option fa_fast_revision res = Some 1"
proof -
  have ok: "versions_ok sample_committed"
    using store_run_ok [OF sample_committed_run] reachable_ok [OF sample_reachable(2)] by blast
  have "map_option sc_scene_version (get_scenario sample_committed ''w'') = Some 1" by code_simp
  then obtain r where r: "get_scenario sample_committed ''w'' = Some r" "sc_scene_version r = 1" by auto
  obtain st' res where a: "advance_fast_revision sample_clock ''w'' 1 0 None sample_committed = (st', res)"
    by (cases "advance_fast_revision sample_clock ''w'' 1 0 None sample_committed")
  have "0 \<le> sc_scene_version r" using r(2) by simp
  from advance_fast_revision_monotone [OF ok r(1) this a] r(2)
  obtain fa where "res = Some fa" "1 \<le> fa_fast_revision fa" "fa_fast_revision fa \<le> 1" by auto
  then show ?thesis using r(1) a by auto
qed

end
