(* ===== verification/Publish_Fence.thy ===== *)
theory Publish_Fence
  imports Store_Contract
begin

text \<open>
  The publication lease of the exact lane, \<open>server/realtime/publish_fence.py\<close>: minted from a
  running job row, completed once the result exists, published at most once, through the store.
  A lease that raises keeps its changed flags, so \<open>lease_publish\<close> returns the lease beside the
  outcome. The messages and \<open>body\<close> renderings of the errors are left out.
\<close>

section \<open>Leases\<close>

datatype lease_error =
    PublishPendingError string
  | LeaseStaleError string string
  | LeaseAlreadyPublished string int
  | LeaseStoreError store_error

record publish_lease =
  ls_scenario_id :: string
  ls_scene_version :: int
  ls_job_id :: string
  ls_completed :: bool
  ls_published :: bool

definition new_lease :: "string \<Rightarrow> int \<Rightarrow> string \<Rightarrow> publish_lease" where
  "new_lease sid version jid =
     \<lparr>ls_scenario_id = sid, ls_scene_version = version, ls_job_id = jid, ls_completed = False,
      ls_published = False\<rparr>"

definition from_job :: "job_record \<Rightarrow> lease_error + publish_lease" where
  "from_job job =
     (if jb_status job \<noteq> ''running'' then Inl (LeaseStaleError (jb_job_id job) (jb_status job))
      else Inr (new_lease (jb_scenario_id job) (jb_target_scene_version job) (jb_job_id job)))"

definition require_running :: "store \<Rightarrow> publish_lease \<Rightarrow> lease_error + unit" where
  "require_running st l =
     (case get_job st (ls_job_id l) of
        None \<Rightarrow> Inl (LeaseStaleError (ls_job_id l) ''deleted'')
      | Some live \<Rightarrow>
          if jb_status live \<noteq> ''running'' then Inl (LeaseStaleError (ls_job_id l) (jb_status live))
          else Inr ())"

definition mark_complete :: "store \<Rightarrow> publish_lease \<Rightarrow> lease_error + publish_lease" where
  "mark_complete st l = map_sum id (\<lambda>_. l\<lparr>ls_completed := True\<rparr>) (require_running st l)"

definition lease_publish ::
  "clock \<Rightarrow> json dict \<Rightarrow> string \<Rightarrow> int option \<Rightarrow> store \<Rightarrow> publish_lease
   \<Rightarrow> publish_lease \<times> (lease_error + store)" where
  "lease_publish clk manifest payload acked st l =
     (if \<not> ls_completed l then (l, Inl (PublishPendingError (ls_job_id l)))
      else if ls_published l then (l, Inl (LeaseAlreadyPublished (ls_job_id l) (ls_scene_version l)))
      else case require_running st l of
             Inl e \<Rightarrow> (l, Inl e)
           | Inr _ \<Rightarrow>
               (l\<lparr>ls_published := True\<rparr>,
                map_sum LeaseStoreError id
                  (publish_result clk (ls_scenario_id l) (ls_scene_version l) manifest payload True
                     (Some (ls_job_id l)) acked st)))"

definition release :: "publish_lease \<Rightarrow> publish_lease" where
  "release l = l\<lparr>ls_completed := False, ls_published := True\<rparr>"

section \<open>Leases beside a running store\<close>

text \<open>A lease, the store it writes to, which anybody else may step at any moment, and the number
  of results the lease has published.\<close>

type_synonym lease_state = "store \<times> publish_lease \<times> nat"

inductive lease_step :: "lease_state \<Rightarrow> lease_state \<Rightarrow> bool" where
  others: "store_step st st' \<Longrightarrow> lease_step (st, l, n) (st', l, n)"
| complete: "mark_complete st l = Inr l' \<Longrightarrow> lease_step (st, l, n) (st, l', n)"
| published: "lease_publish clk manifest payload acked st l = (l', Inr st') \<Longrightarrow>
    lease_step (st, l, n) (st', l', Suc n)"
| refused: "lease_publish clk manifest payload acked st l = (l', Inl e) \<Longrightarrow>
    lease_step (st, l, n) (st, l', n)"
| abandon: "lease_step (st, l, n) (st, release l, n)"

inductive lease_run :: "lease_state \<Rightarrow> lease_state \<Rightarrow> bool" where
  lease_refl: "lease_run s s"
| lease_more: "lease_run s s' \<Longrightarrow> lease_step s' s'' \<Longrightarrow> lease_run s s''"

inductive_cases lease_stepE: "lease_step (st, l, n) s"

lemma map_sum_left_Inr: "map_sum f id x = Inr y \<Longrightarrow> x = Inr y"
  by (cases x) auto

lemma publish_flags:
  "lease_publish clk manifest payload acked st l = (l', Inr st') \<Longrightarrow>
     ls_completed l \<and> \<not> ls_published l \<and> ls_published l' \<and> ls_job_id l' = ls_job_id l \<and>
     publish_result clk (ls_scenario_id l) (ls_scene_version l) manifest payload True
       (Some (ls_job_id l)) acked st = Inr st'"
  "lease_publish clk manifest payload acked st l = (l', Inl e) \<Longrightarrow>
     (ls_published l \<longrightarrow> ls_published l') \<and> ls_job_id l' = ls_job_id l"
  by (auto simp: lease_publish_def split: if_splits sum.splits dest: map_sum_left_Inr)

lemma release_simps [simp]:
  "ls_published (release l)" "\<not> ls_completed (release l)" "ls_job_id (release l) = ls_job_id l"
  by (simp_all add: release_def)

definition lease_inv :: "publish_lease \<Rightarrow> lease_state \<Rightarrow> bool" where
  "lease_inv l0 s \<longleftrightarrow>
     (case s of (st, l, n) \<Rightarrow>
        n \<le> 1 \<and> (n = 1 \<longrightarrow> ls_published l) \<and> (ls_published l0 \<longrightarrow> ls_published l \<and> n = 0) \<and>
        ls_job_id l = ls_job_id l0)"

lemma lease_step_inv:
  assumes "lease_step s s'" "lease_inv l0 s"
  shows "lease_inv l0 s'"
  using assms
proof (cases rule: lease_step.cases)
  case (complete st l l' n)
  then show ?thesis using assms(2)
    by (auto simp: lease_inv_def mark_complete_def dest!: map_sum_Inr)
next
  case (published clk manifest payload acked st l l' st' n)
  then show ?thesis using assms(2) publish_flags(1) [OF published(3)] by (auto simp: lease_inv_def)
next
  case (refused clk manifest payload acked st l l' e n)
  then show ?thesis using assms(2) publish_flags(2) [OF refused(3)] by (auto simp: lease_inv_def)
qed (auto simp: lease_inv_def)

lemma lease_run_inv: "lease_run s s' \<Longrightarrow> lease_inv l0 s \<Longrightarrow> lease_inv l0 s'"
  by (induction rule: lease_run.induct) (auto dest: lease_step_inv)

lemma lease_count_mono:
  assumes "lease_run s s'"
  shows "snd (snd s) \<le> snd (snd s')"
  using assms
proof (induction rule: lease_run.induct)
  case (lease_more s s' s'')
  from lease_more.hyps(2) have "snd (snd s') \<le> snd (snd s'')" by cases simp_all
  then show ?case using lease_more.IH by simp
qed simp

text \<open>C21: a publication lease publishes at most once. However the calls on it interleave with each
  other and with any steps of the store, at most one of its publications succeeds; that one was
  completed first and its job was running, the result is readable at its version, and every later
  publication through the lease is refused.\<close>

theorem lease_publishes_at_most_once:
  assumes "from_job job = Inr l0" "lease_run (st0, l0, 0) (st, l, n)"
    and "lease_publish clk manifest payload acked st l = (l', Inr st')"
  shows "n = 0 \<and> ls_completed l \<and> map_option jb_status (get_job st (jb_job_id job)) = Some ''running'' \<and>
    scene_of st (ls_scenario_id l) = Some (ls_scene_version l) \<and>
    get_result st' (ls_scenario_id l) (ls_scene_version l) \<noteq> None \<and>
    (\<forall>st2 l2 n2. lease_run (st', l', Suc 0) (st2, l2, n2) \<longrightarrow> n2 = 1)"
proof -
  have init: "lease_inv l0 (st0, l0, 0)"
    using assms(1) by (auto simp: lease_inv_def from_job_def new_lease_def split: if_splits)
  have inv: "lease_inv l0 (st, l, n)" by (rule lease_run_inv [OF assms(2) init])
  note f = publish_flags(1) [OF assms(3)]
  have id: "ls_job_id l = jb_job_id job"
    using inv assms(1) by (auto simp: lease_inv_def from_job_def new_lease_def split: if_splits)
  have n: "n = 0" using inv f by (auto simp: lease_inv_def)
  have "publish_result clk (ls_scenario_id l) (ls_scene_version l) manifest payload True
       (Some (ls_job_id l)) acked st = Inr st'" using f by blast
  note g = publish_result_gate_facts [OF this]
  have "lease_inv l0 (st', l', Suc 0)"
    using lease_step_inv [OF published [OF assms(3), of 0]] inv n by blast
  then have final: "n2 = 1" if "lease_run (st', l', Suc 0) (st2, l2, n2)" for st2 l2 n2
    using lease_run_inv [OF that] lease_count_mono [OF that] by (force simp: lease_inv_def)
  show ?thesis using n f g id final by auto
qed

definition sample_running :: store where
  "sample_running = mark_job_running sample_clock ''j0'' sample_created"

definition sample_lease :: publish_lease where
  "sample_lease = new_lease ''w'' 0 ''j0''"

theorem lease_publishes_at_most_once_witness:
  "\<exists>job st'. get_job sample_running ''j0'' = Some job \<and> from_job job = Inr sample_lease \<and>
     lease_run (sample_running, sample_lease, 0) (sample_running, sample_lease\<lparr>ls_completed := True\<rparr>, 0) \<and>
     lease_publish sample_clock [] ''p'' None sample_running (sample_lease\<lparr>ls_completed := True\<rparr>) =
       (sample_lease\<lparr>ls_completed := True, ls_published := True\<rparr>, Inr st') \<and>
     get_result st' ''w'' 0 \<noteq> None"
proof -
  have "map_option (\<lambda>j. (jb_status j, jb_scenario_id j, jb_target_scene_version j, jb_job_id j))
      (get_job sample_running ''j0'') = Some (''running'', ''w'', 0, ''j0'')" by code_simp
  then obtain job where job: "get_job sample_running ''j0'' = Some job" "jb_status job = ''running''"
    "jb_scenario_id job = ''w''" "jb_target_scene_version job = 0" "jb_job_id job = ''j0''" by auto
  have l: "from_job job = Inr sample_lease" using job by (simp add: from_job_def sample_lease_def)
  have "mark_complete sample_running sample_lease = Inr (sample_lease\<lparr>ls_completed := True\<rparr>)"
    using job by (simp add: mark_complete_def require_running_def sample_lease_def new_lease_def)
  then have r: "lease_run (sample_running, sample_lease, 0) (sample_running, sample_lease\<lparr>ls_completed := True\<rparr>, 0)"
    by (rule lease_more [OF lease_refl complete])
  have "\<not> isl (snd (lease_publish sample_clock [] ''p'' None sample_running (sample_lease\<lparr>ls_completed := True\<rparr>)))"
    by code_simp
  then obtain l' st' where p: "lease_publish sample_clock [] ''p'' None sample_running
      (sample_lease\<lparr>ls_completed := True\<rparr>) = (l', Inr st')"
    by (cases "lease_publish sample_clock [] ''p'' None sample_running (sample_lease\<lparr>ls_completed := True\<rparr>)")
      (metis isl_def obj_sumE snd_conv)
  have "l' = sample_lease\<lparr>ls_completed := True, ls_published := True\<rparr>"
    using p by (auto simp: lease_publish_def split: if_splits sum.splits)
  then show ?thesis
    using lease_publishes_at_most_once [OF l r p] job(1) l r p by (auto simp: sample_lease_def new_lease_def)
qed

end
