(* ===== verification/Epochs.thy ===== *)
theory Epochs
  imports Publish_Fence
begin

text \<open>
  The epoch scheduler, \<open>server/realtime/epochs.py\<close>: the close pipeline (mark, fetch, fold, commit
  with the stale-baseline guard, publish), one scheduler pass, and recovery at start.

  The store is shared: other drivers, requests and lanes step it between two calls of the
  pipeline. \<open>env\<close> is what they do, by the position of the gap: 0 before the closed mark, 1 before
  the operations are fetched, 2 + i between fold and commit of attempt i, 5 before the final read.
  The reducer is a parameter, as it is in the constructor. A raising step leaves the store as it
  then is, so the pipeline returns the store beside its outcome; broadcasting and the after-close
  hook swallow their exceptions in the source and are the returned event. Telemetry, the daemon
  thread and the heartbeat are not modelled. Times are in milliseconds.
\<close>

section \<open>Events\<close>

record epoch_event =
  ee_workspace_id :: string
  ee_epoch_id :: int
  ee_workspace_revision :: int
  ee_operations :: "operation list"
  ee_fast_revision :: int
  ee_exact_revision :: int
  ee_exact_base_revision :: int
  ee_conflicts :: "conflict_record list option"

datatype close_error =
    OutOfOrder string int
  | ReducerRaised py_error
  | StoreRaised store_error
  | BaselineKeptAdvancing string int
  | MissingRevision string int
  | ZeroLossViolated string int
  | BadStamp py_error

definition conflict_body :: "conflict_record \<Rightarrow> conflict_record" where
  "conflict_body c = c"

text \<open>\<open>_publish\<close>: the zero-loss fence compares the ids rendered with the ids of the epoch.\<close>

definition publish_event ::
  "store \<Rightarrow> string \<Rightarrow> epoch_record \<Rightarrow> operation_record list option \<Rightarrow> conflict_record list option
   \<Rightarrow> close_error + epoch_event" where
  "publish_event st ws epoch operations conflicts =
     (let ops = (case operations of
            Some ops \<Rightarrow> ops | None \<Rightarrow> operations_for_epoch st ws (ep_epoch_id epoch));
          bodies = map operation_body ops;
          scenario = get_scenario st ws
      in if set (map op_operation_id bodies) \<noteq> set (map op_operation_id ops)
         then Inl (ZeroLossViolated ws (ep_epoch_id epoch))
         else case ep_workspace_revision epoch of
                None \<Rightarrow> Inl (MissingRevision ws (ep_epoch_id epoch))
              | Some v \<Rightarrow>
                  Inr \<lparr>ee_workspace_id = ws, ee_epoch_id = ep_epoch_id epoch,
                       ee_workspace_revision = v, ee_operations = bodies,
                       ee_fast_revision = (case scenario of Some r \<Rightarrow> sc_fast_revision r | None \<Rightarrow> 0),
                       ee_exact_revision = (case scenario of Some r \<Rightarrow> sc_exact_result_version r | None \<Rightarrow> 0),
                       ee_exact_base_revision =
                         (case scenario of Some r \<Rightarrow> sc_exact_base_revision r | None \<Rightarrow> 0),
                       ee_conflicts = conflicts\<rparr>)"

section \<open>Fold and commit\<close>

record reducer_ops =
  rd_initial :: "string \<Rightarrow> canonical_state"
  rd_reduce :: "canonical_state \<Rightarrow> operation list \<Rightarrow> py_error + epoch_reduction"

definition deterministic_reducer :: reducer_ops where
  "deterministic_reducer = \<lparr>rd_initial = initial_state, rd_reduce = reduce_epoch\<rparr>"

definition baseline_of :: "reducer_ops \<Rightarrow> store \<Rightarrow> string \<Rightarrow> canonical_state" where
  "baseline_of rd st ws = (case latest_canonical_state st ws of Some b \<Rightarrow> b | None \<Rightarrow> rd_initial rd ws)"

fun is_stale :: "store_error \<Rightarrow> bool" where
  "is_stale (EpochBaselineStale _ _ _) \<longleftrightarrow> True"
| "is_stale _ \<longleftrightarrow> False"

primrec fold_and_commit ::
  "reducer_ops \<Rightarrow> clock \<Rightarrow> (nat \<Rightarrow> store \<Rightarrow> store) \<Rightarrow> string \<Rightarrow> int \<Rightarrow> operation list \<Rightarrow> nat \<Rightarrow> nat \<Rightarrow> store
   \<Rightarrow> store \<times> (close_error + epoch_reduction \<times> committed_epoch option)" where
  "fold_and_commit rd clk env ws eid ops i 0 st = (st, Inl (BaselineKeptAdvancing ws eid))"
| "fold_and_commit rd clk env ws eid ops i (Suc n) st =
     (let baseline = baseline_of rd st ws in
      case rd_reduce rd baseline ops of
        Inl e \<Rightarrow> (st, Inl (ReducerRaised e))
      | Inr reduction \<Rightarrow>
          (let st1 = env i st in
           case commit_epoch_reduction clk ws eid (cs_families (er_state reduction))
                  (Some (cs_workspace_revision baseline)) st1 of
             Inl e \<Rightarrow>
               if is_stale e then fold_and_commit rd clk env ws eid ops (Suc i) n st1
               else (st1, Inl (StoreRaised e))
           | Inr (st2, committed) \<Rightarrow> (st2, Inr (reduction, committed))))"

definition MAX_COMMIT_ATTEMPTS :: nat where
  "MAX_COMMIT_ATTEMPTS = 3"

fun strictly_increasing :: "int list \<Rightarrow> bool" where
  "strictly_increasing (a # b # xs) \<longleftrightarrow> a < b \<and> strictly_increasing (b # xs)"
| "strictly_increasing _ \<longleftrightarrow> True"

section \<open>The close pipeline\<close>

type_synonym close_result = "store \<times> (close_error + epoch_event option)"

definition close_first_time ::
  "reducer_ops \<Rightarrow> clock \<Rightarrow> (nat \<Rightarrow> store \<Rightarrow> store) \<Rightarrow> string \<Rightarrow> int \<Rightarrow> store \<Rightarrow> close_result" where
  "close_first_time rd clk env ws eid st =
     (let operations = operations_for_epoch st ws eid in
      if \<not> strictly_increasing (map op_server_sequence operations) then (st, Inl (OutOfOrder ws eid))
      else case operations of
             [] \<Rightarrow> (st, Inr None)
           | oldest # _ \<Rightarrow>
               (case parse_stamp (op_accepted_at oldest) of
                  Inl e \<Rightarrow> (st, Inl (BadStamp e))
                | Inr _ \<Rightarrow>
                    (case fold_and_commit rd clk env ws eid (map operation_from_record operations) 2
                            MAX_COMMIT_ATTEMPTS st of
                       (st1, Inl e) \<Rightarrow> (st1, Inl e)
                     | (st1, Inr (_, None)) \<Rightarrow> (st1, Inr None)
                     | (st1, Inr (reduction, Some _)) \<Rightarrow>
                         (let st2 = env 5 st1 in
                          case get_epoch st2 ws eid of
                            None \<Rightarrow> (st2, Inl (MissingRevision ws eid))
                          | Some epoch \<Rightarrow>
                              if ep_workspace_revision epoch = None
                              then (st2, Inl (MissingRevision ws eid))
                              else (st2, map_sum id Some
                                     (publish_event st2 ws epoch (Some operations)
                                       (Some (map conflict_body (re_conflicts (er_reduced reduction))))))))))"

text \<open>The mark of an epoch read as open; the status string is legal, so the store never refuses it.\<close>

definition mark_closed :: "clock \<Rightarrow> string \<Rightarrow> int \<Rightarrow> store \<Rightarrow> store" where
  "mark_closed clk ws eid st =
     (case mark_epoch_status clk ws eid ''closed'' None st of Inr (st', _) \<Rightarrow> st' | Inl _ \<Rightarrow> st)"

definition drive_epoch ::
  "reducer_ops \<Rightarrow> clock \<Rightarrow> (nat \<Rightarrow> store \<Rightarrow> store) \<Rightarrow> string \<Rightarrow> int \<Rightarrow> epoch_record \<Rightarrow> store \<Rightarrow> close_result" where
  "drive_epoch rd clk env ws eid epoch st =
     (if ep_workspace_revision epoch \<noteq> None
      then (st, map_sum id Some (publish_event st ws epoch None None))
      else close_first_time rd clk env ws eid (env 1 st))"

definition close_epoch ::
  "reducer_ops \<Rightarrow> clock \<Rightarrow> (nat \<Rightarrow> store \<Rightarrow> store) \<Rightarrow> string \<Rightarrow> int \<Rightarrow> store \<Rightarrow> close_result" where
  "close_epoch rd clk env ws eid st =
     (case get_epoch st ws eid of
        None \<Rightarrow> (st, Inr None)
      | Some epoch \<Rightarrow>
          if ep_status epoch \<in> set TERMINAL_EPOCH_STATUSES then (st, Inr None)
          else if ep_status epoch = ''open'' then
            (let st1 = mark_closed clk ws eid (env 0 st) in
             case get_epoch st1 ws eid of
               None \<Rightarrow> (st1, Inr None)
             | Some epoch1 \<Rightarrow> drive_epoch rd clk env ws eid epoch1 st1)
          else drive_epoch rd clk env ws eid epoch st)"

section \<open>Cadence\<close>

definition EPOCH_TICK_MIN_MS :: rat where "EPOCH_TICK_MIN_MS = 50"
definition EPOCH_TICK_MAX_MS :: rat where "EPOCH_TICK_MAX_MS = 200"
definition DEFAULT_TICK_MS :: rat where "DEFAULT_TICK_MS = 100"

text \<open>The hint is \<^const>\<open>None\<close> when there is none, when it returns \<open>None\<close> and when it raises.\<close>

definition window_ms :: "rat \<Rightarrow> rat option \<Rightarrow> rat" where
  "window_ms tick hint =
     (case hint of Some h \<Rightarrow> min (max h EPOCH_TICK_MIN_MS) EPOCH_TICK_MAX_MS | None \<Rightarrow> tick)"

text \<open>The tolerance is a nanosecond.\<close>

definition epoch_due :: "rat \<Rightarrow> int \<Rightarrow> epoch_record \<Rightarrow> bool" where
  "epoch_due window now epoch =
     (case parse_stamp (ep_opened_at epoch) of
        Inl _ \<Rightarrow> True
      | Inr opened \<Rightarrow> window - 1 / 1000000 \<le> of_int (now - opened))"

section \<open>Driving\<close>

type_synonym drive_state = "store \<times> (string \<times> int) list"

definition drive_one ::
  "reducer_ops \<Rightarrow> clock \<Rightarrow> (string \<Rightarrow> int \<Rightarrow> nat \<Rightarrow> store \<Rightarrow> store) \<Rightarrow> string \<times> int \<Rightarrow> drive_state \<Rightarrow> drive_state" where
  "drive_one rd clk env key s =
     (case s of (st, driven) \<Rightarrow>
        case close_epoch rd clk (env (fst key) (snd key)) (fst key) (snd key) st of
          (st', Inl _) \<Rightarrow> (st', driven)
        | (st', Inr _) \<Rightarrow> (st', driven @ [key]))"

definition epoch_key :: "epoch_record \<Rightarrow> string \<times> int" where
  "epoch_key e = (ep_workspace_id e, ep_epoch_id e)"

definition stranded :: "epoch_record \<Rightarrow> bool" where
  "stranded e \<longleftrightarrow> ep_status e \<noteq> ''open'' \<and> ep_workspace_revision e = None"

definition drive_workspace ::
  "reducer_ops \<Rightarrow> clock \<Rightarrow> (string \<Rightarrow> int \<Rightarrow> nat \<Rightarrow> store \<Rightarrow> store) \<Rightarrow> (epoch_record \<Rightarrow> bool) \<Rightarrow> string
   \<Rightarrow> drive_state \<Rightarrow> drive_state" where
  "drive_workspace rd clk env due ws s =
     fold (drive_one rd clk env)
       (map (\<lambda>e. (ws, ep_epoch_id e)) (filter due (open_epochs (fst s) ws))) s"

definition run_once ::
  "reducer_ops \<Rightarrow> clock \<Rightarrow> (string \<Rightarrow> int \<Rightarrow> nat \<Rightarrow> store \<Rightarrow> store) \<Rightarrow> (epoch_record \<Rightarrow> bool) \<Rightarrow> store
   \<Rightarrow> drive_state" where
  "run_once rd clk env due st =
     (let s = fold (drive_one rd clk env) (map epoch_key (filter stranded (recoverable_epochs st))) (st, [])
      in fold (drive_workspace rd clk env due) (open_epoch_workspaces (fst s)) s)"

definition recover_one ::
  "reducer_ops \<Rightarrow> clock \<Rightarrow> (string \<Rightarrow> int \<Rightarrow> nat \<Rightarrow> store \<Rightarrow> store) \<Rightarrow> string \<times> int \<Rightarrow> drive_state \<Rightarrow> drive_state" where
  "recover_one rd clk env key s =
     (case s of (st, driven) \<Rightarrow>
        case close_epoch rd clk (env (fst key) (snd key)) (fst key) (snd key) st of
          (st', Inr (Some _)) \<Rightarrow> (st', driven @ [key])
        | (st', _) \<Rightarrow> (st', driven))"

definition recover ::
  "reducer_ops \<Rightarrow> clock \<Rightarrow> (string \<Rightarrow> int \<Rightarrow> nat \<Rightarrow> store \<Rightarrow> store) \<Rightarrow> store \<Rightarrow> drive_state" where
  "recover rd clk env st =
     fold (recover_one rd clk env)
       (map epoch_key (filter (\<lambda>e. ep_status e \<noteq> ''open'') (recoverable_epochs st))) (st, [])"

end
