(* ===== verification/Epochs_Laws.thy ===== *)
theory Epochs_Laws
  imports Epochs
begin

text \<open>
  The canonical states are the fold of the operation log. The invariant says, for every epoch that
  carries a revision, that the state pinned at this revision is the reduction of exactly the
  epoch's operations against the state pinned just before it. The close pipeline keeps it while
  other drivers step the store between any two of its calls, as long as they keep it themselves
  and only append canonical states and leave closed epochs alone; and the pipeline is itself such
  a driver.
\<close>

section \<open>The newest canonical state\<close>

lemma foldr_max_Max: "foldr max xs x = Max (set (x # xs))" for x :: int
  by (induction xs) (simp_all add: insert_commute [of x] Max_insert [symmetric] del: Max_insert)

lemma max_canonical_Max:
  "canonical_of st ws \<noteq> [] \<Longrightarrow> max_canonical st ws = Max (cs_workspace_revision ` set (canonical_of st ws))"
  by (cases "canonical_of st ws") (simp_all add: max_canonical_def foldr_max_Max)

lemma hd_sort_key_least:
  fixes k :: "'a \<Rightarrow> 'b::linorder"
  assumes "sort_key k xs = y # ys" shows "y \<in> set xs" "\<And>x. x \<in> set xs \<Longrightarrow> k y \<le> k x"
proof -
  have s: "set xs = insert y (set ys)" using arg_cong [OF assms, of set] by simp
  show "y \<in> set xs" using s by simp
  have "sorted (map k (y # ys))" using sorted_sort_key [of k xs] assms by simp
  then show "k y \<le> k x" if "x \<in> set xs" for x using that s by auto
qed

text \<open>The newest row below a revision, and the state the reducer was given for it.\<close>

definition rows_before :: "store \<Rightarrow> string \<Rightarrow> int \<Rightarrow> canonical_row list" where
  "rows_before st ws v = filter (\<lambda>r. cs_workspace_revision r < v) (canonical_of st ws)"

definition newest_of :: "reducer_ops \<Rightarrow> string \<Rightarrow> canonical_row list \<Rightarrow> canonical_state" where
  "newest_of rd ws rows =
     (case order_by (\<lambda>r. - cs_workspace_revision r) rows of
        [] \<Rightarrow> rd_initial rd ws | r # _ \<Rightarrow> canonical_state.truncate r)"

lemma baseline_newest: "baseline_of rd st ws = newest_of rd ws (canonical_of st ws)"
  by (simp add: baseline_of_def newest_of_def latest_canonical_state_def latest_canonical_row_def
      split: list.split)

lemma newest_of_revision:
  assumes "rows \<noteq> []"
  shows "cs_workspace_revision (newest_of rd ws rows) = Max (cs_workspace_revision ` set rows)"
proof -
  obtain y ys where s: "order_by (\<lambda>r. - cs_workspace_revision r) rows = y # ys"
    using assms by (cases "order_by (\<lambda>r. - cs_workspace_revision r) rows")
      (auto dest: arg_cong [of _ _ length])
  note h = hd_sort_key_least [OF s]
  have "Max (cs_workspace_revision ` set rows) = cs_workspace_revision y"
    using h by (intro Max_eqI) auto
  then show ?thesis by (simp add: newest_of_def s canonical_state.truncate_def)
qed

section \<open>The invariant\<close>

definition chained :: "reducer_ops \<Rightarrow> store \<Rightarrow> string \<Rightarrow> int \<Rightarrow> int \<Rightarrow> bool" where
  "chained rd st ws eid v \<longleftrightarrow>
     (\<exists>red. rd_reduce rd (newest_of rd ws (rows_before st ws v))
              (map operation_from_record (operations_for_epoch st ws eid)) = Inr red \<and>
        canonical_state_at st ws v =
          Some \<lparr>cs_workspace_id = ws, cs_workspace_revision = v, cs_families = cs_families (er_state red)\<rparr>)"

definition chain_ok :: "reducer_ops \<Rightarrow> store \<Rightarrow> bool" where
  "chain_ok rd st \<longleftrightarrow>
     (\<forall>e\<in>set (tb_epochs st). \<forall>v. ep_workspace_revision e = Some v \<longrightarrow>
        ep_status e \<noteq> ''open'' \<and> chained rd st (ep_workspace_id e) (ep_epoch_id e) v)"

definition log_ok :: "reducer_ops \<Rightarrow> store \<Rightarrow> bool" where
  "log_ok rd st \<longleftrightarrow> ledger_ok st \<and> versions_ok st \<and> chain_ok rd st"

definition canon_grows :: "store \<Rightarrow> store \<Rightarrow> bool" where
  "canon_grows st st' \<longleftrightarrow>
     (\<exists>new. tb_canonical st' = tb_canonical st @ new \<and>
        (\<forall>r\<in>set new. 1 \<le> cs_workspace_revision r \<and>
           (\<forall>x\<in>set (canonical_of st (cs_workspace_id r)). cs_workspace_revision x < cs_workspace_revision r)))"

definition epoch_kept :: "store \<Rightarrow> store \<Rightarrow> string \<Rightarrow> int \<Rightarrow> epoch_record \<Rightarrow> epoch_record \<Rightarrow> bool" where
  "epoch_kept st st' ws eid e e' \<longleftrightarrow>
     get_epoch st' ws eid = Some e' \<and> ep_status e' \<noteq> ''open'' \<and>
     (ep_workspace_revision e \<noteq> None \<longrightarrow> ep_workspace_revision e' = ep_workspace_revision e) \<and>
     operations_for_epoch st' ws eid = operations_for_epoch st ws eid"

definition epochs_grow :: "store \<Rightarrow> store \<Rightarrow> bool" where
  "epochs_grow st st' \<longleftrightarrow>
     (\<forall>ws eid e. get_epoch st ws eid = Some e \<and> ep_status e \<noteq> ''open'' \<longrightarrow> (\<exists>e'. epoch_kept st st' ws eid e e'))"

text \<open>What one driver may do to the store while another one is in the middle of its pipeline.\<close>

definition log_grows :: "store \<Rightarrow> store \<Rightarrow> bool" where
  "log_grows st st' \<longleftrightarrow> canon_grows st st' \<and> epochs_grow st st'"

definition polite :: "reducer_ops \<Rightarrow> (nat \<Rightarrow> store \<Rightarrow> store) \<Rightarrow> bool" where
  "polite rd env \<longleftrightarrow> (\<forall>i st. log_ok rd st \<longrightarrow> log_ok rd (env i st) \<and> log_grows st (env i st))"

lemma canonical_of_append:
  "tb_canonical st' = tb_canonical st @ new \<Longrightarrow>
   canonical_of st' ws = canonical_of st ws @ filter (\<lambda>r. cs_workspace_id r = ws) new"
  by (simp add: canonical_of_def)

lemma canon_grows_refl: "canon_grows st st"
  by (simp add: canon_grows_def)

lemma canon_grows_same: "tb_canonical st' = tb_canonical st \<Longrightarrow> canon_grows st st'"
  by (simp add: canon_grows_def)

lemma canon_grows_trans:
  assumes "canon_grows a b" "canon_grows b c" shows "canon_grows a c"
proof -
  obtain n1 where 1: "tb_canonical b = tb_canonical a @ n1"
    "\<forall>r\<in>set n1. 1 \<le> cs_workspace_revision r \<and>
       (\<forall>x\<in>set (canonical_of a (cs_workspace_id r)). cs_workspace_revision x < cs_workspace_revision r)"
    using assms(1) by (auto simp: canon_grows_def)
  obtain n2 where 2: "tb_canonical c = tb_canonical b @ n2"
    "\<forall>r\<in>set n2. 1 \<le> cs_workspace_revision r \<and>
       (\<forall>x\<in>set (canonical_of b (cs_workspace_id r)). cs_workspace_revision x < cs_workspace_revision r)"
    using assms(2) by (auto simp: canon_grows_def)
  have "tb_canonical c = tb_canonical a @ (n1 @ n2)" using 1(1) 2(1) by simp
  moreover have "set (canonical_of a ws) \<subseteq> set (canonical_of b ws)" for ws
    using canonical_of_append [OF 1(1)] by auto
  then have "\<forall>r\<in>set (n1 @ n2). 1 \<le> cs_workspace_revision r \<and>
      (\<forall>x\<in>set (canonical_of a (cs_workspace_id r)). cs_workspace_revision x < cs_workspace_revision r)"
    using 1(2) 2(2) by (simp add: ball_Un) blast
  ultimately show ?thesis unfolding canon_grows_def by blast
qed

lemma epochs_grow_refl: "epochs_grow st st"
  by (simp add: epochs_grow_def epoch_kept_def)

lemma epoch_kept_trans: "epoch_kept a b ws eid e e1 \<Longrightarrow> epoch_kept b c ws eid e1 e2 \<Longrightarrow> epoch_kept a c ws eid e e2"
  by (auto simp: epoch_kept_def)

lemma epochs_grow_trans: "epochs_grow a b \<Longrightarrow> epochs_grow b c \<Longrightarrow> epochs_grow a c"
  unfolding epochs_grow_def
proof (intro allI impI)
  fix ws eid e
  assume ab: "\<forall>ws eid e. get_epoch a ws eid = Some e \<and> ep_status e \<noteq> ''open'' \<longrightarrow> (\<exists>e'. epoch_kept a b ws eid e e')"
    and bc: "\<forall>ws eid e. get_epoch b ws eid = Some e \<and> ep_status e \<noteq> ''open'' \<longrightarrow> (\<exists>e'. epoch_kept b c ws eid e e')"
    and e: "get_epoch a ws eid = Some e \<and> ep_status e \<noteq> ''open''"
  from ab e obtain e1 where 1: "epoch_kept a b ws eid e e1" by blast
  then have "get_epoch b ws eid = Some e1 \<and> ep_status e1 \<noteq> ''open''" by (simp add: epoch_kept_def)
  with bc obtain e2 where "epoch_kept b c ws eid e1 e2" by blast
  then show "\<exists>e'. epoch_kept a c ws eid e e'" using epoch_kept_trans [OF 1] by blast
qed

lemma log_grows_refl: "log_grows st st"
  by (simp add: log_grows_def canon_grows_refl epochs_grow_refl)

lemma log_grows_trans: "log_grows a b \<Longrightarrow> log_grows b c \<Longrightarrow> log_grows a c"
  using canon_grows_trans epochs_grow_trans unfolding log_grows_def by blast

lemma polite_env: "polite rd env \<Longrightarrow> log_ok rd st \<Longrightarrow> log_ok rd (env i st) \<and> log_grows st (env i st)"
  by (simp add: polite_def)

text \<open>A pinned state and its predecessor stay what they are when later states are appended.\<close>

lemma chained_mono:
  assumes c: "chained rd st ws eid v" and g: "canon_grows st st'"
    and ops: "operations_for_epoch st' ws eid = operations_for_epoch st ws eid"
  shows "chained rd st' ws eid v"
proof -
  obtain new where new: "tb_canonical st' = tb_canonical st @ new"
    "\<forall>r\<in>set new. 1 \<le> cs_workspace_revision r \<and>
       (\<forall>x\<in>set (canonical_of st (cs_workspace_id r)). cs_workspace_revision x < cs_workspace_revision r)"
    using g by (auto simp: canon_grows_def)
  obtain red where red: "rd_reduce rd (newest_of rd ws (rows_before st ws v))
      (map operation_from_record (operations_for_epoch st ws eid)) = Inr red"
    and at: "canonical_state_at st ws v =
      Some \<lparr>cs_workspace_id = ws, cs_workspace_revision = v, cs_families = cs_families (er_state red)\<rparr>"
    using c by (auto simp: chained_def)
  obtain x where x: "find_canonical st ws v = Some x" using at by (auto simp: canonical_state_at_def)
  have in_x: "x \<in> set (canonical_of st ws)" "cs_workspace_revision x = v"
    using find_Some_in [OF x [unfolded find_canonical_def]] by (auto simp: canonical_of_def)
  have "find_canonical st' ws v = Some x"
    using find_append [OF x [unfolded find_canonical_def]] by (simp add: find_canonical_def new(1))
  then have "canonical_state_at st' ws v = canonical_state_at st ws v" by (simp add: canonical_state_at_def x)
  moreover have "filter (\<lambda>r. cs_workspace_revision r < v) (filter (\<lambda>r. cs_workspace_id r = ws) new) = []"
    using new(2) in_x by (fastforce simp: filter_empty_conv)
  then have "rows_before st' ws v = rows_before st ws v"
    by (simp add: rows_before_def canonical_of_append [OF new(1)])
  ultimately show ?thesis using red at ops by (simp add: chained_def)
qed

lemma log_ok_assigned:
  assumes "log_ok rd st" "get_epoch st ws eid = Some e" "ep_workspace_revision e = Some v"
  shows "ep_status e \<noteq> ''open'' \<and> chained rd st ws eid v"
  using assms find_Some_in [OF assms(2) [unfolded get_epoch_def]]
  unfolding log_ok_def chain_ok_def by blast

text \<open>The growth of the log keeps what is already chained; only newly assigned epochs remain.\<close>

lemma chain_ok_grow:
  assumes ok: "log_ok rd st" and g: "log_grows st st'" and inv': "ledger_ok st'" "versions_ok st'"
    and new: "\<And>e v. e \<in> set (tb_epochs st') \<Longrightarrow> ep_workspace_revision e = Some v \<Longrightarrow>
      (\<exists>x. get_epoch st (ep_workspace_id e) (ep_epoch_id e) = Some x \<and> ep_workspace_revision x = Some v) \<or>
      (ep_status e \<noteq> ''open'' \<and> chained rd st' (ep_workspace_id e) (ep_epoch_id e) v)"
  shows "log_ok rd st'"
proof -
  have "ep_status e \<noteq> ''open'' \<and> chained rd st' (ep_workspace_id e) (ep_epoch_id e) v"
    if e: "e \<in> set (tb_epochs st')" "ep_workspace_revision e = Some v" for e v
    using new [OF e]
  proof
    assume "\<exists>x. get_epoch st (ep_workspace_id e) (ep_epoch_id e) = Some x \<and> ep_workspace_revision x = Some v"
    then obtain x where x: "get_epoch st (ep_workspace_id e) (ep_epoch_id e) = Some x" "ep_workspace_revision x = Some v"
      by blast
    note a = log_ok_assigned [OF ok x]
    obtain e' where e': "epoch_kept st st' (ep_workspace_id e) (ep_epoch_id e) x e'"
      using g x(1) a unfolding log_grows_def epochs_grow_def by blast
    have "e = e'" by (rule get_epoch_unique [OF inv'(1) _ e(1)]) (use e' in \<open>simp_all add: epoch_kept_def\<close>)
    then show ?thesis using a e' chained_mono g by (auto simp: log_grows_def epoch_kept_def)
  qed
  then show ?thesis using inv' by (simp add: log_ok_def chain_ok_def)
qed

end
