(* ===== verification/Epochs_Close.thy ===== *)
theory Epochs_Close
  imports Epochs_Laws
begin

text \<open>
  The close pipeline against the log invariant, step by step: the closed mark, accepting more
  operations meanwhile, the commit under the baseline guard, the retries, and the published event.
\<close>

section \<open>Single steps on the log\<close>

lemma get_epoch_mem:
  "ledger_ok st \<Longrightarrow> e \<in> set (tb_epochs st) \<Longrightarrow> get_epoch st (ep_workspace_id e) (ep_epoch_id e) = Some e"
  by (subst get_epoch_iff) (auto simp: ledger_ok_def epochs_of_def)

lemma get_epoch_key: "get_epoch st ws eid = Some e \<Longrightarrow> ep_workspace_id e = ws \<and> ep_epoch_id e = eid \<and> e \<in> set (tb_epochs st)"
  unfolding get_epoch_def by (auto dest: find_Some_in)

lemma operations_for_epoch_cong:
  "tb_operations st' = tb_operations st \<Longrightarrow> operations_for_epoch st' ws eid = operations_for_epoch st ws eid"
  by (simp add: operations_for_epoch_def operations_of_def)

lemma append_log:
  assumes ok: "log_ok rd st" and a: "append_operations clk ws items st = Inr (st', records)"
  shows "log_ok rd st' \<and> log_grows st st'"
proof -
  have led: "ledger_ok st" "versions_ok st" using ok by (simp_all add: log_ok_def)
  obtain sequence epoch where f: "fold_exc (append_item (clk 0) ws) (st, max_sequence st ws, None, []) items =
       Inr (st', sequence, epoch, records)" using append_operationsE [OF a] by blast
  have rel: "append_rel ws st st'" using append_fold_settles [OF f batch_start [OF led(1)]] by blast
  have led': "ledger_ok st'" "versions_ok st'" "tb_canonical st' = tb_canonical st"
    using append_operations_ledger [OF led(1) a] append_operations_versions [OF led(2) a] by simp_all
  have kept: "\<exists>e'. epoch_kept st st' w eid e e'" if "get_epoch st w eid = Some e \<and> ep_status e \<noteq> ''open''" for w eid e
  proof -
    have "get_epoch st' w eid = Some e" "epoch_ops st' w eid = epoch_ops st w eid"
      using rel that unfolding append_rel_def by metis+
    then have "epoch_kept st st' w eid e e"
      using that by (simp add: epoch_kept_def operations_for_epoch_def epoch_ops_def)
    then show ?thesis by blast
  qed
  have g: "log_grows st st'"
    using kept canon_grows_same [OF led'(3)] by (simp add: log_grows_def epochs_grow_def)
  moreover have "log_ok rd st'"
  proof (rule chain_ok_grow [OF ok g led'(1,2)], rule disjI1)
    fix e v assume e: "e \<in> set (tb_epochs st')" "ep_workspace_revision e = Some v"
    have "revisions_from st st'" using append_operations_planes(1) [OF a] .
    then obtain x where x: "x \<in> set (tb_epochs st)" "ep_workspace_id x = ep_workspace_id e"
      "ep_epoch_id x = ep_epoch_id e" "ep_workspace_revision x = Some v"
      using e unfolding revisions_from_def by (metis option.distinct(1))
    then show "\<exists>x. get_epoch st (ep_workspace_id e) (ep_epoch_id e) = Some x \<and> ep_workspace_revision x = Some v"
      using get_epoch_mem [OF led(1) x(1)] by auto
  qed
  ultimately show ?thesis by simp
qed

lemma mark_closed_eq: "\<exists>t. mark_closed clk ws eid st = update_epoch ws eid (mark_row t ''closed'' None) st"
  by (auto simp: mark_closed_def mark_epoch_status_def EpochStatus_def)

lemma mark_closed_log:
  assumes ok: "log_ok rd st"
  shows "log_ok rd (mark_closed clk ws eid st) \<and> log_grows st (mark_closed clk ws eid st)"
proof -
  let ?st' = "mark_closed clk ws eid st"
  have led: "ledger_ok st" "versions_ok st" using ok by (simp_all add: log_ok_def)
  obtain t where st': "?st' = update_epoch ws eid (mark_row t ''closed'' None) st" using mark_closed_eq by blast
  have "mark_epoch_status clk ws eid ''closed'' None st = Inr (?st', get_epoch st ws eid \<noteq> None)"
    by (simp add: mark_closed_def mark_epoch_status_def EpochStatus_def)
  then have led': "ledger_ok ?st'" "versions_ok ?st'"
    using mark_epoch_status_ok [OF led, of ws eid "''closed''" None] by (auto simp: legal_mark_def)
  have get: "get_epoch ?st' w x = (if w = ws \<and> x = eid then map_option (mark_row t ''closed'' None) (get_epoch st w x)
      else get_epoch st w x)" for w x
    unfolding st' by (rule get_epoch_update) simp_all
  have ops: "operations_for_epoch ?st' w x = operations_for_epoch st w x" for w x
    by (rule operations_for_epoch_cong) (simp add: st' update_epoch_def)
  have "\<exists>e'. epoch_kept st ?st' w x e e'" if "get_epoch st w x = Some e \<and> ep_status e \<noteq> ''open''" for w x e
    using that by (auto simp: epoch_kept_def get ops coalesce_def)
  moreover have "canon_grows st ?st'" by (rule canon_grows_same) (simp add: st' update_epoch_def)
  ultimately have g: "log_grows st ?st'" by (simp add: log_grows_def epochs_grow_def)
  have "log_ok rd ?st'"
  proof (rule chain_ok_grow [OF ok g led'], rule disjI1)
    fix e v assume e: "e \<in> set (tb_epochs ?st')" "ep_workspace_revision e = Some v"
    have "get_epoch ?st' (ep_workspace_id e) (ep_epoch_id e) = Some e" using get_epoch_mem [OF led'(1) e(1)] .
    then show "\<exists>x. get_epoch st (ep_workspace_id e) (ep_epoch_id e) = Some x \<and> ep_workspace_revision x = Some v"
      using e(2) by (auto simp: get coalesce_def split: if_splits)
  qed
  then show ?thesis using g by simp
qed

section \<open>Committing under the baseline guard\<close>

lemma baseline_unchanged:
  assumes g: "canon_grows st st1" and init: "cs_workspace_revision (rd_initial rd ws) = 0"
    and m: "max_canonical st1 ws = cs_workspace_revision (baseline_of rd st ws)"
  shows "canonical_of st1 ws = canonical_of st ws"
proof (rule ccontr)
  assume ne: "canonical_of st1 ws \<noteq> canonical_of st ws"
  obtain new where new: "tb_canonical st1 = tb_canonical st @ new"
    "\<forall>r\<in>set new. 1 \<le> cs_workspace_revision r \<and>
       (\<forall>x\<in>set (canonical_of st (cs_workspace_id r)). cs_workspace_revision x < cs_workspace_revision r)"
    using g by (auto simp: canon_grows_def)
  obtain r where r: "r \<in> set new" "cs_workspace_id r = ws"
    using ne canonical_of_append [OF new(1), of ws] by (auto simp: filter_empty_conv)
  have in1: "r \<in> set (canonical_of st1 ws)" using r canonical_of_append [OF new(1), of ws] by simp
  then have "cs_workspace_revision r \<le> max_canonical st1 ws"
    by (subst max_canonical_Max) (auto intro: Max_ge)
  moreover have "cs_workspace_revision (baseline_of rd st ws) < cs_workspace_revision r"
  proof (cases "canonical_of st ws = []")
    case True
    then show ?thesis using bspec [OF new(2) r(1)] init by (simp add: baseline_newest newest_of_def)
  next
    case False
    then have "Max (cs_workspace_revision ` set (canonical_of st ws)) < cs_workspace_revision r"
      using new(2) r by (subst Max_less_iff) auto
    then show ?thesis using newest_of_revision [OF False] by (simp add: baseline_newest)
  qed
  ultimately show False using m by simp
qed

lemma committed_get_epoch:
  "get_epoch (committed_store t ws eid fams v st) w x =
     (if w = ws \<and> x = eid then map_option (assign_revision t v) (get_epoch st w x) else get_epoch st w x)"
  unfolding committed_store_def
  by (subst get_epoch_update) (simp_all add: get_epoch_def update_scenario_def)

lemma committed_log:
  assumes ok: "log_ok rd st" and e: "get_epoch st ws eid = Some e" "ep_workspace_revision e = None"
      "ep_status e \<noteq> ''open''"
    and r: "get_scenario st ws = Some r" and fresh: "(ws, sc_scene_version r + 1) \<notin> canonical_keys st"
    and red: "rd_reduce rd (newest_of rd ws (canonical_of st ws))
      (map operation_from_record (operations_for_epoch st ws eid)) = Inr red"
    and st': "st' = committed_store t ws eid (cs_families (er_state red)) (sc_scene_version r + 1) st"
  shows "log_ok rd st' \<and> log_grows st st'"
proof -
  let ?v = "sc_scene_version r + 1"
  let ?row = "make_canonical t ws ?v (cs_families (er_state red))"
  have led: "ledger_ok st" "versions_ok st" using ok by (simp_all add: log_ok_def)
  have led': "ledger_ok st'" "versions_ok st'"
    using committed_ledger [OF led(1)] committed_versions [OF led e(1,2) r fresh] by (simp_all add: st')
  have rows: "tb_canonical st' = tb_canonical st @ [?row]" by (simp add: st' committed_store_frame)
  have below: "cs_workspace_revision x < ?v" if x: "x \<in> set (canonical_of st ws)" for x
  proof -
    have "bounded_by_scene st ws (cs_workspace_revision x)"
      using x led(2) unfolding versions_ok_def canonical_rows_ok_def canonical_of_def by auto
    then show ?thesis using r by (simp add: bounded_by_scene_def scene_of_def)
  qed
  have pos: "1 \<le> ?v" using scenarios_ok_row [OF _ r] led(2) by (auto simp: versions_ok_def row_ok_def)
  have cg: "canon_grows st st'"
    unfolding canon_grows_def by (rule exI [of _ "[?row]"]) (use rows below pos in \<open>simp add: make_canonical_def\<close>)
  have ops: "operations_for_epoch st' w x = operations_for_epoch st w x" for w x
    by (rule operations_for_epoch_cong) (simp add: st' committed_store_frame)
  have get: "get_epoch st' w x = (if w = ws \<and> x = eid then map_option (assign_revision t ?v) (get_epoch st w x)
      else get_epoch st w x)" for w x unfolding st' by (rule committed_get_epoch)
  have "\<exists>e'. epoch_kept st st' w x y e'" if "get_epoch st w x = Some y \<and> ep_status y \<noteq> ''open''" for w x y
    using that e by (auto simp: epoch_kept_def get ops)
  then have g: "log_grows st st'" using cg by (simp add: log_grows_def epochs_grow_def)
  have "canonical_of st' ws = canonical_of st ws @ [?row]"
    using canonical_of_append [OF rows, of ws] by (simp add: make_canonical_def)
  then have before: "rows_before st' ws ?v = canonical_of st ws"
    using below by (auto simp: rows_before_def make_canonical_def intro: filter_True)
  have ch: "chained rd st' ws eid ?v"
    unfolding chained_def before ops using red committed_row [OF fresh] by (auto simp: st')
  have "log_ok rd st'"
  proof (rule chain_ok_grow [OF ok g led'])
    fix x w assume x: "x \<in> set (tb_epochs st')" "ep_workspace_revision x = Some w"
    have gx: "get_epoch st' (ep_workspace_id x) (ep_epoch_id x) = Some x" using get_epoch_mem [OF led'(1) x(1)] .
    show "(\<exists>y. get_epoch st (ep_workspace_id x) (ep_epoch_id x) = Some y \<and> ep_workspace_revision y = Some w) \<or>
      ep_status x \<noteq> ''open'' \<and> chained rd st' (ep_workspace_id x) (ep_epoch_id x) w"
    proof (cases "ep_workspace_id x = ws \<and> ep_epoch_id x = eid")
      case True
      then have "x = assign_revision t ?v e" using gx e(1) by (simp add: get)
      then show ?thesis using True x(2) ch e(3) by auto
    next
      case False
      then show ?thesis using gx x(2) unfolding get by auto
    qed
  qed
  then show ?thesis using g by simp
qed

section \<open>Retries\<close>

definition assigned_to :: "store \<Rightarrow> string \<Rightarrow> int \<Rightarrow> int \<Rightarrow> bool" where
  "assigned_to st ws eid v \<longleftrightarrow> (\<exists>e. get_epoch st ws eid = Some e \<and> ep_workspace_revision e = Some v)"

text \<open>How a fold can end: with a revision, with nothing to commit to, or with an error that is not
  one of the tripwires.\<close>

definition fold_outcome_ok ::
  "store \<Rightarrow> string \<Rightarrow> int \<Rightarrow> close_error + epoch_reduction \<times> committed_epoch option \<Rightarrow> bool" where
  "fold_outcome_ok st ws eid out \<longleftrightarrow>
     (case out of
        Inl e \<Rightarrow> (\<exists>x. e = ReducerRaised x) \<or> e = BaselineKeptAdvancing ws eid
      | Inr (_, None) \<Rightarrow> get_scenario st ws = None
      | Inr (_, Some c) \<Rightarrow> assigned_to st ws eid (ce_workspace_revision c))"

lemma kept_epochE:
  assumes "log_grows st st'" "get_epoch st ws eid = Some e" "ep_status e \<noteq> ''open''"
  obtains e' where "get_epoch st' ws eid = Some e'" "ep_status e' \<noteq> ''open''"
    "operations_for_epoch st' ws eid = operations_for_epoch st ws eid"
    "ep_workspace_revision e \<noteq> None \<Longrightarrow> ep_workspace_revision e' = ep_workspace_revision e"
  using assms unfolding log_grows_def epochs_grow_def epoch_kept_def by blast

lemma fold_and_commit_log:
  assumes "log_ok rd st" "polite rd env" "cs_workspace_revision (rd_initial rd ws) = 0"
    "get_epoch st ws eid = Some e" "ep_status e \<noteq> ''open''"
    "ops = map operation_from_record (operations_for_epoch st ws eid)"
    "fold_and_commit rd clk env ws eid ops i n st = (st', out)"
  shows "log_ok rd st' \<and> log_grows st st' \<and> fold_outcome_ok st' ws eid out"
  using assms(1,4,5,6,7)
proof (induction n arbitrary: st i e)
  case 0
  then show ?case by (auto simp: log_grows_refl fold_outcome_ok_def)
next
  case (Suc n)
  note polite = assms(2) and init = assms(3)
  show ?case
  proof (cases "rd_reduce rd (baseline_of rd st ws) ops")
    case (Inl x)
    then show ?thesis using Suc.prems by (auto simp: log_grows_refl fold_outcome_ok_def)
  next
    case (Inr red)
    define st1 where "st1 = env i st"
    have s1: "log_ok rd st1" "log_grows st st1" using polite_env [OF polite Suc.prems(1)] by (simp_all add: st1_def)
    obtain e1 where e1: "get_epoch st1 ws eid = Some e1" "ep_status e1 \<noteq> ''open''"
      "operations_for_epoch st1 ws eid = operations_for_epoch st ws eid"
      using kept_epochE [OF s1(2) Suc.prems(2,3)] by metis
    have v1: "versions_ok st1" using s1(1) by (simp add: log_ok_def)
    let ?c = "commit_epoch_reduction clk ws eid (cs_families (er_state red))
                  (Some (cs_workspace_revision (baseline_of rd st ws))) st1"
    have run: "(case ?c of Inl e \<Rightarrow> if is_stale e then fold_and_commit rd clk env ws eid ops (Suc i) n st1
               else (st1, Inl (StoreRaised e)) | Inr (st2, committed) \<Rightarrow> (st2, Inr (red, committed))) = (st', out)"
      unfolding st1_def using Suc.prems(5) Inr by (simp add: Let_def)
    from v1 show ?thesis
    proof (cases rule: commit_cases [of st1 ws eid clk "cs_families (er_state red)"
          "Some (cs_workspace_revision (baseline_of rd st ws))"])
      case absent
      then show ?thesis using e1 by simp
    next
      case (redrive e' v)
      then have "st' = st1" "out = Inr (red, Some \<lparr>ce_workspace_id = ws, ce_epoch_id = eid,
          ce_workspace_revision = v, ce_first_time = False\<rparr>)" using run by simp_all
      then show ?thesis using s1 redrive(1,2) by (auto simp: fold_outcome_ok_def assigned_to_def)
    next
      case no_scenario
      then have "st' = st1" "out = Inr (red, None)" using run by simp_all
      then show ?thesis using s1 no_scenario(1) by (simp add: fold_outcome_ok_def)
    next
      case (stale b)
      then have "fold_and_commit rd clk env ws eid ops (Suc i) n st1 = (st', out)" using run by simp
      then show ?thesis using Suc.IH [OF s1(1) e1(1,2)] Suc.prems(4) e1(3) log_grows_trans [OF s1(2)] by simp
    next
      case (first e' r)
      have same: "canonical_of st1 ws = canonical_of st ws"
        by (rule baseline_unchanged [OF _ init])
          (use s1(2) first(4) [OF refl] in \<open>simp_all add: log_grows_def\<close>)
      have st': "st' = committed_store (clk 0) ws eid (cs_families (er_state red)) (sc_scene_version r + 1) st1"
        "out = Inr (red, Some \<lparr>ce_workspace_id = ws, ce_epoch_id = eid,
          ce_workspace_revision = sc_scene_version r + 1, ce_first_time = True\<rparr>)"
        using run first(6) by simp_all
      have "rd_reduce rd (newest_of rd ws (canonical_of st1 ws))
          (map operation_from_record (operations_for_epoch st1 ws eid)) = Inr red"
        using Inr Suc.prems(4) e1(3) same by (simp add: baseline_newest)
      moreover have "ep_status e' \<noteq> ''open''" using e1 first(1) by simp
      ultimately have "log_ok rd st' \<and> log_grows st1 st'"
        using committed_log [OF s1(1) first(1,2) _ first(3,5)] st'(1) by blast
      moreover have "assigned_to st' ws eid (sc_scene_version r + 1)"
        using first(1) by (simp add: assigned_to_def st'(1) committed_get_epoch)
      ultimately show ?thesis using log_grows_trans [OF s1(2)] st'(2) by (simp add: fold_outcome_ok_def)
    qed
  qed
qed

section \<open>The published event\<close>

definition event_ok :: "reducer_ops \<Rightarrow> store \<Rightarrow> string \<Rightarrow> int \<Rightarrow> epoch_event \<Rightarrow> bool" where
  "event_ok rd st ws eid ev \<longleftrightarrow>
     ee_workspace_id ev = ws \<and> ee_epoch_id ev = eid \<and>
     ee_operations ev = map operation_body (operations_for_epoch st ws eid) \<and>
     assigned_to st ws eid (ee_workspace_revision ev) \<and> chained rd st ws eid (ee_workspace_revision ev)"

lemma body_ids: "map op_operation_id (map operation_body ops) = map op_operation_id ops"
  by (simp add: comp_def)

lemma publish_event_ok:
  assumes ok: "log_ok rd st" and e: "get_epoch st ws eid = Some e" "ep_workspace_revision e = Some v"
    and ops: "operations = None \<or> operations = Some (operations_for_epoch st ws eid)"
  shows "\<exists>ev. publish_event st ws e operations conflicts = Inr ev \<and> event_ok rd st ws eid ev"
proof -
  have k: "ep_epoch_id e = eid" using get_epoch_key [OF e(1)] by simp
  have "chained rd st ws eid v" using log_ok_assigned [OF ok e] by simp
  moreover have "assigned_to st ws eid v" using e by (simp add: assigned_to_def)
  ultimately show ?thesis
    using ops e(2) k by (auto simp: publish_event_def Let_def event_ok_def image_image)
qed

lemma strictly_increasing_sorted: "strictly_increasing xs = sorted_wrt (<) xs"
  by (induction xs rule: strictly_increasing.induct) (auto intro: less_trans)

lemma operations_for_epoch_eq:
  assumes "ledger_ok st"
  shows "operations_for_epoch st ws eid = map (as_record False) (epoch_ops st ws eid)"
    "sorted_wrt (<) (map op_server_sequence (epoch_ops st ws eid))"
proof -
  have "map op_server_sequence (operations_of st ws) = [1..int (length (operations_of st ws))]"
    using assms by (simp add: ledger_ok_def ops_ok_def)
  moreover have "sorted_wrt (<) [a..b]" for a b :: int by (simp add: strict_sorted_iff)
  ultimately have "sorted_wrt (<) (map op_server_sequence (operations_of st ws))" by simp
  then show s: "sorted_wrt (<) (map op_server_sequence (epoch_ops st ws eid))"
    unfolding epoch_ops_def sorted_wrt_map by (rule sorted_wrt_filter)
  then have "sorted (map op_server_sequence (epoch_ops st ws eid))" by (rule strict_sorted_imp_sorted)
  then show "operations_for_epoch st ws eid = map (as_record False) (epoch_ops st ws eid)"
    by (simp add: operations_for_epoch_def epoch_ops_def sort_key_id_if_sorted)
qed

lemma operations_in_order:
  "ledger_ok st \<Longrightarrow> strictly_increasing (map op_server_sequence (operations_for_epoch st ws eid))"
  using operations_for_epoch_eq [of st ws eid]
  by (simp add: strictly_increasing_sorted comp_def as_record_def operation.extend_def)

section \<open>The whole pipeline\<close>

definition expected_error :: "string \<Rightarrow> int \<Rightarrow> close_error \<Rightarrow> bool" where
  "expected_error ws eid e \<longleftrightarrow>
     (\<exists>x. e = ReducerRaised x) \<or> (\<exists>x. e = BadStamp x) \<or> e = BaselineKeptAdvancing ws eid"

definition close_ok :: "reducer_ops \<Rightarrow> string \<Rightarrow> int \<Rightarrow> store \<Rightarrow> close_result \<Rightarrow> bool" where
  "close_ok rd ws eid st res \<longleftrightarrow>
     log_ok rd (fst res) \<and> log_grows st (fst res) \<and>
     (case snd res of
        Inl e \<Rightarrow> expected_error ws eid e
      | Inr None \<Rightarrow> True
      | Inr (Some ev) \<Rightarrow> event_ok rd (fst res) ws eid ev)"

lemma close_okI:
  "log_ok rd st' \<Longrightarrow> log_grows st st' \<Longrightarrow> close_ok rd ws eid st' res \<Longrightarrow> close_ok rd ws eid st res"
  using log_grows_trans by (auto simp: close_ok_def)

lemma close_first_time_run:
  assumes "log_ok rd st" "operations_for_epoch st ws eid = oldest # rest" "parse_stamp (op_accepted_at oldest) = Inr t"
    "fold_and_commit rd clk env ws eid (map operation_from_record (oldest # rest)) 2 MAX_COMMIT_ATTEMPTS st = (st1, out)"
  shows "close_first_time rd clk env ws eid st =
      (case out of
         Inl e \<Rightarrow> (st1, Inl e)
       | Inr (reduction, committed) \<Rightarrow>
           if committed = None then (st1, Inr None)
           else case get_epoch (env 5 st1) ws eid of
              None \<Rightarrow> (env 5 st1, Inl (MissingRevision ws eid))
            | Some epoch \<Rightarrow>
                if ep_workspace_revision epoch = None then (env 5 st1, Inl (MissingRevision ws eid))
                else (env 5 st1, map_sum id Some (publish_event (env 5 st1) ws epoch (Some (oldest # rest))
                       (Some (map conflict_body (re_conflicts (er_reduced reduction)))))))"
  using assms operations_in_order [of st ws eid]
  by (auto simp: close_first_time_def Let_def log_ok_def split: sum.splits option.splits)

lemma close_first_time_published:
  assumes ok: "log_ok rd st" "polite rd env" "cs_workspace_revision (rd_initial rd ws) = 0"
    and e: "get_epoch st ws eid = Some e" "ep_status e \<noteq> ''open''"
    and o: "operations_for_epoch st ws eid = oldest # rest" "parse_stamp (op_accepted_at oldest) = Inr t"
    and f: "fold_and_commit rd clk env ws eid (map operation_from_record (oldest # rest)) 2 MAX_COMMIT_ATTEMPTS st =
      (st1, Inr (red, Some c))"
  shows "\<exists>ev. close_first_time rd clk env ws eid st = (env 5 st1, Inr (Some ev)) \<and> event_ok rd (env 5 st1) ws eid ev"
proof -
  let ?st2 = "env 5 st1"
  note l = fold_and_commit_log [OF ok e arg_cong [OF o(1) [symmetric]] f]
  have s2: "log_ok rd ?st2" "log_grows st1 ?st2" using polite_env [OF ok(2), of st1] l by simp_all
  obtain e1 where e1: "get_epoch st1 ws eid = Some e1" "ep_workspace_revision e1 = Some (ce_workspace_revision c)"
    using l by (auto simp: fold_outcome_ok_def assigned_to_def)
  have no: "ep_status e1 \<noteq> ''open''" using log_ok_assigned [OF _ e1] l by blast
  obtain e2 where e2: "get_epoch ?st2 ws eid = Some e2" "ep_workspace_revision e2 = Some (ce_workspace_revision c)"
    "operations_for_epoch ?st2 ws eid = operations_for_epoch st1 ws eid"
    using kept_epochE [OF s2(2) e1(1) no] e1(2) by (metis option.distinct(1))
  have "operations_for_epoch st1 ws eid = oldest # rest" using kept_epochE [OF _ e] l o(1) by metis
  then have ops: "Some (oldest # rest) = None \<or> Some (oldest # rest) = Some (operations_for_epoch ?st2 ws eid)"
    using e2(3) by simp
  obtain ev where ev: "publish_event ?st2 ws e2 (Some (oldest # rest))
      (Some (map conflict_body (re_conflicts (er_reduced red)))) = Inr ev" "event_ok rd ?st2 ws eid ev"
    using publish_event_ok [OF s2(1) e2(1,2) ops] by blast
  then show ?thesis using close_first_time_run [OF ok(1) o f] e2(1,2) by simp
qed

lemma close_first_time_ok:
  assumes ok: "log_ok rd st" "polite rd env" "cs_workspace_revision (rd_initial rd ws) = 0"
    and e: "get_epoch st ws eid = Some e" "ep_status e \<noteq> ''open''"
  shows "close_ok rd ws eid st (close_first_time rd clk env ws eid st)"
proof (cases "operations_for_epoch st ws eid")
  case Nil
  then show ?thesis using ok(1) log_grows_refl by (simp add: close_first_time_def close_ok_def)
next
  case (Cons oldest rest)
  show ?thesis
  proof (cases "parse_stamp (op_accepted_at oldest)")
    case (Inl x)
    then show ?thesis
      using ok(1) log_grows_refl Cons operations_in_order [of st ws eid]
      by (simp add: close_first_time_def close_ok_def expected_error_def log_ok_def)
  next
    case (Inr t)
    obtain st1 out where f: "fold_and_commit rd clk env ws eid (map operation_from_record (oldest # rest)) 2
        MAX_COMMIT_ATTEMPTS st = (st1, out)" by (metis prod.exhaust)
    note l = fold_and_commit_log [OF ok e arg_cong [OF Cons [symmetric]] f]
    note run = close_first_time_run [OF ok(1) Cons Inr f]
    consider (err) x where "out = Inl x" | (none) red where "out = Inr (red, None)"
      | (some) red c where "out = Inr (red, Some c)" by (metis old.sum.exhaust option.exhaust surj_pair)
    then show ?thesis
    proof cases
      case (some red c)
      obtain ev where "close_first_time rd clk env ws eid st = (env 5 st1, Inr (Some ev))"
        "event_ok rd (env 5 st1) ws eid ev"
        using close_first_time_published [OF ok e Cons Inr f [unfolded some]] by blast
      moreover have "log_ok rd (env 5 st1)" "log_grows st (env 5 st1)"
        using polite_env [OF ok(2), of st1] l log_grows_trans by blast+
      ultimately show ?thesis by (simp add: close_ok_def)
    qed (use l run in \<open>auto simp: close_ok_def fold_outcome_ok_def expected_error_def\<close>)
  qed
qed

lemma drive_epoch_ok:
  assumes ok: "log_ok rd st" "polite rd env" "cs_workspace_revision (rd_initial rd ws) = 0"
    and e: "get_epoch st ws eid = Some e" "ep_status e \<noteq> ''open''"
  shows "close_ok rd ws eid st (drive_epoch rd clk env ws eid e st)"
proof (cases "ep_workspace_revision e")
  case None
  define st1 where "st1 = env 1 st"
  have s1: "log_ok rd st1" "log_grows st st1" using polite_env [OF ok(2,1)] by (simp_all add: st1_def)
  obtain e1 where e1: "get_epoch st1 ws eid = Some e1" "ep_status e1 \<noteq> ''open''"
    using kept_epochE [OF s1(2) e] by metis
  show ?thesis
    using close_okI [OF s1 close_first_time_ok [OF s1(1) ok(2,3) e1]] None
    by (simp add: drive_epoch_def st1_def)
next
  case (Some v)
  then show ?thesis
    using publish_event_ok [OF ok(1) e(1) Some, of None None] ok(1) log_grows_refl
    by (auto simp: drive_epoch_def close_ok_def)
qed

lemma close_epoch_ok:
  assumes ok: "log_ok rd st" "polite rd env" "cs_workspace_revision (rd_initial rd ws) = 0"
  shows "close_ok rd ws eid st (close_epoch rd clk env ws eid st)"
proof (cases "get_epoch st ws eid")
  case None
  then show ?thesis using ok log_grows_refl by (simp add: close_epoch_def close_ok_def)
next
  case (Some e)
  show ?thesis
  proof (cases "ep_status e = ''open''")
    case True
    define st1 where "st1 = mark_closed clk ws eid (env 0 st)"
    have s0: "log_ok rd (env 0 st)" "log_grows st (env 0 st)" using polite_env [OF ok(2,1)] by simp_all
    have s1: "log_ok rd st1" "log_grows st st1"
      using mark_closed_log [OF s0(1)] log_grows_trans [OF s0(2)] by (simp_all add: st1_def)
    have nt: "ep_status e \<notin> set TERMINAL_EPOCH_STATUSES" using True by (simp add: TERMINAL_EPOCH_STATUSES_def)
    have run: "close_epoch rd clk env ws eid st =
        (case get_epoch st1 ws eid of None \<Rightarrow> (st1, Inr None) | Some e1 \<Rightarrow> drive_epoch rd clk env ws eid e1 st1)"
      unfolding st1_def using True nt Some by (simp add: close_epoch_def Let_def)
    show ?thesis
    proof (cases "get_epoch st1 ws eid")
      case None
      then show ?thesis using run s1 by (simp add: close_ok_def)
    next
      case e1: (Some e1)
      obtain t where t: "st1 = update_epoch ws eid (mark_row t ''closed'' None) (env 0 st)"
        unfolding st1_def using mark_closed_eq by blast
      have "get_epoch st1 ws eid = map_option (mark_row t ''closed'' None) (get_epoch (env 0 st) ws eid)"
        unfolding t by (subst get_epoch_update) simp_all
      then have "ep_status e1 \<noteq> ''open''" using e1 by (cases "get_epoch (env 0 st) ws eid") auto
      then show ?thesis
        using run e1 close_okI [OF s1 drive_epoch_ok [OF s1(1) ok(2,3) e1]] by simp
    qed
  next
    case False
    then show ?thesis
      using Some ok(1) log_grows_refl drive_epoch_ok [OF ok Some False]
      by (simp add: close_epoch_def close_ok_def)
  qed
qed

section \<open>Passes over many epochs\<close>

lemma drive_one_ok:
  assumes "log_ok rd st" "\<And>ws eid. polite rd (env ws eid)" "\<And>ws. cs_workspace_revision (rd_initial rd ws) = 0"
  shows "log_ok rd (fst (drive_one rd clk env key (st, driven))) \<and>
    log_grows st (fst (drive_one rd clk env key (st, driven)))"
  using close_epoch_ok [OF assms(1) assms(2) [of "fst key" "snd key"] assms(3) [of "fst key"],
      where eid = "snd key" and clk = clk]
  by (auto simp: drive_one_def close_ok_def split: prod.splits sum.splits)

lemma fold_drive_ok:
  assumes "\<And>ws eid. polite rd (env ws eid)" "\<And>ws. cs_workspace_revision (rd_initial rd ws) = 0" "log_ok rd (fst s)"
  shows "log_ok rd (fst (fold (drive_one rd clk env) keys s)) \<and> log_grows (fst s) (fst (fold (drive_one rd clk env) keys s))"
  using assms(3)
proof (induction keys arbitrary: s)
  case (Cons key keys)
  have "log_ok rd (fst (drive_one rd clk env key s)) \<and> log_grows (fst s) (fst (drive_one rd clk env key s))"
    using drive_one_ok [OF Cons.prems assms(1,2), where clk = clk and key = key and driven = "snd s"] by simp
  then show ?case using Cons.IH log_grows_trans by fastforce
qed (simp add: log_grows_refl)

lemma run_once_ok:
  assumes "\<And>ws eid. polite rd (env ws eid)" "\<And>ws. cs_workspace_revision (rd_initial rd ws) = 0" "log_ok rd st"
  shows "log_ok rd (fst (run_once rd clk env due st)) \<and> log_grows st (fst (run_once rd clk env due st))"
proof -
  have step: "log_ok rd (fst (fold (drive_workspace rd clk env due) wss s)) \<and>
      log_grows (fst s) (fst (fold (drive_workspace rd clk env due) wss s))" if "log_ok rd (fst s)" for wss s
    using that
  proof (induction wss arbitrary: s)
    case (Cons ws wss)
    have "log_ok rd (fst (drive_workspace rd clk env due ws s)) \<and>
        log_grows (fst s) (fst (drive_workspace rd clk env due ws s))"
      unfolding drive_workspace_def by (rule fold_drive_ok [OF assms(1,2) Cons.prems])
    then show ?case using Cons.IH log_grows_trans by fastforce
  qed (simp add: log_grows_refl)
  let ?s = "fold (drive_one rd clk env) (map epoch_key (filter stranded (recoverable_epochs st))) (st, [])"
  have s: "log_ok rd (fst ?s)" "log_grows st (fst ?s)"
    using fold_drive_ok [OF assms(1,2), where s = "(st, [])"] assms(3) by simp_all
  then show ?thesis using step [OF s(1)] log_grows_trans by (auto simp: run_once_def Let_def)
qed

section \<open>Progress\<close>

definition states_valid :: "(canonical_state \<Rightarrow> bool) \<Rightarrow> store \<Rightarrow> bool" where
  "states_valid state_ok st \<longleftrightarrow> (\<forall>r\<in>set (tb_canonical st). state_ok (canonical_state.truncate r))"

text \<open>A driver that, besides being polite, keeps the pinned states valid and the workspace there.\<close>

definition supportive ::
  "reducer_ops \<Rightarrow> (canonical_state \<Rightarrow> bool) \<Rightarrow> string \<Rightarrow> (nat \<Rightarrow> store \<Rightarrow> store) \<Rightarrow> bool" where
  "supportive rd state_ok ws env \<longleftrightarrow>
     polite rd env \<and>
     (\<forall>i st. states_valid state_ok st \<longrightarrow> states_valid state_ok (env i st)) \<and>
     (\<forall>i st. get_scenario st ws \<noteq> None \<longrightarrow> get_scenario (env i st) ws \<noteq> None)"

lemma max_canonical_baseline:
  "cs_workspace_revision (rd_initial rd ws) = 0 \<Longrightarrow>
   max_canonical st ws = cs_workspace_revision (baseline_of rd st ws)"
  using max_canonical_Max [of st ws] newest_of_revision [of "canonical_of st ws" rd ws]
  by (cases "canonical_of st ws = []") (simp_all add: baseline_newest max_canonical_def newest_of_def)

context epoch_reducer
begin

definition ops :: reducer_ops where
  "ops = \<lparr>rd_initial = initial, rd_reduce = reduce\<rparr>"

lemma baseline_valid:
  assumes "states_valid state_ok st" shows "state_ok (baseline_of ops st ws)"
proof (cases "order_by (\<lambda>r. - cs_workspace_revision r) (canonical_of st ws)")
  case Nil
  then show ?thesis by (simp add: baseline_newest newest_of_def ops_def initial_ok)
next
  case (Cons r rs)
  have "r \<in> set (tb_canonical st)" using hd_sort_key_least(1) [OF Cons] by (simp add: canonical_of_def)
  then show ?thesis using assms Cons by (simp add: baseline_newest newest_of_def states_valid_def)
qed

text \<open>An attempt whose baseline is not moved between fold and commit commits.\<close>

lemma fold_and_commit_progress:
  assumes "log_ok ops st" "supportive ops state_ok ws env" "states_valid state_ok st" "get_scenario st ws \<noteq> None"
    "\<forall>op\<in>set xs. op_ok op" "distinct (map op_server_sequence xs)"
    "get_epoch st ws eid = Some e" "ep_status e \<noteq> ''open''"
    "k < n" "\<And>s. max_canonical (env (i + k) s) ws = max_canonical s ws"
  shows "\<exists>st' red c. fold_and_commit ops clk env ws eid xs i n st = (st', Inr (red, Some c))"
  using assms(1,3,4,7-10)
proof (induction n arbitrary: st i e k)
  case (Suc n)
  note sup = assms(2) and rev0 = initial_revision [of ws]
  have base: "cs_workspace_revision (rd_initial ops ws) = 0" by (simp add: ops_def rev0)
  obtain red where red: "rd_reduce ops (baseline_of ops st ws) xs = Inr red"
    using reduce_total [OF baseline_valid [OF Suc.prems(2), of ws] assms(5,6)] by (auto simp: ops_def)
  define st1 where "st1 = env i st"
  have s1: "log_ok ops st1" "log_grows st st1" "states_valid state_ok st1" "get_scenario st1 ws \<noteq> None"
    using sup Suc.prems(1-3) unfolding supportive_def polite_def st1_def by blast+
  obtain e1 where e1: "get_epoch st1 ws eid = Some e1" "ep_status e1 \<noteq> ''open''"
    using kept_epochE [OF s1(2) Suc.prems(4,5)] by metis
  let ?c = "commit_epoch_reduction clk ws eid (cs_families (er_state red))
              (Some (cs_workspace_revision (baseline_of ops st ws))) st1"
  have run: "fold_and_commit ops clk env ws eid xs i (Suc n) st =
    (case ?c of Inl e \<Rightarrow> if is_stale e then fold_and_commit ops clk env ws eid xs (Suc i) n st1
               else (st1, Inl (StoreRaised e)) | Inr (st2, committed) \<Rightarrow> (st2, Inr (red, committed)))"
    unfolding st1_def using red by (simp add: Let_def)
  have v1: "versions_ok st1" using s1(1) by (simp add: log_ok_def)
  from v1 show ?case
  proof (cases rule: commit_cases [of st1 ws eid clk "cs_families (er_state red)"
        "Some (cs_workspace_revision (baseline_of ops st ws))"])
    case (stale b)
    have "max_canonical st1 ws \<noteq> max_canonical st ws"
      using stale(1,2) max_canonical_baseline [OF base, of st] by simp
    then have "k \<noteq> 0" using Suc.prems(7) [of st] by (cases k) (auto simp: st1_def)
    then obtain k' where k: "k = Suc k'" by (cases k) auto
    have "\<exists>st' red c. fold_and_commit ops clk env ws eid xs (Suc i) n st1 = (st', Inr (red, Some c))"
      using Suc.IH [OF s1(1,3,4) e1, of k' "Suc i"] Suc.prems(6,7) by (simp add: k)
    then show ?thesis using run stale(3) by simp
  qed (use run s1(4) e1 in auto)
qed simp

end

end
