(* ===== verification/Epochs_Contract.thy ===== *)
theory Epochs_Contract
  imports Epochs_Close
begin

text \<open>
  What the epoch scheduler promises, over the deterministic reducer: canonical states are the fold
  of the operation log whatever else runs beside it, two schedulers may interleave, and a close
  commits as soon as one of its three attempts is left undisturbed.
\<close>

section \<open>Drivers beside the pipeline\<close>

lemma det_initial: "cs_workspace_revision (rd_initial deterministic_reducer ws) = 0"
  by (simp add: deterministic_reducer_def reducer.initial_revision)

definition accepting :: "clock \<Rightarrow> string \<Rightarrow> operation_item list \<Rightarrow> store \<Rightarrow> store" where
  "accepting clk ws items st =
     (case append_operations clk ws items st of Inr (st', _) \<Rightarrow> st' | Inl _ \<Rightarrow> st)"

lemma accepting_polite: "polite rd (\<lambda>_. accepting clk ws items)"
  unfolding polite_def accepting_def using append_log log_grows_refl by (auto split: sum.splits)

lemma accepting_supportive: "supportive rd state_ok w (\<lambda>_. accepting clk ws items)"
  using accepting_polite append_operations_planes(2,4)
  by (auto simp: supportive_def accepting_def states_valid_def get_scenario_def split: sum.splits)

lemma scheduler_polite:
  assumes "\<And>ws eid. polite deterministic_reducer (env ws eid)"
  shows "polite deterministic_reducer (\<lambda>_ st. fst (run_once deterministic_reducer clk env due st))"
  using run_once_ok [OF assms det_initial] by (simp add: polite_def)

lemma sample_log_ok: "log_ok deterministic_reducer sample_accepted"
proof -
  have "list_all (\<lambda>e. ep_workspace_revision e = None) (tb_epochs sample_accepted)" by code_simp
  then show ?thesis using reachable_ok [OF sample_reachable(2)]
    by (auto simp: log_ok_def chain_ok_def list_all_iff)
qed

section \<open>Properties\<close>

text \<open>C2: the canonical states are the fold of the operation log. Closing an epoch keeps, for every
  epoch that carries a revision, that the state pinned at this revision is the reduction of
  exactly the operations accepted into the epoch against the newest state before it, and it only
  adds to the log; also while other drivers and requests change the store between any two steps
  of the pipeline, as long as they keep that themselves, append canonical states only and leave
  closed epochs alone. The event it publishes names the assigned revision and carries every
  operation of the epoch, and the ordering, zero-loss and missing-revision tripwires never fire.\<close>

theorem close_epoch_materialises_log:
  assumes "log_ok deterministic_reducer st" "polite deterministic_reducer env"
    "close_epoch deterministic_reducer clk env ws eid st = (st', out)"
  shows "log_ok deterministic_reducer st' \<and> log_grows st st' \<and>
    (\<forall>ev. out = Inr (Some ev) \<longrightarrow> event_ok deterministic_reducer st' ws eid ev) \<and>
    (\<forall>err. out = Inl err \<longrightarrow> expected_error ws eid err)"
  using close_epoch_ok [OF assms(1,2) det_initial, where ws = ws and eid = eid and clk = clk] assms(3)
  by (auto simp: close_ok_def)

theorem close_epoch_materialises_log_witness:
  "\<exists>st' ev. close_epoch deterministic_reducer sample_clock (\<lambda>_. accepting sample_clock ''w'' sample_batch)
       ''w'' 0 sample_accepted = (st', Inr (Some ev)) \<and>
     log_ok deterministic_reducer st' \<and> event_ok deterministic_reducer st' ''w'' 0 ev"
proof -
  let ?c = "close_epoch deterministic_reducer sample_clock (\<lambda>_. accepting sample_clock ''w'' sample_batch)
       ''w'' 0 sample_accepted"
  have "case snd ?c of Inr (Some _) \<Rightarrow> True | _ \<Rightarrow> False" by code_simp
  then obtain st' ev where c: "?c = (st', Inr (Some ev))"
    by (cases ?c) (auto split: sum.splits option.splits)
  show ?thesis using close_epoch_materialises_log [OF sample_log_ok accepting_polite c] c by blast
qed

text \<open>C16: schedulers may interleave. A scheduler pass beside which another scheduler runs a whole
  pass of its own between any two steps, itself beside arbitrary polite drivers, still leaves every
  canonical state the fold of the log, and keeps every state and every closed epoch there was.\<close>

theorem schedulers_interleave:
  assumes "log_ok deterministic_reducer st" "\<And>ws eid. polite deterministic_reducer (env ws eid)"
  shows "log_ok deterministic_reducer
      (fst (run_once deterministic_reducer clk
        (\<lambda>_ _ _ s. fst (run_once deterministic_reducer clk' env due' s)) due st)) \<and>
    log_grows st
      (fst (run_once deterministic_reducer clk
        (\<lambda>_ _ _ s. fst (run_once deterministic_reducer clk' env due' s)) due st))"
  by (rule run_once_ok [OF scheduler_polite [OF assms(2)] det_initial assms(1)])

theorem schedulers_interleave_witness:
  "log_ok deterministic_reducer
      (fst (run_once deterministic_reducer sample_clock
        (\<lambda>_ _ _ s. fst (run_once deterministic_reducer sample_clock (\<lambda>_ _ _. id) (\<lambda>_. True) s))
        (\<lambda>_. True) sample_accepted))"
proof -
  have "polite deterministic_reducer (\<lambda>_. id)" by (simp add: polite_def log_grows_refl)
  from schedulers_interleave [where env = "\<lambda>_ _ _. id", OF sample_log_ok this] show ?thesis by blast
qed

section \<open>Progress\<close>

lemma det_ops: "reducer.ops = deterministic_reducer"
  by (simp add: reducer.ops_def deterministic_reducer_def)

lemma from_record_as_record: "operation_from_record (as_record d r) = r"
  by (simp add: operation_from_record_def as_record_def operation.truncate_def operation.extend_def
      operation.fields_def)

lemma close_first_time_progress:
  assumes ok: "log_ok deterministic_reducer st" "supportive deterministic_reducer canonical_ok ws env"
    and valid: "states_valid canonical_ok st" "get_scenario st ws \<noteq> None"
    and e: "get_epoch st ws eid = Some e" "ep_status e \<noteq> ''open''"
    and o: "epoch_ops st ws eid \<noteq> []" "\<forall>op\<in>set (epoch_ops st ws eid). operation_ok op \<and> (\<exists>t. op_accepted_at op = Stamp t)"
    and k: "k < 3" "\<And>s. max_canonical (env (2 + k) s) ws = max_canonical s ws"
  shows "\<exists>st' ev. close_first_time deterministic_reducer clk env ws eid st = (st', Inr (Some ev))"
proof -
  have led: "ledger_ok st" using ok(1) by (simp add: log_ok_def)
  note eq = operations_for_epoch_eq [OF led, of ws eid]
  let ?xs = "map operation_from_record (operations_for_epoch st ws eid)"
  have xs: "?xs = epoch_ops st ws eid" by (simp add: eq(1) comp_def from_record_as_record)
  have "\<forall>op\<in>set ?xs. operation_ok op" using o(2) xs by simp
  moreover have "distinct (map op_server_sequence ?xs)"
    using eq(2) unfolding xs by (simp add: strict_sorted_iff)
  ultimately obtain st1 red c where f: "fold_and_commit deterministic_reducer clk env ws eid ?xs 2 MAX_COMMIT_ATTEMPTS st =
      (st1, Inr (red, Some c))"
    using reducer.fold_and_commit_progress [of st ws env ?xs eid e k MAX_COMMIT_ATTEMPTS 2 clk] ok valid e k
    by (auto simp: det_ops MAX_COMMIT_ATTEMPTS_def)
  obtain op rest where c: "epoch_ops st ws eid = op # rest" using o(1) by (cases "epoch_ops st ws eid") auto
  then have cs: "operations_for_epoch st ws eid = as_record False op # map (as_record False) rest" by (simp add: eq(1))
  obtain t where t: "op_accepted_at op = Stamp t" using o(2) c by auto
  have p: "parse_stamp (op_accepted_at (as_record False op)) = Inr t"
    using t by (simp add: as_record_def operation.extend_def)
  have pol: "polite deterministic_reducer env" using ok(2) by (simp add: supportive_def)
  show ?thesis
    using close_first_time_published [OF ok(1) pol det_initial e cs p f [unfolded cs]] by blast
qed



end
