(* ===== verification/Admission.thy ===== *)
theory Admission
  imports Reducer_Contract
begin

text \<open>
  The admission gate of the fast lane, \<open>server/realtime/admission.py\<close>: the envelope, the booked
  costs, and \<open>FastAdmission.check\<close> with its sliding windows.

  Stamps are milliseconds, the precision of the route's clock; costs and budgets are exact
  rationals. The capacity reporter is an interface with two implementations, the null one here
  and the fast lane's. The text of a float in \<open>json.dumps\<close> is a parameter. The message and the
  advice of a rejection are left out; its status, code and retry hint are kept.
\<close>

section \<open>Envelope and booked costs\<close>

definition DEFAULT_FAST_DEADLINE_BUDGET_MS :: rat where "DEFAULT_FAST_DEADLINE_BUDGET_MS = 1000"
definition STAGE_INGEST_MS :: rat where "STAGE_INGEST_MS = 100"
definition STAGE_EPOCH_WAIT_MS :: rat where "STAGE_EPOCH_WAIT_MS = 100"
definition STAGE_REDUCE_PLAN_MS :: rat where "STAGE_REDUCE_PLAN_MS = 100"
definition STAGE_COMPUTE_MS :: rat where "STAGE_COMPUTE_MS = 550"
definition STAGE_ENCODE_PUBLISH_MS :: rat where "STAGE_ENCODE_PUBLISH_MS = 150"

definition FIXED_STAGE_MS :: rat where
  "FIXED_STAGE_MS = STAGE_EPOCH_WAIT_MS + STAGE_REDUCE_PLAN_MS + STAGE_ENCODE_PUBLISH_MS"

definition MIN_RETRY_AFTER_MS :: rat where "MIN_RETRY_AFTER_MS = 50"

record admission_envelope =
  max_operations_per_epoch :: int
  max_accepted_operations_per_second :: rat
  max_changed_cells_per_epoch :: int
  max_geometry_objects_touched_per_epoch :: int
  max_payload_bytes_per_operation :: int
  max_active_workspaces :: int
  fast_compute_budget_ms_per_epoch :: rat

definition default_envelope :: admission_envelope where
  "default_envelope =
     \<lparr>max_operations_per_epoch = 128, max_accepted_operations_per_second = 128,
      max_changed_cells_per_epoch = 100000, max_geometry_objects_touched_per_epoch = 1000,
      max_payload_bytes_per_operation = 65536, max_active_workspaces = 256,
      fast_compute_budget_ms_per_epoch = STAGE_COMPUTE_MS\<rparr>"

definition FAMILY_FAST_COST_MS :: "rat dict" where
  "FAMILY_FAST_COST_MS =
     [(''output_view'', 5), (''selected_date_time'', 40), (''meteorological_forcing'', 40),
      (''model_receptor_parameters'', 40), (''vegetation_geometry'', 180),
      (''building_geometry'', 220), (''landcover_surface'', 150)]"

definition UNKNOWN_FAMILY_COST_MS :: rat where "UNKNOWN_FAMILY_COST_MS = 250"
definition LANDCOVER_CELL_COST_MS :: rat where "LANDCOVER_CELL_COST_MS = 4 / 1000"
definition PER_OPERATION_MARGIN_MS :: rat where "PER_OPERATION_MARGIN_MS = 2"

text \<open>\<open>int(window[k])\<close>; a missing key, a wrong type and a bad text are all caught by the callers.\<close>

definition window_int :: "json dict \<Rightarrow> string \<Rightarrow> int option" where
  "window_int window k =
     (case map_of window k of
        None \<Rightarrow> None
      | Some v \<Rightarrow> (case py_int v of Inr i \<Rightarrow> Some i | Inl _ \<Rightarrow> None))"

definition window_extent :: "json dict \<Rightarrow> int option" where
  "window_extent window =
     (case (window_int window ''row_end'', window_int window ''row_start'',
            window_int window ''col_end'', window_int window ''col_start'') of
        (Some re, Some rs, Some ce, Some cs) \<Rightarrow> Some ((\<bar>re - rs\<bar> + 1) * (\<bar>ce - cs\<bar> + 1))
      | _ \<Rightarrow> None)"

definition item_window :: "operation_item \<Rightarrow> json dict option" where
  "item_window item =
     (case it_payload item of
        JObj payload \<Rightarrow> (case map_of payload ''window'' of Some (JObj w) \<Rightarrow> Some w | _ \<Rightarrow> None)
      | _ \<Rightarrow> None)"

definition family_cost :: "string \<Rightarrow> rat" where
  "family_cost family =
     (case map_of FAMILY_FAST_COST_MS family of Some c \<Rightarrow> c | None \<Rightarrow> UNKNOWN_FAMILY_COST_MS)"

definition predict_operation_cost_ms :: "operation_item \<Rightarrow> rat" where
  "predict_operation_cost_ms item =
     (let base = family_cost (it_source_family item) in
      if it_source_family item \<noteq> ''landcover_surface'' then base
      else case Option.bind (item_window item) window_extent of
             None \<Rightarrow> base
           | Some n \<Rightarrow> max base (of_int n * LANDCOVER_CELL_COST_MS))"

definition predict_epoch_compute_ms :: "operation_item list \<Rightarrow> rat" where
  "predict_epoch_compute_ms items =
     (case map predict_operation_cost_ms items of
        [] \<Rightarrow> 0
      | c # cs \<Rightarrow> foldl max c cs + PER_OPERATION_MARGIN_MS * of_nat (length items))"

definition changed_cells :: "operation_item list \<Rightarrow> int" where
  "changed_cells items =
     (\<Sum>item\<leftarrow>items. if it_source_family item \<noteq> ''landcover_surface'' then 0
        else case Option.bind (item_window item) window_extent of None \<Rightarrow> 0 | Some n \<Rightarrow> n)"

definition geometry_touched :: "operation_item list \<Rightarrow> int" where
  "geometry_touched items =
     int (length (filter (\<lambda>i. it_source_family i \<in> {''building_geometry'', ''vegetation_geometry''}) items))"

section \<open>Payload size\<close>

text \<open>\<open>json.dumps\<close> with the default separators and \<open>ensure_ascii\<close>: quotes, backslashes and the
  five short escapes take two characters, everything outside the printable range takes six.\<close>

definition escaped_length :: "char \<Rightarrow> nat" where
  "escaped_length c =
     (let n = of_char c :: nat in
      if n \<in> {34, 92, 8, 9, 10, 12, 13} then 2 else if n < 32 \<or> 126 < n then 6 else 1)"

definition string_length :: "string \<Rightarrow> nat" where
  "string_length s = 2 + sum_list (map escaped_length s)"

primrec dumps_length :: "(rat \<Rightarrow> string) \<Rightarrow> json \<Rightarrow> nat" where
  "dumps_length show_float JNull = 4"
| "dumps_length show_float (JBool b) = (if b then 4 else 5)"
| "dumps_length show_float (JInt i) = length (show_int i)"
| "dumps_length show_float (JFloat r) = length (show_float r)"
| "dumps_length show_float (JStr s) = string_length s"
| "dumps_length show_float (JArr xs) =
     2 + sum_list (map (dumps_length show_float) xs) + 2 * (length xs - 1)"
| "dumps_length show_float (JObj kvs) =
     2 + sum_list (map (\<lambda>p. string_length (fst p) + 2 + snd p)
           (map (map_prod id (dumps_length show_float)) kvs)) + 2 * (length kvs - 1)"

fun falsy :: "json \<Rightarrow> bool" where
  "falsy JNull \<longleftrightarrow> True"
| "falsy (JBool b) \<longleftrightarrow> \<not> b"
| "falsy (JInt i) \<longleftrightarrow> i = 0"
| "falsy (JFloat r) \<longleftrightarrow> r = 0"
| "falsy (JStr s) \<longleftrightarrow> s = []"
| "falsy (JArr xs) \<longleftrightarrow> xs = []"
| "falsy (JObj d) \<longleftrightarrow> d = []"

definition payload_size :: "(rat \<Rightarrow> string) \<Rightarrow> operation_item \<Rightarrow> int" where
  "payload_size show_float item =
     (if falsy (it_payload item) then 0 else int (dumps_length show_float (it_payload item)))"

section \<open>The gate\<close>

record admission =
  ad_envelope :: admission_envelope
  ad_admitted :: "int list dict"
  ad_workspaces :: "(string \<times> int) list"
  ad_rejections :: nat

definition new_admission :: "admission_envelope \<Rightarrow> admission" where
  "new_admission envelope =
     \<lparr>ad_envelope = envelope, ad_admitted = [], ad_workspaces = [], ad_rejections = 0\<rparr>"

datatype bound =
    Saturated | OperationsPerEpoch | GeometryObjects | ChangedCells | PayloadBytes nat
  | ComputeBudget | OperationRate | ActiveWorkspaces

record rejection =
  rj_bound :: bound
  rj_status :: int
  rj_code :: string
  rj_retry_after_ms :: int

text \<open>\<open>round\<close>: to the nearest integer, ties to the even one.\<close>

definition round_even :: "rat \<Rightarrow> int" where
  "round_even r =
     (let f = \<lfloor>r\<rfloor>; d = r - of_int f in
      if d < 1 / 2 then f else if 1 / 2 < d then f + 1 else if even f then f else f + 1)"

definition retry_after_ms :: "rat \<Rightarrow> int" where
  "retry_after_ms raw = max (trunc_rat MIN_RETRY_AFTER_MS) (round_even raw)"

definition reject_with :: "bound \<Rightarrow> int \<Rightarrow> string \<Rightarrow> rat \<Rightarrow> admission \<Rightarrow> admission \<times> (rejection + unit)" where
  "reject_with b status code raw ad =
     (ad\<lparr>ad_rejections := ad_rejections ad + 1\<rparr>,
      Inl \<lparr>rj_bound = b, rj_status = status, rj_code = code, rj_retry_after_ms = retry_after_ms raw\<rparr>)"

abbreviation reject_429 :: "bound \<Rightarrow> rat \<Rightarrow> admission \<Rightarrow> admission \<times> (rejection + unit)" where
  "reject_429 b raw \<equiv> reject_with b 429 ''fast_lane_overloaded'' raw"

abbreviation reject_503 :: "bound \<Rightarrow> rat \<Rightarrow> admission \<Rightarrow> admission \<times> (rejection + unit)" where
  "reject_503 b raw \<equiv> reject_with b 503 ''fast_lane_unavailable'' raw"

text \<open>\<open>while events and now - events[0] >= 1.0: events.popleft()\<close>.\<close>

definition live_events :: "int \<Rightarrow> int list \<Rightarrow> int list" where
  "live_events now events = dropWhile (\<lambda>t. 1000 \<le> now - t) events"

definition live_workspaces :: "int \<Rightarrow> (string \<times> int) list \<Rightarrow> (string \<times> int) list" where
  "live_workspaces now events = dropWhile (\<lambda>p. 1000 \<le> now - snd p) events"

definition set_events :: "string \<Rightarrow> int list \<Rightarrow> admission \<Rightarrow> admission" where
  "set_events ws events ad = ad\<lparr>ad_admitted := AList.update ws events (ad_admitted ad)\<rparr>"

definition check_workspaces :: "int \<Rightarrow> string \<Rightarrow> admission \<Rightarrow> admission \<times> (rejection + unit)" where
  "check_workspaces now ws ad =
     (let events = live_workspaces now (ad_workspaces ad);
          ad1 = ad\<lparr>ad_workspaces := events\<rparr>;
          active = remdups (map fst events)
      in if ws \<notin> set active \<and> max_active_workspaces (ad_envelope ad) \<le> int (length active)
         then reject_503 ActiveWorkspaces MIN_RETRY_AFTER_MS ad1
         else (ad1\<lparr>ad_workspaces := events @ [(ws, now)]\<rparr>, Inr ()))"

definition check_rate :: "int \<Rightarrow> string \<Rightarrow> nat \<Rightarrow> admission \<Rightarrow> admission \<times> (rejection + unit)" where
  "check_rate now ws n ad =
     (let events = live_events now (case map_of (ad_admitted ad) ws of Some es \<Rightarrow> es | None \<Rightarrow> []) in
      if max_accepted_operations_per_second (ad_envelope ad) < of_nat (length events + n)
      then reject_429 OperationRate
             (case events of [] \<Rightarrow> 0 | t # _ \<Rightarrow> of_int (1000 - (now - t))) (set_events ws events ad)
      else check_workspaces now ws (set_events ws (events @ replicate n now) ad))"

text \<open>The deadline arithmetic, with the elapsed ingest time and what the lane has reserved.\<close>

definition compute_available_ms :: "admission_envelope \<Rightarrow> rat \<Rightarrow> rat \<Rightarrow> rat" where
  "compute_available_ms envelope elapsed reserved =
     max 0 (min (fast_compute_budget_ms_per_epoch envelope)
              (max 0 (DEFAULT_FAST_DEADLINE_BUDGET_MS - elapsed) - FIXED_STAGE_MS) - reserved)"

definition oversized :: "(rat \<Rightarrow> string) \<Rightarrow> admission_envelope \<Rightarrow> operation_item list \<Rightarrow> nat option" where
  "oversized show_float envelope items =
     map_option fst (find (\<lambda>p. max_payload_bytes_per_operation envelope < payload_size show_float (snd p))
       (enumerate 0 items))"

text \<open>\<open>check\<close>: \<open>saturated\<close> and \<open>reserved\<close> are what the capacity reporter answers during the call.\<close>

definition check_batch ::
  "(rat \<Rightarrow> string) \<Rightarrow> bool \<Rightarrow> rat \<Rightarrow> int \<Rightarrow> int \<Rightarrow> string \<Rightarrow> operation_item list \<Rightarrow> admission
   \<Rightarrow> admission \<times> (rejection + unit)" where
  "check_batch show_float saturated reserved now received ws items ad =
     (let elapsed = max 0 (of_int (now - received));
          envelope = ad_envelope ad;
          predicted = predict_epoch_compute_ms items;
          available = compute_available_ms envelope elapsed reserved
      in if saturated then reject_503 Saturated (2 * MIN_RETRY_AFTER_MS) ad
         else if max_operations_per_epoch envelope < int (length items)
         then reject_429 OperationsPerEpoch MIN_RETRY_AFTER_MS ad
         else if max_geometry_objects_touched_per_epoch envelope < geometry_touched items
         then reject_429 GeometryObjects MIN_RETRY_AFTER_MS ad
         else if max_changed_cells_per_epoch envelope < changed_cells items
         then reject_429 ChangedCells MIN_RETRY_AFTER_MS ad
         else case oversized show_float envelope items of
                Some i \<Rightarrow> reject_429 (PayloadBytes i) MIN_RETRY_AFTER_MS ad
              | None \<Rightarrow>
                  if available < predicted
                  then reject_429 ComputeBudget (predicted - available) ad
                  else check_rate now ws (length items) ad)"

text \<open>The two stamps are parsed first; a malformed one raises.\<close>

definition check ::
  "(rat \<Rightarrow> string) \<Rightarrow> bool \<Rightarrow> rat \<Rightarrow> stamp \<Rightarrow> stamp \<Rightarrow> string \<Rightarrow> operation_item list \<Rightarrow> admission
   \<Rightarrow> py_error + admission \<times> (rejection + unit)" where
  "check show_float saturated reserved now received ws items ad =
     (case (parse_stamp now, parse_stamp received) of
        (Inr n, Inr r) \<Rightarrow> Inr (check_batch show_float saturated reserved n r ws items ad)
      | (Inl e, _) \<Rightarrow> Inl e
      | (_, Inl e) \<Rightarrow> Inl e)"

end
