(* ===== verification/Admission_Contract.thy ===== *)
theory Admission_Contract
  imports Admission
begin

text \<open>
  What an admitted batch is worth: its bounds and its place in the deadline, the sliding-second
  rate over any history of calls, and what the gate does not see.
\<close>

section \<open>The capacity interface\<close>

text \<open>\<open>CapacityReporter\<close>: what the lane has already reserved is never negative.\<close>

locale capacity_reporter =
  fixes reserved_ms :: "'s \<Rightarrow> string \<Rightarrow> rat"
    and saturated :: "'s \<Rightarrow> bool"
  assumes reserved_nonneg: "0 \<le> reserved_ms s ws"
begin

definition gate ::
  "(rat \<Rightarrow> string) \<Rightarrow> 's \<Rightarrow> int \<Rightarrow> int \<Rightarrow> string \<Rightarrow> operation_item list \<Rightarrow> admission
   \<Rightarrow> admission \<times> (rejection + unit)" where
  "gate show_float s now received ws = check_batch show_float (saturated s) (reserved_ms s ws) now received ws"

end

lemma family_cost_pos: "0 < family_cost family"
  by (auto simp: family_cost_def FAMILY_FAST_COST_MS_def UNKNOWN_FAMILY_COST_MS_def)

lemma operation_cost_pos: "0 < predict_operation_cost_ms item"
  using family_cost_pos [of "it_source_family item"]
  by (auto simp: predict_operation_cost_ms_def Let_def less_max_iff_disj split: option.split)

lemma foldl_max_ge: "c \<le> foldl max c cs" for c :: rat
proof (induction cs arbitrary: c)
  case (Cons x cs)
  show ?case using order_trans [OF max.cobounded1 Cons.IH, of c x] by simp
qed simp

lemma epoch_compute_pos: "items \<noteq> [] \<Longrightarrow> 0 < predict_epoch_compute_ms items"
proof -
  assume "items \<noteq> []"
  then obtain i rest where i: "items = i # rest" by (cases items) auto
  have "0 < foldl max (predict_operation_cost_ms i) (map predict_operation_cost_ms rest)"
    using operation_cost_pos [of i] foldl_max_ge [of "predict_operation_cost_ms i"] by (rule less_le_trans)
  moreover have "0 \<le> PER_OPERATION_MARGIN_MS * of_nat (length items)" by (simp add: PER_OPERATION_MARGIN_MS_def)
  ultimately show ?thesis by (simp add: predict_epoch_compute_ms_def i add_pos_nonneg)
qed

lemma check_rate_Inr:
  assumes "check_rate now ws n ad = (ad', Inr u)"
  shows "of_nat (length (live_events now (case map_of (ad_admitted ad) ws of Some es \<Rightarrow> es | None \<Rightarrow> [])) + n)
    \<le> max_accepted_operations_per_second (ad_envelope ad)"
  using assms by (auto simp: check_rate_def Let_def reject_with_def split: if_splits)

lemma check_batch_Inr:
  assumes "check_batch show_float sat reserved now received ws items ad = (ad', Inr u)"
  shows "\<not> sat" "int (length items) \<le> max_operations_per_epoch (ad_envelope ad)"
    "geometry_touched items \<le> max_geometry_objects_touched_per_epoch (ad_envelope ad)"
    "changed_cells items \<le> max_changed_cells_per_epoch (ad_envelope ad)"
    "oversized show_float (ad_envelope ad) items = None"
    "predict_epoch_compute_ms items \<le> compute_available_ms (ad_envelope ad) (max 0 (of_int (now - received))) reserved"
    "check_rate now ws (length items) ad = (ad', Inr u)"
  using assms by (auto simp: check_batch_def Let_def reject_with_def split: if_splits option.splits)

context capacity_reporter
begin

text \<open>An admitted batch fits what is left of the compute budget and of the one-second deadline.\<close>

lemma admitted_fits_deadline:
  assumes g: "gate show_float s now received ws items ad = (ad', Inr u)" and ne: "items \<noteq> []"
  shows "predict_epoch_compute_ms items + reserved_ms s ws \<le> fast_compute_budget_ms_per_epoch (ad_envelope ad)"
    "max 0 (of_int (now - received)) + FIXED_STAGE_MS + reserved_ms s ws + predict_epoch_compute_ms items
       \<le> DEFAULT_FAST_DEADLINE_BUDGET_MS"
proof -
  let ?p = "predict_epoch_compute_ms items" and ?e = "max 0 (rat_of_int (now - received))" and ?r = "reserved_ms s ws"
  let ?b = "fast_compute_budget_ms_per_epoch (ad_envelope ad)"
  have pos: "0 < ?p" using epoch_compute_pos [OF ne] .
  have "?p \<le> compute_available_ms (ad_envelope ad) ?e ?r"
    using check_batch_Inr(6) [OF g [unfolded gate_def]] .
  then have "?p \<le> min ?b (max 0 (DEFAULT_FAST_DEADLINE_BUDGET_MS - ?e) - FIXED_STAGE_MS) - ?r"
    using pos by (simp add: compute_available_ms_def)
  then have "?p + ?r \<le> ?b" and d: "?p + ?r \<le> max 0 (DEFAULT_FAST_DEADLINE_BUDGET_MS - ?e) - FIXED_STAGE_MS"
    by (simp_all add: algebra_simps)
  then show "?p + ?r \<le> ?b" by simp
  have "0 < FIXED_STAGE_MS"
    by (simp add: FIXED_STAGE_MS_def STAGE_EPOCH_WAIT_MS_def STAGE_REDUCE_PLAN_MS_def STAGE_ENCODE_PUBLISH_MS_def)
  then have "max 0 (DEFAULT_FAST_DEADLINE_BUDGET_MS - ?e) = DEFAULT_FAST_DEADLINE_BUDGET_MS - ?e"
    using d pos reserved_nonneg [of s ws] by linarith
  then show "?e + FIXED_STAGE_MS + ?r + ?p \<le> DEFAULT_FAST_DEADLINE_BUDGET_MS" using d by linarith
qed

end

definition null_reserved_ms :: "unit \<Rightarrow> string \<Rightarrow> rat" where "null_reserved_ms _ _ = 0"
definition null_saturated :: "unit \<Rightarrow> bool" where "null_saturated _ \<longleftrightarrow> False"

interpretation null_capacity: capacity_reporter null_reserved_ms null_saturated
  by unfold_locales (simp add: null_reserved_ms_def)

section \<open>The rate over a history\<close>

record admission_call =
  ac_now :: int
  ac_received :: int
  ac_workspace :: string
  ac_items :: "operation_item list"
  ac_saturated :: bool
  ac_reserved :: rat

text \<open>The gate called again and again, and the operations it let through with their times.\<close>

definition admit_step ::
  "(rat \<Rightarrow> string) \<Rightarrow> admission_call \<Rightarrow> admission \<times> (string \<times> int) list \<Rightarrow> admission \<times> (string \<times> int) list" where
  "admit_step show_float c s =
     (case check_batch show_float (ac_saturated c) (ac_reserved c) (ac_now c) (ac_received c)
             (ac_workspace c) (ac_items c) (fst s) of
        (ad, Inr _) \<Rightarrow> (ad, snd s @ replicate (length (ac_items c)) (ac_workspace c, ac_now c))
      | (ad, Inl _) \<Rightarrow> (ad, snd s))"

definition admitted_log :: "(rat \<Rightarrow> string) \<Rightarrow> admission_envelope \<Rightarrow> admission_call list \<Rightarrow> (string \<times> int) list" where
  "admitted_log show_float envelope calls =
     snd (fold (admit_step show_float) calls (new_admission envelope, []))"

definition events_of :: "admission \<Rightarrow> string \<Rightarrow> int list" where
  "events_of ad ws = (case map_of (ad_admitted ad) ws of Some es \<Rightarrow> es | None \<Rightarrow> [])"

definition logged_from :: "(string \<times> int) list \<Rightarrow> string \<Rightarrow> int \<Rightarrow> nat" where
  "logged_from lg ws t = length (filter (\<lambda>p. fst p = ws \<and> t \<le> snd p) lg)"

definition events_from :: "int list \<Rightarrow> int \<Rightarrow> nat" where
  "events_from es t = length (filter (\<lambda>x. t \<le> x) es)"

definition in_second :: "(string \<times> int) list \<Rightarrow> string \<Rightarrow> int \<Rightarrow> nat" where
  "in_second lg ws t = length (filter (\<lambda>p. fst p = ws \<and> t \<le> snd p \<and> snd p < t + 1000) lg)"

definition rate_inv :: "admission_envelope \<Rightarrow> int \<Rightarrow> admission \<times> (string \<times> int) list \<Rightarrow> bool" where
  "rate_inv envelope now s \<longleftrightarrow>
     ad_envelope (fst s) = envelope \<and>
     (\<forall>ws. of_nat (length (events_of (fst s) ws)) \<le> max_accepted_operations_per_second envelope) \<and>
     (\<forall>ws t. now - 1000 < t \<longrightarrow> logged_from (snd s) ws t \<le> events_from (events_of (fst s) ws) t) \<and>
     (\<forall>ws t. of_nat (in_second (snd s) ws t) \<le> max_accepted_operations_per_second envelope)"

lemma events_from_live: "now - 1000 < t \<Longrightarrow> events_from (live_events now es) t = events_from es t"
  by (induction es) (auto simp: live_events_def events_from_def)

lemma events_of_set: "events_of (set_events ws es ad) w = (if w = ws then es else events_of ad w)"
  by (simp add: events_of_def set_events_def update_conv')

lemma length_live: "length (live_events now es) \<le> length es"
  by (simp add: live_events_def length_dropWhile_le)

lemma check_workspaces_frame:
  "check_workspaces now ws ad = (ad', r) \<Longrightarrow> ad_envelope ad' = ad_envelope ad \<and> events_of ad' = events_of ad"
  by (auto simp: check_workspaces_def Let_def reject_with_def events_of_def fun_eq_iff split: if_splits)

lemma check_rate_cases:
  assumes "check_rate now ws n ad = (ad', r)"
  shows "ad_envelope ad' = ad_envelope ad \<and>
    (events_of ad' = (events_of ad)(ws := live_events now (events_of ad ws)) \<and> isl r \<or>
     events_of ad' = (events_of ad)(ws := live_events now (events_of ad ws) @ replicate n now) \<and>
     of_nat (length (live_events now (events_of ad ws)) + n) \<le> max_accepted_operations_per_second (ad_envelope ad))"
proof -
  let ?es = "live_events now (events_of ad ws)"
  have es: "(case map_of (ad_admitted ad) ws of Some es \<Rightarrow> es | None \<Rightarrow> []) = events_of ad ws" by (simp add: events_of_def)
  show ?thesis
  proof (cases "max_accepted_operations_per_second (ad_envelope ad) < of_nat (length ?es + n)")
    case True
    then show ?thesis using assms
      by (auto simp: check_rate_def Let_def es reject_with_def events_of_set fun_eq_iff)
        (auto simp: set_events_def events_of_def update_conv')
  next
    case False
    then have c: "check_workspaces now ws (set_events ws (?es @ replicate n now) ad) = (ad', r)"
      using assms by (simp add: check_rate_def Let_def es)
    then show ?thesis using check_workspaces_frame [OF c] False
      by (auto simp: events_of_set fun_eq_iff) (simp_all add: set_events_def)
  qed
qed

lemma check_batch_cases:
  assumes "check_batch show_float sat reserved now received ws items ad = (ad', r)"
  shows "check_rate now ws (length items) ad = (ad', r) \<or>
    isl r \<and> ad_envelope ad' = ad_envelope ad \<and> events_of ad' = events_of ad"
  using assms
  by (auto simp: check_batch_def Let_def reject_with_def events_of_def fun_eq_iff split: if_splits option.splits)

lemma logged_from_append: "logged_from (xs @ ys) ws t = logged_from xs ws t + logged_from ys ws t"
  by (simp add: logged_from_def)

lemma in_second_append: "in_second (xs @ ys) ws t = in_second xs ws t + in_second ys ws t"
  by (simp add: in_second_def)

lemma in_second_le_from: "in_second xs ws t \<le> logged_from xs ws t"
  unfolding in_second_def logged_from_def by (induction xs) auto

lemma events_from_le: "events_from es t \<le> length es"
  by (simp add: events_from_def)

lemma admit_step_inv:
  assumes inv: "rate_inv envelope prev s" and le: "prev \<le> ac_now c"
  shows "rate_inv envelope (ac_now c) (admit_step show_float c s)"
proof -
  let ?now = "ac_now c" and ?ws = "ac_workspace c" and ?n = "length (ac_items c)"
  let ?rate = "max_accepted_operations_per_second envelope"
  obtain ad' r where c: "check_batch show_float (ac_saturated c) (ac_reserved c) ?now (ac_received c) ?ws
      (ac_items c) (fst s) = (ad', r)" by (metis prod.exhaust)
  have env: "ad_envelope (fst s) = envelope" using inv by (simp add: rate_inv_def)
  have len: "of_nat (length (events_of (fst s) ws)) \<le> ?rate" for ws using inv by (simp add: rate_inv_def)
  have cov: "logged_from (snd s) ws t \<le> events_from (events_of (fst s) ws) t" if "?now - 1000 < t" for ws t
    using inv le that by (simp add: rate_inv_def)
  have sec: "of_nat (in_second (snd s) ws t) \<le> ?rate" for ws t using inv by (simp add: rate_inv_def)
  have live: "of_nat (length (live_events ?now (events_of (fst s) ws))) \<le> ?rate" for ws
    using len [of ws] length_live [of ?now "events_of (fst s) ws"] by (meson of_nat_mono order_trans)
  show ?thesis
  proof (cases r)
    case (Inl x)
    have "ad_envelope ad' = envelope \<and> (\<forall>ws. of_nat (length (events_of ad' ws)) \<le> ?rate) \<and>
        (\<forall>ws t. ?now - 1000 < t \<longrightarrow> events_from (events_of (fst s) ws) t \<le> events_from (events_of ad' ws) t)"
      using check_batch_cases [OF c]
    proof
      assume "check_rate ?now ?ws ?n (fst s) = (ad', r)"
      from check_rate_cases [OF this] show ?thesis
        using env len live by (auto simp: events_from_live) (auto simp: events_from_def events_from_live [unfolded events_from_def])
    qed (use env len in auto)
    then show ?thesis
      using c Inl cov sec order_trans by (fastforce simp: admit_step_def rate_inv_def)
  next
    case (Inr u)
    then have "check_rate ?now ?ws ?n (fst s) = (ad', r)" using check_batch_cases [OF c] by auto
    from check_rate_cases [OF this] have ev: "ad_envelope ad' = envelope"
      "events_of ad' = (events_of (fst s))(?ws := live_events ?now (events_of (fst s) ?ws) @ replicate ?n ?now)"
      "of_nat (length (live_events ?now (events_of (fst s) ?ws)) + ?n) \<le> ?rate"
      using env Inr by auto
    let ?log = "snd s @ replicate ?n (?ws, ?now)"
    have step: "admit_step show_float c s = (ad', ?log)" using c Inr by (simp add: admit_step_def)
    have len': "of_nat (length (events_of ad' ws)) \<le> ?rate" for ws
      using ev(2,3) len by simp
    have cov': "logged_from ?log ws t \<le> events_from (events_of ad' ws) t" if t: "?now - 1000 < t" for ws t
    proof -
      have "logged_from (replicate ?n (?ws, ?now)) ws t = (if ws = ?ws then events_from (replicate ?n ?now) t else 0)"
        by (simp add: logged_from_def events_from_def filter_replicate)
      then show ?thesis
        using cov [OF t, of ws] events_from_live [OF t, of "events_of (fst s) ?ws"]
        by (auto simp: ev(2) logged_from_append events_from_def)
    qed
    have "of_nat (in_second ?log ws t) \<le> ?rate" for ws t
    proof (cases "t \<le> ?now \<and> ?now < t + 1000")
      case True
      have "in_second ?log ws t \<le> length (events_of ad' ws)"
        using in_second_le_from [of ?log ws t] cov' [of t ws] events_from_le [of "events_of ad' ws" t] True by linarith
      then show ?thesis using len' [of ws] by (meson of_nat_mono order_trans)
    next
      case False
      then have "in_second (replicate ?n (?ws, ?now)) ws t = 0" by (auto simp: in_second_def)
      then show ?thesis using sec by (simp add: in_second_append)
    qed
    then show ?thesis using ev(1) len' cov' by (simp add: step rate_inv_def)
  qed
qed

section \<open>Properties\<close>

text \<open>An admitted batch keeps every bound of the envelope and fits the deadline: the operation,
  geometry and payload bounds hold, the compute it books together with what the lane has reserved
  stays within the compute budget, and elapsed ingest, the fixed stages, the reserved work and the
  booked compute together stay within the one-second deadline.\<close>

lemma admitted_batch_fits:
  assumes "check_batch show_float sat reserved now received ws items ad = (ad', Inr u)" "items \<noteq> []" "0 \<le> reserved"
  shows "int (length items) \<le> max_operations_per_epoch (ad_envelope ad) \<and>
    geometry_touched items \<le> max_geometry_objects_touched_per_epoch (ad_envelope ad) \<and>
    (\<forall>item\<in>set items. payload_size show_float item \<le> max_payload_bytes_per_operation (ad_envelope ad)) \<and>
    predict_epoch_compute_ms items + reserved \<le> fast_compute_budget_ms_per_epoch (ad_envelope ad) \<and>
    max 0 (of_int (now - received)) + FIXED_STAGE_MS + reserved + predict_epoch_compute_ms items
      \<le> DEFAULT_FAST_DEADLINE_BUDGET_MS"
proof -
  have "capacity_reporter (\<lambda>_ :: unit. \<lambda>_. reserved)" by unfold_locales (rule assms(3))
  note fits = capacity_reporter.admitted_fits_deadline
    [OF this, unfolded capacity_reporter.gate_def [OF this], where saturated = "\<lambda>_. sat", OF assms(1,2)]
  note b = check_batch_Inr [OF assms(1)]
  have "payload_size show_float item \<le> max_payload_bytes_per_operation (ad_envelope ad)" if item: "item \<in> set items" for item
  proof -
    obtain i where "i < length items" "items ! i = item" using item by (meson in_set_conv_nth)
    then have "(i, item) \<in> set (enumerate 0 items)" by (auto simp: in_set_enumerate_eq)
    then show ?thesis using b(5) by (fastforce simp: oversized_def find_None_iff)
  qed
  then show ?thesis using fits b by simp
qed

text \<open>C28: the admitted rate holds over every sliding second: whatever sequence of batches is
  presented, with a clock that does not run backwards, no window of one second ever contains more
  admitted operations of a workspace than the envelope allows.\<close>

theorem admitted_rate_bounded:
  assumes "sorted (map ac_now calls)" "0 \<le> max_accepted_operations_per_second envelope"
  shows "of_nat (in_second (admitted_log show_float envelope calls) ws t) \<le> max_accepted_operations_per_second envelope"
proof -
  have "rate_inv envelope (case rev cs of [] \<Rightarrow> 0 | c # _ \<Rightarrow> ac_now c)
      (fold (admit_step show_float) cs (new_admission envelope, []))" if "sorted (map ac_now cs)" for cs
    using that
  proof (induction cs rule: rev_induct)
    case Nil
    then show ?case using assms(2)
      by (simp add: rate_inv_def new_admission_def events_of_def logged_from_def in_second_def)
  next
    case (snoc c cs)
    let ?s = "fold (admit_step show_float) cs (new_admission envelope, [])"
    show ?case
    proof (cases "rev cs")
      case Nil
      then have "rate_inv envelope (ac_now c) ?s" using assms(2)
        by (simp add: rate_inv_def new_admission_def events_of_def logged_from_def in_second_def)
      then show ?thesis using admit_step_inv [of envelope "ac_now c" ?s c] by simp
    next
      case (Cons l ls)
      have "ac_now l \<le> ac_now c" using snoc.prems Cons by (simp add: sorted_append)
      then show ?thesis
        using admit_step_inv [of envelope "ac_now l" ?s c] snoc.IH snoc.prems Cons by (simp add: sorted_append)
    qed
  qed
  from this [OF assms(1)] show ?thesis by (simp add: rate_inv_def admitted_log_def)
qed

definition sample_view :: operation_item where
  "sample_view =
     \<lparr>it_operation_id = ''o1'', it_client_sequence = None, it_base_revision = None,
      it_source_family = ''building_geometry'', it_entity_id = Some ''b1'', it_verb = ''add'',
      it_payload = JObj [(''height_m'', JInt 10)], it_actor_id = ''ann'', it_received_at = Stamp 0\<rparr>"

lemma admitted_batch_fits_witness:
  "\<exists>ad'. check_batch (\<lambda>_. []) False 300 20 0 ''w'' [sample_view] (new_admission default_envelope) = (ad', Inr ()) \<and>
     predict_epoch_compute_ms [sample_view] + 300 \<le> fast_compute_budget_ms_per_epoch default_envelope"
proof -
  let ?c = "check_batch (\<lambda>_. []) False 300 20 0 ''w'' [sample_view] (new_admission default_envelope)"
  have "\<not> isl (snd ?c)" by code_simp
  then obtain ad' where c: "?c = (ad', Inr ())" by (cases ?c) (metis isl_def obj_sumE snd_conv unit_eq)
  have "ad_envelope (new_admission default_envelope) = default_envelope" by (simp add: new_admission_def)
  then show ?thesis using admitted_batch_fits [OF c] c by simp
qed

definition sample_call :: "int \<Rightarrow> nat \<Rightarrow> admission_call" where
  "sample_call now n =
     \<lparr>ac_now = now, ac_received = now, ac_workspace = ''w'', ac_items = replicate n sample_view,
      ac_saturated = False, ac_reserved = 0\<rparr>"

definition sample_calls :: "admission_call list" where
  "sample_calls = [sample_call 0 2, sample_call 500 2, sample_call 1100 2]"

definition slow_envelope :: admission_envelope where
  "slow_envelope = default_envelope\<lparr>max_accepted_operations_per_second := 3\<rparr>"

theorem admitted_rate_bounded_witness:
  "admitted_log (\<lambda>_. []) slow_envelope sample_calls = [(''w'', 0), (''w'', 0), (''w'', 1100), (''w'', 1100)] \<and>
   of_nat (in_second (admitted_log (\<lambda>_. []) slow_envelope sample_calls) ''w'' 200)
     \<le> max_accepted_operations_per_second slow_envelope"
proof -
  have s: "sorted (map ac_now sample_calls)" by (simp add: sample_call_def sample_calls_def)
  have "admitted_log (\<lambda>_. []) slow_envelope sample_calls = [(''w'', 0), (''w'', 0), (''w'', 1100), (''w'', 1100)]"
    by code_simp
  moreover have "0 \<le> max_accepted_operations_per_second slow_envelope" by (simp add: slow_envelope_def)
  ultimately show ?thesis using admitted_rate_bounded [OF s] by blast
qed

text \<open>The cell bound does not see the reducer's paint windows. A land-cover operation whose
  window names its exclusive ends \<open>row_stop\<close> and \<open>col_stop\<close>, the only form the reducer paints,
  counts as no changed cell and books the family constant, however many cells it paints.\<close>

lemma cell_bound_misses_paint_windows:
  assumes "it_source_family item = ''landcover_surface''" "it_payload item = JObj payload"
    "map_of payload ''window'' = Some (JObj window)" "map_of window ''row_end'' = None"
  shows "changed_cells (item # items) = changed_cells items \<and> predict_operation_cost_ms item = 150"
proof -
  have "window_extent window = None" using assms(4) by (simp add: window_extent_def window_int_def)
  then show ?thesis using assms(1-3)
    by (simp add: changed_cells_def predict_operation_cost_ms_def item_window_def family_cost_def FAMILY_FAST_COST_MS_def)
qed

definition sample_brush :: operation_item where
  "sample_brush = sample_view\<lparr>it_source_family := ''landcover_surface'', it_verb := ''paint'',
     it_payload := JObj [(''window'', JObj [(''row_start'', JInt 0), (''row_stop'', JInt 1000),
       (''col_start'', JInt 0), (''col_stop'', JInt 1000)]), (''class_code'', JInt 1)]\<rparr>"

lemma cell_bound_misses_paint_windows_witness:
  "changed_cells [sample_brush] = 0 \<and> predict_operation_cost_ms sample_brush = 150"
proof -
  have "it_source_family sample_brush = ''landcover_surface''"
    "it_payload sample_brush = JObj [(''window'', JObj [(''row_start'', JInt 0), (''row_stop'', JInt 1000),
       (''col_start'', JInt 0), (''col_stop'', JInt 1000)]), (''class_code'', JInt 1)]"
    by (simp_all add: sample_brush_def)
  from cell_bound_misses_paint_windows [OF this, of "[(''row_start'', JInt 0), (''row_stop'', JInt 1000),
       (''col_start'', JInt 0), (''col_stop'', JInt 1000)]" "[]"]
  show ?thesis by (simp add: changed_cells_def)
qed

end
