(* ===== verification/Qualification.thy ===== *)
theory Qualification
  imports Reducer_Contract
begin

text \<open>
  The structural contract of \<open>fast_qualified\<close> payloads, \<open>server/realtime/qualification.py\<close>: the
  validator that lists the defects of a payload, and the contract it decides.
\<close>

definition nonempty_str :: "json option \<Rightarrow> bool" where
  "nonempty_str v = (case v of Some (JStr s) \<Rightarrow> strip_str s \<noteq> [] | _ \<Rightarrow> False)"

definition nonempty_str_seq :: "json option \<Rightarrow> bool" where
  "nonempty_str_seq v =
     (case v of Some (JArr xs) \<Rightarrow> xs \<noteq> [] \<and> list_all (\<lambda>x. nonempty_str (Some x)) xs | _ \<Rightarrow> False)"

definition QUALIFIER_DEFECTS :: "string list" where
  "QUALIFIER_DEFECTS =
     [''missing_qualifier'', ''invalid_qualifier'', ''missing_model_version'', ''missing_form'',
      ''missing_domain'', ''missing_domain_variables'', ''missing_error_evidence'',
      ''invalid_error_evidence'', ''missing_reconciliation'', ''missing_anchor'', ''invalid_anchor'',
      ''missing_base_planes'']"

abbreviation defect_if :: "bool \<Rightarrow> string \<Rightarrow> string list" where
  "defect_if b d \<equiv> if b then [d] else []"

definition domain_defects :: "json option \<Rightarrow> string list" where
  "domain_defects domain =
     (case domain of
        Some (JObj d) \<Rightarrow>
          defect_if (\<not> nonempty_str_seq (map_of d ''families'')) ''missing_domain'' @
          defect_if (\<not> nonempty_str_seq (map_of d ''variables'')) ''missing_domain_variables''
      | _ \<Rightarrow> [''missing_domain''])"

definition evidence_ok :: "json dict \<Rightarrow> bool" where
  "evidence_ok e \<longleftrightarrow>
     (case map_of e ''metrics'' of Some (JObj m) \<Rightarrow> m \<noteq> [] | _ \<Rightarrow> False) \<and>
     (case map_of e ''n_holdout'' of Some (JInt n) \<Rightarrow> 1 \<le> n | _ \<Rightarrow> False) \<and>
     nonempty_str (map_of e ''evidence'')"

definition evidence_defects :: "json option \<Rightarrow> string list" where
  "evidence_defects evidence =
     (case evidence of
        Some (JObj e) \<Rightarrow> defect_if (\<not> evidence_ok e) ''invalid_error_evidence''
      | _ \<Rightarrow> [''missing_error_evidence''])"

definition anchor_defects :: "json option \<Rightarrow> string list" where
  "anchor_defects anchor =
     (case anchor of Some (JInt a) \<Rightarrow> defect_if (a < 0) ''invalid_anchor'' | _ \<Rightarrow> [''missing_anchor''])"

definition base_planes_ok :: "json option \<Rightarrow> bool" where
  "base_planes_ok v = (case v of Some (JObj d) \<Rightarrow> d \<noteq> [] | _ \<Rightarrow> nonempty_str v)"

definition qualifier_defects :: "json dict \<Rightarrow> string list" where
  "qualifier_defects payload =
     (case map_of payload ''qualifier'' of
        None \<Rightarrow> [''missing_qualifier'']
      | Some JNull \<Rightarrow> [''missing_qualifier'']
      | Some (JObj q) \<Rightarrow>
          defect_if (\<not> nonempty_str (map_of q ''model_version'')) ''missing_model_version'' @
          defect_if (\<not> nonempty_str (map_of q ''form'')) ''missing_form'' @
          domain_defects (map_of q ''domain'') @
          evidence_defects (map_of q ''error_evidence'') @
          defect_if (\<not> nonempty_str (map_of q ''reconciliation'')) ''missing_reconciliation'' @
          anchor_defects (map_of payload ''exact_base_revision'') @
          defect_if (\<not> base_planes_ok (map_of payload ''base_planes'')) ''missing_base_planes''
      | Some _ \<Rightarrow> [''invalid_qualifier''])"

section \<open>The contract\<close>

text \<open>What a complete anchored qualifier is, as the module's schema lists it.\<close>

definition qualified_payload :: "json dict \<Rightarrow> bool" where
  "qualified_payload payload \<longleftrightarrow>
     (\<exists>q d e. map_of payload ''qualifier'' = Some (JObj q) \<and>
        nonempty_str (map_of q ''model_version'') \<and> nonempty_str (map_of q ''form'') \<and>
        map_of q ''domain'' = Some (JObj d) \<and>
        nonempty_str_seq (map_of d ''families'') \<and> nonempty_str_seq (map_of d ''variables'') \<and>
        map_of q ''error_evidence'' = Some (JObj e) \<and> evidence_ok e \<and>
        nonempty_str (map_of q ''reconciliation'')) \<and>
     (\<exists>a. map_of payload ''exact_base_revision'' = Some (JInt a) \<and> 0 \<le> a) \<and>
     base_planes_ok (map_of payload ''base_planes'')"

lemma domain_defects_Nil:
  "domain_defects v = [] \<longleftrightarrow>
   (\<exists>d. v = Some (JObj d) \<and> nonempty_str_seq (map_of d ''families'') \<and> nonempty_str_seq (map_of d ''variables''))"
  by (auto simp: domain_defects_def split: option.splits json.splits)

lemma evidence_defects_Nil: "evidence_defects v = [] \<longleftrightarrow> (\<exists>e. v = Some (JObj e) \<and> evidence_ok e)"
  by (auto simp: evidence_defects_def split: option.splits json.splits)

lemma anchor_defects_Nil: "anchor_defects v = [] \<longleftrightarrow> (\<exists>a. v = Some (JInt a) \<and> 0 \<le> a)"
  by (auto simp: anchor_defects_def split: option.splits json.splits)

lemma qualifier_defects_Nil: "qualifier_defects payload = [] \<longleftrightarrow> qualified_payload payload"
proof (cases "\<exists>q. map_of payload ''qualifier'' = Some (JObj q)")
  case True
  then obtain q where q: "map_of payload ''qualifier'' = Some (JObj q)" by blast
  have "qualifier_defects payload = [] \<longleftrightarrow>
      nonempty_str (map_of q ''model_version'') \<and> nonempty_str (map_of q ''form'') \<and>
      domain_defects (map_of q ''domain'') = [] \<and> evidence_defects (map_of q ''error_evidence'') = [] \<and>
      nonempty_str (map_of q ''reconciliation'') \<and> anchor_defects (map_of payload ''exact_base_revision'') = [] \<and>
      base_planes_ok (map_of payload ''base_planes'')"
    by (simp add: qualifier_defects_def q)
  then show ?thesis
    unfolding domain_defects_Nil evidence_defects_Nil anchor_defects_Nil qualified_payload_def by (auto simp: q)
next
  case False
  then have "\<not> qualified_payload payload" by (auto simp: qualified_payload_def)
  moreover have "qualifier_defects payload \<noteq> []"
    using False by (simp add: qualifier_defects_def split: option.split json.split)
  ultimately show ?thesis by simp
qed

lemma part_defects_bounded:
  "set (domain_defects v) \<subseteq> {''missing_domain'', ''missing_domain_variables''}"
  "set (evidence_defects v) \<subseteq> {''missing_error_evidence'', ''invalid_error_evidence''}"
  "set (anchor_defects v) \<subseteq> {''missing_anchor'', ''invalid_anchor''}"
  by (auto simp: domain_defects_def split: option.splits json.splits if_splits)
    (auto simp: evidence_defects_def anchor_defects_def split: option.splits json.splits if_splits)

lemma defects_bounded: "set (qualifier_defects payload) \<subseteq> set QUALIFIER_DEFECTS"
proof (cases "\<exists>q. map_of payload ''qualifier'' = Some (JObj q)")
  case True
  then obtain q where q: "map_of payload ''qualifier'' = Some (JObj q)" by blast
  have parts: "set (domain_defects v) \<subseteq> set QUALIFIER_DEFECTS" "set (evidence_defects v) \<subseteq> set QUALIFIER_DEFECTS"
    "set (anchor_defects v) \<subseteq> set QUALIFIER_DEFECTS" for v
    by (rule order_trans [OF part_defects_bounded(1)], simp add: QUALIFIER_DEFECTS_def)
      (rule order_trans [OF part_defects_bounded(2)], simp add: QUALIFIER_DEFECTS_def,
       rule order_trans [OF part_defects_bounded(3)], simp add: QUALIFIER_DEFECTS_def)
  have one: "set (defect_if b d) \<subseteq> set QUALIFIER_DEFECTS" if "d \<in> set QUALIFIER_DEFECTS" for b d using that by auto
  show ?thesis
    unfolding qualifier_defects_def q option.case json.case set_append
    by (intro Un_least parts one) (simp_all add: QUALIFIER_DEFECTS_def)
next
  case False
  then show ?thesis
    by (simp add: qualifier_defects_def QUALIFIER_DEFECTS_def split: option.split json.split)
qed

text \<open>The validator decides the contract: it reports no defect exactly for the payloads that
  carry a complete anchored qualifier, and every defect it reports is one of the bounded
  vocabulary.\<close>

lemma qualifier_defects_decides:
  "(qualifier_defects payload = [] \<longleftrightarrow> qualified_payload payload) \<and>
   set (qualifier_defects payload) \<subseteq> set QUALIFIER_DEFECTS"
  using qualifier_defects_Nil defects_bounded by blast

end
