(* ===== verification/Fast_Lane.thy ===== *)
theory Fast_Lane
  imports Epochs_Contract Admission_Contract Qualification
begin

text \<open>
  The fast lane, \<open>server/realtime/scheduler.py\<close>: the tail hook of the epoch pipeline, the
  discovery scan with its one-pass grace, the deadline-ordered pass, the kernel ladder and the
  publication, the supersession fence, and the capacity it reports to admission.

  The kernel is a parameter, as it is in the constructor. Times are milliseconds. While a kernel
  runs, other lanes step the store: \<open>env\<close> is what they do between planning and the advance of the
  fast revision. The event broadcast to the hub is returned beside the publication. Telemetry,
  logging and the daemon thread are not modelled; \<open>fl_running\<close> is whether the thread is alive.
\<close>

section \<open>Plans, kernels and publications\<close>

definition FastResultClass :: "string list" where
  "FastResultClass = [''fast_exact'', ''fast_qualified'', ''visual_pending'']"

record fast_plan =
  fp_workspace_id :: string
  fp_epoch_id :: int
  fp_workspace_revision :: int
  fp_canonical_revision :: int
  fp_deadline_at :: int
  fp_now :: int
  fp_families :: "string list"
  fp_operation_count :: nat
  fp_canonical_state :: "family_state dict"

definition remaining_ms :: "fast_plan \<Rightarrow> rat" where
  "remaining_ms plan = of_int (fp_deadline_at plan - fp_now plan)"

record kernel_result =
  kr_result_class :: string
  kr_payload :: "json dict"

record fast_kernel =
  fk_name :: string
  fk_predicted_cost_ms :: "fast_plan \<Rightarrow> rat"
  fk_run :: "fast_plan \<Rightarrow> py_error + kernel_result"

definition classify :: "fast_plan \<Rightarrow> string" where
  "classify plan =
     (if fp_families plan \<noteq> [] \<and> list_all (\<lambda>f. f = ''output_view'') (fp_families plan)
      then ''fast_exact'' else ''visual_pending'')"

definition view_cache_kernel :: fast_kernel where
  "view_cache_kernel =
     \<lparr>fk_name = ''view_cache_v1'', fk_predicted_cost_ms = (\<lambda>_. 1),
      fk_run = (\<lambda>plan. Inr \<lparr>kr_result_class = classify plan,
                          kr_payload = [(''kernel'', JStr ''view_cache_v1'')]\<rparr>)\<rparr>"

record pending_item =
  pi_workspace_id :: string
  pi_epoch_id :: int
  pi_workspace_revision :: int
  pi_deadline_at :: int
  pi_discovered_at :: int
  pi_predicted_ms :: rat
  pi_from_scan :: bool
  pi_deferred :: bool

record fast_publication =
  pb_workspace_id :: string
  pb_epoch_id :: int
  pb_workspace_revision :: int
  pb_fast_revision :: int
  pb_result_class :: string
  pb_exact_revision :: int
  pb_exact_base_revision :: int
  pb_met_deadline :: bool
  pb_latency_ms :: int
  pb_published_at :: int
  pb_payload :: "json dict"

record fast_event =
  fv_publication :: fast_publication
  fv_operations_count :: nat
  fv_families :: "string list"

record fast_lane =
  fl_deadline_ms :: int
  fl_max_pending_workspaces :: nat
  fl_history :: nat
  fl_running :: bool
  fl_pending :: "pending_item dict"
  fl_dropped_wakes :: nat
  fl_published_keys :: "int list dict"
  fl_scan_grace :: "int dict"
  fl_publications :: "fast_publication list dict"
  fl_rr_cursor :: nat

definition new_fast_lane :: "int \<Rightarrow> nat \<Rightarrow> nat \<Rightarrow> fast_lane" where
  "new_fast_lane deadline max_pending history =
     \<lparr>fl_deadline_ms = deadline, fl_max_pending_workspaces = max_pending, fl_history = history,
      fl_running = False, fl_pending = [], fl_dropped_wakes = 0, fl_published_keys = [],
      fl_scan_grace = [], fl_publications = [], fl_rr_cursor = 0\<rparr>"

section \<open>The tail hook\<close>

definition oldest_accepted :: "operation list \<Rightarrow> int option" where
  "oldest_accepted ops =
     (case ops of [] \<Rightarrow> None
      | first # _ \<Rightarrow> (case parse_stamp (op_accepted_at first) of Inr t \<Rightarrow> Some t | Inl _ \<Rightarrow> None))"

definition hook_item :: "int \<Rightarrow> string \<Rightarrow> int \<Rightarrow> epoch_event \<Rightarrow> fast_lane \<Rightarrow> pending_item" where
  "hook_item now ws eid event lane =
     \<lparr>pi_workspace_id = ws, pi_epoch_id = eid, pi_workspace_revision = ee_workspace_revision event,
      pi_deadline_at = (case oldest_accepted (ee_operations event) of Some t \<Rightarrow> t | None \<Rightarrow> now) + fl_deadline_ms lane,
      pi_discovered_at = now, pi_predicted_ms = 0, pi_from_scan = False, pi_deferred = False\<rparr>"

definition already_published :: "fast_lane \<Rightarrow> string \<Rightarrow> int \<Rightarrow> bool" where
  "already_published lane ws revision =
     (case map_of (fl_published_keys lane) ws of
        None \<Rightarrow> False | Some ks \<Rightarrow> ks \<noteq> [] \<and> revision \<le> last ks)"

definition on_epoch_closed :: "int \<Rightarrow> string \<Rightarrow> int \<Rightarrow> epoch_event \<Rightarrow> fast_lane \<Rightarrow> fast_lane" where
  "on_epoch_closed now ws eid event lane =
     (if already_published lane ws (ee_workspace_revision event) then lane
      else if map_of (fl_pending lane) ws = None \<and> fl_max_pending_workspaces lane \<le> length (fl_pending lane)
      then lane\<lparr>fl_dropped_wakes := fl_dropped_wakes lane + 1\<rparr>
      else if (case map_of (fl_pending lane) ws of
                 None \<Rightarrow> True | Some cur \<Rightarrow> pi_workspace_revision cur < ee_workspace_revision event)
      then lane\<lparr>fl_pending := AList.update ws (hook_item now ws eid event lane) (fl_pending lane)\<rparr>
      else lane)"

section \<open>Capacity\<close>

definition booking_item :: "operation_record \<Rightarrow> operation_item" where
  "booking_item r =
     \<lparr>it_operation_id = op_operation_id r, it_client_sequence = op_client_sequence r,
      it_base_revision = op_base_revision r, it_source_family = op_source_family r,
      it_entity_id = op_entity_id r, it_verb = op_verb r, it_payload = op_payload r,
      it_actor_id = op_actor_id r, it_received_at = op_received_at r\<rparr>"

definition lane_reserved_ms :: "fast_lane \<times> store \<Rightarrow> string \<Rightarrow> rat" where
  "lane_reserved_ms s ws =
     (case s of (lane, st) \<Rightarrow>
        if \<not> fl_running lane then 0
        else case map_of (fl_pending lane) ws of
               None \<Rightarrow> 0
             | Some item \<Rightarrow>
                 predict_epoch_compute_ms (map booking_item (operations_for_epoch st ws (pi_epoch_id item))))"

definition lane_saturated :: "fast_lane \<times> store \<Rightarrow> bool" where
  "lane_saturated s \<longleftrightarrow> fl_max_pending_workspaces (fst s) \<le> length (fl_pending (fst s))"

definition pending_workspaces :: "fast_lane \<Rightarrow> string list" where
  "pending_workspaces lane = sort (map fst (fl_pending lane))"

definition latest_publication :: "fast_lane \<Rightarrow> string \<Rightarrow> fast_publication option" where
  "latest_publication lane ws =
     (case map_of (fl_publications lane) ws of
        None \<Rightarrow> None | Some ps \<Rightarrow> if ps = [] then None else Some (last ps))"

definition publications :: "fast_lane \<Rightarrow> string \<Rightarrow> fast_publication list" where
  "publications lane ws = (case map_of (fl_publications lane) ws of None \<Rightarrow> [] | Some ps \<Rightarrow> ps)"

section \<open>Recording\<close>

text \<open>\<open>while len(queue) > bound: queue.popleft()\<close>.\<close>

definition keep_newest :: "nat \<Rightarrow> 'a list \<Rightarrow> 'a list" where
  "keep_newest bound xs = drop (length xs - bound) xs"

definition record_publication :: "fast_publication \<Rightarrow> fast_lane \<Rightarrow> fast_lane" where
  "record_publication pb lane =
     (let ws = pb_workspace_id pb;
          queue = keep_newest (fl_history lane) (publications lane ws @ [pb]);
          keys = keep_newest (4 * fl_history lane)
                   (dict_get (fl_published_keys lane) ws [] @ [pb_workspace_revision pb])
      in lane\<lparr>fl_publications := AList.update ws queue (fl_publications lane),
              fl_published_keys := AList.update ws keys (fl_published_keys lane)\<rparr>)"

section \<open>Discovery\<close>

text \<open>The newest epoch of the lagging range; the loop keeps the first of equal revisions.\<close>

definition due_epoch :: "int \<Rightarrow> int \<Rightarrow> epoch_record option \<Rightarrow> epoch_record \<Rightarrow> epoch_record option" where
  "due_epoch fast scene target epoch =
     (case ep_workspace_revision epoch of
        None \<Rightarrow> target
      | Some v \<Rightarrow>
          if fast < v \<and> v \<le> scene \<and>
             (case target of None \<Rightarrow> True | Some t \<Rightarrow> the (ep_workspace_revision t) < v)
          then Some epoch else target)"

definition scan_target :: "store \<Rightarrow> scenario_record \<Rightarrow> epoch_record option" where
  "scan_target st r =
     foldl (due_epoch (sc_fast_revision r) (sc_scene_version r)) None (epoch_records st (sc_scenario_id r))"

definition scan_item :: "int \<Rightarrow> fast_lane \<Rightarrow> store \<Rightarrow> string \<Rightarrow> epoch_record \<Rightarrow> py_error + pending_item" where
  "scan_item now lane st ws target =
     (let anchor = (case operations_for_epoch st ws (ep_epoch_id target) of
            [] \<Rightarrow> Inr now | first # _ \<Rightarrow> parse_stamp (op_accepted_at first))
      in map_sum id (\<lambda>t.
           \<lparr>pi_workspace_id = ws, pi_epoch_id = ep_epoch_id target,
            pi_workspace_revision = the (ep_workspace_revision target),
            pi_deadline_at = t + fl_deadline_ms lane, pi_discovered_at = now, pi_predicted_ms = 0,
            pi_from_scan = True, pi_deferred = False\<rparr>) anchor)"

definition scan_step :: "int \<Rightarrow> fast_lane \<Rightarrow> store \<Rightarrow> pending_item list \<Rightarrow> scenario_record \<Rightarrow> py_error + pending_item list" where
  "scan_step now lane st items r =
     (case scan_target st r of
        None \<Rightarrow> Inr items
      | Some target \<Rightarrow> map_sum id (\<lambda>i. items @ [i]) (scan_item now lane st (sc_scenario_id r) target))"

definition scan :: "int \<Rightarrow> fast_lane \<Rightarrow> store \<Rightarrow> py_error + pending_item list" where
  "scan now lane st = fold_exc (scan_step now lane st) [] (scenarios_with_fast_lag st)"

text \<open>Mirroring one scanned item into the pending map, with the grace bookkeeping.\<close>

definition mirror_item :: "fast_lane \<times> pending_item list \<Rightarrow> pending_item \<Rightarrow> fast_lane \<times> pending_item list" where
  "mirror_item s item =
     (case s of (lane, items) \<Rightarrow>
        let ws = pi_workspace_id item;
            hooked = (case map_of (fl_pending lane) ws of
                Some e \<Rightarrow> if pi_workspace_revision e = pi_workspace_revision item \<and> \<not> pi_from_scan e
                          then Some e else None
              | None \<Rightarrow> None)
        in case hooked of
             Some e \<Rightarrow> (lane, items @ [e])
           | None \<Rightarrow>
               (let fresh = (map_of (fl_scan_grace lane) ws \<noteq> Some (pi_workspace_revision item));
                    item' = (if fresh then item\<lparr>pi_deferred := True\<rparr> else item);
                    grace = (if fresh then AList.update ws (pi_workspace_revision item) (fl_scan_grace lane)
                             else fl_scan_grace lane)
                in (lane\<lparr>fl_pending := AList.update ws item' (fl_pending lane), fl_scan_grace := grace\<rparr>,
                    items @ [item'])))"

definition discover :: "int \<Rightarrow> store \<Rightarrow> fast_lane \<Rightarrow> py_error + fast_lane \<times> pending_item list" where
  "discover now st lane =
     map_sum id (foldl mirror_item (lane, [])) (scan now lane st)"

section \<open>Publishing\<close>

text \<open>\<open>tuple(dict.fromkeys(xs))\<close>: first occurrences, in order.\<close>

definition fromkeys :: "'a list \<Rightarrow> 'a list" where
  "fromkeys xs = rev (remdups (rev xs))"

definition make_plan :: "int \<Rightarrow> store \<Rightarrow> pending_item \<Rightarrow> int \<Rightarrow> fast_plan" where
  "make_plan now st item revision =
     (let ws = pi_workspace_id item;
          ops = operations_for_epoch st ws (pi_epoch_id item);
          canonical = latest_canonical_state st ws
      in \<lparr>fp_workspace_id = ws, fp_epoch_id = pi_epoch_id item, fp_workspace_revision = revision,
          fp_canonical_revision = (case canonical of Some c \<Rightarrow> cs_workspace_revision c | None \<Rightarrow> 0),
          fp_deadline_at = pi_deadline_at item, fp_now = now,
          fp_families = fromkeys (map op_source_family ops), fp_operation_count = length ops,
          fp_canonical_state = (case canonical of Some c \<Rightarrow> cs_families c | None \<Rightarrow> [])\<rparr>)"

text \<open>The degradation ladder: a kernel that cannot finish in time does not run, and a qualified
  result without a complete qualifier is downgraded.\<close>

definition run_kernel :: "fast_kernel \<Rightarrow> fast_plan \<Rightarrow> py_error + string \<times> json dict" where
  "run_kernel krn plan =
     (let predicted = fk_predicted_cost_ms krn plan; remaining = remaining_ms plan in
      if remaining < predicted
      then Inr (''visual_pending'',
             [(''kernel'', JStr (fk_name krn)), (''downgraded'', JBool True),
              (''predicted_ms'', JFloat predicted), (''remaining_ms'', JFloat remaining)])
      else map_sum id (\<lambda>res.
             let cls = kr_result_class res; payload = kr_payload res; defects = qualifier_defects payload
             in if cls = ''fast_qualified'' \<and> defects \<noteq> []
                then (''visual_pending'',
                      AList.update ''downgrade_reasons'' (JArr (map JStr defects))
                        (AList.update ''downgraded'' (JBool True) payload))
                else (cls, payload)) (fk_run krn plan))"

definition anchored_base :: "string \<Rightarrow> json dict \<Rightarrow> int \<Rightarrow> int" where
  "anchored_base cls payload exact_now =
     (if cls = ''fast_qualified'' then
        (case map_of payload ''exact_base_revision'' of
           Some (JInt a) \<Rightarrow> if 0 \<le> a \<and> a \<le> exact_now then a else exact_now
         | _ \<Rightarrow> exact_now)
      else exact_now)"

definition settle_pending :: "string \<Rightarrow> int \<Rightarrow> fast_lane \<Rightarrow> fast_lane" where
  "settle_pending ws revision lane =
     lane\<lparr>fl_pending := AList.delete ws (fl_pending lane),
          fl_scan_grace :=
            (case map_of (fl_scan_grace lane) ws of
               Some g \<Rightarrow> if g \<le> revision then AList.delete ws (fl_scan_grace lane) else fl_scan_grace lane
             | None \<Rightarrow> fl_scan_grace lane)\<rparr>"

type_synonym publish_out = "store \<times> fast_lane \<times> (py_error + fast_event option)"

text \<open>The transaction and what follows it; \<open>exact_revision\<close> was read with the plan.\<close>

definition land_publication ::
  "clock \<Rightarrow> int \<Rightarrow> pending_item \<Rightarrow> int \<Rightarrow> int \<Rightarrow> string \<Rightarrow> json dict \<Rightarrow> operation_record list \<Rightarrow> string list
   \<Rightarrow> store \<Rightarrow> fast_lane \<Rightarrow> publish_out" where
  "land_publication clk published_at item revision exact_revision cls payload operations families st lane =
     (let ws = pi_workspace_id item in
      case advance_fast_revision clk ws revision exact_revision (Some (Stamp published_at)) st of
        (st', None) \<Rightarrow> (st', lane, Inr None)
      | (st', Some adv) \<Rightarrow>
          (case (case operations of [] \<Rightarrow> Inr published_at | first # _ \<Rightarrow> parse_stamp (op_accepted_at first)) of
             Inl e \<Rightarrow> (st', lane, Inl e)
           | Inr taken \<Rightarrow>
               (let latency = max 0 (published_at - taken);
                    pb = \<lparr>pb_workspace_id = ws, pb_epoch_id = pi_epoch_id item,
                          pb_workspace_revision = revision, pb_fast_revision = fa_fast_revision adv,
                          pb_result_class = cls, pb_exact_revision = fa_exact_revision adv,
                          pb_exact_base_revision = anchored_base cls payload (fa_exact_revision adv),
                          pb_met_deadline = (latency \<le> fl_deadline_ms lane), pb_latency_ms = latency,
                          pb_published_at = published_at, pb_payload = payload\<rparr>
                in (st', settle_pending ws revision (record_publication pb lane),
                    Inr (Some \<lparr>fv_publication = pb, fv_operations_count = length operations,
                               fv_families = families\<rparr>)))))"

definition publish_fast ::
  "fast_kernel \<Rightarrow> clock \<Rightarrow> (store \<Rightarrow> store) \<Rightarrow> int \<Rightarrow> int \<Rightarrow> pending_item \<Rightarrow> store \<Rightarrow> fast_lane \<Rightarrow> publish_out" where
  "publish_fast krn clk env now published_at item st lane =
     (let ws = pi_workspace_id item in
      case get_epoch st ws (pi_epoch_id item) of
        None \<Rightarrow> (st, lane, Inr None)
      | Some epoch \<Rightarrow>
          (case ep_workspace_revision epoch of
             None \<Rightarrow> (st, lane, Inr None)
           | Some revision \<Rightarrow>
               (case get_scenario st ws of
                  None \<Rightarrow> (st, lane, Inr None)
                | Some scenario \<Rightarrow>
                    if sc_scene_version scenario < revision then (st, lane, Inr None)
                    else
                      let plan = make_plan now st item revision;
                          st1 = (if ep_status epoch = ''reducing''
                                 then (case mark_epoch_status clk ws (pi_epoch_id item) ''fast_planned''
                                              (Some revision) st of Inr (s, _) \<Rightarrow> s | Inl _ \<Rightarrow> st)
                                 else st)
                      in case run_kernel krn plan of
                           Inl e \<Rightarrow> (st1, lane, Inl e)
                         | Inr (cls, payload) \<Rightarrow>
                             let exact_revision = sc_exact_result_version scenario;
                                 cls' = (if revision \<le> exact_revision then ''fast_exact'' else cls)
                             in land_publication clk published_at item revision exact_revision cls' payload
                                  (operations_for_epoch st ws (pi_epoch_id item)) (fp_families plan)
                                  (env st1) lane)))"

section \<open>The pass\<close>

definition superseding :: "int \<Rightarrow> int \<Rightarrow> fast_publication \<Rightarrow> fast_publication" where
  "superseding published_at exact_revision pb =
     pb\<lparr>pb_result_class := ''fast_exact'', pb_exact_revision := exact_revision,
        pb_exact_base_revision := exact_revision, pb_met_deadline := True, pb_latency_ms := 0,
        pb_published_at := published_at,
        pb_payload :=
          [(''kernel'', JStr ''supersession_fence''), (''superseded_qualified'', JBool True),
           (''superseded_result_class'', JStr ''fast_qualified''), (''exact_revision'', JInt exact_revision),
           (''qualified_exact_base_revision'', JInt (pb_exact_base_revision pb))]\<rparr>"

definition supersede_one :: "int \<Rightarrow> store \<Rightarrow> string \<Rightarrow> fast_lane \<times> fast_event list \<Rightarrow> fast_lane \<times> fast_event list" where
  "supersede_one published_at st ws s =
     (case s of (lane, events) \<Rightarrow>
        case latest_publication lane ws of
          None \<Rightarrow> (lane, events)
        | Some pb \<Rightarrow>
            if pb_result_class pb \<noteq> ''fast_qualified'' then (lane, events)
            else case get_scenario st ws of
                   None \<Rightarrow> (lane, events)
                 | Some r \<Rightarrow>
                     if sc_exact_result_version r < pb_workspace_revision pb then (lane, events)
                     else let pb' = superseding published_at (sc_exact_result_version r) pb
                          in (record_publication pb' lane,
                              events @ [\<lparr>fv_publication = pb', fv_operations_count = 0, fv_families = []\<rparr>]))"

definition supersede_stale_qualified :: "int \<Rightarrow> store \<Rightarrow> fast_lane \<Rightarrow> fast_lane \<times> fast_event list" where
  "supersede_stale_qualified published_at st lane =
     fold (supersede_one published_at st) (map fst (fl_publications lane)) (lane, [])"

definition fair_rotate :: "pending_item list \<Rightarrow> fast_lane \<Rightarrow> fast_lane \<times> pending_item list" where
  "fair_rotate items lane =
     (case items of
        [] \<Rightarrow> (lane, items)
      | first # _ \<Rightarrow>
          (let span = length (takeWhile (\<lambda>i. pi_deadline_at i = pi_deadline_at first) items) in
           if span < 2 then (lane, items)
           else let offset = (fl_rr_cursor lane + 1) mod span
                in (lane\<lparr>fl_rr_cursor := offset\<rparr>,
                    drop offset (take span items) @ take offset items @ drop span items)))"

type_synonym pass_state = "store \<times> fast_lane \<times> fast_event list"

text \<open>The two clock readings of each publication are \<open>tick ws\<close>: at planning and at publication.\<close>

definition pass_item ::
  "fast_kernel \<Rightarrow> clock \<Rightarrow> (string \<Rightarrow> store \<Rightarrow> store) \<Rightarrow> (string \<Rightarrow> int \<times> int) \<Rightarrow> pending_item \<Rightarrow> pass_state \<Rightarrow> pass_state" where
  "pass_item krn clk env tick item s =
     (case s of (st, lane, events) \<Rightarrow>
        let ws = pi_workspace_id item in
        case publish_fast krn clk (env ws) (fst (tick ws)) (snd (tick ws)) item st lane of
          (st', lane', Inr (Some ev)) \<Rightarrow> (st', lane', events @ [ev])
        | (st', lane', _) \<Rightarrow> (st', lane', events))"

definition order_ready :: "pending_item list \<Rightarrow> pending_item list" where
  "order_ready items = sort_key (\<lambda>i. (pi_deadline_at i, pi_workspace_id i)) items"

definition lane_pass ::
  "fast_kernel \<Rightarrow> clock \<Rightarrow> (string \<Rightarrow> store \<Rightarrow> store) \<Rightarrow> (string \<Rightarrow> int \<times> int) \<Rightarrow> int \<Rightarrow> store \<Rightarrow> fast_lane
   \<Rightarrow> pass_state \<times> py_error option" where
  "lane_pass krn clk env tick now st lane =
     (case supersede_stale_qualified now st lane of (lane1, events) \<Rightarrow>
        case discover now st lane1 of
          Inl e \<Rightarrow> ((st, lane1, events), Some e)
        | Inr (lane2, items) \<Rightarrow>
            (case fair_rotate (order_ready (filter (\<lambda>i. \<not> pi_deferred i) items)) lane2 of (lane3, ordered) \<Rightarrow>
               (fold (pass_item krn clk env tick) ordered (st, lane3, events), None)))"

end
