(* ===== verification/Fast_Lane_Contract.thy ===== *)
theory Fast_Lane_Contract
  imports Fast_Lane
begin

text \<open>
  What the fast lane promises: it implements admission's capacity interface, the tail hook accounts
  for every wake, scan-discovered revisions wait exactly one pass, and a published frame never
  claims more than it has: its revisions are ordered, a qualified class comes with a complete
  qualifier, and a kernel that cannot meet the deadline does not run.
\<close>

section \<open>Capacity\<close>

lemma epoch_compute_nonneg: "0 \<le> predict_epoch_compute_ms items"
  using epoch_compute_pos [of items] by (cases "items = []") (auto simp: predict_epoch_compute_ms_def)

interpretation lane_capacity: capacity_reporter lane_reserved_ms lane_saturated
  by unfold_locales (auto simp: lane_reserved_ms_def epoch_compute_nonneg split: prod.splits option.splits)

text \<open>Admission and the fast lane agree. A batch admitted against the lane's own report finds the
  lane below its pending bound, and what the lane still owes the workspace together with what the
  batch books stays within the compute budget and, with the elapsed ingest and the fixed stages,
  within the one-second deadline.\<close>

lemma lane_admission_fits:
  assumes "check_batch show_float (lane_saturated (lane, st)) (lane_reserved_ms (lane, st) ws) now received ws items ad =
      (ad', Inr u)" "items \<noteq> []"
  shows "length (fl_pending lane) < fl_max_pending_workspaces lane \<and>
    predict_epoch_compute_ms items + lane_reserved_ms (lane, st) ws \<le> fast_compute_budget_ms_per_epoch (ad_envelope ad) \<and>
    max 0 (of_int (now - received)) + FIXED_STAGE_MS + lane_reserved_ms (lane, st) ws + predict_epoch_compute_ms items
      \<le> DEFAULT_FAST_DEADLINE_BUDGET_MS"
  using lane_capacity.admitted_fits_deadline [unfolded lane_capacity.gate_def, OF assms]
    check_batch_Inr(1) [OF assms(1)]
  by (simp add: lane_saturated_def)

section \<open>The tail hook\<close>

text \<open>The hook accounts for every wake: either the revision was already published and nothing
  changes, or a revision at least as new is pending for the workspace, or the wake is counted as
  dropped and nothing else changes; and the pending map never grows past its bound.\<close>

lemma on_epoch_closed_accounts:
  "(already_published lane ws (ee_workspace_revision event) \<and> on_epoch_closed now ws eid event lane = lane \<or>
    (\<exists>e. map_of (fl_pending (on_epoch_closed now ws eid event lane)) ws = Some e \<and>
       ee_workspace_revision event \<le> pi_workspace_revision e) \<or>
    on_epoch_closed now ws eid event lane = lane\<lparr>fl_dropped_wakes := fl_dropped_wakes lane + 1\<rparr>) \<and>
   length (fl_pending (on_epoch_closed now ws eid event lane)) \<le>
     max (length (fl_pending lane)) (fl_max_pending_workspaces lane)"
proof -
  have size: "length (AList.update ws x d) \<le> Suc (length d)" "map_of d ws \<noteq> None \<Longrightarrow> length (AList.update ws x d) = length d"
    for x :: pending_item and d by (induction d) auto
  show ?thesis
  proof (cases "map_of (fl_pending lane) ws")
    case None
    then show ?thesis using size(1) [of "hook_item now ws eid event lane" "fl_pending lane"]
      by (auto simp: on_epoch_closed_def update_conv' hook_item_def)
  next
    case (Some e)
    then show ?thesis using size(2) [of "fl_pending lane" "hook_item now ws eid event lane"]
      by (auto simp: on_epoch_closed_def update_conv' hook_item_def)
  qed
qed

section \<open>Publications\<close>

lemma run_kernel_late:
  "remaining_ms plan < fk_predicted_cost_ms krn plan \<Longrightarrow> run_kernel krn plan = Inr (cls, payload) \<Longrightarrow>
   cls = ''visual_pending''"
  by (simp add: run_kernel_def Let_def)

lemma run_kernel_class:
  assumes "run_kernel krn plan = Inr (cls, payload)" "cls = ''fast_qualified''"
  shows "qualified_payload payload"
proof (cases "fk_run krn plan")
  case (Inr res)
  show ?thesis
    using assms Inr qualifier_defects_Nil [of payload]
    by (cases "remaining_ms plan < fk_predicted_cost_ms krn plan";
        cases "kr_result_class res = ''fast_qualified'' \<and> qualifier_defects (kr_payload res) \<noteq> []")
      (auto simp: run_kernel_def Let_def)
qed (use assms in \<open>auto simp: run_kernel_def Let_def split: if_splits\<close>)

lemma anchored_base_bounds: "0 \<le> exact \<Longrightarrow> 0 \<le> anchored_base cls payload exact \<and> anchored_base cls payload exact \<le> exact"
  by (auto simp: anchored_base_def split: option.split json.split)

lemma land_publicationE:
  assumes "land_publication clk t item revision exact cls payload operations families st lane = (st', lane', Inr (Some ev))"
  obtains adv where "advance_fast_revision clk (pi_workspace_id item) revision exact (Some (Stamp t)) st = (st', Some adv)"
    "pb_workspace_revision (fv_publication ev) = revision" "pb_fast_revision (fv_publication ev) = fa_fast_revision adv"
    "pb_result_class (fv_publication ev) = cls" "pb_exact_revision (fv_publication ev) = fa_exact_revision adv"
    "pb_exact_base_revision (fv_publication ev) = anchored_base cls payload (fa_exact_revision adv)"
    "pb_payload (fv_publication ev) = payload" "pb_workspace_id (fv_publication ev) = pi_workspace_id item"
    "pb_epoch_id (fv_publication ev) = pi_epoch_id item"
    "map_of (fl_pending lane') (pi_workspace_id item) = None"
  using assms
  by (auto simp: land_publication_def Let_def settle_pending_def delete_conv split: prod.splits option.splits sum.splits)

text \<open>A frame that claims no more than the store and its payload back.\<close>

definition frame_ok :: "store \<Rightarrow> fast_publication \<Rightarrow> bool" where
  "frame_ok st pb \<longleftrightarrow>
     (\<exists>r. get_scenario st (pb_workspace_id pb) = Some r \<and> sc_fast_revision r = pb_fast_revision pb \<and>
        pb_fast_revision pb \<le> sc_scene_version r \<and> pb_exact_revision pb = sc_exact_result_version r) \<and>
     pb_workspace_revision pb \<le> pb_fast_revision pb \<and> pb_exact_revision pb \<le> pb_fast_revision pb \<and>
     0 \<le> pb_exact_base_revision pb \<and> pb_exact_base_revision pb \<le> pb_exact_revision pb \<and>
     (pb_result_class pb = ''fast_qualified'' \<longrightarrow> qualified_payload (pb_payload pb))"

lemma land_publication_frame:
  assumes ok: "versions_ok st" and sc: "get_scenario st (pi_workspace_id item) = Some r"
    and exact: "exact \<le> sc_scene_version r" and q: "cls = ''fast_qualified'' \<Longrightarrow> qualified_payload payload"
    and l: "land_publication clk t item revision exact cls payload operations families st lane = (st', lane', Inr (Some ev))"
  shows "frame_ok st' (fv_publication ev)"
proof -
  obtain adv where adv: "advance_fast_revision clk (pi_workspace_id item) revision exact (Some (Stamp t)) st = (st', Some adv)"
    and pb: "pb_workspace_revision (fv_publication ev) = revision" "pb_fast_revision (fv_publication ev) = fa_fast_revision adv"
    "pb_result_class (fv_publication ev) = cls" "pb_exact_revision (fv_publication ev) = fa_exact_revision adv"
    "pb_exact_base_revision (fv_publication ev) = anchored_base cls payload (fa_exact_revision adv)"
    "pb_payload (fv_publication ev) = payload" "pb_workspace_id (fv_publication ev) = pi_workspace_id item"
    by (rule land_publicationE [OF l]) (rule that)
  have row: "row_ok r" using ok sc scenarios_ok_row by (auto simp: versions_ok_def)
  from adv obtain f u where f: "revision \<le> sc_scene_version r"
    "f = max (max (max (sc_fast_revision r) revision) (sc_exact_result_version r)) exact"
    "st' = update_scenario (pi_workspace_id item) (fast_row f (sc_exact_result_version r) u) st"
    "fa_fast_revision adv = f" "fa_exact_revision adv = sc_exact_result_version r"
    using sc by (cases rule: advance_cases [of clk "pi_workspace_id item" revision exact "Some (Stamp t)" st]) auto
  have "get_scenario st' (pi_workspace_id item) = Some (fast_row f (sc_exact_result_version r) u r)"
    using sc by (simp add: f(3) get_scenario_update [of "fast_row f (sc_exact_result_version r) u"])
  moreover have "revision \<le> f" "sc_exact_result_version r \<le> f" "f \<le> sc_scene_version r" "0 \<le> sc_exact_result_version r"
    using row exact f(1) by (auto simp: f(2) row_ok_def)
  ultimately show ?thesis
    using q anchored_base_bounds [of "sc_exact_result_version r" cls payload]
    by (auto simp: frame_ok_def pb f(4,5))
qed

lemma store_run_trans: "store_run a b \<Longrightarrow> store_run b c \<Longrightarrow> store_run a c"
  by (rotate_tac, induction rule: store_run.induct) (auto intro: store_run.intros)

lemma plan_mark_run:
  assumes "get_epoch st ws eid = Some e" "ep_workspace_revision e = Some revision"
  shows "store_run st (case mark_epoch_status clk ws eid ''fast_planned'' (Some revision) st of Inr (s, b) \<Rightarrow> s | Inl x \<Rightarrow> st)"
proof -
  obtain s b where "mark_epoch_status clk ws eid ''fast_planned'' (Some revision) st = Inr (s, b)"
    by (simp add: mark_epoch_status_def EpochStatus_def)
  moreover have "legal_mark st ws eid ''fast_planned'' (Some revision)"
    using assms by (auto simp: legal_mark_def)
  ultimately show ?thesis using run_step [OF run_refl step_mark] by force
qed

lemma land_publication_store:
  "land_publication clk t item revision exact cls payload operations families st lane = (st', lane', out) \<Longrightarrow>
   \<exists>adv. advance_fast_revision clk (pi_workspace_id item) revision exact (Some (Stamp t)) st = (st', adv)"
  by (auto simp: land_publication_def Let_def split: prod.splits option.splits sum.splits)

text \<open>The paths through \<open>publish_fast\<close>: nothing due, a kernel that raises, and the transaction on
  the store the other lanes left.\<close>

lemma publish_fast_cases:
  assumes "publish_fast krn clk env now t item st lane = (st', lane', out)"
  obtains (skip) "st' = st" "lane' = lane" "out = Inr None"
    | (raised) st1 err where "store_run st st1" "st' = st1" "lane' = lane" "out = Inl err"
    | (landed) st1 r revision cls payload where "store_run st st1" "get_scenario st (pi_workspace_id item) = Some r"
        "run_kernel krn (make_plan now st item revision) = Inr (cls, payload)"
        "land_publication clk t item revision (sc_exact_result_version r)
           (if revision \<le> sc_exact_result_version r then ''fast_exact'' else cls) payload
           (operations_for_epoch st (pi_workspace_id item) (pi_epoch_id item))
           (fp_families (make_plan now st item revision)) (env st1) lane = (st', lane', out)"
proof (cases "\<exists>e revision r. get_epoch st (pi_workspace_id item) (pi_epoch_id item) = Some e \<and>
    ep_workspace_revision e = Some revision \<and> get_scenario st (pi_workspace_id item) = Some r \<and>
    \<not> sc_scene_version r < revision")
  case True
  then obtain e revision r where e: "get_epoch st (pi_workspace_id item) (pi_epoch_id item) = Some e"
    "ep_workspace_revision e = Some revision" "get_scenario st (pi_workspace_id item) = Some r"
    "\<not> sc_scene_version r < revision" by blast
  define st1 where "st1 = (if ep_status e = ''reducing''
      then (case mark_epoch_status clk (pi_workspace_id item) (pi_epoch_id item) ''fast_planned'' (Some revision) st of
              Inr (s, _) \<Rightarrow> s | Inl _ \<Rightarrow> st) else st)"
  have run: "store_run st st1"
    using plan_mark_run [OF e(1,2), of clk] by (simp add: st1_def run_refl)
  show thesis
  proof (cases "run_kernel krn (make_plan now st item revision)")
    case (Inl err)
    then show thesis
      using assms e by (intro raised [OF run, of err]) (simp_all add: publish_fast_def Let_def flip: st1_def)
  next
    case (Inr res)
    obtain cls payload where res: "res = (cls, payload)" by fastforce
    show thesis
      by (rule landed [OF run e(3), of revision cls payload])
        (use assms e Inr in \<open>simp_all add: publish_fast_def Let_def res flip: st1_def\<close>)
  qed
next
  case False
  then show thesis using assms skip
    by (auto simp: publish_fast_def Let_def split: option.splits if_splits)
qed

text \<open>C7: a publication is sound whatever the other lanes do to the store while the kernel runs. The
  store only takes legal steps, and a published frame claims no more than is durable: its fast
  revision is the scenario's and within the scene, the exact revision is the scenario's, the anchor
  is within it, a qualified class carries a complete qualifier, and a kernel predicted to miss the
  deadline yields a placeholder unless the exact result already covers the revision.\<close>

theorem publish_fast_sound:
  assumes "reachable st" and env: "\<forall>s. store_run s (env s)"
    and p: "publish_fast krn clk env now t item st lane = (st', lane', out)"
  shows "reachable st' \<and> (\<forall>ev. out = Inr (Some ev) \<longrightarrow>
      frame_ok st' (fv_publication ev) \<and>
      (remaining_ms (make_plan now st item (pb_workspace_revision (fv_publication ev)))
         < fk_predicted_cost_ms krn (make_plan now st item (pb_workspace_revision (fv_publication ev))) \<longrightarrow>
       pb_result_class (fv_publication ev) = ''visual_pending'' \<or>
       pb_result_class (fv_publication ev) = ''fast_exact'' \<and>
       (\<exists>r. get_scenario st (pi_workspace_id item) = Some r \<and>
          pb_workspace_revision (fv_publication ev) \<le> sc_exact_result_version r)))"
  using p
proof (cases rule: publish_fast_cases)
  case (landed st1 r revision cls payload)
  have run: "store_run st (env st1)" using store_run_trans [OF landed(1)] env by blast
  have reach: "reachable (env st1)" using assms(1) run store_run_trans by (auto simp: reachable_def)
  have le: "scenes_le st (env st1)" "row_ok r"
    using store_run_ok [OF run] reachable_ok [OF assms(1)] landed(2) scenarios_ok_row
    by (auto simp: versions_ok_def)
  obtain r1 where r1: "get_scenario (env st1) (pi_workspace_id item) = Some r1"
    "sc_exact_result_version r \<le> sc_scene_version r1"
    using le landed(2) by (fastforce simp: scenes_le_def scene_of_def row_ok_def)
  let ?cls = "if revision \<le> sc_exact_result_version r then ''fast_exact'' else cls"
  have q: "?cls = ''fast_qualified'' \<Longrightarrow> qualified_payload payload"
    using run_kernel_class [OF landed(3)] by (simp split: if_splits)
  have "reachable st'"
    using land_publication_store [OF landed(4)] reach r1
      run_step [OF _ step_fast, of empty_store "env st1" "pi_workspace_id item" "sc_exact_result_version r"]
    by (auto simp: reachable_def scene_of_def)
  moreover have "frame_ok st' (fv_publication ev)" if "out = Inr (Some ev)" for ev
    using land_publication_frame [OF _ r1 q] landed(4) reachable_ok [OF reach] that by simp
  moreover have "pb_workspace_revision (fv_publication ev) = revision" "pb_result_class (fv_publication ev) = ?cls"
    if "out = Inr (Some ev)" for ev
    using landed(4) that by (auto elim!: land_publicationE)
  ultimately show ?thesis using run_kernel_late [OF _ landed(3)] landed(2) by simp
qed (use assms(1) in \<open>auto simp: reachable_def intro: store_run_trans\<close>)

section \<open>Discovery and its grace\<close>

abbreviation item_key :: "pending_item \<Rightarrow> string \<times> int" where
  "item_key i \<equiv> (pi_workspace_id i, pi_workspace_revision i)"

abbreviation due_item :: "pending_item \<Rightarrow> bool" where
  "due_item i \<equiv> pi_from_scan i \<and> \<not> pi_deferred i"

text \<open>What one scanned item becomes, and whether the hook already announced its revision.\<close>

definition hooked :: "fast_lane \<Rightarrow> pending_item \<Rightarrow> pending_item option" where
  "hooked lane item =
     (case map_of (fl_pending lane) (pi_workspace_id item) of
        Some e \<Rightarrow> if pi_workspace_revision e = pi_workspace_revision item \<and> \<not> pi_from_scan e then Some e else None
      | None \<Rightarrow> None)"

definition grace_spent :: "fast_lane \<Rightarrow> pending_item \<Rightarrow> bool" where
  "grace_spent lane item \<longleftrightarrow> map_of (fl_scan_grace lane) (pi_workspace_id item) = Some (pi_workspace_revision item)"

definition mirrored :: "fast_lane \<Rightarrow> pending_item \<Rightarrow> pending_item" where
  "mirrored lane item =
     (case hooked lane item of
        Some e \<Rightarrow> e
      | None \<Rightarrow> if grace_spent lane item then item else item\<lparr>pi_deferred := True\<rparr>)"

lemma mirror_item_facts:
  assumes "mirror_item (lane, items) item = (lane', items')"
  shows "items' = items @ [mirrored lane item]"
    "map_of (fl_pending lane') (pi_workspace_id item) = Some (mirrored lane item)"
    "hooked lane item = None \<Longrightarrow> grace_spent lane' item"
    "ws \<noteq> pi_workspace_id item \<Longrightarrow> map_of (fl_pending lane') ws = map_of (fl_pending lane) ws \<and>
       map_of (fl_scan_grace lane') ws = map_of (fl_scan_grace lane) ws"
proof -
  have eq: "mirror_item (lane, items) item =
      (case hooked lane item of
         Some e \<Rightarrow> (lane, items @ [e])
       | None \<Rightarrow>
           (lane\<lparr>fl_pending := AList.update (pi_workspace_id item) (mirrored lane item) (fl_pending lane),
                 fl_scan_grace := (if grace_spent lane item then fl_scan_grace lane
                   else AList.update (pi_workspace_id item) (pi_workspace_revision item) (fl_scan_grace lane))\<rparr>,
            items @ [mirrored lane item]))"
    unfolding mirror_item_def Let_def hooked_def mirrored_def grace_spent_def
    by (simp split: option.split)
  show "items' = items @ [mirrored lane item]"
    "map_of (fl_pending lane') (pi_workspace_id item) = Some (mirrored lane item)"
    "hooked lane item = None \<Longrightarrow> grace_spent lane' item"
    "ws \<noteq> pi_workspace_id item \<Longrightarrow> map_of (fl_pending lane') ws = map_of (fl_pending lane) ws \<and>
       map_of (fl_scan_grace lane') ws = map_of (fl_scan_grace lane) ws"
    using assms unfolding eq
    by (auto simp: mirrored_def grace_spent_def hooked_def update_conv' split: option.splits if_splits)
qed

lemma mirrored_cong:
  "map_of (fl_pending lane') (pi_workspace_id x) = map_of (fl_pending lane) (pi_workspace_id x) \<Longrightarrow>
   map_of (fl_scan_grace lane') (pi_workspace_id x) = map_of (fl_scan_grace lane) (pi_workspace_id x) \<Longrightarrow>
   mirrored lane' x = mirrored lane x \<and> hooked lane' x = hooked lane x"
  by (simp add: mirrored_def hooked_def grace_spent_def)

lemma mirror_fold:
  assumes "foldl mirror_item (lane, acc) xs = (lane', items)" "distinct (map pi_workspace_id xs)"
  shows "items = acc @ map (mirrored lane) xs \<and>
    (\<forall>x\<in>set xs. map_of (fl_pending lane') (pi_workspace_id x) = Some (mirrored lane x) \<and>
       (hooked lane x = None \<longrightarrow> grace_spent lane' x)) \<and>
    (\<forall>ws. ws \<notin> pi_workspace_id ` set xs \<longrightarrow> map_of (fl_pending lane') ws = map_of (fl_pending lane) ws \<and>
       map_of (fl_scan_grace lane') ws = map_of (fl_scan_grace lane) ws)"
  using assms
proof (induction xs arbitrary: lane acc)
  case (Cons x xs)
  obtain lane1 acc1 where m: "mirror_item (lane, acc) x = (lane1, acc1)" by fastforce
  note f = mirror_item_facts [OF m]
  have IH: "items = acc1 @ map (mirrored lane1) xs"
    "\<And>y. y \<in> set xs \<Longrightarrow> map_of (fl_pending lane') (pi_workspace_id y) = Some (mirrored lane1 y)"
    "\<And>y. y \<in> set xs \<Longrightarrow> hooked lane1 y = None \<Longrightarrow> grace_spent lane' y"
    "\<And>ws. ws \<notin> pi_workspace_id ` set xs \<Longrightarrow> map_of (fl_pending lane') ws = map_of (fl_pending lane1) ws \<and>
       map_of (fl_scan_grace lane') ws = map_of (fl_scan_grace lane1) ws"
    using Cons.IH [of lane1 acc1] Cons.prems m by auto
  have same: "mirrored lane1 y = mirrored lane y" "hooked lane1 y = hooked lane y" if "y \<in> set xs" for y
  proof -
    have "pi_workspace_id y \<noteq> pi_workspace_id x" using Cons.prems(2) that by (metis distinct.simps(2) image_eqI list.simps(9) set_map)
    from f(4) [OF this] show "mirrored lane1 y = mirrored lane y" "hooked lane1 y = hooked lane y"
      using mirrored_cong [of lane1 y lane] by blast+
  qed
  have x: "pi_workspace_id x \<notin> pi_workspace_id ` set xs" using Cons.prems(2) by simp
  show ?case
    using IH(1-3) IH(4) [OF x] f(1-3) same by (auto simp: grace_spent_def IH(4) f(4))
qed auto

text \<open>The scan depends on the clock and the lane only through deadlines.\<close>

lemma scan_step_cases:
  assumes "scan_step now lane st acc r = Inr acc1"
  obtains (idle) "scan_target st r = None" "acc1 = acc"
    | (due) e i where "scan_target st r = Some e" "scan_item now lane st (sc_scenario_id r) e = Inr i"
        "acc1 = acc @ [i]" "due_item i" "item_key i = (sc_scenario_id r, the (ep_workspace_revision e))"
  using assms that by (auto simp: scan_step_def scan_item_def Let_def split: option.splits dest!: map_sum_Inr)

lemma scan_again:
  "fold_exc (scan_step now lane st) acc rs = Inr xs \<Longrightarrow> map item_key acc' = map item_key acc \<Longrightarrow>
   \<exists>ys. fold_exc (scan_step now' lane' st) acc' rs = Inr ys \<and> map item_key ys = map item_key xs"
proof (induction rs arbitrary: acc acc')
  case (Cons r rs)
  then obtain acc1 where s: "scan_step now lane st acc r = Inr acc1" "fold_exc (scan_step now lane st) acc1 rs = Inr xs"
    by (auto split: sum.splits)
  have "\<exists>acc1'. scan_step now' lane' st acc' r = Inr acc1' \<and> map item_key acc1' = map item_key acc1"
    using s(1)
  proof (cases rule: scan_step_cases)
    case (due e i)
    have "\<exists>i'. scan_item now' lane' st (sc_scenario_id r) e = Inr i'"
      using due(2) by (auto simp: scan_item_def Let_def split: list.splits dest!: map_sum_Inr)
    then obtain i' where i': "scan_item now' lane' st (sc_scenario_id r) e = Inr i'" by blast
    then have "item_key i' = item_key i"
      using due(5) by (auto simp: scan_item_def Let_def dest!: map_sum_Inr)
    then show ?thesis using due i' Cons.prems(2) by (simp add: scan_step_def)
  qed (use Cons.prems(2) in \<open>simp add: scan_step_def\<close>)
  then show ?case using Cons.IH [OF s(2)] by auto
qed simp

lemma scan_items:
  "fold_exc (scan_step now lane st) acc rs = Inr xs \<Longrightarrow> distinct (map sc_scenario_id rs) \<Longrightarrow>
   \<exists>zs. xs = acc @ zs \<and> distinct (map pi_workspace_id zs) \<and> list_all due_item zs \<and>
     pi_workspace_id ` set zs \<subseteq> sc_scenario_id ` set rs"
proof (induction rs arbitrary: acc)
  case (Cons r rs)
  then obtain acc1 where s: "scan_step now lane st acc r = Inr acc1" "fold_exc (scan_step now lane st) acc1 rs = Inr xs"
    by (auto split: sum.splits)
  from Cons.IH [OF s(2)] Cons.prems(2) obtain zs where zs: "xs = acc1 @ zs" "distinct (map pi_workspace_id zs)"
    "list_all due_item zs" "pi_workspace_id ` set zs \<subseteq> sc_scenario_id ` set rs" by auto
  show ?case
    using s(1)
  proof (cases rule: scan_step_cases)
    case (due e i)
    then have "pi_workspace_id i \<notin> pi_workspace_id ` set zs" using zs(4) Cons.prems(2) by auto
    then show ?thesis using due zs by (intro exI [of _ "i # zs"]) auto
  qed (use zs in auto)
qed simp

text \<open>The lane's own state machine: the hook, a discovery, a publication or a supersession.\<close>

inductive lane_reachable :: "fast_lane \<Rightarrow> bool" where
  lane_new: "lane_reachable (new_fast_lane deadline bound history)"
| lane_start: "lane_reachable lane \<Longrightarrow> lane_reachable (lane\<lparr>fl_running := b\<rparr>)"
| lane_hook: "lane_reachable lane \<Longrightarrow> lane_reachable (on_epoch_closed now ws eid event lane)"
| lane_discover: "lane_reachable lane \<Longrightarrow> discover now st lane = Inr (lane', items) \<Longrightarrow> lane_reachable lane'"
| lane_rotate: "lane_reachable lane \<Longrightarrow> lane_reachable (fst (fair_rotate items lane))"
| lane_publish:
    "lane_reachable lane \<Longrightarrow> publish_fast krn clk env now t item st lane = (st', lane', out) \<Longrightarrow> lane_reachable lane'"
| lane_supersede: "lane_reachable lane \<Longrightarrow> lane_reachable (fst (supersede_stale_qualified t st lane))"

text \<open>Pending items are keyed by their workspace, and an item the hook announced is never deferred.\<close>

definition pending_ok :: "fast_lane \<Rightarrow> bool" where
  "pending_ok lane \<longleftrightarrow> (\<forall>ws e. map_of (fl_pending lane) ws = Some e \<longrightarrow> pi_workspace_id e = ws \<and> (pi_deferred e \<longrightarrow> pi_from_scan e))"

lemma pending_ok_cong: "fl_pending lane' = fl_pending lane \<Longrightarrow> pending_ok lane \<Longrightarrow> pending_ok lane'"
  by (simp add: pending_ok_def)

lemma mirror_pending_ok:
  assumes "foldl mirror_item (lane, acc) xs = (lane', items)" "list_all pi_from_scan xs" "pending_ok lane"
  shows "pending_ok lane'"
  using assms
proof (induction xs arbitrary: lane acc)
  case (Cons x xs)
  obtain lane1 acc1 where m: "mirror_item (lane, acc) x = (lane1, acc1)" by fastforce
  have "pending_ok lane1"
    unfolding pending_ok_def
  proof (intro allI impI)
    fix ws e assume e: "map_of (fl_pending lane1) ws = Some e"
    show "pi_workspace_id e = ws \<and> (pi_deferred e \<longrightarrow> pi_from_scan e)"
      using e mirror_item_facts(2) [OF m] mirror_item_facts(4) [OF m, of ws] Cons.prems(2,3)
      by (cases "ws = pi_workspace_id x")
        (auto simp: pending_ok_def mirrored_def hooked_def split: option.splits if_splits)
  qed
  then show ?case using Cons.IH [of lane1 acc1] Cons.prems m by simp
qed simp

lemma record_publication_pending [simp]: "fl_pending (record_publication pb lane) = fl_pending lane"
  by (simp add: record_publication_def Let_def)

lemma supersede_one_pending: "fl_pending (fst (supersede_one t st ws s)) = fl_pending (fst s)"
  by (auto simp: supersede_one_def Let_def split: prod.splits option.splits)

lemma supersede_pending: "fl_pending (fst (supersede_stale_qualified t st lane)) = fl_pending lane"
proof -
  have "fl_pending (fst (fold (supersede_one t st) keys s)) = fl_pending (fst s)" for keys s
    by (induction keys arbitrary: s) (simp_all add: supersede_one_pending)
  then show ?thesis by (simp add: supersede_stale_qualified_def)
qed

lemma land_publication_pending:
  assumes "land_publication clk t item revision exact cls payload operations families st lane = (st', lane', out)"
  shows "fl_pending lane' = fl_pending lane \<or> fl_pending lane' = AList.delete (pi_workspace_id item) (fl_pending lane)"
  using assms
  by (auto simp: land_publication_def Let_def settle_pending_def split: prod.splits option.splits sum.splits)

lemma scan_from_scan: "scan now lane st = Inr xs \<Longrightarrow> list_all pi_from_scan xs"
proof -
  have "fold_exc (scan_step now lane st) acc rs = Inr xs \<Longrightarrow> list_all pi_from_scan acc \<Longrightarrow> list_all pi_from_scan xs" for acc rs xs
    by (erule fold_exc_inv) (auto elim!: scan_step_cases)
  then show "scan now lane st = Inr xs \<Longrightarrow> list_all pi_from_scan xs" by (simp add: scan_def)
qed

lemma lane_reachable_hooks: "lane_reachable lane \<Longrightarrow> pending_ok lane"
proof (induction rule: lane_reachable.induct)
  case (lane_hook lane now ws eid event)
  then show ?case by (auto simp: on_epoch_closed_def pending_ok_def update_conv' hook_item_def)
next
  case (lane_discover lane now st lane' items)
  then obtain xs where "scan now lane st = Inr xs" "foldl mirror_item (lane, []) xs = (lane', items)"
    by (auto simp: discover_def dest!: map_sum_Inr)
  then show ?case using mirror_pending_ok scan_from_scan lane_discover.IH by blast
next
  case (lane_rotate lane items)
  then show ?case
    by (auto simp: fair_rotate_def Let_def pending_ok_def split: list.split)
next
  case (lane_publish lane krn clk env now t item st st' lane' out)
  from lane_publish.hyps(2) have "fl_pending lane' = fl_pending lane \<or>
      fl_pending lane' = AList.delete (pi_workspace_id item) (fl_pending lane)"
    by (cases rule: publish_fast_cases) (use land_publication_pending in auto)
  then show ?case using lane_publish.IH by (auto simp: pending_ok_def delete_conv' split: if_splits)
next
  case (lane_supersede lane t st)
  then show ?case using pending_ok_cong [OF supersede_pending] by blast
qed (simp_all add: pending_ok_def new_fast_lane_def)

lemma mirrored_key: "pending_ok lane \<Longrightarrow> item_key (mirrored lane x) = item_key x"
  by (auto simp: mirrored_def hooked_def pending_ok_def split: option.splits if_splits)

lemma mirrored_first:
  assumes "pending_ok lane" "due_item x" "pi_deferred (mirrored lane x)"
  shows "pi_from_scan (mirrored lane x) \<and> \<not> grace_spent lane (mirrored lane x)"
proof (cases "hooked lane x")
  case (Some e)
  then have "map_of (fl_pending lane) (pi_workspace_id x) = Some e" "\<not> pi_from_scan e"
    by (auto simp: hooked_def split: option.splits if_splits)
  then show ?thesis using assms Some by (auto simp: pending_ok_def mirrored_def)
qed (use assms in \<open>auto simp: mirrored_def grace_spent_def\<close>)

lemma mirrored_again:
  assumes ok: "pending_ok lane" and due: "due_item x" "due_item y" and key: "item_key x = item_key y"
    and lane1: "map_of (fl_pending lane1) (pi_workspace_id x) = Some (mirrored lane x)"
      "hooked lane x = None \<longrightarrow> grace_spent lane1 x"
  shows "\<not> pi_deferred (mirrored lane1 y)"
proof (cases "hooked lane x")
  case (Some e)
  then have e: "map_of (fl_pending lane) (pi_workspace_id x) = Some e" "\<not> pi_from_scan e"
    "pi_workspace_revision e = pi_workspace_revision x"
    by (auto simp: hooked_def split: option.splits if_splits)
  then have "hooked lane1 y = Some e" using lane1(1) key Some by (simp add: hooked_def mirrored_def)
  then show ?thesis using ok e by (auto simp: pending_ok_def mirrored_def)
next
  case None
  then have "pi_from_scan (mirrored lane x)" using due(1) by (simp add: mirrored_def)
  then have "hooked lane1 y = None" using lane1(1) key by (simp add: hooked_def)
  moreover have "grace_spent lane1 y" using lane1(2) None key by (simp add: grace_spent_def)
  ultimately show ?thesis using due(2) by (simp add: mirrored_def)
qed

text \<open>The scan's grace lasts exactly one pass. An item is deferred only when the scan found its
  revision and had not seen it before; and if nothing else happens, the next pass discovers the same
  workspaces and defers none of them.\<close>

lemma scan_grace_lasts_one_pass:
  assumes "reachable st" "lane_reachable lane" "discover now st lane = Inr (lane1, items1)"
  shows "(\<forall>i\<in>set items1. pi_deferred i \<longrightarrow> pi_from_scan i \<and> \<not> grace_spent lane i) \<and>
    (\<exists>lane2 items2. discover now' st lane1 = Inr (lane2, items2) \<and>
       map item_key items2 = map item_key items1 \<and> (\<forall>i\<in>set items2. \<not> pi_deferred i))"
proof -
  have ids: "distinct (map sc_scenario_id (scenarios_with_fast_lag st))"
    using reachable_ok [OF assms(1)]
    by (simp add: scenarios_with_fast_lag_def versions_ok_def scenarios_ok_def distinct_map_filter)
  obtain xs where xs: "scan now lane st = Inr xs" "foldl mirror_item (lane, []) xs = (lane1, items1)"
    using assms(3) by (auto simp: discover_def dest!: map_sum_Inr)
  obtain ys where ys: "scan now' lane1 st = Inr ys" "map item_key ys = map item_key xs"
    using scan_again [OF xs(1) [unfolded scan_def], of "[]" now' lane1] by (auto simp: scan_def)
  have dx: "distinct (map pi_workspace_id xs)" "list_all due_item xs"
    using scan_items [OF xs(1) [unfolded scan_def] ids] by auto
  have dy: "distinct (map pi_workspace_id ys)" "list_all due_item ys"
    using scan_items [OF ys(1) [unfolded scan_def] ids] by auto
  obtain lane2 items2 where d2: "foldl mirror_item (lane1, []) ys = (lane2, items2)" by fastforce
  note m1 = mirror_fold [OF xs(2) dx(1)] and m2 = mirror_fold [OF d2 dy(1)]
  have ok: "pending_ok lane" "pending_ok lane1"
    using lane_reachable_hooks lane_discover assms(2,3) by blast+
  have i1: "items1 = map (mirrored lane) xs" using m1 by simp
  have i2: "items2 = map (mirrored lane1) ys" using m2 by simp
  have lane1: "map_of (fl_pending lane1) (pi_workspace_id x) = Some (mirrored lane x)"
    "hooked lane x = None \<longrightarrow> grace_spent lane1 x" if "x \<in> set xs" for x
    using m1 that by blast+
  have "pi_from_scan i \<and> \<not> grace_spent lane i" if "i \<in> set items1" "pi_deferred i" for i
    using that i1 dx(2) mirrored_first [OF ok(1)] by (fastforce simp: list_all_iff)
  moreover have "\<not> pi_deferred i" if i: "i \<in> set items2" for i
  proof -
    obtain y where y: "y \<in> set ys" "i = mirrored lane1 y" using i i2 by auto
    obtain x where x: "x \<in> set xs" "item_key x = item_key y"
      using y(1) ys(2) by (metis (no_types, lifting) in_set_conv_nth length_map nth_map)
    have due: "due_item x" "due_item y" using x(1) y(1) dx(2) dy(2) by (auto simp: list_all_iff)
    show ?thesis unfolding y(2) by (rule mirrored_again [OF ok(1) due x(2) lane1 [OF x(1)]])
  qed
  moreover have "map item_key items2 = map item_key items1"
    using ys(2) unfolding i1 i2 map_map comp_def mirrored_key [OF ok(1)] mirrored_key [OF ok(2)] .
  moreover have "discover now' st lane1 = Inr (lane2, items2)" using ys(1) d2 by (simp add: discover_def)
  ultimately show ?thesis by blast
qed

section \<open>Instances\<close>

text \<open>A lane running over the store in which the epoch of workspace \<open>w\<close> was just reduced.\<close>

definition sample_lane :: fast_lane where
  "sample_lane = (new_fast_lane 1000 8 4)\<lparr>fl_running := True\<rparr>"

definition sample_pending :: pending_item where
  "sample_pending =
     \<lparr>pi_workspace_id = ''w'', pi_epoch_id = 0, pi_workspace_revision = 1, pi_deadline_at = 1000, pi_discovered_at = 0,
      pi_predicted_ms = 0, pi_from_scan = False, pi_deferred = False\<rparr>"

definition sample_busy :: fast_lane where
  "sample_busy = sample_lane\<lparr>fl_pending := [(''w'', sample_pending)]\<rparr>"

lemma sample_committed_reachable: "reachable sample_committed"
  using sample_reachable(2) sample_committed_run store_run_trans by (auto simp: reachable_def)

lemma sample_lane_reachable: "lane_reachable sample_lane"
  unfolding sample_lane_def by (intro lane_start lane_new)

lemma lane_admission_fits_witness:
  "\<exists>ad'. check_batch (\<lambda>_. []) (lane_saturated (sample_busy, sample_accepted))
        (lane_reserved_ms (sample_busy, sample_accepted) ''w'') 20 0 ''w'' [sample_view] (new_admission default_envelope) =
      (ad', Inr ()) \<and>
     0 < lane_reserved_ms (sample_busy, sample_accepted) ''w'' \<and>
     predict_epoch_compute_ms [sample_view] + lane_reserved_ms (sample_busy, sample_accepted) ''w''
       \<le> fast_compute_budget_ms_per_epoch default_envelope"
proof -
  let ?c = "check_batch (\<lambda>_. []) (lane_saturated (sample_busy, sample_accepted))
        (lane_reserved_ms (sample_busy, sample_accepted) ''w'') 20 0 ''w'' [sample_view] (new_admission default_envelope)"
  have "\<not> isl (snd ?c)" by code_simp
  then obtain ad' where c: "?c = (ad', Inr ())" by (cases ?c) (metis isl_def obj_sumE snd_conv unit_eq)
  have "ad_envelope (new_admission default_envelope) = default_envelope" by (simp add: new_admission_def)
  moreover have "0 < lane_reserved_ms (sample_busy, sample_accepted) ''w''" by code_simp
  ultimately show ?thesis using lane_admission_fits [OF c] c by simp
qed

theorem publish_fast_sound_witness:
  "\<exists>st' lane' ev. publish_fast view_cache_kernel sample_clock (mark_reconcile_owed sample_clock ''w'') 100 200
       sample_pending sample_committed sample_busy = (st', lane', Inr (Some ev)) \<and>
     reachable st' \<and> frame_ok st' (fv_publication ev)"
proof -
  let ?p = "publish_fast view_cache_kernel sample_clock (mark_reconcile_owed sample_clock ''w'') 100 200
       sample_pending sample_committed sample_busy"
  have "case snd (snd ?p) of Inr (Some ev) \<Rightarrow> True | _ \<Rightarrow> False" by code_simp
  then obtain st' lane' ev where p: "?p = (st', lane', Inr (Some ev))"
    by (cases ?p) (auto split: sum.splits option.splits)
  have "\<forall>s. store_run s (mark_reconcile_owed sample_clock ''w'' s)"
    using run_step [OF run_refl step_owed] by blast
  from publish_fast_sound [OF sample_committed_reachable this p] show ?thesis using p by blast
qed

lemma scan_grace_lasts_one_pass_witness:
  "\<exists>lane1 items1 lane2 items2. discover 100 sample_committed sample_lane = Inr (lane1, items1) \<and>
     map pi_deferred items1 = [True] \<and> discover 200 sample_committed lane1 = Inr (lane2, items2) \<and>
     map item_key items2 = map item_key items1 \<and> (\<forall>i\<in>set items2. \<not> pi_deferred i)"
proof -
  have "map_sum id (\<lambda>s. map pi_deferred (snd s)) (discover 100 sample_committed sample_lane) = Inr [True]"
    by code_simp
  then obtain lane1 items1 where d: "discover 100 sample_committed sample_lane = Inr (lane1, items1)"
    "map pi_deferred items1 = [True]" by (auto dest!: map_sum_Inr)
  from scan_grace_lasts_one_pass [OF sample_committed_reachable sample_lane_reachable d(1), of 200]
  obtain lane2 items2 where "discover 200 sample_committed lane1 = Inr (lane2, items2)"
    "map item_key items2 = map item_key items1" "\<forall>i\<in>set items2. \<not> pi_deferred i" by auto
  with d show ?thesis by (intro exI conjI)
qed

end
