(* ===== verification/Broadcast.thy ===== *)
theory Broadcast
  imports Prelude
begin

text \<open>
  The broadcast hub of \<open>server/realtime/broadcast.py\<close>: named SSE frames, the bounded queue of one
  subscriber with its drop-oldest policy and its replaceable heartbeat, the fan-out over the
  subscribers of a workspace, and the presence roster.

  Subscriptions are objects the hub and the response iterator share, so the hub owns a list of them
  and a registration is an index into it. A delivery from another thread schedules the enqueue on
  the subscriber's loop: \<open>sb_scheduled\<close> holds the scheduled calls, \<open>run_callback\<close> is the loop running
  the next one. Frames are rendered as \<open>json.dumps\<close> does with compact separators; the shortest
  representation of a float is the parameter \<open>show_float\<close>.
\<close>

section \<open>Frames\<close>

definition hex_digit :: "nat \<Rightarrow> char" where
  "hex_digit d = char_of (if d < 10 then 48 + d else 87 + d)"

definition escape_char :: "char \<Rightarrow> string" where
  "escape_char c =
     (let n = of_char c :: nat in
      if n = 34 \<or> n = 92 then [CHR 0x5C, c]
      else if n = 8 then [CHR 0x5C, CHR ''b''] else if n = 9 then [CHR 0x5C, CHR ''t'']
      else if n = 10 then [CHR 0x5C, CHR ''n''] else if n = 12 then [CHR 0x5C, CHR ''f'']
      else if n = 13 then [CHR 0x5C, CHR ''r'']
      else if n < 32 \<or> 126 < n
      then [CHR 0x5C, CHR ''u'', CHR ''0'', CHR ''0'', hex_digit (n div 16), hex_digit (n mod 16)]
      else [c])"

definition dumps_str :: "string \<Rightarrow> string" where
  "dumps_str s = CHR 0x22 # concat (map escape_char s) @ [CHR 0x22]"

fun join_with :: "string \<Rightarrow> string list \<Rightarrow> string" where
  "join_with sep [] = []"
| "join_with sep [x] = x"
| "join_with sep (x # xs) = x @ sep @ join_with sep xs"

primrec dumps :: "(rat \<Rightarrow> string) \<Rightarrow> json \<Rightarrow> string" where
  "dumps show_float JNull = ''null''"
| "dumps show_float (JBool b) = (if b then ''true'' else ''false'')"
| "dumps show_float (JInt i) = show_int i"
| "dumps show_float (JFloat r) = show_float r"
| "dumps show_float (JStr s) = dumps_str s"
| "dumps show_float (JArr xs) = ''['' @ join_with '','' (map (dumps show_float) xs) @ '']''"
| "dumps show_float (JObj kvs) =
     ''{'' @ join_with '','' (map (\<lambda>p. dumps_str (fst p) @ '':'' @ snd p)
                (map (map_prod id (dumps show_float)) kvs)) @ ''}''"

abbreviation newline :: char where "newline \<equiv> CHR 0x0A"

definition format_sse :: "(rat \<Rightarrow> string) \<Rightarrow> string \<Rightarrow> json dict \<Rightarrow> string" where
  "format_sse show_float event data =
     ''event: '' @ event @ [newline] @ ''data: '' @ dumps show_float (JObj data) @ [newline, newline]"

section \<open>One subscriber\<close>

datatype queue_item = Frame string | Heartbeat_Frame string | Close_Mark

fun is_heartbeat :: "queue_item \<Rightarrow> bool" where
  "is_heartbeat (Heartbeat_Frame s) \<longleftrightarrow> True"
| "is_heartbeat item \<longleftrightarrow> False"

record subscription =
  sb_workspace_id :: string
  sb_actor_id :: "string option"
  sb_queue :: "queue_item list"
  sb_lagged :: bool
  sb_missed :: nat
  sb_closed :: bool
  sb_scheduled :: "(queue_item \<times> bool) list"

definition new_subscription :: "string \<Rightarrow> string option \<Rightarrow> subscription" where
  "new_subscription ws actor =
     \<lparr>sb_workspace_id = ws, sb_actor_id = actor, sb_queue = [], sb_lagged = False, sb_missed = 0,
      sb_closed = False, sb_scheduled = []\<rparr>"

text \<open>Replacing the first pending heartbeat; \<open>None\<close> when none is pending.\<close>

fun replace_heartbeat :: "queue_item \<Rightarrow> queue_item list \<Rightarrow> queue_item list option" where
  "replace_heartbeat item [] = None"
| "replace_heartbeat item (x # xs) =
     (if is_heartbeat x then Some (item # xs) else map_option ((#) x) (replace_heartbeat item xs))"

definition put_item :: "nat \<Rightarrow> queue_item \<Rightarrow> bool \<Rightarrow> subscription \<Rightarrow> subscription" where
  "put_item bound item privileged sub =
     (if item \<noteq> Close_Mark \<and> \<not> privileged \<and> bound \<le> length (sb_queue sub) \<and> sb_queue sub \<noteq> []
      then sub\<lparr>sb_queue := tl (sb_queue sub) @ [item], sb_missed := sb_missed sub + 1, sb_lagged := True\<rparr>
      else sub\<lparr>sb_queue := sb_queue sub @ [item]\<rparr>)"

definition enqueue :: "nat \<Rightarrow> queue_item \<Rightarrow> bool \<Rightarrow> subscription \<Rightarrow> subscription" where
  "enqueue bound item privileged sub =
     (if sb_closed sub \<and> item \<noteq> Close_Mark then sub
      else case (if is_heartbeat item then replace_heartbeat item (sb_queue sub) else None) of
             Some q \<Rightarrow> sub\<lparr>sb_queue := q\<rparr>
           | None \<Rightarrow> put_item bound item privileged sub)"

datatype delivery = Same_Loop | Other_Thread | Loop_Closed

definition deliver :: "nat \<Rightarrow> delivery \<Rightarrow> queue_item \<Rightarrow> bool \<Rightarrow> subscription \<Rightarrow> subscription" where
  "deliver bound how item privileged sub =
     (case how of
        Same_Loop \<Rightarrow> enqueue bound item privileged sub
      | Other_Thread \<Rightarrow> sub\<lparr>sb_scheduled := sb_scheduled sub @ [(item, privileged)]\<rparr>
      | Loop_Closed \<Rightarrow> sub)"

definition run_callback :: "nat \<Rightarrow> subscription \<Rightarrow> subscription" where
  "run_callback bound sub =
     (case sb_scheduled sub of
        [] \<Rightarrow> sub
      | (item, privileged) # rest \<Rightarrow> enqueue bound item privileged (sub\<lparr>sb_scheduled := rest\<rparr>))"

definition push_snapshot :: "(rat \<Rightarrow> string) \<Rightarrow> nat \<Rightarrow> delivery \<Rightarrow> json dict \<Rightarrow> subscription \<Rightarrow> subscription" where
  "push_snapshot show_float bound how snapshot =
     deliver bound how (Frame (format_sse show_float ''canonical_revision'' snapshot)) True"

definition push_selected_time :: "(rat \<Rightarrow> string) \<Rightarrow> nat \<Rightarrow> delivery \<Rightarrow> json dict \<Rightarrow> subscription \<Rightarrow> subscription" where
  "push_selected_time show_float bound how frame =
     deliver bound how (Frame (format_sse show_float ''selected_time'' frame)) True"

definition heartbeat_payload :: "subscription \<Rightarrow> subscription \<times> json dict" where
  "heartbeat_payload sub =
     (if sb_lagged sub
      then (sub\<lparr>sb_lagged := False, sb_missed := 0\<rparr>, [(''missed_events'', JInt (int (sb_missed sub)))])
      else (sub, []))"

text \<open>The response iterator: \<open>None\<close> while it waits, otherwise the item it takes; the close mark
  ends the stream.\<close>

definition next_item :: "subscription \<Rightarrow> (queue_item \<times> subscription) option" where
  "next_item sub =
     (case sb_queue sub of [] \<Rightarrow> None | x # xs \<Rightarrow> Some (x, sub\<lparr>sb_queue := xs\<rparr>))"

section \<open>The hub\<close>

definition DEFAULT_QUEUE_SIZE :: nat where "DEFAULT_QUEUE_SIZE = 256"

record broadcast_hub =
  hb_queue_size :: nat
  hb_objects :: "subscription list"
  hb_subscribers :: "nat list dict"
  hb_live_actors :: "int dict dict"
  hb_closed :: bool

definition new_hub :: "nat \<Rightarrow> broadcast_hub" where
  "new_hub queue_size =
     \<lparr>hb_queue_size = queue_size, hb_objects = [], hb_subscribers = [], hb_live_actors = [], hb_closed = False\<rparr>"

definition on_object :: "nat \<Rightarrow> (subscription \<Rightarrow> subscription) \<Rightarrow> broadcast_hub \<Rightarrow> broadcast_hub" where
  "on_object i f h = h\<lparr>hb_objects := (hb_objects h)[i := f (hb_objects h ! i)]\<rparr>"

definition hub_deliver :: "delivery \<Rightarrow> queue_item \<Rightarrow> bool \<Rightarrow> nat \<Rightarrow> broadcast_hub \<Rightarrow> broadcast_hub" where
  "hub_deliver how item privileged i h = on_object i (deliver (hb_queue_size h) how item privileged) h"

text \<open>\<open>how i\<close> is how the publishing thread reaches subscriber \<open>i\<close>.\<close>

definition publish_named ::
  "(rat \<Rightarrow> string) \<Rightarrow> (nat \<Rightarrow> delivery) \<Rightarrow> string \<Rightarrow> string \<Rightarrow> json dict \<Rightarrow> broadcast_hub \<Rightarrow> broadcast_hub" where
  "publish_named show_float how ws event data h =
     fold (\<lambda>i. hub_deliver (how i) (Frame (format_sse show_float event data)) False i)
       (dict_get (hb_subscribers h) ws []) h"

definition broadcast_canonical ::
  "(rat \<Rightarrow> string) \<Rightarrow> (nat \<Rightarrow> delivery) \<Rightarrow> string \<Rightarrow> json dict \<Rightarrow> broadcast_hub \<Rightarrow> broadcast_hub" where
  "broadcast_canonical show_float how ws = publish_named show_float how ws ''canonical_revision''"

definition broadcast_fast ::
  "(rat \<Rightarrow> string) \<Rightarrow> (nat \<Rightarrow> delivery) \<Rightarrow> string \<Rightarrow> json dict \<Rightarrow> broadcast_hub \<Rightarrow> broadcast_hub" where
  "broadcast_fast show_float how ws = publish_named show_float how ws ''fast_revision''"

definition broadcast_exact ::
  "(rat \<Rightarrow> string) \<Rightarrow> (nat \<Rightarrow> delivery) \<Rightarrow> string \<Rightarrow> json dict \<Rightarrow> broadcast_hub \<Rightarrow> broadcast_hub" where
  "broadcast_exact show_float how ws = publish_named show_float how ws ''exact_revision''"

definition broadcast_exact_progress ::
  "(rat \<Rightarrow> string) \<Rightarrow> (nat \<Rightarrow> delivery) \<Rightarrow> string \<Rightarrow> json dict \<Rightarrow> broadcast_hub \<Rightarrow> broadcast_hub" where
  "broadcast_exact_progress show_float how ws = publish_named show_float how ws ''exact_progress''"

definition broadcast_selected_time ::
  "(rat \<Rightarrow> string) \<Rightarrow> (nat \<Rightarrow> delivery) \<Rightarrow> string \<Rightarrow> json dict \<Rightarrow> broadcast_hub \<Rightarrow> broadcast_hub" where
  "broadcast_selected_time show_float how ws = publish_named show_float how ws ''selected_time''"

definition roster_of :: "broadcast_hub \<Rightarrow> string \<Rightarrow> string list option" where
  "roster_of h ws =
     (case map_of (hb_live_actors h) ws of
        Some actors \<Rightarrow> if actors = [] then None else Some (sort (map fst actors))
      | None \<Rightarrow> None)"

definition all_subscribers :: "broadcast_hub \<Rightarrow> nat list" where
  "all_subscribers h = concat (map snd (hb_subscribers h))"

definition send_heartbeat ::
  "(rat \<Rightarrow> string) \<Rightarrow> (nat \<Rightarrow> delivery) \<Rightarrow> (string \<Rightarrow> string list option) \<Rightarrow> nat \<Rightarrow> broadcast_hub \<Rightarrow> broadcast_hub" where
  "send_heartbeat show_float how rosters i h =
     (let payload = snd (heartbeat_payload (hb_objects h ! i));
          data = (case rosters (sb_workspace_id (hb_objects h ! i)) of
                    Some roster \<Rightarrow> payload @ [(''roster'', JArr (map JStr roster))]
                  | None \<Rightarrow> payload)
      in hub_deliver (how i) (Heartbeat_Frame (format_sse show_float ''heartbeat'' data)) True i
           (on_object i (fst \<circ> heartbeat_payload) h))"

definition send_heartbeats ::
  "(rat \<Rightarrow> string) \<Rightarrow> (nat \<Rightarrow> delivery) \<Rightarrow> broadcast_hub \<Rightarrow> broadcast_hub \<times> nat" where
  "send_heartbeats show_float how h =
     (if hb_closed h then (h, 0)
      else (fold (send_heartbeat show_float how (roster_of h)) (all_subscribers h) h,
            length (all_subscribers h)))"

definition live_actors :: "broadcast_hub \<Rightarrow> string \<Rightarrow> string list" where
  "live_actors h ws = sort (map fst (dict_get (hb_live_actors h) ws []))"

fun truthy :: "string option \<Rightarrow> bool" where
  "truthy None \<longleftrightarrow> False"
| "truthy (Some s) \<longleftrightarrow> s \<noteq> []"

definition join_actor :: "string \<Rightarrow> string option \<Rightarrow> int dict dict \<Rightarrow> int dict dict" where
  "join_actor ws actor live =
     (if truthy actor
      then let actors = dict_get live ws [] in
           AList.update ws (AList.update (the actor) (dict_get actors (the actor) 0 + 1) actors) live
      else live)"

definition subscribe ::
  "(rat \<Rightarrow> string) \<Rightarrow> string \<Rightarrow> json dict option \<Rightarrow> string option \<Rightarrow> broadcast_hub \<Rightarrow> broadcast_hub \<times> nat" where
  "subscribe show_float ws snapshot actor h =
     (let i = length (hb_objects h);
          fresh = new_subscription ws actor;
          sub = (case snapshot of
                   None \<Rightarrow> fresh
                 | Some data \<Rightarrow>
                     enqueue (hb_queue_size h) (Frame (format_sse show_float ''canonical_revision'' data)) False fresh)
      in (if hb_closed h
          then h\<lparr>hb_objects := hb_objects h @ [sub\<lparr>sb_closed := True, sb_queue := sb_queue sub @ [Close_Mark]\<rparr>]\<rparr>
          else h\<lparr>hb_objects := hb_objects h @ [sub],
                 hb_subscribers := AList.update ws (dict_get (hb_subscribers h) ws [] @ [i]) (hb_subscribers h),
                 hb_live_actors := join_actor ws actor (hb_live_actors h)\<rparr>,
          i))"

definition leave_actor :: "string \<Rightarrow> string option \<Rightarrow> int dict dict \<Rightarrow> int dict dict" where
  "leave_actor ws actor live =
     (if \<not> truthy actor then live
      else case map_of live ws of
             None \<Rightarrow> live
           | Some actors \<Rightarrow>
               (case map_of actors (the actor) of
                  None \<Rightarrow> live
                | Some n \<Rightarrow>
                    let actors' = (if n - 1 \<le> 0 then AList.delete (the actor) actors
                                   else AList.update (the actor) (n - 1) actors)
                    in if actors' = [] then AList.delete ws live else AList.update ws actors' live))"

definition unsubscribe :: "delivery \<Rightarrow> nat \<Rightarrow> broadcast_hub \<Rightarrow> broadcast_hub" where
  "unsubscribe how i h =
     (let sub = hb_objects h ! i; ws = sb_workspace_id sub in
      case map_of (hb_subscribers h) ws of
        None \<Rightarrow> h
      | Some registered \<Rightarrow>
          let remaining = filter (\<lambda>j. j \<noteq> i) registered;
              h' = h\<lparr>hb_subscribers :=
                       (if remaining \<noteq> [] then AList.update ws remaining (hb_subscribers h)
                        else AList.delete ws (hb_subscribers h)),
                     hb_live_actors := leave_actor ws (sb_actor_id sub) (hb_live_actors h)\<rparr>
          in hub_deliver how Close_Mark False i (on_object i (sb_closed_update (\<lambda>_. True)) h'))"

definition subscriber_count :: "broadcast_hub \<Rightarrow> string option \<Rightarrow> nat" where
  "subscriber_count h ws =
     (case ws of
        None \<Rightarrow> sum_list (map (length \<circ> snd) (hb_subscribers h))
      | Some w \<Rightarrow> length (dict_get (hb_subscribers h) w []))"

definition close_hub :: "(nat \<Rightarrow> delivery) \<Rightarrow> broadcast_hub \<Rightarrow> broadcast_hub" where
  "close_hub how h =
     fold (\<lambda>i h. hub_deliver (how i) Close_Mark False i (on_object i (sb_closed_update (\<lambda>_. True)) h))
       (all_subscribers h) (h\<lparr>hb_closed := True, hb_subscribers := []\<rparr>)"

end
