(* ===== verification/Broadcast_Contract.thy ===== *)
theory Broadcast_Contract
  imports Broadcast "HOL-Library.Sublist"
begin

text \<open>
  What the broadcast hub promises: a frame is one SSE message whatever its data, a subscriber sees
  published frames in order and every frame it does not see is counted, at most one heartbeat is
  pending, and the roster is the set of actors with a live subscription as long as each subscription
  is closed once. The last section shows what the second close of a stream does to the roster.
\<close>

section \<open>Frames are single messages\<close>

definition printable :: "char \<Rightarrow> bool" where
  "printable c \<longleftrightarrow> (let n = of_char c :: nat in 32 \<le> n \<and> n \<le> 126)"

lemma printable_chars [simp]:
  "printable CHR 0x22" "printable CHR 0x5C" "printable CHR '',''" "printable CHR '':''" "printable CHR ''[''"
  "printable CHR '']''" "printable CHR ''{''" "printable CHR ''}''" "printable CHR ''-''"
  by (simp_all add: printable_def)

lemma printable_hex: "d < 16 \<Longrightarrow> printable (hex_digit d)"
  by (simp add: printable_def hex_digit_def)

lemma printable_escape: "list_all printable (escape_char c)"
proof -
  have "(of_char c :: nat) div 16 < 16" using nat_of_char_less_256 [of c] by linarith
  then show ?thesis
    using printable_hex [of "of_char c div 16"] printable_hex [of "of_char c mod 16"]
    by (auto simp: escape_char_def Let_def printable_def)
qed

lemma printable_dumps_str: "list_all printable (dumps_str s)"
  using printable_escape by (auto simp: dumps_str_def list_all_iff)

lemma printable_join: "list_all printable sep \<Longrightarrow> list_all (list_all printable) xs \<Longrightarrow> list_all printable (join_with sep xs)"
  by (induction sep xs rule: join_with.induct) auto

lemma printable_show_int: "list_all printable (show_int i)"
proof -
  have "printable c" if "c \<in> set (show_nat n)" for c n
    using show_nat_digits [OF that] by (auto simp: printable_def digit_char_def)
  then show ?thesis by (auto simp: show_int_def list_all_iff)
qed

lemma printable_dumps:
  assumes "\<And>r. list_all printable (show_float r)"
  shows "list_all printable (dumps show_float v)"
proof (induction v)
  case (JObj kvs)
  have "list_all printable x" if x: "x \<in> set (map (\<lambda>p. dumps_str (fst p) @ '':'' @ snd p)
      (map (map_prod id (dumps show_float)) kvs))" for x
  proof -
    obtain k v where "(k, v) \<in> set kvs" "x = dumps_str k @ '':'' @ dumps show_float v" using x by auto
    then show ?thesis using JObj [of "(k, v)" v] printable_dumps_str [of k] by simp
  qed
  then have "list_all (list_all printable) (map (\<lambda>p. dumps_str (fst p) @ '':'' @ snd p)
      (map (map_prod id (dumps show_float)) kvs))" by (subst list_all_iff) blast
  from printable_join [OF _ this, of "'',''"] show ?case by simp
next
  case (JArr xs)
  then have "list_all (list_all printable) (map (dumps show_float) xs)" by (simp add: list_all_iff)
  then show ?case using printable_join [of "'',''"] by simp
next
  case (JBool b)
  show ?case by (simp add: printable_def)
qed (simp_all add: assms printable_dumps_str printable_show_int, simp add: printable_def)

text \<open>The messages a client splits a stream into: one per blank line.\<close>

fun sse_lines :: "string \<Rightarrow> string list" where
  "sse_lines [] = [[]]"
| "sse_lines (c # cs) =
     (if c = newline then [] # sse_lines cs
      else case sse_lines cs of l # ls \<Rightarrow> (c # l) # ls | [] \<Rightarrow> [[c]])"

lemma sse_lines_append:
  "newline \<notin> set l \<Longrightarrow> sse_lines (l @ newline # rest) = l # sse_lines rest"
  by (induction l) auto

lemma printable_no_newline: "list_all printable s \<Longrightarrow> newline \<notin> set s"
  by (auto simp: list_all_iff printable_def)

lemma format_sse_lines:
  assumes "\<And>r. list_all printable (show_float r)" "newline \<notin> set event"
  shows "sse_lines (format_sse show_float event data) =
    [''event: '' @ event, ''data: '' @ dumps show_float (JObj data), [], []]"
proof -
  define head body where "head = ''event: '' @ event" and "body = ''data: '' @ dumps show_float (JObj data)"
  have "newline \<notin> set body"
    using printable_no_newline [OF printable_dumps [where v = "JObj data", OF assms(1)]]
    by (simp add: body_def del: dumps.simps)
  moreover have "newline \<notin> set head" using assms(2) by (simp add: head_def)
  moreover have "format_sse show_float event data = head @ newline # body @ newline # newline # []"
    by (simp add: format_sse_def head_def body_def)
  ultimately show ?thesis unfolding head_def [symmetric] body_def [symmetric]
    by (simp add: sse_lines_append)
qed

section \<open>What one subscriber sees\<close>

fun frames_in :: "queue_item list \<Rightarrow> string list" where
  "frames_in [] = []"
| "frames_in (Frame s # xs) = s # frames_in xs"
| "frames_in (x # xs) = frames_in xs"

lemma frames_in_append [simp]: "frames_in (xs @ ys) = frames_in xs @ frames_in ys"
  by (induction xs rule: frames_in.induct) auto

lemma frames_in_heartbeat [simp]: "is_heartbeat x \<Longrightarrow> frames_in (x # xs) = frames_in xs"
  by (cases x) auto

abbreviation heartbeats :: "queue_item list \<Rightarrow> nat" where
  "heartbeats q \<equiv> length (filter is_heartbeat q)"

lemma replace_heartbeat_Some:
  "replace_heartbeat item q = Some q' \<Longrightarrow> is_heartbeat item \<Longrightarrow>
   frames_in q' = frames_in q \<and> heartbeats q' = heartbeats q \<and> length q' = length q"
proof (induction q arbitrary: q')
  case (Cons x q)
  then show ?case by (cases x; cases item) auto
qed simp

lemma replace_heartbeat_None: "replace_heartbeat item q = None \<longleftrightarrow> heartbeats q = 0"
  by (induction q) auto

text \<open>A subscriber's history: the frames offered to its open queue, the frames it took, and the
  number of misses its heartbeats announced.\<close>

record stream =
  sm_sub :: subscription
  sm_offered :: "string list"
  sm_taken :: "string list"
  sm_announced :: nat

definition offer :: "nat \<Rightarrow> queue_item \<Rightarrow> bool \<Rightarrow> stream \<Rightarrow> stream" where
  "offer bound item privileged s =
     s\<lparr>sm_sub := enqueue bound item privileged (sm_sub s),
       sm_offered := sm_offered s @ (if sb_closed (sm_sub s) then [] else frames_in [item])\<rparr>"

inductive stream_run :: "nat \<Rightarrow> stream \<Rightarrow> bool" for bound where
  run_new:
    "stream_run bound \<lparr>sm_sub = new_subscription ws actor, sm_offered = [], sm_taken = [], sm_announced = 0\<rparr>"
| run_deliver: "stream_run bound s \<Longrightarrow> stream_run bound (offer bound item privileged s)"
| run_schedule:
    "stream_run bound s \<Longrightarrow>
     stream_run bound (s\<lparr>sm_sub := deliver bound Other_Thread item privileged (sm_sub s)\<rparr>)"
| run_scheduled:
    "stream_run bound s \<Longrightarrow> sb_scheduled (sm_sub s) = (item, privileged) # rest \<Longrightarrow>
     stream_run bound (offer bound item privileged (s\<lparr>sm_sub := (sm_sub s)\<lparr>sb_scheduled := rest\<rparr>\<rparr>))"
| run_beat:
    "stream_run bound s \<Longrightarrow> heartbeat_payload (sm_sub s) = (sub', payload) \<Longrightarrow>
     stream_run bound (s\<lparr>sm_sub := sub',
       sm_announced := sm_announced s + (case map_of payload ''missed_events'' of Some (JInt n) \<Rightarrow> nat n | _ \<Rightarrow> 0)\<rparr>)"
| run_next:
    "stream_run bound s \<Longrightarrow> next_item (sm_sub s) = Some (item, sub') \<Longrightarrow>
     stream_run bound (s\<lparr>sm_sub := sub', sm_taken := sm_taken s @ frames_in [item]\<rparr>)"
| run_close: "stream_run bound s \<Longrightarrow> stream_run bound (s\<lparr>sm_sub := (sm_sub s)\<lparr>sb_closed := True\<rparr>\<rparr>)"

definition stream_ok :: "stream \<Rightarrow> bool" where
  "stream_ok s \<longleftrightarrow>
     subseq (sm_taken s @ frames_in (sb_queue (sm_sub s))) (sm_offered s) \<and>
     length (sm_offered s) \<le>
       length (sm_taken s) + length (frames_in (sb_queue (sm_sub s))) + sb_missed (sm_sub s) + sm_announced s \<and>
     (sb_lagged (sm_sub s) \<longleftrightarrow> 0 < sb_missed (sm_sub s)) \<and> heartbeats (sb_queue (sm_sub s)) \<le> 1"

lemma frames_in_tl: "q \<noteq> [] \<Longrightarrow> subseq (frames_in (tl q)) (frames_in q) \<and> length (frames_in q) \<le> Suc (length (frames_in (tl q)))"
proof (cases q)
  case (Cons x xs)
  then show ?thesis by (cases x) auto
qed simp

lemma heartbeats_tl: "heartbeats (tl q) \<le> heartbeats q"
  by (cases q) auto

lemma offer_ok:
  assumes "stream_ok s" shows "stream_ok (offer bound item privileged s)"
proof (cases "sb_closed (sm_sub s) \<and> item \<noteq> Close_Mark")
  case True
  then show ?thesis using assms by (simp add: offer_def enqueue_def stream_ok_def)
next
  case False
  let ?q = "sb_queue (sm_sub s)"
  have ok: "subseq (sm_taken s @ frames_in ?q) (sm_offered s)" "heartbeats ?q \<le> 1"
    "length (sm_offered s) \<le> length (sm_taken s) + length (frames_in ?q) + sb_missed (sm_sub s) + sm_announced s"
    "sb_lagged (sm_sub s) \<longleftrightarrow> 0 < sb_missed (sm_sub s)"
    using assms by (simp_all add: stream_ok_def)
  have off: "sm_offered (offer bound item privileged s) = sm_offered s @ frames_in [item]"
    using False by (auto simp: offer_def)
  have other: "sm_taken (offer bound item privileged s) = sm_taken s"
    "sm_announced (offer bound item privileged s) = sm_announced s" by (simp_all add: offer_def)
  show ?thesis
  proof (cases "is_heartbeat item \<and> heartbeats ?q \<noteq> 0")
    case True
    then obtain q' where "replace_heartbeat item ?q = Some q'"
      using replace_heartbeat_None [of item ?q] by auto
    moreover have "\<not> sb_closed (sm_sub s)" using True False by (cases item) auto
    ultimately show ?thesis
      using True ok replace_heartbeat_Some [of item ?q q'] off
      by (simp add: stream_ok_def offer_def enqueue_def)
  next
    case fresh: False
    then have sub: "sm_sub (offer bound item privileged s) = put_item bound item privileged (sm_sub s)"
      using False replace_heartbeat_None [of item ?q] by (auto simp: offer_def enqueue_def)
    show ?thesis
    proof (cases "item \<noteq> Close_Mark \<and> \<not> privileged \<and> bound \<le> length ?q \<and> ?q \<noteq> []")
      case True
      have "subseq (sm_taken s @ frames_in (tl ?q)) (sm_offered s)"
        using frames_in_tl [of ?q] True ok(1) by (meson subseq_append' subseq_order.order_trans)
      then have "subseq (sm_taken s @ frames_in (tl ?q @ [item])) (sm_offered s @ frames_in [item])"
        by (metis append_assoc frames_in_append list_emb_append_mono subseq_order.refl)
      then show ?thesis
        using True frames_in_tl [of ?q] ok heartbeats_tl [of ?q] fresh
        unfolding stream_ok_def sub off other by (auto simp: put_item_def)
    next
      case keep: False
      have "subseq (sm_taken s @ frames_in (?q @ [item])) (sm_offered s @ frames_in [item])"
        using ok(1) by (metis append_assoc frames_in_append list_emb_append_mono subseq_order.refl)
      then show ?thesis
        using keep ok fresh unfolding stream_ok_def sub off other by (auto simp: put_item_def)
    qed
  qed
qed

lemma stream_run_ok: "stream_run bound s \<Longrightarrow> stream_ok s"
proof (induction rule: stream_run.induct)
  case (run_scheduled s item privileged rest)
  then have "stream_ok (s\<lparr>sm_sub := (sm_sub s)\<lparr>sb_scheduled := rest\<rparr>\<rparr>)" by (simp add: stream_ok_def)
  then show ?case by (rule offer_ok)
next
  case (run_beat s sub' payload)
  then show ?case by (cases "sb_lagged (sm_sub s)") (auto simp: heartbeat_payload_def stream_ok_def)
next
  case (run_next s item sub')
  then obtain q where q: "sb_queue (sm_sub s) = item # q" "sub' = (sm_sub s)\<lparr>sb_queue := q\<rparr>"
    by (auto simp: next_item_def split: list.splits)
  have "frames_in (item # q) = frames_in [item] @ frames_in q" by (cases item) simp_all
  then show ?case using run_next.IH q by (auto simp: stream_ok_def split: if_splits)
qed (auto simp: offer_ok, auto simp: stream_ok_def new_subscription_def deliver_def)

text \<open>C30: no frame is lost in silence. Along any history of a subscriber, with deliveries on its loop
  and from other threads, heartbeats and reads in any order: what it has taken together with what is
  pending is a subsequence of the frames offered, in order; the frames that are not there number at
  most what its heartbeats were built to announce plus what the next one will announce; the lag flag is set
  exactly when that count is positive; and at most one heartbeat is pending.\<close>

theorem stream_accounts_for_frames:
  assumes "stream_run bound s"
  shows "subseq (sm_taken s @ frames_in (sb_queue (sm_sub s))) (sm_offered s) \<and>
    length (sm_offered s) - (length (sm_taken s) + length (frames_in (sb_queue (sm_sub s))))
      \<le> sb_missed (sm_sub s) + sm_announced s \<and>
    (sb_lagged (sm_sub s) \<longleftrightarrow> 0 < sb_missed (sm_sub s)) \<and> heartbeats (sb_queue (sm_sub s)) \<le> 1"
  using stream_run_ok [OF assms] by (auto simp: stream_ok_def)

text \<open>A run over a queue of two: three frames, so the first is dropped, and a heartbeat that says so.\<close>

definition sample_stream :: stream where
  "sample_stream =
     offer 2 (Frame ''c'') False (offer 2 (Frame ''b'') False (offer 2 (Frame ''a'') False
       \<lparr>sm_sub = new_subscription ''w'' None, sm_offered = [], sm_taken = [], sm_announced = 0\<rparr>))"

theorem stream_accounts_for_frames_witness:
  "sb_queue (sm_sub sample_stream) = [Frame ''b'', Frame ''c''] \<and> sb_missed (sm_sub sample_stream) = 1 \<and>
   subseq (frames_in (sb_queue (sm_sub sample_stream))) (sm_offered sample_stream)"
proof -
  have "stream_run 2 sample_stream" unfolding sample_stream_def by (intro run_deliver run_new)
  from stream_accounts_for_frames [OF this] show ?thesis
    by (simp add: sample_stream_def offer_def enqueue_def put_item_def new_subscription_def)
qed

section \<open>Presence\<close>

text \<open>Nothing that happens to a subscription changes whose it is.\<close>

abbreviation identity :: "subscription \<Rightarrow> string \<times> string option" where
  "identity sub \<equiv> (sb_workspace_id sub, sb_actor_id sub)"

lemma enqueue_identity [simp]: "sb_workspace_id (enqueue bound item privileged sub) = sb_workspace_id sub"
  "sb_actor_id (enqueue bound item privileged sub) = sb_actor_id sub"
  by (auto simp: enqueue_def put_item_def split: option.split)

lemma deliver_identity [simp]: "sb_workspace_id (deliver bound how item privileged sub) = sb_workspace_id sub"
  "sb_actor_id (deliver bound how item privileged sub) = sb_actor_id sub"
  by (cases how; simp add: deliver_def)+

lemma run_callback_identity: "identity (run_callback bound sub) = identity sub"
  by (auto simp: run_callback_def split: list.split)

lemma heartbeat_identity [simp]: "identity (fst (heartbeat_payload sub)) = identity sub"
  by (simp add: heartbeat_payload_def)

text \<open>The registrations and the roster of a hub; deliveries leave both alone.\<close>

definition same_hub :: "broadcast_hub \<Rightarrow> broadcast_hub \<Rightarrow> bool" where
  "same_hub h h' \<longleftrightarrow> hb_subscribers h' = hb_subscribers h \<and> hb_live_actors h' = hb_live_actors h \<and>
     hb_closed h' = hb_closed h \<and> map identity (hb_objects h') = map identity (hb_objects h)"

lemma same_hub_refl: "same_hub h h"
  by (simp add: same_hub_def)

lemma same_hub_trans: "same_hub a b \<Longrightarrow> same_hub b c \<Longrightarrow> same_hub a c"
  by (simp add: same_hub_def)

lemma same_hub_fold: "(\<And>x h. same_hub h (f x h)) \<Longrightarrow> same_hub h (fold f xs h)"
  by (induction xs arbitrary: h) (auto simp: same_hub_refl intro: same_hub_trans)

lemma same_hub_object:
  assumes "\<And>sub. identity (f sub) = identity sub"
  shows "same_hub h (on_object i f h)"
proof (cases "i < length (hb_objects h)")
  case True
  then show ?thesis using assms [of "hb_objects h ! i"]
    by (simp add: same_hub_def on_object_def map_update list_update_same_conv)
qed (simp add: same_hub_def on_object_def list_update_beyond)

lemma same_hub_deliver: "same_hub h (hub_deliver how item privileged i h)"
  unfolding hub_deliver_def by (rule same_hub_object) simp

lemma same_hub_publish: "same_hub h (publish_named show_float how ws event data h)"
  unfolding publish_named_def by (rule same_hub_fold) (rule same_hub_deliver)

lemma same_hub_heartbeats: "same_hub h (fst (send_heartbeats show_float how h))"
proof -
  have "same_hub h (send_heartbeat show_float how rosters i h)" for rosters i h
    unfolding send_heartbeat_def Let_def
    by (rule same_hub_trans [OF same_hub_object same_hub_deliver]) (simp add: heartbeat_payload_def)
  then show ?thesis by (simp add: send_heartbeats_def same_hub_refl same_hub_fold)
qed

definition registered :: "broadcast_hub \<Rightarrow> string \<Rightarrow> nat list" where
  "registered h ws = dict_get (hb_subscribers h) ws []"

text \<open>The reference count of an actor, and the subscriptions it counts.\<close>

definition refcount :: "int dict dict \<Rightarrow> string \<Rightarrow> string \<Rightarrow> int" where
  "refcount live ws a = dict_get (dict_get live ws []) a 0"

definition live_wf :: "int dict dict \<Rightarrow> bool" where
  "live_wf live \<longleftrightarrow> (\<forall>ws actors. map_of live ws = Some actors \<longrightarrow>
     distinct (map fst actors) \<and> (\<forall>a n. map_of actors a = Some n \<longrightarrow> 0 < n))"

lemma join_actor_facts:
  "live_wf live \<Longrightarrow> live_wf (join_actor ws actor live)"
  "refcount (join_actor ws actor live) ws' a =
     refcount live ws' a + (if ws' = ws \<and> actor = Some a \<and> a \<noteq> [] then 1 else 0)"
proof -
  show "refcount (join_actor ws actor live) ws' a =
     refcount live ws' a + (if ws' = ws \<and> actor = Some a \<and> a \<noteq> [] then 1 else 0)"
    by (cases actor) (auto simp: join_actor_def refcount_def Let_def)
  assume wf_live: "live_wf live"
  show "live_wf (join_actor ws actor live)"
    using wf_live
    by (cases actor; cases "map_of live ws")
      (auto simp: live_wf_def join_actor_def Let_def update_conv' dict_get_def distinct_update split: if_splits option.splits,
       fastforce+)
qed

text \<open>Leaving, when the actor is there: its count goes down, and with the last one it goes.\<close>

lemma leave_actor_cases:
  obtains (absent) "leave_actor ws actor live = live"
      "\<forall>a. actor = Some a \<longrightarrow> a \<noteq> [] \<longrightarrow> map_of (dict_get live ws []) a = None"
    | (present) a actors n rest where "actor = Some a" "a \<noteq> []" "map_of live ws = Some actors" "map_of actors a = Some n"
        "rest = (if n \<le> 1 then AList.delete a actors else AList.update a (n - 1) actors)"
        "leave_actor ws actor live = (if rest = [] then AList.delete ws live else AList.update ws rest live)"
proof (cases "\<exists>a actors n. actor = Some a \<and> a \<noteq> [] \<and> map_of live ws = Some actors \<and> map_of actors a = Some n")
  case True
  then obtain a actors n where "actor = Some a" "a \<noteq> []" "map_of live ws = Some actors" "map_of actors a = Some n" by blast
  then show thesis by (intro present) (simp_all add: leave_actor_def Let_def)
next
  case False
  then show thesis
    by (intro absent; cases actor) (auto simp: leave_actor_def dict_get_def split: option.split)
qed

lemma leave_actor_facts:
  assumes "live_wf live"
  shows "live_wf (leave_actor ws actor live)"
    "refcount (leave_actor ws actor live) ws' a' =
       (if ws' = ws \<and> actor = Some a' \<and> a' \<noteq> [] then max 0 (refcount live ws a' - 1) else refcount live ws' a')"
proof -
  have "live_wf (leave_actor ws actor live) \<and> refcount (leave_actor ws actor live) ws' a' =
       (if ws' = ws \<and> actor = Some a' \<and> a' \<noteq> [] then max 0 (refcount live ws a' - 1) else refcount live ws' a')"
  proof (cases rule: leave_actor_cases [of ws actor live])
    case absent
    then show ?thesis using assms by (auto simp: refcount_def dict_get_def)
  next
    case (present a actors n rest)
    have n: "0 < n" "distinct (map fst actors)" using assms present(3,4) by (auto simp: live_wf_def)
    have rest: "map_of rest b = (if b = a then (if n \<le> 1 then None else Some (n - 1)) else map_of actors b)" for b
      by (simp add: present(5) delete_conv' update_conv')
    have live: "map_of (leave_actor ws actor live) w =
        (if w = ws then (if rest = [] then None else Some rest) else map_of live w)" for w
      by (simp add: present(6) delete_conv' update_conv')
    have "distinct (map fst rest)" using n(2) by (simp add: present(5) distinct_delete distinct_update)
    moreover have "map_of rest b = Some k \<Longrightarrow> 0 < k" for b k
      using n assms present(3) unfolding rest by (auto simp: live_wf_def split: if_splits)
    ultimately have "live_wf (leave_actor ws actor live)"
      using assms unfolding live_wf_def live by (auto split: if_splits)
    moreover have "refcount (leave_actor ws actor live) ws' a' =
       (if ws' = ws \<and> actor = Some a' \<and> a' \<noteq> [] then max 0 (refcount live ws a' - 1) else refcount live ws' a')"
    proof (cases "ws' = ws")
      case True
      have "refcount (leave_actor ws actor live) ws a' = dict_get rest a' 0"
        unfolding refcount_def by (simp add: dict_get_def live)
      then show ?thesis
        using True n present(1-4) by (auto simp: refcount_def dict_get_def rest)
    next
      case False
      then show ?thesis by (simp add: refcount_def dict_get_def live)
    qed
    ultimately show ?thesis ..
  qed
  then show "live_wf (leave_actor ws actor live)"
    "refcount (leave_actor ws actor live) ws' a' =
       (if ws' = ws \<and> actor = Some a' \<and> a' \<noteq> [] then max 0 (refcount live ws a' - 1) else refcount live ws' a')"
    by blast+
qed

text \<open>The hub's history, with each subscription unsubscribed while it is registered.\<close>

inductive hub_run :: "broadcast_hub \<Rightarrow> bool" where
  hub_new: "hub_run (new_hub queue_size)"
| hub_subscribe: "hub_run h \<Longrightarrow> hub_run (fst (subscribe show_float ws snapshot actor h))"
| hub_unsubscribe:
    "hub_run h \<Longrightarrow> i \<in> set (registered h (sb_workspace_id (hb_objects h ! i))) \<Longrightarrow> hub_run (unsubscribe how i h)"
| hub_publish: "hub_run h \<Longrightarrow> hub_run (publish_named show_float dv ws event data h)"
| hub_heartbeats: "hub_run h \<Longrightarrow> hub_run (fst (send_heartbeats show_float dv h))"
| hub_callback: "hub_run h \<Longrightarrow> hub_run (on_object i (run_callback (hb_queue_size h)) h)"
| hub_next:
    "hub_run h \<Longrightarrow> i < length (hb_objects h) \<Longrightarrow> next_item (hb_objects h ! i) = Some (item, sub') \<Longrightarrow>
     hub_run (on_object i (\<lambda>_. sub') h)"

definition present_actors :: "broadcast_hub \<Rightarrow> string \<Rightarrow> string option list" where
  "present_actors h ws = map (\<lambda>i. sb_actor_id (hb_objects h ! i)) (registered h ws)"

definition hub_ok :: "broadcast_hub \<Rightarrow> bool" where
  "hub_ok h \<longleftrightarrow>
     (\<forall>ws. distinct (registered h ws) \<and>
        (\<forall>i\<in>set (registered h ws). i < length (hb_objects h) \<and> sb_workspace_id (hb_objects h ! i) = ws)) \<and>
     live_wf (hb_live_actors h) \<and>
     (\<forall>ws a. a \<noteq> [] \<longrightarrow> refcount (hb_live_actors h) ws a = int (count_list (present_actors h ws) (Some a))) \<and>
     (\<forall>ws. refcount (hb_live_actors h) ws [] = 0) \<and> \<not> hb_closed h"

lemma hub_ok_same:
  assumes "hub_ok h" "same_hub h h'"
  shows "hub_ok h'"
proof -
  have s: "hb_subscribers h' = hb_subscribers h" "hb_live_actors h' = hb_live_actors h" "hb_closed h' = hb_closed h"
    "map identity (hb_objects h') = map identity (hb_objects h)" using assms(2) by (auto simp: same_hub_def)
  have len: "length (hb_objects h') = length (hb_objects h)" by (rule map_eq_imp_length_eq [OF s(4)])
  have id: "sb_workspace_id (hb_objects h' ! i) = sb_workspace_id (hb_objects h ! i)"
    "sb_actor_id (hb_objects h' ! i) = sb_actor_id (hb_objects h ! i)" if "i < length (hb_objects h)" for i
    using arg_cong [OF s(4), of "\<lambda>xs. xs ! i"] that len by simp_all
  have reg: "registered h' = registered h" by (simp add: registered_def s(1) fun_eq_iff)
  have old: "distinct (registered h ws)" "\<forall>i\<in>set (registered h ws). i < length (hb_objects h) \<and> sb_workspace_id (hb_objects h ! i) = ws" for ws
    using assms(1) by (auto simp: hub_ok_def)
  have present: "present_actors h' ws = present_actors h ws" for ws
    using old(2) [of ws] id(2) unfolding present_actors_def reg by (intro map_cong) auto
  have "distinct (registered h' ws) \<and>
      (\<forall>i\<in>set (registered h' ws). i < length (hb_objects h') \<and> sb_workspace_id (hb_objects h' ! i) = ws)" for ws
    using old(1) [of ws] old(2) [of ws] id(1) unfolding reg len by simp
  moreover have "live_wf (hb_live_actors h')" "\<not> hb_closed h'" "refcount (hb_live_actors h') ws [] = 0"
    "a \<noteq> [] \<Longrightarrow> refcount (hb_live_actors h') ws a = int (count_list (present_actors h' ws) (Some a))" for ws a
    using assms(1) unfolding present s(2,3) by (simp_all add: hub_ok_def)
  ultimately show ?thesis unfolding hub_ok_def by simp
qed

lemma hub_ok_subscribe:
  assumes "hub_ok h" shows "hub_ok (fst (subscribe show_float ws snapshot actor h))"
proof -
  let ?h = "fst (subscribe show_float ws snapshot actor h)" and ?n = "length (hb_objects h)"
  define sub where "sub = (case snapshot of
      None \<Rightarrow> new_subscription ws actor
    | Some data \<Rightarrow> enqueue (hb_queue_size h) (Frame (format_sse show_float ''canonical_revision'' data)) False
                     (new_subscription ws actor))"
  have sub: "sb_workspace_id sub = ws" "sb_actor_id sub = actor" "hb_objects ?h = hb_objects h @ [sub]"
    "hb_subscribers ?h = AList.update ws (registered h ws @ [?n]) (hb_subscribers h)"
    "hb_live_actors ?h = join_actor ws actor (hb_live_actors h)" "\<not> hb_closed ?h"
    using assms by (simp_all add: subscribe_def Let_def hub_ok_def registered_def sub_def new_subscription_def split: option.split)
  have reg: "registered ?h ws' = (if ws' = ws then registered h ws @ [?n] else registered h ws')" for ws'
    unfolding registered_def sub(4) dict_get_update by simp
  have old: "distinct (registered h ws')" "\<forall>i\<in>set (registered h ws'). i < ?n \<and> sb_workspace_id (hb_objects h ! i) = ws'" for ws'
    using assms by (auto simp: hub_ok_def)
  have "map (\<lambda>i. sb_actor_id (hb_objects ?h ! i)) (registered h ws') = present_actors h ws'" for ws'
    unfolding present_actors_def sub(3) using old(2) [of ws'] by (intro map_cong) (auto simp: nth_append)
  then have present: "present_actors ?h ws' = present_actors h ws' @ (if ws' = ws then [actor] else [])" for ws'
    using sub(1-3) by (simp add: present_actors_def reg)
  have objs: "distinct (registered ?h ws') \<and>
      (\<forall>i\<in>set (registered ?h ws'). i < length (hb_objects ?h) \<and> sb_workspace_id (hb_objects ?h ! i) = ws')" for ws'
    using old [of ws'] sub(1) unfolding reg sub(3)
    by (auto simp: nth_append split: if_splits)
  have "refcount (hb_live_actors ?h) ws' a = int (count_list (present_actors ?h ws') (Some a))" if "a \<noteq> []" for ws' a
    using assms that unfolding hub_ok_def present sub(5) join_actor_facts(2) by simp
  moreover have "refcount (hb_live_actors ?h) ws' [] = 0" for ws'
    using assms unfolding hub_ok_def sub(5) join_actor_facts(2) by simp
  moreover have "live_wf (hb_live_actors ?h)"
    using assms join_actor_facts(1) unfolding hub_ok_def sub(5) by blast
  ultimately show ?thesis using objs sub(6) unfolding hub_ok_def by blast
qed

lemma count_without:
  "distinct xs \<Longrightarrow> i \<in> set xs \<Longrightarrow>
   int (count_list (map f (filter (\<lambda>j. j \<noteq> i) xs)) y) = int (count_list (map f xs) y) - (if f i = y then 1 else 0)"
proof (induction xs)
  case (Cons x xs)
  then show ?case
  proof (cases "x = i")
    case True
    then have "filter (\<lambda>j. j \<noteq> i) xs = xs" using Cons.prems by (auto simp: filter_id_conv)
    then show ?thesis using True by simp
  qed auto
qed simp

lemma hub_ok_unsubscribe:
  assumes ok: "hub_ok h" and i: "i \<in> set (registered h (sb_workspace_id (hb_objects h ! i)))"
  shows "hub_ok (unsubscribe how i h)"
proof -
  define ws where "ws = sb_workspace_id (hb_objects h ! i)"
  define actor where "actor = sb_actor_id (hb_objects h ! i)"
  define h1 where "h1 = h\<lparr>hb_subscribers :=
      (if filter (\<lambda>j. j \<noteq> i) (registered h ws) \<noteq> [] then AList.update ws (filter (\<lambda>j. j \<noteq> i) (registered h ws)) (hb_subscribers h)
       else AList.delete ws (hb_subscribers h)),
      hb_live_actors := leave_actor ws actor (hb_live_actors h)\<rparr>"
  have m: "map_of (hb_subscribers h) ws = Some (registered h ws)"
    using i by (cases "map_of (hb_subscribers h) ws") (simp_all add: registered_def ws_def dict_get_def)
  have un: "unsubscribe how i h = hub_deliver how Close_Mark False i (on_object i (sb_closed_update (\<lambda>_. True)) h1)"
    unfolding unsubscribe_def Let_def ws_def [symmetric] m by (simp add: h1_def actor_def)
  have reg: "registered h1 ws' = (if ws' = ws then filter (\<lambda>j. j \<noteq> i) (registered h ws) else registered h ws')" for ws'
    by (auto simp: registered_def h1_def dict_get_def update_conv' delete_conv')
  have obj: "hb_objects h1 = hb_objects h" "hb_live_actors h1 = leave_actor ws actor (hb_live_actors h)" "hb_closed h1 = hb_closed h"
    by (simp_all add: h1_def)
  have dist: "distinct (registered h ws)" using ok by (simp add: hub_ok_def)
  have counts: "int (count_list (present_actors h1 ws') y) =
      int (count_list (present_actors h ws') y) - (if ws' = ws \<and> actor = y then 1 else 0)" for ws' y
    using count_without [OF dist i [folded ws_def], of "\<lambda>i. sb_actor_id (hb_objects h ! i)" y]
    by (auto simp: present_actors_def reg obj actor_def)
  have "actor \<in> set (present_actors h ws)"
    using i by (auto simp: present_actors_def actor_def ws_def)
  then have pos: "0 < count_list (present_actors h ws) actor" by (simp add: count_list_0_iff neq0_conv [symmetric])
  have wfl: "live_wf (hb_live_actors h)" using ok by (simp add: hub_ok_def)
  have ref: "refcount (hb_live_actors h1) ws' a = int (count_list (present_actors h1 ws') (Some a))" if "a \<noteq> []" for ws' a
    using that ok pos unfolding obj leave_actor_facts(2) [OF wfl] counts hub_ok_def by auto
  have "hub_ok h1"
    using ok ref leave_actor_facts [OF wfl] unfolding hub_ok_def reg obj by auto
  then show ?thesis
    unfolding un by (rule hub_ok_same) (rule same_hub_trans [OF same_hub_object same_hub_deliver], simp)
qed

lemma hub_run_ok: "hub_run h \<Longrightarrow> hub_ok h"
proof (induction rule: hub_run.induct)
  case (hub_new queue_size)
  show ?case
    by (simp add: hub_ok_def new_hub_def registered_def dict_get_def live_wf_def refcount_def present_actors_def)
next
  case (hub_next h i item sub')
  then have "identity sub' = identity (hb_objects h ! i)" by (auto simp: next_item_def split: list.splits)
  then have "same_hub h (on_object i (\<lambda>_. sub') h)"
    using hub_next.hyps(2) by (simp add: same_hub_def on_object_def map_update list_update_same_conv)
  then show ?case using hub_ok_same hub_next.IH by blast
next
  case (hub_callback h i)
  show ?case by (rule hub_ok_same [OF hub_callback.IH same_hub_object]) (rule run_callback_identity)
next
  case (hub_unsubscribe h i how)
  show ?case by (rule hub_ok_unsubscribe [OF hub_unsubscribe.IH hub_unsubscribe.hyps(2)])
qed (rule hub_ok_subscribe hub_ok_same [OF _ same_hub_publish] hub_ok_same [OF _ same_hub_heartbeats]; assumption)+

text \<open>The roster is presence. When every subscription is closed once, the live actors of a
  workspace are exactly the named actors of its registered subscriptions, each listed once and in
  order, however many tabs an actor has open and whatever was published in between.\<close>

lemma roster_is_presence:
  assumes "hub_run h"
  shows "sorted (live_actors h ws) \<and> distinct (live_actors h ws) \<and>
    (\<forall>a. a \<in> set (live_actors h ws) \<longleftrightarrow> a \<noteq> [] \<and> (\<exists>i\<in>set (registered h ws). sb_actor_id (hb_objects h ! i) = Some a))"
proof -
  let ?live = "dict_get (hb_live_actors h) ws []"
  have ok: "hub_ok h" using hub_run_ok [OF assms] .
  have w: "distinct (map fst ?live)" "\<And>a n. map_of ?live a = Some n \<Longrightarrow> 0 < n"
    using ok by (cases "map_of (hb_live_actors h) ws"; auto simp: hub_ok_def live_wf_def dict_get_def)+
  have "a \<in> set (live_actors h ws) \<longleftrightarrow> 0 < refcount (hb_live_actors h) ws a" for a
  proof -
    have "a \<in> set (live_actors h ws) \<longleftrightarrow> map_of ?live a \<noteq> None"
      by (simp add: live_actors_def map_of_eq_None_iff)
    then show ?thesis using w(2) [of a] by (auto simp: refcount_def dict_get_def [of ?live] split: option.splits)
  qed
  moreover have "0 < refcount (hb_live_actors h) ws a \<longleftrightarrow> a \<noteq> [] \<and> Some a \<in> set (present_actors h ws)" for a
    using ok by (cases "a = []") (auto simp: hub_ok_def count_list_0_iff neq0_conv [symmetric])
  moreover have "Some a \<in> set (present_actors h ws) \<longleftrightarrow> (\<exists>i\<in>set (registered h ws). sb_actor_id (hb_objects h ! i) = Some a)" for a
    by (auto simp: present_actors_def) (metis imageI)
  moreover have "sorted (live_actors h ws)" "distinct (live_actors h ws)"
    using w(1) by (simp_all add: live_actors_def)
  ultimately show ?thesis by blast
qed

text \<open>Two tabs of one actor on one workspace.\<close>

definition two_tabs :: "string \<Rightarrow> string \<Rightarrow> broadcast_hub" where
  "two_tabs ws a =
     fst (subscribe (\<lambda>_. []) ws None (Some a) (fst (subscribe (\<lambda>_. []) ws None (Some a) (new_hub DEFAULT_QUEUE_SIZE))))"

lemma roster_is_presence_witness:
  "live_actors (unsubscribe Same_Loop 0 (two_tabs ''w'' ''ann'')) ''w'' = [''ann''] \<and>
   (\<forall>a. a \<in> set (live_actors (unsubscribe Same_Loop 0 (two_tabs ''w'' ''ann'')) ''w'') \<longleftrightarrow>
      a \<noteq> [] \<and> (\<exists>i\<in>set (registered (unsubscribe Same_Loop 0 (two_tabs ''w'' ''ann'')) ''w'').
        sb_actor_id (hb_objects (unsubscribe Same_Loop 0 (two_tabs ''w'' ''ann'')) ! i) = Some a))"
proof -
  have "hub_run (two_tabs ''w'' ''ann'')" unfolding two_tabs_def by (intro hub_subscribe hub_new)
  moreover have "0 \<in> set (registered (two_tabs ''w'' ''ann'') (sb_workspace_id (hb_objects (two_tabs ''w'' ''ann'') ! 0)))"
    by code_simp
  ultimately have run: "hub_run (unsubscribe Same_Loop 0 (two_tabs ''w'' ''ann''))" by (rule hub_unsubscribe)
  have "live_actors (unsubscribe Same_Loop 0 (two_tabs ''w'' ''ann'')) ''w'' = [''ann'']" by code_simp
  then show ?thesis using roster_is_presence [OF run, of "''w''"] by blast
qed

section \<open>Closing a stream twice\<close>

lemma two_tabs_second_close:
  assumes "a \<noteq> []"
  shows "live_actors (unsubscribe how 0 (two_tabs ws a)) ws = [a] \<and>
    live_actors (unsubscribe how' 0 (unsubscribe how 0 (two_tabs ws a))) ws = [] \<and>
    registered (unsubscribe how' 0 (unsubscribe how 0 (two_tabs ws a))) ws = [1]"
  using assms
  by (simp add: two_tabs_def subscribe_def new_hub_def new_subscription_def Let_def join_actor_def dict_get_def
      unsubscribe_def leave_actor_def hub_deliver_def on_object_def live_actors_def registered_def)

text \<open>Closing a subscription is not idempotent for presence. A stream's iterator and the route
  around it both close the subscription when a client leaves; if the actor has a second tab open, the
  second close takes the other tab's reference, and the actor leaves the roster while its remaining
  subscription is registered.\<close>

lemma second_close_drops_live_actor:
  assumes "a \<noteq> []"
  shows "live_actors (unsubscribe how 0 (two_tabs ws a)) ws = [a] \<and>
    live_actors (unsubscribe how' 0 (unsubscribe how 0 (two_tabs ws a))) ws = [] \<and>
    registered (unsubscribe how' 0 (unsubscribe how 0 (two_tabs ws a))) ws = [1]"
  by (rule two_tabs_second_close [OF assms])

lemma second_close_drops_live_actor_witness:
  "live_actors (unsubscribe Other_Thread 0 (unsubscribe Same_Loop 0 (two_tabs ''w'' ''ann''))) ''w'' = []"
  using second_close_drops_live_actor [of "''ann''" Same_Loop "''w''" Other_Thread] by simp

end
