(* ===== verification/Selected_Time.thy ===== *)
theory Selected_Time
  imports Store_Contract
begin

text \<open>
  Selected-time coverage, \<open>server/realtime/selected_time.py\<close>: the disclosure of a publication cut to
  the requested times, the walk over the durable history that finds the times still missing, the
  guard that refuses to compose such a history, the coverage report and the first stream frame, and
  the demand registry.

  Manifests are decoded JSON objects; what the code does to values of other shapes is a raised
  \<open>py_error\<close>. \<open>show\<close> is \<open>str()\<close> of a value that is not a string.
\<close>

section \<open>The flag\<close>

definition ENV_FLAG_NAME :: string where "ENV_FLAG_NAME = ''SOLWEIG_RT_SELECTED_TIME_STREAMING''"

definition MANIFEST_KEY :: string where "MANIFEST_KEY = ''time_coverage''"

definition lower_char :: "char \<Rightarrow> char" where
  "lower_char c = (let n = of_char c :: nat in if 65 \<le> n \<and> n \<le> 90 then char_of (n + 32) else c)"

definition enabled :: "string dict \<Rightarrow> bool" where
  "enabled environ \<longleftrightarrow>
     map lower_char (strip_str (dict_get environ ENV_FLAG_NAME [])) \<in> {''1'', ''true'', ''yes'', ''on''}"

section \<open>Reading manifests\<close>

definition disclosure_block :: "int list \<Rightarrow> int \<Rightarrow> json dict" where
  "disclosure_block time_indices time_steps =
     (let covered = sort (remdups time_indices)
      in [(''complete'', JBool (time_steps \<le> int (length covered) \<and> covered = [0..time_steps - 1])),
          (''time_indices'', JArr (map JInt covered)), (''time_steps'', JInt time_steps)])"

text \<open>Iterating over a JSON value, as \<open>for t in value\<close> does.\<close>

fun json_iter :: "json \<Rightarrow> py_error + json list" where
  "json_iter (JArr xs) = Inr xs"
| "json_iter (JObj d) = Inr (map (JStr \<circ> fst) d)"
| "json_iter (JStr s) = Inr (map (\<lambda>c. JStr [c]) s)"
| "json_iter v = Inl (TypeError ''not iterable'')"

definition int_entries :: "json option \<Rightarrow> py_error + int list" where
  "int_entries v =
     (case v of None \<Rightarrow> Inr [] | Some x \<Rightarrow> bind_exc (json_iter x) (traverse py_int))"

definition record_missing_times :: "json dict \<Rightarrow> int \<Rightarrow> py_error + int set" where
  "record_missing_times manifest time_steps =
     (case map_of manifest MANIFEST_KEY of
        Some (JObj block) \<Rightarrow>
          if map_of block ''complete'' = Some (JBool False)
          then map_sum id (\<lambda>covered. {0..<time_steps} - set covered) (int_entries (map_of block ''time_indices''))
          else Inr {}
      | _ \<Rightarrow> Inr {})"

definition manifest_covers_full_time :: "json dict \<Rightarrow> int \<Rightarrow> py_error + bool" where
  "manifest_covers_full_time manifest time_steps =
     map_sum id (\<lambda>indices. int (length indices) = time_steps \<and> set indices = {0..<time_steps})
       (int_entries (map_of manifest ''time_indices''))"

text \<open>\<open>manifest.get("window") or {}\<close>.\<close>

definition window_or_empty :: "json dict \<Rightarrow> py_error + json dict" where
  "window_or_empty manifest =
     (case map_of manifest ''window'' of
        None \<Rightarrow> Inr []
      | Some (JObj w) \<Rightarrow> Inr w
      | Some JNull \<Rightarrow> Inr [] | Some (JBool False) \<Rightarrow> Inr [] | Some (JStr []) \<Rightarrow> Inr [] | Some (JArr []) \<Rightarrow> Inr []
      | Some (JInt i) \<Rightarrow> if i = 0 then Inr [] else Inl (AttributeError ''get'')
      | Some (JFloat r) \<Rightarrow> if r = 0 then Inr [] else Inl (AttributeError ''get'')
      | Some _ \<Rightarrow> Inl (AttributeError ''get''))"

definition window_field :: "json dict \<Rightarrow> string \<Rightarrow> int \<Rightarrow> py_error + int" where
  "window_field w k dflt = py_int (dict_get w k (JInt dflt))"

text \<open>A conjunct \<open>int(window.get(k, -1)) == n\<close> and the conjuncts after it.\<close>

definition field_is :: "json dict \<Rightarrow> string \<Rightarrow> int \<Rightarrow> py_error + bool \<Rightarrow> py_error + bool" where
  "field_is w k n rest = bind_exc (window_field w k (-1)) (\<lambda>v. if v = n then rest else Inr False)"

definition record_window_is_full_site :: "json dict \<Rightarrow> int \<Rightarrow> int \<Rightarrow> py_error + bool" where
  "record_window_is_full_site manifest rows cols =
     bind_exc (window_or_empty manifest) (\<lambda>w.
       field_is w ''row_start'' 0 (field_is w ''col_start'' 0
         (field_is w ''row_stop'' rows (field_is w ''col_stop'' cols (Inr True)))))"

definition heals_gap :: "json dict \<Rightarrow> int \<Rightarrow> int \<Rightarrow> int \<Rightarrow> py_error + bool" where
  "heals_gap manifest time_steps rows cols =
     bind_exc (manifest_covers_full_time manifest time_steps) (\<lambda>b.
       if b then record_window_is_full_site manifest rows cols else Inr False)"

section \<open>Gaps in a history\<close>

definition name_of :: "(json \<Rightarrow> string) \<Rightarrow> json dict \<Rightarrow> string" where
  "name_of show entry =
     (case map_of entry ''name'' of Some (JStr s) \<Rightarrow> s | Some v \<Rightarrow> show v | None \<Rightarrow> ''None'')"

fun entry_names :: "(json \<Rightarrow> string) \<Rightarrow> json list \<Rightarrow> string list" where
  "entry_names show [] = []"
| "entry_names show (JObj entry # xs) = name_of show entry # entry_names show xs"
| "entry_names show (x # xs) = entry_names show xs"

definition record_variables :: "(json \<Rightarrow> string) \<Rightarrow> json dict \<Rightarrow> py_error + string list" where
  "record_variables show manifest =
     (case map_of manifest ''variables'' of
        None \<Rightarrow> Inr [] | Some v \<Rightarrow> map_sum id (entry_names show) (json_iter v))"

type_synonym gaps = "int set dict"

definition drop_empty :: "gaps \<Rightarrow> gaps" where
  "drop_empty gs = filter (\<lambda>p. snd p \<noteq> {}) gs"

definition close_gaps :: "string list \<Rightarrow> gaps \<Rightarrow> gaps" where
  "close_gaps names gs =
     drop_empty (map (\<lambda>(n, ts). (n, if names = [] \<or> n \<in> set names then {} else ts)) gs)"

definition open_gaps :: "int set \<Rightarrow> string list \<Rightarrow> gaps \<Rightarrow> gaps" where
  "open_gaps missing names gs = fold (\<lambda>n g. AList.update n (dict_get g n {} \<union> missing) g) names gs"

definition gap_step ::
  "(json \<Rightarrow> string) \<Rightarrow> string list \<Rightarrow> int \<Rightarrow> int \<Rightarrow> int \<Rightarrow> gaps \<Rightarrow> json dict \<Rightarrow> py_error + gaps" where
  "gap_step show variables time_steps rows cols gs manifest =
     bind_exc (record_variables show manifest) (\<lambda>names.
     bind_exc (heals_gap manifest time_steps rows cols) (\<lambda>heals.
       if heals then Inr (close_gaps names gs)
       else map_sum id (\<lambda>missing.
              if missing = {} then gs
              else open_gaps missing (if names \<noteq> [] then names else variables) gs)
            (record_missing_times manifest time_steps)))"

definition gap_times ::
  "(json \<Rightarrow> string) \<Rightarrow> json dict list \<Rightarrow> string list \<Rightarrow> int \<Rightarrow> int \<Rightarrow> int \<Rightarrow> py_error + gaps" where
  "gap_times show manifests variables time_steps rows cols =
     map_sum id drop_empty (fold_exc (gap_step show variables time_steps rows cols) [] manifests)"

datatype coverage_error = Raised py_error | Time_Coverage_Gap "string list" "int list"

definition guard_composition ::
  "(json \<Rightarrow> string) \<Rightarrow> json dict list \<Rightarrow> string list \<Rightarrow> int \<Rightarrow> int \<Rightarrow> int \<Rightarrow> coverage_error + unit" where
  "guard_composition show manifests variables time_steps rows cols =
     (case gap_times show manifests variables time_steps rows cols of
        Inl e \<Rightarrow> Inl (Raised e)
      | Inr gs \<Rightarrow>
          if gs = [] then Inr ()
          else let names = filter (\<lambda>n. map_of gs n \<noteq> None) variables
               in Inl (Time_Coverage_Gap (if names \<noteq> [] then names else sort (map fst gs))
                         (sorted_list_of_set (\<Union> (snd ` set gs)))))"

section \<open>The coverage report\<close>

record record_coverage =
  rc_scene_version :: int
  rc_window :: "json dict"
  rc_time_indices :: "int list"
  rc_request_cut :: bool

record variable_coverage =
  vc_missing_times :: "int list"
  vc_covered_times :: "int list"

record coverage =
  cr_workspace_id :: string
  cr_exact_revision :: int
  cr_workspace_revision :: int
  cr_time_steps :: int
  cr_complete :: bool
  cr_variables :: "variable_coverage dict"
  cr_records :: "record_coverage list"
  cr_latest_result_age :: "int option"
  cr_superseded_jobs :: nat

definition request_cut :: "json dict \<Rightarrow> bool" where
  "request_cut manifest \<longleftrightarrow>
     (case map_of manifest MANIFEST_KEY of
        Some (JObj block) \<Rightarrow> map_of block ''complete'' = Some (JBool False) | _ \<Rightarrow> False)"

text \<open>One record of the history: its entry, and the extent seen so far.\<close>

definition report_step ::
  "(int \<times> int) \<times> record_coverage list \<Rightarrow> result_record \<Rightarrow> py_error + (int \<times> int) \<times> record_coverage list" where
  "report_step s r =
     (case s of ((rows, cols), entries) \<Rightarrow>
        let manifest = rs_manifest r in
        bind_exc (window_or_empty manifest) (\<lambda>w.
        bind_exc (window_field w ''row_stop'' 0) (\<lambda>rstop.
        bind_exc (window_field w ''col_stop'' 0) (\<lambda>cstop.
        bind_exc (int_entries (map_of manifest ''time_indices'')) (\<lambda>times.
          Inr ((max rows rstop, max cols cstop),
               entries @ [\<lparr>rc_scene_version = rs_scene_version r, rc_window = w, rc_time_indices = times,
                           rc_request_cut = request_cut manifest\<rparr>]))))))"

definition result_history :: "store \<Rightarrow> string \<Rightarrow> result_record list" where
  "result_history st ws = List.map_filter (get_result st ws) (result_versions st ws)"

definition variable_entry :: "int \<Rightarrow> gaps \<Rightarrow> string \<Rightarrow> variable_coverage" where
  "variable_entry time_steps gs name =
     (let missing = dict_get gs name {}
      in \<lparr>vc_missing_times = sorted_list_of_set missing,
          vc_covered_times = sorted_list_of_set ({0..<time_steps} - missing)\<rparr>)"

definition latest_result_age :: "int \<Rightarrow> store \<Rightarrow> string \<Rightarrow> int option" where
  "latest_result_age now st ws =
     (case latest_result st ws of
        None \<Rightarrow> None
      | Some r \<Rightarrow> (case parse_stamp (rs_created_at r) of Inl _ \<Rightarrow> None | Inr t \<Rightarrow> Some (now - t)))"

definition superseded_jobs :: "store \<Rightarrow> string \<Rightarrow> nat" where
  "superseded_jobs st ws =
     length (filter (\<lambda>j. jb_scenario_id j = ws \<and> jb_status j = ''superseded'') (tb_jobs st))"

definition coverage_report ::
  "(json \<Rightarrow> string) \<Rightarrow> int \<Rightarrow> store \<Rightarrow> string \<Rightarrow> string list \<Rightarrow> int \<Rightarrow> py_error + coverage" where
  "coverage_report show now st ws variables time_steps =
     (let records = result_history st ws in
      bind_exc (fold_exc report_step ((0, 0), []) records) (\<lambda>((rows, cols), entries).
      bind_exc (gap_times show (map rs_manifest records) variables time_steps rows cols) (\<lambda>gs.
        Inr \<lparr>cr_workspace_id = ws,
             cr_exact_revision = (case get_scenario st ws of Some r \<Rightarrow> sc_exact_result_version r | None \<Rightarrow> 0),
             cr_workspace_revision = (case get_scenario st ws of Some r \<Rightarrow> sc_scene_version r | None \<Rightarrow> 0),
             cr_time_steps = time_steps, cr_complete = (gs = []),
             cr_variables = fold (\<lambda>n d. AList.update n (variable_entry time_steps gs n) d) variables [],
             cr_records = entries, cr_latest_result_age = latest_result_age now st ws,
             cr_superseded_jobs = superseded_jobs st ws\<rparr>)))"

record selected_frame =
  sf_workspace_id :: string
  sf_requested :: "int list"
  sf_covered :: "int list"
  sf_missing :: "int list"
  sf_complete :: bool
  sf_exact_revision :: int
  sf_workspace_revision :: int
  sf_latest_result_age :: "int option"

definition initial_frame :: "coverage \<Rightarrow> int list \<Rightarrow> selected_frame" where
  "initial_frame report requested =
     (let times = sort (remdups requested);
          missing = (\<Union>p\<in>set (cr_variables report). set (vc_missing_times (snd p)))
      in \<lparr>sf_workspace_id = cr_workspace_id report, sf_requested = times,
          sf_covered = filter (\<lambda>t. t \<notin> missing) times, sf_missing = filter (\<lambda>t. t \<in> missing) times,
          sf_complete = cr_complete report, sf_exact_revision = cr_exact_revision report,
          sf_workspace_revision = cr_workspace_revision report,
          sf_latest_result_age = cr_latest_result_age report\<rparr>)"

section \<open>The demand registry\<close>

type_synonym demand = "int dict"

definition register :: "string \<Rightarrow> demand \<Rightarrow> demand" where
  "register ws d = AList.update ws (dict_get d ws 0 + 1) d"

definition release_demand :: "string \<Rightarrow> demand \<Rightarrow> demand" where
  "release_demand ws d =
     (let n = dict_get d ws 0 - 1 in if 0 < n then AList.update ws n d else AList.delete ws d)"

definition pending :: "demand \<Rightarrow> bool" where
  "pending d \<longleftrightarrow> d \<noteq> []"

definition demand_workspaces :: "demand \<Rightarrow> string list" where
  "demand_workspaces d = sort (map fst d)"

end
