(* ===== verification/Selected_Time_Contract.thy ===== *)
theory Selected_Time_Contract
  imports Selected_Time
begin

text \<open>
  The walk over a result history against its meaning: a time of a variable is missing exactly when
  some publication was cut there and no later publication recomputed the whole scene for that
  variable. The guard refuses exactly the histories with a missing time, and the coverage report
  serves exactly the others, provided some publication reaches the site's last row and column.
\<close>

section \<open>What a gap is\<close>

definition healed :: "(json \<Rightarrow> string) \<Rightarrow> int \<Rightarrow> int \<Rightarrow> int \<Rightarrow> string \<Rightarrow> json dict \<Rightarrow> bool" where
  "healed show ts rows cols name m \<longleftrightarrow>
     heals_gap m ts rows cols = Inr True \<and>
     (\<exists>ns. record_variables show m = Inr ns \<and> (ns = [] \<or> name \<in> set ns))"

definition cut_at :: "(json \<Rightarrow> string) \<Rightarrow> string list \<Rightarrow> int \<Rightarrow> int \<Rightarrow> int \<Rightarrow> string \<Rightarrow> int \<Rightarrow> json dict \<Rightarrow> bool" where
  "cut_at show variables ts rows cols name t m \<longleftrightarrow>
     heals_gap m ts rows cols = Inr False \<and>
     (\<exists>ns missing. record_variables show m = Inr ns \<and> record_missing_times m ts = Inr missing \<and> t \<in> missing \<and>
        name \<in> set (if ns \<noteq> [] then ns else variables))"

definition unhealed ::
  "(json \<Rightarrow> string) \<Rightarrow> string list \<Rightarrow> int \<Rightarrow> int \<Rightarrow> int \<Rightarrow> json dict list \<Rightarrow> string \<Rightarrow> int \<Rightarrow> bool" where
  "unhealed show variables ts rows cols ms name t \<longleftrightarrow>
     (\<exists>before m after. ms = before @ m # after \<and> cut_at show variables ts rows cols name t m \<and>
        (\<forall>m'\<in>set after. \<not> healed show ts rows cols name m'))"

lemma unhealed_snoc:
  "unhealed show variables ts rows cols (ms @ [m]) name t \<longleftrightarrow>
     cut_at show variables ts rows cols name t m \<or>
     unhealed show variables ts rows cols ms name t \<and> \<not> healed show ts rows cols name m"
  (is "?l \<longleftrightarrow> ?r")
proof
  assume ?l
  then obtain before m' after where *: "ms @ [m] = before @ m' # after"
    "cut_at show variables ts rows cols name t m'" "\<forall>m\<in>set after. \<not> healed show ts rows cols name m"
    by (auto simp: unhealed_def)
  then show ?r by (cases after rule: rev_cases) (auto simp: unhealed_def)
next
  assume ?r
  then show ?l
  proof
    assume "cut_at show variables ts rows cols name t m"
    then show ?l unfolding unhealed_def by (intro exI [of _ ms] exI [of _ m] exI [of _ "[]"]) simp
  next
    assume *: "unhealed show variables ts rows cols ms name t \<and> \<not> healed show ts rows cols name m"
    then obtain before m' after where "ms = before @ m' # after"
      "cut_at show variables ts rows cols name t m'" "\<forall>m\<in>set after. \<not> healed show ts rows cols name m"
      by (auto simp: unhealed_def)
    then show ?l using * unfolding unhealed_def
      by (intro exI [of _ before] exI [of _ m'] exI [of _ "after @ [m]"]) auto
  qed
qed

section \<open>The walk\<close>

definition gaps_ok :: "int \<Rightarrow> gaps \<Rightarrow> bool" where
  "gaps_ok ts gs \<longleftrightarrow> distinct (dict_keys gs) \<and> (\<forall>n. dict_get gs n {} \<subseteq> {0..<ts})"

lemma dict_get_filter:
  assumes "distinct (dict_keys gs)"
  shows "dict_get (drop_empty gs) n {} = dict_get gs n {}"
proof -
  have "map_of (drop_empty gs) n = (case map_of gs n of Some ts \<Rightarrow> if ts = {} then None else Some ts | None \<Rightarrow> None)"
    using assms
  proof (induction gs)
    case (Cons p gs)
    have "map_of (drop_empty gs) (fst p) = None"
      using Cons.prems by (force simp: map_of_eq_None_iff drop_empty_def)
    then show ?case using Cons by (cases p) (simp add: drop_empty_def)
  qed (simp add: drop_empty_def)
  then show ?thesis by (simp add: dict_get_def split: option.split)
qed

lemma drop_empty_keys: "distinct (dict_keys gs) \<Longrightarrow> distinct (dict_keys (drop_empty gs))"
  by (simp add: drop_empty_def distinct_map_filter)

lemma close_gaps_get:
  assumes "distinct (dict_keys gs)"
  shows "dict_get (close_gaps names gs) n {} = (if names = [] \<or> n \<in> set names then {} else dict_get gs n {})"
    "distinct (dict_keys (close_gaps names gs))"
proof -
  define f where "f n ts = (if names = [] \<or> n \<in> set names then {} else ts :: int set)" for n ts
  define g where "g = map (\<lambda>(n, ts). (n, f n ts)) gs"
  have k: "dict_keys g = dict_keys gs" unfolding g_def by (induction gs) auto
  have "map_of g n = map_option (f n) (map_of gs n)" unfolding g_def by (induction gs) auto
  then have "dict_get g n {} = f n (dict_get gs n {})" by (simp add: dict_get_def f_def split: option.split)
  moreover have c: "close_gaps names gs = drop_empty g" by (simp add: close_gaps_def g_def f_def)
  ultimately show "dict_get (close_gaps names gs) n {} = (if names = [] \<or> n \<in> set names then {} else dict_get gs n {})"
    using dict_get_filter [of g n] assms k by (simp add: f_def)
  show "distinct (dict_keys (close_gaps names gs))"
    using drop_empty_keys [of g] assms k c by simp
qed

lemma open_gaps_get:
  "dict_get (open_gaps missing names gs) n {} = dict_get gs n {} \<union> (if n \<in> set names then missing else {})"
  "distinct (dict_keys gs) \<Longrightarrow> distinct (dict_keys (open_gaps missing names gs))"
  by (induction names arbitrary: gs) (auto simp: open_gaps_def)

lemma record_missing_range: "record_missing_times m ts = Inr missing \<Longrightarrow> missing \<subseteq> {0..<ts}"
  by (auto simp: record_missing_times_def split: option.splits json.splits if_splits dest!: map_sum_Inr)

lemma gap_step_spec:
  assumes "gap_step show variables ts rows cols gs m = Inr gs'" "gaps_ok ts gs"
  shows "gaps_ok ts gs' \<and> (\<forall>n t. t \<in> dict_get gs' n {} \<longleftrightarrow>
    cut_at show variables ts rows cols n t m \<or> t \<in> dict_get gs n {} \<and> \<not> healed show ts rows cols n m)"
proof -
  obtain names heals where nh: "record_variables show m = Inr names" "heals_gap m ts rows cols = Inr heals"
    using assms(1) by (auto simp: gap_step_def bind_exc_Inr)
  have gs: "distinct (dict_keys gs)" "\<And>n. dict_get gs n {} \<subseteq> {0..<ts}" using assms(2) by (auto simp: gaps_ok_def)
  show ?thesis
  proof (cases heals)
    case True
    then have "gs' = close_gaps names gs" using assms(1) nh by (simp add: gap_step_def)
    moreover have "healed show ts rows cols n m \<longleftrightarrow> names = [] \<or> n \<in> set names" for n
      using nh True by (auto simp: healed_def)
    moreover have "\<not> cut_at show variables ts rows cols n t m" for n t
      using nh True by (simp add: cut_at_def)
    ultimately show ?thesis
      using close_gaps_get [OF gs(1), of names] gs(2) by (simp add: gaps_ok_def)
  next
    case False
    then obtain missing where miss: "record_missing_times m ts = Inr missing"
      "gs' = (if missing = {} then gs else open_gaps missing (if names \<noteq> [] then names else variables) gs)"
      using assms(1) nh by (auto simp: gap_step_def dest!: map_sum_Inr)
    have "\<not> healed show ts rows cols n m" for n using nh False by (simp add: healed_def)
    moreover have "cut_at show variables ts rows cols n t m \<longleftrightarrow>
        t \<in> missing \<and> n \<in> set (if names \<noteq> [] then names else variables)" for n t
      using nh False miss(1) by (simp add: cut_at_def)
    moreover have "dict_get gs' n {} =
        dict_get gs n {} \<union> (if n \<in> set (if names \<noteq> [] then names else variables) then missing else {})" for n
      unfolding miss(2) by (auto simp: open_gaps_get)
    moreover have "distinct (dict_keys gs')" unfolding miss(2) using gs(1) by (auto simp: open_gaps_get)
    ultimately show ?thesis
      using gs(2) record_missing_range [OF miss(1)] unfolding gaps_ok_def by (auto split: if_splits)
  qed
qed

lemma walk_spec:
  assumes "fold_exc (gap_step show variables ts rows cols) [] ms = Inr gs"
  shows "gaps_ok ts gs \<and> (\<forall>n t. t \<in> dict_get gs n {} \<longleftrightarrow> unhealed show variables ts rows cols ms n t)"
  using assms
proof (induction ms arbitrary: gs rule: rev_induct)
  case Nil
  then show ?case by (auto simp: gaps_ok_def dict_get_def unhealed_def)
next
  case (snoc m ms)
  then obtain g where g: "fold_exc (gap_step show variables ts rows cols) [] ms = Inr g"
    "gap_step show variables ts rows cols g m = Inr gs"
    by (auto simp: fold_exc_append split: sum.splits)
  then show ?case using snoc.IH [OF g(1)] gap_step_spec [OF g(2)] by (simp add: unhealed_snoc)
qed

lemma gap_times_spec:
  assumes "gap_times show ms variables ts rows cols = Inr gs"
  shows "gaps_ok ts gs" "t \<in> dict_get gs n {} \<longleftrightarrow> unhealed show variables ts rows cols ms n t"
    "(n, tms) \<in> set gs \<Longrightarrow> tms = dict_get gs n {} \<and> tms \<noteq> {}"
proof -
  obtain g where g: "fold_exc (gap_step show variables ts rows cols) [] ms = Inr g" "gs = drop_empty g"
    using assms by (auto simp: gap_times_def dest!: map_sum_Inr)
  have w: "gaps_ok ts g" "\<And>n t. t \<in> dict_get g n {} \<longleftrightarrow> unhealed show variables ts rows cols ms n t"
    using walk_spec [OF g(1)] by auto
  then have d: "distinct (dict_keys g)" by (simp add: gaps_ok_def)
  show ok: "gaps_ok ts gs" using w(1) drop_empty_keys [OF d] dict_get_filter [OF d] by (simp add: gaps_ok_def g(2))
  show "t \<in> dict_get gs n {} \<longleftrightarrow> unhealed show variables ts rows cols ms n t"
    using w(2) dict_get_filter [OF d] by (simp add: g(2))
  show "tms = dict_get gs n {} \<and> tms \<noteq> {}" if m: "(n, tms) \<in> set gs"
  proof -
    have "map_of gs n = Some tms" using m ok by (simp add: gaps_ok_def)
    moreover have "tms \<noteq> {}" using m by (auto simp: g(2) drop_empty_def)
    ultimately show ?thesis by (simp add: dict_get_def)
  qed
qed

section \<open>The guard\<close>

lemma guard_cases:
  assumes "gap_times show ms variables ts rows cols = Inr gs"
  shows "guard_composition show ms variables ts rows cols = Inr () \<longleftrightarrow> gs = []"
    "guard_composition show ms variables ts rows cols = Inl (Time_Coverage_Gap names missing) \<longleftrightarrow>
       gs \<noteq> [] \<and> missing = sorted_list_of_set (\<Union> (snd ` set gs)) \<and>
       names = (let known = filter (\<lambda>n. map_of gs n \<noteq> None) variables in if known \<noteq> [] then known else sort (map fst gs))"
  using assms by (auto simp: guard_composition_def Let_def)

lemma gaps_empty_iff:
  assumes "gap_times show ms variables ts rows cols = Inr gs"
  shows "gs = [] \<longleftrightarrow> (\<forall>n t. \<not> unhealed show variables ts rows cols ms n t)"
proof
  assume "gs = []"
  then show "\<forall>n t. \<not> unhealed show variables ts rows cols ms n t"
    using gap_times_spec(2) [OF assms] by (simp add: dict_get_def)
next
  assume none: "\<forall>n t. \<not> unhealed show variables ts rows cols ms n t"
  show "gs = []"
  proof (rule ccontr)
    assume "gs \<noteq> []"
    then obtain n tms where "(n, tms) \<in> set gs" by (cases gs) auto
    then show False using none gap_times_spec(2,3) [OF assms] by blast
  qed
qed

lemma gap_union:
  assumes "gap_times show ms variables ts rows cols = Inr gs"
  shows "\<Union> (snd ` set gs) = {t. \<exists>n. unhealed show variables ts rows cols ms n t}" (is "?l = ?r")
proof
  show "?l \<subseteq> ?r" using gap_times_spec(2,3) [OF assms] by fastforce
  show "?r \<subseteq> ?l"
  proof
    fix t assume "t \<in> ?r"
    then obtain n where "t \<in> dict_get gs n {}" using gap_times_spec(2) [OF assms] by blast
    then obtain tms where "map_of gs n = Some tms" "t \<in> tms" by (auto simp: dict_get_def split: option.splits)
    then show "t \<in> ?l" using map_of_SomeD [of gs n tms] by force
  qed
qed

lemma unhealed_range: "unhealed show variables ts rows cols ms n t \<Longrightarrow> t \<in> {0..<ts}"
  using record_missing_range by (fastforce simp: unhealed_def cut_at_def)

lemma gap_name:
  assumes "gap_times show ms variables ts rows cols = Inr gs" "map_of gs n \<noteq> None"
  shows "\<exists>t. unhealed show variables ts rows cols ms n t"
proof -
  obtain tms where "(n, tms) \<in> set gs" using assms(2) map_of_SomeD by fastforce
  then show ?thesis using gap_times_spec(2,3) [OF assms(1)] by blast
qed

text \<open>C29: the guard decides its specification. A history it can read is composed exactly when no
  publication was cut at a time that no later whole-scene publication of the same variable recomputed;
  and a refusal names only variables with such a time and lists exactly the times missing.\<close>

theorem guard_composition_decides:
  assumes "gap_times show ms variables ts rows cols = Inr gs"
  shows "(guard_composition show ms variables ts rows cols = Inr () \<longleftrightarrow>
      (\<forall>n t. \<not> unhealed show variables ts rows cols ms n t)) \<and>
    (\<forall>names missing. guard_composition show ms variables ts rows cols = Inl (Time_Coverage_Gap names missing) \<longrightarrow>
       sorted missing \<and> set missing = {t. \<exists>n. unhealed show variables ts rows cols ms n t} \<and>
       names \<noteq> [] \<and> (\<forall>n\<in>set names. \<exists>t. unhealed show variables ts rows cols ms n t))"
proof -
  have fin: "finite {t. \<exists>n. unhealed show variables ts rows cols ms n t}"
    by (rule finite_subset [of _ "{0..<ts}"]) (use unhealed_range in auto)
  have "\<exists>t. unhealed show variables ts rows cols ms n t" if "n \<in> set (sort (map fst gs))" for n
    using gap_name [OF assms] that by (auto simp: map_of_eq_None_iff)
  moreover have "\<exists>t. unhealed show variables ts rows cols ms n t"
    if "n \<in> set (filter (\<lambda>n. map_of gs n \<noteq> None) variables)" for n
    using gap_name [OF assms] that by auto
  moreover have "sort (map fst gs) = [] \<longleftrightarrow> gs = []" by (metis length_0_conv length_map length_sort)
  ultimately show ?thesis
    using fin gaps_empty_iff [OF assms] gap_union [OF assms]
    by (auto simp: guard_cases [OF assms] Let_def)
qed

section \<open>The report\<close>

lemma fold_entry_get:
  "map_of (fold (\<lambda>n d. AList.update n (f n) d) names d0) n = (if n \<in> set names then Some (f n) else map_of d0 n)"
  by (induction names arbitrary: d0) (auto simp: update_conv')

text \<open>The extent the report reads off the history.\<close>

definition report_extent :: "result_record list \<Rightarrow> int \<times> int \<Rightarrow> bool" where
  "report_extent records extent \<longleftrightarrow> (\<exists>entries. fold_exc report_step ((0, 0), []) records = Inr (extent, entries))"

text \<open>The report never claims coverage the composition would refuse. When the publications of the
  history reach the last row and column of the site, the report is complete exactly when the guard
  lets the history through, it lists for every variable exactly the missing and the served times, and
  the first frame of a stream promises a requested time exactly when no variable misses it.\<close>

lemma coverage_report_matches_guard:
  assumes rep: "coverage_report show now st ws variables ts = Inr rep"
    and ext: "report_extent (result_history st ws) (rows, cols)"
  defines "ms \<equiv> map rs_manifest (result_history st ws)"
  shows "(cr_complete rep \<longleftrightarrow> guard_composition show ms variables ts rows cols = Inr ()) \<and>
    (\<forall>n\<in>set variables. \<exists>vc. map_of (cr_variables rep) n = Some vc \<and>
       set (vc_missing_times vc) = {t. unhealed show variables ts rows cols ms n t} \<and>
       set (vc_covered_times vc) = {t. 0 \<le> t \<and> t < ts \<and> \<not> unhealed show variables ts rows cols ms n t}) \<and>
    set (sf_covered (initial_frame rep requested)) =
      {t \<in> set requested. \<forall>n\<in>set variables. \<not> unhealed show variables ts rows cols ms n t}"
proof -
  obtain entries where x: "fold_exc report_step ((0, 0), []) (result_history st ws) = Inr ((rows, cols), entries)"
    using ext by (auto simp: report_extent_def)
  obtain gs where g: "gap_times show ms variables ts rows cols = Inr gs" "cr_complete rep \<longleftrightarrow> gs = []"
    "cr_variables rep = fold (\<lambda>n d. AList.update n (variable_entry ts gs n) d) variables []"
    using rep by (auto simp: coverage_report_def Let_def x ms_def bind_exc_Inr)
  have miss: "dict_get gs n {} = {t. unhealed show variables ts rows cols ms n t}" for n
    using gap_times_spec(2) [OF g(1)] by blast
  have fin: "finite {t. unhealed show variables ts rows cols ms n t}" for n
    by (rule finite_subset [of _ "{0..<ts}"]) (use unhealed_range in auto)
  have vc: "map_of (cr_variables rep) n = (if n \<in> set variables then Some (variable_entry ts gs n) else None)" for n
    by (simp add: g(3) fold_entry_get)
  have keys: "distinct (dict_keys (cr_variables rep))"
  proof -
    have "distinct (dict_keys d) \<Longrightarrow> distinct (dict_keys (fold (\<lambda>n d. AList.update n (variable_entry ts gs n) d) ns d))" for ns d
      by (induction ns arbitrary: d) auto
    then show ?thesis by (simp add: g(3))
  qed
  have entry: "set (vc_missing_times (variable_entry ts gs n)) = {t. unhealed show variables ts rows cols ms n t}"
    "set (vc_covered_times (variable_entry ts gs n)) = {t. 0 \<le> t \<and> t < ts \<and> \<not> unhealed show variables ts rows cols ms n t}" for n
    using fin by (auto simp: variable_entry_def Let_def miss)
  have "(\<Union>p\<in>set (cr_variables rep). set (vc_missing_times (snd p))) =
      {t. \<exists>n\<in>set variables. unhealed show variables ts rows cols ms n t}"
  proof -
    have "(n, v) \<in> set (cr_variables rep) \<longleftrightarrow> n \<in> set variables \<and> v = variable_entry ts gs n" for n v
      using vc [of n] keys by (metis map_of_eq_Some_iff option.distinct(1) option.inject)
    then show ?thesis using entry(1) by fastforce
  qed
  then have "set (sf_covered (initial_frame rep requested)) =
      {t \<in> set requested. \<forall>n\<in>set variables. \<not> unhealed show variables ts rows cols ms n t}"
    by (auto simp: initial_frame_def Let_def)
  moreover have "cr_complete rep \<longleftrightarrow> guard_composition show ms variables ts rows cols = Inr ()"
    using g guard_cases(1) [OF g(1)] by simp
  ultimately show ?thesis using vc entry by auto
qed

section \<open>Instances\<close>

text \<open>A publication of a ten by ten window at some of three times, with or without the disclosure.\<close>

definition sample_manifest :: "int list \<Rightarrow> bool \<Rightarrow> json dict" where
  "sample_manifest tms partial =
     [(''window'', JObj [(''row_start'', JInt 0), (''row_stop'', JInt 10), (''col_start'', JInt 0), (''col_stop'', JInt 10)]),
      (''time_indices'', JArr (map JInt tms)), (''variables'', JArr [JObj [(''name'', JStr ''utci'')]])] @
     (if partial then [(''time_coverage'', JObj (disclosure_block tms 3))] else [])"

definition sample_publication :: "int \<Rightarrow> int list \<Rightarrow> bool \<Rightarrow> result_record" where
  "sample_publication version tms partial =
     \<lparr>rs_scenario_id = ''w'', rs_scene_version = version, rs_exact = True, rs_manifest = sample_manifest tms partial,
      rs_payload = [], rs_checksum = None, rs_created_at = Stamp version, rs_job_id = None\<rparr>"

definition cut_store :: store where
  "cut_store = empty_store\<lparr>tb_results := [sample_publication 1 [0] True]\<rparr>"

definition healed_store :: store where
  "healed_store = empty_store\<lparr>tb_results := [sample_publication 1 [0] True, sample_publication 2 [0, 1, 2] False]\<rparr>"

theorem guard_composition_decides_witness:
  "guard_composition (\<lambda>_. []) [sample_manifest [0] True] [''utci''] 3 10 10 =
     Inl (Time_Coverage_Gap [''utci''] [1, 2]) \<and>
   (\<exists>n t. unhealed (\<lambda>_. []) [''utci''] 3 10 10 [sample_manifest [0] True] n t)"
proof -
  have g: "gap_times (\<lambda>_. []) [sample_manifest [0] True] [''utci''] 3 10 10 = Inr [(''utci'', {1, 2})]" by code_simp
  have "guard_composition (\<lambda>_. []) [sample_manifest [0] True] [''utci''] 3 10 10 =
     Inl (Time_Coverage_Gap [''utci''] [1, 2])" by code_simp
  then show ?thesis using guard_composition_decides [OF g] by auto
qed

lemma coverage_report_matches_guard_witness:
  "\<exists>rep. coverage_report (\<lambda>_. []) 9 cut_store ''w'' [''utci''] 3 = Inr rep \<and> \<not> cr_complete rep \<and>
     guard_composition (\<lambda>_. []) (map rs_manifest (result_history cut_store ''w'')) [''utci''] 3 10 10 \<noteq> Inr ()"
proof -
  have "map_sum id cr_complete (coverage_report (\<lambda>_. []) 9 cut_store ''w'' [''utci''] 3) = Inr False" by code_simp
  then obtain rep where rep: "coverage_report (\<lambda>_. []) 9 cut_store ''w'' [''utci''] 3 = Inr rep" "\<not> cr_complete rep"
    by (auto dest!: map_sum_Inr)
  have "map_sum id fst (fold_exc report_step ((0, 0), []) (result_history cut_store ''w'')) = Inr (10, 10)" by code_simp
  then have "report_extent (result_history cut_store ''w'') (10, 10)"
    by (auto simp: report_extent_def dest!: map_sum_Inr)
  from coverage_report_matches_guard [OF rep(1) this] show ?thesis using rep by blast
qed

text \<open>On a larger site the report takes the extent of its publications for the site: it calls complete
  a history that the guard refuses.\<close>

lemma report_overclaims_on_larger_site:
  "map_sum id cr_complete (coverage_report (\<lambda>_. []) 9 healed_store ''w'' [''utci''] 3) = Inr True"
  "guard_composition (\<lambda>_. []) (map rs_manifest (result_history healed_store ''w'')) [''utci''] 3 20 20 =
     Inl (Time_Coverage_Gap [''utci''] [1, 2])"
  by code_simp+

end
