(* ===== verification/Routes_Realtime.thy ===== *)
theory Routes_Realtime
  imports Fast_Lane_Contract Broadcast_Contract Selected_Time_Contract
begin

text \<open>
  The realtime endpoints, \<open>server/routes_realtime.py\<close>, with the guards they share with the scenario
  routes and the mutation rate limiter of \<open>server/app.py\<close>. The application state holds the store, the
  limiters, the fast lane whose capacity admission reads, the hub and the selected-time demand.

  Each store call of a handler is one transaction; what other requests and threads do to the store
  between two of them is \<open>env k\<close> at the \<open>k\<close>-th gap. Site geometry is the parameter \<open>geometry\<close>.
  Requests have passed the request model; the wall clock is an argument.
\<close>

section \<open>Application state\<close>

record rate_limiter =
  rl_max_per_minute :: int
  rl_events :: "int list dict"

record app_state =
  ap_store :: store
  ap_limiter :: "rate_limiter option"
  ap_admission :: "admission option"
  ap_lane :: "fast_lane option"
  ap_hub :: broadcast_hub
  ap_demand :: demand

datatype route_error =
    Api_Error api_error
  | Admission_Rejected rejection
  | Store_Failed store_error
  | Python_Raised py_error

definition api :: "string \<Rightarrow> int \<Rightarrow> route_error" where
  "api code status = Api_Error \<lparr>ae_code = code, ae_status = status, ae_field = None\<rparr>"

section \<open>Shared guards\<close>

definition require_scenario_route :: "store \<Rightarrow> string \<Rightarrow> route_error + scenario_record" where
  "require_scenario_route st sid =
     (case require_scenario st sid of Inl _ \<Rightarrow> Inl (api ''scenario_not_found'' 404) | Inr r \<Rightarrow> Inr r)"

text \<open>\<open>{"site_id": site, **geometry}\<close>.\<close>

definition site_identity :: "(string \<Rightarrow> json dict) \<Rightarrow> scenario_record \<Rightarrow> json dict" where
  "site_identity geometry r =
     fold (\<lambda>p d. AList.update (fst p) (snd p) d) (geometry (sc_site_id r)) [(''site_id'', JStr (sc_site_id r))]"

definition verify_site_identity_route ::
  "clock \<Rightarrow> (string \<Rightarrow> json dict) \<Rightarrow> scenario_record \<Rightarrow> store \<Rightarrow> route_error + store" where
  "verify_site_identity_route clk geometry r st =
     (case verify_site_identity clk (sc_scenario_id r) (site_identity geometry r) st of
        Inr (st', _) \<Rightarrow> Inr st'
      | Inl (SiteIdentityMismatch pinned current) \<Rightarrow> Inl (api ''site_identity_mismatch'' 409)
      | Inl e \<Rightarrow> Inl (Store_Failed e))"

definition limiter_check :: "int \<Rightarrow> string \<Rightarrow> rate_limiter \<Rightarrow> rate_limiter \<times> (route_error + unit)" where
  "limiter_check now key rl =
     (let window = filter (\<lambda>t. now - t < 60000) (dict_get (rl_events rl) key []) in
      if rl_max_per_minute rl \<le> int (length window)
      then (rl\<lparr>rl_events := AList.update key window (rl_events rl)\<rparr>, Inl (api ''rate_limited'' 429))
      else (rl\<lparr>rl_events := AList.update key (window @ [now]) (rl_events rl)\<rparr>, Inr ()))"

definition check_rate_limit :: "int \<Rightarrow> string \<Rightarrow> app_state \<Rightarrow> app_state \<times> (route_error + unit)" where
  "check_rate_limit now sid app =
     (case ap_limiter app of
        None \<Rightarrow> (app, Inr ())
      | Some rl \<Rightarrow> map_prod (\<lambda>l. app\<lparr>ap_limiter := Some l\<rparr>) id (limiter_check now sid rl))"

definition validate_shapes :: "operation_item list \<Rightarrow> route_error + unit" where
  "validate_shapes items =
     map_sum Api_Error id
       (fold_exc (\<lambda>_ p. validate_operation_shape (snd p) (fst p)) () (List.enumerate 0 items))"

text \<open>The capacity admission reads: the fast lane's report, or none.\<close>

definition admission_check ::
  "(rat \<Rightarrow> string) \<Rightarrow> stamp \<Rightarrow> stamp \<Rightarrow> string \<Rightarrow> operation_item list \<Rightarrow> app_state \<Rightarrow> app_state \<times> (route_error + unit)" where
  "admission_check show_float now received ws items app =
     (case ap_admission app of
        None \<Rightarrow> (app, Inr ())
      | Some ad \<Rightarrow>
          let saturated = (case ap_lane app of Some l \<Rightarrow> lane_saturated (l, ap_store app) | None \<Rightarrow> null_saturated ());
              reserved = (case ap_lane app of Some l \<Rightarrow> lane_reserved_ms (l, ap_store app) ws | None \<Rightarrow> null_reserved_ms () ws)
          in case check show_float saturated reserved now received ws items ad of
               Inl e \<Rightarrow> (app, Inl (Python_Raised e))
             | Inr (ad', res) \<Rightarrow> (app\<lparr>ap_admission := Some ad'\<rparr>, map_sum Admission_Rejected id res))"

section \<open>Accepting operations\<close>

record ack =
  ak_operation_id :: string
  ak_server_sequence :: int
  ak_epoch_id :: int
  ak_duplicate :: bool
  ak_base_divergent :: bool

record operations_response =
  or_workspace_id :: string
  or_actor_id :: string
  or_received_at :: stamp
  or_accepted_at :: stamp
  or_accepted :: "ack list"
  or_workspace_revision :: int
  or_fast_revision :: int
  or_exact_revision :: int
  or_exact_base_revision :: int

definition ack_body :: "int \<Rightarrow> operation_item \<Rightarrow> operation_record \<Rightarrow> ack" where
  "ack_body revision item r =
     \<lparr>ak_operation_id = op_operation_id r, ak_server_sequence = op_server_sequence r,
      ak_epoch_id = op_epoch_id r, ak_duplicate = op_duplicate r,
      ak_base_divergent = (case it_base_revision item of None \<Rightarrow> False | Some b \<Rightarrow> b \<noteq> revision)\<rparr>"

definition with_submitter :: "string \<Rightarrow> stamp \<Rightarrow> operation_item \<Rightarrow> operation_item" where
  "with_submitter actor received item = item\<lparr>it_actor_id := actor, it_received_at := received\<rparr>"

definition make_response ::
  "string \<Rightarrow> string \<Rightarrow> stamp \<Rightarrow> stamp \<Rightarrow> operation_item list \<Rightarrow> operation_record list \<Rightarrow> scenario_record \<Rightarrow> operations_response" where
  "make_response ws actor received accepted_at items records r =
     \<lparr>or_workspace_id = ws, or_actor_id = actor, or_received_at = received, or_accepted_at = accepted_at,
      or_accepted = map2 (ack_body (sc_scene_version r)) items records,
      or_workspace_revision = sc_scene_version r, or_fast_revision = sc_fast_revision r,
      or_exact_revision = sc_exact_result_version r, or_exact_base_revision = sc_exact_base_revision r\<rparr>"

text \<open>The durable append and the response; the last store call re-reads the scenario.\<close>

definition append_and_ack ::
  "clock \<Rightarrow> (nat \<Rightarrow> store \<Rightarrow> store) \<Rightarrow> stamp \<Rightarrow> stamp \<Rightarrow> string \<Rightarrow> string \<Rightarrow> operation_item list
   \<Rightarrow> app_state \<Rightarrow> app_state \<times> (route_error + operations_response)" where
  "append_and_ack clk env received accepted_at ws actor items app =
     (case append_operations clk ws (map (with_submitter actor received) items) (ap_store app) of
        Inl (OperationFingerprintConflict oid) \<Rightarrow> (app, Inl (api ''operation_id_reused'' 409))
      | Inl e \<Rightarrow> (app, Inl (Store_Failed e))
      | Inr (st, records) \<Rightarrow>
          let app' = app\<lparr>ap_store := env 1 st\<rparr> in
          case require_scenario (ap_store app') ws of
            Inl e \<Rightarrow> (app', Inl (Store_Failed e))
          | Inr r \<Rightarrow>
              if length records \<noteq> length items then (app', Inl (Python_Raised (ValueError ''zip'')))
              else (app', Inr (make_response ws actor received accepted_at items records r)))"

definition post_operations ::
  "clock \<Rightarrow> (rat \<Rightarrow> string) \<Rightarrow> (string \<Rightarrow> json dict) \<Rightarrow> (nat \<Rightarrow> store \<Rightarrow> store) \<Rightarrow> int \<Rightarrow> int \<Rightarrow> stamp
   \<Rightarrow> string \<Rightarrow> string \<Rightarrow> operation_item list \<Rightarrow> app_state \<Rightarrow> app_state \<times> (route_error + operations_response)" where
  "post_operations clk show_float geometry env now_ms now received ws actor items app =
     (case require_scenario_route (ap_store app) ws of
        Inl e \<Rightarrow> (app, Inl e)
      | Inr r \<Rightarrow>
          (case verify_site_identity_route clk geometry r (ap_store app) of
             Inl e \<Rightarrow> (app, Inl e)
           | Inr st \<Rightarrow>
               let app1 = app\<lparr>ap_store := env 0 st\<rparr> in
               case validate_shapes items of
                 Inl e \<Rightarrow> (app1, Inl e)
               | Inr _ \<Rightarrow>
                   (case check_rate_limit now_ms ws app1 of
                      (app2, Inl e) \<Rightarrow> (app2, Inl e)
                    | (app2, Inr _) \<Rightarrow>
                        (case admission_check show_float (Stamp now) received ws items app2 of
                           (app3, Inl e) \<Rightarrow> (app3, Inl e)
                         | (app3, Inr _) \<Rightarrow> append_and_ack clk env received (Stamp now) ws actor items app3))))"

section \<open>Reads\<close>

definition get_operation_route :: "store \<Rightarrow> string \<Rightarrow> string \<Rightarrow> route_error + operation" where
  "get_operation_route st ws oid =
     bind_exc (require_scenario_route st ws) (\<lambda>_.
       case get_operation st ws oid of
         None \<Rightarrow> Inl (api ''operation_not_found'' 404)
       | Some r \<Rightarrow> Inr (operation_body r))"

record catch_up =
  cu_workspace_id :: string
  cu_since :: int
  cu_operation_count :: nat
  cu_oldest_server_sequence :: "int option"
  cu_operations :: "operation list"
  cu_workspace_revision :: int
  cu_fast_revision :: int
  cu_exact_revision :: int

definition get_operations_route :: "(store \<Rightarrow> store) \<Rightarrow> store \<Rightarrow> string \<Rightarrow> int \<Rightarrow> route_error + catch_up" where
  "get_operations_route env st ws since =
     bind_exc (require_scenario_route st ws) (\<lambda>_.
       let ops = operations_since st ws since in
       case require_scenario (env st) ws of
         Inl e \<Rightarrow> Inl (Store_Failed e)
       | Inr r \<Rightarrow>
           Inr \<lparr>cu_workspace_id = ws, cu_since = since, cu_operation_count = length ops,
                cu_oldest_server_sequence = (case ops of [] \<Rightarrow> None | x # _ \<Rightarrow> Some (op_server_sequence x)),
                cu_operations = map operation_body ops, cu_workspace_revision = sc_scene_version r,
                cu_fast_revision = sc_fast_revision r, cu_exact_revision = sc_exact_result_version r\<rparr>)"

definition get_epochs_route :: "store \<Rightarrow> string \<Rightarrow> route_error + epoch_view list" where
  "get_epochs_route st ws =
     map_sum id (\<lambda>_. map epoch_body (epoch_records st ws)) (require_scenario_route st ws)"

fun split_on :: "char \<Rightarrow> string \<Rightarrow> string list" where
  "split_on sep [] = [[]]"
| "split_on sep (c # cs) =
     (if c = sep then [] # split_on sep cs
      else case split_on sep cs of [] \<Rightarrow> [[c]] | x # xs \<Rightarrow> (c # x) # xs)"

definition get_time_coverage_route ::
  "string dict \<Rightarrow> (json \<Rightarrow> string) \<Rightarrow> (string \<Rightarrow> json dict) \<Rightarrow> int \<Rightarrow> store \<Rightarrow> string \<Rightarrow> string option
   \<Rightarrow> route_error + coverage" where
  "get_time_coverage_route environ show geometry now st ws variables =
     (if \<not> enabled environ then Inl (api ''selected_time_streaming_disabled'' 404)
      else bind_exc (require_scenario_route st ws) (\<lambda>r.
        let names = (case variables of
              None \<Rightarrow> [''utci'', ''tmrt'']
            | Some v \<Rightarrow> if v = [] then [''utci'', ''tmrt'']
                        else filter (\<lambda>n. n \<noteq> []) (map strip_str (split_on CHR '','' v)))
        in case map_of (geometry (sc_site_id r)) ''time_steps'' of
             None \<Rightarrow> Inl (Python_Raised (KeyError ''time_steps''))
           | Some ts \<Rightarrow>
               map_sum Python_Raised id
                 (bind_exc (py_int ts) (\<lambda>steps. coverage_report show now st ws names steps))))"

section \<open>The event stream\<close>

definition requested_time :: "int \<Rightarrow> int list \<Rightarrow> string \<Rightarrow> route_error + int list" where
  "requested_time time_steps cleaned part =
     (let p = strip_str part in
      if p = [] then Inr cleaned
      else case parse_int p of
             None \<Rightarrow> Inl (api ''invalid_request'' 400)
           | Some i \<Rightarrow>
               if \<not> (0 \<le> i \<and> i < time_steps) then Inl (api ''invalid_request'' 400)
               else Inr (if i \<in> set cleaned then cleaned else cleaned @ [i]))"

definition requested_times :: "string dict \<Rightarrow> int \<Rightarrow> string option \<Rightarrow> route_error + int list" where
  "requested_times environ time_steps time_indices =
     (case time_indices of
        None \<Rightarrow> Inr []
      | Some s \<Rightarrow>
          if \<not> enabled environ then Inl (api ''selected_time_streaming_disabled'' 400)
          else bind_exc (fold_exc (requested_time time_steps) [] (split_on CHR '','' s)) (\<lambda>cleaned.
                 if cleaned = [] then Inl (api ''invalid_request'' 400) else Inr cleaned))"

text \<open>\<open>str.isalnum\<close> on the characters of a \<^typ>\<open>char\<close>, the Latin-1 range.\<close>

definition is_alnum :: "char \<Rightarrow> bool" where
  "is_alnum c \<longleftrightarrow>
     (let n = of_char c :: nat in
      48 \<le> n \<and> n \<le> 57 \<or> 65 \<le> n \<and> n \<le> 90 \<or> 97 \<le> n \<and> n \<le> 122 \<or>
      n \<in> {170, 178, 179, 181, 185, 186, 188, 189, 190} \<or> 192 \<le> n \<and> n \<noteq> 215 \<and> n \<noteq> 247)"

definition cleaned_actor :: "string option \<Rightarrow> string option" where
  "cleaned_actor actor =
     (case actor of
        None \<Rightarrow> None
      | Some a \<Rightarrow>
          let candidate = take 128 (strip_str a)
          in if candidate \<noteq> [] \<and> list_all (\<lambda>c. is_alnum c \<or> c \<in> {CHR ''_'', CHR ''-'', CHR '':''}) candidate
             then Some candidate else None)"

definition snapshot_body :: "string \<Rightarrow> scenario_record \<Rightarrow> json dict" where
  "snapshot_body ws r =
     [(''workspace_id'', JStr ws), (''workspace_revision'', JInt (sc_scene_version r)), (''operations'', JArr []),
      (''fast_revision'', JInt (sc_fast_revision r)), (''exact_revision'', JInt (sc_exact_result_version r)),
      (''exact_base_revision'', JInt (sc_exact_base_revision r)), (''snapshot'', JBool True)]"

definition frame_body :: "selected_frame \<Rightarrow> json dict" where
  "frame_body f =
     [(''workspace_id'', JStr (sf_workspace_id f)), (''requested'', JArr (map JInt (sf_requested f))),
      (''covered'', JArr (map JInt (sf_covered f))), (''missing'', JArr (map JInt (sf_missing f))),
      (''complete'', JBool (sf_complete f)), (''exact_revision'', JInt (sf_exact_revision f)),
      (''workspace_revision'', JInt (sf_workspace_revision f)),
      (''latest_result_age_s'', (case sf_latest_result_age f of None \<Rightarrow> JNull | Some ms \<Rightarrow> JFloat (of_int ms / 1000))),
      (''snapshot'', JBool True)]"

text \<open>Opening a stream: the snapshot read, the subscription, the second read with its corrective
  frame, and the coverage frame of a selected-time stream.\<close>

definition push_correction ::
  "(rat \<Rightarrow> string) \<Rightarrow> string \<Rightarrow> scenario_record \<Rightarrow> scenario_record \<Rightarrow> nat \<Rightarrow> broadcast_hub \<Rightarrow> broadcast_hub" where
  "push_correction show_float ws old current i hub =
     (if sc_scene_version old < sc_scene_version current
      then on_object i (push_snapshot show_float (hb_queue_size hub) Same_Loop (snapshot_body ws current)) hub
      else hub)"

definition open_stream ::
  "(rat \<Rightarrow> string) \<Rightarrow> (json \<Rightarrow> string) \<Rightarrow> (store \<Rightarrow> store) \<Rightarrow> int \<Rightarrow> string \<Rightarrow> string option \<Rightarrow> int \<Rightarrow> int list
   \<Rightarrow> app_state \<Rightarrow> app_state \<times> (route_error + nat)" where
  "open_stream show_float show env now ws actor time_steps tms app =
     (case require_scenario (ap_store app) ws of
        Inl e \<Rightarrow> (app, Inl (Store_Failed e))
      | Inr old \<Rightarrow>
          let (hub1, i) = subscribe show_float ws (Some (snapshot_body ws old)) (cleaned_actor actor) (ap_hub app);
              app1 = app\<lparr>ap_hub := hub1, ap_store := env (ap_store app)\<rparr>
          in case require_scenario (ap_store app1) ws of
               Inl e \<Rightarrow> (app1, Inl (Store_Failed e))
             | Inr current \<Rightarrow>
                 let app2 = app1\<lparr>ap_hub := push_correction show_float ws old current i (ap_hub app1)\<rparr>
                 in if tms = [] then (app2, Inr i)
                    else case coverage_report show now (ap_store app2) ws [''utci'', ''tmrt''] time_steps of
                           Inl e \<Rightarrow> (app2, Inl (Python_Raised e))
                         | Inr report \<Rightarrow>
                             (app2\<lparr>ap_hub := on_object i (push_selected_time show_float (hb_queue_size (ap_hub app2)) Same_Loop
                                       (frame_body (initial_frame report tms))) (ap_hub app2),
                                   ap_demand := register ws (ap_demand app2)\<rparr>, Inr i))"

text \<open>The end of a stream: the iterator's \<open>finally\<close> and the route's \<open>finally\<close> each close the
  subscription, and the route releases the demand.\<close>

definition end_stream :: "string \<Rightarrow> int list \<Rightarrow> nat \<Rightarrow> app_state \<Rightarrow> app_state" where
  "end_stream ws tms i app =
     app\<lparr>ap_hub := unsubscribe Same_Loop i (unsubscribe Same_Loop i (ap_hub app)),
         ap_demand := (if tms = [] then ap_demand app else release_demand ws (ap_demand app))\<rparr>"

definition get_events_route ::
  "string dict \<Rightarrow> (rat \<Rightarrow> string) \<Rightarrow> (json \<Rightarrow> string) \<Rightarrow> (string \<Rightarrow> json dict) \<Rightarrow> (store \<Rightarrow> store) \<Rightarrow> int
   \<Rightarrow> string \<Rightarrow> string option \<Rightarrow> string option \<Rightarrow> app_state \<Rightarrow> app_state \<times> (route_error + nat)" where
  "get_events_route environ show_float show geometry env now ws time_indices actor app =
     (case require_scenario_route (ap_store app) ws of
        Inl e \<Rightarrow> (app, Inl e)
      | Inr r \<Rightarrow>
          let steps = (case map_of (geometry (sc_site_id r)) ''time_steps'' of
                         None \<Rightarrow> Inl (KeyError ''time_steps'') | Some v \<Rightarrow> py_int v);
              tms = (if time_indices \<noteq> None \<and> enabled environ
                     then bind_exc (map_sum Python_Raised id steps) (\<lambda>n. requested_times environ n time_indices)
                     else requested_times environ 0 time_indices)
          in case tms of
               Inl e \<Rightarrow> (app, Inl e)
             | Inr ts \<Rightarrow> open_stream show_float show env now ws actor (case steps of Inr n \<Rightarrow> n | Inl _ \<Rightarrow> 0) ts app)"

end
