(* ===== verification/Routes_Contract.thy ===== *)
theory Routes_Contract
  imports Routes_Realtime
begin

text \<open>
  The operation endpoint end to end: the log is append-only along every run of the store, a refused
  request leaves it alone, and an acknowledged operation is durable under the sequence number and
  epoch of its acknowledgement for ever.
\<close>

section \<open>The log is append-only\<close>

definition log_extends :: "store \<Rightarrow> store \<Rightarrow> bool" where
  "log_extends st st' \<longleftrightarrow> (\<exists>ops. tb_operations st' = tb_operations st @ ops)"

lemma log_same: "tb_operations st' = tb_operations st \<Longrightarrow> log_extends st st'"
  by (simp add: log_extends_def)

lemma log_extends_trans: "log_extends a b \<Longrightarrow> log_extends b c \<Longrightarrow> log_extends a c"
  by (auto simp: log_extends_def)

lemma planes_log: "keeps_planes st st' \<Longrightarrow> log_extends st st'"
  by (rule log_same) (simp add: keeps_planes_def)

lemma append_extends:
  assumes "ledger_ok st" "append_operations clk ws items st = Inr (st', records)"
  shows "log_extends st st'" "list_all2 (settled ws st') items records"
proof -
  obtain sequence epoch where f: "fold_exc (append_item (clk 0) ws) (st, max_sequence st ws, None, []) items =
       Inr (st', sequence, epoch, records)" using append_operationsE [OF assms(2)] by blast
  have s: "append_rel ws st st'" "list_all2 (settled ws st') items records"
    using append_fold_settles [OF f batch_start [OF assms(1)]] by auto
  then show "log_extends st st'" by (auto simp: append_rel_def log_extends_def)
  show "list_all2 (settled ws st') items records" by (rule s(2))
qed

lemma commit_log:
  assumes "versions_ok st" "commit_epoch_reduction clk ws eid fams baseline st = Inr (st', res)"
  shows "tb_operations st' = tb_operations st"
  using assms(1)
proof (cases rule: commit_cases [of st ws eid clk fams baseline])
  case (first e r)
  then show ?thesis using assms(2) by (simp add: committed_store_frame(1))
qed (use assms(2) in simp_all)

lemma pin_log: "tb_operations (pin_bootstrap clk ws fams st) = tb_operations st"
  by (simp add: pin_bootstrap_def insert_canonical_or_ignore_def insert_canonical_def split: option.splits sum.splits)

lemma advance_log: "advance_fast_revision clk ws revision observed upd st = (st', adv) \<Longrightarrow> tb_operations st' = tb_operations st"
  by (cases rule: advance_cases [of clk ws revision observed upd st]) auto

lemma store_step_log:
  assumes "store_step st st'" "ledger_ok st" "versions_ok st"
  shows "log_extends st st'"
  using assms
proof cases
  case (step_create clk jid publisher respond req out)
  then show ?thesis
    using create_scenario_ok [OF assms(3), of clk jid publisher respond req st' "fst out" "snd out"] by (intro log_same) simp
next
  case (step_edits clk jid eids respond sid ereq edits out)
  then show ?thesis
    using commit_edits_ok [OF assms(3), of clk jid eids respond sid ereq edits st' "fst out" "snd out"] by (intro log_same) simp
next
  case (step_universal clk jid eids respond sid ereq fedits out)
  then show ?thesis
    using commit_universal_edits_ok [OF assms(3), of clk jid eids respond sid ereq fedits st' "fst out" "snd out"]
    by (intro log_same) simp
next
  case step_reset
  then show ?thesis using reset_scenario_ok [OF assms(3)] log_same by blast
next
  case step_identity
  then show ?thesis using verify_site_identity_ok [OF assms(3)] log_same by blast
next
  case step_publish
  then show ?thesis using publish_result_ok [OF assms(3)] log_same by blast
next
  case (step_republish str clk sid source target ojid override)
  show ?thesis
    by (rule republish_result_publishes [OF step_republish]) (use publish_result_ok [OF assms(3)] log_same in blast)
next
  case step_append
  then show ?thesis using append_extends [OF assms(2)] by blast
next
  case step_mark
  then show ?thesis by (intro log_same) (auto simp: mark_epoch_status_def split: if_splits)
next
  case step_commit
  then show ?thesis using commit_log [OF assms(3)] log_same by blast
next
  case step_pin
  then show ?thesis using pin_log log_same by blast
next
  case step_fast
  then show ?thesis using advance_log log_same by blast
next
  case step_finish
  then show ?thesis using job_steps_keep(5) planes_log by blast
next
  case step_export
  then show ?thesis using job_steps_keep(9) planes_log by blast
next
  case step_exact_job
  then show ?thesis using exact_job_keeps planes_log by blast
qed (use job_steps_keep(1-4,6-8,10) planes_log in \<open>simp_all only: simp_thms\<close>)

lemma store_run_log: "store_run st st' \<Longrightarrow> ledger_ok st \<Longrightarrow> versions_ok st \<Longrightarrow> log_extends st st'"
proof (induction rule: store_run.induct)
  case (run_step st st' st'')
  then show ?case
    using store_step_log [OF run_step.hyps(2)] store_run_ok [OF run_step.hyps(1)] log_extends_trans by blast
qed (simp add: log_extends_def)

section \<open>Accepting operations\<close>

text \<open>The row an acknowledgement speaks of.\<close>

definition acked_in :: "store \<Rightarrow> string \<Rightarrow> ack \<Rightarrow> bool" where
  "acked_in st ws a \<longleftrightarrow>
     (\<exists>r. find_operation st (ak_operation_id a) = Some r \<and> op_workspace_id r = ws \<and>
        op_server_sequence r = ak_server_sequence a \<and> op_epoch_id r = ak_epoch_id a)"

lemma acked_in_later: "acked_in st ws a \<Longrightarrow> log_extends st st' \<Longrightarrow> acked_in st' ws a"
  by (auto simp: acked_in_def log_extends_def find_operation_def find_append)

lemma ack_of_settled:
  assumes "settled ws st (with_submitter actor received item) rec"
  shows "acked_in st ws (ack_body revision item rec) \<and> ak_operation_id (ack_body revision item rec) = it_operation_id item"
proof -
  obtain r d where r: "find_operation st (it_operation_id item) = Some r" "op_workspace_id r = ws" "rec = as_record d r"
    using assms by (auto simp: settled_def with_submitter_def same_content_def)
  moreover have "op_operation_id r = it_operation_id item"
    using find_Some_in r(1) by (fastforce simp: find_operation_def)
  ultimately show ?thesis
    by (simp add: acked_in_def ack_body_def as_record_def operation.extend_def)
qed

lemma acks_of_settled:
  assumes "list_all2 (settled ws st) (map (with_submitter actor received) items) records"
  shows "map ak_operation_id (map2 (ack_body revision) items records) = map it_operation_id items"
    "a \<in> set (map2 (ack_body revision) items records) \<Longrightarrow> acked_in st ws a"
  using assms
proof (induction items arbitrary: records)
  case (Cons item items)
  {
    case 1
    then obtain rec recs where "records = rec # recs" by (auto simp: list_all2_Cons1)
    then show ?case using 1 Cons.IH(1) [of recs] ack_of_settled [of ws st actor received item rec revision] by simp
  next
    case 2
    then obtain rec recs where "records = rec # recs" by (auto simp: list_all2_Cons1)
    then show ?case using 2 Cons.IH(2) [of recs] ack_of_settled [of ws st actor received item rec revision] by auto
  }
qed auto

lemma acked_for_ever:
  assumes "list_all2 (settled ws st) (map (with_submitter actor received) items) records"
    "store_run st later" "ledger_ok st" "versions_ok st" "a \<in> set (map2 (ack_body revision) items records)"
  shows "acked_in later ws a"
  by (rule acked_in_later [OF acks_of_settled(2) [OF assms(1,5)] store_run_log [OF assms(2-4)]])

text \<open>The last part of the handler: either the append failed and nothing changed, or the response
  acknowledges what the transaction settled.\<close>

lemma append_and_ack_cases:
  assumes out: "append_and_ack clk env received accepted_at ws actor items app = (app', out)"
    and ok: "ledger_ok (ap_store app)" "versions_ok (ap_store app)" and env: "\<forall>s. store_run s (env 1 s)"
  obtains (refused) e where "app' = app" "out = Inl e"
    | (acked) st records r where "append_operations clk ws (map (with_submitter actor received) items) (ap_store app) = Inr (st, records)"
        "ap_store app' = env 1 st" "out = Inr (make_response ws actor received accepted_at items records r)"
proof (cases "append_operations clk ws (map (with_submitter actor received) items) (ap_store app)")
  case (Inl e)
  then show thesis using out refused by (cases e) (auto simp: append_and_ack_def)
next
  case (Inr res)
  then obtain st records where a: "append_operations clk ws (map (with_submitter actor received) items) (ap_store app) = Inr (st, records)"
    by (cases res) auto
  have len: "length records = length items"
    using list_all2_lengthD [OF append_extends(2) [OF ok(1) a]] by simp
  have run: "store_run (ap_store app) (env 1 st)"
    using store_run_trans [OF run_step [OF run_refl step_append [OF a]]] env by blast
  have "get_scenario (ap_store app) ws \<noteq> None" using append_operationsE [OF a] by blast
  then obtain r where "get_scenario (env 1 st) ws = Some r"
    using store_run_ok [OF run ok] by (auto simp: scenes_le_def scene_of_def)
  then have "append_and_ack clk env received accepted_at ws actor items app =
      (app\<lparr>ap_store := env 1 st\<rparr>, Inr (make_response ws actor received accepted_at items records r))"
    using a len by (simp add: append_and_ack_def require_scenario_def Let_def)
  then show thesis using out by (intro acked [OF a, of r]) auto
qed

lemma check_rate_limit_store: "check_rate_limit now ws app = (app', res) \<Longrightarrow> ap_store app' = ap_store app"
  by (cases "ap_limiter app") (auto simp: check_rate_limit_def map_prod_def split: prod.splits)

lemma admission_check_store: "admission_check show_float now received ws items app = (app', res) \<Longrightarrow> ap_store app' = ap_store app"
  by (auto simp: admission_check_def Let_def split: option.splits sum.splits prod.splits)

text \<open>The whole handler: refused at a guard, on the store as it was or as the identity check and the
  other requests left it; or the append on such a store.\<close>

lemma post_operations_cases:
  assumes "post_operations clk show_float geometry env now_ms now received ws actor items app = (app', out)"
  obtains (early) e where "app' = app" "out = Inl e"
    | (guarded) e r st where "verify_site_identity_route clk geometry r (ap_store app) = Inr st"
        "ap_store app' = env 0 st" "out = Inl e"
    | (append) r st app3 where "verify_site_identity_route clk geometry r (ap_store app) = Inr st"
        "ap_store app3 = env 0 st"
        "append_and_ack clk env received (Stamp now) ws actor items app3 = (app', out)"
proof (cases "\<exists>r st. require_scenario_route (ap_store app) ws = Inr r \<and>
    verify_site_identity_route clk geometry r (ap_store app) = Inr st")
  case True
  then obtain r st where r: "require_scenario_route (ap_store app) ws = Inr r"
    "verify_site_identity_route clk geometry r (ap_store app) = Inr st" by blast
  define app1 where "app1 = app\<lparr>ap_store := env 0 st\<rparr>"
  obtain app2 lim where l: "check_rate_limit now_ms ws app1 = (app2, lim)" by fastforce
  obtain app3 adm where ad: "admission_check show_float (Stamp now) received ws items app2 = (app3, adm)" by fastforce
  have st: "ap_store app1 = env 0 st" "ap_store app2 = env 0 st" "ap_store app3 = env 0 st"
    using check_rate_limit_store [OF l] admission_check_store [OF ad] by (simp_all add: app1_def)
  have eq: "(app', out) = (case validate_shapes items of
      Inl e \<Rightarrow> (app1, Inl e)
    | Inr _ \<Rightarrow> (case lim of Inl e \<Rightarrow> (app2, Inl e) | Inr _ \<Rightarrow>
        (case adm of Inl e \<Rightarrow> (app3, Inl e) | Inr _ \<Rightarrow> append_and_ack clk env received (Stamp now) ws actor items app3)))"
    using assms r l ad unfolding post_operations_def Let_def app1_def [symmetric]
    by (auto simp flip: app1_def split: sum.splits)
  show thesis
  proof (cases "isl (validate_shapes items) \<or> isl lim \<or> isl adm")
    case True
    have "\<exists>e. out = Inl e \<and> ap_store app' = env 0 st"
      using eq True st by (cases "validate_shapes items"; cases lim; cases adm) auto
    then show thesis using guarded [OF r(2)] by blast
  next
    case False
    then show thesis
      using eq by (intro append [OF r(2) st(3)]) (cases "validate_shapes items"; cases lim; cases adm; simp)
  qed
next
  case False
  then show thesis using assms early by (auto simp: post_operations_def split: sum.splits)
qed

lemma verify_route_run:
  "verify_site_identity_route clk geometry r st = Inr st' \<Longrightarrow> store_run st st'"
  by (auto simp: verify_site_identity_route_def split: sum.splits store_error.splits
      intro!: run_step [OF run_refl step_identity])

lemma verify_route_log:
  "versions_ok st \<Longrightarrow> verify_site_identity_route clk geometry r st = Inr st' \<Longrightarrow> tb_operations st' = tb_operations st"
  using verify_site_identity_ok
  by (fastforce simp: verify_site_identity_route_def split: sum.splits store_error.splits)

text \<open>C1: accepting operations is all or nothing and for ever. Whatever other requests do to the
  store between the handler's transactions, a response acknowledges every submitted operation in
  order, each with the workspace, server sequence and epoch of its durable row, and along every
  later run of the store that row stays what was acknowledged. A refused request, when no other
  request interferes, leaves the operation log as it was.\<close>

theorem post_operations_durable:
  assumes reach: "reachable (ap_store app)" and env: "\<forall>k s. store_run s (env k s)"
    and p: "post_operations clk show_float geometry env now_ms now received ws actor items app = (app', out)"
  shows "reachable (ap_store app') \<and>
    (\<forall>resp. out = Inr resp \<longrightarrow>
       map ak_operation_id (or_accepted resp) = map it_operation_id items \<and>
       (\<forall>later. store_run (ap_store app') later \<longrightarrow> (\<forall>a\<in>set (or_accepted resp). acked_in later ws a))) \<and>
    (\<forall>e. out = Inl e \<longrightarrow> (\<forall>k s. tb_operations (env k s) = tb_operations s) \<longrightarrow>
       tb_operations (ap_store app') = tb_operations (ap_store app))"
  using p
proof (cases rule: post_operations_cases)
  case (early e)
  then show ?thesis using reach by simp
next
  case (guarded e r st)
  have run: "store_run (ap_store app) (ap_store app')"
    using store_run_trans [OF verify_route_run [OF guarded(1)]] env guarded(2) by metis
  have "tb_operations st = tb_operations (ap_store app)" using verify_route_log [OF _ guarded(1)] reachable_ok [OF reach] by blast
  then show ?thesis using reach run store_run_trans guarded by (auto simp: reachable_def)
next
  case (append r st app3)
  have run: "store_run (ap_store app) (ap_store app3)"
    using store_run_trans [OF verify_route_run [OF append(1)]] env append(2) by metis
  have reach3: "reachable (ap_store app3)" using reach run store_run_trans by (auto simp: reachable_def)
  note ok3 = reachable_ok [OF reach3]
  have same: "tb_operations st = tb_operations (ap_store app)"
    using verify_route_log [OF _ append(1)] reachable_ok [OF reach] by blast
  have env1: "\<forall>s. store_run s (env 1 s)" using env by blast
  show ?thesis
    using append(3) ok3 [THEN conjunct1] ok3 [THEN conjunct2] env1
  proof (cases rule: append_and_ack_cases)
    case (refused e)
    then show ?thesis using reach3 same append(2) by auto
  next
    case (acked s records row)
    have runs: "store_run (ap_store app3) s" using run_step [OF run_refl step_append [OF acked(1)]] .
    have run': "store_run s (ap_store app')" using env1 acked(2) by simp
    have reach': "reachable (ap_store app')"
      using reach3 store_run_trans [OF runs run'] store_run_trans by (auto simp: reachable_def)
    note settled = append_extends(2) [OF ok3 [THEN conjunct1] acked(1)]
    have "ledger_ok s \<and> versions_ok s" using store_run_ok [OF runs] ok3 by blast
    then have "acked_in later ws a" if "store_run (ap_store app') later"
      "a \<in> set (map2 (ack_body (sc_scene_version row)) items records)" for later a
      using acked_for_ever [OF settled store_run_trans [OF run' that(1)] _ _ that(2)] by blast
    then show ?thesis
      using reach' acked(3) acks_of_settled(1) [OF settled] by (simp add: make_response_def)
  qed
qed

definition sample_app :: app_state where
  "sample_app =
     \<lparr>ap_store = sample_created, ap_limiter = Some \<lparr>rl_max_per_minute = 60, rl_events = []\<rparr>,
      ap_admission = Some (new_admission default_envelope), ap_lane = Some sample_lane,
      ap_hub = new_hub DEFAULT_QUEUE_SIZE, ap_demand = []\<rparr>"

theorem post_operations_durable_witness:
  "\<exists>app' resp. post_operations sample_clock (\<lambda>_. []) (\<lambda>_. []) (\<lambda>_. mark_reconcile_owed sample_clock ''w'') 10 10 (Stamp 5)
       ''w'' ''ann'' [sample_view] sample_app = (app', Inr resp) \<and>
     map ak_operation_id (or_accepted resp) = [it_operation_id sample_view] \<and>
     (\<forall>later. store_run (ap_store app') later \<longrightarrow> (\<forall>a\<in>set (or_accepted resp). acked_in later ''w'' a))"
proof -
  let ?p = "post_operations sample_clock (\<lambda>_. []) (\<lambda>_. []) (\<lambda>_. mark_reconcile_owed sample_clock ''w'') 10 10 (Stamp 5)
       ''w'' ''ann'' [sample_view] sample_app"
  have "\<not> isl (snd ?p)" by code_simp
  then obtain app' resp where p: "?p = (app', Inr resp)" by (cases ?p) (metis isl_def obj_sumE snd_conv)
  have "reachable (ap_store sample_app)" using sample_reachable(1) by (simp add: sample_app_def)
  moreover have "\<forall>k s. store_run s (mark_reconcile_owed sample_clock ''w'' s)"
    using run_step [OF run_refl step_owed] by blast
  ultimately show ?thesis using post_operations_durable [OF _ _ p] p by auto
qed

section \<open>Streams\<close>

text \<open>Ending one of two streams of an actor takes the actor off the roster although its other stream
  is still registered: the route closes the subscription its iterator has already closed.\<close>

lemma end_stream_drops_live_actor:
  assumes "a \<noteq> []" "ap_hub app = two_tabs ws a"
  shows "live_actors (ap_hub (end_stream ws tms 0 app)) ws = [] \<and>
    subscriber_count (ap_hub (end_stream ws tms 0 app)) (Some ws) = 1"
  using assms two_tabs_second_close [of a Same_Loop ws Same_Loop]
  by (simp add: end_stream_def subscriber_count_def registered_def)

end
