(* ===== verification/Raster_Windows.thy ===== *)
theory Raster_Windows
  imports Prelude
begin

text \<open>
  The integer part of \<open>incremental/geometry.py\<close>: half-open raster windows with their operations, and
  the merging of nearby windows. A frozen dataclass is a record; its \<open>__post_init__\<close> is the checked
  constructor \<open>mk_window\<close>, through which every operation that builds a window goes. Quotients of
  integers are exact (\<open>floor (a / b)\<close> over the rationals).
\<close>

section \<open>Windows\<close>

record raster_window =
  rw_row_start :: int
  rw_row_stop :: int
  rw_col_start :: int
  rw_col_stop :: int

definition mk_window :: "int \<Rightarrow> int \<Rightarrow> int \<Rightarrow> int \<Rightarrow> py_error + raster_window" where
  "mk_window r0 r1 c0 c1 =
     (if r1 < r0 \<or> c1 < c0 then Inl (ValueError ''window stops must be greater than or equal to starts'')
      else Inr \<lparr>rw_row_start = r0, rw_row_stop = r1, rw_col_start = c0, rw_col_stop = c1\<rparr>)"

definition rw_width :: "raster_window \<Rightarrow> int" where
  "rw_width w = rw_col_stop w - rw_col_start w"

definition rw_height :: "raster_window \<Rightarrow> int" where
  "rw_height w = rw_row_stop w - rw_row_start w"

definition rw_area :: "raster_window \<Rightarrow> int" where
  "rw_area w = rw_width w * rw_height w"

definition rw_is_empty :: "raster_window \<Rightarrow> bool" where
  "rw_is_empty w \<longleftrightarrow> rw_width w = 0 \<or> rw_height w = 0"

definition near :: "int \<Rightarrow> raster_window \<Rightarrow> raster_window \<Rightarrow> bool" where
  "near gap a b \<longleftrightarrow>
     \<not> (rw_row_stop a + gap < rw_row_start b \<or> rw_row_stop b + gap < rw_row_start a \<or>
        rw_col_stop a + gap < rw_col_start b \<or> rw_col_stop b + gap < rw_col_start a)"

definition rw_intersects :: "raster_window \<Rightarrow> raster_window \<Rightarrow> int \<Rightarrow> py_error + bool" where
  "rw_intersects a b gap = (if gap < 0 then Inl (ValueError ''gap_pixels must be non-negative'') else Inr (near gap a b))"

definition rw_union :: "raster_window \<Rightarrow> raster_window \<Rightarrow> py_error + raster_window" where
  "rw_union a b =
     (if rw_is_empty a then Inr b else if rw_is_empty b then Inr a
      else mk_window (min (rw_row_start a) (rw_row_start b)) (max (rw_row_stop a) (rw_row_stop b))
             (min (rw_col_start a) (rw_col_start b)) (max (rw_col_stop a) (rw_col_stop b)))"

definition rw_expand :: "raster_window \<Rightarrow> int \<Rightarrow> py_error + raster_window" where
  "rw_expand w pixels =
     (if pixels < 0 then Inl (ValueError ''pixels must be non-negative'')
      else mk_window (rw_row_start w - pixels) (rw_row_stop w + pixels)
             (rw_col_start w - pixels) (rw_col_stop w + pixels))"

definition rw_clamp :: "raster_window \<Rightarrow> int \<Rightarrow> int \<Rightarrow> py_error + raster_window" where
  "rw_clamp w rows cols =
     (if rows \<le> 0 \<or> cols \<le> 0 then Inl (ValueError ''rows and cols must be positive'')
      else mk_window (max 0 (min rows (rw_row_start w))) (max 0 (min rows (rw_row_stop w)))
             (max 0 (min cols (rw_col_start w))) (max 0 (min cols (rw_col_stop w))))"

definition rw_align :: "raster_window \<Rightarrow> int \<Rightarrow> py_error + raster_window" where
  "rw_align w block =
     (if block \<le> 0 then Inl (ValueError ''block_size must be positive'')
      else mk_window
             (\<lfloor>rat_of_int (rw_row_start w) / rat_of_int block\<rfloor> * block)
             (\<lceil>rat_of_int (rw_row_stop w) / rat_of_int block\<rceil> * block)
             (\<lfloor>rat_of_int (rw_col_start w) / rat_of_int block\<rfloor> * block)
             (\<lceil>rat_of_int (rw_col_stop w) / rat_of_int block\<rceil> * block))"

section \<open>Merging\<close>

text \<open>One sweep of the inner loop: the candidate swallows every window near it, growing as it goes;
  the flag is \<open>changed\<close>.\<close>

fun absorb ::
  "int \<Rightarrow> raster_window \<Rightarrow> raster_window list \<Rightarrow> py_error + raster_window \<times> raster_window list \<times> bool" where
  "absorb gap cand [] = Inr (cand, [], False)"
| "absorb gap cand (w # ws) =
     bind_exc (rw_intersects cand w gap) (\<lambda>hit.
       if hit
       then bind_exc (rw_union cand w) (\<lambda>cand'. map_sum id (\<lambda>(c, retained, _). (c, retained, True)) (absorb gap cand' ws))
       else map_sum id (\<lambda>(c, retained, changed). (c, w # retained, changed)) (absorb gap cand ws))"

lemma absorb_shrinks:
  "absorb gap cand ws = Inr (c, retained, changed) \<Longrightarrow>
   length retained \<le> length ws \<and> (changed \<longrightarrow> length retained < length ws)"
proof (induction gap cand ws arbitrary: c retained changed rule: absorb.induct)
  case (2 gap cand w ws)
  then show ?case
    by (fastforce simp: bind_exc_Inr split: if_splits dest!: map_sum_Inr)
qed simp

text \<open>The \<open>while changed\<close> loop.\<close>

function settle :: "int \<Rightarrow> raster_window \<Rightarrow> raster_window list \<Rightarrow> py_error + raster_window \<times> raster_window list" where
  "settle gap cand merged =
     (case absorb gap cand merged of
        Inl e \<Rightarrow> Inl e
      | Inr (c, retained, changed) \<Rightarrow> if changed then settle gap c retained else Inr (c, retained))"
  by pat_completeness auto
termination
  by (relation "measure (\<lambda>(_, _, merged). length merged)") (auto dest: absorb_shrinks)

declare settle.simps [simp del]

definition merge_step :: "int \<Rightarrow> raster_window list \<Rightarrow> raster_window \<Rightarrow> py_error + raster_window list" where
  "merge_step gap merged w = map_sum id (\<lambda>(c, retained). retained @ [c]) (settle gap w merged)"

definition merge_windows :: "raster_window list \<Rightarrow> int \<Rightarrow> py_error + raster_window list" where
  "merge_windows windows gap =
     (if gap < 0 then Inl (ValueError ''gap_pixels must be non-negative'')
      else map_sum id (sort_key (\<lambda>w. (rw_row_start w, rw_col_start w)))
             (fold_exc (merge_step gap) []
               (sort_key (\<lambda>w. (rw_row_start w, rw_col_start w, rw_row_stop w, rw_col_stop w))
                 (filter (\<lambda>w. \<not> rw_is_empty w) windows))))"

end
