(* ===== verification/Patch_Codec.thy ===== *)
theory Patch_Codec
  imports Selected_Time Raster_Windows "HOL-Library.Word"
begin

text \<open>
  The binary result codec, \<open>server/patch_codec.py\<close>: the variable-major byte layout, the manifest that
  describes it, the decoder that checks every part of it, and the single-plane decoder that stops
  decompressing once its plane is complete.

  NumPy, zstandard and SHA-256 are libraries: what the codec calls of them is the record
  \<open>codec_lib\<close>, an argument of every definition; the locale \<open>patch_library\<close> of the contract states what
  they document. Arrays are values of a type parameter; bytes are 8-bit words.
\<close>

type_synonym bytes = "8 word list"

record 'a codec_lib =
  np_shape :: "'a \<Rightarrow> int list"
  np_floating :: "'a \<Rightarrow> bool"
  np_tobytes :: "'a \<Rightarrow> bytes"
  np_frombuffer :: "bytes \<Rightarrow> int list \<Rightarrow> py_error + 'a"
  np_prod :: "int list \<Rightarrow> int"
  zstd_compress :: "bytes \<Rightarrow> bytes"
  zstd_decompress :: "bytes \<Rightarrow> py_error + bytes"
  zstd_feed :: "bytes list \<Rightarrow> py_error + bytes"
  sha256 :: "bytes \<Rightarrow> string"

section \<open>Constants and errors\<close>

definition PATCH_SCHEMA_VERSION :: int where "PATCH_SCHEMA_VERSION = 1"
definition PATCH_MEDIA_TYPE :: string where "PATCH_MEDIA_TYPE = ''application/vnd.solweig.patch+zstd''"
definition IDENTITY_MEDIA_TYPE :: string where "IDENTITY_MEDIA_TYPE = ''application/vnd.solweig.patch+identity''"
definition SUPPORTED_VARIABLES :: "string list" where "SUPPORTED_VARIABLES = [''utci'', ''tmrt'', ''shadow'']"
definition CHECKSUM_PREFIX :: string where "CHECKSUM_PREFIX = ''sha256:''"

text \<open>\<open>np.dtype("<f4").itemsize\<close>.\<close>

definition ITEMSIZE :: int where "ITEMSIZE = 4"

text \<open>The code raises \<open>PatchShapeError\<close> without defining it: \<open>Undefined_Name\<close> is the \<open>NameError\<close>.\<close>

datatype codec_error =
    Patch_Codec_Error
  | Payload_Compression_Error
  | Payload_Checksum_Error
  | Payload_Schema_Error
  | Payload_Dtype_Error
  | Payload_Shape_Error
  | Payload_Length_Error
  | Undefined_Name string
  | Codec_Raised py_error

definition raising :: "py_error + 'b \<Rightarrow> codec_error + 'b" where
  "raising x = map_sum Codec_Raised id x"

section \<open>Encoding\<close>

record variable_meta =
  vm_name :: string
  vm_shape :: "int list"
  vm_dtype :: string
  vm_nodata :: string

definition to_dict :: "variable_meta \<Rightarrow> json" where
  "to_dict v =
     JObj [(''name'', JStr (vm_name v)), (''dtype'', JStr (vm_dtype v)),
           (''shape'', JArr (map JInt (vm_shape v))), (''nodata'', JStr (vm_nodata v))]"

definition make_variable_meta :: "string \<Rightarrow> int list \<Rightarrow> codec_error + variable_meta" where
  "make_variable_meta name shape =
     (if length shape \<noteq> 3 then Inl (Undefined_Name ''PatchShapeError'')
      else Inr \<lparr>vm_name = name, vm_shape = shape, vm_dtype = ''float32'', vm_nodata = ''nan''\<rparr>)"

definition array_bytes :: "'a codec_lib \<Rightarrow> 'a dict \<Rightarrow> string \<Rightarrow> codec_error + bytes" where
  "array_bytes lib arrays name =
     (case map_of arrays name of
        None \<Rightarrow> Inl (Codec_Raised (KeyError name))
      | Some a \<Rightarrow>
          if length (np_shape lib a) \<noteq> 3 then Inl (Undefined_Name ''PatchShapeError'')
          else if \<not> np_floating lib a then Inl Payload_Dtype_Error
          else Inr (np_tobytes lib a))"

definition uncompressed_bytes :: "'a codec_lib \<Rightarrow> 'a dict \<Rightarrow> string list \<Rightarrow> codec_error + bytes" where
  "uncompressed_bytes lib arrays variables = map_sum id concat (traverse (array_bytes lib arrays) variables)"

definition checksum_payload :: "'a codec_lib \<Rightarrow> bytes \<Rightarrow> string" where
  "checksum_payload lib payload = CHECKSUM_PREFIX @ sha256 lib payload"

definition encode_payload ::
  "'a codec_lib \<Rightarrow> 'a dict \<Rightarrow> string list \<Rightarrow> codec_error + variable_meta list \<times> bytes \<times> string" where
  "encode_payload lib arrays variables =
     (if filter (\<lambda>n. n \<notin> set SUPPORTED_VARIABLES) variables \<noteq> [] then Inl Patch_Codec_Error
      else if filter (\<lambda>n. map_of arrays n = None) variables \<noteq> [] then Inl Patch_Codec_Error
      else bind_exc (traverse (\<lambda>n. make_variable_meta n (np_shape lib (the (map_of arrays n)))) variables) (\<lambda>meta.
           map_sum id (\<lambda>raw. let payload = zstd_compress lib raw in (meta, payload, checksum_payload lib payload))
             (uncompressed_bytes lib arrays variables)))"

record manifest_fields =
  mf_scenario_id :: string
  mf_scene_version :: int
  mf_window :: raster_window
  mf_time_indices :: "int list"
  mf_variables :: "variable_meta list"
  mf_payload_url :: string
  mf_checksum :: string
  mf_model_version :: string
  mf_site_cache_version :: string
  mf_site_id :: "string option"
  mf_exact :: bool
  mf_metrics :: "json dict"
  mf_limitations :: "json list"
  mf_statistics :: "json list dict"

definition build_manifest :: "manifest_fields \<Rightarrow> json dict" where
  "build_manifest f =
     [(''schema_version'', JInt PATCH_SCHEMA_VERSION), (''scenario_id'', JStr (mf_scenario_id f)),
      (''scene_version'', JInt (mf_scene_version f)), (''exact'', JBool (mf_exact f)),
      (''model_version'', JStr (mf_model_version f)), (''site_cache_version'', JStr (mf_site_cache_version f)),
      (''window'', JObj [(''row_start'', JInt (rw_row_start (mf_window f))), (''row_stop'', JInt (rw_row_stop (mf_window f))),
                         (''col_start'', JInt (rw_col_start (mf_window f))), (''col_stop'', JInt (rw_col_stop (mf_window f)))]),
      (''time_indices'', JArr (map JInt (mf_time_indices f))), (''variables'', JArr (map to_dict (mf_variables f))),
      (''payload_url'', JStr (mf_payload_url f)), (''compression'', JStr ''zstd''), (''checksum'', JStr (mf_checksum f))] @
     (case mf_site_id f of None \<Rightarrow> [] | Some s \<Rightarrow> [(''site_id'', JStr s)]) @
     (if mf_statistics f = [] then []
      else [(''statistics'', JObj (map (map_prod id JArr) (mf_statistics f)))]) @
     [(''metrics'', JObj (mf_metrics f)), (''limitations'', JArr (mf_limitations f))]"

section \<open>Content negotiation\<close>

definition accept_range :: "string \<Rightarrow> string" where
  "accept_range part = map lower_char (strip_str (takeWhile (\<lambda>c. c \<noteq> CHR '';'') part))"

fun comma_parts :: "string \<Rightarrow> string list" where
  "comma_parts [] = [[]]"
| "comma_parts (c # cs) =
     (if c = CHR '','' then [] # comma_parts cs
      else case comma_parts cs of [] \<Rightarrow> [[c]] | x # xs \<Rightarrow> (c # x) # xs)"

definition acceptable :: "string list \<Rightarrow> string \<Rightarrow> bool" where
  "acceptable ranges media \<longleftrightarrow>
     media \<in> set ranges \<or> ''*/*'' \<in> set ranges \<or>
     take 12 media = ''application/'' \<and> ''application/*'' \<in> set ranges"

definition select_payload_media_type :: "string option \<Rightarrow> string option" where
  "select_payload_media_type accept =
     (let ranges = (case accept of
            None \<Rightarrow> [] | Some h \<Rightarrow> if h = [] then [] else filter (\<lambda>m. m \<noteq> []) (map accept_range (comma_parts h)));
          (zstd_ok, identity_ok) =
            (if ranges = [] then (True, False)
             else (acceptable ranges PATCH_MEDIA_TYPE, acceptable ranges IDENTITY_MEDIA_TYPE))
      in if zstd_ok then Some PATCH_MEDIA_TYPE else if identity_ok then Some IDENTITY_MEDIA_TYPE else None)"

definition payload_etag :: "string \<Rightarrow> string" where
  "payload_etag checksum =
     (let hex = (if take 7 checksum = CHECKSUM_PREFIX then drop 7 checksum else checksum)
      in CHR 0x22 # ''sha256-'' @ hex @ [CHR 0x22])"

section \<open>Reading manifest entries\<close>

fun subscript :: "json \<Rightarrow> string \<Rightarrow> py_error + json" where
  "subscript (JObj d) k = (case map_of d k of Some v \<Rightarrow> Inr v | None \<Rightarrow> Inl (KeyError k))"
| "subscript v k = Inl (TypeError ''subscript'')"

fun get_of :: "json \<Rightarrow> string \<Rightarrow> py_error + json option" where
  "get_of (JObj d) k = Inr (map_of d k)"
| "get_of v k = Inl (AttributeError ''get'')"

definition str_of :: "(json \<Rightarrow> string) \<Rightarrow> json \<Rightarrow> string" where
  "str_of show v = (case v of JStr s \<Rightarrow> s | _ \<Rightarrow> show v)"

definition shape_of :: "json \<Rightarrow> py_error + int list" where
  "shape_of v = bind_exc (json_iter v) (traverse py_int)"

definition schema_ok :: "json dict \<Rightarrow> codec_error + unit" where
  "schema_ok manifest =
     bind_exc (raising (py_int (dict_get manifest ''schema_version'' (JInt (-1))))) (\<lambda>v.
       if v \<noteq> PATCH_SCHEMA_VERSION then Inl Payload_Schema_Error else Inr ())"

definition variable_entries :: "json dict \<Rightarrow> py_error + json list" where
  "variable_entries manifest = json_iter (dict_get manifest ''variables'' (JArr []))"

definition entry_nbytes :: "(json \<Rightarrow> string) \<Rightarrow> 'a codec_lib \<Rightarrow> int \<Rightarrow> json \<Rightarrow> codec_error + int" where
  "entry_nbytes show lib nbytes entry =
     bind_exc (raising (bind_exc (subscript entry ''shape'') shape_of)) (\<lambda>shape.
     bind_exc (raising (get_of entry ''dtype'')) (\<lambda>dtype.
       if (case dtype of None \<Rightarrow> ''float32'' | Some d \<Rightarrow> str_of show d) \<noteq> ''float32'' then Inl Payload_Dtype_Error
       else if length shape \<noteq> 3 then Inl Payload_Shape_Error
       else if (\<exists>v\<in>set shape. v < 0) then Inl Payload_Shape_Error
       else Inr (nbytes + np_prod lib shape * ITEMSIZE)))"

definition expected_nbytes :: "(json \<Rightarrow> string) \<Rightarrow> 'a codec_lib \<Rightarrow> json list \<Rightarrow> codec_error + int" where
  "expected_nbytes show lib entries = fold_exc (entry_nbytes show lib) 0 entries"

section \<open>Decoding\<close>

definition decompress_payload :: "(json \<Rightarrow> string) \<Rightarrow> 'a codec_lib \<Rightarrow> bytes \<Rightarrow> json dict \<Rightarrow> codec_error + bytes" where
  "decompress_payload show lib payload manifest =
     (if str_of show (dict_get manifest ''compression'' (JStr ''zstd'')) \<noteq> ''zstd'' then Inl Payload_Compression_Error
      else case zstd_decompress lib payload of Inl _ \<Rightarrow> Inl Payload_Compression_Error | Inr raw \<Rightarrow> Inr raw)"

definition verify_payload_checksum :: "'a codec_lib \<Rightarrow> bytes \<Rightarrow> string \<Rightarrow> codec_error + unit" where
  "verify_payload_checksum lib payload checksum =
     (if checksum_payload lib payload \<noteq> checksum then Inl Payload_Checksum_Error else Inr ())"

definition unpack_entry ::
  "(json \<Rightarrow> string) \<Rightarrow> 'a codec_lib \<Rightarrow> bytes \<Rightarrow> int \<times> 'a dict \<Rightarrow> json \<Rightarrow> codec_error + int \<times> 'a dict" where
  "unpack_entry show lib raw s entry =
     (case s of (offset, arrays) \<Rightarrow>
        bind_exc (raising (bind_exc (subscript entry ''shape'') shape_of)) (\<lambda>shape.
        let count = np_prod lib shape in
        bind_exc (raising (np_frombuffer lib (py_slice raw offset (offset + count * ITEMSIZE)) shape)) (\<lambda>a.
        bind_exc (raising (subscript entry ''name'')) (\<lambda>name.
          Inr (offset + count * ITEMSIZE, AList.update (str_of show name) a arrays)))))"

definition window_extent_of :: "json dict \<Rightarrow> py_error + int \<times> int" where
  "window_extent_of w =
     bind_exc (bind_exc (subscript (JObj w) ''row_stop'') py_int) (\<lambda>r1.
     bind_exc (bind_exc (subscript (JObj w) ''row_start'') py_int) (\<lambda>r0.
     bind_exc (bind_exc (subscript (JObj w) ''col_stop'') py_int) (\<lambda>c1.
     bind_exc (bind_exc (subscript (JObj w) ''col_start'') py_int) (\<lambda>c0. Inr (r1 - r0, c1 - c0)))))"

definition check_window :: "'a codec_lib \<Rightarrow> json dict \<Rightarrow> 'a dict \<Rightarrow> codec_error + unit" where
  "check_window lib manifest arrays =
     (case map_of manifest ''window'' of
        Some (JObj w) \<Rightarrow>
          bind_exc (raising (window_extent_of w)) (\<lambda>(height, width).
            if (\<forall>p\<in>set arrays. np_shape lib (snd p) ! 1 = height \<and> np_shape lib (snd p) ! 2 = width)
            then Inr () else Inl Payload_Shape_Error)
      | _ \<Rightarrow> Inr ())"

definition decode_raw ::
  "(json \<Rightarrow> string) \<Rightarrow> 'a codec_lib \<Rightarrow> json dict \<Rightarrow> bytes \<Rightarrow> string list option \<Rightarrow> codec_error + 'a dict" where
  "decode_raw show lib manifest raw expected =
     bind_exc (schema_ok manifest) (\<lambda>_.
     bind_exc (raising (variable_entries manifest)) (\<lambda>entries.
       if entries = [] then Inl Payload_Shape_Error
       else bind_exc (raising (traverse (\<lambda>e. map_sum id (str_of show) (subscript e ''name'')) entries)) (\<lambda>names.
         if expected \<noteq> None \<and> names \<noteq> the expected then Inl Payload_Shape_Error
         else bind_exc (expected_nbytes show lib entries) (\<lambda>nbytes.
           if int (length raw) \<noteq> nbytes then Inl Payload_Length_Error
           else bind_exc (fold_exc (unpack_entry show lib raw) (0, []) entries) (\<lambda>(_, arrays).
             map_sum id (\<lambda>_. arrays) (check_window lib manifest arrays))))))"

definition decode_payload ::
  "(json \<Rightarrow> string) \<Rightarrow> 'a codec_lib \<Rightarrow> json dict \<Rightarrow> bytes \<Rightarrow> bool \<Rightarrow> string list option \<Rightarrow> codec_error + 'a dict" where
  "decode_payload show lib manifest payload verify expected =
     bind_exc (if \<not> verify then Inr ()
               else case map_of manifest ''checksum'' of
                      Some (JStr c) \<Rightarrow> if c = [] then Inl Payload_Checksum_Error else verify_payload_checksum lib payload c
                    | _ \<Rightarrow> Inl Payload_Checksum_Error) (\<lambda>_.
     bind_exc (decompress_payload show lib payload manifest) (\<lambda>raw.
       decode_raw show lib manifest raw expected))"

definition decode_identity_payload ::
  "(json \<Rightarrow> string) \<Rightarrow> 'a codec_lib \<Rightarrow> json dict \<Rightarrow> bytes \<Rightarrow> string list option \<Rightarrow> codec_error + 'a dict" where
  "decode_identity_payload show lib manifest payload expected = decode_raw show lib manifest payload expected"

section \<open>One plane\<close>

fun plane_span_from ::
  "(json \<Rightarrow> string) \<Rightarrow> 'a codec_lib \<Rightarrow> string \<Rightarrow> int \<Rightarrow> json list \<Rightarrow> codec_error + int \<times> int \<times> int list" where
  "plane_span_from show lib variable offset [] = Inl Payload_Shape_Error"
| "plane_span_from show lib variable offset (entry # rest) =
     bind_exc (raising (get_of entry ''name'')) (\<lambda>name.
     bind_exc (raising (bind_exc (get_of entry ''shape'') (\<lambda>s. case s of None \<Rightarrow> Inr [] | Some v \<Rightarrow> shape_of v))) (\<lambda>shape.
       let count = np_prod lib shape * ITEMSIZE in
       if (case name of None \<Rightarrow> ''None'' | Some v \<Rightarrow> str_of show v) = variable
       then (if length shape \<noteq> 3 then Inl Payload_Shape_Error else Inr (offset, offset + count, shape))
       else plane_span_from show lib variable (offset + count) rest))"

definition plane_span ::
  "(json \<Rightarrow> string) \<Rightarrow> 'a codec_lib \<Rightarrow> json dict \<Rightarrow> string \<Rightarrow> codec_error + int \<times> int \<times> int list" where
  "plane_span show lib manifest variable =
     bind_exc (schema_ok manifest) (\<lambda>_.
     bind_exc (raising (variable_entries manifest)) (plane_span_from show lib variable 0))"

definition DECOMPRESS_CHUNK :: nat where "DECOMPRESS_CHUNK = 65536"

fun chunks_of :: "nat \<Rightarrow> 'b list \<Rightarrow> 'b list list" where
  "chunks_of n xs = (if n = 0 \<or> xs = [] then [] else take n xs # chunks_of n (drop n xs))"

declare chunks_of.simps [simp del]

text \<open>Feeding the remaining chunks until the buffer reaches \<open>stop\<close>; \<open>fed\<close> are the chunks so far.\<close>

fun stream_until ::
  "'a codec_lib \<Rightarrow> int \<Rightarrow> bytes list \<Rightarrow> bytes \<Rightarrow> bytes list \<Rightarrow> codec_error + bytes" where
  "stream_until lib stop fed buffer [] = Inr buffer"
| "stream_until lib stop fed buffer (chunk # rest) =
     (case zstd_feed lib (fed @ [chunk]) of
        Inl _ \<Rightarrow> Inl Payload_Compression_Error
      | Inr out \<Rightarrow> if stop \<le> int (length out) then Inr out else stream_until lib stop (fed @ [chunk]) out rest)"

definition decode_plane ::
  "(json \<Rightarrow> string) \<Rightarrow> 'a codec_lib \<Rightarrow> json dict \<Rightarrow> bytes \<Rightarrow> string \<Rightarrow> int \<Rightarrow> codec_error + 'a" where
  "decode_plane show lib manifest payload variable time_index =
     bind_exc (case map_of manifest ''checksum'' of
                 Some (JStr c) \<Rightarrow> if c = [] then Inr () else verify_payload_checksum lib payload c
               | _ \<Rightarrow> Inr ()) (\<lambda>_.
     bind_exc (plane_span show lib manifest variable) (\<lambda>(start, _, shape).
       let rows = shape ! 1; cols = shape ! 2;
           plane_start = start + time_index * rows * cols * ITEMSIZE;
           plane_stop = plane_start + rows * cols * ITEMSIZE
       in if \<not> (0 \<le> time_index \<and> time_index < shape ! 0) then Inl Payload_Shape_Error
          else bind_exc (stream_until lib plane_stop [] [] (chunks_of DECOMPRESS_CHUNK payload)) (\<lambda>buffer.
            if int (length buffer) < plane_stop then Inl Payload_Length_Error
            else raising (np_frombuffer lib (py_slice buffer plane_start plane_stop) [rows, cols]))))"

end
