(* ===== verification/Patch_Codec_Contract.thy ===== *)
theory Patch_Codec_Contract
  imports Patch_Codec "HOL-Library.Sublist"
begin

text \<open>
  What the codec promises over its libraries. The locale \<open>patch_library\<close> states what NumPy and
  zstandard document: the bytes of a float32 array in C order and back, slices of a buffer as planes
  of the array, an exact product while it fits 64 bits, decompression as the inverse of compression
  and a streaming decompressor that yields prefixes. Under it, decoding inverts encoding and the
  single-plane decoder agrees with the full one. The interpretation is little-endian 32-bit words.
\<close>

section \<open>The libraries\<close>

locale patch_library =
  fixes lib :: "'a codec_lib" and is_f4 :: "'a \<Rightarrow> bool" and plane :: "'a \<Rightarrow> int \<Rightarrow> 'a"
  assumes f4_floating: "is_f4 a \<Longrightarrow> np_floating lib a"
    and f4_shape: "is_f4 a \<Longrightarrow> v \<in> set (np_shape lib a) \<Longrightarrow> 0 \<le> v"
    and tobytes_length: "is_f4 a \<Longrightarrow> int (length (np_tobytes lib a)) = prod_list (np_shape lib a) * ITEMSIZE"
    and frombuffer_tobytes: "is_f4 a \<Longrightarrow> np_frombuffer lib (np_tobytes lib a) (np_shape lib a) = Inr a"
    and frombuffer_shape: "np_frombuffer lib b s = Inr a \<Longrightarrow> np_shape lib a = s"
    and frombuffer_plane:
      "np_frombuffer lib b [t, r, c] = Inr a \<Longrightarrow> 0 \<le> k \<Longrightarrow> k < t \<Longrightarrow> 0 \<le> r \<Longrightarrow> 0 \<le> c \<Longrightarrow>
       np_frombuffer lib (take (nat (r * c * ITEMSIZE)) (drop (nat (k * r * c * ITEMSIZE)) b)) [r, c] = Inr (plane a k)"
    and prod_exact: "(\<And>v. v \<in> set s \<Longrightarrow> 0 \<le> v) \<Longrightarrow> prod_list s < 2 ^ 63 \<Longrightarrow> np_prod lib s = prod_list s"
    and decompress_compress: "zstd_decompress lib (zstd_compress lib x) = Inr x"
    and feed_nil: "zstd_feed lib [] = Inr []"
    and feed_prefix: "zstd_decompress lib (concat cs @ rest) = Inr x \<Longrightarrow> \<exists>out. zstd_feed lib cs = Inr out \<and> prefix out x"
    and feed_all: "zstd_decompress lib (concat cs) = Inr x \<Longrightarrow> zstd_feed lib cs = Inr x"

section \<open>Slices\<close>

lemma py_slice_eq: "0 \<le> a \<Longrightarrow> a \<le> b \<Longrightarrow> b \<le> int (length xs) \<Longrightarrow> py_slice xs a b = take (nat (b - a)) (drop (nat a) xs)"
  by (simp add: py_slice_def slice_index_def nat_diff_distrib Let_def)

lemma py_slice_block:
  "a = int (length pre) \<Longrightarrow> b = a + int (length mid) \<Longrightarrow> py_slice (pre @ mid @ post) a b = mid"
  by (subst py_slice_eq) auto

lemma concat_chunks_of: "n \<noteq> 0 \<Longrightarrow> concat (chunks_of n xs) = xs"
proof (induction n xs rule: chunks_of.induct)
  case (1 n xs)
  then show ?case by (subst chunks_of.simps) auto
qed

lemma prefix_slice:
  assumes "prefix out raw" "i + n \<le> length out"
  shows "take n (drop i out) = take n (drop i raw)"
proof -
  obtain zs where "raw = out @ zs" using assms(1) by (auto simp: prefix_def)
  then show ?thesis using assms(2) by simp
qed

lemma slice_of_block:
  assumes "prefix out raw" "start + i + n \<le> int (length out)" "0 \<le> start" "0 \<le> i" "0 \<le> n" "i + n \<le> blk"
  shows "py_slice out (start + i) (start + i + n) = take (nat n) (drop (nat i) (take (nat blk) (drop (nat start) raw)))"
proof -
  have "py_slice out (start + i) (start + i + n) = take (nat n) (drop (nat (start + i)) out)"
    using assms by (subst py_slice_eq) auto
  also have "\<dots> = take (nat n) (drop (nat (start + i)) raw)"
    using assms by (intro prefix_slice) auto
  also have "\<dots> = take (nat n) (drop (nat i) (take (nat blk) (drop (nat start) raw)))"
    using assms by (simp add: drop_take min_def nat_add_distrib add.commute)
  finally show ?thesis .
qed

lemma plane_bounds:
  fixes k :: int
  assumes "0 \<le> k" "k < t" "0 \<le> r" "0 \<le> c"
  shows "0 \<le> k * (r * c) \<and> 0 \<le> r * c \<and> k * (r * c) + r * c \<le> t * (r * c)"
proof -
  have "0 \<le> r * c" using assms by simp
  then have "(k + 1) * (r * c) \<le> t * (r * c)" using assms by (intro mult_right_mono) auto
  then show ?thesis using assms by (simp add: distrib_right)
qed

section \<open>Manifests\<close>

lemma manifest_lookups [simp]:
  "dict_get (build_manifest f) ''schema_version'' v = JInt 1"
  "dict_get (build_manifest f) ''variables'' v = JArr (map to_dict (mf_variables f))"
  "dict_get (build_manifest f) ''compression'' v = JStr ''zstd''"
  "map_of (build_manifest f) ''checksum'' = Some (JStr (mf_checksum f))"
  "map_of (build_manifest f) ''window'' =
     Some (JObj [(''row_start'', JInt (rw_row_start (mf_window f))), (''row_stop'', JInt (rw_row_stop (mf_window f))),
       (''col_start'', JInt (rw_col_start (mf_window f))), (''col_stop'', JInt (rw_col_stop (mf_window f)))])"
  by (simp_all add: build_manifest_def dict_get_def PATCH_SCHEMA_VERSION_def)

lemma raising_simps [simp]: "raising (Inr x) = Inr x" "raising (Inl e) = Inl (Codec_Raised e)"
  by (simp_all add: raising_def)

lemma raising_Inr: "raising x = Inr y \<longleftrightarrow> x = Inr y"
  by (cases x) simp_all

lemma traverse_JInt [simp]: "traverse py_int (map JInt xs) = Inr xs"
  by (induction xs) (simp_all add: py_int_def)

lemma entry_fields [simp]:
  "subscript (to_dict v) ''name'' = Inr (JStr (vm_name v))"
  "bind_exc (subscript (to_dict v) ''shape'') shape_of = Inr (vm_shape v)"
  "get_of (to_dict v) ''dtype'' = Inr (Some (JStr (vm_dtype v)))"
  by (simp_all add: to_dict_def shape_of_def)

lemma traverse_names [simp]:
  "traverse (\<lambda>e. map_sum id (str_of show) (subscript e ''name'')) (map to_dict vs) = Inr (map vm_name vs)"
  by (induction vs) (simp_all add: str_of_def)

text \<open>The metadata the encoder writes for an array.\<close>

definition meta_of :: "'a codec_lib \<Rightarrow> 'a dict \<Rightarrow> string \<Rightarrow> variable_meta" where
  "meta_of lib arrays n =
     \<lparr>vm_name = n, vm_shape = np_shape lib (the (map_of arrays n)), vm_dtype = ''float32'', vm_nodata = ''nan''\<rparr>"

lemma traverse_Inr_map: "traverse f xs = Inr ys \<Longrightarrow> (\<And>x y. f x = Inr y \<Longrightarrow> y = g x) \<Longrightarrow> ys = map g xs"
  by (induction xs arbitrary: ys) (auto split: sum.splits)

lemma encode_payloadE:
  assumes "encode_payload lib arrays variables = Inr (meta, payload, checksum)"
  obtains "meta = map (meta_of lib arrays) variables"
    "payload = zstd_compress lib (concat (map (\<lambda>n. np_tobytes lib (the (map_of arrays n))) variables))"
    "checksum = checksum_payload lib payload"
    "\<And>n. n \<in> set variables \<Longrightarrow> length (np_shape lib (the (map_of arrays n))) = 3"
proof -
  obtain raw bs where t: "traverse (\<lambda>n. make_variable_meta n (np_shape lib (the (map_of arrays n)))) variables = Inr meta"
    "traverse (array_bytes lib arrays) variables = Inr bs" "raw = concat bs"
    "payload = zstd_compress lib raw" "checksum = checksum_payload lib payload"
    using assms by (auto simp: encode_payload_def bind_exc_Inr uncompressed_bytes_def Let_def
        dest!: map_sum_Inr split: if_splits)
  have "meta = map (meta_of lib arrays) variables"
    by (rule traverse_Inr_map [OF t(1)]) (auto simp: make_variable_meta_def meta_of_def split: if_splits)
  moreover have "bs = map (\<lambda>n. np_tobytes lib (the (map_of arrays n))) variables"
    by (rule traverse_Inr_map [OF t(2)]) (auto simp: array_bytes_def split: option.splits if_splits)
  moreover have "length (np_shape lib (the (map_of arrays n))) = 3" if "n \<in> set variables" for n
    using t(1) that
    by (induction variables arbitrary: meta) (auto simp: make_variable_meta_def split: sum.splits if_splits)
  ultimately show thesis using that t(3-5) by blast
qed

section \<open>Decoding inverts encoding\<close>

text \<open>The arrays the encoder is given: float32, of three dimensions, small enough to count.\<close>

definition encodable :: "'a codec_lib \<Rightarrow> ('a \<Rightarrow> bool) \<Rightarrow> 'a dict \<Rightarrow> string list \<Rightarrow> bool" where
  "encodable lib is_f4 arrays ns \<longleftrightarrow> (\<forall>n\<in>set ns. is_f4 (the (map_of arrays n)) \<and>
     length (np_shape lib (the (map_of arrays n))) = 3 \<and> prod_list (np_shape lib (the (map_of arrays n))) < 2 ^ 63)"

lemma update_fresh: "k \<notin> set (dict_keys d) \<Longrightarrow> AList.update k v d = d @ [(k, v)]"
  by (induction d) auto

context patch_library
begin

lemma encodable_prod:
  assumes "encodable lib is_f4 arrays ns" "n \<in> set ns"
  shows "np_prod lib (vm_shape (meta_of lib arrays n)) * ITEMSIZE = int (length (np_tobytes lib (the (map_of arrays n))))"
proof -
  have a: "is_f4 (the (map_of arrays n))" "prod_list (np_shape lib (the (map_of arrays n))) < 2 ^ 63"
    using assms unfolding encodable_def by blast+
  have "np_prod lib (np_shape lib (the (map_of arrays n))) = prod_list (np_shape lib (the (map_of arrays n)))"
    using prod_exact [OF f4_shape [OF a(1)] a(2)] .
  then show ?thesis using tobytes_length [OF a(1)] by (simp add: meta_of_def)
qed

lemma expected_nbytes_encoded:
  "encodable lib is_f4 arrays ns \<Longrightarrow>
   fold_exc (entry_nbytes show lib) n0 (map (to_dict \<circ> meta_of lib arrays) ns) =
     Inr (n0 + int (length (concat (map (\<lambda>n. np_tobytes lib (the (map_of arrays n))) ns))))"
proof (induction ns arbitrary: n0)
  case (Cons n ns)
  have "encodable lib is_f4 arrays ns" using Cons.prems by (simp add: encodable_def)
  moreover have "entry_nbytes show lib n0 (to_dict (meta_of lib arrays n)) =
      Inr (n0 + int (length (np_tobytes lib (the (map_of arrays n)))))"
    using Cons.prems encodable_prod [OF Cons.prems, of n] f4_shape [of "the (map_of arrays n)"]
    by (fastforce simp: entry_nbytes_def encodable_def str_of_def meta_of_def)
  ultimately show ?case using Cons.IH by simp
qed simp

lemma unpack_encoded:
  assumes "encodable lib is_f4 arrays ns" "distinct ns" "set ns \<inter> set (dict_keys acc) = {}"
    "raw = pre @ concat (map (\<lambda>n. np_tobytes lib (the (map_of arrays n))) ns)"
  shows "\<exists>offset. fold_exc (unpack_entry show lib raw) (int (length pre), acc) (map (to_dict \<circ> meta_of lib arrays) ns) =
    Inr (offset, acc @ map (\<lambda>n. (n, the (map_of arrays n))) ns)"
  using assms
proof (induction ns arbitrary: pre acc)
  case (Cons n ns)
  let ?a = "the (map_of arrays n)" and ?rest = "concat (map (\<lambda>n. np_tobytes lib (the (map_of arrays n))) ns)"
  have a: "is_f4 ?a" "encodable lib is_f4 arrays ns" using Cons.prems(1) by (auto simp: encodable_def)
  have count: "np_prod lib (np_shape lib ?a) * ITEMSIZE = int (length (np_tobytes lib ?a))"
    using encodable_prod [OF Cons.prems(1), of n] by (simp add: meta_of_def)
  have "py_slice raw (int (length pre)) (int (length pre) + np_prod lib (np_shape lib ?a) * ITEMSIZE) = np_tobytes lib ?a"
    unfolding count Cons.prems(4) by simp (rule py_slice_block, simp_all)
  then have step: "unpack_entry show lib raw (int (length pre), acc) (to_dict (meta_of lib arrays n)) =
      Inr (int (length (pre @ np_tobytes lib ?a)), AList.update n ?a acc)"
    using frombuffer_tobytes [OF a(1)] count
    by (simp add: unpack_entry_def meta_of_def [of lib arrays n] Let_def str_of_def)
  have fresh: "AList.update n ?a acc = acc @ [(n, ?a)]"
    using Cons.prems(3) by (intro update_fresh) auto
  have "\<exists>offset. fold_exc (unpack_entry show lib raw) (int (length (pre @ np_tobytes lib ?a)), acc @ [(n, ?a)])
      (map (to_dict \<circ> meta_of lib arrays) ns) = Inr (offset, (acc @ [(n, ?a)]) @ map (\<lambda>n. (n, the (map_of arrays n))) ns)"
    by (rule Cons.IH [OF a(2)]) (use Cons.prems in auto)
  then show ?case using step fresh by (simp add: comp_def)
qed simp

lemma roundtrip:
  assumes enc: "encode_payload lib arrays variables = Inr (meta, payload, checksum)"
    and vars: "variables \<noteq> []" "distinct variables" "encodable lib is_f4 arrays variables"
    and f: "mf_variables f = meta" "mf_checksum f = checksum"
    and window: "\<And>n. n \<in> set variables \<Longrightarrow>
      np_shape lib (the (map_of arrays n)) ! 1 = rw_row_stop (mf_window f) - rw_row_start (mf_window f) \<and>
      np_shape lib (the (map_of arrays n)) ! 2 = rw_col_stop (mf_window f) - rw_col_start (mf_window f)"
  shows "decode_payload show lib (build_manifest f) payload True (Some variables) =
    Inr (map (\<lambda>n. (n, the (map_of arrays n))) variables)"
proof -
  let ?raw = "concat (map (\<lambda>n. np_tobytes lib (the (map_of arrays n))) variables)"
  obtain meta: "meta = map (meta_of lib arrays) variables" and payload: "payload = zstd_compress lib ?raw"
    and checksum: "checksum = checksum_payload lib payload" by (rule encode_payloadE [OF enc]) (rule that)
  have entries: "map to_dict meta = map (to_dict \<circ> meta_of lib arrays) variables" by (simp add: meta)
  have names: "traverse (\<lambda>e. map_sum id (str_of show) (subscript e ''name'')) (map to_dict meta) = Inr variables"
  proof -
    have "map vm_name meta = variables" by (simp add: meta meta_of_def comp_def)
    then show ?thesis by (simp only: traverse_names)
  qed
  have nbytes: "expected_nbytes show lib (map to_dict meta) = Inr (int (length ?raw))"
    using expected_nbytes_encoded [OF vars(3), of "show" 0] unfolding expected_nbytes_def entries by simp
  obtain offset where unpack: "fold_exc (unpack_entry show lib ?raw) (0, []) (map to_dict meta) =
      Inr (offset, map (\<lambda>n. (n, the (map_of arrays n))) variables)"
    using unpack_encoded [OF vars(3,2), of "[]" ?raw "[]" "show"] unfolding entries by auto
  have win: "check_window lib (build_manifest f) (map (\<lambda>n. (n, the (map_of arrays n))) variables) = Inr ()"
    using window by (simp add: check_window_def window_extent_of_def py_int_def)
  have "decode_raw show lib (build_manifest f) ?raw (Some variables) = Inr (map (\<lambda>n. (n, the (map_of arrays n))) variables)"
    unfolding decode_raw_def schema_ok_def variable_entries_def manifest_lookups f(1)
    using vars(1) names nbytes unpack win meta by (simp add: py_int_def PATCH_SCHEMA_VERSION_def)
  moreover have "checksum \<noteq> []" by (simp add: checksum checksum_payload_def CHECKSUM_PREFIX_def)
  ultimately show ?thesis
    unfolding decode_payload_def manifest_lookups f(2)
    using decompress_compress [of ?raw]
    by (simp add: verify_payload_checksum_def checksum decompress_payload_def str_of_def payload)
qed

end

section \<open>One plane against the whole\<close>

text \<open>What the unpacking loop reads: for every entry its name, its shape and the array built from the
  block at the running offset.\<close>

fun laid_out ::
  "(json \<Rightarrow> string) \<Rightarrow> 'a codec_lib \<Rightarrow> bytes \<Rightarrow> int \<Rightarrow> json list \<Rightarrow> (string \<times> int list \<times> 'a) list \<Rightarrow> bool" where
  "laid_out show lib raw offset [] [] \<longleftrightarrow> True"
| "laid_out show lib raw offset (e # es) ((n, s, a) # items) \<longleftrightarrow>
     (\<exists>v. subscript e ''name'' = Inr v \<and> str_of show v = n) \<and>
     bind_exc (subscript e ''shape'') shape_of = Inr s \<and>
     np_frombuffer lib (py_slice raw offset (offset + np_prod lib s * ITEMSIZE)) s = Inr a \<and>
     laid_out show lib raw (offset + np_prod lib s * ITEMSIZE) es items"
| "laid_out show lib raw offset _ _ \<longleftrightarrow> False"

abbreviation put_items :: "(string \<times> int list \<times> 'a) list \<Rightarrow> 'a dict \<Rightarrow> 'a dict" where
  "put_items \<equiv> fold (\<lambda>(n, s, a). AList.update n a)"

lemma unpack_entry_Inr:
  assumes "unpack_entry show lib raw (offset, acc) e = Inr r"
  obtains s a v where "bind_exc (subscript e ''shape'') shape_of = Inr s" "subscript e ''name'' = Inr v"
    "np_frombuffer lib (py_slice raw offset (offset + np_prod lib s * ITEMSIZE)) s = Inr a"
    "r = (offset + np_prod lib s * ITEMSIZE, AList.update (str_of show v) a acc)"
  using assms by (auto simp: unpack_entry_def Let_def bind_exc_Inr raising_Inr)

lemma entry_nbytes_Inr:
  assumes "entry_nbytes show lib n0 e = Inr r"
  obtains s where "bind_exc (subscript e ''shape'') shape_of = Inr s" "length s = 3" "\<forall>v\<in>set s. 0 \<le> v"
    "r = n0 + np_prod lib s * ITEMSIZE"
  using assms by (fastforce simp: entry_nbytes_def bind_exc_Inr raising_Inr not_less split: if_splits)

lemma unpack_laid_out:
  "fold_exc (unpack_entry show lib raw) (offset, acc) es = Inr (offset', arrays) \<Longrightarrow>
   \<exists>items. laid_out show lib raw offset es items \<and> arrays = put_items items acc \<and>
     traverse (\<lambda>e. map_sum id (str_of show) (subscript e ''name'')) es = Inr (map fst items)"
proof (induction es arbitrary: offset acc)
  case Nil
  then show ?case by (intro exI [of _ "[]"]) simp
next
  case (Cons e es)
  obtain r where r: "unpack_entry show lib raw (offset, acc) e = Inr r"
    "fold_exc (unpack_entry show lib raw) r es = Inr (offset', arrays)"
    using Cons.prems by (auto split: sum.splits)
  obtain s a v where step: "bind_exc (subscript e ''shape'') shape_of = Inr s" "subscript e ''name'' = Inr v"
    "np_frombuffer lib (py_slice raw offset (offset + np_prod lib s * ITEMSIZE)) s = Inr a"
    "fold_exc (unpack_entry show lib raw)
       (offset + np_prod lib s * ITEMSIZE, AList.update (str_of show v) a acc) es = Inr (offset', arrays)"
    by (rule unpack_entry_Inr [OF r(1)]) (use r(2) in simp)
  then obtain items where "laid_out show lib raw (offset + np_prod lib s * ITEMSIZE) es items"
    "arrays = put_items items (AList.update (str_of show v) a acc)"
    "traverse (\<lambda>e. map_sum id (str_of show) (subscript e ''name'')) es = Inr (map fst items)"
    using Cons.IH by blast
  then show ?case using step by (intro exI [of _ "(str_of show v, s, a) # items"]) (simp add: id_def)
qed

lemma nbytes_laid_out:
  assumes "fold_exc (entry_nbytes show lib) n0 es = Inr nb" "laid_out show lib raw offset es items"
  shows "nb = n0 + sum_list (map (\<lambda>(n, s, a). np_prod lib s * ITEMSIZE) items) \<and>
    (\<forall>(n, s, a)\<in>set items. length s = 3 \<and> (\<forall>v\<in>set s. 0 \<le> v))"
  using assms
proof (induction es arbitrary: n0 offset items)
  case Nil
  then show ?case by (cases items) auto
next
  case (Cons e es)
  then obtain n s a rest where items: "items = (n, s, a) # rest" "bind_exc (subscript e ''shape'') shape_of = Inr s"
    "laid_out show lib raw (offset + np_prod lib s * ITEMSIZE) es rest" by (cases items) auto
  obtain r where r: "entry_nbytes show lib n0 e = Inr r" "fold_exc (entry_nbytes show lib) r es = Inr nb"
    using Cons.prems(1) by (auto split: sum.splits)
  obtain s'' where "bind_exc (subscript e ''shape'') shape_of = Inr s''" "length s'' = 3" "\<forall>v\<in>set s''. 0 \<le> v"
    "r = n0 + np_prod lib s'' * ITEMSIZE" by (rule entry_nbytes_Inr [OF r(1)]) (rule that)
  then have e: "length s = 3" "\<forall>v\<in>set s. 0 \<le> v"
    "fold_exc (entry_nbytes show lib) (n0 + np_prod lib s * ITEMSIZE) es = Inr nb"
    using r(2) items(2) by simp_all
  then show ?case using Cons.IH [OF e(3) items(3)] items(1) by simp
qed

lemma subscript_get: "subscript e k = Inr v \<Longrightarrow> get_of e k = Inr (Some v)"
  by (cases e) (auto split: option.splits)

lemma prod_list_nonneg: "\<forall>v\<in>set s. 0 \<le> v \<Longrightarrow> 0 \<le> prod_list (s :: int list)"
  by (induction s) auto

lemma locate:
  assumes "laid_out show lib raw offset es items" "distinct (map fst items)" "(v, s, a) \<in> set items"
    "\<And>n s a. (n, s, a) \<in> set items \<Longrightarrow> length s = 3 \<and> 0 \<le> np_prod lib s"
    "offset + sum_list (map (\<lambda>(n, s, a). np_prod lib s * ITEMSIZE) items) = int (length raw)" "0 \<le> offset"
  shows "\<exists>start. plane_span_from show lib v offset es = Inr (start, start + np_prod lib s * ITEMSIZE, s) \<and>
    0 \<le> start \<and> start + np_prod lib s * ITEMSIZE \<le> int (length raw) \<and>
    np_frombuffer lib (take (nat (np_prod lib s * ITEMSIZE)) (drop (nat start) raw)) s = Inr a"
  using assms
proof (induction es arbitrary: offset items)
  case Nil
  then show ?case by (cases items) auto
next
  case (Cons e es)
  obtain m s' b rest name where items: "items = (m, s', b) # rest" "subscript e ''name'' = Inr name" "str_of show name = m"
    "bind_exc (subscript e ''shape'') shape_of = Inr s'"
    "np_frombuffer lib (py_slice raw offset (offset + np_prod lib s' * ITEMSIZE)) s' = Inr b"
    "laid_out show lib raw (offset + np_prod lib s' * ITEMSIZE) es rest"
    using Cons.prems(1) by (cases items) auto
  have len: "length s' = 3" "0 \<le> np_prod lib s'" using Cons.prems(4) items(1) by auto
  have "0 \<le> sum_list (map (\<lambda>(n, s, a). np_prod lib s * ITEMSIZE) rest)"
    using Cons.prems(4) items(1) by (intro sum_list_nonneg) (fastforce simp: ITEMSIZE_def)
  then have fits: "offset + np_prod lib s' * ITEMSIZE \<le> int (length raw)" using Cons.prems(5) items(1) by simp
  obtain sv where "subscript e ''shape'' = Inr sv" "shape_of sv = Inr s'" using items(4) by (auto simp: bind_exc_Inr)
  then have span: "plane_span_from show lib v offset (e # es) =
      (if m = v then Inr (offset, offset + np_prod lib s' * ITEMSIZE, s')
       else plane_span_from show lib v (offset + np_prod lib s' * ITEMSIZE) es)"
    using subscript_get [of e] items(2,3) len(1) by (simp add: Let_def)
  show ?case
  proof (cases "m = v")
    case True
    then have "s = s'" "a = b" using Cons.prems(2,3) items(1) by (auto simp: rev_image_eqI)
    then show ?thesis
      using True span items(5) fits len(2) Cons.prems(6) py_slice_eq [of offset "offset + np_prod lib s' * ITEMSIZE" raw]
      by (simp add: ITEMSIZE_def)
  next
    case False
    have "\<exists>start. plane_span_from show lib v (offset + np_prod lib s' * ITEMSIZE) es =
        Inr (start, start + np_prod lib s * ITEMSIZE, s) \<and>
      0 \<le> start \<and> start + np_prod lib s * ITEMSIZE \<le> int (length raw) \<and>
      np_frombuffer lib (take (nat (np_prod lib s * ITEMSIZE)) (drop (nat start) raw)) s = Inr a"
    proof (rule Cons.IH [OF items(6)])
      show "(v, s, a) \<in> set rest" using Cons.prems(3) items(1) False by auto
      show "\<And>n s a. (n, s, a) \<in> set rest \<Longrightarrow> length s = 3 \<and> 0 \<le> np_prod lib s"
        using Cons.prems(4) items(1) by (meson list.set_intros(2))
    qed (use Cons.prems(2,5,6) items(1) len(2) in \<open>simp_all add: ITEMSIZE_def\<close>)
    then show ?thesis unfolding span using False by (simp only: if_False)
  qed
qed

lemma put_items_set:
  "distinct (map fst items) \<Longrightarrow> set (map fst items) \<inter> set (dict_keys acc) = {} \<Longrightarrow>
   put_items items acc = acc @ map (\<lambda>(n, s, a). (n, a)) items"
proof (induction items arbitrary: acc)
  case (Cons x items)
  obtain n s a where x: "x = (n, s, a)" by (metis prod.exhaust)
  have "AList.update n a acc = acc @ [(n, a)]" using Cons.prems(2) x by (intro update_fresh) auto
  then show ?case using Cons.IH [of "acc @ [(n, a)]"] Cons.prems x by auto
qed simp

lemma decode_payloadE:
  assumes "decode_payload show lib manifest payload True (Some ns) = Inr arrays"
  obtains c raw entries nb offset where "map_of manifest ''checksum'' = Some (JStr c)" "c \<noteq> []"
    "verify_payload_checksum lib payload c = Inr ()" "zstd_decompress lib payload = Inr raw"
    "schema_ok manifest = Inr ()" "variable_entries manifest = Inr entries"
    "traverse (\<lambda>e. map_sum id (str_of show) (subscript e ''name'')) entries = Inr ns"
    "expected_nbytes show lib entries = Inr nb" "int (length raw) = nb"
    "fold_exc (unpack_entry show lib raw) (0, []) entries = Inr (offset, arrays)"
proof -
  obtain c raw where c: "map_of manifest ''checksum'' = Some (JStr c)" "c \<noteq> []"
    "verify_payload_checksum lib payload c = Inr ()" "zstd_decompress lib payload = Inr raw"
    and raw: "decode_raw show lib manifest raw (Some ns) = Inr arrays"
    using assms
    by (auto simp: decode_payload_def decompress_payload_def bind_exc_Inr split: if_splits option.splits json.splits sum.splits)
  obtain entries nb offset where
    "schema_ok manifest = Inr ()" "variable_entries manifest = Inr entries"
    "traverse (\<lambda>e. map_sum id (str_of show) (subscript e ''name'')) entries = Inr ns"
    "expected_nbytes show lib entries = Inr nb" "int (length raw) = nb"
    "fold_exc (unpack_entry show lib raw) (0, []) entries = Inr (offset, arrays)"
    using raw by (auto simp: decode_raw_def bind_exc_Inr raising_Inr dest!: map_sum_Inr split: if_splits)
  then show thesis using c that by blast
qed

context patch_library
begin

lemma stream_until_spec:
  assumes "zstd_feed lib fed = Inr buffer" "zstd_decompress lib (concat fed @ concat rest) = Inr raw"
    "stop \<le> int (length raw)"
  shows "\<exists>out. stream_until lib stop fed buffer rest = Inr out \<and> prefix out raw \<and> stop \<le> int (length out)"
  using assms
proof (induction rest arbitrary: fed buffer)
  case Nil
  then show ?case using feed_all [of fed raw] by simp
next
  case (Cons chunk rest)
  have d: "zstd_decompress lib (concat (fed @ [chunk]) @ concat rest) = Inr raw" using Cons.prems(2) by simp
  obtain out where out: "zstd_feed lib (fed @ [chunk]) = Inr out" "prefix out raw" using feed_prefix [OF d] by blast
  show ?case
  proof (cases "stop \<le> int (length out)")
    case True
    then show ?thesis using out by simp
  next
    case False
    then show ?thesis using Cons.IH [OF out(1) d Cons.prems(3)] out(1) by simp
  qed
qed

lemma laid_out_shapes:
  assumes "laid_out show lib raw offset es items" "(n, s, a) \<in> set items"
  shows "np_shape lib a = s"
  using assms
proof (induction items arbitrary: offset es)
  case (Cons x items)
  then show ?case by (cases es; cases x) (auto simp: frombuffer_shape)
qed simp

lemma plane_agrees:
  assumes dec: "decode_payload show lib manifest payload True (Some ns) = Inr arrays"
    and ns: "distinct ns" and small: "\<And>n b. (n, b) \<in> set arrays \<Longrightarrow> prod_list (np_shape lib b) < 2 ^ 63"
    and a: "map_of arrays v = Some a" and k: "0 \<le> k" "k < np_shape lib a ! 0"
  shows "decode_plane show lib manifest payload v k = Inr (plane a k)"
proof -
  obtain c raw entries nb offset where d: "map_of manifest ''checksum'' = Some (JStr c)" "c \<noteq> []"
    "verify_payload_checksum lib payload c = Inr ()" "zstd_decompress lib payload = Inr raw"
    "schema_ok manifest = Inr ()" "variable_entries manifest = Inr entries"
    "traverse (\<lambda>e. map_sum id (str_of show) (subscript e ''name'')) entries = Inr ns"
    "expected_nbytes show lib entries = Inr nb" "int (length raw) = nb"
    "fold_exc (unpack_entry show lib raw) (0, []) entries = Inr (offset, arrays)"
    by (rule decode_payloadE [OF dec])
  obtain items where items: "laid_out show lib raw 0 entries items" "arrays = put_items items []" "ns = map fst items"
    using unpack_laid_out [OF d(10)] d(7) by auto
  have item: "(n, b) \<in> set arrays \<longleftrightarrow> (\<exists>s. (n, s, b) \<in> set items)" for n b
    using put_items_set [of items "[]"] ns items(2,3) by force
  note nb = nbytes_laid_out [OF d(8) [unfolded expected_nbytes_def] items(1)]
  have sizes: "length s = 3 \<and> 0 \<le> np_prod lib s \<and> np_prod lib s = prod_list s" if "(n, s, b) \<in> set items" for n s b
  proof -
    have s: "length s = 3" "\<forall>v\<in>set s. 0 \<le> v" using nb that by auto
    have "prod_list s < 2 ^ 63" using small [of n b] item laid_out_shapes [OF items(1) that] that by auto
    then show ?thesis using s prod_exact [of s] prod_list_nonneg [OF s(2)] by simp
  qed
  obtain s where s: "(v, s, a) \<in> set items" using item a by (meson map_of_SomeD)
  have shape: "np_shape lib a = s" by (rule laid_out_shapes [OF items(1) s])
  obtain start where start: "plane_span_from show lib v 0 entries = Inr (start, start + np_prod lib s * ITEMSIZE, s)"
    "0 \<le> start" "start + np_prod lib s * ITEMSIZE \<le> int (length raw)"
    "np_frombuffer lib (take (nat (np_prod lib s * ITEMSIZE)) (drop (nat start) raw)) s = Inr a"
  proof -
    have "length s = 3 \<and> 0 \<le> np_prod lib s" if "(n, s, b) \<in> set items" for n s b using sizes [OF that] by simp
    then show thesis using locate [OF items(1) _ s] ns items(3) nb d(9) that by auto
  qed
  obtain t r c where trc: "s = [t, r, c]" using sizes [OF s] by (auto simp: length_Suc_conv eval_nat_numeral)
  have dims: "0 \<le> r" "0 \<le> c" "k < t" using nb s trc k(2) shape by auto
  let ?i = "k * r * c * ITEMSIZE" and ?n = "r * c * ITEMSIZE"
  have n: "0 \<le> ?i" "0 \<le> ?n" "?i + ?n \<le> np_prod lib s * ITEMSIZE"
    using plane_bounds [OF k(1) dims(3,1,2)] sizes [OF s] trc by (simp_all add: ITEMSIZE_def mult.assoc mult.commute mult.left_commute)
  obtain out where out: "stream_until lib (start + ?i + ?n) [] [] (chunks_of DECOMPRESS_CHUNK payload) = Inr out"
    "prefix out raw" "start + ?i + ?n \<le> int (length out)"
    using stream_until_spec [OF feed_nil, of "chunks_of DECOMPRESS_CHUNK payload" raw "start + ?i + ?n"]
      concat_chunks_of [of DECOMPRESS_CHUNK payload] d(4) start(3) n(3) by (auto simp: DECOMPRESS_CHUNK_def)
  have "py_slice out (start + ?i) (start + ?i + ?n) =
      take (nat ?n) (drop (nat ?i) (take (nat (np_prod lib s * ITEMSIZE)) (drop (nat start) raw)))"
    by (rule slice_of_block [OF out(2) out(3) start(2) n])
  then have "np_frombuffer lib (py_slice out (start + ?i) (start + ?i + ?n)) [r, c] = Inr (plane a k)"
    using frombuffer_plane [OF start(4) [unfolded trc] k(1) dims(3,1,2)] trc by simp
  then show ?thesis
    using d start(1) out(1,3) trc dims k(1) by (simp add: decode_plane_def plane_span_def Let_def)
qed

end

section \<open>An instance: little-endian words and a stored frame\<close>

unbundle bit_operations_syntax

record f4_array =
  f4_dims :: "int list"
  f4_data :: "32 word list"

definition le_bytes :: "32 word \<Rightarrow> bytes" where
  "le_bytes w = [ucast w, ucast (drop_bit 8 w), ucast (drop_bit 16 w), ucast (drop_bit 24 w)]"

definition le_word :: "8 word \<Rightarrow> 8 word \<Rightarrow> 8 word \<Rightarrow> 8 word \<Rightarrow> 32 word" where
  "le_word a b c d = ucast a OR push_bit 8 (ucast b) OR push_bit 16 (ucast c) OR push_bit 24 (ucast d)"

fun le_words :: "bytes \<Rightarrow> 32 word list" where
  "le_words (a # b # c # d # rest) = le_word a b c d # le_words rest"
| "le_words _ = []"

definition f4_ok :: "f4_array \<Rightarrow> bool" where
  "f4_ok a \<longleftrightarrow> (\<forall>v\<in>set (f4_dims a). 0 \<le> v) \<and> int (length (f4_data a)) = prod_list (f4_dims a)"

definition f4_plane :: "f4_array \<Rightarrow> int \<Rightarrow> f4_array" where
  "f4_plane a k =
     (let r = f4_dims a ! 1; c = f4_dims a ! 2
      in \<lparr>f4_dims = [r, c], f4_data = take (nat (r * c)) (drop (nat (k * r * c)) (f4_data a))\<rparr>)"

definition f4_frombuffer :: "bytes \<Rightarrow> int list \<Rightarrow> py_error + f4_array" where
  "f4_frombuffer b s =
     (if length b mod 4 \<noteq> 0 \<or> (\<exists>v\<in>set s. v < 0) \<or> int (length b) \<noteq> prod_list s * ITEMSIZE
      then Inl (ValueError ''reshape'') else Inr \<lparr>f4_dims = s, f4_data = le_words b\<rparr>)"

definition f4_lib :: "f4_array codec_lib" where
  "f4_lib = \<lparr>np_shape = f4_dims, np_floating = (\<lambda>_. True), np_tobytes = (\<lambda>a. concat (map le_bytes (f4_data a))),
     np_frombuffer = f4_frombuffer, np_prod = (\<lambda>s. sint (word_of_int (prod_list s) :: 64 word)),
     zstd_compress = id, zstd_decompress = Inr, zstd_feed = (\<lambda>cs. Inr (concat cs)), sha256 = (\<lambda>b. map (\<lambda>w. char_of (unat w)) b)\<rparr>"

lemma le_word_bytes: "le_word (ucast w) (ucast (drop_bit 8 w)) (ucast (drop_bit 16 w)) (ucast (drop_bit 24 w)) = w"
proof (rule bit_word_eqI)
  fix n :: nat
  assume "n < LENGTH(32)"
  then consider "n < 8" | "8 \<le> n" "n < 16" | "16 \<le> n" "n < 24" | "24 \<le> n" "n < 32" by fastforce
  then show "bit (le_word (ucast w) (ucast (drop_bit 8 w)) (ucast (drop_bit 16 w)) (ucast (drop_bit 24 w))) n = bit w n"
    by cases (auto simp: le_word_def bit_simps)
qed

lemma le_words_bytes: "le_words (concat (map le_bytes ws)) = ws"
  by (induction ws) (simp_all add: le_bytes_def le_word_bytes)

lemma length_le_bytes: "length (concat (map le_bytes ws)) = 4 * length ws"
  by (induction ws) (simp_all add: le_bytes_def)

lemma four_times_Suc: "4 * Suc m = Suc (Suc (Suc (Suc (4 * m))))"
  by simp

lemma le_words_short: "length b < 4 \<Longrightarrow> le_words b = []"
  by (cases b rule: le_words.cases) auto

lemma four_bytes:
  assumes "\<not> length b < 4"
  obtains v w x y rest where "b = v # w # x # y # (rest :: bytes)"
  using assms by (cases b rule: le_words.cases) auto

lemma le_words_drop_take:
  "le_words (drop (4 * m) b) = drop m (le_words b) \<and> le_words (take (4 * m) b) = take m (le_words b)"
proof (induction m arbitrary: b)
  case (Suc m)
  show ?case
  proof (cases "length b < 4")
    case True
    then show ?thesis by (simp add: le_words_short)
  next
    case False
    then obtain v w x y rest where "b = v # w # x # y # rest" by (rule four_bytes)
    then show ?thesis using Suc [of rest] unfolding four_times_Suc by simp
  qed
qed simp

lemmas le_words_drop = le_words_drop_take [THEN conjunct1] and le_words_take = le_words_drop_take [THEN conjunct2]

lemma sint_exact: "0 \<le> p \<Longrightarrow> p < 2 ^ 63 \<Longrightarrow> sint (word_of_int p :: 64 word) = p"
  by (simp add: sint_sbintrunc' signed_take_bit_int_eq_self)

interpretation f4_codec: patch_library f4_lib f4_ok f4_plane
proof
  fix b :: bytes and t r c k :: int and a :: f4_array
  assume a: "np_frombuffer f4_lib b [t, r, c] = Inr a" and k: "0 \<le> k" "k < t" and rc: "0 \<le> r" "0 \<le> c"
  have len: "int (length b) = t * (r * c) * 4" and data: "a = \<lparr>f4_dims = [t, r, c], f4_data = le_words b\<rparr>"
    using a by (auto simp: f4_lib_def f4_frombuffer_def ITEMSIZE_def split: if_splits)
  have bounds: "0 \<le> k * (r * c)" "0 \<le> r * c" "k * (r * c) + r * c \<le> t * (r * c)"
    using plane_bounds [OF k rc] by auto
  have n: "nat (r * c * 4) = 4 * nat (r * c)" "nat (k * r * c * 4) = 4 * nat (k * (r * c))"
    using bounds by (simp_all add: nat_mult_distrib mult.assoc)
  have "length (take (nat (r * c * 4)) (drop (nat (k * r * c * 4)) b)) = 4 * nat (r * c)"
    using len bounds unfolding n by simp
  then show "np_frombuffer f4_lib (take (nat (r * c * ITEMSIZE)) (drop (nat (k * r * c * ITEMSIZE)) b)) [r, c] = Inr (f4_plane a k)"
    using rc bounds data n by (simp add: f4_lib_def f4_frombuffer_def f4_plane_def ITEMSIZE_def le_words_take le_words_drop mult.assoc)
qed (auto simp: f4_lib_def f4_ok_def f4_frombuffer_def ITEMSIZE_def length_le_bytes le_words_bytes
    intro: sint_exact [simplified] prod_list_nonneg split: if_splits)

section \<open>Decoding what was encoded\<close>


definition demo_arrays :: "f4_array dict" where
  "demo_arrays = [(''tmrt'', \<lparr>f4_dims = [2, 1, 2], f4_data = [1, 2, 3, 4]\<rparr>),
                  (''utci'', \<lparr>f4_dims = [2, 1, 2], f4_data = [5, 6, 7, 8]\<rparr>)]"

definition demo_payload :: bytes where
  "demo_payload = concat (map le_bytes [5, 6, 7, 8, 1, 2, 3, 4])"

definition demo_manifest :: manifest_fields where
  "demo_manifest =
     \<lparr>mf_scenario_id = ''s'', mf_scene_version = 1,
      mf_window = \<lparr>rw_row_start = 4, rw_row_stop = 5, rw_col_start = 0, rw_col_stop = 2\<rparr>, mf_time_indices = [0, 1],
      mf_variables = map (meta_of f4_lib demo_arrays) [''utci'', ''tmrt''], mf_payload_url = ''/p'',
      mf_checksum = checksum_payload f4_lib demo_payload, mf_model_version = ''m'', mf_site_cache_version = ''c'',
      mf_site_id = None, mf_exact = True, mf_metrics = [], mf_limitations = [], mf_statistics = []\<rparr>"

lemma demo_encoded:
  "encode_payload f4_lib demo_arrays [''utci'', ''tmrt''] = Inr (mf_variables demo_manifest, demo_payload, mf_checksum demo_manifest)"
  by (simp add: encode_payload_def SUPPORTED_VARIABLES_def make_variable_meta_def demo_arrays_def demo_manifest_def
      meta_of_def uncompressed_bytes_def array_bytes_def f4_lib_def demo_payload_def Let_def)

lemma demo_encodable: "encodable f4_lib f4_ok demo_arrays [''utci'', ''tmrt'']"
  by (simp add: encodable_def f4_lib_def f4_ok_def demo_arrays_def)

lemma demo_decoded:
  "map (\<lambda>n. (n, the (map_of demo_arrays n))) [''utci'', ''tmrt''] =
     [(''utci'', \<lparr>f4_dims = [2, 1, 2], f4_data = [5, 6, 7, 8]\<rparr>), (''tmrt'', \<lparr>f4_dims = [2, 1, 2], f4_data = [1, 2, 3, 4]\<rparr>)]"
  by (simp add: demo_arrays_def)


text \<open>The single-plane decoder agrees with the full one. Whenever the full decode of a payload
  succeeds on distinct variables whose sizes fit 64 bits, asking for one time step of one variable streams
  only a prefix of the payload and returns exactly that plane of the fully decoded array.\<close>

lemma decode_plane_agrees:
  assumes "patch_library lib is_f4 plane"
    and "decode_payload show lib manifest payload True (Some ns) = Inr arrays" "distinct ns"
    and "\<And>n b. (n, b) \<in> set arrays \<Longrightarrow> prod_list (np_shape lib b) < 2 ^ 63"
    and "map_of arrays v = Some a" "0 \<le> k" "k < np_shape lib a ! 0"
  shows "decode_plane show lib manifest payload v k = Inr (plane a k)"
  by (rule patch_library.plane_agrees [OF assms])

lemma demo_decode:
  "decode_payload (\<lambda>_. []) f4_lib (build_manifest demo_manifest) demo_payload True (Some [''utci'', ''tmrt'']) =
     Inr (map (\<lambda>n. (n, the (map_of demo_arrays n))) [''utci'', ''tmrt''])"
  by (rule f4_codec.roundtrip [OF demo_encoded])
    (auto simp: f4_lib_def demo_arrays_def demo_manifest_def encodable_def f4_ok_def)

lemma decode_plane_agrees_witness:
  "decode_plane (\<lambda>_. []) f4_lib (build_manifest demo_manifest) demo_payload ''tmrt'' 1 =
     Inr \<lparr>f4_dims = [1, 2], f4_data = [3, 4]\<rparr>"
proof -
  have "decode_plane (\<lambda>_. []) f4_lib (build_manifest demo_manifest) demo_payload ''tmrt'' 1 =
      Inr (f4_plane \<lparr>f4_dims = [2, 1, 2], f4_data = [1, 2, 3, 4]\<rparr> 1)"
    by (rule decode_plane_agrees [OF f4_codec.patch_library_axioms demo_decode])
      (auto simp: f4_lib_def demo_arrays_def)
  then show ?thesis by (simp add: f4_plane_def)
qed

end
