(* ===== verification/Influence.thy ===== *)
theory Influence
  imports Raster_Windows
begin

text \<open>
  The world-space part of \<open>incremental/geometry.py\<close> (sun positions, trees, the raster grid, influence
  bounds, dirty windows, the local-relief search, the recompute mode) and the terrain methods of
  \<open>incremental/worker.py\<close> that supply it with the site's elevations.

  A Python float entering a constructor is a \<open>pyfloat\<close>, finite or not; past the constructors numbers
  are exact reals, so rounding is not modelled and later finiteness tests hold. A 2-D elevation array
  of a grid is a function of row and column.
\<close>

section \<open>Checked data\<close>

datatype pyfloat = Fin real | Nonfinite

definition finite_float :: "string \<Rightarrow> pyfloat \<Rightarrow> py_error + real" where
  "finite_float field v = (case v of Fin x \<Rightarrow> Inr x | Nonfinite \<Rightarrow> Inl (ValueError (field @ '' must be finite'')))"

record sun_position =
  sp_altitude_deg :: real
  sp_azimuth_deg :: real

definition mk_sun_position :: "pyfloat \<Rightarrow> pyfloat \<Rightarrow> py_error + sun_position" where
  "mk_sun_position alt az =
     bind_exc (finite_float ''altitude_deg'' alt) (\<lambda>a.
     bind_exc (finite_float ''azimuth_deg'' az) (\<lambda>z. Inr \<lparr>sp_altitude_deg = a, sp_azimuth_deg = z\<rparr>))"

record tree_spec =
  ts_tree_id :: string
  ts_x_m :: real
  ts_y_m :: real
  ts_height_m :: real
  ts_canopy_radius_m :: real
  ts_trunk_ratio :: real
  ts_transmissivity :: real

definition mk_tree_spec ::
  "string \<Rightarrow> pyfloat \<Rightarrow> pyfloat \<Rightarrow> pyfloat \<Rightarrow> pyfloat \<Rightarrow> pyfloat \<Rightarrow> pyfloat \<Rightarrow> py_error + tree_spec" where
  "mk_tree_spec tree_id x y h r trunk tau =
     (if tree_id = [] then Inl (ValueError ''tree_id must be non-empty'')
      else bind_exc (finite_float ''x_m'' x) (\<lambda>x. bind_exc (finite_float ''y_m'' y) (\<lambda>y.
           bind_exc (finite_float ''height_m'' h) (\<lambda>h. bind_exc (finite_float ''canopy_radius_m'' r) (\<lambda>r.
           bind_exc (finite_float ''trunk_ratio'' trunk) (\<lambda>trunk. bind_exc (finite_float ''transmissivity'' tau) (\<lambda>tau.
             if h \<le> 0 then Inl (ValueError ''height_m must be positive'')
             else if r \<le> 0 then Inl (ValueError ''canopy_radius_m must be positive'')
             else if \<not> (0 \<le> trunk \<and> trunk \<le> 1) then Inl (ValueError ''trunk_ratio must be in [0, 1]'')
             else if \<not> (0 \<le> tau \<and> tau \<le> 1) then Inl (ValueError ''transmissivity must be in [0, 1]'')
             else Inr \<lparr>ts_tree_id = tree_id, ts_x_m = x, ts_y_m = y, ts_height_m = h, ts_canopy_radius_m = r,
                       ts_trunk_ratio = trunk, ts_transmissivity = tau\<rparr>)))))))"

record raster_grid =
  rg_rows :: int
  rg_cols :: int
  rg_pixel_size_m :: real
  rg_origin_x_m :: real
  rg_origin_y_m :: real

definition mk_raster_grid :: "int \<Rightarrow> int \<Rightarrow> pyfloat \<Rightarrow> pyfloat \<Rightarrow> pyfloat \<Rightarrow> py_error + raster_grid" where
  "mk_raster_grid rows cols pixel ox oy =
     (if rows \<le> 0 \<or> cols \<le> 0 then Inl (ValueError ''rows and cols must be positive'')
      else bind_exc (finite_float ''pixel_size_m'' pixel) (\<lambda>pixel. bind_exc (finite_float ''origin_x_m'' ox) (\<lambda>ox.
           bind_exc (finite_float ''origin_y_m'' oy) (\<lambda>oy.
             if pixel \<le> 0 then Inl (ValueError ''pixel_size_m must be positive'')
             else Inr \<lparr>rg_rows = rows, rg_cols = cols, rg_pixel_size_m = pixel, rg_origin_x_m = ox, rg_origin_y_m = oy\<rparr>))))"

definition full_window :: "raster_grid \<Rightarrow> raster_window" where
  "full_window g = \<lparr>rw_row_start = 0, rw_row_stop = rg_rows g, rw_col_start = 0, rw_col_stop = rg_cols g\<rparr>"

definition area_pixels :: "raster_grid \<Rightarrow> int" where
  "area_pixels g = rg_rows g * rg_cols g"

type_synonym bounds = "real \<times> real \<times> real \<times> real"

definition world_bounds_to_window :: "raster_grid \<Rightarrow> bounds \<Rightarrow> py_error + raster_window" where
  "world_bounds_to_window g b =
     (case b of (min_x, min_y, max_x, max_y) \<Rightarrow>
        if max_x < min_x \<or> max_y < min_y
        then Inl (ValueError ''maximum bounds must not be smaller than minimum bounds'')
        else bind_exc (mk_window
                 \<lfloor>(rg_origin_y_m g - max_y) / rg_pixel_size_m g\<rfloor> \<lceil>(rg_origin_y_m g - min_y) / rg_pixel_size_m g\<rceil>
                 \<lfloor>(min_x - rg_origin_x_m g) / rg_pixel_size_m g\<rfloor> \<lceil>(max_x - rg_origin_x_m g) / rg_pixel_size_m g\<rceil>)
               (\<lambda>w. rw_clamp w (rg_rows g) (rg_cols g)))"

record influence_config =
  ic_lowest_sky_patch_altitude_deg :: real
  ic_minimum_direct_sun_altitude_deg :: real
  ic_maximum_shadow_length_m :: real
  ic_safety_margin_m :: real
  ic_block_size_pixels :: int
  ic_full_recompute_fraction :: real
  ic_elevation_offset_m :: real

definition default_influence_config :: influence_config where
  "default_influence_config =
     \<lparr>ic_lowest_sky_patch_altitude_deg = 6, ic_minimum_direct_sun_altitude_deg = 5, ic_maximum_shadow_length_m = 300,
      ic_safety_margin_m = 6, ic_block_size_pixels = 16, ic_full_recompute_fraction = 3 / 10, ic_elevation_offset_m = 0\<rparr>"

text \<open>\<open>__post_init__\<close>, on a configuration whose floats are finite.\<close>

definition check_influence_config :: "influence_config \<Rightarrow> py_error + influence_config" where
  "check_influence_config c =
     (if ic_elevation_offset_m c < 0 then Inl (ValueError ''elevation_offset_m must be non-negative'')
      else if \<not> (0 < ic_lowest_sky_patch_altitude_deg c \<and> ic_lowest_sky_patch_altitude_deg c < 90)
      then Inl (ValueError ''lowest_sky_patch_altitude_deg must be in (0, 90)'')
      else if \<not> (0 < ic_minimum_direct_sun_altitude_deg c \<and> ic_minimum_direct_sun_altitude_deg c < 90)
      then Inl (ValueError ''minimum_direct_sun_altitude_deg must be in (0, 90)'')
      else if ic_maximum_shadow_length_m c \<le> 0 then Inl (ValueError ''maximum_shadow_length_m must be positive'')
      else if ic_safety_margin_m c < 0 then Inl (ValueError ''safety_margin_m must be non-negative'')
      else if ic_block_size_pixels c \<le> 0 then Inl (ValueError ''block_size_pixels must be positive'')
      else if \<not> (0 < ic_full_recompute_fraction c \<and> ic_full_recompute_fraction c \<le> 1)
      then Inl (ValueError ''full_recompute_fraction must be in (0, 1]'')
      else Inr c)"

datatype recompute_mode = LOCAL | FULL

section \<open>The local-relief search\<close>

fun relief_loop ::
  "real \<Rightarrow> (real \<Rightarrow> py_error + 'w) \<Rightarrow> ('w \<Rightarrow> py_error + real) \<Rightarrow> nat \<Rightarrow> real \<Rightarrow> 'w \<Rightarrow> py_error + real option" where
  "relief_loop base bounds_for_offset region_minimum 0 offset window = Inr None"
| "relief_loop base bounds_for_offset region_minimum (Suc n) offset window =
     bind_exc (region_minimum window) (\<lambda>minimum.
       let candidate = max 0 (base - minimum)
       in if candidate \<le> offset then Inr (Some offset)
          else bind_exc (bounds_for_offset candidate) (relief_loop base bounds_for_offset region_minimum n candidate))"

definition local_elevation_offset_m ::
  "pyfloat \<Rightarrow> (real \<Rightarrow> py_error + 'w) \<Rightarrow> ('w \<Rightarrow> py_error + real) \<Rightarrow> int \<Rightarrow> py_error + real option" where
  "local_elevation_offset_m base bounds_for_offset region_minimum max_iterations =
     bind_exc (finite_float ''base_elevation_m'' base) (\<lambda>base.
       if max_iterations < 1 then Inl (ValueError ''max_iterations must be >= 1'')
       else bind_exc (bounds_for_offset 0) (relief_loop base bounds_for_offset region_minimum (nat max_iterations) 0))"

section \<open>Influence bounds\<close>

definition radians :: "real \<Rightarrow> real" where
  "radians d = d * pi / 180"

text \<open>Python's float remainder by a positive modulus.\<close>

definition py_fmod :: "real \<Rightarrow> real \<Rightarrow> real" where
  "py_fmod a m = a - m * of_int \<lfloor>a / m\<rfloor>"

definition estimate_svf_radius_m :: "real \<Rightarrow> real \<Rightarrow> real option \<Rightarrow> py_error + real" where
  "estimate_svf_radius_m height alt maximum =
     (if height \<le> 0 then Inl (ValueError ''tree_height_m must be finite and positive'')
      else if \<not> (0 < alt \<and> alt < 90) then Inl (ValueError ''lowest_patch_altitude_deg must be in (0, 90)'')
      else if (case maximum of Some m \<Rightarrow> m \<le> 0 | None \<Rightarrow> False)
      then Inl (ValueError ''maximum_radius_m must be finite and positive'')
      else let radius = height / tan (radians alt) in
           Inr (case maximum of Some m \<Rightarrow> min radius m | None \<Rightarrow> radius))"

definition shadow_vector_m :: "real \<Rightarrow> sun_position \<Rightarrow> real \<Rightarrow> real \<Rightarrow> py_error + real \<times> real" where
  "shadow_vector_m height sun minimum_altitude maximum_length =
     (if height \<le> 0 then Inl (ValueError ''tree_height_m must be finite and positive'')
      else if \<not> (0 < minimum_altitude \<and> minimum_altitude < 90) then Inl (ValueError ''minimum_altitude_deg must be in (0, 90)'')
      else if maximum_length \<le> 0 then Inl (ValueError ''maximum_length_m must be finite and positive'')
      else let altitude = min (max (sp_altitude_deg sun) minimum_altitude) (89999 / 1000);
               len = min (height / tan (radians altitude)) maximum_length;
               azimuth = radians (py_fmod (sp_azimuth_deg sun) 360)
           in Inr (- len * sin azimuth, - len * cos azimuth))"

definition widen_by_shadow ::
  "tree_spec \<Rightarrow> real \<Rightarrow> influence_config \<Rightarrow> bounds \<Rightarrow> sun_position \<Rightarrow> py_error + bounds" where
  "widen_by_shadow tree height cfg b sun =
     (case b of (min_x, min_y, max_x, max_y) \<Rightarrow>
        bind_exc (shadow_vector_m height sun (ic_minimum_direct_sun_altitude_deg cfg) (ic_maximum_shadow_length_m cfg)) (\<lambda>(dx, dy).
          let corridor = ts_canopy_radius_m tree + ic_safety_margin_m cfg;
              end_x = ts_x_m tree + dx; end_y = ts_y_m tree + dy
          in Inr (min min_x (min (ts_x_m tree - corridor) (end_x - corridor)),
                  min min_y (min (ts_y_m tree - corridor) (end_y - corridor)),
                  max max_x (max (ts_x_m tree + corridor) (end_x + corridor)),
                  max max_y (max (ts_y_m tree + corridor) (end_y + corridor)))))"

definition tree_influence_bounds_m ::
  "tree_spec \<Rightarrow> sun_position list \<Rightarrow> influence_config \<Rightarrow> real option \<Rightarrow> py_error + bounds" where
  "tree_influence_bounds_m tree suns cfg elevation_offset =
     (let height = ts_height_m tree + (case elevation_offset of None \<Rightarrow> ic_elevation_offset_m cfg | Some e \<Rightarrow> e)
      in bind_exc (estimate_svf_radius_m height (ic_lowest_sky_patch_altitude_deg cfg) (Some (ic_maximum_shadow_length_m cfg))) (\<lambda>svf.
           let radius = max (ts_canopy_radius_m tree) svf + ic_safety_margin_m cfg
           in fold_exc (widen_by_shadow tree height cfg)
                (ts_x_m tree - radius, ts_y_m tree - radius, ts_x_m tree + radius, ts_y_m tree + radius) suns))"

section \<open>Dirty windows\<close>

definition join_bounds :: "bounds \<Rightarrow> bounds \<Rightarrow> bounds" where
  "join_bounds a b =
     (case (a, b) of ((ax0, ay0, ax1, ay1), (bx0, by0, bx1, by1)) \<Rightarrow> (min ax0 bx0, min ay0 by0, max ax1 bx1, max ay1 by1))"

definition dirty_window_for_edit ::
  "raster_grid \<Rightarrow> tree_spec option \<Rightarrow> tree_spec option \<Rightarrow> sun_position list \<Rightarrow> influence_config \<Rightarrow>
   (tree_spec \<Rightarrow> real) option \<Rightarrow> py_error + raster_window" where
  "dirty_window_for_edit grid old_tree new_tree suns cfg elevation_offset_for_tree =
     (let bounds_of = (\<lambda>t. tree_influence_bounds_m t suns cfg (map_option (\<lambda>f. f t) elevation_offset_for_tree))
      in bind_exc (traverse bounds_of (case old_tree of None \<Rightarrow> [] | Some t \<Rightarrow> [t])) (\<lambda>olds.
         bind_exc (traverse bounds_of (case new_tree of None \<Rightarrow> [] | Some t \<Rightarrow> [t])) (\<lambda>news.
           case olds @ news of
             [] \<Rightarrow> Inl (ValueError ''at least one of old_tree or new_tree must be provided'')
           | b # bs \<Rightarrow>
               bind_exc (world_bounds_to_window grid (fold (\<lambda>b acc. join_bounds acc b) bs b)) (\<lambda>w.
               bind_exc (rw_align w (ic_block_size_pixels cfg)) (\<lambda>w.
                 rw_clamp w (rg_rows grid) (rg_cols grid))))))"

definition window_fraction :: "raster_window \<Rightarrow> raster_grid \<Rightarrow> real" where
  "window_fraction w g = of_int (rw_area w) / of_int (area_pixels g)"

definition choose_recompute_mode :: "raster_window \<Rightarrow> raster_grid \<Rightarrow> pyfloat \<Rightarrow> py_error + recompute_mode" where
  "choose_recompute_mode w g fraction =
     bind_exc (finite_float ''full_recompute_fraction'' fraction) (\<lambda>f.
       if \<not> (0 < f \<and> f \<le> 1) then Inl (ValueError ''full_recompute_fraction must be in (0, 1]'')
       else Inr (if f \<le> window_fraction w g then FULL else LOCAL))"

section \<open>Terrain around a tree\<close>

type_synonym raster = "int \<Rightarrow> int \<Rightarrow> real"

definition tree_cell :: "raster_grid \<Rightarrow> tree_spec \<Rightarrow> (int \<times> int) option" where
  "tree_cell g tree =
     (let col = \<lfloor>(ts_x_m tree - rg_origin_x_m g) / rg_pixel_size_m g\<rfloor>;
          row = \<lfloor>(rg_origin_y_m g - ts_y_m tree) / rg_pixel_size_m g\<rfloor>
      in if 0 \<le> row \<and> row < rg_rows g \<and> 0 \<le> col \<and> col < rg_cols g then Some (row, col) else None)"

definition window_values :: "raster \<Rightarrow> raster_window \<Rightarrow> real list" where
  "window_values a w =
     concat (map (\<lambda>r. map (a r) [rw_col_start w .. rw_col_stop w - 1]) [rw_row_start w .. rw_row_stop w - 1])"

text \<open>\<open>array.min()\<close> and \<open>array.max()\<close>, which raise on an empty slice.\<close>

definition array_min :: "'v::linorder list \<Rightarrow> py_error + 'v" where
  "array_min xs = (case xs of [] \<Rightarrow> Inl (ValueError ''zero-size array'') | x # xs \<Rightarrow> Inr (fold min xs x))"

definition array_max :: "'v::linorder list \<Rightarrow> py_error + 'v" where
  "array_max xs = (case xs of [] \<Rightarrow> Inl (ValueError ''zero-size array'') | x # xs \<Rightarrow> Inr (fold max xs x))"

definition offset_window ::
  "raster_grid \<Rightarrow> sun_position list \<Rightarrow> influence_config \<Rightarrow> tree_spec \<Rightarrow> real \<Rightarrow> py_error + raster_window" where
  "offset_window g suns cfg tree offset =
     bind_exc (check_influence_config (cfg\<lparr>ic_elevation_offset_m := offset\<rparr>)) (\<lambda>cfg.
     bind_exc (tree_influence_bounds_m tree suns cfg None) (world_bounds_to_window g))"

definition influence_elevation_offset ::
  "raster_grid \<Rightarrow> raster \<Rightarrow> sun_position list \<Rightarrow> tree_spec \<Rightarrow> influence_config \<Rightarrow> py_error + real" where
  "influence_elevation_offset g a suns tree cfg =
     (case tree_cell g tree of
        None \<Rightarrow> Inr (ic_elevation_offset_m cfg)
      | Some (row, col) \<Rightarrow>
          bind_exc (array_min (window_values a (full_window g))) (\<lambda>lowest.
          let base = a row col; global_offset = max 0 (base - lowest)
          in if global_offset = 0 then Inr 0
             else bind_exc (local_elevation_offset_m (Fin base) (offset_window g suns cfg tree)
                        (\<lambda>w. array_min (window_values a w)) 3) (\<lambda>offset.
                    Inr (case offset of None \<Rightarrow> global_offset | Some e \<Rightarrow> e))))"

section \<open>The exact per-cell backstop\<close>

definition minimum_positive_sun_altitude_deg :: "sun_position list \<Rightarrow> real option" where
  "minimum_positive_sun_altitude_deg suns =
     (case filter (\<lambda>v. 0 < v) (map sp_altitude_deg suns) of [] \<Rightarrow> None | v # vs \<Rightarrow> Some (fold min vs v))"

definition site_influence_config ::
  "raster_grid \<Rightarrow> raster \<Rightarrow> raster \<Rightarrow> raster \<Rightarrow> sun_position list \<Rightarrow> influence_config \<Rightarrow> py_error + influence_config" where
  "site_influence_config g a dem canopy suns cfg =
     bind_exc (array_max (window_values a (full_window g))) (\<lambda>amax.
     bind_exc (array_max (window_values (\<lambda>r c. (if canopy r c < 0 then 0 else canopy r c) + dem r c) (full_window g))) (\<lambda>cmax.
     let amaxvalue = max amax cmax;
         sun_floor = (case minimum_positive_sun_altitude_deg suns of
                        None \<Rightarrow> ic_minimum_direct_sun_altitude_deg cfg | Some v \<Rightarrow> v);
         shadow_bound = amaxvalue / tan (radians sun_floor);
         svf_bound = amaxvalue / tan (radians (ic_lowest_sky_patch_altitude_deg cfg))
     in check_influence_config
          (cfg\<lparr>ic_minimum_direct_sun_altitude_deg := sun_floor,
               ic_maximum_shadow_length_m := max (max (ic_maximum_shadow_length_m cfg) shadow_bound) svf_bound\<rparr>)))"

text \<open>Chebyshev distance of a cell from the tree's cell, in metres, and the cells a tree marks.\<close>

definition cheb_m :: "raster_grid \<Rightarrow> int \<times> int \<Rightarrow> int \<Rightarrow> int \<Rightarrow> real" where
  "cheb_m g cell r c = of_int (max \<bar>r - fst cell\<bar> \<bar>c - snd cell\<bar>) * rg_pixel_size_m g"

definition crown_base :: "raster_grid \<Rightarrow> raster \<Rightarrow> influence_config \<Rightarrow> tree_spec \<Rightarrow> int \<times> int \<Rightarrow> py_error + real" where
  "crown_base g a cfg tree cell =
     (let reach_px = \<lceil>(ts_canopy_radius_m tree + ic_safety_margin_m cfg) / rg_pixel_size_m g\<rceil>
      in array_max (window_values a
           \<lparr>rw_row_start = max 0 (fst cell - reach_px), rw_row_stop = min (rg_rows g) (fst cell + reach_px + 1),
            rw_col_start = max 0 (snd cell - reach_px), rw_col_stop = min (rg_cols g) (snd cell + reach_px + 1)\<rparr>))"

definition tree_marks ::
  "raster_grid \<Rightarrow> raster \<Rightarrow> influence_config \<Rightarrow> real \<Rightarrow> tree_spec \<Rightarrow> int \<times> int \<Rightarrow> real \<Rightarrow> int \<times> int \<Rightarrow> bool" where
  "tree_marks g a cfg tan_min tree cell base p \<longleftrightarrow>
     cheb_m g cell (fst p) (snd p) * tan_min - 1 / 100 < base + ts_height_m tree - a (fst p) (snd p) \<or>
     cheb_m g cell (fst p) (snd p) \<le> ts_canopy_radius_m tree + ic_safety_margin_m cfg"

definition grid_cells :: "raster_grid \<Rightarrow> (int \<times> int) list" where
  "grid_cells g = concat (map (\<lambda>r. map (Pair r) [0 .. rg_cols g - 1]) [0 .. rg_rows g - 1])"

fun marked_cells ::
  "raster_grid \<Rightarrow> raster \<Rightarrow> influence_config \<Rightarrow> real \<Rightarrow> tree_spec list \<Rightarrow> py_error + (int \<times> int) list option" where
  "marked_cells g a cfg tan_min [] = Inr None"
| "marked_cells g a cfg tan_min (tree # trees) =
     (case tree_cell g tree of
        None \<Rightarrow> marked_cells g a cfg tan_min trees
      | Some cell \<Rightarrow>
          bind_exc (crown_base g a cfg tree cell) (\<lambda>base.
          map_sum id (\<lambda>others. Some (filter (tree_marks g a cfg tan_min tree cell base) (grid_cells g) @
                                   (case others of None \<Rightarrow> [] | Some ps \<Rightarrow> ps)))
            (marked_cells g a cfg tan_min trees)))"

definition exact_influence_window ::
  "raster_grid \<Rightarrow> raster \<Rightarrow> sun_position list \<Rightarrow> tree_spec list \<Rightarrow> influence_config \<Rightarrow> py_error + raster_window option" where
  "exact_influence_window g a suns trees cfg =
     (let floor_alt = (case minimum_positive_sun_altitude_deg suns of
                         None \<Rightarrow> ic_lowest_sky_patch_altitude_deg cfg
                       | Some v \<Rightarrow> min (ic_lowest_sky_patch_altitude_deg cfg) v)
      in bind_exc (marked_cells g a cfg (tan (radians floor_alt)) trees) (\<lambda>marked.
         case marked of
           None \<Rightarrow> Inr None
         | Some ps \<Rightarrow>
             bind_exc (array_min (map fst ps)) (\<lambda>r0. bind_exc (array_max (map fst ps)) (\<lambda>r1.
             bind_exc (array_min (map snd ps)) (\<lambda>c0. bind_exc (array_max (map snd ps)) (\<lambda>c1.
             bind_exc (mk_window r0 (r1 + 1) c0 (c1 + 1)) (\<lambda>w.
             bind_exc (rw_align w (ic_block_size_pixels cfg)) (\<lambda>w.
               map_sum id Some (rw_clamp w (rg_rows g) (rg_cols g))))))))))"

end
