(* ===== verification/Tree_Edits.thy ===== *)
theory Tree_Edits
  imports Influence
begin

text \<open>
  Tree edits and their coalescing, \<open>incremental/edits.py\<close>, and the windowing of a worker job from
  \<open>incremental/worker.py\<close>: pending batch, per-tree relief offsets, dirty windows, write windows and the
  recompute mode.
\<close>

section \<open>Edits\<close>

datatype edit_operation = ADD | MOVE | UPDATE | DELETE

record TreeEdit =
  te_scenario_id :: string
  te_sequence :: int
  te_tree_id :: string
  te_old_tree :: "tree_spec option"
  te_new_tree :: "tree_spec option"

definition check_tree_edit :: "TreeEdit \<Rightarrow> py_error + TreeEdit" where
  "check_tree_edit e =
     (if te_scenario_id e = [] then Inl (ValueError ''scenario_id must be non-empty'')
      else if te_sequence e < 0 then Inl (ValueError ''sequence must be non-negative'')
      else if te_tree_id e = [] then Inl (ValueError ''tree_id must be non-empty'')
      else if te_old_tree e = None \<and> te_new_tree e = None then Inl (ValueError ''an edit must contain an old or new tree'')
      else if (\<exists>t \<in> set_option (te_old_tree e) \<union> set_option (te_new_tree e). ts_tree_id t \<noteq> te_tree_id e)
      then Inl (ValueError ''tree_id must match old_tree and new_tree'')
      else Inr e)"

definition edit_operation_of :: "TreeEdit \<Rightarrow> edit_operation" where
  "edit_operation_of e =
     (case te_old_tree e of
        None \<Rightarrow> ADD
      | Some old \<Rightarrow>
          (case te_new_tree e of
             None \<Rightarrow> DELETE
           | Some new \<Rightarrow> if (ts_x_m old, ts_y_m old) \<noteq> (ts_x_m new, ts_y_m new) then MOVE else UPDATE))"

record edit_batch =
  eb_scenario_id :: string
  eb_first_sequence :: int
  eb_last_sequence :: int
  eb_edits :: "TreeEdit list"

type_synonym chain = "tree_spec option \<times> tree_spec option \<times> int \<times> int"

definition chain_step :: "chain dict \<Rightarrow> TreeEdit \<Rightarrow> py_error + chain dict" where
  "chain_step by_tree e =
     (case map_of by_tree (te_tree_id e) of
        None \<Rightarrow> Inr (AList.update (te_tree_id e) (te_old_tree e, te_new_tree e, te_sequence e, te_sequence e) by_tree)
      | Some (first_old, previous_new, first_sequence, _) \<Rightarrow>
          if te_old_tree e \<noteq> previous_new then Inl (ValueError ''non-contiguous edit chain'')
          else Inr (AList.update (te_tree_id e) (first_old, te_new_tree e, first_sequence, te_sequence e) by_tree))"

definition chain_edit :: "string \<Rightarrow> string \<times> chain \<Rightarrow> TreeEdit" where
  "chain_edit scenario kv =
     (case kv of (tree_id, first_old, last_new, _, last_sequence) \<Rightarrow>
        \<lparr>te_scenario_id = scenario, te_sequence = last_sequence, te_tree_id = tree_id,
         te_old_tree = first_old, te_new_tree = last_new\<rparr>)"

definition coalesce_tree_edits :: "TreeEdit list \<Rightarrow> py_error + edit_batch" where
  "coalesce_tree_edits edits =
     (let ordered = sort_key te_sequence edits in
      case ordered of
        [] \<Rightarrow> Inl (ValueError ''edits must be non-empty'')
      | e0 # _ \<Rightarrow>
          if \<exists>e\<in>set ordered. te_scenario_id e \<noteq> te_scenario_id e0
          then Inl (ValueError ''all edits in a batch must target the same scenario'')
          else if \<not> distinct (map te_sequence ordered)
          then Inl (ValueError ''edit sequences must be unique within a batch'')
          else bind_exc (fold_exc chain_step [] ordered) (\<lambda>by_tree.
               bind_exc (traverse check_tree_edit
                   (map (chain_edit (te_scenario_id e0)) (filter (\<lambda>(_, old, new, _). old \<noteq> new) by_tree))) (\<lambda>coalesced.
                 Inr \<lparr>eb_scenario_id = te_scenario_id e0, eb_first_sequence = te_sequence e0,
                      eb_last_sequence = te_sequence (last ordered), eb_edits = sort_key te_sequence coalesced\<rparr>)))"

definition dirty_windows_for_batch ::
  "edit_batch \<Rightarrow> raster_grid \<Rightarrow> sun_position list \<Rightarrow> influence_config \<Rightarrow> int \<Rightarrow> (tree_spec \<Rightarrow> real) option \<Rightarrow>
   py_error + raster_window list" where
  "dirty_windows_for_batch batch grid suns cfg merge_gap_pixels offs =
     bind_exc (traverse (\<lambda>e. dirty_window_for_edit grid (te_old_tree e) (te_new_tree e) suns cfg offs) (eb_edits batch)) (\<lambda>ws.
       merge_windows ws merge_gap_pixels)"

section \<open>Windowing of a job\<close>

text \<open>What the worker reads of its site and session: the grid, the cached rasters and solar series, the
  influence policy, the edit log and the acknowledged watermark.\<close>

record site_view =
  sv_grid :: raster_grid
  sv_building_dsm :: raster
  sv_dem :: raster
  sv_tree_base :: raster
  sv_solar :: "sun_position list"
  sv_influence_config :: influence_config
  sv_edits :: "TreeEdit list"
  sv_acked_sequence :: int

definition pending_batch :: "site_view \<Rightarrow> py_error + edit_batch option" where
  "pending_batch sv =
     (case filter (\<lambda>e. sv_acked_sequence sv < te_sequence e) (sv_edits sv) of
        [] \<Rightarrow> Inr None | pending \<Rightarrow> map_sum id Some (coalesce_tree_edits pending))"

definition batch_trees :: "edit_batch \<Rightarrow> tree_spec list" where
  "batch_trees batch =
     concat (map (\<lambda>e. (case te_old_tree e of None \<Rightarrow> [] | Some t \<Rightarrow> [t]) @
                      (case te_new_tree e of None \<Rightarrow> [] | Some t \<Rightarrow> [t])) (eb_edits batch))"

definition tree_position_key :: "tree_spec \<Rightarrow> string \<times> real \<times> real" where
  "tree_position_key t = (ts_tree_id t, ts_x_m t, ts_y_m t)"

type_synonym offset_table = "((string \<times> real \<times> real) \<times> real) list"

definition offset_step :: "site_view \<Rightarrow> influence_config \<Rightarrow> offset_table \<Rightarrow> tree_spec \<Rightarrow> py_error + offset_table" where
  "offset_step sv cfg offsets t =
     (if map_of offsets (tree_position_key t) \<noteq> None then Inr offsets
      else map_sum id (\<lambda>v. AList.update (tree_position_key t) v offsets)
             (influence_elevation_offset (sv_grid sv) (sv_building_dsm sv) (sv_solar sv) t cfg))"

definition batch_elevation_offsets :: "site_view \<Rightarrow> edit_batch \<Rightarrow> influence_config \<Rightarrow> py_error + offset_table" where
  "batch_elevation_offsets sv batch cfg = fold_exc (offset_step sv cfg) [] (batch_trees batch)"

text \<open>\<open>dirty_windows()\<close>; every tree of the batch has an entry in the offsets.\<close>

definition dirty_windows :: "site_view \<Rightarrow> py_error + raster_window list" where
  "dirty_windows sv =
     bind_exc (pending_batch sv) (\<lambda>pending.
     case pending of
       None \<Rightarrow> Inr []
     | Some batch \<Rightarrow>
         if eb_edits batch = [] then Inr []
         else bind_exc (site_influence_config (sv_grid sv) (sv_building_dsm sv) (sv_dem sv) (sv_tree_base sv) (sv_solar sv)
                  (sv_influence_config sv)) (\<lambda>cfg.
              bind_exc (batch_elevation_offsets sv batch cfg) (\<lambda>offsets.
              bind_exc (dirty_windows_for_batch batch (sv_grid sv) (sv_solar sv) cfg 8
                  (Some (\<lambda>t. the (map_of offsets (tree_position_key t))))) (\<lambda>scalar.
              bind_exc (exact_influence_window (sv_grid sv) (sv_building_dsm sv) (sv_solar sv) (batch_trees batch) cfg) (\<lambda>exact.
                case exact of None \<Rightarrow> Inr scalar | Some w \<Rightarrow> merge_windows (scalar @ [w]) 0)))))"

definition guard_patch_window :: "raster_window \<Rightarrow> raster_grid \<Rightarrow> py_error + unit" where
  "guard_patch_window w g =
     (if rw_is_empty w then Inl (RuntimeError ''window is empty'')
      else if rw_row_start w < 0 \<or> rw_col_start w < 0 \<or> rg_rows g < rw_row_stop w \<or> rg_cols g < rw_col_stop w
      then Inl (RuntimeError ''window escapes the site grid'')
      else Inr ())"

definition write_windows_of :: "raster_grid \<Rightarrow> int \<Rightarrow> raster_window list \<Rightarrow> py_error + raster_window list" where
  "write_windows_of g margin dirty =
     bind_exc (traverse (\<lambda>w. bind_exc (rw_expand w margin) (\<lambda>w. rw_clamp w (rg_rows g) (rg_cols g))) dirty) (\<lambda>ws.
       map_sum id (\<lambda>_. ws) (traverse (\<lambda>w. guard_patch_window w g) ws))"

text \<open>The mode of a job: the first piece of the merged write windows decides.\<close>

definition job_mode :: "raster_grid \<Rightarrow> influence_config \<Rightarrow> raster_window list \<Rightarrow> py_error + recompute_mode" where
  "job_mode g cfg write_windows =
     bind_exc (merge_windows write_windows 0) (\<lambda>pieces.
       case pieces of
         [] \<Rightarrow> Inl (IndexError ''list index out of range'')
       | piece # _ \<Rightarrow> choose_recompute_mode piece g (Fin (ic_full_recompute_fraction cfg)))"

text \<open>\<open>union_window_area_fraction\<close> of the job metrics, before rounding.\<close>

definition union_window_area :: "raster_window list \<Rightarrow> py_error + int option" where
  "union_window_area windows =
     (if windows = [] then Inr None
      else map_sum id (\<lambda>pieces. Some (sum_list (map rw_area pieces))) (merge_windows windows 0))"

end
