(* ===== verification/Raster_Windows_Contract.thy ===== *)
theory Raster_Windows_Contract
  imports Raster_Windows
begin

text \<open>
  Windows as sets of cells, and merging as a closure: the result of \<open>merge_windows\<close> is the finest
  family of windows that are pairwise further apart than the gap and that cover the input.
\<close>

section \<open>Windows as sets of cells\<close>

definition window_ok :: "raster_window \<Rightarrow> bool" where
  "window_ok w \<longleftrightarrow> rw_row_start w \<le> rw_row_stop w \<and> rw_col_start w \<le> rw_col_stop w"

definition cells :: "raster_window \<Rightarrow> (int \<times> int) set" where
  "cells w = {rw_row_start w ..< rw_row_stop w} \<times> {rw_col_start w ..< rw_col_stop w}"

definition inside :: "raster_window \<Rightarrow> raster_window \<Rightarrow> bool" where
  "inside a b \<longleftrightarrow> rw_row_start b \<le> rw_row_start a \<and> rw_row_stop a \<le> rw_row_stop b \<and>
     rw_col_start b \<le> rw_col_start a \<and> rw_col_stop a \<le> rw_col_stop b"

definition solid :: "raster_window \<Rightarrow> bool" where
  "solid w \<longleftrightarrow> window_ok w \<and> \<not> rw_is_empty w"

lemma mk_window_ok: "mk_window r0 r1 c0 c1 = Inr w \<Longrightarrow> window_ok w"
  by (auto simp: mk_window_def window_ok_def split: if_splits)

lemma inside_refl [simp]: "inside w w" by (simp add: inside_def)

lemma inside_trans: "inside a b \<Longrightarrow> inside b c \<Longrightarrow> inside a c" by (auto simp: inside_def)

lemma inside_cells: "inside a b \<Longrightarrow> cells a \<subseteq> cells b" by (auto simp: inside_def cells_def)

lemma near_sym: "near gap a b \<longleftrightarrow> near gap b a" by (auto simp: near_def)

lemma near_inside: "near gap a b \<Longrightarrow> inside a a' \<Longrightarrow> inside b b' \<Longrightarrow> near gap a' b'"
  by (auto simp: near_def inside_def)

lemma is_empty_cells: "window_ok w \<Longrightarrow> rw_is_empty w \<longleftrightarrow> cells w = {}"
  by (auto simp: window_ok_def rw_is_empty_def rw_width_def rw_height_def cells_def)

lemma card_cells: "window_ok w \<Longrightarrow> int (card (cells w)) = rw_area w"
  by (simp add: window_ok_def cells_def rw_area_def rw_width_def rw_height_def card_cartesian_product)

lemma mk_window_Inr [simp]:
  "r0 \<le> r1 \<Longrightarrow> c0 \<le> c1 \<Longrightarrow>
   mk_window r0 r1 c0 c1 = Inr \<lparr>rw_row_start = r0, rw_row_stop = r1, rw_col_start = c0, rw_col_stop = c1\<rparr>"
  by (simp add: mk_window_def)

lemma rw_union_solid:
  assumes "solid a" "solid b"
  obtains u where "rw_union a b = Inr u" "solid u" "inside a u" "inside b u"
    "\<And>c. inside a c \<Longrightarrow> inside b c \<Longrightarrow> inside u c"
proof -
  let ?u = "\<lparr>rw_row_start = min (rw_row_start a) (rw_row_start b), rw_row_stop = max (rw_row_stop a) (rw_row_stop b),
    rw_col_start = min (rw_col_start a) (rw_col_start b), rw_col_stop = max (rw_col_stop a) (rw_col_stop b)\<rparr>"
  have ok: "window_ok a" "window_ok b" "\<not> rw_is_empty a" "\<not> rw_is_empty b" using assms by (auto simp: solid_def)
  have le: "rw_row_start a \<le> rw_row_stop a" "rw_col_start a \<le> rw_col_stop a" using ok(1) by (simp_all add: window_ok_def)
  have mm: "min (rw_row_start a) (rw_row_start b) \<le> max (rw_row_stop a) (rw_row_stop b)"
    "min (rw_col_start a) (rw_col_start b) \<le> max (rw_col_stop a) (rw_col_stop b)"
    by (rule min.coboundedI1 [OF max.coboundedI1 [OF le(1)]], rule min.coboundedI1 [OF max.coboundedI1 [OF le(2)]])
  have "rw_union a b = Inr ?u" unfolding rw_union_def mk_window_Inr [OF mm] using ok(3,4) by simp
  moreover have "solid ?u"
  proof -
    have "rw_row_start a < rw_row_stop a" "rw_col_start a < rw_col_stop a"
      using le ok(3) by (simp_all add: rw_is_empty_def rw_width_def rw_height_def)
    then have "rw_row_start ?u < rw_row_stop ?u" "rw_col_start ?u < rw_col_stop ?u"
      by (simp_all add: min.strict_coboundedI1 max.strict_coboundedI1)
    then show ?thesis by (simp only: solid_def window_ok_def rw_is_empty_def rw_width_def rw_height_def) linarith
  qed
  moreover have "inside a ?u" "inside b ?u" by (simp_all add: inside_def)
  moreover have "inside ?u c" if "inside a c" "inside b c" for c using that by (simp add: inside_def)
  ultimately show thesis by (rule that)
qed

lemma clamp_interval: "{max 0 (min n a) ..< max 0 (min n b)} = {a ..< b} \<inter> {0 ..< n :: int}"
  by auto

lemma clamp_mono: "a \<le> b \<Longrightarrow> max 0 (min n a) \<le> max 0 (min n (b :: int))"
  by (intro max.mono min.mono) simp_all

lemma rw_clamp_cells:
  assumes "window_ok w" "0 < rows" "0 < cols"
  obtains v where "rw_clamp w rows cols = Inr v" "window_ok v" "cells v = cells w \<inter> {0 ..< rows} \<times> {0 ..< cols}"
    "0 \<le> rw_row_start v" "rw_row_stop v \<le> rows" "0 \<le> rw_col_start v" "rw_col_stop v \<le> cols"
proof -
  let ?v = "\<lparr>rw_row_start = max 0 (min rows (rw_row_start w)), rw_row_stop = max 0 (min rows (rw_row_stop w)),
    rw_col_start = max 0 (min cols (rw_col_start w)), rw_col_stop = max 0 (min cols (rw_col_stop w))\<rparr>"
  have mono: "max 0 (min rows (rw_row_start w)) \<le> max 0 (min rows (rw_row_stop w))"
    "max 0 (min cols (rw_col_start w)) \<le> max 0 (min cols (rw_col_stop w))"
    using assms(1) by (auto simp only: window_ok_def intro: clamp_mono)
  then have "rw_clamp w rows cols = Inr ?v" using assms(2,3) by (simp add: rw_clamp_def)
  moreover have "cells ?v = cells w \<inter> {0 ..< rows} \<times> {0 ..< cols}"
    by (simp add: cells_def clamp_interval Times_Int_Times)
  moreover have "window_ok ?v" using mono by (simp only: window_ok_def raster_window.simps)
  moreover have "0 \<le> rw_row_start ?v" "rw_row_stop ?v \<le> rows" "0 \<le> rw_col_start ?v" "rw_col_stop ?v \<le> cols"
    using assms(2,3) by simp_all
  ultimately show thesis by (intro that)
qed

lemma floor_block: "0 < b \<Longrightarrow> \<lfloor>rat_of_int a / rat_of_int b\<rfloor> = a div b"
  by (simp add: floor_divide_of_int_eq)

lemma ceiling_block: "0 < b \<Longrightarrow> \<lceil>rat_of_int a / rat_of_int b\<rceil> = - ((- a) div b)"
  using floor_divide_of_int_eq [of "- a" b, where 'a = rat] by (simp add: ceiling_def)

lemma div_block: "0 < b \<Longrightarrow> a div b * b \<le> (a :: int)"
  by (simp add: minus_mod_eq_div_mult [symmetric])

lemma block_div: "0 < b \<Longrightarrow> (a :: int) \<le> - ((- a) div b) * b"
  using div_block [of b "- a"] by simp

lemma div_block_mono: "0 < b \<Longrightarrow> (a :: int) \<le> c \<Longrightarrow> a div b * b \<le> c div b * b"
  by (simp add: zdiv_mono1)

lemma rw_align_window:
  assumes "window_ok w" "0 < block"
  obtains v where "rw_align w block = Inr v" "window_ok v" "inside w v"
    "block dvd rw_row_start v" "block dvd rw_row_stop v" "block dvd rw_col_start v" "block dvd rw_col_stop v"
proof -
  let ?lo = "\<lambda>a. a div block * block" and ?hi = "\<lambda>a. - ((- a) div block) * block"
  let ?v = "\<lparr>rw_row_start = ?lo (rw_row_start w), rw_row_stop = ?hi (rw_row_stop w),
    rw_col_start = ?lo (rw_col_start w), rw_col_stop = ?hi (rw_col_stop w)\<rparr>"
  have mono: "?lo a \<le> ?hi b" if "a \<le> b" for a b
    using div_block [OF assms(2), of a] block_div [OF assms(2), of b] that by linarith
  have ok: "?lo (rw_row_start w) \<le> ?hi (rw_row_stop w)" "?lo (rw_col_start w) \<le> ?hi (rw_col_stop w)"
    using assms(1) mono unfolding window_ok_def by blast+
  have "rw_align w block = Inr ?v"
    unfolding rw_align_def floor_block [OF assms(2)] ceiling_block [OF assms(2)] mk_window_Inr [OF ok] using assms(2) by simp
  moreover have "window_ok ?v" using ok by (simp only: window_ok_def raster_window.simps)
  moreover have "inside w ?v"
    using div_block [OF assms(2)] block_div [OF assms(2)] by (simp only: inside_def raster_window.simps)
  ultimately show thesis by (rule that) simp_all
qed

section \<open>Merging as a closure\<close>

text \<open>Families of windows further apart than the gap.\<close>

definition separated :: "int \<Rightarrow> raster_window set \<Rightarrow> bool" where
  "separated gap F \<longleftrightarrow> (\<forall>a\<in>F. \<forall>b\<in>F. near gap a b \<longrightarrow> a = b)"

definition covered_by :: "raster_window set \<Rightarrow> raster_window \<Rightarrow> bool" where
  "covered_by F w \<longleftrightarrow> (\<exists>f\<in>F. inside w f)"

abbreviation apart :: "int \<Rightarrow> raster_window list \<Rightarrow> bool" where
  "apart gap \<equiv> sorted_wrt (\<lambda>a b. \<not> near gap a b)"

lemma covered_by_union:
  assumes "separated gap F" "covered_by F a" "covered_by F b" "near gap a b"
    and "\<And>c. inside a c \<Longrightarrow> inside b c \<Longrightarrow> inside u c"
  shows "covered_by F u"
proof -
  obtain f g where f: "f \<in> F" "inside a f" "g \<in> F" "inside b g" using assms(2,3) by (auto simp: covered_by_def)
  then have "near gap f g" using near_inside [OF assms(4)] by blast
  then have "f = g" using assms(1) f by (simp add: separated_def)
  then show ?thesis using f assms(5) by (auto simp: covered_by_def)
qed

text \<open>What one sweep does to the candidate and the windows merged so far.\<close>

definition swept :: "int \<Rightarrow> raster_window \<Rightarrow> raster_window list \<Rightarrow> raster_window \<Rightarrow> raster_window list \<Rightarrow> bool" where
  "swept gap cand ws c retained \<longleftrightarrow>
     solid c \<and> inside cand c \<and> set retained \<subseteq> set ws \<and> (apart gap ws \<longrightarrow> apart gap retained) \<and>
     (\<forall>w\<in>set ws. w \<in> set retained \<or> inside w c) \<and>
     (\<forall>F. separated gap F \<and> covered_by F cand \<and> (\<forall>w\<in>set ws. covered_by F w) \<longrightarrow> covered_by F c)"

lemma swept_trans: "swept gap cand ws c retained \<Longrightarrow> swept gap c retained c' retained' \<Longrightarrow> swept gap cand ws c' retained'"
  unfolding swept_def by (blast intro: inside_trans)

lemma absorb_unchanged: "absorb gap cand ws = Inr (c, retained, False) \<Longrightarrow> c = cand"
proof (induction gap cand ws arbitrary: c retained rule: absorb.induct)
  case (2 gap cand w ws)
  then show ?case by (fastforce simp: bind_exc_Inr split: if_splits dest!: map_sum_Inr)
qed simp

lemma absorb_swept:
  assumes "0 \<le> gap" "solid cand" "\<forall>w\<in>set ws. solid w"
  shows "\<exists>c retained changed. absorb gap cand ws = Inr (c, retained, changed) \<and> swept gap cand ws c retained \<and>
    (\<not> changed \<longrightarrow> (\<forall>w\<in>set retained. \<not> near gap c w))"
  using assms
proof (induction ws arbitrary: cand)
  case (Cons w ws)
  have w: "solid w" "\<forall>w\<in>set ws. solid w" using Cons.prems(3) by auto
  show ?case
  proof (cases "near gap cand w")
    case True
    obtain u where u: "rw_union cand w = Inr u" "solid u" "inside cand u" "inside w u"
      and least: "\<And>c. inside cand c \<Longrightarrow> inside w c \<Longrightarrow> inside u c"
      using rw_union_solid [OF Cons.prems(2) w(1)] by metis
    obtain c retained changed where IH: "absorb gap u ws = Inr (c, retained, changed)" "swept gap u ws c retained"
      using Cons.IH [OF Cons.prems(1) u(2) w(2)] by blast
    have "covered_by F u" if "separated gap F" "covered_by F cand" "covered_by F w" for F
      by (rule covered_by_union [OF that True least])
    then have "swept gap cand (w # ws) c retained"
      using IH(2) u(3,4) unfolding swept_def by (auto intro: inside_trans)
    then show ?thesis using True IH(1) u(1) Cons.prems(1) by (auto simp: rw_intersects_def)
  next
    case False
    obtain c retained changed where IH: "absorb gap cand ws = Inr (c, retained, changed)" "swept gap cand ws c retained"
      "\<not> changed \<longrightarrow> (\<forall>w\<in>set retained. \<not> near gap c w)" using Cons.IH [OF Cons.prems(1,2) w(2)] by blast
    have "swept gap cand (w # ws) c (w # retained)" using IH(2) unfolding swept_def by auto
    moreover have "\<not> near gap c w" if "\<not> changed"
      using absorb_unchanged [of gap cand ws c retained] IH(1) that False by simp
    ultimately show ?thesis using False IH(1,3) Cons.prems(1) by (simp add: rw_intersects_def)
  qed
qed (auto simp: swept_def)

lemma settle_swept:
  assumes "0 \<le> gap" "solid cand" "\<forall>w\<in>set merged. solid w"
  shows "\<exists>c retained. settle gap cand merged = Inr (c, retained) \<and> swept gap cand merged c retained \<and>
    (\<forall>w\<in>set retained. \<not> near gap c w)"
  using assms
proof (induction gap cand merged rule: settle.induct)
  case (1 gap cand merged)
  obtain c retained changed where a: "absorb gap cand merged = Inr (c, retained, changed)"
    "swept gap cand merged c retained" "\<not> changed \<longrightarrow> (\<forall>w\<in>set retained. \<not> near gap c w)"
    using absorb_swept [OF "1.prems"] by blast
  show ?case
  proof (cases changed)
    case True
    have "solid c" "\<forall>w\<in>set retained. solid w" using a(2) "1.prems"(3) by (auto simp: swept_def)
    then obtain c' retained' where "settle gap c retained = Inr (c', retained')" "swept gap c retained c' retained'"
      "\<forall>w\<in>set retained'. \<not> near gap c' w"
      using "1.IH" [OF a(1) refl refl True "1.prems"(1)] by blast
    then show ?thesis using True a(1) swept_trans [OF a(2)] by (subst settle.simps) auto
  next
    case False
    then show ?thesis using a by (subst settle.simps) simp
  qed
qed

text \<open>The loop invariant: what has been merged is solid, pairwise apart, covers what has been read and
  is covered by every separated family that covers it.\<close>

definition merged_so_far :: "int \<Rightarrow> raster_window list \<Rightarrow> raster_window list \<Rightarrow> bool" where
  "merged_so_far gap seen merged \<longleftrightarrow>
     (\<forall>w\<in>set merged. solid w) \<and> apart gap merged \<and> (\<forall>w\<in>set seen. covered_by (set merged) w) \<and>
     (\<forall>F. separated gap F \<and> (\<forall>w\<in>set seen. covered_by F w) \<longrightarrow> (\<forall>w\<in>set merged. covered_by F w))"

lemma merge_step_invariant:
  assumes "0 \<le> gap" "solid w" "merged_so_far gap seen merged"
  shows "\<exists>merged'. merge_step gap merged w = Inr merged' \<and> merged_so_far gap (seen @ [w]) merged'"
proof -
  have m: "\<forall>w\<in>set merged. solid w" "apart gap merged" using assms(3) by (auto simp: merged_so_far_def)
  obtain c retained where c: "settle gap w merged = Inr (c, retained)" and s: "swept gap w merged c retained"
    and far: "\<forall>w\<in>set retained. \<not> near gap c w"
    using settle_swept [OF assms(1,2) m(1)] by blast
  have "apart gap (retained @ [c])"
    using s m(2) far near_sym by (auto simp: swept_def sorted_wrt_append)
  moreover have "\<forall>x\<in>set (retained @ [c]). solid x" using s m(1) by (auto simp: swept_def)
  moreover have "covered_by (set (retained @ [c])) x" if "x \<in> set (seen @ [w])" for x
  proof (cases "x = w")
    case False
    then have "covered_by (set merged) x" using that assms(3) by (simp add: merged_so_far_def)
    then obtain y where "y \<in> set merged" "inside x y" by (auto simp: covered_by_def)
    then show ?thesis using s by (auto simp: swept_def covered_by_def intro: inside_trans)
  qed (use s in \<open>auto simp: swept_def covered_by_def\<close>)
  moreover have "covered_by F x"
    if "separated gap F" "\<forall>x\<in>set (seen @ [w]). covered_by F x" "x \<in> set (retained @ [c])" for F x
  proof -
    have "\<forall>y\<in>set merged. covered_by F y" using assms(3) that(1,2) by (simp add: merged_so_far_def)
    then show ?thesis using s that by (auto simp: swept_def)
  qed
  ultimately show ?thesis using c by (simp add: merge_step_def merged_so_far_def)
qed

lemma merge_fold_invariant:
  assumes "0 \<le> gap" "\<forall>w\<in>set ws. solid w" "merged_so_far gap seen merged"
  shows "\<exists>merged'. fold_exc (merge_step gap) merged ws = Inr merged' \<and> merged_so_far gap (seen @ ws) merged'"
  using assms
proof (induction ws arbitrary: seen merged)
  case (Cons w ws)
  obtain m where "merge_step gap merged w = Inr m" "merged_so_far gap (seen @ [w]) m"
    using merge_step_invariant [of gap w seen merged] Cons.prems by auto
  then show ?case using Cons.IH [of "seen @ [w]" m] Cons.prems(1,2) by simp
qed simp

lemma solid_near_self: "0 \<le> gap \<Longrightarrow> solid w \<Longrightarrow> near gap w w"
  by (auto simp: near_def solid_def window_ok_def)

lemma apart_iff:
  "0 \<le> gap \<Longrightarrow> \<forall>w\<in>set ws. solid w \<Longrightarrow> apart gap ws \<longleftrightarrow> distinct ws \<and> separated gap (set ws)"
proof (induction ws)
  case (Cons w ws)
  have "near gap w w" using solid_near_self Cons.prems by simp
  moreover have "separated gap (set (w # ws)) \<longleftrightarrow> separated gap (set ws) \<and> (\<forall>v\<in>set ws. near gap w v \<longrightarrow> w = v)"
    unfolding separated_def set_simps using near_sym by blast
  ultimately show ?case using Cons by auto
qed (simp add: separated_def)

lemma merged_so_far_pieces:
  "0 \<le> gap \<Longrightarrow> merged_so_far gap seen m \<Longrightarrow> (\<forall>w\<in>set m. solid w) \<and> distinct m \<and> separated gap (set m)"
  using apart_iff [of gap m] unfolding merged_so_far_def by blast

lemma merged_so_far_covers: "merged_so_far gap seen m \<Longrightarrow> w \<in> set seen \<Longrightarrow> covered_by (set m) w"
  unfolding merged_so_far_def by blast

lemma merged_so_far_least:
  "merged_so_far gap seen m \<Longrightarrow> separated gap F \<Longrightarrow> (\<And>w. w \<in> set seen \<Longrightarrow> covered_by F w) \<Longrightarrow> w \<in> set m \<Longrightarrow> covered_by F w"
  unfolding merged_so_far_def by blast

text \<open>Merging computes the finest separated cover.\<close>

lemma merge_windows_closure:
  assumes "0 \<le> gap" "\<And>w. w \<in> set ws \<Longrightarrow> window_ok w"
  shows "\<exists>pieces. merge_windows ws gap = Inr pieces \<and> merged_so_far gap (filter (\<lambda>w. \<not> rw_is_empty w) ws) pieces \<and>
    sorted (map (\<lambda>w. (rw_row_start w, rw_col_start w)) pieces)"
proof -
  let ?ws = "sort_key (\<lambda>w. (rw_row_start w, rw_col_start w, rw_row_stop w, rw_col_stop w)) (filter (\<lambda>w. \<not> rw_is_empty w) ws)"
  have "\<forall>w\<in>set ?ws. solid w" using assms(2) by (auto simp: solid_def)
  then obtain m where m: "fold_exc (merge_step gap) [] ?ws = Inr m" "merged_so_far gap ?ws m"
    using merge_fold_invariant [OF assms(1), of ?ws "[]" "[]"] by (auto simp: merged_so_far_def)
  have "merged_so_far gap (filter (\<lambda>w. \<not> rw_is_empty w) ws) (sort_key (\<lambda>w. (rw_row_start w, rw_col_start w)) m)"
    using m(2) apart_iff [OF assms(1), of m] apart_iff [OF assms(1), of "sort_key (\<lambda>w. (rw_row_start w, rw_col_start w)) m"]
    by (simp add: merged_so_far_def)
  then show ?thesis using m(1) assms(1) by (simp add: merge_windows_def)
qed

lemma solid_antisym: "inside a b \<Longrightarrow> inside b a \<Longrightarrow> a = b"
  by (auto simp: inside_def)

lemma separated_covers_agree:
  assumes "separated gap F" "separated gap G" "\<forall>f\<in>F. covered_by G f" "\<forall>g\<in>G. covered_by F g"
    and "\<forall>f\<in>F. solid f" "0 \<le> gap"
  shows "F \<subseteq> G"
proof
  fix f
  assume f: "f \<in> F"
  obtain g where g: "g \<in> G" "inside f g" using assms(3) f by (auto simp: covered_by_def)
  obtain f' where f': "f' \<in> F" "inside g f'" using assms(4) g by (auto simp: covered_by_def)
  have "near gap f f'"
    using near_inside [OF solid_near_self [OF assms(6)] inside_refl inside_trans [OF g(2) f'(2)]] assms(5) f by blast
  then have "f = f'" using assms(1) f f' by (simp add: separated_def)
  then have "f = g" using solid_antisym g f' by blast
  then show "f \<in> G" using g by simp
qed

text \<open>The result is determined by the set of windows, whatever their order and multiplicity.\<close>

lemma merge_windows_set:
  assumes "0 \<le> gap" "\<And>w. w \<in> set ws \<Longrightarrow> window_ok w" "set vs = set ws"
  shows "merge_windows vs gap = merge_windows ws gap"
proof -
  let ?key = "\<lambda>w. (rw_row_start w, rw_col_start w)"
  obtain p q where p: "merge_windows ws gap = Inr p" "merged_so_far gap (filter (\<lambda>w. \<not> rw_is_empty w) ws) p" "sorted (map ?key p)"
    and q: "merge_windows vs gap = Inr q" "merged_so_far gap (filter (\<lambda>w. \<not> rw_is_empty w) vs) q" "sorted (map ?key q)"
    using merge_windows_closure [OF assms(1), of ws] merge_windows_closure [OF assms(1), of vs] assms(2) unfolding assms(3) by blast
  note pp = merged_so_far_pieces [OF assms(1) p(2)] and qq = merged_so_far_pieces [OF assms(1) q(2)]
  have sep: "distinct p" "separated gap (set p)" "distinct q" "separated gap (set q)"
    and ok: "\<forall>w\<in>set p. solid w" "\<forall>w\<in>set q. solid w" using pp qq by blast+
  have same: "set (filter (\<lambda>w. \<not> rw_is_empty w) vs) = set (filter (\<lambda>w. \<not> rw_is_empty w) ws)" using assms(3) by simp
  have "\<forall>w\<in>set q. covered_by (set p) w"
    using merged_so_far_least [OF q(2) sep(2)] merged_so_far_covers [OF p(2)] unfolding same by blast
  moreover have "\<forall>w\<in>set p. covered_by (set q) w"
    using merged_so_far_least [OF p(2) sep(4)] merged_so_far_covers [OF q(2)] unfolding same by blast
  ultimately have eq: "set p = set q"
    using separated_covers_agree [OF sep(2,4) _ _ ok(1) assms(1)] separated_covers_agree [OF sep(4,2) _ _ ok(2) assms(1)]
    by blast
  have inj: "inj_on ?key (set p)"
  proof (rule inj_onI)
    fix a b
    assume "a \<in> set p" "b \<in> set p" "?key a = ?key b"
    then have "near gap a b" using ok(1) assms(1) by (auto simp: near_def solid_def window_ok_def)
    then show "a = b" using sep(2) \<open>a \<in> set p\<close> \<open>b \<in> set p\<close> by (simp add: separated_def)
  qed
  then have "distinct (map ?key p)" "distinct (map ?key q)" using sep(1,3) eq by (simp_all add: distinct_map)
  then have "map ?key p = map ?key q" using p(3) q(3) eq by (intro sorted_distinct_set_unique) simp_all
  then have "p = q" using inj eq by (simp add: inj_on_map_eq_map)
  then show ?thesis using p q by simp
qed

section \<open>Properties\<close>



text \<open>C31: merging returns the finest cover. On well-formed windows and a non-negative gap the nested
  loops end with a list of distinct windows, pairwise further apart than the gap and sorted by their
  corner, that covers every non-empty input window; every other separated family that covers the input
  covers the result, and the result depends on the set of windows only.\<close>

theorem merge_windows_finest_cover:
  assumes "0 \<le> gap" "\<And>w. w \<in> set ws \<Longrightarrow> window_ok w" "set vs = set ws"
  shows "\<exists>pieces. merge_windows ws gap = Inr pieces \<and> merge_windows vs gap = Inr pieces \<and>
    distinct pieces \<and> separated gap (set pieces) \<and> sorted (map (\<lambda>w. (rw_row_start w, rw_col_start w)) pieces) \<and>
    (\<forall>w\<in>set ws. \<not> rw_is_empty w \<longrightarrow> covered_by (set pieces) w) \<and>
    (\<forall>F. separated gap F \<and> (\<forall>w\<in>set ws. \<not> rw_is_empty w \<longrightarrow> covered_by F w) \<longrightarrow> (\<forall>p\<in>set pieces. covered_by F p))"
proof -
  obtain p where p: "merge_windows ws gap = Inr p" "merged_so_far gap (filter (\<lambda>w. \<not> rw_is_empty w) ws) p"
    "sorted (map (\<lambda>w. (rw_row_start w, rw_col_start w)) p)" using merge_windows_closure [OF assms(1,2)] by blast
  have "distinct p \<and> separated gap (set p)" using p(2) apart_iff [OF assms(1), of p] by (simp add: merged_so_far_def)
  then show ?thesis
    using p merge_windows_set [OF assms] by (intro exI [of _ p]) (simp add: merged_so_far_def)
qed

definition corner :: "int \<Rightarrow> int \<Rightarrow> int \<Rightarrow> raster_window" where
  "corner r c n = \<lparr>rw_row_start = r, rw_row_stop = r + n, rw_col_start = c, rw_col_stop = c + n\<rparr>"

theorem merge_windows_finest_cover_witness:
  "(\<exists>pieces. merge_windows [corner 9 9 1, corner 1 1 2, corner 0 0 2] 1 = Inr pieces \<and> separated 1 (set pieces)) \<and>
   merge_windows [corner 9 9 1, corner 1 1 2, corner 0 0 2] 1 = Inr [corner 0 0 3, corner 9 9 1]"
proof
  let ?ws = "[corner 9 9 1, corner 1 1 2, corner 0 0 2]"
  have ok: "window_ok w" if "w \<in> set ?ws" for w using that by (auto simp: window_ok_def corner_def)
  show "\<exists>pieces. merge_windows ?ws 1 = Inr pieces \<and> separated 1 (set pieces)"
    using merge_windows_finest_cover [of 1 ?ws ?ws, OF _ ok refl] by auto
  show "merge_windows ?ws 1 = Inr [corner 0 0 3, corner 9 9 1]" by code_simp
qed

end
