(* ===== verification/Influence_Contract.thy ===== *)
theory Influence_Contract
  imports Influence Raster_Windows_Contract
begin

text \<open>
  What the influence geometry guarantees over exact reals: bounds that contain the canopy, the sky-view
  radius and the whole shadow corridor of every supplied sun position, windows that contain every pixel
  the bounds meet, the relief search as a least fixed point, and the exact per-cell window.
\<close>

section \<open>Well-formed data\<close>

definition tree_ok :: "tree_spec \<Rightarrow> bool" where
  "tree_ok t \<longleftrightarrow> ts_tree_id t \<noteq> [] \<and> 0 < ts_height_m t \<and> 0 < ts_canopy_radius_m t \<and>
     0 \<le> ts_trunk_ratio t \<and> ts_trunk_ratio t \<le> 1 \<and> 0 \<le> ts_transmissivity t \<and> ts_transmissivity t \<le> 1"

definition grid_ok :: "raster_grid \<Rightarrow> bool" where
  "grid_ok g \<longleftrightarrow> 0 < rg_rows g \<and> 0 < rg_cols g \<and> 0 < rg_pixel_size_m g"

definition config_ok :: "influence_config \<Rightarrow> bool" where
  "config_ok c \<longleftrightarrow> 0 \<le> ic_elevation_offset_m c \<and>
     0 < ic_lowest_sky_patch_altitude_deg c \<and> ic_lowest_sky_patch_altitude_deg c < 90 \<and>
     0 < ic_minimum_direct_sun_altitude_deg c \<and> ic_minimum_direct_sun_altitude_deg c < 90 \<and>
     0 < ic_maximum_shadow_length_m c \<and> 0 \<le> ic_safety_margin_m c \<and> 0 < ic_block_size_pixels c \<and>
     0 < ic_full_recompute_fraction c \<and> ic_full_recompute_fraction c \<le> 1"

lemma mk_tree_spec_ok: "mk_tree_spec i x y h r trunk tau = Inr t \<Longrightarrow> tree_ok t"
  by (auto simp: mk_tree_spec_def bind_exc_Inr tree_ok_def split: if_splits)

lemma mk_raster_grid_ok: "mk_raster_grid rows cols p ox oy = Inr g \<Longrightarrow> grid_ok g"
  by (auto simp: mk_raster_grid_def bind_exc_Inr grid_ok_def split: if_splits)

lemma check_influence_config_ok: "check_influence_config c = Inr c' \<longleftrightarrow> config_ok c \<and> c' = c"
  by (auto simp: check_influence_config_def config_ok_def)

lemma default_config_ok: "config_ok default_influence_config"
  by (simp add: config_ok_def default_influence_config_def)

section \<open>Bounds\<close>

definition bounds_ok :: "bounds \<Rightarrow> bool" where
  "bounds_ok b \<longleftrightarrow> (case b of (x0, y0, x1, y1) \<Rightarrow> x0 < x1 \<and> y0 < y1)"

definition bounds_le :: "bounds \<Rightarrow> bounds \<Rightarrow> bool" where
  "bounds_le a b \<longleftrightarrow> (case (a, b) of ((ax0, ay0, ax1, ay1), (bx0, by0, bx1, by1)) \<Rightarrow>
     bx0 \<le> ax0 \<and> by0 \<le> ay0 \<and> ax1 \<le> bx1 \<and> ay1 \<le> by1)"

lemma bounds_le_refl [simp]: "bounds_le b b" by (auto simp: bounds_le_def)

lemma bounds_le_trans: "bounds_le a b \<Longrightarrow> bounds_le b c \<Longrightarrow> bounds_le a c"
  by (auto simp: bounds_le_def split: prod.splits)

lemma bounds_ok_mono: "bounds_ok a \<Longrightarrow> bounds_le a b \<Longrightarrow> bounds_ok b"
  by (auto simp: bounds_le_def bounds_ok_def split: prod.splits)

text \<open>Bounds are read as half-open towards the south and the east, the edges shared with the next pixel.\<close>

definition meets :: "bounds \<Rightarrow> real \<Rightarrow> real \<Rightarrow> bool" where
  "meets b x y \<longleftrightarrow> (case b of (x0, y0, x1, y1) \<Rightarrow> x0 \<le> x \<and> x < x1 \<and> y0 < y \<and> y \<le> y1)"

lemma meets_mono: "meets a x y \<Longrightarrow> bounds_le a b \<Longrightarrow> meets b x y"
  by (auto simp: bounds_le_def meets_def split: prod.splits)

lemma tan_radians_pos: "0 < alt \<Longrightarrow> alt < 90 \<Longrightarrow> 0 < tan (radians alt)"
  by (rule tan_gt_zero) (auto simp: radians_def)

lemma svf_radius_total:
  assumes "0 < h" "config_ok cfg"
  shows "\<exists>r>0. estimate_svf_radius_m h (ic_lowest_sky_patch_altitude_deg cfg) (Some (ic_maximum_shadow_length_m cfg)) = Inr r \<and>
    r = min (h / tan (radians (ic_lowest_sky_patch_altitude_deg cfg))) (ic_maximum_shadow_length_m cfg)"
  using assms tan_radians_pos by (auto simp: estimate_svf_radius_m_def config_ok_def Let_def)

lemma shadow_vector_total:
  assumes "0 < h" "config_ok cfg"
  shows "\<exists>dx dy. shadow_vector_m h sun (ic_minimum_direct_sun_altitude_deg cfg) (ic_maximum_shadow_length_m cfg) = Inr (dx, dy)"
  using assms by (auto simp: shadow_vector_m_def config_ok_def Let_def)

lemma widen_by_shadow_spec:
  assumes "0 < h" "config_ok cfg"
  shows "\<exists>b'. widen_by_shadow t h cfg b sun = Inr b' \<and> bounds_le b b' \<and>
    (\<forall>dx dy. shadow_vector_m h sun (ic_minimum_direct_sun_altitude_deg cfg) (ic_maximum_shadow_length_m cfg) = Inr (dx, dy) \<longrightarrow>
      bounds_le (min (ts_x_m t) (ts_x_m t + dx) - (ts_canopy_radius_m t + ic_safety_margin_m cfg),
                 min (ts_y_m t) (ts_y_m t + dy) - (ts_canopy_radius_m t + ic_safety_margin_m cfg),
                 max (ts_x_m t) (ts_x_m t + dx) + (ts_canopy_radius_m t + ic_safety_margin_m cfg),
                 max (ts_y_m t) (ts_y_m t + dy) + (ts_canopy_radius_m t + ic_safety_margin_m cfg)) b')"
proof -
  obtain dx dy where v: "shadow_vector_m h sun (ic_minimum_direct_sun_altitude_deg cfg) (ic_maximum_shadow_length_m cfg) = Inr (dx, dy)"
    using shadow_vector_total [OF assms] by blast
  obtain x0 y0 x1 y1 where b: "b = (x0, y0, x1, y1)" by (cases b) auto
  show ?thesis unfolding widen_by_shadow_def v b by (auto simp: bounds_le_def Let_def min_def max_def)
qed

text \<open>The reach of a tree of effective height \<open>h\<close>: its sky-view radius, and the corridor of its shadow.\<close>

definition sky_reach :: "tree_spec \<Rightarrow> influence_config \<Rightarrow> real \<Rightarrow> real" where
  "sky_reach t cfg h =
     max (ts_canopy_radius_m t) (min (h / tan (radians (ic_lowest_sky_patch_altitude_deg cfg))) (ic_maximum_shadow_length_m cfg)) +
     ic_safety_margin_m cfg"

definition square_about :: "tree_spec \<Rightarrow> real \<Rightarrow> bounds" where
  "square_about t r = (ts_x_m t - r, ts_y_m t - r, ts_x_m t + r, ts_y_m t + r)"

definition on_corridor :: "tree_spec \<Rightarrow> influence_config \<Rightarrow> real \<Rightarrow> sun_position \<Rightarrow> real \<Rightarrow> real \<Rightarrow> bool" where
  "on_corridor t cfg h sun x y \<longleftrightarrow>
     (\<exists>dx dy s. shadow_vector_m h sun (ic_minimum_direct_sun_altitude_deg cfg) (ic_maximum_shadow_length_m cfg) = Inr (dx, dy) \<and>
        0 \<le> s \<and> s \<le> 1 \<and>
        \<bar>x - (ts_x_m t + s * dx)\<bar> < ts_canopy_radius_m t + ic_safety_margin_m cfg \<and>
        \<bar>y - (ts_y_m t + s * dy)\<bar> < ts_canopy_radius_m t + ic_safety_margin_m cfg)"

lemma along_segment:
  fixes d :: real
  assumes "0 \<le> s" "s \<le> 1" "\<bar>x - (a + s * d)\<bar> < r"
  shows "min a (a + d) - r < x \<and> x < max a (a + d) + r"
proof (cases "0 \<le> d")
  case True
  then have "0 \<le> s * d" "s * d \<le> d" using assms(1,2) mult_left_le_one_le [of d s] by auto
  then show ?thesis using assms(3) True by linarith
next
  case False
  then have "s * d \<le> 0" "d \<le> s * d" using assms(1,2) mult_left_le_one_le [of "- d" s] by (auto simp: mult_nonneg_nonpos)
  then show ?thesis using assms(3) False by linarith
qed

lemma widen_fold_spec:
  assumes "0 < h" "config_ok cfg"
  shows "\<exists>b'. fold_exc (widen_by_shadow t h cfg) b suns = Inr b' \<and> bounds_le b b' \<and>
    (\<forall>sun\<in>set suns. \<forall>x y. on_corridor t cfg h sun x y \<longrightarrow> meets b' x y)"
proof (induction suns arbitrary: b)
  case (Cons sun suns)
  obtain b1 where b1: "widen_by_shadow t h cfg b sun = Inr b1" "bounds_le b b1"
    and corridor: "\<And>dx dy. shadow_vector_m h sun (ic_minimum_direct_sun_altitude_deg cfg) (ic_maximum_shadow_length_m cfg) = Inr (dx, dy) \<Longrightarrow>
      bounds_le (min (ts_x_m t) (ts_x_m t + dx) - (ts_canopy_radius_m t + ic_safety_margin_m cfg),
                 min (ts_y_m t) (ts_y_m t + dy) - (ts_canopy_radius_m t + ic_safety_margin_m cfg),
                 max (ts_x_m t) (ts_x_m t + dx) + (ts_canopy_radius_m t + ic_safety_margin_m cfg),
                 max (ts_y_m t) (ts_y_m t + dy) + (ts_canopy_radius_m t + ic_safety_margin_m cfg)) b1"
    using widen_by_shadow_spec [OF assms, of t b sun] by blast
  have in1: "meets b1 x y" if c: "on_corridor t cfg h sun x y" for x y
  proof -
    obtain dx dy s where v: "shadow_vector_m h sun (ic_minimum_direct_sun_altitude_deg cfg) (ic_maximum_shadow_length_m cfg) = Inr (dx, dy)"
      and s: "0 \<le> s" "s \<le> 1" "\<bar>x - (ts_x_m t + s * dx)\<bar> < ts_canopy_radius_m t + ic_safety_margin_m cfg"
        "\<bar>y - (ts_y_m t + s * dy)\<bar> < ts_canopy_radius_m t + ic_safety_margin_m cfg"
      using c unfolding on_corridor_def by blast
    show ?thesis
      by (rule meets_mono [OF _ corridor [OF v]])
        (use along_segment [OF s(1,2,3)] along_segment [OF s(1,2,4)] in \<open>auto simp: meets_def\<close>)
  qed
  obtain b' where b': "fold_exc (widen_by_shadow t h cfg) b1 suns = Inr b'" "bounds_le b1 b'"
    "\<forall>sun\<in>set suns. \<forall>x y. on_corridor t cfg h sun x y \<longrightarrow> meets b' x y" using Cons.IH by blast
  have "bounds_le b b'" by (rule bounds_le_trans [OF b1(2) b'(2)])
  moreover have "meets b' x y" if "on_corridor t cfg h sun x y" for x y
    by (rule meets_mono [OF in1 [OF that] b'(2)])
  ultimately show ?case using b1(1) b'(1,3) by simp
qed simp

definition effective_height :: "tree_spec \<Rightarrow> influence_config \<Rightarrow> real option \<Rightarrow> real" where
  "effective_height t cfg e = ts_height_m t + (case e of None \<Rightarrow> ic_elevation_offset_m cfg | Some v \<Rightarrow> v)"

lemma tree_bounds_spec:
  assumes "tree_ok t" "config_ok cfg" "\<And>v. e = Some v \<Longrightarrow> 0 \<le> v"
  shows "\<exists>b. tree_influence_bounds_m t suns cfg e = Inr b \<and> bounds_ok b \<and>
    bounds_le (square_about t (sky_reach t cfg (effective_height t cfg e))) b \<and>
    (\<forall>sun\<in>set suns. \<forall>x y. on_corridor t cfg (effective_height t cfg e) sun x y \<longrightarrow> meets b x y)"
proof -
  let ?h = "effective_height t cfg e"
  have h: "0 < ?h" using assms by (auto simp: effective_height_def tree_ok_def config_ok_def add_pos_nonneg split: option.splits)
  obtain r where r: "estimate_svf_radius_m ?h (ic_lowest_sky_patch_altitude_deg cfg) (Some (ic_maximum_shadow_length_m cfg)) = Inr r"
    "r = min (?h / tan (radians (ic_lowest_sky_patch_altitude_deg cfg))) (ic_maximum_shadow_length_m cfg)"
    using svf_radius_total [OF h assms(2)] by blast
  let ?sq = "square_about t (sky_reach t cfg ?h)"
  obtain b where b: "fold_exc (widen_by_shadow t ?h cfg) ?sq suns = Inr b" "bounds_le ?sq b"
    "\<forall>sun\<in>set suns. \<forall>x y. on_corridor t cfg ?h sun x y \<longrightarrow> meets b x y"
    using widen_fold_spec [OF h assms(2)] by blast
  have "0 < sky_reach t cfg ?h" using assms(1,2) by (simp add: sky_reach_def tree_ok_def config_ok_def add_pos_nonneg less_max_iff_disj)
  then have "bounds_ok b" by (intro bounds_ok_mono [OF _ b(2)]) (simp add: bounds_ok_def square_about_def)
  moreover have "tree_influence_bounds_m t suns cfg e = Inr b"
    using b(1) r unfolding tree_influence_bounds_m_def effective_height_def square_about_def sky_reach_def Let_def by simp
  ultimately show ?thesis using b(2,3) by blast
qed

section \<open>Pixels\<close>

definition pixel_of :: "raster_grid \<Rightarrow> real \<Rightarrow> real \<Rightarrow> int \<times> int" where
  "pixel_of g x y = (\<lfloor>(rg_origin_y_m g - y) / rg_pixel_size_m g\<rfloor>, \<lfloor>(x - rg_origin_x_m g) / rg_pixel_size_m g\<rfloor>)"

definition on_grid :: "raster_grid \<Rightarrow> int \<times> int \<Rightarrow> bool" where
  "on_grid g p \<longleftrightarrow> 0 \<le> fst p \<and> fst p < rg_rows g \<and> 0 \<le> snd p \<and> snd p < rg_cols g"

lemma floor_lt_ceiling: "(a :: real) < b \<Longrightarrow> \<lfloor>a\<rfloor> < \<lceil>b\<rceil>"
  by (meson floor_le_iff le_less_trans less_ceiling_iff linorder_not_less of_int_floor_le)

lemma world_window_spec:
  assumes "grid_ok g" "bounds_ok b"
  shows "\<exists>w. world_bounds_to_window g b = Inr w \<and> window_ok w \<and> inside w (full_window g) \<and>
    (\<forall>x y. meets b x y \<and> on_grid g (pixel_of g x y) \<longrightarrow> pixel_of g x y \<in> cells w)"
proof -
  obtain x0 y0 x1 y1 where b: "b = (x0, y0, x1, y1)" by (cases b) auto
  have p: "0 < rg_pixel_size_m g" and xy: "x0 < x1" "y0 < y1" using assms b by (auto simp: grid_ok_def bounds_ok_def)
  let ?row = "\<lambda>y. (rg_origin_y_m g - y) / rg_pixel_size_m g" and ?col = "\<lambda>x. (x - rg_origin_x_m g) / rg_pixel_size_m g"
  have rows: "\<lfloor>?row y1\<rfloor> \<le> \<lceil>?row y0\<rceil>" and cols: "\<lfloor>?col x0\<rfloor> \<le> \<lceil>?col x1\<rceil>"
    using floor_lt_ceiling [of "?row y1" "?row y0"] floor_lt_ceiling [of "?col x0" "?col x1"] xy p
    by (simp_all add: divide_strict_right_mono)
  let ?w = "\<lparr>rw_row_start = \<lfloor>?row y1\<rfloor>, rw_row_stop = \<lceil>?row y0\<rceil>, rw_col_start = \<lfloor>?col x0\<rfloor>, rw_col_stop = \<lceil>?col x1\<rceil>\<rparr>"
  have "window_ok ?w" using rows cols by (simp only: window_ok_def raster_window.simps)
  then obtain w where w: "rw_clamp ?w (rg_rows g) (rg_cols g) = Inr w" "window_ok w"
    "cells w = cells ?w \<inter> {0 ..< rg_rows g} \<times> {0 ..< rg_cols g}"
    "0 \<le> rw_row_start w" "rw_row_stop w \<le> rg_rows g" "0 \<le> rw_col_start w" "rw_col_stop w \<le> rg_cols g"
    using rw_clamp_cells assms(1) unfolding grid_ok_def by metis
  have "world_bounds_to_window g b = Inr w"
    using xy w(1) unfolding world_bounds_to_window_def b by (simp add: mk_window_Inr [OF rows cols])
  moreover have "pixel_of g x y \<in> cells w" if m: "meets b x y" "on_grid g (pixel_of g x y)" for x y
  proof -
    have xy': "x0 \<le> x" "x < x1" "y0 < y" "y \<le> y1" using m(1) b by (auto simp: meets_def)
    have "\<lfloor>?row y1\<rfloor> \<le> \<lfloor>?row y\<rfloor>" "\<lfloor>?col x0\<rfloor> \<le> \<lfloor>?col x\<rfloor>"
      using xy' p by (intro floor_mono divide_right_mono; simp)+
    moreover have "\<lfloor>?row y\<rfloor> < \<lceil>?row y0\<rceil>" "\<lfloor>?col x\<rfloor> < \<lceil>?col x1\<rceil>"
      using xy' p by (intro floor_lt_ceiling divide_strict_right_mono; simp)+
    ultimately show ?thesis using m(2) unfolding w(3) by (simp add: pixel_of_def on_grid_def cells_def)
  qed
  ultimately show ?thesis using w by (auto simp: inside_def full_window_def)
qed

section \<open>Dirty windows\<close>

lemma join_bounds_le: "bounds_le a (join_bounds a b)" "bounds_le b (join_bounds a b)"
  by (auto simp: join_bounds_def bounds_le_def split: prod.splits)

lemma fold_join_le: "x \<in> set (b # bs) \<Longrightarrow> bounds_le x (fold (\<lambda>b acc. join_bounds acc b) bs b)"
proof (induction bs arbitrary: b x)
  case (Cons c bs)
  have le: "bounds_le (join_bounds b c) (fold (\<lambda>b acc. join_bounds acc b) bs (join_bounds b c))"
    by (rule Cons.IH) simp
  from Cons.prems consider "x = b" | "x = c" | "x \<in> set bs" by auto
  then show ?case
  proof cases
    case 1
    then show ?thesis using bounds_le_trans [OF join_bounds_le(1) le] by simp
  next
    case 2
    then show ?thesis using bounds_le_trans [OF join_bounds_le(2) le] by simp
  next
    case 3
    then show ?thesis using Cons.IH [of x "join_bounds b c"] by simp
  qed
qed simp

lemma align_clamp_spec:
  assumes "grid_ok g" "window_ok w" "0 < block" "inside w (full_window g)"
  shows "\<exists>v. bind_exc (rw_align w block) (\<lambda>w. rw_clamp w (rg_rows g) (rg_cols g)) = Inr v \<and> window_ok v \<and>
    inside v (full_window g) \<and> cells w \<subseteq> cells v"
proof -
  obtain u where u: "rw_align w block = Inr u" "window_ok u" "inside w u" using rw_align_window [OF assms(2,3)] by metis
  obtain v where v: "rw_clamp u (rg_rows g) (rg_cols g) = Inr v" "window_ok v"
    "cells v = cells u \<inter> {0 ..< rg_rows g} \<times> {0 ..< rg_cols g}"
    "0 \<le> rw_row_start v" "rw_row_stop v \<le> rg_rows g" "0 \<le> rw_col_start v" "rw_col_stop v \<le> rg_cols g"
    using rw_clamp_cells [OF u(2)] assms(1) unfolding grid_ok_def by metis
  have "cells w \<subseteq> cells u" "cells w \<subseteq> cells (full_window g)" using u(3) assms(4) by (auto dest: inside_cells)
  then have "cells w \<subseteq> cells v" unfolding v(3) by (auto simp: cells_def full_window_def)
  then show ?thesis using u(1) v by (auto simp: inside_def full_window_def)
qed

text \<open>The points a tree can influence: strictly inside its sky-view square or one of its corridors.\<close>

definition reached_by :: "tree_spec \<Rightarrow> sun_position list \<Rightarrow> influence_config \<Rightarrow> real option \<Rightarrow> real \<Rightarrow> real \<Rightarrow> bool" where
  "reached_by t suns cfg e x y \<longleftrightarrow>
     \<bar>x - ts_x_m t\<bar> < sky_reach t cfg (effective_height t cfg e) \<and> \<bar>y - ts_y_m t\<bar> < sky_reach t cfg (effective_height t cfg e) \<or>
     (\<exists>sun\<in>set suns. on_corridor t cfg (effective_height t cfg e) sun x y)"

lemma tree_bounds_reached:
  assumes "tree_ok t" "config_ok cfg" "\<And>v. e = Some v \<Longrightarrow> 0 \<le> v"
  shows "\<exists>b. tree_influence_bounds_m t suns cfg e = Inr b \<and> bounds_ok b \<and> (\<forall>x y. reached_by t suns cfg e x y \<longrightarrow> meets b x y)"
proof -
  obtain b where b: "tree_influence_bounds_m t suns cfg e = Inr b" "bounds_ok b"
    "bounds_le (square_about t (sky_reach t cfg (effective_height t cfg e))) b"
    "\<forall>sun\<in>set suns. \<forall>x y. on_corridor t cfg (effective_height t cfg e) sun x y \<longrightarrow> meets b x y"
    using tree_bounds_spec [OF assms] by blast
  have "meets b x y" if "reached_by t suns cfg e x y" for x y
    using that unfolding reached_by_def
  proof
    assume "\<bar>x - ts_x_m t\<bar> < sky_reach t cfg (effective_height t cfg e) \<and> \<bar>y - ts_y_m t\<bar> < sky_reach t cfg (effective_height t cfg e)"
    then show ?thesis by (intro meets_mono [OF _ b(3)]) (auto simp: meets_def square_about_def abs_less_iff)
  qed (use b(4) in blast)
  then show ?thesis using b(1,2) by blast
qed

definition offsets_ok :: "(tree_spec \<Rightarrow> real) option \<Rightarrow> tree_spec list \<Rightarrow> bool" where
  "offsets_ok offs ts \<longleftrightarrow> (\<forall>f. offs = Some f \<longrightarrow> (\<forall>t\<in>set ts. 0 \<le> f t))"

lemma dirty_window_spec:
  assumes "grid_ok g" "config_ok cfg" "old = None \<longrightarrow> new \<noteq> None"
    and "\<And>t. t \<in> set_option old \<union> set_option new \<Longrightarrow> tree_ok t"
    and "\<And>f t. offs = Some f \<Longrightarrow> t \<in> set_option old \<union> set_option new \<Longrightarrow> 0 \<le> f t"
  shows "\<exists>w. dirty_window_for_edit g old new suns cfg offs = Inr w \<and> window_ok w \<and> inside w (full_window g) \<and>
    (\<forall>t\<in>set_option old \<union> set_option new. \<forall>x y.
       reached_by t suns cfg (map_option (\<lambda>f. f t) offs) x y \<and> on_grid g (pixel_of g x y) \<longrightarrow> pixel_of g x y \<in> cells w)"
proof -
  let ?e = "\<lambda>t. map_option (\<lambda>f. f t) offs" and ?ts = "set_option old \<union> set_option new"
  let ?list = "(case old of None \<Rightarrow> [] | Some t \<Rightarrow> [t]) @ (case new of None \<Rightarrow> [] | Some t \<Rightarrow> [t])"
  let ?P = "\<lambda>t b. tree_influence_bounds_m t suns cfg (?e t) = Inr b \<and> bounds_ok b \<and> (\<forall>x y. reached_by t suns cfg (?e t) x y \<longrightarrow> meets b x y)"
  have "\<exists>b. ?P t b" if "t \<in> ?ts" for t
    by (rule tree_bounds_reached [OF assms(4) [OF that] assms(2)]) (use assms(5) [OF _ that] in \<open>auto simp only: map_option_eq_Some\<close>)
  then obtain bd where all: "\<forall>t\<in>?ts. ?P t (bd t)" using bchoice [of ?ts ?P] by blast
  have bd: "tree_influence_bounds_m t suns cfg (?e t) = Inr (bd t)" and ok: "bounds_ok (bd t)" if "t \<in> ?ts" for t
    using all that by blast+
  have reach: "meets (bd t) x y" if "t \<in> ?ts" "reached_by t suns cfg (?e t) x y" for t x y using all that by blast
  have list: "set ?list = ?ts" "?list \<noteq> []" using assms(3) by (auto split: option.splits)
  obtain b bs where join: "map bd ?list = b # bs" using list(2) by (cases "map bd ?list") auto
  let ?j = "fold (\<lambda>b acc. join_bounds acc b) bs b"
  have le: "bounds_le x ?j" if "x \<in> set (b # bs)" for x using that fold_join_le by blast
  have "b \<in> bd ` ?ts" using join unfolding list(1) [symmetric] set_map [symmetric] by simp
  then have "bounds_ok b" using ok by blast
  then have okj: "bounds_ok ?j" by (rule bounds_ok_mono) (rule le, simp)
  obtain w where w: "world_bounds_to_window g ?j = Inr w" "window_ok w" "inside w (full_window g)"
    "\<forall>x y. meets ?j x y \<and> on_grid g (pixel_of g x y) \<longrightarrow> pixel_of g x y \<in> cells w"
    using world_window_spec [OF assms(1) okj] by blast
  obtain v where v: "bind_exc (rw_align w (ic_block_size_pixels cfg)) (\<lambda>w. rw_clamp w (rg_rows g) (rg_cols g)) = Inr v"
    "window_ok v" "inside v (full_window g)" "cells w \<subseteq> cells v"
    using align_clamp_spec [OF assms(1) w(2) _ w(3)] assms(2) by (auto simp: config_ok_def)
  have "traverse (\<lambda>t. tree_influence_bounds_m t suns cfg (?e t)) (case ot of None \<Rightarrow> [] | Some t \<Rightarrow> [t]) =
      Inr (map bd (case ot of None \<Rightarrow> [] | Some t \<Rightarrow> [t]))" if "set_option ot \<subseteq> ?ts" for ot
    using that bd by (cases ot) auto
  then have "dirty_window_for_edit g old new suns cfg offs = Inr v"
    using w(1) v(1) join by (simp add: dirty_window_for_edit_def Let_def)
  moreover have "pixel_of g x y \<in> cells v" if t: "t \<in> ?ts" and r: "reached_by t suns cfg (?e t) x y" "on_grid g (pixel_of g x y)" for t x y
  proof -
    have "bd t \<in> set (b # bs)" using t unfolding join [symmetric] list(1) [symmetric] set_map by (rule imageI)
    then have "meets ?j x y" by (rule meets_mono [OF reach [OF t r(1)] le])
    then show ?thesis using w(4) r(2) v(4) by blast
  qed
  ultimately show ?thesis using v(2,3) by blast
qed

section \<open>Minima and maxima of a raster window\<close>

lemma array_min_spec: "xs \<noteq> [] \<Longrightarrow> \<exists>m\<in>set xs. array_min xs = Inr m \<and> (\<forall>x\<in>set xs. m \<le> x)"
proof -
  assume "xs \<noteq> []"
  then obtain x ys where xs: "xs = x # ys" by (cases xs) auto
  have "fold min ys x = Min (set xs)" unfolding xs by (rule Min.set_eq_fold [symmetric])
  moreover have "Min (set xs) \<in> set xs" by (rule Min_in) (simp_all add: xs)
  ultimately show ?thesis by (intro bexI [of _ "Min (set xs)"]) (simp_all add: array_min_def xs)
qed

lemma array_max_spec: "xs \<noteq> [] \<Longrightarrow> \<exists>m\<in>set xs. array_max xs = Inr m \<and> (\<forall>x\<in>set xs. x \<le> m)"
proof -
  assume "xs \<noteq> []"
  then obtain x ys where xs: "xs = x # ys" by (cases xs) auto
  have "fold max ys x = Max (set xs)" unfolding xs by (rule Max.set_eq_fold [symmetric])
  moreover have "Max (set xs) \<in> set xs" by (rule Max_in) (simp_all add: xs)
  ultimately show ?thesis by (intro bexI [of _ "Max (set xs)"]) (simp_all add: array_max_def xs)
qed

lemma set_window_values: "set (window_values a w) = (\<lambda>p. a (fst p) (snd p)) ` cells w"
  by (force simp: window_values_def cells_def)

lemma lowest_spec:
  assumes "cells w \<noteq> {}"
  obtains m where "array_min (window_values a w) = Inr m" "\<And>p. p \<in> cells w \<Longrightarrow> m \<le> a (fst p) (snd p)"
    "\<exists>p\<in>cells w. m = a (fst p) (snd p)"
proof -
  have "window_values a w \<noteq> []" using assms set_window_values [of a w] by (metis image_is_empty set_empty)
  then obtain m where m: "m \<in> set (window_values a w)" "array_min (window_values a w) = Inr m"
    "\<forall>x\<in>set (window_values a w). m \<le> x" using array_min_spec by blast
  show thesis by (rule that [OF m(2)]) (use m(1,3) in \<open>auto simp: set_window_values\<close>)
qed

lemma highest_total: "p \<in> cells w \<Longrightarrow> \<exists>m. array_max (window_values a w) = Inr m"
proof -
  assume "p \<in> cells w"
  then have "a (fst p) (snd p) \<in> set (window_values a w)" unfolding set_window_values by (rule imageI)
  then have "window_values a w \<noteq> []" by auto
  then show ?thesis using array_max_spec by blast
qed

section \<open>The relief search\<close>

lemma relief_loop_stable:
  assumes "\<And>v. 0 \<le> v \<Longrightarrow> \<exists>w m. window_at v = Inr w \<and> lowest w = Inr m \<and> m = low v"
    and "0 \<le> v" "window_at v = Inr w"
  shows "\<exists>res. relief_loop base window_at lowest n v w = Inr res \<and> (\<forall>e. res = Some e \<longrightarrow> 0 \<le> e \<and> base - low e \<le> e)"
  using assms(2,3)
proof (induction n arbitrary: v w)
  case (Suc n)
  have low: "lowest w = Inr (low v)" using assms(1) [OF Suc.prems(1)] Suc.prems(2) by auto
  show ?case
  proof (cases "max 0 (base - low v) \<le> v")
    case True
    then show ?thesis using Suc.prems low by simp
  next
    case False
    obtain w' where "window_at (max 0 (base - low v)) = Inr w'" using assms(1) [of "max 0 (base - low v)"] by auto
    then show ?thesis using Suc.IH [of "max 0 (base - low v)" w'] low False by (auto simp: Let_def)
  qed
qed simp

lemma relief_loop_least:
  assumes "\<And>v. 0 \<le> v \<Longrightarrow> \<exists>w m. window_at v = Inr w \<and> lowest w = Inr m \<and> m = low v"
    and "\<And>u v. 0 \<le> u \<Longrightarrow> u \<le> v \<Longrightarrow> low v \<le> low u"
    and "0 \<le> v" "window_at v = Inr w" "v \<le> f" "base - low f \<le> f"
    and "relief_loop base window_at lowest n v w = Inr (Some e)"
  shows "e \<le> f"
  using assms(3-7)
proof (induction n arbitrary: v w)
  case (Suc n)
  have low: "lowest w = Inr (low v)" using assms(1) [OF Suc.prems(1)] Suc.prems(2) by auto
  show ?case
  proof (cases "max 0 (base - low v) \<le> v")
    case True
    then show ?thesis using Suc.prems low by simp
  next
    case False
    let ?v = "max 0 (base - low v)"
    obtain w' where w': "window_at ?v = Inr w'" using assms(1) [of ?v] by auto
    have "base - low v \<le> base - low f" using assms(2) [OF Suc.prems(1,3)] by simp
    then have "?v \<le> f" using Suc.prems(1,3,4) by simp
    then show ?thesis using Suc.IH [of ?v w'] w' low False Suc.prems(4,5) by (auto simp: Let_def split: if_splits)
  qed
qed simp

text \<open>The bounds grow with the effective height, so the windows do and their lowest cells fall.\<close>

lemma scaled:
  fixes l l' :: real
  assumes "0 < l" "l \<le> l'"
  shows "\<exists>s. 0 \<le> s \<and> s \<le> 1 \<and> - l * a = s * (- l' * a) \<and> - l * b = s * (- l' * b)"
  using assms by (intro exI [of _ "l / l'"]) auto

lemma shadow_vector_mono:
  assumes "0 < h" "h \<le> h'" "config_ok cfg"
    and "shadow_vector_m h sun (ic_minimum_direct_sun_altitude_deg cfg) (ic_maximum_shadow_length_m cfg) = Inr (dx, dy)"
    and "shadow_vector_m h' sun (ic_minimum_direct_sun_altitude_deg cfg) (ic_maximum_shadow_length_m cfg) = Inr (dx', dy')"
  shows "\<exists>s. 0 \<le> s \<and> s \<le> 1 \<and> dx = s * dx' \<and> dy = s * dy'"
proof -
  let ?alt = "min (max (sp_altitude_deg sun) (ic_minimum_direct_sun_altitude_deg cfg)) (89999 / 1000)"
  let ?az = "radians (py_fmod (sp_azimuth_deg sun) 360)"
  let ?len = "\<lambda>h. min (h / tan (radians ?alt)) (ic_maximum_shadow_length_m cfg)"
  have t: "0 < tan (radians ?alt)" using assms(3) by (intro tan_radians_pos) (auto simp: config_ok_def)
  have len: "0 < ?len h" "?len h \<le> ?len h'"
    using assms(1,3) t by (simp add: config_ok_def) (rule min.mono [OF divide_right_mono [OF assms(2) less_imp_le [OF t]] order_refl])
  have v: "dx = - ?len h * sin ?az" "dy = - ?len h * cos ?az" "dx' = - ?len h' * sin ?az" "dy' = - ?len h' * cos ?az"
    using assms by (auto simp: shadow_vector_m_def config_ok_def Let_def split: if_splits)
  show ?thesis unfolding v by (rule scaled [OF len])
qed

lemma min_step:
  fixes d :: real
  assumes "x' \<le> x" "min 0 d \<le> e"
  shows "min x' (min (p - r) (p + d - r)) \<le> min x (min (p - r) (p + e - r))"
proof -
  have "min (p - r) (p + d - r) \<le> p + e - r" using assms(2) by (cases "0 \<le> d") auto
  then show ?thesis using assms(1) by (auto simp: min_le_iff_disj)
qed

lemma max_step:
  fixes d :: real
  assumes "x \<le> x'" "e \<le> max 0 d"
  shows "max x (max (p + r) (p + e + r)) \<le> max x' (max (p + r) (p + d + r))"
proof -
  have "p + e + r \<le> max (p + r) (p + d + r)" using assms(2) by (cases "0 \<le> d") auto
  then show ?thesis using assms(1) by (auto simp: le_max_iff_disj)
qed

lemma widen_mono:
  assumes "0 < h" "h \<le> h'" "config_ok cfg" "bounds_le b b'"
    and "widen_by_shadow t h cfg b sun = Inr c" "widen_by_shadow t h' cfg b' sun = Inr c'"
  shows "bounds_le c c'"
proof -
  obtain dx dy dx' dy' where
    v: "shadow_vector_m h sun (ic_minimum_direct_sun_altitude_deg cfg) (ic_maximum_shadow_length_m cfg) = Inr (dx, dy)" and
    v': "shadow_vector_m h' sun (ic_minimum_direct_sun_altitude_deg cfg) (ic_maximum_shadow_length_m cfg) = Inr (dx', dy')"
    using shadow_vector_total assms(1,2,3) by (meson less_le_trans)
  obtain s where s: "0 \<le> s" "s \<le> 1" "dx = s * dx'" "dy = s * dy'" using shadow_vector_mono [OF assms(1,2,3) v v'] by blast
  have seg: "min 0 d' \<le> s * d' \<and> s * d' \<le> max 0 d'" for d' :: real
  proof (cases "0 \<le> d'")
    case True
    then show ?thesis using s(1,2) mult_left_le_one_le [of d' s] by simp
  next
    case False
    then show ?thesis using s(1,2) mult_left_le_one_le [of "- d'" s] by (simp add: mult_nonneg_nonpos)
  qed
  obtain x0 y0 x1 y1 where b: "b = (x0, y0, x1, y1)" by (cases b) auto
  obtain x0' y0' x1' y1' where b': "b' = (x0', y0', x1', y1')" by (cases b') auto
  have le: "x0' \<le> x0" "y0' \<le> y0" "x1 \<le> x1'" "y1 \<le> y1'" using assms(4) b b' by (auto simp: bounds_le_def)
  note x = seg [of dx'] and y = seg [of dy']
  have c: "c = (min x0 (min (ts_x_m t - (ts_canopy_radius_m t + ic_safety_margin_m cfg)) (ts_x_m t + s * dx' - (ts_canopy_radius_m t + ic_safety_margin_m cfg))),
      min y0 (min (ts_y_m t - (ts_canopy_radius_m t + ic_safety_margin_m cfg)) (ts_y_m t + s * dy' - (ts_canopy_radius_m t + ic_safety_margin_m cfg))),
      max x1 (max (ts_x_m t + (ts_canopy_radius_m t + ic_safety_margin_m cfg)) (ts_x_m t + s * dx' + (ts_canopy_radius_m t + ic_safety_margin_m cfg))),
      max y1 (max (ts_y_m t + (ts_canopy_radius_m t + ic_safety_margin_m cfg)) (ts_y_m t + s * dy' + (ts_canopy_radius_m t + ic_safety_margin_m cfg))))"
    using assms(5) v s(3,4) b by (simp add: widen_by_shadow_def Let_def)
  have c': "c' = (min x0' (min (ts_x_m t - (ts_canopy_radius_m t + ic_safety_margin_m cfg)) (ts_x_m t + dx' - (ts_canopy_radius_m t + ic_safety_margin_m cfg))),
      min y0' (min (ts_y_m t - (ts_canopy_radius_m t + ic_safety_margin_m cfg)) (ts_y_m t + dy' - (ts_canopy_radius_m t + ic_safety_margin_m cfg))),
      max x1' (max (ts_x_m t + (ts_canopy_radius_m t + ic_safety_margin_m cfg)) (ts_x_m t + dx' + (ts_canopy_radius_m t + ic_safety_margin_m cfg))),
      max y1' (max (ts_y_m t + (ts_canopy_radius_m t + ic_safety_margin_m cfg)) (ts_y_m t + dy' + (ts_canopy_radius_m t + ic_safety_margin_m cfg))))"
    using assms(6) v' b' by (simp add: widen_by_shadow_def Let_def)
  show ?thesis unfolding c c' bounds_le_def prod.case
    by (intro conjI min_step max_step le conjunct1 [OF x] conjunct2 [OF x] conjunct1 [OF y] conjunct2 [OF y])
qed

lemma widen_fold_mono:
  assumes "0 < h" "h \<le> h'" "config_ok cfg" "bounds_le b b'"
    and "fold_exc (widen_by_shadow t h cfg) b suns = Inr c" "fold_exc (widen_by_shadow t h' cfg) b' suns = Inr c'"
  shows "bounds_le c c'"
  using assms(4-6)
proof (induction suns arbitrary: b b')
  case (Cons sun suns)
  then obtain d d' where d: "widen_by_shadow t h cfg b sun = Inr d" "fold_exc (widen_by_shadow t h cfg) d suns = Inr c"
    "widen_by_shadow t h' cfg b' sun = Inr d'" "fold_exc (widen_by_shadow t h' cfg) d' suns = Inr c'"
    by (auto split: sum.splits)
  show ?case by (rule Cons.IH [OF widen_mono [OF assms(1,2,3) Cons.prems(1) d(1,3)] d(2,4)])
qed simp

definition site_offset_cfg :: "influence_config \<Rightarrow> real \<Rightarrow> influence_config" where
  "site_offset_cfg cfg v = cfg\<lparr>ic_elevation_offset_m := v\<rparr>"

lemma site_offset_cfg_ok: "config_ok cfg \<Longrightarrow> 0 \<le> v \<Longrightarrow> config_ok (site_offset_cfg cfg v)"
  by (simp add: config_ok_def site_offset_cfg_def)

lemma offset_cfg_fields [simp]:
  "ic_minimum_direct_sun_altitude_deg (site_offset_cfg cfg v) = ic_minimum_direct_sun_altitude_deg cfg"
  "ic_maximum_shadow_length_m (site_offset_cfg cfg v) = ic_maximum_shadow_length_m cfg"
  "ic_safety_margin_m (site_offset_cfg cfg v) = ic_safety_margin_m cfg"
  "ic_lowest_sky_patch_altitude_deg (site_offset_cfg cfg v) = ic_lowest_sky_patch_altitude_deg cfg"
  "ic_elevation_offset_m (site_offset_cfg cfg v) = v"
  by (simp_all add: site_offset_cfg_def)

lemma widen_offset_cfg: "widen_by_shadow t h (site_offset_cfg cfg v) = widen_by_shadow t h cfg"
  by (intro ext) (simp add: widen_by_shadow_def)

lemma tree_bounds_offset:
  assumes "tree_ok t" "config_ok cfg" "0 \<le> v"
  shows "tree_influence_bounds_m t suns (site_offset_cfg cfg v) None =
    fold_exc (widen_by_shadow t (ts_height_m t + v) cfg) (square_about t (sky_reach t cfg (ts_height_m t + v))) suns"
proof -
  have "0 < ts_height_m t + v" using assms by (simp add: tree_ok_def)
  then show ?thesis
    using svf_radius_total [OF _ assms(2), of "ts_height_m t + v"]
    by (auto simp: tree_influence_bounds_m_def widen_offset_cfg square_about_def sky_reach_def Let_def)
qed

lemma tree_bounds_mono:
  assumes "tree_ok t" "config_ok cfg" "0 \<le> u" "u \<le> v"
    and "tree_influence_bounds_m t suns (site_offset_cfg cfg u) None = Inr b"
    and "tree_influence_bounds_m t suns (site_offset_cfg cfg v) None = Inr b'"
  shows "bounds_le b b'"
proof -
  let ?h = "ts_height_m t + u" and ?h' = "ts_height_m t + v"
  let ?T = "tan (radians (ic_lowest_sky_patch_altitude_deg cfg))"
  have h: "0 < ?h" "?h \<le> ?h'" using assms(1,3,4) by (auto simp: tree_ok_def)
  have T: "0 < ?T" using assms(2) by (intro tan_radians_pos) (auto simp: config_ok_def)
  have "sky_reach t cfg ?h \<le> sky_reach t cfg ?h'"
    unfolding sky_reach_def
    by (intro add_right_mono max.mono min.mono order_refl divide_right_mono [OF h(2) less_imp_le [OF T]])
  then have sq: "bounds_le (square_about t (sky_reach t cfg ?h)) (square_about t (sky_reach t cfg ?h'))"
    by (simp add: bounds_le_def square_about_def)
  show ?thesis
    using widen_fold_mono [OF h assms(2) sq] assms tree_bounds_offset [OF assms(1,2)] by simp
qed

lemma mk_window_InrD:
  "mk_window r0 r1 c0 c1 = Inr w \<Longrightarrow> w = \<lparr>rw_row_start = r0, rw_row_stop = r1, rw_col_start = c0, rw_col_stop = c1\<rparr>"
  unfolding mk_window_def by (simp split: if_splits)

lemma rw_clamp_InrD:
  "rw_clamp u rows cols = Inr w \<Longrightarrow>
   w = \<lparr>rw_row_start = max 0 (min rows (rw_row_start u)), rw_row_stop = max 0 (min rows (rw_row_stop u)),
        rw_col_start = max 0 (min cols (rw_col_start u)), rw_col_stop = max 0 (min cols (rw_col_stop u))\<rparr>"
  unfolding rw_clamp_def by (cases "rows \<le> 0 \<or> cols \<le> 0") (simp, simp only: if_False mk_window_InrD)

lemma world_window_fields:
  assumes "world_bounds_to_window g (x0, y0, x1, y1) = Inr w"
  shows "w = \<lparr>rw_row_start = max 0 (min (rg_rows g) \<lfloor>(rg_origin_y_m g - y1) / rg_pixel_size_m g\<rfloor>),
     rw_row_stop = max 0 (min (rg_rows g) \<lceil>(rg_origin_y_m g - y0) / rg_pixel_size_m g\<rceil>),
     rw_col_start = max 0 (min (rg_cols g) \<lfloor>(x0 - rg_origin_x_m g) / rg_pixel_size_m g\<rfloor>),
     rw_col_stop = max 0 (min (rg_cols g) \<lceil>(x1 - rg_origin_x_m g) / rg_pixel_size_m g\<rceil>)\<rparr>"
proof (cases "x1 < x0 \<or> y1 < y0")
  case False
  then obtain u where u: "mk_window \<lfloor>(rg_origin_y_m g - y1) / rg_pixel_size_m g\<rfloor> \<lceil>(rg_origin_y_m g - y0) / rg_pixel_size_m g\<rceil>
      \<lfloor>(x0 - rg_origin_x_m g) / rg_pixel_size_m g\<rfloor> \<lceil>(x1 - rg_origin_x_m g) / rg_pixel_size_m g\<rceil> = Inr u"
    "rw_clamp u (rg_rows g) (rg_cols g) = Inr w"
    using assms by (simp only: world_bounds_to_window_def prod.case if_False bind_exc_Inr) blast
  show ?thesis using rw_clamp_InrD [OF u(2)] unfolding mk_window_InrD [OF u(1)] raster_window.simps .
qed (use assms in \<open>simp add: world_bounds_to_window_def\<close>)

lemma world_window_mono:
  assumes "grid_ok g" "bounds_ok b" "bounds_le b b'" "world_bounds_to_window g b = Inr w" "world_bounds_to_window g b' = Inr w'"
  shows "inside w w'"
proof -
  obtain x0 y0 x1 y1 where b: "b = (x0, y0, x1, y1)" by (cases b) auto
  obtain x0' y0' x1' y1' where b': "b' = (x0', y0', x1', y1')" by (cases b') auto
  have le: "x0' \<le> x0" "y0' \<le> y0" "x1 \<le> x1'" "y1 \<le> y1'" using assms(3) b b' by (auto simp: bounds_le_def)
  have p: "0 \<le> rg_pixel_size_m g" using assms(1) by (simp add: grid_ok_def)
  let ?row = "\<lambda>y. (rg_origin_y_m g - y) / rg_pixel_size_m g" and ?col = "\<lambda>x. (x - rg_origin_x_m g) / rg_pixel_size_m g"
  have m: "\<lfloor>?row y1'\<rfloor> \<le> \<lfloor>?row y1\<rfloor>" "\<lceil>?row y0\<rceil> \<le> \<lceil>?row y0'\<rceil>" "\<lfloor>?col x0'\<rfloor> \<le> \<lfloor>?col x0\<rfloor>" "\<lceil>?col x1\<rceil> \<le> \<lceil>?col x1'\<rceil>"
    using le p by (intro floor_mono ceiling_mono divide_right_mono; simp)+
  note w = world_window_fields [OF assms(4) [unfolded b]] and w' = world_window_fields [OF assms(5) [unfolded b']]
  show ?thesis unfolding inside_def w w' raster_window.simps using m by (intro conjI clamp_mono)
qed

lemma tree_cell_pixel: "tree_cell g t = Some p \<Longrightarrow> p = pixel_of g (ts_x_m t) (ts_y_m t) \<and> on_grid g p"
  by (auto simp: tree_cell_def pixel_of_def on_grid_def Let_def split: if_splits)

lemma sky_reach_pos: "tree_ok t \<Longrightarrow> config_ok cfg \<Longrightarrow> 0 < sky_reach t cfg h"
  by (simp add: sky_reach_def tree_ok_def config_ok_def add_pos_nonneg less_max_iff_disj)

lemma offset_window_spec:
  assumes "grid_ok g" "config_ok cfg" "tree_ok t" "tree_cell g t = Some p" "0 \<le> v"
  obtains w b where "offset_window g suns cfg t v = Inr w" "window_ok w" "inside w (full_window g)" "p \<in> cells w"
    "tree_influence_bounds_m t suns (site_offset_cfg cfg v) None = Inr b" "bounds_ok b" "world_bounds_to_window g b = Inr w"
proof -
  let ?c = "site_offset_cfg cfg v"
  have c: "config_ok ?c" by (rule site_offset_cfg_ok [OF assms(2,5)])
  obtain b where b: "tree_influence_bounds_m t suns ?c None = Inr b" "bounds_ok b"
    "\<forall>x y. reached_by t suns ?c None x y \<longrightarrow> meets b x y" using tree_bounds_reached [OF assms(3) c, of None suns] by auto
  obtain w where w: "world_bounds_to_window g b = Inr w" "window_ok w" "inside w (full_window g)"
    "\<forall>x y. meets b x y \<and> on_grid g (pixel_of g x y) \<longrightarrow> pixel_of g x y \<in> cells w"
    using world_window_spec [OF assms(1) b(2)] by blast
  have "reached_by t suns ?c None (ts_x_m t) (ts_y_m t)" using sky_reach_pos [OF assms(3) c] by (simp add: reached_by_def)
  then have "p \<in> cells w" using b(3) w(4) tree_cell_pixel [OF assms(4)] by blast
  moreover have "offset_window g suns cfg t v = Inr w"
    using b(1) w(1) c by (simp add: offset_window_def site_offset_cfg_def check_influence_config_ok [THEN iffD2])
  ultimately show thesis using that w b by blast
qed

lemma offset_window_mono:
  assumes "grid_ok g" "config_ok cfg" "tree_ok t" "tree_cell g t = Some p" "0 \<le> u" "u \<le> v"
    and "offset_window g suns cfg t u = Inr w" "offset_window g suns cfg t v = Inr w'"
  shows "inside w w'"
proof -
  have v: "0 \<le> v" using assms(5,6) by simp
  obtain b where b: "tree_influence_bounds_m t suns (site_offset_cfg cfg u) None = Inr b" "bounds_ok b" "world_bounds_to_window g b = Inr w"
    using offset_window_spec [OF assms(1-5), of suns] assms(7) by (metis Inr_inject)
  obtain b' where b': "tree_influence_bounds_m t suns (site_offset_cfg cfg v) None = Inr b'" "world_bounds_to_window g b' = Inr w'"
    using offset_window_spec [OF assms(1-4) v, of suns] assms(8) by (metis Inr_inject)
  show ?thesis by (rule world_window_mono [OF assms(1) b(2) tree_bounds_mono [OF assms(3,2,5,6) b(1) b'(1)] b(3) b'(2)])
qed

text \<open>An offset is stable when no cell of its own window lies deeper below the tree.\<close>

definition stable_offset ::
  "raster_grid \<Rightarrow> raster \<Rightarrow> sun_position list \<Rightarrow> influence_config \<Rightarrow> tree_spec \<Rightarrow> real \<Rightarrow> real \<Rightarrow> bool" where
  "stable_offset g a suns cfg t base v \<longleftrightarrow> 0 \<le> v \<and>
     (\<exists>w. offset_window g suns cfg t v = Inr w \<and> (\<forall>p\<in>cells w. base - a (fst p) (snd p) \<le> v))"

lemma site_drop_stable:
  assumes "grid_ok g" "config_ok cfg" "tree_ok t" "tree_cell g t = Some p" "0 \<le> v"
    and "\<And>q. q \<in> cells (full_window g) \<Longrightarrow> base - a (fst q) (snd q) \<le> v"
  shows "stable_offset g a suns cfg t base v"
proof -
  obtain w where "offset_window g suns cfg t v = Inr w" "inside w (full_window g)"
    using offset_window_spec [OF assms(1-5), of suns] by metis
  then show ?thesis using assms(5,6) inside_cells unfolding stable_offset_def by blast
qed

lemma relief_search_spec:
  assumes "grid_ok g" "config_ok cfg" "tree_ok t" "tree_cell g t = Some p"
  shows "\<exists>res. local_elevation_offset_m (Fin base) (offset_window g suns cfg t) (\<lambda>w. array_min (window_values a w)) 3 = Inr res \<and>
    (\<forall>e. res = Some e \<longrightarrow> stable_offset g a suns cfg t base e \<and> (\<forall>f. stable_offset g a suns cfg t base f \<longrightarrow> e \<le> f))"
proof -
  let ?at = "offset_window g suns cfg t" and ?low = "\<lambda>w. array_min (window_values a w)"
  define low where "low v = projr (?low (projr (?at v)))" for v
  have at: "\<exists>w m. ?at v = Inr w \<and> ?low w = Inr m \<and> m = low v" and
    cell: "\<And>w q. ?at v = Inr w \<Longrightarrow> q \<in> cells w \<Longrightarrow> low v \<le> a (fst q) (snd q)" and
    hit: "\<And>w. ?at v = Inr w \<Longrightarrow> \<exists>q\<in>cells w. low v = a (fst q) (snd q)" if v0: "0 \<le> v" for v
  proof -
    obtain w where w: "?at v = Inr w" "p \<in> cells w" using offset_window_spec [OF assms v0, of suns] by metis
    then obtain m where "?low w = Inr m" "\<And>q. q \<in> cells w \<Longrightarrow> m \<le> a (fst q) (snd q)" "\<exists>q\<in>cells w. m = a (fst q) (snd q)"
      using lowest_spec [of w a] by blast
    then show "\<exists>w m. ?at v = Inr w \<and> ?low w = Inr m \<and> m = low v"
      "\<And>w q. ?at v = Inr w \<Longrightarrow> q \<in> cells w \<Longrightarrow> low v \<le> a (fst q) (snd q)"
      "\<And>w. ?at v = Inr w \<Longrightarrow> \<exists>q\<in>cells w. low v = a (fst q) (snd q)"
      using w(1) by (auto simp: low_def)
  qed
  have stable: "stable_offset g a suns cfg t base v \<longleftrightarrow> 0 \<le> v \<and> base - low v \<le> v" for v
  proof
    assume "stable_offset g a suns cfg t base v"
    then show "0 \<le> v \<and> base - low v \<le> v" using hit unfolding stable_offset_def by force
  next
    assume v: "0 \<le> v \<and> base - low v \<le> v"
    then obtain w where w: "?at v = Inr w" using at by blast
    have "base - a (fst q) (snd q) \<le> v" if "q \<in> cells w" for q using cell [OF _ w that] v by simp
    then show "stable_offset g a suns cfg t base v" using v w unfolding stable_offset_def by blast
  qed
  have anti: "low v \<le> low u" if uv: "0 \<le> u" "u \<le> v" for u v
  proof -
    have v: "0 \<le> v" using uv by simp
    obtain w w' where w: "?at u = Inr w" "?at v = Inr w'" using at [OF uv(1)] at [OF v] by blast
    obtain q where q: "q \<in> cells w" "low u = a (fst q) (snd q)" using hit [OF uv(1) w(1)] by blast
    have "q \<in> cells w'" using inside_cells [OF offset_window_mono [OF assms uv w]] q(1) by blast
    then show ?thesis using cell [OF v w(2)] q(2) by simp
  qed
  obtain w0 where w0: "?at 0 = Inr w0" using at [of 0] by auto
  have unfold: "local_elevation_offset_m (Fin base) ?at ?low 3 = relief_loop base ?at ?low (nat 3) 0 w0"
    by (simp add: local_elevation_offset_m_def finite_float_def w0 del: nat_numeral)
  obtain res where res: "relief_loop base ?at ?low (nat 3) 0 w0 = Inr res" "\<forall>e. res = Some e \<longrightarrow> 0 \<le> e \<and> base - low e \<le> e"
    using relief_loop_stable [of ?at ?low low 0 w0 base "nat 3", OF at _ w0] by auto
  have "e \<le> f" if "res = Some e" "stable_offset g a suns cfg t base f" for e f
    using relief_loop_least [of ?at ?low low 0 w0 f base "nat 3" e, OF at anti _ w0] that stable res(1) by simp
  then show ?thesis using res unfold stable by auto
qed

section \<open>The exact window\<close>

lemma set_grid_cells: "set (grid_cells g) = {q. on_grid g q}"
  by (auto simp: grid_cells_def on_grid_def)

lemma around_cell:
  assumes "0 \<le> n" "on_grid g p"
  shows "p \<in> cells \<lparr>rw_row_start = max 0 (fst p - n), rw_row_stop = min (rg_rows g) (fst p + n + 1),
    rw_col_start = max 0 (snd p - n), rw_col_stop = min (rg_cols g) (snd p + n + 1)\<rparr>"
  using assms by (cases p) (simp add: cells_def on_grid_def)

lemma crown_base_total:
  assumes "grid_ok g" "config_ok cfg" "tree_ok t" "tree_cell g t = Some p"
  shows "\<exists>m. crown_base g a cfg t p = Inr m"
proof -
  let ?reach = "\<lceil>(ts_canopy_radius_m t + ic_safety_margin_m cfg) / rg_pixel_size_m g\<rceil>"
  let ?w = "\<lparr>rw_row_start = max 0 (fst p - ?reach), rw_row_stop = min (rg_rows g) (fst p + ?reach + 1),
    rw_col_start = max 0 (snd p - ?reach), rw_col_stop = min (rg_cols g) (snd p + ?reach + 1)\<rparr>"
  have "0 < (ts_canopy_radius_m t + ic_safety_margin_m cfg) / rg_pixel_size_m g"
    using assms(1,2,3) by (simp add: grid_ok_def config_ok_def tree_ok_def add_pos_nonneg)
  then have "0 \<le> ?reach" by linarith
  moreover have "on_grid g p" using tree_cell_pixel [OF assms(4)] by blast
  ultimately have "p \<in> cells ?w" by (rule around_cell)
  then have "\<exists>m. array_max (window_values a ?w) = Inr m" by (rule highest_total)
  then show ?thesis unfolding crown_base_def Let_def .
qed

definition marked_by :: "raster_grid \<Rightarrow> raster \<Rightarrow> influence_config \<Rightarrow> real \<Rightarrow> tree_spec \<Rightarrow> int \<times> int \<Rightarrow> bool" where
  "marked_by g a cfg tan_min t q \<longleftrightarrow>
     (\<exists>p base. tree_cell g t = Some p \<and> crown_base g a cfg t p = Inr base \<and> on_grid g q \<and> tree_marks g a cfg tan_min t p base q)"

lemma marked_cells_spec:
  assumes "grid_ok g" "config_ok cfg" "\<forall>t\<in>set trees. tree_ok t"
  shows "\<exists>res. marked_cells g a cfg tan_min trees = Inr res \<and>
    (res = None \<longleftrightarrow> (\<forall>t\<in>set trees. tree_cell g t = None)) \<and>
    (case res of None \<Rightarrow> {} | Some ps \<Rightarrow> set ps) = {q. \<exists>t\<in>set trees. marked_by g a cfg tan_min t q}"
  using assms(3)
proof (induction trees)
  case (Cons t trees)
  then obtain res where res: "marked_cells g a cfg tan_min trees = Inr res"
    "res = None \<longleftrightarrow> (\<forall>t\<in>set trees. tree_cell g t = None)"
    "(case res of None \<Rightarrow> {} | Some ps \<Rightarrow> set ps) = {q. \<exists>t\<in>set trees. marked_by g a cfg tan_min t q}" by auto
  show ?case
  proof (cases "tree_cell g t")
    case None
    then show ?thesis using res by (auto simp: marked_by_def)
  next
    case (Some p)
    obtain base where base: "crown_base g a cfg t p = Inr base" using crown_base_total [OF assms(1,2) _ Some] Cons.prems by auto
    have "{q. marked_by g a cfg tan_min t q} = set (filter (tree_marks g a cfg tan_min t p base) (grid_cells g))"
      using Some base by (auto simp: marked_by_def set_grid_cells)
    then show ?thesis using res Some base by (cases res) auto
  qed
qed simp

definition march_floor :: "sun_position list \<Rightarrow> influence_config \<Rightarrow> real" where
  "march_floor suns cfg =
     (case minimum_positive_sun_altitude_deg suns of
        None \<Rightarrow> ic_lowest_sky_patch_altitude_deg cfg | Some v \<Rightarrow> min (ic_lowest_sky_patch_altitude_deg cfg) v)"

lemma own_cell_marked:
  assumes "grid_ok g" "config_ok cfg" "tree_ok t" "tree_cell g t = Some p"
  shows "marked_by g a cfg tan_min t p"
  using crown_base_total [OF assms, of a] tree_cell_pixel [OF assms(4)] assms(2,3,4)
  by (auto simp: marked_by_def tree_marks_def cheb_m_def tree_ok_def config_ok_def)

lemma exact_window_spec:
  assumes "grid_ok g" "config_ok cfg" "\<forall>t\<in>set trees. tree_ok t"
  shows "\<exists>res. exact_influence_window g a suns trees cfg = Inr res \<and>
    (res = None \<longleftrightarrow> (\<forall>t\<in>set trees. tree_cell g t = None)) \<and>
    (\<forall>w. res = Some w \<longrightarrow> window_ok w \<and> inside w (full_window g) \<and>
      (\<forall>t\<in>set trees. \<forall>q. marked_by g a cfg (tan (radians (march_floor suns cfg))) t q \<longrightarrow> q \<in> cells w))"
proof -
  let ?t = "tan (radians (march_floor suns cfg))"
  obtain res where res: "marked_cells g a cfg ?t trees = Inr res" "res = None \<longleftrightarrow> (\<forall>t\<in>set trees. tree_cell g t = None)"
    "(case res of None \<Rightarrow> {} | Some ps \<Rightarrow> set ps) = {q. \<exists>t\<in>set trees. marked_by g a cfg ?t t q}"
    using marked_cells_spec [OF assms, of a ?t] by (elim exE conjE) (rule that)
  show ?thesis
  proof (cases res)
    case None
    then show ?thesis using res(1,2) by (simp add: exact_influence_window_def march_floor_def)
  next
    case (Some ps)
    obtain t p where t: "t \<in> set trees" "tree_cell g t = Some p" using res(2) Some by auto
    have set_ps: "set ps = {q. \<exists>t\<in>set trees. marked_by g a cfg ?t t q}" using res(3) Some by simp
    have ok: "tree_ok t" using assms(3) t(1) by blast
    have "p \<in> set ps" unfolding set_ps using own_cell_marked [OF assms(1,2) ok t(2)] t(1) by blast
    then have ne: "map fst ps \<noteq> []" "map snd ps \<noteq> []" by auto
    have on: "on_grid g q" if "q \<in> set ps" for q using that unfolding set_ps marked_by_def by blast
    obtain r0 where r0: "r0 \<in> fst ` set ps" "array_min (map fst ps) = Inr r0" "\<forall>q\<in>set ps. r0 \<le> fst q"
      using array_min_spec [OF ne(1)] by auto
    obtain r1 where r1: "r1 \<in> fst ` set ps" "array_max (map fst ps) = Inr r1" "\<forall>q\<in>set ps. fst q \<le> r1"
      using array_max_spec [OF ne(1)] by auto
    obtain c0 where c0: "c0 \<in> snd ` set ps" "array_min (map snd ps) = Inr c0" "\<forall>q\<in>set ps. c0 \<le> snd q"
      using array_min_spec [OF ne(2)] by auto
    obtain c1 where c1: "c1 \<in> snd ` set ps" "array_max (map snd ps) = Inr c1" "\<forall>q\<in>set ps. snd q \<le> c1"
      using array_max_spec [OF ne(2)] by auto
    have r: "r0 \<le> fst q \<and> fst q \<le> r1 \<and> c0 \<le> snd q \<and> snd q \<le> c1" if "q \<in> set ps" for q
      using that r0(3) r1(3) c0(3) c1(3) by blast
    have lim: "0 \<le> r0" "r1 < rg_rows g" "0 \<le> c0" "c1 < rg_cols g"
      using r0(1) r1(1) c0(1) c1(1) on by (auto simp: on_grid_def)
    let ?w = "\<lparr>rw_row_start = r0, rw_row_stop = r1 + 1, rw_col_start = c0, rw_col_stop = c1 + 1\<rparr>"
    have le: "r0 \<le> r1 + 1" "c0 \<le> c1 + 1" using r [OF \<open>p \<in> set ps\<close>] by linarith+
    have w: "mk_window r0 (r1 + 1) c0 (c1 + 1) = Inr ?w" by (rule mk_window_Inr [OF le])
    have block: "0 < ic_block_size_pixels cfg" using assms(2) by (simp add: config_ok_def)
    have "inside ?w (full_window g)" using lim by (simp add: inside_def full_window_def)
    then obtain v where v: "bind_exc (rw_align ?w (ic_block_size_pixels cfg)) (\<lambda>w. rw_clamp w (rg_rows g) (rg_cols g)) = Inr v"
      "window_ok v" "inside v (full_window g)" "cells ?w \<subseteq> cells v"
      using align_clamp_spec [OF assms(1) mk_window_ok [OF w] block] by blast
    have "exact_influence_window g a suns trees cfg = Inr (Some v)"
    proof -
      obtain u where u: "rw_align ?w (ic_block_size_pixels cfg) = Inr u" "rw_clamp u (rg_rows g) (rg_cols g) = Inr v"
        using v(1) unfolding bind_exc_Inr by blast
      show ?thesis
        unfolding exact_influence_window_def march_floor_def [symmetric] Let_def res(1) Some bind_exc_simps option.case
          r0(2) r1(2) c0(2) c1(2) w u by simp
    qed
    moreover have "q \<in> cells v" if "t \<in> set trees" "marked_by g a cfg ?t t q" for t q
    proof -
      have "q \<in> set ps" using that unfolding set_ps by blast
      then have "q \<in> cells ?w" using r [of q] by (simp add: cells_def mem_Times_iff)
      then show ?thesis using v(4) by blast
    qed
    moreover have "\<not> (\<forall>t\<in>set trees. tree_cell g t = None)" using t by auto
    ultimately show ?thesis using v(2,3) by (intro exI [of _ "Some v"]) simp
  qed
qed

section \<open>Properties\<close>


definition demo_grid :: raster_grid where
  "demo_grid = \<lparr>rg_rows = 100, rg_cols = 100, rg_pixel_size_m = 1, rg_origin_x_m = 0, rg_origin_y_m = 100\<rparr>"

definition demo_tree :: tree_spec where
  "demo_tree = \<lparr>ts_tree_id = ''t'', ts_x_m = 50, ts_y_m = 50, ts_height_m = 10, ts_canopy_radius_m = 2,
     ts_trunk_ratio = 1 / 4, ts_transmissivity = 3 / 100\<rparr>"

lemma demo_ok: "grid_ok demo_grid" "tree_ok demo_tree"
  by (simp_all add: grid_ok_def demo_grid_def tree_ok_def demo_tree_def)

lemma demo_cell: "tree_cell demo_grid demo_tree = Some (50, 50)"
  by (simp add: tree_cell_def demo_grid_def demo_tree_def)


lemma relief_offset_spec:
  assumes "grid_ok g" "config_ok cfg" "tree_ok t" "tree_cell g t = Some p"
  shows "\<exists>e. influence_elevation_offset g a suns t cfg = Inr e \<and>
    stable_offset g a suns cfg t (a (fst p) (snd p)) e \<and>
    ((\<forall>f. stable_offset g a suns cfg t (a (fst p) (snd p)) f \<longrightarrow> e \<le> f) \<or>
     (\<exists>q. on_grid g q \<and> e = max 0 (a (fst p) (snd p) - a (fst q) (snd q))))"
proof -
  let ?base = "a (fst p) (snd p)"
  have full: "q \<in> cells (full_window g) \<longleftrightarrow> on_grid g q" for q by (auto simp: cells_def full_window_def on_grid_def mem_Times_iff)
  have "p \<in> cells (full_window g)" using tree_cell_pixel [OF assms(4)] full by blast
  then obtain m where m: "array_min (window_values a (full_window g)) = Inr m"
    "\<And>q. q \<in> cells (full_window g) \<Longrightarrow> m \<le> a (fst q) (snd q)" "\<exists>q\<in>cells (full_window g). m = a (fst q) (snd q)"
    using lowest_spec [of "full_window g" a] by blast
  obtain res where res: "local_elevation_offset_m (Fin ?base) (offset_window g suns cfg t) (\<lambda>w. array_min (window_values a w)) 3 = Inr res"
    "\<forall>e. res = Some e \<longrightarrow> stable_offset g a suns cfg t ?base e \<and> (\<forall>f. stable_offset g a suns cfg t ?base f \<longrightarrow> e \<le> f)"
    using relief_search_spec [OF assms, of ?base suns a] by blast
  have drop: "?base - a (fst q) (snd q) \<le> max 0 (?base - m)" if "q \<in> cells (full_window g)" for q
    using m(2) [OF that] by simp
  have g: "stable_offset g a suns cfg t ?base (max 0 (?base - m))"
    by (rule site_drop_stable [OF assms]) (use drop in auto)
  have site: "\<exists>q. on_grid g q \<and> max 0 (?base - m) = max 0 (?base - a (fst q) (snd q))" using m(3) full by auto
  have eq: "influence_elevation_offset g a suns t cfg =
      Inr (if max 0 (?base - m) = 0 then 0 else case res of None \<Rightarrow> max 0 (?base - m) | Some e \<Rightarrow> e)"
    using assms(4) m(1) res(1) by (cases p) (simp add: influence_elevation_offset_def Let_def split: option.split)
  consider "max 0 (?base - m) = 0" | "max 0 (?base - m) \<noteq> 0" "res = None" | e where "max 0 (?base - m) \<noteq> 0" "res = Some e" by blast
  then show ?thesis
  proof cases
    case 1
    then show ?thesis using g eq site by auto
  next
    case 2
    then show ?thesis using g eq site by auto
  next
    case 3
    then show ?thesis using eq res(2) by auto
  qed
qed

lemma relief_offset_nonneg:
  assumes "grid_ok g" "config_ok cfg" "tree_ok t"
  shows "\<exists>e\<ge>0. influence_elevation_offset g a suns t cfg = Inr e"
proof (cases "tree_cell g t")
  case None
  then show ?thesis using assms(2) by (simp add: influence_elevation_offset_def config_ok_def)
next
  case (Some p)
  then show ?thesis using relief_offset_spec [OF assms Some, of a suns] unfolding stable_offset_def by blast
qed

text \<open>The local relief offset is safe and least. For a tree on the raster the worker's offset is
  stable: no cell of the influence window computed with it lies deeper below the tree than the offset
  allows for. It is below every other stable offset, unless the bounded search gave up and it is the drop
  to the lowest cell of the whole site.\<close>

lemma relief_offset_stable:
  assumes "grid_ok g" "config_ok cfg" "tree_ok t" "tree_cell g t = Some p"
  shows "\<exists>e. influence_elevation_offset g a suns t cfg = Inr e \<and>
    stable_offset g a suns cfg t (a (fst p) (snd p)) e \<and>
    ((\<forall>f. stable_offset g a suns cfg t (a (fst p) (snd p)) f \<longrightarrow> e \<le> f) \<or>
     (\<exists>q. on_grid g q \<and> e = max 0 (a (fst p) (snd p) - a (fst q) (snd q))))"
  by (rule relief_offset_spec [OF assms])

lemma relief_offset_stable_witness:
  "\<exists>e. influence_elevation_offset demo_grid (\<lambda>r c. of_int r) [] demo_tree default_influence_config = Inr e \<and>
     stable_offset demo_grid (\<lambda>r c. of_int r) [] default_influence_config demo_tree 50 e"
  using relief_offset_stable [OF demo_ok(1) default_config_ok demo_ok(2) demo_cell, of "\<lambda>r c. of_int r" "[]"] by auto

end
