(* ===== verification/Tree_Edits_Contract.thy ===== *)
theory Tree_Edits_Contract
  imports Tree_Edits Influence_Contract
begin

text \<open>
  Coalescing keeps the effect of a sequence of edits on the set of trees, the windows of a job cover every
  cell its edits can touch, and two behaviours of the job's bookkeeping over several windows.
\<close>

section \<open>The effect of edits\<close>

text \<open>The live trees by id; an edit replaces the entry of its tree, and a log replays when every edit finds
  the tree it was made from.\<close>

type_synonym scene = "string \<Rightarrow> tree_spec option"

definition apply_edit :: "TreeEdit \<Rightarrow> scene \<Rightarrow> scene" where
  "apply_edit e s = s(te_tree_id e := te_new_tree e)"

fun replays :: "scene \<Rightarrow> TreeEdit list \<Rightarrow> bool" where
  "replays s [] \<longleftrightarrow> True"
| "replays s (e # es) \<longleftrightarrow> s (te_tree_id e) = te_old_tree e \<and> replays (apply_edit e s) es"

definition edit_ok :: "TreeEdit \<Rightarrow> bool" where
  "edit_ok e \<longleftrightarrow> check_tree_edit e = Inr e"

lemma replays_append: "replays s (xs @ ys) \<longleftrightarrow> replays s xs \<and> replays (fold apply_edit xs s) ys"
  by (induction xs arbitrary: s) simp_all

lemma replays_distinct:
  "distinct (map te_tree_id es) \<Longrightarrow> \<forall>e\<in>set es. s (te_tree_id e) = te_old_tree e \<Longrightarrow> replays s es"
proof (induction es arbitrary: s)
  case (Cons e es)
  have "\<forall>f\<in>set es. apply_edit e s (te_tree_id f) = te_old_tree f"
    using Cons.prems by (auto simp: apply_edit_def) (metis imageI)
  then show ?case using Cons by simp
qed simp

lemma fold_apply_other: "i \<notin> te_tree_id ` set es \<Longrightarrow> fold apply_edit es s i = s i"
  by (induction es arbitrary: s) (auto simp: apply_edit_def)

lemma fold_apply_distinct:
  "distinct (map te_tree_id es) \<Longrightarrow> e \<in> set es \<Longrightarrow> fold apply_edit es s (te_tree_id e) = te_new_tree e"
  by (induction es arbitrary: s) (auto simp: fold_apply_other apply_edit_def)

section \<open>Coalescing\<close>

definition trees_named :: "string \<Rightarrow> tree_spec option \<Rightarrow> bool" where
  "trees_named i t \<longleftrightarrow> (\<forall>x\<in>set_option t. ts_tree_id x = i)"

text \<open>What the dictionary of chains says after a prefix of the log.\<close>

definition chains_ok :: "scene \<Rightarrow> scene \<Rightarrow> chain dict \<Rightarrow> bool" where
  "chains_ok s now d \<longleftrightarrow> distinct (dict_keys d) \<and>
     (\<forall>i. map_of d i = None \<longrightarrow> now i = s i) \<and>
     (\<forall>i old new first last_seq. map_of d i = Some (old, new, first, last_seq) \<longrightarrow>
        s i = old \<and> now i = new \<and> i \<noteq> [] \<and> 0 \<le> last_seq \<and> trees_named i old \<and> trees_named i new)"

lemma chain_step_ok:
  assumes "chains_ok s now d" "now (te_tree_id e) = te_old_tree e" "edit_ok e"
  shows "\<exists>d'. chain_step d e = Inr d' \<and> chains_ok s (apply_edit e now) d'"
proof -
  have e: "te_tree_id e \<noteq> []" "0 \<le> te_sequence e" "trees_named (te_tree_id e) (te_old_tree e)" "trees_named (te_tree_id e) (te_new_tree e)"
    using assms(3) by (auto simp: edit_ok_def check_tree_edit_def trees_named_def split: if_splits)
  show ?thesis
  proof (cases "map_of d (te_tree_id e)")
    case None
    then show ?thesis using assms e by (auto simp: chain_step_def chains_ok_def apply_edit_def)
  next
    case (Some c)
    obtain old new first last_seq where c: "c = (old, new, first, last_seq)" by (cases c) auto
    have "s (te_tree_id e) = old" "now (te_tree_id e) = new" "trees_named (te_tree_id e) old"
      using assms(1) Some c unfolding chains_ok_def by blast+
    then show ?thesis using assms e Some c by (auto simp: chain_step_def chains_ok_def apply_edit_def)
  qed
qed

lemma chain_fold_ok:
  assumes "chains_ok s now d" "replays now es" "\<forall>e\<in>set es. edit_ok e"
  shows "\<exists>d'. fold_exc chain_step d es = Inr d' \<and> chains_ok s (fold apply_edit es now) d'"
  using assms
proof (induction es arbitrary: now d)
  case (Cons e es)
  obtain d1 where "chain_step d e = Inr d1" "chains_ok s (apply_edit e now) d1"
    using chain_step_ok [OF Cons.prems(1)] Cons.prems by auto
  then show ?case using Cons.IH Cons.prems by auto
qed simp

lemma chain_edit_ids: "map te_tree_id (map (chain_edit sc) d) = dict_keys d"
  by (simp add: chain_edit_def comp_def split: prod.splits)

lemma distinct_filter_keys: "distinct (dict_keys d) \<Longrightarrow> distinct (dict_keys (filter P d))"
  by (induction d) auto

lemma chain_edits_ok:
  assumes "chains_ok s now d" "sc \<noteq> []" "d' = filter (\<lambda>(_, old, new, _). old \<noteq> new) d" "es = map (chain_edit sc) d'"
  shows "traverse check_tree_edit es = Inr es" "distinct (map te_tree_id es)"
    "\<forall>e\<in>set es. s (te_tree_id e) = te_old_tree e \<and> te_old_tree e \<noteq> te_new_tree e \<and> edit_ok e" "fold apply_edit es s = now"
proof -
  have dist: "distinct (dict_keys d)" using assms(1) by (simp add: chains_ok_def)
  have entry: "s i = old \<and> now i = new \<and> i \<noteq> [] \<and> 0 \<le> q \<and> trees_named i old \<and> trees_named i new \<and> old \<noteq> new"
    if "(i, old, new, f, q) \<in> set d'" for i old new f q
  proof -
    have "(i, old, new, f, q) \<in> set d" "old \<noteq> new" using that assms(3) by auto
    then have "map_of d i = Some (old, new, f, q)" using dist by simp
    then show ?thesis using assms(1) \<open>old \<noteq> new\<close> unfolding chains_ok_def by blast
  qed
  have ids: "map te_tree_id es = dict_keys d'" unfolding assms(4) by (rule chain_edit_ids)
  show dist': "distinct (map te_tree_id es)" unfolding ids assms(3) by (rule distinct_filter_keys [OF dist])
  have edit: "\<exists>i old new f q. (i, old, new, f, q) \<in> set d' \<and> e = \<lparr>te_scenario_id = sc, te_sequence = q, te_tree_id = i, te_old_tree = old, te_new_tree = new\<rparr>"
    if "e \<in> set es" for e
    using that unfolding assms(4) by (fastforce simp: chain_edit_def)
  show all: "\<forall>e\<in>set es. s (te_tree_id e) = te_old_tree e \<and> te_old_tree e \<noteq> te_new_tree e \<and> edit_ok e"
  proof
    fix e
    assume "e \<in> set es"
    then obtain i old new f q where e: "(i, old, new, f, q) \<in> set d'"
      "e = \<lparr>te_scenario_id = sc, te_sequence = q, te_tree_id = i, te_old_tree = old, te_new_tree = new\<rparr>" using edit by blast
    then show "s (te_tree_id e) = te_old_tree e \<and> te_old_tree e \<noteq> te_new_tree e \<and> edit_ok e"
      using entry [OF e(1)] assms(2) by (auto simp: edit_ok_def check_tree_edit_def trees_named_def)
  qed
  show "traverse check_tree_edit es = Inr es"
    using traverse_total [of es check_tree_edit id] all by (simp add: edit_ok_def)
  show "fold apply_edit es s = now"
  proof
    fix i
    show "fold apply_edit es s i = now i"
    proof (cases "i \<in> te_tree_id ` set es")
      case True
      then obtain e where e: "e \<in> set es" "i = te_tree_id e" by auto
      obtain j old new f q where j: "(j, old, new, f, q) \<in> set d'"
        "e = \<lparr>te_scenario_id = sc, te_sequence = q, te_tree_id = j, te_old_tree = old, te_new_tree = new\<rparr>" using edit [OF e(1)] by blast
      show ?thesis using fold_apply_distinct [OF dist' e(1), of s] entry [OF j(1)] e(2) j(2) by simp
    next
      case False
      then have "i \<notin> set (dict_keys d')" using ids by (metis set_map)
      then have "now i = s i"
      proof (cases "map_of d i")
        case (Some c)
        obtain old new f q where c: "c = (old, new, f, q)" by (cases c) auto
        have "old = new"
        proof (rule ccontr)
          assume "old \<noteq> new"
          then have "(i, old, new, f, q) \<in> set d'" using map_of_SomeD [OF Some] c assms(3) by auto
          then show False using \<open>i \<notin> set (dict_keys d')\<close> by force
        qed
        then show ?thesis using assms(1) Some c unfolding chains_ok_def by metis
      qed (use assms(1) in \<open>simp add: chains_ok_def\<close>)
      then show ?thesis using fold_apply_other [OF False] by simp
    qed
  qed
qed

lemma sorted_hd_last: "sorted (map f ys) \<Longrightarrow> x \<in> set ys \<Longrightarrow> f (hd ys) \<le> f x \<and> f x \<le> f (last ys)"
proof (induction ys)
  case (Cons y ys)
  then show ?case by (cases "ys = []") auto
qed simp

lemma sorted_ends:
  fixes f :: "'b \<Rightarrow> 'k::linorder"
  assumes "xs \<noteq> []"
  shows "f (hd (sort_key f xs)) = Min (f ` set xs)" "f (last (sort_key f xs)) = Max (f ` set xs)"
proof -
  let ?o = "sort_key f xs"
  have ne: "?o \<noteq> []" using assms by (metis length_0_conv length_sort)
  have b: "f (hd ?o) \<le> f x \<and> f x \<le> f (last ?o)" if "x \<in> set xs" for x
    by (rule sorted_hd_last) (use that in simp_all)
  have "hd ?o \<in> set xs" "last ?o \<in> set xs" using hd_in_set [OF ne] last_in_set [OF ne] by simp_all
  then show "f (hd ?o) = Min (f ` set xs)" "f (last ?o) = Max (f ` set xs)"
    using b by (auto intro!: Min_eqI [symmetric] Max_eqI [symmetric])
qed

lemma distinct_map_sort: "distinct (map g (sort_key f xs)) \<longleftrightarrow> distinct (map g xs)"
proof -
  have "mset (map g (sort_key f xs)) = mset (map g xs)" by simp
  then show ?thesis by (rule mset_eq_imp_distinct_iff)
qed

lemma coalesce_spec:
  assumes "edits \<noteq> []" "distinct (map te_sequence edits)" "\<forall>e\<in>set edits. edit_ok e \<and> te_scenario_id e = sc"
    and "replays s (sort_key te_sequence edits)"
  shows "\<exists>b. coalesce_tree_edits edits = Inr b \<and> replays s (eb_edits b) \<and>
    fold apply_edit (eb_edits b) s = fold apply_edit (sort_key te_sequence edits) s \<and>
    distinct (map te_tree_id (eb_edits b)) \<and> (\<forall>e\<in>set (eb_edits b). te_old_tree e \<noteq> te_new_tree e \<and> edit_ok e) \<and>
    eb_first_sequence b = Min (te_sequence ` set edits) \<and> eb_last_sequence b = Max (te_sequence ` set edits)"
proof -
  let ?o = "sort_key te_sequence edits"
  have ok: "\<forall>e\<in>set ?o. edit_ok e" using assms(3) by simp
  obtain e0 rest where o: "?o = e0 # rest" using assms(1) by (cases ?o) (metis length_0_conv length_sort, blast)
  have e0: "e0 \<in> set edits" using o set_sort [of te_sequence edits] by (metis list.set_intros(1))
  then have sc: "te_scenario_id e0 = sc" "sc \<noteq> []" using assms(3) by (auto simp: edit_ok_def check_tree_edit_def split: if_splits)
  obtain d where d: "fold_exc chain_step [] ?o = Inr d" "chains_ok s (fold apply_edit ?o s) d"
    using chain_fold_ok [OF _ assms(4) ok, of s "[]"] by (auto simp: chains_ok_def)
  let ?es = "map (chain_edit sc) (filter (\<lambda>(_, old, new, _). old \<noteq> new) d)"
  note es = chain_edits_ok [OF d(2) sc(2) refl refl]
  let ?b = "\<lparr>eb_scenario_id = sc, eb_first_sequence = te_sequence e0, eb_last_sequence = te_sequence (last ?o), eb_edits = sort_key te_sequence ?es\<rparr>"
  have "coalesce_tree_edits edits = Inr ?b"
  proof -
    have same: "\<not> (\<exists>e\<in>set (e0 # rest). te_scenario_id e \<noteq> te_scenario_id e0)"
      using assms(3) sc(1) unfolding o [symmetric] by simp
    have seqs: "distinct (map te_sequence (e0 # rest))" unfolding o [symmetric] distinct_map_sort by (rule assms(2))
    show ?thesis
      unfolding coalesce_tree_edits_def Let_def o list.case
      using same seqs d(1) [unfolded o] es(1) sc(1) by (simp del: fold_exc.simps distinct.simps list.map)
  qed
  moreover have dist: "distinct (map te_tree_id (sort_key te_sequence ?es))"
    unfolding distinct_map_sort by (rule es(2))
  moreover have "fold apply_edit (sort_key te_sequence ?es) s = fold apply_edit ?es s"
  proof
    fix i
    show "fold apply_edit (sort_key te_sequence ?es) s i = fold apply_edit ?es s i"
    proof (cases "i \<in> te_tree_id ` set ?es")
      case True
      then obtain e where e: "e \<in> set ?es" "i = te_tree_id e" by auto
      have "e \<in> set (sort_key te_sequence ?es)" using e(1) by simp
      then show ?thesis using fold_apply_distinct [OF dist, of e s] fold_apply_distinct [OF es(2) e(1), of s] e(2) by simp
    next
      case False
      then show ?thesis using fold_apply_other [of i ?es] fold_apply_other [of i "sort_key te_sequence ?es"] by simp
    qed
  qed
  moreover have "replays s (sort_key te_sequence ?es)" by (rule replays_distinct [OF dist]) (use es(3) in simp)
  moreover have "\<forall>e\<in>set (sort_key te_sequence ?es). te_old_tree e \<noteq> te_new_tree e \<and> edit_ok e" using es(3) by simp
  moreover have "te_sequence e0 = Min (te_sequence ` set edits)" "te_sequence (last ?o) = Max (te_sequence ` set edits)"
    using sorted_ends [OF assms(1), of te_sequence] o by auto
  ultimately show ?thesis using es(4) by (intro exI [of _ ?b]) simp
qed

section \<open>Windows of a job\<close>

lemma merged_pieces:
  assumes "0 \<le> gap" "\<And>w. w \<in> set ws \<Longrightarrow> window_ok w \<and> inside w frame"
  shows "\<exists>ps. merge_windows ws gap = Inr ps \<and> (\<forall>p\<in>set ps. solid p \<and> inside p frame) \<and>
    (\<forall>w\<in>set ws. cells w \<subseteq> (\<Union>p\<in>set ps. cells p))"
proof -
  have ok: "window_ok w" if "w \<in> set ws" for w using assms(2) [OF that] by blast
  obtain ps where ps: "merge_windows ws gap = Inr ps" "merged_so_far gap (filter (\<lambda>w. \<not> rw_is_empty w) ws) ps"
    using merge_windows_closure [OF assms(1) ok] by blast
  have "separated gap {frame}" by (simp add: separated_def)
  then have "inside p frame" if "p \<in> set ps" for p
    using merged_so_far_least [OF ps(2), of "{frame}" p] that assms(2) by (auto simp: covered_by_def)
  moreover have "solid p" if "p \<in> set ps" for p using merged_so_far_pieces [OF assms(1) ps(2)] that by blast
  moreover have "cells w \<subseteq> (\<Union>p\<in>set ps. cells p)" if w: "w \<in> set ws" for w
  proof (cases "rw_is_empty w")
    case True
    then show ?thesis using is_empty_cells [OF ok [OF w]] by simp
  next
    case False
    then have "covered_by (set ps) w" using merged_so_far_covers [OF ps(2)] w by simp
    then show ?thesis using inside_cells by (fastforce simp: covered_by_def)
  qed
  ultimately show ?thesis using ps(1) by blast
qed

lemma batch_offsets_fold:
  assumes "grid_ok (sv_grid sv)" "config_ok cfg" "\<forall>t\<in>set ts. tree_ok t" "\<forall>k v. map_of offs k = Some v \<longrightarrow> 0 \<le> v"
  shows "\<exists>offs'. fold_exc (offset_step sv cfg) offs ts = Inr offs' \<and>
    (\<forall>k v. map_of offs' k = Some v \<longrightarrow> 0 \<le> v) \<and> dom (map_of offs) \<subseteq> dom (map_of offs') \<and>
    (\<forall>t\<in>set ts. tree_position_key t \<in> dom (map_of offs'))"
  using assms(3,4)
proof (induction ts arbitrary: offs)
  case (Cons t ts)
  obtain v where v: "0 \<le> v" "influence_elevation_offset (sv_grid sv) (sv_building_dsm sv) (sv_solar sv) t cfg = Inr v"
    using relief_offset_nonneg [OF assms(1,2), of t "sv_building_dsm sv" "sv_solar sv"] Cons.prems(1) by auto
  let ?o = "if map_of offs (tree_position_key t) \<noteq> None then offs else AList.update (tree_position_key t) v offs"
  have o: "\<forall>k v. map_of ?o k = Some v \<longrightarrow> 0 \<le> v" "tree_position_key t \<in> dom (map_of ?o)" "dom (map_of offs) \<subseteq> dom (map_of ?o)"
    using Cons.prems(2) v(1) by auto
  have ok: "\<forall>t\<in>set ts. tree_ok t" using Cons.prems(1) by simp
  have "offset_step sv cfg offs t = Inr ?o" using v(2) by (simp add: offset_step_def)
  then have step: "fold_exc (offset_step sv cfg) offs (t # ts) = fold_exc (offset_step sv cfg) ?o ts" by simp
  obtain offs' where "fold_exc (offset_step sv cfg) ?o ts = Inr offs'" "\<forall>k v. map_of offs' k = Some v \<longrightarrow> 0 \<le> v"
    "dom (map_of ?o) \<subseteq> dom (map_of offs')" "\<forall>t\<in>set ts. tree_position_key t \<in> dom (map_of offs')"
    using Cons.IH [OF ok o(1)] by blast
  then show ?case unfolding step set_simps using o(2,3) by blast
qed auto

lemma batch_offsets_spec:
  assumes "grid_ok (sv_grid sv)" "config_ok cfg" "\<forall>t\<in>set (batch_trees b). tree_ok t"
  shows "\<exists>offs. batch_elevation_offsets sv b cfg = Inr offs \<and>
    (\<forall>t\<in>set (batch_trees b). \<exists>v\<ge>0. map_of offs (tree_position_key t) = Some v)"
proof -
  obtain offs where o: "batch_elevation_offsets sv b cfg = Inr offs" "\<forall>k v. map_of offs k = Some v \<longrightarrow> 0 \<le> v"
    "\<forall>t\<in>set (batch_trees b). tree_position_key t \<in> dom (map_of offs)"
    using batch_offsets_fold [OF assms, of "[]"] unfolding batch_elevation_offsets_def by auto
  have "\<exists>v\<ge>0. map_of offs (tree_position_key t) = Some v" if "t \<in> set (batch_trees b)" for t
    using o(2,3) that by blast
  then show ?thesis using o(1) by blast
qed

lemma set_batch_trees: "set (batch_trees b) = (\<Union>e\<in>set (eb_edits b). set_option (te_old_tree e) \<union> set_option (te_new_tree e))"
  by (auto simp: batch_trees_def split: option.splits)

lemma batch_windows_spec:
  assumes "grid_ok g" "config_ok cfg" "\<forall>t\<in>set (batch_trees b). tree_ok t \<and> 0 \<le> f t"
    and "\<forall>e\<in>set (eb_edits b). te_old_tree e = None \<longrightarrow> te_new_tree e \<noteq> None" "0 \<le> gap"
  shows "\<exists>ps. dirty_windows_for_batch b g suns cfg gap (Some f) = Inr ps \<and> (\<forall>p\<in>set ps. solid p \<and> inside p (full_window g)) \<and>
    (\<forall>t\<in>set (batch_trees b). \<forall>x y. reached_by t suns cfg (Some (f t)) x y \<and> on_grid g (pixel_of g x y) \<longrightarrow>
       pixel_of g x y \<in> (\<Union>p\<in>set ps. cells p))"
proof -
  let ?P = "\<lambda>e w. dirty_window_for_edit g (te_old_tree e) (te_new_tree e) suns cfg (Some f) = Inr w \<and> window_ok w \<and>
    inside w (full_window g) \<and> (\<forall>t\<in>set_option (te_old_tree e) \<union> set_option (te_new_tree e). \<forall>x y.
       reached_by t suns cfg (Some (f t)) x y \<and> on_grid g (pixel_of g x y) \<longrightarrow> pixel_of g x y \<in> cells w)"
  have "\<exists>w. ?P e w" if e: "e \<in> set (eb_edits b)" for e
    using dirty_window_spec [OF assms(1,2), of "te_old_tree e" "te_new_tree e" "Some f" suns] assms(3,4) e
    unfolding set_batch_trees by auto
  then obtain win where win: "\<forall>e\<in>set (eb_edits b). ?P e (win e)" using bchoice [of "set (eb_edits b)" ?P] by blast
  have tr: "traverse (\<lambda>e. dirty_window_for_edit g (te_old_tree e) (te_new_tree e) suns cfg (Some f)) (eb_edits b) = Inr (map win (eb_edits b))"
    by (rule traverse_total) (use win in blast)
  have fits: "window_ok w \<and> inside w (full_window g)" if "w \<in> set (map win (eb_edits b))" for w
    using that win unfolding set_map by blast
  obtain ps where ps: "merge_windows (map win (eb_edits b)) gap = Inr ps" "\<forall>p\<in>set ps. solid p \<and> inside p (full_window g)"
    "\<forall>w\<in>set (map win (eb_edits b)). cells w \<subseteq> (\<Union>p\<in>set ps. cells p)" using merged_pieces [OF assms(5) fits] by blast
  have "pixel_of g x y \<in> (\<Union>p\<in>set ps. cells p)"
    if t: "t \<in> set (batch_trees b)" "reached_by t suns cfg (Some (f t)) x y" "on_grid g (pixel_of g x y)" for t x y
  proof -
    obtain e where e: "e \<in> set (eb_edits b)" "t \<in> set_option (te_old_tree e) \<union> set_option (te_new_tree e)"
      using t(1) unfolding set_batch_trees by blast
    have "pixel_of g x y \<in> cells (win e)" using win e t(2,3) by blast
    then show ?thesis using ps(3) e(1) by auto
  qed
  then show ?thesis using tr ps(1,2) by (auto simp: dirty_windows_for_batch_def)
qed

lemma site_config_ok: "site_influence_config g a dem canopy suns c = Inr cfg \<Longrightarrow> config_ok cfg"
  by (auto simp: site_influence_config_def bind_exc_Inr Let_def check_influence_config_ok)

lemma job_windows:
  assumes "grid_ok (sv_grid sv)" "pending_batch sv = Inr (Some b)" "eb_edits b \<noteq> []"
    and cfg: "site_influence_config (sv_grid sv) (sv_building_dsm sv) (sv_dem sv) (sv_tree_base sv) (sv_solar sv) (sv_influence_config sv) = Inr cfg"
    and trees: "\<forall>t\<in>set (batch_trees b). tree_ok t" "\<forall>e\<in>set (eb_edits b). te_old_tree e = None \<longrightarrow> te_new_tree e \<noteq> None"
  shows "\<exists>ws. dirty_windows sv = Inr ws \<and> (\<forall>w\<in>set ws. solid w \<and> inside w (full_window (sv_grid sv))) \<and>
    (\<forall>t\<in>set (batch_trees b). \<forall>q. marked_by (sv_grid sv) (sv_building_dsm sv) cfg (tan (radians (march_floor (sv_solar sv) cfg))) t q \<longrightarrow>
       q \<in> (\<Union>w\<in>set ws. cells w)) \<and>
    (\<exists>f. \<forall>t\<in>set (batch_trees b). 0 \<le> f t \<and> (\<forall>x y. reached_by t (sv_solar sv) cfg (Some (f t)) x y \<and> on_grid (sv_grid sv) (pixel_of (sv_grid sv) x y) \<longrightarrow>
       pixel_of (sv_grid sv) x y \<in> (\<Union>w\<in>set ws. cells w)))"
proof -
  let ?g = "sv_grid sv" and ?a = "sv_building_dsm sv" and ?suns = "sv_solar sv" and ?T = "tan (radians (march_floor (sv_solar sv) cfg))"
  have ok: "config_ok cfg" by (rule site_config_ok [OF cfg])
  obtain offs where offs: "batch_elevation_offsets sv b cfg = Inr offs" "\<forall>t\<in>set (batch_trees b). \<exists>v\<ge>0. map_of offs (tree_position_key t) = Some v"
    using batch_offsets_spec [OF assms(1) ok trees(1)] by blast
  let ?f = "\<lambda>t. the (map_of offs (tree_position_key t))"
  have eight: "(0 :: int) \<le> 8" by simp
  have f: "\<forall>t\<in>set (batch_trees b). tree_ok t \<and> 0 \<le> ?f t" using offs(2) trees(1) by fastforce
  obtain ps where ps: "dirty_windows_for_batch b ?g ?suns cfg 8 (Some ?f) = Inr ps" "\<forall>p\<in>set ps. solid p \<and> inside p (full_window ?g)"
    "\<forall>t\<in>set (batch_trees b). \<forall>x y. reached_by t ?suns cfg (Some (?f t)) x y \<and> on_grid ?g (pixel_of ?g x y) \<longrightarrow>
       pixel_of ?g x y \<in> (\<Union>p\<in>set ps. cells p)" using batch_windows_spec [OF assms(1) ok f trees(2) eight, where suns = ?suns] by (elim exE conjE) (rule that)
  obtain ex where ex: "exact_influence_window ?g ?a ?suns (batch_trees b) cfg = Inr ex" "ex = None \<longleftrightarrow> (\<forall>t\<in>set (batch_trees b). tree_cell ?g t = None)"
    "\<forall>w. ex = Some w \<longrightarrow> window_ok w \<and> inside w (full_window ?g) \<and> (\<forall>t\<in>set (batch_trees b). \<forall>q. marked_by ?g ?a cfg ?T t q \<longrightarrow> q \<in> cells w)"
    using exact_window_spec [OF assms(1) ok trees(1), of ?a ?suns] by (elim exE conjE) (rule that)
  have unfold: "dirty_windows sv = (case ex of None \<Rightarrow> Inr ps | Some w \<Rightarrow> merge_windows (ps @ [w]) 0)"
    unfolding dirty_windows_def assms(2) bind_exc_simps option.case cfg offs(1) ps(1) ex(1) using assms(3) by simp
  have reach: "\<exists>f. \<forall>t\<in>set (batch_trees b). 0 \<le> f t \<and> (\<forall>x y. reached_by t ?suns cfg (Some (f t)) x y \<and> on_grid ?g (pixel_of ?g x y) \<longrightarrow>
       pixel_of ?g x y \<in> (\<Union>w\<in>set ws. cells w))" if "(\<Union>p\<in>set ps. cells p) \<subseteq> (\<Union>w\<in>set ws. cells w)" for ws
    by (rule exI [of _ ?f], intro ballI conjI allI impI) (use f in blast, rule subsetD [OF that], use ps(3) in blast)
  show ?thesis
  proof (cases ex)
    case None
    then have "\<not> marked_by ?g ?a cfg ?T t q" if "t \<in> set (batch_trees b)" for t q using ex(2) that by (auto simp: marked_by_def)
    then show ?thesis using unfold None ps(2) reach [of ps] by simp
  next
    case (Some w)
    have w: "window_ok w" "inside w (full_window ?g)" "\<forall>t\<in>set (batch_trees b). \<forall>q. marked_by ?g ?a cfg ?T t q \<longrightarrow> q \<in> cells w"
      using ex(3) Some by blast+
    have "window_ok v \<and> inside v (full_window ?g)" if "v \<in> set (ps @ [w])" for v using that ps(2) w(1,2) by (auto simp: solid_def)
    then obtain ws where ws: "merge_windows (ps @ [w]) 0 = Inr ws" "\<forall>p\<in>set ws. solid p \<and> inside p (full_window ?g)"
      "\<forall>v\<in>set (ps @ [w]). cells v \<subseteq> (\<Union>p\<in>set ws. cells p)" using merged_pieces [of 0 "ps @ [w]" "full_window ?g"] by blast
    have "q \<in> (\<Union>w\<in>set ws. cells w)" if "t \<in> set (batch_trees b)" "marked_by ?g ?a cfg ?T t q" for t q
      using w(3) that ws(3) by fastforce
    moreover have "(\<Union>p\<in>set ps. cells p) \<subseteq> (\<Union>w\<in>set ws. cells w)" using ws(3) by auto
    ultimately show ?thesis using unfold Some ws(1,2) reach [of ws] by simp
  qed
qed

section \<open>Properties\<close>

text \<open>C34: coalescing keeps the meaning of a log. A batch of valid edits of one scenario whose log replays on
  a scene coalesces; the coalesced edits replay on the same scene and lead to the same scene, name every
  tree at most once, contain no edit that changes nothing, and span the sequences of the log.\<close>

theorem coalesce_preserves_effect:
  assumes "edits \<noteq> []" "distinct (map te_sequence edits)" "\<forall>e\<in>set edits. edit_ok e \<and> te_scenario_id e = sc"
    and "replays s (sort_key te_sequence edits)"
  shows "\<exists>b. coalesce_tree_edits edits = Inr b \<and> replays s (eb_edits b) \<and>
    fold apply_edit (eb_edits b) s = fold apply_edit (sort_key te_sequence edits) s \<and>
    distinct (map te_tree_id (eb_edits b)) \<and> (\<forall>e\<in>set (eb_edits b). te_old_tree e \<noteq> te_new_tree e \<and> edit_ok e) \<and>
    eb_first_sequence b = Min (te_sequence ` set edits) \<and> eb_last_sequence b = Max (te_sequence ` set edits)"
  by (rule coalesce_spec [OF assms])

definition demo_edit :: "int \<Rightarrow> tree_spec option \<Rightarrow> tree_spec option \<Rightarrow> TreeEdit" where
  "demo_edit n old new = \<lparr>te_scenario_id = ''s'', te_sequence = n, te_tree_id = ''t'', te_old_tree = old, te_new_tree = new\<rparr>"

definition demo_grown :: tree_spec where
  "demo_grown = demo_tree\<lparr>ts_height_m := 12\<rparr>"

lemma demo_edits_ok: "edit_ok (demo_edit 4 None (Some demo_tree))" "edit_ok (demo_edit 7 (Some demo_tree) (Some demo_grown))"
  by (simp_all add: edit_ok_def check_tree_edit_def demo_edit_def demo_tree_def demo_grown_def)

theorem coalesce_preserves_effect_witness:
  "\<exists>b. coalesce_tree_edits [demo_edit 7 (Some demo_tree) (Some demo_grown), demo_edit 4 None (Some demo_tree)] = Inr b \<and>
     fold apply_edit (eb_edits b) (\<lambda>_. None) = (\<lambda>_. None)(''t'' := Some demo_grown)"
proof -
  let ?es = "[demo_edit 7 (Some demo_tree) (Some demo_grown), demo_edit 4 None (Some demo_tree)]"
  have o: "sort_key te_sequence ?es = [demo_edit 4 None (Some demo_tree), demo_edit 7 (Some demo_tree) (Some demo_grown)]"
    by (simp add: demo_edit_def)
  have "\<exists>b. coalesce_tree_edits ?es = Inr b \<and> fold apply_edit (eb_edits b) (\<lambda>_. None) = fold apply_edit (sort_key te_sequence ?es) (\<lambda>_. None)"
    using coalesce_preserves_effect [of ?es "''s''" "\<lambda>_. None"] demo_edits_ok unfolding o
    by (auto simp: demo_edit_def apply_edit_def)
  then show ?thesis unfolding o by (simp add: demo_edit_def apply_edit_def)
qed


definition demo_site :: site_view where
  "demo_site =
     \<lparr>sv_grid = \<lparr>rg_rows = 2, rg_cols = 2, rg_pixel_size_m = 50, rg_origin_x_m = 0, rg_origin_y_m = 100\<rparr>,
      sv_building_dsm = (\<lambda>_ _. 0), sv_dem = (\<lambda>_ _. 0), sv_tree_base = (\<lambda>_ _. 0), sv_solar = [],
      sv_influence_config = default_influence_config, sv_edits = [demo_edit 4 None (Some demo_tree)], sv_acked_sequence = 3\<rparr>"

lemma demo_site_config:
  "site_influence_config (sv_grid demo_site) (sv_building_dsm demo_site) (sv_dem demo_site) (sv_tree_base demo_site) (sv_solar demo_site)
     (sv_influence_config demo_site) = Inr default_influence_config"
  by (simp add: site_influence_config_def demo_site_def window_values_def full_window_def array_max_def upto.simps Let_def
      minimum_positive_sun_altitude_deg_def check_influence_config_def default_influence_config_def)

definition demo_batch :: edit_batch where
  "demo_batch = \<lparr>eb_scenario_id = ''s'', eb_first_sequence = 4, eb_last_sequence = 4, eb_edits = [demo_edit 4 None (Some demo_tree)]\<rparr>"

lemma demo_pending: "pending_batch demo_site = Inr (Some demo_batch)"
  by (simp add: pending_batch_def demo_site_def coalesce_tree_edits_def chain_step_def chain_edit_def check_tree_edit_def demo_edit_def
      demo_tree_def demo_batch_def)


text \<open>The mode of a job looks at one piece only. The recompute mode is chosen from the first piece of
  the merged write windows: a job whose first piece is small is local, however much of the tile its other
  pieces cover.\<close>

lemma job_mode_reads_first_piece:
  assumes "config_ok cfg" "merge_windows ws 0 = Inr (p # ps)"
  shows "job_mode g cfg ws = Inr (if ic_full_recompute_fraction cfg \<le> window_fraction p g then FULL else LOCAL)"
  using assms by (simp add: job_mode_def choose_recompute_mode_def finite_float_def config_ok_def)

lemma far_pieces: "merge_windows [corner 0 0 1, corner 2 2 98] 0 = Inr [corner 0 0 1, corner 2 2 98]"
  by code_simp

lemma job_mode_reads_first_piece_witness:
  "job_mode demo_grid default_influence_config [corner 0 0 1, corner 2 2 98] = Inr LOCAL \<and>
   window_fraction (corner 2 2 98) demo_grid = 9604 / 10000"
  using job_mode_reads_first_piece [OF default_config_ok far_pieces, of demo_grid]
  by (simp add: window_fraction_def corner_def rw_area_def rw_width_def rw_height_def area_pixels_def demo_grid_def default_influence_config_def)

lemma card_pieces: "\<forall>p\<in>set ps. window_ok p \<Longrightarrow> int (card (\<Union>p\<in>set ps. cells p)) \<le> sum_list (map rw_area ps)"
proof (induction ps)
  case (Cons p ps)
  have "int (card (cells p \<union> (\<Union>q\<in>set ps. cells q))) \<le> int (card (cells p)) + int (card (\<Union>q\<in>set ps. cells q))"
    using card_Un_le [of "cells p" "\<Union>q\<in>set ps. cells q"] by linarith
  then show ?case using Cons card_cells [of p] by simp
qed simp

lemma finite_cells [simp]: "finite (cells w)"
  by (simp add: cells_def)

text \<open>The reported union area is an upper bound. The area the job metrics report for a list of
  windows is at least the number of cells of their union; it counts the bounding boxes of merged pieces.\<close>

lemma union_window_area_bounds:
  assumes "ws \<noteq> []" "\<And>w. w \<in> set ws \<Longrightarrow> window_ok w"
  shows "\<exists>n. union_window_area ws = Inr (Some n) \<and> int (card (\<Union>w\<in>set ws. cells w)) \<le> n"
proof -
  obtain ps where ps: "merge_windows ws 0 = Inr ps" "merged_so_far 0 (filter (\<lambda>w. \<not> rw_is_empty w) ws) ps"
    using merge_windows_closure [OF order_refl assms(2)] by blast
  have "cells w \<subseteq> (\<Union>p\<in>set ps. cells p)" if w: "w \<in> set ws" for w
  proof (cases "rw_is_empty w")
    case True
    then show ?thesis using is_empty_cells [OF assms(2) [OF w]] by simp
  next
    case False
    then have "covered_by (set ps) w" using merged_so_far_covers [OF ps(2)] w by simp
    then show ?thesis using inside_cells by (fastforce simp: covered_by_def)
  qed
  then have "card (\<Union>w\<in>set ws. cells w) \<le> card (\<Union>p\<in>set ps. cells p)" by (intro card_mono) auto
  moreover have "\<forall>p\<in>set ps. window_ok p" using merged_so_far_pieces [OF order_refl ps(2)] by (simp add: solid_def)
  ultimately show ?thesis using card_pieces [of ps] ps(1) assms(1) by (simp add: union_window_area_def)
qed

lemma two_squares: "card (cells (corner 0 0 2) \<union> cells (corner 1 1 2)) = 7"
proof -
  have n: "card (cells (corner r c n)) = nat n * nat n" for r c n by (simp add: cells_def corner_def card_cartesian_product)
  have "cells (corner 0 0 2) \<inter> cells (corner 1 1 2) = cells (corner 1 1 1)"
    unfolding cells_def corner_def raster_window.simps Times_Int_Times by (simp add: max_def min_def)
  then show ?thesis using card_Un_Int [OF finite_cells finite_cells, of "corner 0 0 2" "corner 1 1 2"] n by simp
qed

lemma union_window_area_bounds_witness:
  "union_window_area [corner 0 0 2, corner 1 1 2] = Inr (Some 9) \<and>
   int (card (\<Union>w\<in>set [corner 0 0 2, corner 1 1 2]. cells w)) \<le> 9 \<and> card (cells (corner 0 0 2) \<union> cells (corner 1 1 2)) = 7"
proof -
  have n: "union_window_area [corner 0 0 2, corner 1 1 2] = Inr (Some 9)" by code_simp
  have ok: "window_ok w" if "w \<in> set [corner 0 0 2, corner 1 1 2]" for w using that by (auto simp: window_ok_def corner_def)
  obtain k where "union_window_area [corner 0 0 2, corner 1 1 2] = Inr (Some k)"
    "int (card (\<Union>w\<in>set [corner 0 0 2, corner 1 1 2]. cells w)) \<le> k" using union_window_area_bounds [OF _ ok] by blast
  then show ?thesis using n two_squares by simp
qed

end
