(* ===== verification/Spatial_Index.thy ===== *)
theory Spatial_Index
  imports Tree_Edits_Contract
begin

text \<open>
  The uniform-grid index over live trees, \<open>incremental/spatial_index.py\<close>: construction, the window and
  rectangle queries, and the trees affected by an edit; the equivalence of a query with the scan of all
  trees. Sets of tree ids are lists, sorted and without duplicates where the code sorts them.
\<close>

section \<open>World rectangles\<close>

record world_rect =
  wr_min_x :: real
  wr_min_y :: real
  wr_max_x :: real
  wr_max_y :: real

definition mk_world_rect :: "bounds \<Rightarrow> py_error + world_rect" where
  "mk_world_rect b =
     (case b of (x0, y0, x1, y1) \<Rightarrow>
        if x1 < x0 \<or> y1 < y0 then Inl (ValueError ''maximum bounds must not be smaller than minimum bounds'')
        else Inr \<lparr>wr_min_x = x0, wr_min_y = y0, wr_max_x = x1, wr_max_y = y1\<rparr>)"

definition rect_from_window :: "raster_window \<Rightarrow> raster_grid \<Rightarrow> py_error + world_rect" where
  "rect_from_window w g =
     (let pixel = rg_pixel_size_m g
      in mk_world_rect (rg_origin_x_m g + of_int (rw_col_start w) * pixel, rg_origin_y_m g - of_int (rw_row_stop w) * pixel,
                        rg_origin_x_m g + of_int (rw_col_stop w) * pixel, rg_origin_y_m g - of_int (rw_row_start w) * pixel))"

definition rect_intersects :: "world_rect \<Rightarrow> world_rect \<Rightarrow> bool" where
  "rect_intersects a b \<longleftrightarrow>
     \<not> (wr_max_x a < wr_min_x b \<or> wr_max_x b < wr_min_x a \<or> wr_max_y a < wr_min_y b \<or> wr_max_y b < wr_min_y a)"

definition rect_union :: "world_rect \<Rightarrow> world_rect \<Rightarrow> py_error + world_rect" where
  "rect_union a b =
     mk_world_rect (min (wr_min_x a) (wr_min_x b), min (wr_min_y a) (wr_min_y b),
                    max (wr_max_x a) (wr_max_x b), max (wr_max_y a) (wr_max_y b))"

definition disc_intersects_rect :: "tree_spec \<Rightarrow> world_rect \<Rightarrow> bool" where
  "disc_intersects_rect t rect \<longleftrightarrow>
     (let closest_x = min (max (ts_x_m t) (wr_min_x rect)) (wr_max_x rect);
          closest_y = min (max (ts_y_m t) (wr_min_y rect)) (wr_max_y rect);
          dx = closest_x - ts_x_m t; dy = closest_y - ts_y_m t
      in dx * dx + dy * dy \<le> ts_canopy_radius_m t ^ 2)"

section \<open>The index\<close>

record spatial_index =
  si_grid :: "raster_grid option"
  si_config :: influence_config
  si_sun_positions :: "sun_position list"
  si_bucket_size_m :: real
  si_trees :: "tree_spec list"
  si_footprints :: "world_rect dict"
  si_buckets :: "((int \<times> int) \<times> string list) list"

definition bucket_keys :: "world_rect \<Rightarrow> real \<Rightarrow> (int \<times> int) list" where
  "bucket_keys rect edge =
     concat (map (\<lambda>ix. map (Pair ix) [\<lfloor>wr_min_y rect / edge\<rfloor> .. \<lfloor>wr_max_y rect / edge\<rfloor>])
       [\<lfloor>wr_min_x rect / edge\<rfloor> .. \<lfloor>wr_max_x rect / edge\<rfloor>])"

definition add_member :: "string \<Rightarrow> int \<times> int \<Rightarrow> ((int \<times> int) \<times> string list) list \<Rightarrow> ((int \<times> int) \<times> string list) list" where
  "add_member tree_id key members =
     (let old = dict_get members key [] in
      AList.update key (if tree_id \<in> set old then old else old @ [tree_id]) members)"

definition index_step ::
  "sun_position list \<Rightarrow> influence_config \<Rightarrow> real \<Rightarrow> world_rect dict \<times> ((int \<times> int) \<times> string list) list \<Rightarrow> tree_spec \<Rightarrow>
   py_error + world_rect dict \<times> ((int \<times> int) \<times> string list) list" where
  "index_step suns cfg edge st t =
     (case st of (footprints, members) \<Rightarrow>
        bind_exc (tree_influence_bounds_m t suns cfg None) (\<lambda>b.
        bind_exc (mk_world_rect b) (\<lambda>rect.
          Inr (AList.update (ts_tree_id t) rect footprints,
               fold (add_member (ts_tree_id t)) (bucket_keys rect edge) members))))"

definition mk_spatial_index ::
  "tree_spec list \<Rightarrow> raster_grid option \<Rightarrow> influence_config \<Rightarrow> sun_position list \<Rightarrow> pyfloat \<Rightarrow> py_error + spatial_index" where
  "mk_spatial_index trees grid cfg suns bucket_size =
     (case bucket_size of
        Nonfinite \<Rightarrow> Inl (ValueError ''bucket_size_m must be finite and positive'')
      | Fin edge \<Rightarrow>
          if edge \<le> 0 then Inl (ValueError ''bucket_size_m must be finite and positive'')
          else let ordered = sort_key ts_tree_id trees in
               if \<not> distinct (map ts_tree_id ordered) then Inl (ValueError ''duplicate tree_id values are not allowed'')
               else bind_exc (fold_exc (index_step suns cfg edge) ([], []) ordered) (\<lambda>(footprints, members).
                 Inr \<lparr>si_grid = grid, si_config = cfg, si_sun_positions = suns, si_bucket_size_m = edge, si_trees = ordered,
                      si_footprints = footprints, si_buckets = map (map_prod id sort) members\<rparr>))"

definition candidates :: "spatial_index \<Rightarrow> world_rect \<Rightarrow> string list" where
  "candidates si rect =
     remdups (concat (map (\<lambda>key. dict_get (si_buckets si) key []) (bucket_keys rect (si_bucket_size_m si))))"

definition query_trees :: "spatial_index \<Rightarrow> world_rect \<Rightarrow> bool \<Rightarrow> py_error + tree_spec list" where
  "query_trees si rect influence =
     map_sum id concat (traverse (\<lambda>tree_id.
         case map_of (map (\<lambda>t. (ts_tree_id t, t)) (si_trees si)) tree_id of
           None \<Rightarrow> Inl (KeyError tree_id)
         | Some t \<Rightarrow>
             if influence
             then (case map_of (si_footprints si) tree_id of
                     None \<Rightarrow> Inl (KeyError tree_id)
                   | Some footprint \<Rightarrow> Inr (if rect_intersects footprint rect then [t] else []))
             else Inr (if disc_intersects_rect t rect then [t] else []))
       (sort (candidates si rect)))"

definition query_crown :: "spatial_index \<Rightarrow> world_rect \<Rightarrow> py_error + tree_spec list" where
  "query_crown si rect = query_trees si rect False"

definition query_influence :: "spatial_index \<Rightarrow> world_rect \<Rightarrow> py_error + tree_spec list" where
  "query_influence si rect = query_trees si rect True"

definition window_rect :: "spatial_index \<Rightarrow> raster_window \<Rightarrow> py_error + world_rect" where
  "window_rect si w =
     (case si_grid si of
        None \<Rightarrow> Inl (ValueError ''window queries require a grid; construct with grid=...'')
      | Some g \<Rightarrow> rect_from_window w g)"

definition query_crown_window :: "spatial_index \<Rightarrow> raster_window \<Rightarrow> py_error + tree_spec list" where
  "query_crown_window si w = bind_exc (window_rect si w) (query_crown si)"

definition query_influence_window :: "spatial_index \<Rightarrow> raster_window \<Rightarrow> py_error + tree_spec list" where
  "query_influence_window si w = bind_exc (window_rect si w) (query_influence si)"

definition affected_trees :: "spatial_index \<Rightarrow> TreeEdit \<Rightarrow> py_error + tree_spec list" where
  "affected_trees si e =
     bind_exc (traverse (\<lambda>t. bind_exc (tree_influence_bounds_m t (si_sun_positions si) (si_config si) None) mk_world_rect)
       ((case te_old_tree e of None \<Rightarrow> [] | Some t \<Rightarrow> [t]) @ (case te_new_tree e of None \<Rightarrow> [] | Some t \<Rightarrow> [t]))) (\<lambda>rects.
       case rects of
         [] \<Rightarrow> Inl (ValueError ''edit must contain an old or new tree'')
       | r # rs \<Rightarrow> bind_exc (fold_exc rect_union r rs) (query_influence si))"

section \<open>What the index holds\<close>

definition footprint_of :: "sun_position list \<Rightarrow> influence_config \<Rightarrow> tree_spec \<Rightarrow> world_rect" where
  "footprint_of suns cfg t = projr (bind_exc (tree_influence_bounds_m t suns cfg None) mk_world_rect)"

definition rect_ok :: "world_rect \<Rightarrow> bool" where
  "rect_ok r \<longleftrightarrow> wr_min_x r \<le> wr_max_x r \<and> wr_min_y r \<le> wr_max_y r"

lemma footprint_spec:
  assumes "tree_ok t" "config_ok cfg"
  shows "bind_exc (tree_influence_bounds_m t suns cfg None) mk_world_rect = Inr (footprint_of suns cfg t) \<and>
    rect_ok (footprint_of suns cfg t) \<and>
    wr_min_x (footprint_of suns cfg t) \<le> ts_x_m t - ts_canopy_radius_m t \<and> ts_x_m t + ts_canopy_radius_m t \<le> wr_max_x (footprint_of suns cfg t) \<and>
    wr_min_y (footprint_of suns cfg t) \<le> ts_y_m t - ts_canopy_radius_m t \<and> ts_y_m t + ts_canopy_radius_m t \<le> wr_max_y (footprint_of suns cfg t)"
proof -
  obtain b where b: "tree_influence_bounds_m t suns cfg None = Inr b" "bounds_ok b"
    "bounds_le (square_about t (sky_reach t cfg (effective_height t cfg None))) b"
    using tree_bounds_spec [OF assms, of None suns] by auto
  obtain x0 y0 x1 y1 where xy: "b = (x0, y0, x1, y1)" by (cases b) auto
  have "ts_canopy_radius_m t \<le> sky_reach t cfg (effective_height t cfg None)"
    using assms(2) by (simp add: sky_reach_def config_ok_def add_increasing2)
  then have le: "x0 \<le> ts_x_m t - ts_canopy_radius_m t" "ts_x_m t + ts_canopy_radius_m t \<le> x1"
    "y0 \<le> ts_y_m t - ts_canopy_radius_m t" "ts_y_m t + ts_canopy_radius_m t \<le> y1"
    using b(3) xy by (auto simp: bounds_le_def square_about_def)
  have lt: "x0 < x1" "y0 < y1" using b(2) xy by (auto simp: bounds_ok_def)
  then have "bind_exc (tree_influence_bounds_m t suns cfg None) mk_world_rect = Inr \<lparr>wr_min_x = x0, wr_min_y = y0, wr_max_x = x1, wr_max_y = y1\<rparr>"
    using b(1) xy by (simp add: mk_world_rect_def)
  then show ?thesis using le lt by (simp add: footprint_of_def rect_ok_def)
qed

abbreviation members_at :: "((int \<times> int) \<times> string list) list \<Rightarrow> int \<times> int \<Rightarrow> string set" where
  "members_at m key \<equiv> set (dict_get m key [])"

lemma members_add: "members_at (add_member i k m) key = members_at m key \<union> (if key = k then {i} else {})"
  by (auto simp: add_member_def Let_def)

lemma members_fold: "members_at (fold (add_member i) ks m) key = members_at m key \<union> (if key \<in> set ks then {i} else {})"
  by (induction ks arbitrary: m) (auto simp: members_add)

lemma members_sorted: "members_at (map (map_prod id sort) m) key = members_at m key"
  by (induction m) (auto simp: dict_get_def)

definition index_holds ::
  "sun_position list \<Rightarrow> influence_config \<Rightarrow> real \<Rightarrow> tree_spec list \<Rightarrow> world_rect dict \<times> ((int \<times> int) \<times> string list) list \<Rightarrow> bool" where
  "index_holds suns cfg edge ts st \<longleftrightarrow>
     (\<forall>t\<in>set ts. map_of (fst st) (ts_tree_id t) = Some (footprint_of suns cfg t)) \<and>
     (\<forall>key. members_at (snd st) key = {ts_tree_id t | t. t \<in> set ts \<and> key \<in> set (bucket_keys (footprint_of suns cfg t) edge)})"

lemma index_fold:
  assumes "config_ok cfg" "\<forall>t\<in>set us. tree_ok t" "distinct (map ts_tree_id (ts @ us))" "index_holds suns cfg edge ts st"
  shows "\<exists>st'. fold_exc (index_step suns cfg edge) st us = Inr st' \<and> index_holds suns cfg edge (ts @ us) st'"
  using assms(2-4)
proof (induction us arbitrary: ts st)
  case (Cons u us)
  obtain f m where st: "st = (f, m)" by (cases st)
  have "bind_exc (tree_influence_bounds_m u suns cfg None) mk_world_rect = Inr (footprint_of suns cfg u)"
    using footprint_spec [OF _ assms(1)] Cons.prems(1) by simp
  then obtain b where b: "tree_influence_bounds_m u suns cfg None = Inr b" "mk_world_rect b = Inr (footprint_of suns cfg u)"
    by (auto simp: bind_exc_Inr)
  let ?st = "(AList.update (ts_tree_id u) (footprint_of suns cfg u) f,
    fold (add_member (ts_tree_id u)) (bucket_keys (footprint_of suns cfg u) edge) m)"
  have step: "index_step suns cfg edge st u = Inr ?st" using b by (simp add: index_step_def st)
  have "index_holds suns cfg edge (ts @ [u]) ?st"
    using Cons.prems(2,3) unfolding index_holds_def st fst_conv snd_conv members_fold
    by (auto simp: members_fold) (metis imageI)
  then show ?case using Cons.IH [of "ts @ [u]" ?st] Cons.prems(1,2) step by simp
qed simp

section \<open>Queries\<close>

lemma common_bucket_axis:
  fixes a0 :: real
  assumes "0 < edge" "a0 \<le> a1" "b0 \<le> b1" "\<not> a1 < b0" "\<not> b1 < a0"
  shows "\<exists>k. \<lfloor>a0 / edge\<rfloor> \<le> k \<and> k \<le> \<lfloor>a1 / edge\<rfloor> \<and> \<lfloor>b0 / edge\<rfloor> \<le> k \<and> k \<le> \<lfloor>b1 / edge\<rfloor>"
proof (intro exI conjI)
  have e: "0 \<le> edge" using assms(1) by simp
  show "\<lfloor>a0 / edge\<rfloor> \<le> \<lfloor>max a0 b0 / edge\<rfloor>" "\<lfloor>b0 / edge\<rfloor> \<le> \<lfloor>max a0 b0 / edge\<rfloor>"
    "\<lfloor>max a0 b0 / edge\<rfloor> \<le> \<lfloor>a1 / edge\<rfloor>" "\<lfloor>max a0 b0 / edge\<rfloor> \<le> \<lfloor>b1 / edge\<rfloor>"
    using assms(2-5) by (intro floor_mono divide_right_mono [OF _ e]; simp)+
qed

lemma bucket_keys_iff:
  "(i, j) \<in> set (bucket_keys r edge) \<longleftrightarrow>
     \<lfloor>wr_min_x r / edge\<rfloor> \<le> i \<and> i \<le> \<lfloor>wr_max_x r / edge\<rfloor> \<and> \<lfloor>wr_min_y r / edge\<rfloor> \<le> j \<and> j \<le> \<lfloor>wr_max_y r / edge\<rfloor>"
  unfolding bucket_keys_def by force

lemma common_bucket:
  assumes "0 < edge" "rect_ok a" "rect_ok b" "rect_intersects a b"
  shows "\<exists>key. key \<in> set (bucket_keys a edge) \<and> key \<in> set (bucket_keys b edge)"
proof -
  obtain i where i: "\<lfloor>wr_min_x a / edge\<rfloor> \<le> i" "i \<le> \<lfloor>wr_max_x a / edge\<rfloor>" "\<lfloor>wr_min_x b / edge\<rfloor> \<le> i" "i \<le> \<lfloor>wr_max_x b / edge\<rfloor>"
    using common_bucket_axis [OF assms(1), of "wr_min_x a" "wr_max_x a" "wr_min_x b" "wr_max_x b"] assms(2-4)
    by (auto simp: rect_ok_def rect_intersects_def)
  obtain j where j: "\<lfloor>wr_min_y a / edge\<rfloor> \<le> j" "j \<le> \<lfloor>wr_max_y a / edge\<rfloor>" "\<lfloor>wr_min_y b / edge\<rfloor> \<le> j" "j \<le> \<lfloor>wr_max_y b / edge\<rfloor>"
    using common_bucket_axis [OF assms(1), of "wr_min_y a" "wr_max_y a" "wr_min_y b" "wr_max_y b"] assms(2-4)
    by (auto simp: rect_ok_def rect_intersects_def)
  show ?thesis using i j by (intro exI [of _ "(i, j)"]) (simp add: bucket_keys_iff)
qed

lemma clamp_distance:
  fixes x :: real
  assumes "lo \<le> hi" "\<bar>min (max x lo) hi - x\<bar> \<le> r"
  shows "lo \<le> x + r \<and> x - r \<le> hi"
  using assms by (auto simp: abs_le_iff min_def max_def split: if_splits)

lemma crown_inside_footprint:
  assumes "tree_ok t" "config_ok cfg" "rect_ok rect" "disc_intersects_rect t rect"
  shows "rect_intersects (footprint_of suns cfg t) rect"
proof -
  let ?dx = "min (max (ts_x_m t) (wr_min_x rect)) (wr_max_x rect) - ts_x_m t"
  let ?dy = "min (max (ts_y_m t) (wr_min_y rect)) (wr_max_y rect) - ts_y_m t"
  have r: "0 \<le> ts_canopy_radius_m t" using assms(1) by (simp add: tree_ok_def)
  have sum: "?dx ^ 2 + ?dy ^ 2 \<le> ts_canopy_radius_m t ^ 2"
    using assms(4) by (simp add: disc_intersects_rect_def Let_def power2_eq_square)
  have "?dx ^ 2 \<le> ts_canopy_radius_m t ^ 2" "?dy ^ 2 \<le> ts_canopy_radius_m t ^ 2"
    using sum zero_le_power2 [of ?dx] zero_le_power2 [of ?dy] by linarith+
  then have d: "\<bar>?dx\<bar> \<le> ts_canopy_radius_m t" "\<bar>?dy\<bar> \<le> ts_canopy_radius_m t"
    using r abs_le_square_iff [of ?dx "ts_canopy_radius_m t"] abs_le_square_iff [of ?dy "ts_canopy_radius_m t"] by simp_all
  have "wr_min_x rect \<le> ts_x_m t + ts_canopy_radius_m t" "ts_x_m t - ts_canopy_radius_m t \<le> wr_max_x rect"
    "wr_min_y rect \<le> ts_y_m t + ts_canopy_radius_m t" "ts_y_m t - ts_canopy_radius_m t \<le> wr_max_y rect"
    using clamp_distance [OF _ d(1)] clamp_distance [OF _ d(2)] assms(3) by (auto simp: rect_ok_def)
  then show ?thesis using footprint_spec [OF assms(1,2), of suns] by (auto simp: rect_intersects_def)
qed

lemma concat_if_filter: "concat (map (\<lambda>t. if P t then [t] else []) ts) = filter P ts"
  by (induction ts) auto

lemma filter_by_ids:
  assumes "distinct (map f ts)" "sorted (map f ts)" "distinct ids" "sorted ids" "set ids \<subseteq> set (map f ts)"
    and "\<And>t. t \<in> set ts \<Longrightarrow> P t \<Longrightarrow> f t \<in> set ids"
    and "\<And>t. t \<in> set ts \<Longrightarrow> g (f t) = (if P t then [t] else [])"
  shows "concat (map g ids) = filter P ts"
proof -
  let ?hits = "filter (\<lambda>t. f t \<in> set ids) ts"
  have eq: "ids = map f ?hits"
  proof (rule sorted_distinct_set_unique [OF assms(4,3)])
    show "sorted (map f ?hits)" using sorted_filter [OF assms(2), of "\<lambda>t. f t \<in> set ids"] .
    show "distinct (map f ?hits)" by (rule distinct_map_filter [OF assms(1)])
    show "set ids = set (map f ?hits)" using assms(5) by auto
  qed
  have "concat (map g ids) = concat (map g (map f ?hits))" by (rule arg_cong [OF eq])
  also have "\<dots> = concat (map (\<lambda>t. if P t then [t] else []) ?hits)"
    by (rule arg_cong [where f = concat]) (simp add: assms(7))
  also have "\<dots> = filter P ?hits" by (rule concat_if_filter)
  also have "\<dots> = filter P ts" unfolding filter_filter by (rule filter_cong) (use assms(6) in auto)
  finally show ?thesis .
qed

lemma built_index:
  assumes "mk_spatial_index trees grid cfg suns (Fin edge) = Inr si" "config_ok cfg" "\<forall>t\<in>set trees. tree_ok t"
  shows "0 < edge \<and> si_bucket_size_m si = edge \<and> si_trees si = sort_key ts_tree_id trees \<and> distinct (map ts_tree_id (si_trees si)) \<and>
    si_grid si = grid \<and> si_config si = cfg \<and> si_sun_positions si = suns \<and>
    (\<exists>m. si_buckets si = map (map_prod id sort) m \<and> index_holds suns cfg edge (si_trees si) (si_footprints si, m))"
proof -
  let ?ts = "sort_key ts_tree_id trees"
  have d: "distinct (map ts_tree_id ?ts)" and e: "0 < edge"
    using assms(1) by (auto simp: mk_spatial_index_def Let_def split: if_splits)
  have "index_holds suns cfg edge [] ([], [])" by (simp add: index_holds_def dict_get_def)
  then obtain st where st: "fold_exc (index_step suns cfg edge) ([], []) ?ts = Inr st" "index_holds suns cfg edge ?ts st"
    using index_fold [OF assms(2), of ?ts "[]" suns edge "([], [])"] assms(3) d by auto
  show ?thesis using assms(1) d e st
    by (cases st) (auto simp: mk_spatial_index_def Let_def)
qed

lemma candidates_set:
  assumes "si_buckets si = map (map_prod id sort) m" "index_holds suns cfg edge ts (f, m)" "si_bucket_size_m si = edge"
  shows "set (candidates si rect) =
    {ts_tree_id t | t. t \<in> set ts \<and> (\<exists>key\<in>set (bucket_keys rect edge). key \<in> set (bucket_keys (footprint_of suns cfg t) edge))}"
  using assms unfolding candidates_def index_holds_def by (auto simp: members_sorted)

definition tree_matches :: "spatial_index \<Rightarrow> world_rect \<Rightarrow> bool \<Rightarrow> tree_spec \<Rightarrow> bool" where
  "tree_matches si rect influence t \<longleftrightarrow>
     (if influence then rect_intersects (footprint_of (si_sun_positions si) (si_config si) t) rect else disc_intersects_rect t rect)"

lemma query_scans:
  assumes "mk_spatial_index trees grid cfg suns (Fin edge) = Inr si" "config_ok cfg" "\<forall>t\<in>set trees. tree_ok t" "rect_ok rect"
  shows "query_trees si rect influence = Inr (filter (tree_matches si rect influence) (sort_key ts_tree_id trees))"
proof -
  obtain m where e: "0 < edge" "si_bucket_size_m si = edge" and ts: "si_trees si = sort_key ts_tree_id trees"
    and d: "distinct (map ts_tree_id (si_trees si))" and c: "si_config si = cfg" "si_sun_positions si = suns"
    and b: "si_buckets si = map (map_prod id sort) m" and h: "index_holds suns cfg edge (si_trees si) (si_footprints si, m)"
    using built_index [OF assms(1-3)] by (elim conjE exE) (rule that)
  let ?g = "\<lambda>i. let t = the (map_of (map (\<lambda>t. (ts_tree_id t, t)) (si_trees si)) i)
    in if tree_matches si rect influence t then [t] else []"
  let ?ids = "sort (candidates si rect)"
  have at: "map_of (map (\<lambda>t. (ts_tree_id t, t)) (si_trees si)) (ts_tree_id t) = Some t" if "t \<in> set (si_trees si)" for t
    using d that by (simp add: comp_def)
  have foot: "map_of (si_footprints si) (ts_tree_id t) = Some (footprint_of suns cfg t)" if "t \<in> set (si_trees si)" for t
    using h that by (simp add: index_holds_def)
  have ids: "set ?ids \<subseteq> set (map ts_tree_id (si_trees si))"
    unfolding set_sort candidates_set [OF b h e(2)] by auto
  have "query_trees si rect influence = map_sum id concat (Inr (map ?g ?ids))"
    unfolding query_trees_def
  proof (rule arg_cong [where f = "map_sum id concat"], rule traverse_total)
    fix i assume "i \<in> set ?ids"
    then obtain t where t: "t \<in> set (si_trees si)" "i = ts_tree_id t" using ids by auto
    show "(case map_of (map (\<lambda>t. (ts_tree_id t, t)) (si_trees si)) i of None \<Rightarrow> Inl (KeyError i)
       | Some t \<Rightarrow> if influence then (case map_of (si_footprints si) i of None \<Rightarrow> Inl (KeyError i)
            | Some footprint \<Rightarrow> Inr (if rect_intersects footprint rect then [t] else []))
           else Inr (if disc_intersects_rect t rect then [t] else [])) = Inr (?g i)"
      unfolding t(2) at [OF t(1)] foot [OF t(1)] by (simp add: tree_matches_def c)
  qed
  moreover have "concat (map ?g ?ids) = filter (tree_matches si rect influence) (si_trees si)"
  proof (rule filter_by_ids [OF d _ _ _ ids])
    show "sorted (map ts_tree_id (si_trees si))" by (simp add: ts)
    show "distinct ?ids" by (simp add: candidates_def)
    show "ts_tree_id t \<in> set ?ids" if t: "t \<in> set (si_trees si)" "tree_matches si rect influence t" for t
    proof -
      have ok: "tree_ok t" using t(1) assms(3) by (simp add: ts)
      have "rect_intersects (footprint_of suns cfg t) rect"
        using t(2) crown_inside_footprint [OF ok assms(2,4)] by (auto simp: tree_matches_def c split: if_splits)
      then obtain key where "key \<in> set (bucket_keys (footprint_of suns cfg t) edge)" "key \<in> set (bucket_keys rect edge)"
        using common_bucket [OF e(1) _ assms(4)] footprint_spec [OF ok assms(2)] by blast
      then show ?thesis using t(1) unfolding set_sort candidates_set [OF b h e(2)] by auto
    qed
  qed (simp_all add: at)
  ultimately show ?thesis by (simp add: ts)
qed

lemma index_builds:
  assumes "0 < edge" "distinct (map ts_tree_id trees)" "config_ok cfg" "\<forall>t\<in>set trees. tree_ok t"
  shows "\<exists>si. mk_spatial_index trees grid cfg suns (Fin edge) = Inr si"
proof -
  let ?ts = "sort_key ts_tree_id trees"
  have d: "distinct (map ts_tree_id ?ts)"
    using assms(2) by (simp add: distinct_map)
  have "index_holds suns cfg edge [] ([], [])" by (simp add: index_holds_def dict_get_def)
  then obtain st where "fold_exc (index_step suns cfg edge) ([], []) ?ts = Inr st"
    using index_fold [OF assms(3), of ?ts "[]" suns edge "([], [])"] assms(4) d by auto
  then show ?thesis using assms(1) d by (cases st) (simp add: mk_spatial_index_def Let_def)
qed

lemma fold_union_rect:
  "rect_ok r \<Longrightarrow> \<forall>q\<in>set rs. rect_ok q \<Longrightarrow>
   \<exists>u. fold_exc rect_union r rs = Inr u \<and> rect_ok u \<and> (\<forall>p. (\<exists>q\<in>set (r # rs). rect_intersects p q) \<longrightarrow> rect_intersects p u)"
proof (induction rs arbitrary: r)
  case (Cons q rs)
  let ?v = "\<lparr>wr_min_x = min (wr_min_x r) (wr_min_x q), wr_min_y = min (wr_min_y r) (wr_min_y q),
    wr_max_x = max (wr_max_x r) (wr_max_x q), wr_max_y = max (wr_max_y r) (wr_max_y q)\<rparr>"
  have ok: "rect_ok ?v" using Cons.prems by (auto simp: rect_ok_def)
  have v: "rect_union r q = Inr ?v" using ok by (auto simp: rect_union_def mk_world_rect_def rect_ok_def)
  have up: "rect_intersects p ?v" if "rect_intersects p r \<or> rect_intersects p q" for p
    using that by (auto simp: rect_intersects_def)
  show ?case using Cons.IH [OF ok] Cons.prems(2) v up by fastforce
qed simp

definition edit_trees :: "TreeEdit \<Rightarrow> tree_spec list" where
  "edit_trees e = (case te_old_tree e of None \<Rightarrow> [] | Some t \<Rightarrow> [t]) @ (case te_new_tree e of None \<Rightarrow> [] | Some t \<Rightarrow> [t])"

lemma affected_spec:
  assumes "mk_spatial_index trees grid cfg suns (Fin edge) = Inr si" "config_ok cfg" "\<forall>t\<in>set trees. tree_ok t"
    and "edit_trees e \<noteq> []" "\<forall>t\<in>set (edit_trees e). tree_ok t"
  shows "\<exists>us. affected_trees si e = Inr us \<and> set us \<subseteq> set trees \<and>
    (\<forall>t\<in>set trees. (\<exists>q\<in>set (edit_trees e). rect_intersects (footprint_of suns cfg t) (footprint_of suns cfg q)) \<longrightarrow> t \<in> set us)"
proof -
  let ?foot = "footprint_of suns cfg"
  have c: "si_config si = cfg" "si_sun_positions si = suns" using built_index [OF assms(1-3)] by auto
  have feet: "traverse (\<lambda>t. bind_exc (tree_influence_bounds_m t suns cfg None) mk_world_rect) (edit_trees e) = Inr (map ?foot (edit_trees e))"
    using footprint_spec [OF _ assms(2)] assms(5) by (intro traverse_total) auto
  obtain q qs where q: "edit_trees e = q # qs" using assms(4) by (cases "edit_trees e") auto
  have ok: "rect_ok (?foot q)" "\<forall>r\<in>set (map ?foot qs). rect_ok r"
    using footprint_spec [OF _ assms(2)] assms(5) q by auto
  obtain u where u: "fold_exc rect_union (?foot q) (map ?foot qs) = Inr u" "rect_ok u"
    "\<forall>p. (\<exists>r\<in>set (?foot q # map ?foot qs). rect_intersects p r) \<longrightarrow> rect_intersects p u"
    using fold_union_rect [OF ok] by (elim exE conjE) (rule that)
  have "affected_trees si e = query_trees si u True"
    using feet u(1) unfolding affected_trees_def edit_trees_def [symmetric] c by (simp add: q query_influence_def)
  then have "affected_trees si e = Inr (filter (\<lambda>t. rect_intersects (?foot t) u) (sort_key ts_tree_id trees))"
    using query_scans [OF assms(1-3) u(2), of True] by (simp add: tree_matches_def [abs_def] c)
  then show ?thesis using u(3) q by auto
qed

text \<open>C36: The uniform-grid index never approximates: over well-formed trees with distinct ids it can always be built, its
  influence query returns exactly the trees whose footprint meets the closed rectangle and its crown query exactly those
  whose crown disc does, in the order of the tree ids, and the trees reported as affected by an edit include every tree
  whose footprint meets a footprint of the edit. The buckets change only how many trees are looked at, and no lookup
  raises.\<close>

theorem spatial_query_exact:
  assumes "0 < edge" "distinct (map ts_tree_id trees)" "config_ok cfg" "\<forall>t\<in>set trees. tree_ok t" "rect_ok rect"
    and "edit_trees e \<noteq> []" "\<forall>t\<in>set (edit_trees e). tree_ok t"
  shows "\<exists>si us. mk_spatial_index trees grid cfg suns (Fin edge) = Inr si \<and>
    query_influence si rect = Inr (filter (\<lambda>t. rect_intersects (footprint_of suns cfg t) rect) (sort_key ts_tree_id trees)) \<and>
    query_crown si rect = Inr (filter (\<lambda>t. disc_intersects_rect t rect) (sort_key ts_tree_id trees)) \<and>
    affected_trees si e = Inr us \<and> set us \<subseteq> set trees \<and>
    (\<forall>t\<in>set trees. (\<exists>q\<in>set (edit_trees e). rect_intersects (footprint_of suns cfg t) (footprint_of suns cfg q)) \<longrightarrow> t \<in> set us)"
proof -
  obtain si where si: "mk_spatial_index trees grid cfg suns (Fin edge) = Inr si"
    using index_builds [OF assms(1-4), of grid suns] by (elim exE) (rule that)
  obtain us where us: "affected_trees si e = Inr us" "set us \<subseteq> set trees"
    "\<forall>t\<in>set trees. (\<exists>q\<in>set (edit_trees e). rect_intersects (footprint_of suns cfg t) (footprint_of suns cfg q)) \<longrightarrow> t \<in> set us"
    using affected_spec [OF si assms(3,4,6,7)] by (elim exE conjE) (rule that)
  have "si_config si = cfg" "si_sun_positions si = suns" using built_index [OF si assms(3,4)] by auto
  then have "query_influence si rect = Inr (filter (\<lambda>t. rect_intersects (footprint_of suns cfg t) rect) (sort_key ts_tree_id trees)) \<and>
    query_crown si rect = Inr (filter (\<lambda>t. disc_intersects_rect t rect) (sort_key ts_tree_id trees))"
    using query_scans [OF si assms(3-5)] by (simp add: query_influence_def query_crown_def tree_matches_def [abs_def])
  with si us show ?thesis by (intro exI [of _ si] exI [of _ us]) simp
qed

theorem spatial_query_exact_witness:
  "\<exists>si us. mk_spatial_index [demo_tree] None default_influence_config [] (Fin 64) = Inr si \<and>
     query_crown si \<lparr>wr_min_x = 0, wr_min_y = 0, wr_max_x = 49, wr_max_y = 50\<rparr> = Inr [demo_tree] \<and>
     affected_trees si (demo_edit 4 None (Some demo_tree)) = Inr us \<and> demo_tree \<in> set us"
proof -
  let ?r = "\<lparr>wr_min_x = 0, wr_min_y = 0, wr_max_x = 49, wr_max_y = 50\<rparr>" and ?e = "demo_edit 4 None (Some demo_tree)"
  have e: "edit_trees ?e = [demo_tree]" by (simp add: edit_trees_def demo_edit_def)
  have self: "rect_intersects (footprint_of [] default_influence_config demo_tree) (footprint_of [] default_influence_config demo_tree)"
    using footprint_spec [OF demo_ok(2) default_config_ok, of "[]"] by (simp add: rect_ok_def rect_intersects_def not_less)
  have disc: "disc_intersects_rect demo_tree ?r"
    by (simp add: disc_intersects_rect_def demo_tree_def)
  show ?thesis
    using spatial_query_exact [of 64 "[demo_tree]" default_influence_config ?r ?e None "[]"] demo_ok(2) default_config_ok e self disc
    by (auto simp: rect_ok_def)
qed

end
