(* ===== verification/Edit_Graph.thy ===== *)
theory Edit_Graph
  imports Prelude
begin

text \<open>
  The dependency graph of the editing engine, \<open>incremental/edit_graph.py\<close>: the checked construction with
  Kahn's order, the downstream and upstream closures, and the versioned scene state. A heap is a
  sorted list, a stack a list with its top first, a set of node ids a list without repetitions.
\<close>

section \<open>Nodes\<close>

datatype node_kind = SOURCE | DERIVED | STATEFUL | OUTPUT | VIEW

record graph_node =
  gn_node_id :: string
  gn_kind :: node_kind

text \<open>\<open>EditGraphError\<close> by its cause.\<close>

datatype graph_error =
    EmptyNodeId
  | DuplicateNode string
  | UnknownEndpoint string
  | SelfEdge string
  | DuplicateEdge "string \<times> string"
  | CycleAmong "string list"
  | UnknownNode string
  | NegativeRevision
  | UnknownVersion string

record edit_graph =
  eg_nodes :: "graph_node list"
  eg_edges :: "(string \<times> string) list"
  eg_kinds :: "node_kind dict"
  eg_children :: "string list dict"
  eg_parents :: "string list dict"
  eg_order :: "string list"

definition GRAPH_SCHEMA_VERSION :: int where
  "GRAPH_SCHEMA_VERSION = 1"

section \<open>Kahn's algorithm\<close>

text \<open>One child of the node just placed: its count of open inputs falls, and at zero it is pushed.\<close>

definition relax_child :: "string \<Rightarrow> int dict \<times> string list \<Rightarrow> int dict \<times> string list" where
  "relax_child child st =
     (case st of (remaining, ready) \<Rightarrow>
        let count = dict_get remaining child 0 - 1
        in (AList.update child count remaining, if count = 0 then insort child ready else ready))"

abbreviation open_nodes :: "int dict \<Rightarrow> string set" where
  "open_nodes remaining \<equiv> {k. 0 < dict_get remaining k 0}"

lemma finite_open_nodes [simp]: "finite (open_nodes remaining)"
proof (rule finite_subset)
  show "open_nodes remaining \<subseteq> set (dict_keys remaining)"
    by (auto simp: dict_get_def dest: map_of_Some_keys split: option.splits)
qed simp

lemma relax_child_measure:
  "relax_child child (remaining, ready) = (remaining', ready') \<Longrightarrow>
   card (open_nodes remaining') + length ready' = card (open_nodes remaining) + length ready"
proof -
  let ?v = "dict_get remaining child 0"
  assume "relax_child child (remaining, ready) = (remaining', ready')"
  then have r: "remaining' = AList.update child (?v - 1) remaining" "ready' = (if ?v = 1 then insort child ready else ready)"
    by (simp_all add: relax_child_def Let_def)
  show ?thesis
  proof (cases "?v = 1")
    case True
    have "open_nodes remaining' = open_nodes remaining - {child}" "child \<in> open_nodes remaining" using True r by auto
    moreover have "0 < card (open_nodes remaining)" using True by (auto simp: card_gt_0_iff intro: exI [of _ child])
    ultimately show ?thesis using True r(2) by (simp add: card_Diff_singleton)
  next
    case False
    then have "open_nodes remaining' = open_nodes remaining" using r(1) by auto
    then show ?thesis using False r(2) by simp
  qed
qed

lemma relax_fold_measure:
  "fold relax_child cs (remaining, ready) = (remaining', ready') \<Longrightarrow>
   card (open_nodes remaining') + length ready' = card (open_nodes remaining) + length ready"
proof (induction cs arbitrary: remaining ready)
  case (Cons c cs)
  obtain rm rd where s: "relax_child c (remaining, ready) = (rm, rd)" by (cases "relax_child c (remaining, ready)")
  have "card (open_nodes remaining') + length ready' = card (open_nodes rm) + length rd"
    using Cons.prems s by (intro Cons.IH) simp
  then show ?case using relax_child_measure [OF s] by simp
qed simp

function kahn_loop :: "string list dict \<Rightarrow> int dict \<Rightarrow> string list \<Rightarrow> string list \<Rightarrow> int dict \<times> string list" where
  "kahn_loop children remaining ready order =
     (case ready of
        [] \<Rightarrow> (remaining, order)
      | node # rest \<Rightarrow>
          (case fold relax_child (dict_get children node []) (remaining, rest) of
             (remaining', ready') \<Rightarrow> kahn_loop children remaining' ready' (order @ [node])))"
  by pat_completeness auto
termination
  by (relation "measure (\<lambda>(_, remaining, ready, _). card (open_nodes remaining) + length ready)")
    (auto dest!: sym [THEN relax_fold_measure])

declare kahn_loop.simps [simp del]

definition kahn_order :: "node_kind dict \<Rightarrow> string list dict \<Rightarrow> string list dict \<Rightarrow> graph_error + string list" where
  "kahn_order kinds children parents =
     (let remaining = map (\<lambda>k. (k, int (length (dict_get parents k [])))) (dict_keys kinds);
          ready = sort (map fst (filter (\<lambda>kv. snd kv = 0) remaining))
      in case kahn_loop children remaining ready [] of (remaining', order) \<Rightarrow>
           if length order \<noteq> length kinds
           then Inl (CycleAmong (sort (map fst (filter (\<lambda>kv. 0 < snd kv) remaining'))))
           else Inr order)"

section \<open>Construction\<close>

definition add_node :: "node_kind dict \<Rightarrow> graph_node \<Rightarrow> graph_error + node_kind dict" where
  "add_node kinds n =
     (if gn_node_id n = [] then Inl EmptyNodeId
      else if gn_node_id n \<in> set (dict_keys kinds) then Inl (DuplicateNode (gn_node_id n))
      else Inr (AList.update (gn_node_id n) (gn_kind n) kinds))"

type_synonym edge_state = "string list dict \<times> string list dict \<times> (string \<times> string) list"

definition add_edge :: "node_kind dict \<Rightarrow> edge_state \<Rightarrow> string \<times> string \<Rightarrow> graph_error + edge_state" where
  "add_edge kinds st edge =
     (case (st, edge) of ((children, parents, seen), (producer, consumer)) \<Rightarrow>
        if producer \<notin> set (dict_keys kinds) then Inl (UnknownEndpoint producer)
        else if consumer \<notin> set (dict_keys kinds) then Inl (UnknownEndpoint consumer)
        else if producer = consumer then Inl (SelfEdge producer)
        else if edge \<in> set seen then Inl (DuplicateEdge edge)
        else Inr (dict_append children producer consumer, dict_append parents consumer producer, seen @ [edge]))"

definition mk_edit_graph :: "graph_node list \<Rightarrow> (string \<times> string) list \<Rightarrow> graph_error + edit_graph" where
  "mk_edit_graph nodes edges =
     bind_exc (fold_exc add_node [] nodes) (\<lambda>kinds.
     let blank = map (\<lambda>k. (k, [])) (dict_keys kinds) in
     bind_exc (fold_exc (add_edge kinds) (blank, blank, []) edges) (\<lambda>(children, parents, _).
     let children' = map (\<lambda>(k, v). (k, sort v)) children; parents' = map (\<lambda>(k, v). (k, sort v)) parents in
     bind_exc (kahn_order kinds children' parents') (\<lambda>order.
       Inr \<lparr>eg_nodes = nodes, eg_edges = edges, eg_kinds = kinds, eg_children = children', eg_parents = parents',
            eg_order = order\<rparr>)))"

section \<open>Structure\<close>

definition node_ids :: "edit_graph \<Rightarrow> string list" where
  "node_ids g = dict_keys (eg_kinds g)"

definition graph_contains :: "edit_graph \<Rightarrow> string \<Rightarrow> bool" where
  "graph_contains g n \<longleftrightarrow> n \<in> set (dict_keys (eg_kinds g))"

definition graph_kind :: "edit_graph \<Rightarrow> string \<Rightarrow> graph_error + node_kind" where
  "graph_kind g n = (case map_of (eg_kinds g) n of None \<Rightarrow> Inl (UnknownNode n) | Some k \<Rightarrow> Inr k)"

definition is_executable :: "edit_graph \<Rightarrow> string \<Rightarrow> graph_error + bool" where
  "is_executable g n = map_sum id (\<lambda>k. k \<notin> {SOURCE, VIEW}) (graph_kind g n)"

definition graph_parents :: "edit_graph \<Rightarrow> string \<Rightarrow> graph_error + string list" where
  "graph_parents g n = map_sum id (\<lambda>_. dict_get (eg_parents g) n []) (graph_kind g n)"

definition graph_children :: "edit_graph \<Rightarrow> string \<Rightarrow> graph_error + string list" where
  "graph_children g n = map_sum id (\<lambda>_. dict_get (eg_children g) n []) (graph_kind g n)"

definition topological_order :: "edit_graph \<Rightarrow> string list" where
  "topological_order g = eg_order g"

section \<open>Closures\<close>

text \<open>A node met for the first time joins the closure and the stack.\<close>

definition visit :: "string \<Rightarrow> string list \<times> string list \<Rightarrow> string list \<times> string list" where
  "visit n st = (case st of (closure, stack) \<Rightarrow> if n \<in> set closure then (closure, stack) else (n # closure, n # stack))"

abbreviation targets :: "string list dict \<Rightarrow> string set" where
  "targets adj \<equiv> \<Union> (set (map (set \<circ> snd) adj))"

lemma targets_dict_get: "set (dict_get adj n []) \<subseteq> targets adj"
proof (cases "map_of adj n")
  case (Some v)
  then have "(n, v) \<in> set adj" by (rule map_of_SomeD)
  then show ?thesis using Some by (force simp: dict_get_def)
qed (simp add: dict_get_def)

lemma visit_fold_measure:
  assumes "fold visit ns (closure, stack) = (closure', stack')" "set ns \<subseteq> T" "finite T"
  shows "card (T - set closure') + length stack' = card (T - set closure) + length stack"
  using assms(1,2)
proof (induction ns arbitrary: closure stack)
  case (Cons n ns)
  show ?case
  proof (cases "n \<in> set closure")
    case True
    then show ?thesis using Cons by (simp add: visit_def)
  next
    case False
    have "card (T - set closure') + length stack' = card (T - set (n # closure)) + length (n # stack)"
      using Cons False by (intro Cons.IH) (simp_all add: visit_def)
    moreover have "T - set (n # closure) = (T - set closure) - {n}" "n \<in> T - set closure" using Cons.prems(2) False by auto
    moreover have "0 < card (T - set closure)" using calculation(3) assms(3) by (auto simp: card_gt_0_iff)
    ultimately show ?thesis using assms(3) by (simp add: card_Diff_singleton)
  qed
qed simp

function closure_loop :: "string list dict \<Rightarrow> string list \<Rightarrow> string list \<Rightarrow> string list" where
  "closure_loop adj closure stack =
     (case stack of
        [] \<Rightarrow> closure
      | current # rest \<Rightarrow>
          (case fold visit (dict_get adj current []) (closure, rest) of
             (closure', stack') \<Rightarrow> closure_loop adj closure' stack'))"
  by pat_completeness auto
termination
proof (relation "measure (\<lambda>(adj, closure, stack). card (targets adj - set closure) + length stack)", goal_cases)
  case (2 adj closure stack current rest closure' stack')
  then have "card (targets adj - set closure') + length stack' = card (targets adj - set closure) + length rest"
    by (intro visit_fold_measure [OF _ targets_dict_get]) auto
  then show ?case using 2(1) by simp
qed simp

declare closure_loop.simps [simp del]

definition seed :: "edit_graph \<Rightarrow> string list \<times> string list \<Rightarrow> string \<Rightarrow> graph_error + string list \<times> string list" where
  "seed g st n = map_sum id (\<lambda>_. visit n st) (graph_kind g n)"

definition downstream :: "edit_graph \<Rightarrow> string list \<Rightarrow> graph_error + string list" where
  "downstream g ns = map_sum id (\<lambda>(closure, stack). closure_loop (eg_children g) closure stack) (fold_exc (seed g) ([], []) ns)"

definition upstream :: "edit_graph \<Rightarrow> string list \<Rightarrow> graph_error + string list" where
  "upstream g ns = map_sum id (\<lambda>(closure, stack). closure_loop (eg_parents g) closure stack) (fold_exc (seed g) ([], []) ns)"

section \<open>The scene graph\<close>

abbreviation mk_node :: "string \<Rightarrow> node_kind \<Rightarrow> graph_node" where
  "mk_node n k \<equiv> \<lparr>gn_node_id = n, gn_kind = k\<rparr>"

definition GRAPH_NODES :: "graph_node list" where
  "GRAPH_NODES =
     [mk_node ''dem'' SOURCE, mk_node ''building_dsm'' SOURCE, mk_node ''vegetation_dsm'' SOURCE, mk_node ''landcover'' SOURCE,
      mk_node ''meteorology'' SOURCE, mk_node ''selected_date_time'' SOURCE, mk_node ''wind_coefficients'' SOURCE,
      mk_node ''model_parameters'' SOURCE, mk_node ''output_selection'' VIEW, mk_node ''relative_geometry'' DERIVED,
      mk_node ''walls'' DERIVED, mk_node ''wall_aspect'' DERIVED, mk_node ''building_visibility'' DERIVED,
      mk_node ''vegetation_visibility'' DERIVED, mk_node ''svf'' DERIVED, mk_node ''solar_atmospheric_state'' DERIVED,
      mk_node ''time_shadow'' DERIVED, mk_node ''radiation'' DERIVED, mk_node ''surface_thermal_state'' STATEFUL,
      mk_node ''tmrt'' OUTPUT, mk_node ''utci'' OUTPUT, mk_node ''wbgt'' OUTPUT]"

definition GRAPH_EDGES :: "(string \<times> string) list" where
  "GRAPH_EDGES =
     [(''dem'', ''relative_geometry''), (''building_dsm'', ''relative_geometry''), (''vegetation_dsm'', ''relative_geometry''),
      (''building_dsm'', ''walls''), (''building_dsm'', ''wall_aspect''), (''building_dsm'', ''building_visibility''),
      (''dem'', ''vegetation_visibility''), (''relative_geometry'', ''vegetation_visibility''),
      (''vegetation_dsm'', ''vegetation_visibility''), (''building_visibility'', ''svf''), (''vegetation_visibility'', ''svf''),
      (''meteorology'', ''solar_atmospheric_state''), (''selected_date_time'', ''solar_atmospheric_state''),
      (''solar_atmospheric_state'', ''time_shadow''), (''building_visibility'', ''time_shadow''),
      (''vegetation_visibility'', ''time_shadow''), (''walls'', ''time_shadow''), (''wall_aspect'', ''time_shadow''),
      (''svf'', ''radiation''), (''time_shadow'', ''radiation''), (''landcover'', ''radiation''), (''meteorology'', ''radiation''),
      (''model_parameters'', ''radiation''), (''landcover'', ''surface_thermal_state''),
      (''meteorology'', ''surface_thermal_state''), (''radiation'', ''surface_thermal_state''), (''radiation'', ''tmrt''),
      (''surface_thermal_state'', ''tmrt''), (''meteorology'', ''tmrt''), (''tmrt'', ''utci''), (''meteorology'', ''utci''),
      (''wind_coefficients'', ''utci''), (''tmrt'', ''wbgt''), (''meteorology'', ''wbgt''), (''wind_coefficients'', ''wbgt''),
      (''time_shadow'', ''wbgt'')]"

definition default_edit_graph :: "graph_error + edit_graph" where
  "default_edit_graph = mk_edit_graph GRAPH_NODES GRAPH_EDGES"

section \<open>Versioned scene state\<close>

record scene_graph_state =
  sg_graph :: edit_graph
  sg_scene_revision :: int
  sg_node_versions :: "int dict"

definition mk_scene_graph_state :: "edit_graph \<Rightarrow> int \<Rightarrow> int dict \<Rightarrow> graph_error + scene_graph_state" where
  "mk_scene_graph_state g revision versions =
     (if revision < 0 then Inl NegativeRevision
      else case filter (\<lambda>n. \<not> graph_contains g n) (dict_keys versions) of
             n # _ \<Rightarrow> Inl (UnknownVersion n)
           | [] \<Rightarrow> Inr \<lparr>sg_graph = g, sg_scene_revision = revision, sg_node_versions = versions\<rparr>)"

definition initial_scene :: "edit_graph option \<Rightarrow> graph_error + scene_graph_state" where
  "initial_scene graph =
     bind_exc (case graph of Some g \<Rightarrow> Inr g | None \<Rightarrow> default_edit_graph) (\<lambda>g. mk_scene_graph_state g 0 [])"

definition node_version :: "scene_graph_state \<Rightarrow> string \<Rightarrow> graph_error + int" where
  "node_version s n = map_sum id (\<lambda>_. dict_get (sg_node_versions s) n 0) (graph_kind (sg_graph s) n)"

definition bump :: "string \<Rightarrow> int dict \<Rightarrow> int dict" where
  "bump n versions = AList.update n (dict_get versions n 0 + 1) versions"

definition advance :: "scene_graph_state \<Rightarrow> string list \<Rightarrow> graph_error + scene_graph_state" where
  "advance s changed =
     bind_exc (downstream (sg_graph s) changed) (\<lambda>closure.
       mk_scene_graph_state (sg_graph s) (sg_scene_revision s + 1) (fold bump (sort closure) (sg_node_versions s)))"

end
