(* ===== verification/Edit_Graph_Contract.thy ===== *)
theory Edit_Graph_Contract
  imports Edit_Graph
begin

text \<open>
  What the dependency graph promises: the order of Kahn's algorithm is the one greedy topological
  order of the graph, construction fails exactly on malformed or cyclic graphs, the closures are
  reachability, and a version counts the changes that reach its node.
\<close>

section \<open>Greedy topological orders\<close>

lemma position_less: "x \<in> set us \<Longrightarrow> length (takeWhile (\<lambda>y. y \<noteq> x) us) < length us"
  by (induction us) auto

locale node_graph =
  fixes nodes :: "'a::linorder set" and edges :: "('a \<times> 'a) set"
  assumes finite_nodes: "finite nodes" and edges_within: "edges \<subseteq> nodes \<times> nodes"
begin

definition available :: "'a list \<Rightarrow> 'a set" where
  "available xs = {k \<in> nodes - set xs. \<forall>p. (p, k) \<in> edges \<longrightarrow> p \<in> set xs}"

inductive greedy :: "'a list \<Rightarrow> bool" where
  greedy_nil: "greedy []"
| greedy_snoc: "greedy xs \<Longrightarrow> x \<in> available xs \<Longrightarrow> (\<And>y. y \<in> available xs \<Longrightarrow> x \<le> y) \<Longrightarrow> greedy (xs @ [x])"

inductive_cases greedy_snocE: "greedy (xs @ [x])"

lemma greedy_snoc_iff: "greedy (xs @ [x]) \<longleftrightarrow> greedy xs \<and> x \<in> available xs \<and> (\<forall>y\<in>available xs. x \<le> y)"
  by (auto elim: greedy_snocE intro: greedy_snoc)

lemma greedy_distinct: "greedy xs \<Longrightarrow> distinct xs \<and> set xs \<subseteq> nodes"
  by (induction rule: greedy.induct) (auto simp: available_def)

lemma greedy_closed: "greedy xs \<Longrightarrow> k \<in> set xs \<Longrightarrow> (p, k) \<in> edges \<Longrightarrow> p \<in> set xs"
  by (induction rule: greedy.induct) (auto simp: available_def)

lemma greedy_forward: "greedy (xs @ ys) \<Longrightarrow> (p, k) \<in> edges \<Longrightarrow> k \<in> set xs \<Longrightarrow> p \<in> set xs"
proof (induction ys rule: rev_induct)
  case Nil
  then show ?case using greedy_closed by simp
next
  case (snoc y ys)
  then show ?case by (simp add: greedy_snoc_iff flip: append_assoc)
qed

lemma greedy_take: "greedy xs \<Longrightarrow> greedy (take n xs)"
proof (induction xs arbitrary: n rule: rev_induct)
  case (snoc x xs)
  then show ?case by (cases "n \<le> length xs") (auto simp: greedy_snoc_iff)
qed simp

lemma greedy_same_length: "greedy xs \<Longrightarrow> greedy ys \<Longrightarrow> length xs = length ys \<Longrightarrow> xs = ys"
proof (induction xs arbitrary: ys rule: rev_induct)
  case (snoc x xs)
  obtain zs z where ys: "ys = zs @ [z]" using snoc.prems(3) by (cases ys rule: rev_exhaust) auto
  have "xs = zs" using snoc ys by (auto simp: greedy_snoc_iff)
  moreover have "x = z" using snoc.prems(1,2) ys calculation by (auto simp: greedy_snoc_iff intro: antisym)
  ultimately show ?case using ys by simp
qed simp

lemma greedy_complete_unique:
  assumes "greedy xs" "available xs = {}" "greedy ys" "available ys = {}"
  shows "xs = ys"
proof -
  have le: "length vs \<le> length us" if g: "greedy us" "available us = {}" "greedy vs" for us vs
  proof (rule ccontr)
    assume "\<not> length vs \<le> length us"
    then have n: "length us < length vs" by simp
    have "greedy (take (Suc (length us)) vs)" by (rule greedy_take [OF g(3)])
    then have "greedy (take (length us) vs)" "vs ! length us \<in> available (take (length us) vs)"
      using n by (simp_all add: take_Suc_conv_app_nth greedy_snoc_iff)
    moreover have "take (length us) vs = us" using greedy_same_length [OF calculation(1) g(1)] n by simp
    ultimately show False using g(2) by simp
  qed
  then show ?thesis using greedy_same_length [OF assms(1,3)] le [OF assms(1,2,3)] le [OF assms(3,4,1)] by simp
qed

lemma finite_edges: "finite edges"
  using finite_subset [OF edges_within] finite_nodes by simp

lemma acyclic_completes:
  assumes "acyclic edges" "available xs = {}"
  shows "nodes \<subseteq> set xs"
proof (rule ccontr)
  assume "\<not> nodes \<subseteq> set xs"
  then obtain k where k: "k \<in> nodes - set xs" by auto
  obtain z where z: "z \<in> nodes - set xs" "\<And>p. (p, z) \<in> edges \<Longrightarrow> p \<notin> nodes - set xs"
    by (rule wfE_min [OF finite_acyclic_wf [OF finite_edges assms(1)] k]) blast
  then have "z \<in> available xs" using edges_within by (auto simp: available_def)
  then show False using assms(2) by simp
qed

text \<open>Placing a node makes available exactly the consumers whose last open input it was.\<close>

lemma available_place:
  assumes "greedy order" "n \<in> available order"
  shows "available (order @ [n]) =
    available order - {n} \<union> {k. (n, k) \<in> edges \<and> card {p. (p, k) \<in> edges \<and> p \<notin> set order} = 1}"
proof -
  let ?open = "\<lambda>k. {p. (p, k) \<in> edges \<and> p \<notin> set order}"
  have n: "n \<notin> set order" "(n, n) \<notin> edges" using assms(2) by (auto simp: available_def)
  have fresh: "k \<notin> set order" if "(n, k) \<in> edges" for k using greedy_closed [OF assms(1) _ that] n(1) by auto
  have one: "card (?open k) = 1 \<longleftrightarrow> (\<forall>p. (p, k) \<in> edges \<longrightarrow> p \<in> set order \<or> p = n)" if "(n, k) \<in> edges" for k
  proof
    assume "card (?open k) = 1"
    then obtain q where q: "?open k = {q}" by (auto simp: card_1_singleton_iff)
    have "n \<in> ?open k" using that n(1) by simp
    then have "q = n" unfolding q by simp
    then have "?open k = {n}" using q by simp
    then show "\<forall>p. (p, k) \<in> edges \<longrightarrow> p \<in> set order \<or> p = n" by (auto simp: set_eq_iff)
  next
    assume "\<forall>p. (p, k) \<in> edges \<longrightarrow> p \<in> set order \<or> p = n"
    then have "?open k = {n}" using that n(1) by auto
    then show "card (?open k) = 1" by simp
  qed
  have "k \<in> available (order @ [n]) \<longleftrightarrow> k \<in> available order - {n} \<or> (n, k) \<in> edges \<and> card (?open k) = 1" for k
  proof (cases "(n, k) \<in> edges")
    case True
    then show ?thesis using one [OF True] fresh [OF True] n edges_within by (auto simp: available_def)
  next
    case False
    then show ?thesis by (auto simp: available_def)
  qed
  then show ?thesis by blast
qed

text \<open>In a complete greedy order every edge points forward, so there is no cycle.\<close>

lemma complete_acyclic:
  assumes "greedy xs" "nodes \<subseteq> set xs"
  shows "acyclic edges"
proof -
  have "edges \<subseteq> measure (\<lambda>k. length (takeWhile (\<lambda>y. y \<noteq> k) xs))"
  proof clarify
    fix p k assume e: "(p, k) \<in> edges"
    then have "k \<in> set xs" using edges_within assms(2) by auto
    then obtain us vs where xs: "xs = us @ k # vs" "k \<notin> set us" using split_list_first by metis
    have "greedy (take (Suc (length us)) xs)" by (rule greedy_take [OF assms(1)])
    then have "greedy (us @ [k])" using xs by simp
    then have p: "p \<in> set us" using e by (auto simp: greedy_snoc_iff available_def)
    have "takeWhile (\<lambda>y. y \<noteq> k) xs = us" unfolding xs(1) using xs(2) by (subst takeWhile_append2) auto
    moreover have "length (takeWhile (\<lambda>y. y \<noteq> p) xs) < length us"
      using position_less [OF p] p xs(1) by (simp add: takeWhile_append1)
    ultimately show "(p, k) \<in> measure (\<lambda>k. length (takeWhile (\<lambda>y. y \<noteq> k) xs))" by simp
  qed
  then have "wf edges" by (rule wf_subset [OF wf_measure])
  then show ?thesis by (rule wf_acyclic)
qed

end

section \<open>The loop of Kahn's algorithm\<close>

lemma relax_fold:
  assumes "fold relax_child cs (remaining, ready) = (remaining', ready')" "distinct cs" "set cs \<inter> set ready = {}"
    and "distinct ready" "sorted ready"
  shows "(\<forall>k. dict_get remaining' k 0 = dict_get remaining k 0 - (if k \<in> set cs then 1 else 0)) \<and>
    set ready' = set ready \<union> {k \<in> set cs. dict_get remaining k 0 = 1} \<and> distinct ready' \<and> sorted ready'"
  using assms
proof (induction cs arbitrary: remaining ready)
  case (Cons c cs)
  let ?rm = "AList.update c (dict_get remaining c 0 - 1) remaining"
  let ?rd = "if dict_get remaining c 0 = 1 then insort c ready else ready"
  have step: "fold relax_child cs (?rm, ?rd) = (remaining', ready')"
    using Cons.prems(1) by (simp add: relax_child_def [of c "(remaining, ready)"] Let_def)
  have rd: "set ?rd = set ready \<union> {k. k = c \<and> dict_get remaining k 0 = 1}" "distinct ?rd" "sorted ?rd"
    using Cons.prems(3-5) by (auto simp: set_insort_key distinct_insort sorted_insort)
  have "(\<forall>k. dict_get remaining' k 0 = dict_get ?rm k 0 - (if k \<in> set cs then 1 else 0)) \<and>
    set ready' = set ?rd \<union> {k \<in> set cs. dict_get ?rm k 0 = 1} \<and> distinct ready' \<and> sorted ready'"
    using Cons.prems(2,3) rd by (intro Cons.IH [OF step]) auto
  then show ?case using rd(1) Cons.prems(2) by auto
qed simp

definition adjacency_ok :: "string set \<Rightarrow> (string \<times> string) set \<Rightarrow> string list dict \<Rightarrow> bool" where
  "adjacency_ok N E adj \<longleftrightarrow> (\<forall>n\<in>N. distinct (dict_get adj n []) \<and> set (dict_get adj n []) = {k. (n, k) \<in> E})"

definition kahn_inv :: "string set \<Rightarrow> (string \<times> string) set \<Rightarrow> int dict \<Rightarrow> string list \<Rightarrow> string list \<Rightarrow> bool" where
  "kahn_inv N E remaining ready order \<longleftrightarrow>
     node_graph.greedy N E order \<and> (\<forall>k\<in>N. dict_get remaining k 0 = int (card {p. (p, k) \<in> E \<and> p \<notin> set order})) \<and>
     sorted ready \<and> distinct ready \<and> set ready = node_graph.available N E order"

lemma kahn_inv_step:
  assumes "node_graph N E" "adjacency_ok N E children" "kahn_inv N E remaining (n # rest) order"
    and "fold relax_child (dict_get children n []) (remaining, rest) = (remaining', ready')"
  shows "kahn_inv N E remaining' ready' (order @ [n])"
proof -
  let ?cs = "dict_get children n []" and ?open = "\<lambda>k. {p. (p, k) \<in> E \<and> p \<notin> set order}"
  note inv = assms(3) [unfolded kahn_inv_def]
  have g: "node_graph.greedy N E order" and s: "sorted rest" "distinct rest" "n \<notin> set rest" "\<forall>k\<in>set rest. n \<le> k"
    and a: "insert n (set rest) = node_graph.available N E order"
    using inv by auto
  have av: "n \<in> node_graph.available N E order" using a by auto
  then have n: "n \<in> N" "n \<notin> set order" "(n, n) \<notin> E" by (auto simp: node_graph.available_def [OF assms(1)])
  have cs: "distinct ?cs" "set ?cs = {k. (n, k) \<in> E}" using assms(2) n(1) by (auto simp: adjacency_ok_def)
  have fin: "finite (?open k)" for k
    by (rule finite_subset [OF _ finite_imageI [OF node_graph.finite_edges [OF assms(1)], of fst]]) force
  have disj: "set ?cs \<inter> set rest = {}"
    using a n(2) unfolding cs(2) by (auto simp: node_graph.available_def [OF assms(1)])
  have inN: "k \<in> N" if "(n, k) \<in> E" for k using node_graph.edges_within [OF assms(1)] that by auto
  note rel = relax_fold [OF assms(4) cs(1) disj s(2,1)]
  have "node_graph.greedy N E (order @ [n])"
    unfolding node_graph.greedy_snoc_iff [OF assms(1)] using g a s(4) by auto
  moreover have "dict_get remaining' k 0 = int (card {p. (p, k) \<in> E \<and> p \<notin> set (order @ [n])})" if k: "k \<in> N" for k
  proof -
    have "{p. (p, k) \<in> E \<and> p \<notin> set (order @ [n])} = ?open k - {n}" by auto
    moreover have "card (?open k - {n}) = card (?open k) - (if k \<in> set ?cs then 1 else 0)"
      unfolding cs(2) using n(2) by (simp add: card_Diff_singleton_if)
    moreover have "0 < card (?open k)" if "k \<in> set ?cs"
      using that fin [of k] n(2) unfolding cs(2) by (auto simp: card_gt_0_iff)
    ultimately show ?thesis using rel inv k by auto
  qed
  moreover have "set ready' = node_graph.available N E (order @ [n])"
    unfolding node_graph.available_place [OF assms(1) g av] a [symmetric] using rel inv s(3) inN unfolding cs(2) by auto
  ultimately show ?thesis unfolding kahn_inv_def using rel by blast
qed

lemma kahn_loop_correct:
  assumes "node_graph N E" "adjacency_ok N E children" "kahn_inv N E remaining ready order"
    and "kahn_loop children remaining ready order = (remaining', order')"
  shows "node_graph.greedy N E order' \<and> node_graph.available N E order' = {}"
  using assms(2-4)
proof (induction children remaining ready order rule: kahn_loop.induct)
  case (1 children remaining ready order)
  show ?case
  proof (cases ready)
    case Nil
    then show ?thesis using 1(3,4) by (simp add: kahn_loop.simps kahn_inv_def)
  next
    case (Cons n rest)
    obtain rm rd where f: "fold relax_child (dict_get children n []) (remaining, rest) = (rm, rd)"
      by (cases "fold relax_child (dict_get children n []) (remaining, rest)")
    have "kahn_inv N E rm rd (order @ [n])" using kahn_inv_step [OF assms(1) 1(2) _ f] 1(3) Cons by simp
    then show ?thesis using 1(1) [OF Cons f [symmetric] 1(2)] 1(4) Cons f by (simp add: kahn_loop.simps [of children remaining])
  qed
qed

section \<open>Construction\<close>

definition ids_of :: "graph_node list \<Rightarrow> string list" where
  "ids_of nodes = map gn_node_id nodes"

definition nodes_ok :: "graph_node list \<Rightarrow> bool" where
  "nodes_ok nodes \<longleftrightarrow> [] \<notin> set (ids_of nodes) \<and> distinct (ids_of nodes)"

definition edges_ok :: "string list \<Rightarrow> (string \<times> string) list \<Rightarrow> bool" where
  "edges_ok ids edges \<longleftrightarrow> set edges \<subseteq> set ids \<times> set ids \<and> irrefl (set edges) \<and> distinct edges"

lemma update_new: "k \<notin> set (dict_keys d) \<Longrightarrow> AList.update k v d = d @ [(k, v)]"
  by (induction d) auto

lemma add_nodes:
  "fold_exc add_node kinds nodes =
     (if [] \<notin> set (ids_of nodes) \<and> distinct (ids_of nodes) \<and> set (ids_of nodes) \<inter> set (dict_keys kinds) = {}
      then Inr (kinds @ map (\<lambda>n. (gn_node_id n, gn_kind n)) nodes)
      else Inl (projl (fold_exc add_node kinds nodes)))"
proof (induction nodes arbitrary: kinds)
  case (Cons n ns)
  show ?case
    using Cons.IH [of "kinds @ [(gn_node_id n, gn_kind n)]"]
    by (auto simp: add_node_def ids_of_def update_new split: if_splits)
qed (simp add: ids_of_def)

lemma keys_append_known: "k \<in> set (dict_keys d) \<Longrightarrow> dict_keys (dict_append d k x) = dict_keys d"
  by (simp add: dict_append_def update_keys)

lemma get_append: "dict_get (dict_append d k x) n [] = dict_get d n [] @ (if n = k then [x] else [])"
  by (simp add: dict_append_def)

lemma add_edges:
  "fold_exc (add_edge kinds) (children, parents, seen) edges =
     (if set edges \<subseteq> set (dict_keys kinds) \<times> set (dict_keys kinds) \<and> irrefl (set edges) \<and> distinct edges \<and> set edges \<inter> set seen = {}
      then Inr (fold (\<lambda>e d. dict_append d (fst e) (snd e)) edges children,
                fold (\<lambda>e d. dict_append d (snd e) (fst e)) edges parents, seen @ edges)
      else Inl (projl (fold_exc (add_edge kinds) (children, parents, seen) edges)))"
proof (induction edges arbitrary: children parents seen)
  case (Cons e es)
  obtain p c where e: "e = (p, c)" by (cases e)
  show ?case
    using Cons.IH [of "dict_append children p c" "dict_append parents c p" "seen @ [e]"]
    by (auto simp: add_edge_def e irrefl_def split: if_splits)
qed (simp add: irrefl_def)

lemma get_fold_append:
  "dict_get (fold (\<lambda>e d. dict_append d (f e) (h e)) es d) n [] = dict_get d n [] @ map h (filter (\<lambda>e. f e = n) es)"
  by (induction es arbitrary: d) (auto simp: get_append)

lemma get_sorted: "dict_get (map (\<lambda>(k, v). (k, sort v)) d) n [] = sort (dict_get d n [])"
  by (simp add: dict_get_def map_of_map split: option.split)

lemma get_blank: "dict_get (map (\<lambda>k. (k, [])) ks) n [] = []"
  by (auto simp: dict_get_def map_of_map_restrict restrict_map_def)

definition sorted_adjacency :: "string list \<Rightarrow> ('e \<Rightarrow> string) \<Rightarrow> ('e \<Rightarrow> string) \<Rightarrow> 'e list \<Rightarrow> string list dict" where
  "sorted_adjacency ids f h es =
     map (\<lambda>(k, v). (k, sort v)) (fold (\<lambda>e d. dict_append d (f e) (h e)) es (map (\<lambda>k. (k, [])) ids))"

lemma get_sorted_adjacency: "dict_get (sorted_adjacency ids f h es) n [] = sort (map h (filter (\<lambda>e. f e = n) es))"
  by (simp add: sorted_adjacency_def get_sorted get_fold_append get_blank)

lemma bind_exc_map: "bind_exc x (\<lambda>v. Inr (f v)) = map_sum id f x"
  by (cases x) simp_all

lemma mk_edit_graph_eq:
  "mk_edit_graph nodes edges =
     (if nodes_ok nodes \<and> edges_ok (ids_of nodes) edges
      then map_sum id (\<lambda>order.
             \<lparr>eg_nodes = nodes, eg_edges = edges, eg_kinds = map (\<lambda>n. (gn_node_id n, gn_kind n)) nodes,
              eg_children = sorted_adjacency (ids_of nodes) fst snd edges,
              eg_parents = sorted_adjacency (ids_of nodes) snd fst edges, eg_order = order\<rparr>)
             (kahn_order (map (\<lambda>n. (gn_node_id n, gn_kind n)) nodes) (sorted_adjacency (ids_of nodes) fst snd edges)
               (sorted_adjacency (ids_of nodes) snd fst edges))
      else Inl (projl (mk_edit_graph nodes edges)))"
proof -
  let ?kinds = "map (\<lambda>n. (gn_node_id n, gn_kind n)) nodes" and ?blank = "map (\<lambda>k. (k, [])) (ids_of nodes)"
  have keys: "dict_keys ?kinds = ids_of nodes" by (simp add: ids_of_def)
  show ?thesis
  proof (cases "nodes_ok nodes")
    case True
    then have k: "fold_exc add_node [] nodes = Inr ?kinds" by (subst add_nodes) (simp add: nodes_ok_def)
    show ?thesis
    proof (cases "edges_ok (ids_of nodes) edges")
      case e: True
      have "fold_exc (add_edge ?kinds) (?blank, ?blank, []) edges =
          Inr (fold (\<lambda>e d. dict_append d (fst e) (snd e)) edges ?blank, fold (\<lambda>e d. dict_append d (snd e) (fst e)) edges ?blank, edges)"
        using e unfolding edges_ok_def by (subst add_edges) (simp only: keys, simp)
      then show ?thesis
        unfolding mk_edit_graph_def Let_def k bind_exc_simps keys sorted_adjacency_def [symmetric]
        using True e by (simp add: bind_exc_map flip: sorted_adjacency_def)
    next
      case False
      then have "\<exists>err. fold_exc (add_edge ?kinds) (?blank, ?blank, []) edges = Inl err"
        unfolding edges_ok_def by (subst add_edges) (auto simp: ids_of_def)
      then show ?thesis using False unfolding mk_edit_graph_def Let_def k bind_exc_simps keys by auto
    qed
  next
    case False
    then have "\<exists>err. fold_exc add_node [] nodes = Inl err" by (subst add_nodes) (auto simp: nodes_ok_def)
    then show ?thesis using False by (auto simp: mk_edit_graph_def)
  qed
qed

lemma adjacency_sorted:
  assumes "distinct es" "\<And>e e'. f e = f e' \<Longrightarrow> h e = h e' \<Longrightarrow> e = e'" "\<And>n k. (n, k) \<in> E \<longleftrightarrow> (\<exists>e\<in>set es. f e = n \<and> h e = k)"
  shows "adjacency_ok N E (sorted_adjacency ids f h es)"
proof -
  have "distinct (map h (filter (\<lambda>e. f e = n) es))" for n
    using assms(1,2) by (auto simp: distinct_map inj_on_def)
  moreover have "set (map h (filter (\<lambda>e. f e = n) es)) = {k. (n, k) \<in> E}" for n using assms(3) by auto
  ultimately show ?thesis by (simp add: adjacency_ok_def get_sorted_adjacency)
qed

lemma graph_adjacency:
  assumes "edges_ok ids edges"
  shows "adjacency_ok N (set edges) (sorted_adjacency ids fst snd edges)"
    and "adjacency_ok N ((set edges)\<inverse>) (sorted_adjacency ids snd fst edges)"
    and "node_graph (set ids) (set edges)"
  using assms unfolding edges_ok_def
  by (auto intro!: adjacency_sorted node_graph.intro simp: prod_eq_iff) force+

lemma kahn_start:
  assumes "edges_ok ids edges" "distinct ids"
  defines "remaining \<equiv> map (\<lambda>k. (k, int (length (dict_get (sorted_adjacency ids snd fst edges) k [])))) ids"
  shows "kahn_inv (set ids) (set edges) remaining (sort (map fst (filter (\<lambda>kv. snd kv = 0) remaining))) []"
proof -
  let ?N = "set ids" and ?E = "set edges"
  note graph = graph_adjacency [OF assms(1)]
  let ?count = "\<lambda>k. int (length (dict_get (sorted_adjacency ids snd fst edges) k []))"
  have get: "dict_get remaining k 0 = ?count k" if "k \<in> ?N" for k
    using that by (simp add: remaining_def dict_get_def map_of_map_restrict)
  have count: "?count k = int (card {p. (p, k) \<in> ?E})" if "k \<in> ?N" for k
    using graph(2) [of ?N] that distinct_card [of "dict_get (sorted_adjacency ids snd fst edges) k []"] by (auto simp: adjacency_ok_def)
  have zero: "?count k = 0 \<longleftrightarrow> (\<forall>p. (p, k) \<notin> ?E)" if "k \<in> ?N" for k
    using graph(2) [of ?N] that set_empty [of "dict_get (sorted_adjacency ids snd fst edges) k []"] by (auto simp: adjacency_ok_def)
  have ready: "map fst (filter (\<lambda>kv. snd kv = 0) remaining) = filter (\<lambda>k. ?count k = 0) ids"
    unfolding remaining_def by (simp add: filter_map comp_def)
  have avail: "set (filter (\<lambda>k. ?count k = 0) ids) = node_graph.available ?N ?E []"
    using zero by (auto simp: node_graph.available_def [OF graph(3)] simp del: length_0_conv)
  show ?thesis
    unfolding kahn_inv_def ready set_sort avail using get count assms(2) node_graph.greedy_nil [OF graph(3)] by simp
qed

definition before_in :: "string list \<Rightarrow> (string \<times> string) set \<Rightarrow> bool" where
  "before_in order E \<longleftrightarrow> (\<forall>us k vs. order = us @ k # vs \<longrightarrow> (\<forall>p. (p, k) \<in> E \<longrightarrow> p \<in> set us))"

definition least_first :: "string list \<Rightarrow> (string \<times> string) set \<Rightarrow> bool" where
  "least_first order E \<longleftrightarrow> (\<forall>us k vs y. order = us @ k # vs \<longrightarrow> y \<in> set vs \<longrightarrow> (\<forall>p. (p, y) \<in> E \<longrightarrow> p \<in> set us) \<longrightarrow> k \<le> y)"

lemma greedy_order:
  assumes "node_graph N E" "node_graph.greedy N E order" "set order = N"
  shows "before_in order E \<and> least_first order E"
proof -
  have at: "k \<in> node_graph.available N E us \<and> (\<forall>y\<in>node_graph.available N E us. k \<le> y)" if "order = us @ k # vs" for us k vs
  proof -
    have "node_graph.greedy N E (take (Suc (length us)) order)" by (rule node_graph.greedy_take [OF assms(1,2)])
    then have "node_graph.greedy N E (us @ [k])" using that by simp
    then show ?thesis by (simp add: node_graph.greedy_snoc_iff [OF assms(1)])
  qed
  have d: "distinct order" using node_graph.greedy_distinct [OF assms(1,2)] by simp
  show ?thesis
  proof
    show "before_in order E" unfolding before_in_def using at by (auto simp: node_graph.available_def [OF assms(1)])
    show "least_first order E" unfolding least_first_def
    proof (intro allI impI)
      fix us k vs y assume y: "order = us @ k # vs" "y \<in> set vs" "\<forall>p. (p, y) \<in> E \<longrightarrow> p \<in> set us"
      then have "y \<in> node_graph.available N E us" using d assms(3) by (auto simp: node_graph.available_def [OF assms(1)])
      then show "k \<le> y" using at [OF y(1)] by simp
    qed
  qed
qed

lemma built_graph:
  assumes "nodes_ok nodes" "edges_ok (ids_of nodes) edges"
  shows "if acyclic (set edges)
    then \<exists>g. mk_edit_graph nodes edges = Inr g \<and> node_graph.greedy (set (ids_of nodes)) (set edges) (eg_order g) \<and>
      set (eg_order g) = set (ids_of nodes) \<and> eg_kinds g = map (\<lambda>n. (gn_node_id n, gn_kind n)) nodes \<and>
      adjacency_ok (set (ids_of nodes)) (set edges) (eg_children g) \<and> adjacency_ok (set (ids_of nodes)) ((set edges)\<inverse>) (eg_parents g)
    else \<exists>cyclic. mk_edit_graph nodes edges = Inl (CycleAmong cyclic)"
proof -
  let ?ids = "ids_of nodes" and ?kinds = "map (\<lambda>n. (gn_node_id n, gn_kind n)) nodes"
  let ?N = "set ?ids" and ?E = "set edges"
  let ?ch = "sorted_adjacency ?ids fst snd edges" and ?pa = "sorted_adjacency ?ids snd fst edges"
  let ?remaining = "map (\<lambda>k. (k, int (length (dict_get ?pa k [])))) ?ids"
  note graph = graph_adjacency [OF assms(2)]
  have d: "distinct ?ids" using assms(1) by (simp add: nodes_ok_def)
  obtain rm order where loop: "kahn_loop ?ch ?remaining (sort (map fst (filter (\<lambda>kv. snd kv = 0) ?remaining))) [] = (rm, order)"
    by (cases "kahn_loop ?ch ?remaining (sort (map fst (filter (\<lambda>kv. snd kv = 0) ?remaining))) []")
  have g: "node_graph.greedy ?N ?E order" "node_graph.available ?N ?E order = {}"
    using kahn_loop_correct [OF graph(3) graph(1) kahn_start [OF assms(2) d] loop] by simp_all
  have sub: "set order \<subseteq> ?N" "distinct order" using node_graph.greedy_distinct [OF graph(3) g(1)] by auto
  have len: "length order = length nodes \<longleftrightarrow> set order = ?N"
  proof -
    have "length order = length ?ids \<longleftrightarrow> card (set order) = card ?N" by (simp add: distinct_card [OF sub(2)] distinct_card [OF d])
    also have "\<dots> \<longleftrightarrow> set order = ?N" using sub(1) card_subset_eq [of ?N "set order"] by auto
    finally show ?thesis by (simp add: ids_of_def)
  qed
  have full: "acyclic ?E \<longleftrightarrow> set order = ?N"
    using node_graph.acyclic_completes [OF graph(3) _ g(2)] node_graph.complete_acyclic [OF graph(3) g(1)] sub(1) by auto
  have keys: "dict_keys ?kinds = ?ids" by (simp add: ids_of_def)
  have k: "kahn_order ?kinds ?ch ?pa = (if length order \<noteq> length nodes
      then Inl (CycleAmong (sort (map fst (filter (\<lambda>kv. 0 < snd kv) rm)))) else Inr order)"
    unfolding kahn_order_def Let_def keys loop by simp
  show ?thesis
    using assms g(1) graph(1,2) len full by (subst (1 2) mk_edit_graph_eq) (auto simp: k)
qed

lemma built_graph_only:
  "mk_edit_graph nodes edges = Inr g \<Longrightarrow> nodes_ok nodes \<and> edges_ok (ids_of nodes) edges"
  by (subst (asm) mk_edit_graph_eq) (auto split: if_splits)

text \<open>C38: An edit graph is built exactly from non-empty, distinct node ids and distinct edges between two different
  known nodes that form no cycle. Its topological order lists every node once, after all its inputs, always taking the
  smallest id that is ready; and it depends on the sets of nodes and edges only, not on how they are listed.\<close>

theorem edit_graph_canonical:
  "((\<exists>g. mk_edit_graph nodes edges = Inr g) \<longleftrightarrow> nodes_ok nodes \<and> edges_ok (ids_of nodes) edges \<and> acyclic (set edges)) \<and>
   (\<forall>g. mk_edit_graph nodes edges = Inr g \<longrightarrow>
      distinct (topological_order g) \<and> set (topological_order g) = set (ids_of nodes) \<and>
      before_in (topological_order g) (set edges) \<and> least_first (topological_order g) (set edges) \<and>
      (\<forall>nodes' edges' g'. set nodes' = set nodes \<and> set edges' = set edges \<and> mk_edit_graph nodes' edges' = Inr g' \<longrightarrow>
         topological_order g' = topological_order g))"
proof -
  have order: "nodes_ok ns \<and> edges_ok (ids_of ns) es \<and> acyclic (set es) \<and> node_graph (set (ids_of ns)) (set es) \<and>
      node_graph.greedy (set (ids_of ns)) (set es) (eg_order h) \<and> set (eg_order h) = set (ids_of ns)"
    if "mk_edit_graph ns es = Inr h" for ns es h
    using built_graph_only [OF that] built_graph [of ns es] graph_adjacency(3) [of "ids_of ns" es] that by (auto split: if_splits)
  have same: "eg_order g' = eg_order g"
    if m: "mk_edit_graph nodes edges = Inr g" "set nodes' = set nodes" "set edges' = set edges" "mk_edit_graph nodes' edges' = Inr g'"
    for nodes' edges' g g'
  proof -
    have ids: "set (ids_of nodes') = set (ids_of nodes)" using m(2) by (simp add: ids_of_def)
    have "node_graph.greedy (set (ids_of nodes)) (set edges) (eg_order g')" "set (eg_order g') = set (ids_of nodes)"
      using order [OF m(4)] m(3) ids by simp_all
    then show ?thesis using order [OF m(1)]
      by (intro node_graph.greedy_complete_unique [of "set (ids_of nodes)" "set edges"]) (auto simp: node_graph.available_def)
  qed
  have only: "\<exists>g. mk_edit_graph nodes edges = Inr g" if "nodes_ok nodes" "edges_ok (ids_of nodes) edges" "acyclic (set edges)"
    using built_graph [OF that(1,2)] that(3) by auto
  have props: "distinct (eg_order g) \<and> set (eg_order g) = set (ids_of nodes) \<and> before_in (eg_order g) (set edges) \<and> least_first (eg_order g) (set edges)"
    if "mk_edit_graph nodes edges = Inr g" for g
    using order [OF that] greedy_order [of "set (ids_of nodes)" "set edges" "eg_order g"]
      node_graph.greedy_distinct [of "set (ids_of nodes)" "set edges" "eg_order g"] by blast
  show ?thesis unfolding topological_order_def
  proof (intro conjI iffI allI impI)
    show "\<exists>g. mk_edit_graph nodes edges = Inr g" if "nodes_ok nodes \<and> edges_ok (ids_of nodes) edges \<and> acyclic (set edges)"
      using that only by blast
  qed (use order props same in blast)+
qed

section \<open>Closures are reachability\<close>

lemma visit_fold:
  assumes "fold visit ns (closure, stack) = (closure', stack')"
  shows "set closure' = set closure \<union> set ns \<and> set stack' = set stack \<union> (set ns - set closure) \<and> (distinct closure \<longrightarrow> distinct closure')"
  using assms
proof (induction ns arbitrary: closure stack)
  case (Cons n ns)
  then show ?case
    using Cons.IH [of "if n \<in> set closure then closure else n # closure" "if n \<in> set closure then stack else n # stack"]
    by (auto simp: visit_def split: if_splits)
qed simp

definition successors :: "string list dict \<Rightarrow> (string \<times> string) set" where
  "successors adj = {(n, k). k \<in> set (dict_get adj n [])}"

lemma closure_loop_correct:
  assumes "set stack \<subseteq> set closure" "\<And>n. n \<in> set closure - set stack \<Longrightarrow> set (dict_get adj n []) \<subseteq> set closure" "distinct closure"
  shows "set (closure_loop adj closure stack) = (successors adj)\<^sup>* `` set closure \<and> distinct (closure_loop adj closure stack)"
  using assms
proof (induction adj closure stack rule: closure_loop.induct)
  case (1 adj closure stack)
  show ?case
  proof (cases stack)
    case Nil
    have "y \<in> set closure" if "(x, y) \<in> (successors adj)\<^sup>*" "x \<in> set closure" for x y
      using that 1(3) Nil by (induction rule: rtrancl_induct) (auto simp: successors_def)
    then show ?thesis using Nil 1(4) by (auto simp: closure_loop.simps)
  next
    case (Cons n rest)
    obtain cl st where f: "fold visit (dict_get adj n []) (closure, rest) = (cl, st)"
      by (cases "fold visit (dict_get adj n []) (closure, rest)")
    note v = visit_fold [OF f]
    have n: "n \<in> set closure" using 1(2) Cons by simp
    have "set (closure_loop adj cl st) = (successors adj)\<^sup>* `` set cl \<and> distinct (closure_loop adj cl st)"
    proof (rule 1(1) [OF Cons f [symmetric]])
      show "set st \<subseteq> set cl" using v 1(2) Cons by auto
      show "distinct cl" using v 1(4) by simp
      fix m assume m: "m \<in> set cl - set st"
      show "set (dict_get adj m []) \<subseteq> set cl"
      proof (cases "m = n")
        case False
        then have "m \<in> set closure - set stack" using m v Cons by auto
        then show ?thesis using 1(3) v by auto
      qed (use v in auto)
    qed
    moreover have "(successors adj)\<^sup>* `` set cl = (successors adj)\<^sup>* `` set closure"
    proof -
      have "(n, k) \<in> (successors adj)\<^sup>*" if "k \<in> set (dict_get adj n [])" for k using that by (auto simp: successors_def)
      then show ?thesis using v n by (auto intro: rtrancl_trans)
    qed
    ultimately show ?thesis using Cons f by (simp add: closure_loop.simps [of adj closure])
  qed
qed

lemma seed_all:
  assumes "set ns \<subseteq> set (dict_keys (eg_kinds g))" "set stack = set closure" "distinct closure"
  shows "\<exists>cl st. fold_exc (seed g) (closure, stack) ns = Inr (cl, st) \<and> set cl = set closure \<union> set ns \<and> set st = set cl \<and> distinct cl"
  using assms
proof (induction ns arbitrary: closure stack)
  case (Cons n ns)
  obtain k where k: "map_of (eg_kinds g) n = Some k" using Cons.prems(1) by (cases "map_of (eg_kinds g) n") (auto simp: map_of_None_keys)
  let ?c = "if n \<in> set closure then closure else n # closure" and ?s = "if n \<in> set closure then stack else n # stack"
  have step: "seed g (closure, stack) n = Inr (?c, ?s)" using k by (simp add: seed_def graph_kind_def visit_def)
  show ?case using Cons.IH [of ?s ?c] Cons.prems step by (auto split: if_splits)
qed simp

lemma seed_unknown:
  assumes "set ms \<subseteq> set (dict_keys (eg_kinds g))" "n \<notin> set (dict_keys (eg_kinds g))"
  shows "fold_exc (seed g) ([], []) (ms @ n # ns) = Inl (UnknownNode n)"
proof -
  obtain cl st where "fold_exc (seed g) ([], []) ms = Inr (cl, st)" using seed_all [OF assms(1), of "[]" "[]"] by auto
  moreover have "map_of (eg_kinds g) n = None" using assms(2) by (simp add: map_of_None_keys)
  ultimately show ?thesis by (simp add: fold_exc_append seed_def graph_kind_def)
qed

lemma closure_from:
  assumes "adjacency_ok N E adj" "E \<subseteq> N \<times> N" "set ns \<subseteq> N" "set (dict_keys (eg_kinds g)) = N"
  shows "\<exists>c. map_sum id (\<lambda>(closure, stack). closure_loop adj closure stack) (fold_exc (seed g) ([], []) ns) = Inr c \<and>
    distinct c \<and> set c = E\<^sup>* `` set ns"
proof -
  obtain cl st where s: "fold_exc (seed g) ([], []) ns = Inr (cl, st)" "set cl = set ns" "set st = set cl" "distinct cl"
    using seed_all [of ns g "[]" "[]"] assms(3,4) by auto
  have sub: "(successors adj)\<^sup>* `` set ns = E\<^sup>* `` set ns"
  proof -
    have step: "(x, y) \<in> successors adj \<longleftrightarrow> (x, y) \<in> E" if "x \<in> N" for x y
      using assms(1) that by (auto simp: successors_def adjacency_ok_def)
    have fwd: "(x, y) \<in> successors adj" if "(x, y) \<in> E" for x y using that step assms(2) by blast
    have "(x, y) \<in> E\<^sup>* \<and> y \<in> N" if "(x, y) \<in> (successors adj)\<^sup>*" "x \<in> N" for x y
      using that assms(2) by (induction rule: rtrancl_induct) (auto simp: step intro: rtrancl_into_rtrancl)
    moreover have "(x, y) \<in> (successors adj)\<^sup>* \<and> y \<in> N" if "(x, y) \<in> E\<^sup>*" "x \<in> N" for x y
      using that assms(2) by (induction rule: rtrancl_induct) (auto dest: fwd intro: rtrancl_into_rtrancl)
    ultimately show ?thesis using assms(3) by blast
  qed
  show ?thesis using closure_loop_correct [of st cl adj] s sub by auto
qed

lemma graph_ids: "mk_edit_graph nodes edges = Inr g \<Longrightarrow> set (dict_keys (eg_kinds g)) = set (ids_of nodes)"
  by (subst (asm) mk_edit_graph_eq) (auto simp: ids_of_def image_image split: if_splits dest!: map_sum_Inr)

lemma built_closures:
  assumes "mk_edit_graph nodes edges = Inr g" "set ns \<subseteq> set (ids_of nodes)"
  shows "\<exists>c u. downstream g ns = Inr c \<and> distinct c \<and> set c = (set edges)\<^sup>* `` set ns \<and>
    upstream g ns = Inr u \<and> distinct u \<and> set u = ((set edges)\<inverse>)\<^sup>* `` set ns"
proof -
  let ?N = "set (ids_of nodes)"
  have ok: "nodes_ok nodes" "edges_ok (ids_of nodes) edges" using built_graph_only [OF assms(1)] by auto
  have g: "eg_kinds g = map (\<lambda>n. (gn_node_id n, gn_kind n)) nodes" "adjacency_ok ?N (set edges) (eg_children g)"
    "adjacency_ok ?N ((set edges)\<inverse>) (eg_parents g)"
    using built_graph [OF ok] assms(1) by (auto split: if_splits)
  have keys: "set (dict_keys (eg_kinds g)) = ?N" by (simp add: g(1) ids_of_def image_image)
  have within: "set edges \<subseteq> ?N \<times> ?N" "(set edges)\<inverse> \<subseteq> ?N \<times> ?N" using ok(2) by (auto simp: edges_ok_def)
  show ?thesis unfolding downstream_def upstream_def
    using closure_from [OF g(2) within(1) assms(2) keys] closure_from [OF g(3) within(2) assms(2) keys] by auto
qed

text \<open>C39: On every graph that could be built the stack loops of both closures end: \<open>downstream\<close> returns, without
  repetitions, exactly the nodes reachable from its arguments along the edges and \<open>upstream\<close> exactly those from which they
  are reachable; and the first unknown argument is the error.\<close>

theorem closures_are_reachability:
  assumes "mk_edit_graph nodes edges = Inr g" "set ns \<subseteq> set (ids_of nodes)"
  shows "(\<exists>c u. downstream g ns = Inr c \<and> distinct c \<and> set c = (set edges)\<^sup>* `` set ns \<and>
      upstream g ns = Inr u \<and> distinct u \<and> set u = ((set edges)\<inverse>)\<^sup>* `` set ns) \<and>
    (\<forall>n ms. n \<notin> set (ids_of nodes) \<longrightarrow>
       downstream g (ns @ n # ms) = Inl (UnknownNode n) \<and> upstream g (ns @ n # ms) = Inl (UnknownNode n))"
proof (intro conjI allI impI)
  show "\<exists>c u. downstream g ns = Inr c \<and> distinct c \<and> set c = (set edges)\<^sup>* `` set ns \<and>
      upstream g ns = Inr u \<and> distinct u \<and> set u = ((set edges)\<inverse>)\<^sup>* `` set ns"
    by (rule built_closures [OF assms])
  fix n ms assume "n \<notin> set (ids_of nodes)"
  then have "fold_exc (seed g) ([], []) (ns @ n # ms) = Inl (UnknownNode n)"
    using seed_unknown [of ns g n ms] assms(2) graph_ids [OF assms(1)] by simp
  then show "downstream g (ns @ n # ms) = Inl (UnknownNode n)" "upstream g (ns @ n # ms) = Inl (UnknownNode n)"
    by (simp_all add: downstream_def upstream_def)
qed

section \<open>Versions\<close>

lemma bump_fold:
  "distinct ns \<Longrightarrow> dict_get (fold bump ns versions) k 0 = dict_get versions k 0 + (if k \<in> set ns then 1 else 0)"
  by (induction ns arbitrary: versions) (auto simp: bump_def)

lemma bump_keys: "set (dict_keys (fold bump ns versions)) = set (dict_keys versions) \<union> set ns"
  by (induction ns arbitrary: versions) (auto simp: bump_def simp del: set_map)

definition state_ok :: "graph_node list \<Rightarrow> (string \<times> string) list \<Rightarrow> scene_graph_state \<Rightarrow> bool" where
  "state_ok nodes edges s \<longleftrightarrow>
     mk_edit_graph nodes edges = Inr (sg_graph s) \<and> 0 \<le> sg_scene_revision s \<and> set (dict_keys (sg_node_versions s)) \<subseteq> set (ids_of nodes)"

lemma advance_step:
  assumes "state_ok nodes edges s" "set changed \<subseteq> set (ids_of nodes)"
  shows "\<exists>s'. advance s changed = Inr s' \<and> state_ok nodes edges s' \<and> sg_graph s' = sg_graph s \<and>
    sg_scene_revision s' = sg_scene_revision s + 1 \<and>
    (\<forall>n. dict_get (sg_node_versions s') n 0 =
       dict_get (sg_node_versions s) n 0 + (if n \<in> (set edges)\<^sup>* `` set changed then 1 else 0))"
proof -
  have g: "mk_edit_graph nodes edges = Inr (sg_graph s)" using assms(1) by (simp add: state_ok_def)
  obtain c where c: "downstream (sg_graph s) changed = Inr c" "distinct c" "set c = (set edges)\<^sup>* `` set changed"
    using built_closures [OF g assms(2)] by auto
  have "set edges \<subseteq> set (ids_of nodes) \<times> set (ids_of nodes)" using built_graph_only [OF g] by (simp add: edges_ok_def)
  then have cN: "set c \<subseteq> set (ids_of nodes)" using c(3) assms(2) by (auto elim: rtranclE)
  let ?vs = "fold bump (sort c) (sg_node_versions s)"
  have known: "set (dict_keys ?vs) \<subseteq> set (ids_of nodes)" using cN assms(1) by (simp add: bump_keys state_ok_def del: set_map)
  then have "filter (\<lambda>n. \<not> graph_contains (sg_graph s) n) (dict_keys ?vs) = []"
    using graph_ids [OF g] by (auto simp: filter_empty_conv graph_contains_def simp del: set_map)
  then have "advance s changed = Inr \<lparr>sg_graph = sg_graph s, sg_scene_revision = sg_scene_revision s + 1, sg_node_versions = ?vs\<rparr>"
    using c(1) assms(1) by (simp add: advance_def mk_scene_graph_state_def state_ok_def)
  then show ?thesis using assms(1) known c(2,3) by (simp add: state_ok_def bump_fold)
qed

lemma advance_run:
  assumes "state_ok nodes edges s" "\<forall>changed\<in>set changes. set changed \<subseteq> set (ids_of nodes)"
  shows "\<exists>s'. fold_exc advance s changes = Inr s' \<and> state_ok nodes edges s' \<and> sg_graph s' = sg_graph s \<and>
    sg_scene_revision s' = sg_scene_revision s + int (length changes) \<and>
    (\<forall>n. dict_get (sg_node_versions s') n 0 = dict_get (sg_node_versions s) n 0 +
       int (length (filter (\<lambda>changed. n \<in> (set edges)\<^sup>* `` set changed) changes)))"
  using assms
proof (induction changes arbitrary: s)
  case (Cons changed changes)
  obtain t where t: "advance s changed = Inr t" "state_ok nodes edges t" "sg_graph t = sg_graph s"
    "sg_scene_revision t = sg_scene_revision s + 1"
    "\<forall>n. dict_get (sg_node_versions t) n 0 = dict_get (sg_node_versions s) n 0 + (if n \<in> (set edges)\<^sup>* `` set changed then 1 else 0)"
    using advance_step [OF Cons.prems(1), of changed] Cons.prems(2) by auto
  show ?case using Cons.IH [OF t(2)] Cons.prems(2) t by auto
qed simp

text \<open>Advancing a scene state succeeds for known nodes and keeps it well-formed; after any sequence of changes the
  scene revision has grown by their number and the version of a node by the number of changes from which it is reachable,
  so a version that did not move certifies that no change reaches the node.\<close>

lemma versions_count_changes:
  assumes "state_ok nodes edges s" "\<forall>changed\<in>set changes. set changed \<subseteq> set (ids_of nodes)"
  shows "\<exists>s'. fold_exc advance s changes = Inr s' \<and> state_ok nodes edges s' \<and>
    sg_scene_revision s' = sg_scene_revision s + int (length changes) \<and>
    (\<forall>n\<in>set (ids_of nodes). \<exists>v. node_version s n = Inr v \<and>
       node_version s' n = Inr (v + int (length (filter (\<lambda>changed. n \<in> (set edges)\<^sup>* `` set changed) changes))))"
proof -
  obtain s' where r: "fold_exc advance s changes = Inr s'" "state_ok nodes edges s'" "sg_graph s' = sg_graph s"
    "sg_scene_revision s' = sg_scene_revision s + int (length changes)"
    "\<forall>n. dict_get (sg_node_versions s') n 0 = dict_get (sg_node_versions s) n 0 +
       int (length (filter (\<lambda>changed. n \<in> (set edges)\<^sup>* `` set changed) changes))"
    using advance_run [OF assms] by (elim exE conjE) (rule that)
  have "graph_kind (sg_graph s) n \<in> range Inr" if "n \<in> set (ids_of nodes)" for n
    using that assms(1) graph_ids [of nodes edges "sg_graph s"] map_of_None_keys [of "eg_kinds (sg_graph s)" n]
    by (auto simp: state_ok_def graph_kind_def split: option.splits simp del: set_map)
  then show ?thesis using r by (fastforce simp: node_version_def)
qed

section \<open>The scene graph\<close>

lemma irrefl_by_pairs: "irrefl E \<longleftrightarrow> (\<forall>e\<in>E. fst e \<noteq> snd e)"
  by (auto simp: irrefl_def)

lemma scene_graph_ok: "nodes_ok GRAPH_NODES" "edges_ok (ids_of GRAPH_NODES) GRAPH_EDGES"
proof -
  show "nodes_ok GRAPH_NODES" by (simp add: nodes_ok_def ids_of_def GRAPH_NODES_def)
  have "list_all (\<lambda>e. fst e \<in> set (ids_of GRAPH_NODES) \<and> snd e \<in> set (ids_of GRAPH_NODES)) GRAPH_EDGES"
    by (simp add: ids_of_def GRAPH_NODES_def GRAPH_EDGES_def)
  then have "set GRAPH_EDGES \<subseteq> set (ids_of GRAPH_NODES) \<times> set (ids_of GRAPH_NODES)" unfolding list_all_iff by force
  moreover have "irrefl (set GRAPH_EDGES)" by (simp add: irrefl_by_pairs GRAPH_EDGES_def)
  moreover have "distinct GRAPH_EDGES" by (simp add: GRAPH_EDGES_def)
  ultimately show "edges_ok (ids_of GRAPH_NODES) GRAPH_EDGES" by (simp add: edges_ok_def)
qed

interpretation scene_graph: node_graph "set (ids_of GRAPH_NODES)" "set GRAPH_EDGES"
  by (rule graph_adjacency(3) [OF scene_graph_ok(2)])

definition scene_stage :: "string \<Rightarrow> nat" where
  "scene_stage n =
     (if n \<in> {''relative_geometry'', ''walls'', ''wall_aspect'', ''building_visibility'', ''solar_atmospheric_state''} then 1
      else if n = ''vegetation_visibility'' then 2 else if n \<in> {''svf'', ''time_shadow''} then 3 else if n = ''radiation'' then 4
      else if n = ''surface_thermal_state'' then 5 else if n = ''tmrt'' then 6 else if n \<in> {''utci'', ''wbgt''} then 7 else 0)"

lemma scene_graph_acyclic: "acyclic (set GRAPH_EDGES)"
proof -
  have "set GRAPH_EDGES \<subseteq> measure scene_stage"
    by (simp add: GRAPH_EDGES_def scene_stage_def)
  then show ?thesis using wf_acyclic wf_subset [OF wf_measure] by blast
qed

lemma scene_graph_builds: "\<exists>g. default_edit_graph = Inr g"
  using built_graph [OF scene_graph_ok] scene_graph_acyclic unfolding default_edit_graph_def by auto

theorem edit_graph_canonical_witness:
  "\<exists>g. default_edit_graph = Inr g \<and> distinct (topological_order g) \<and> before_in (topological_order g) (set GRAPH_EDGES) \<and>
     (\<forall>g'. mk_edit_graph (rev GRAPH_NODES) (rev GRAPH_EDGES) = Inr g' \<longrightarrow> topological_order g' = topological_order g)"
proof -
  obtain g where g: "mk_edit_graph GRAPH_NODES GRAPH_EDGES = Inr g" using scene_graph_builds unfolding default_edit_graph_def by (elim exE)
  note canonical = conjunct2 [OF edit_graph_canonical [of GRAPH_NODES GRAPH_EDGES], rule_format, OF g]
  have same: "\<forall>nodes' edges' g'. set nodes' = set GRAPH_NODES \<and> set edges' = set GRAPH_EDGES \<and> mk_edit_graph nodes' edges' = Inr g' \<longrightarrow>
      topological_order g' = topological_order g"
    using canonical by (elim conjE)
  have "topological_order g' = topological_order g" if "mk_edit_graph (rev GRAPH_NODES) (rev GRAPH_EDGES) = Inr g'" for g'
    using same [rule_format, of "rev GRAPH_NODES" "rev GRAPH_EDGES" g'] that by simp
  then show ?thesis unfolding default_edit_graph_def using g canonical by (intro exI [of _ g] conjI allI impI) (elim conjE, assumption)+
qed

theorem closures_are_reachability_witness:
  "\<exists>g c. default_edit_graph = Inr g \<and> downstream g [''radiation''] = Inr c \<and> ''utci'' \<in> set c \<and>
     downstream g [''radiation'', ''albedo''] = Inl (UnknownNode ''albedo'')"
proof -
  obtain g where g: "mk_edit_graph GRAPH_NODES GRAPH_EDGES = Inr g" using scene_graph_builds by (auto simp: default_edit_graph_def)
  have known: "set [''radiation''] \<subseteq> set (ids_of GRAPH_NODES)" "''albedo'' \<notin> set (ids_of GRAPH_NODES)" by (simp_all add: ids_of_def GRAPH_NODES_def)
  have "(''radiation'', ''tmrt'') \<in> set GRAPH_EDGES" "(''tmrt'', ''utci'') \<in> set GRAPH_EDGES" by (simp_all add: GRAPH_EDGES_def)
  then have "(''radiation'', ''utci'') \<in> (set GRAPH_EDGES)\<^sup>*" by (meson r_into_rtrancl rtrancl_into_rtrancl)
  then show ?thesis using closures_are_reachability [OF g known(1)] g known(2) unfolding default_edit_graph_def by fastforce
qed

lemma versions_count_changes_witness:
  "\<exists>s s'. initial_scene None = Inr s \<and> fold_exc advance s [[''landcover''], [''wind_coefficients'']] = Inr s' \<and>
     sg_scene_revision s' = 2 \<and> node_version s' ''landcover'' = Inr 1"
proof -
  obtain g where g: "mk_edit_graph GRAPH_NODES GRAPH_EDGES = Inr g" using scene_graph_builds by (auto simp: default_edit_graph_def)
  let ?s = "\<lparr>sg_graph = g, sg_scene_revision = 0, sg_node_versions = []\<rparr>" and ?cs = "[[''landcover''], [''wind_coefficients'']]"
  have s: "initial_scene None = Inr ?s" using g by (simp add: initial_scene_def default_edit_graph_def mk_scene_graph_state_def)
  have ok: "state_ok GRAPH_NODES GRAPH_EDGES ?s" using g by (simp add: state_ok_def)
  have known: "\<forall>changed\<in>set ?cs. set changed \<subseteq> set (ids_of GRAPH_NODES)" by (simp add: ids_of_def GRAPH_NODES_def)
  have "\<forall>e\<in>set GRAPH_EDGES. snd e \<noteq> ''landcover''" by (simp add: GRAPH_EDGES_def)
  then have no_edge: "(m, ''landcover'') \<notin> set GRAPH_EDGES" for m by force
  have "(''wind_coefficients'', ''landcover'') \<notin> (set GRAPH_EDGES)\<^sup>*"
    using no_edge rtranclD [of "''wind_coefficients''" "''landcover''" "set GRAPH_EDGES"] by (auto dest: tranclD2)
  then have one: "length (filter (\<lambda>changed. ''landcover'' \<in> (set GRAPH_EDGES)\<^sup>* `` set changed) ?cs) = 1" by simp
  obtain s' where r: "fold_exc advance ?s ?cs = Inr s'" "sg_scene_revision s' = sg_scene_revision ?s + int (length ?cs)"
    "\<forall>n\<in>set (ids_of GRAPH_NODES). \<exists>v. node_version ?s n = Inr v \<and>
       node_version s' n = Inr (v + int (length (filter (\<lambda>changed. n \<in> (set GRAPH_EDGES)\<^sup>* `` set changed) ?cs)))"
    using versions_count_changes [OF ok known] by (elim exE conjE) (rule that)
  have "''landcover'' \<in> set (ids_of GRAPH_NODES)" using known by simp
  then obtain v where v: "node_version ?s ''landcover'' = Inr v" "node_version s' ''landcover'' = Inr (v + int 1)"
    using r(3) unfolding one [symmetric] by blast
  have "v = 0" using v(1) by (simp add: node_version_def dict_get_def graph_kind_def split: option.splits)
  then show ?thesis using s r(1,2) v(2) by (intro exI [of _ ?s] exI [of _ s']) simp
qed

end
