(* ===== verification/Bitmask.thy ===== *)
theory Bitmask
  imports Influence "HOL-Library.Word"
begin

text \<open>
  Bit-packed visibility, \<open>incremental/bitmask.py\<close>. An array whose last axis is the patch axis is a
  record of its spatial shape, the extent of the last axis and its pixels in row-major order. Packing
  and unpacking of bits are NumPy's and are arguments; the two-bit layout is arithmetic on bytes and
  is written out. Slices have no step, a view is a value, and accumulation is over the operations of
  an output type given as arguments.
\<close>

unbundle bit_operations_syntax

section \<open>Arrays\<close>

type_synonym byte = "8 word"

record 'v ndarray =
  nd_shape :: "nat list"
  nd_depth :: nat
  nd_cells :: "'v list list"

definition map_cells :: "('v list \<Rightarrow> 'w list) \<Rightarrow> nat \<Rightarrow> 'v ndarray \<Rightarrow> 'w ndarray" where
  "map_cells f depth a = \<lparr>nd_shape = nd_shape a, nd_depth = depth, nd_cells = map f (nd_cells a)\<rparr>"

text \<open>A dense stack comes as booleans or as numbers.\<close>

datatype stack = BoolStack "bool ndarray" | NumStack "pyfloat ndarray"

fun stack_depth :: "stack \<Rightarrow> nat" where
  "stack_depth (BoolStack a) = nd_depth a"
| "stack_depth (NumStack a) = nd_depth a"

text \<open>The part of an array of rows and columns that a pair of slices selects: its extent and, in
  row-major order, the positions of its pixels.\<close>

type_synonym slice = "int \<times> int"

definition slice_range :: "nat \<Rightarrow> slice \<Rightarrow> nat list" where
  "slice_range n s = [slice_index (int n) (fst s) ..< slice_index (int n) (snd s)]"

definition window_shape :: "nat \<Rightarrow> nat \<Rightarrow> slice \<Rightarrow> slice \<Rightarrow> nat list" where
  "window_shape rows cols rs cs = [length (slice_range rows rs), length (slice_range cols cs)]"

definition window_positions :: "nat \<Rightarrow> nat \<Rightarrow> slice \<Rightarrow> slice \<Rightarrow> nat list" where
  "window_positions rows cols rs cs = concat (map (\<lambda>r. map (\<lambda>c. r * cols + c) (slice_range cols cs)) (slice_range rows rs))"

definition write_cells :: "('c \<Rightarrow> 'v \<Rightarrow> 'c) \<Rightarrow> (nat \<times> 'v) list \<Rightarrow> 'c list \<Rightarrow> 'c list" where
  "write_cells f ws cells = fold (\<lambda>(i, v) cs. cs[i := f (cs ! i) v]) ws cells"

section \<open>One bit per patch\<close>

record packed_visibility =
  pv_data :: "byte ndarray"
  pv_patch_count :: int
  pv_bitorder :: string

record bit_library =
  packbits :: "string \<Rightarrow> bool list \<Rightarrow> byte list"
  unpackbits :: "string \<Rightarrow> nat \<Rightarrow> byte list \<Rightarrow> bool list"

definition bytes_per_pixel :: "int \<Rightarrow> py_error + int" where
  "bytes_per_pixel patch_count =
     (if patch_count \<le> 0 then Inl (ValueError ''patch_count must be positive'') else Inr ((patch_count + 7) div 8))"

definition packed_nbytes :: "int list \<Rightarrow> int \<Rightarrow> py_error + int" where
  "packed_nbytes shape patch_count =
     (if shape = [] \<or> (\<exists>v\<in>set shape. v \<le> 0) then Inl (ValueError ''spatial_shape must contain positive dimensions'')
      else map_sum id (\<lambda>n. prod_list shape * n) (bytes_per_pixel patch_count))"

definition mk_packed :: "byte ndarray \<Rightarrow> int \<Rightarrow> string \<Rightarrow> py_error + packed_visibility" where
  "mk_packed data patch_count order =
     bind_exc (if patch_count \<le> 0 then Inl (ValueError ''patch_count must be positive'')
               else if order \<notin> {''little'', ''big''} then Inl (ValueError ''bitorder must be little or big'')
               else bytes_per_pixel patch_count) (\<lambda>expected_bytes.
       if int (nd_depth data) \<noteq> expected_bytes then Inl (ValueError ''packed final dimension'')
       else Inr \<lparr>pv_data = data, pv_patch_count = patch_count, pv_bitorder = order\<rparr>)"

definition as_binary_bool :: "stack \<Rightarrow> py_error + bool ndarray" where
  "as_binary_bool visibility =
     (if stack_depth visibility = 0 then Inl (ValueError ''visibility must have a non-empty patch axis'')
      else case visibility of
             BoolStack a \<Rightarrow> Inr a
           | NumStack a \<Rightarrow>
               if \<forall>cell\<in>set (nd_cells a). \<forall>v\<in>set cell. v = Fin 0 \<or> v = Fin 1
               then Inr (map_cells (map (\<lambda>v. v \<noteq> Fin 0)) (nd_depth a) a)
               else Inl (ValueError ''visibility values must be binary''))"

definition pack_visibility :: "bit_library \<Rightarrow> stack \<Rightarrow> string \<Rightarrow> py_error + packed_visibility" where
  "pack_visibility lib visibility order =
     (if order \<notin> {''little'', ''big''} then Inl (ValueError ''bitorder must be little or big'')
      else bind_exc (as_binary_bool visibility) (\<lambda>binary.
             mk_packed (map_cells (packbits lib order) ((nd_depth binary + 7) div 8) binary) (int (nd_depth binary)) order))"

definition unpack_visibility :: "bit_library \<Rightarrow> packed_visibility \<Rightarrow> int \<Rightarrow> int option \<Rightarrow> py_error + bool ndarray" where
  "unpack_visibility lib packed patch_start patch_stop =
     (let stop = (case patch_stop of None \<Rightarrow> pv_patch_count packed | Some s \<Rightarrow> s)
      in if \<not> (0 \<le> patch_start \<and> patch_start \<le> stop \<and> stop \<le> pv_patch_count packed) then Inl (ValueError ''invalid patch range'')
         else Inr (map_cells (\<lambda>cell. py_slice (unpackbits lib (pv_bitorder packed) (nat (pv_patch_count packed)) cell) patch_start stop)
                (nat (stop - patch_start)) (pv_data packed)))"

text \<open>The byte and the mask of a patch.\<close>

definition byte_index :: "int \<Rightarrow> nat" where
  "byte_index patch = nat (patch div 8)"

definition bit_mask :: "string \<Rightarrow> int \<Rightarrow> byte" where
  "bit_mask order patch =
     (let bit_index = nat (patch mod 8) in if order = ''little'' then push_bit bit_index 1 else push_bit (7 - bit_index) 1)"

definition unpack_patch :: "packed_visibility \<Rightarrow> int \<Rightarrow> py_error + bool list" where
  "unpack_patch packed patch =
     (if \<not> (0 \<le> patch \<and> patch < pv_patch_count packed) then Inl (IndexError ''patch_index out of range'')
      else Inr (map (\<lambda>cell. cell ! byte_index patch AND bit_mask (pv_bitorder packed) patch \<noteq> 0) (nd_cells (pv_data packed))))"

definition set_bit_of :: "string \<Rightarrow> int \<Rightarrow> byte list \<Rightarrow> bool \<Rightarrow> byte list" where
  "set_bit_of order patch cell v =
     (let old = cell ! byte_index patch; mask = bit_mask order patch
      in cell[byte_index patch := (if v then old OR mask else old AND NOT mask)])"

text \<open>\<open>values\<close> has the extra axis of extent one that the code gives it before the check.\<close>

definition set_patch_window ::
  "packed_visibility \<Rightarrow> int \<Rightarrow> slice \<Rightarrow> slice \<Rightarrow> stack \<Rightarrow> py_error + packed_visibility" where
  "set_patch_window packed patch rs cs values =
     (case nd_shape (pv_data packed) of
        [rows, cols] \<Rightarrow>
          if \<not> (0 \<le> patch \<and> patch < pv_patch_count packed) then Inl (IndexError ''patch_index out of range'')
          else bind_exc (as_binary_bool values) (\<lambda>binary.
               if nd_shape binary \<noteq> window_shape rows cols rs cs then Inl (ValueError ''values shape does not match'')
               else let cells = write_cells (set_bit_of (pv_bitorder packed) patch)
                          (zip (window_positions rows cols rs cs) (map hd (nd_cells binary))) (nd_cells (pv_data packed))
                    in Inr (packed\<lparr>pv_data := (pv_data packed)\<lparr>nd_cells := cells\<rparr>\<rparr>))
      | _ \<Rightarrow> Inl (ValueError ''set_patch_window requires [rows, cols, bytes] packed data''))"

definition view_cells :: "'v ndarray \<Rightarrow> nat \<Rightarrow> nat \<Rightarrow> slice \<Rightarrow> slice \<Rightarrow> 'v ndarray" where
  "view_cells a rows cols rs cs =
     a\<lparr>nd_shape := window_shape rows cols rs cs, nd_cells := map (\<lambda>i. nd_cells a ! i) (window_positions rows cols rs cs)\<rparr>"

definition spatial_window_view :: "packed_visibility \<Rightarrow> slice \<Rightarrow> slice \<Rightarrow> py_error + packed_visibility" where
  "spatial_window_view packed rs cs =
     (case nd_shape (pv_data packed) of
        [rows, cols] \<Rightarrow> mk_packed (view_cells (pv_data packed) rows cols rs cs) (pv_patch_count packed) (pv_bitorder packed)
      | _ \<Rightarrow> Inl (ValueError ''spatial_window_view requires [rows, cols, bytes] packed data''))"

section \<open>Accumulation\<close>

record ('w, 'f) accumulator =
  acc_zero :: 'f
  acc_add :: "'f \<Rightarrow> 'f \<Rightarrow> 'f"
  acc_scale :: "nat \<Rightarrow> 'w \<Rightarrow> 'f"
  acc_nonzero :: "'w \<Rightarrow> bool"

definition add_plane :: "('w, 'f) accumulator \<Rightarrow> 'w \<Rightarrow> nat list \<Rightarrow> 'f list \<Rightarrow> 'f list" where
  "add_plane acc weight plane result = map2 (\<lambda>r v. acc_add acc r (acc_scale acc v weight)) result plane"

definition accumulate ::
  "('w, 'f) accumulator \<Rightarrow> (int \<Rightarrow> py_error + nat list) \<Rightarrow> nat \<Rightarrow> 'w list \<Rightarrow> py_error + 'f list" where
  "accumulate acc plane_of pixels weights =
     fold_exc (\<lambda>result (i, weight).
         if acc_nonzero acc weight then map_sum id (\<lambda>plane. add_plane acc weight plane result) (plane_of i) else Inr result)
       (replicate pixels (acc_zero acc)) (zip (map int [0..<length weights]) weights)"

definition weighted_sum_from_packed :: "('w, 'f) accumulator \<Rightarrow> packed_visibility \<Rightarrow> 'w list \<Rightarrow> py_error + 'f list" where
  "weighted_sum_from_packed acc packed weights =
     (if int (length weights) \<noteq> pv_patch_count packed then Inl (ValueError ''weights must have one entry per patch'')
      else accumulate acc (\<lambda>i. map_sum id (map of_bool) (unpack_patch packed i)) (length (nd_cells (pv_data packed))) weights)"

section \<open>Blocks of patches\<close>

definition next_stop :: "int \<Rightarrow> int \<Rightarrow> int \<Rightarrow> int" where
  "next_stop patch_count block_size start =
     (let stop = min (start + block_size) patch_count;
          stop' = (if stop < patch_count then min ((stop + 7) div 8 * 8) patch_count else stop)
      in if stop' \<le> start then min (start + 8) patch_count else stop')"

lemma next_stop_advances: "start < patch_count \<Longrightarrow> start < next_stop patch_count block_size start"
  by (simp add: next_stop_def Let_def)

lemma next_stop_le: "start < patch_count \<Longrightarrow> next_stop patch_count block_size start \<le> patch_count"
  by (auto simp: next_stop_def Let_def)

function block_loop :: "int \<Rightarrow> int \<Rightarrow> int \<Rightarrow> (int \<times> int) list" where
  "block_loop patch_count block_size start =
     (if start < patch_count
      then (start, next_stop patch_count block_size start) # block_loop patch_count block_size (next_stop patch_count block_size start)
      else [])"
  by pat_completeness auto
termination
  by (relation "measure (\<lambda>(patch_count, _, start). nat (patch_count - start))")
    (auto dest: next_stop_advances [of _ _] simp: next_stop_advances)

declare block_loop.simps [simp del]

definition iter_patch_blocks :: "int \<Rightarrow> int \<Rightarrow> py_error + (int \<times> int) list" where
  "iter_patch_blocks patch_count block_size =
     (if patch_count \<le> 0 then Inl (ValueError ''patch_count must be positive'')
      else if block_size \<le> 0 then Inl (ValueError ''block_size must be positive'')
      else Inr (block_loop patch_count block_size 0))"

section \<open>Two bits per patch\<close>

record packed_visibility_2bit =
  pt_data :: "byte ndarray"
  pt_patch_count :: int

definition bytes_per_pixel_2bit :: "int \<Rightarrow> py_error + int" where
  "bytes_per_pixel_2bit patch_count =
     (if patch_count \<le> 0 then Inl (ValueError ''patch_count must be positive'') else Inr ((2 * patch_count + 7) div 8))"

definition mk_packed_2bit :: "byte ndarray \<Rightarrow> int \<Rightarrow> py_error + packed_visibility_2bit" where
  "mk_packed_2bit data patch_count =
     bind_exc (bytes_per_pixel_2bit patch_count) (\<lambda>expected_bytes.
       if int (nd_depth data) \<noteq> expected_bytes then Inl (ValueError ''packed final dimension (2-bit packing)'')
       else Inr \<lparr>pt_data = data, pt_patch_count = patch_count\<rparr>)"

fun stack_values :: "stack \<Rightarrow> pyfloat ndarray" where
  "stack_values (BoolStack a) = map_cells (map (\<lambda>b. Fin (of_bool b))) (nd_depth a) a"
| "stack_values (NumStack a) = a"

definition ternary_byte :: "pyfloat \<Rightarrow> byte" where
  "ternary_byte v = (if v = Fin 2 then 2 else if v = Fin 1 then 1 else 0)"

definition as_ternary_u8 :: "stack \<Rightarrow> py_error + byte ndarray" where
  "as_ternary_u8 visibility =
     (let a = stack_values visibility in
      if nd_depth a = 0 then Inl (ValueError ''visibility must have a non-empty patch axis'')
      else if \<forall>cell\<in>set (nd_cells a). \<forall>v\<in>set cell. v = Fin 0 \<or> v = Fin 1 \<or> v = Fin 2
      then Inr (map_cells (map ternary_byte) (nd_depth a) a)
      else Inl (ValueError ''2-bit visibility values must be ternary''))"

text \<open>\<open>reshape\<close> of the padded last axis into groups of four, each summed after its shifts.\<close>

fun pack_quads :: "byte list \<Rightarrow> byte list" where
  "pack_quads (a # b # c # d # vs) = (push_bit 0 a + push_bit 2 b + push_bit 4 c + push_bit 6 d) # pack_quads vs"
| "pack_quads _ = []"

definition pad_quads :: "nat \<Rightarrow> byte list \<Rightarrow> byte list" where
  "pad_quads padded cell = cell @ replicate (padded - length cell) 0"

definition pack_visibility_2bit :: "stack \<Rightarrow> py_error + packed_visibility_2bit" where
  "pack_visibility_2bit visibility =
     bind_exc (as_ternary_u8 visibility) (\<lambda>values.
       let padded = nat (int (nd_depth values) + (- int (nd_depth values)) mod 4)
       in mk_packed_2bit (map_cells (\<lambda>cell. pack_quads (pad_quads padded cell)) (padded div 4) values) (int (nd_depth values)))"

definition unpack_quad :: "byte \<Rightarrow> byte list" where
  "unpack_quad w = map (\<lambda>s. drop_bit s w AND 3) [0, 2, 4, 6]"

definition unpack_visibility_2bit :: "packed_visibility_2bit \<Rightarrow> byte ndarray" where
  "unpack_visibility_2bit packed =
     map_cells (\<lambda>cell. py_slice (concat (map unpack_quad cell)) 0 (pt_patch_count packed))
       (min (4 * nd_depth (pt_data packed)) (nat (pt_patch_count packed))) (pt_data packed)"

definition byte_index_2bit :: "int \<Rightarrow> nat" where
  "byte_index_2bit patch = nat (drop_bit 2 patch)"

definition bit_shift_2bit :: "int \<Rightarrow> nat" where
  "bit_shift_2bit patch = nat ((patch AND 3) * 2)"

definition unpack_patch_2bit :: "packed_visibility_2bit \<Rightarrow> int \<Rightarrow> py_error + byte list" where
  "unpack_patch_2bit packed patch =
     (if \<not> (0 \<le> patch \<and> patch < pt_patch_count packed) then Inl (IndexError ''patch_index out of range'')
      else Inr (map (\<lambda>cell. drop_bit (bit_shift_2bit patch) (cell ! byte_index_2bit patch) AND 3) (nd_cells (pt_data packed))))"

definition set_field_2bit :: "int \<Rightarrow> byte list \<Rightarrow> byte \<Rightarrow> byte list" where
  "set_field_2bit patch cell v =
     cell[byte_index_2bit patch := (cell ! byte_index_2bit patch AND NOT (push_bit (bit_shift_2bit patch) 3)) OR push_bit (bit_shift_2bit patch) v]"

definition set_patch_window_2bit ::
  "packed_visibility_2bit \<Rightarrow> int \<Rightarrow> slice \<Rightarrow> slice \<Rightarrow> stack \<Rightarrow> py_error + packed_visibility_2bit" where
  "set_patch_window_2bit packed patch rs cs values =
     (case nd_shape (pt_data packed) of
        [rows, cols] \<Rightarrow>
          if \<not> (0 \<le> patch \<and> patch < pt_patch_count packed) then Inl (IndexError ''patch_index out of range'')
          else bind_exc (as_ternary_u8 values) (\<lambda>ternary.
               if nd_shape ternary \<noteq> window_shape rows cols rs cs then Inl (ValueError ''values shape does not match'')
               else let cells = write_cells (set_field_2bit patch)
                          (zip (window_positions rows cols rs cs) (map hd (nd_cells ternary))) (nd_cells (pt_data packed))
                    in Inr (packed\<lparr>pt_data := (pt_data packed)\<lparr>nd_cells := cells\<rparr>\<rparr>))
      | _ \<Rightarrow> Inl (ValueError ''set_patch_window_2bit requires [rows, cols, bytes] packed data''))"

definition weighted_sum_from_packed_2bit :: "('w, 'f) accumulator \<Rightarrow> packed_visibility_2bit \<Rightarrow> 'w list \<Rightarrow> py_error + 'f list" where
  "weighted_sum_from_packed_2bit acc packed weights =
     (if int (length weights) \<noteq> pt_patch_count packed then Inl (ValueError ''weights must have one entry per patch'')
      else accumulate acc (\<lambda>i. map_sum id (map unat) (unpack_patch_2bit packed i)) (length (nd_cells (pt_data packed))) weights)"

definition spatial_window_view_2bit :: "packed_visibility_2bit \<Rightarrow> slice \<Rightarrow> slice \<Rightarrow> py_error + packed_visibility_2bit" where
  "spatial_window_view_2bit packed rs cs =
     (case nd_shape (pt_data packed) of
        [rows, cols] \<Rightarrow> mk_packed_2bit (view_cells (pt_data packed) rows cols rs cs) (pt_patch_count packed)
      | _ \<Rightarrow> Inl (ValueError ''spatial_window_view_2bit requires [rows, cols, bytes] packed data''))"

end
