(* ===== verification/Bitmask_Contract.thy ===== *)
theory Bitmask_Contract
  imports Bitmask
begin

text \<open>
  Packed visibility is lossless: round trips of both layouts, the effect of a window write on every
  patch of every pixel, accumulation from the packed form, and the blocks of a streaming pass. What is
  used of NumPy's bit packing is the locale \<open>bit_packing\<close>, interpreted on a packer of booleans.
\<close>

section \<open>Packing of bits\<close>

definition bit_position :: "string \<Rightarrow> nat \<Rightarrow> nat" where
  "bit_position order i = (if order = ''little'' then i mod 8 else 7 - i mod 8)"

locale bit_packing =
  fixes lib :: bit_library
  assumes packbits_length: "length (packbits lib order bs) = (length bs + 7) div 8"
    and packbits_bit: "i < length bs \<Longrightarrow> bit (packbits lib order bs ! (i div 8)) (bit_position order i) = bs ! i"
    and unpackbits_bits: "n \<le> 8 * length ws \<Longrightarrow> unpackbits lib order n ws = map (\<lambda>i. bit (ws ! (i div 8)) (bit_position order i)) [0..<n]"
begin

lemma unpack_pack: "unpackbits lib order (length bs) (packbits lib order bs) = bs"
proof -
  have "length bs \<le> 8 * ((length bs + 7) div 8)" by linarith
  then have "length bs \<le> 8 * length (packbits lib order bs)" by (simp only: packbits_length)
  then have "unpackbits lib order (length bs) (packbits lib order bs) =
      map (\<lambda>i. bit (packbits lib order bs ! (i div 8)) (bit_position order i)) [0..<length bs]"
    by (rule unpackbits_bits)
  also have "\<dots> = map ((!) bs) [0..<length bs]" by (rule map_cong [OF refl]) (simp add: packbits_bit)
  finally show ?thesis by (simp only: map_nth)
qed

end

definition pack_byte :: "string \<Rightarrow> bool list \<Rightarrow> nat \<Rightarrow> byte" where
  "pack_byte order bs j =
     horner_sum of_bool 2 (map (\<lambda>k. let i = 8 * j + bit_position order k in i < length bs \<and> bs ! i) [0..<8])"

definition demo_bits :: bit_library where
  "demo_bits = \<lparr>packbits = \<lambda>order bs. map (pack_byte order bs) [0..<(length bs + 7) div 8],
     unpackbits = \<lambda>order n ws. map (\<lambda>i. bit (ws ! (i div 8)) (bit_position order i)) [0..<n]\<rparr>"

lemma bit_position_less: "bit_position order i < 8"
  by (auto simp: bit_position_def)

lemma bit_position_twice: "bit_position order (bit_position order i) = i mod 8"
  by (simp add: bit_position_def)

interpretation demo_bits: bit_packing demo_bits
proof
  fix order bs i assume i: "i < length (bs :: bool list)"
  then have "i div 8 < (length bs + 7) div 8" by linarith
  moreover have "8 * (i div 8) + i mod 8 = i" by simp
  ultimately show "bit (packbits demo_bits order bs ! (i div 8)) (bit_position order i) = bs ! i"
    using i bit_position_less [of order i]
    by (simp add: demo_bits_def pack_byte_def bit_horner_sum_bit_word_iff Let_def bit_position_twice)
qed (simp_all add: demo_bits_def)

section \<open>Arrays\<close>

definition array_ok :: "'v ndarray \<Rightarrow> bool" where
  "array_ok a \<longleftrightarrow> length (nd_cells a) = prod_list (nd_shape a) \<and> (\<forall>cell\<in>set (nd_cells a). length cell = nd_depth a)"

lemma array_ok_map:
  "array_ok a \<Longrightarrow> (\<And>cell. cell \<in> set (nd_cells a) \<Longrightarrow> length (f cell) = d) \<Longrightarrow> array_ok (map_cells f d a)"
  by (simp add: array_ok_def map_cells_def)

lemma mask_tests_bit: "(w AND bit_mask order (int i) \<noteq> 0) \<longleftrightarrow> bit w (bit_position order i)"
proof -
  have "bit_mask order (int i) = push_bit (bit_position order i) 1"
    by (simp add: bit_mask_def bit_position_def nat_mod_distrib Let_def)
  then show ?thesis using bit_position_less [of order i]
    by (auto simp: and_exp_eq_0_iff_not_bit push_bit_eq_mult)
qed

lemma packed_spec:
  assumes "bit_packing lib" "order \<in> {''little'', ''big''}" "as_binary_bool visibility = Inr a" "array_ok a"
  shows "\<exists>p. pack_visibility lib visibility order = Inr p \<and> pv_patch_count p = int (nd_depth a) \<and>
    length (nd_cells (pv_data p)) = length (nd_cells a) \<and> unpack_visibility lib p 0 None = Inr a \<and>
    (\<forall>i j. 0 \<le> i \<and> i \<le> j \<and> j \<le> int (nd_depth a) \<longrightarrow>
       unpack_visibility lib p i (Some j) = Inr (map_cells (\<lambda>cell. take (nat (j - i)) (drop (nat i) cell)) (nat (j - i)) a)) \<and>
    (\<forall>i<nd_depth a. unpack_patch p (int i) = Inr (map (\<lambda>cell. cell ! i) (nd_cells a)))"
proof -
  let ?n = "nd_depth a"
  let ?p = "\<lparr>pv_data = map_cells (packbits lib order) ((?n + 7) div 8) a, pv_patch_count = int ?n, pv_bitorder = order\<rparr>"
  have n: "0 < ?n" using assms(3) by (auto simp: as_binary_bool_def map_cells_def split: if_splits stack.splits)
  have cell: "length cell = ?n" if "cell \<in> set (nd_cells a)" for cell using assms(4) that by (simp add: array_ok_def)
  have "pack_visibility lib visibility order = Inr ?p"
    using assms(2,3) n by (simp add: pack_visibility_def mk_packed_def bytes_per_pixel_def map_cells_def)
  moreover have un: "unpackbits lib order ?n (packbits lib order cell) = cell" if "cell \<in> set (nd_cells a)" for cell
    using bit_packing.unpack_pack [OF assms(1), of order cell] cell [OF that] by simp
  have range: "unpack_visibility lib ?p i (Some j) = Inr (map_cells (\<lambda>cell. take (nat (j - i)) (drop (nat i) cell)) (nat (j - i)) a)"
    if "0 \<le> i" "i \<le> j" "j \<le> int ?n" for i j
    using that by (auto simp: unpack_visibility_def map_cells_def un cell py_slice_def slice_index_def nat_diff_distrib min_def Let_def)
  moreover have "unpack_visibility lib ?p 0 None = Inr a"
  proof -
    have "unpack_visibility lib ?p 0 None = unpack_visibility lib ?p 0 (Some (int ?n))" by (simp add: unpack_visibility_def)
    moreover have "map_cells (\<lambda>cell. take ?n cell) ?n a = a"
      by (rule ndarray.equality) (simp_all add: map_cells_def cell map_idI)
    ultimately show ?thesis using range [of 0 "int ?n"] by simp
  qed
  moreover have "unpack_patch ?p (int i) = Inr (map (\<lambda>cell. cell ! i) (nd_cells a))" if "i < ?n" for i
    using that bit_packing.packbits_bit [OF assms(1)] cell
    by (auto simp: unpack_patch_def map_cells_def mask_tests_bit byte_index_def nat_div_distrib)
  moreover have "length (nd_cells (pv_data ?p)) = length (nd_cells a)" by (simp add: map_cells_def)
  ultimately show ?thesis by (intro exI [of _ ?p]) simp
qed

text \<open>Packing a dense binary stack and unpacking it again, whole, a range of patches or one patch at a time, gives
  back its values, in either bit order and for any number of patches; the padding bits of the last byte never show.\<close>

lemma packed_roundtrip:
  assumes "bit_packing lib" "order \<in> {''little'', ''big''}" "as_binary_bool visibility = Inr a" "array_ok a"
  shows "\<exists>p. pack_visibility lib visibility order = Inr p \<and> unpack_visibility lib p 0 None = Inr a \<and>
    (\<forall>i j. 0 \<le> i \<and> i \<le> j \<and> j \<le> int (nd_depth a) \<longrightarrow>
       unpack_visibility lib p i (Some j) = Inr (map_cells (\<lambda>cell. take (nat (j - i)) (drop (nat i) cell)) (nat (j - i)) a)) \<and>
    (\<forall>i<nd_depth a. unpack_patch p (int i) = Inr (map (\<lambda>cell. cell ! i) (nd_cells a)))"
  using packed_spec [OF assms] by (elim exE conjE) (intro exI conjI)

lemma packed_roundtrip_witness:
  "\<exists>p. pack_visibility demo_bits (BoolStack \<lparr>nd_shape = [1], nd_depth = 9, nd_cells = [[True, False, True, True, False, False, False, True, True]]\<rparr>) ''big'' = Inr p \<and>
     unpack_patch p 8 = Inr [True]"
proof -
  let ?a = "\<lparr>nd_shape = [1], nd_depth = 9, nd_cells = [[True, False, True, True, False, False, False, True, True]]\<rparr>"
  have b: "as_binary_bool (BoolStack ?a) = Inr ?a" "array_ok ?a" by (simp_all add: as_binary_bool_def array_ok_def)
  obtain p where p: "pack_visibility demo_bits (BoolStack ?a) ''big'' = Inr p"
    "\<forall>i<nd_depth ?a. unpack_patch p (int i) = Inr (map (\<lambda>cell. cell ! i) (nd_cells ?a))"
    using packed_roundtrip [OF demo_bits.bit_packing_axioms, of "''big''" "BoolStack ?a" ?a] b by auto
  have "unpack_patch p (int 8) = Inr [True]" using p(2) [rule_format, of 8] by simp
  with p(1) show ?thesis by auto
qed

section \<open>Window writes\<close>

lemma slice_range_less: "i \<in> set (slice_range n s) \<Longrightarrow> i < n"
  by (auto simp: slice_range_def slice_index_def split: if_splits)

lemma row_col_inj:
  fixes r :: nat
  assumes "r * n + c = r' * n + c'" "c < n" "c' < n"
  shows "r = r' \<and> c = c'"
proof -
  have "(r * n + c) div n = r" "(r' * n + c') div n = r'" using assms(2,3) by simp_all
  then show ?thesis using assms(1) by auto
qed

lemma window_positions_ok:
  "distinct (window_positions rows cols rs cs)" "i \<in> set (window_positions rows cols rs cs) \<Longrightarrow> i < rows * cols"
  "length (window_positions rows cols rs cs) = prod_list (window_shape rows cols rs cs)"
proof -
  have "window_positions rows cols rs cs = map (\<lambda>(r, c). r * cols + c) (List.product (slice_range rows rs) (slice_range cols cs))"
    by (simp add: window_positions_def product_concat_map map_concat comp_def)
  moreover have "inj_on (\<lambda>(r, c). r * cols + c) (set (List.product (slice_range rows rs) (slice_range cols cs)))"
    by (auto simp: inj_on_def dest!: slice_range_less row_col_inj)
  moreover have "distinct (slice_range n s)" for n s by (simp add: slice_range_def)
  ultimately show "distinct (window_positions rows cols rs cs)" by (simp add: distinct_map distinct_product)
  show "i < rows * cols" if i: "i \<in> set (window_positions rows cols rs cs)"
  proof -
    obtain r c where rc: "i = r * cols + c" "r < rows" "c < cols"
      using i by (auto simp: window_positions_def dest: slice_range_less)
    have "r * cols + c < Suc r * cols" using rc(3) by simp
    also have "\<dots> \<le> rows * cols" using rc(2) by (intro mult_le_mono1) simp
    finally show ?thesis by (simp add: rc(1))
  qed
  show "length (window_positions rows cols rs cs) = prod_list (window_shape rows cols rs cs)"
    by (simp add: window_positions_def window_shape_def length_concat comp_def sum_list_triv)
qed

lemma write_cells_nth:
  assumes "distinct (map fst ws)" "\<forall>i\<in>set (map fst ws). i < length cells"
  shows "length (write_cells f ws cells) = length cells \<and>
    (\<forall>j<length cells. write_cells f ws cells ! j = (case map_of ws j of None \<Rightarrow> cells ! j | Some v \<Rightarrow> f (cells ! j) v))"
  using assms
proof (induction ws arbitrary: cells)
  case (Cons w ws)
  obtain i v where w: "w = (i, v)" by (cases w)
  have IH: "length (write_cells f ws (cells[i := f (cells ! i) v])) = length cells \<and>
    (\<forall>j<length cells. write_cells f ws (cells[i := f (cells ! i) v]) ! j =
       (case map_of ws j of None \<Rightarrow> cells[i := f (cells ! i) v] ! j | Some u \<Rightarrow> f (cells[i := f (cells ! i) v] ! j) u))"
    using Cons.IH [of "cells[i := f (cells ! i) v]"] Cons.prems w by simp
  have "map_of ws i = None" using Cons.prems(1) w by (simp add: map_of_eq_None_iff)
  then show ?case using IH Cons.prems(2) w by (auto simp: write_cells_def nth_list_update split: option.split)
qed (simp add: write_cells_def)

text \<open>A layout of patches in the bytes of a pixel: a patch can be read, and written without touching another.\<close>

locale patch_field =
  fixes get :: "nat \<Rightarrow> byte list \<Rightarrow> 'v" and put :: "nat \<Rightarrow> byte list \<Rightarrow> 'v \<Rightarrow> byte list" and width :: nat and valid :: "'v \<Rightarrow> bool"
  assumes get_put: "p < width * length cell \<Longrightarrow> q < width * length cell \<Longrightarrow> valid v \<Longrightarrow>
      get q (put p cell v) = (if q = p then v else get q cell)"
    and length_put: "length (put p cell v) = length cell"
begin

lemma window_write:
  assumes "\<forall>cell\<in>set cells. length cell = d" "p < width * d" "q < width * d" "distinct is" "length is = length vs"
    and "\<forall>i\<in>set is. i < length cells" "\<forall>v\<in>set vs. valid v"
  shows "map (get q) (write_cells (put p) (zip is vs) cells) =
      map (\<lambda>j. if q = p \<and> j \<in> set is then the (map_of (zip is vs) j) else get q (cells ! j)) [0..<length cells] \<and>
    length (write_cells (put p) (zip is vs) cells) = length cells \<and> (\<forall>cell\<in>set (write_cells (put p) (zip is vs) cells). length cell = d)"
proof -
  let ?out = "write_cells (put p) (zip is vs) cells"
  have w: "length ?out = length cells" "j < length cells \<Longrightarrow> ?out ! j =
      (case map_of (zip is vs) j of None \<Rightarrow> cells ! j | Some v \<Rightarrow> put p (cells ! j) v)" for j
    using write_cells_nth [of "zip is vs" cells "put p"] assms(4-6) by simp_all
  have hit: "map_of (zip is vs) j = None \<longleftrightarrow> j \<notin> set is" for j using assms(5) by (rule map_of_zip_is_None)
  have ok: "valid v" if "map_of (zip is vs) j = Some v" for j v
    using that assms(7) by (auto dest!: map_of_SomeD set_zip_rightD)
  have each: "get q (?out ! j) = (if q = p \<and> j \<in> set is then the (map_of (zip is vs) j) else get q (cells ! j)) \<and> length (?out ! j) = d"
    if j: "j < length cells" for j
  proof (cases "map_of (zip is vs) j")
    case None
    then show ?thesis using w(2) [OF j] hit [of j] assms(1) j by simp
  next
    case (Some v)
    have "length (cells ! j) = d" using assms(1) j by simp
    then show ?thesis using w(2) [OF j] hit [of j] Some get_put [of p "cells ! j" q v] ok [OF Some] assms(2,3) by (simp add: length_put)
  qed
  have "map (get q) ?out = map (\<lambda>j. if q = p \<and> j \<in> set is then the (map_of (zip is vs) j) else get q (cells ! j)) [0..<length cells]"
    by (rule nth_equalityI) (simp_all add: w(1) each)
  moreover have "\<forall>cell\<in>set ?out. length cell = d"
  proof
    fix cell assume "cell \<in> set ?out"
    then obtain j where "j < length ?out" "cell = ?out ! j" by (metis in_set_conv_nth)
    then show "length cell = d" using each w(1) by simp
  qed
  ultimately show ?thesis using w(1) by blast
qed

end

definition bit_at :: "string \<Rightarrow> nat \<Rightarrow> byte list \<Rightarrow> bool" where
  "bit_at order i cell = bit (cell ! (i div 8)) (bit_position order i)"

lemma bit_mask_push: "bit_mask order (int i) = push_bit (bit_position order i) 1"
  by (simp add: bit_mask_def bit_position_def nat_mod_distrib Let_def)

lemma bit_mask_bit: "n < 8 \<Longrightarrow> bit (bit_mask order (int i)) n \<longleftrightarrow> n = bit_position order i"
  using bit_position_less [of order i] by (auto simp: bit_mask_push bit_simps)

lemma bit_position_inj: "bit_position order p = bit_position order q \<Longrightarrow> p mod 8 = q mod 8"
  using bit_position_twice by metis

interpretation one_bit: patch_field "bit_at order" "\<lambda>p. set_bit_of order (int p)" 8 "\<lambda>_. True"
  for order
proof
  fix p q v and cell :: "byte list" assume pq: "p < 8 * length cell" "q < 8 * length cell"
  have b: "byte_index (int p) = p div 8" by (simp add: byte_index_def nat_div_distrib)
  show "bit_at order q (set_bit_of order (int p) cell v) = (if q = p then v else bit_at order q cell)"
  proof (cases "q div 8 = p div 8")
    case True
    have "bit_position order q = bit_position order p \<longleftrightarrow> q = p"
      using bit_position_inj [of order q p] True by (metis div_mult_mod_eq)
    moreover have "p div 8 < length cell" using pq(1) by linarith
    ultimately show ?thesis using True bit_position_less [of order q]
      by (auto simp: bit_at_def set_bit_of_def b Let_def bit_simps bit_mask_bit)
  next
    case False
    then show ?thesis by (auto simp: bit_at_def set_bit_of_def b Let_def)
  qed
qed (simp add: set_bit_of_def Let_def)

definition packed_ok :: "nat \<Rightarrow> nat \<Rightarrow> packed_visibility \<Rightarrow> bool" where
  "packed_ok rows cols p \<longleftrightarrow>
     nd_shape (pv_data p) = [rows, cols] \<and> array_ok (pv_data p) \<and> 0 < pv_patch_count p \<and>
     int (nd_depth (pv_data p)) = (pv_patch_count p + 7) div 8"

lemma unpack_patch_reads:
  assumes "0 \<le> i" "i < pv_patch_count p"
  shows "unpack_patch p i = Inr (map (bit_at (pv_bitorder p) (nat i)) (nd_cells (pv_data p)))"
  using assms mask_tests_bit [of _ "pv_bitorder p" "nat i"]
  by (simp add: unpack_patch_def bit_at_def byte_index_def nat_div_distrib)

lemma packed_cells:
  assumes "packed_ok rows cols p"
  shows "\<forall>cell\<in>set (nd_cells (pv_data p)). length cell = nd_depth (pv_data p)" "length (nd_cells (pv_data p)) = rows * cols"
  using assms by (simp_all add: packed_ok_def array_ok_def)

text \<open>Writing a window of one patch changes exactly the pixels of the window in exactly that patch, to the given
  values; every other bit of the packed array reads as before, and the array stays well-formed.\<close>

lemma set_patch_window_exact:
  assumes "packed_ok rows cols p" "0 \<le> patch" "patch < pv_patch_count p" "as_binary_bool values = Inr b"
    and "nd_shape b = window_shape rows cols rs cs" "array_ok b" "nd_depth b = 1"
  shows "\<exists>q. set_patch_window p patch rs cs values = Inr q \<and> packed_ok rows cols q \<and> pv_patch_count q = pv_patch_count p \<and>
    (\<forall>i. 0 \<le> i \<and> i < pv_patch_count p \<longrightarrow> (\<exists>old. unpack_patch p i = Inr old \<and>
       unpack_patch q i = Inr (map (\<lambda>j. if i = patch \<and> j \<in> set (window_positions rows cols rs cs)
         then the (map_of (zip (window_positions rows cols rs cs) (map hd (nd_cells b))) j) else old ! j) [0..<rows * cols])))"
proof -
  let ?cells = "nd_cells (pv_data p)" and ?is = "window_positions rows cols rs cs" and ?vs = "map hd (nd_cells b)"
  let ?d = "nd_depth (pv_data p)" and ?o = "pv_bitorder p"
  let ?out = "write_cells (set_bit_of ?o patch) (zip ?is ?vs) ?cells"
  let ?q = "p\<lparr>pv_data := (pv_data p)\<lparr>nd_cells := ?out\<rparr>\<rparr>"
  have q: "set_patch_window p patch rs cs values = Inr ?q"
    using assms(1-5) by (simp add: set_patch_window_def packed_ok_def Let_def)
  have cells: "\<forall>cell\<in>set ?cells. length cell = ?d" "length ?cells = rows * cols" by (rule packed_cells [OF assms(1)])+
  have len: "length ?is = length ?vs" using assms(5,6) by (simp add: window_positions_ok array_ok_def)
  have in_range: "nat i < 8 * ?d" if "0 \<le> i" "i < pv_patch_count p" for i
    using assms(1) that unfolding packed_ok_def by linarith
  have law: "map (bit_at ?o (nat i)) ?out =
      map (\<lambda>j. if nat i = nat patch \<and> j \<in> set ?is then the (map_of (zip ?is ?vs) j) else bit_at ?o (nat i) (?cells ! j)) [0..<length ?cells] \<and>
    length ?out = length ?cells \<and> (\<forall>cell\<in>set ?out. length cell = ?d)" if "0 \<le> i" "i < pv_patch_count p" for i
    using one_bit.window_write [OF cells(1) in_range [OF assms(2,3)] in_range [OF that] window_positions_ok(1) len, of ?o]
      window_positions_ok(2) cells(2) assms(2) by simp
  have "packed_ok rows cols ?q" using law [OF assms(2,3)] assms(1) by (simp add: packed_ok_def array_ok_def)
  moreover have "unpack_patch ?q i = Inr (map (\<lambda>j. if i = patch \<and> j \<in> set ?is then the (map_of (zip ?is ?vs) j)
      else map (bit_at ?o (nat i)) ?cells ! j) [0..<rows * cols])" if "0 \<le> i" "i < pv_patch_count p" for i
    using unpack_patch_reads [of i ?q] law [OF that] that assms(2) cells(2) by (auto simp: nat_eq_iff)
  ultimately show ?thesis using q unpack_patch_reads by (intro exI [of _ ?q]) auto
qed

lemma set_patch_window_exact_witness:
  "\<exists>q. set_patch_window
       \<lparr>pv_data = \<lparr>nd_shape = [1, 2], nd_depth = 1, nd_cells = [[5], [5]]\<rparr>, pv_patch_count = 3, pv_bitorder = ''little''\<rparr>
       1 (0, 1) (1, 2) (BoolStack \<lparr>nd_shape = [1, 1], nd_depth = 1, nd_cells = [[True]]\<rparr>) = Inr q \<and>
     unpack_patch q 1 = Inr [False, True] \<and> unpack_patch q 2 = Inr [True, True]"
proof -
  let ?p = "\<lparr>pv_data = \<lparr>nd_shape = [1, 2], nd_depth = 1, nd_cells = [[5], [5]]\<rparr>, pv_patch_count = 3, pv_bitorder = ''little''\<rparr>"
  let ?b = "\<lparr>nd_shape = [1, 1], nd_depth = 1, nd_cells = [[True]]\<rparr>"
  have pos: "window_positions 1 2 (0, 1) (1, 2) = [1]" "window_shape 1 2 (0, 1) (1, 2) = [1, 1]"
    by (simp_all add: window_positions_def window_shape_def slice_range_def slice_index_def upt_rec)
  have ok: "packed_ok 1 2 ?p" "as_binary_bool (BoolStack ?b) = Inr ?b" "array_ok ?b"
    by (simp_all add: packed_ok_def array_ok_def as_binary_bool_def)
  have old: "unpack_patch ?p 1 = Inr [False, False]" "unpack_patch ?p 2 = Inr [True, True]"
    by (simp_all add: unpack_patch_def byte_index_def bit_mask_def)
  obtain q where q: "set_patch_window ?p 1 (0, 1) (1, 2) (BoolStack ?b) = Inr q"
    "\<forall>i. 0 \<le> i \<and> i < pv_patch_count ?p \<longrightarrow> (\<exists>old. unpack_patch ?p i = Inr old \<and>
       unpack_patch q i = Inr (map (\<lambda>j. if i = 1 \<and> j \<in> set (window_positions 1 2 (0, 1) (1, 2))
         then the (map_of (zip (window_positions 1 2 (0, 1) (1, 2)) (map hd (nd_cells ?b))) j) else old ! j) [0..<1 * 2]))"
    using set_patch_window_exact [OF ok(1) _ _ ok(2) _ ok(3), of 1 "(0, 1)" "(1, 2)"] pos(2) by auto
  have "unpack_patch q 1 = Inr [False, True]" using q(2) [unfolded pos, rule_format, of 1] old(1) by (simp add: upt_rec)
  moreover have "unpack_patch q 2 = Inr [True, True]" using q(2) [unfolded pos, rule_format, of 2] old(2) by (simp add: upt_rec)
  ultimately show ?thesis using q(1) by blast
qed

section \<open>Two bits per patch\<close>

definition field_at :: "nat \<Rightarrow> byte list \<Rightarrow> byte" where
  "field_at i cell = drop_bit (2 * (i mod 4)) (cell ! (i div 4)) AND 3"

lemma three_mask: "(3::byte) = mask 2"
  by (simp add: mask_eq_exp_minus_1)

lemma byte_index_2bit_nat: "byte_index_2bit (int p) = p div 4"
  by (simp add: byte_index_2bit_def drop_bit_eq_div nat_div_distrib)

lemma bit_shift_2bit_nat: "bit_shift_2bit (int p) = 2 * (p mod 4)"
proof -
  have "int p AND 3 = int p mod 4" using take_bit_eq_mask [of 2 "int p"] by (simp add: take_bit_eq_mod mask_eq_exp_minus_1)
  then show ?thesis by (simp add: bit_shift_2bit_def nat_mod_distrib nat_mult_distrib)
qed

lemma field_write:
  fixes w v :: byte
  assumes "a < 4" "b < 4" "take_bit 2 v = v"
  shows "drop_bit (2 * b) ((w AND NOT (push_bit (2 * a) 3)) OR push_bit (2 * a) v) AND 3 = (if b = a then v else drop_bit (2 * b) w AND 3)"
proof (rule bit_word_eqI)
  fix n assume n: "n < LENGTH(8)"
  have v: "bit v m \<Longrightarrow> m < 2" for m using assms(3) bit_take_bit_iff [of 2 v m] by simp
  have v8: "bit v n \<Longrightarrow> 2 * a + n < 8" using v [of n] assms(1) by linarith
  have "2 * a \<le> 2 * b + n \<and> 2 * b + n - 2 * a < 2 \<longleftrightarrow> a = b" if "n < 2" using that by auto
  then show "bit (drop_bit (2 * b) ((w AND NOT (push_bit (2 * a) 3)) OR push_bit (2 * a) v) AND 3) n =
      bit (if b = a then v else drop_bit (2 * b) w AND 3) n"
    using assms(1,2) n v v8 unfolding three_mask by (auto simp: bit_simps)
qed

interpretation two_bits: patch_field field_at "\<lambda>p. set_field_2bit (int p)" 4 "\<lambda>v. take_bit 2 v = v"
proof
  fix p q and v :: byte and cell :: "byte list" assume pq: "p < 4 * length cell" "q < 4 * length cell" "take_bit 2 v = v"
  have "p div 4 < length cell" using pq(1) by linarith
  moreover have "q = p \<longleftrightarrow> q div 4 = p div 4 \<and> q mod 4 = p mod 4" by (metis div_mult_mod_eq)
  ultimately show "field_at q (set_field_2bit (int p) cell v) = (if q = p then v else field_at q cell)"
    using field_write [OF _ _ pq(3), of "p mod 4" "q mod 4" "cell ! (p div 4)"]
    by (cases "q div 4 = p div 4") (auto simp: field_at_def set_field_2bit_def byte_index_2bit_nat bit_shift_2bit_nat)
qed (simp add: set_field_2bit_def)

definition ternary :: "byte \<Rightarrow> bool" where
  "ternary v \<longleftrightarrow> v = 0 \<or> v = 1 \<or> v = 2"

lemma ternary_valid: "ternary v \<Longrightarrow> take_bit 2 v = v"
  by (auto simp: ternary_def)

lemma quad_fields:
  assumes "ternary a" "ternary b" "ternary c" "ternary d"
  shows "unpack_quad (push_bit 0 a + push_bit 2 b + push_bit 4 c + push_bit 6 d) = [a, b, c, d]"
  using assms unfolding ternary_def unpack_quad_def by (elim disjE) simp_all

lemma unpack_pack_quads:
  assumes "4 dvd length vs" "\<forall>v\<in>set vs. ternary v"
  shows "concat (map unpack_quad (pack_quads vs)) = vs \<and> length (pack_quads vs) = length vs div 4"
  using assms
proof (induction vs rule: pack_quads.induct)
  case (1 a b c d vs)
  have "4 dvd length vs" using 1(2) dvd_add_right_iff [of 4 4 "length vs"] by (simp add: numeral_eq_Suc)
  then show ?case using 1 quad_fields [of a b c d] by simp
qed (auto dest: dvd_imp_le)

lemma concat_quads: "concat (map unpack_quad ws) = map (\<lambda>i. field_at i ws) [0..<4 * length ws]"
proof (induction ws)
  case (Cons w ws)
  have "[0..<4 * length (w # ws)] = [0..<4] @ [4..<4 + 4 * length ws]" using upt_add_eq_append [of 0 4 "4 * length ws"] by simp
  then have "[0..<4 * length (w # ws)] = [0, 1, 2, 3] @ map (\<lambda>i. i + 4) [0..<4 * length ws]"
    by (simp only: map_add_upt add.commute [of 4]) (simp add: upt_rec)
  moreover have "field_at (i + 4) (w # ws) = field_at i ws" for i by (simp add: field_at_def)
  ultimately show ?case using Cons by (simp add: unpack_quad_def field_at_def comp_def)
qed simp

lemma as_ternary_values:
  assumes "as_ternary_u8 visibility = Inr a"
  shows "0 < nd_depth a \<and> (\<forall>cell\<in>set (nd_cells a). \<forall>v\<in>set cell. ternary v)"
  using assms by (auto simp: as_ternary_u8_def Let_def map_cells_def ternary_byte_def ternary_def split: if_splits)

lemma padded_length: "nat (int n + (- int n) mod 4) = 4 * ((n + 3) div 4)"
proof -
  have "int n + (- int n) mod 4 = 4 * ((int n + 3) div 4)" by presburger
  also have "\<dots> = int (4 * ((n + 3) div 4))" by (simp add: zdiv_int)
  finally show ?thesis by simp
qed

lemma pad_quads_unpack:
  assumes "\<forall>v\<in>set cell. ternary v"
  shows "concat (map unpack_quad (pack_quads (pad_quads (4 * ((length cell + 3) div 4)) cell))) =
      cell @ replicate (4 * ((length cell + 3) div 4) - length cell) 0 \<and>
    length (pack_quads (pad_quads (4 * ((length cell + 3) div 4)) cell)) = (length cell + 3) div 4"
proof -
  let ?n = "4 * ((length cell + 3) div 4)"
  have "length cell \<le> ?n" by linarith
  then have "length (pad_quads ?n cell) = ?n" by (simp add: pad_quads_def)
  moreover have "\<forall>v\<in>set (pad_quads ?n cell). ternary v" using assms by (auto simp: pad_quads_def ternary_def)
  ultimately show ?thesis using unpack_pack_quads [of "pad_quads ?n cell"] by (simp add: pad_quads_def)
qed

lemma two_bit_pack_unpack:
  assumes "as_ternary_u8 visibility = Inr a" "array_ok a"
  shows "\<exists>p. pack_visibility_2bit visibility = Inr p \<and> unpack_visibility_2bit p = a \<and>
    (\<forall>i<nd_depth a. unpack_patch_2bit p (int i) = Inr (map (\<lambda>cell. cell ! i) (nd_cells a)))"
proof -
  let ?n = "nd_depth a" and ?k = "(nd_depth a + 3) div 4"
  let ?pack = "\<lambda>cell. pack_quads (pad_quads (4 * ?k) cell)"
  let ?p = "\<lparr>pt_data = map_cells ?pack ?k a, pt_patch_count = int ?n\<rparr>"
  have n: "0 < ?n" and vals: "\<forall>cell\<in>set (nd_cells a). \<forall>v\<in>set cell. ternary v" using as_ternary_values [OF assms(1)] by auto
  have cell: "length cell = ?n" if "cell \<in> set (nd_cells a)" for cell using assms(2) that by (simp add: array_ok_def)
  have k: "int ?k = (2 * int ?n + 7) div 8" by presburger
  have un: "concat (map unpack_quad (?pack c)) = c @ replicate (4 * ?k - ?n) 0" "length (?pack c) = ?k" if c: "c \<in> set (nd_cells a)" for c
    using pad_quads_unpack [of c] vals c cell [OF c] by auto
  have "pack_visibility_2bit visibility = Inr ?p"
    using assms(1) n k by (simp add: pack_visibility_2bit_def padded_length mk_packed_2bit_def bytes_per_pixel_2bit_def map_cells_def Let_def)
  moreover have "unpack_visibility_2bit ?p = a"
  proof (rule ndarray.equality)
    show "nd_cells (unpack_visibility_2bit ?p) = nd_cells a"
      using cell un(1) by (auto simp: unpack_visibility_2bit_def map_cells_def py_slice_def slice_index_def Let_def intro!: map_idI)
  qed (auto simp: unpack_visibility_2bit_def map_cells_def)
  moreover have "unpack_patch_2bit ?p (int i) = Inr (map (\<lambda>cell. cell ! i) (nd_cells a))" if i: "i < ?n" for i
  proof -
    have "field_at i (?pack c) = c ! i" if c: "c \<in> set (nd_cells a)" for c
    proof -
      have "i < 4 * ?k" using i by linarith
      then have "field_at i (?pack c) = concat (map unpack_quad (?pack c)) ! i"
        using un(2) [OF c] by (simp add: concat_quads)
      then show ?thesis using un(1) [OF c] cell [OF c] i by (simp add: nth_append)
    qed
    then show ?thesis using i
      by (simp add: unpack_patch_2bit_def map_cells_def field_at_def byte_index_2bit_nat bit_shift_2bit_nat)
  qed
  ultimately show ?thesis by (intro exI [of _ ?p]) simp
qed

text \<open>Packing a dense stack with values zero, one and two at two bits per patch and unpacking it, whole or one
  patch at a time, gives back its values for any number of patches; a stack with any other value is refused, never
  truncated.\<close>

lemma two_bit_roundtrip:
  "(\<forall>a. as_ternary_u8 visibility = Inr a \<and> array_ok a \<longrightarrow>
     (\<exists>p. pack_visibility_2bit visibility = Inr p \<and> unpack_visibility_2bit p = a \<and>
       (\<forall>i<nd_depth a. unpack_patch_2bit p (int i) = Inr (map (\<lambda>cell. cell ! i) (nd_cells a))))) \<and>
   (\<forall>cell\<in>set (nd_cells (stack_values visibility)). \<forall>v\<in>set cell. v \<noteq> Fin 0 \<and> v \<noteq> Fin 1 \<and> v \<noteq> Fin 2 \<longrightarrow>
     (\<exists>err. pack_visibility_2bit visibility = Inl (ValueError err)))"
proof (intro conjI allI impI ballI)
  fix cell v assume v: "cell \<in> set (nd_cells (stack_values visibility))" "v \<in> set cell" "v \<noteq> Fin 0 \<and> v \<noteq> Fin 1 \<and> v \<noteq> Fin 2"
  then have "\<not> (\<forall>cell\<in>set (nd_cells (stack_values visibility)). \<forall>v\<in>set cell. v = Fin 0 \<or> v = Fin 1 \<or> v = Fin 2)" by blast
  then have "\<exists>err. as_ternary_u8 visibility = Inl (ValueError err)"
    unfolding as_ternary_u8_def Let_def by (simp only: if_False) (simp split: if_split)
  then show "\<exists>err. pack_visibility_2bit visibility = Inl (ValueError err)" by (auto simp: pack_visibility_2bit_def)
qed (use two_bit_pack_unpack in blast)

lemma two_bit_roundtrip_witness:
  "\<exists>p. pack_visibility_2bit (NumStack \<lparr>nd_shape = [1], nd_depth = 5, nd_cells = [[Fin 2, Fin 0, Fin 1, Fin 2, Fin 2]]\<rparr>) = Inr p \<and>
     unpack_patch_2bit p 4 = Inr [2]"
proof -
  let ?v = "NumStack \<lparr>nd_shape = [1], nd_depth = 5, nd_cells = [[Fin 2, Fin 0, Fin 1, Fin 2, Fin 2]]\<rparr>"
  let ?a = "\<lparr>nd_shape = [1], nd_depth = 5, nd_cells = [[2, 0, 1, 2, 2 :: byte]]\<rparr>"
  have a: "as_ternary_u8 ?v = Inr ?a" "array_ok ?a" by (simp_all add: as_ternary_u8_def map_cells_def ternary_byte_def array_ok_def)
  obtain p where p: "pack_visibility_2bit ?v = Inr p" "\<forall>i<nd_depth ?a. unpack_patch_2bit p (int i) = Inr (map (\<lambda>cell. cell ! i) (nd_cells ?a))"
    using conjunct1 [OF two_bit_roundtrip [of ?v], rule_format, of ?a] a by auto
  have "unpack_patch_2bit p (int 4) = Inr [2]" using p(2) [rule_format, of 4] by simp
  then show ?thesis using p(1) by auto
qed

text \<open>The window write of the two-bit layout obeys the same law.\<close>

lemma set_patch_window_2bit_exact:
  assumes "nd_shape (pt_data p) = [rows, cols]" "array_ok (pt_data p)" "pt_patch_count p \<le> int (4 * nd_depth (pt_data p))"
    and "0 \<le> patch" "patch < pt_patch_count p" "as_ternary_u8 values = Inr b"
    and "nd_shape b = window_shape rows cols rs cs" "array_ok b" "nd_depth b = 1" "0 \<le> i" "i < pt_patch_count p"
  shows "\<exists>q old. set_patch_window_2bit p patch rs cs values = Inr q \<and> unpack_patch_2bit p i = Inr old \<and>
    unpack_patch_2bit q i = Inr (map (\<lambda>j. if i = patch \<and> j \<in> set (window_positions rows cols rs cs)
      then the (map_of (zip (window_positions rows cols rs cs) (map hd (nd_cells b))) j) else old ! j) [0..<rows * cols])"
proof -
  let ?cells = "nd_cells (pt_data p)" and ?is = "window_positions rows cols rs cs" and ?vs = "map hd (nd_cells b)"
  let ?out = "write_cells (set_field_2bit patch) (zip ?is ?vs) ?cells"
  let ?q = "p\<lparr>pt_data := (pt_data p)\<lparr>nd_cells := ?out\<rparr>\<rparr>"
  have q: "set_patch_window_2bit p patch rs cs values = Inr ?q"
    using assms(1,4-7) by (simp add: set_patch_window_2bit_def Let_def)
  have cells: "\<forall>cell\<in>set ?cells. length cell = nd_depth (pt_data p)" "length ?cells = rows * cols" using assms(1,2) by (simp_all add: array_ok_def)
  have len: "length ?is = length ?vs" using assms(7,8) by (simp add: window_positions_ok array_ok_def)
  have valid: "\<forall>v\<in>set ?vs. take_bit 2 v = v"
  proof
    fix v assume "v \<in> set ?vs"
    then obtain cell where c: "cell \<in> set (nd_cells b)" "v = hd cell" by auto
    then have "hd cell \<in> set cell" using assms(8,9) by (intro hd_in_set) (auto simp: array_ok_def)
    then show "take_bit 2 v = v" using as_ternary_values [OF assms(6)] c ternary_valid by blast
  qed
  have range: "nat patch < 4 * nd_depth (pt_data p)" "nat i < 4 * nd_depth (pt_data p)" using assms(3-5,10,11) by linarith+
  have law: "map (field_at (nat i)) ?out =
      map (\<lambda>j. if nat i = nat patch \<and> j \<in> set ?is then the (map_of (zip ?is ?vs) j) else field_at (nat i) (?cells ! j)) [0..<length ?cells]"
    using two_bits.window_write [OF cells(1) range window_positions_ok(1) len _ valid] window_positions_ok(2) cells(2) assms(4) by simp
  have reads: "unpack_patch_2bit r i = Inr (map (field_at (nat i)) (nd_cells (pt_data r)))" if "pt_patch_count r = pt_patch_count p" for r
    using that assms(10,11) byte_index_2bit_nat [of "nat i"] bit_shift_2bit_nat [of "nat i"] by (simp add: unpack_patch_2bit_def field_at_def)
  show ?thesis using q reads [of p] reads [of ?q] law cells(2) assms(4,10)
    by (intro exI [of _ ?q] exI [of _ "map (field_at (nat i)) ?cells"]) (auto simp: nat_eq_iff)
qed

section \<open>Accumulation\<close>

definition pixel_sum :: "('w, 'f) accumulator \<Rightarrow> (nat \<Rightarrow> nat) \<Rightarrow> nat list \<Rightarrow> 'w list \<Rightarrow> 'f \<Rightarrow> 'f" where
  "pixel_sum acc value is weights r =
     fold (\<lambda>(i, w) r. acc_add acc r (acc_scale acc (value i) w)) (filter (\<lambda>(i, w). acc_nonzero acc w) (zip is weights)) r"

lemma accumulate_pixels:
  assumes "\<And>i. i \<in> set is \<Longrightarrow> plane_of (int i) = Inr (map (\<lambda>c. value c i) cells)"
  shows "fold_exc (\<lambda>result (i, weight).
      if acc_nonzero acc weight then map_sum id (\<lambda>plane. add_plane acc weight plane result) (plane_of i) else Inr result)
    (map r cells) (zip (map int is) weights) = Inr (map (\<lambda>c. pixel_sum acc (value c) is weights (r c)) cells)"
  using assms
proof (induction "is" arbitrary: weights r)
  case (Cons i "is")
  show ?case
  proof (cases weights)
    case (Cons w ws)
    have add: "add_plane acc w (map (\<lambda>c. value c i) cells) (map r cells) = map (\<lambda>c. acc_add acc (r c) (acc_scale acc (value c i) w)) cells"
      by (simp add: add_plane_def zip_map_map comp_def zip_same_conv_map)
    show ?thesis using Cons.IH Cons.prems local.Cons add by (simp add: pixel_sum_def)
  qed (simp add: pixel_sum_def)
qed (simp add: pixel_sum_def)

text \<open>The sum over a packed stack adds, pixel by pixel and in the order of the patches, what the sum over the dense
  stack adds.\<close>

lemma weighted_sum_pixels:
  assumes "bit_packing lib" "order \<in> {''little'', ''big''}" "as_binary_bool visibility = Inr a" "array_ok a"
    and "pack_visibility lib visibility order = Inr p" "length weights = nd_depth a"
  shows "weighted_sum_from_packed acc p weights =
    Inr (map (\<lambda>cell. pixel_sum acc (\<lambda>i. of_bool (cell ! i)) [0..<nd_depth a] weights (acc_zero acc)) (nd_cells a))"
proof -
  have p: "pv_patch_count p = int (nd_depth a)" "length (nd_cells (pv_data p)) = length (nd_cells a)"
    "\<And>i. i < nd_depth a \<Longrightarrow> unpack_patch p (int i) = Inr (map (\<lambda>cell. cell ! i) (nd_cells a))"
    using packed_spec [OF assms(1-4)] assms(5) by auto
  have "accumulate acc (\<lambda>i. map_sum id (map of_bool) (unpack_patch p i)) (length (nd_cells a)) weights =
      Inr (map (\<lambda>cell. pixel_sum acc (\<lambda>i. of_bool (cell ! i)) [0..<nd_depth a] weights (acc_zero acc)) (nd_cells a))"
    unfolding accumulate_def map_replicate_const [of "acc_zero acc", symmetric] assms(6)
    by (rule accumulate_pixels) (simp add: p(3) comp_def)
  then show ?thesis using p(1,2) assms(6) by (simp add: weighted_sum_from_packed_def)
qed

section \<open>Blocks\<close>

lemma next_stop_shape:
  assumes "start < patch_count" "0 < block_size"
  shows "next_stop patch_count block_size start = patch_count \<or> 8 dvd next_stop patch_count block_size start \<or> \<not> 8 dvd start"
  using assms by (auto simp: next_stop_def Let_def min_def)

text \<open>Consecutive blocks from \<open>start\<close> to the end, each non-empty and cut at a byte boundary.\<close>

fun tiles :: "int \<Rightarrow> int \<Rightarrow> (int \<times> int) list \<Rightarrow> bool" where
  "tiles patch_count start [] \<longleftrightarrow> start = patch_count"
| "tiles patch_count start ((a, b) # bs) \<longleftrightarrow> a = start \<and> a < b \<and> b \<le> patch_count \<and> 8 dvd a \<and> tiles patch_count b bs"

lemma block_loop_tiles:
  "0 < block_size \<Longrightarrow> start \<le> patch_count \<Longrightarrow> 8 dvd start \<or> start = patch_count \<Longrightarrow> tiles patch_count start (block_loop patch_count block_size start)"
proof (induction patch_count block_size start rule: block_loop.induct)
  case (1 patch_count block_size start)
  show ?case
  proof (cases "start < patch_count")
    case True
    have "tiles patch_count (next_stop patch_count block_size start) (block_loop patch_count block_size (next_stop patch_count block_size start))"
      using 1 True next_stop_shape [OF True 1(2)] next_stop_le [OF True] by auto
    then show ?thesis using True 1(4) next_stop_advances [OF True] next_stop_le [OF True]
      by (subst block_loop.simps) auto
  qed (use 1(3) in \<open>simp add: block_loop.simps\<close>)
qed

text \<open>The generator of patch blocks ends: for a positive number of patches and a positive block size it yields
  non-empty blocks that follow one another from the first patch to the last, each starting at a byte boundary, so the
  blocks tile the patches and can be packed independently; otherwise it raises.\<close>

lemma patch_blocks_tile:
  "(0 < patch_count \<and> 0 < block_size \<longrightarrow> (\<exists>bs. iter_patch_blocks patch_count block_size = Inr bs \<and> tiles patch_count 0 bs)) \<and>
   (patch_count \<le> 0 \<or> block_size \<le> 0 \<longrightarrow> (\<exists>err. iter_patch_blocks patch_count block_size = Inl (ValueError err)))"
  using block_loop_tiles [of block_size 0 patch_count] by (simp add: iter_patch_blocks_def)

lemma patch_blocks_tile_witness: "\<exists>bs. iter_patch_blocks 153 12 = Inr bs \<and> tiles 153 0 bs"
  using patch_blocks_tile [of 153 12] by simp

end
