(* ===== verification/Source_Deltas.thy ===== *)
theory Source_Deltas
  imports Influence
begin

text \<open>
  The records of the editing engine, \<open>incremental/edit_types.py\<close>: commands, impacts and plans with the
  checks of their constructors, the typed source deltas, the staging transaction, and the coalescing
  of deltas. A payload value is a JSON value; freezing sorts the keys of its mappings. Types that
  the code tests with \<open>isinstance\<close> are types here.
\<close>

section \<open>Errors and frozen values\<close>

datatype edit_exc =
    EditStateError string
  | SourceDeltaError string
  | TransactionError string
  | Unordered string

primrec freeze_value :: "json \<Rightarrow> json" where
  "freeze_value JNull = JNull"
| "freeze_value (JBool b) = JBool b"
| "freeze_value (JInt i) = JInt i"
| "freeze_value (JFloat r) = JFloat r"
| "freeze_value (JStr s) = JStr s"
| "freeze_value (JArr xs) = JArr (map freeze_value xs)"
| "freeze_value (JObj kvs) = JObj (sort_key fst (map (map_prod id freeze_value) kvs))"

definition freeze_mapping :: "json dict option \<Rightarrow> json dict option" where
  "freeze_mapping = map_option (\<lambda>d. sorted_items (map (map_prod id freeze_value) d))"

text \<open>Equality of two optional states.\<close>

definition state_eq :: "json dict option \<Rightarrow> json dict option \<Rightarrow> bool" where
  "state_eq a b \<longleftrightarrow> map_option (py_norm \<circ> JObj) a = map_option (py_norm \<circ> JObj) b"

definition require_non_empty :: "string \<Rightarrow> edit_exc + unit" where
  "require_non_empty value = (if value = [] then Inl (EditStateError ''must be a non-empty string'') else Inr ())"

section \<open>Commands, impacts, plans\<close>

datatype spatial_scope = ScopeNone | ScopeWindows | ScopeFull

datatype temporal_scope = TimeOne | TimeRange | TimeReplay | TimeAll

record edit_command =
  ec_edit_id :: string
  ec_scenario_id :: string
  ec_base_scene_revision :: int
  ec_adapter_id :: string
  ec_operation :: string
  ec_old_state :: "json dict option"
  ec_new_state :: "json dict option"
  ec_requested_outputs :: "string list"
  ec_requested_times :: "int list option"

definition check_edit_command :: "edit_command \<Rightarrow> edit_exc + edit_command" where
  "check_edit_command c =
     bind_exc (traverse require_non_empty [ec_edit_id c, ec_scenario_id c, ec_adapter_id c, ec_operation c]) (\<lambda>_.
       if ec_base_scene_revision c < 0 then Inl (EditStateError ''base_scene_revision must be non-negative'')
       else if [] \<in> set (ec_requested_outputs c) then Inl (EditStateError ''requested_outputs must be non-empty strings'')
       else if \<exists>t\<in>set (case ec_requested_times c of None \<Rightarrow> [] | Some ts \<Rightarrow> ts). t < 0
       then Inl (EditStateError ''requested_times must be non-negative integers or None'')
       else Inr (c\<lparr>ec_old_state := freeze_mapping (ec_old_state c), ec_new_state := freeze_mapping (ec_new_state c)\<rparr>))"

record node_impact =
  ni_node_id :: string
  ni_spatial_scope :: spatial_scope
  ni_read_windows :: "raster_window list"
  ni_write_windows :: "raster_window list"
  ni_temporal_scope :: temporal_scope
  ni_time_start :: "int option"
  ni_time_stop :: "int option"

definition check_node_impact :: "node_impact \<Rightarrow> edit_exc + node_impact" where
  "check_node_impact i =
     bind_exc (require_non_empty (ni_node_id i)) (\<lambda>_.
       if ni_spatial_scope i = ScopeFull \<and> (ni_read_windows i \<noteq> [] \<or> ni_write_windows i \<noteq> [])
       then Inl (EditStateError ''a FULL node impact must not carry windows'')
       else if ni_spatial_scope i = ScopeWindows \<and> ni_write_windows i = []
       then Inl (EditStateError ''a WINDOWS node impact must carry write windows'')
       else if ni_temporal_scope i = TimeRange \<and> (ni_time_start i = None \<or> ni_time_stop i = None)
       then Inl (EditStateError ''temporal RANGE requires time_start and time_stop'')
       else if ni_temporal_scope i \<in> {TimeOne, TimeReplay} \<and> ni_time_start i = None
       then Inl (EditStateError ''temporal scope requires time_start'')
       else if \<exists>t\<in>set_option (ni_time_start i) \<union> set_option (ni_time_stop i). t < 0
       then Inl (EditStateError ''times must be non-negative'')
       else case (ni_time_start i, ni_time_stop i) of
              (Some a, Some b) \<Rightarrow> if b < a then Inl (EditStateError ''time_stop must be >= time_start'') else Inr i
            | _ \<Rightarrow> Inr i)"

text \<open>A fallback reason is its cause; the texts and their sorting are left out.\<close>

datatype fallback_reason =
    CoalescedToNoop
  | FullOnlyAdapter string
  | FullSpatialAdapter string
  | NoLocalWindows string
  | NeverPlanned string
  | OutputSkipped string
  | DemotedByPolicy string
  | UtciPinnedFull
  | UtciNotKept
  | MetAffinity

record impact_plan =
  ip_changed_sources :: "string list"
  ip_node_impacts :: "node_impact list"
  ip_reusable_nodes :: "string list"
  ip_fallback_reasons :: "fallback_reason list"
  ip_estimated_memory_bytes :: int
  ip_estimated_work_units :: rat
  ip_scene_revision :: "int option"
  ip_transport_window :: "raster_window option"

definition check_impact_plan :: "impact_plan \<Rightarrow> edit_exc + impact_plan" where
  "check_impact_plan p =
     (if [] \<in> set (ip_changed_sources p @ ip_reusable_nodes p) then Inl (EditStateError ''changed_sources/reusable_nodes must be node ids'')
      else if ip_estimated_memory_bytes p < 0 \<or> ip_estimated_work_units p < 0 then Inl (EditStateError ''estimates must be non-negative'')
      else if \<exists>r\<in>set_option (ip_scene_revision p). r < 0 then Inl (EditStateError ''scene_revision must be a non-negative integer'')
      else Inr p)"

definition write_scope_records :: "impact_plan \<Rightarrow> (string \<times> spatial_scope \<times> raster_window list) list" where
  "write_scope_records p = map (\<lambda>i. (ni_node_id i, ni_spatial_scope i, ni_write_windows i)) (ip_node_impacts p)"

record site_context =
  cx_site_id :: string
  cx_grid :: raster_grid
  cx_scene_revision :: int
  cx_available_times :: "int list"
  cx_has_wind_coefficients :: bool

definition check_site_context :: "site_context \<Rightarrow> edit_exc + site_context" where
  "check_site_context c =
     bind_exc (require_non_empty (cx_site_id c)) (\<lambda>_.
       if cx_scene_revision c < 0 then Inl (EditStateError ''scene_revision must be non-negative'') else Inr c)"

section \<open>Deltas\<close>

record object_change =
  oc_object_id :: string
  oc_before :: "json dict option"
  oc_after :: "json dict option"

definition mk_object_change :: "string \<Rightarrow> json dict option \<Rightarrow> json dict option \<Rightarrow> edit_exc + object_change" where
  "mk_object_change i before after =
     bind_exc (require_non_empty i) (\<lambda>_.
       if before = None \<and> after = None then Inl (SourceDeltaError ''an object change needs a before or after state'')
       else Inr \<lparr>oc_object_id = i, oc_before = freeze_mapping before, oc_after = freeze_mapping after\<rparr>)"

record paint_patch =
  pp_window :: raster_window
  pp_before_classes :: "int list"
  pp_after_classes :: "int list"

definition check_paint_patch :: "paint_patch \<Rightarrow> edit_exc + paint_patch" where
  "check_paint_patch p =
     (let area = rw_area (pp_window p)
      in if int (length (pp_before_classes p)) \<noteq> area \<or> int (length (pp_after_classes p)) \<noteq> area
         then Inl (SourceDeltaError ''class codes must have length window.area'') else Inr p)"

record forcing_change =
  fc_variable :: string
  fc_time_index :: "int option"
  fc_before_value :: json
  fc_after_value :: json

definition mk_forcing_change :: "string \<Rightarrow> int option \<Rightarrow> json \<Rightarrow> json \<Rightarrow> edit_exc + forcing_change" where
  "mk_forcing_change variable time_index before after =
     bind_exc (require_non_empty variable) (\<lambda>_.
       if \<exists>t\<in>set_option time_index. t < 0 then Inl (SourceDeltaError ''time_index must be a non-negative integer or None'')
       else Inr \<lparr>fc_variable = variable, fc_time_index = time_index, fc_before_value = freeze_value before, fc_after_value = freeze_value after\<rparr>)"

record parameter_change =
  pc_name :: string
  pc_before_value :: json
  pc_after_value :: json

definition mk_parameter_change :: "string \<Rightarrow> json \<Rightarrow> json \<Rightarrow> edit_exc + parameter_change" where
  "mk_parameter_change name before after =
     bind_exc (require_non_empty name) (\<lambda>_.
       Inr \<lparr>pc_name = name, pc_before_value = freeze_value before, pc_after_value = freeze_value after\<rparr>)"

text \<open>The subclasses of \<open>SourceDelta\<close>; the base class itself has no payload.\<close>

datatype payload =
    VegetationObjects "object_change list" "raster_window list"
  | BuildingMassing "object_change list" "raster_window list"
  | LandCoverPaint "paint_patch list"
  | ForcingChanges "forcing_change list"
  | ParameterChanges "parameter_change list"
  | OutputSelection "string list" "string list"
  | NoPayload

datatype family = VegetationFamily | BuildingFamily | PaintFamily | ForcingFamily | ParameterFamily | SelectionFamily | BaseFamily

fun family_of :: "payload \<Rightarrow> family" where
  "family_of (VegetationObjects _ _) = VegetationFamily"
| "family_of (BuildingMassing _ _) = BuildingFamily"
| "family_of (LandCoverPaint _) = PaintFamily"
| "family_of (ForcingChanges _) = ForcingFamily"
| "family_of (ParameterChanges _) = ParameterFamily"
| "family_of (OutputSelection _ _) = SelectionFamily"
| "family_of NoPayload = BaseFamily"

record source_delta =
  sd_source_node_id :: string
  sd_adapter_id :: string
  sd_payload :: payload

definition check_source_delta :: "source_delta \<Rightarrow> edit_exc + source_delta" where
  "check_source_delta d =
     bind_exc (traverse require_non_empty [sd_source_node_id d, sd_adapter_id d]) (\<lambda>_.
       case sd_payload d of
         OutputSelection before after \<Rightarrow>
           if [] \<in> set (before @ after) then Inl (SourceDeltaError ''layers must be non-empty strings'') else Inr d
       | _ \<Rightarrow> Inr d)"

fun payload_windows :: "payload \<Rightarrow> raster_window list" where
  "payload_windows (VegetationObjects _ windows) = windows"
| "payload_windows (BuildingMassing _ windows) = windows"
| "payload_windows (LandCoverPaint patches) = map pp_window patches"
| "payload_windows _ = []"

fun payload_noop :: "payload \<Rightarrow> bool" where
  "payload_noop (VegetationObjects objects _) \<longleftrightarrow> objects = []"
| "payload_noop (BuildingMassing objects _) \<longleftrightarrow> objects = []"
| "payload_noop (LandCoverPaint patches) \<longleftrightarrow> patches = []"
| "payload_noop (ForcingChanges changes) \<longleftrightarrow> changes = []"
| "payload_noop (ParameterChanges parameters) \<longleftrightarrow> parameters = []"
| "payload_noop (OutputSelection before after) \<longleftrightarrow> before = after"
| "payload_noop NoPayload \<longleftrightarrow> False"

definition spatial_windows :: "source_delta \<Rightarrow> raster_window list" where
  "spatial_windows d = payload_windows (sd_payload d)"

definition is_noop :: "source_delta \<Rightarrow> bool" where
  "is_noop d = payload_noop (sd_payload d)"

definition some_times :: "int option list \<Rightarrow> int list" where
  "some_times ts = sort (remdups (concat (map (\<lambda>t. case t of None \<Rightarrow> [] | Some i \<Rightarrow> [i]) ts)))"

definition time_indices :: "forcing_change list \<Rightarrow> int list" where
  "time_indices changes = some_times (map fc_time_index changes)"

record validated_edit =
  ve_command :: edit_command
  ve_adapter_id :: string
  ve_schema_version :: int
  ve_source_node_id :: string
  ve_delta :: source_delta

definition check_validated_edit :: "validated_edit \<Rightarrow> edit_exc + validated_edit" where
  "check_validated_edit e =
     (if ve_adapter_id e \<noteq> ec_adapter_id (ve_command e) then Inl (EditStateError ''adapter_id must match command.adapter_id'')
      else bind_exc (require_non_empty (ve_adapter_id e)) (\<lambda>_.
           if ve_schema_version e < 1 then Inl (EditStateError ''schema_version must be >= 1'')
           else bind_exc (require_non_empty (ve_source_node_id e)) (\<lambda>_.
                if sd_source_node_id (ve_delta e) \<noteq> ve_source_node_id e then Inl (EditStateError ''delta.source_node_id must match source_node_id'')
                else if sd_adapter_id (ve_delta e) \<noteq> ve_adapter_id e then Inl (EditStateError ''delta.adapter_id must match adapter_id'')
                else Inr e)))"

section \<open>Staging\<close>

datatype transaction_state = Open | Committed | RolledBack

record scenario_transaction =
  st_scenario_id :: string
  st_staged :: "source_delta list"
  st_state :: transaction_state

definition new_transaction :: "string \<Rightarrow> edit_exc + scenario_transaction" where
  "new_transaction scenario_id =
     bind_exc (require_non_empty scenario_id) (\<lambda>_. Inr \<lparr>st_scenario_id = scenario_id, st_staged = [], st_state = Open\<rparr>)"

definition stage_delta :: "source_delta \<Rightarrow> scenario_transaction \<Rightarrow> edit_exc + scenario_transaction" where
  "stage_delta d t =
     (if st_state t \<noteq> Open then Inl (TransactionError ''not open'') else Inr (t\<lparr>st_staged := st_staged t @ [d]\<rparr>))"

definition commit_transaction :: "scenario_transaction \<Rightarrow> edit_exc + scenario_transaction \<times> source_delta list" where
  "commit_transaction t =
     (if st_state t \<noteq> Open then Inl (TransactionError ''not open'') else Inr (t\<lparr>st_state := Committed\<rparr>, st_staged t))"

definition rollback_transaction :: "scenario_transaction \<Rightarrow> edit_exc + scenario_transaction" where
  "rollback_transaction t =
     (if st_state t = Committed then Inl (TransactionError ''a committed transaction cannot be rolled back'')
      else Inr (t\<lparr>st_staged := [], st_state := RolledBack\<rparr>))"

section \<open>Coalescing\<close>

text \<open>\<open>merged[key]\<close> holds the first before-value and the last after-value of a key.\<close>

definition merge_change :: "('k \<times> 'v \<times> 'v) list \<Rightarrow> 'k \<times> 'v \<times> 'v \<Rightarrow> ('k \<times> 'v \<times> 'v) list" where
  "merge_change merged change =
     (case change of (k, before, after) \<Rightarrow>
        AList.update k (case map_of merged k of None \<Rightarrow> before | Some (first_before, _) \<Rightarrow> first_before, after) merged)"

definition object_step ::
  "(string \<times> json dict option \<times> json dict option) list \<Rightarrow> object_change \<Rightarrow>
   edit_exc + (string \<times> json dict option \<times> json dict option) list" where
  "object_step merged c =
     (case map_of merged (oc_object_id c) of
        Some (_, last_after) \<Rightarrow>
          if \<not> state_eq last_after (oc_before c) then Inl (SourceDeltaError ''non-contiguous change chain'')
          else Inr (merge_change merged (oc_object_id c, oc_before c, oc_after c))
      | None \<Rightarrow> Inr (merge_change merged (oc_object_id c, oc_before c, oc_after c)))"

definition coalesce_object_changes :: "object_change list \<Rightarrow> edit_exc + object_change list" where
  "coalesce_object_changes changes =
     bind_exc (fold_exc object_step [] changes) (\<lambda>merged.
       traverse (\<lambda>(i, before, after). mk_object_change i before after)
         (filter (\<lambda>(_, before, after). \<not> (before = None \<and> after = None) \<and> \<not> state_eq before after) (sorted_items merged)))"

text \<open>Sorting the pairs of variable and time compares a missing time with a number exactly when one
  variable has both.\<close>

definition unordered_times :: "forcing_change list \<Rightarrow> bool" where
  "unordered_times changes \<longleftrightarrow>
     (\<exists>c\<in>set changes. \<exists>d\<in>set changes. fc_variable c = fc_variable d \<and> fc_time_index c = None \<and> fc_time_index d \<noteq> None)"

definition coalesce_forcing :: "forcing_change list \<Rightarrow> edit_exc + forcing_change list" where
  "coalesce_forcing changes =
     (let merged = foldl merge_change [] (map (\<lambda>c. ((fc_variable c, fc_time_index c), fc_before_value c, fc_after_value c)) changes)
      in bind_exc (traverse (\<lambda>((variable, t), before, after). mk_forcing_change variable t before after) merged) (\<lambda>changes.
         let kept = filter (\<lambda>c. \<not> py_eq (fc_before_value c) (fc_after_value c)) changes
         in if unordered_times kept then Inl (Unordered ''None and int'')
            else Inr (sort_key (\<lambda>c. (fc_variable c, case fc_time_index c of None \<Rightarrow> 0 | Some t \<Rightarrow> t)) kept)))"

definition coalesce_parameters :: "parameter_change list \<Rightarrow> edit_exc + parameter_change list" where
  "coalesce_parameters changes =
     (let merged = foldl merge_change [] (map (\<lambda>c. (pc_name c, pc_before_value c, pc_after_value c)) changes)
      in bind_exc (traverse (\<lambda>(name, before, after). mk_parameter_change name before after) merged) (\<lambda>changes.
         Inr (sort_key pc_name (filter (\<lambda>c. \<not> py_eq (pc_before_value c) (pc_after_value c)) changes))))"

fun payload_objects :: "payload \<Rightarrow> object_change list" where
  "payload_objects (VegetationObjects objects _) = objects"
| "payload_objects (BuildingMassing objects _) = objects"
| "payload_objects _ = []"

fun payload_patches :: "payload \<Rightarrow> paint_patch list" where
  "payload_patches (LandCoverPaint patches) = patches"
| "payload_patches _ = []"

fun payload_changes :: "payload \<Rightarrow> forcing_change list" where
  "payload_changes (ForcingChanges changes) = changes"
| "payload_changes _ = []"

fun payload_parameters :: "payload \<Rightarrow> parameter_change list" where
  "payload_parameters (ParameterChanges parameters) = parameters"
| "payload_parameters _ = []"

fun before_layers :: "payload \<Rightarrow> string list" where
  "before_layers (OutputSelection before _) = before"
| "before_layers _ = []"

fun after_layers :: "payload \<Rightarrow> string list" where
  "after_layers (OutputSelection _ after) = after"
| "after_layers _ = []"

text \<open>The windows of a delta all of whose objects cancelled are dropped.\<close>

definition surviving_windows :: "object_change list \<Rightarrow> payload list \<Rightarrow> raster_window list" where
  "surviving_windows coalesced payloads =
     concat (map (\<lambda>p. if payload_objects p \<noteq> [] \<and> oc_object_id ` set (payload_objects p) \<inter> oc_object_id ` set coalesced = {}
                      then [] else payload_windows p) payloads)"

definition coalesce_payloads :: "payload list \<Rightarrow> edit_exc + payload" where
  "coalesce_payloads payloads =
     (case family_of (hd payloads) of
        VegetationFamily \<Rightarrow> map_sum id (\<lambda>os. VegetationObjects os (surviving_windows os payloads))
          (coalesce_object_changes (concat (map payload_objects payloads)))
      | BuildingFamily \<Rightarrow> map_sum id (\<lambda>os. BuildingMassing os (surviving_windows os payloads))
          (coalesce_object_changes (concat (map payload_objects payloads)))
      | PaintFamily \<Rightarrow> Inr (LandCoverPaint (concat (map payload_patches payloads)))
      | ForcingFamily \<Rightarrow> map_sum id ForcingChanges (coalesce_forcing (concat (map payload_changes payloads)))
      | ParameterFamily \<Rightarrow> map_sum id ParameterChanges (coalesce_parameters (concat (map payload_parameters payloads)))
      | SelectionFamily \<Rightarrow> Inr (OutputSelection (before_layers (hd payloads)) (after_layers (last payloads)))
      | BaseFamily \<Rightarrow> Inl (SourceDeltaError ''no coalescing rule''))"

definition coalesce_source_deltas :: "source_delta list \<Rightarrow> edit_exc + source_delta" where
  "coalesce_source_deltas deltas =
     (case deltas of
        [] \<Rightarrow> Inl (SourceDeltaError ''deltas must be non-empty'')
      | first # _ \<Rightarrow>
          bind_exc (traverse (\<lambda>d.
              if family_of (sd_payload d) \<noteq> family_of (sd_payload first) then Inl (SourceDeltaError ''different families'')
              else if sd_source_node_id d \<noteq> sd_source_node_id first then Inl (SourceDeltaError ''different source nodes'')
              else if sd_adapter_id d \<noteq> sd_adapter_id first then Inl (SourceDeltaError ''different adapters'')
              else Inr ()) deltas) (\<lambda>_.
          bind_exc (coalesce_payloads (map sd_payload deltas)) (\<lambda>p.
            Inr \<lparr>sd_source_node_id = sd_source_node_id first, sd_adapter_id = sd_adapter_id first, sd_payload = p\<rparr>)))"

end
