(* ===== verification/Adapter_Registry.thy ===== *)
theory Adapter_Registry
  imports Edit_Graph Source_Deltas
begin

text \<open>
  The adapter registry of the editing engine, \<open>incremental/edit_registry.py\<close>: the declared vocabularies,
  the metadata of an adapter with the checks of its constructor, registration with its rulings, look-up,
  and the validation of edit states and deltas. A frozen set is a set. An adapter is known to the
  registry by its id and its metadata attribute; its methods are not called here.
\<close>

section \<open>Vocabularies\<close>

definition REGISTRY_SCHEMA_VERSION :: int where "REGISTRY_SCHEMA_VERSION = 1"

datatype adapter_status = NativeInput | AdapterRequired | FullOnlyInitially | ScientificExtension | ViewOnly

definition LANDCOVER_SOURCE_NODE :: string where "LANDCOVER_SOURCE_NODE = ''landcover''"
definition LANDCOVER_VALID_CLASSES :: "int set" where "LANDCOVER_VALID_CLASSES = {1, 2, 5, 6}"
definition LANDCOVER_FENCED_CLASSES :: "int set" where "LANDCOVER_FENCED_CLASSES = {7}"
definition VEGETATION_SOURCE_NODE :: string where "VEGETATION_SOURCE_NODE = ''vegetation_dsm''"
definition VEGETATION_REJECTED_PROPERTIES :: "string set" where "VEGETATION_REJECTED_PROPERTIES = {''transmissivity''}"
definition MODEL_PARAMETERS_SOURCE_NODE :: string where "MODEL_PARAMETERS_SOURCE_NODE = ''model_parameters''"
definition MODEL_PARAMETERS_SAFE :: "string set" where
  "MODEL_PARAMETERS_SAFE = {''albedo_b'', ''ewall'', ''absK'', ''absL'', ''Fside'', ''Fup'', ''Fcyl'', ''cyl'', ''height'',
     ''transVeg'', ''firstdayleaf'', ''lastdayleaf'', ''elvis'', ''anisotropic_sky''}"
definition MODEL_PARAMETERS_BLOCKED :: "string set" where
  "MODEL_PARAMETERS_BLOCKED = {''patch_option'', ''scale'', ''location'', ''utc'', ''walllimit'', ''onlyglobal'', ''albedo_g''}"
definition METEOROLOGY_SOURCE_NODE :: string where "METEOROLOGY_SOURCE_NODE = ''meteorology''"
definition METEOROLOGY_VARIABLES_SAFE :: "string set" where
  "METEOROLOGY_VARIABLES_SAFE = {''air_temperature'', ''humidity'', ''radiation'', ''wind_speed'', ''pressure'', ''uhii''}"
definition METEOROLOGY_VARIABLES_BLOCKED :: "string set" where
  "METEOROLOGY_VARIABLES_BLOCKED = {''year'', ''day_of_year'', ''hour'', ''minute'', ''diffuse_radiation'', ''direct_radiation'',
     ''wind_direction''}"
definition WIND_SOURCE_NODE :: string where "WIND_SOURCE_NODE = ''wind_coefficients''"
definition VIEW_SOURCE_NODE :: string where "VIEW_SOURCE_NODE = ''output_selection''"

definition MET_VARIABLE_AFFINITY :: "string dict" where
  "MET_VARIABLE_AFFINITY =
     [(''air_temperature'', ''radiation_affecting''), (''humidity'', ''radiation_affecting''), (''pressure'', ''radiation_affecting''),
      (''radiation'', ''radiation_affecting''), (''uhii'', ''utci_only''), (''wind_speed'', ''utci_only'')]"

definition MET_UTCI_ONLY_VARIABLES :: "string set" where
  "MET_UTCI_ONLY_VARIABLES = fst ` {kv \<in> set MET_VARIABLE_AFFINITY. snd kv = ''utci_only''}"

definition MODEL_PARAMETERS_AFFINITY :: "string dict" where
  "MODEL_PARAMETERS_AFFINITY = map (\<lambda>p. (p, ''radiation_affecting'')) (sorted_list_of_set MODEL_PARAMETERS_SAFE)"

section \<open>Errors\<close>

datatype schema_cause =
    RejectedProperties "string list"
  | BlockedParameters "string set"
  | UnknownParameters "string set"
  | WaterClass
  | InvalidClasses "json list"
  | ValuesNotMapping
  | BlockedVariables "string set"
  | UnknownVariables "string set"
  | UnproducibleLayers "string list"

datatype registry_error =
    BadMetadata string
  | AffinityDrift "string set"
  | UnknownAffinity "(string \<times> string) list"
  | MissingEvidence
  | NotMetadata
  | IdMismatch
  | ConflictingMetadata string
  | UnresolvedNode string
  | ClassesUndeclared
  | ClassesFenced
  | ClassesInvalid "int set"
  | TransmissivityNotRejected
  | BlockedMissing "string set"
  | SafeMissing "string set"
  | WindNotExtension
  | SelectionNotViewOnly
  | ViewWithoutSelection
  | UnknownAdapter string
  | NoImplementation string
  | UnsupportedOperation string string
  | AdapterSchemaError schema_cause

section \<open>The affinity tables\<close>

text \<open>The evidence texts are read for their keys only.\<close>

definition validate_affinity :: "string set \<Rightarrow> string set \<Rightarrow> string dict \<Rightarrow> string set \<Rightarrow> registry_error + unit" where
  "validate_affinity safe allowed affinity evidence =
     (let keys = set (dict_keys affinity); unknown = filter (\<lambda>kv. snd kv \<notin> allowed) affinity
      in if keys \<noteq> safe then Inl (AffinityDrift (keys - safe \<union> (safe - keys)))
         else if unknown \<noteq> [] then Inl (UnknownAffinity (sorted_items unknown))
         else if evidence \<noteq> keys then Inl MissingEvidence else Inr ())"

definition validate_met_affinity :: "string dict \<Rightarrow> string set \<Rightarrow> registry_error + unit" where
  "validate_met_affinity = validate_affinity METEOROLOGY_VARIABLES_SAFE {''utci_only'', ''radiation_affecting''}"

definition validate_model_parameter_affinity :: "string dict \<Rightarrow> string set \<Rightarrow> registry_error + unit" where
  "validate_model_parameter_affinity = validate_affinity MODEL_PARAMETERS_SAFE {''radiation_affecting''}"

section \<open>Metadata\<close>

record adapter_metadata =
  am_id :: string
  am_group :: string
  am_status :: adapter_status
  am_source_nodes :: "string list"
  am_operations :: "string list"
  am_nominal_spatial_scope :: string
  am_temporal_scope :: string
  am_preview :: string
  am_validation_fixtures :: "string list"
  am_notes :: string
  am_valid_classes :: "int set"
  am_parameters_safe :: "string set"
  am_parameters_blocked :: "string set"
  am_producible_incremental :: "string list"
  am_rejected_properties :: "string set"

definition check_adapter_metadata :: "adapter_metadata \<Rightarrow> registry_error + adapter_metadata" where
  "check_adapter_metadata m =
     (if [] \<in> {am_id m, am_group m, am_nominal_spatial_scope m, am_temporal_scope m, am_preview m}
      then Inl (BadMetadata ''must be a non-empty string'')
      else if am_source_nodes m = [] \<or> [] \<in> set (am_source_nodes m) then Inl (BadMetadata ''source_nodes must be non-empty node ids'')
      else if am_operations m = [] \<or> [] \<in> set (am_operations m) then Inl (BadMetadata ''operations must be non-empty strings'')
      else if \<exists>c\<in>am_valid_classes m. c < 0 then Inl (BadMetadata ''valid_classes must be non-negative integers'')
      else if am_parameters_safe m \<inter> am_parameters_blocked m \<noteq> {} then Inl (BadMetadata ''parameters_safe and parameters_blocked overlap'')
      else Inr m)"

definition is_view_only :: "adapter_metadata \<Rightarrow> bool" where
  "is_view_only m \<longleftrightarrow> am_status m = ViewOnly"

definition is_full_spatial :: "adapter_metadata \<Rightarrow> bool" where
  "is_full_spatial m \<longleftrightarrow> take 4 (am_nominal_spatial_scope m) = ''full''"

definition allows_operation :: "adapter_metadata \<Rightarrow> string \<Rightarrow> bool" where
  "allows_operation m operation \<longleftrightarrow> operation \<in> set (am_operations m)"

section \<open>The registry\<close>

record edit_adapter =
  ea_adapter_id :: "string option"
  ea_metadata :: "adapter_metadata option"

record adapter_registry =
  ar_graph :: edit_graph
  ar_metadata :: "adapter_metadata dict"
  ar_adapters :: "edit_adapter dict"

definition new_registry :: "edit_graph \<Rightarrow> adapter_registry" where
  "new_registry g = \<lparr>ar_graph = g, ar_metadata = [], ar_adapters = []\<rparr>"

definition validate_landcover :: "adapter_metadata \<Rightarrow> registry_error + unit" where
  "validate_landcover m =
     (if LANDCOVER_SOURCE_NODE \<notin> set (am_source_nodes m) then Inr ()
      else if am_valid_classes m = {} then Inl ClassesUndeclared
      else if am_valid_classes m \<inter> LANDCOVER_FENCED_CLASSES \<noteq> {} then Inl ClassesFenced
      else if am_valid_classes m - LANDCOVER_VALID_CLASSES \<noteq> {} then Inl (ClassesInvalid (am_valid_classes m - LANDCOVER_VALID_CLASSES))
      else Inr ())"

definition validate_parameters :: "adapter_metadata \<Rightarrow> registry_error + unit" where
  "validate_parameters m =
     (if MODEL_PARAMETERS_SOURCE_NODE \<notin> set (am_source_nodes m) then Inr ()
      else if MODEL_PARAMETERS_BLOCKED - am_parameters_blocked m \<noteq> {} then Inl (BlockedMissing (MODEL_PARAMETERS_BLOCKED - am_parameters_blocked m))
      else if MODEL_PARAMETERS_SAFE - am_parameters_safe m \<noteq> {} then Inl (SafeMissing (MODEL_PARAMETERS_SAFE - am_parameters_safe m))
      else Inr ())"

definition validate_metadata :: "adapter_registry \<Rightarrow> adapter_metadata \<Rightarrow> registry_error + unit" where
  "validate_metadata r m =
     (let sources = set (am_source_nodes m) in
      if \<exists>existing\<in>set_option (map_of (ar_metadata r) (am_id m)). existing \<noteq> m then Inl (ConflictingMetadata (am_id m))
      else case filter (\<lambda>n. \<not> graph_contains (ar_graph r) n) (am_source_nodes m) of
        n # _ \<Rightarrow> Inl (UnresolvedNode n)
      | [] \<Rightarrow>
          bind_exc (validate_landcover m) (\<lambda>_.
            if VEGETATION_SOURCE_NODE \<in> sources \<and> am_status m \<noteq> ScientificExtension \<and>
               am_rejected_properties m \<inter> VEGETATION_REJECTED_PROPERTIES \<noteq> VEGETATION_REJECTED_PROPERTIES
            then Inl TransmissivityNotRejected
            else bind_exc (validate_parameters m) (\<lambda>_.
              if WIND_SOURCE_NODE \<in> sources \<and> am_status m \<noteq> ScientificExtension then Inl WindNotExtension
              else if VIEW_SOURCE_NODE \<in> sources \<and> am_status m \<noteq> ViewOnly then Inl SelectionNotViewOnly
              else if am_status m = ViewOnly \<and> VIEW_SOURCE_NODE \<notin> sources then Inl ViewWithoutSelection
              else Inr ())))"

definition register_metadata :: "adapter_registry \<Rightarrow> adapter_metadata \<Rightarrow> registry_error + adapter_registry" where
  "register_metadata r m =
     bind_exc (validate_metadata r m) (\<lambda>_. Inr (r\<lparr>ar_metadata := AList.update (am_id m) m (ar_metadata r)\<rparr>))"

definition register_adapter ::
  "adapter_registry \<Rightarrow> edit_adapter \<Rightarrow> adapter_metadata option \<Rightarrow> registry_error + adapter_registry" where
  "register_adapter r adapter metadata =
     (case (case metadata of Some m \<Rightarrow> Some m | None \<Rightarrow> ea_metadata adapter) of
        None \<Rightarrow> Inl NotMetadata
      | Some m \<Rightarrow>
          if ea_adapter_id adapter \<noteq> Some (am_id m) then Inl IdMismatch
          else bind_exc (validate_metadata r m) (\<lambda>_.
            Inr (r\<lparr>ar_metadata := AList.update (am_id m) m (ar_metadata r),
                   ar_adapters := AList.update (am_id m) adapter (ar_adapters r)\<rparr>)))"

definition get_metadata :: "adapter_registry \<Rightarrow> string \<Rightarrow> registry_error + adapter_metadata" where
  "get_metadata r i = (case map_of (ar_metadata r) i of None \<Rightarrow> Inl (UnknownAdapter i) | Some m \<Rightarrow> Inr m)"

definition get_adapter :: "adapter_registry \<Rightarrow> string \<Rightarrow> registry_error + edit_adapter" where
  "get_adapter r i =
     bind_exc (get_metadata r i) (\<lambda>_. case map_of (ar_adapters r) i of None \<Rightarrow> Inl (NoImplementation i) | Some a \<Rightarrow> Inr a)"

definition adapter_ids :: "adapter_registry \<Rightarrow> string list" where
  "adapter_ids r = sort (dict_keys (ar_metadata r))"

definition all_metadata :: "adapter_registry \<Rightarrow> adapter_metadata list" where
  "all_metadata r = map (\<lambda>i. the (map_of (ar_metadata r) i)) (adapter_ids r)"

definition validate_operation :: "adapter_registry \<Rightarrow> string \<Rightarrow> string \<Rightarrow> registry_error + unit" where
  "validate_operation r i operation =
     bind_exc (get_metadata r i) (\<lambda>m. if allows_operation m operation then Inr () else Inl (UnsupportedOperation i operation))"

section \<open>Validation of states and deltas\<close>

text \<open>\<open>str.lower\<close> on the code points below 256.\<close>

definition lower_latin :: "char \<Rightarrow> char" where
  "lower_latin c =
     (let n = of_char c :: nat in if 65 \<le> n \<and> n \<le> 90 \<or> 192 \<le> n \<and> n \<le> 222 \<and> n \<noteq> 215 then char_of (n + 32) else c)"

definition lower :: "string \<Rightarrow> string" where
  "lower = map lower_latin"

text \<open>The codes of a paint state: the elements of a sequence, otherwise the value itself.\<close>

fun class_codes :: "json \<Rightarrow> json list" where
  "class_codes (JArr codes) = codes"
| "class_codes code = [code]"

definition valid_code :: "int set \<Rightarrow> json \<Rightarrow> bool" where
  "valid_code classes code \<longleftrightarrow> (case code of JInt c \<Rightarrow> c \<in> classes | _ \<Rightarrow> False)"

definition check_classes :: "adapter_metadata \<Rightarrow> json dict \<Rightarrow> registry_error + unit" where
  "check_classes m state =
     (case map_of state ''classes'' of
        None \<Rightarrow> Inr ()
      | Some JNull \<Rightarrow> Inr ()
      | Some classes \<Rightarrow>
          if \<exists>code\<in>set (class_codes classes). \<exists>c\<in>LANDCOVER_FENCED_CLASSES. py_eq code (JInt c) then Inl (AdapterSchemaError WaterClass)
          else case filter (\<lambda>code. \<not> valid_code (am_valid_classes m) code) (class_codes classes) of
                 [] \<Rightarrow> Inr ()
               | invalid \<Rightarrow> Inl (AdapterSchemaError (InvalidClasses invalid)))"

definition check_variables :: "string set \<Rightarrow> registry_error + unit" where
  "check_variables names =
     (if names \<inter> METEOROLOGY_VARIABLES_BLOCKED \<noteq> {} then Inl (AdapterSchemaError (BlockedVariables (names \<inter> METEOROLOGY_VARIABLES_BLOCKED)))
      else if names - METEOROLOGY_VARIABLES_SAFE \<noteq> {} then Inl (AdapterSchemaError (UnknownVariables (names - METEOROLOGY_VARIABLES_SAFE)))
      else Inr ())"

definition check_forcing_values :: "json dict \<Rightarrow> registry_error + unit" where
  "check_forcing_values state =
     (case map_of state ''values'' of
        None \<Rightarrow> Inr ()
      | Some JNull \<Rightarrow> Inr ()
      | Some (JObj vals) \<Rightarrow> check_variables (set (dict_keys vals))
      | Some _ \<Rightarrow> Inl (AdapterSchemaError ValuesNotMapping))"

definition check_parameters :: "adapter_metadata \<Rightarrow> json dict \<Rightarrow> registry_error + unit" where
  "check_parameters m state =
     (let keys = set (dict_keys state) in
      if keys \<inter> am_parameters_blocked m \<noteq> {} then Inl (AdapterSchemaError (BlockedParameters (keys \<inter> am_parameters_blocked m)))
      else if keys - am_parameters_safe m \<noteq> {} then Inl (AdapterSchemaError (UnknownParameters (keys - am_parameters_safe m)))
      else Inr ())"

definition validate_edit_state :: "adapter_registry \<Rightarrow> string \<Rightarrow> json dict \<Rightarrow> registry_error + unit" where
  "validate_edit_state r i state =
     bind_exc (get_metadata r i) (\<lambda>m.
       case sort (filter (\<lambda>k. lower k \<in> lower ` am_rejected_properties m) (dict_keys state)) of
         rejected # more_rejected \<Rightarrow> Inl (AdapterSchemaError (RejectedProperties (rejected # more_rejected)))
       | [] \<Rightarrow>
           bind_exc (if MODEL_PARAMETERS_SOURCE_NODE \<in> set (am_source_nodes m) then check_parameters m state else Inr ()) (\<lambda>_.
           bind_exc (if LANDCOVER_SOURCE_NODE \<in> set (am_source_nodes m) then check_classes m state else Inr ()) (\<lambda>_.
             if METEOROLOGY_SOURCE_NODE \<in> set (am_source_nodes m) then check_forcing_values state else Inr ())))"

definition check_painted :: "adapter_metadata \<Rightarrow> paint_patch \<Rightarrow> registry_error + unit" where
  "check_painted m p =
     (let painted = filter (\<lambda>c. 0 \<le> c) (pp_after_classes p) in
      if \<exists>c\<in>set painted. c \<in> LANDCOVER_FENCED_CLASSES then Inl (AdapterSchemaError WaterClass)
      else case filter (\<lambda>c. c \<notin> am_valid_classes m) painted of
             [] \<Rightarrow> Inr ()
           | invalid \<Rightarrow> Inl (AdapterSchemaError (InvalidClasses (map JInt (sort (remdups invalid))))))"

definition validate_object :: "adapter_registry \<Rightarrow> string \<Rightarrow> object_change \<Rightarrow> registry_error + unit list" where
  "validate_object r i c =
     traverse (\<lambda>state. case state of None \<Rightarrow> Inr () | Some d \<Rightarrow> validate_edit_state r i d) [oc_before c, oc_after c]"

definition validate_delta :: "adapter_registry \<Rightarrow> string \<Rightarrow> source_delta \<Rightarrow> registry_error + unit" where
  "validate_delta r i d =
     bind_exc (get_metadata r i) (\<lambda>m.
       case sd_payload d of
         VegetationObjects objects _ \<Rightarrow> map_sum id (\<lambda>_. ()) (traverse (validate_object r i) objects)
       | BuildingMassing objects _ \<Rightarrow> map_sum id (\<lambda>_. ()) (traverse (validate_object r i) objects)
       | LandCoverPaint patches \<Rightarrow> map_sum id (\<lambda>_. ()) (traverse (check_painted m) patches)
       | ParameterChanges parameters \<Rightarrow>
           map_sum id (\<lambda>_. ()) (traverse (\<lambda>c. validate_edit_state r i [(pc_name c, pc_after_value c)]) parameters)
       | OutputSelection _ after \<Rightarrow>
           if am_producible_incremental m = [] then Inr ()
           else (case filter (\<lambda>layer. layer \<notin> set (am_producible_incremental m)) after of
                   [] \<Rightarrow> Inr ()
                 | bad \<Rightarrow> Inl (AdapterSchemaError (UnproducibleLayers (sort bad))))
       | ForcingChanges changes \<Rightarrow>
           if METEOROLOGY_SOURCE_NODE \<in> set (am_source_nodes m) then check_variables (fc_variable ` set changes) else Inr ()
       | NoPayload \<Rightarrow> Inr ())"

section \<open>The built-in entries\<close>

text \<open>The two notes are free text and stay arguments.\<close>

definition BUILTIN_ADAPTER_METADATA :: "string \<Rightarrow> string \<Rightarrow> adapter_metadata list" where
  "BUILTIN_ADAPTER_METADATA vegetation_notes dynamic_wind_notes =
     [\<lparr>am_id = ''vegetation_geometry'', am_group = ''geometry'', am_status = AdapterRequired,
       am_source_nodes = [''vegetation_dsm''], am_operations = [''add'', ''move'', ''update'', ''delete''],
       am_nominal_spatial_scope = ''directional_windows'', am_temporal_scope = ''replay_if_stateful'', am_preview = ''vegetation_geometry_and_shadow'',
       am_validation_fixtures = [''isolated'', ''overlap'', ''low_sun'', ''boundary'', ''delete''], am_notes = vegetation_notes,
       am_valid_classes = {}, am_parameters_safe = {}, am_parameters_blocked = {},
       am_producible_incremental = [], am_rejected_properties = {''transmissivity''}\<rparr>,
      \<lparr>am_id = ''building_geometry'', am_group = ''geometry'', am_status = FullOnlyInitially,
       am_source_nodes = [''building_dsm''], am_operations = [''add'', ''move'', ''update'', ''delete'', ''raster_patch''],
       am_nominal_spatial_scope = ''conservative_windows_or_full'', am_temporal_scope = ''replay'', am_preview = ''massing_and_shadow'',
       am_validation_fixtures = [''height'', ''footprint'', ''wall_aspect'', ''low_sun'', ''boundary''], am_notes = [],
       am_valid_classes = {}, am_parameters_safe = {}, am_parameters_blocked = {},
       am_producible_incremental = [], am_rejected_properties = {}\<rparr>,
      \<lparr>am_id = ''terrain_dem'', am_group = ''geometry'', am_status = FullOnlyInitially,
       am_source_nodes = [''dem''], am_operations = [''raster_patch'', ''sculpt'', ''reset''],
       am_nominal_spatial_scope = ''full'', am_temporal_scope = ''replay'', am_preview = ''terrain_mesh'',
       am_validation_fixtures = [''grading'', ''relative_height'', ''boundary''], am_notes = [],
       am_valid_classes = {}, am_parameters_safe = {}, am_parameters_blocked = {},
       am_producible_incremental = [], am_rejected_properties = {}\<rparr>,
      \<lparr>am_id = ''landcover_surface'', am_group = ''surface'', am_status = AdapterRequired,
       am_source_nodes = [''landcover''], am_operations = [''paint'', ''polygon_assign'', ''reset''],
       am_nominal_spatial_scope = ''windows'', am_temporal_scope = ''replay_if_stateful'', am_preview = ''surface_material'',
       am_validation_fixtures = [''class_replace'', ''mixed_mask'', ''reset''], am_notes = [],
       am_valid_classes = {1, 2, 5, 6}, am_parameters_safe = {}, am_parameters_blocked = {},
       am_producible_incremental = [], am_rejected_properties = {}\<rparr>,
      \<lparr>am_id = ''meteorological_forcing'', am_group = ''environment'', am_status = AdapterRequired,
       am_source_nodes = [''meteorology''], am_operations = [''update_time_row'', ''update_range'', ''preset'', ''reset''],
       am_nominal_spatial_scope = ''full_downstream_only'', am_temporal_scope = ''changed_and_dependent_times'', am_preview = ''environment_status'',
       am_validation_fixtures = [''air_temperature'', ''humidity'', ''radiation'', ''wind_speed_direction''], am_notes = [],
       am_valid_classes = {}, am_parameters_safe = {}, am_parameters_blocked = {},
       am_producible_incremental = [], am_rejected_properties = {}\<rparr>,
      \<lparr>am_id = ''selected_date_time'', am_group = ''environment'', am_status = AdapterRequired,
       am_source_nodes = [''selected_date_time''], am_operations = [''select''],
       am_nominal_spatial_scope = ''full_downstream_only'', am_temporal_scope = ''selected_or_replay'', am_preview = ''solar_time_and_shadow'',
       am_validation_fixtures = [''morning'', ''noon'', ''low_sun'', ''date_change''], am_notes = [],
       am_valid_classes = {}, am_parameters_safe = {}, am_parameters_blocked = {},
       am_producible_incremental = [], am_rejected_properties = {}\<rparr>,
      \<lparr>am_id = ''model_receptor_parameters'', am_group = ''advanced'', am_status = AdapterRequired,
       am_source_nodes = [''model_parameters''], am_operations = [''update'', ''reset''],
       am_nominal_spatial_scope = ''full_downstream_stage_specific'', am_temporal_scope = ''affected_times'', am_preview = ''parameter_scope_disclosure'',
       am_validation_fixtures = [''baseline_restore'', ''lower_bound'', ''upper_bound''], am_notes = [],
       am_valid_classes = {}, am_parameters_safe = MODEL_PARAMETERS_SAFE, am_parameters_blocked = MODEL_PARAMETERS_BLOCKED,
       am_producible_incremental = [], am_rejected_properties = {}\<rparr>,
      \<lparr>am_id = ''dynamic_wind_from_geometry'', am_group = ''environment'', am_status = ScientificExtension,
       am_source_nodes = [''building_dsm'', ''vegetation_dsm''], am_operations = [''rebuild''],
       am_nominal_spatial_scope = ''full'', am_temporal_scope = ''all'', am_preview = ''unsupported_disclosure'',
       am_validation_fixtures = [], am_notes = dynamic_wind_notes,
       am_valid_classes = {}, am_parameters_safe = {}, am_parameters_blocked = {},
       am_producible_incremental = [], am_rejected_properties = {}\<rparr>,
      \<lparr>am_id = ''output_view'', am_group = ''analysis'', am_status = ViewOnly,
       am_source_nodes = [''output_selection''], am_operations = [''select_layer'', ''compare'', ''legend'', ''cached_time''],
       am_nominal_spatial_scope = ''none'', am_temporal_scope = ''none'', am_preview = ''immediate'',
       am_validation_fixtures = [''zero_solver_job''], am_notes = [],
       am_valid_classes = {}, am_parameters_safe = {}, am_parameters_blocked = {},
       am_producible_incremental = [''utci'', ''tmrt'', ''shadow'', ''kup'', ''kdown'', ''lup'', ''ldown'', ''ta'', ''wind''], am_rejected_properties = {}\<rparr>]"

definition builtin_registry :: "string \<Rightarrow> string \<Rightarrow> edit_graph \<Rightarrow> registry_error + adapter_registry" where
  "builtin_registry vegetation_notes dynamic_wind_notes g =
     fold_exc register_metadata (new_registry g) (BUILTIN_ADAPTER_METADATA vegetation_notes dynamic_wind_notes)"

end
