(* ===== verification/Edit_Planner.thy ===== *)
theory Edit_Planner
  imports Adapter_Registry
begin

text \<open>
  The planner of the editing engine, \<open>incremental/planner.py\<close>: the fences on a batch, the coalescing
  per source and adapter, the spatial and temporal scope of every dirty node in topological order, the narrowed plan of a
  comfort-only forcing batch, the cost estimates and the transport window. Reasons are their causes in
  the order they are recorded. Work units are exact rational numbers. Whether the scene state carries the planner's
  own graph object is an argument.
\<close>

section \<open>Errors\<close>

datatype plan_cause =
    EmptyBatch
  | MixedScenarios "string list"
  | OtherGraph
  | StaleRevision string int
  | GridMismatch
  | StaleContext int
  | WindRasters
  | NoAvailableTimes
  | TimesOutOfSeries "int list"
  | RegistryFailure registry_error
  | NotOwner string string
  | SourceNotInGraph string
  | WrongFamily string
  | WindFenced
  | ExtensionFenced string
  | NeverPlannedRequested "string list"
  | UnknownOutputs "string list"
  | NoCost string
  | BadSteps

datatype plan_error =
    PlanningError plan_cause
  | EditFailure edit_exc
  | GraphFailure graph_error
  | RegistryError registry_error
  | WindowFailure py_error
  | PythonFailure py_error
  | AssertionFailure

abbreviation raised :: "('e \<Rightarrow> plan_error) \<Rightarrow> 'e + 'a \<Rightarrow> plan_error + 'a" where
  "raised f \<equiv> map_sum f id"

abbreviation registry_checked :: "registry_error + 'a \<Rightarrow> plan_error + 'a" where
  "registry_checked \<equiv> raised (\<lambda>e. PlanningError (RegistryFailure e))"

section \<open>Requested times\<close>

definition requested_times_of :: "validated_edit list \<Rightarrow> int list" where
  "requested_times_of edits =
     sort (remdups (concat (map (\<lambda>e. case ec_requested_times (ve_command e) of None \<Rightarrow> [] | Some ts \<Rightarrow> ts) edits)))"

definition fence_requested_times :: "validated_edit list \<Rightarrow> int list \<Rightarrow> plan_error + int list" where
  "fence_requested_times edits available_times =
     (if available_times = [] then Inl (PlanningError NoAvailableTimes)
      else case filter (\<lambda>t. t \<notin> set available_times) (requested_times_of edits) of
             [] \<Rightarrow> Inr (requested_times_of edits)
           | out_of_series \<Rightarrow> Inl (PlanningError (TimesOutOfSeries out_of_series)))"

section \<open>The safety policy\<close>

text \<open>A policy answers for a node, its windows and its dirty fraction; the attribute \<open>full_only_nodes\<close> is
  not part of the protocol, so a policy may lack it.\<close>

record safety_policy =
  po_allows_local :: "string \<Rightarrow> raster_window list \<Rightarrow> rat \<Rightarrow> bool"
  po_full_only_nodes :: "string set option"

definition conservative_allows :: "rat \<Rightarrow> string set \<Rightarrow> string \<Rightarrow> raster_window list \<Rightarrow> rat \<Rightarrow> bool" where
  "conservative_allows fraction full_only n windows dirty_fraction \<longleftrightarrow> n \<notin> full_only \<and> windows \<noteq> [] \<and> dirty_fraction < fraction"

definition conservative_policy :: "rat \<Rightarrow> string set \<Rightarrow> py_error + safety_policy" where
  "conservative_policy fraction full_only =
     (if \<not> (0 < fraction \<and> fraction \<le> 1) then Inl (ValueError ''full_recompute_fraction must be in (0, 1]'')
      else Inr \<lparr>po_allows_local = conservative_allows fraction full_only, po_full_only_nodes = Some full_only\<rparr>)"

section \<open>Constants\<close>

record node_execution_cost =
  nc_float32_layers_per_step :: int
  nc_relative_work :: rat

abbreviation cost :: "int \<Rightarrow> rat \<Rightarrow> node_execution_cost" where
  "cost layers work \<equiv> \<lparr>nc_float32_layers_per_step = layers, nc_relative_work = work\<rparr>"

definition NODE_EXECUTION_COSTS :: "node_execution_cost dict" where
  "NODE_EXECUTION_COSTS =
     [(''relative_geometry'', cost 2 1), (''walls'', cost 1 1), (''wall_aspect'', cost 1 1), (''building_visibility'', cost 8 4),
      (''vegetation_visibility'', cost 8 4), (''svf'', cost 2 2), (''solar_atmospheric_state'', cost 1 (1 / 2)),
      (''time_shadow'', cost 1 3), (''radiation'', cost 4 6), (''surface_thermal_state'', cost 1 2), (''tmrt'', cost 1 1),
      (''utci'', cost 1 (1 / 2)), (''wbgt'', cost 1 (1 / 2))]"

definition TIME_VARYING_NODES :: "string set" where
  "TIME_VARYING_NODES =
     {''solar_atmospheric_state'', ''time_shadow'', ''radiation'', ''surface_thermal_state'', ''tmrt'', ''utci'', ''wbgt''}"

definition STATEFUL_NODES :: "string set" where "STATEFUL_NODES = {''surface_thermal_state''}"
definition NEVER_PLANNED_OUTPUTS :: "string list" where "NEVER_PLANNED_OUTPUTS = [''wbgt'']"
definition FORCING_SOURCE_NODES :: "string set" where "FORCING_SOURCE_NODES = {''meteorology'', ''selected_date_time''}"

definition SOURCE_DELTA_FAMILY :: "family dict" where
  "SOURCE_DELTA_FAMILY =
     [(''vegetation_dsm'', VegetationFamily), (''building_dsm'', BuildingFamily), (''landcover'', PaintFamily),
      (''meteorology'', ForcingFamily), (''selected_date_time'', ForcingFamily), (''model_parameters'', ParameterFamily),
      (''output_selection'', SelectionFamily)]"

definition BYTES_PER_LAYER_ELEMENT :: int where "BYTES_PER_LAYER_ELEMENT = 4"
definition WORK_UNIT_PIXEL_STEPS :: rat where "WORK_UNIT_PIXEL_STEPS = 100000"

section \<open>The planner\<close>

record node_scope =
  ns_spatial_scope :: spatial_scope
  ns_windows :: "raster_window list"

record edit_planner =
  ep_grid :: raster_grid
  ep_graph :: edit_graph
  ep_registry :: adapter_registry
  ep_policy :: safety_policy
  ep_allow_wind_extension :: bool
  ep_default_temporal_steps :: int

definition mk_edit_planner ::
  "raster_grid \<Rightarrow> edit_graph \<Rightarrow> adapter_registry \<Rightarrow> safety_policy \<Rightarrow> bool \<Rightarrow> int \<Rightarrow> plan_error + edit_planner" where
  "mk_edit_planner grid graph registry policy allow_wind steps =
     (if steps < 1 then Inl (PlanningError BadSteps)
      else Inr \<lparr>ep_grid = grid, ep_graph = graph, ep_registry = registry, ep_policy = policy,
                ep_allow_wind_extension = allow_wind, ep_default_temporal_steps = steps\<rparr>)"

subsection \<open>Fences\<close>

definition check_batch_invariants :: "bool \<Rightarrow> validated_edit list \<Rightarrow> scene_graph_state \<Rightarrow> plan_error + unit" where
  "check_batch_invariants same_graph edits s =
     (let scenarios = remdups (map (\<lambda>e. ec_scenario_id (ve_command e)) edits) in
      if length scenarios \<noteq> 1 then Inl (PlanningError (MixedScenarios (sort scenarios)))
      else if \<not> same_graph then Inl (PlanningError OtherGraph)
      else case filter (\<lambda>e. ec_base_scene_revision (ve_command e) \<noteq> sg_scene_revision s) edits of
             e # _ \<Rightarrow> Inl (PlanningError (StaleRevision (ec_edit_id (ve_command e)) (ec_base_scene_revision (ve_command e))))
           | [] \<Rightarrow> Inr ())"

definition check_context :: "edit_planner \<Rightarrow> validated_edit list \<Rightarrow> scene_graph_state \<Rightarrow> site_context option \<Rightarrow> plan_error + unit" where
  "check_context p edits s context =
     (case context of
        None \<Rightarrow> Inr ()
      | Some c \<Rightarrow>
          if rg_rows (cx_grid c) \<noteq> rg_rows (ep_grid p) \<or> rg_cols (cx_grid c) \<noteq> rg_cols (ep_grid p) \<or>
             rg_pixel_size_m (cx_grid c) \<noteq> rg_pixel_size_m (ep_grid p)
          then Inl (PlanningError GridMismatch)
          else if cx_scene_revision c \<noteq> sg_scene_revision s then Inl (PlanningError (StaleContext (cx_scene_revision c)))
          else if cx_has_wind_coefficients c \<and> \<not> ep_allow_wind_extension p then Inl (PlanningError WindRasters)
          else if cx_available_times c \<noteq> [] then map_sum id (\<lambda>_. ()) (fence_requested_times edits (cx_available_times c))
          else Inr ())"

definition check_registry_fact :: "edit_planner \<Rightarrow> validated_edit \<Rightarrow> plan_error + unit" where
  "check_registry_fact p e =
     (let r = ep_registry p in
      bind_exc (registry_checked (get_metadata r (ve_adapter_id e))) (\<lambda>m.
      bind_exc (registry_checked (validate_operation r (ve_adapter_id e) (ec_operation (ve_command e)))) (\<lambda>_.
      bind_exc (registry_checked (traverse (\<lambda>state. case state of None \<Rightarrow> Inr () | Some d \<Rightarrow> validate_edit_state r (ve_adapter_id e) d)
                  [ec_old_state (ve_command e), ec_new_state (ve_command e)])) (\<lambda>_.
      bind_exc (registry_checked (validate_delta r (ve_adapter_id e) (ve_delta e))) (\<lambda>_.
        if ve_source_node_id e \<notin> set (am_source_nodes m) then Inl (PlanningError (NotOwner (ve_adapter_id e) (ve_source_node_id e)))
        else if \<not> graph_contains (ep_graph p) (ve_source_node_id e) then Inl (PlanningError (SourceNotInGraph (ve_source_node_id e)))
        else if \<exists>f\<in>set_option (map_of SOURCE_DELTA_FAMILY (ve_source_node_id e)). family_of (sd_payload (ve_delta e)) \<noteq> f
        then Inl (PlanningError (WrongFamily (ve_source_node_id e)))
        else Inr ())))))"

definition check_wind_fact :: "edit_planner \<Rightarrow> validated_edit \<Rightarrow> plan_error + unit" where
  "check_wind_fact p e =
     bind_exc (registry_checked (get_metadata (ep_registry p) (ve_adapter_id e))) (\<lambda>m.
       if ve_source_node_id e = WIND_SOURCE_NODE then Inl (PlanningError WindFenced)
       else if am_status m = ScientificExtension then Inl (PlanningError (ExtensionFenced (ve_adapter_id e)))
       else Inr ())"

definition check_wind_fence :: "edit_planner \<Rightarrow> validated_edit list \<Rightarrow> plan_error + unit" where
  "check_wind_fence p edits =
     (if ep_allow_wind_extension p then Inr () else map_sum id (\<lambda>_. ()) (traverse (check_wind_fact p) edits))"

subsection \<open>Changed sources\<close>

definition group_deltas :: "validated_edit list \<Rightarrow> ((string \<times> string) \<times> source_delta list) list" where
  "group_deltas edits = foldl (\<lambda>d e. dict_append d (ve_source_node_id e, ve_adapter_id e) (ve_delta e)) [] edits"

definition coalesce_group ::
  "source_delta list dict \<Rightarrow> (string \<times> string) \<times> source_delta list \<Rightarrow> plan_error + source_delta list dict" where
  "coalesce_group changed entry =
     bind_exc (raised EditFailure (coalesce_source_deltas (snd entry))) (\<lambda>d.
       Inr (if is_noop d then changed else dict_append changed (fst (fst entry)) d))"

definition changed_sources :: "validated_edit list \<Rightarrow> plan_error + source_delta list dict" where
  "changed_sources edits = fold_exc coalesce_group [] (sorted_items (group_deltas edits))"

text \<open>The nodes of a list that are views, or that are not, in order.\<close>

definition kinds_of :: "edit_graph \<Rightarrow> string list \<Rightarrow> plan_error + (string \<times> node_kind) list" where
  "kinds_of g ns = raised GraphFailure (traverse (\<lambda>n. map_sum id (\<lambda>k. (n, k)) (graph_kind g n)) ns)"

subsection \<open>Scopes\<close>

definition clamped_windows :: "raster_grid \<Rightarrow> source_delta list \<Rightarrow> py_error + raster_window list" where
  "clamped_windows grid deltas =
     map_sum id (filter (\<lambda>w. \<not> rw_is_empty w))
       (traverse (\<lambda>w. rw_clamp w (rg_rows grid) (rg_cols grid)) (concat (map spatial_windows deltas)))"

definition resolve_source_scope ::
  "edit_planner \<Rightarrow> string \<Rightarrow> source_delta list \<Rightarrow> plan_error + node_scope \<times> fallback_reason list" where
  "resolve_source_scope p n deltas =
     bind_exc (raised RegistryError (traverse (\<lambda>d. get_metadata (ep_registry p) (sd_adapter_id d)) deltas)) (\<lambda>metadatas.
       if \<exists>m\<in>set metadatas. am_status m = FullOnlyInitially
       then Inr (\<lparr>ns_spatial_scope = ScopeFull, ns_windows = []\<rparr>, [FullOnlyAdapter n])
       else if \<exists>m\<in>set metadatas. is_full_spatial m
       then Inr (\<lparr>ns_spatial_scope = ScopeFull, ns_windows = []\<rparr>, [FullSpatialAdapter n])
       else bind_exc (raised WindowFailure (clamped_windows (ep_grid p) deltas)) (\<lambda>windows.
         if windows = [] then Inr (\<lparr>ns_spatial_scope = ScopeFull, ns_windows = []\<rparr>, [NoLocalWindows n])
         else bind_exc (raised WindowFailure (merge_windows windows 0)) (\<lambda>merged.
           Inr (\<lparr>ns_spatial_scope = ScopeWindows, ns_windows = merged\<rparr>, []))))"

text \<open>The scopes of the dirty parents of a node, in order; every one must have been resolved.\<close>

definition parent_scopes ::
  "edit_graph \<Rightarrow> string list \<Rightarrow> node_scope dict \<Rightarrow> string \<Rightarrow> plan_error + node_scope list" where
  "parent_scopes g dirty resolved n =
     bind_exc (raised GraphFailure (graph_parents g n)) (\<lambda>parents.
       traverse (\<lambda>q. case map_of resolved q of None \<Rightarrow> Inl (PythonFailure (KeyError q)) | Some s \<Rightarrow> Inr s)
         (sort (filter (\<lambda>q. q \<in> set dirty) parents)))"

definition resolve_derived_scope ::
  "edit_graph \<Rightarrow> string list \<Rightarrow> node_scope dict \<Rightarrow> string \<Rightarrow> plan_error + node_scope" where
  "resolve_derived_scope g dirty resolved n =
     bind_exc (parent_scopes g dirty resolved n) (\<lambda>scopes.
       if \<exists>s\<in>set scopes. ns_spatial_scope s = ScopeFull then Inr \<lparr>ns_spatial_scope = ScopeFull, ns_windows = []\<rparr>
       else let windows = concat (map ns_windows scopes) in
            bind_exc (if windows = [] then Inr [] else raised WindowFailure (merge_windows windows 0)) (\<lambda>merged.
              Inr (if merged = [] then \<lparr>ns_spatial_scope = ScopeFull, ns_windows = []\<rparr>
                   else \<lparr>ns_spatial_scope = ScopeWindows, ns_windows = merged\<rparr>)))"

definition bounds_scope :: "int list \<Rightarrow> temporal_scope \<times> int option \<times> int option" where
  "bounds_scope ts =
     (let start = Min (set ts); stop = Max (set ts)
      in if start = stop then (TimeOne, Some start, None) else (TimeRange, Some start, Some stop))"

definition temporal_scope_of :: "string \<Rightarrow> bool \<Rightarrow> int list \<Rightarrow> int list \<Rightarrow> temporal_scope \<times> int option \<times> int option" where
  "temporal_scope_of n is_forcing_driven requested_times explicit_times =
     (if n \<in> STATEFUL_NODES
      then (TimeReplay, Some 0,
            if explicit_times \<noteq> [] then Some (Max (set explicit_times))
            else if requested_times \<noteq> [] then Some (Max (set requested_times)) else None)
      else if n \<notin> TIME_VARYING_NODES then (TimeAll, None, None)
      else if is_forcing_driven \<and> explicit_times \<noteq> [] then bounds_scope explicit_times
      else if requested_times \<noteq> [] then bounds_scope requested_times
      else (TimeAll, None, None))"

definition windows_fraction :: "raster_grid \<Rightarrow> raster_window list \<Rightarrow> rat" where
  "windows_fraction grid windows = of_int (sum_list (map rw_area windows)) / of_int (area_pixels grid)"

definition policy_scope :: "edit_planner \<Rightarrow> string \<Rightarrow> node_scope \<Rightarrow> node_scope \<times> fallback_reason list" where
  "policy_scope p n s =
     (if ns_spatial_scope s = ScopeWindows \<and>
         \<not> po_allows_local (ep_policy p) n (ns_windows s) (windows_fraction (ep_grid p) (ns_windows s))
      then (\<lparr>ns_spatial_scope = ScopeFull, ns_windows = []\<rparr>, [DemotedByPolicy n])
      else (s, []))"

text \<open>The causes named in the reason of a node that is not windowed are looked up like the parents.\<close>

definition build_impact ::
  "edit_planner \<Rightarrow> string list \<Rightarrow> string list \<Rightarrow> int list \<Rightarrow> int list \<Rightarrow> node_scope dict \<Rightarrow> string \<Rightarrow> node_scope \<Rightarrow>
   plan_error + node_impact \<times> fallback_reason list" where
  "build_impact p dirty forcing_dirty requested_times explicit_times resolved n scope =
     bind_exc (raised GraphFailure (graph_parents (ep_graph p) n)) (\<lambda>_.
     bind_exc (if ns_spatial_scope scope = ScopeWindows then Inr [] else parent_scopes (ep_graph p) dirty resolved n) (\<lambda>_.
       case policy_scope p n scope of (s, reasons) \<Rightarrow>
         (case temporal_scope_of n (n \<in> set forcing_dirty) requested_times explicit_times of (t, start, stop) \<Rightarrow>
            bind_exc (raised EditFailure (check_node_impact
                \<lparr>ni_node_id = n, ni_spatial_scope = ns_spatial_scope s,
                 ni_read_windows = (if ns_spatial_scope s = ScopeWindows then ns_windows s else []),
                 ni_write_windows = ns_windows s, ni_temporal_scope = t, ni_time_start = start, ni_time_stop = stop\<rparr>)) (\<lambda>i.
              Inr (i, reasons)))))"

definition explicit_forcing_times :: "source_delta list dict \<Rightarrow> string list \<Rightarrow> int list" where
  "explicit_forcing_times changed sources =
     sort (remdups (concat (map (\<lambda>n. if n \<in> FORCING_SOURCE_NODES
        then concat (map (\<lambda>d. time_indices (payload_changes (sd_payload d))) (dict_get changed n [])) else []) sources)))"

subsection \<open>Estimates and transport\<close>

definition available_steps :: "site_context option \<Rightarrow> int" where
  "available_steps context = (case context of None \<Rightarrow> 0 | Some c \<Rightarrow> int (length (cx_available_times c)))"

definition unbounded_steps :: "edit_planner \<Rightarrow> int list \<Rightarrow> site_context option \<Rightarrow> int" where
  "unbounded_steps p requested_times context =
     max (max 1 (int (length requested_times))) (max (ep_default_temporal_steps p) (available_steps context))"

definition impact_steps :: "edit_planner \<Rightarrow> int list \<Rightarrow> site_context option \<Rightarrow> node_impact \<Rightarrow> plan_error + int" where
  "impact_steps p requested_times context i =
     (case ni_temporal_scope i of
        TimeOne \<Rightarrow> Inr 1
      | TimeRange \<Rightarrow> (case (ni_time_start i, ni_time_stop i) of (Some a, Some b) \<Rightarrow> Inr (b - a + 1) | _ \<Rightarrow> Inl AssertionFailure)
      | TimeReplay \<Rightarrow> Inr (case ni_time_stop i of Some b \<Rightarrow> b + 1 | None \<Rightarrow> unbounded_steps p requested_times context)
      | TimeAll \<Rightarrow> Inr (unbounded_steps p requested_times context))"

definition impact_pixels :: "edit_planner \<Rightarrow> node_impact \<Rightarrow> int" where
  "impact_pixels p i =
     (if ni_spatial_scope i = ScopeFull then area_pixels (ep_grid p) else sum_list (map rw_area (ni_write_windows i)))"

definition add_estimate ::
  "edit_planner \<Rightarrow> int list \<Rightarrow> site_context option \<Rightarrow> int \<times> rat \<Rightarrow> node_impact \<Rightarrow> plan_error + int \<times> rat" where
  "add_estimate p requested_times context st i =
     (if ni_spatial_scope i = ScopeNone then Inr st
      else case map_of NODE_EXECUTION_COSTS (ni_node_id i) of
             None \<Rightarrow> Inl (PlanningError (NoCost (ni_node_id i)))
           | Some c \<Rightarrow> bind_exc (impact_steps p requested_times context i) (\<lambda>steps.
               Inr (fst st + nc_float32_layers_per_step c * impact_pixels p i * steps * BYTES_PER_LAYER_ELEMENT,
                    snd st + nc_relative_work c * of_int (impact_pixels p i) * of_int steps / WORK_UNIT_PIXEL_STEPS)))"

definition estimate :: "edit_planner \<Rightarrow> int list \<Rightarrow> site_context option \<Rightarrow> node_impact list \<Rightarrow> plan_error + int \<times> rat" where
  "estimate p requested_times context impacts = fold_exc (add_estimate p requested_times context) (0, 0) impacts"

definition no_window :: raster_window where
  "no_window = \<lparr>rw_row_start = 0, rw_row_stop = 0, rw_col_start = 0, rw_col_stop = 0\<rparr>"

definition transport_window :: "node_impact list \<Rightarrow> plan_error + raster_window option" where
  "transport_window impacts =
     (let windows = concat (map ni_write_windows impacts)
      in map_sum WindowFailure (\<lambda>w. if windows = [] then None else Some w) (fold_exc rw_union no_window windows))"

subsection \<open>Outputs\<close>

text \<open>The ancestor walk collects every node above a requested output; its outputs are kept.\<close>

definition needed_outputs :: "edit_planner \<Rightarrow> string list \<Rightarrow> plan_error + string list" where
  "needed_outputs p requested_outputs =
     (let g = ep_graph p;
          outputs = filter (\<lambda>n. map_of (eg_kinds g) n = Some OUTPUT) (node_ids g);
          producible = concat (map am_producible_incremental (all_metadata (ep_registry p)));
          requests = filter (\<lambda>n. n \<in> set outputs) requested_outputs
      in case filter (\<lambda>n. n \<notin> set (node_ids g) \<and> n \<notin> set producible) requested_outputs of
           n # ns \<Rightarrow> Inl (PlanningError (UnknownOutputs (n # ns)))
         | [] \<Rightarrow>
             if requested_outputs = [] then Inr (filter (\<lambda>n. n \<notin> set NEVER_PLANNED_OUTPUTS) outputs)
             else let seen = closure_loop (eg_parents g) [] (rev (sort requests))
                  in Inr (filter (\<lambda>n. (n \<in> set requests \<or> n \<in> set seen) \<and> n \<notin> set NEVER_PLANNED_OUTPUTS) outputs))"

subsection \<open>The comfort-only plan\<close>

definition changes_of :: "source_delta list \<Rightarrow> forcing_change list" where
  "changes_of deltas = concat (map (\<lambda>d. payload_changes (sd_payload d)) deltas)"

text \<open>The batch changes the meteorology only, by discrete changes of comfort-only variables.\<close>

definition utci_only_batch :: "source_delta list dict \<Rightarrow> string list \<Rightarrow> bool" where
  "utci_only_batch changed scientific_sources \<longleftrightarrow>
     (let deltas = dict_get changed METEOROLOGY_SOURCE_NODE [] in
      scientific_sources = [METEOROLOGY_SOURCE_NODE] \<and> deltas \<noteq> [] \<and>
      (\<forall>d\<in>set deltas. family_of (sd_payload d) = ForcingFamily) \<and>
      (\<forall>c\<in>set (changes_of deltas). map_of MET_VARIABLE_AFFINITY (fc_variable c) = Some ''utci_only'' \<and> fc_time_index c \<noteq> None))"

definition without :: "string list \<Rightarrow> string list \<Rightarrow> string list" where
  "without nodes dirty = sort (filter (\<lambda>n. n \<notin> set dirty) nodes)"

definition utci_impact :: "edit_planner \<Rightarrow> int list \<Rightarrow> node_impact" where
  "utci_impact p ts =
     (let w = full_window (ep_grid p)
      in case bounds_scope ts of (t, start, stop) \<Rightarrow>
           \<lparr>ni_node_id = ''utci'', ni_spatial_scope = ScopeWindows, ni_read_windows = [w], ni_write_windows = [w],
            ni_temporal_scope = t, ni_time_start = start, ni_time_stop = stop\<rparr>)"

text \<open>The plan, when the batch narrows, with the reasons recorded on the way.\<close>

definition met_utci_fast_plan ::
  "edit_planner \<Rightarrow> source_delta list dict \<Rightarrow> string list \<Rightarrow> string list \<Rightarrow> int list \<Rightarrow> fallback_reason list \<Rightarrow> scene_graph_state \<Rightarrow>
   site_context option \<Rightarrow> plan_error + impact_plan option \<times> fallback_reason list" where
  "met_utci_fast_plan p changed scientific_sources keep_outputs requested_times reasons s context =
     (if \<not> utci_only_batch changed scientific_sources then Inr (None, reasons)
      else
        let changes = changes_of (dict_get changed METEOROLOGY_SOURCE_NODE []);
            changed_times = sort (remdups (map (\<lambda>c. the (fc_time_index c)) changes))
        in case po_full_only_nodes (ep_policy p) of
             None \<Rightarrow> Inl (PythonFailure (AttributeError ''full_only_nodes''))
           | Some full_only \<Rightarrow>
               if ''utci'' \<in> full_only then Inr (None, reasons @ [UtciPinnedFull])
               else if changes = [] \<or> ''utci'' \<notin> set keep_outputs
               then Inr (None, reasons @ (if changes \<noteq> [] \<and> fc_variable ` set changes \<subseteq> MET_UTCI_ONLY_VARIABLES then [UtciNotKept] else []))
               else
                 bind_exc (raised EditFailure (check_node_impact (utci_impact p changed_times))) (\<lambda>impact.
                 bind_exc (transport_window [impact]) (\<lambda>transport.
                 bind_exc (estimate p requested_times context [impact]) (\<lambda>(memory_bytes, work_units).
                 bind_exc (raised EditFailure (check_impact_plan
                     \<lparr>ip_changed_sources = [METEOROLOGY_SOURCE_NODE], ip_node_impacts = [impact],
                      ip_reusable_nodes = without (node_ids (ep_graph p)) (METEOROLOGY_SOURCE_NODE # ''utci'' # NEVER_PLANNED_OUTPUTS),
                      ip_fallback_reasons = reasons @ [MetAffinity], ip_estimated_memory_bytes = memory_bytes,
                      ip_estimated_work_units = work_units, ip_scene_revision = Some (sg_scene_revision s),
                      ip_transport_window = transport\<rparr>)) (\<lambda>plan. Inr (Some plan, reasons @ [MetAffinity]))))))"

subsection \<open>The plan\<close>

record walk =
  wk_resolved :: "node_scope dict"
  wk_impacts :: "node_impact list"
  wk_reasons :: "fallback_reason list"

definition walk_node ::
  "edit_planner \<Rightarrow> string list \<Rightarrow> string list \<Rightarrow> string list \<Rightarrow> int list \<Rightarrow> int list \<Rightarrow> walk \<Rightarrow> string \<Rightarrow> plan_error + walk" where
  "walk_node p dirty forcing_dirty keep_outputs requested_times explicit_times w n =
     (if n \<notin> set dirty then Inr w
      else bind_exc (raised GraphFailure (graph_kind (ep_graph p) n)) (\<lambda>kind.
        if kind = OUTPUT \<and> n \<notin> set keep_outputs then Inr (w\<lparr>wk_reasons := wk_reasons w @ [OutputSkipped n]\<rparr>)
        else bind_exc (case map_of (wk_resolved w) n of Some s \<Rightarrow> Inr s | None \<Rightarrow> resolve_derived_scope (ep_graph p) dirty (wk_resolved w) n) (\<lambda>scope.
        bind_exc (raised GraphFailure (is_executable (ep_graph p) n)) (\<lambda>executable.
          if \<not> executable then Inr w
          else bind_exc (build_impact p dirty forcing_dirty requested_times explicit_times (wk_resolved w) n scope) (\<lambda>(impact, reasons).
            Inr \<lparr>wk_resolved = AList.update n \<lparr>ns_spatial_scope = ni_spatial_scope impact, ns_windows = ni_write_windows impact\<rparr> (wk_resolved w),
                 wk_impacts = wk_impacts w @ [impact], wk_reasons = wk_reasons w @ reasons\<rparr>)))))"

definition resolve_source ::
  "edit_planner \<Rightarrow> source_delta list dict \<Rightarrow> node_scope dict \<times> fallback_reason list \<Rightarrow> string \<Rightarrow>
   plan_error + node_scope dict \<times> fallback_reason list" where
  "resolve_source p changed st n =
     bind_exc (resolve_source_scope p n (dict_get changed n [])) (\<lambda>(scope, reasons).
       Inr (AList.update n scope (fst st), snd st @ reasons))"

definition no_stage_plan ::
  "edit_planner \<Rightarrow> source_delta list dict \<Rightarrow> bool \<Rightarrow> scene_graph_state \<Rightarrow> plan_error + impact_plan" where
  "no_stage_plan p changed had_scientific_edits s =
     raised EditFailure (check_impact_plan
       \<lparr>ip_changed_sources = sort (dict_keys changed), ip_node_impacts = [],
        ip_reusable_nodes = without (node_ids (ep_graph p)) (dict_keys changed),
        ip_fallback_reasons = (if had_scientific_edits then [CoalescedToNoop] else []), ip_estimated_memory_bytes = 0,
        ip_estimated_work_units = 0, ip_scene_revision = Some (sg_scene_revision s), ip_transport_window = None\<rparr>)"

definition requested_outputs_of :: "validated_edit list \<Rightarrow> string list" where
  "requested_outputs_of edits = sort (remdups (concat (map (\<lambda>e. ec_requested_outputs (ve_command e)) edits)))"

text \<open>The part of \<open>plan\<close> after the changed sources are known and scientific.\<close>

definition plan_stages ::
  "edit_planner \<Rightarrow> validated_edit list \<Rightarrow> scene_graph_state \<Rightarrow> site_context option \<Rightarrow> source_delta list dict \<Rightarrow> string list \<Rightarrow>
   string list \<Rightarrow> plan_error + impact_plan" where
  "plan_stages p edits s context changed scientific_sources view_changed =
     bind_exc (fold_exc (resolve_source p changed) ([], []) scientific_sources) (\<lambda>(resolved, source_reasons).
     bind_exc (raised GraphFailure (downstream (ep_graph p) scientific_sources)) (\<lambda>dirty.
     let requested_times = requested_times_of edits;
         changed_times = explicit_forcing_times changed scientific_sources;
         explicit_times = (if changed_times \<noteq> [] \<and> requested_times \<noteq> [] then sort (remdups (changed_times @ requested_times)) else changed_times)
     in
     bind_exc (raised GraphFailure (downstream (ep_graph p) (filter (\<lambda>n. n \<in> FORCING_SOURCE_NODES) scientific_sources))) (\<lambda>forcing_dirty.
     let requested_outputs = requested_outputs_of edits;
         refused = filter (\<lambda>n. n \<in> set NEVER_PLANNED_OUTPUTS) requested_outputs
     in if refused \<noteq> [] then Inl (PlanningError (NeverPlannedRequested refused))
        else
     bind_exc (needed_outputs p requested_outputs) (\<lambda>keep_outputs.
     let reasons = source_reasons @ (if requested_outputs = []
           then map NeverPlanned (sort (filter (\<lambda>n. n \<in> set (node_ids (ep_graph p))) NEVER_PLANNED_OUTPUTS)) else [])
     in
     bind_exc (met_utci_fast_plan p changed scientific_sources keep_outputs requested_times reasons s context) (\<lambda>(fast_plan, reasons).
       case fast_plan of
         Some plan \<Rightarrow> Inr plan
       | None \<Rightarrow>
           bind_exc (fold_exc (walk_node p dirty forcing_dirty keep_outputs requested_times explicit_times)
               \<lparr>wk_resolved = resolved, wk_impacts = [], wk_reasons = reasons\<rparr> (topological_order (ep_graph p))) (\<lambda>w.
           bind_exc (transport_window (wk_impacts w)) (\<lambda>transport.
           bind_exc (estimate p requested_times context (wk_impacts w)) (\<lambda>(memory_bytes, work_units).
             raised EditFailure (check_impact_plan
               \<lparr>ip_changed_sources = sort (dict_keys changed), ip_node_impacts = wk_impacts w,
                ip_reusable_nodes = without (node_ids (ep_graph p)) (dirty @ view_changed),
                ip_fallback_reasons = wk_reasons w, ip_estimated_memory_bytes = memory_bytes,
                ip_estimated_work_units = work_units, ip_scene_revision = Some (sg_scene_revision s),
                ip_transport_window = transport\<rparr>)))))))))"

definition plan_edits ::
  "edit_planner \<Rightarrow> bool \<Rightarrow> validated_edit list \<Rightarrow> scene_graph_state \<Rightarrow> site_context option \<Rightarrow> plan_error + impact_plan" where
  "plan_edits p same_graph edits s context =
     (if edits = [] then Inl (PlanningError EmptyBatch)
      else
        bind_exc (check_batch_invariants same_graph edits s) (\<lambda>_.
        bind_exc (check_context p edits s context) (\<lambda>_.
        bind_exc (traverse (check_registry_fact p) edits) (\<lambda>_.
        bind_exc (check_wind_fence p edits) (\<lambda>_.
        bind_exc (changed_sources edits) (\<lambda>changed.
        bind_exc (kinds_of (ep_graph p) (sort (dict_keys changed))) (\<lambda>kinds.
        bind_exc (kinds_of (ep_graph p) (map ve_source_node_id edits)) (\<lambda>edit_kinds.
          let scientific_sources = map fst (filter (\<lambda>nk. snd nk \<noteq> VIEW) kinds);
              view_changed = map fst (filter (\<lambda>nk. snd nk = VIEW) kinds)
          in if scientific_sources = []
             then no_stage_plan p changed (\<exists>nk\<in>set edit_kinds. snd nk \<noteq> VIEW) s
             else plan_stages p edits s context changed scientific_sources view_changed))))))))"

end
