(* ===== verification/Adapter_Registry_Contract.thy ===== *)
theory Adapter_Registry_Contract
  imports Adapter_Registry Edit_Graph_Contract
begin

text \<open>
  What the registry promises: however it was filled, its entries keep the rulings, an entry never
  changes once it is there, and a delta it accepts carries no fenced content.
\<close>

section \<open>The rulings\<close>

definition ruled :: "edit_graph \<Rightarrow> adapter_metadata \<Rightarrow> bool" where
  "ruled g m \<longleftrightarrow>
     (\<forall>n\<in>set (am_source_nodes m). graph_contains g n) \<and> am_operations m \<noteq> [] \<and> am_source_nodes m \<noteq> [] \<and>
     am_parameters_safe m \<inter> am_parameters_blocked m = {} \<and>
     (LANDCOVER_SOURCE_NODE \<in> set (am_source_nodes m) \<longrightarrow> am_valid_classes m \<noteq> {} \<and> am_valid_classes m \<subseteq> LANDCOVER_VALID_CLASSES) \<and>
     (VEGETATION_SOURCE_NODE \<in> set (am_source_nodes m) \<longrightarrow>
        am_status m = ScientificExtension \<or> VEGETATION_REJECTED_PROPERTIES \<subseteq> am_rejected_properties m) \<and>
     (MODEL_PARAMETERS_SOURCE_NODE \<in> set (am_source_nodes m) \<longrightarrow>
        MODEL_PARAMETERS_BLOCKED \<subseteq> am_parameters_blocked m \<and> MODEL_PARAMETERS_SAFE \<subseteq> am_parameters_safe m) \<and>
     (WIND_SOURCE_NODE \<in> set (am_source_nodes m) \<longrightarrow> am_status m = ScientificExtension) \<and>
     (VIEW_SOURCE_NODE \<in> set (am_source_nodes m) \<longleftrightarrow> is_view_only m)"

definition registry_ok :: "adapter_registry \<Rightarrow> bool" where
  "registry_ok r \<longleftrightarrow> distinct (dict_keys (ar_metadata r)) \<and>
     (\<forall>i m. map_of (ar_metadata r) i = Some m \<longrightarrow> am_id m = i \<and> ruled (ar_graph r) m) \<and>
     (\<forall>i a. map_of (ar_adapters r) i = Some a \<longrightarrow> ea_adapter_id a = Some i \<and> map_of (ar_metadata r) i \<noteq> None)"

text \<open>Metadata is always built by its checked constructor.\<close>

abbreviation built :: "adapter_metadata \<Rightarrow> bool" where
  "built m \<equiv> check_adapter_metadata m = Inr m"

inductive registration :: "adapter_registry \<Rightarrow> adapter_registry \<Rightarrow> bool" where
  declared: "built m \<Longrightarrow> register_metadata r m = Inr r' \<Longrightarrow> registration r r'"
| implemented: "(\<forall>m\<in>set_option metadata \<union> set_option (ea_metadata a). built m) \<Longrightarrow>
    register_adapter r a metadata = Inr r' \<Longrightarrow> registration r r'"

lemma validated_ruled:
  assumes "built m" "validate_metadata r m = Inr ()"
  shows "ruled (ar_graph r) m" "map_of (ar_metadata r) (am_id m) = None \<or> map_of (ar_metadata r) (am_id m) = Some m"
proof -
  have nodes: "\<forall>n\<in>set (am_source_nodes m). graph_contains (ar_graph r) n"
    using assms(2) by (auto simp: validate_metadata_def Let_def filter_empty_conv split: if_splits list.splits)
  have lc: "validate_landcover m = Inr ()" and pm: "validate_parameters m = Inr ()"
    and rest: "VEGETATION_SOURCE_NODE \<in> set (am_source_nodes m) \<and> am_status m \<noteq> ScientificExtension \<longrightarrow>
        am_rejected_properties m \<inter> VEGETATION_REJECTED_PROPERTIES = VEGETATION_REJECTED_PROPERTIES"
      "WIND_SOURCE_NODE \<in> set (am_source_nodes m) \<longrightarrow> am_status m = ScientificExtension"
      "VIEW_SOURCE_NODE \<in> set (am_source_nodes m) \<longleftrightarrow> am_status m = ViewOnly"
    using assms(2) by (auto simp: validate_metadata_def Let_def bind_exc_Inr split: if_splits list.splits)
  have "LANDCOVER_SOURCE_NODE \<in> set (am_source_nodes m) \<longrightarrow> am_valid_classes m \<noteq> {} \<and> am_valid_classes m \<subseteq> LANDCOVER_VALID_CLASSES"
    using lc by (auto simp: validate_landcover_def split: if_splits)
  moreover have "MODEL_PARAMETERS_SOURCE_NODE \<in> set (am_source_nodes m) \<longrightarrow>
        MODEL_PARAMETERS_BLOCKED \<subseteq> am_parameters_blocked m \<and> MODEL_PARAMETERS_SAFE \<subseteq> am_parameters_safe m"
    using pm by (auto simp: validate_parameters_def split: if_splits)
  moreover have "am_operations m \<noteq> []" "am_source_nodes m \<noteq> []" "am_parameters_safe m \<inter> am_parameters_blocked m = {}"
    using assms(1) by (auto simp: check_adapter_metadata_def split: if_splits)
  ultimately show "ruled (ar_graph r) m" using nodes rest unfolding ruled_def is_view_only_def by blast
  show "map_of (ar_metadata r) (am_id m) = None \<or> map_of (ar_metadata r) (am_id m) = Some m"
  proof (rule ccontr)
    assume "\<not> ?thesis"
    then have "\<exists>existing\<in>set_option (map_of (ar_metadata r) (am_id m)). existing \<noteq> m" by auto
    then show False using assms(2) by (simp add: validate_metadata_def)
  qed
qed

lemma enter_metadata:
  assumes "registry_ok r" "built m" "validate_metadata r m = Inr ()"
    and "ar_graph r' = ar_graph r" "ar_metadata r' = AList.update (am_id m) m (ar_metadata r)"
    and "\<And>i a. map_of (ar_adapters r') i = Some a \<Longrightarrow> map_of (ar_adapters r) i = Some a \<or> i = am_id m \<and> ea_adapter_id a = Some i"
  shows "registry_ok r' \<and> ar_graph r' = ar_graph r \<and> map_of (ar_metadata r) \<subseteq>\<^sub>m map_of (ar_metadata r')"
proof (intro conjI)
  note v = validated_ruled [OF assms(2,3)]
  have d: "distinct (dict_keys (ar_metadata r))" and a: "\<And>i n. map_of (ar_metadata r) i = Some n \<Longrightarrow> am_id n = i \<and> ruled (ar_graph r) n"
    and h: "\<And>i a. map_of (ar_adapters r) i = Some a \<Longrightarrow> ea_adapter_id a = Some i \<and> map_of (ar_metadata r) i \<noteq> None"
    using assms(1) by (auto simp: registry_ok_def)
  show "registry_ok r'" unfolding registry_ok_def assms(4,5)
  proof (intro conjI allI impI)
    show "distinct (dict_keys (AList.update (am_id m) m (ar_metadata r)))" using d by simp
    show "am_id n = i" "ruled (ar_graph r) n" if "map_of (AList.update (am_id m) m (ar_metadata r)) i = Some n" for i n
      using that a [of i n] v(1) by (auto split: if_splits)
    show "ea_adapter_id b = Some i" "map_of (AList.update (am_id m) m (ar_metadata r)) i \<noteq> None"
      if "map_of (ar_adapters r') i = Some b" for i b
      using assms(6) [OF that] h [of i b] by auto
  qed
  show "ar_graph r' = ar_graph r" by (rule assms(4))
  show "map_of (ar_metadata r) \<subseteq>\<^sub>m map_of (ar_metadata r')" using v(2) unfolding assms(5) by (auto simp: map_le_def)
qed

lemma registration_step:
  assumes "registration r r'" "registry_ok r"
  shows "registry_ok r'" "ar_graph r' = ar_graph r" "map_of (ar_metadata r) \<subseteq>\<^sub>m map_of (ar_metadata r')"
proof -
  have "registry_ok r' \<and> ar_graph r' = ar_graph r \<and> map_of (ar_metadata r) \<subseteq>\<^sub>m map_of (ar_metadata r')"
    using assms
  proof (cases rule: registration.cases)
    case (declared m)
    then have v: "validate_metadata r m = Inr ()" and r': "r' = r\<lparr>ar_metadata := AList.update (am_id m) m (ar_metadata r)\<rparr>"
      by (auto simp: register_metadata_def bind_exc_Inr)
    show ?thesis by (rule enter_metadata [OF assms(2) declared(1) v]) (simp_all add: r')
  next
    case (implemented metadata a)
    then obtain m where m: "built m" "validate_metadata r m = Inr ()" "ea_adapter_id a = Some (am_id m)"
      and r': "r' = r\<lparr>ar_metadata := AList.update (am_id m) m (ar_metadata r), ar_adapters := AList.update (am_id m) a (ar_adapters r)\<rparr>"
      by (auto simp: register_adapter_def bind_exc_Inr split: option.splits if_splits)
    show ?thesis by (rule enter_metadata [OF assms(2) m(1,2)]) (auto simp: r' m(3) split: if_splits)
  qed
  then show "registry_ok r'" "ar_graph r' = ar_graph r" "map_of (ar_metadata r) \<subseteq>\<^sub>m map_of (ar_metadata r')" by auto
qed

lemma registrations:
  assumes "registration\<^sup>*\<^sup>* r r'" "registry_ok r"
  shows "registry_ok r' \<and> ar_graph r' = ar_graph r \<and> map_of (ar_metadata r) \<subseteq>\<^sub>m map_of (ar_metadata r')"
  using assms
proof (induction rule: rtranclp_induct)
  case (step r' r'')
  then show ?case using registration_step [OF step.hyps(2)] map_le_trans by metis
qed simp

lemma new_registry_ok: "registry_ok (new_registry g)"
  by (simp add: registry_ok_def new_registry_def)

section \<open>The built-in registry\<close>

abbreviation valid_entry :: "edit_graph \<Rightarrow> adapter_metadata \<Rightarrow> bool" where
  "valid_entry g m \<equiv> \<forall>md. map_of md (am_id m) = None \<longrightarrow>
     validate_metadata \<lparr>ar_graph = g, ar_metadata = md, ar_adapters = []\<rparr> m = Inr ()"

lemma register_all:
  assumes "\<forall>m\<in>set ms. built m \<and> valid_entry g m" "distinct (map am_id ms)" "set (map am_id ms) \<inter> set (dict_keys md) = {}"
  shows "\<exists>r. fold_exc register_metadata \<lparr>ar_graph = g, ar_metadata = md, ar_adapters = []\<rparr> ms = Inr r \<and>
    registration\<^sup>*\<^sup>* \<lparr>ar_graph = g, ar_metadata = md, ar_adapters = []\<rparr> r \<and> ar_metadata r = md @ map (\<lambda>m. (am_id m, m)) ms"
  using assms
proof (induction ms arbitrary: md)
  case (Cons m ms)
  let ?r = "\<lparr>ar_graph = g, ar_metadata = md, ar_adapters = []\<rparr>"
  have new: "am_id m \<notin> set (dict_keys md)" using Cons.prems(3) by simp
  then have none: "map_of md (am_id m) = None" unfolding map_of_None_keys .
  have app: "AList.update (am_id m) m md = md @ [(am_id m, m)]" using new by (induction md) auto
  have "validate_metadata ?r m = Inr ()" using Cons.prems(1) none by simp
  then have step: "register_metadata ?r m = Inr \<lparr>ar_graph = g, ar_metadata = md @ [(am_id m, m)], ar_adapters = []\<rparr>"
    by (simp add: register_metadata_def app)
  obtain r where r: "fold_exc register_metadata \<lparr>ar_graph = g, ar_metadata = md @ [(am_id m, m)], ar_adapters = []\<rparr> ms = Inr r"
    "registration\<^sup>*\<^sup>* \<lparr>ar_graph = g, ar_metadata = md @ [(am_id m, m)], ar_adapters = []\<rparr> r"
    "ar_metadata r = (md @ [(am_id m, m)]) @ map (\<lambda>m. (am_id m, m)) ms"
    using Cons.IH [of "md @ [(am_id m, m)]"] Cons.prems by auto
  have "registration ?r \<lparr>ar_graph = g, ar_metadata = md @ [(am_id m, m)], ar_adapters = []\<rparr>"
    by (rule registration.declared [OF _ step]) (use Cons.prems(1) in simp)
  then show ?case using r step by (auto intro: converse_rtranclp_into_rtranclp)
qed simp

lemmas vocabulary = LANDCOVER_SOURCE_NODE_def LANDCOVER_VALID_CLASSES_def LANDCOVER_FENCED_CLASSES_def VEGETATION_SOURCE_NODE_def
  VEGETATION_REJECTED_PROPERTIES_def MODEL_PARAMETERS_SOURCE_NODE_def METEOROLOGY_SOURCE_NODE_def WIND_SOURCE_NODE_def VIEW_SOURCE_NODE_def

lemma parameters_disjoint: "MODEL_PARAMETERS_SAFE \<inter> MODEL_PARAMETERS_BLOCKED = {}"
  by (simp add: MODEL_PARAMETERS_SAFE_def MODEL_PARAMETERS_BLOCKED_def)

definition builtin_sources :: "string list" where
  "builtin_sources = [''vegetation_dsm'', ''building_dsm'', ''dem'', ''landcover'', ''meteorology'', ''selected_date_time'', ''model_parameters'',
     ''output_selection'']"

lemma builtin_entries:
  assumes "\<forall>n\<in>set builtin_sources. graph_contains g n"
  shows "\<forall>m\<in>set (BUILTIN_ADAPTER_METADATA v w). built m \<and> valid_entry g m" "distinct (map am_id (BUILTIN_ADAPTER_METADATA v w))"
proof -
  note c = assms [unfolded builtin_sources_def, simplified]
  show "\<forall>m\<in>set (BUILTIN_ADAPTER_METADATA v w). built m \<and> valid_entry g m"
    by (simp add: BUILTIN_ADAPTER_METADATA_def check_adapter_metadata_def validate_metadata_def validate_landcover_def validate_parameters_def
        vocabulary parameters_disjoint c)
  show "distinct (map am_id (BUILTIN_ADAPTER_METADATA v w))" by (simp add: BUILTIN_ADAPTER_METADATA_def)
qed

lemma builtin_registers:
  assumes "\<forall>n\<in>set builtin_sources. graph_contains g n"
  shows "\<exists>r. builtin_registry v w g = Inr r \<and> registration\<^sup>*\<^sup>* (new_registry g) r \<and>
    ar_metadata r = map (\<lambda>m. (am_id m, m)) (BUILTIN_ADAPTER_METADATA v w)"
  using register_all [OF builtin_entries [OF assms], of v w "[]"] by (simp add: builtin_registry_def new_registry_def)

lemma affinity_tables_valid:
  "validate_met_affinity MET_VARIABLE_AFFINITY METEOROLOGY_VARIABLES_SAFE = Inr ()"
  "validate_model_parameter_affinity MODEL_PARAMETERS_AFFINITY MODEL_PARAMETERS_SAFE = Inr ()"
proof -
  have "set (dict_keys MET_VARIABLE_AFFINITY) = METEOROLOGY_VARIABLES_SAFE"
    by (rule equalityI) (simp_all add: MET_VARIABLE_AFFINITY_def METEOROLOGY_VARIABLES_SAFE_def)
  moreover have "filter (\<lambda>kv. snd kv \<notin> {''utci_only'', ''radiation_affecting''}) MET_VARIABLE_AFFINITY = []"
    by (simp add: MET_VARIABLE_AFFINITY_def)
  ultimately show "validate_met_affinity MET_VARIABLE_AFFINITY METEOROLOGY_VARIABLES_SAFE = Inr ()"
    by (simp add: validate_met_affinity_def validate_affinity_def)
  have "set (dict_keys MODEL_PARAMETERS_AFFINITY) = MODEL_PARAMETERS_SAFE"
  proof -
    have "finite MODEL_PARAMETERS_SAFE" by (simp add: MODEL_PARAMETERS_SAFE_def)
    then show ?thesis by (simp add: MODEL_PARAMETERS_AFFINITY_def comp_def)
  qed
  moreover have "filter (\<lambda>kv. snd kv \<notin> {''radiation_affecting''}) MODEL_PARAMETERS_AFFINITY = []"
    by (simp add: MODEL_PARAMETERS_AFFINITY_def filter_empty_conv)
  ultimately show "validate_model_parameter_affinity MODEL_PARAMETERS_AFFINITY MODEL_PARAMETERS_SAFE = Inr ()"
    by (simp add: validate_model_parameter_affinity_def validate_affinity_def)
qed

section \<open>What an accepted delta carries\<close>

text \<open>An object state has no fenced property; the other payloads stay inside the vocabularies.\<close>

definition unfenced :: "adapter_metadata \<Rightarrow> payload \<Rightarrow> bool" where
  "unfenced m p \<longleftrightarrow> (case p of
       LandCoverPaint patches \<Rightarrow> \<forall>q\<in>set patches. \<forall>c\<in>set (pp_after_classes q). 0 \<le> c \<longrightarrow> c \<in> am_valid_classes m - LANDCOVER_FENCED_CLASSES \<and>
         (LANDCOVER_SOURCE_NODE \<in> set (am_source_nodes m) \<longrightarrow> c \<in> LANDCOVER_VALID_CLASSES)
     | ParameterChanges changes \<Rightarrow> MODEL_PARAMETERS_SOURCE_NODE \<in> set (am_source_nodes m) \<longrightarrow>
         pc_name ` set changes \<subseteq> am_parameters_safe m - MODEL_PARAMETERS_BLOCKED
     | ForcingChanges changes \<Rightarrow> METEOROLOGY_SOURCE_NODE \<in> set (am_source_nodes m) \<longrightarrow>
         fc_variable ` set changes \<subseteq> METEOROLOGY_VARIABLES_SAFE - METEOROLOGY_VARIABLES_BLOCKED
     | OutputSelection _ after \<Rightarrow> am_producible_incremental m = [] \<or> set after \<subseteq> set (am_producible_incremental m)
     | _ \<Rightarrow> VEGETATION_SOURCE_NODE \<in> set (am_source_nodes m) \<and> am_status m \<noteq> ScientificExtension \<longrightarrow>
         (\<forall>c\<in>set (payload_objects p). \<forall>d\<in>set_option (oc_before c) \<union> set_option (oc_after c). \<forall>k\<in>set (dict_keys d). lower k \<noteq> ''transmissivity''))"

lemma lower_transmissivity: "lower ''transmissivity'' = ''transmissivity''"
  by (simp add: lower_def lower_latin_def)

lemma traverse_all: "traverse f xs = Inr ys \<Longrightarrow> x \<in> set xs \<Longrightarrow> \<exists>y. f x = Inr y"
  by (induction xs arbitrary: ys) (auto split: sum.splits)

lemma accepted_state:
  assumes "validate_edit_state r i d = Inr u" "get_metadata r i = Inr m"
  shows "k \<in> set (dict_keys d) \<Longrightarrow> lower k \<notin> lower ` am_rejected_properties m"
    "MODEL_PARAMETERS_SOURCE_NODE \<in> set (am_source_nodes m) \<Longrightarrow>
       set (dict_keys d) \<subseteq> am_parameters_safe m - am_parameters_blocked m"
proof -
  have f: "sort (filter (\<lambda>k. lower k \<in> lower ` am_rejected_properties m) (dict_keys d)) = []"
    using assms by (auto simp: validate_edit_state_def split: list.splits)
  then have "filter (\<lambda>k. lower k \<in> lower ` am_rejected_properties m) (dict_keys d) = []"
    by (metis length_0_conv length_sort)
  then show "k \<in> set (dict_keys d) \<Longrightarrow> lower k \<notin> lower ` am_rejected_properties m"
    unfolding filter_empty_conv by blast
  show "set (dict_keys d) \<subseteq> am_parameters_safe m - am_parameters_blocked m"
    if p: "MODEL_PARAMETERS_SOURCE_NODE \<in> set (am_source_nodes m)"
  proof -
    have "check_parameters m d = Inr ()"
      using assms f p unfolding validate_edit_state_def by (auto simp: bind_exc_Inr)
    then show ?thesis by (auto simp: check_parameters_def Let_def split: if_splits)
  qed
qed

lemma accepted_objects:
  assumes "traverse (validate_object r i) objects = Inr us" "get_metadata r i = Inr m"
    and "c \<in> set objects" "d \<in> set_option (oc_before c) \<union> set_option (oc_after c)" "k \<in> set (dict_keys d)"
  shows "lower k \<notin> lower ` am_rejected_properties m"
proof -
  obtain vs where v: "validate_object r i c = Inr vs" using traverse_all [OF assms(1,3)] by auto
  have "Some d \<in> set [oc_before c, oc_after c]" using assms(4) by auto
  from traverse_all [OF v [unfolded validate_object_def] this] obtain u where "validate_edit_state r i d = Inr u" by auto
  then show ?thesis by (rule accepted_state(1) [OF _ assms(2,5)])
qed

lemma accepted_painted: "check_painted m p = Inr () \<Longrightarrow> c \<in> set (pp_after_classes p) \<Longrightarrow> 0 \<le> c \<Longrightarrow>
  c \<in> am_valid_classes m - LANDCOVER_FENCED_CLASSES"
  by (auto simp: check_painted_def Let_def filter_empty_conv split: if_splits list.splits)

lemma accepted_variables: "check_variables names = Inr () \<Longrightarrow> names \<subseteq> METEOROLOGY_VARIABLES_SAFE - METEOROLOGY_VARIABLES_BLOCKED"
  by (auto simp: check_variables_def split: if_splits)

lemma accepted_unfenced:
  assumes ok: "registry_ok r" and m: "get_metadata r i = Inr m" and acc: "validate_delta r i d = Inr ()"
  shows "unfenced m (sd_payload d)"
proof -
  have "ruled (ar_graph r) m" using ok m by (auto simp: registry_ok_def get_metadata_def split: option.splits)
  then have lc: "LANDCOVER_SOURCE_NODE \<in> set (am_source_nodes m) \<Longrightarrow> am_valid_classes m \<subseteq> LANDCOVER_VALID_CLASSES"
    and veg: "VEGETATION_SOURCE_NODE \<in> set (am_source_nodes m) \<Longrightarrow> am_status m \<noteq> ScientificExtension \<Longrightarrow> ''transmissivity'' \<in> am_rejected_properties m"
    and par: "MODEL_PARAMETERS_SOURCE_NODE \<in> set (am_source_nodes m) \<Longrightarrow> MODEL_PARAMETERS_BLOCKED \<subseteq> am_parameters_blocked m"
    by (auto simp: ruled_def VEGETATION_REJECTED_PROPERTIES_def)
  have objs: "\<forall>c\<in>set objects. \<forall>d\<in>set_option (oc_before c) \<union> set_option (oc_after c). \<forall>k\<in>set (dict_keys d). lower k \<noteq> ''transmissivity''"
    if t: "traverse (validate_object r i) objects = Inr us"
      and v: "VEGETATION_SOURCE_NODE \<in> set (am_source_nodes m)" "am_status m \<noteq> ScientificExtension" for objects us
  proof (intro ballI notI)
    fix c d k
    assume h: "c \<in> set objects" "d \<in> set_option (oc_before c) \<union> set_option (oc_after c)" "k \<in> set (dict_keys d)" "lower k = ''transmissivity''"
    have "lower k \<in> lower ` am_rejected_properties m"
      using imageI [OF veg [OF v], of lower] h(4) by (simp add: lower_transmissivity)
    then show False using accepted_objects [OF t m h(1-3)] by simp
  qed
  show ?thesis
  proof (cases "sd_payload d")
    case (VegetationObjects objects ws)
    then obtain us where "traverse (validate_object r i) objects = Inr us"
      using acc m by (auto simp: validate_delta_def dest: map_sum_Inr)
    then show ?thesis using objs unfolding VegetationObjects unfenced_def by simp
  next
    case (BuildingMassing objects ws)
    then obtain us where "traverse (validate_object r i) objects = Inr us"
      using acc m by (auto simp: validate_delta_def dest: map_sum_Inr)
    then show ?thesis using objs unfolding BuildingMassing unfenced_def by simp
  next
    case (LandCoverPaint patches)
    then obtain us where t: "traverse (check_painted m) patches = Inr us"
      using acc m by (auto simp: validate_delta_def dest: map_sum_Inr)
    have "check_painted m p = Inr ()" if "p \<in> set patches" for p using traverse_all [OF t that] by auto
    then show ?thesis using lc accepted_painted unfolding LandCoverPaint unfenced_def payload.case by blast
  next
    case (ForcingChanges changes)
    then show ?thesis using acc m accepted_variables [of "fc_variable ` set changes"] by (auto simp: validate_delta_def unfenced_def split: if_splits)
  next
    case (ParameterChanges changes)
    then obtain us where t: "traverse (\<lambda>c. validate_edit_state r i [(pc_name c, pc_after_value c)]) changes = Inr us"
      using acc m by (auto simp: validate_delta_def dest: map_sum_Inr)
    have "pc_name c \<in> am_parameters_safe m - am_parameters_blocked m"
      if par: "MODEL_PARAMETERS_SOURCE_NODE \<in> set (am_source_nodes m)" and c: "c \<in> set changes" for c
    proof -
      obtain u where "validate_edit_state r i [(pc_name c, pc_after_value c)] = Inr u" using traverse_all [OF t c] by auto
      from accepted_state(2) [OF this m par] show ?thesis by simp
    qed
    then show ?thesis using par unfolding ParameterChanges unfenced_def payload.case by blast
  next
    case (OutputSelection before after)
    then show ?thesis using acc m
      by (auto simp: validate_delta_def unfenced_def filter_empty_conv split: if_splits list.splits)
  next
    case NoPayload
    then show ?thesis by (simp add: unfenced_def)
  qed
qed

section \<open>Properties\<close>

text \<open>The rulings hold of every registry. However entries are declared and adapters registered, an entry is
  filed under its own id; its nodes are in the graph; land-cover entries offer a non-empty part of the
  four valid classes, vegetation entries refuse transmissivity, parameter entries block the coupled
  parameters and take the safe ones, wind entries are extensions and exactly the view-only entries own the output
  selection; and no later registration changes an entry.\<close>

lemma registry_keeps_rulings:
  assumes "registration\<^sup>*\<^sup>* (new_registry g) r" "get_metadata r i = Inr m"
  shows "am_id m = i \<and> ruled g m \<and> (\<forall>r'. registration\<^sup>*\<^sup>* r r' \<longrightarrow> get_metadata r' i = Inr m)"
proof -
  note ok = registrations [OF assms(1) new_registry_ok]
  have e: "map_of (ar_metadata r) i = Some m" using assms(2) by (simp add: get_metadata_def split: option.splits)
  then have "am_id m = i \<and> ruled g m" using ok by (auto simp: registry_ok_def new_registry_def)
  moreover have "get_metadata r' i = Inr m" if "registration\<^sup>*\<^sup>* r r'" for r'
  proof -
    have "map_of (ar_metadata r') i = Some m" using registrations [OF that] ok e by (metis map_le_def domI)
    then show ?thesis by (simp add: get_metadata_def)
  qed
  ultimately show ?thesis by blast
qed


lemma scene_registry:
  obtains g r where "default_edit_graph = Inr g" "builtin_registry v w g = Inr r" "registration\<^sup>*\<^sup>* (new_registry g) r"
    "ar_metadata r = map (\<lambda>m. (am_id m, m)) (BUILTIN_ADAPTER_METADATA v w)"
proof -
  obtain g where g: "default_edit_graph = Inr g" using scene_graph_builds ..
  then have "set (dict_keys (eg_kinds g)) = set (ids_of GRAPH_NODES)" unfolding default_edit_graph_def by (rule graph_ids)
  then have "\<forall>n\<in>set builtin_sources. graph_contains g n"
    unfolding graph_contains_def by (simp add: builtin_sources_def ids_of_def GRAPH_NODES_def)
  then show thesis using builtin_registers that g by blast
qed

lemma demo_entry:
  "map_of (map (\<lambda>m. (am_id m, m)) (BUILTIN_ADAPTER_METADATA v w)) ''landcover_surface'' = Some (BUILTIN_ADAPTER_METADATA v w ! 3)"
  by (simp add: BUILTIN_ADAPTER_METADATA_def)

lemma registry_keeps_rulings_witness:
  "\<exists>g r m. default_edit_graph = Inr g \<and> builtin_registry [] [] g = Inr r \<and> get_metadata r ''landcover_surface'' = Inr m \<and>
     am_valid_classes m \<subseteq> LANDCOVER_VALID_CLASSES"
proof -
  obtain g r where r: "default_edit_graph = Inr g" "builtin_registry [] [] g = Inr r" "registration\<^sup>*\<^sup>* (new_registry g) r"
    "ar_metadata r = map (\<lambda>m. (am_id m, m)) (BUILTIN_ADAPTER_METADATA [] [])" by (rule scene_registry)
  let ?m = "BUILTIN_ADAPTER_METADATA [] [] ! 3"
  have m: "get_metadata r ''landcover_surface'' = Inr ?m" unfolding get_metadata_def r(4) demo_entry by simp
  have "ruled g ?m" using registry_keeps_rulings [OF r(3) m] by blast
  moreover have "LANDCOVER_SOURCE_NODE \<in> set (am_source_nodes ?m)" by (simp add: BUILTIN_ADAPTER_METADATA_def LANDCOVER_SOURCE_NODE_def)
  ultimately have "am_valid_classes ?m \<subseteq> LANDCOVER_VALID_CLASSES" by (simp add: ruled_def)
  then show ?thesis using r(1,2) m by blast
qed

definition demo_stroke :: source_delta where
  "demo_stroke = \<lparr>sd_source_node_id = ''landcover'', sd_adapter_id = ''landcover_surface'', sd_payload = LandCoverPaint
     [\<lparr>pp_window = \<lparr>rw_row_start = 0, rw_row_stop = 1, rw_col_start = 0, rw_col_stop = 2\<rparr>, pp_before_classes = [1, 1], pp_after_classes = [5, -1]\<rparr>]\<rparr>"


end
