(* ===== verification/Edit_Planner_Contract.thy ===== *)
theory Edit_Planner_Contract
  imports Edit_Planner Adapter_Registry_Contract Raster_Windows_Contract
begin

text \<open>
  What a plan promises. The locale \<open>layered_graph\<close> states what the planner relies on in a
  dependency graph (it was built; outputs feed only outputs; a source, a view or a never planned output is
  nobody's child or parent in the wrong place; every stage has a cost) and shows that the topological walk ends with one impact for each
  dirty stage, each covering the windows of every changed source above it. It is interpreted on the scene graph.
\<close>

section \<open>Scopes\<close>

definition region :: "raster_window list \<Rightarrow> (int \<times> int) set" where
  "region ws = (\<Union>w\<in>set ws. cells w)"

definition scope_ok :: "raster_grid \<Rightarrow> node_scope \<Rightarrow> bool" where
  "scope_ok grid s \<longleftrightarrow> ns_spatial_scope s = ScopeFull \<and> ns_windows s = [] \<or>
     ns_spatial_scope s = ScopeWindows \<and> ns_windows s \<noteq> [] \<and> (\<forall>w\<in>set (ns_windows s). solid w \<and> inside w (full_window grid))"

definition scope_covers :: "node_scope \<Rightarrow> node_scope \<Rightarrow> bool" where
  "scope_covers s0 s \<longleftrightarrow> ns_spatial_scope s = ScopeFull \<or>
     ns_spatial_scope s0 = ScopeWindows \<and> ns_spatial_scope s = ScopeWindows \<and> region (ns_windows s0) \<subseteq> region (ns_windows s)"

lemma scope_covers_refl: "scope_ok grid s \<Longrightarrow> scope_covers s s"
  by (auto simp: scope_ok_def scope_covers_def)

lemma scope_covers_trans: "scope_covers a b \<Longrightarrow> scope_covers b c \<Longrightarrow> scope_covers a c"
  by (auto simp: scope_covers_def)

lemma merged_windows:
  assumes "\<And>w. w \<in> set ws \<Longrightarrow> solid w \<and> inside w f" "ws \<noteq> []"
  obtains ms where "merge_windows ws 0 = Inr ms" "ms \<noteq> []" "\<And>w. w \<in> set ms \<Longrightarrow> solid w \<and> inside w f" "region ws \<subseteq> region ms"
proof -
  obtain ms where ms: "merge_windows ws 0 = Inr ms" and m: "merged_so_far 0 (filter (\<lambda>w. \<not> rw_is_empty w) ws) ms"
    using merge_windows_closure [of 0 ws] assms(1) by (auto simp: solid_def)
  have all: "filter (\<lambda>w. \<not> rw_is_empty w) ws = ws" using assms(1) by (auto simp: solid_def filter_id_conv)
  have cov: "covered_by (set ms) w" if "w \<in> set ws" for w using merged_so_far_covers [OF m] that all by simp
  have "ms \<noteq> []" using assms(2) cov [of "hd ws"] by (auto simp: covered_by_def)
  moreover have "solid w \<and> inside w f" if "w \<in> set ms" for w
  proof -
    have "covered_by {f} w"
      by (rule merged_so_far_least [OF m _ _ that]) (use assms(1) all in \<open>auto simp: separated_def covered_by_def\<close>)
    then show ?thesis using merged_so_far_pieces [OF _ m] that by (simp add: covered_by_def)
  qed
  moreover have "region ws \<subseteq> region ms"
    using cov inside_cells unfolding region_def covered_by_def by (smt (verit) UN_iff subset_iff)
  ultimately show thesis using that ms by blast
qed

lemma policy_scope_ok:
  assumes "scope_ok (ep_grid p) s" "policy_scope p n s = (s', rs)"
  shows "scope_ok (ep_grid p) s'" "scope_covers s s'"
  using assms by (auto simp: policy_scope_def scope_ok_def scope_covers_def split: if_splits)

section \<open>Temporal scopes\<close>

definition times_ok :: "int list \<Rightarrow> bool" where
  "times_ok ts \<longleftrightarrow> (\<forall>t\<in>set ts. 0 \<le> t)"

definition temporal_ok :: "temporal_scope \<times> int option \<times> int option \<Rightarrow> bool" where
  "temporal_ok t \<longleftrightarrow> (case t of
       (TimeOne, Some a, None) \<Rightarrow> 0 \<le> a
     | (TimeRange, Some a, Some b) \<Rightarrow> 0 \<le> a \<and> a \<le> b
     | (TimeReplay, Some a, b) \<Rightarrow> a = 0 \<and> (\<forall>b\<in>set_option b. 0 \<le> b)
     | (TimeAll, None, None) \<Rightarrow> True
     | _ \<Rightarrow> False)"

lemma bounds_scope_ok: "times_ok ts \<Longrightarrow> ts \<noteq> [] \<Longrightarrow> temporal_ok (bounds_scope ts)"
  by (auto simp: bounds_scope_def times_ok_def temporal_ok_def Let_def)

lemma temporal_scope_ok: "times_ok requested \<Longrightarrow> times_ok explicit \<Longrightarrow> temporal_ok (temporal_scope_of n driven requested explicit)"
  by (auto simp: temporal_scope_of_def bounds_scope_ok)
    (auto simp: temporal_ok_def times_ok_def)

definition impact_of :: "string \<Rightarrow> node_scope \<Rightarrow> temporal_scope \<times> int option \<times> int option \<Rightarrow> node_impact" where
  "impact_of n s t = \<lparr>ni_node_id = n, ni_spatial_scope = ns_spatial_scope s,
     ni_read_windows = (if ns_spatial_scope s = ScopeWindows then ns_windows s else []),
     ni_write_windows = ns_windows s, ni_temporal_scope = fst t, ni_time_start = fst (snd t), ni_time_stop = snd (snd t)\<rparr>"

lemma scope_eta [simp]: "\<lparr>ns_spatial_scope = ns_spatial_scope s, ns_windows = ns_windows s\<rparr> = (s :: node_scope)"
  by (cases s) simp

lemma impact_of_simps [simp]: "ni_node_id (impact_of n s t) = n" "ni_spatial_scope (impact_of n s t) = ns_spatial_scope s"
  "ni_write_windows (impact_of n s t) = ns_windows s" "ni_temporal_scope (impact_of n s t) = fst t"
  "ni_time_start (impact_of n s t) = fst (snd t)" "ni_time_stop (impact_of n s t) = snd (snd t)"
  by (simp_all add: impact_of_def)

lemma impact_checks:
  assumes "scope_ok grid s" "temporal_ok t" "n \<noteq> []"
  shows "check_node_impact (impact_of n s t) = Inr (impact_of n s t)"
proof -
  obtain k a b where t: "t = (k, a, b)" by (cases t)
  show ?thesis using assms unfolding t
    by (cases k; cases a; cases b)
      (auto simp: check_node_impact_def impact_of_def scope_ok_def temporal_ok_def require_non_empty_def)
qed

section \<open>The walk\<close>

definition stage :: "edit_graph \<Rightarrow> string list \<Rightarrow> string list \<Rightarrow> string \<Rightarrow> bool" where
  "stage g dirty keep n \<longleftrightarrow> n \<in> set dirty \<and>
     (case map_of (eg_kinds g) n of None \<Rightarrow> False | Some k \<Rightarrow> k \<notin> {SOURCE, VIEW} \<and> (k = OUTPUT \<longrightarrow> n \<in> set keep))"

text \<open>What holds of the walk after a prefix \<open>pre\<close> of the order.\<close>

definition walk_inv ::
  "raster_grid \<Rightarrow> edit_graph \<Rightarrow> (string \<times> string) set \<Rightarrow> string list \<Rightarrow> node_scope dict \<Rightarrow> string list \<Rightarrow> string list \<Rightarrow>
   (string \<Rightarrow> temporal_scope \<times> int option \<times> int option) \<Rightarrow> string list \<Rightarrow> walk \<Rightarrow> bool" where
  "walk_inv grid g E sci r0 dirty keep T pre w \<longleftrightarrow>
     (\<forall>n s. map_of (wk_resolved w) n = Some s \<longrightarrow> scope_ok grid s) \<and>
     (\<forall>n. map_of (wk_resolved w) n \<noteq> None \<longleftrightarrow> n \<in> set sci \<or> n \<in> set pre \<and> stage g dirty keep n) \<and>
     (\<forall>m\<in>set sci. \<forall>n s s0. (m, n) \<in> E\<^sup>* \<longrightarrow> map_of r0 m = Some s0 \<longrightarrow> map_of (wk_resolved w) n = Some s \<longrightarrow> scope_covers s0 s) \<and>
     map ni_node_id (wk_impacts w) = filter (stage g dirty keep) pre \<and>
     (\<forall>i\<in>set (wk_impacts w). \<exists>s. map_of (wk_resolved w) (ni_node_id i) = Some s \<and> i = impact_of (ni_node_id i) s (T (ni_node_id i)))"

lemma walk_invD:
  assumes "walk_inv grid g E sci r0 dirty keep T pre w"
  shows "map_of (wk_resolved w) n = Some s \<Longrightarrow> scope_ok grid s"
    "map_of (wk_resolved w) n \<noteq> None \<longleftrightarrow> n \<in> set sci \<or> n \<in> set pre \<and> stage g dirty keep n"
    "m \<in> set sci \<Longrightarrow> (m, n) \<in> E\<^sup>* \<Longrightarrow> map_of r0 m = Some s0 \<Longrightarrow> map_of (wk_resolved w) n = Some s \<Longrightarrow> scope_covers s0 s"
    "map ni_node_id (wk_impacts w) = filter (stage g dirty keep) pre"
    "i \<in> set (wk_impacts w) \<Longrightarrow> \<exists>s. map_of (wk_resolved w) (ni_node_id i) = Some s \<and> i = impact_of (ni_node_id i) s (T (ni_node_id i))"
  using assms unfolding walk_inv_def by blast+

lemma walk_inv_skip:
  assumes "walk_inv grid g E sci r0 dirty keep T pre w" "\<not> stage g dirty keep n"
    and "wk_resolved w' = wk_resolved w" "wk_impacts w' = wk_impacts w"
  shows "walk_inv grid g E sci r0 dirty keep T (pre @ [n]) w'"
  using assms(1,2) unfolding walk_inv_def assms(3,4) by auto

lemma walk_inv_stage:
  assumes inv: "walk_inv grid g E sci r0 dirty keep T pre w" and st: "stage g dirty keep n" "n \<notin> set sci" "n \<notin> set pre"
    and s: "scope_ok grid s" "\<And>m s0. m \<in> set sci \<Longrightarrow> (m, n) \<in> E\<^sup>* \<Longrightarrow> map_of r0 m = Some s0 \<Longrightarrow> scope_covers s0 s"
    and w': "wk_resolved w' = AList.update n s (wk_resolved w)" "wk_impacts w' = wk_impacts w @ [impact_of n s (T n)]"
  shows "walk_inv grid g E sci r0 dirty keep T (pre @ [n]) w'"
proof -
  note d = walk_invD [OF inv]
  have id: "ni_node_id (impact_of n s (T n)) = n" by (simp add: impact_of_def)
  have old: "ni_node_id i \<noteq> n" if "i \<in> set (wk_impacts w)" for i
  proof -
    have "ni_node_id i \<in> set (map ni_node_id (wk_impacts w))" using that by simp
    then show ?thesis unfolding d(4) using st(3) by auto
  qed
  show ?thesis unfolding walk_inv_def w'
  proof (intro conjI allI impI ballI)
    show "scope_ok grid s'" if "map_of (AList.update n s (wk_resolved w)) k = Some s'" for k s'
      using that d(1) s(1) by (auto split: if_splits)
    show "map_of (AList.update n s (wk_resolved w)) k \<noteq> None \<longleftrightarrow> k \<in> set sci \<or> k \<in> set (pre @ [n]) \<and> stage g dirty keep k" for k
      using d(2) [of k] st(1) by auto
    show "scope_covers s0 s'" if "m \<in> set sci" "(m, k) \<in> E\<^sup>*" "map_of r0 m = Some s0" "map_of (AList.update n s (wk_resolved w)) k = Some s'" for m k s' s0
      using that d(3) [OF that(1,2,3)] s(2) [OF that(1)] by (auto split: if_splits)
    show "map ni_node_id (wk_impacts w @ [impact_of n s (T n)]) = filter (stage g dirty keep) (pre @ [n])"
      using d(4) st(1) id by simp
    show "\<exists>s'. map_of (AList.update n s (wk_resolved w)) (ni_node_id i) = Some s' \<and> i = impact_of (ni_node_id i) s' (T (ni_node_id i))"
      if "i \<in> set (wk_impacts w @ [impact_of n s (T n)])" for i
      using that d(5) [of i] old [of i] id by auto
  qed
qed

locale layered_graph =
  fixes nodes :: "graph_node list" and edges :: "(string \<times> string) list" and g :: edit_graph
  assumes built: "mk_edit_graph nodes edges = Inr g"
    and outputs_last: "(a, b) \<in> set edges \<Longrightarrow> map_of (eg_kinds g) a = Some OUTPUT \<Longrightarrow> map_of (eg_kinds g) b = Some OUTPUT"
    and sources_first: "(a, b) \<in> set edges \<Longrightarrow> map_of (eg_kinds g) b \<notin> {Some SOURCE, Some VIEW}"
    and never_feeds: "(a, b) \<in> set edges \<Longrightarrow> a \<notin> set NEVER_PLANNED_OUTPUTS"
    and priced: "map_of (eg_kinds g) n = Some k \<Longrightarrow> k \<notin> {SOURCE, VIEW} \<Longrightarrow> map_of NODE_EXECUTION_COSTS n \<noteq> None"
begin

lemma ids: "set (dict_keys (eg_kinds g)) = set (ids_of nodes)"
  by (rule graph_ids [OF built])

lemma graph_ok: "nodes_ok nodes" "edges_ok (ids_of nodes) edges"
  using built_graph_only [OF built] by auto

lemma within: "(a, b) \<in> set edges \<Longrightarrow> a \<in> set (ids_of nodes) \<and> b \<in> set (ids_of nodes)"
  using graph_ok(2) by (auto simp: edges_ok_def)

lemma kind_known: "n \<in> set (ids_of nodes) \<Longrightarrow> \<exists>k. map_of (eg_kinds g) n = Some k"
  unfolding ids [symmetric] using map_of_None_keys [of "eg_kinds g" n] by (cases "map_of (eg_kinds g) n") auto

lemma kind_id: "map_of (eg_kinds g) n = Some k \<Longrightarrow> n \<in> set (ids_of nodes) \<and> n \<noteq> []"
  using map_of_Some_keys [of "eg_kinds g" n k] ids graph_ok(1) by (auto simp: nodes_ok_def)

lemma order: "distinct (topological_order g)" "set (topological_order g) = set (ids_of nodes)" "before_in (topological_order g) (set edges)"
proof -
  have "node_graph (set (ids_of nodes)) (set edges)" by (rule graph_adjacency(3) [OF graph_ok(2)])
  moreover have "node_graph.greedy (set (ids_of nodes)) (set edges) (eg_order g) \<and> set (eg_order g) = set (ids_of nodes)"
    using built_graph [OF graph_ok] built by (auto split: if_splits)
  ultimately show "distinct (topological_order g)" "set (topological_order g) = set (ids_of nodes)" "before_in (topological_order g) (set edges)"
    using greedy_order [of "set (ids_of nodes)" "set edges" "eg_order g"] node_graph.greedy_distinct [of "set (ids_of nodes)" "set edges" "eg_order g"]
    unfolding topological_order_def by auto
qed

lemma parents: "n \<in> set (ids_of nodes) \<Longrightarrow> \<exists>ps. graph_parents g n = Inr ps \<and> set ps = {q. (q, n) \<in> set edges}"
proof -
  assume n: "n \<in> set (ids_of nodes)"
  have "adjacency_ok (set (ids_of nodes)) ((set edges)\<inverse>) (eg_parents g)"
    using built_graph [OF graph_ok] built by (auto split: if_splits)
  then have "set (dict_get (eg_parents g) n []) = {q. (q, n) \<in> set edges}" using n by (auto simp: adjacency_ok_def)
  then show ?thesis using kind_known [OF n] by (auto simp: graph_parents_def graph_kind_def)
qed

lemma down: "set ns \<subseteq> set (ids_of nodes) \<Longrightarrow> \<exists>c. downstream g ns = Inr c \<and> set c = (set edges)\<^sup>* `` set ns"
  using built_closures [OF built] by blast

lemma reach_known: "(m, n) \<in> (set edges)\<^sup>* \<Longrightarrow> m \<in> set (ids_of nodes) \<Longrightarrow> n \<in> set (ids_of nodes)"
  by (induction rule: rtrancl_induct) (auto dest: within)

lemma no_parent: "map_of (eg_kinds g) n \<in> {Some SOURCE, Some VIEW} \<Longrightarrow> (m, n) \<in> (set edges)\<^sup>* \<Longrightarrow> m = n"
  using sources_first rtranclD [of m n "set edges"] by (auto dest: tranclD2)

text \<open>The dirty parents of a node, all of them resolved, give it a scope that covers each of them.\<close>

lemma scopes_of_parents:
  assumes "n \<in> set (ids_of nodes)" "\<And>q. (q, n) \<in> set edges \<Longrightarrow> q \<in> set dirty \<Longrightarrow> map_of res q \<noteq> None"
  obtains scopes where "parent_scopes g dirty res n = Inr scopes"
    "\<And>s. s \<in> set scopes \<longleftrightarrow> (\<exists>q. (q, n) \<in> set edges \<and> q \<in> set dirty \<and> map_of res q = Some s)"
proof -
  obtain ps where ps: "graph_parents g n = Inr ps" "set ps = {q. (q, n) \<in> set edges}" using parents [OF assms(1)] by blast
  let ?dp = "sort (filter (\<lambda>q. q \<in> set dirty) ps)"
  have "traverse (\<lambda>q. case map_of res q of None \<Rightarrow> Inl (PythonFailure (KeyError q)) | Some s \<Rightarrow> Inr s) ?dp = Inr (map (\<lambda>q. the (map_of res q)) ?dp)"
    by (rule traverse_total) (use assms(2) ps(2) in \<open>auto split: option.splits\<close>)
  then have "parent_scopes g dirty res n = Inr (map (\<lambda>q. the (map_of res q)) ?dp)"
    by (simp add: parent_scopes_def ps(1))
  moreover have "s \<in> set (map (\<lambda>q. the (map_of res q)) ?dp) \<longleftrightarrow> (\<exists>q. (q, n) \<in> set edges \<and> q \<in> set dirty \<and> map_of res q = Some s)" for s
    using assms(2) ps(2) by force
  ultimately show thesis by (rule that)
qed

lemma derived_scope:
  assumes n: "n \<in> set (ids_of nodes)" "\<And>q. (q, n) \<in> set edges \<Longrightarrow> q \<in> set dirty \<Longrightarrow> map_of res q \<noteq> None"
    and ok: "\<And>q s. map_of res q = Some s \<Longrightarrow> scope_ok grid s"
    and ex: "(q0, n) \<in> set edges" "q0 \<in> set dirty"
  obtains s where "resolve_derived_scope g dirty res n = Inr s" "scope_ok grid s"
    "\<And>q sq. (q, n) \<in> set edges \<Longrightarrow> q \<in> set dirty \<Longrightarrow> map_of res q = Some sq \<Longrightarrow> scope_covers sq s"
proof -
  obtain scopes where sc: "parent_scopes g dirty res n = Inr scopes"
    and mem: "\<And>s. s \<in> set scopes \<longleftrightarrow> (\<exists>q. (q, n) \<in> set edges \<and> q \<in> set dirty \<and> map_of res q = Some s)"
    using scopes_of_parents [OF n] by blast
  have oks: "scope_ok grid s" if "s \<in> set scopes" for s using that mem ok by blast
  have ne: "scopes \<noteq> []" using mem n(2) [OF ex] ex by fastforce
  show thesis
  proof (cases "\<exists>s\<in>set scopes. ns_spatial_scope s = ScopeFull")
    case True
    then have "resolve_derived_scope g dirty res n = Inr \<lparr>ns_spatial_scope = ScopeFull, ns_windows = []\<rparr>"
      by (simp add: resolve_derived_scope_def sc)
    then show thesis by (rule that) (simp_all add: scope_ok_def scope_covers_def)
  next
    case False
    then have win: "ns_spatial_scope s = ScopeWindows \<and> ns_windows s \<noteq> [] \<and> (\<forall>w\<in>set (ns_windows s). solid w \<and> inside w (full_window grid))"
      if "s \<in> set scopes" for s using oks [OF that] that by (auto simp: scope_ok_def)
    let ?ws = "concat (map ns_windows scopes)"
    have "?ws \<noteq> []" using ne win by (cases scopes) auto
    moreover have "solid w \<and> inside w (full_window grid)" if "w \<in> set ?ws" for w using that win by auto
    ultimately obtain ms where ms: "merge_windows ?ws 0 = Inr ms" "ms \<noteq> []"
      "\<And>w. w \<in> set ms \<Longrightarrow> solid w \<and> inside w (full_window grid)" "region ?ws \<subseteq> region ms"
      using merged_windows [of ?ws "full_window grid"] by metis
    have r: "resolve_derived_scope g dirty res n = Inr \<lparr>ns_spatial_scope = ScopeWindows, ns_windows = ms\<rparr>"
      using False \<open>?ws \<noteq> []\<close> ms(1,2) by (simp add: resolve_derived_scope_def sc Let_def)
    have "region (ns_windows sq) \<subseteq> region ms" if "sq \<in> set scopes" for sq
      using that ms(4) by (auto simp: region_def)
    then have "scope_covers sq \<lparr>ns_spatial_scope = ScopeWindows, ns_windows = ms\<rparr>" if "sq \<in> set scopes" for sq
      using that win by (simp add: scope_covers_def)
    then show thesis using mem ms(2,3) by (intro that [OF r]) (auto simp: scope_ok_def)
  qed
qed

lemma walk_step:
  assumes p: "ep_graph p = g" and sci: "\<forall>m\<in>set sci. map_of (eg_kinds g) m = Some SOURCE" and dirty: "set dirty = (set edges)\<^sup>* `` set sci"
    and keep: "\<forall>a b. (a, b) \<in> set edges \<longrightarrow> map_of (eg_kinds g) a = Some OUTPUT \<longrightarrow> b \<in> set keep \<longrightarrow> a \<in> set keep"
    and T: "\<And>n. T n = temporal_scope_of n (n \<in> set fd) rq ex" "\<And>n. temporal_ok (T n)"
    and inv: "walk_inv (ep_grid p) g (set edges) sci r0 dirty keep T pre w"
    and ord: "topological_order g = pre @ n # post"
  shows "\<exists>w'. walk_node p dirty fd keep rq ex w n = Inr w' \<and> walk_inv (ep_grid p) g (set edges) sci r0 dirty keep T (pre @ [n]) w'"
proof -
  note d = walk_invD [OF inv]
  have n: "n \<in> set (ids_of nodes)" "n \<notin> set pre" using order(1,2) ord by auto
  obtain k where k: "map_of (eg_kinds g) n = Some k" using kind_known [OF n(1)] by blast
  have kd: "graph_kind g n = Inr k" "is_executable g n = Inr (k \<notin> {SOURCE, VIEW})" using k by (simp_all add: is_executable_def graph_kind_def)
  show ?thesis
  proof (cases "n \<in> set dirty")
    case False
    then have "walk_node p dirty fd keep rq ex w n = Inr w" by (simp add: walk_node_def)
    then show ?thesis using False by (intro exI [of _ w] conjI walk_inv_skip [OF inv]) (simp_all add: stage_def)
  next
    case dn: True
    show ?thesis
    proof (cases "k = OUTPUT \<and> n \<notin> set keep")
      case True
      then have "walk_node p dirty fd keep rq ex w n = Inr (w\<lparr>wk_reasons := wk_reasons w @ [OutputSkipped n]\<rparr>)"
        using dn by (simp add: walk_node_def p kd)
      then show ?thesis using True k by (auto intro!: walk_inv_skip [OF inv] simp: stage_def)
    next
      case kept: False
      show ?thesis
      proof (cases "n \<in> set sci")
        case True
        then have ks: "k = SOURCE" using sci k by auto
        obtain s where "map_of (wk_resolved w) n = Some s" using d(2) [of n] True by auto
        then have "walk_node p dirty fd keep rq ex w n = Inr w" using dn ks by (simp add: walk_node_def p kd)
        then show ?thesis using k ks by (intro exI [of _ w] conjI walk_inv_skip [OF inv]) (simp_all add: stage_def)
      next
        case ns: False
        obtain m where m: "m \<in> set sci" "(m, n) \<in> (set edges)\<^sup>*" using dn dirty by auto
        then have "(m, n) \<in> (set edges)\<^sup>+" using ns rtranclD [OF m(2)] by auto
        then obtain q0 where q0: "(m, q0) \<in> (set edges)\<^sup>*" "(q0, n) \<in> set edges" by (auto dest: tranclD2)
        have q0d: "q0 \<in> set dirty" using q0(1) m(1) dirty by blast
        have kx: "k \<notin> {SOURCE, VIEW}" using sources_first [OF q0(2)] k by auto
        have st: "stage g dirty keep n" using dn k kx kept by (simp add: stage_def)
        have res: "map_of (wk_resolved w) q \<noteq> None" if q: "(q, n) \<in> set edges" "q \<in> set dirty" for q
        proof (cases "q \<in> set sci")
          case False
          have pre: "q \<in> set pre" using order(3) ord q(1) unfolding before_in_def by blast
          obtain kq where kq: "map_of (eg_kinds g) q = Some kq" using kind_known within [OF q(1)] by blast
          obtain m' where m': "m' \<in> set sci" "(m', q) \<in> (set edges)\<^sup>*" using q(2) dirty by auto
          have "kq \<notin> {SOURCE, VIEW}" using no_parent [of q m'] kq m' False by auto
          moreover have "kq = OUTPUT \<longrightarrow> q \<in> set keep" using outputs_last [OF q(1)] keep [rule_format, OF q(1)] kq k kept by auto
          ultimately show ?thesis using d(2) [of q] pre q(2) kq by (simp add: stage_def)
        qed (use d(2) [of q] in simp)
        obtain scopes where scopes: "parent_scopes g dirty (wk_resolved w) n = Inr scopes"
          using scopes_of_parents [OF n(1) res] by metis
        obtain s where s: "resolve_derived_scope g dirty (wk_resolved w) n = Inr s" "scope_ok (ep_grid p) s"
          "\<And>q sq. (q, n) \<in> set edges \<Longrightarrow> q \<in> set dirty \<Longrightarrow> map_of (wk_resolved w) q = Some sq \<Longrightarrow> scope_covers sq s"
        proof (rule derived_scope [OF n(1), of dirty "wk_resolved w" "ep_grid p" q0])
          show "map_of (wk_resolved w) q \<noteq> None" if "(q, n) \<in> set edges" "q \<in> set dirty" for q by (rule res [OF that])
          show "scope_ok (ep_grid p) s" if "map_of (wk_resolved w) q = Some s" for q s by (rule d(1) [OF that])
        qed (use q0(2) q0d in blast)+
        obtain s' rs where ps: "policy_scope p n s = (s', rs)" by (cases "policy_scope p n s")
        note s' = policy_scope_ok [OF s(2) ps]
        obtain parents where par: "graph_parents g n = Inr parents" using parents [OF n(1)] by blast
        have ne: "n \<noteq> []" using kind_id [OF k] by simp
        have none: "map_of (wk_resolved w) n = None" using d(2) [of n] ns n(2) by auto
        have bi: "build_impact p dirty fd rq ex (wk_resolved w) n s = Inr (impact_of n s' (T n), rs)"
          using impact_checks [OF s'(1) T(2) ne, of n] unfolding build_impact_def p par T(1)
          by (cases "temporal_scope_of n (n \<in> set fd) rq ex") (simp add: scopes ps impact_of_def)
        then have step: "walk_node p dirty fd keep rq ex w n = Inr
            \<lparr>wk_resolved = AList.update n s' (wk_resolved w), wk_impacts = wk_impacts w @ [impact_of n s' (T n)], wk_reasons = wk_reasons w @ rs\<rparr>"
          using dn kept kx by (auto simp: walk_node_def p kd none s(1) bi)
        have cov: "scope_covers s0 s'" if "m \<in> set sci" "(m, n) \<in> (set edges)\<^sup>*" "map_of r0 m = Some s0" for m s0
        proof -
          have "(m, n) \<in> (set edges)\<^sup>+" using ns that(1) rtranclD [OF that(2)] by auto
          then obtain q where q: "(m, q) \<in> (set edges)\<^sup>*" "(q, n) \<in> set edges" by (auto dest: tranclD2)
          have qd: "q \<in> set dirty" using q(1) that(1) dirty by blast
          obtain sq where sq: "map_of (wk_resolved w) q = Some sq" using res [OF q(2) qd] by auto
          have "scope_covers s0 sq" by (rule d(3) [OF that(1) q(1) that(3) sq])
          then show ?thesis using s(3) [OF q(2) qd sq] s'(2) scope_covers_trans by blast
        qed
        show ?thesis by (intro exI conjI, rule step, rule walk_inv_stage [OF inv st ns n(2) s'(1) cov]) simp_all
      qed
    qed
  qed
qed

lemma walk_all:
  assumes p: "ep_graph p = g" and sci: "\<forall>m\<in>set sci. map_of (eg_kinds g) m = Some SOURCE" and dirty: "set dirty = (set edges)\<^sup>* `` set sci"
    and keep: "\<forall>a b. (a, b) \<in> set edges \<longrightarrow> map_of (eg_kinds g) a = Some OUTPUT \<longrightarrow> b \<in> set keep \<longrightarrow> a \<in> set keep"
    and T: "\<And>n. T n = temporal_scope_of n (n \<in> set fd) rq ex" "\<And>n. temporal_ok (T n)"
    and r0: "\<forall>n s. map_of r0 n = Some s \<longrightarrow> scope_ok (ep_grid p) s" "\<And>n. map_of r0 n \<noteq> None \<longleftrightarrow> n \<in> set sci"
  shows "\<exists>w. fold_exc (walk_node p dirty fd keep rq ex) \<lparr>wk_resolved = r0, wk_impacts = [], wk_reasons = rs\<rparr> (topological_order g) = Inr w \<and>
    walk_inv (ep_grid p) g (set edges) sci r0 dirty keep T (topological_order g) w"
proof -
  have start: "walk_inv (ep_grid p) g (set edges) sci r0 dirty keep T [] \<lparr>wk_resolved = r0, wk_impacts = [], wk_reasons = rs\<rparr>"
    unfolding walk_inv_def
  proof (intro conjI allI impI ballI)
    fix m n s s0
    assume h: "m \<in> set sci" "(m, n) \<in> (set edges)\<^sup>*" "map_of r0 m = Some s0"
      "map_of (wk_resolved \<lparr>wk_resolved = r0, wk_impacts = [], wk_reasons = rs\<rparr>) n = Some s"
    then have "n \<in> set sci" using r0(2) [of n] by simp
    then have "m = n" using no_parent [OF _ h(2)] sci by auto
    then show "scope_covers s0 s" using h scope_covers_refl [OF r0(1) [rule_format]] by auto
  qed (use r0 in auto)
  have "\<exists>w. fold_exc (walk_node p dirty fd keep rq ex) w0 post = Inr w \<and>
      walk_inv (ep_grid p) g (set edges) sci r0 dirty keep T (pre @ post) w"
    if "walk_inv (ep_grid p) g (set edges) sci r0 dirty keep T pre w0" "topological_order g = pre @ post" for pre post w0
    using that
  proof (induction post arbitrary: pre w0)
    case (Cons n post)
    obtain w1 where w1: "walk_node p dirty fd keep rq ex w0 n = Inr w1"
      "walk_inv (ep_grid p) g (set edges) sci r0 dirty keep T (pre @ [n]) w1"
      using walk_step [OF p sci dirty keep T Cons.prems] by blast
    then show ?case using Cons.IH [OF w1(2)] Cons.prems(2) by simp
  qed simp
  from this [OF start] show ?thesis by simp
qed

end

section \<open>The scene graph\<close>

lemma scene_kinds: "default_edit_graph = Inr g \<Longrightarrow> eg_kinds g = map (\<lambda>n. (gn_node_id n, gn_kind n)) GRAPH_NODES"
  using built_graph [OF scene_graph_ok] scene_graph_acyclic unfolding default_edit_graph_def by auto

lemma scene_edges_layered:
  "list_all (\<lambda>(a, b). (map_of (map (\<lambda>n. (gn_node_id n, gn_kind n)) GRAPH_NODES) a = Some OUTPUT \<longrightarrow>
       map_of (map (\<lambda>n. (gn_node_id n, gn_kind n)) GRAPH_NODES) b = Some OUTPUT) \<and>
     map_of (map (\<lambda>n. (gn_node_id n, gn_kind n)) GRAPH_NODES) b \<notin> {Some SOURCE, Some VIEW} \<and> a \<notin> set NEVER_PLANNED_OUTPUTS) GRAPH_EDGES"
  by (simp add: GRAPH_NODES_def GRAPH_EDGES_def NEVER_PLANNED_OUTPUTS_def)

lemma scene_nodes_priced:
  "list_all (\<lambda>n. gn_kind n \<in> {SOURCE, VIEW} \<or> map_of NODE_EXECUTION_COSTS (gn_node_id n) \<noteq> None) GRAPH_NODES"
  by (simp add: GRAPH_NODES_def NODE_EXECUTION_COSTS_def)

definition scene_graph_value :: edit_graph where
  "scene_graph_value = projr default_edit_graph"

lemma scene_graph_built: "default_edit_graph = Inr scene_graph_value"
  unfolding scene_graph_value_def using scene_graph_builds by (metis sum.sel(2))

interpretation scene_plan: layered_graph GRAPH_NODES GRAPH_EDGES scene_graph_value
proof
  note kinds = scene_kinds [OF scene_graph_built]
  show "mk_edit_graph GRAPH_NODES GRAPH_EDGES = Inr scene_graph_value"
    using scene_graph_built by (simp add: default_edit_graph_def)
  fix a b
  assume "(a, b) \<in> set GRAPH_EDGES"
  note at = scene_edges_layered [unfolded list_all_iff, rule_format, OF this, unfolded prod.case, folded kinds]
  show "map_of (eg_kinds scene_graph_value) a = Some OUTPUT \<Longrightarrow> map_of (eg_kinds scene_graph_value) b = Some OUTPUT" using at by blast
  show "map_of (eg_kinds scene_graph_value) b \<notin> {Some SOURCE, Some VIEW}" using at by blast
  show "a \<notin> set NEVER_PLANNED_OUTPUTS" using at by blast
next
  fix n k
  assume h: "map_of (eg_kinds scene_graph_value) n = Some k" "k \<notin> {SOURCE, VIEW}"
  then obtain x where "x \<in> set GRAPH_NODES" "gn_node_id x = n" "gn_kind x = k"
    unfolding scene_kinds [OF scene_graph_built] by (auto dest!: map_of_SomeD)
  then show "map_of NODE_EXECUTION_COSTS n \<noteq> None"
    using scene_nodes_priced [unfolded list_all_iff] h(2) by blast
qed

section \<open>Transport and estimates\<close>

lemma union_fold:
  assumes "solid a" "\<forall>w\<in>set ws. solid w"
  shows "\<exists>u. fold_exc rw_union a ws = Inr u \<and> inside a u \<and> (\<forall>w\<in>set ws. inside w u)"
  using assms
proof (induction ws arbitrary: a)
  case (Cons w ws)
  obtain v where v: "rw_union a w = Inr v" "solid v" "inside a v" "inside w v" using rw_union_solid Cons.prems by (metis list.set_intros(1))
  obtain u where "fold_exc rw_union v ws = Inr u" "inside v u" "\<forall>w\<in>set ws. inside w u" using Cons.IH [OF v(2)] Cons.prems(2) by auto
  then show ?case using v inside_trans by auto
qed simp

definition transports :: "raster_window option \<Rightarrow> node_impact list \<Rightarrow> bool" where
  "transports t is \<longleftrightarrow> (\<forall>i\<in>set is. \<forall>w\<in>set (ni_write_windows i). \<exists>u. t = Some u \<and> inside w u)"

lemma transport_total:
  assumes "\<forall>i\<in>set is. \<forall>w\<in>set (ni_write_windows i). solid w"
  shows "\<exists>t. transport_window is = Inr t \<and> transports t is"
proof (cases "concat (map ni_write_windows is)")
  case Nil
  then have "transport_window is = Inr None" by (simp add: transport_window_def del: concat_eq_Nil_conv)
  moreover have "ni_write_windows i = []" if "i \<in> set is" for i using Nil that by simp
  ultimately show ?thesis by (auto simp: transports_def)
next
  case (Cons w ws)
  have solids: "\<forall>v\<in>set (w # ws). solid v" using assms unfolding Cons [symmetric] by auto
  have "rw_union no_window w = Inr w" by (simp add: rw_union_def no_window_def rw_is_empty_def rw_width_def)
  moreover obtain u where u: "fold_exc rw_union w ws = Inr u" "inside w u" "\<forall>v\<in>set ws. inside v u"
    using union_fold [of w ws] solids by auto
  ultimately have "transport_window is = Inr (Some u)" by (simp add: transport_window_def Cons)
  moreover have "inside v u" if "v \<in> set (concat (map ni_write_windows is))" for v using that u unfolding Cons by auto
  ultimately show ?thesis by (auto simp: transports_def)
qed

lemma costs_nonnegative:
  assumes "map_of NODE_EXECUTION_COSTS n = Some c"
  shows "0 \<le> nc_float32_layers_per_step c \<and> 0 \<le> nc_relative_work c"
proof -
  have "list_all (\<lambda>(n, c). 0 \<le> nc_float32_layers_per_step c \<and> 0 \<le> nc_relative_work c) NODE_EXECUTION_COSTS"
    by (simp add: NODE_EXECUTION_COSTS_def)
  then show ?thesis using map_of_SomeD [OF assms] unfolding list_all_iff by blast
qed

lemma solid_area: "solid w \<Longrightarrow> 0 \<le> rw_area w"
  by (auto simp: solid_def window_ok_def rw_area_def rw_width_def rw_height_def)

lemma impact_estimate:
  assumes "scope_ok (ep_grid p) s" "temporal_ok t" "map_of NODE_EXECUTION_COSTS n \<noteq> None" "0 \<le> area_pixels (ep_grid p)"
    and "0 \<le> fst st" "0 \<le> snd st"
  shows "\<exists>st'. add_estimate p rq context st (impact_of n s t) = Inr st' \<and> 0 \<le> fst st' \<and> 0 \<le> snd st'"
proof -
  obtain c where c: "map_of NODE_EXECUTION_COSTS n = Some c" using assms(3) by auto
  have "0 \<le> sum_list (map rw_area (ns_windows s))"
    by (rule sum_list_nonneg) (use assms(1) solid_area in \<open>auto simp: scope_ok_def\<close>)
  then have px: "0 \<le> impact_pixels p (impact_of n s t)" using assms(4) by (simp add: impact_pixels_def)
  have "\<exists>k. impact_steps p rq context (impact_of n s t) = Inr k \<and> 0 \<le> k"
    using assms(2) by (auto simp: impact_steps_def temporal_ok_def unbounded_steps_def split: temporal_scope.splits option.splits prod.splits)
  then obtain k where k: "impact_steps p rq context (impact_of n s t) = Inr k" "0 \<le> k" by blast
  have "ns_spatial_scope s \<noteq> ScopeNone" using assms(1) by (auto simp: scope_ok_def)
  then show ?thesis using c k px costs_nonnegative [OF c] assms(5,6)
    by (auto simp: add_estimate_def BYTES_PER_LAYER_ELEMENT_def WORK_UNIT_PIXEL_STEPS_def intro!: add_nonneg_nonneg mult_nonneg_nonneg divide_nonneg_nonneg)
qed

definition impact_ok :: "edit_planner \<Rightarrow> node_impact \<Rightarrow> bool" where
  "impact_ok p i \<longleftrightarrow> (\<exists>s t. i = impact_of (ni_node_id i) s t \<and> scope_ok (ep_grid p) s \<and> temporal_ok t) \<and> ni_node_id i \<noteq> [] \<and>
     map_of NODE_EXECUTION_COSTS (ni_node_id i) \<noteq> None"

lemma estimate_total:
  assumes "\<forall>i\<in>set is. impact_ok p i" "0 \<le> area_pixels (ep_grid p)"
  shows "\<exists>m u. estimate p rq context is = Inr (m, u) \<and> 0 \<le> m \<and> 0 \<le> u"
proof -
  have "\<exists>st. estimate p rq context is = Inr st \<and> (0 \<le> fst st \<and> 0 \<le> snd st)"
    unfolding estimate_def
  proof (rule fold_exc_total)
    fix st i
    assume i: "i \<in> set is" and st: "0 \<le> fst st \<and> (0 :: rat) \<le> snd (st :: int \<times> rat)"
    obtain s t where "i = impact_of (ni_node_id i) s t" "scope_ok (ep_grid p) s" "temporal_ok t" "map_of NODE_EXECUTION_COSTS (ni_node_id i) \<noteq> None"
      using assms(1) i unfolding impact_ok_def by blast
    then show "\<exists>st'. add_estimate p rq context st i = Inr st' \<and> 0 \<le> fst st' \<and> 0 \<le> snd st'"
      using impact_estimate [of p s t "ni_node_id i" st] assms(2) st by metis
  qed simp
  then show ?thesis by auto
qed

section \<open>Source scopes\<close>

definition source_cells :: "raster_grid \<Rightarrow> source_delta list \<Rightarrow> (int \<times> int) set" where
  "source_cells grid deltas = region (concat (map spatial_windows deltas)) \<inter> cells (full_window grid)"

definition whole_tile :: "adapter_registry \<Rightarrow> raster_grid \<Rightarrow> source_delta list \<Rightarrow> bool" where
  "whole_tile r grid deltas \<longleftrightarrow>
     (\<exists>d\<in>set deltas. \<exists>m. get_metadata r (sd_adapter_id d) = Inr m \<and> (am_status m = FullOnlyInitially \<or> is_full_spatial m)) \<or>
     source_cells grid deltas = {}"

lemma clamp_in_grid:
  assumes "window_ok w" "0 < rg_rows grid" "0 < rg_cols grid"
  shows "\<exists>v. rw_clamp w (rg_rows grid) (rg_cols grid) = Inr v \<and> window_ok v \<and> cells v = cells w \<inter> cells (full_window grid) \<and> inside v (full_window grid)"
proof -
  have f: "cells (full_window grid) = {0 ..< rg_rows grid} \<times> {0 ..< rg_cols grid}" by (simp add: cells_def full_window_def)
  obtain v where "rw_clamp w (rg_rows grid) (rg_cols grid) = Inr v" "window_ok v" "cells v = cells w \<inter> {0 ..< rg_rows grid} \<times> {0 ..< rg_cols grid}"
    "0 \<le> rw_row_start v" "rw_row_stop v \<le> rg_rows grid" "0 \<le> rw_col_start v" "rw_col_stop v \<le> rg_cols grid"
    by (rule rw_clamp_cells [OF assms])
  then show ?thesis unfolding f by (auto simp: inside_def full_window_def)
qed

lemma clamped_region:
  assumes "\<forall>w\<in>set (concat (map spatial_windows deltas)). window_ok w" "0 < rg_rows grid" "0 < rg_cols grid"
  shows "\<exists>vs. clamped_windows grid deltas = Inr vs \<and> (\<forall>v\<in>set vs. solid v \<and> inside v (full_window grid)) \<and> region vs = source_cells grid deltas"
proof -
  let ?ws = "concat (map spatial_windows deltas)"
  have "\<forall>w\<in>set ?ws. \<exists>v. rw_clamp w (rg_rows grid) (rg_cols grid) = Inr v \<and> window_ok v \<and> cells v = cells w \<inter> cells (full_window grid) \<and> inside v (full_window grid)"
    using assms(1) clamp_in_grid [OF _ assms(2,3)] by blast
  then obtain f where f: "\<forall>w\<in>set ?ws. rw_clamp w (rg_rows grid) (rg_cols grid) = Inr (f w) \<and> window_ok (f w) \<and>
      cells (f w) = cells w \<inter> cells (full_window grid) \<and> inside (f w) (full_window grid)" by metis
  have "traverse (\<lambda>w. rw_clamp w (rg_rows grid) (rg_cols grid)) ?ws = Inr (map f ?ws)"
    by (rule traverse_total) (use f in blast)
  then have c: "clamped_windows grid deltas = Inr (filter (\<lambda>v. \<not> rw_is_empty v) (map f ?ws))" by (simp add: clamped_windows_def)
  have "region (filter (\<lambda>v. \<not> rw_is_empty v) (map f ?ws)) = (\<Union>w\<in>set ?ws. cells (f w))"
    using f is_empty_cells by (fastforce simp: region_def)
  also have "\<dots> = (\<Union>w\<in>set ?ws. cells w \<inter> cells (full_window grid))" using f by (intro SUP_cong) auto
  also have "\<dots> = source_cells grid deltas" unfolding source_cells_def region_def by blast
  finally have r: "region (filter (\<lambda>v. \<not> rw_is_empty v) (map f ?ws)) = source_cells grid deltas" .
  have "\<forall>v\<in>set (filter (\<lambda>v. \<not> rw_is_empty v) (map f ?ws)). solid v \<and> inside v (full_window grid)" using f by (auto simp: solid_def)
  then show ?thesis using c r by blast
qed

lemma source_scope:
  assumes known: "\<forall>d\<in>set deltas. \<exists>m. get_metadata (ep_registry p) (sd_adapter_id d) = Inr m"
    and ok: "\<forall>w\<in>set (concat (map spatial_windows deltas)). window_ok w" "0 < rg_rows (ep_grid p)" "0 < rg_cols (ep_grid p)"
  shows "\<exists>s rs. resolve_source_scope p n deltas = Inr (s, rs) \<and> scope_ok (ep_grid p) s \<and>
    (ns_spatial_scope s = ScopeFull \<longleftrightarrow> whole_tile (ep_registry p) (ep_grid p) deltas) \<and>
    (ns_spatial_scope s = ScopeWindows \<longrightarrow> source_cells (ep_grid p) deltas \<subseteq> region (ns_windows s))"
proof -
  obtain f where f: "\<forall>d\<in>set deltas. get_metadata (ep_registry p) (sd_adapter_id d) = Inr (f d)" using known by metis
  then have t: "traverse (\<lambda>d. get_metadata (ep_registry p) (sd_adapter_id d)) deltas = Inr (map f deltas)"
    by (intro traverse_total) blast
  have mem: "(\<exists>d\<in>set deltas. \<exists>m. get_metadata (ep_registry p) (sd_adapter_id d) = Inr m \<and> P m) \<longleftrightarrow> (\<exists>m\<in>set (map f deltas). P m)" for P
    using f by auto
  obtain vs where vs: "clamped_windows (ep_grid p) deltas = Inr vs" "\<forall>v\<in>set vs. solid v \<and> inside v (full_window (ep_grid p))"
    "region vs = source_cells (ep_grid p) deltas" using clamped_region [OF ok] by blast
  have empty: "source_cells (ep_grid p) deltas = {} \<longleftrightarrow> vs = []"
    using vs(2) is_empty_cells unfolding vs(3) [symmetric] region_def by (cases vs) (auto simp: solid_def)
  note unfold = resolve_source_scope_def t whole_tile_def mem empty
  consider "\<exists>m\<in>set (map f deltas). am_status m = FullOnlyInitially \<or> is_full_spatial m" | "vs = []"
    | "\<not> (\<exists>m\<in>set (map f deltas). am_status m = FullOnlyInitially \<or> is_full_spatial m)" "vs \<noteq> []" by blast
  then show ?thesis
  proof cases
    case 1
    then have "\<exists>rs. resolve_source_scope p n deltas = Inr (\<lparr>ns_spatial_scope = ScopeFull, ns_windows = []\<rparr>, rs)"
      by (auto simp: resolve_source_scope_def t)
    moreover have "whole_tile (ep_registry p) (ep_grid p) deltas" using 1 unfolding whole_tile_def mem by blast
    ultimately show ?thesis by (auto simp: scope_ok_def)
  next
    case 2
    then have "\<exists>rs. resolve_source_scope p n deltas = Inr (\<lparr>ns_spatial_scope = ScopeFull, ns_windows = []\<rparr>, rs)"
      using vs(1) by (auto simp: resolve_source_scope_def t)
    moreover have "whole_tile (ep_registry p) (ep_grid p) deltas" using 2 unfolding whole_tile_def empty by blast
    ultimately show ?thesis by (auto simp: scope_ok_def)
  next
    case 3
    obtain ms where ms: "merge_windows vs 0 = Inr ms" "ms \<noteq> []" "\<And>w. w \<in> set ms \<Longrightarrow> solid w \<and> inside w (full_window (ep_grid p))" "region vs \<subseteq> region ms"
      using merged_windows [of vs "full_window (ep_grid p)"] vs(2) 3(2) by metis
    have "resolve_source_scope p n deltas = Inr (\<lparr>ns_spatial_scope = ScopeWindows, ns_windows = ms\<rparr>, [])"
      using 3 vs(1) ms(1) by (auto simp: resolve_source_scope_def t)
    moreover have "\<not> whole_tile (ep_registry p) (ep_grid p) deltas" using 3 unfolding whole_tile_def mem empty by blast
    ultimately show ?thesis using ms vs(3) by (auto simp: scope_ok_def)
  qed
qed

lemma resolve_sources:
  assumes "distinct sci" "set sci \<inter> set (dict_keys r) = {}"
    and "\<forall>n\<in>set sci. \<exists>rs. resolve_source_scope p n (dict_get changed n []) = Inr (scope n, rs)"
  shows "\<exists>r' rs'. fold_exc (resolve_source p changed) (r, rs) sci = Inr (r', rs') \<and>
    (\<forall>n. map_of r' n = (if n \<in> set sci then Some (scope n) else map_of r n))"
  using assms
proof (induction sci arbitrary: r rs)
  case (Cons n sci)
  obtain rs1 where s: "resolve_source_scope p n (dict_get changed n []) = Inr (scope n, rs1)" using Cons.prems(3) by auto
  have step: "resolve_source p changed (r, rs) n = Inr (AList.update n (scope n) r, rs @ rs1)"
    by (simp add: resolve_source_def s)
  have "\<exists>r' rs'. fold_exc (resolve_source p changed) (AList.update n (scope n) r, rs @ rs1) sci = Inr (r', rs') \<and>
    (\<forall>k. map_of r' k = (if k \<in> set sci then Some (scope k) else map_of (AList.update n (scope n) r) k))"
    by (rule Cons.IH) (use Cons.prems in \<open>auto simp del: set_map simp: set_dict_keys_update\<close>)
  then obtain r' rs' where "fold_exc (resolve_source p changed) (AList.update n (scope n) r, rs @ rs1) sci = Inr (r', rs')"
    "\<forall>k. map_of r' k = (if k \<in> set sci then Some (scope k) else map_of (AList.update n (scope n) r) k)" by blast
  then show ?case by (intro exI [of _ r'] exI [of _ rs']) (simp add: step)
qed simp

section \<open>Requested outputs\<close>

lemma ancestor_walk:
  assumes "\<forall>n\<in>set closure. n \<in> set stack \<or> set (dict_get adj n []) \<subseteq> set closure"
  shows "set (closure_loop adj closure stack) = set closure \<union> (successors adj)\<^sup>+ `` set stack"
  using assms
proof (induction adj closure stack rule: closure_loop.induct)
  case (1 adj closure stack)
  show ?case
  proof (cases stack)
    case Nil
    then show ?thesis by (simp add: closure_loop.simps)
  next
    case (Cons n rest)
    let ?S = "successors adj"
    obtain cl st where f: "fold visit (dict_get adj n []) (closure, rest) = (cl, st)"
      by (cases "fold visit (dict_get adj n []) (closure, rest)")
    have v: "set cl = set closure \<union> set (dict_get adj n [])" "set st = set rest \<union> (set (dict_get adj n []) - set closure)"
      using visit_fold [OF f] by auto
    have pre: "\<forall>m\<in>set cl. m \<in> set st \<or> set (dict_get adj m []) \<subseteq> set cl" using 1(2) v Cons by auto
    have R: "set (closure_loop adj cl st) = set cl \<union> ?S\<^sup>+ `` set st" using 1(1) [OF Cons f [symmetric] pre] .
    have succ: "k \<in> set (dict_get adj m []) \<longleftrightarrow> (m, k) \<in> ?S" for m k by (simp add: successors_def)
    have closed: "y \<in> set cl \<union> ?S\<^sup>+ `` set st" if "x \<in> set cl \<union> ?S\<^sup>+ `` set st" "(x, y) \<in> ?S" for x y
    proof (cases "x \<in> ?S\<^sup>+ `` set st")
      case False
      then have "x \<in> set st \<or> set (dict_get adj x []) \<subseteq> set cl" using that(1) pre by blast
      then show ?thesis using that(2) succ by blast
    qed (use that(2) in \<open>auto intro: trancl_into_trancl\<close>)
    have "y \<in> set cl \<union> ?S\<^sup>+ `` set st" if "(n, y) \<in> ?S\<^sup>+" for y
      using that by (induction rule: trancl_induct) (use v succ closed in blast)+
    then have "set closure \<union> ?S\<^sup>+ `` set stack \<subseteq> set cl \<union> ?S\<^sup>+ `` set st" using v Cons by auto
    moreover have one: "y \<in> ?S\<^sup>+ `` set stack" if "y \<in> set (dict_get adj n [])" for y
      using that succ Cons by (auto intro!: r_into_trancl rev_ImageI [of n])
    moreover have "y \<in> ?S\<^sup>+ `` set stack" if "x \<in> set st" "(x, y) \<in> ?S\<^sup>+" for x y
    proof (cases "x \<in> set rest")
      case False
      then have "(n, y) \<in> ?S\<^sup>+" using that v succ by (auto intro: trancl_into_trancl2)
      then show ?thesis using Cons by auto
    qed (use that(2) Cons in auto)
    then have "set cl \<union> ?S\<^sup>+ `` set st \<subseteq> set closure \<union> ?S\<^sup>+ `` set stack"
      using v one by blast
    ultimately show ?thesis using R Cons f by (simp add: closure_loop.simps [of adj closure] subset_antisym)
  qed
qed

definition wanted :: "edit_graph \<Rightarrow> (string \<times> string) set \<Rightarrow> string list \<Rightarrow> string \<Rightarrow> bool" where
  "wanted g E requested n \<longleftrightarrow> map_of (eg_kinds g) n = Some OUTPUT \<and> n \<notin> set NEVER_PLANNED_OUTPUTS \<and>
     (requested = [] \<or> (\<exists>r\<in>set requested. map_of (eg_kinds g) r = Some OUTPUT \<and> (n, r) \<in> E\<^sup>*))"

definition requestable :: "edit_planner \<Rightarrow> string \<Rightarrow> bool" where
  "requestable p n \<longleftrightarrow> n \<notin> set NEVER_PLANNED_OUTPUTS \<and>
     (n \<in> set (node_ids (ep_graph p)) \<or> (\<exists>m\<in>set (all_metadata (ep_registry p)). n \<in> set (am_producible_incremental m)))"

text \<open>The impacts a batch deserves: one for each executable node below a changed source (of the outputs only the
  wanted ones), in topological order, each a full recompute or covering the windows of every source above it, at the times
  the forcing edits and the requests call for.\<close>

definition covers_source :: "edit_planner \<Rightarrow> source_delta list \<Rightarrow> node_impact \<Rightarrow> bool" where
  "covers_source p deltas i \<longleftrightarrow> ni_spatial_scope i = ScopeFull \<or>
     ni_spatial_scope i = ScopeWindows \<and> \<not> whole_tile (ep_registry p) (ep_grid p) deltas \<and>
     source_cells (ep_grid p) deltas \<subseteq> region (ni_write_windows i)"

definition explicit_times_of :: "source_delta list dict \<Rightarrow> string list \<Rightarrow> int list \<Rightarrow> int list" where
  "explicit_times_of changed sci rq =
     (if explicit_forcing_times changed sci \<noteq> [] \<and> rq \<noteq> [] then sort (remdups (explicit_forcing_times changed sci @ rq))
      else explicit_forcing_times changed sci)"

definition deserved :: "edit_planner \<Rightarrow> (string \<times> string) set \<Rightarrow> source_delta list dict \<Rightarrow> string list \<Rightarrow> string list \<Rightarrow> int list \<Rightarrow> int list \<Rightarrow> node_impact list \<Rightarrow> bool" where
  "deserved p E changed sci requested rq ex is \<longleftrightarrow>
     map ni_node_id is = filter (\<lambda>n. n \<in> E\<^sup>* `` set sci \<and> map_of (eg_kinds (ep_graph p)) n \<notin> {None, Some SOURCE, Some VIEW} \<and>
       (map_of (eg_kinds (ep_graph p)) n = Some OUTPUT \<longrightarrow> wanted (ep_graph p) E requested n)) (topological_order (ep_graph p)) \<and>
     (\<forall>i\<in>set is.
        (\<forall>m\<in>set sci. (m, ni_node_id i) \<in> E\<^sup>* \<longrightarrow> covers_source p (dict_get changed m []) i) \<and>
        (ni_temporal_scope i, ni_time_start i, ni_time_stop i) =
          temporal_scope_of (ni_node_id i) (\<exists>m\<in>set sci \<inter> FORCING_SOURCE_NODES. (m, ni_node_id i) \<in> E\<^sup>*) rq ex)"

context layered_graph
begin

lemma parent_steps:
  assumes "r \<in> set (ids_of nodes)"
  shows "(r, n) \<in> (successors (eg_parents g))\<^sup>+ \<longleftrightarrow> (n, r) \<in> (set edges)\<^sup>+"
proof -
  have adj: "adjacency_ok (set (ids_of nodes)) ((set edges)\<inverse>) (eg_parents g)"
    using built_graph [OF graph_ok] built by (auto split: if_splits)
  have step: "(x, y) \<in> successors (eg_parents g) \<longleftrightarrow> (y, x) \<in> set edges" if "x \<in> set (ids_of nodes)" for x y
    using adj that by (auto simp: successors_def adjacency_ok_def)
  have "(n, r) \<in> (set edges)\<^sup>+ \<and> n \<in> set (ids_of nodes)" if "(r, n) \<in> (successors (eg_parents g))\<^sup>+"
    using that by (induction rule: trancl_induct) (use assms step within in \<open>blast intro: trancl_into_trancl2\<close>)+
  moreover have "(r, n) \<in> (successors (eg_parents g))\<^sup>+" if "(n, r) \<in> (set edges)\<^sup>+"
    using that by (induction rule: converse_trancl_induct) (use assms step within in \<open>blast intro: trancl_into_trancl\<close>)+
  ultimately show ?thesis by blast
qed

lemma kept_outputs:
  assumes p: "ep_graph p = g" and req: "\<forall>n\<in>set requested. requestable p n"
  shows "\<exists>keep. needed_outputs p requested = Inr keep \<and> (\<forall>n. n \<in> set keep \<longleftrightarrow> wanted g (set edges) requested n)"
proof -
  let ?outputs = "filter (\<lambda>n. map_of (eg_kinds g) n = Some OUTPUT) (node_ids g)"
  let ?requests = "filter (\<lambda>n. n \<in> set ?outputs) requested"
  let ?seen = "closure_loop (eg_parents g) [] (rev (sort ?requests))"
  have out: "n \<in> set ?outputs \<longleftrightarrow> map_of (eg_kinds g) n = Some OUTPUT" for n
    using map_of_Some_keys [of "eg_kinds g" n] by (auto simp: node_ids_def)
  have unknown: "filter (\<lambda>n. n \<notin> set (node_ids g) \<and> n \<notin> set (concat (map am_producible_incremental (all_metadata (ep_registry p))))) requested = []"
    using req unfolding filter_empty_conv requestable_def p by auto
  have seen: "n \<in> set ?seen \<longleftrightarrow> (\<exists>r\<in>set ?requests. (n, r) \<in> (set edges)\<^sup>+)" for n
  proof -
    have R: "set ?seen = (successors (eg_parents g))\<^sup>+ `` set ?requests" by (subst ancestor_walk) simp_all
    have "r \<in> set (ids_of nodes)" if "r \<in> set ?requests" for r using that out [of r] kind_id by auto
    then have "(r, n) \<in> (successors (eg_parents g))\<^sup>+ \<longleftrightarrow> (n, r) \<in> (set edges)\<^sup>+" if "r \<in> set ?requests" for r
      using parent_steps that by blast
    then show ?thesis unfolding R by blast
  qed
  show ?thesis
  proof (cases "requested = []")
    case True
    then show ?thesis using out by (auto simp: needed_outputs_def p Let_def wanted_def)
  next
    case False
    let ?keep = "filter (\<lambda>n. (n \<in> set ?requests \<or> n \<in> set ?seen) \<and> n \<notin> set NEVER_PLANNED_OUTPUTS) ?outputs"
    have "needed_outputs p requested = Inr ?keep"
      unfolding needed_outputs_def Let_def p unknown using False by simp
    moreover have "n \<in> set ?keep \<longleftrightarrow> wanted g (set edges) requested n" for n
    proof -
      have "n \<in> set ?requests \<or> n \<in> set ?seen \<longleftrightarrow> (\<exists>r\<in>set ?requests. (n, r) \<in> (set edges)\<^sup>*)"
        unfolding seen rtrancl_eq_or_trancl by blast
      then show ?thesis using False out [of n] out unfolding wanted_def by auto
    qed
    ultimately show ?thesis by blast
  qed
qed

lemma wanted_closed:
  assumes "(a, b) \<in> set edges" "map_of (eg_kinds g) a = Some OUTPUT" "wanted g (set edges) requested b"
  shows "wanted g (set edges) requested a"
  using assms never_feeds [OF assms(1)] unfolding wanted_def by (meson converse_rtrancl_into_rtrancl)

lemma walked:
  assumes p: "ep_graph p = g" and sci: "\<forall>m\<in>set sci. map_of (eg_kinds g) m = Some SOURCE" and dirty: "set dirty = (set edges)\<^sup>* `` set sci"
    and keep: "\<forall>n. n \<in> set keep \<longleftrightarrow> wanted g (set edges) requested n" and times: "times_ok rq" "times_ok ex"
    and r0: "\<forall>n. map_of r0 n = (if n \<in> set sci then Some (scope n) else None)" "\<forall>n\<in>set sci. scope_ok (ep_grid p) (scope n)"
  shows "\<exists>w. fold_exc (walk_node p dirty fd keep rq ex) \<lparr>wk_resolved = r0, wk_impacts = [], wk_reasons = rs\<rparr> (topological_order g) = Inr w \<and>
    map ni_node_id (wk_impacts w) = filter (stage g dirty keep) (topological_order g) \<and>
    (\<forall>i\<in>set (wk_impacts w). impact_ok p i \<and>
       (\<forall>m\<in>set sci. (m, ni_node_id i) \<in> (set edges)\<^sup>* \<longrightarrow>
          scope_covers (scope m) \<lparr>ns_spatial_scope = ni_spatial_scope i, ns_windows = ni_write_windows i\<rparr>) \<and>
       (ni_temporal_scope i, ni_time_start i, ni_time_stop i) = temporal_scope_of (ni_node_id i) (ni_node_id i \<in> set fd) rq ex)"
proof -
  define T where "T n = temporal_scope_of n (n \<in> set fd) rq ex" for n
  have Tok: "temporal_ok (T n)" for n unfolding T_def using temporal_scope_ok times by simp
  have closed: "\<forall>a b. (a, b) \<in> set edges \<longrightarrow> map_of (eg_kinds g) a = Some OUTPUT \<longrightarrow> b \<in> set keep \<longrightarrow> a \<in> set keep"
    unfolding keep [rule_format] using wanted_closed by blast
  have r1: "\<forall>n s. map_of r0 n = Some s \<longrightarrow> scope_ok (ep_grid p) s" "\<And>n. map_of r0 n \<noteq> None \<longleftrightarrow> n \<in> set sci"
    using r0 by (auto split: if_splits)
  obtain w where w: "fold_exc (walk_node p dirty fd keep rq ex) \<lparr>wk_resolved = r0, wk_impacts = [], wk_reasons = rs\<rparr> (topological_order g) = Inr w"
    and inv: "walk_inv (ep_grid p) g (set edges) sci r0 dirty keep T (topological_order g) w"
    using walk_all [of p sci dirty keep T fd rq ex r0 rs, OF p sci dirty closed T_def Tok r1] by (elim exE conjE)
  note d = walk_invD [OF inv]
  have "impact_ok p i \<and> (\<forall>m\<in>set sci. (m, ni_node_id i) \<in> (set edges)\<^sup>* \<longrightarrow>
          scope_covers (scope m) \<lparr>ns_spatial_scope = ni_spatial_scope i, ns_windows = ni_write_windows i\<rparr>) \<and>
       (ni_temporal_scope i, ni_time_start i, ni_time_stop i) = T (ni_node_id i)" if i: "i \<in> set (wk_impacts w)" for i
  proof -
    obtain s where s: "map_of (wk_resolved w) (ni_node_id i) = Some s" "i = impact_of (ni_node_id i) s (T (ni_node_id i))" using d(5) [OF i] by blast
    have sel: "ni_spatial_scope i = ns_spatial_scope s" "ni_write_windows i = ns_windows s"
      "(ni_temporal_scope i, ni_time_start i, ni_time_stop i) = T (ni_node_id i)"
      using arg_cong [OF s(2), of ni_spatial_scope] arg_cong [OF s(2), of ni_write_windows] arg_cong [OF s(2), of ni_temporal_scope]
        arg_cong [OF s(2), of ni_time_start] arg_cong [OF s(2), of ni_time_stop] by simp_all
    have "ni_node_id i \<in> set (map ni_node_id (wk_impacts w))" using i by simp
    then obtain k where k: "map_of (eg_kinds g) (ni_node_id i) = Some k" "k \<notin> {SOURCE, VIEW}"
      unfolding d(4) by (auto simp: stage_def split: option.splits)
    have "impact_ok p i" unfolding impact_ok_def using s(2) d(1) [OF s(1)] Tok kind_id [OF k(1)] priced [OF k] by blast
    moreover have "scope_covers (scope m) s" if "m \<in> set sci" "(m, ni_node_id i) \<in> (set edges)\<^sup>*" for m
      by (rule d(3) [OF that _ s(1)]) (use r0(1) that(1) in simp)
    ultimately show ?thesis using sel by simp
  qed
  then show ?thesis using w d(4) unfolding T_def by blast
qed

lemma sources_resolved:
  assumes p: "0 < rg_rows (ep_grid p)" "0 < rg_cols (ep_grid p)" and "distinct sci"
    and deltas: "\<forall>n\<in>set sci. (\<forall>d\<in>set (dict_get changed n []). \<exists>m. get_metadata (ep_registry p) (sd_adapter_id d) = Inr m) \<and>
      (\<forall>w\<in>set (concat (map spatial_windows (dict_get changed n []))). window_ok w)"
  shows "\<exists>r0 rs0 scope. fold_exc (resolve_source p changed) ([], []) sci = Inr (r0, rs0) \<and>
    (\<forall>n. map_of r0 n = (if n \<in> set sci then Some (scope n) else None)) \<and>
    (\<forall>n\<in>set sci. scope_ok (ep_grid p) (scope n) \<and>
      (ns_spatial_scope (scope n) = ScopeFull \<longleftrightarrow> whole_tile (ep_registry p) (ep_grid p) (dict_get changed n [])) \<and>
      (ns_spatial_scope (scope n) = ScopeWindows \<longrightarrow> source_cells (ep_grid p) (dict_get changed n []) \<subseteq> region (ns_windows (scope n))))"
proof -
  have "\<forall>n\<in>set sci. \<exists>sc. (\<exists>rs. resolve_source_scope p n (dict_get changed n []) = Inr (sc, rs)) \<and> scope_ok (ep_grid p) sc \<and>
    (ns_spatial_scope sc = ScopeFull \<longleftrightarrow> whole_tile (ep_registry p) (ep_grid p) (dict_get changed n [])) \<and>
    (ns_spatial_scope sc = ScopeWindows \<longrightarrow> source_cells (ep_grid p) (dict_get changed n []) \<subseteq> region (ns_windows sc))"
  proof
    fix n assume "n \<in> set sci"
    then have "\<forall>d\<in>set (dict_get changed n []). \<exists>m. get_metadata (ep_registry p) (sd_adapter_id d) = Inr m"
      "\<forall>w\<in>set (concat (map spatial_windows (dict_get changed n []))). window_ok w" using deltas by blast+
    from source_scope [OF this p, of n]
    show "\<exists>sc. (\<exists>rs. resolve_source_scope p n (dict_get changed n []) = Inr (sc, rs)) \<and> scope_ok (ep_grid p) sc \<and>
      (ns_spatial_scope sc = ScopeFull \<longleftrightarrow> whole_tile (ep_registry p) (ep_grid p) (dict_get changed n [])) \<and>
      (ns_spatial_scope sc = ScopeWindows \<longrightarrow> source_cells (ep_grid p) (dict_get changed n []) \<subseteq> region (ns_windows sc))"
      by (elim exE conjE) (intro exI conjI)
  qed
  then obtain scope where scope: "\<forall>n\<in>set sci. (\<exists>rs. resolve_source_scope p n (dict_get changed n []) = Inr (scope n, rs)) \<and>
    scope_ok (ep_grid p) (scope n) \<and> (ns_spatial_scope (scope n) = ScopeFull \<longleftrightarrow> whole_tile (ep_registry p) (ep_grid p) (dict_get changed n [])) \<and>
    (ns_spatial_scope (scope n) = ScopeWindows \<longrightarrow> source_cells (ep_grid p) (dict_get changed n []) \<subseteq> region (ns_windows (scope n)))"
    unfolding bchoice_iff by (elim exE)
  then have "\<forall>n\<in>set sci. \<exists>rs. resolve_source_scope p n (dict_get changed n []) = Inr (scope n, rs)" by blast
  from resolve_sources [OF assms(3) _ this, of "[]" "[]"]
  obtain r0 rs0 where "fold_exc (resolve_source p changed) ([], []) sci = Inr (r0, rs0)" "\<forall>n. map_of r0 n = (if n \<in> set sci then Some (scope n) else None)"
    by auto
  then show ?thesis using scope by blast
qed

lemma stages_walked:
  assumes p: "ep_graph p = g" "0 < rg_rows (ep_grid p)" "0 < rg_cols (ep_grid p)"
    and sci: "\<forall>m\<in>set sci. map_of (eg_kinds g) m = Some SOURCE" "distinct sci"
    and deltas: "\<forall>n\<in>set sci. (\<forall>d\<in>set (dict_get changed n []). \<exists>m. get_metadata (ep_registry p) (sd_adapter_id d) = Inr m) \<and>
      (\<forall>w\<in>set (concat (map spatial_windows (dict_get changed n []))). window_ok w)"
    and req: "\<forall>n\<in>set requested. requestable p n" and times: "times_ok rq" "times_ok ex"
  shows "\<exists>r0 rs0 dirty fd keep. fold_exc (resolve_source p changed) ([], []) sci = Inr (r0, rs0) \<and>
    downstream g sci = Inr dirty \<and> set dirty = (set edges)\<^sup>* `` set sci \<and>
    downstream g (filter (\<lambda>n. n \<in> FORCING_SOURCE_NODES) sci) = Inr fd \<and> needed_outputs p requested = Inr keep \<and>
    (\<forall>rs. \<exists>w. fold_exc (walk_node p dirty fd keep rq ex) \<lparr>wk_resolved = r0, wk_impacts = [], wk_reasons = rs\<rparr> (topological_order g) = Inr w \<and>
      (\<forall>i\<in>set (wk_impacts w). impact_ok p i) \<and> deserved p (set edges) changed sci requested rq ex (wk_impacts w))"
proof -
  obtain r0 rs0 scope where r: "fold_exc (resolve_source p changed) ([], []) sci = Inr (r0, rs0)"
    "\<forall>n. map_of r0 n = (if n \<in> set sci then Some (scope n) else None)"
    and sc: "\<forall>n\<in>set sci. scope_ok (ep_grid p) (scope n) \<and>
      (ns_spatial_scope (scope n) = ScopeFull \<longleftrightarrow> whole_tile (ep_registry p) (ep_grid p) (dict_get changed n [])) \<and>
      (ns_spatial_scope (scope n) = ScopeWindows \<longrightarrow> source_cells (ep_grid p) (dict_get changed n []) \<subseteq> region (ns_windows (scope n)))"
    using sources_resolved [OF p(2,3) sci(2) deltas] by (elim exE conjE)
  have ids: "set sci \<subseteq> set (ids_of nodes)" using sci(1) kind_id by blast
  obtain dirty where dirty: "downstream g sci = Inr dirty" "set dirty = (set edges)\<^sup>* `` set sci" using down [OF ids] by blast
  obtain fd where fd: "downstream g (filter (\<lambda>n. n \<in> FORCING_SOURCE_NODES) sci) = Inr fd"
    "set fd = (set edges)\<^sup>* `` set (filter (\<lambda>n. n \<in> FORCING_SOURCE_NODES) sci)" using down [of "filter (\<lambda>n. n \<in> FORCING_SOURCE_NODES) sci"] ids by auto
  obtain keep where keep: "needed_outputs p requested = Inr keep" "\<forall>n. n \<in> set keep \<longleftrightarrow> wanted g (set edges) requested n"
    using kept_outputs [OF p(1) req] by blast
  have ok: "\<forall>n\<in>set sci. scope_ok (ep_grid p) (scope n)" using sc by blast
  have st: "stage g dirty keep n \<longleftrightarrow> n \<in> (set edges)\<^sup>* `` set sci \<and> map_of (eg_kinds g) n \<notin> {None, Some SOURCE, Some VIEW} \<and>
      (map_of (eg_kinds g) n = Some OUTPUT \<longrightarrow> wanted g (set edges) requested n)" for n
    unfolding stage_def dirty(2) keep(2) [rule_format] by (cases "map_of (eg_kinds g) n") auto
  have driven: "n \<in> set fd \<longleftrightarrow> (\<exists>m\<in>set sci \<inter> FORCING_SOURCE_NODES. (m, n) \<in> (set edges)\<^sup>*)" for n unfolding fd(2) by auto
  have cover: "covers_source p (dict_get changed m []) i"
    if "m \<in> set sci" "scope_covers (scope m) \<lparr>ns_spatial_scope = ni_spatial_scope i, ns_windows = ni_write_windows i\<rparr>" for m i
    using that sc unfolding covers_source_def scope_covers_def by auto
  have "\<exists>w. fold_exc (walk_node p dirty fd keep rq ex) \<lparr>wk_resolved = r0, wk_impacts = [], wk_reasons = rs\<rparr> (topological_order g) = Inr w \<and>
      (\<forall>i\<in>set (wk_impacts w). impact_ok p i) \<and> deserved p (set edges) changed sci requested rq ex (wk_impacts w)" for rs
  proof -
    obtain w where w: "fold_exc (walk_node p dirty fd keep rq ex) \<lparr>wk_resolved = r0, wk_impacts = [], wk_reasons = rs\<rparr> (topological_order g) = Inr w"
      "map ni_node_id (wk_impacts w) = filter (stage g dirty keep) (topological_order g)"
      and i: "\<forall>i\<in>set (wk_impacts w). impact_ok p i \<and>
       (\<forall>m\<in>set sci. (m, ni_node_id i) \<in> (set edges)\<^sup>* \<longrightarrow>
          scope_covers (scope m) \<lparr>ns_spatial_scope = ni_spatial_scope i, ns_windows = ni_write_windows i\<rparr>) \<and>
       (ni_temporal_scope i, ni_time_start i, ni_time_stop i) = temporal_scope_of (ni_node_id i) (ni_node_id i \<in> set fd) rq ex"
      using walked [OF p(1) sci(1) dirty(2) keep(2) times r(2) ok, of fd rs] by (elim exE conjE)
    have "deserved p (set edges) changed sci requested rq ex (wk_impacts w)"
      unfolding deserved_def p(1) w(2) st using i cover unfolding driven by blast
    then show ?thesis using w(1) i by blast
  qed
  then show ?thesis using r(1) dirty fd(1) keep(1) by blast
qed

lemma planned_stages:
  assumes p: "ep_graph p = g" "0 < rg_rows (ep_grid p)" "0 < rg_cols (ep_grid p)" "0 \<le> sg_scene_revision s"
    and sci: "\<forall>m\<in>set sci. map_of (eg_kinds g) m = Some SOURCE" "distinct sci"
    and fast: "\<forall>keep rs. needed_outputs p (requested_outputs_of edits) = Inr keep \<longrightarrow>
      (\<exists>rs'. met_utci_fast_plan p changed sci keep (requested_times_of edits) rs s context = Inr (None, rs'))"
    and deltas: "\<forall>n\<in>set sci. (\<forall>d\<in>set (dict_get changed n []). \<exists>m. get_metadata (ep_registry p) (sd_adapter_id d) = Inr m) \<and>
      (\<forall>w\<in>set (concat (map spatial_windows (dict_get changed n []))). window_ok w)"
    and req: "\<forall>n\<in>set (requested_outputs_of edits). requestable p n"
    and times: "times_ok (requested_times_of edits)" "times_ok (explicit_forcing_times changed sci)"
    and keys: "set (dict_keys changed) \<subseteq> set (node_ids g)"
  shows "\<exists>pl. plan_stages p edits s context changed sci vw = Inr pl \<and> ip_changed_sources pl = sort (dict_keys changed) \<and>
    deserved p (set edges) changed sci (requested_outputs_of edits) (requested_times_of edits)
      (explicit_times_of changed sci (requested_times_of edits)) (ip_node_impacts pl) \<and>
    set (ip_reusable_nodes pl) = set (node_ids g) - (set edges)\<^sup>* `` set sci - set vw \<and>
    transports (ip_transport_window pl) (ip_node_impacts pl) \<and> ip_scene_revision pl = Some (sg_scene_revision s)"
proof -
  let ?rq = "requested_times_of edits"
  have ex: "times_ok (explicit_times_of changed sci ?rq)" using times by (auto simp: explicit_times_of_def times_ok_def)
  obtain r0 rs0 dirty fd keep where st: "fold_exc (resolve_source p changed) ([], []) sci = Inr (r0, rs0)"
    "downstream g sci = Inr dirty" "set dirty = (set edges)\<^sup>* `` set sci"
    "downstream g (filter (\<lambda>n. n \<in> FORCING_SOURCE_NODES) sci) = Inr fd" "needed_outputs p (requested_outputs_of edits) = Inr keep"
    and walks: "\<forall>rs. \<exists>w. fold_exc (walk_node p dirty fd keep ?rq (explicit_times_of changed sci ?rq))
        \<lparr>wk_resolved = r0, wk_impacts = [], wk_reasons = rs\<rparr> (topological_order g) = Inr w \<and>
      (\<forall>i\<in>set (wk_impacts w). impact_ok p i) \<and>
      deserved p (set edges) changed sci (requested_outputs_of edits) ?rq (explicit_times_of changed sci ?rq) (wk_impacts w)"
    using stages_walked [OF p(1-3) sci(1,2) deltas req times(1) ex] by (elim exE conjE)
  define rs1 where "rs1 = rs0 @ (if requested_outputs_of edits = []
    then map NeverPlanned (sort (filter (\<lambda>n. n \<in> set (node_ids g)) NEVER_PLANNED_OUTPUTS)) else [])"
  obtain rs where rs: "met_utci_fast_plan p changed sci keep ?rq rs1 s context = Inr (None, rs)" using fast st(5) by blast
  obtain w where w: "fold_exc (walk_node p dirty fd keep ?rq (explicit_times_of changed sci ?rq))
        \<lparr>wk_resolved = r0, wk_impacts = [], wk_reasons = rs\<rparr> (topological_order g) = Inr w" "\<forall>i\<in>set (wk_impacts w). impact_ok p i"
    "deserved p (set edges) changed sci (requested_outputs_of edits) ?rq (explicit_times_of changed sci ?rq) (wk_impacts w)"
    using walks by blast
  have "\<forall>v\<in>set (ni_write_windows i). solid v" if i: "i \<in> set (wk_impacts w)" for i
  proof -
    obtain sc t where "i = impact_of (ni_node_id i) sc t" "scope_ok (ep_grid p) sc" using w(2) i unfolding impact_ok_def by blast
    then have "ni_write_windows i = ns_windows sc" by (metis impact_of_simps(3))
    then show ?thesis using \<open>scope_ok (ep_grid p) sc\<close> by (auto simp: scope_ok_def)
  qed
  then obtain tw where tw: "transport_window (wk_impacts w) = Inr tw" "transports tw (wk_impacts w)" using transport_total by blast
  have area: "0 \<le> area_pixels (ep_grid p)" using p(2,3) by (simp add: area_pixels_def)
  obtain mem work where est: "estimate p ?rq context (wk_impacts w) = Inr (mem, work)" "0 \<le> mem" "0 \<le> work"
    using estimate_total [OF w(2) area] by blast
  let ?pl = "\<lparr>ip_changed_sources = sort (dict_keys changed), ip_node_impacts = wk_impacts w,
      ip_reusable_nodes = without (node_ids g) (dirty @ vw), ip_fallback_reasons = wk_reasons w, ip_estimated_memory_bytes = mem,
      ip_estimated_work_units = work, ip_scene_revision = Some (sg_scene_revision s), ip_transport_window = tw\<rparr>"
  have named: "[] \<notin> set (node_ids g)" using graph_ok(1) ids by (auto simp: nodes_ok_def node_ids_def)
  then have chk: "check_impact_plan ?pl = Inr ?pl" using keys est(2,3) p(4) by (auto simp: check_impact_plan_def without_def)
  have refused: "filter (\<lambda>n. n \<in> set NEVER_PLANNED_OUTPUTS) (requested_outputs_of edits) = []"
    using req by (auto simp: filter_empty_conv requestable_def)
  have "plan_stages p edits s context changed sci vw = Inr ?pl"
    unfolding plan_stages_def st p(1) Let_def map_sum.simps bind_exc_simps prod.case refused rs1_def [symmetric] rs explicit_times_of_def [symmetric]
    using chk by (simp add: w(1) tw(1) est(1))
  then show ?thesis using w(3) tw(2) st(3) by (intro exI [of _ ?pl]) (auto simp: without_def)
qed

end

end
