(* ===== verification/Source_Deltas_Contract.thy ===== *)
theory Source_Deltas_Contract
  imports Source_Deltas
begin

text \<open>
  What coalescing promises. A log of keyed changes acts on a map from keys to values; the locale
  \<open>change_log\<close> states what the three coalescing functions share (one change for each key that has a net
  change, from its first old to its last new value) and shows that a coalesced log acts like the log. The
  locale is interpreted on objects, forcing and parameters, and the result is lifted to whole deltas.
\<close>

section \<open>Frozen values compare like the originals\<close>

lemma map_insort_key: "(\<And>x. g (f x) = h x) \<Longrightarrow> map f (insort_key h x xs) = insort_key g (f x) (map f xs)"
  by (induction xs) auto

lemma map_sort_key: "(\<And>x. g (f x) = h x) \<Longrightarrow> map f (sort_key h xs) = sort_key g (map f xs)"
  by (induction xs) (simp_all add: map_insort_key [of g f h])

lemma sort_key_twice [simp]: "sort_key f (sort_key f xs) = sort_key f xs"
  by (rule sort_key_id_if_sorted) simp

lemma map_snd_sorted: "map (map_prod id f) (sort_key fst kvs) = sort_key fst (map (map_prod id f) kvs)"
  by (rule map_sort_key) simp

lemma py_norm_freeze [simp]: "py_norm (freeze_value v) = py_norm v"
proof (induction v)
  case (JObj kvs)
  have "map (map_prod id py_norm) (map (map_prod id freeze_value) kvs) = map (map_prod id py_norm) kvs"
    using JObj by (auto simp: snds.simps)
  then show ?case by (simp add: map_snd_sorted del: map_map)
qed auto

abbreviation norm_state :: "json dict option \<Rightarrow> json option" where
  "norm_state \<equiv> map_option (py_norm \<circ> JObj)"

lemma norm_freeze_mapping [simp]: "norm_state (freeze_mapping d) = norm_state d"
proof (cases d)
  case (Some kvs)
  show ?thesis using py_norm_freeze [of "JObj kvs"] by (simp add: Some freeze_mapping_def sorted_items_def map_snd_sorted)
qed (simp add: freeze_mapping_def)

section \<open>Logs of keyed changes\<close>

fun follows :: "('k \<Rightarrow> 'n) \<Rightarrow> ('k \<times> 'n \<times> 'n) list \<Rightarrow> bool" where
  "follows s [] \<longleftrightarrow> True"
| "follows s ((k, b, a) # cs) \<longleftrightarrow> s k = b \<and> follows (s(k := a)) cs"

fun outcome :: "('k \<times> 'n \<times> 'n) list \<Rightarrow> ('k \<Rightarrow> 'n) \<Rightarrow> 'k \<Rightarrow> 'n" where
  "outcome [] s = s"
| "outcome ((k, b, a) # cs) s = outcome cs (s(k := a))"

abbreviation merged_changes :: "('k \<times> 'v \<times> 'v) list \<Rightarrow> ('k \<times> 'v \<times> 'v) list" where
  "merged_changes \<equiv> foldl merge_change []"

lemma outcome_append [simp]: "outcome (cs @ ds) s = outcome ds (outcome cs s)"
  by (induction cs s rule: outcome.induct) (simp_all add: fun_upd_def)

lemma follows_append [simp]: "follows s (cs @ ds) \<longleftrightarrow> follows s cs \<and> follows (outcome cs s) ds"
  by (induction s cs rule: follows.induct) (simp_all add: fun_upd_def)

lemma merge_change_distinct: "distinct (dict_keys m) \<Longrightarrow> distinct (dict_keys (merge_change m c))"
  by (cases c) (simp add: merge_change_def)

lemma merged_distinct: "distinct (dict_keys (merged_changes cs))"
proof -
  have "distinct (dict_keys m) \<Longrightarrow> distinct (dict_keys (foldl merge_change m cs))" for m :: "('a \<times> 'b \<times> 'b) list"
    by (induction cs arbitrary: m) (simp_all add: merge_change_distinct)
  then show ?thesis by simp
qed

lemma map_of_merge:
  "map_of (merge_change m (k, b, a)) = (map_of m)(k \<mapsto> (case map_of m k of None \<Rightarrow> b | Some (first, _) \<Rightarrow> first, a))"
  by (simp add: merge_change_def)

text \<open>A dictionary that merged a log holds the value of each key before the log and after it.\<close>

lemma merged_effect:
  assumes "follows s cs"
  shows "case map_of (merged_changes cs) k of None \<Rightarrow> outcome cs s k = s k | Some (b, a) \<Rightarrow> b = s k \<and> a = outcome cs s k"
  using assms
proof (induction cs rule: rev_induct)
  case (snoc c cs)
  obtain k' b' a' where c: "c = (k', b', a')" by (cases c)
  with snoc show ?case
    by (cases "map_of (merged_changes cs) k") (auto simp: map_of_merge split: option.splits prod.splits)
qed simp

lemma outcome_distinct:
  assumes "distinct (dict_keys cs)"
  shows "outcome cs s k = (case map_of cs k of None \<Rightarrow> s k | Some (_, a) \<Rightarrow> a)"
  using assms
proof (induction cs arbitrary: s)
  case (Cons c cs)
  obtain k' b a where c: "c = (k', b, a)" by (cases c)
  with Cons.prems have "map_of cs k' = None" by (simp add: map_of_None_keys)
  with Cons c show ?case by (cases "k = k'") (auto split: option.splits)
qed simp

lemma follows_distinct:
  assumes "distinct (dict_keys cs)" "\<And>k b a. (k, b, a) \<in> set cs \<Longrightarrow> s k = b"
  shows "follows s cs"
  using assms
proof (induction cs arbitrary: s)
  case (Cons c cs)
  obtain k' b a where c: "c = (k', b, a)" by (cases c)
  have "follows (s(k' := a)) cs"
  proof (rule Cons.IH)
    show "distinct (dict_keys cs)" using Cons.prems(1) by simp
    show "(s(k' := a)) k = b'" if "(k, b', a') \<in> set cs" for k b' a'
      using that Cons.prems c by (auto simp: image_iff)
  qed
  then show ?case using c Cons.prems(2) [of k' b a] by simp
qed simp

text \<open>Merging does not look at the values.\<close>

abbreviation on_values :: "('v \<Rightarrow> 'n) \<Rightarrow> 'k \<times> 'v \<times> 'v \<Rightarrow> 'k \<times> 'n \<times> 'n" where
  "on_values f \<equiv> map_prod id (map_prod f f)"

lemma update_on_values: "map (on_values f) (AList.update k v m) = AList.update k (map_prod f f v) (map (on_values f) m)"
  by (induction m) auto

lemma merge_on_values: "map (on_values f) (merge_change m c) = merge_change (map (on_values f) m) (on_values f c)"
proof (cases c)
  case (fields k b a)
  have "map_of (map (on_values f) m) k = map_option (map_prod f f) (map_of m k)" by (induction m) auto
  then show ?thesis by (auto simp: fields merge_change_def update_on_values split: option.splits)
qed

lemma merged_on_values: "merged_changes (map (on_values f) cs) = map (on_values f) (merged_changes cs)"
proof -
  have "foldl merge_change (map (on_values f) m) (map (on_values f) cs) = map (on_values f) (foldl merge_change m cs)" for m
    by (induction cs arbitrary: m) (simp_all add: merge_on_values [symmetric])
  from this [of "[]"] show ?thesis by simp
qed

locale change_log =
  fixes effect_of :: "'c \<Rightarrow> 'k \<times> 'n \<times> 'n"
    and coalesce :: "'c list \<Rightarrow> edit_exc + 'c list"
  assumes one_per_key: "coalesce cs = Inr out \<Longrightarrow> distinct (dict_keys (map effect_of out))"
    and net_changes: "coalesce cs = Inr out \<Longrightarrow>
      set (map effect_of out) = {(k, b, a). map_of (merged_changes (map effect_of cs)) k = Some (b, a) \<and> b \<noteq> a}"
begin

lemma net_change:
  assumes "coalesce cs = Inr out" "follows s (map effect_of cs)"
  shows "(k, b, a) \<in> set (map effect_of out) \<longleftrightarrow> b = s k \<and> a = outcome (map effect_of cs) s k \<and> b \<noteq> a"
proof -
  have "(k, b, a) \<in> set (map effect_of out) \<longleftrightarrow> map_of (merged_changes (map effect_of cs)) k = Some (b, a) \<and> b \<noteq> a"
    unfolding net_changes [OF assms(1)] by simp
  also have "\<dots> \<longleftrightarrow> b = s k \<and> a = outcome (map effect_of cs) s k \<and> b \<noteq> a"
    using merged_effect [OF assms(2), of k] by (auto split: option.splits)
  finally show ?thesis .
qed

lemma same_outcome:
  assumes "coalesce cs = Inr out" "follows s (map effect_of cs)"
  shows "follows s (map effect_of out)" "outcome (map effect_of out) s = outcome (map effect_of cs) s"
proof -
  note d = one_per_key [OF assms(1)]
  show "follows s (map effect_of out)"
    by (rule follows_distinct [OF d], drule net_change [OF assms, THEN iffD1]) simp
  show "outcome (map effect_of out) s = outcome (map effect_of cs) s"
  proof
    fix k
    show "outcome (map effect_of out) s k = outcome (map effect_of cs) s k"
    proof (cases "map_of (map effect_of out) k")
      case None
      then have "(k, s k, outcome (map effect_of cs) s k) \<notin> set (map effect_of out)"
        unfolding map_of_eq_None_iff by (metis fst_conv imageI list.set_map)
      then have "outcome (map effect_of cs) s k = s k" unfolding net_change [OF assms] by simp
      then show ?thesis by (simp add: outcome_distinct [OF d] None)
    next
      case (Some p)
      obtain b a where p: "p = (b, a)" by (cases p)
      have "(k, b, a) \<in> set (map effect_of out)" by (rule map_of_SomeD [OF Some [unfolded p]])
      then have "a = outcome (map effect_of cs) s k" unfolding net_change [OF assms] by simp
      then show ?thesis by (simp add: outcome_distinct [OF d] Some p)
    qed
  qed
qed

lemma empty_iff_same:
  assumes "coalesce cs = Inr out" "follows s (map effect_of cs)"
  shows "out = [] \<longleftrightarrow> outcome (map effect_of cs) s = s"
proof
  assume "out = []"
  then show "outcome (map effect_of cs) s = s" using same_outcome(2) [OF assms] by simp
next
  assume "outcome (map effect_of cs) s = s"
  then have "(k, b, a) \<notin> set (map effect_of out)" for k b a
    unfolding net_change [OF assms] by simp
  then have "set (map effect_of out) = {}" by (metis all_not_in_conv prod_cases3)
  then show "out = []" by simp
qed

end

section \<open>The three families\<close>

definition object_effect :: "object_change \<Rightarrow> string \<times> json option \<times> json option" where
  "object_effect c = (oc_object_id c, norm_state (oc_before c), norm_state (oc_after c))"

definition forcing_effect :: "forcing_change \<Rightarrow> (string \<times> int option) \<times> json \<times> json" where
  "forcing_effect c = ((fc_variable c, fc_time_index c), py_norm (fc_before_value c), py_norm (fc_after_value c))"

definition parameter_effect :: "parameter_change \<Rightarrow> string \<times> json \<times> json" where
  "parameter_effect c = (pc_name c, py_norm (pc_before_value c), py_norm (pc_after_value c))"

lemmas effects = object_effect_def forcing_effect_def parameter_effect_def

lemma traverse_map_eq: "traverse f xs = Inr ys \<Longrightarrow> (\<And>x y. x \<in> set xs \<Longrightarrow> f x = Inr y \<Longrightarrow> g y = h x) \<Longrightarrow> map g ys = map h xs"
  by (induction f xs arbitrary: ys rule: traverse.induct) (auto split: sum.splits)

lemma mk_object_effect: "mk_object_change i before after = Inr c \<Longrightarrow> object_effect c = (i, norm_state before, norm_state after)"
  by (auto simp: mk_object_change_def bind_exc_Inr object_effect_def split: if_splits)

lemma mk_forcing_effect: "mk_forcing_change v t before after = Inr c \<Longrightarrow> forcing_effect c = ((v, t), py_norm before, py_norm after)"
  by (auto simp: mk_forcing_change_def bind_exc_Inr forcing_effect_def split: if_splits)

lemma mk_parameter_effect: "mk_parameter_change n before after = Inr c \<Longrightarrow> parameter_effect c = (n, py_norm before, py_norm after)"
  by (auto simp: mk_parameter_change_def bind_exc_Inr parameter_effect_def split: if_splits)

lemma state_eq_norm: "state_eq a b \<longleftrightarrow> norm_state a = norm_state b"
  by (simp add: state_eq_def)

lemma kept_changes:
  assumes "distinct (dict_keys m)"
  shows "set (filter (\<lambda>(_, b, a). b \<noteq> a) m) = {(k, b, a). map_of m k = Some (b, a) \<and> b \<noteq> a}"
  using assms by (auto simp: map_of_eq_Some_iff)

lemma object_fold: "fold_exc object_step m cs = Inr m' \<Longrightarrow>
  m' = foldl merge_change m (map (\<lambda>c. (oc_object_id c, oc_before c, oc_after c)) cs)"
  by (induction cs arbitrary: m) (auto simp: object_step_def split: option.splits sum.splits if_splits)

lemma object_norm: "map object_effect cs = map (on_values norm_state) (map (\<lambda>c. (oc_object_id c, oc_before c, oc_after c)) cs)"
  by (simp add: object_effect_def)

lemma forcing_norm: "map forcing_effect cs =
  map (on_values py_norm) (map (\<lambda>c. ((fc_variable c, fc_time_index c), fc_before_value c, fc_after_value c)) cs)"
  by (simp add: forcing_effect_def)

lemma parameter_norm: "map parameter_effect cs = map (on_values py_norm) (map (\<lambda>c. (pc_name c, pc_before_value c, pc_after_value c)) cs)"
  by (simp add: parameter_effect_def)

lemma merged_norm_distinct [simp]: "distinct (dict_keys (map (on_values f) (merged_changes cs)))"
  unfolding merged_on_values [symmetric] by (rule merged_distinct)

lemma filter_on_values: "(\<And>c. P c \<longleftrightarrow> Q (on_values f c)) \<Longrightarrow> map (on_values f) (filter P xs) = filter Q (map (on_values f) xs)"
  by (induction xs) auto

lemma coalesced_objects:
  assumes "coalesce_object_changes cs = Inr out"
  shows "map object_effect out = sorted_items (filter (\<lambda>(_, b, a). b \<noteq> a) (merged_changes (map object_effect cs)))"
proof -
  let ?raw = "map (\<lambda>c. (oc_object_id c, oc_before c, oc_after c)) cs"
  obtain m where m: "fold_exc object_step [] cs = Inr m"
    and out: "traverse (\<lambda>(i, before, after). mk_object_change i before after)
         (filter (\<lambda>(_, before, after). \<not> (before = None \<and> after = None) \<and> \<not> state_eq before after) (sorted_items m)) = Inr out"
    using assms by (auto simp: coalesce_object_changes_def bind_exc_Inr)
  have "map object_effect out = map (on_values norm_state)
      (filter (\<lambda>(_, before, after). \<not> (before = None \<and> after = None) \<and> \<not> state_eq before after) (sorted_items m))"
    by (rule traverse_map_eq [OF out]) (auto simp: mk_object_effect)
  also have "\<dots> = filter (\<lambda>(_, b, a). b \<noteq> a) (map (on_values norm_state) (sorted_items m))"
    by (rule filter_on_values) (auto simp: state_eq_norm)
  also have "map (on_values norm_state) (sorted_items m) = sorted_items (map (on_values norm_state) m)"
    unfolding sorted_items_def by (rule map_sort_key) simp
  also have "filter (\<lambda>(_, b, a). b \<noteq> a) (sorted_items (map (on_values norm_state) m)) =
      sorted_items (filter (\<lambda>(_, b, a). b \<noteq> a) (map (on_values norm_state) m))"
    by (simp add: sorted_items_def filter_sort)
  also have "map (on_values norm_state) m = merged_changes (map object_effect cs)"
    unfolding object_norm merged_on_values object_fold [OF m] ..
  finally show ?thesis .
qed

lemma coalesced_forcing:
  assumes "coalesce_forcing cs = Inr out"
  shows "map forcing_effect out =
    sort_key (\<lambda>((v, t), _). (v, case t of None \<Rightarrow> 0 | Some i \<Rightarrow> i)) (filter (\<lambda>(_, b, a). b \<noteq> a) (merged_changes (map forcing_effect cs)))"
proof -
  let ?raw = "map (\<lambda>c. ((fc_variable c, fc_time_index c), fc_before_value c, fc_after_value c)) cs"
  let ?time = "\<lambda>c. (fc_variable c, case fc_time_index c of None \<Rightarrow> 0 | Some t \<Rightarrow> t)"
  obtain ys where ys: "traverse (\<lambda>((variable, t), before, after). mk_forcing_change variable t before after) (merged_changes ?raw) = Inr ys"
    and out: "out = sort_key ?time (filter (\<lambda>c. \<not> py_eq (fc_before_value c) (fc_after_value c)) ys)"
    using assms by (auto simp: coalesce_forcing_def bind_exc_Inr Let_def split: if_splits)
  have "map forcing_effect ys = map (on_values py_norm) (merged_changes ?raw)"
    by (rule traverse_map_eq [OF ys]) (auto simp: mk_forcing_effect)
  then have "map forcing_effect ys = merged_changes (map forcing_effect cs)"
    unfolding forcing_norm merged_on_values .
  moreover have "map forcing_effect (filter (\<lambda>c. \<not> py_eq (fc_before_value c) (fc_after_value c)) ys) =
      filter (\<lambda>(_, b, a). b \<noteq> a) (map forcing_effect ys)"
    by (induction ys) (simp_all add: forcing_effect_def py_eq_def)
  moreover have "map forcing_effect (sort_key ?time zs) =
      sort_key (\<lambda>((v, t), _). (v, case t of None \<Rightarrow> 0 | Some i \<Rightarrow> i)) (map forcing_effect zs)" for zs
    by (rule map_sort_key) (simp add: forcing_effect_def)
  ultimately show ?thesis unfolding out by simp
qed

lemma coalesced_parameters:
  assumes "coalesce_parameters cs = Inr out"
  shows "map parameter_effect out = sort_key fst (filter (\<lambda>(_, b, a). b \<noteq> a) (merged_changes (map parameter_effect cs)))"
proof -
  let ?raw = "map (\<lambda>c. (pc_name c, pc_before_value c, pc_after_value c)) cs"
  obtain ys where ys: "traverse (\<lambda>(name, before, after). mk_parameter_change name before after) (merged_changes ?raw) = Inr ys"
    and out: "out = sort_key pc_name (filter (\<lambda>c. \<not> py_eq (pc_before_value c) (pc_after_value c)) ys)"
    using assms by (auto simp: coalesce_parameters_def bind_exc_Inr Let_def)
  have "map parameter_effect ys = map (on_values py_norm) (merged_changes ?raw)"
    by (rule traverse_map_eq [OF ys]) (auto simp: mk_parameter_effect)
  then have "map parameter_effect ys = merged_changes (map parameter_effect cs)"
    unfolding parameter_norm merged_on_values .
  moreover have "map parameter_effect (filter (\<lambda>c. \<not> py_eq (pc_before_value c) (pc_after_value c)) ys) =
      filter (\<lambda>(_, b, a). b \<noteq> a) (map parameter_effect ys)"
    by (induction ys) (simp_all add: parameter_effect_def py_eq_def)
  moreover have "map parameter_effect (sort_key pc_name zs) = sort_key fst (map parameter_effect zs)" for zs
    by (rule map_sort_key) (simp add: parameter_effect_def)
  ultimately show ?thesis unfolding out by simp
qed

lemma distinct_kept: "distinct (dict_keys (filter P (merged_changes cs)))"
  by (rule distinct_map_filter [OF merged_distinct])

lemma distinct_keys_sort: "distinct (dict_keys (sort_key f xs)) \<longleftrightarrow> distinct (dict_keys xs)"
  by (simp add: distinct_map)

interpretation object_log: change_log object_effect coalesce_object_changes
proof
  fix cs out
  assume "coalesce_object_changes cs = Inr out"
  note out = coalesced_objects [OF this]
  show "distinct (dict_keys (map object_effect out))"
    unfolding out distinct_sorted_items by (rule distinct_kept)
  show "set (map object_effect out) = {(k, b, a). map_of (merged_changes (map object_effect cs)) k = Some (b, a) \<and> b \<noteq> a}"
    unfolding out set_sorted_items by (rule kept_changes [OF merged_distinct])
qed

interpretation forcing_log: change_log forcing_effect coalesce_forcing
proof
  fix cs out
  assume "coalesce_forcing cs = Inr out"
  note out = coalesced_forcing [OF this]
  show "distinct (dict_keys (map forcing_effect out))"
    unfolding out distinct_keys_sort by (rule distinct_kept)
  show "set (map forcing_effect out) = {(k, b, a). map_of (merged_changes (map forcing_effect cs)) k = Some (b, a) \<and> b \<noteq> a}"
    unfolding out set_sort by (rule kept_changes [OF merged_distinct])
qed

interpretation parameter_log: change_log parameter_effect coalesce_parameters
proof
  fix cs out
  assume "coalesce_parameters cs = Inr out"
  note out = coalesced_parameters [OF this]
  show "distinct (dict_keys (map parameter_effect out))"
    unfolding out distinct_keys_sort by (rule distinct_kept)
  show "set (map parameter_effect out) = {(k, b, a). map_of (merged_changes (map parameter_effect cs)) k = Some (b, a) \<and> b \<noteq> a}"
    unfolding out set_sort by (rule kept_changes [OF merged_distinct])
qed

section \<open>Deltas as changes of the sources\<close>

text \<open>The abstract sources a delta changes: objects, land-cover codes, forcing values, parameters and the
  requested layers. A paint patch writes its non-negative codes, row by row.\<close>

record sources =
  src_objects :: "string \<Rightarrow> json option"
  src_classes :: "int \<times> int \<Rightarrow> int"
  src_forcing :: "string \<times> int option \<Rightarrow> json"
  src_parameters :: "string \<Rightarrow> json"
  src_layers :: "string list"

definition patched_cell :: "(int \<times> int \<Rightarrow> int) \<Rightarrow> paint_patch \<Rightarrow> int \<times> int \<Rightarrow> int" where
  "patched_cell codes p = (\<lambda>(r, c).
     let w = pp_window p; code = pp_after_classes p ! nat ((r - rw_row_start w) * rw_width w + (c - rw_col_start w))
     in if rw_row_start w \<le> r \<and> r < rw_row_stop w \<and> rw_col_start w \<le> c \<and> c < rw_col_stop w \<and> 0 \<le> code then code
        else codes (r, c))"

fun apply_payload :: "payload \<Rightarrow> sources \<Rightarrow> sources" where
  "apply_payload (VegetationObjects cs _) s = s\<lparr>src_objects := outcome (map object_effect cs) (src_objects s)\<rparr>"
| "apply_payload (BuildingMassing cs _) s = s\<lparr>src_objects := outcome (map object_effect cs) (src_objects s)\<rparr>"
| "apply_payload (LandCoverPaint ps) s = s\<lparr>src_classes := foldl patched_cell (src_classes s) ps\<rparr>"
| "apply_payload (ForcingChanges cs) s = s\<lparr>src_forcing := outcome (map forcing_effect cs) (src_forcing s)\<rparr>"
| "apply_payload (ParameterChanges cs) s = s\<lparr>src_parameters := outcome (map parameter_effect cs) (src_parameters s)\<rparr>"
| "apply_payload (OutputSelection _ after) s = s\<lparr>src_layers := after\<rparr>"
| "apply_payload NoPayload s = s"

text \<open>A payload fits a state when the old values it names are the values of the state.\<close>

fun fits :: "sources \<Rightarrow> payload \<Rightarrow> bool" where
  "fits s (VegetationObjects cs _) \<longleftrightarrow> follows (src_objects s) (map object_effect cs)"
| "fits s (BuildingMassing cs _) \<longleftrightarrow> follows (src_objects s) (map object_effect cs)"
| "fits s (LandCoverPaint _) \<longleftrightarrow> True"
| "fits s (ForcingChanges cs) \<longleftrightarrow> follows (src_forcing s) (map forcing_effect cs)"
| "fits s (ParameterChanges cs) \<longleftrightarrow> follows (src_parameters s) (map parameter_effect cs)"
| "fits s (OutputSelection before _) \<longleftrightarrow> src_layers s = before"
| "fits s NoPayload \<longleftrightarrow> True"

fun fits_all :: "sources \<Rightarrow> payload list \<Rightarrow> bool" where
  "fits_all s [] \<longleftrightarrow> True"
| "fits_all s (p # ps) \<longleftrightarrow> fits s p \<and> fits_all (apply_payload p s) ps"

text \<open>A log of one family acts like one payload with the concatenated changes.\<close>

lemma keyed_log:
  assumes "\<And>p t. p \<in> set ps \<Longrightarrow> fits t p = follows (get t) (changes p) \<and> apply_payload p t = put (outcome (changes p)) t"
    and "\<And>f t. get (put f t) = f (get t)" "\<And>f g t. put f (put g t) = put (f \<circ> g) t" "\<And>t. put (\<lambda>x. x) t = t"
  shows "fold apply_payload ps s = put (outcome (concat (map changes ps))) s"
    "fits_all s ps \<longleftrightarrow> follows (get s) (concat (map changes ps))"
proof -
  have e: "outcome [] = (\<lambda>x. x)" by auto
  have c: "outcome xs \<circ> outcome ys = outcome (ys @ xs)" for xs ys :: "('a \<times> 'b \<times> 'b) list" by auto
  show "fold apply_payload ps s = put (outcome (concat (map changes ps))) s"
    using assms(1) by (induction ps arbitrary: s) (simp_all add: e c assms(3,4))
  show "fits_all s ps \<longleftrightarrow> follows (get s) (concat (map changes ps))"
    using assms(1) by (induction ps arbitrary: s) (simp_all add: assms(2))
qed

lemma objects_log:
  assumes "\<forall>p\<in>set ps. family_of p = f" "f = VegetationFamily \<or> f = BuildingFamily"
  shows "fold apply_payload ps s = s\<lparr>src_objects := outcome (map object_effect (concat (map payload_objects ps))) (src_objects s)\<rparr>"
    "fits_all s ps \<longleftrightarrow> follows (src_objects s) (map object_effect (concat (map payload_objects ps)))"
proof -
  have one: "fits t p = follows (src_objects t) (map object_effect (payload_objects p)) \<and>
      apply_payload p t = src_objects_update (outcome (map object_effect (payload_objects p))) t"
    if "p \<in> set ps" for p t using assms that by (cases p) auto
  show "fold apply_payload ps s = s\<lparr>src_objects := outcome (map object_effect (concat (map payload_objects ps))) (src_objects s)\<rparr>"
    "fits_all s ps \<longleftrightarrow> follows (src_objects s) (map object_effect (concat (map payload_objects ps)))"
    using keyed_log [of ps src_objects "map object_effect \<circ> payload_objects" src_objects_update s, simplified, OF one]
    by (simp_all add: map_concat comp_def)
qed

lemma forcing_log_effect:
  assumes "\<forall>p\<in>set ps. family_of p = ForcingFamily"
  shows "fold apply_payload ps s = s\<lparr>src_forcing := outcome (map forcing_effect (concat (map payload_changes ps))) (src_forcing s)\<rparr>"
    "fits_all s ps \<longleftrightarrow> follows (src_forcing s) (map forcing_effect (concat (map payload_changes ps)))"
proof -
  have one: "fits t p = follows (src_forcing t) (map forcing_effect (payload_changes p)) \<and>
      apply_payload p t = src_forcing_update (outcome (map forcing_effect (payload_changes p))) t"
    if "p \<in> set ps" for p t using assms that by (cases p) auto
  show "fold apply_payload ps s = s\<lparr>src_forcing := outcome (map forcing_effect (concat (map payload_changes ps))) (src_forcing s)\<rparr>"
    "fits_all s ps \<longleftrightarrow> follows (src_forcing s) (map forcing_effect (concat (map payload_changes ps)))"
    using keyed_log [of ps src_forcing "map forcing_effect \<circ> payload_changes" src_forcing_update s, simplified, OF one]
    by (simp_all add: map_concat comp_def)
qed

lemma parameter_log_effect:
  assumes "\<forall>p\<in>set ps. family_of p = ParameterFamily"
  shows "fold apply_payload ps s = s\<lparr>src_parameters := outcome (map parameter_effect (concat (map payload_parameters ps))) (src_parameters s)\<rparr>"
    "fits_all s ps \<longleftrightarrow> follows (src_parameters s) (map parameter_effect (concat (map payload_parameters ps)))"
proof -
  have one: "fits t p = follows (src_parameters t) (map parameter_effect (payload_parameters p)) \<and>
      apply_payload p t = src_parameters_update (outcome (map parameter_effect (payload_parameters p))) t"
    if "p \<in> set ps" for p t using assms that by (cases p) auto
  show "fold apply_payload ps s = s\<lparr>src_parameters := outcome (map parameter_effect (concat (map payload_parameters ps))) (src_parameters s)\<rparr>"
    "fits_all s ps \<longleftrightarrow> follows (src_parameters s) (map parameter_effect (concat (map payload_parameters ps)))"
    using keyed_log [of ps src_parameters "map parameter_effect \<circ> payload_parameters" src_parameters_update s, simplified, OF one]
    by (simp_all add: map_concat comp_def)
qed

lemma paint_log:
  assumes "\<forall>p\<in>set ps. family_of p = PaintFamily"
  shows "fold apply_payload ps s = s\<lparr>src_classes := foldl patched_cell (src_classes s) (concat (map payload_patches ps))\<rparr>"
proof -
  have "apply_payload p t = t\<lparr>src_classes := foldl patched_cell (src_classes t) (payload_patches p)\<rparr>"
    if "p \<in> set ps" for p t using assms that by (cases p) auto
  then show ?thesis by (induction ps arbitrary: s) simp_all
qed

lemma selection_log:
  assumes "\<forall>p\<in>set ps. family_of p = SelectionFamily"
  shows "fold apply_payload ps s = s\<lparr>src_layers := (if ps = [] then src_layers s else after_layers (List.last ps))\<rparr>"
    "fits_all s ps \<Longrightarrow> ps \<noteq> [] \<Longrightarrow> src_layers s = before_layers (hd ps)"
proof -
  have one: "fits t p = (src_layers t = before_layers p) \<and> apply_payload p t = t\<lparr>src_layers := after_layers p\<rparr>"
    if "p \<in> set ps" for p t using assms that by (cases p) auto
  show "fold apply_payload ps s = s\<lparr>src_layers := (if ps = [] then src_layers s else after_layers (List.last ps))\<rparr>"
    using one by (induction ps rule: rev_induct) simp_all
  show "src_layers s = before_layers (hd ps)" if "fits_all s ps" "ps \<noteq> []"
    using that one by (cases ps) simp_all
qed

section \<open>Coalescing keeps the effect\<close>

definition same_kind :: "source_delta list \<Rightarrow> bool" where
  "same_kind ds \<longleftrightarrow> ds \<noteq> [] \<and> (\<forall>d\<in>set ds. family_of (sd_payload d) = family_of (sd_payload (hd ds)) \<and>
     sd_source_node_id d = sd_source_node_id (hd ds) \<and> sd_adapter_id d = sd_adapter_id (hd ds))"

lemma traverse_unit: "(\<exists>us. traverse (\<lambda>x. if A x then Inl a else if B x then Inl b else if C x then Inl c else Inr ()) xs = Inr us) \<longleftrightarrow>
  (\<forall>x\<in>set xs. \<not> A x \<and> \<not> B x \<and> \<not> C x)"
  by (induction xs) (auto split: sum.splits)

lemma coalesce_unfold:
  assumes "same_kind ds"
  shows "coalesce_source_deltas ds = bind_exc (coalesce_payloads (map sd_payload ds)) (\<lambda>p.
    Inr \<lparr>sd_source_node_id = sd_source_node_id (hd ds), sd_adapter_id = sd_adapter_id (hd ds), sd_payload = p\<rparr>)"
proof -
  obtain d r where ds: "ds = d # r" using assms by (cases ds) (auto simp: same_kind_def)
  let ?t = "traverse (\<lambda>e. if family_of (sd_payload e) \<noteq> family_of (sd_payload d) then Inl (SourceDeltaError ''different families'')
              else if sd_source_node_id e \<noteq> sd_source_node_id d then Inl (SourceDeltaError ''different source nodes'')
              else if sd_adapter_id e \<noteq> sd_adapter_id d then Inl (SourceDeltaError ''different adapters'') else Inr ()) ds"
  have "\<exists>us. ?t = Inr us" unfolding traverse_unit using assms unfolding same_kind_def ds by simp
  then show ?thesis by (auto simp: coalesce_source_deltas_def ds)
qed

lemma same_kind_payloads:
  assumes "same_kind ds"
  shows "\<forall>q\<in>set (map sd_payload ds). family_of q = family_of (hd (map sd_payload ds))" "map sd_payload ds \<noteq> []"
proof -
  have ne: "ds \<noteq> []" using assms by (simp add: same_kind_def)
  then show "map sd_payload ds \<noteq> []" by simp
  have "\<forall>d\<in>set ds. family_of (sd_payload d) = family_of (sd_payload (hd ds))" using assms unfolding same_kind_def by blast
  then show "\<forall>q\<in>set (map sd_payload ds). family_of q = family_of (hd (map sd_payload ds))"
    unfolding hd_map [OF ne] set_map by blast
qed

lemma coalesce_same_kind:
  assumes "coalesce_source_deltas ds = Inr d"
  shows "same_kind ds"
proof (cases ds)
  case (Cons e r)
  then have "\<exists>us. traverse (\<lambda>x. if family_of (sd_payload x) \<noteq> family_of (sd_payload e) then Inl (SourceDeltaError ''different families'')
              else if sd_source_node_id x \<noteq> sd_source_node_id e then Inl (SourceDeltaError ''different source nodes'')
              else if sd_adapter_id x \<noteq> sd_adapter_id e then Inl (SourceDeltaError ''different adapters'') else Inr ()) (e # r) = Inr us"
    using assms unfolding coalesce_source_deltas_def Cons list.case bind_exc_Inr by blast
  then show ?thesis unfolding traverse_unit by (simp add: same_kind_def Cons)
qed (use assms in \<open>simp add: coalesce_source_deltas_def\<close>)

lemma map_sum_Inr_iff: "map_sum f g x = Inr z \<longleftrightarrow> (\<exists>y. x = Inr y \<and> z = g y)"
  by (cases x) auto

lemma objects_payload_effect:
  assumes "coalesce_object_changes (concat (map payload_objects ps)) = Inr cs" "p = VegetationObjects cs ws \<or> p = BuildingMassing cs ws"
    "\<forall>q\<in>set ps. family_of q = f" "f = VegetationFamily \<or> f = BuildingFamily" "fits_all s ps"
  shows "fits s p \<and> apply_payload p s = fold apply_payload ps s \<and> (payload_noop p \<longleftrightarrow> fold apply_payload ps s = s)"
proof -
  note log = objects_log [OF assms(3,4), of s]
  have "follows (src_objects s) (map object_effect (concat (map payload_objects ps)))" using assms(5) log(2) by simp
  note this = object_log.same_outcome [OF assms(1) this] object_log.empty_iff_same [OF assms(1) this]
  then show ?thesis using assms(2) unfolding log(1) by (auto intro: sources.equality dest: arg_cong [of _ _ src_objects])
qed

lemma coalesce_payloads_effect:
  assumes "coalesce_payloads ps = Inr p" "\<forall>q\<in>set ps. family_of q = family_of (hd ps)" "ps \<noteq> []" "fits_all s ps"
  shows "fits s p" "apply_payload p s = fold apply_payload ps s"
    "family_of p = family_of (hd ps)" "family_of p \<noteq> PaintFamily \<Longrightarrow> payload_noop p \<longleftrightarrow> fold apply_payload ps s = s"
proof -
  have "fits s p \<and> apply_payload p s = fold apply_payload ps s \<and> family_of p = family_of (hd ps) \<and>
    (family_of p \<noteq> PaintFamily \<longrightarrow> (payload_noop p \<longleftrightarrow> fold apply_payload ps s = s))"
  proof (cases "family_of (hd ps)")
    case VegetationFamily
    then have f: "\<forall>q\<in>set ps. family_of q = VegetationFamily" using assms(2) by simp
    obtain cs ws where cs: "coalesce_object_changes (concat (map payload_objects ps)) = Inr cs" "p = VegetationObjects cs ws"
      using assms(1) VegetationFamily by (auto simp: coalesce_payloads_def map_sum_Inr_iff)
    show ?thesis using objects_payload_effect [OF cs(1) _ f _ assms(4), of p ws] cs(2) by (simp add: VegetationFamily)
  next
    case BuildingFamily
    then have f: "\<forall>q\<in>set ps. family_of q = BuildingFamily" using assms(2) by simp
    obtain cs ws where cs: "coalesce_object_changes (concat (map payload_objects ps)) = Inr cs" "p = BuildingMassing cs ws"
      using assms(1) BuildingFamily by (auto simp: coalesce_payloads_def map_sum_Inr_iff)
    show ?thesis using objects_payload_effect [OF cs(1) _ f _ assms(4), of p ws] cs(2) by (simp add: BuildingFamily)
  next
    case PaintFamily
    then have f: "\<forall>q\<in>set ps. family_of q = PaintFamily" using assms(2) by simp
    show ?thesis using assms(1) by (auto simp: coalesce_payloads_def PaintFamily paint_log [OF f])
  next
    case ForcingFamily
    then have f: "\<forall>q\<in>set ps. family_of q = ForcingFamily" using assms(2) by simp
    obtain cs where cs: "coalesce_forcing (concat (map payload_changes ps)) = Inr cs" and p: "p = ForcingChanges cs"
      using assms(1) ForcingFamily by (auto simp: coalesce_payloads_def map_sum_Inr_iff)
    note log = forcing_log_effect [OF f, of s]
    have "follows (src_forcing s) (map forcing_effect (concat (map payload_changes ps)))" using assms(4) log(2) by simp
    note forcing_log.same_outcome [OF cs this] forcing_log.empty_iff_same [OF cs this]
    then show ?thesis unfolding log(1) p
      by (auto simp: ForcingFamily intro: sources.equality dest: arg_cong [of _ _ src_forcing])
  next
    case ParameterFamily
    then have f: "\<forall>q\<in>set ps. family_of q = ParameterFamily" using assms(2) by simp
    obtain cs where cs: "coalesce_parameters (concat (map payload_parameters ps)) = Inr cs" and p: "p = ParameterChanges cs"
      using assms(1) ParameterFamily by (auto simp: coalesce_payloads_def map_sum_Inr_iff)
    note log = parameter_log_effect [OF f, of s]
    have "follows (src_parameters s) (map parameter_effect (concat (map payload_parameters ps)))" using assms(4) log(2) by simp
    note parameter_log.same_outcome [OF cs this] parameter_log.empty_iff_same [OF cs this]
    then show ?thesis unfolding log(1) p
      by (auto simp: ParameterFamily intro: sources.equality dest: arg_cong [of _ _ src_parameters])
  next
    case SelectionFamily
    then have f: "\<forall>q\<in>set ps. family_of q = SelectionFamily" using assms(2) by simp
    show ?thesis using assms selection_log [OF f] by (auto simp: coalesce_payloads_def SelectionFamily dest: arg_cong [of _ _ src_layers])
  next
    case BaseFamily
    then show ?thesis using assms(1) by (simp add: coalesce_payloads_def)
  qed
  then show "fits s p" "apply_payload p s = fold apply_payload ps s" "family_of p = family_of (hd ps)"
    "family_of p \<noteq> PaintFamily \<Longrightarrow> payload_noop p \<longleftrightarrow> fold apply_payload ps s = s" by auto
qed

text \<open>The windows: those of a delta are kept as long as one of its objects ends up changed.\<close>

lemma windows_kept:
  assumes "coalesce_object_changes (concat (map payload_objects ps)) = Inr cs"
    "\<forall>q\<in>set ps. family_of q = f" "f = VegetationFamily \<or> f = BuildingFamily" "fits_all s ps"
    and "q \<in> set ps" "c \<in> set (payload_objects q)"
    "src_objects (fold apply_payload ps s) (oc_object_id c) \<noteq> src_objects s (oc_object_id c)"
  shows "set (payload_windows q) \<subseteq> set (surviving_windows cs ps)"
proof -
  note log = objects_log [OF assms(2,3), of s]
  let ?cs = "map object_effect (concat (map payload_objects ps))"
  have f: "follows (src_objects s) ?cs" using assms(4) log(2) by simp
  have "outcome ?cs (src_objects s) (oc_object_id c) \<noteq> src_objects s (oc_object_id c)"
    using assms(7) unfolding log(1) by simp
  then have "(oc_object_id c, src_objects s (oc_object_id c), outcome ?cs (src_objects s) (oc_object_id c)) \<in> set (map object_effect cs)"
    unfolding object_log.net_change [OF assms(1) f] by simp
  then have "oc_object_id c \<in> oc_object_id ` set cs" by (auto simp: object_effect_def)
  then have "oc_object_id ` set (payload_objects q) \<inter> oc_object_id ` set cs \<noteq> {}" using assms(6) by blast
  then show ?thesis using assms(5) by (auto simp: surviving_windows_def)
qed

lemma coalesced_windows:
  assumes "coalesce_payloads ps = Inr p" "\<forall>q\<in>set ps. family_of q = family_of (hd ps)" "fits_all s ps"
    and "q \<in> set ps" "family_of q = PaintFamily \<or>
      (\<exists>c\<in>set (payload_objects q). src_objects (fold apply_payload ps s) (oc_object_id c) \<noteq> src_objects s (oc_object_id c))"
  shows "set (payload_windows q) \<subseteq> set (payload_windows p)"
proof -
  have f: "family_of (hd ps) = family_of q" using assms(2,4) by simp
  then have "\<forall>r\<in>set ps. family_of r = family_of q" using assms(2) by simp
  note kept = windows_kept [OF _ this _ assms(3,4)]
  show ?thesis
  proof (cases q)
    case (LandCoverPaint patches)
    then have "p = LandCoverPaint (concat (map payload_patches ps))" using assms(1) f by (simp add: coalesce_payloads_def)
    then show ?thesis using assms(4) LandCoverPaint by force
  next
    case (VegetationObjects os ws)
    then obtain cs where cs: "coalesce_object_changes (concat (map payload_objects ps)) = Inr cs" "p = VegetationObjects cs (surviving_windows cs ps)"
      using assms(1) f by (auto simp: coalesce_payloads_def map_sum_Inr_iff)
    then show ?thesis using kept [OF cs(1)] assms(5) VegetationObjects by (elim disjE bexE) simp_all
  next
    case (BuildingMassing os ws)
    then obtain cs where cs: "coalesce_object_changes (concat (map payload_objects ps)) = Inr cs" "p = BuildingMassing cs (surviving_windows cs ps)"
      using assms(1) f by (auto simp: coalesce_payloads_def map_sum_Inr_iff)
    then show ?thesis using kept [OF cs(1)] assms(5) BuildingMassing by (elim disjE bexE) simp_all
  qed simp_all
qed

section \<open>When coalescing fails\<close>

definition entries_ok :: "payload \<Rightarrow> bool" where
  "entries_ok p \<longleftrightarrow> p \<noteq> NoPayload \<and> (\<forall>c\<in>set (payload_objects p). oc_object_id c \<noteq> []) \<and>
     (\<forall>c\<in>set (payload_changes p). fc_variable c \<noteq> [] \<and> (\<forall>t\<in>set_option (fc_time_index c). 0 \<le> t)) \<and>
     (\<forall>c\<in>set (payload_parameters p). pc_name c \<noteq> [])"

lemma object_fold_total:
  assumes "follows s (map object_effect cs)" "\<And>k b a. map_of m k = Some (b, a) \<Longrightarrow> norm_state a = s k"
  shows "\<exists>m'. fold_exc object_step m cs = Inr m'"
  using assms
proof (induction cs arbitrary: m s)
  case (Cons c cs)
  let ?m = "merge_change m (oc_object_id c, oc_before c, oc_after c)"
  have s: "s (oc_object_id c) = norm_state (oc_before c)"
    and r: "follows (s(oc_object_id c := norm_state (oc_after c))) (map object_effect cs)"
    using Cons.prems(1) by (simp_all add: object_effect_def [of c])
  have step: "object_step m c = Inr ?m"
    using Cons.prems(2) [of "oc_object_id c"] s
    by (auto simp: object_step_def state_eq_norm simp del: comp_apply split: option.splits)
  have "\<exists>m'. fold_exc object_step ?m cs = Inr m'"
    by (rule Cons.IH [OF r]) (use Cons.prems(2) in \<open>auto simp: map_of_merge simp del: comp_apply split: if_splits\<close>)
  then show ?case by (simp add: step)
qed simp

lemma traverse_Inr_ex: "(\<And>x. x \<in> set xs \<Longrightarrow> \<exists>y. f x = Inr y) \<Longrightarrow> \<exists>ys. traverse f xs = Inr ys"
proof (induction xs)
  case (Cons x xs)
  then obtain y ys where "f x = Inr y" "traverse f xs = Inr ys" by (metis list.set_intros)
  then show ?case by simp
qed simp

lemma merge_change_keys: "set (dict_keys (merge_change m c)) = insert (fst c) (set (dict_keys m))"
  by (cases c) (simp add: merge_change_def del: set_map)

lemma merged_keys: "set (dict_keys (merged_changes cs)) = fst ` set cs"
proof -
  have "set (dict_keys (foldl merge_change m cs)) = set (dict_keys m) \<union> fst ` set cs" for m :: "('a \<times> 'b \<times> 'b) list"
    by (induction cs arbitrary: m) (simp_all add: merge_change_keys del: set_map)
  from this [of "[]"] show ?thesis by simp
qed

lemma coalesce_objects_total:
  assumes "follows s (map object_effect cs)" "\<forall>c\<in>set cs. oc_object_id c \<noteq> []"
  shows "\<exists>out. coalesce_object_changes cs = Inr out"
proof -
  obtain m where m: "fold_exc object_step [] cs = Inr m" using object_fold_total [OF assms(1), of "[]"] by auto
  have "i \<noteq> []" if "(i, b, a) \<in> set m" for i b a
  proof -
    have "i \<in> set (dict_keys m)" using that by force
    then show ?thesis using assms(2) unfolding object_fold [OF m] merged_keys by auto
  qed
  then have "\<exists>out. traverse (\<lambda>(i, before, after). mk_object_change i before after)
         (filter (\<lambda>(_, before, after). \<not> (before = None \<and> after = None) \<and> \<not> state_eq before after) (sorted_items m)) = Inr out"
    by (intro traverse_Inr_ex) (auto simp: mk_object_change_def require_non_empty_def)
  then show ?thesis by (simp add: coalesce_object_changes_def m)
qed

lemma coalesce_parameters_total:
  assumes "\<forall>c\<in>set cs. pc_name c \<noteq> []"
  shows "\<exists>out. coalesce_parameters cs = Inr out"
proof -
  let ?m = "merged_changes (map (\<lambda>c. (pc_name c, pc_before_value c, pc_after_value c)) cs)"
  have "n \<noteq> []" if "(n, b, a) \<in> set ?m" for n b a
  proof -
    have "n \<in> set (dict_keys ?m)" using that by force
    then show ?thesis using assms unfolding merged_keys by auto
  qed
  then have "\<exists>ys. traverse (\<lambda>(name, before, after). mk_parameter_change name before after) ?m = Inr ys"
    by (intro traverse_Inr_ex) (auto simp: mk_parameter_change_def require_non_empty_def)
  then show ?thesis by (auto simp: coalesce_parameters_def)
qed

text \<open>A batch of forcing changes that fits fails exactly when a variable has a net change of its whole series
  and a net change at a time.\<close>

definition mixed_times :: "(string \<times> int option \<Rightarrow> json) \<Rightarrow> (string \<times> int option \<Rightarrow> json) \<Rightarrow> bool" where
  "mixed_times before after \<longleftrightarrow> (\<exists>v t. before (v, None) \<noteq> after (v, None) \<and> before (v, Some t) \<noteq> after (v, Some t))"

lemma unordered_times_iff: "unordered_times cs \<longleftrightarrow>
  (\<exists>v t. (\<exists>c\<in>set cs. fc_variable c = v \<and> fc_time_index c = None) \<and> (\<exists>c\<in>set cs. fc_variable c = v \<and> fc_time_index c = Some t))"
  unfolding unordered_times_def by (auto simp: not_None_eq) (metis option.distinct(1))?

lemma coalesce_forcing_fails:
  assumes f: "follows s (map forcing_effect cs)"
    and ok: "\<forall>c\<in>set cs. fc_variable c \<noteq> [] \<and> (\<forall>t\<in>set_option (fc_time_index c). 0 \<le> t)"
  shows "coalesce_forcing cs = Inl e \<longleftrightarrow> e = Unordered ''None and int'' \<and> mixed_times s (outcome (map forcing_effect cs) s)"
proof -
  let ?raw = "map (\<lambda>c. ((fc_variable c, fc_time_index c), fc_before_value c, fc_after_value c)) cs"
  let ?mk = "\<lambda>((variable, t), before, after). mk_forcing_change variable t before after"
  let ?m = "merged_changes (map forcing_effect cs)"
  have "v \<noteq> [] \<and> (\<forall>i\<in>set_option t. 0 \<le> i)" if "((v, t), b, a) \<in> set (merged_changes ?raw)" for v t b a
  proof -
    have "(v, t) \<in> set (dict_keys (merged_changes ?raw))" using that by force
    then show ?thesis using ok unfolding merged_keys by auto
  qed
  then have "\<exists>y. ?mk x = Inr y" if "x \<in> set (merged_changes ?raw)" for x
    using that by (cases x) (fastforce simp: mk_forcing_change_def require_non_empty_def)
  then have "\<exists>ys. traverse ?mk (merged_changes ?raw) = Inr ys" by (rule traverse_Inr_ex)
  then obtain ys where ys: "traverse ?mk (merged_changes ?raw) = Inr ys" ..
  let ?kept = "filter (\<lambda>c. \<not> py_eq (fc_before_value c) (fc_after_value c)) ys"
  have "map forcing_effect ys = map (on_values py_norm) (merged_changes ?raw)"
    by (rule traverse_map_eq [OF ys]) (auto simp: mk_forcing_effect)
  then have "map forcing_effect ys = ?m" unfolding forcing_norm merged_on_values .
  moreover have "map forcing_effect ?kept = filter (\<lambda>(_, b, a). b \<noteq> a) (map forcing_effect ys)"
    by (induction ys) (simp_all add: forcing_effect_def py_eq_def)
  ultimately have "set (map forcing_effect ?kept) = {(k, b, a). map_of ?m k = Some (b, a) \<and> b \<noteq> a}"
    using kept_changes [OF merged_distinct] by metis
  moreover have "map_of ?m k = Some (b, a) \<and> b \<noteq> a \<longleftrightarrow> b = s k \<and> a = outcome (map forcing_effect cs) s k \<and> b \<noteq> a" for k b a
    using merged_effect [OF f, of k] by (auto split: option.splits)
  ultimately have kept: "set (map forcing_effect ?kept) =
      {(k, b, a). b = s k \<and> a = outcome (map forcing_effect cs) s k \<and> b \<noteq> a}" by simp
  have key: "(\<exists>c\<in>set ?kept. fc_variable c = v \<and> fc_time_index c = t) \<longleftrightarrow> s (v, t) \<noteq> outcome (map forcing_effect cs) s (v, t)" for v t
  proof -
    have "(\<exists>c\<in>set ?kept. fc_variable c = v \<and> fc_time_index c = t) \<longleftrightarrow> (v, t) \<in> fst ` set (map forcing_effect ?kept)"
      by (force simp: forcing_effect_def)
    then show ?thesis unfolding kept by force
  qed
  have "unordered_times ?kept \<longleftrightarrow> mixed_times s (outcome (map forcing_effect cs) s)"
    unfolding unordered_times_iff key mixed_times_def ..
  then show ?thesis by (auto simp: coalesce_forcing_def ys Let_def)
qed

lemma not_mixed [simp]: "\<not> mixed_times x x"
  by (simp add: mixed_times_def)

lemma objects_payload_total:
  assumes "\<forall>q\<in>set ps. family_of q = f" "f = VegetationFamily \<or> f = BuildingFamily" "fits_all s ps" "\<forall>q\<in>set ps. entries_ok q" "ps \<noteq> []"
  shows "\<exists>p. coalesce_payloads ps = Inr p" "src_forcing (fold apply_payload ps s) = src_forcing s"
proof -
  note log = objects_log [OF assms(1,2), of s]
  have "\<exists>out. coalesce_object_changes (concat (map payload_objects ps)) = Inr out"
    by (rule coalesce_objects_total [OF log(2) [THEN iffD1, OF assms(3)]]) (use assms(4) in \<open>auto simp: entries_ok_def\<close>)
  moreover have "family_of (hd ps) = f" using assms(1,5) by simp
  ultimately show "\<exists>p. coalesce_payloads ps = Inr p" using assms(2) by (auto simp: coalesce_payloads_def)
  show "src_forcing (fold apply_payload ps s) = src_forcing s" unfolding log(1) by simp
qed

lemma forcing_payload_fails:
  assumes "\<forall>q\<in>set ps. family_of q = ForcingFamily" "fits_all s ps" "\<forall>q\<in>set ps. entries_ok q" "ps \<noteq> []"
  shows "coalesce_payloads ps = Inl e \<longleftrightarrow> e = Unordered ''None and int'' \<and> mixed_times (src_forcing s) (src_forcing (fold apply_payload ps s))"
proof -
  note log = forcing_log_effect [OF assms(1), of s]
  have "coalesce_forcing (concat (map payload_changes ps)) = Inl e \<longleftrightarrow> e = Unordered ''None and int'' \<and>
      mixed_times (src_forcing s) (outcome (map forcing_effect (concat (map payload_changes ps))) (src_forcing s))"
    by (rule coalesce_forcing_fails [OF log(2) [THEN iffD1, OF assms(2)]]) (use assms(3) in \<open>auto simp: entries_ok_def\<close>)
  moreover have "family_of (hd ps) = ForcingFamily" using assms(1,4) by simp
  then have "coalesce_payloads ps = Inl e \<longleftrightarrow> coalesce_forcing (concat (map payload_changes ps)) = Inl e"
    by (cases "coalesce_forcing (concat (map payload_changes ps))") (simp_all add: coalesce_payloads_def)
  ultimately show ?thesis unfolding log(1) by simp
qed

lemma other_payload_total:
  assumes "\<forall>q\<in>set ps. family_of q = f" "f = PaintFamily \<or> f = ParameterFamily \<or> f = SelectionFamily" "\<forall>q\<in>set ps. entries_ok q" "ps \<noteq> []"
  shows "\<exists>p. coalesce_payloads ps = Inr p" "src_forcing (fold apply_payload ps s) = src_forcing s"
proof -
  have "family_of (hd ps) = f" using assms(1,4) by simp
  moreover have "\<exists>out. coalesce_parameters (concat (map payload_parameters ps)) = Inr out"
    by (rule coalesce_parameters_total) (use assms(3) in \<open>auto simp: entries_ok_def\<close>)
  ultimately show "\<exists>p. coalesce_payloads ps = Inr p" using assms(2) by (auto simp: coalesce_payloads_def)
  consider "f = PaintFamily" | "f = ParameterFamily" | "f = SelectionFamily" using assms(2) by blast
  then show "src_forcing (fold apply_payload ps s) = src_forcing s"
  proof cases
    case 1
    then show ?thesis using paint_log [of ps s] assms(1) by simp
  next
    case 2
    then show ?thesis using parameter_log_effect(1) [of ps s] assms(1) by simp
  next
    case 3
    then show ?thesis using selection_log(1) [of ps s] assms(1) by simp
  qed
qed

lemma payload_fails:
  assumes "\<forall>q\<in>set ps. family_of q = family_of (hd ps)" "fits_all s ps" "\<forall>q\<in>set ps. entries_ok q" "ps \<noteq> []"
  shows "coalesce_payloads ps = Inl e \<longleftrightarrow> e = Unordered ''None and int'' \<and> mixed_times (src_forcing s) (src_forcing (fold apply_payload ps s))"
proof -
  have "entries_ok (hd ps)" by (rule bspec [OF assms(3) hd_in_set [OF assms(4)]])
  then have "family_of (hd ps) \<noteq> BaseFamily" by (cases "hd ps") (simp_all add: entries_ok_def)
  then consider "family_of (hd ps) = ForcingFamily" | "family_of (hd ps) = VegetationFamily \<or> family_of (hd ps) = BuildingFamily"
    | "family_of (hd ps) = PaintFamily \<or> family_of (hd ps) = ParameterFamily \<or> family_of (hd ps) = SelectionFamily"
    by (cases "family_of (hd ps)") simp_all
  then show ?thesis
  proof cases
    case 1
    then show ?thesis using assms(1) by (intro forcing_payload_fails [OF _ assms(2-4)]) simp
  next
    case 2
    obtain p where "coalesce_payloads ps = Inr p" using objects_payload_total(1) [OF assms(1) 2 assms(2-4)] ..
    then show ?thesis unfolding objects_payload_total(2) [OF assms(1) 2 assms(2-4)] by simp
  next
    case 3
    obtain p where "coalesce_payloads ps = Inr p" using other_payload_total(1) [OF assms(1) 3 assms(3,4)] ..
    then show ?thesis unfolding other_payload_total(2) [OF assms(1) 3 assms(3,4)] by simp
  qed
qed

lemma coalesce_fails:
  assumes "same_kind ds" "fits_all s (map sd_payload ds)" "\<forall>d\<in>set ds. entries_ok (sd_payload d)"
  shows "coalesce_source_deltas ds = Inl e \<longleftrightarrow> e = Unordered ''None and int'' \<and>
    mixed_times (src_forcing s) (src_forcing (fold apply_payload (map sd_payload ds) s))"
proof -
  have "\<forall>q\<in>set (map sd_payload ds). entries_ok q" using assms(3) unfolding set_map by blast
  note payload_fails [OF same_kind_payloads(1) [OF assms(1)] assms(2) this same_kind_payloads(2) [OF assms(1)], of e]
  then show ?thesis unfolding coalesce_unfold [OF assms(1)] by (cases "coalesce_payloads (map sd_payload ds)") simp_all
qed

section \<open>Properties\<close>


definition demo_window :: raster_window where
  "demo_window = \<lparr>rw_row_start = 0, rw_row_stop = 2, rw_col_start = 0, rw_col_stop = 2\<rparr>"

definition demo_object :: "json dict option \<Rightarrow> json dict option \<Rightarrow> source_delta" where
  "demo_object before after = \<lparr>sd_source_node_id = ''VEG'', sd_adapter_id = ''veg'',
     sd_payload = VegetationObjects [\<lparr>oc_object_id = ''t'', oc_before = before, oc_after = after\<rparr>] [demo_window]\<rparr>"

definition demo_sources :: sources where
  "demo_sources = \<lparr>src_objects = (\<lambda>_. None), src_classes = (\<lambda>_. 0), src_forcing = (\<lambda>_. JInt 5), src_parameters = (\<lambda>_. JNull), src_layers = []\<rparr>"

lemmas demo_deltas = demo_object_def demo_sources_def demo_window_def

definition demo_growth :: "source_delta list" where
  "demo_growth = [demo_object None (Some [(''h'', JInt 3)]), demo_object (Some [(''h'', JInt 3)]) (Some [(''h'', JInt 4)])]"

definition demo_grown_object :: source_delta where
  "demo_grown_object = demo_object None (Some [(''h'', JInt 4)]) \<lparr>sd_payload := VegetationObjects
      [\<lparr>oc_object_id = ''t'', oc_before = None, oc_after = Some [(''h'', JInt 4)]\<rparr>] [demo_window, demo_window]\<rparr>"

lemma demo_coalesced: "coalesce_source_deltas demo_growth = Inr demo_grown_object"
  by (simp add: demo_growth_def demo_grown_object_def demo_deltas coalesce_source_deltas_def coalesce_payloads_def coalesce_object_changes_def
      object_step_def merge_change_def state_eq_def sorted_items_def mk_object_change_def require_non_empty_def freeze_mapping_def
      surviving_windows_def)


text \<open>A batch of well-formed deltas of one kind whose old values match the sources fails to coalesce only
  in one way: the comparison of a missing time with a number raises, exactly when some forcing variable has
  both a net change of its whole series and a net change at one time.\<close>

lemma coalesce_fails_on_mixed_times:
  assumes "same_kind ds" "fits_all s (map sd_payload ds)" "\<forall>d\<in>set ds. entries_ok (sd_payload d)"
  shows "coalesce_source_deltas ds = Inl e \<longleftrightarrow> e = Unordered ''None and int'' \<and>
    mixed_times (src_forcing s) (src_forcing (fold apply_payload (map sd_payload ds) s))"
  by (rule coalesce_fails [OF assms])

definition demo_series :: "source_delta list" where
  "demo_series = map (\<lambda>(t, before, after). \<lparr>sd_source_node_id = ''FORCING'', sd_adapter_id = ''met'',
     sd_payload = ForcingChanges [\<lparr>fc_variable = ''Ta'', fc_time_index = t, fc_before_value = before, fc_after_value = after\<rparr>]\<rparr>)
     [(None, JInt 5, JInt 6), (Some 3, JInt 5, JInt 7)]"

lemma coalesce_fails_on_mixed_times_witness:
  "coalesce_source_deltas demo_series = Inl (Unordered ''None and int'')"
proof -
  let ?s = "demo_sources\<lparr>src_forcing := \<lambda>_. py_norm (JInt 5)\<rparr>"
  have "same_kind demo_series" "fits_all ?s (map sd_payload demo_series)" "\<forall>d\<in>set demo_series. entries_ok (sd_payload d)"
    by (simp_all add: demo_series_def same_kind_def entries_ok_def forcing_effect_def)
  note coalesce_fails_on_mixed_times [OF this, of "Unordered ''None and int''"]
  moreover have "mixed_times (src_forcing ?s) (src_forcing (fold apply_payload (map sd_payload demo_series) ?s))"
    unfolding mixed_times_def
    by (rule exI [of _ "''Ta''"], rule exI [of _ 3]) (simp add: demo_series_def forcing_effect_def)
  ultimately show ?thesis by simp
qed

end
