(* ===== verification/Edit_Planner_Plans.thy ===== *)
theory Edit_Planner_Plans
  imports Edit_Planner_Contract Source_Deltas_Contract
begin

text \<open>
  Whole plans. The changed sources are related to the batch they come from, the fences and the narrowed comfort plan are
  characterised, and the properties of \<open>EditPlanner.plan\<close> over the scene graph follow from the walk
  of \<open>Edit_Planner_Contract\<close>.
\<close>

section \<open>Changed sources\<close>

definition batch :: "validated_edit list \<Rightarrow> string \<Rightarrow> string \<Rightarrow> source_delta list" where
  "batch edits n a = map ve_delta (filter (\<lambda>e. ve_source_node_id e = n \<and> ve_adapter_id e = a) edits)"

lemma group_deltas_batch:
  "distinct (dict_keys (group_deltas edits)) \<and>
   (\<forall>n a. map_of (group_deltas edits) (n, a) = (if batch edits n a = [] then None else Some (batch edits n a)))"
proof (induction edits rule: rev_induct)
  case (snoc e edits)
  then show ?case
    by (auto simp: group_deltas_def batch_def dict_append_def dict_get_def distinct_update split: option.splits)
qed (simp add: group_deltas_def batch_def)

lemma group_entries: "(k, ds) \<in> set (sorted_items (group_deltas edits)) \<longleftrightarrow> ds = batch edits (fst k) (snd k) \<and> ds \<noteq> []"
proof -
  have "(k, ds) \<in> set (group_deltas edits) \<longleftrightarrow> map_of (group_deltas edits) k = Some ds"
    using group_deltas_batch [of edits] by (simp add: map_of_eq_Some_iff)
  then show ?thesis using group_deltas_batch [of edits] by (cases k) (auto simp: sorted_items_def split: if_splits)
qed

lemma coalesce_groups:
  assumes "fold_exc coalesce_group changed entries = Inr changed'" "distinct (dict_keys changed)"
    and "\<forall>n. n \<in> set (dict_keys changed) \<longleftrightarrow> dict_get changed n [] \<noteq> []"
  shows "distinct (dict_keys changed') \<and> (\<forall>n. n \<in> set (dict_keys changed') \<longleftrightarrow> dict_get changed' n [] \<noteq> []) \<and>
    (\<forall>n d. d \<in> set (dict_get changed' n []) \<longleftrightarrow> d \<in> set (dict_get changed n []) \<or>
      (\<exists>a ds. ((n, a), ds) \<in> set entries \<and> coalesce_source_deltas ds = Inr d \<and> \<not> is_noop d))"
  using assms
proof (induction entries arbitrary: changed)
  case (Cons x entries)
  obtain k a ds where x: "x = ((k, a), ds)" by (cases x) auto
  obtain d0 where d0: "coalesce_source_deltas ds = Inr d0" using Cons.prems(1) by (auto simp: coalesce_group_def x bind_exc_Inr map_sum_Inr_iff split: sum.splits)
  let ?c = "if is_noop d0 then changed else dict_append changed k d0"
  have "coalesce_group changed x = Inr ?c" by (simp add: coalesce_group_def x d0)
  then have rest: "fold_exc coalesce_group ?c entries = Inr changed'" using Cons.prems(1) by simp
  have keys: "set (dict_keys (dict_append changed k d0)) = insert k (set (dict_keys changed))"
    unfolding dict_append_def by (rule set_dict_keys_update)
  have inv: "distinct (dict_keys ?c)" "\<forall>n. n \<in> set (dict_keys ?c) \<longleftrightarrow> dict_get ?c n [] \<noteq> []"
    using Cons.prems(2,3) keys by (auto simp: get_append dict_append_def distinct_update)
  have get: "d \<in> set (dict_get ?c n []) \<longleftrightarrow> d \<in> set (dict_get changed n []) \<or> n = k \<and> d = d0 \<and> \<not> is_noop d0" for d n
    by (auto simp: get_append)
  show ?case using Cons.IH [OF rest inv] unfolding get x using d0 by auto
qed simp

lemma changed_sources_spec:
  assumes "changed_sources edits = Inr changed"
  shows "distinct (dict_keys changed)" "n \<in> set (dict_keys changed) \<longleftrightarrow> dict_get changed n [] \<noteq> []"
    "d \<in> set (dict_get changed n []) \<longleftrightarrow>
      (\<exists>a. batch edits n a \<noteq> [] \<and> coalesce_source_deltas (batch edits n a) = Inr d \<and> \<not> is_noop d)"
proof -
  have "\<forall>n. n \<in> set (dict_keys []) \<longleftrightarrow> dict_get [] n [] \<noteq> ([] :: source_delta list)" by (simp add: dict_get_def)
  note spec = coalesce_groups [OF assms [unfolded changed_sources_def] _ this, unfolded group_entries fst_conv snd_conv]
  show "distinct (dict_keys changed)" "n \<in> set (dict_keys changed) \<longleftrightarrow> dict_get changed n [] \<noteq> []" using spec by auto
  show "d \<in> set (dict_get changed n []) \<longleftrightarrow>
      (\<exists>a. batch edits n a \<noteq> [] \<and> coalesce_source_deltas (batch edits n a) = Inr d \<and> \<not> is_noop d)"
    using spec by (auto simp: dict_get_def)
qed

section \<open>Coalesced pieces\<close>

lemma traverse_mem: "traverse f xs = Inr ys \<Longrightarrow> y \<in> set ys \<Longrightarrow> \<exists>x\<in>set xs. f x = Inr y"
  by (induction xs arbitrary: ys) (auto split: sum.splits)

lemma coalesced_times:
  assumes "coalesce_source_deltas ds = Inr d" "t \<in> set (time_indices (payload_changes (sd_payload d)))"
  shows "0 \<le> t"
proof -
  obtain p where p: "coalesce_payloads (map sd_payload ds) = Inr p" "sd_payload d = p"
    using assms(1) unfolding coalesce_unfold [OF coalesce_same_kind [OF assms(1)]] bind_exc_Inr by auto
  obtain c where c: "c \<in> set (payload_changes p)" "fc_time_index c = Some t"
    using assms(2) unfolding p(2) time_indices_def some_times_def by (auto split: option.splits)
  then obtain cs where "p = ForcingChanges cs" by (cases p) auto
  then obtain cs where cs: "coalesce_forcing (concat (map payload_changes (map sd_payload ds))) = Inr cs" "c \<in> set cs"
    using p(1) c(1) by (auto simp: coalesce_payloads_def map_sum_Inr_iff split: family.splits)
  then obtain x where "mk_forcing_change (fst (fst x)) (snd (fst x)) (fst (snd x)) (snd (snd x)) = Inr c"
    by (auto simp: coalesce_forcing_def Let_def bind_exc_Inr split: if_splits dest!: traverse_mem)
  then show ?thesis using c(2) by (auto simp: mk_forcing_change_def bind_exc_Inr split: if_splits)
qed

lemma coalesced_spatial:
  assumes "coalesce_source_deltas ds = Inr d" "w \<in> set (spatial_windows d)"
  shows "\<exists>e\<in>set ds. w \<in> set (spatial_windows e)"
proof -
  obtain p where p: "coalesce_payloads (map sd_payload ds) = Inr p" "sd_payload d = p"
    using assms(1) unfolding coalesce_unfold [OF coalesce_same_kind [OF assms(1)]] bind_exc_Inr by auto
  have patches: "set (map pp_window (payload_patches q)) \<subseteq> set (payload_windows q)" for q by (cases q) auto
  have "\<exists>q\<in>set (map sd_payload ds). w \<in> set (payload_windows q)"
    using p(1) assms(2) patches unfolding spatial_windows_def p(2)
    by (auto simp: coalesce_payloads_def map_sum_Inr_iff surviving_windows_def split: family.splits if_splits) blast
  then show ?thesis by (auto simp: spatial_windows_def)
qed

lemma coalesced_ids:
  assumes "coalesce_source_deltas ds = Inr d"
  shows "\<exists>e\<in>set ds. sd_adapter_id d = sd_adapter_id e \<and> sd_source_node_id d = sd_source_node_id e"
proof -
  note same = coalesce_same_kind [OF assms]
  have "hd ds \<in> set ds" using same by (simp add: same_kind_def)
  then show ?thesis using assms unfolding coalesce_unfold [OF same] bind_exc_Inr by auto
qed

section \<open>Well-formed batches and fences\<close>

text \<open>An edit built by its checked constructors, on a source or a view of the graph.\<close>

definition sound_edit :: "edit_graph \<Rightarrow> validated_edit \<Rightarrow> bool" where
  "sound_edit g e \<longleftrightarrow> check_validated_edit e = Inr e \<and> (\<exists>c. check_edit_command c = Inr (ve_command e)) \<and>
     (\<forall>w\<in>set (spatial_windows (ve_delta e)). window_ok w) \<and> map_of (eg_kinds g) (ve_source_node_id e) \<in> {Some SOURCE, Some VIEW}"

definition fences_passed :: "edit_planner \<Rightarrow> bool \<Rightarrow> validated_edit list \<Rightarrow> scene_graph_state \<Rightarrow> site_context option \<Rightarrow> bool" where
  "fences_passed p same_graph edits s context \<longleftrightarrow> edits \<noteq> [] \<and> check_batch_invariants same_graph edits s = Inr () \<and>
     check_context p edits s context = Inr () \<and> (\<forall>e\<in>set edits. check_registry_fact p e = Inr ()) \<and> check_wind_fence p edits = Inr ()"

definition scientific :: "edit_planner \<Rightarrow> source_delta list dict \<Rightarrow> string list" where
  "scientific p changed = filter (\<lambda>n. map_of (eg_kinds (ep_graph p)) n \<noteq> Some VIEW) (sort (dict_keys changed))"

definition viewed :: "edit_planner \<Rightarrow> source_delta list dict \<Rightarrow> string list" where
  "viewed p changed = filter (\<lambda>n. map_of (eg_kinds (ep_graph p)) n = Some VIEW) (sort (dict_keys changed))"

lemma kinds_known:
  assumes "\<forall>n\<in>set ns. map_of (eg_kinds g) n \<noteq> None"
  shows "kinds_of g ns = Inr (map (\<lambda>n. (n, the (map_of (eg_kinds g) n))) ns)"
proof -
  have "traverse (\<lambda>n. map_sum id (\<lambda>k. (n, k)) (graph_kind g n)) ns = Inr (map (\<lambda>n. (n, the (map_of (eg_kinds g) n))) ns)"
    by (rule traverse_total) (use assms in \<open>auto simp: graph_kind_def\<close>)
  then show ?thesis by (simp add: kinds_of_def)
qed

lemma edit_times:
  assumes "\<forall>e\<in>set edits. sound_edit g e"
  shows "times_ok (requested_times_of edits)"
proof -
  have H: "0 \<le> t" if "e \<in> set edits" "ec_requested_times (ve_command e) = Some ts" "t \<in> set ts" for e ts t
  proof -
    have "sound_edit g e" using assms that(1) by blast
    then obtain c where "check_edit_command c = Inr (ve_command e)" unfolding sound_edit_def by blast
    then have c: "\<forall>t\<in>set (case ec_requested_times c of None \<Rightarrow> [] | Some ts \<Rightarrow> ts). 0 \<le> t"
      "ve_command e = c\<lparr>ec_old_state := freeze_mapping (ec_old_state c), ec_new_state := freeze_mapping (ec_new_state c)\<rparr>"
      by (auto simp: check_edit_command_def bind_exc_Inr split: if_splits)
    show ?thesis using that(2,3) c(1) unfolding c(2) by simp
  qed
  have "\<exists>e\<in>set edits. \<exists>ts. ec_requested_times (ve_command e) = Some ts \<and> t \<in> set ts" if "t \<in> set (requested_times_of edits)" for t
    using that by (auto simp: requested_times_of_def split: option.splits) metis
  then show ?thesis using H unfolding times_ok_def by blast
qed

lemma registry_facts: "(\<exists>us. traverse (check_registry_fact p) edits = Inr us) \<longleftrightarrow> (\<forall>e\<in>set edits. check_registry_fact p e = Inr ())"
proof
  assume "\<exists>us. traverse (check_registry_fact p) edits = Inr us"
  then show "\<forall>e\<in>set edits. check_registry_fact p e = Inr ()" using traverse_all [of "check_registry_fact p" edits] by auto
next
  assume "\<forall>e\<in>set edits. check_registry_fact p e = Inr ()"
  then have "traverse (check_registry_fact p) edits = Inr (map (\<lambda>_. ()) edits)" by (intro traverse_total) blast
  then show "\<exists>us. traverse (check_registry_fact p) edits = Inr us" ..
qed

lemma changed_nodes:
  assumes "changed_sources edits = Inr changed" "n \<in> set (dict_keys changed)"
  shows "\<exists>e\<in>set edits. ve_source_node_id e = n"
proof -
  obtain d where "d \<in> set (dict_get changed n [])" using changed_sources_spec(2) [OF assms(1)] assms(2) by (metis list.set_intros(1) neq_Nil_conv)
  then obtain a where "batch edits n a \<noteq> []" using changed_sources_spec(3) [OF assms(1)] by blast
  then show ?thesis by (auto simp: batch_def filter_empty_conv)
qed

lemma changed_delta:
  assumes "changed_sources edits = Inr changed" "d \<in> set (dict_get changed n [])" "\<forall>e\<in>set edits. sound_edit g e"
  shows "\<exists>e\<in>set edits. sd_adapter_id d = ve_adapter_id e" "\<forall>w\<in>set (spatial_windows d). window_ok w"
    "\<forall>t\<in>set (time_indices (payload_changes (sd_payload d))). 0 \<le> t"
proof -
  obtain a where d: "coalesce_source_deltas (batch edits n a) = Inr d" using changed_sources_spec(3) [OF assms(1)] assms(2) by blast
  have mem: "\<exists>e\<in>set edits. x = ve_delta e" if "x \<in> set (batch edits n a)" for x using that by (auto simp: batch_def)
  obtain e where "e \<in> set edits" "sd_adapter_id d = sd_adapter_id (ve_delta e)" using coalesced_ids [OF d] mem by metis
  moreover from this have "sd_adapter_id (ve_delta e) = ve_adapter_id e"
    using assms(3) by (auto simp: sound_edit_def check_validated_edit_def bind_exc_Inr split: if_splits)
  ultimately show "\<exists>e\<in>set edits. sd_adapter_id d = ve_adapter_id e" by auto
  show "\<forall>w\<in>set (spatial_windows d). window_ok w" using coalesced_spatial [OF d] mem assms(3) unfolding sound_edit_def by metis
  show "\<forall>t\<in>set (time_indices (payload_changes (sd_payload d))). 0 \<le> t" using coalesced_times [OF d] by blast
qed

text \<open>Past the fences, \<open>plan\<close> depends on the changed sources alone.\<close>

lemma plan_past_fences:
  assumes "\<forall>e\<in>set edits. sound_edit (ep_graph p) e"
  shows "(\<exists>pl. plan_edits p sg edits s context = Inr pl \<and> P pl) \<longleftrightarrow> fences_passed p sg edits s context \<and>
    (\<exists>changed. changed_sources edits = Inr changed \<and>
      (\<exists>pl. (if scientific p changed = [] then no_stage_plan p changed
              (\<exists>e\<in>set edits. map_of (eg_kinds (ep_graph p)) (ve_source_node_id e) \<noteq> Some VIEW) s
            else plan_stages p edits s context changed (scientific p changed) (viewed p changed)) = Inr pl \<and> P pl))"
proof -
  let ?K = "eg_kinds (ep_graph p)"
  have src: "map_of ?K (ve_source_node_id e) \<noteq> None" if "e \<in> set edits" for e using assms that by (auto simp: sound_edit_def)
  have split: "plan_edits p sg edits s context = Inr pl \<longleftrightarrow> fences_passed p sg edits s context \<and>
    (\<exists>changed. changed_sources edits = Inr changed \<and>
      (if scientific p changed = [] then no_stage_plan p changed (\<exists>e\<in>set edits. map_of ?K (ve_source_node_id e) \<noteq> Some VIEW) s
       else plan_stages p edits s context changed (scientific p changed) (viewed p changed)) = Inr pl)" for pl
  proof -
    have k2: "kinds_of (ep_graph p) (map ve_source_node_id edits) = Inr (map (\<lambda>n. (n, the (map_of ?K n))) (map ve_source_node_id edits))"
      by (rule kinds_known) (use src in auto)
    have k1: "kinds_of (ep_graph p) (sort (dict_keys changed)) = Inr (map (\<lambda>n. (n, the (map_of ?K n))) (sort (dict_keys changed)))"
      and f: "map fst (filter (\<lambda>nk. snd nk \<noteq> VIEW) (map (\<lambda>n. (n, the (map_of ?K n))) (sort (dict_keys changed)))) = scientific p changed"
        "map fst (filter (\<lambda>nk. snd nk = VIEW) (map (\<lambda>n. (n, the (map_of ?K n))) (sort (dict_keys changed)))) = viewed p changed"
      if c: "changed_sources edits = Inr changed" for changed
    proof -
      have known: "\<exists>k. map_of ?K n = Some k" if "n \<in> set (dict_keys changed)" for n
        using changed_nodes [OF c that] src by blast
      have is_view: "the (map_of ?K n) = VIEW \<longleftrightarrow> map_of ?K n = Some VIEW" if "n \<in> set (dict_keys changed)" for n
        using known [OF that] by auto
      show "kinds_of (ep_graph p) (sort (dict_keys changed)) = Inr (map (\<lambda>n. (n, the (map_of ?K n))) (sort (dict_keys changed)))"
        by (rule kinds_known) (use known in auto)
      show "map fst (filter (\<lambda>nk. snd nk \<noteq> VIEW) (map (\<lambda>n. (n, the (map_of ?K n))) (sort (dict_keys changed)))) = scientific p changed"
        "map fst (filter (\<lambda>nk. snd nk = VIEW) (map (\<lambda>n. (n, the (map_of ?K n))) (sort (dict_keys changed)))) = viewed p changed"
        unfolding scientific_def viewed_def filter_map comp_def map_map fst_conv snd_conv list.map_ident
        by (rule filter_cong, rule refl, simp only: set_sort is_view)+
    qed
    have sci: "(\<exists>nk\<in>set (map (\<lambda>n. (n, the (map_of ?K n))) (map ve_source_node_id edits)). snd nk \<noteq> VIEW) \<longleftrightarrow>
        (\<exists>e\<in>set edits. map_of ?K (ve_source_node_id e) \<noteq> Some VIEW)"
      unfolding set_map bex_simps image_image snd_conv by (rule bex_cong, rule refl) (use src in force)
    show ?thesis
      unfolding plan_edits_def fences_passed_def registry_facts [symmetric] bind_exc_Inr Let_def using k1 k2 f sci
      by (cases "changed_sources edits") (auto simp: bind_exc_Inr)
  qed
  show ?thesis unfolding split by blast
qed

section \<open>The comfort-only plan\<close>

definition comfort_times :: "source_delta list dict \<Rightarrow> int list" where
  "comfort_times changed = sort (remdups (map (\<lambda>c. the (fc_time_index c)) (changes_of (dict_get changed METEOROLOGY_SOURCE_NODE []))))"

text \<open>The batch narrows to the comfort index: only comfort variables change, the policy does not pin the index and it is kept.\<close>

definition narrows :: "edit_planner \<Rightarrow> source_delta list dict \<Rightarrow> string list \<Rightarrow> bool" where
  "narrows p changed keep \<longleftrightarrow> utci_only_batch changed (scientific p changed) \<and> changes_of (dict_get changed METEOROLOGY_SOURCE_NODE []) \<noteq> [] \<and>
     ''utci'' \<in> set keep \<and> (\<forall>full_only\<in>set_option (po_full_only_nodes (ep_policy p)). ''utci'' \<notin> full_only)"

lemma full_window_solid: "0 < rg_rows grid \<Longrightarrow> 0 < rg_cols grid \<Longrightarrow> solid (full_window grid) \<and> inside (full_window grid) (full_window grid)"
  by (simp add: solid_def window_ok_def full_window_def inside_def rw_is_empty_def rw_width_def rw_height_def)

lemma utci_impact_ok:
  assumes "0 < rg_rows (ep_grid p)" "0 < rg_cols (ep_grid p)" "times_ok ts" "ts \<noteq> []"
  shows "impact_ok p (utci_impact p ts)" "check_node_impact (utci_impact p ts) = Inr (utci_impact p ts)"
    "ni_write_windows (utci_impact p ts) = [full_window (ep_grid p)]"
proof -
  let ?s = "\<lparr>ns_spatial_scope = ScopeWindows, ns_windows = [full_window (ep_grid p)]\<rparr>"
  have i: "utci_impact p ts = impact_of ''utci'' ?s (bounds_scope ts)"
    by (simp add: utci_impact_def impact_of_def Let_def split: prod.splits)
  have s: "scope_ok (ep_grid p) ?s" using full_window_solid [OF assms(1,2)] by (simp add: scope_ok_def)
  note t = bounds_scope_ok [OF assms(3,4)]
  show "impact_ok p (utci_impact p ts)" unfolding impact_ok_def i using s t by (auto simp: NODE_EXECUTION_COSTS_def)
  show "check_node_impact (utci_impact p ts) = Inr (utci_impact p ts)" unfolding i by (rule impact_checks [OF s t]) simp
  show "ni_write_windows (utci_impact p ts) = [full_window (ep_grid p)]" unfolding i by simp
qed

lemma comfort_times_ok:
  assumes "utci_only_batch changed sci" "\<forall>d\<in>set (dict_get changed METEOROLOGY_SOURCE_NODE []). times_ok (time_indices (payload_changes (sd_payload d)))"
  shows "times_ok (comfort_times changed)"
proof -
  have "0 \<le> the (fc_time_index c)" if c: "c \<in> set (changes_of (dict_get changed METEOROLOGY_SOURCE_NODE []))" for c
  proof -
    obtain d where d: "d \<in> set (dict_get changed METEOROLOGY_SOURCE_NODE [])" "c \<in> set (payload_changes (sd_payload d))"
      using c by (auto simp: changes_of_def)
    obtain t where t: "fc_time_index c = Some t" using assms(1) c by (auto simp: utci_only_batch_def Let_def)
    have "t \<in> set (time_indices (payload_changes (sd_payload d)))"
      using d(2) t unfolding time_indices_def some_times_def by (auto intro!: bexI [of _ c])
    then show ?thesis using assms(2) d(1) t by (auto simp: times_ok_def)
  qed
  then show ?thesis by (auto simp: times_ok_def comfort_times_def)
qed

lemma comfort_planned:
  assumes p: "0 < rg_rows (ep_grid p)" "0 < rg_cols (ep_grid p)" "0 \<le> sg_scene_revision s" "[] \<notin> set (node_ids (ep_graph p))"
    and nr: "narrows p changed keep" "po_full_only_nodes (ep_policy p) = Some full_only" "times_ok (comfort_times changed)"
  shows "\<exists>pl rs'. met_utci_fast_plan p changed (scientific p changed) keep rq rs s context = Inr (Some pl, rs') \<and>
    ip_changed_sources pl = [METEOROLOGY_SOURCE_NODE] \<and> ip_node_impacts pl = [utci_impact p (comfort_times changed)] \<and>
    set (ip_reusable_nodes pl) = set (node_ids (ep_graph p)) - {METEOROLOGY_SOURCE_NODE, ''utci''} - set NEVER_PLANNED_OUTPUTS \<and>
    transports (ip_transport_window pl) (ip_node_impacts pl) \<and> ip_scene_revision pl = Some (sg_scene_revision s)"
proof -
  let ?i = "utci_impact p (comfort_times changed)"
  have ne: "comfort_times changed \<noteq> []"
    using nr(1) unfolding narrows_def comfort_times_def by (metis length_0_conv length_map length_sort remdups_eq_nil_iff)
  note i = utci_impact_ok [OF p(1,2) nr(3) ne]
  obtain tw where tw: "transport_window [?i] = Inr tw" "transports tw [?i]"
    using transport_total [of "[?i]"] i(3) full_window_solid [OF p(1,2)] by auto
  have area: "0 \<le> area_pixels (ep_grid p)" using p(1,2) by (simp add: area_pixels_def)
  have "\<forall>x\<in>set [?i]. impact_ok p x" using i(1) by simp
  then obtain mem work where est: "estimate p rq context [?i] = Inr (mem, work)" "0 \<le> mem" "0 \<le> work"
    using estimate_total [OF _ area] by blast
  let ?pl = "\<lparr>ip_changed_sources = [METEOROLOGY_SOURCE_NODE], ip_node_impacts = [?i],
      ip_reusable_nodes = without (node_ids (ep_graph p)) (METEOROLOGY_SOURCE_NODE # ''utci'' # NEVER_PLANNED_OUTPUTS),
      ip_fallback_reasons = rs @ [MetAffinity], ip_estimated_memory_bytes = mem,
      ip_estimated_work_units = work, ip_scene_revision = Some (sg_scene_revision s), ip_transport_window = tw\<rparr>"
  have chk: "check_impact_plan ?pl = Inr ?pl"
    using p(3,4) est(2,3) by (auto simp: check_impact_plan_def without_def METEOROLOGY_SOURCE_NODE_def)
  have n: "utci_only_batch changed (scientific p changed)" "''utci'' \<notin> full_only"
    "\<not> (changes_of (dict_get changed METEOROLOGY_SOURCE_NODE []) = [] \<or> ''utci'' \<notin> set keep)" using nr(1,2) by (auto simp: narrows_def)
  have "met_utci_fast_plan p changed (scientific p changed) keep rq rs s context = Inr (Some ?pl, rs @ [MetAffinity])"
    unfolding met_utci_fast_plan_def Let_def comfort_times_def [symmetric] nr(2) option.case
    using n chk by (simp only: i(2) tw(1) est(1) map_sum.simps bind_exc_simps prod.case simp_thms if_False if_True id_apply)
  then show ?thesis using tw(2) by (intro exI [of _ ?pl] exI [of _ "rs @ [MetAffinity]"]) (auto simp: without_def)
qed

lemma no_fast_plan:
  assumes "utci_only_batch changed (scientific p changed) \<longrightarrow> po_full_only_nodes (ep_policy p) \<noteq> None" "\<not> narrows p changed keep"
  shows "\<exists>rs'. met_utci_fast_plan p changed (scientific p changed) keep rq rs s context = Inr (None, rs')"
  using assms by (auto simp: met_utci_fast_plan_def narrows_def Let_def)

section \<open>Plans over the scene graph\<close>

definition sound_inputs :: "edit_planner \<Rightarrow> scene_graph_state \<Rightarrow> validated_edit list \<Rightarrow> bool" where
  "sound_inputs p s edits \<longleftrightarrow> default_edit_graph = Inr (ep_graph p) \<and> 0 < rg_rows (ep_grid p) \<and> 0 < rg_cols (ep_grid p) \<and>
     0 \<le> sg_scene_revision s \<and> (\<forall>e\<in>set edits. sound_edit (ep_graph p) e)"

definition comfort_only :: "edit_planner \<Rightarrow> source_delta list dict \<Rightarrow> string list \<Rightarrow> bool" where
  "comfort_only p changed requested \<longleftrightarrow> utci_only_batch changed (scientific p changed) \<and>
     changes_of (dict_get changed METEOROLOGY_SOURCE_NODE []) \<noteq> [] \<and> wanted (ep_graph p) (set GRAPH_EDGES) requested ''utci'' \<and>
     (\<forall>full_only\<in>set_option (po_full_only_nodes (ep_policy p)). ''utci'' \<notin> full_only)"

definition plannable :: "edit_planner \<Rightarrow> source_delta list dict \<Rightarrow> string list \<Rightarrow> bool" where
  "plannable p changed requested \<longleftrightarrow> (\<forall>n\<in>set requested. requestable p n) \<and>
     (utci_only_batch changed (scientific p changed) \<longrightarrow> po_full_only_nodes (ep_policy p) \<noteq> None)"

text \<open>What a plan of changed sources does: the impacts they deserve, and all else is reusable.\<close>

definition full_plan :: "edit_planner \<Rightarrow> validated_edit list \<Rightarrow> source_delta list dict \<Rightarrow> impact_plan \<Rightarrow> bool" where
  "full_plan p edits changed pl \<longleftrightarrow> ip_changed_sources pl = sort (dict_keys changed) \<and>
     deserved p (set GRAPH_EDGES) changed (scientific p changed) (requested_outputs_of edits) (requested_times_of edits)
       (explicit_times_of changed (scientific p changed) (requested_times_of edits)) (ip_node_impacts pl) \<and>
     set (ip_reusable_nodes pl) = set (node_ids (ep_graph p)) - (set GRAPH_EDGES)\<^sup>* `` set (scientific p changed) - set (viewed p changed)"

definition comfort_plan :: "edit_planner \<Rightarrow> source_delta list dict \<Rightarrow> impact_plan \<Rightarrow> bool" where
  "comfort_plan p changed pl \<longleftrightarrow> ip_changed_sources pl = [METEOROLOGY_SOURCE_NODE] \<and>
     ip_node_impacts pl = [utci_impact p (comfort_times changed)] \<and>
     set (ip_reusable_nodes pl) = set (node_ids (ep_graph p)) - {METEOROLOGY_SOURCE_NODE, ''utci''} - set NEVER_PLANNED_OUTPUTS"

lemma scene_planner: "sound_inputs p s edits \<Longrightarrow> ep_graph p = scene_graph_value"
  unfolding sound_inputs_def using scene_graph_built by (metis Inr_inject)

lemma plannable_needed:
  assumes "plan_stages p edits s context changed (scientific p changed) vw = Inr pl"
  shows "plannable p changed (requested_outputs_of edits)"
proof -
  let ?R = "requested_outputs_of edits"
  obtain keep rs x where st: "filter (\<lambda>n. n \<in> set NEVER_PLANNED_OUTPUTS) ?R = []" "needed_outputs p ?R = Inr keep"
    "met_utci_fast_plan p changed (scientific p changed) keep (requested_times_of edits) rs s context = Inr x"
    using assms unfolding plan_stages_def Let_def bind_exc_Inr by (auto simp: bind_exc_Inr split: if_splits)
  have "filter (\<lambda>n. n \<notin> set (node_ids (ep_graph p)) \<and> n \<notin> set (concat (map am_producible_incremental (all_metadata (ep_registry p))))) ?R = []"
    using st(2) by (auto simp: needed_outputs_def Let_def split: list.splits)
  then have "\<forall>n\<in>set ?R. requestable p n" using st(1) unfolding requestable_def filter_empty_conv by auto
  moreover have "po_full_only_nodes (ep_policy p) \<noteq> None" if "utci_only_batch changed (scientific p changed)"
    using st(3) that unfolding met_utci_fast_plan_def Let_def by (cases "po_full_only_nodes (ep_policy p)") simp_all
  ultimately show ?thesis by (simp add: plannable_def)
qed

lemma narrows_comfort:
  assumes "ep_graph p = scene_graph_value" "\<forall>n\<in>set requested. requestable p n" "needed_outputs p requested = Inr keep"
  shows "narrows p changed keep \<longleftrightarrow> comfort_only p changed requested"
proof -
  have "\<forall>n. n \<in> set keep \<longleftrightarrow> wanted scene_graph_value (set GRAPH_EDGES) requested n"
    using scene_plan.kept_outputs [OF assms(1,2)] assms(3) by auto
  then show ?thesis by (simp add: narrows_def comfort_only_def assms(1))
qed

lemma sources_of_batch:
  assumes "sound_inputs p s edits" "changed_sources edits = Inr changed"
  shows "\<forall>m\<in>set (scientific p changed). map_of (eg_kinds (ep_graph p)) m = Some SOURCE" "distinct (scientific p changed)"
    "set (dict_keys changed) \<subseteq> set (node_ids (ep_graph p))" "set (scientific p changed) \<union> set (viewed p changed) = set (dict_keys changed)"
proof -
  have k: "map_of (eg_kinds (ep_graph p)) n \<in> {Some SOURCE, Some VIEW}" if "n \<in> set (dict_keys changed)" for n
    using changed_nodes [OF assms(2) that] assms(1) unfolding sound_inputs_def sound_edit_def by blast
  show "\<forall>m\<in>set (scientific p changed). map_of (eg_kinds (ep_graph p)) m = Some SOURCE"
    unfolding scientific_def set_filter set_sort using k by blast
  show "distinct (scientific p changed)" using changed_sources_spec(1) [OF assms(2)] by (simp add: scientific_def)
  show "set (dict_keys changed) \<subseteq> set (node_ids (ep_graph p))"
  proof
    fix n assume "n \<in> set (dict_keys changed)"
    then have "map_of (eg_kinds (ep_graph p)) n \<noteq> None" using k [of n] by auto
    then show "n \<in> set (node_ids (ep_graph p))" unfolding node_ids_def map_of_None_keys by (rule notnotD)
  qed
  show "set (scientific p changed) \<union> set (viewed p changed) = set (dict_keys changed)"
    unfolding scientific_def viewed_def set_filter set_sort by blast
qed

lemma fact_known: "check_registry_fact p e = Inr () \<Longrightarrow> \<exists>m. get_metadata (ep_registry p) (ve_adapter_id e) = Inr m"
  by (cases "get_metadata (ep_registry p) (ve_adapter_id e)") (simp_all add: check_registry_fact_def Let_def)

lemma deltas_of_batch:
  assumes "sound_inputs p s edits" "changed_sources edits = Inr changed" "fences_passed p sg edits s context"
  shows "\<forall>n\<in>set ns. (\<forall>d\<in>set (dict_get changed n []). \<exists>m. get_metadata (ep_registry p) (sd_adapter_id d) = Inr m) \<and>
      (\<forall>w\<in>set (concat (map spatial_windows (dict_get changed n []))). window_ok w)"
    "\<forall>d\<in>set (dict_get changed n []). times_ok (time_indices (payload_changes (sd_payload d)))"
    "times_ok (explicit_forcing_times changed ns)"
proof -
  have ok: "\<forall>e\<in>set edits. sound_edit (ep_graph p) e" using assms(1) by (simp add: sound_inputs_def)
  note d = changed_delta [OF assms(2) _ ok]
  have known: "\<exists>m. get_metadata (ep_registry p) (ve_adapter_id e) = Inr m" if "e \<in> set edits" for e
    using assms(3) that fact_known unfolding fences_passed_def by blast
  show "\<forall>n\<in>set ns. (\<forall>d\<in>set (dict_get changed n []). \<exists>m. get_metadata (ep_registry p) (sd_adapter_id d) = Inr m) \<and>
      (\<forall>w\<in>set (concat (map spatial_windows (dict_get changed n []))). window_ok w)"
  proof (intro ballI conjI)
    fix n x assume x: "x \<in> set (dict_get changed n [])"
    obtain e where "e \<in> set edits" "sd_adapter_id x = ve_adapter_id e" using d(1) [OF x] by blast
    then show "\<exists>m. get_metadata (ep_registry p) (sd_adapter_id x) = Inr m" using known by auto
  next
    fix n w assume "w \<in> set (concat (map spatial_windows (dict_get changed n [])))"
    then obtain x where "x \<in> set (dict_get changed n [])" "w \<in> set (spatial_windows x)" by auto
    then show "window_ok w" using d(2) by blast
  qed
  show t: "\<forall>d\<in>set (dict_get changed n []). times_ok (time_indices (payload_changes (sd_payload d)))" for n
    using d(3) by (simp add: times_ok_def)
  show "times_ok (explicit_forcing_times changed ns)"
    unfolding times_ok_def
  proof
    fix t assume "t \<in> set (explicit_forcing_times changed ns)"
    then obtain n d where "d \<in> set (dict_get changed n [])" "t \<in> set (time_indices (payload_changes (sd_payload d)))"
      by (auto simp: explicit_forcing_times_def split: if_splits)
    then show "0 \<le> t" using \<open>\<And>n. \<forall>d\<in>set (dict_get changed n []). times_ok (time_indices (payload_changes (sd_payload d)))\<close>
      unfolding times_ok_def by blast
  qed
qed

lemma stages_planned:
  assumes i: "sound_inputs p s edits" and c: "changed_sources edits = Inr changed" and f: "fences_passed p sg edits s context"
    and ok: "plannable p changed (requested_outputs_of edits)"
  shows "\<exists>pl. plan_stages p edits s context changed (scientific p changed) (viewed p changed) = Inr pl \<and>
    (if comfort_only p changed (requested_outputs_of edits) then comfort_plan p changed pl else full_plan p edits changed pl) \<and>
    transports (ip_transport_window pl) (ip_node_impacts pl) \<and> ip_scene_revision pl = Some (sg_scene_revision s)"
proof -
  note g = scene_planner [OF i]
  have grid: "0 < rg_rows (ep_grid p)" "0 < rg_cols (ep_grid p)" "0 \<le> sg_scene_revision s" and e: "\<forall>e\<in>set edits. sound_edit (ep_graph p) e"
    using i by (auto simp: sound_inputs_def)
  have req: "\<forall>n\<in>set (requested_outputs_of edits). requestable p n" using ok by (simp add: plannable_def)
  note src = sources_of_batch [OF i c, unfolded g]
  note d = deltas_of_batch [OF i c f]
  show ?thesis
  proof (cases "comfort_only p changed (requested_outputs_of edits)")
    case False
    have "\<exists>rs'. met_utci_fast_plan p changed (scientific p changed) keep (requested_times_of edits) rs s context = Inr (None, rs')"
      if "needed_outputs p (requested_outputs_of edits) = Inr keep" for keep rs
      by (rule no_fast_plan) (use ok False narrows_comfort [OF g req that] in \<open>auto simp: plannable_def\<close>)
    then have fast: "\<forall>keep rs. needed_outputs p (requested_outputs_of edits) = Inr keep \<longrightarrow>
      (\<exists>rs'. met_utci_fast_plan p changed (scientific p changed) keep (requested_times_of edits) rs s context = Inr (None, rs'))" by blast
    show ?thesis
      using scene_plan.planned_stages [OF g grid src(1,2) fast d(1) req edit_times [OF e] d(3) src(3), of "viewed p changed"] False
      unfolding full_plan_def g by auto
  next
    case True
    let ?rq = "requested_times_of edits" and ?sci = "scientific p changed"
    have ex: "times_ok (explicit_times_of changed ?sci ?rq)" using edit_times [OF e] d(3) by (auto simp: explicit_times_of_def times_ok_def)
    obtain r0 rs0 dirty fd keep where st: "fold_exc (resolve_source p changed) ([], []) ?sci = Inr (r0, rs0)"
      "downstream scene_graph_value ?sci = Inr dirty" "downstream scene_graph_value (filter (\<lambda>n. n \<in> FORCING_SOURCE_NODES) ?sci) = Inr fd"
      "needed_outputs p (requested_outputs_of edits) = Inr keep"
      using scene_plan.stages_walked [OF g grid(1,2) src(1,2) d(1) req edit_times [OF e] ex] by (elim exE conjE)
    have nr: "narrows p changed keep" using True narrows_comfort [OF g req st(4)] by simp
    obtain full_only where po: "po_full_only_nodes (ep_policy p) = Some full_only"
      using ok True by (auto simp: plannable_def comfort_only_def)
    have named: "[] \<notin> set (node_ids (ep_graph p))"
      unfolding g using scene_plan.graph_ok(1) scene_plan.ids by (auto simp: nodes_ok_def node_ids_def)
    have "times_ok (comfort_times changed)"
      by (rule comfort_times_ok [of _ ?sci, OF _ d(2)]) (use True in \<open>simp add: comfort_only_def\<close>)
    note fast = comfort_planned [OF grid named nr po this, of ?rq _ "context"]
    have refused: "filter (\<lambda>n. n \<in> set NEVER_PLANNED_OUTPUTS) (requested_outputs_of edits) = []"
      using req by (auto simp: filter_empty_conv requestable_def)
    define rs where "rs = rs0 @ (if requested_outputs_of edits = []
      then map NeverPlanned (sort (filter (\<lambda>n. n \<in> set (node_ids scene_graph_value)) NEVER_PLANNED_OUTPUTS)) else [])"
    obtain pl rs' where pl: "met_utci_fast_plan p changed ?sci keep ?rq rs s context = Inr (Some pl, rs')"
      "comfort_plan p changed pl \<and> transports (ip_transport_window pl) (ip_node_impacts pl) \<and> ip_scene_revision pl = Some (sg_scene_revision s)"
      using fast [of rs] unfolding comfort_plan_def by blast
    have "plan_stages p edits s context changed ?sci (viewed p changed) = Inr pl"
      unfolding plan_stages_def g st Let_def map_sum.simps bind_exc_simps prod.case refused rs_def [symmetric] by (simp add: pl(1))
    then show ?thesis using pl(2) True by simp
  qed
qed

lemma no_stages:
  assumes i: "sound_inputs p s edits" and c: "changed_sources edits = Inr changed" and none: "scientific p changed = []"
  shows "\<exists>pl. no_stage_plan p changed h s = Inr pl \<and> full_plan p edits changed pl \<and>
    transports (ip_transport_window pl) (ip_node_impacts pl) \<and> ip_scene_revision pl = Some (sg_scene_revision s)"
proof -
  note g = scene_planner [OF i]
  let ?pl = "\<lparr>ip_changed_sources = sort (dict_keys changed), ip_node_impacts = [],
        ip_reusable_nodes = without (node_ids (ep_graph p)) (dict_keys changed),
        ip_fallback_reasons = (if h then [CoalescedToNoop] else []), ip_estimated_memory_bytes = 0,
        ip_estimated_work_units = 0, ip_scene_revision = Some (sg_scene_revision s), ip_transport_window = None\<rparr>"
  have named: "[] \<notin> set (node_ids (ep_graph p))"
    unfolding g using scene_plan.graph_ok(1) scene_plan.ids by (auto simp: nodes_ok_def node_ids_def)
  have keys: "set (dict_keys changed) \<subseteq> set (node_ids (ep_graph p))" by (rule sources_of_batch(3) [OF i c])
  have v: "set (viewed p changed) = set (dict_keys changed)" using sources_of_batch(4) [OF i c] none by simp
  have rev: "0 \<le> sg_scene_revision s" using i unfolding sound_inputs_def by blast
  have nk: "[] \<notin> set (dict_keys changed)" using keys named by blast
  have "check_impact_plan ?pl = Inr ?pl" using named nk rev by (simp add: check_impact_plan_def without_def del: set_map)
  then have pl: "no_stage_plan p changed h s = Inr ?pl" unfolding no_stage_plan_def by simp
  have "full_plan p edits changed ?pl"
    unfolding full_plan_def deserved_def none v by (auto simp: without_def simp del: set_map)
  moreover have "transports None []" by (simp add: transports_def)
  ultimately show ?thesis using pl by (intro exI [of _ ?pl]) simp
qed

lemma batch_planned:
  assumes i: "sound_inputs p s edits" and f: "fences_passed p sg edits s context" and c: "changed_sources edits = Inr changed"
    and ok: "scientific p changed \<noteq> [] \<longrightarrow> plannable p changed (requested_outputs_of edits)"
  shows "\<exists>pl. plan_edits p sg edits s context = Inr pl \<and>
    (if comfort_only p changed (requested_outputs_of edits) then comfort_plan p changed pl else full_plan p edits changed pl) \<and>
    transports (ip_transport_window pl) (ip_node_impacts pl) \<and> ip_scene_revision pl = Some (sg_scene_revision s)"
proof -
  have e: "\<forall>e\<in>set edits. sound_edit (ep_graph p) e" using i unfolding sound_inputs_def by blast
  show ?thesis
  proof (cases "scientific p changed = []")
    case True
    then have "\<not> comfort_only p changed (requested_outputs_of edits)" by (simp add: comfort_only_def utci_only_batch_def Let_def)
    then show ?thesis using plan_past_fences [OF e] no_stages [OF i c True] True f c by simp
  next
    case False
    then show ?thesis using plan_past_fences [OF e] stages_planned [OF i c f] ok f c by simp
  qed
qed

lemma batch_accepted:
  assumes i: "sound_inputs p s edits" and "plan_edits p sg edits s context = Inr pl"
  shows "fences_passed p sg edits s context \<and> (\<exists>changed. changed_sources edits = Inr changed \<and>
    (scientific p changed \<noteq> [] \<longrightarrow> plannable p changed (requested_outputs_of edits)))"
proof -
  have e: "\<forall>e\<in>set edits. sound_edit (ep_graph p) e" using i unfolding sound_inputs_def by blast
  have "\<exists>pl'. plan_edits p sg edits s context = Inr pl' \<and> pl' = pl" using assms(2) by simp
  then show ?thesis unfolding plan_past_fences [OF e] using plannable_needed by (auto split: if_splits)
qed

section \<open>Fences\<close>

lemma fact_unfenced:
  assumes "registry_ok (ep_registry p)" "check_registry_fact p e = Inr ()"
  shows "\<exists>m. get_metadata (ep_registry p) (ve_adapter_id e) = Inr m \<and> ec_operation (ve_command e) \<in> set (am_operations m) \<and>
    ve_source_node_id e \<in> set (am_source_nodes m) \<and> graph_contains (ep_graph p) (ve_source_node_id e) \<and>
    (\<forall>f\<in>set_option (map_of SOURCE_DELTA_FAMILY (ve_source_node_id e)). family_of (sd_payload (ve_delta e)) = f) \<and>
    unfenced m (sd_payload (ve_delta e))"
proof -
  obtain m where m: "get_metadata (ep_registry p) (ve_adapter_id e) = Inr m" using fact_known [OF assms(2)] ..
  have op: "validate_operation (ep_registry p) (ve_adapter_id e) (ec_operation (ve_command e)) = Inr ()"
    and d: "validate_delta (ep_registry p) (ve_adapter_id e) (ve_delta e) = Inr ()"
    and rest: "ve_source_node_id e \<in> set (am_source_nodes m) \<and> graph_contains (ep_graph p) (ve_source_node_id e) \<and>
      (\<forall>f\<in>set_option (map_of SOURCE_DELTA_FAMILY (ve_source_node_id e)). family_of (sd_payload (ve_delta e)) = f)"
    using assms(2) m unfolding check_registry_fact_def Let_def bind_exc_Inr map_sum_Inr_iff
    by (simp_all split: if_splits)
  have "ec_operation (ve_command e) \<in> set (am_operations m)"
    using op m by (auto simp: validate_operation_def allows_operation_def split: if_splits)
  then show ?thesis using m rest accepted_unfenced [OF assms(1) m d] by blast
qed

lemma wind_fence:
  assumes "check_wind_fence p edits = Inr ()" "\<not> ep_allow_wind_extension p" "e \<in> set edits"
    and "get_metadata (ep_registry p) (ve_adapter_id e) = Inr m"
  shows "ve_source_node_id e \<noteq> WIND_SOURCE_NODE \<and> am_status m \<noteq> ScientificExtension"
proof -
  obtain us where t: "traverse (check_wind_fact p) edits = Inr us" using assms(1,2) by (auto simp: check_wind_fence_def map_sum_Inr_iff)
  obtain u where "check_wind_fact p e = Inr u" using traverse_all [OF t assms(3)] by auto
  then show ?thesis using assms(4) by (auto simp: check_wind_fact_def split: if_splits)
qed

lemma one_scenario:
  assumes "length (remdups xs) = 1" "x \<in> set xs" "y \<in> set xs"
  shows "x = y"
proof -
  obtain z where "remdups xs = [z]" using assms(1) by (auto simp: length_Suc_conv)
  then have "set xs = {z}" using set_remdups [of xs] by simp
  then show ?thesis using assms(2,3) by simp
qed

lemma batch_fenced:
  assumes "check_batch_invariants sg edits s = Inr ()" "e \<in> set edits"
  shows "sg \<and> ec_base_scene_revision (ve_command e) = sg_scene_revision s \<and>
    ec_scenario_id (ve_command e) = ec_scenario_id (ve_command (hd edits))"
proof -
  have b: "length (remdups (map (\<lambda>e. ec_scenario_id (ve_command e)) edits)) = 1" "sg"
    "filter (\<lambda>e. ec_base_scene_revision (ve_command e) \<noteq> sg_scene_revision s) edits = []"
    using assms(1) by (auto simp: check_batch_invariants_def Let_def split: if_splits list.splits)
  have "hd edits \<in> set edits" using assms(2) by (cases edits) auto
  then show ?thesis using b(2,3) assms(2) by (auto simp: filter_empty_conv intro!: one_scenario [OF b(1)])
qed

lemma times_fenced:
  assumes "check_context p edits s (Some c) = Inr ()" "cx_available_times c \<noteq> []"
  shows "set (requested_times_of edits) \<subseteq> set (cx_available_times c)"
  using assms by (auto simp: check_context_def fence_requested_times_def map_sum_Inr_iff filter_empty_conv split: if_splits list.splits)

lemma plan_passed:
  assumes "plan_edits p sg edits s context = Inr pl"
  shows "fences_passed p sg edits s context"
proof -
  have ne: "edits \<noteq> []" using assms by (auto simp: plan_edits_def)
  obtain us where "check_batch_invariants sg edits s = Inr ()" "check_context p edits s context = Inr ()"
    "traverse (check_registry_fact p) edits = Inr us" "check_wind_fence p edits = Inr ()"
    using assms unfolding plan_edits_def if_not_P [OF ne] bind_exc_Inr by (elim exE conjE) (rule, simp_all)
  then show ?thesis using ne registry_facts [of p edits] by (simp add: fences_passed_def)
qed

section \<open>A paint stroke\<close>

definition demo_registry :: adapter_registry where
  "demo_registry = projr (builtin_registry [] [] scene_graph_value)"

lemma demo_registry_built:
  "registration\<^sup>*\<^sup>* (new_registry scene_graph_value) demo_registry"
  "ar_metadata demo_registry = map (\<lambda>m. (am_id m, m)) (BUILTIN_ADAPTER_METADATA [] [])"
proof -
  obtain g r where r: "default_edit_graph = Inr g" "builtin_registry [] [] g = Inr r" "registration\<^sup>*\<^sup>* (new_registry g) r"
    "ar_metadata r = map (\<lambda>m. (am_id m, m)) (BUILTIN_ADAPTER_METADATA [] [])" by (rule scene_registry)
  have g: "g = scene_graph_value" using r(1) scene_graph_built by (metis Inr_inject)
  have d: "demo_registry = r" using r(2) unfolding demo_registry_def g by simp
  show "registration\<^sup>*\<^sup>* (new_registry scene_graph_value) demo_registry" using r(3) unfolding d g .
  show "ar_metadata demo_registry = map (\<lambda>m. (am_id m, m)) (BUILTIN_ADAPTER_METADATA [] [])" unfolding d by (rule r(4))
qed

definition demo_planner :: edit_planner where
  "demo_planner = \<lparr>ep_grid = \<lparr>rg_rows = 4, rg_cols = 4, rg_pixel_size_m = 1, rg_origin_x_m = 0, rg_origin_y_m = 0\<rparr>,
     ep_graph = scene_graph_value, ep_registry = demo_registry,
     ep_policy = \<lparr>po_allows_local = conservative_allows (1 / 2) {}, po_full_only_nodes = Some {}\<rparr>,
     ep_allow_wind_extension = False, ep_default_temporal_steps = 1\<rparr>"

definition demo_scene :: "int \<Rightarrow> scene_graph_state" where
  "demo_scene revision = \<lparr>sg_graph = scene_graph_value, sg_scene_revision = revision, sg_node_versions = []\<rparr>"

definition demo_paint_edit :: validated_edit where
  "demo_paint_edit = \<lparr>ve_command = \<lparr>ec_edit_id = ''e1'', ec_scenario_id = ''s1'', ec_base_scene_revision = 3, ec_adapter_id = ''landcover_surface'',
       ec_operation = ''paint'', ec_old_state = None, ec_new_state = None, ec_requested_outputs = [''tmrt''], ec_requested_times = Some [2]\<rparr>,
     ve_adapter_id = ''landcover_surface'', ve_schema_version = 1, ve_source_node_id = ''landcover'', ve_delta = demo_stroke\<rparr>"

lemma demo_metadata: "get_metadata demo_registry ''landcover_surface'' = Inr (BUILTIN_ADAPTER_METADATA [] [] ! 3)"
  unfolding get_metadata_def demo_registry_built(2) demo_entry by simp

lemma demo_kinds: "map_of (eg_kinds scene_graph_value) ''landcover'' = Some SOURCE" "map_of (eg_kinds scene_graph_value) ''tmrt'' \<noteq> None"
  unfolding scene_kinds [OF scene_graph_built] by (simp_all add: GRAPH_NODES_def)

lemma demo_sound_edit: "sound_edit scene_graph_value demo_paint_edit"
proof -
  have "check_edit_command (ve_command demo_paint_edit) = Inr (ve_command demo_paint_edit)"
    by (simp add: demo_paint_edit_def check_edit_command_def require_non_empty_def freeze_mapping_def)
  moreover have "check_validated_edit demo_paint_edit = Inr demo_paint_edit"
    by (simp add: demo_paint_edit_def demo_stroke_def check_validated_edit_def require_non_empty_def)
  moreover have "\<forall>w\<in>set (spatial_windows (ve_delta demo_paint_edit)). window_ok w"
    by (simp add: demo_paint_edit_def demo_stroke_def spatial_windows_def window_ok_def)
  moreover have "map_of (eg_kinds scene_graph_value) (ve_source_node_id demo_paint_edit) = Some SOURCE"
    using demo_kinds(1) by (simp add: demo_paint_edit_def)
  ultimately show ?thesis unfolding sound_edit_def by blast
qed

lemma demo_inputs: "0 \<le> k \<Longrightarrow> sound_inputs demo_planner (demo_scene k) [demo_paint_edit]"
  unfolding sound_inputs_def using scene_graph_built demo_sound_edit by (simp add: demo_planner_def demo_scene_def)

lemma demo_fact: "check_registry_fact demo_planner demo_paint_edit = Inr ()"
proof -
  have op: "validate_operation demo_registry ''landcover_surface'' ''paint'' = Inr ()"
    by (simp add: validate_operation_def demo_metadata allows_operation_def BUILTIN_ADAPTER_METADATA_def)
  have "check_painted (BUILTIN_ADAPTER_METADATA [] [] ! 3) \<lparr>pp_window = w, pp_before_classes = b, pp_after_classes = [5, -1]\<rparr> = Inr ()" for w b
    by (simp add: check_painted_def LANDCOVER_FENCED_CLASSES_def BUILTIN_ADAPTER_METADATA_def)
  then have v: "validate_delta demo_registry ''landcover_surface'' demo_stroke = Inr ()"
    unfolding validate_delta_def demo_metadata by (simp add: demo_stroke_def)
  have "''landcover'' \<in> set (am_source_nodes (BUILTIN_ADAPTER_METADATA [] [] ! 3))" by (simp add: BUILTIN_ADAPTER_METADATA_def)
  moreover have "graph_contains scene_graph_value ''landcover''"
    using demo_kinds(1) unfolding graph_contains_def by (auto simp: node_ids_def dest: map_of_Some_keys)
  moreover have "\<forall>f\<in>set_option (map_of SOURCE_DELTA_FAMILY ''landcover''). family_of (sd_payload demo_stroke) = f"
    by (simp add: SOURCE_DELTA_FAMILY_def demo_stroke_def)
  ultimately show ?thesis
    by (simp add: check_registry_fact_def demo_planner_def demo_paint_edit_def demo_metadata op v)
qed

lemma demo_fences: "fences_passed demo_planner True [demo_paint_edit] (demo_scene 3) None"
proof -
  have "check_wind_fence demo_planner [demo_paint_edit] = Inr ()"
    by (simp add: check_wind_fence_def check_wind_fact_def demo_planner_def demo_paint_edit_def demo_metadata WIND_SOURCE_NODE_def)
      (simp add: BUILTIN_ADAPTER_METADATA_def)
  moreover have "check_batch_invariants True [demo_paint_edit] (demo_scene 3) = Inr ()"
    by (simp add: check_batch_invariants_def demo_paint_edit_def demo_scene_def Let_def)
  ultimately show ?thesis using demo_fact by (simp add: fences_passed_def check_context_def)
qed

lemma demo_changed: "changed_sources [demo_paint_edit] = Inr [(''landcover'', [demo_stroke])]"
  by (simp add: changed_sources_def group_deltas_def demo_paint_edit_def dict_append_def dict_get_def sorted_items_def coalesce_group_def
      coalesce_source_deltas_def coalesce_payloads_def demo_stroke_def is_noop_def)

lemma demo_plannable: "plannable demo_planner changed (requested_outputs_of [demo_paint_edit])"
proof -
  have "requestable demo_planner ''tmrt''"
    using demo_kinds(2) unfolding requestable_def
    by (auto simp: demo_planner_def NEVER_PLANNED_OUTPUTS_def node_ids_def dest: map_of_Some_keys)
  then show ?thesis by (simp add: plannable_def requested_outputs_of_def demo_paint_edit_def) (simp add: demo_planner_def)
qed

lemma demo_planned: "\<exists>pl. plan_edits demo_planner True [demo_paint_edit] (demo_scene 3) None = Inr pl"
  using batch_planned [OF demo_inputs demo_fences demo_changed] demo_plannable by auto

text \<open>A change of a whole series beside a change of one step: the union of the changed steps leaves the series
  out, so the comfort index is planned for that step alone.\<close>

lemma whole_series_narrowed:
  "temporal_scope_of ''utci'' True [] (explicit_times_of [(''meteorology'', [\<lparr>sd_source_node_id = ''meteorology'', sd_adapter_id = ''meteorological_forcing'',
     sd_payload = ForcingChanges [\<lparr>fc_variable = ''RH'', fc_time_index = Some 3, fc_before_value = JInt 5, fc_after_value = JInt 6\<rparr>,
       \<lparr>fc_variable = ''Tair'', fc_time_index = None, fc_before_value = JInt 5, fc_after_value = JInt 7\<rparr>]\<rparr>])] [''meteorology''] []) =
   (TimeOne, Some 3, None)"
  by (simp add: temporal_scope_of_def explicit_times_of_def explicit_forcing_times_def FORCING_SOURCE_NODES_def dict_get_def time_indices_def
      some_times_def STATEFUL_NODES_def TIME_VARYING_NODES_def bounds_scope_def)

section \<open>Properties\<close>





text \<open>An accepted plan passed every fence. Its edits are of one scenario and of the current revision, each by
  a registered adapter that offers the operation and owns the source node, which is in the graph and of the delta's
  family; the delta carries no fenced content; unless extensions are allowed no edit touches wind or uses an extension;
  and every requested time is one the site has.\<close>

lemma accepted_plan_fenced:
  assumes "registration\<^sup>*\<^sup>* (new_registry g) (ep_registry p)" "plan_edits p same_graph edits s context = Inr pl"
  shows "edits \<noteq> [] \<and> same_graph \<and> (\<forall>e\<in>set edits. ec_base_scene_revision (ve_command e) = sg_scene_revision s \<and>
      ec_scenario_id (ve_command e) = ec_scenario_id (ve_command (hd edits)) \<and>
      (\<exists>m. get_metadata (ep_registry p) (ve_adapter_id e) = Inr m \<and> ec_operation (ve_command e) \<in> set (am_operations m) \<and>
        ve_source_node_id e \<in> set (am_source_nodes m) \<and> graph_contains (ep_graph p) (ve_source_node_id e) \<and>
        (\<forall>f\<in>set_option (map_of SOURCE_DELTA_FAMILY (ve_source_node_id e)). family_of (sd_payload (ve_delta e)) = f) \<and>
        unfenced m (sd_payload (ve_delta e)) \<and>
        (\<not> ep_allow_wind_extension p \<longrightarrow> ve_source_node_id e \<noteq> WIND_SOURCE_NODE \<and> am_status m \<noteq> ScientificExtension))) \<and>
    (\<forall>c\<in>set_option context. cx_available_times c \<noteq> [] \<longrightarrow> set (requested_times_of edits) \<subseteq> set (cx_available_times c))"
proof -
  have f: "edits \<noteq> []" "check_batch_invariants same_graph edits s = Inr ()" "check_context p edits s context = Inr ()"
    "\<forall>e\<in>set edits. check_registry_fact p e = Inr ()" "check_wind_fence p edits = Inr ()"
    using plan_passed [OF assms(2)] by (auto simp: fences_passed_def)
  have ok: "registry_ok (ep_registry p)" using registrations [OF assms(1) new_registry_ok] by blast
  have "ec_base_scene_revision (ve_command e) = sg_scene_revision s \<and>
      ec_scenario_id (ve_command e) = ec_scenario_id (ve_command (hd edits)) \<and>
      (\<exists>m. get_metadata (ep_registry p) (ve_adapter_id e) = Inr m \<and> ec_operation (ve_command e) \<in> set (am_operations m) \<and>
        ve_source_node_id e \<in> set (am_source_nodes m) \<and> graph_contains (ep_graph p) (ve_source_node_id e) \<and>
        (\<forall>f\<in>set_option (map_of SOURCE_DELTA_FAMILY (ve_source_node_id e)). family_of (sd_payload (ve_delta e)) = f) \<and>
        unfenced m (sd_payload (ve_delta e)) \<and>
        (\<not> ep_allow_wind_extension p \<longrightarrow> ve_source_node_id e \<noteq> WIND_SOURCE_NODE \<and> am_status m \<noteq> ScientificExtension))"
    if e: "e \<in> set edits" for e
    using fact_unfenced [OF ok f(4) [rule_format, OF e]] batch_fenced [OF f(2) e] wind_fence [OF f(5) _ e] by blast
  moreover have "same_graph" using batch_fenced [OF f(2)] f(1) by (metis hd_in_set)
  moreover have "\<forall>c\<in>set_option context. cx_available_times c \<noteq> [] \<longrightarrow> set (requested_times_of edits) \<subseteq> set (cx_available_times c)"
    using f(3) times_fenced by (cases "context") auto
  ultimately show ?thesis using f(1) by blast
qed

lemma accepted_plan_fenced_witness:
  "\<exists>pl m. plan_edits demo_planner True [demo_paint_edit] (demo_scene 3) None = Inr pl \<and>
     get_metadata demo_registry ''landcover_surface'' = Inr m \<and> unfenced m (sd_payload demo_stroke)"
proof -
  obtain pl where pl: "plan_edits demo_planner True [demo_paint_edit] (demo_scene 3) None = Inr pl" using demo_planned ..
  have "registration\<^sup>*\<^sup>* (new_registry scene_graph_value) (ep_registry demo_planner)" using demo_registry_built(1) by (simp add: demo_planner_def)
  from accepted_plan_fenced [OF this pl] show ?thesis using pl by (auto simp: demo_planner_def demo_paint_edit_def)
qed

end
