(* ===== verification/State_Composition.thy ===== *)
theory State_Composition
  imports Patch_Codec
begin

text \<open>
  Composition of the full-site state a job publishes from, \<open>server/jobs.py\<close>: the LRU cache of composed
  states (\<open>_StateCompositionCache\<close>), the scatter of one decoded payload into the state
  (\<open>_apply_result_into_state\<close>) and the composition itself (\<open>_compose_current_state\<close>).

  A float32 array of a site is a \<open>field\<close>: its shape and its items by time step, row and column. What the
  code calls of NumPy on decoded payloads is the record \<open>array_lib\<close>: the codec's calls and the item of an
  array as a float32. NumPy's basic slices, advanced indices (the last of several equal indices wins)
  and broadcasting of an assignment are written out. The bytes of a payload file are the characters of
  the row's \<open>rs_payload\<close>.
\<close>

section \<open>Arrays\<close>

record 'v field =
  fd_steps :: int
  fd_rows :: int
  fd_cols :: int
  fd_item :: "int \<Rightarrow> int \<Rightarrow> int \<Rightarrow> 'v"

record ('a, 'v) array_lib =
  al_codec :: "'a codec_lib"
  al_item :: "'a \<Rightarrow> int \<Rightarrow> int \<Rightarrow> int \<Rightarrow> 'v"
  al_zero :: 'v

type_synonym grid_info = "int \<times> int \<times> int"

definition np_zeros :: "'v \<Rightarrow> grid_info \<Rightarrow> 'v field" where
  "np_zeros z g = (case g of (steps, rows, cols) \<Rightarrow>
     \<lparr>fd_steps = steps, fd_rows = rows, fd_cols = cols, fd_item = \<lambda>_ _ _. z\<rparr>)"

definition field_nbytes :: "'v field \<Rightarrow> int" where
  "field_nbytes a = fd_steps a * fd_rows a * fd_cols a * ITEMSIZE"

text \<open>The offset and the length of the slice \<open>a:b\<close> of an axis.\<close>

definition axis_slice :: "int \<Rightarrow> int \<Rightarrow> int \<Rightarrow> int \<times> int" where
  "axis_slice len a b =
     (let i = slice_index len a; j = slice_index len b in (int i, int (j - i)))"

definition crop :: "raster_window \<Rightarrow> 'v field \<Rightarrow> 'v field" where
  "crop w a =
     (let (r0, h) = axis_slice (fd_rows a) (rw_row_start w) (rw_row_stop w);
          (c0, k) = axis_slice (fd_cols a) (rw_col_start w) (rw_col_stop w)
      in \<lparr>fd_steps = fd_steps a, fd_rows = h, fd_cols = k, fd_item = \<lambda>t r c. fd_item a t (r0 + r) (c0 + c)\<rparr>)"

text \<open>\<open>{name: f(name) for name in names}\<close>.\<close>

definition dict_for :: "string list \<Rightarrow> (string \<Rightarrow> 'b) \<Rightarrow> 'b dict" where
  "dict_for names f = fold (\<lambda>n d. AList.update n (f n) d) names []"

section \<open>The cache\<close>

type_synonym cache_key = "string \<times> int \<times> string list"
type_synonym checksum_chain = "json option list"

record 'v state_cache =
  ca_entries :: "(cache_key \<times> checksum_chain \<times> 'v field dict) list"
  ca_total_bytes :: int
  ca_max_total_bytes :: int

definition new_cache :: "int \<Rightarrow> 'v state_cache" where
  "new_cache limit = \<lparr>ca_entries = [], ca_total_bytes = 0, ca_max_total_bytes = limit\<rparr>"

definition nbytes :: "'v field dict \<Rightarrow> int" where
  "nbytes arrays = sum_list (map (field_nbytes \<circ> snd) arrays)"

definition cache_get ::
  "string \<Rightarrow> int \<Rightarrow> string list \<Rightarrow> checksum_chain \<Rightarrow> 'v state_cache \<Rightarrow> 'v state_cache \<times> 'v field dict option" where
  "cache_get sid version variables ch cache =
     (let key = (sid, version, variables) in
      case map_of (ca_entries cache) key of
        None \<Rightarrow> (cache, None)
      | Some (cached, arrays) \<Rightarrow>
          if cached \<noteq> ch then (cache, None)
          else (cache\<lparr>ca_entries := AList.delete key (ca_entries cache) @ [(key, cached, arrays)]\<rparr>, Some arrays))"

text \<open>\<open>while total > max and entries: popitem(last=False)\<close>.\<close>

fun evict ::
  "int \<Rightarrow> int \<Rightarrow> (cache_key \<times> checksum_chain \<times> 'v field dict) list \<Rightarrow> int \<times> (cache_key \<times> checksum_chain \<times> 'v field dict) list" where
  "evict limit used [] = (used, [])"
| "evict limit used ((k, ch, arrays) # es) =
     (if limit < used then evict limit (used - nbytes arrays) es else (used, (k, ch, arrays) # es))"

text \<open>The one caller passes an array for every variable.\<close>

definition cache_put ::
  "string \<Rightarrow> int \<Rightarrow> string list \<Rightarrow> checksum_chain \<Rightarrow> 'v field dict \<Rightarrow> 'v state_cache \<Rightarrow> 'v state_cache" where
  "cache_put sid version variables ch arrays cache =
     (let key = (sid, version, variables);
          payload = dict_for variables (\<lambda>n. the (map_of arrays n));
          bytes = nbytes payload
      in if ca_max_total_bytes cache < bytes then cache
         else let total1 = (case map_of (ca_entries cache) key of
                     Some (_, old) \<Rightarrow> ca_total_bytes cache - nbytes old | None \<Rightarrow> ca_total_bytes cache);
                  entries1 = AList.delete key (ca_entries cache) @ [(key, ch, payload)];
                  (total2, entries2) = evict (ca_max_total_bytes cache) (total1 + bytes) entries1
              in cache\<lparr>ca_entries := entries2, ca_total_bytes := total2\<rparr>)"

section \<open>Scattering one payload\<close>

datatype compose_error =
    Store_Refused store_error
  | Coverage_Refused coverage_error
  | Codec_Refused codec_error
  | Partial_Time_Scatter string int int
  | Scatter_Raised py_error
  | Assertion_Failed

definition window_entry :: "json \<Rightarrow> string \<Rightarrow> py_error + int" where
  "window_entry w k = bind_exc (subscript w k) py_int"

definition window_bounds :: "json dict \<Rightarrow> py_error + int \<times> int \<times> int \<times> int" where
  "window_bounds manifest =
     bind_exc (subscript (JObj manifest) ''window'') (\<lambda>w.
     bind_exc (window_entry w ''row_start'') (\<lambda>r0. bind_exc (window_entry w ''row_stop'') (\<lambda>r1.
     bind_exc (window_entry w ''col_start'') (\<lambda>c0. bind_exc (window_entry w ''col_stop'') (\<lambda>c1.
       Inr (r0, r1, c0, c1))))))"

text \<open>An index of an axis: negative ones count from the end.\<close>

definition axis_index :: "int \<Rightarrow> int \<Rightarrow> int" where
  "axis_index len i = (if i < 0 then i + len else i)"

definition broadcasts :: "int \<Rightarrow> int \<Rightarrow> bool" where
  "broadcasts d n \<longleftrightarrow> d = n \<or> d = 1"

text \<open>\<open>target[:, r0:r1, c0:c1][times] = patch\<close> for as many times as the patch has planes.\<close>

definition plane_for :: "int \<Rightarrow> int list \<Rightarrow> int \<Rightarrow> nat option" where
  "plane_for steps ts t = find (\<lambda>k. axis_index steps (ts ! k) = t) (rev [0..<length ts])"

definition scatter ::
  "('a, 'v) array_lib \<Rightarrow> int \<times> int \<times> int \<times> int \<Rightarrow> int list \<Rightarrow> 'a \<Rightarrow> 'v field \<Rightarrow> py_error + 'v field" where
  "scatter lib bounds ts patch target =
     (case bounds of (r0, r1, c0, c1) \<Rightarrow>
      let (top, h) = axis_slice (fd_rows target) r0 r1;
          (left, k) = axis_slice (fd_cols target) c0 c1;
          ph = np_shape (al_codec lib) patch ! 1;
          pw = np_shape (al_codec lib) patch ! 2
      in if \<not> (broadcasts ph h \<and> broadcasts pw k) then Inl (ValueError ''shape mismatch'')
         else if \<exists>i\<in>set ts. \<not> (- fd_steps target \<le> i \<and> i < fd_steps target) then Inl (IndexError ''out of bounds'')
         else Inr (target\<lparr>fd_item := \<lambda>t r c.
                (case plane_for (fd_steps target) ts t of
                   Some p \<Rightarrow>
                     if top \<le> r \<and> r < top + h \<and> left \<le> c \<and> c < left + k
                     then al_item lib patch (int p) (if ph = 1 then 0 else r - top) (if pw = 1 then 0 else c - left)
                     else fd_item target t r c
                 | None \<Rightarrow> fd_item target t r c)\<rparr>))"

text \<open>One variable of the loop. The dense time axis, once taken, stays for the variables after it.\<close>

definition apply_variable ::
  "('a, 'v) array_lib \<Rightarrow> int \<times> int \<times> int \<times> int \<Rightarrow> 'a dict \<Rightarrow> int list \<times> 'v field dict \<Rightarrow> string
   \<Rightarrow> compose_error + int list \<times> 'v field dict" where
  "apply_variable lib bounds patches s name =
     (case s of (ts, state) \<Rightarrow>
      case map_of patches name of
        None \<Rightarrow> Inr (ts, state)
      | Some patch \<Rightarrow>
          (case map_of state name of
             None \<Rightarrow> Inl (Scatter_Raised (KeyError name))
           | Some target \<Rightarrow>
               let planes = np_shape (al_codec lib) patch ! 0 in
               if (ts = [] \<or> int (length ts) \<noteq> planes) \<and> planes \<noteq> fd_steps target
               then Inl (Partial_Time_Scatter name planes (fd_steps target))
               else
                 let ts' = (if ts = [] \<or> int (length ts) \<noteq> planes then [0..planes - 1] else ts)
                 in map_sum Scatter_Raised (\<lambda>a. (ts', AList.update name a state))
                      (scatter lib bounds ts' patch target)))"

definition apply_result_into_state ::
  "('a, 'v) array_lib \<Rightarrow> 'v field dict \<Rightarrow> json dict \<Rightarrow> 'a dict \<Rightarrow> string list \<Rightarrow> compose_error + 'v field dict" where
  "apply_result_into_state lib state manifest patches variables =
     bind_exc (map_sum Scatter_Raised id (window_bounds manifest)) (\<lambda>bounds.
     bind_exc (map_sum Scatter_Raised id (int_entries (map_of manifest ''time_indices''))) (\<lambda>ts.
       map_sum id snd (fold_exc (apply_variable lib bounds patches) (ts, state) variables)))"

section \<open>Composition\<close>

definition payload_bytes :: "result_record \<Rightarrow> bytes" where
  "payload_bytes r = map of_char (rs_payload r)"

definition note_values :: "'a dict \<Rightarrow> string list \<Rightarrow> bool dict \<Rightarrow> bool dict" where
  "note_values patches variables seen =
     fold (\<lambda>n d. if map_of patches n \<noteq> None then AList.update n True d else d) variables seen"

text \<open>One published record replayed onto the state.\<close>

definition replay_record ::
  "(json \<Rightarrow> string) \<Rightarrow> ('a, 'v) array_lib \<Rightarrow> string list \<Rightarrow> 'v field dict \<times> bool dict \<Rightarrow> result_record
   \<Rightarrow> compose_error + 'v field dict \<times> bool dict" where
  "replay_record show lib variables s r =
     (case s of (state, seen) \<Rightarrow>
      bind_exc (map_sum Codec_Refused id
          (decode_payload show (al_codec lib) (rs_manifest r) (payload_bytes r) True None)) (\<lambda>patches.
      bind_exc (apply_result_into_state lib state (rs_manifest r) patches variables) (\<lambda>state'.
        Inr (state', note_values patches variables seen))))"

record 'a worker_patch =
  wp_write_window :: raster_window
  wp_time_indices :: "int list option"
  wp_n_time_steps :: int
  wp_arrays :: "'a dict"

definition window_dict :: "raster_window \<Rightarrow> json" where
  "window_dict w =
     JObj [(''row_start'', JInt (rw_row_start w)), (''row_stop'', JInt (rw_row_stop w)),
           (''col_start'', JInt (rw_col_start w)), (''col_stop'', JInt (rw_col_stop w))]"

definition patch_manifest :: "'a worker_patch \<Rightarrow> json dict" where
  "patch_manifest p =
     [(''window'', window_dict (wp_write_window p)),
      (''time_indices'', JArr (map JInt
         (case wp_time_indices p of Some ts \<Rightarrow> ts | None \<Rightarrow> [0..wp_n_time_steps p - 1])))]"

definition apply_extra ::
  "('a, 'v) array_lib \<Rightarrow> string list \<Rightarrow> 'v field dict \<times> bool dict \<Rightarrow> 'a worker_patch
   \<Rightarrow> compose_error + 'v field dict \<times> bool dict" where
  "apply_extra lib variables s p =
     (case s of (state, seen) \<Rightarrow>
      bind_exc (apply_result_into_state lib state (patch_manifest p) (wp_arrays p) variables) (\<lambda>state'.
        Inr (state', note_values (wp_arrays p) variables seen)))"

text \<open>The probe for the newest cached prefix, from the longest down to the shortest.\<close>

fun probe ::
  "string \<Rightarrow> string list \<Rightarrow> int list \<Rightarrow> checksum_chain \<Rightarrow> nat \<Rightarrow> 'v state_cache
   \<Rightarrow> 'v state_cache \<times> (nat \<times> 'v field dict) option" where
  "probe sid variables versions ch 0 cache = (cache, None)"
| "probe sid variables versions ch (Suc start) cache =
     (case cache_get sid (versions ! start) variables (take (Suc start) ch) cache of
        (cache', Some arrays) \<Rightarrow> (cache', Some (Suc start, arrays))
      | (cache', None) \<Rightarrow> probe sid variables versions ch start cache')"

definition published_records ::
  "store \<Rightarrow> string \<Rightarrow> int \<Rightarrow> compose_error + result_record list" where
  "published_records st sid target =
     (let versions = filter (\<lambda>v. v \<le> target) (result_versions st sid)
      in if versions = [] then Inl (Store_Refused (StoreError ''no published result to compose against''))
         else traverse (\<lambda>v. case get_result st sid v of None \<Rightarrow> Inl Assertion_Failed | Some r \<Rightarrow> Inr r) versions)"

definition coverage_guard ::
  "(json \<Rightarrow> string) \<Rightarrow> string dict \<Rightarrow> result_record list \<Rightarrow> string list \<Rightarrow> grid_info \<Rightarrow> compose_error + unit" where
  "coverage_guard show environ records variables g =
     (case g of (steps, rows, cols) \<Rightarrow>
      if enabled environ
      then map_sum Coverage_Refused id (guard_composition show (map rs_manifest records) variables steps rows cols)
      else Inr ())"

text \<open>The replay after the cached prefix, and what the caller gets of the composed state.\<close>

definition replay_from ::
  "(json \<Rightarrow> string) \<Rightarrow> ('a, 'v) array_lib \<Rightarrow> string list \<Rightarrow> grid_info \<Rightarrow> (nat \<times> 'v field dict) option
   \<Rightarrow> result_record list \<Rightarrow> compose_error + 'v field dict \<times> bool dict" where
  "replay_from show lib variables g hit records =
     (case hit of
        None \<Rightarrow> fold_exc (replay_record show lib variables)
                  (dict_for variables (\<lambda>_. np_zeros (al_zero lib) g), dict_for variables (\<lambda>_. False)) records
      | Some (n, state) \<Rightarrow> fold_exc (replay_record show lib variables)
                  (state, dict_for variables (\<lambda>_. True)) (drop n records))"

definition finish_composition ::
  "('a, 'v) array_lib \<Rightarrow> string list \<Rightarrow> raster_window \<Rightarrow> 'a worker_patch list \<Rightarrow> 'v field dict \<times> bool dict
   \<Rightarrow> compose_error + 'v field dict" where
  "finish_composition lib variables w extras s =
     bind_exc (fold_exc (apply_extra lib variables) s extras) (\<lambda>(state, seen).
       if \<exists>p\<in>set seen. \<not> snd p then Inl (Store_Refused (StoreError ''variables missing from the baseline result''))
       else Inr (dict_for variables (\<lambda>n. crop w (the (map_of state n)))))"

definition compose_current_state ::
  "(json \<Rightarrow> string) \<Rightarrow> ('a, 'v) array_lib \<Rightarrow> string dict \<Rightarrow> store \<Rightarrow> string \<Rightarrow> grid_info \<Rightarrow> string list
   \<Rightarrow> raster_window \<Rightarrow> int \<Rightarrow> 'a worker_patch list \<Rightarrow> 'v state_cache
   \<Rightarrow> 'v state_cache \<times> (compose_error + 'v field dict)" where
  "compose_current_state show lib environ st sid g variables w target extras cache =
     (case published_records st sid target of
        Inl e \<Rightarrow> (cache, Inl e)
      | Inr records \<Rightarrow>
          let ch = map rs_checksum records; versions = map rs_scene_version records in
          case coverage_guard show environ records variables g of
            Inl e \<Rightarrow> (cache, Inl e)
          | Inr _ \<Rightarrow>
              let (cache1, hit) = probe sid variables versions ch (length versions) cache in
              case replay_from show lib variables g hit records of
                Inl e \<Rightarrow> (cache1, Inl e)
              | Inr (state, seen) \<Rightarrow>
                  let cache2 = (if \<forall>p\<in>set seen. snd p
                        then cache_put sid (last versions) variables ch
                               (dict_for variables (\<lambda>n. the (map_of state n))) cache1
                        else cache1)
                  in (cache2, finish_composition lib variables w extras (state, seen)))"

end
