(* ===== verification/Result_Patches.thy ===== *)
theory Result_Patches
  imports State_Composition
begin

text \<open>
  The patches the exact worker publishes, \<open>incremental/result.py\<close>: the checks of the constructor, the write
  of a patch into site arrays, the metadata document, the two-phase publication over a staging and a
  results directory, and the checked load.

  A directory is a dictionary from the names of its patch directories to their content: the value the
  metadata document holds, absent when the file is, and the bytes of the variable files. Array files and
  digests are calls of NumPy and \<open>hashlib\<close>: the record \<open>npy_lib\<close>. Entries of the document that the code
  stores without converting them stay JSON values. An array that is copied to be contiguous is the same
  array. \<open>apply_into\<close> writes in place: on an error its result still holds what was written before.
\<close>

record ('a, 'v) npy_lib =
  nl_arrays :: "('a, 'v) array_lib"
  np_is_float32 :: "'a \<Rightarrow> bool"
  np_save :: "'a \<Rightarrow> bytes"
  np_load :: "bytes \<Rightarrow> py_error + 'a"
  sha256_file :: "bytes \<Rightarrow> string"

definition RESULT_PATCH_SCHEMA_VERSION :: int where "RESULT_PATCH_SCHEMA_VERSION = 1"
definition PUBLISHED_VARIABLES :: "string list" where "PUBLISHED_VARIABLES = [''utci'', ''tmrt'', ''shadow'']"

datatype patch_error = Patch_Error | Patch_Checksum_Error | Patch_Raised py_error

definition patch_raising :: "py_error + 'b \<Rightarrow> patch_error + 'b" where
  "patch_raising x = map_sum Patch_Raised id x"

section \<open>Patches\<close>

record 'a result_patch =
  rp_job_id :: json
  rp_scene_revision :: int
  rp_mode :: json
  rp_write_window :: raster_window
  rp_read_window :: raster_window
  rp_site_id :: json
  rp_tile_key :: json
  rp_cache_manifest_sha256 :: json
  rp_model_version :: json
  rp_variables :: "string list"
  rp_arrays :: "'a dict"
  rp_time_start :: int
  rp_time_stop :: "int option"
  rp_time_indices :: "int list option"
  rp_schema_version :: int
  rp_created_utc :: json
  rp_checksums :: "json dict"

text \<open>\<open>n_time_steps\<close>: with neither indices nor a stop it is read off the first variable's array.\<close>

definition shape_of_array :: "('a, 'v) npy_lib \<Rightarrow> 'a \<Rightarrow> int list" where
  "shape_of_array lib a = np_shape (al_codec (nl_arrays lib)) a"

definition leading_axis :: "('a, 'v) npy_lib \<Rightarrow> 'a result_patch \<Rightarrow> py_error + int" where
  "leading_axis lib p =
     (case rp_variables p of
        [] \<Rightarrow> Inl (IndexError ''tuple index out of range'')
      | n # _ \<Rightarrow> (case map_of (rp_arrays p) n of
           None \<Rightarrow> Inl (KeyError n)
         | Some a \<Rightarrow> (case shape_of_array lib a of [] \<Rightarrow> Inl (IndexError ''tuple index out of range'') | d # _ \<Rightarrow> Inr d)))"

definition patch_time_steps :: "('a, 'v) npy_lib \<Rightarrow> 'a result_patch \<Rightarrow> py_error + int" where
  "patch_time_steps lib p =
     (case rp_time_indices p of
        Some ts \<Rightarrow> Inr (int (length ts))
      | None \<Rightarrow> map_sum id (\<lambda>stop. stop - rp_time_start p)
                  (case rp_time_stop p of Some s \<Rightarrow> Inr s | None \<Rightarrow> leading_axis lib p))"

text \<open>The checks of \<open>time_indices\<close>, in their order; the entries are integers by their type.\<close>

fun increasing :: "int list \<Rightarrow> bool" where
  "increasing (a # b # rest) = (a < b \<and> increasing (b # rest))"
| "increasing _ = True"

definition check_indices :: "int \<Rightarrow> int option \<Rightarrow> int list \<Rightarrow> patch_error + unit" where
  "check_indices start stop ts =
     (if ts = [] then Inl Patch_Error
      else if \<exists>t\<in>set ts. t < 0 then Inl Patch_Error
      else if \<not> increasing ts then Inl Patch_Error
      else if hd ts \<noteq> start then Inl Patch_Error
      else if (case stop of Some s \<Rightarrow> List.last ts \<noteq> s - 1 | None \<Rightarrow> False) then Inl Patch_Error
      else Inr ())"

definition check_array ::
  "('a, 'v) npy_lib \<Rightarrow> 'a result_patch \<Rightarrow> string \<times> 'a \<Rightarrow> patch_error + unit" where
  "check_array lib p entry =
     (if \<not> np_is_float32 lib (snd entry) then Inl Patch_Error
      else bind_exc (patch_raising (patch_time_steps lib p)) (\<lambda>n.
        if shape_of_array lib (snd entry) \<noteq> [n, rw_height (rp_write_window p), rw_width (rp_write_window p)]
        then Inl Patch_Error else Inr ()))"

definition check_patch :: "('a, 'v) npy_lib \<Rightarrow> 'a result_patch \<Rightarrow> patch_error + unit" where
  "check_patch lib p =
     (if \<not> (rp_mode p = JStr ''local'' \<or> rp_mode p = JStr ''full'') then Inl Patch_Error
      else if \<exists>n\<in>set (rp_variables p). n \<notin> set PUBLISHED_VARIABLES then Inl Patch_Error
      else if \<exists>n\<in>set (rp_variables p). map_of (rp_arrays p) n = None then Inl Patch_Error
      else bind_exc (case rp_time_indices p of None \<Rightarrow> Inr ()
                     | Some ts \<Rightarrow> check_indices (rp_time_start p) (rp_time_stop p) ts) (\<lambda>_.
        map_sum id (\<lambda>_. ()) (traverse (check_array lib p) (rp_arrays p))))"

definition patch_variable :: "'a result_patch \<Rightarrow> string \<Rightarrow> patch_error + 'a" where
  "patch_variable p n = (case map_of (rp_arrays p) n of None \<Rightarrow> Inl Patch_Error | Some a \<Rightarrow> Inr a)"

section \<open>Writing into site arrays\<close>

text \<open>One plane: \<open>dst[t, r0:r1, c0:c1][...] = array[k]\<close> after the comparison of shapes.\<close>

definition write_plane ::
  "('a, 'v) npy_lib \<Rightarrow> raster_window \<Rightarrow> 'a \<Rightarrow> int \<Rightarrow> int \<Rightarrow> 'v field \<Rightarrow> patch_error + 'v field" where
  "write_plane lib w a k t dst =
     (let (top, h) = axis_slice (fd_rows dst) (rw_row_start w) (rw_row_stop w);
          (left, b) = axis_slice (fd_cols dst) (rw_col_start w) (rw_col_stop w)
      in if \<not> (- fd_steps dst \<le> t \<and> t < fd_steps dst) then Inl (Patch_Raised (IndexError ''out of bounds''))
         else if [h, b] \<noteq> tl (shape_of_array lib a) then Inl Patch_Error
         else Inr (dst\<lparr>fd_item := \<lambda>s r c.
                if s = axis_index (fd_steps dst) t \<and> top \<le> r \<and> r < top + h \<and> left \<le> c \<and> c < left + b
                then al_item (nl_arrays lib) a k (r - top) (c - left) else fd_item dst s r c\<rparr>))"

fun write_planes ::
  "('a, 'v) npy_lib \<Rightarrow> raster_window \<Rightarrow> (int \<Rightarrow> int) \<Rightarrow> 'a \<Rightarrow> int list \<Rightarrow> 'v field \<Rightarrow> 'v field \<times> patch_error option" where
  "write_planes lib w tm a [] dst = (dst, None)"
| "write_planes lib w tm a (k # ks) dst =
     (case write_plane lib w a k (tm k) dst of
        Inl e \<Rightarrow> (dst, Some e)
      | Inr dst' \<Rightarrow> write_planes lib w tm a ks dst')"

definition plane_time :: "'a result_patch \<Rightarrow> int \<Rightarrow> int" where
  "plane_time p k = (case rp_time_indices p of Some ts \<Rightarrow> ts ! nat k | None \<Rightarrow> rp_time_start p + k)"

definition array_planes :: "('a, 'v) npy_lib \<Rightarrow> 'a \<Rightarrow> int list" where
  "array_planes lib a = [0..hd (shape_of_array lib a) - 1]"

fun apply_arrays ::
  "('a, 'v) npy_lib \<Rightarrow> 'a result_patch \<Rightarrow> 'a dict \<Rightarrow> 'v field dict \<Rightarrow> 'v field dict \<times> patch_error option" where
  "apply_arrays lib p [] target = (target, None)"
| "apply_arrays lib p ((n, a) # rest) target =
     (case map_of target n of
        None \<Rightarrow> (target, Some (Patch_Raised (KeyError n)))
      | Some dst \<Rightarrow>
          if (case rp_time_indices p of Some ts \<Rightarrow> fd_steps dst \<le> Max (set ts) | None \<Rightarrow> False)
          then (target, Some Patch_Error)
          else (case write_planes lib (rp_write_window p) (plane_time p) a (array_planes lib a) dst of
                  (dst', Some e) \<Rightarrow> (AList.update n dst' target, Some e)
                | (dst', None) \<Rightarrow> apply_arrays lib p rest (AList.update n dst' target)))"

definition apply_into ::
  "('a, 'v) npy_lib \<Rightarrow> 'a result_patch \<Rightarrow> 'v field dict \<Rightarrow> 'v field dict \<times> patch_error option" where
  "apply_into lib p target = apply_arrays lib p (rp_arrays p) target"

text \<open>What a composition reads of a patch.\<close>

definition as_worker_patch :: "('a, 'v) npy_lib \<Rightarrow> 'a result_patch \<Rightarrow> py_error + 'a worker_patch" where
  "as_worker_patch lib p =
     map_sum id (\<lambda>n. \<lparr>wp_write_window = rp_write_window p, wp_time_indices = rp_time_indices p,
                       wp_n_time_steps = n, wp_arrays = rp_arrays p\<rparr>) (patch_time_steps lib p)"

section \<open>The metadata document\<close>

definition opt_json :: "('b \<Rightarrow> json) \<Rightarrow> 'b option \<Rightarrow> json" where
  "opt_json f v = (case v of None \<Rightarrow> JNull | Some x \<Rightarrow> f x)"

definition metadata :: "'a result_patch \<Rightarrow> json dict" where
  "metadata p =
     [(''schema_version'', JInt (rp_schema_version p)), (''job_id'', rp_job_id p),
      (''scene_revision'', JInt (rp_scene_revision p)), (''mode'', rp_mode p),
      (''write_window'', window_dict (rp_write_window p)), (''read_window'', window_dict (rp_read_window p)),
      (''site_id'', rp_site_id p), (''tile_key'', rp_tile_key p),
      (''cache_manifest_sha256'', rp_cache_manifest_sha256 p), (''model_version'', rp_model_version p),
      (''variables'', JArr (map JStr (rp_variables p))), (''time_start'', JInt (rp_time_start p)),
      (''time_stop'', opt_json JInt (rp_time_stop p)),
      (''time_indices'', opt_json (\<lambda>ts. JArr (map JInt ts)) (rp_time_indices p)),
      (''created_utc'', rp_created_utc p), (''checksums'', JObj (rp_checksums p))]"

record patch_directory =
  pd_document :: "json option"
  pd_files :: "bytes dict"

type_synonym patch_root = "patch_directory dict"

definition compute_checksums :: "('a, 'v) npy_lib \<Rightarrow> patch_directory \<Rightarrow> string list \<Rightarrow> py_error + json dict" where
  "compute_checksums lib d variables =
     fold_exc (\<lambda>acc n. case map_of (pd_files d) n of
        None \<Rightarrow> Inl (KeyError n) | Some b \<Rightarrow> Inr (AList.update n (JStr (sha256_file lib b)) acc)) [] variables"

section \<open>Publication\<close>

definition staging_name :: "(json \<Rightarrow> string) \<Rightarrow> json \<Rightarrow> string" where
  "staging_name show job = str_of show job @ ''.tmp''"

text \<open>Phase one: an earlier staging directory of the job is removed, the files and then the document are
  written, and the patch keeps its checksums.\<close>

definition stage_patch ::
  "(json \<Rightarrow> string) \<Rightarrow> ('a, 'v) npy_lib \<Rightarrow> 'a result_patch \<Rightarrow> patch_root
   \<Rightarrow> py_error + patch_root \<times> string \<times> 'a result_patch" where
  "stage_patch show lib p staging =
     (let name = staging_name show (rp_job_id p) in
      bind_exc (fold_exc (\<lambda>fs n. case map_of (rp_arrays p) n of
           None \<Rightarrow> Inl (KeyError n) | Some a \<Rightarrow> Inr (AList.update n (np_save lib a) fs)) [] (rp_variables p)) (\<lambda>files.
      bind_exc (compute_checksums lib \<lparr>pd_document = None, pd_files = files\<rparr> (rp_variables p)) (\<lambda>digests.
        let p' = p\<lparr>rp_checksums := digests\<rparr>;
            document = json_canon (JObj (AList.update ''checksums'' (JObj digests) (metadata p')))
        in Inr (AList.update name \<lparr>pd_document = Some document, pd_files = files\<rparr> staging, name, p'))))"

definition remove_suffix :: "string \<Rightarrow> string \<Rightarrow> string" where
  "remove_suffix suffix s =
     (if suffix \<noteq> [] \<and> length suffix \<le> length s \<and> drop (length s - length suffix) s = suffix
      then take (length s - length suffix) s else s)"

text \<open>\<open>f"{n:06d}"\<close>.\<close>

definition padded6 :: "int \<Rightarrow> string" where
  "padded6 i =
     (if i < 0 then CHR ''-'' # (let s = show_nat (nat (- i)) in replicate (5 - length s) (CHR ''0'') @ s)
      else (let s = show_nat (nat i) in replicate (6 - length s) (CHR ''0'') @ s))"

definition final_name :: "int \<Rightarrow> string \<Rightarrow> string" where
  "final_name revision name = ''rev-'' @ padded6 revision @ ''-'' @ remove_suffix ''.tmp'' name"

text \<open>Phase two, over the staging and the results directory.\<close>

definition publish_staged_patch ::
  "string \<Rightarrow> int \<Rightarrow> patch_root \<times> patch_root \<Rightarrow> patch_error + (patch_root \<times> patch_root) \<times> string" where
  "publish_staged_patch name revision roots =
     (case roots of (staging, results) \<Rightarrow>
        if map_of results (final_name revision name) \<noteq> None then Inl Patch_Error
        else case map_of staging name of
               None \<Rightarrow> Inl (Patch_Raised (KeyError name))
             | Some d \<Rightarrow> Inr ((AList.delete name staging, AList.update (final_name revision name) d results),
                              final_name revision name))"

definition discard_staging :: "patch_root \<Rightarrow> patch_root" where
  "discard_staging staging = filter (\<lambda>e. remove_suffix ''.tmp'' (fst e) = fst e) staging"

section \<open>Loading\<close>

definition read_patch_metadata :: "patch_directory \<Rightarrow> patch_error + json" where
  "read_patch_metadata d =
     (case pd_document d of
        None \<Rightarrow> Inl Patch_Error
      | Some doc \<Rightarrow>
          bind_exc (patch_raising (get_of doc ''schema_version'')) (\<lambda>v.
          bind_exc (patch_raising (py_int (case v of None \<Rightarrow> JInt (-1) | Some x \<Rightarrow> x))) (\<lambda>n.
            if n \<noteq> RESULT_PATCH_SCHEMA_VERSION then Inl Patch_Error else Inr doc)))"

text \<open>\<open>name in checksums\<close> and \<open>checksums[name]\<close> for the values a document can hold.\<close>

fun holds_entry :: "json \<Rightarrow> string \<Rightarrow> py_error + bool" where
  "holds_entry (JObj d) n = Inr (map_of d n \<noteq> None)"
| "holds_entry (JArr xs) n = Inr (JStr n \<in> set xs)"
| "holds_entry (JStr s) n = Inr (\<exists>i\<le>length s. take (length n) (drop i s) = n)"
| "holds_entry v n = Inl (TypeError ''not iterable'')"

text \<open>The comparison of a digest with a recorded one; the message of the error slices the recorded value.\<close>

definition check_digest :: "string \<Rightarrow> json \<Rightarrow> patch_error + unit" where
  "check_digest actual recorded =
     (if recorded = JStr actual then Inr ()
      else case recorded of
             JStr _ \<Rightarrow> Inl Patch_Checksum_Error
           | JArr _ \<Rightarrow> Inl Patch_Checksum_Error
           | JObj _ \<Rightarrow> Inl (Patch_Raised (KeyError ''slice''))
           | _ \<Rightarrow> Inl (Patch_Raised (TypeError ''not subscriptable'')))"

definition load_array ::
  "(json \<Rightarrow> string) \<Rightarrow> ('a, 'v) npy_lib \<Rightarrow> patch_directory \<Rightarrow> json \<Rightarrow> 'a dict \<Rightarrow> json \<Rightarrow> patch_error + 'a dict" where
  "load_array show lib d checksums acc name =
     (let n = str_of show name in
      case map_of (pd_files d) n of
        None \<Rightarrow> Inl Patch_Error
      | Some b \<Rightarrow>
          (case name of
             JStr _ \<Rightarrow>
               bind_exc (patch_raising (holds_entry checksums n)) (\<lambda>present.
               if \<not> present then Inl Patch_Error
               else bind_exc (patch_raising (subscript checksums n)) (\<lambda>recorded.
                    bind_exc (check_digest (sha256_file lib b) recorded) (\<lambda>_.
                      map_sum Patch_Raised (\<lambda>a. AList.update n a acc) (np_load lib b))))
           | JArr _ \<Rightarrow> Inl (Patch_Raised (TypeError ''unhashable''))
           | JObj _ \<Rightarrow> Inl (Patch_Raised (TypeError ''unhashable''))
           | _ \<Rightarrow> Inl Patch_Error))"

definition window_from_dict :: "json \<Rightarrow> py_error + raster_window" where
  "window_from_dict w =
     bind_exc (window_entry w ''row_start'') (\<lambda>r0. bind_exc (window_entry w ''row_stop'') (\<lambda>r1.
     bind_exc (window_entry w ''col_start'') (\<lambda>c0. bind_exc (window_entry w ''col_stop'') (\<lambda>c1.
       mk_window r0 r1 c0 c1))))"

definition optional_int :: "json option \<Rightarrow> py_error + int option" where
  "optional_int v = (case v of None \<Rightarrow> Inr None | Some JNull \<Rightarrow> Inr None | Some x \<Rightarrow> map_sum id Some (py_int x))"

definition optional_ints :: "json option \<Rightarrow> py_error + int list option" where
  "optional_ints v =
     (case v of None \<Rightarrow> Inr None | Some JNull \<Rightarrow> Inr None
      | Some x \<Rightarrow> map_sum id Some (bind_exc (json_iter x) (traverse py_int)))"

definition names_of :: "(json \<Rightarrow> string) \<Rightarrow> json list \<Rightarrow> string list" where
  "names_of show names = map (str_of show) names"

text \<open>The fields of the document in the order the code reads them.\<close>

definition patch_from ::
  "(json \<Rightarrow> string) \<Rightarrow> json \<Rightarrow> json list \<Rightarrow> 'a dict \<Rightarrow> json dict \<Rightarrow> py_error + 'a result_patch" where
  "patch_from show doc names arrays checksums =
     bind_exc (subscript doc ''job_id'') (\<lambda>job.
     bind_exc (bind_exc (subscript doc ''scene_revision'') py_int) (\<lambda>revision.
     bind_exc (subscript doc ''mode'') (\<lambda>mode.
     bind_exc (bind_exc (subscript doc ''write_window'') window_from_dict) (\<lambda>write.
     bind_exc (bind_exc (subscript doc ''read_window'') window_from_dict) (\<lambda>read.
     bind_exc (subscript doc ''site_id'') (\<lambda>site.
     bind_exc (subscript doc ''tile_key'') (\<lambda>tile.
     bind_exc (subscript doc ''cache_manifest_sha256'') (\<lambda>sha.
     bind_exc (subscript doc ''model_version'') (\<lambda>model.
     bind_exc (bind_exc (get_of doc ''time_start'') (\<lambda>v. py_int (case v of None \<Rightarrow> JInt 0 | Some x \<Rightarrow> x))) (\<lambda>start.
     bind_exc (bind_exc (get_of doc ''time_stop'') optional_int) (\<lambda>stop.
     bind_exc (bind_exc (get_of doc ''time_indices'') optional_ints) (\<lambda>indices.
     bind_exc (bind_exc (subscript doc ''schema_version'') py_int) (\<lambda>schema.
     bind_exc (get_of doc ''created_utc'') (\<lambda>created.
       Inr \<lparr>rp_job_id = job, rp_scene_revision = revision, rp_mode = mode, rp_write_window = write,
            rp_read_window = read, rp_site_id = site, rp_tile_key = tile, rp_cache_manifest_sha256 = sha,
            rp_model_version = model, rp_variables = names_of show names, rp_arrays = arrays, rp_time_start = start,
            rp_time_stop = stop, rp_time_indices = indices, rp_schema_version = schema,
            rp_created_utc = (case created of None \<Rightarrow> JStr [] | Some c \<Rightarrow> c), rp_checksums = checksums\<rparr>))))))))))))))"

definition entries_of :: "json \<Rightarrow> json dict" where
  "entries_of v = (case v of JObj d \<Rightarrow> d | _ \<Rightarrow> [])"

definition load_patch ::
  "(json \<Rightarrow> string) \<Rightarrow> ('a, 'v) npy_lib \<Rightarrow> patch_directory \<Rightarrow> patch_error + 'a result_patch" where
  "load_patch show lib d =
     bind_exc (read_patch_metadata d) (\<lambda>doc.
     bind_exc (patch_raising (bind_exc (subscript doc ''variables'') json_iter)) (\<lambda>names.
     bind_exc (patch_raising (map_sum id (\<lambda>v. case v of None \<Rightarrow> JObj [] | Some c \<Rightarrow> c) (get_of doc ''checksums''))) (\<lambda>checksums.
     bind_exc (fold_exc (load_array show lib d checksums) [] names) (\<lambda>arrays.
     bind_exc (patch_raising (patch_from show doc names arrays (entries_of checksums))) (\<lambda>p.
     bind_exc (check_patch lib p) (\<lambda>_.
     map_sum id (\<lambda>_. p) (traverse (\<lambda>e. bind_exc (patch_raising (patch_time_steps lib p)) (\<lambda>n.
       if shape_of_array lib (snd e) \<noteq> [n, rw_height (rp_write_window p), rw_width (rp_write_window p)]
       then Inl Patch_Error else Inr ())) arrays)))))))"

text \<open>The metadata-only view: the same fields, no file is opened and no digest compared.\<close>

record patch_metadata =
  pm_job_id :: json
  pm_scene_revision :: int
  pm_mode :: json
  pm_write_window :: raster_window
  pm_read_window :: raster_window
  pm_variables :: "json list"
  pm_time_start :: int
  pm_time_stop :: "int option"
  pm_time_indices :: "int list option"
  pm_checksums :: "json dict"

definition load_patch_metadata :: "patch_directory \<Rightarrow> patch_error + patch_metadata" where
  "load_patch_metadata d =
     bind_exc (read_patch_metadata d) (\<lambda>doc. patch_raising (
     bind_exc (subscript doc ''job_id'') (\<lambda>job.
     bind_exc (bind_exc (subscript doc ''scene_revision'') py_int) (\<lambda>revision.
     bind_exc (subscript doc ''mode'') (\<lambda>mode.
     bind_exc (bind_exc (subscript doc ''write_window'') window_from_dict) (\<lambda>write.
     bind_exc (bind_exc (subscript doc ''read_window'') window_from_dict) (\<lambda>read.
     bind_exc (traverse (subscript doc) [''site_id'', ''tile_key'', ''cache_manifest_sha256'', ''model_version'']) (\<lambda>_.
     bind_exc (bind_exc (subscript doc ''variables'') json_iter) (\<lambda>names.
     bind_exc (bind_exc (get_of doc ''time_start'') (\<lambda>v. py_int (case v of None \<Rightarrow> JInt 0 | Some x \<Rightarrow> x))) (\<lambda>start.
     bind_exc (bind_exc (get_of doc ''time_stop'') optional_int) (\<lambda>stop.
     bind_exc (bind_exc (subscript doc ''schema_version'') py_int) (\<lambda>_.
     bind_exc (bind_exc (get_of doc ''checksums'') (\<lambda>v. case v of
        None \<Rightarrow> Inr [] | Some (JObj c) \<Rightarrow> Inr c | Some (JArr []) \<Rightarrow> Inr [] | Some (JStr []) \<Rightarrow> Inr []
      | Some _ \<Rightarrow> Inl (TypeError ''dict''))) (\<lambda>digests.
     bind_exc (bind_exc (get_of doc ''time_indices'') optional_ints) (\<lambda>indices.
       Inr \<lparr>pm_job_id = job, pm_scene_revision = revision, pm_mode = mode, pm_write_window = write,
            pm_read_window = read, pm_variables = names, pm_time_start = start, pm_time_stop = stop,
            pm_time_indices = indices, pm_checksums = digests\<rparr>))))))))))))))"

definition metadata_time_steps :: "patch_metadata \<Rightarrow> patch_error + int" where
  "metadata_time_steps p =
     (case pm_time_indices p of
        Some ts \<Rightarrow> Inr (int (length ts))
      | None \<Rightarrow> (case pm_time_stop p of None \<Rightarrow> Inl Patch_Error | Some s \<Rightarrow> Inr (s - pm_time_start p)))"

end
