(* ===== verification/Store_Results.thy ===== *)
theory Store_Results
  imports Store_Steps
begin

text \<open>
  The published history along a run of the store: rows of the results table are only appended, each at
  a version above every version its scenario had published, so the history up to a published version
  never changes.
\<close>

definition results_extend :: "store \<Rightarrow> store \<Rightarrow> bool" where
  "results_extend st st' \<longleftrightarrow>
     (\<exists>rows. tb_results st' = tb_results st @ rows \<and>
        (\<forall>r\<in>set rows. \<forall>x\<in>set (tb_results st).
           rs_scenario_id x = rs_scenario_id r \<longrightarrow> rs_scene_version x < rs_scene_version r))"

lemma results_extend_same: "tb_results st' = tb_results st \<Longrightarrow> results_extend st st'"
  by (simp add: results_extend_def)

lemma results_extend_trans: "results_extend a b \<Longrightarrow> results_extend b c \<Longrightarrow> results_extend a c"
  unfolding results_extend_def by fastforce

lemma keeps_planes_extend: "keeps_planes st st' \<Longrightarrow> results_extend st st'"
  by (simp add: keeps_planes_def results_extend_same)

lemma publish_locked_extends:
  assumes ok: "versions_ok st" and p: "publish_result_locked t0 t1 sid v m pl exact jid acked st = Inr st'"
  shows "results_extend st st'"
proof (rule publish_result_lockedE [OF p])
  fix row st1
  assume r: "get_scenario st sid = Some row" "v = sc_scene_version row" "get_result st sid v = None"
    and st1: "st1 = st\<lparr>tb_results := tb_results st @ [new_result t0 sid v m pl exact jid]\<rparr>"
    and st': "st' = (if exact \<and> sc_exact_result_version row \<le> v
      then update_scenario sid (mark_exact t1 v acked) st1 else st1)"
  have "rs_scene_version x < v" if "x \<in> set (tb_results st)" "rs_scenario_id x = sid" for x
  proof -
    have "bounded_by_scene st sid (rs_scene_version x)"
      using ok that by (auto simp: versions_ok_def results_ok_def)
    then have "rs_scene_version x \<le> v" using r(1,2) by (auto simp: bounded_by_scene_def scene_of_def)
    moreover have "rs_scene_version x \<noteq> v" using r(3) that by (auto simp: get_result_None)
    ultimately show ?thesis by simp
  qed
  moreover have "tb_results st' = tb_results st @ [new_result t0 sid v m pl exact jid]"
    by (simp add: st' st1)
  ultimately show ?thesis by (auto simp: results_extend_def)
qed

lemma publish_extends:
  "versions_ok st \<Longrightarrow> publish_result clk sid v m pl exact jid acked st = Inr st' \<Longrightarrow> results_extend st st'"
  by (auto simp: publish_result_def publish_locked_extends split: option.splits if_splits)

lemma create_extends:
  assumes ok: "versions_ok st" and c: "create_scenario clk jid publisher respond req st = Inr (st', record, job)"
  shows "results_extend st st'"
proof (rule create_scenarioE [OF c])
  let ?sid = "cr_scenario_id req"
  let ?r = "new_scenario (clk 0) ?sid (cr_site_id req) (cr_name req) (cr_site_identity req)"
  fix st1 st2
  assume st1: "st1 = st\<lparr>tb_scenarios := tb_scenarios st @ [?r]\<rparr>" and fresh: "get_scenario st ?sid = None"
    and l: "(\<exists>m p. publish_result_locked (clk 1) (clk 2) ?sid 0 m p True None (Some 0) st1 = Inr st2) \<or>
      keeps_planes st1 st2" and s: "keeps_planes st2 st'"
  have "versions_ok st1"
    unfolding st1 using versions_ok_add_scenario [OF ok, of ?r] fresh by (simp add: new_scenario_def row_ok_def)
  then have "results_extend st1 st2" using l publish_locked_extends keeps_planes_extend by blast
  moreover have "results_extend st st1" by (rule results_extend_same) (simp add: st1)
  ultimately show ?thesis using keeps_planes_extend [OF s] results_extend_trans by blast
qed

lemma reset_extends:
  assumes ok: "versions_ok st"
    and c: "reset_scenario clk eid publisher respond sid base key fingerprint st = Inr (st', record)"
  shows "results_extend st st'"
proof (rule reset_scenarioE [OF c])
  fix row v q st1 m p st3
  assume row: "get_scenario st sid = Some row" "v = sc_scene_version row + 1" "keeps_planes st st1"
    and p: "publish_result_locked (clk 1) (clk 2) sid v m p True None (Some q)
       (update_scenario sid (reset_row (clk 0) v q) (clear_scene sid st1)) = Inr st3"
    and k: "keeps_planes st3 st'"
  let ?st2 = "update_scenario sid (reset_row (clk 0) v q) (clear_scene sid st1)"
  have fresh: "rs_scene_version x < v" if "x \<in> set (tb_results st)" "rs_scenario_id x = sid" for x
  proof -
    have "bounded_by_scene st sid (rs_scene_version x)"
      using ok that by (auto simp: versions_ok_def results_ok_def)
    then show ?thesis using row(1,2) by (auto simp: bounded_by_scene_def scene_of_def)
  qed
  have "tb_results ?st2 = tb_results st" using row(3) by (simp add: keeps_planes_def clear_scene_def)
  moreover have "tb_results st' = tb_results st3" using k by (simp add: keeps_planes_def)
  moreover have "tb_results st3 = tb_results ?st2 @ [new_result (clk 1) sid v m p True None]"
    by (rule publish_result_lockedE [OF p]) simp
  ultimately show ?thesis using fresh by (auto simp: results_extend_def)
qed

text \<open>Every step of the store extends the history.\<close>

lemma store_step_extends:
  assumes "store_step st st'" "ledger_ok st" "versions_ok st"
  shows "results_extend st st'"
  using assms
proof cases
  case (step_create clk jid publisher respond req out)
  then show ?thesis using create_extends [OF assms(3), of clk jid publisher respond req st' "fst out" "snd out"] by simp
next
  case (step_edits clk jid eids respond sid ereq edits out)
  then show ?thesis
    using commit_edits_ok [OF assms(3), of clk jid eids respond sid ereq edits st' "fst out" "snd out"]
    by (intro results_extend_same) simp
next
  case (step_universal clk jid eids respond sid ereq fedits out)
  then show ?thesis
    using commit_universal_edits_ok [OF assms(3), of clk jid eids respond sid ereq fedits st' "fst out" "snd out"]
    by (intro results_extend_same) simp
next
  case step_reset
  then show ?thesis using reset_extends [OF assms(3)] by blast
next
  case step_identity
  then have "tb_results st' = tb_results st"
    by (auto simp: verify_site_identity_def Let_def split: sum.splits option.splits if_splits dest!: map_sum_Inr)
  then show ?thesis by (rule results_extend_same)
next
  case step_publish
  then show ?thesis using publish_extends [OF assms(3)] by blast
next
  case (step_republish str clk sid source target ojid override)
  show ?thesis by (rule republish_result_publishes [OF step_republish]) (rule publish_extends [OF assms(3)])
next
  case step_append
  then show ?thesis using append_operations_planes(3) results_extend_same by blast
next
  case step_mark
  then have "tb_results st' = tb_results st"
    by (auto simp: mark_epoch_status_def update_epoch_def split: if_splits)
  then show ?thesis by (rule results_extend_same)
next
  case (step_commit clk ws eid fams baseline res)
  have "tb_results st' = tb_results st"
    by (cases rule: commit_cases [OF assms(3), of ws eid clk fams baseline])
      (use step_commit in \<open>auto simp: committed_store_frame\<close>)
  then show ?thesis by (rule results_extend_same)
next
  case step_pin
  then have "tb_results st' = tb_results st"
    by (auto simp: pin_bootstrap_def insert_canonical_or_ignore_def insert_canonical_def split: option.splits if_splits)
  then show ?thesis by (rule results_extend_same)
next
  case step_fast
  then have "tb_results st' = tb_results st"
    by (auto simp: advance_fast_revision_def update_scenario_def Let_def split: option.splits if_splits)
  then show ?thesis by (rule results_extend_same)
next
  case step_finish
  then show ?thesis using keeps_planes_extend job_steps_keep(5) by blast
next
  case step_export
  then show ?thesis using keeps_planes_extend job_steps_keep(9) by blast
next
  case step_exact_job
  then show ?thesis using keeps_planes_extend exact_job_keeps by blast
qed (use keeps_planes_extend job_steps_keep(1-4,6-8,10) in \<open>simp_all only: simp_thms\<close>)

section \<open>The history up to a published version\<close>

definition history_upto :: "store \<Rightarrow> string \<Rightarrow> int \<Rightarrow> result_record list" where
  "history_upto st sid v =
     order_by rs_scene_version (filter (\<lambda>r. rs_scenario_id r = sid \<and> rs_scene_version r \<le> v) (tb_results st))"

lemma history_upto_extend:
  assumes e: "results_extend st st'" and g: "get_result st sid v \<noteq> None"
  shows "history_upto st' sid v = history_upto st sid v"
proof -
  obtain x where x: "x \<in> set (tb_results st)" "rs_scenario_id x = sid" "rs_scene_version x = v"
    using g find_Some_in by (force simp: get_result_def)
  obtain rows where rows: "tb_results st' = tb_results st @ rows"
    "\<forall>r\<in>set rows. \<forall>x\<in>set (tb_results st).
       rs_scenario_id x = rs_scenario_id r \<longrightarrow> rs_scene_version x < rs_scene_version r"
    using e by (auto simp: results_extend_def)
  have "\<not> (rs_scenario_id r = sid \<and> rs_scene_version r \<le> v)" if "r \<in> set rows" for r
    using rows(2) x that by fastforce
  then have "filter (\<lambda>r. rs_scenario_id r = sid \<and> rs_scene_version r \<le> v) rows = []"
    by (simp add: filter_empty_conv)
  then show ?thesis by (simp add: history_upto_def rows(1))
qed

lemma results_extend_get:
  "results_extend st st' \<Longrightarrow> get_result st sid v = Some r \<Longrightarrow> get_result st' sid v = Some r"
  by (auto simp: results_extend_def get_result_def find_append)

lemma get_result_unique:
  assumes "versions_ok st" "r \<in> set (tb_results st)"
  shows "get_result st (rs_scenario_id r) (rs_scene_version r) = Some r"
proof -
  have d: "distinct (map (\<lambda>r. (rs_scenario_id r, rs_scene_version r)) (tb_results st))"
    using assms(1) by (simp add: versions_ok_def results_ok_def)
  show ?thesis
    using find_by_key [OF d assms(2)] by (simp add: get_result_def)
qed

text \<open>The records the code reads one by one are the history.\<close>

lemma history_records:
  assumes ok: "versions_ok st"
  shows "map rs_scene_version (history_upto st sid v) = filter (\<lambda>x. x \<le> v) (result_versions st sid)"
    and "\<And>r. r \<in> set (history_upto st sid v) \<Longrightarrow> get_result st sid (rs_scene_version r) = Some r"
    and "sorted_wrt (<) (map rs_scene_version (history_upto st sid v))"
proof -
  let ?f = "filter (\<lambda>r. rs_scenario_id r = sid) (tb_results st)"
  have two: "filter (\<lambda>r. rs_scenario_id r = sid \<and> rs_scene_version r \<le> v) (tb_results st) =
      filter (\<lambda>r. rs_scene_version r \<le> v) ?f" by (simp add: conj_commute)
  have h: "sort (map rs_scene_version xs) = map rs_scene_version (order_by rs_scene_version xs)" for xs
    by (rule properties_for_sort) simp_all
  have "map rs_scene_version (history_upto st sid v) = sort (map rs_scene_version (filter (\<lambda>r. rs_scene_version r \<le> v) ?f))"
    by (simp only: history_upto_def two h)
  also have "map rs_scene_version (filter (\<lambda>r. rs_scene_version r \<le> v) ?f) = filter (\<lambda>x. x \<le> v) (map rs_scene_version ?f)"
    by (simp add: filter_map o_def)
  finally show "map rs_scene_version (history_upto st sid v) = filter (\<lambda>x. x \<le> v) (result_versions st sid)"
    by (simp add: result_versions_def filter_sort)
  fix r assume "r \<in> set (history_upto st sid v)"
  then show "get_result st sid (rs_scene_version r) = Some r"
    using get_result_unique [OF ok] by (auto simp: history_upto_def)
next
  have "distinct (map (\<lambda>r. (rs_scenario_id r, rs_scene_version r)) (tb_results st))"
    using ok by (simp add: versions_ok_def results_ok_def)
  then have "distinct (map rs_scene_version (filter (\<lambda>r. rs_scenario_id r = sid \<and> rs_scene_version r \<le> v) (tb_results st)))"
    by (induction "tb_results st") (auto simp: distinct_map inj_on_def)
  then show "sorted_wrt (<) (map rs_scene_version (history_upto st sid v))"
    unfolding sorted_wrt_less_strict history_upto_def
    by (simp add: distinct_map)
qed

end
