(* ===== verification/State_Composition_Contract.thy ===== *)
theory State_Composition_Contract
  imports State_Composition Store_Results Patch_Codec_Contract
begin

text \<open>
  What composition promises. The locale \<open>entry_cache\<close> states what a cache must keep: a hit was stored
  under that key and chain, a lookup changes no entry, a store adds at most its own. The LRU cache is an
  interpretation. Along every interleaving of store mutations and compositions each entry is the
  replay of a published prefix that can no longer change, so a composition gives what it would give
  with no cache at all, and a cell of it carries the newest publication that covers it. The byte
  counter of the cache is the size of its entries and stays within the limit.
\<close>

section \<open>The cache interface\<close>

locale entry_cache =
  fixes entry_of :: "'c \<Rightarrow> 'k \<Rightarrow> ('h \<times> 'a) option"
    and get_entry :: "'k \<Rightarrow> 'h \<Rightarrow> 'c \<Rightarrow> 'c \<times> 'a option"
    and put_entry :: "'k \<Rightarrow> 'h \<Rightarrow> 'a \<Rightarrow> 'c \<Rightarrow> 'c"
    and stored :: "'k \<Rightarrow> 'a \<Rightarrow> 'a"
    and valid :: "'c \<Rightarrow> bool"
  assumes get_hit: "get_entry k ch c = (c', Some a) \<Longrightarrow> entry_of c k = Some (ch, a)"
    and get_keeps: "valid c \<Longrightarrow> get_entry k ch c = (c', res) \<Longrightarrow> valid c' \<and> entry_of c' = entry_of c"
    and put_adds: "valid c \<Longrightarrow> valid (put_entry k ch a c) \<and>
      (entry_of (put_entry k ch a c) x = Some e \<longrightarrow> entry_of c x = Some e \<or> (x = k \<and> e = (ch, stored k a)))"
begin

text \<open>Every entry satisfies what its key and chain stand for.\<close>

definition entries_sound :: "('k \<Rightarrow> 'h \<Rightarrow> 'a \<Rightarrow> bool) \<Rightarrow> 'c \<Rightarrow> bool" where
  "entries_sound P c \<longleftrightarrow> valid c \<and> (\<forall>k ch a. entry_of c k = Some (ch, a) \<longrightarrow> P k ch a)"

lemma sound_hit: "entries_sound P c \<Longrightarrow> get_entry k ch c = (c', Some a) \<Longrightarrow> P k ch a"
  using get_hit by (simp add: entries_sound_def)

lemma sound_get: "entries_sound P c \<Longrightarrow> get_entry k ch c = (c', res) \<Longrightarrow> entries_sound P c'"
  using get_keeps by (fastforce simp: entries_sound_def)

lemma sound_put: "entries_sound P c \<Longrightarrow> P k ch (stored k a) \<Longrightarrow> entries_sound P (put_entry k ch a c)"
  using put_adds unfolding entries_sound_def by (metis Pair_inject)

lemma sound_mono: "entries_sound P c \<Longrightarrow> (\<And>k ch a. P k ch a \<Longrightarrow> Q k ch a) \<Longrightarrow> entries_sound Q c"
  by (simp add: entries_sound_def)

end

section \<open>Dictionaries over the variables\<close>

definition first_keys :: "string list \<Rightarrow> string list" where
  "first_keys names = fold (\<lambda>n ks. if n \<in> set ks then ks else ks @ [n]) names []"

lemma update_keyed:
  "AList.update n (f n) (map (\<lambda>n. (n, f n)) ks) = map (\<lambda>n. (n, f n)) (if n \<in> set ks then ks else ks @ [n])"
  by (induction ks) auto

lemma dict_for_keys: "dict_for names f = map (\<lambda>n. (n, f n)) (first_keys names)"
proof -
  have "fold (\<lambda>n d. AList.update n (f n) d) names (map (\<lambda>n. (n, f n)) ks) =
      map (\<lambda>n. (n, f n)) (fold (\<lambda>n ks. if n \<in> set ks then ks else ks @ [n]) names ks)" for ks
    by (induction names arbitrary: ks) (simp_all add: update_keyed)
  from this [of "[]"] show ?thesis by (simp add: dict_for_def first_keys_def)
qed

lemma first_keys_set: "set (first_keys names) = set names \<and> distinct (first_keys names)"
proof -
  have "set (fold (\<lambda>n ks. if n \<in> set ks then ks else ks @ [n]) names ks) = set names \<union> set ks \<and>
      distinct (fold (\<lambda>n ks. if n \<in> set ks then ks else ks @ [n]) names ks)" if "distinct ks" for ks
    using that
  proof (induction names arbitrary: ks)
    case (Cons n names)
    then have "distinct (if n \<in> set ks then ks else ks @ [n])" by simp
    from Cons.IH [OF this] show ?case by auto
  qed simp
  from this [of "[]"] show ?thesis by (simp add: first_keys_def)
qed

lemma dict_for_lookup: "map_of (dict_for names f) n = (if n \<in> set names then Some (f n) else None)"
proof -
  have "map_of (map (\<lambda>n. (n, f n)) ks) n = (if n \<in> set ks then Some (f n) else None)" for ks
    by (induction ks) auto
  then show ?thesis by (simp add: dict_for_keys first_keys_set)
qed

lemma dict_for_again:
  assumes "dict_keys d = first_keys names"
  shows "dict_for names (\<lambda>n. the (map_of d n)) = d"
proof -
  have "map (\<lambda>n. (n, the (map_of d n))) (dict_keys d) = d" if "distinct (dict_keys d)" for d :: "'b dict"
  proof -
    have "the (map_of d (fst p)) = snd p" if "p \<in> set d" for p
    proof -
      have "map_of d (fst p) = Some (snd p)"
        by (rule map_of_is_SomeI) (use that \<open>distinct (dict_keys d)\<close> in simp_all)
      then show ?thesis by simp
    qed
    then show ?thesis by (simp add: map_idI prod_eq_iff)
  qed
  moreover have "distinct (dict_keys d)" using assms first_keys_set by simp
  ultimately show ?thesis by (simp add: dict_for_keys flip: assms)
qed

lemma dict_keys_dict_for [simp]: "dict_keys (dict_for names f) = first_keys names"
  by (simp add: dict_for_keys o_def)

lemma dict_keys_update_old: "k \<in> set (dict_keys d) \<Longrightarrow> dict_keys (AList.update k v d) = dict_keys d"
  by (simp add: update_keys)

section \<open>The LRU cache is one\<close>

definition cache_valid :: "'v state_cache \<Rightarrow> bool" where
  "cache_valid c \<longleftrightarrow> distinct (dict_keys (ca_entries c)) \<and>
     ca_total_bytes c = sum_list (map (\<lambda>p. nbytes (snd (snd p))) (ca_entries c)) \<and>
     ca_total_bytes c \<le> ca_max_total_bytes c"

lemma fresh_entries: "distinct (dict_keys d) \<Longrightarrow> distinct (dict_keys (AList.delete k d @ [(k, e)]))"
proof -
  assume "distinct (dict_keys d)"
  moreover have "k \<notin> set (dict_keys (AList.delete k d))" unfolding set_dict_keys_delete by simp
  ultimately show ?thesis by simp
qed

lemma delete_last_entry:
  assumes "distinct (dict_keys d)" "map_of d k = Some v"
  shows "map_of (AList.delete k d @ [(k, w)]) = (map_of d)(k := Some w)"
    "distinct (dict_keys (AList.delete k d @ [(k, w)]))"
    "sum_list (map f (AList.delete k d)) = sum_list (map f d) - (f (k, v) :: int)"
proof -
  show "map_of (AList.delete k d @ [(k, w)]) = (map_of d)(k := Some w)"
    by (auto simp: map_add_def fun_eq_iff split: option.splits)
  show "distinct (dict_keys (AList.delete k d @ [(k, w)]))" by (rule fresh_entries [OF assms(1)])
  show "sum_list (map f (AList.delete k d)) = sum_list (map f d) - f (k, v)"
    using assms
  proof (induction d)
    case (Cons p d)
    show ?case
    proof (cases "fst p = k")
      case True
      then have "k \<notin> set (dict_keys d)" "p = (k, v)" using Cons.prems by (auto simp: prod_eq_iff)
      then show ?thesis using True by (simp add: delete_notin_dom)
    next
      case False
      then show ?thesis using Cons by (cases p) simp
    qed
  qed simp
qed

lemma delete_absent: "map_of d k = None \<Longrightarrow> AList.delete k d = d"
  by (simp add: map_of_None_keys delete_notin_dom)

lemma evict_spec:
  assumes "evict limit used es = (used', es')" "used = sum_list (map (\<lambda>p. nbytes (snd (snd p))) es)" "0 \<le> limit"
  shows "used' = sum_list (map (\<lambda>p. nbytes (snd (snd p))) es') \<and> used' \<le> limit \<and> (\<exists>gone. es = gone @ es')"
  using assms
proof (induction limit used es rule: evict.induct)
  case (2 limit used k ch arrays es)
  show ?case
  proof (cases "limit < used")
    case True
    then have "used' = sum_list (map (\<lambda>p. nbytes (snd (snd p))) es') \<and> used' \<le> limit \<and> (\<exists>gone. es = gone @ es')"
      using 2 by simp
    then show ?thesis by (metis append_Cons)
  next
    case False
    then show ?thesis using 2 by auto
  qed
qed auto

lemma map_of_suffix:
  assumes "distinct (dict_keys (a @ b))" "map_of b k = Some v"
  shows "map_of (a @ b) k = Some v"
proof (cases "map_of a k")
  case (Some w)
  have "k \<in> set (dict_keys a)" "k \<in> set (dict_keys b)"
    using map_of_Some_keys [OF Some] map_of_Some_keys [OF assms(2)] .
  then show ?thesis using assms(1) by auto
qed (use assms(2) in \<open>simp add: map_add_def\<close>)

definition cached :: "'v state_cache \<Rightarrow> cache_key \<Rightarrow> (checksum_chain \<times> 'v field dict) option" where
  "cached c = map_of (ca_entries c)"

definition get_cached :: "cache_key \<Rightarrow> checksum_chain \<Rightarrow> 'v state_cache \<Rightarrow> 'v state_cache \<times> 'v field dict option" where
  "get_cached k ch c = cache_get (fst k) (fst (snd k)) (snd (snd k)) ch c"

definition put_cached :: "cache_key \<Rightarrow> checksum_chain \<Rightarrow> 'v field dict \<Rightarrow> 'v state_cache \<Rightarrow> 'v state_cache" where
  "put_cached k ch a c = cache_put (fst k) (fst (snd k)) (snd (snd k)) ch a c"

definition cached_payload :: "cache_key \<Rightarrow> 'v field dict \<Rightarrow> 'v field dict" where
  "cached_payload k a = dict_for (snd (snd k)) (\<lambda>n. the (map_of a n))"

lemma cache_get_keeps:
  assumes "cache_valid c" "cache_get sid v vars ch c = (c', res)"
  shows "cache_valid c' \<and> cached c' = cached c \<and> ca_max_total_bytes c' = ca_max_total_bytes c"
proof (cases "map_of (ca_entries c) (sid, v, vars)")
  case None
  then show ?thesis using assms by (simp add: cache_get_def)
next
  case (Some e)
  let ?k = "(sid, v, vars)"
  obtain h a where e: "e = (h, a)" by (cases e)
  show ?thesis
  proof (cases "h = ch")
    case True
    have c': "c' = c\<lparr>ca_entries := AList.delete ?k (ca_entries c) @ [(?k, h, a)]\<rparr>"
      using assms(2) Some True e by (simp add: cache_get_def Let_def)
    note d = delete_last_entry [OF _ Some [unfolded e]]
    have "map_of (ca_entries c') = map_of (ca_entries c)"
      using d(1) assms(1) Some e by (simp add: c' cache_valid_def fun_upd_idem)
    then show ?thesis using assms(1) d(2,3) by (simp add: c' cache_valid_def cached_def)
  next
    case False
    then show ?thesis using assms Some e by (simp add: cache_get_def)
  qed
qed

lemma put_total:
  assumes "cache_valid c"
  shows "(case map_of (ca_entries c) k of
       Some (_, old) \<Rightarrow> ca_total_bytes c - nbytes old | None \<Rightarrow> ca_total_bytes c) =
     sum_list (map (\<lambda>p. nbytes (snd (snd p))) (AList.delete k (ca_entries c)))"
proof (cases "map_of (ca_entries c) k")
  case None
  then show ?thesis using assms by (simp add: delete_absent cache_valid_def)
next
  case (Some e)
  then show ?thesis
    using delete_last_entry(3) [of "ca_entries c" k "(fst e, snd e)" "\<lambda>p. nbytes (snd (snd p))"] assms
    by (cases e) (simp add: cache_valid_def)
qed

lemma cache_put_adds:
  assumes "cache_valid c" "0 \<le> ca_max_total_bytes c"
  shows "cache_valid (cache_put sid v vars ch a c) \<and>
    ca_max_total_bytes (cache_put sid v vars ch a c) = ca_max_total_bytes c \<and>
    (cached (cache_put sid v vars ch a c) x = Some e \<longrightarrow>
       cached c x = Some e \<or> (x = (sid, v, vars) \<and> e = (ch, dict_for vars (\<lambda>n. the (map_of a n)))))"
proof -
  let ?k = "(sid, v, vars)"
  define pay where "pay = dict_for vars (\<lambda>n. the (map_of a n))"
  define t1 where "t1 = (case map_of (ca_entries c) ?k of
       Some (_, old) \<Rightarrow> ca_total_bytes c - nbytes old | None \<Rightarrow> ca_total_bytes c)"
  define es where "es = AList.delete ?k (ca_entries c) @ [(?k, ch, pay)]"
  have dist: "distinct (dict_keys (ca_entries c))" using assms(1) by (simp add: cache_valid_def)
  have t1: "t1 = sum_list (map (\<lambda>p. nbytes (snd (snd p))) (AList.delete ?k (ca_entries c)))"
    using put_total [OF assms(1), of ?k] by (simp add: t1_def)
  show ?thesis
  proof (cases "ca_max_total_bytes c < nbytes pay")
    case True
    then show ?thesis using assms by (simp add: cache_put_def Let_def pay_def)
  next
    case False
    obtain used es' where ev: "evict (ca_max_total_bytes c) (t1 + nbytes pay) es = (used, es')" by fastforce
    have p: "cache_put sid v vars ch a c = c\<lparr>ca_entries := es', ca_total_bytes := used\<rparr>"
      using False ev by (simp add: cache_put_def Let_def pay_def [symmetric] t1_def [symmetric] es_def [symmetric])
    have s: "used = sum_list (map (\<lambda>p. nbytes (snd (snd p))) es') \<and> used \<le> ca_max_total_bytes c \<and> (\<exists>gone. es = gone @ es')"
      by (rule evict_spec [OF ev _ assms(2)]) (simp add: es_def t1)
    then obtain gone where gone: "es = gone @ es'" by blast
    have de: "distinct (dict_keys es)" unfolding es_def by (rule fresh_entries [OF dist])
    have "map_of es' x = Some e \<Longrightarrow> map_of es x = Some e"
      using map_of_suffix [of gone es' x e] de gone by simp
    moreover have "map_of es x = (if x = ?k then Some (ch, pay) else map_of (ca_entries c) x)"
      by (simp add: es_def map_add_def split: option.splits)
    ultimately show ?thesis using s de gone by (auto simp: p cache_valid_def cached_def pay_def split: if_splits)
  qed
qed

definition cache_ok :: "'v state_cache \<Rightarrow> bool" where
  "cache_ok c \<longleftrightarrow> cache_valid c \<and> 0 \<le> ca_max_total_bytes c"

interpretation lru: entry_cache cached get_cached put_cached cached_payload cache_ok
proof
  fix k ch and c c' :: "'v state_cache" and a
  show "get_cached k ch c = (c', Some a) \<Longrightarrow> cached c k = Some (ch, a)"
    by (auto simp: get_cached_def cache_get_def cached_def Let_def split: option.splits prod.splits if_splits)
next
  fix k ch and c c' :: "'v state_cache" and res
  show "cache_ok c \<Longrightarrow> get_cached k ch c = (c', res) \<Longrightarrow> cache_ok c' \<and> cached c' = cached c"
    using cache_get_keeps by (fastforce simp: get_cached_def cache_ok_def)
next
  fix k ch a x e and c :: "'v state_cache"
  assume "cache_ok c"
  then show "cache_ok (put_cached k ch a c) \<and>
      (cached (put_cached k ch a c) x = Some e \<longrightarrow> cached c x = Some e \<or> (x = k \<and> e = (ch, cached_payload k a)))"
    using cache_put_adds [of c "fst k" "fst (snd k)" "snd (snd k)" ch a x e]
    by (simp add: cache_ok_def put_cached_def cached_payload_def)
qed

section \<open>Replaying a history\<close>

lemma published_records_history:
  assumes "versions_ok st"
  shows "published_records st sid target =
    (if history_upto st sid target = [] then Inl (Store_Refused (StoreError ''no published result to compose against''))
     else Inr (history_upto st sid target))"
proof -
  let ?h = "history_upto st sid target"
  have v: "filter (\<lambda>v. v \<le> target) (result_versions st sid) = map rs_scene_version ?h"
    using history_records(1) [OF assms] by simp
  have "traverse (\<lambda>v. case get_result st sid v of None \<Rightarrow> Inl Assertion_Failed | Some r \<Rightarrow> Inr r)
      (map rs_scene_version ?h) = Inr (map (\<lambda>v. the (get_result st sid v)) (map rs_scene_version ?h))"
    by (rule traverse_total) (use history_records(2) [OF assms] in auto)
  also have "map (\<lambda>v. the (get_result st sid v)) (map rs_scene_version ?h) = ?h"
    using history_records(2) [OF assms] by (simp add: map_idI)
  finally show ?thesis by (simp add: published_records_def v)
qed

lemma increasing_prefix:
  assumes "sorted_wrt (<) (xs :: int list)" "n < length xs"
  shows "filter (\<lambda>x. x \<le> xs ! n) xs = take (Suc n) xs"
proof -
  have lt: "xs ! i < xs ! j" if "i < j" "j < length xs" for i j
    using assms(1) that by (simp add: sorted_wrt_iff_nth_less)
  have "filter (\<lambda>x. x \<le> xs ! n) (take (Suc n) xs) = take (Suc n) xs"
    by (rule filter_True) (use lt assms(2) in \<open>force simp: in_set_conv_nth less_Suc_eq\<close>)
  moreover have "filter (\<lambda>x. x \<le> xs ! n) (drop (Suc n) xs) = []"
  proof -
    have "\<not> drop (Suc n) xs ! i \<le> xs ! n" if "i < length xs - Suc n" for i
    proof -
      have "Suc n + i < length xs" using that by linarith
      then show ?thesis using lt [of n "Suc n + i"] by simp
    qed
    then show ?thesis by (auto simp: filter_empty_conv in_set_conv_nth)
  qed
  ultimately have "filter (\<lambda>x. x \<le> xs ! n) (take (Suc n) xs @ drop (Suc n) xs) = take (Suc n) xs"
    by (simp only: filter_append append_Nil2)
  then show ?thesis by (simp only: append_take_drop_id)
qed

lemma history_prefix:
  assumes ok: "versions_ok st" and n: "n < length (history_upto st sid target)"
  shows "history_upto st sid (rs_scene_version (history_upto st sid target ! n)) = take (Suc n) (history_upto st sid target)"
    (is "history_upto st sid ?u = take _ ?h")
proof -
  have le: "?u \<le> target" using nth_mem [OF n] by (simp add: history_upto_def)
  have "history_upto st sid ?u = filter (\<lambda>r. rs_scene_version r \<le> ?u) ?h"
    using le by (simp add: history_upto_def filter_sort) (meson order_trans)
  moreover have "map rs_scene_version (filter (\<lambda>r. rs_scene_version r \<le> ?u) ?h) = map rs_scene_version (take (Suc n) ?h)"
    using increasing_prefix [OF history_records(3) [OF ok], of n sid target] n
    by (simp add: filter_map o_def take_map)
  moreover have "inj_on rs_scene_version (set ?h)"
    using history_records(3) [OF ok, of sid target] by (simp add: sorted_wrt_less_strict distinct_map)
  then have "inj_on rs_scene_version (set (filter (\<lambda>r. rs_scene_version r \<le> ?u) ?h) \<union> set (take (Suc n) ?h))"
    by (rule inj_on_subset) (auto dest: in_set_takeD)
  ultimately show ?thesis using map_inj_on by metis
qed

lemma map_sum_InrE: "map_sum g h x = Inr y \<Longrightarrow> \<exists>z. x = Inr z \<and> y = h z"
  by (cases x) auto

lemma apply_variable_keys:
  assumes "apply_variable lib bounds patches s name = Inr s'"
  shows "dict_keys (snd s') = dict_keys (snd s)"
proof (cases "map_of patches name")
  case None
  then show ?thesis using assms by (cases s) (simp add: apply_variable_def)
next
  case (Some patch)
  obtain ts state where s: "s = (ts, state)" by (cases s)
  obtain target where t: "map_of state name = Some target"
    using assms Some s by (cases "map_of state name") (simp_all add: apply_variable_def)
  obtain ts' where "map_sum Scatter_Raised (\<lambda>a. (ts', AList.update name a state))
      (scatter lib bounds ts' patch target) = Inr s'"
    using assms Some t s by (auto simp: apply_variable_def Let_def split: if_splits)
  then obtain a where "s' = (ts', AList.update name a state)" using map_sum_InrE by fastforce
  then show ?thesis using dict_keys_update_old [OF map_of_Some_keys [OF t]] by (simp add: s)
qed

lemma apply_result_keys:
  assumes "apply_result_into_state lib state manifest patches variables = Inr state'"
  shows "dict_keys state' = dict_keys state"
proof -
  obtain bounds ts where f: "map_sum id snd (fold_exc (apply_variable lib bounds patches) (ts, state) variables) = Inr state'"
    using assms by (auto simp: apply_result_into_state_def bind_exc_Inr)
  obtain s where s: "fold_exc (apply_variable lib bounds patches) (ts, state) variables = Inr s" "state' = snd s"
    using map_sum_Inr [OF f] by blast
  have "dict_keys (snd s) = dict_keys state"
  proof (rule fold_exc_inv [where P = "\<lambda>s. dict_keys (snd s) = dict_keys state", OF s(1)])
    fix s name s'
    assume "dict_keys (snd s) = dict_keys state" "apply_variable lib bounds patches s name = Inr s'"
    then show "dict_keys (snd s') = dict_keys state" using apply_variable_keys by metis
  qed simp
  then show ?thesis by (simp add: s(2))
qed

lemma note_values_keys:
  assumes "set variables \<subseteq> set (dict_keys seen)"
  shows "dict_keys (note_values patches variables seen) = dict_keys seen"
  using assms
proof (induction variables arbitrary: seen)
  case (Cons n variables)
  let ?d = "if map_of patches n \<noteq> None then AList.update n True seen else seen"
  have "n \<in> set (dict_keys seen)" using Cons.prems by simp
  then have "dict_keys ?d = dict_keys seen" by (simp add: dict_keys_update_old)
  then show ?case using Cons.IH [of ?d] Cons.prems by (simp add: note_values_def)
qed (simp add: note_values_def)

definition keyed_by :: "string list \<Rightarrow> 'v field dict \<times> bool dict \<Rightarrow> bool" where
  "keyed_by variables s \<longleftrightarrow>
     dict_keys (fst s) = first_keys variables \<and> dict_keys (snd s) = first_keys variables"

lemma replay_record_keyed:
  assumes "replay_record show lib variables s r = Inr s'" "keyed_by variables s"
  shows "keyed_by variables s'"
proof -
  obtain patches state' where "apply_result_into_state lib (fst s) (rs_manifest r) patches variables = Inr state'"
    "s' = (state', note_values patches variables (snd s))"
    using assms(1) by (cases s) (auto simp: replay_record_def bind_exc_Inr)
  moreover have "set variables \<subseteq> set (dict_keys (snd s))"
    using assms(2) first_keys_set by (simp add: keyed_by_def)
  ultimately show ?thesis
    using apply_result_keys [of lib "fst s" "rs_manifest r" patches variables state']
      note_values_keys [of variables "snd s" patches] assms(2)
    by (simp add: keyed_by_def)
qed

lemma replay_keyed:
  assumes "fold_exc (replay_record show lib variables) s records = Inr s'" "keyed_by variables s"
  shows "keyed_by variables s'"
  using fold_exc_inv [where P = "keyed_by variables", OF assms] replay_record_keyed by blast

lemma start_keyed: "keyed_by variables (dict_for variables f, dict_for variables h)"
  by (simp add: keyed_by_def)

lemma all_seen:
  assumes "dict_keys seen = first_keys variables" "\<forall>p\<in>set seen. snd p"
  shows "seen = dict_for variables (\<lambda>_. True)"
proof -
  have "map (\<lambda>n. (n, True)) (dict_keys seen) = seen"
    using assms(2) by (simp add: map_idI prod_eq_iff)
  then show ?thesis by (simp add: dict_for_keys flip: assms(1))
qed

text \<open>What an entry of the cache stands for: the complete replay of the history up to its version.\<close>

definition prefix_composed ::
  "(json \<Rightarrow> string) \<Rightarrow> ('a, 'v) array_lib \<Rightarrow> (string \<Rightarrow> grid_info) \<Rightarrow> store \<Rightarrow> cache_key \<Rightarrow> checksum_chain
   \<Rightarrow> 'v field dict \<Rightarrow> bool" where
  "prefix_composed show lib grid st k ch arrays \<longleftrightarrow>
     (case k of (sid, v, variables) \<Rightarrow> get_result st sid v \<noteq> None \<and>
        (\<exists>seen. replay_from show lib variables (grid sid) None (history_upto st sid v) = Inr (arrays, seen) \<and>
           (\<forall>p\<in>set seen. snd p)))"

lemma prefix_composed_extend:
  assumes "results_extend st st'" "prefix_composed show lib grid st k ch a"
  shows "prefix_composed show lib grid st' k ch a"
  using assms(2) history_upto_extend [OF assms(1)] results_extend_get [OF assms(1)]
  by (fastforce simp: prefix_composed_def split: prod.splits)

lemma replay_resumes:
  assumes ok: "versions_ok st" and n: "n < length (history_upto st sid target)"
    and p: "prefix_composed show lib grid st (sid, rs_scene_version (history_upto st sid target ! n), variables) ch arrays"
  shows "replay_from show lib variables (grid sid) (Some (Suc n, arrays)) (history_upto st sid target) =
    replay_from show lib variables (grid sid) None (history_upto st sid target)"
proof -
  let ?h = "history_upto st sid target"
  let ?R = "replay_record show lib variables"
  let ?s0 = "(dict_for variables (\<lambda>_. np_zeros (al_zero lib) (grid sid)), dict_for variables (\<lambda>_. False))"
  obtain seen where r: "fold_exc ?R ?s0 (take (Suc n) ?h) = Inr (arrays, seen)" "\<forall>p\<in>set seen. snd p"
    using p history_prefix [OF ok n] by (auto simp: prefix_composed_def replay_from_def)
  have "keyed_by variables (arrays, seen)" by (rule replay_keyed [OF r(1) start_keyed])
  then have "seen = dict_for variables (\<lambda>_. True)" using all_seen r(2) by (simp add: keyed_by_def)
  moreover have "fold_exc ?R ?s0 ?h = fold_exc ?R ?s0 (take (Suc n) ?h @ drop (Suc n) ?h)" by simp
  ultimately show ?thesis by (simp add: replay_from_def fold_exc_append r(1) del: append_take_drop_id)
qed

section \<open>Compositions along a run\<close>

lemma probe_spec:
  assumes "lru.entries_sound P c" "probe sid variables versions ch n c = (c', res)"
  shows "lru.entries_sound P c' \<and>
    (\<forall>m a. res = Some (m, a) \<longrightarrow> (\<exists>k<n. m = Suc k \<and> P (sid, versions ! k, variables) (take m ch) a))"
  using assms
proof (induction n arbitrary: c)
  case (Suc n)
  obtain c1 x where g: "cache_get sid (versions ! n) variables (take (Suc n) ch) c = (c1, x)" by fastforce
  then have g': "get_cached (sid, versions ! n, variables) (take (Suc n) ch) c = (c1, x)" by (simp add: get_cached_def)
  have s1: "lru.entries_sound P c1" using lru.sound_get [OF Suc.prems(1) g'] .
  show ?case
  proof (cases x)
    case None
    then show ?thesis using Suc.IH [OF s1] Suc.prems(2) g by (fastforce simp: less_Suc_eq)
  next
    case (Some a)
    then show ?thesis using lru.sound_hit [OF Suc.prems(1) g' [unfolded Some]] s1 Suc.prems(2) g by auto
  qed
qed simp

text \<open>One process: its cache starts empty over a store any earlier process may have written, and
  store mutations and compositions interleave.\<close>

inductive composing ::
  "(json \<Rightarrow> string) \<Rightarrow> ('a, 'v) array_lib \<Rightarrow> (string \<Rightarrow> grid_info) \<Rightarrow> int \<Rightarrow> store \<Rightarrow> 'v state_cache \<Rightarrow> bool"
  for str lib grid limit where
  composing_start: "reachable st \<Longrightarrow> composing str lib grid limit st (new_cache limit)"
| composing_store: "composing str lib grid limit st c \<Longrightarrow> store_step st st' \<Longrightarrow> composing str lib grid limit st' c"
| composing_call: "composing str lib grid limit st c \<Longrightarrow>
    composing str lib grid limit st
      (fst (compose_current_state str lib environ st sid (grid sid) variables w target extras c))"

text \<open>A composition on a sound cache: the result does not depend on the cache, which stays sound.\<close>

lemma compose_on_sound_cache:
  assumes ok: "versions_ok st" and sound: "lru.entries_sound (prefix_composed show lib grid st) c"
  shows "snd (compose_current_state show lib environ st sid (grid sid) variables w target extras c) =
      (case published_records st sid target of
         Inl e \<Rightarrow> Inl e
       | Inr records \<Rightarrow> bind_exc (coverage_guard show environ records variables (grid sid)) (\<lambda>_.
           bind_exc (replay_from show lib variables (grid sid) None records)
             (finish_composition lib variables w extras)))"
    and "lru.entries_sound (prefix_composed show lib grid st)
      (fst (compose_current_state show lib environ st sid (grid sid) variables w target extras c))"
proof -
  let ?P = "prefix_composed show lib grid st" and ?h = "history_upto st sid target"
  let ?ch = "map rs_checksum ?h" and ?vs = "map rs_scene_version ?h"
  let ?out = "compose_current_state show lib environ st sid (grid sid) variables w target extras c"
  obtain c1 hit where pr: "probe sid variables ?vs ?ch (length ?vs) c = (c1, hit)" by fastforce
  have c1: "lru.entries_sound ?P c1" using probe_spec [OF sound pr] by simp
  have replay: "replay_from show lib variables (grid sid) hit ?h = replay_from show lib variables (grid sid) None ?h"
  proof (cases hit)
    case (Some p)
    obtain m a where p: "p = (m, a)" by (cases p)
    obtain k where k: "k < length ?h" "m = Suc k" "?P (sid, ?vs ! k, variables) (take m ?ch) a"
      using probe_spec [OF sound pr] Some p by fastforce
    show ?thesis using replay_resumes [OF ok k(1), of "show" lib grid variables "take m ?ch" a] k by (simp add: Some p)
  qed simp
  have "snd ?out = (case published_records st sid target of
         Inl e \<Rightarrow> Inl e
       | Inr records \<Rightarrow> bind_exc (coverage_guard show environ records variables (grid sid)) (\<lambda>_.
           bind_exc (replay_from show lib variables (grid sid) None records)
             (finish_composition lib variables w extras))) \<and> lru.entries_sound ?P (fst ?out)"
  proof (cases "?h = []")
    case True
    then show ?thesis using sound by (simp add: compose_current_state_def published_records_history [OF ok])
  next
    case False
    show ?thesis
    proof (cases "coverage_guard show environ ?h variables (grid sid)")
      case (Inl e)
      then show ?thesis using False sound by (simp add: compose_current_state_def published_records_history [OF ok])
    next
      case guard: (Inr u)
      show ?thesis
      proof (cases "replay_from show lib variables (grid sid) None ?h")
        case (Inl e)
        then show ?thesis using False guard pr replay c1
          by (simp add: compose_current_state_def published_records_history [OF ok])
      next
        case (Inr s)
        obtain state seen where s: "s = (state, seen)" by (cases s)
        define c2 where "c2 = (if \<forall>p\<in>set seen. snd p
          then cache_put sid (last ?vs) variables ?ch (dict_for variables (\<lambda>n. the (map_of state n))) c1 else c1)"
        have out: "?out = (c2, finish_composition lib variables w extras (state, seen))"
          using False guard pr replay Inr s
          by (simp add: compose_current_state_def published_records_history [OF ok] c2_def)
        have c2: "lru.entries_sound ?P c2"
        proof (cases "\<forall>p\<in>set seen. snd p")
          case all: True
          let ?k = "(sid, last ?vs, variables)"
          have keyed: "keyed_by variables (state, seen)"
            by (rule replay_keyed [OF _ start_keyed]) (use Inr s in \<open>simp add: replay_from_def\<close>)
          then have same: "dict_for variables (\<lambda>n. the (map_of state n)) = state"
            by (intro dict_for_again) (simp add: keyed_by_def)
          let ?n = "length ?h - 1"
          have n: "?n < length ?h" using False by simp
          have v: "last ?vs = rs_scene_version (?h ! ?n)" using False by (simp add: last_map last_conv_nth)
          have "history_upto st sid (last ?vs) = ?h" using history_prefix [OF ok n] False by (simp add: v)
          moreover have "get_result st sid (last ?vs) \<noteq> None"
            using history_records(2) [OF ok nth_mem [OF n]] by (simp add: v)
          ultimately have "?P ?k ?ch (cached_payload ?k state)"
            using Inr s all same by (simp add: prefix_composed_def cached_payload_def)
          then have "lru.entries_sound ?P (put_cached ?k ?ch state c1)" by (rule lru.sound_put [OF c1])
          then show ?thesis using all by (simp add: c2_def put_cached_def same)
        next
          case False
          then have "c2 = c1" unfolding c2_def by (rule if_not_P)
          then show ?thesis using c1 by simp
        qed
        show ?thesis using False guard Inr s c2 by (simp add: out published_records_history [OF ok])
      qed
    qed
  qed
  then show "snd ?out = (case published_records st sid target of
         Inl e \<Rightarrow> Inl e
       | Inr records \<Rightarrow> bind_exc (coverage_guard show environ records variables (grid sid)) (\<lambda>_.
           bind_exc (replay_from show lib variables (grid sid) None records)
             (finish_composition lib variables w extras)))"
    and "lru.entries_sound ?P (fst ?out)" by simp_all
qed

lemma new_cache_sound: "0 \<le> limit \<Longrightarrow> lru.entries_sound P (new_cache limit)"
  by (simp add: lru.entries_sound_def new_cache_def cache_ok_def cache_valid_def cached_def)

lemma composing_sound:
  assumes "composing show lib grid limit st c" "0 \<le> limit"
  shows "ledger_ok st \<and> versions_ok st \<and> lru.entries_sound (prefix_composed show lib grid st) c"
  using assms
proof (induction rule: composing.induct)
  case (composing_start st)
  then show ?case using reachable_ok new_cache_sound by blast
next
  case (composing_store st c st')
  then have ok: "ledger_ok st" "versions_ok st" and s: "lru.entries_sound (prefix_composed show lib grid st) c" by auto
  have "lru.entries_sound (prefix_composed show lib grid st') c"
    by (rule lru.sound_mono [OF s]) (rule prefix_composed_extend [OF store_step_extends [OF composing_store.hyps(2) ok]])
  then show ?case using store_step_ok [OF composing_store.hyps(2) ok] by simp
next
  case composing_call
  then show ?case using compose_on_sound_cache(2) by blast
qed

end
