(* ===== verification/Composed_Cells.thy ===== *)
theory Composed_Cells
  imports State_Composition_Contract
begin

text \<open>
  The properties of composition: independence of the cache, the cell of a composed state as the newest
  publication that covers it, the refusal to scatter a partial time axis by guesswork, and the byte bound
  of the cache.
\<close>

section \<open>What one publication says of a cell\<close>

text \<open>A publication is a manifest and its decoded arrays.\<close>

definition last_index :: "int list \<Rightarrow> int \<Rightarrow> nat option" where
  "last_index xs t = find (\<lambda>k. xs ! k = t) (rev [0..<length xs])"

text \<open>The global time of every plane: as the manifest names them, or the whole axis.\<close>

definition publication_times :: "('a, 'v) array_lib \<Rightarrow> int \<Rightarrow> int list \<Rightarrow> 'a \<Rightarrow> int list" where
  "publication_times lib steps ts a =
     (if ts \<noteq> [] \<and> int (length ts) = np_shape (al_codec lib) a ! 0 then ts else [0..steps - 1])"

definition cell_of ::
  "('a, 'v) array_lib \<Rightarrow> int \<Rightarrow> json dict \<times> 'a dict \<Rightarrow> string \<Rightarrow> int \<Rightarrow> int \<Rightarrow> int \<Rightarrow> 'v option" where
  "cell_of lib steps p name t i j =
     (case (window_bounds (fst p), int_entries (map_of (fst p) ''time_indices''), map_of (snd p) name) of
        (Inr (r0, r1, c0, c1), Inr ts, Some a) \<Rightarrow>
          if r0 \<le> i \<and> i < r1 \<and> c0 \<le> j \<and> j < c1
          then map_option (\<lambda>k. al_item lib a (int k) (i - r0) (j - c0)) (last_index (publication_times lib steps ts a) t)
          else None
      | _ \<Rightarrow> None)"

text \<open>The newest of the publications that cover the cell, zero where none does.\<close>

definition newest ::
  "('a, 'v) array_lib \<Rightarrow> int \<Rightarrow> (json dict \<times> 'a dict) list \<Rightarrow> string \<Rightarrow> int \<Rightarrow> int \<Rightarrow> int \<Rightarrow> 'v" where
  "newest lib steps pubs name t i j =
     (case List.map_filter (\<lambda>p. cell_of lib steps p name t i j) (rev pubs) of [] \<Rightarrow> al_zero lib | v # _ \<Rightarrow> v)"

text \<open>The window lies on the site, the times are times of the site, the arrays have the window's extent.\<close>

definition on_site :: "('a, 'v) array_lib \<Rightarrow> grid_info \<Rightarrow> json dict \<times> 'a dict \<Rightarrow> bool" where
  "on_site lib g p =
     (case (g, window_bounds (fst p), int_entries (map_of (fst p) ''time_indices'')) of
        ((steps, rows, cols), Inr (r0, r1, c0, c1), Inr ts) \<Rightarrow>
          0 \<le> r0 \<and> r0 \<le> r1 \<and> r1 \<le> rows \<and> 0 \<le> c0 \<and> c0 \<le> c1 \<and> c1 \<le> cols \<and>
          (\<forall>t\<in>set ts. 0 \<le> t \<and> t < steps) \<and>
          (\<forall>q\<in>set (snd p). np_shape (al_codec lib) (snd q) ! 1 = r1 - r0 \<and> np_shape (al_codec lib) (snd q) ! 2 = c1 - c0)
      | _ \<Rightarrow> False)"

definition decoded :: "(json \<Rightarrow> string) \<Rightarrow> ('a, 'v) array_lib \<Rightarrow> result_record \<Rightarrow> json dict \<times> 'a dict" where
  "decoded show lib r =
     (rs_manifest r,
      case decode_payload show (al_codec lib) (rs_manifest r) (payload_bytes r) True None of Inr d \<Rightarrow> d | Inl _ \<Rightarrow> [])"

definition worker_publication :: "'a worker_patch \<Rightarrow> json dict \<times> 'a dict" where
  "worker_publication p = (patch_manifest p, wp_arrays p)"

lemma newest_empty [simp]: "newest lib steps [] name t i j = al_zero lib"
  by (simp add: newest_def map_filter_simps)

lemma newest_snoc:
  "newest lib steps (pubs @ [p]) name t i j =
     (case cell_of lib steps p name t i j of Some v \<Rightarrow> v | None \<Rightarrow> newest lib steps pubs name t i j)"
  by (simp add: newest_def map_filter_simps split: option.splits)

section \<open>The scatter\<close>

lemma axis_slice_inside: "0 \<le> a \<Longrightarrow> a \<le> b \<Longrightarrow> b \<le> n \<Longrightarrow> axis_slice n a b = (a, b - a)"
  by (simp add: axis_slice_def slice_index_def Let_def)

lemma find_cong: "(\<And>x. x \<in> set xs \<Longrightarrow> p x = q x) \<Longrightarrow> find p xs = find q xs"
  by (induction xs) auto

lemma plane_for_inside: "\<forall>t\<in>set ts. 0 \<le> t \<and> t < steps \<Longrightarrow> plane_for steps ts t = last_index ts t"
  unfolding plane_for_def last_index_def
proof (rule find_cong)
  fix k assume "\<forall>t\<in>set ts. 0 \<le> t \<and> t < steps" "k \<in> set (rev [0..<length ts])"
  then have "0 \<le> ts ! k" by simp
  then show "(axis_index steps (ts ! k) = t) = (ts ! k = t)" by (simp add: axis_index_def)
qed

definition field_on :: "grid_info \<Rightarrow> 'v field \<Rightarrow> bool" where
  "field_on g a \<longleftrightarrow> (fd_steps a, fd_rows a, fd_cols a) = g"

lemma scatter_inside:
  assumes s: "scatter lib (r0, r1, c0, c1) ts a target = Inr target'"
    and on: "field_on (steps, rows, cols) target" "0 \<le> r0" "r0 \<le> r1" "r1 \<le> rows" "0 \<le> c0" "c0 \<le> c1" "c1 \<le> cols"
    and ts: "\<forall>t\<in>set ts. 0 \<le> t \<and> t < steps"
    and shape: "np_shape (al_codec lib) a ! 1 = r1 - r0" "np_shape (al_codec lib) a ! 2 = c1 - c0"
  shows "field_on (steps, rows, cols) target' \<and>
    fd_item target' t i j =
      (case (if r0 \<le> i \<and> i < r1 \<and> c0 \<le> j \<and> j < c1
             then map_option (\<lambda>k. al_item lib a (int k) (i - r0) (j - c0)) (last_index ts t) else None) of
         Some v \<Rightarrow> v | None \<Rightarrow> fd_item target t i j)"
proof -
  have d: "fd_steps target = steps" "fd_rows target = rows" "fd_cols target = cols"
    using on(1) by (simp_all add: field_on_def)
  have sl: "axis_slice rows r0 r1 = (r0, r1 - r0)" "axis_slice cols c0 c1 = (c0, c1 - c0)"
    using axis_slice_inside on by blast+
  have t': "target' = target\<lparr>fd_item := \<lambda>t r c.
      (case last_index ts t of
         Some p \<Rightarrow>
           if r0 \<le> r \<and> r < r0 + (r1 - r0) \<and> c0 \<le> c \<and> c < c0 + (c1 - c0)
           then al_item lib a (int p) (if r1 - r0 = 1 then 0 else r - r0) (if c1 - c0 = 1 then 0 else c - c0)
           else fd_item target t r c
       | None \<Rightarrow> fd_item target t r c)\<rparr>"
    using s unfolding scatter_def d Let_def sl shape plane_for_inside [OF ts] prod.case
    by (simp split: if_splits del: One_nat_def)
  have one: "(if r1 - r0 = 1 then 0 else i - r0) = i - r0" "(if c1 - c0 = 1 then 0 else j - c0) = j - c0"
    if "r0 \<le> i" "i < r1" "c0 \<le> j" "j < c1" using that by auto
  show ?thesis
  proof (cases "r0 \<le> i \<and> i < r1 \<and> c0 \<le> j \<and> j < c1")
    case True
    then show ?thesis using d one by (cases "last_index ts t") (simp_all add: t' field_on_def)
  next
    case False
    then show ?thesis using d by (cases "last_index ts t") (auto simp: t' field_on_def)
  qed
qed

lemma apply_variable_inside:
  assumes s: "apply_variable lib (r0, r1, c0, c1) patches (ts, state) name = Inr (ts', state')"
    and m: "window_bounds m = Inr (r0, r1, c0, c1)" "int_entries (map_of m ''time_indices'') = Inr ts0"
    and on: "on_site lib (steps, rows, cols) (m, patches)" "0 \<le> steps"
    and ts: "ts = ts0 \<or> (ts = [0..steps - 1] \<and> \<not> (ts0 \<noteq> [] \<and> int (length ts0) = steps))"
    and f: "map_of state name = Some target" "field_on (steps, rows, cols) target"
  shows "(ts' = ts0 \<or> (ts' = [0..steps - 1] \<and> \<not> (ts0 \<noteq> [] \<and> int (length ts0) = steps))) \<and>
    (\<exists>target'. state' = (if map_of patches name = None then state else AList.update name target' state) \<and>
       (map_of patches name = None \<longrightarrow> target' = target) \<and> field_on (steps, rows, cols) target' \<and>
       (\<forall>t i j. fd_item target' t i j =
          (case cell_of lib steps (m, patches) name t i j of Some v \<Rightarrow> v | None \<Rightarrow> fd_item target t i j)))"
proof (cases "map_of patches name")
  case None
  then show ?thesis using s ts f by (auto simp: apply_variable_def cell_of_def m)
next
  case (Some a)
  have b: "0 \<le> r0" "r0 \<le> r1" "r1 \<le> rows" "0 \<le> c0" "c0 \<le> c1" "c1 \<le> cols" and t0: "\<forall>t\<in>set ts0. 0 \<le> t \<and> t < steps"
    and shape: "np_shape (al_codec lib) a ! 1 = r1 - r0" "np_shape (al_codec lib) a ! 2 = c1 - c0"
    using on(1) map_of_SomeD [OF Some] by (auto simp: on_site_def m)
  define planes where "planes = np_shape (al_codec lib) a ! 0"
  have steps: "fd_steps target = steps" using f(2) by (simp add: field_on_def)
  have fence: "\<not> ((ts = [] \<or> int (length ts) \<noteq> planes) \<and> planes \<noteq> steps)"
    using s Some f(1) by (auto simp: apply_variable_def Let_def planes_def steps split: if_splits)
  define used where "used = (if ts = [] \<or> int (length ts) \<noteq> planes then [0..planes - 1] else ts)"
  have "map_sum Scatter_Raised (\<lambda>x. (used, AList.update name x state)) (scatter lib (r0, r1, c0, c1) used a target) = Inr (ts', state')"
    using s Some f(1) fence by (simp add: apply_variable_def Let_def planes_def [symmetric] steps used_def)
  then obtain x where x: "scatter lib (r0, r1, c0, c1) used a target = Inr x" "ts' = used" "state' = AList.update name x state"
    using map_sum_InrE by fastforce
  have pub: "used = publication_times lib steps ts0 a"
    using ts fence on(2) by (auto simp: used_def publication_times_def planes_def [symmetric])
  have inside: "\<forall>t\<in>set used. 0 \<le> t \<and> t < steps"
    using t0 by (auto simp: pub publication_times_def)
  have dense: "used = ts0 \<or> (used = [0..steps - 1] \<and> \<not> (ts0 \<noteq> [] \<and> int (length ts0) = steps))"
    using ts fence on(2) by (auto simp: used_def)
  have "field_on (steps, rows, cols) x \<and> fd_item x t i j =
      (case cell_of lib steps (m, patches) name t i j of Some v \<Rightarrow> v | None \<Rightarrow> fd_item target t i j)" for t i j
    using scatter_inside [OF x(1) f(2) b inside shape, of t i j] Some by (simp add: cell_of_def m pub)
  then show ?thesis using dense x(2,3) Some by auto
qed

text \<open>All variables have arrays of the site's shape, and a cell of each satisfies \<open>V\<close>.\<close>

definition shows_cells ::
  "string set \<Rightarrow> grid_info \<Rightarrow> (string \<Rightarrow> int \<Rightarrow> int \<Rightarrow> int \<Rightarrow> 'v) \<Rightarrow> 'v field dict \<Rightarrow> bool" where
  "shows_cells names g V state \<longleftrightarrow>
     (\<forall>n\<in>names. \<exists>a. map_of state n = Some a \<and> field_on g a \<and> (\<forall>t i j. fd_item a t i j = V n t i j))"

lemma apply_result_cells:
  assumes a: "apply_result_into_state lib state m patches variables = Inr state'"
    and on: "on_site lib (steps, rows, cols) (m, patches)" "0 \<le> steps"
    and V: "shows_cells (set variables) (steps, rows, cols) V state"
  shows "shows_cells (set variables) (steps, rows, cols)
    (\<lambda>n t i j. case cell_of lib steps (m, patches) n t i j of Some v \<Rightarrow> v | None \<Rightarrow> V n t i j) state'"
proof -
  obtain r0 r1 c0 c1 ts0 where m: "window_bounds m = Inr (r0, r1, c0, c1)" "int_entries (map_of m ''time_indices'') = Inr ts0"
    using on(1) by (cases "window_bounds m"; cases "int_entries (map_of m ''time_indices'')")
      (auto simp: on_site_def split: prod.splits)
  let ?W = "\<lambda>n t i j. case cell_of lib steps (m, patches) n t i j of Some v \<Rightarrow> v | None \<Rightarrow> V n t i j"
  let ?g = "(steps, rows, cols)"
  have run: "shows_cells (set vs) ?g ?W (snd s')"
    if "fold_exc (apply_variable lib (r0, r1, c0, c1) patches) s vs = Inr s'"
      and "fst s = ts0 \<or> (fst s = [0..steps - 1] \<and> \<not> (ts0 \<noteq> [] \<and> int (length ts0) = steps))"
      and "\<forall>n\<in>set vs \<union> D. \<exists>a. map_of (snd s) n = Some a \<and> field_on ?g a \<and>
        ((\<forall>t i j. fd_item a t i j = ?W n t i j) \<or> (n \<notin> D \<and> (\<forall>t i j. fd_item a t i j = V n t i j)))"
    for s s' vs D
  proof -
    have "\<forall>n\<in>set vs \<union> D. \<exists>a. map_of (snd s') n = Some a \<and> field_on ?g a \<and> (\<forall>t i j. fd_item a t i j = ?W n t i j)"
      using that
    proof (induction vs arbitrary: s D)
      case Nil
      then show ?case by fastforce
    next
      case (Cons n vs)
      obtain ts st where s: "s = (ts, st)" by (cases s)
      obtain ts1 st1 where step: "apply_variable lib (r0, r1, c0, c1) patches (ts, st) n = Inr (ts1, st1)"
        and rest: "fold_exc (apply_variable lib (r0, r1, c0, c1) patches) (ts1, st1) vs = Inr s'"
        using Cons.prems(1) by (auto simp: s split: sum.splits)
      obtain a where a: "map_of st n = Some a" "field_on ?g a"
        "(\<forall>t i j. fd_item a t i j = ?W n t i j) \<or> (\<forall>t i j. fd_item a t i j = V n t i j)"
        using Cons.prems(3) by (fastforce simp: s)
      have ts: "ts = ts0 \<or> (ts = [0..steps - 1] \<and> \<not> (ts0 \<noteq> [] \<and> int (length ts0) = steps))"
        using Cons.prems(2) by (simp add: s)
      obtain b where b: "st1 = (if map_of patches n = None then st else AList.update n b st)"
        "map_of patches n = None \<longrightarrow> b = a" "field_on ?g b"
        "\<forall>t i j. fd_item b t i j = (case cell_of lib steps (m, patches) n t i j of Some v \<Rightarrow> v | None \<Rightarrow> fd_item a t i j)"
        and ts1: "ts1 = ts0 \<or> (ts1 = [0..steps - 1] \<and> \<not> (ts0 \<noteq> [] \<and> int (length ts0) = steps))"
        using apply_variable_inside [OF step m on ts a(1,2)] by (elim conjE exE) (rule that; assumption)
      have b': "\<forall>t i j. fd_item b t i j = ?W n t i j"
      proof (intro allI)
        fix t i j
        have "fd_item a t i j = ?W n t i j \<or> fd_item a t i j = V n t i j" using a(3) by blast
        then show "fd_item b t i j = ?W n t i j"
          using b(4) [rule_format, of t i j] by (cases "cell_of lib steps (m, patches) n t i j") auto
      qed
      have look: "map_of st1 x = (if x = n then Some b else map_of st x)" for x
        using b(1,2) a(1) by simp
      have each: "\<forall>x\<in>set vs \<union> insert n D. \<exists>a. map_of (snd (ts1, st1)) x = Some a \<and> field_on ?g a \<and>
          ((\<forall>t i j. fd_item a t i j = ?W x t i j) \<or> (x \<notin> insert n D \<and> (\<forall>t i j. fd_item a t i j = V x t i j)))"
      proof
        fix x assume x: "x \<in> set vs \<union> insert n D"
        show "\<exists>a. map_of (snd (ts1, st1)) x = Some a \<and> field_on ?g a \<and>
          ((\<forall>t i j. fd_item a t i j = ?W x t i j) \<or> (x \<notin> insert n D \<and> (\<forall>t i j. fd_item a t i j = V x t i j)))"
        proof (cases "x = n")
          case True
          show ?thesis unfolding True using look [of n] b(3) b' by simp
        next
          case False
          then show ?thesis using Cons.prems(3) x look [of x] by (simp add: s)
        qed
      qed
      have "fst (ts1, st1) = ts0 \<or> (fst (ts1, st1) = [0..steps - 1] \<and> \<not> (ts0 \<noteq> [] \<and> int (length ts0) = steps))"
        using ts1 by simp
      from Cons.IH [OF rest this each]
      show ?case by simp
    qed
    then show ?thesis by (simp add: shows_cells_def)
  qed
  obtain s' where "fold_exc (apply_variable lib (r0, r1, c0, c1) patches) (ts0, state) variables = Inr s'" "state' = snd s'"
    using a map_sum_Inr by (fastforce simp: apply_result_into_state_def m)
  moreover have "\<forall>n\<in>set variables \<union> {}. \<exists>a. map_of (snd (ts0, state)) n = Some a \<and> field_on ?g a \<and>
      ((\<forall>t i j. fd_item a t i j = ?W n t i j) \<or> (n \<notin> {} \<and> (\<forall>t i j. fd_item a t i j = V n t i j)))"
    using V unfolding shows_cells_def snd_conv by blast
  ultimately show ?thesis using run [of "(ts0, state)" variables s' "{}"] by simp
qed

text \<open>Planes reach the state at the times the manifest gives them one by one, or cover the whole axis.\<close>

definition times_given :: "('a, 'v) array_lib \<Rightarrow> int \<Rightarrow> json dict \<times> 'a dict \<Rightarrow> string \<Rightarrow> bool" where
  "times_given lib steps p name \<longleftrightarrow>
     (\<forall>a ts. map_of (snd p) name = Some a \<longrightarrow> int_entries (map_of (fst p) ''time_indices'') = Inr ts \<longrightarrow>
        (ts \<noteq> [] \<and> int (length ts) = np_shape (al_codec lib) a ! 0) \<or> np_shape (al_codec lib) a ! 0 = steps)"

lemma fold_exc_each:
  assumes "fold_exc f s xs = Inr s'" "P s" "x \<in> set xs"
    and "\<And>s x s'. x \<in> set xs \<Longrightarrow> P s \<Longrightarrow> f s x = Inr s' \<Longrightarrow> P s'"
  obtains s1 s2 where "P s1" "f s1 x = Inr s2"
proof -
  obtain ys zs where xs: "xs = ys @ x # zs" using assms(3) by (auto dest: split_list)
  obtain s1 where s1: "fold_exc f s ys = Inr s1" using assms(1) by (auto simp: xs fold_exc_append split: sum.splits)
  then obtain s2 where "f s1 x = Inr s2" using assms(1) by (auto simp: xs fold_exc_append split: sum.splits)
  moreover have "P s1" by (rule fold_exc_inv [where P = P, OF s1 assms(2)]) (use assms(4) xs in auto)
  ultimately show thesis using that by blast
qed

lemma apply_result_fenced:
  fixes lib :: "('a, 'v) array_lib"
  assumes a: "apply_result_into_state lib state m patches variables = Inr state'"
    and on: "on_site lib (steps, rows, cols) (m, patches)" "0 \<le> steps"
    and V: "shows_cells (set variables) (steps, rows, cols) V state" and name: "name \<in> set variables"
  shows "times_given lib steps (m, patches) name"
proof -
  obtain r0 r1 c0 c1 ts0 where m: "window_bounds m = Inr (r0, r1, c0, c1)" "int_entries (map_of m ''time_indices'') = Inr ts0"
    using on(1) by (cases "window_bounds m"; cases "int_entries (map_of m ''time_indices'')")
      (auto simp: on_site_def split: prod.splits)
  let ?g = "(steps, rows, cols)"
  define T where "T ts \<longleftrightarrow> ts = ts0 \<or> (ts = [0..steps - 1] \<and> \<not> (ts0 \<noteq> [] \<and> int (length ts0) = steps))" for ts
  define P where "P s \<longleftrightarrow> T (fst s) \<and> (\<forall>n\<in>set variables. \<exists>x. map_of (snd s) n = Some x \<and> field_on ?g x)"
    for s :: "int list \<times> 'v field dict"
  obtain s' where f: "fold_exc (apply_variable lib (r0, r1, c0, c1) patches) (ts0, state) variables = Inr s'"
    using a map_sum_Inr by (fastforce simp: apply_result_into_state_def m)
  have keep: "P s2" if n: "n \<in> set variables" and s: "P s" "apply_variable lib (r0, r1, c0, c1) patches s n = Inr s2" for s n s2
  proof -
    obtain x where x: "map_of (snd s) n = Some x" "field_on ?g x" using s(1) n by (auto simp: P_def)
    have t: "T (fst s)" using s(1) by (simp add: P_def)
    have step: "apply_variable lib (r0, r1, c0, c1) patches (fst s, snd s) n = Inr (fst s2, snd s2)" using s(2) by simp
    obtain y where "snd s2 = (if map_of patches n = None then snd s else AList.update n y (snd s))" "field_on ?g y" "T (fst s2)"
      using apply_variable_inside [OF step m on t [unfolded T_def] x] unfolding T_def [symmetric] by (elim conjE exE) (rule that; assumption)
    then show ?thesis using s(1) by (auto simp: P_def)
  qed
  have "P (ts0, state)" using V by (auto simp: P_def T_def shows_cells_def)
  then obtain s1 s2 where s1: "P s1" "apply_variable lib (r0, r1, c0, c1) patches s1 name = Inr s2"
    using fold_exc_each [where P = P, OF f _ name] keep by blast
  obtain x where x: "map_of (snd s1) name = Some x" "fd_steps x = steps"
    using s1(1) name by (auto simp: P_def field_on_def)
  have "(ts0 \<noteq> [] \<and> int (length ts0) = np_shape (al_codec lib) p ! 0) \<or> np_shape (al_codec lib) p ! 0 = steps"
    if "map_of patches name = Some p" for p
  proof -
    have "\<not> ((fst s1 = [] \<or> int (length (fst s1)) \<noteq> np_shape (al_codec lib) p ! 0) \<and> np_shape (al_codec lib) p ! 0 \<noteq> steps)"
      using s1(2) that x by (cases s1) (auto simp: apply_variable_def Let_def split: if_splits)
    moreover have "T (fst s1)" using s1(1) by (simp add: P_def)
    ultimately show ?thesis using on(2) by (auto simp: T_def)
  qed
  then show ?thesis by (simp add: times_given_def m)
qed

section \<open>Folding publications\<close>

lemma newest_step:
  "(\<lambda>n t i j. case cell_of lib steps p n t i j of Some v \<Rightarrow> v | None \<Rightarrow> newest lib steps pubs n t i j) =
   newest lib steps (pubs @ [p])"
  by (simp add: newest_snoc fun_eq_iff)

text \<open>A loop over publications that applies one after the other.\<close>

lemma fold_publications:
  assumes "fold_exc f s xs = Inr s'" "shows_cells (set variables) (steps, rows, cols) (newest lib steps pubs) (fst s)"
    and "0 \<le> steps" "\<forall>p\<in>set (map pub xs). on_site lib (steps, rows, cols) p"
    and step: "\<And>s x s'. f s x = Inr s' \<Longrightarrow>
      apply_result_into_state lib (fst s) (fst (pub x)) (snd (pub x)) variables = Inr (fst s')"
  shows "shows_cells (set variables) (steps, rows, cols) (newest lib steps (pubs @ map pub xs)) (fst s') \<and>
    (\<forall>p\<in>set (map pub xs). \<forall>n\<in>set variables. times_given lib steps p n)"
  using assms(1,2,4)
proof (induction xs arbitrary: s pubs)
  case (Cons x xs)
  obtain s1 where s1: "f s x = Inr s1" "fold_exc f s1 xs = Inr s'" using Cons.prems(1) by (auto split: sum.splits)
  have "shows_cells (set variables) (steps, rows, cols) (newest lib steps (pubs @ [pub x])) (fst s1)"
    unfolding newest_step [symmetric]
    using apply_result_cells [OF step [OF s1(1)] _ assms(3) Cons.prems(2)] Cons.prems(3) by simp
  moreover have "times_given lib steps (pub x) n" if "n \<in> set variables" for n
    using apply_result_fenced [OF step [OF s1(1)] _ assms(3) Cons.prems(2) that] Cons.prems(3) by simp
  ultimately show ?case using Cons.IH [OF s1(2), of "pubs @ [pub x]"] Cons.prems(3) by simp
qed simp

lemma replay_record_applies:
  assumes "replay_record show lib variables s r = Inr s'"
  shows "apply_result_into_state lib (fst s) (fst (decoded show lib r)) (snd (decoded show lib r)) variables = Inr (fst s')"
  using assms by (cases s) (auto simp: replay_record_def decoded_def bind_exc_Inr dest!: map_sum_InrE)

lemma apply_extra_applies:
  assumes "apply_extra lib variables s p = Inr s'"
  shows "apply_result_into_state lib (fst s) (fst (worker_publication p)) (snd (worker_publication p)) variables = Inr (fst s')"
  using assms by (cases s) (auto simp: apply_extra_def worker_publication_def bind_exc_Inr)

lemma start_cells:
  "shows_cells (set variables) g (newest lib steps []) (dict_for variables (\<lambda>_. np_zeros (al_zero lib) g))"
  by (auto simp: shows_cells_def dict_for_lookup np_zeros_def field_on_def split: prod.splits)

lemma crop_item:
  assumes "field_on (steps, rows, cols) a" "0 \<le> rw_row_start w" "rw_row_start w \<le> rw_row_stop w" "rw_row_stop w \<le> rows"
    "0 \<le> rw_col_start w" "rw_col_start w \<le> rw_col_stop w" "rw_col_stop w \<le> cols"
  shows "fd_item (crop w a) t (i - rw_row_start w) (j - rw_col_start w) = fd_item a t i j"
    "field_on (steps, rw_height w, rw_width w) (crop w a)"
proof -
  have d: "fd_steps a = steps" "fd_rows a = rows" "fd_cols a = cols" using assms(1) by (simp_all add: field_on_def)
  have sl: "axis_slice rows (rw_row_start w) (rw_row_stop w) = (rw_row_start w, rw_row_stop w - rw_row_start w)"
    "axis_slice cols (rw_col_start w) (rw_col_stop w) = (rw_col_start w, rw_col_stop w - rw_col_start w)"
    using axis_slice_inside assms by blast+
  show "fd_item (crop w a) t (i - rw_row_start w) (j - rw_col_start w) = fd_item a t i j"
    "field_on (steps, rw_height w, rw_width w) (crop w a)"
    by (simp_all add: crop_def d sl field_on_def rw_height_def rw_width_def)
qed

lemma composed_cells:
  assumes "bind_exc (replay_from show lib variables (steps, rows, cols) None records)
      (finish_composition lib variables w extras) = Inr out"
    and "0 \<le> steps" "\<forall>p\<in>set (map (decoded show lib) records @ map worker_publication extras). on_site lib (steps, rows, cols) p"
  obtains state where "out = dict_for variables (\<lambda>n. crop w (the (map_of state n)))"
    "shows_cells (set variables) (steps, rows, cols)
       (newest lib steps (map (decoded show lib) records @ map worker_publication extras)) state"
    "\<forall>p\<in>set (map (decoded show lib) records @ map worker_publication extras). \<forall>n\<in>set variables. times_given lib steps p n"
proof -
  obtain s where s: "replay_from show lib variables (steps, rows, cols) None records = Inr s"
    "finish_composition lib variables w extras s = Inr out"
    using assms(1) by (auto simp: bind_exc_Inr)
  have one: "shows_cells (set variables) (steps, rows, cols) (newest lib steps ([] @ map (decoded show lib) records)) (fst s) \<and>
      (\<forall>p\<in>set (map (decoded show lib) records). \<forall>n\<in>set variables. times_given lib steps p n)"
    by (rule fold_publications [OF s(1) [unfolded replay_from_def option.case] _ assms(2)])
      (use start_cells assms(3) replay_record_applies in auto)
  obtain s2 where s2: "fold_exc (apply_extra lib variables) s extras = Inr s2"
    "out = dict_for variables (\<lambda>n. crop w (the (map_of (fst s2) n)))"
    using s(2) by (auto simp: finish_composition_def bind_exc_Inr split: if_splits prod.splits)
  have two: "shows_cells (set variables) (steps, rows, cols)
      (newest lib steps (map (decoded show lib) records @ map worker_publication extras)) (fst s2) \<and>
      (\<forall>p\<in>set (map worker_publication extras). \<forall>n\<in>set variables. times_given lib steps p n)"
    by (rule fold_publications [OF s2(1) _ assms(2)]) (use one assms(3) apply_extra_applies in auto)
  show thesis by (rule that [OF s2(2)]) (use one two in auto)
qed

section \<open>Properties\<close>

text \<open>C10: the cache never shows. At any point of a process, whatever edits, publications, resets and
  earlier compositions came before, composing a state with the process's cache gives exactly what
  composing it with an empty cache gives, errors included. (It rests on the store: a published
  history below a published version never changes, so a hit is current even apart from the comparison
  of checksums.)\<close>

theorem cached_composition_is_fresh:
  assumes "composing show lib grid limit st c" "0 \<le> limit" "0 \<le> limit'"
  shows "snd (compose_current_state show lib environ st sid (grid sid) variables w target extras c) =
    snd (compose_current_state show lib environ st sid (grid sid) variables w target extras (new_cache limit'))"
proof -
  have ok: "versions_ok st" and sound: "lru.entries_sound (prefix_composed show lib grid st) c"
    using composing_sound [OF assms(1,2)] by auto
  show ?thesis
    by (simp only: compose_on_sound_cache(1) [OF ok sound] compose_on_sound_cache(1) [OF ok new_cache_sound [OF assms(3)]])
qed


section \<open>The bound\<close>

lemma evict_keeps_newest:
  assumes "evict limit used (es @ [e]) = (used', es')"
    and "used = sum_list (map (\<lambda>p. nbytes (snd (snd p))) (es @ [e]))" "nbytes (snd (snd e)) \<le> limit"
  shows "\<exists>kept. es' = kept @ [e]"
  using assms
proof (induction es arbitrary: used)
  case Nil
  then show ?case by (cases e) (simp split: if_splits)
next
  case (Cons p es)
  obtain k ch a where p: "p = (k, ch, a)" by (metis prod.exhaust)
  show ?case
  proof (cases "limit < used")
    case True
    then show ?thesis using Cons.prems by (intro Cons.IH [of "used - nbytes a"]) (simp_all add: p)
  next
    case False
    then show ?thesis using Cons.prems(1) by (auto simp: p)
  qed
qed

lemma evict_suffix: "evict limit used es = (used', es') \<Longrightarrow> \<exists>gone. es = gone @ es'"
proof (induction limit used es rule: evict.induct)
  case (2 limit used k ch arrays es)
  then show ?case by (cases "limit < used") (simp, metis append_Cons, simp)
qed simp

lemma put_then_get:
  assumes "cache_valid c" "nbytes (dict_for variables (\<lambda>n. the (map_of a n))) \<le> ca_max_total_bytes c"
  shows "snd (cache_get sid v variables ch (cache_put sid v variables ch a c)) = Some (dict_for variables (\<lambda>n. the (map_of a n)))"
proof -
  let ?k = "(sid, v, variables)"
  define pay where "pay = dict_for variables (\<lambda>n. the (map_of a n))"
  define t1 where "t1 = (case map_of (ca_entries c) ?k of
       Some (_, old) \<Rightarrow> ca_total_bytes c - nbytes old | None \<Rightarrow> ca_total_bytes c)"
  obtain used es' where ev: "evict (ca_max_total_bytes c) (t1 + nbytes pay) (AList.delete ?k (ca_entries c) @ [(?k, ch, pay)]) = (used, es')"
    by fastforce
  have dist: "distinct (dict_keys (ca_entries c))" using assms(1) by (simp add: cache_valid_def)
  have t1: "t1 = sum_list (map (\<lambda>p. nbytes (snd (snd p))) (AList.delete ?k (ca_entries c)))"
    using put_total [OF assms(1), of ?k] by (simp add: t1_def)
  obtain kept where kept: "es' = kept @ [(?k, ch, pay)]"
    using evict_keeps_newest [OF ev] t1 assms(2) by (auto simp: pay_def)
  obtain gone where gone: "AList.delete ?k (ca_entries c) @ [(?k, ch, pay)] = gone @ es'"
    using evict_suffix [OF ev] by blast
  have "distinct (dict_keys (gone @ es'))" unfolding gone [symmetric] by (rule fresh_entries [OF dist])
  then have d: "distinct (dict_keys es')" by simp
  have p: "cache_put sid v variables ch a c = c\<lparr>ca_entries := es', ca_total_bytes := used\<rparr>"
    using assms(2) ev by (simp add: cache_put_def Let_def pay_def [symmetric] t1_def [symmetric])
  have "map_of es' ?k = Some (ch, pay)" using map_of_suffix [of kept "[(?k, ch, pay)]" ?k "(ch, pay)"] d by (simp add: kept)
  then show ?thesis by (simp add: cache_get_def p pay_def Let_def)
qed

lemma probe_limit: "probe sid variables versions ch n c = (c', res) \<Longrightarrow> ca_max_total_bytes c' = ca_max_total_bytes c"
proof (induction n arbitrary: c)
  case (Suc n)
  obtain c1 x where g: "cache_get sid (versions ! n) variables (take (Suc n) ch) c = (c1, x)" by fastforce
  have "ca_max_total_bytes c1 = ca_max_total_bytes c"
    using g by (auto simp: cache_get_def Let_def split: option.splits if_splits)
  then show ?case using Suc.IH [of c1] Suc.prems g by (auto split: option.splits)
qed simp

lemma put_limit: "ca_max_total_bytes (cache_put sid v variables ch a c) = ca_max_total_bytes c"
  by (simp add: cache_put_def Let_def split: prod.splits)

lemma compose_limit:
  "ca_max_total_bytes (fst (compose_current_state show lib environ st sid g variables w target extras c)) = ca_max_total_bytes c"
  by (auto simp: compose_current_state_def Let_def put_limit dest: probe_limit split: sum.splits prod.splits)

lemma composing_limit: "composing show lib grid limit st c \<Longrightarrow> ca_max_total_bytes c = limit"
  by (induction rule: composing.induct) (simp_all add: new_cache_def compose_limit)

text \<open>C40: the cache stays within its bytes and keeps what it was just given. At any point of a process
  the byte counter is the sum of the sizes of the entries and at most the limit, no key is held twice,
  and a composition that fits the limit alone is found by the next lookup under its chain.\<close>

theorem cache_bytes_bounded:
  assumes "composing show lib grid limit st c" "0 \<le> limit"
  shows "ca_total_bytes c = sum_list (map (\<lambda>p. nbytes (snd (snd p))) (ca_entries c)) \<and> ca_total_bytes c \<le> limit \<and>
    distinct (dict_keys (ca_entries c)) \<and>
    (nbytes (dict_for variables (\<lambda>n. the (map_of a n))) \<le> limit \<longrightarrow>
       snd (cache_get sid v variables ch (cache_put sid v variables ch a c)) = Some (dict_for variables (\<lambda>n. the (map_of a n))))"
proof -
  have "cache_ok c" using composing_sound [OF assms] by (simp add: lru.entries_sound_def)
  then have valid: "cache_valid c" by (simp add: cache_ok_def)
  then show ?thesis
    using put_then_get [OF valid] composing_limit [OF assms(1)] by (simp add: cache_valid_def)
qed

section \<open>A process\<close>

definition site_lib :: "(f4_array, 32 word) array_lib" where
  "site_lib = \<lparr>al_codec = f4_lib,
     al_item = (\<lambda>a t r c. f4_data a ! nat ((t * (f4_dims a ! 1) + r) * (f4_dims a ! 2) + c)), al_zero = 0\<rparr>"

definition site_grid :: "string \<Rightarrow> grid_info" where
  "site_grid sid = (2, 5, 2)"

text \<open>A workspace created with stored baseline outputs: its version 0 is published at once.\<close>

definition published_store :: store where
  "published_store = right_store (create_scenario sample_clock ''j0''
     (Some (\<lambda>_ _. (build_manifest demo_manifest, map (\<lambda>w. char_of (unat w)) demo_payload)))
     (\<lambda>_ _. sample_response) sample_create empty_store)"

lemma published_step: "store_step empty_store published_store"
proof -
  have "\<not> isl (create_scenario sample_clock ''j0''
     (Some (\<lambda>_ _. (build_manifest demo_manifest, map (\<lambda>w. char_of (unat w)) demo_payload)))
     (\<lambda>_ _. sample_response) sample_create empty_store)" by code_simp
  then show ?thesis using right_store_Inr step_create unfolding published_store_def by blast
qed

lemma published_reachable: "reachable published_store"
  unfolding reachable_def by (rule run_step [OF run_refl published_step])

text \<open>The first composition of the process fills the cache.\<close>

definition first_composition :: "32 word state_cache \<times> (compose_error + 32 word field dict)" where
  "first_composition = compose_current_state (\<lambda>_. []) site_lib [] published_store ''w'' (site_grid ''w'') [''utci'']
     \<lparr>rw_row_start = 4, rw_row_stop = 5, rw_col_start = 0, rw_col_stop = 2\<rparr> 0 [] (new_cache 1000)"

lemma first_cached: "map fst (ca_entries (fst first_composition)) = [(''w'', 0, [''utci''])]"
  by code_simp

lemma first_value: "\<not> isl (snd first_composition)"
  by code_simp

lemma process_composed: "composing (\<lambda>_. []) site_lib site_grid 1000 published_store (fst first_composition)"
  unfolding first_composition_def
  by (rule composing_call [OF composing_start [OF published_reachable], where variables = "[''utci'']"])

text \<open>The second job has a worker patch of one plane at time 1.\<close>

definition job_window :: raster_window where
  "job_window = \<lparr>rw_row_start = 4, rw_row_stop = 5, rw_col_start = 0, rw_col_stop = 2\<rparr>"

definition job_patch :: "f4_array worker_patch" where
  "job_patch = \<lparr>wp_write_window = job_window, wp_time_indices = Some [1], wp_n_time_steps = 1,
     wp_arrays = [(''utci'', \<lparr>f4_dims = [1, 1, 2], f4_data = [9, 10]\<rparr>)]\<rparr>"

definition second_composition :: "32 word state_cache \<times> (compose_error + 32 word field dict)" where
  "second_composition = compose_current_state (\<lambda>_. []) site_lib [] published_store ''w'' (site_grid ''w'') [''utci'']
     job_window 0 [job_patch] (fst first_composition)"

lemma second_value: "\<not> isl (snd second_composition)"
  by code_simp

lemma second_hit: "snd (probe ''w'' [''utci''] [0] (map rs_checksum (history_upto published_store ''w'' 0)) 1 (fst first_composition)) \<noteq> None"
  by code_simp

lemma demo_publications:
  "\<forall>p\<in>set (map (decoded (\<lambda>_. []) site_lib) (history_upto published_store ''w'' 0) @ map worker_publication [job_patch]).
     on_site site_lib (2, 5, 2) p"
  by code_simp

lemma demo_newest:
  "newest site_lib 2 (map (decoded (\<lambda>_. []) site_lib) (history_upto published_store ''w'' 0) @ map worker_publication [job_patch])
     ''utci'' 0 4 0 = 5"
  "newest site_lib 2 (map (decoded (\<lambda>_. []) site_lib) (history_upto published_store ''w'' 0) @ map worker_publication [job_patch])
     ''utci'' 1 4 0 = 9"
  by code_simp+

theorem cached_composition_is_fresh_witness:
  "map fst (ca_entries (fst first_composition)) = [(''w'', 0, [''utci''])] \<and>
   snd second_composition = snd (compose_current_state (\<lambda>_. []) site_lib [] published_store ''w'' (site_grid ''w'') [''utci'']
     job_window 0 [job_patch] (new_cache 0))"
  using first_cached cached_composition_is_fresh [OF process_composed, of 0 "[]" "''w''" "[''utci'']" job_window 0 "[job_patch]"]
  unfolding second_composition_def by simp


theorem cache_bytes_bounded_witness:
  "ca_total_bytes (fst first_composition) = 80 \<and> ca_total_bytes (fst first_composition) \<le> 1000"
proof -
  have "ca_total_bytes (fst first_composition) = 80" by code_simp
  then show ?thesis using cache_bytes_bounded [OF process_composed] by simp
qed

end
