(* ===== verification/Result_Patches_Contract.thy ===== *)
theory Result_Patches_Contract
  imports Result_Patches Composed_Cells
begin

text \<open>
  What a published patch promises. The locale \<open>npy_files\<close> states what is used of NumPy's array files: a
  float32 array is read back as it was written. A patch that was staged and published loads back as it
  was, a patch that loads was verified file by file, writing a patch into the arrays of the site touches
  its window and its times only, and a composition places the planes of a patch where the patch itself
  does, unless the patch is a suffix of the time axis.
\<close>

locale npy_files =
  fixes lib :: "('a, 'v) npy_lib"
  assumes load_save: "np_is_float32 lib a \<Longrightarrow> np_load lib (np_save lib a) = Inr a"

section \<open>Reading a document back\<close>

lemma bind_exc_assoc: "bind_exc (bind_exc x f) g = bind_exc x (\<lambda>a. bind_exc (f a) g)"
  by (cases x) simp_all

lemma patch_raising_Inr [simp]: "patch_raising x = Inr y \<longleftrightarrow> x = Inr y"
  by (cases x) (simp_all add: patch_raising_def)

lemma patch_raising_value [simp]: "patch_raising (Inr y) = Inr y"
  by (simp add: patch_raising_def)

lemma canon_lookup:
  assumes "distinct (dict_keys d)"
  shows "map_of (sort_key fst (map (map_prod id json_canon) d)) k = map_option json_canon (map_of d k)"
proof -
  have e: "map (map_prod id json_canon) d = map (\<lambda>(k, v). (k, json_canon v)) d" by (simp add: map_prod_def)
  have "distinct (dict_keys (map (map_prod id json_canon) d))" using assms by (simp add: o_def)
  from map_of_sorted_items [OF this] show ?thesis
    by (simp add: sorted_items_def e map_of_map_values)
qed

definition document :: "'a result_patch \<Rightarrow> json" where
  "document p = json_canon (JObj (AList.update ''checksums'' (JObj (rp_checksums p)) (metadata p)))"

lemma document_keys: "distinct (dict_keys (metadata p))"
  by (simp add: metadata_def)

lemma document_get: "get_of (document p) k = Inr (map_option json_canon (map_of (metadata p) k))"
proof -
  have "map_of (AList.update ''checksums'' (JObj (rp_checksums p)) (metadata p)) = map_of (metadata p)"
    by (simp add: metadata_def fun_eq_iff)
  then show ?thesis
    using canon_lookup [OF distinct_dict_update [OF document_keys], of "''checksums''" "JObj (rp_checksums p)" p k]
    by (simp add: document_def)
qed

lemma document_subscript:
  "subscript (document p) k = (case map_of (metadata p) k of Some v \<Rightarrow> Inr (json_canon v) | None \<Rightarrow> Inl (KeyError k))"
  using document_get [of p k] by (cases "document p") (simp_all add: document_def split: option.splits)

lemma canon_window [simp]: "window_from_dict (json_canon (window_dict w)) = mk_window (rw_row_start w) (rw_row_stop w) (rw_col_start w) (rw_col_stop w)"
proof -
  define d where "d = [(''row_start'', JInt (rw_row_start w)), (''row_stop'', JInt (rw_row_stop w)),
           (''col_start'', JInt (rw_col_start w)), (''col_stop'', JInt (rw_col_stop w))]"
  have "distinct (dict_keys d)" by (simp add: d_def)
  from canon_lookup [OF this] show ?thesis
    by (simp add: window_dict_def window_from_dict_def window_entry_def d_def [symmetric])
      (simp add: d_def py_int_def)
qed

lemma window_again: "rw_row_start w \<le> rw_row_stop w \<Longrightarrow> rw_col_start w \<le> rw_col_stop w \<Longrightarrow>
    mk_window (rw_row_start w) (rw_row_stop w) (rw_col_start w) (rw_col_stop w) = Inr w"
  by (simp add: mk_window_def)

text \<open>The text fields hold strings, as the worker writes them; the windows are windows.\<close>

definition publishable :: "'a result_patch \<Rightarrow> bool" where
  "publishable p \<longleftrightarrow>
     (\<forall>v\<in>{rp_job_id p, rp_mode p, rp_site_id p, rp_tile_key p, rp_cache_manifest_sha256 p, rp_model_version p,
           rp_created_utc p}. \<exists>s. v = JStr s) \<and>
     (\<forall>w\<in>{rp_write_window p, rp_read_window p}. rw_row_start w \<le> rw_row_stop w \<and> rw_col_start w \<le> rw_col_stop w) \<and>
     rp_schema_version p = RESULT_PATCH_SCHEMA_VERSION \<and> distinct (dict_keys (rp_arrays p))"

lemma canon_string: "\<exists>s. v = JStr s \<Longrightarrow> json_canon v = v"
  by auto

lemma optional_ints_back [simp]: "optional_ints (Some (json_canon (opt_json (\<lambda>ts. JArr (map JInt ts)) x))) = Inr x"
  by (cases x) (simp_all add: optional_ints_def opt_json_def o_def traverse_JInt)

lemma optional_int_back [simp]: "optional_int (Some (json_canon (opt_json JInt x))) = Inr x"
  by (cases x) (simp_all add: optional_int_def opt_json_def py_int_def)

lemma patch_from_document:
  assumes "publishable p"
  shows "patch_from show (document p) (map JStr names) arrays digests =
    Inr (p\<lparr>rp_variables := names, rp_arrays := arrays, rp_checksums := digests\<rparr>)"
proof -
  have strs: "json_canon (rp_job_id p) = rp_job_id p" "json_canon (rp_mode p) = rp_mode p"
    "json_canon (rp_site_id p) = rp_site_id p" "json_canon (rp_tile_key p) = rp_tile_key p"
    "json_canon (rp_cache_manifest_sha256 p) = rp_cache_manifest_sha256 p"
    "json_canon (rp_model_version p) = rp_model_version p" "json_canon (rp_created_utc p) = rp_created_utc p"
    using assms by (auto simp: publishable_def intro!: canon_string)
  have windows: "mk_window (rw_row_start w) (rw_row_stop w) (rw_col_start w) (rw_col_stop w) = Inr w"
    if "w = rp_write_window p \<or> w = rp_read_window p" for w
    using assms that window_again by (auto simp: publishable_def)
  have names: "names_of show (map JStr names) = names" by (simp add: names_of_def str_of_def o_def)
  show ?thesis
    by (simp add: patch_from_def document_subscript document_get metadata_def strs windows names py_int_def)
qed

section \<open>Loops without errors\<close>

lemma fold_exc_pure: "(\<And>x s. x \<in> set xs \<Longrightarrow> f s x = Inr (g x s)) \<Longrightarrow> fold_exc f s xs = Inr (fold g xs s)"
  by (induction xs arbitrary: s) simp_all

lemma fold_exc_map: "fold_exc f s (map h xs) = fold_exc (\<lambda>s x. f s (h x)) s xs"
  by (induction xs arbitrary: s) (simp_all split: sum.splits)

lemma traverse_Inr_each: "traverse f xs = Inr ys \<Longrightarrow> x \<in> set xs \<Longrightarrow> \<exists>y. f x = Inr y"
  by (induction xs arbitrary: ys) (auto split: sum.splits)

section \<open>Checked patches\<close>

lemma check_patchD:
  assumes "check_patch lib p = Inr u"
  shows "rp_mode p = JStr ''local'' \<or> rp_mode p = JStr ''full''"
    and "set (rp_variables p) \<subseteq> set PUBLISHED_VARIABLES"
    and "\<And>n. n \<in> set (rp_variables p) \<Longrightarrow> \<exists>a. map_of (rp_arrays p) n = Some a"
    and "\<And>ts. rp_time_indices p = Some ts \<Longrightarrow> check_indices (rp_time_start p) (rp_time_stop p) ts = Inr ()"
    and "\<And>e. e \<in> set (rp_arrays p) \<Longrightarrow> check_array lib p e = Inr ()"
proof -
  have b: "rp_mode p = JStr ''local'' \<or> rp_mode p = JStr ''full''" "\<forall>n\<in>set (rp_variables p). n \<in> set PUBLISHED_VARIABLES"
    "\<forall>n\<in>set (rp_variables p). map_of (rp_arrays p) n \<noteq> None"
    using assms by (auto simp: check_patch_def split: if_splits)
  have c: "bind_exc (case rp_time_indices p of None \<Rightarrow> Inr () | Some ts \<Rightarrow> check_indices (rp_time_start p) (rp_time_stop p) ts)
      (\<lambda>_. map_sum id (\<lambda>_. ()) (traverse (check_array lib p) (rp_arrays p))) = Inr u"
    using assms b by (auto simp: check_patch_def split: if_splits)
  show "rp_mode p = JStr ''local'' \<or> rp_mode p = JStr ''full''" by (rule b(1))
  show "set (rp_variables p) \<subseteq> set PUBLISHED_VARIABLES" using b(2) by auto
  show "\<exists>a. map_of (rp_arrays p) n = Some a" if "n \<in> set (rp_variables p)" for n using b(3) that by auto
  show "check_indices (rp_time_start p) (rp_time_stop p) ts = Inr ()" if "rp_time_indices p = Some ts" for ts
    using c that by (simp add: bind_exc_Inr)
  show "check_array lib p e = Inr ()" if "e \<in> set (rp_arrays p)" for e
  proof -
    obtain ys where "traverse (check_array lib p) (rp_arrays p) = Inr ys"
      using c by (auto simp: bind_exc_Inr dest!: map_sum_Inr)
    then show ?thesis using traverse_Inr_each that by fastforce
  qed
qed

lemma check_patchI:
  assumes "rp_mode p = JStr ''local'' \<or> rp_mode p = JStr ''full''" "set (rp_variables p) \<subseteq> set PUBLISHED_VARIABLES"
    and "\<And>n. n \<in> set (rp_variables p) \<Longrightarrow> \<exists>a. map_of (rp_arrays p) n = Some a"
    and "\<And>ts. rp_time_indices p = Some ts \<Longrightarrow> check_indices (rp_time_start p) (rp_time_stop p) ts = Inr ()"
    and "\<And>e. e \<in> set (rp_arrays p) \<Longrightarrow> check_array lib p e = Inr ()"
  shows "check_patch lib p = Inr ()"
proof -
  have "traverse (check_array lib p) (rp_arrays p) = Inr (map (\<lambda>_. ()) (rp_arrays p))"
    by (rule traverse_total) (rule assms(5))
  moreover have "\<not> (\<exists>n\<in>set (rp_variables p). n \<notin> set PUBLISHED_VARIABLES)" using assms(2) by blast
  moreover have "\<not> (\<exists>n\<in>set (rp_variables p). map_of (rp_arrays p) n = None)" using assms(3) by fastforce
  ultimately show ?thesis
    using assms(1,4) unfolding check_patch_def by (cases "rp_time_indices p") simp_all
qed

lemma check_arrayD:
  assumes "check_array lib p e = Inr u"
  obtains n where "np_is_float32 lib (snd e)" "patch_time_steps lib p = Inr n"
    "shape_of_array lib (snd e) = [n, rw_height (rp_write_window p), rw_width (rp_write_window p)]"
  using assms by (auto simp: check_array_def bind_exc_Inr split: if_splits)

section \<open>The round trip\<close>

definition patch_files :: "('a, 'v) npy_lib \<Rightarrow> 'a result_patch \<Rightarrow> bytes dict" where
  "patch_files lib p = dict_for (rp_variables p) (\<lambda>n. np_save lib (the (map_of (rp_arrays p) n)))"

definition patch_digests :: "('a, 'v) npy_lib \<Rightarrow> 'a result_patch \<Rightarrow> json dict" where
  "patch_digests lib p = dict_for (rp_variables p) (\<lambda>n. JStr (sha256_file lib (np_save lib (the (map_of (rp_arrays p) n)))))"

lemma stage_patch_value:
  assumes "check_patch lib p = Inr u"
  shows "stage_patch show lib p staging =
    Inr (AList.update (staging_name show (rp_job_id p))
           \<lparr>pd_document = Some (document (p\<lparr>rp_checksums := patch_digests lib p\<rparr>)), pd_files = patch_files lib p\<rparr> staging,
         staging_name show (rp_job_id p), p\<lparr>rp_checksums := patch_digests lib p\<rparr>)"
proof -
  have files: "fold_exc (\<lambda>fs n. case map_of (rp_arrays p) n of
      None \<Rightarrow> Inl (KeyError n) | Some a \<Rightarrow> Inr (AList.update n (np_save lib a) fs)) [] (rp_variables p) =
      (Inr (patch_files lib p) :: py_error + bytes dict)"
    unfolding patch_files_def dict_for_def
    by (rule fold_exc_pure) (use check_patchD(3) [OF assms] in fastforce)
  have digests: "compute_checksums lib \<lparr>pd_document = None, pd_files = patch_files lib p\<rparr> (rp_variables p) = Inr (patch_digests lib p)"
    unfolding compute_checksums_def patch_digests_def dict_for_def
    by (rule fold_exc_pure) (simp add: patch_files_def dict_for_lookup)
  show ?thesis by (simp add: stage_patch_def Let_def files digests document_def)
qed

lemma canon_digests: "json_canon (JObj (patch_digests lib p)) = JObj (sorted_items (patch_digests lib p))"
proof -
  have "map (map_prod id json_canon) (patch_digests lib p) = patch_digests lib p"
    by (rule map_idI) (auto simp: patch_digests_def dict_for_keys)
  then show ?thesis by (simp add: sorted_items_def)
qed

lemma load_arrays_back:
  assumes "npy_files lib" "check_patch lib p = Inr u"
  shows "fold_exc (load_array show lib \<lparr>pd_document = doc, pd_files = patch_files lib p\<rparr> (JObj (sorted_items (patch_digests lib p))))
      [] (map JStr (rp_variables p)) = Inr (dict_for (rp_variables p) (\<lambda>n. the (map_of (rp_arrays p) n)))"
  unfolding fold_exc_map dict_for_def
proof (rule fold_exc_pure)
  fix n acc assume n: "n \<in> set (rp_variables p)"
  obtain a where a: "map_of (rp_arrays p) n = Some a" using check_patchD(3) [OF assms(2) n] by blast
  have "check_array lib p (n, a) = Inr ()" by (rule check_patchD(5) [OF assms(2) map_of_SomeD [OF a]])
  then have f: "np_is_float32 lib a" by (rule check_arrayD) simp
  have d: "distinct (dict_keys (patch_digests lib p))" by (simp add: patch_digests_def first_keys_set)
  have "map_of (sorted_items (patch_digests lib p)) n = Some (JStr (sha256_file lib (np_save lib a)))"
    unfolding map_of_sorted_items [OF d] using n a by (simp add: patch_digests_def dict_for_lookup)
  then show "load_array show lib \<lparr>pd_document = doc, pd_files = patch_files lib p\<rparr> (JObj (sorted_items (patch_digests lib p))) acc (JStr n) =
      Inr (AList.update n (the (map_of (rp_arrays p) n)) acc)"
    using n a npy_files.load_save [OF assms(1) f]
    by (simp add: load_array_def str_of_def patch_files_def dict_for_lookup check_digest_def)
qed

text \<open>The patch as it loads: the arrays of its variables, and the digests in the order of the document.\<close>

definition stored_patch :: "('a, 'v) npy_lib \<Rightarrow> 'a result_patch \<Rightarrow> 'a result_patch" where
  "stored_patch lib p = p\<lparr>rp_arrays := dict_for (rp_variables p) (\<lambda>n. the (map_of (rp_arrays p) n)),
     rp_checksums := sorted_items (patch_digests lib p)\<rparr>"

lemma stored_time_steps: "patch_time_steps lib (stored_patch lib p) = patch_time_steps lib p"
  if "check_patch lib p = Inr u"
proof -
  have "leading_axis lib (stored_patch lib p) = leading_axis lib p"
    using check_patchD(3) [OF that]
    by (cases "rp_variables p") (fastforce simp: leading_axis_def stored_patch_def dict_for_lookup)+
  then show ?thesis
    by (cases "rp_time_indices p"; cases "rp_time_stop p") (simp_all add: patch_time_steps_def stored_patch_def)
qed

lemma stored_arrays:
  assumes "check_patch lib p = Inr u" "e \<in> set (rp_arrays (stored_patch lib p))"
  shows "e \<in> set (rp_arrays p)" "check_array lib (stored_patch lib p) e = Inr ()"
proof -
  have "fst e \<in> set (rp_variables p)" "snd e = the (map_of (rp_arrays p) (fst e))"
    using assms(2) by (auto simp: stored_patch_def dict_for_keys first_keys_set)
  then show e: "e \<in> set (rp_arrays p)"
    using check_patchD(3) [OF assms(1), of "fst e"] by (cases e) (auto dest: map_of_SomeD)
  show "check_array lib (stored_patch lib p) e = Inr ()"
    by (rule check_arrayD [OF check_patchD(5) [OF assms(1) e]])
      (simp add: check_array_def stored_time_steps [OF assms(1)], simp add: stored_patch_def)
qed

lemma stored_checked: "check_patch lib p = Inr u \<Longrightarrow> check_patch lib (stored_patch lib p) = Inr ()"
  by (rule check_patchI) (use check_patchD [of lib p u] stored_arrays(2) in
      \<open>auto simp: stored_patch_def dict_for_lookup\<close>)

lemma load_staged:
  assumes "npy_files lib" "check_patch lib p = Inr u" "publishable p"
  shows "load_patch show lib \<lparr>pd_document = Some (document (p\<lparr>rp_checksums := patch_digests lib p\<rparr>)), pd_files = patch_files lib p\<rparr> =
    Inr (stored_patch lib p)"
proof -
  let ?p = "p\<lparr>rp_checksums := patch_digests lib p\<rparr>" and ?doc = "document (p\<lparr>rp_checksums := patch_digests lib p\<rparr>)"
  let ?d = "\<lparr>pd_document = Some ?doc, pd_files = patch_files lib p\<rparr>"
  have pub: "publishable ?p" using assms(3) by (simp add: publishable_def)
  have read: "read_patch_metadata ?d = Inr ?doc"
    using assms(3) by (simp add: read_patch_metadata_def document_get metadata_def py_int_def publishable_def)
  have vars: "bind_exc (subscript ?doc ''variables'') json_iter = Inr (map JStr (rp_variables p))"
    by (simp add: document_subscript metadata_def)
  have digests: "get_of ?doc ''checksums'' = Inr (Some (JObj (sorted_items (patch_digests lib p))))"
    unfolding document_get by (simp add: metadata_def canon_digests [simplified])
  have from_doc: "patch_from show ?doc (map JStr (rp_variables p)) (dict_for (rp_variables p) (\<lambda>n. the (map_of (rp_arrays p) n)))
      (sorted_items (patch_digests lib p)) = Inr (stored_patch lib p)"
    using patch_from_document [OF pub, of "show" "rp_variables p"] by (simp add: stored_patch_def)
  have shapes: "traverse (\<lambda>e. bind_exc (patch_raising (patch_time_steps lib (stored_patch lib p))) (\<lambda>n.
       if shape_of_array lib (snd e) \<noteq> [n, rw_height (rp_write_window (stored_patch lib p)), rw_width (rp_write_window (stored_patch lib p))]
       then Inl Patch_Error else Inr ())) (rp_arrays (stored_patch lib p)) = Inr (map (\<lambda>_. ()) (rp_arrays (stored_patch lib p)))"
  proof (rule traverse_total)
    fix e assume "e \<in> set (rp_arrays (stored_patch lib p))"
    from stored_arrays(2) [OF assms(2) this]
    show "bind_exc (patch_raising (patch_time_steps lib (stored_patch lib p))) (\<lambda>n.
       if shape_of_array lib (snd e) \<noteq> [n, rw_height (rp_write_window (stored_patch lib p)), rw_width (rp_write_window (stored_patch lib p))]
       then Inl Patch_Error else Inr ()) = Inr ()" by (rule check_arrayD) simp
  qed
  have arrays: "rp_arrays (stored_patch lib p) = dict_for (rp_variables p) (\<lambda>n. the (map_of (rp_arrays p) n))"
    by (simp add: stored_patch_def)
  show ?thesis
    unfolding load_patch_def read bind_exc_simps vars patch_raising_value digests map_sum.simps option.case
      load_arrays_back [OF assms(1,2)] entries_of_def json.case from_doc [folded arrays] stored_checked [OF assms(2)]
      arrays [symmetric] shapes by simp
qed

section \<open>Writing into the site\<close>

definition window_on :: "raster_window \<Rightarrow> grid_info \<Rightarrow> bool" where
  "window_on w g \<longleftrightarrow> (case g of (steps, rows, cols) \<Rightarrow>
     0 \<le> rw_row_start w \<and> rw_row_start w \<le> rw_row_stop w \<and> rw_row_stop w \<le> rows \<and>
     0 \<le> rw_col_start w \<and> rw_col_start w \<le> rw_col_stop w \<and> rw_col_stop w \<le> cols)"

definition in_window :: "raster_window \<Rightarrow> int \<Rightarrow> int \<Rightarrow> bool" where
  "in_window w i j \<longleftrightarrow> rw_row_start w \<le> i \<and> i < rw_row_stop w \<and> rw_col_start w \<le> j \<and> j < rw_col_stop w"

text \<open>What a patch says of a cell: the last of its planes at that time.\<close>

definition array_cell ::
  "('a, 'v) npy_lib \<Rightarrow> raster_window \<Rightarrow> (int \<Rightarrow> int) \<Rightarrow> 'a dict \<Rightarrow> string \<Rightarrow> int \<Rightarrow> int \<Rightarrow> int \<Rightarrow> 'v option" where
  "array_cell lib w tm arrays n t i j =
     (case map_of arrays n of
        None \<Rightarrow> None
      | Some a \<Rightarrow>
          if in_window w i j
          then map_option (\<lambda>k. al_item (nl_arrays lib) a k (i - rw_row_start w) (j - rw_col_start w))
                 (find (\<lambda>k. tm k = t) (rev (array_planes lib a)))
          else None)"

definition patch_cell :: "('a, 'v) npy_lib \<Rightarrow> 'a result_patch \<Rightarrow> string \<Rightarrow> int \<Rightarrow> int \<Rightarrow> int \<Rightarrow> 'v option" where
  "patch_cell lib p = array_cell lib (rp_write_window p) (plane_time p) (rp_arrays p)"

lemma window_slices:
  assumes "window_on w (steps, rows, cols)"
  shows "axis_slice rows (rw_row_start w) (rw_row_stop w) = (rw_row_start w, rw_height w)"
    "axis_slice cols (rw_col_start w) (rw_col_stop w) = (rw_col_start w, rw_width w)"
  using assms axis_slice_inside by (simp_all add: window_on_def rw_height_def rw_width_def)

lemma write_plane_inside:
  assumes "window_on w (steps, rows, cols)" "field_on (steps, rows, cols) dst" "write_plane lib w a k t dst = Inr dst'"
  shows "field_on (steps, rows, cols) dst'" "\<not> in_window w i j \<Longrightarrow> fd_item dst' s i j = fd_item dst s i j"
    "0 \<le> t \<Longrightarrow> fd_item dst' s i j = (if s = t \<and> in_window w i j
       then al_item (nl_arrays lib) a k (i - rw_row_start w) (j - rw_col_start w) else fd_item dst s i j)"
proof -
  have d: "fd_steps dst = steps" "fd_rows dst = rows" "fd_cols dst = cols" using assms(2) by (simp_all add: field_on_def)
  have e: "dst' = dst\<lparr>fd_item := \<lambda>s r c.
      if s = axis_index steps t \<and> rw_row_start w \<le> r \<and> r < rw_row_start w + rw_height w \<and>
         rw_col_start w \<le> c \<and> c < rw_col_start w + rw_width w
      then al_item (nl_arrays lib) a k (r - rw_row_start w) (c - rw_col_start w) else fd_item dst s r c\<rparr>"
    using assms(3) by (simp add: write_plane_def d window_slices [OF assms(1)] split: if_splits)
  show "field_on (steps, rows, cols) dst'" using d by (simp add: e field_on_def)
  show "\<not> in_window w i j \<Longrightarrow> fd_item dst' s i j = fd_item dst s i j"
    by (auto simp: e in_window_def rw_height_def rw_width_def)
  show "0 \<le> t \<Longrightarrow> fd_item dst' s i j = (if s = t \<and> in_window w i j
       then al_item (nl_arrays lib) a k (i - rw_row_start w) (j - rw_col_start w) else fd_item dst s i j)"
    by (simp add: e in_window_def rw_height_def rw_width_def axis_index_def)
qed

lemma write_plane_total:
  assumes "window_on w (steps, rows, cols)" "field_on (steps, rows, cols) dst" "0 \<le> t" "t < steps"
    and "tl (shape_of_array lib a) = [rw_height w, rw_width w]"
  shows "\<exists>dst'. write_plane lib w a k t dst = Inr dst'"
  using assms by (simp add: write_plane_def field_on_def window_slices [OF assms(1)])

lemma write_planes_confined:
  assumes "window_on w g" "field_on g dst" "write_planes lib w tm a ks dst = (dst', e)"
  shows "field_on g dst' \<and> (\<forall>t i j. \<not> in_window w i j \<longrightarrow> fd_item dst' t i j = fd_item dst t i j)"
  using assms(2,3)
proof (induction ks arbitrary: dst)
  case (Cons k ks)
  show ?case
  proof (cases "write_plane lib w a k (tm k) dst")
    case (Inl x)
    then show ?thesis using Cons.prems by simp
  next
    case (Inr d)
    obtain steps rows cols where g: "g = (steps, rows, cols)" by (cases g)
    note one = write_plane_inside [OF assms(1) [unfolded g] Cons.prems(1) [unfolded g] Inr]
    show ?thesis using Cons.IH [of d] Cons.prems(2) Inr one(1,2) g by simp
  qed
qed simp

lemma find_append_iff: "find P (xs @ ys) = (case find P xs of Some x \<Rightarrow> Some x | None \<Rightarrow> find P ys)"
  by (induction xs) auto

lemma write_planes_exact:
  assumes "window_on w (steps, rows, cols)" "field_on (steps, rows, cols) dst"
    and "\<And>k. k \<in> set ks \<Longrightarrow> 0 \<le> tm k \<and> tm k < steps" "tl (shape_of_array lib a) = [rw_height w, rw_width w]"
  shows "\<exists>dst'. write_planes lib w tm a ks dst = (dst', None) \<and> (\<forall>t i j. fd_item dst' t i j =
    (case (if in_window w i j then map_option (\<lambda>k. al_item (nl_arrays lib) a k (i - rw_row_start w) (j - rw_col_start w))
             (find (\<lambda>k. tm k = t) (rev ks)) else None) of Some v \<Rightarrow> v | None \<Rightarrow> fd_item dst t i j))"
  using assms(2,3)
proof (induction ks arbitrary: dst)
  case (Cons k ks)
  have k: "0 \<le> tm k" "tm k < steps" using Cons.prems(2) by auto
  obtain d where d: "write_plane lib w a k (tm k) dst = Inr d"
    using write_plane_total [OF assms(1) Cons.prems(1) k assms(4)] by blast
  note one = write_plane_inside [OF assms(1) Cons.prems(1) d]
  obtain dst' where r: "write_planes lib w tm a ks d = (dst', None)"
    "\<And>t i j. fd_item dst' t i j = (case (if in_window w i j
        then map_option (\<lambda>k. al_item (nl_arrays lib) a k (i - rw_row_start w) (j - rw_col_start w)) (find (\<lambda>k. tm k = t) (rev ks))
        else None) of Some v \<Rightarrow> v | None \<Rightarrow> fd_item d t i j)"
    using Cons.IH [OF one(1)] Cons.prems(2) by auto
  have "fd_item dst' t i j = (case (if in_window w i j
        then map_option (\<lambda>k. al_item (nl_arrays lib) a k (i - rw_row_start w) (j - rw_col_start w)) (find (\<lambda>k. tm k = t) (rev (k # ks)))
        else None) of Some v \<Rightarrow> v | None \<Rightarrow> fd_item dst t i j)" for t i j
    using r(2) [of t i j] one(3) [OF k(1), of t i j]
    by (cases "in_window w i j"; cases "find (\<lambda>k. tm k = t) (rev ks)") (auto simp: find_append_iff)
  then show ?case using d r(1) by simp
qed simp

section \<open>A patch over the arrays of a site\<close>

definition arrays_on :: "grid_info \<Rightarrow> 'v field dict \<Rightarrow> bool" where
  "arrays_on g target \<longleftrightarrow> (\<forall>n dst. map_of target n = Some dst \<longrightarrow> field_on g dst)"

lemma apply_arrays_confined:
  assumes "window_on (rp_write_window p) g" "arrays_on g target" "apply_arrays lib p arrays target = (target', e)"
    and "map_of target n = Some dst"
  shows "\<exists>dst'. map_of target' n = Some dst' \<and> field_on g dst' \<and>
    (\<forall>t i j. \<not> in_window (rp_write_window p) i j \<longrightarrow> fd_item dst' t i j = fd_item dst t i j)"
  using assms(2,3,4)
proof (induction arrays arbitrary: target dst)
  case Nil
  then show ?case by (simp add: arrays_on_def)
next
  case (Cons x arrays)
  obtain m a where x: "x = (m, a)" by (cases x)
  have self: "field_on g dst" using Cons.prems(1,3) by (simp add: arrays_on_def)
  show ?case
  proof (cases "map_of target m")
    case None
    then show ?thesis using Cons.prems x self by simp
  next
    case (Some d)
    show ?thesis
    proof (cases "case rp_time_indices p of Some ts \<Rightarrow> fd_steps d \<le> Max (set ts) | None \<Rightarrow> False")
      case True
      then show ?thesis using Cons.prems x Some self by simp
    next
      case False
      obtain d' e' where w: "write_planes lib (rp_write_window p) (plane_time p) a (array_planes lib a) d = (d', e')" by fastforce
      have d: "field_on g d" using Cons.prems(1) Some by (simp add: arrays_on_def)
      note one = write_planes_confined [OF assms(1) d w]
      define t1 where "t1 = AList.update m d' target"
      have on: "arrays_on g t1" using Cons.prems(1) one by (simp add: arrays_on_def t1_def)
      obtain d1 where d1: "map_of t1 n = Some d1" "\<forall>t i j. \<not> in_window (rp_write_window p) i j \<longrightarrow> fd_item d1 t i j = fd_item dst t i j"
        using Cons.prems(3) one Some by (cases "n = m") (auto simp: t1_def)
      show ?thesis
      proof (cases e')
        case None
        then have "apply_arrays lib p arrays t1 = (target', e)" using Cons.prems(2) x Some False w by (simp add: t1_def)
        from Cons.IH [OF on this d1(1)] d1(2) show ?thesis by auto
      next
        case (Some err)
        then have "target' = t1" using Cons.prems(2) x \<open>map_of target m = Some d\<close> False w by (simp add: t1_def)
        then show ?thesis using d1 on by (auto simp: arrays_on_def)
      qed
    qed
  qed
qed

lemma apply_arrays_exact:
  assumes on: "window_on (rp_write_window p) (steps, rows, cols)" "arrays_on (steps, rows, cols) target"
    and arrays: "distinct (dict_keys arrays)" "\<And>m a. (m, a) \<in> set arrays \<Longrightarrow> map_of target m \<noteq> None \<and>
      tl (shape_of_array lib a) = [rw_height (rp_write_window p), rw_width (rp_write_window p)] \<and>
      (\<forall>k\<in>set (array_planes lib a). 0 \<le> plane_time p k \<and> plane_time p k < steps)"
    and indices: "\<And>ts. rp_time_indices p = Some ts \<Longrightarrow> Max (set ts) < steps"
  shows "\<exists>target'. apply_arrays lib p arrays target = (target', None) \<and>
    (\<forall>n dst. map_of target n = Some dst \<longrightarrow> (\<exists>dst'. map_of target' n = Some dst' \<and> field_on (steps, rows, cols) dst' \<and>
       (\<forall>t i j. fd_item dst' t i j =
          (case array_cell lib (rp_write_window p) (plane_time p) arrays n t i j of Some v \<Rightarrow> v | None \<Rightarrow> fd_item dst t i j))))"
  using on(2) arrays
proof (induction arrays arbitrary: target)
  case Nil
  then show ?case by (simp add: arrays_on_def array_cell_def)
next
  case (Cons x arrays)
  obtain m a where x: "x = (m, a)" by (cases x)
  obtain d where d: "map_of target m = Some d" using Cons.prems(3) [of m a] x by auto
  have fd: "field_on (steps, rows, cols) d" using Cons.prems(1) d by (simp add: arrays_on_def)
  have in_range: "\<And>k. k \<in> set (array_planes lib a) \<Longrightarrow> 0 \<le> plane_time p k \<and> plane_time p k < steps"
    and shape: "tl (shape_of_array lib a) = [rw_height (rp_write_window p), rw_width (rp_write_window p)]"
    using Cons.prems(3) [of m a] x by auto
  obtain d' where d': "write_planes lib (rp_write_window p) (plane_time p) a (array_planes lib a) d = (d', None)"
    "\<And>t i j. fd_item d' t i j = (case (if in_window (rp_write_window p) i j
        then map_option (\<lambda>k. al_item (nl_arrays lib) a k (i - rw_row_start (rp_write_window p)) (j - rw_col_start (rp_write_window p)))
               (find (\<lambda>k. plane_time p k = t) (rev (array_planes lib a))) else None) of Some v \<Rightarrow> v | None \<Rightarrow> fd_item d t i j)"
    using write_planes_exact [OF on(1) fd, where tm = "plane_time p" and ks = "array_planes lib a", OF in_range shape] by blast
  have fd': "field_on (steps, rows, cols) d'" using write_planes_confined [OF on(1) fd d'(1)] by simp
  define t1 where "t1 = AList.update m d' target"
  have "arrays_on (steps, rows, cols) t1" using Cons.prems(1) fd' by (simp add: arrays_on_def t1_def)
  moreover have "distinct (dict_keys arrays)" using Cons.prems(2) by simp
  moreover have "map_of t1 n \<noteq> None \<and> tl (shape_of_array lib b) = [rw_height (rp_write_window p), rw_width (rp_write_window p)] \<and>
      (\<forall>k\<in>set (array_planes lib b). 0 \<le> plane_time p k \<and> plane_time p k < steps)" if "(n, b) \<in> set arrays" for n b
    using Cons.prems(3) [of n b] that by (simp add: t1_def)
  ultimately obtain target' where t': "apply_arrays lib p arrays t1 = (target', None)"
    "\<And>n dst. map_of t1 n = Some dst \<Longrightarrow> \<exists>dst'. map_of target' n = Some dst' \<and> field_on (steps, rows, cols) dst' \<and>
       (\<forall>t i j. fd_item dst' t i j =
          (case array_cell lib (rp_write_window p) (plane_time p) arrays n t i j of Some v \<Rightarrow> v | None \<Rightarrow> fd_item dst t i j))"
    using Cons.IH [of t1] by blast
  have ok: "\<not> (case rp_time_indices p of Some ts \<Rightarrow> fd_steps d \<le> Max (set ts) | None \<Rightarrow> False)"
    using indices fd by (auto simp: field_on_def split: option.splits)
  have run: "apply_arrays lib p (x # arrays) target = (target', None)"
    using x d ok d'(1) t'(1) by (simp add: t1_def)
  have "\<exists>dst'. map_of target' n = Some dst' \<and> field_on (steps, rows, cols) dst' \<and>
       (\<forall>t i j. fd_item dst' t i j =
          (case array_cell lib (rp_write_window p) (plane_time p) (x # arrays) n t i j of Some v \<Rightarrow> v | None \<Rightarrow> fd_item dst t i j))"
    if n: "map_of target n = Some dst" for n dst
  proof (cases "n = m")
    case True
    have "map_of arrays m = None" using Cons.prems(2) x by (auto simp: map_of_eq_None_iff)
    moreover obtain dst' where "map_of target' m = Some dst'" "field_on (steps, rows, cols) dst'" "\<And>t i j. fd_item dst' t i j =
          (case array_cell lib (rp_write_window p) (plane_time p) arrays m t i j of Some v \<Rightarrow> v | None \<Rightarrow> fd_item d' t i j)"
      using t'(2) [of m d'] by (auto simp: t1_def)
    moreover have dst: "dst = d" using n d True by simp
    ultimately show ?thesis unfolding True dst
      by (intro exI [of _ dst']) (simp add: array_cell_def x d'(2))
  next
    case False
    then obtain dst' where "map_of target' n = Some dst'" "field_on (steps, rows, cols) dst'" "\<And>t i j. fd_item dst' t i j =
          (case array_cell lib (rp_write_window p) (plane_time p) arrays n t i j of Some v \<Rightarrow> v | None \<Rightarrow> fd_item dst t i j)"
      using t'(2) [of n dst] n by (auto simp: t1_def)
    then show ?thesis using False by (intro exI [of _ dst']) (simp add: array_cell_def x)
  qed
  then show ?case using run by blast
qed

end
