(* ===== verification/Published_Patches.thy ===== *)
theory Published_Patches
  imports Result_Patches_Contract
begin

text \<open>
  The properties of result patches: the round trip of publication, what a successful load has verified,
  the footprint of a patch in the arrays of the site, and the agreement of the composition in
  \<open>jobs.py\<close> with the patch's own placement.
\<close>

section \<open>Two placements of a patch\<close>

lemma upto_map_int: "[0..int n - 1] = map int [0..<n]"
proof (induction n)
  case (Suc n)
  have "[0..int (Suc n) - 1] = [0..int n - 1] @ [int n]" by (simp add: upto_rec2)
  then show ?case using Suc by simp
qed simp

lemma find_map_comp: "find P (map f xs) = map_option f (find (P \<circ> f) xs)"
  by (induction xs) auto

lemma find_cong_set: "(\<And>x. x \<in> set xs \<Longrightarrow> P x = Q x) \<Longrightarrow> find P xs = find Q xs"
  by (induction xs) auto

lemma planes_nat: "array_planes lib a = map int [0..<nat (hd (shape_of_array lib a))]"
proof (cases "0 \<le> hd (shape_of_array lib a)")
  case True
  then show ?thesis using upto_map_int [of "nat (hd (shape_of_array lib a))"] by (simp add: array_planes_def)
qed (simp add: array_planes_def)

lemma array_cell_nat:
  assumes "map_of arrays n = Some a" "in_window w i j"
  shows "array_cell lib w tm arrays n t i j =
    map_option (\<lambda>k. al_item (nl_arrays lib) a (int k) (i - rw_row_start w) (j - rw_col_start w))
      (find (\<lambda>k. tm (int k) = t) (rev [0..<nat (hd (shape_of_array lib a))]))"
  using assms by (simp add: array_cell_def planes_nat rev_map find_map_comp o_def option.map_comp)

lemma manifest_reads:
  "window_bounds (patch_manifest wp) =
     Inr (rw_row_start (wp_write_window wp), rw_row_stop (wp_write_window wp),
          rw_col_start (wp_write_window wp), rw_col_stop (wp_write_window wp))"
  "int_entries (map_of (patch_manifest wp) ''time_indices'') =
     Inr (case wp_time_indices wp of Some ts \<Rightarrow> ts | None \<Rightarrow> [0..wp_n_time_steps wp - 1])"
  by (simp_all add: window_bounds_def window_entry_def patch_manifest_def window_dict_def py_int_def int_entries_def)

text \<open>Where a composition puts a plane: the whole shift is the start of a patch without indices.\<close>

definition time_shift :: "'a result_patch \<Rightarrow> int" where
  "time_shift p = (if rp_time_indices p = None then rp_time_start p else 0)"

lemma composition_cell:
  assumes ok: "check_patch lib p = Inr u" and wp: "as_worker_patch lib p = Inr wp"
    and n: "map_of (rp_arrays p) n = Some a"
    and given: "times_given (nl_arrays lib) steps (worker_publication wp) n"
  shows "cell_of (nl_arrays lib) steps (worker_publication wp) n t i j = patch_cell lib p n (t + time_shift p) i j"
proof (cases "in_window (rp_write_window p) i j")
  case False
  then show ?thesis
    using wp n by (auto simp: as_worker_patch_def cell_of_def worker_publication_def manifest_reads in_window_def
        patch_cell_def array_cell_def dest!: map_sum_Inr)
next
  case True
  obtain m where m: "patch_time_steps lib p = Inr m" "shape_of_array lib a = [m, rw_height (rp_write_window p), rw_width (rp_write_window p)]"
    using check_arrayD [OF check_patchD(5) [OF ok map_of_SomeD [OF n]]] by auto
  have w: "wp = \<lparr>wp_write_window = rp_write_window p, wp_time_indices = rp_time_indices p, wp_n_time_steps = m, wp_arrays = rp_arrays p\<rparr>"
    using wp m(1) by (simp add: as_worker_patch_def)
  have hd: "np_shape (al_codec (nl_arrays lib)) a ! 0 = m" using m(2) by (simp add: shape_of_array_def)
  define ts where "ts = (case rp_time_indices p of Some ts \<Rightarrow> ts | None \<Rightarrow> [0..m - 1])"
  have fence: "(ts \<noteq> [] \<and> int (length ts) = m) \<or> m = steps"
    using given n by (cases "rp_time_indices p") (auto simp: times_given_def worker_publication_def manifest_reads w hd ts_def)
  have cell: "cell_of (nl_arrays lib) steps (worker_publication wp) n t i j =
      map_option (\<lambda>k. al_item (nl_arrays lib) a (int k) (i - rw_row_start (rp_write_window p)) (j - rw_col_start (rp_write_window p)))
        (last_index (publication_times (nl_arrays lib) steps ts a) t)"
    using True n
    by (cases "rp_time_indices p") (simp_all add: cell_of_def worker_publication_def manifest_reads in_window_def w ts_def)
  have times: "length (publication_times (nl_arrays lib) steps ts a) = nat m \<and>
      (\<forall>k<nat m. plane_time p (int k) = publication_times (nl_arrays lib) steps ts a ! k + time_shift p)"
  proof (cases "rp_time_indices p")
    case (Some idx)
    have "check_indices (rp_time_start p) (rp_time_stop p) idx = Inr ()" by (rule check_patchD(4) [OF ok Some])
    then have "idx \<noteq> []" by (auto simp: check_indices_def split: if_splits)
    moreover have "m = int (length idx)" using m(1) Some by (simp add: patch_time_steps_def)
    ultimately show ?thesis using Some
      by (simp add: publication_times_def ts_def hd plane_time_def time_shift_def)
  next
    case None
    have "publication_times (nl_arrays lib) steps ts a = [0..m - 1]"
      using fence by (auto simp: publication_times_def hd ts_def None)
    then show ?thesis using None by (simp add: plane_time_def time_shift_def)
  qed
  have "last_index (publication_times (nl_arrays lib) steps ts a) t =
      find (\<lambda>k. plane_time p (int k) = t + time_shift p) (rev [0..<nat m])"
    unfolding last_index_def using times by (auto intro!: find_cong_set)
  then show ?thesis
    using array_cell_nat [OF n True, of lib "plane_time p" "t + time_shift p"] cell m(2) by (simp add: patch_cell_def)
qed

section \<open>Properties\<close>

text \<open>C13: a published patch loads back as it was. For array files that read back what was written,
  staging and publishing a well-formed patch succeeds when its revision directory is free; the results
  then hold one more directory, the staging directory of the job is gone, and loading the directory
  verifies every digest and returns the patch: all its fields and the arrays of its variables, with the
  digests of the files.\<close>

theorem published_patch_loads_back:
  assumes "npy_files lib" "check_patch lib p = Inr ()" "publishable p"
    and "map_of results (final_name revision (staging_name show (rp_job_id p))) = None"
  shows "\<exists>staging' p' results' directory.
    stage_patch show lib p staging = Inr (staging', staging_name show (rp_job_id p), p') \<and>
    publish_staged_patch (staging_name show (rp_job_id p)) revision (staging', results) =
      Inr ((AList.delete (staging_name show (rp_job_id p)) staging', results'),
           final_name revision (staging_name show (rp_job_id p))) \<and>
    map_of results' = (map_of results)(final_name revision (staging_name show (rp_job_id p)) \<mapsto> directory) \<and>
    load_patch show lib directory = Inr (p\<lparr>
      rp_arrays := dict_for (rp_variables p) (\<lambda>n. the (map_of (rp_arrays p) n)),
      rp_checksums := sorted_items (dict_for (rp_variables p)
        (\<lambda>n. JStr (sha256_file lib (np_save lib (the (map_of (rp_arrays p) n))))))\<rparr>)"
proof -
  define d where "d = \<lparr>pd_document = Some (document (p\<lparr>rp_checksums := patch_digests lib p\<rparr>)), pd_files = patch_files lib p\<rparr>"
  have s: "stage_patch show lib p staging = Inr (AList.update (staging_name show (rp_job_id p)) d staging,
      staging_name show (rp_job_id p), p\<lparr>rp_checksums := patch_digests lib p\<rparr>)"
    by (simp only: stage_patch_value [OF assms(2)] d_def)
  have l: "load_patch show lib d = Inr (stored_patch lib p)"
    unfolding d_def by (rule load_staged [OF assms(1-3)])
  show ?thesis
    using s l assms(4) by (auto simp: publish_staged_patch_def stored_patch_def patch_digests_def)
qed

lemma load_array_verified:
  assumes "fold_exc (load_array show lib d checksums) [] names = Inr arrays"
  shows "\<forall>v\<in>set names. \<exists>n b a. v = JStr n \<and> map_of (pd_files d) n = Some b \<and>
    map_of (entries_of checksums) n = Some (JStr (sha256_file lib b)) \<and> np_load lib b = Inr a \<and> map_of arrays n = Some a"
proof -
  have step: "\<exists>n b a. v = JStr n \<and> map_of (pd_files d) n = Some b \<and>
      map_of (entries_of checksums) n = Some (JStr (sha256_file lib b)) \<and> np_load lib b = Inr a \<and> acc' = AList.update n a acc"
    if step: "load_array show lib d checksums acc v = Inr acc'" for acc v acc'
  proof -
    obtain b where b: "map_of (pd_files d) (str_of show v) = Some b"
      using step by (cases "map_of (pd_files d) (str_of show v)") (simp_all add: load_array_def Let_def)
    obtain n where n: "v = JStr n" using step b by (cases v) (simp_all add: load_array_def Let_def)
    then obtain r where "subscript checksums n = Inr r" "check_digest (sha256_file lib b) r = Inr ()"
      "map_sum Patch_Raised (\<lambda>a. AList.update n a acc) (np_load lib b) = Inr acc'"
      using step b by (auto simp: load_array_def str_of_def bind_exc_Inr Let_def split: if_splits)
    moreover from this(2) have "r = JStr (sha256_file lib b)" by (auto simp: check_digest_def split: if_splits json.splits)
    moreover have "map_of (entries_of checksums) n = Some r" if "subscript checksums n = Inr r"
      using that by (cases checksums) (simp_all add: entries_of_def split: option.splits)
    ultimately show ?thesis using n b by (auto simp: str_of_def dest!: map_sum_InrE)
  qed
  show ?thesis
    using assms
  proof (induction names arbitrary: arrays rule: rev_induct)
    case (snoc v names)
    obtain acc where acc: "fold_exc (load_array show lib d checksums) [] names = Inr acc"
      "load_array show lib d checksums acc v = Inr arrays"
      using snoc.prems by (auto simp: fold_exc_append split: sum.splits)
    obtain n b a where v: "v = JStr n" "map_of (pd_files d) n = Some b"
      "map_of (entries_of checksums) n = Some (JStr (sha256_file lib b))" "np_load lib b = Inr a" "arrays = AList.update n a acc"
      using step [OF acc(2)] by blast
    show ?case
    proof
      fix x assume x: "x \<in> set (names @ [v])"
      show "\<exists>n b a. x = JStr n \<and> map_of (pd_files d) n = Some b \<and>
        map_of (entries_of checksums) n = Some (JStr (sha256_file lib b)) \<and> np_load lib b = Inr a \<and> map_of arrays n = Some a"
      proof (cases "x = v")
        case True
        then show ?thesis using v by auto
      next
        case False
        then obtain n' b' a' where "x = JStr n'" "map_of (pd_files d) n' = Some b'"
          "map_of (entries_of checksums) n' = Some (JStr (sha256_file lib b'))" "np_load lib b' = Inr a'" "map_of acc n' = Some a'"
          using snoc.IH [OF acc(1)] x by auto
        then show ?thesis using False v by auto
      qed
    qed
  qed simp
qed

text \<open>C14: what loads was verified. When a patch directory loads, its document has the supported schema
  version; every variable has its file, whose digest is the recorded one, and the loaded array is what
  the file holds; the patch passes the checks of the constructor, so each array has one plane for each
  of its time steps and the extent of the write window. A dropped, cut or changed file, or a dropped
  digest, never loads.\<close>

theorem loaded_patch_verified:
  assumes "load_patch show lib d = Inr p"
  shows "(\<exists>doc v. pd_document d = Some doc \<and> get_of doc ''schema_version'' = Inr v \<and>
      (\<exists>x. v = Some x \<and> py_int x = Inr RESULT_PATCH_SCHEMA_VERSION)) \<and>
    check_patch lib p = Inr () \<and>
    (\<forall>n\<in>set (rp_variables p). \<exists>b a. map_of (pd_files d) n = Some b \<and>
       map_of (rp_checksums p) n = Some (JStr (sha256_file lib b)) \<and>
       np_load lib b = Inr a \<and> map_of (rp_arrays p) n = Some a \<and>
       (\<exists>steps. patch_time_steps lib p = Inr steps \<and>
          shape_of_array lib a = [steps, rw_height (rp_write_window p), rw_width (rp_write_window p)]))"
proof -
  obtain doc names checksums arrays where doc: "read_patch_metadata d = Inr doc"
    and names: "bind_exc (subscript doc ''variables'') json_iter = Inr names"
    and arrays: "fold_exc (load_array show lib d checksums) [] names = Inr arrays"
    and p: "patch_from show doc names arrays (entries_of checksums) = Inr p" "check_patch lib p = Inr ()"
    using assms by (auto simp: load_patch_def bind_exc_Inr [of "read_patch_metadata d"]
        bind_exc_Inr [of "patch_raising x" for x] bind_exc_Inr [of "fold_exc f s xs" for f s xs]
        bind_exc_Inr [of "check_patch lib q" for q] dest!: map_sum_InrE)
  have fields: "rp_variables p = names_of show names" "rp_arrays p = arrays" "rp_checksums p = entries_of checksums"
    using p(1) by (auto simp: patch_from_def bind_exc_Inr)
  have verified: "\<forall>v\<in>set names. \<exists>n b a. v = JStr n \<and> map_of (pd_files d) n = Some b \<and>
    map_of (entries_of checksums) n = Some (JStr (sha256_file lib b)) \<and> np_load lib b = Inr a \<and> map_of arrays n = Some a"
    by (rule load_array_verified [OF arrays])
  have schema: "\<exists>doc v. pd_document d = Some doc \<and> get_of doc ''schema_version'' = Inr v \<and>
      (\<exists>x. v = Some x \<and> py_int x = Inr RESULT_PATCH_SCHEMA_VERSION)"
    using doc by (auto simp: read_patch_metadata_def bind_exc_Inr RESULT_PATCH_SCHEMA_VERSION_def py_int_def
        split: option.splits if_splits)
  have each: "\<exists>b a. map_of (pd_files d) n = Some b \<and>
       map_of (rp_checksums p) n = Some (JStr (sha256_file lib b)) \<and>
       np_load lib b = Inr a \<and> map_of (rp_arrays p) n = Some a \<and>
       (\<exists>steps. patch_time_steps lib p = Inr steps \<and>
          shape_of_array lib a = [steps, rw_height (rp_write_window p), rw_width (rp_write_window p)])"
    if n: "n \<in> set (rp_variables p)" for n
  proof -
    obtain v where v: "v \<in> set names" "n = str_of show v" using n by (auto simp: fields names_of_def)
    then obtain b a where ba: "v = JStr n" "map_of (pd_files d) n = Some b"
      "map_of (entries_of checksums) n = Some (JStr (sha256_file lib b))" "np_load lib b = Inr a" "map_of arrays n = Some a"
      using verified by (force simp: str_of_def)
    have "check_array lib p (n, a) = Inr ()"
      using check_patchD(5) [OF p(2), of "(n, a)"] map_of_SomeD [OF ba(5)] by (simp add: fields)
    then obtain steps where "patch_time_steps lib p = Inr steps"
      "shape_of_array lib a = [steps, rw_height (rp_write_window p), rw_width (rp_write_window p)]"
      by (rule check_arrayD) simp
    then show ?thesis using ba by (simp add: fields)
  qed
  show ?thesis using schema p(2) each by blast
qed

text \<open>C15: a patch stays in its window. Written into arrays of the site, a patch changes no cell outside
  its write window, not even when it fails half way; and a well-formed patch whose times are times of the
  site and whose variables the site has is written without error, each cell of the window showing
  the plane of its time where the patch has one and what it showed before elsewhere.\<close>

theorem patch_stays_in_window:
  assumes "window_on (rp_write_window p) (steps, rows, cols)" "arrays_on (steps, rows, cols) target"
  shows "(\<forall>n dst. map_of target n = Some dst \<longrightarrow> (\<exists>dst'. map_of (fst (apply_into lib p target)) n = Some dst' \<and>
      (\<forall>t i j. \<not> in_window (rp_write_window p) i j \<longrightarrow> fd_item dst' t i j = fd_item dst t i j))) \<and>
    (check_patch lib p = Inr () \<and> distinct (dict_keys (rp_arrays p)) \<and>
     (\<forall>e\<in>set (rp_arrays p). map_of target (fst e) \<noteq> None \<and>
        (\<forall>k\<in>set (array_planes lib (snd e)). 0 \<le> plane_time p k \<and> plane_time p k < steps)) \<and>
     (\<forall>ts. rp_time_indices p = Some ts \<longrightarrow> (\<forall>t\<in>set ts. t < steps)) \<longrightarrow>
     snd (apply_into lib p target) = None \<and>
     (\<forall>n dst. map_of target n = Some dst \<longrightarrow> (\<exists>dst'. map_of (fst (apply_into lib p target)) n = Some dst' \<and>
        (\<forall>t i j. fd_item dst' t i j = (case patch_cell lib p n t i j of Some v \<Rightarrow> v | None \<Rightarrow> fd_item dst t i j)))))"
proof (intro conjI impI)
  obtain target' e where a: "apply_arrays lib p (rp_arrays p) target = (target', e)" by fastforce
  show "\<forall>n dst. map_of target n = Some dst \<longrightarrow> (\<exists>dst'. map_of (fst (apply_into lib p target)) n = Some dst' \<and>
      (\<forall>t i j. \<not> in_window (rp_write_window p) i j \<longrightarrow> fd_item dst' t i j = fd_item dst t i j))"
    using apply_arrays_confined [OF assms a] by (fastforce simp: apply_into_def a)
next
  assume h: "check_patch lib p = Inr () \<and> distinct (dict_keys (rp_arrays p)) \<and>
     (\<forall>e\<in>set (rp_arrays p). map_of target (fst e) \<noteq> None \<and>
        (\<forall>k\<in>set (array_planes lib (snd e)). 0 \<le> plane_time p k \<and> plane_time p k < steps)) \<and>
     (\<forall>ts. rp_time_indices p = Some ts \<longrightarrow> (\<forall>t\<in>set ts. t < steps))"
  note ok = h [THEN conjunct1]
  have entry: "map_of target m \<noteq> None \<and> tl (shape_of_array lib a) = [rw_height (rp_write_window p), rw_width (rp_write_window p)] \<and>
      (\<forall>k\<in>set (array_planes lib a). 0 \<le> plane_time p k \<and> plane_time p k < steps)" if "(m, a) \<in> set (rp_arrays p)" for m a
    using h that check_patchD(5) [OF ok that] by (auto elim!: check_arrayD)
  have idx: "Max (set ts) < steps" if "rp_time_indices p = Some ts" for ts
  proof -
    have "ts \<noteq> []" using check_patchD(4) [OF ok that] by (auto simp: check_indices_def split: if_splits)
    then show ?thesis using h that by simp
  qed
  obtain target' where t: "apply_arrays lib p (rp_arrays p) target = (target', None)"
    "\<forall>n dst. map_of target n = Some dst \<longrightarrow> (\<exists>dst'. map_of target' n = Some dst' \<and> field_on (steps, rows, cols) dst' \<and>
       (\<forall>t i j. fd_item dst' t i j =
          (case array_cell lib (rp_write_window p) (plane_time p) (rp_arrays p) n t i j of Some v \<Rightarrow> v | None \<Rightarrow> fd_item dst t i j)))"
    using apply_arrays_exact [OF assms _ entry idx] h by blast
  show "snd (apply_into lib p target) = None" by (simp add: apply_into_def t(1))
  show "\<forall>n dst. map_of target n = Some dst \<longrightarrow> (\<exists>dst'. map_of (fst (apply_into lib p target)) n = Some dst' \<and>
        (\<forall>t i j. fd_item dst' t i j = (case patch_cell lib p n t i j of Some v \<Rightarrow> v | None \<Rightarrow> fd_item dst t i j)))"
    using t(2) by (fastforce simp: apply_into_def t(1) patch_cell_def)
qed

text \<open>C12: a composition shifts a suffix. Overlaying a well-formed patch in a composition shows, at every
  time \<open>t\<close>, the plane the patch holds for \<open>t + time_start\<close> when the patch carries no time
  indices, and the plane it holds for \<open>t\<close> when it does. So a composition places a patch where the
  patch places itself when it is sparse or starts at time zero; a patch of the last steps only
  (\<open>time_start = r0\<close>, no indices) lands at the first steps instead.\<close>

theorem composition_shifts_suffix:
  assumes "check_patch lib p = Inr ()" "as_worker_patch lib p = Inr wp" "0 \<le> steps"
    and "on_site (nl_arrays lib) (steps, rows, cols) (worker_publication wp)"
    and "arrays_on (steps, rows, cols) state" "set variables \<subseteq> set (dict_keys state)"
    and "apply_result_into_state (nl_arrays lib) state (patch_manifest wp) (wp_arrays wp) variables = Inr state'"
    and "n \<in> set variables" "map_of (rp_arrays p) n = Some a"
  shows "\<exists>old new. map_of state n = Some old \<and> map_of state' n = Some new \<and>
    (\<forall>t i j. fd_item new t i j =
       (case patch_cell lib p n (t + (if rp_time_indices p = None then rp_time_start p else 0)) i j of
          Some v \<Rightarrow> v | None \<Rightarrow> fd_item old t i j))"
proof -
  define V where "V = (\<lambda>m. fd_item (the (map_of state m)))"
  have cells: "shows_cells (set variables) (steps, rows, cols) V state"
    unfolding shows_cells_def
  proof
    fix m assume "m \<in> set variables"
    then obtain old where "map_of state m = Some old"
      using assms(6) map_of_None_keys [of state m] by (cases "map_of state m") auto
    then show "\<exists>a. map_of state m = Some a \<and> field_on (steps, rows, cols) a \<and> (\<forall>t i j. fd_item a t i j = V m t i j)"
      using assms(5) by (simp add: arrays_on_def V_def)
  qed
  have on: "on_site (nl_arrays lib) (steps, rows, cols) (patch_manifest wp, wp_arrays wp)"
    using assms(4) by (simp add: worker_publication_def)
  obtain new where new: "map_of state' n = Some new" "\<And>t i j. fd_item new t i j =
      (case cell_of (nl_arrays lib) steps (patch_manifest wp, wp_arrays wp) n t i j of Some v \<Rightarrow> v | None \<Rightarrow> V n t i j)"
    using apply_result_cells [OF assms(7) on assms(3) cells] assms(8) by (fastforce simp: shows_cells_def)
  have given: "times_given (nl_arrays lib) steps (worker_publication wp) n"
    using apply_result_fenced [OF assms(7) on assms(3) cells assms(8)] by (simp add: worker_publication_def)
  obtain old where old: "map_of state n = Some old" using cells assms(8) by (auto simp: shows_cells_def)
  have V: "V n = fd_item old" using old by (simp add: V_def)
  have "fd_item new t i j = (case patch_cell lib p n (t + time_shift p) i j of Some v \<Rightarrow> v | None \<Rightarrow> fd_item old t i j)" for t i j
    using new(2) [of t i j] composition_cell [OF assms(1,2,9) given, of t i j]
    unfolding V by (simp add: worker_publication_def)
  then show ?thesis using new(1) old by (simp add: time_shift_def)
qed

section \<open>Array files of little-endian floats\<close>

text \<open>A file is the dimensions in unary, a mark, and the items.\<close>

definition npy_bytes :: "f4_array \<Rightarrow> bytes" where
  "npy_bytes a = concat (map (\<lambda>d. replicate (nat d) 1 @ [0]) (f4_dims a)) @ [2] @ concat (map le_bytes (f4_data a))"

fun read_dims :: "int \<Rightarrow> bytes \<Rightarrow> (int list \<times> bytes) option" where
  "read_dims n [] = None"
| "read_dims n (b # bs) =
     (if b = 1 then read_dims (n + 1) bs
      else if b = 0 then map_option (\<lambda>(ds, rest). (n # ds, rest)) (read_dims 0 bs)
      else Some ([], bs))"

definition npy_read :: "bytes \<Rightarrow> py_error + f4_array" where
  "npy_read b =
     (case read_dims 0 b of
        None \<Rightarrow> Inl (ValueError ''not an array file'')
      | Some (ds, rest) \<Rightarrow> Inr \<lparr>f4_dims = ds, f4_data = le_words rest\<rparr>)"

definition site_files :: "(f4_array, 32 word) npy_lib" where
  "site_files = \<lparr>nl_arrays = site_lib, np_is_float32 = f4_ok, np_save = npy_bytes, np_load = npy_read,
     sha256_file = map (\<lambda>w. char_of (unat w))\<rparr>"

lemma read_dims_ones: "read_dims n (replicate k 1 @ bs) = read_dims (n + int k) bs"
  by (induction k arbitrary: n) (simp_all add: add.assoc)

lemma read_dims_back:
  "\<forall>d\<in>set ds. 0 \<le> d \<Longrightarrow> read_dims 0 (concat (map (\<lambda>d. replicate (nat d) 1 @ [0]) ds) @ [2] @ rest) = Some (ds, rest)"
  by (induction ds) (simp_all add: read_dims_ones)

interpretation site_npy: npy_files site_files
proof
  fix a assume "np_is_float32 site_files a"
  then have "\<forall>d\<in>set (f4_dims a). 0 \<le> d" by (simp add: site_files_def f4_ok_def)
  then show "np_load site_files (np_save site_files a) = Inr a"
    by (simp add: site_files_def npy_read_def npy_bytes_def read_dims_back [simplified] le_words_bytes)
qed

section \<open>A suffix patch\<close>

text \<open>The site has two time steps; the patch recomputes the second one only.\<close>

definition suffix_patch :: "f4_array result_patch" where
  "suffix_patch = \<lparr>rp_job_id = JStr ''j1'', rp_scene_revision = 3, rp_mode = JStr ''full'', rp_write_window = job_window,
     rp_read_window = job_window, rp_site_id = JStr ''site'', rp_tile_key = JStr ''0_0'', rp_cache_manifest_sha256 = JStr ''c'',
     rp_model_version = JStr ''m'', rp_variables = [''utci''], rp_arrays = [(''utci'', \<lparr>f4_dims = [1, 1, 2], f4_data = [9, 10]\<rparr>)],
     rp_time_start = 1, rp_time_stop = Some 2, rp_time_indices = None, rp_schema_version = 1, rp_created_utc = JStr ''t'',
     rp_checksums = []\<rparr>"

definition blank_state :: "32 word field dict" where
  "blank_state = dict_for [''utci''] (\<lambda>_. np_zeros 0 (2, 5, 2))"

definition suffix_worker :: "f4_array worker_patch" where
  "suffix_worker = \<lparr>wp_write_window = job_window, wp_time_indices = None, wp_n_time_steps = 1,
     wp_arrays = [(''utci'', \<lparr>f4_dims = [1, 1, 2], f4_data = [9, 10]\<rparr>)]\<rparr>"

lemma suffix_checked: "check_patch site_files suffix_patch = Inr ()"
  by code_simp

lemma suffix_publishable: "publishable suffix_patch"
  by (simp add: publishable_def suffix_patch_def job_window_def RESULT_PATCH_SCHEMA_VERSION_def)

lemma suffix_as_worker: "as_worker_patch site_files suffix_patch = Inr suffix_worker"
  by code_simp

lemma blank_on: "arrays_on (2, 5, 2) blank_state"
  by (auto simp: arrays_on_def blank_state_def dict_for_def np_zeros_def field_on_def split: if_splits)

theorem published_patch_loads_back_witness:
  "\<exists>directory. load_patch (\<lambda>_. []) site_files directory = Inr (suffix_patch\<lparr>
      rp_arrays := dict_for [''utci''] (\<lambda>n. the (map_of (rp_arrays suffix_patch) n)),
      rp_checksums := sorted_items (dict_for [''utci''] (\<lambda>n. JStr (sha256_file site_files (np_save site_files (the (map_of (rp_arrays suffix_patch) n))))))\<rparr>)"
  using published_patch_loads_back [OF site_npy.npy_files_axioms suffix_checked suffix_publishable, of "[]" 3 "\<lambda>_. []" "[]"]
  by (fastforce simp: suffix_patch_def)

definition suffix_directory :: patch_directory where
  "suffix_directory = \<lparr>pd_document = Some (document (suffix_patch\<lparr>rp_checksums := patch_digests site_files suffix_patch\<rparr>)),
     pd_files = patch_files site_files suffix_patch\<rparr>"

lemma suffix_loads: "load_patch (\<lambda>_. []) site_files suffix_directory = Inr (stored_patch site_files suffix_patch)"
  unfolding suffix_directory_def
  by (rule load_staged [OF site_npy.npy_files_axioms suffix_checked suffix_publishable])

theorem loaded_patch_verified_witness:
  "load_patch (\<lambda>_. []) site_files suffix_directory = Inr (stored_patch site_files suffix_patch) \<and>
   (\<exists>b. map_of (pd_files suffix_directory) ''utci'' = Some b \<and>
      map_of (rp_checksums (stored_patch site_files suffix_patch)) ''utci'' = Some (JStr (sha256_file site_files b)))"
proof -
  have "''utci'' \<in> set (rp_variables (stored_patch site_files suffix_patch))" by (simp add: stored_patch_def suffix_patch_def)
  then show ?thesis using suffix_loads loaded_patch_verified [OF suffix_loads] by blast
qed

lemma suffix_cells:
  "patch_cell site_files suffix_patch ''utci'' 1 4 0 = Some 9" "patch_cell site_files suffix_patch ''utci'' 0 4 0 = None"
  "patch_cell site_files suffix_patch ''utci'' 2 4 0 = None"
  by code_simp+

theorem patch_stays_in_window_witness:
  "snd (apply_into site_files suffix_patch blank_state) = None \<and>
   (\<exists>dst. map_of (fst (apply_into site_files suffix_patch blank_state)) ''utci'' = Some dst \<and> fd_item dst 1 4 0 = 9)"
proof -
  have w: "window_on (rp_write_window suffix_patch) (2, 5, 2)" by (simp add: window_on_def suffix_patch_def job_window_def)
  have d: "map_of blank_state ''utci'' = Some (np_zeros 0 (2, 5, 2))" by (simp add: blank_state_def dict_for_def)
  have h: "check_patch site_files suffix_patch = Inr () \<and> distinct (dict_keys (rp_arrays suffix_patch)) \<and>
     (\<forall>e\<in>set (rp_arrays suffix_patch). map_of blank_state (fst e) \<noteq> None \<and>
        (\<forall>k\<in>set (array_planes site_files (snd e)). 0 \<le> plane_time suffix_patch k \<and> plane_time suffix_patch k < 2)) \<and>
     (\<forall>ts. rp_time_indices suffix_patch = Some ts \<longrightarrow> (\<forall>t\<in>set ts. t < 2))"
    using suffix_checked d
    by (simp add: suffix_patch_def array_planes_def shape_of_array_def site_files_def site_lib_def f4_lib_def plane_time_def)
  show ?thesis
    using patch_stays_in_window [OF w blank_on, of site_files] h d suffix_cells(1) by fastforce
qed

lemma suffix_composed: "\<not> isl (apply_result_into_state site_lib blank_state (patch_manifest suffix_worker) (wp_arrays suffix_worker) [''utci''])"
  by code_simp

lemma suffix_on_site: "on_site site_lib (2, 5, 2) (worker_publication suffix_worker)"
  by code_simp

theorem composition_shifts_suffix_witness:
  "\<exists>state new. apply_result_into_state site_lib blank_state (patch_manifest suffix_worker) (wp_arrays suffix_worker) [''utci''] = Inr state \<and>
     map_of state ''utci'' = Some new \<and> fd_item new 0 4 0 = 9 \<and> fd_item new 1 4 0 = 0"
proof -
  obtain state where s: "apply_result_into_state site_lib blank_state (patch_manifest suffix_worker) (wp_arrays suffix_worker) [''utci''] = Inr state"
    using suffix_composed by (cases "apply_result_into_state site_lib blank_state (patch_manifest suffix_worker) (wp_arrays suffix_worker) [''utci'']") auto
  have lib: "nl_arrays site_files = site_lib" by (simp add: site_files_def)
  have d: "map_of blank_state ''utci'' = Some (np_zeros 0 (2, 5, 2))" by (simp add: blank_state_def dict_for_def)
  have "\<exists>old new. map_of blank_state ''utci'' = Some old \<and> map_of state ''utci'' = Some new \<and>
    (\<forall>t i j. fd_item new t i j =
       (case patch_cell site_files suffix_patch ''utci'' (t + (if rp_time_indices suffix_patch = None then rp_time_start suffix_patch else 0)) i j of
          Some v \<Rightarrow> v | None \<Rightarrow> fd_item old t i j))"
    by (rule composition_shifts_suffix [OF suffix_checked suffix_as_worker, of 2, unfolded lib, OF _ suffix_on_site blank_on _ s])
      (simp_all add: blank_state_def suffix_patch_def first_keys_set)
  then obtain new where new: "map_of state ''utci'' = Some new" "\<And>t i j. fd_item new t i j =
       (case patch_cell site_files suffix_patch ''utci'' (t + 1) i j of Some v \<Rightarrow> v | None \<Rightarrow> fd_item (np_zeros 0 (2, 5, 2)) t i j)"
    using d by (auto simp: suffix_patch_def)
  show ?thesis
    using s new(1) new(2) [of 0 4 0] new(2) [of 1 4 0] suffix_cells by (simp add: np_zeros_def)
qed

end
